(* ===== verification/LS_Prelude.thy ===== *)
theory LS_Prelude
  imports Main "HOL-Library.Word"
begin

unbundle bit_operations_syntax

text \<open>
  Shared vocabulary of the development: the fixed-width integer types of
  \<^verbatim>\<open>common/misc/fixed_types.h\<close>, the result type in which a failed assertion or a
  \<^verbatim>\<open>LOG_PRINT_ERROR\<close> is a value, and generic lemmas on lists and words that the
  component theories use.
\<close>

section \<open>Fixed-width types\<close>

type_synonym UInt8 = "8 word"
type_synonym UInt16 = "16 word"
type_synonym UInt32 = "32 word"
type_synonym UInt64 = "64 word"
type_synonym IntPtr = "64 word"
type_synonym Byte = "8 word"

text \<open>Core and thread identifiers are signed 32-bit numbers on which the code does no arithmetic.\<close>

type_synonym core_id_t = int
type_synonym thread_id_t = int

definition INVALID_CORE_ID :: core_id_t where
  "INVALID_CORE_ID = -1"

definition INVALID_THREAD_ID :: thread_id_t where
  "INVALID_THREAD_ID = -1"

definition INVALID_ADDRESS :: IntPtr where
  "INVALID_ADDRESS = -1"

section \<open>Errors as values\<close>

text \<open>
  \<^verbatim>\<open>assert\<close>, \<^verbatim>\<open>LOG_ASSERT_ERROR\<close> and \<^verbatim>\<open>LOG_PRINT_ERROR\<close> end the simulation.
  The model returns the failed check instead; \<open>OutOfRange\<close> stands for an array access the
  source makes without a check, \<open>DivByZero\<close> for an integer division that traps,
  \<open>NullPointer\<close> for a null pointer that is followed,
  \<open>NonTermination\<close> for a run that never returns.
\<close>

datatype sim_error =
    AssertError string
  | LogError string
  | OutOfRange
  | DivByZero
  | NullPointer
  | NonTermination

type_synonym 'a res = "sim_error + 'a"

definition bindE :: "'a res \<Rightarrow> ('a \<Rightarrow> 'b res) \<Rightarrow> 'b res" where
  "bindE m f = (case m of Inl e \<Rightarrow> Inl e | Inr x \<Rightarrow> f x)"

definition assertE :: "bool \<Rightarrow> sim_error \<Rightarrow> unit res" where
  "assertE b e = (if b then Inr () else Inl e)"

named_theorems res_simps \<open>unfolding of the error-propagating combinators\<close>
named_theorems wf_intros \<open>preservation of the components' well-formedness invariants\<close>
named_theorems bridge \<open>from the source's loops to closed forms\<close>

lemma bindE_simps [simp, res_simps]:
  "bindE (Inl e) f = Inl e"
  "bindE (Inr x) f = f x"
  by (simp_all add: bindE_def)

text \<open>Evaluation goes under a \<open>case\<close> only when its scrutinee is known, so a sequence is run step by step.\<close>

lemma bindE_case [code_unfold]: "bindE m f = (case m of Inl e \<Rightarrow> Inl e | Inr x \<Rightarrow> f x)"
  by (fact bindE_def)

lemma bindE_Inr_iff [res_simps]: "bindE m f = Inr y \<longleftrightarrow> (\<exists>x. m = Inr x \<and> f x = Inr y)"
  by (cases m) auto

lemma assertE_Inr_iff [simp, res_simps]: "assertE b e = Inr u \<longleftrightarrow> b"
  by (simp add: assertE_def)

lemma assertE_simps [simp]:
  "b \<Longrightarrow> assertE b e = Inr ()"
  "\<not> b \<Longrightarrow> assertE b e = Inl e"
  by (simp_all add: assertE_def)

lemma map_sum_Inr_iff [simp, res_simps]: "map_sum f g x = Inr y \<longleftrightarrow> (\<exists>z. x = Inr z \<and> y = g z)"
  by (cases x) auto

lemma bindE_cong: "m = m' \<Longrightarrow> (\<And>x. m' = Inr x \<Longrightarrow> f x = g x) \<Longrightarrow> bindE m f = bindE m' g"
  by (cases m') auto

lemma bindE_assoc: "bindE (bindE m f) g = bindE m (\<lambda>x. bindE (f x) g)"
  by (cases m) auto

section \<open>Lists\<close>

lemma find_upt_Some_iff:
  "List.find P [0..<n] = Some i \<longleftrightarrow> i < n \<and> P i \<and> (\<forall>j<i. \<not> P j)"
  by (auto simp: find_Some_iff)

lemma find_upt_None_iff: "List.find P [0..<n] = None \<longleftrightarrow> (\<forall>i<n. \<not> P i)"
  by (auto simp: find_None_iff)

lemma find_SomeD: "List.find P xs = Some x \<Longrightarrow> x \<in> set xs \<and> P x"
  by (auto simp: find_Some_iff)

lemma find_NoneD: "List.find P xs = None \<Longrightarrow> x \<in> set xs \<Longrightarrow> \<not> P x"
  by (auto simp: find_None_iff)

lemma find_append:
  "List.find P (xs @ ys) = (case List.find P xs of None \<Rightarrow> List.find P ys | Some x \<Rightarrow> Some x)"
  by (induction xs) auto

lemma length_fold_update [simp]:
  "(\<And>i ys. length (f i ys) = length ys) \<Longrightarrow> length (fold f is xs) = length xs"
  by (induction "is" arbitrary: xs) auto

text \<open>
  An in-place loop that rewrites each position from its own old value and from a value the
  loop never changes is a map.
\<close>

lemma fold_upt_update:
  assumes "n \<le> length xs"
  shows "fold (\<lambda>i ys. ys[i := f (ys ! i)]) [0..<n] xs = map f (take n xs) @ drop n xs"
  using assms
proof (induction n)
  case 0
  then show ?case by simp
next
  case (Suc n)
  let ?zs = "map f (take n xs) @ drop n xs"
  from Suc have "fold (\<lambda>i ys. ys[i := f (ys ! i)]) [0..<Suc n] xs = ?zs[n := f (?zs ! n)]"
    by simp
  also have "\<dots> = map f (take (Suc n) xs) @ drop (Suc n) xs"
    using Suc.prems
    by (simp add: list_update_append nth_append take_Suc_conv_app_nth Cons_nth_drop_Suc [symmetric])
  finally show ?case .
qed

lemma nth_map_upt [simp]: "i < n \<Longrightarrow> map f [0..<n] ! i = f i"
  by simp

section \<open>Words\<close>

lemma unat_of_nat_lt [simp]:
  "k < 2 ^ LENGTH('a) \<Longrightarrow> unat (of_nat k :: 'a::len word) = k"
  by (simp add: unat_of_nat take_bit_nat_eq_self)

lemma unat_lt: "unat w < 2 ^ LENGTH('a)" for w :: "'a::len word"
  by (rule unsigned_less)

lemma unat_exp:
  assumes "j < LENGTH('a)"
  shows "unat (2 ^ j :: 'a::len word) = 2 ^ j"
proof -
  have "unat (of_nat (2 ^ j) :: 'a word) = 2 ^ j"
    by (rule unat_of_nat_lt) (use assms in \<open>simp add: power_strict_increasing\<close>)
  then show ?thesis by simp
qed

lemma unat_plus_one:
  assumes "x < (y :: 'a::len word)"
  shows "unat (x + 1) = unat x + 1"
proof -
  from assms have "unat x < unat y" by (simp add: word_less_nat_alt)
  moreover have "unat y < 2 ^ LENGTH('a)" by (rule unsigned_less)
  ultimately have "unat x + unat (1 :: 'a word) < 2 ^ LENGTH('a)"
    unfolding unsigned_1 by linarith
  then show ?thesis by (simp add: unat_add_lem [THEN iffD1])
qed

lemma mask_eq_mod:
  fixes w :: "'a::len word"
  assumes "k < LENGTH('a)"
  shows "w AND (2 ^ k - 1) = w mod 2 ^ k"
  by (simp add: take_bit_eq_mod [symmetric] take_bit_eq_mask mask_eq_exp_minus_1)

lemma word_and_dec_less: "(n :: 'a::len word) \<noteq> 0 \<Longrightarrow> n AND (n - 1) < n"
  by (metis (no_types, lifting) measure_unat word_and_le2 word_less_nat_alt word_le_less_eq order_le_less_trans
      word_and_le1)

lemma unat_less_exp_iff_bits: "unat w < 2 ^ m \<longleftrightarrow> (\<forall>i. bit w i \<longrightarrow> i < m)"
proof -
  have "unat w < 2 ^ m \<longleftrightarrow> take_bit m (unat w) = unat w"
    by (simp add: take_bit_nat_eq_self_iff)
  also have "\<dots> \<longleftrightarrow> (\<forall>i. bit w i \<longrightarrow> i < m)"
    by (auto simp: bit_eq_iff bit_simps)
  finally show ?thesis .
qed

lemma unat_ucast_small:
  "unat w < 2 ^ LENGTH('b) \<Longrightarrow> unat (ucast (w :: 'a::len word) :: 'b::len word) = unat w"
  by (simp add: unsigned_ucast_eq take_bit_nat_eq_self)

lemma unat_ucast_up:
  assumes "LENGTH('a) \<le> LENGTH('b)"
  shows "unat (ucast (w :: 'a::len word) :: 'b::len word) = unat w"
proof (rule unat_ucast_small)
  have "unat w < 2 ^ LENGTH('a)" by simp
  also have "\<dots> \<le> 2 ^ LENGTH('b)" using assms by (intro power_increasing) simp_all
  finally show "unat w < 2 ^ LENGTH('b)" .
qed

lemma unat_ucast_32_64 [simp]: "unat (ucast (w :: UInt32) :: UInt64) = unat w"
  by (rule unat_ucast_up) simp

text \<open>A 64-bit value is determined by its bits from position \<open>p\<close> on and its low \<open>p\<close> bits.\<close>

lemma word_split_eqI:
  assumes "drop_bit p a = drop_bit p b" and "a AND mask p = b AND mask p"
  shows "a = (b :: 'a::len word)"
proof -
  have "a = push_bit p (drop_bit p a) + take_bit p a"
    by (simp add: bits_ident)
  also have "\<dots> = push_bit p (drop_bit p b) + take_bit p b"
    using assms by (simp add: take_bit_eq_mask)
  also have "\<dots> = b" by (simp add: bits_ident)
  finally show ?thesis .
qed

lemma word_divmod_eqI:
  assumes "a div n = b div n" and "a mod n = b mod (n :: 'a::len word)"
  shows "a = b"
  by (metis assms div_mult_mod_eq)

end
