(* ===== verification/LS_Utils.thy ===== *)
theory LS_Utils
  imports LS_Prelude
begin

unbundle bit_operations_syntax

text \<open>
  The numeric helpers of \<^verbatim>\<open>common/misc/utils.cc\<close>, the modular counter of
  \<^verbatim>\<open>common/misc/modulo_num.cc\<close> and the inlined generators of \<^verbatim>\<open>common/misc/rng.h\<close> and
  \<^verbatim>\<open>common/misc/random.h\<close>.
\<close>

section \<open>Definitions\<close>

definition isPower2 :: "UInt32 \<Rightarrow> bool" where
  "isPower2 n = ((n AND (n - 1)) = 0)"

definition floorLog2 :: "UInt32 \<Rightarrow> int" where
  "floorLog2 n0 =
     (if n0 = 0 then -1
      else
        let (p, n) = (if n0 AND 0xffff0000 \<noteq> 0 then (16, drop_bit 16 n0) else (0, n0));
            (p, n) = (if n AND 0x0000ff00 \<noteq> 0 then (p + 8, drop_bit 8 n) else (p, n));
            (p, n) = (if n AND 0x000000f0 \<noteq> 0 then (p + 4, drop_bit 4 n) else (p, n));
            (p, n) = (if n AND 0x0000000c \<noteq> 0 then (p + 2, drop_bit 2 n) else (p, n))
        in if n AND 0x00000002 \<noteq> 0 then p + 1 else p)"

definition ceilLog2 :: "UInt32 \<Rightarrow> int" where
  "ceilLog2 n = floorLog2 (n - 1) + 1"

function countBits_loop :: "UInt64 \<Rightarrow> UInt64 \<Rightarrow> UInt64" where
  "countBits_loop n result =
     (let n' = n AND (n - 1)
      in if n' = 0 then result else countBits_loop n' (result + 1))"
  by pat_completeness auto
termination
  by (relation "measure (\<lambda>(n, result). unat n)")
     (auto simp: word_less_nat_alt [symmetric] intro!: word_and_dec_less)

declare countBits_loop.simps [simp del]

definition countBits :: "UInt64 \<Rightarrow> UInt64" where
  "countBits n = (if n = 0 then 0 else countBits_loop n 1)"

record ModuloNum =
  m_value :: UInt32
  m_max_value :: UInt32

definition mk_ModuloNum :: "UInt32 \<Rightarrow> ModuloNum" where
  "mk_ModuloNum max_value = \<lparr>m_value = 0, m_max_value = max_value\<rparr>"

definition mod_rem :: "UInt32 \<Rightarrow> UInt32 \<Rightarrow> UInt32 res" where
  "mod_rem a b = (if b = 0 then Inl DivByZero else Inr (a mod b))"

definition mn_add :: "ModuloNum \<Rightarrow> ModuloNum \<Rightarrow> ModuloNum res" where
  "mn_add a num =
     bindE (assertE (m_max_value a = m_max_value num) (AssertError ''m_max_value == num.getMaxValue()''))
     (\<lambda>_. bindE (mod_rem (m_value a + m_value num) (m_max_value a)) (\<lambda>v. Inr (a\<lparr>m_value := v\<rparr>)))"

definition mn_sub :: "ModuloNum \<Rightarrow> ModuloNum \<Rightarrow> ModuloNum res" where
  "mn_sub a num =
     bindE (assertE (m_max_value a = m_max_value num) (AssertError ''m_max_value == num.getMaxValue()''))
     (\<lambda>_. Inr (a\<lparr>m_value := if m_value a \<ge> m_value num then m_value a - m_value num
                            else m_max_value a - m_value num + m_value a\<rparr>))"

definition mn_add_value :: "ModuloNum \<Rightarrow> UInt32 \<Rightarrow> ModuloNum res" where
  "mn_add_value a v = bindE (mod_rem v (m_max_value a)) (\<lambda>v. mn_add a (a\<lparr>m_value := v\<rparr>))"

definition mn_sub_value :: "ModuloNum \<Rightarrow> UInt32 \<Rightarrow> ModuloNum res" where
  "mn_sub_value a v = bindE (mod_rem v (m_max_value a)) (\<lambda>v. mn_sub a (a\<lparr>m_value := v\<rparr>))"

definition RNG_A :: UInt64 where "RNG_A = 0x5DEECE66D"
definition RNG_C :: UInt64 where "RNG_C = 0xB"
definition RNG_M :: UInt64 where "RNG_M = push_bit 48 1 - 1"

text \<open>The reference parameter \<^verbatim>\<open>state\<close> is returned beside the result.\<close>

definition rng_next :: "UInt64 \<Rightarrow> UInt64 \<times> UInt64" where
  "rng_next state = (let state' = (RNG_A * state + RNG_C) AND RNG_M in (drop_bit 16 state', state'))"

definition rng_seed :: "UInt64 \<Rightarrow> UInt64" where
  "rng_seed seed = push_bit 16 seed + 0x330E"

text \<open>\<^verbatim>\<open>Random::next(limit)\<close>: the new seed is returned beside the result.\<close>

definition random_next :: "UInt32 \<Rightarrow> UInt32 \<Rightarrow> UInt32 \<times> UInt32" where
  "random_next seed limit =
     (let seed' = seed * 1103515245 + 12345 in ((seed' div 65536) mod limit, seed'))"

section \<open>Binary logarithm\<close>

text \<open>
  A test of \<^verbatim>\<open>floorLog2\<close> against the upper half of the remaining bits decides whether the
  remaining number reaches \<open>2 ^ k\<close>.
\<close>

lemma high_bits_zero_iff:
  fixes n :: UInt32
  assumes "2 * k \<le> 32" and "unat n < 2 ^ (2 * k)"
  shows "n AND push_bit k (mask k) = 0 \<longleftrightarrow> unat n < 2 ^ k"
proof -
  have len: "bit n i \<Longrightarrow> i < 32" for i
    using bit_imp_le_length [of n i] by simp
  have "n AND push_bit k (mask k) = 0 \<longleftrightarrow> (\<forall>i. bit n i \<longrightarrow> \<not> (k \<le> i \<and> i - k < k))"
    using assms(1) by (auto simp: bit_eq_iff bit_simps dest: len)
  also have "\<dots> \<longleftrightarrow> (\<forall>i. bit n i \<longrightarrow> i < k)"
    using assms(2) by (fastforce simp: unat_less_exp_iff_bits)
  finally show ?thesis by (simp add: unat_less_exp_iff_bits)
qed

text \<open>One halving step of the search, on natural numbers.\<close>

definition log_step :: "nat \<Rightarrow> nat \<times> nat \<Rightarrow> nat \<times> nat" where
  "log_step k = (\<lambda>(p, n). if n < 2 ^ k then (p, n) else (p + k, n div 2 ^ k))"

definition log_inv :: "nat \<Rightarrow> nat \<Rightarrow> nat \<times> nat \<Rightarrow> bool" where
  "log_inv N b = (\<lambda>(p, n). 0 < n \<and> n < 2 ^ b \<and> n * 2 ^ p \<le> N \<and> N < (n + 1) * 2 ^ p)"

lemma log_step_inv:
  assumes "log_inv N (k + k) s"
  shows "log_inv N k (log_step k s)"
proof -
  obtain p n where s: "s = (p, n)" by (cases s)
  show ?thesis
  proof (cases "n < 2 ^ k")
    case True
    then show ?thesis using assms by (auto simp: s log_inv_def log_step_def)
  next
    case False
    define q where "q = n div 2 ^ k"
    have lo: "q * 2 ^ k \<le> n" by (simp add: q_def div_times_less_eq_dividend)
    have hi: "n + 1 \<le> (q + 1) * 2 ^ k"
      using dividend_less_div_times [of "2 ^ k" n] by (simp add: q_def add.commute)
    have "0 < q" using False by (simp add: q_def div_greater_zero_iff not_less)
    moreover have "q < 2 ^ k"
      using assms by (simp add: s log_inv_def q_def power_add less_mult_imp_div_less)
    moreover have "q * 2 ^ (p + k) \<le> N"
    proof -
      have "q * 2 ^ (p + k) = (q * 2 ^ k) * 2 ^ p" by (simp add: power_add ac_simps)
      also have "\<dots> \<le> n * 2 ^ p" using lo by simp
      also have "\<dots> \<le> N" using assms by (simp add: s log_inv_def)
      finally show ?thesis .
    qed
    moreover have "N < (q + 1) * 2 ^ (p + k)"
    proof -
      have "N < (n + 1) * 2 ^ p" using assms by (simp add: s log_inv_def)
      also have "\<dots> \<le> ((q + 1) * 2 ^ k) * 2 ^ p" using hi by (rule mult_le_mono1)
      also have "\<dots> = (q + 1) * 2 ^ (p + k)" by (simp add: power_add algebra_simps)
      finally show ?thesis .
    qed
    ultimately show ?thesis using False by (simp add: s log_inv_def log_step_def q_def)
  qed
qed

lemma floorLog2_step:
  fixes n :: UInt32
  assumes inv: "log_inv N (k + k) (nat p, unat n)" and "0 \<le> p"
    and "2 * k \<le> 32" and "m = push_bit k (mask k)" and "q = p + int k"
    and step: "(p', n') = (if n AND m \<noteq> 0 then (q, drop_bit k n) else (p, n))"
  shows "0 \<le> p' \<and> log_inv N k (nat p', unat n')"
proof -
  have "n AND m = 0 \<longleftrightarrow> unat n < 2 ^ k"
    using assms by (simp add: high_bits_zero_iff log_inv_def mult_2)
  then have "(nat p', unat n') = log_step k (nat p, unat n)" and "0 \<le> p'"
    using step \<open>0 \<le> p\<close> \<open>q = p + int k\<close>
    by (auto simp: log_step_def unat_drop_bit_eq drop_bit_eq_div [where 'a = nat] nat_add_distrib
        split: if_splits)
  then show ?thesis using log_step_inv [OF inv] by simp
qed

lemma log_inv_final:
  assumes "log_inv N 1 (p, n)"
  shows "2 ^ p \<le> N \<and> N < 2 ^ (p + 1)"
proof -
  from assms have "n = 1" by (auto simp: log_inv_def)
  with assms show ?thesis by (simp add: log_inv_def)
qed

lemma floorLog2_0 [simp]: "floorLog2 0 = -1"
  by (simp add: floorLog2_def)

lemma floorLog2_bounds:
  assumes False: "n \<noteq> 0"
  shows "0 \<le> floorLog2 n \<and> 2 ^ nat (floorLog2 n) \<le> unat n \<and> unat n < 2 ^ (nat (floorLog2 n) + 1)"
proof -
  define N where "N = unat n"
  obtain p1 :: int and n1 where s1: "(p1, n1) = (if n AND 0xffff0000 \<noteq> 0 then (16, drop_bit 16 n) else (0, n))"
    by (metis surj_pair)
  obtain p2 n2 where s2: "(p2, n2) = (if n1 AND 0x0000ff00 \<noteq> 0 then (p1 + 8, drop_bit 8 n1) else (p1, n1))"
    by (metis surj_pair)
  obtain p3 n3 where s3: "(p3, n3) = (if n2 AND 0x000000f0 \<noteq> 0 then (p2 + 4, drop_bit 4 n2) else (p2, n2))"
    by (metis surj_pair)
  obtain p4 n4 where s4: "(p4, n4) = (if n3 AND 0x0000000c \<noteq> 0 then (p3 + 2, drop_bit 2 n3) else (p3, n3))"
    by (metis surj_pair)
  obtain p5 n5 where s5: "(p5, n5) = (if n4 AND 0x00000002 \<noteq> 0 then (p4 + 1, drop_bit 1 n4) else (p4, n4))"
    by (metis surj_pair)
  have "log_inv N (16 + 16) (nat 0, unat n)"
    using False unsigned_less [of n] by (simp add: log_inv_def N_def unat_gt_0)
  from floorLog2_step [OF this _ _ _ _ s1]
  have i1: "0 \<le> p1 \<and> log_inv N (8 + 8) (nat p1, unat n1)" by (simp add: mask_numeral)
  from floorLog2_step [OF i1 [THEN conjunct2] i1 [THEN conjunct1] _ _ _ s2]
  have i2: "0 \<le> p2 \<and> log_inv N (4 + 4) (nat p2, unat n2)" by (simp add: mask_numeral)
  from floorLog2_step [OF i2 [THEN conjunct2] i2 [THEN conjunct1] _ _ _ s3]
  have i3: "0 \<le> p3 \<and> log_inv N (2 + 2) (nat p3, unat n3)" by (simp add: mask_numeral)
  from floorLog2_step [OF i3 [THEN conjunct2] i3 [THEN conjunct1] _ _ _ s4]
  have i4: "0 \<le> p4 \<and> log_inv N (1 + 1) (nat p4, unat n4)" 
    by (simp add: mask_eq_exp_minus_1 push_bit_eq_mult one_add_one del: One_nat_def)
  from floorLog2_step [OF i4 [THEN conjunct2] i4 [THEN conjunct1] _ _ _ s5]
  have i5: "0 \<le> p5 \<and> log_inv N 1 (nat p5, unat n5)" by (simp add: mask_Suc_0)
  have "floorLog2 n = p5"
    unfolding floorLog2_def Let_def
    by (simp only: False if_False s1 [symmetric] s2 [symmetric] s3 [symmetric] s4 [symmetric] prod.case)
       (use s5 in \<open>simp split: if_splits\<close>)
  with i5 log_inv_final [of N "nat p5" "unat n5"] show ?thesis by (simp add: N_def)
qed

lemma floorLog2_less: "floorLog2 n < 32"
proof (cases "n = 0")
  case True
  then show ?thesis by simp
next
  case False
  have "(2 :: nat) ^ nat (floorLog2 n) < 2 ^ 32"
    using floorLog2_bounds [OF False] unat_lt [of n] by (simp add: order_le_less_trans)
  then have "nat (floorLog2 n) < 32"
    by (simp only: power_strict_increasing_iff one_less_numeral_iff semiring_norm)
  then show ?thesis by simp
qed

lemma floorLog2_unique:
  assumes "2 ^ k \<le> unat n" and "unat n < 2 ^ (k + 1)"
  shows "floorLog2 n = int k"
proof -
  have "n \<noteq> 0" using assms(1) by auto
  note b = floorLog2_bounds [OF this]
  have "(2 :: nat) ^ k < 2 ^ (nat (floorLog2 n) + 1)" using assms b by (meson le_less_trans)
  moreover have "(2 :: nat) ^ nat (floorLog2 n) < 2 ^ (k + 1)" using assms b by (meson le_less_trans)
  ultimately have "k < nat (floorLog2 n) + 1" and "nat (floorLog2 n) < k + 1"
    by (simp_all only: power_strict_increasing_iff one_less_numeral_iff semiring_norm)
  then show ?thesis using b by linarith
qed

section \<open>Population count\<close>

lemma bits_double: "{i. bit (2 * m :: nat) i} = Suc ` {i. bit m i}"
  by (auto simp: bit_double_iff image_iff) (metis Suc_pred)

lemma bits_double_Suc: "{i. bit (1 + 2 * m :: nat) i} = insert 0 (Suc ` {i. bit m i})"
  by (auto simp: even_bit_succ_iff bits_double [symmetric] simp del: One_nat_def plus_1_eq_Suc)

lemma and_dec_even: "0 < m \<Longrightarrow> 2 * m AND (2 * m - 1) = 2 * (m AND (m - 1) :: nat)"
  by (subst and_rec) (cases m, simp_all)

lemma finite_bits_nat: "finite {i. bit (n :: nat) i}"
proof (rule finite_subset)
  show "{i. bit n i} \<subseteq> {..<n}"
  proof
    fix i assume "i \<in> {i. bit n i}"
    then have "n div 2 ^ i \<noteq> 0" by (auto simp: bit_iff_odd intro: ccontr)
    then have "2 ^ i \<le> n" by (simp add: div_eq_0_iff not_less)
    then show "i \<in> {..<n}" by (simp add: less_le_trans [OF less_exp])
  qed
qed simp

lemma card_bits_and_dec:
  "0 < n \<Longrightarrow> Suc (card {i. bit (n AND (n - 1) :: nat) i}) = card {i. bit n i}"
proof (induction n rule: less_induct)
  case (less n)
  show ?case
  proof (cases "odd n")
    case True
    then obtain m where n: "n = 1 + 2 * m" by (auto elim: oddE)
    have "n AND (n - 1) = 2 * m"
      by (simp only: n, subst and_rec) simp
    then show ?thesis
      by (simp only: n bits_double_Suc bits_double) (simp add: finite_bits_nat card_image)
  next
    case False
    then obtain m where n: "n = 2 * m" by (auto elim: evenE)
    with less.prems have "0 < m" "m < n" by auto
    then show ?thesis
      using less.IH [of m] by (simp add: n and_dec_even bits_double card_image del: One_nat_def)
  qed
qed

definition popcount :: "'a::len word \<Rightarrow> nat" where
  "popcount w = card {i. bit w i}"

lemma popcount_unat: "popcount w = card {i. bit (unat w) i}"
  by (simp add: popcount_def bit_simps)

lemma unat_dec: "(w :: 'a::len word) \<noteq> 0 \<Longrightarrow> unat (w - 1) = unat w - 1"
  by (metis unat_minus_one)

lemma popcount_and_dec: "w \<noteq> 0 \<Longrightarrow> Suc (popcount (w AND (w - 1))) = popcount w"
  using card_bits_and_dec [of "unat w"]
  by (simp add: popcount_unat unsigned_and_eq unat_dec unat_gt_0 del: One_nat_def)

lemma popcount_0 [simp]: "popcount 0 = 0"
  by (simp add: popcount_def)

lemma popcount_pos: "w \<noteq> 0 \<Longrightarrow> 0 < popcount w"
  using popcount_and_dec [of w] by simp

lemma countBits_loop_eq:
  "n \<noteq> 0 \<Longrightarrow> countBits_loop n r = r + of_nat (popcount n - 1)"
proof (induction n r rule: countBits_loop.induct)
  case (1 n r)
  show ?case
  proof (cases "n AND (n - 1) = 0")
    case True
    then have "popcount n = 1" using popcount_and_dec [OF "1.prems"] by simp
    then show ?thesis using True by (simp add: countBits_loop.simps [of n])
  next
    case False
    have "popcount n = Suc (popcount (n AND (n - 1)))"
      using popcount_and_dec [OF "1.prems"] by simp
    moreover have "0 < popcount (n AND (n - 1))" using False by (rule popcount_pos)
    ultimately show ?thesis
      using False "1.IH" [OF refl False False]
      by (simp add: countBits_loop.simps [of n] of_nat_diff)
  qed
qed

text \<open>The bit-clearing loop of \<^verbatim>\<open>countBits\<close> ends for every 64-bit input and returns the
  number of bits that are set.\<close>

theorem countBits_correct: "unat (countBits n) = card {i. bit n i}"
proof -
  have "popcount n \<le> 64"
    using card_mono [of "{..<64}" "{i. bit n i}"] bit_imp_le_length [of n]
    by (auto simp: popcount_def)
  then have "unat (of_nat (popcount n) :: UInt64) = popcount n" by simp
  moreover have "countBits n = of_nat (popcount n)"
  proof (cases "n = 0")
    case True
    then show ?thesis by (simp add: countBits_def)
  next
    case False
    then show ?thesis
      using popcount_pos [OF False] by (simp add: countBits_def countBits_loop_eq of_nat_diff)
  qed
  ultimately show ?thesis by (simp add: popcount_def)
qed

lemma isPower2_iff: "n \<noteq> 0 \<Longrightarrow> isPower2 n \<longleftrightarrow> (\<exists>k. unat n = 2 ^ k)"
proof
  assume n: "n \<noteq> 0" and "isPower2 n"
  then have "popcount n = 1" using popcount_and_dec [OF n] by (simp add: isPower2_def)
  then obtain k where "{i. bit (unat n) i} = {k}"
    by (auto simp: popcount_unat card_1_singleton_iff)
  then have "bit (unat n) i \<longleftrightarrow> i = k" for i by blast
  then have "unat n = 2 ^ k" by (simp add: bit_eq_iff bit_exp_iff)
  then show "\<exists>k. unat n = 2 ^ k" ..
next
  assume n: "n \<noteq> 0" and "\<exists>k. unat n = 2 ^ k"
  then obtain k where "unat n = 2 ^ k" by blast
  then have "popcount n = 1" by (simp add: popcount_unat bit_exp_iff)
  then have "popcount (n AND (n - 1)) = 0" using popcount_and_dec [OF n] by simp
  then show "isPower2 n" using popcount_pos [of "n AND (n - 1)"] by (auto simp: isPower2_def)
qed

text \<open>The binary logarithms: for every non-zero 32-bit \<open>n\<close>, \<^verbatim>\<open>floorLog2\<close> returns the
  \<open>p\<close> with \<open>2 ^ p \<le> n < 2 ^ (p + 1)\<close>, \<^verbatim>\<open>ceilLog2\<close> returns the least \<open>c\<close> with \<open>n \<le> 2 ^ c\<close>, and
  \<^verbatim>\<open>isPower2\<close> holds exactly when the two agree. At \<open>0\<close> the floor is \<open>-1\<close> and the ceiling,
  which goes through \<open>0 - 1\<close> in 32 bits, is 32.\<close>

theorem log2_correct:
  "if n = 0 then floorLog2 n = -1 \<and> ceilLog2 n = 32
   else 2 ^ nat (floorLog2 n) \<le> unat n \<and> unat n < 2 ^ (nat (floorLog2 n) + 1) \<and>
        unat n \<le> 2 ^ nat (ceilLog2 n) \<and> (\<forall>c. unat n \<le> 2 ^ c \<longrightarrow> nat (ceilLog2 n) \<le> c) \<and>
        (isPower2 n \<longleftrightarrow> ceilLog2 n = floorLog2 n)"
proof (cases "n = 0")
  case True
  moreover have "floorLog2 (- 1) = int 31"
    by (rule floorLog2_unique) (simp_all add: unsigned_minus_1_eq_mask mask_eq_exp_minus_1)
  ultimately show ?thesis by (simp add: ceilLog2_def)
next
  case False
  note f = floorLog2_bounds [OF False]
  have dec: "unat (n - 1) = unat n - 1" by (rule unat_dec [OF False])
  have pos: "0 < unat n" using False by (simp add: unat_gt_0)
  have c: "0 \<le> ceilLog2 n" "unat n \<le> 2 ^ nat (ceilLog2 n)"
    "nat (ceilLog2 n) = 0 \<or> 2 ^ (nat (ceilLog2 n) - 1) < unat n"
  proof -
    show "0 \<le> ceilLog2 n"
      using floorLog2_bounds [of "n - 1"] by (cases "n - 1 = 0") (auto simp: ceilLog2_def)
    show "unat n \<le> 2 ^ nat (ceilLog2 n)"
    proof (cases "n - 1 = 0")
      case True
      then have "unat n = 1" using dec False by (simp add: unat_gt_0)
      then show ?thesis by simp
    next
      case 2: False
      note floorLog2_bounds [OF 2]
      then show ?thesis using dec by (simp add: ceilLog2_def nat_add_distrib) linarith
    qed
    show "nat (ceilLog2 n) = 0 \<or> 2 ^ (nat (ceilLog2 n) - 1) < unat n"
    proof (cases "n - 1 = 0")
      case True
      then show ?thesis by (simp add: ceilLog2_def)
    next
      case 2: False
      note b = floorLog2_bounds [OF 2]
      then have "2 ^ nat (floorLog2 (n - 1)) < unat n" using dec pos by linarith
      then show ?thesis using b by (simp add: ceilLog2_def nat_add_distrib)
    qed
  qed
  have least: "nat (ceilLog2 n) \<le> k" if "unat n \<le> 2 ^ k" for k
    using c(3)
  proof
    assume "2 ^ (nat (ceilLog2 n) - 1) < unat n"
    also note that
    finally have "(2 :: nat) ^ (nat (ceilLog2 n) - 1) < 2 ^ k" .
    then have "nat (ceilLog2 n) - 1 < k" by (simp add: power_strict_increasing_iff)
    then show ?thesis by simp
  qed simp
  have "isPower2 n \<longleftrightarrow> ceilLog2 n = floorLog2 n"
  proof
    assume "isPower2 n"
    then obtain k where k: "unat n = 2 ^ k" using isPower2_iff [OF False] by blast
    then have "floorLog2 n = int k" by (intro floorLog2_unique) simp_all
    moreover have "nat (ceilLog2 n) = k"
    proof (rule antisym)
      show "nat (ceilLog2 n) \<le> k" by (rule least) (simp add: k)
      show "k \<le> nat (ceilLog2 n)" using c(2) k by (simp add: power_increasing_iff)
    qed
    ultimately show "ceilLog2 n = floorLog2 n" using c(1) by simp
  next
    assume "ceilLog2 n = floorLog2 n"
    then have "unat n = 2 ^ nat (floorLog2 n)" using c(2) f by simp
    then show "isPower2 n" using isPower2_iff [OF False] by blast
  qed
  with False f c(2) least show ?thesis by simp
qed

theorem log2_correct_witness: "floorLog2 12 = 3 \<and> ceilLog2 12 = 4 \<and> \<not> isPower2 12 \<and> isPower2 16 \<and> ceilLog2 0 = 32"
proof -
  have c: "floorLog2 12 = 3" "ceilLog2 12 = 4" "floorLog2 16 = 4" "ceilLog2 16 = 4" by code_simp+
  then show ?thesis
    using log2_correct [of 12] log2_correct [of 16] log2_correct [of 0] by simp
qed


section \<open>Modular counters\<close>

text \<open>\<open>mnum M k a\<close>: the number \<open>a\<close> has the value \<open>k\<close> below its bound \<open>M\<close>, and sums do not leave 32 bits.\<close>

definition mnum :: "nat \<Rightarrow> nat \<Rightarrow> ModuloNum \<Rightarrow> bool" where
  "mnum M k a \<longleftrightarrow> unat (m_max_value a) = M \<and> unat (m_value a) = k \<and> k < M \<and> M \<le> 2 ^ 31"

lemma mnum_eqI: "mnum M k a \<Longrightarrow> mnum M k b \<Longrightarrow> a = b"
  by (auto simp: mnum_def word_unat_eq_iff)

lemma mnum_eq_iff: "mnum M k a \<Longrightarrow> mnum M l b \<Longrightarrow> a = b \<longleftrightarrow> k = l"
  by (auto intro: mnum_eqI simp: mnum_def)

lemma mnum_max: "mnum M k a \<Longrightarrow> mnum M l b \<Longrightarrow> m_max_value a = m_max_value b"
  by (auto simp: mnum_def word_unat_eq_iff)

lemma mn_add_mnum:
  assumes "mnum M k a" and "mnum M l b"
  shows "\<exists>c. mn_add a b = Inr c \<and> mnum M ((k + l) mod M) c"
proof -
  have M: "0 < M" "unat (m_value a) + unat (m_value b) < 2 ^ 32" "unat (m_max_value a) = M" using assms by (auto simp: mnum_def)
  then have "m_max_value a \<noteq> 0" by auto
  moreover have "unat ((m_value a + m_value b) mod m_max_value a) = (k + l) mod M"
    using assms M(2) by (simp add: mnum_def unat_mod unat_word_ariths)
  ultimately show ?thesis
    using assms M mnum_max [OF assms] by (auto simp: mn_add_def mod_rem_def mnum_def)
qed

lemma mn_add_value_mnum:
  assumes "mnum M k a"
  shows "\<exists>c. mn_add_value a v = Inr c \<and> mnum M ((k + unat v) mod M) c"
proof -
  have M: "0 < M" "unat (m_max_value a) = M" using assms by (auto simp: mnum_def)
  then have nz: "m_max_value a \<noteq> 0" by auto
  have "mnum M (unat v mod M) (a\<lparr>m_value := v mod m_max_value a\<rparr>)" using assms M by (simp add: mnum_def unat_mod)
  from mn_add_mnum [OF assms this] show ?thesis
    using nz by (auto simp: mn_add_value_def mod_rem_def mod_add_right_eq)
qed

lemma mn_sub_mnum:
  assumes "mnum M k a" and "mnum M l b"
  shows "\<exists>c. mn_sub a b = Inr c \<and> mnum M (if l \<le> k then k - l else M - l + k) c"
proof -
  let ?v = "if m_value a \<ge> m_value b then m_value a - m_value b else m_max_value a - m_value b + m_value a"
  have "unat ?v = (if l \<le> k then k - l else M - l + k)"
  proof (cases "l \<le> k")
    case True
    then show ?thesis using assms by (simp add: mnum_def word_le_nat_alt unat_sub)
  next
    case False
    have "m_value b \<le> m_max_value a" using assms by (simp add: mnum_def word_le_nat_alt)
    then have "unat (m_max_value a - m_value b) = M - l" using assms by (simp add: mnum_def unat_sub)
    moreover have "M - l + k < 2 ^ 32" using assms False unfolding mnum_def by (simp, arith)
    ultimately show ?thesis using assms False by (simp add: mnum_def word_le_nat_alt unat_word_ariths)
  qed
  then show ?thesis using assms mnum_max [OF assms] by (auto simp: mn_sub_def mnum_def)
qed

lemma mod_once: "f < M \<Longrightarrow> l < M \<Longrightarrow> (f + l) mod M = (if f + l < M then f + l else f + l - (M::nat))"
  by (auto simp: le_mod_geq)

lemma ring_size:
  assumes "f < (M::nat)" and "l < M"
  shows "(if f \<le> (f + l) mod M then (f + l) mod M - f else M - f + (f + l) mod M) = l"
  unfolding mod_once [OF assms] using assms by auto

text \<open>Subtracting what was added gives the number back.\<close>

lemma mn_add_sub_roundtrip:
  assumes "mnum M k a" and "mnum M l b"
  shows "\<exists>c. mn_add a b = Inr c \<and> mnum M ((k + l) mod M) c \<and> mn_sub c b = Inr a"
proof -
  obtain c where c: "mn_add a b = Inr c" "mnum M ((k + l) mod M) c" using mn_add_mnum [OF assms] by blast
  have "k < M" "l < M" using assms by (simp_all add: mnum_def)
  then have "(if l \<le> (k + l) mod M then (k + l) mod M - l else M - l + (k + l) mod M) = k" using ring_size [of l M k] unfolding add.commute [of k l] by blast
  then obtain d where "mn_sub c b = Inr d" "mnum M k d" using mn_sub_mnum [OF c(2) assms(2)] by auto
  then show ?thesis using c mnum_eqI [OF assms(1)] by blast
qed

section \<open>Generators\<close>

lemma rng_next_bound: "unat (fst (rng_next s)) < 2 ^ 32"
proof -
  have m: "RNG_M = mask 48" by (simp add: RNG_M_def mask_eq_exp_minus_1)
  have "bit (fst (rng_next s)) i \<Longrightarrow> i < 32" for i
    by (auto simp: rng_next_def Let_def m bit_simps)
  then show ?thesis by (subst unat_less_exp_iff_bits) blast
qed

lemma random_next_less: "0 < limit \<Longrightarrow> fst (random_next s limit) < limit"
  by (simp add: random_next_def Let_def word_mod_less_divisor)

end
