(* ===== verification/LS_Cache_Base.thy ===== *)
theory LS_Cache_Base
  imports LS_Utils
begin

unbundle bit_operations_syntax

text \<open>
  Address arithmetic of the caches: \<^verbatim>\<open>AddressHomeLookup\<close>
  (\<^verbatim>\<open>common/core/memory_subsystem/address_home_lookup.cc\<close>), which interleaves blocks over home
  nodes, and \<^verbatim>\<open>CacheBase\<close> (\<^verbatim>\<open>common/core/memory_subsystem/cache/cache_base.cc\<close>), which splits
  an address into tag, set index and block offset.
\<close>

section \<open>Address home lookup\<close>

record AddressHomeLookup =
  m_ahl_param :: UInt32
  m_ahl_mask :: UInt64
  m_core_list :: "core_id_t list"
  m_total_modules :: UInt32
  ahl_cache_block_size :: UInt32

definition mk_AddressHomeLookup ::
  "UInt32 \<Rightarrow> core_id_t list \<Rightarrow> UInt32 \<Rightarrow> AddressHomeLookup res" where
  "mk_AddressHomeLookup param core_list block_size =
     bindE (assertE (sint (push_bit (unat param) (1 :: 32 word)) \<ge> sint block_size)
             (LogError ''2^AHL param must be >= Cache Block Size''))
       (\<lambda>_. Inr \<lparr>m_ahl_param = param,
                  m_ahl_mask = push_bit (unat param) 1 - 1,
                  m_core_list = core_list,
                  m_total_modules = of_nat (length core_list),
                  ahl_cache_block_size = block_size\<rparr>)"

definition getHome :: "AddressHomeLookup \<Rightarrow> IntPtr \<Rightarrow> core_id_t res" where
  "getHome l address =
     (if m_total_modules l = 0 then Inl DivByZero
      else
        let module_num = sint (ucast (drop_bit (unat (m_ahl_param l)) address
                                      mod ucast (m_total_modules l)) :: 32 word)
        in bindE (assertE (0 \<le> module_num \<and> module_num < sint (m_total_modules l))
                   (LogError ''module_num(%i), total_modules(%u)''))
             (\<lambda>_. Inr (m_core_list l ! nat module_num)))"

definition getLinearBlock :: "AddressHomeLookup \<Rightarrow> IntPtr \<Rightarrow> IntPtr" where
  "getLinearBlock l address = drop_bit (unat (m_ahl_param l)) address div ucast (m_total_modules l)"

definition getLinearAddress :: "AddressHomeLookup \<Rightarrow> IntPtr \<Rightarrow> IntPtr" where
  "getLinearAddress l address =
     push_bit (unat (m_ahl_param l)) (getLinearBlock l address) OR (address AND m_ahl_mask l)"

section \<open>The cache base class\<close>

datatype hash_t = INVALID_HASH_TYPE | HASH_MASK | HASH_MOD | HASH_RNG1_MOD | HASH_RNG2_MOD

record CacheBase =
  m_name :: string
  m_cache_size :: UInt64
  m_associativity :: UInt32
  m_blocksize :: UInt32
  m_hash :: hash_t
  m_num_sets :: UInt32
  m_ahl :: "AddressHomeLookup option"
  m_log_blocksize :: UInt32

definition mk_CacheBase ::
  "string \<Rightarrow> UInt32 \<Rightarrow> UInt32 \<Rightarrow> UInt32 \<Rightarrow> hash_t \<Rightarrow> AddressHomeLookup option \<Rightarrow> CacheBase res" where
  "mk_CacheBase name num_sets assoc block_size hash ahl =
     bindE (assertE (ucast num_sets = push_bit (nat (floorLog2 num_sets)) (1 :: 64 word) \<or> hash \<noteq> HASH_MASK)
             (LogError ''Caches of non-power of 2 size need funky hash function''))
       (\<lambda>_. Inr \<lparr>m_name = name,
                  m_cache_size = ucast num_sets * ucast assoc * ucast block_size,
                  m_associativity = assoc,
                  m_blocksize = block_size,
                  m_hash = hash,
                  m_num_sets = num_sets,
                  m_ahl = ahl,
                  m_log_blocksize = of_int (floorLog2 block_size)\<rparr>)"

definition parseAddressHash :: "string \<Rightarrow> hash_t res" where
  "parseAddressHash hash_name =
     (if hash_name = ''mask'' then Inr HASH_MASK
      else if hash_name = ''mod'' then Inr HASH_MOD
      else if hash_name = ''rng1_mod'' then Inr HASH_RNG1_MOD
      else if hash_name = ''rng2_mod'' then Inr HASH_RNG2_MOD
      else Inl (LogError ''Invalid address hash function''))"

definition splitAddress :: "CacheBase \<Rightarrow> IntPtr \<Rightarrow> (IntPtr \<times> UInt32) res" where
  "splitAddress c addr =
     (let shift = unat (m_log_blocksize c);
          tag = drop_bit shift addr;
          linearAddress = (case m_ahl c of Some l \<Rightarrow> getLinearAddress l addr | None \<Rightarrow> addr);
          block_num = drop_bit shift linearAddress
      in case m_hash c of
           HASH_MASK \<Rightarrow> Inr (tag, ucast (block_num AND ucast (m_num_sets c - 1)))
         | HASH_MOD \<Rightarrow>
             (if m_num_sets c = 0 then Inl DivByZero
              else Inr (tag, ucast (block_num mod ucast (m_num_sets c))))
         | HASH_RNG1_MOD \<Rightarrow>
             (if m_num_sets c = 0 then Inl DivByZero
              else let state = rng_seed block_num
                   in Inr (tag, ucast (fst (rng_next state) mod ucast (m_num_sets c))))
         | HASH_RNG2_MOD \<Rightarrow>
             (if m_num_sets c = 0 then Inl DivByZero
              else let state = rng_seed block_num; state = snd (rng_next state)
                   in Inr (tag, ucast (fst (rng_next state) mod ucast (m_num_sets c))))
         | INVALID_HASH_TYPE \<Rightarrow> Inl (LogError ''Invalid hash function''))"

definition splitAddress_offset :: "CacheBase \<Rightarrow> IntPtr \<Rightarrow> (IntPtr \<times> UInt32 \<times> UInt32) res" where
  "splitAddress_offset c addr =
     (let block_offset = ucast (addr AND ucast (m_blocksize c - 1))
      in bindE (splitAddress c addr) (\<lambda>(tag, set_index). Inr (tag, set_index, block_offset)))"

definition tagToAddress :: "CacheBase \<Rightarrow> IntPtr \<Rightarrow> IntPtr" where
  "tagToAddress c tag = push_bit (unat (m_log_blocksize c)) tag"

section \<open>The home interleaving is a bijection\<close>

definition ahl_wf :: "AddressHomeLookup \<Rightarrow> bool" where
  "ahl_wf l \<longleftrightarrow> unat (m_ahl_param l) < 64 \<and> m_ahl_mask l = mask (unat (m_ahl_param l)) \<and>
     m_core_list l \<noteq> [] \<and> length (m_core_list l) < 2 ^ 31 \<and>
     m_total_modules l = of_nat (length (m_core_list l))"

lemma mk_AddressHomeLookup_wf:
  assumes "mk_AddressHomeLookup param core_list block_size = Inr l"
    and "unat param < 64" and "core_list \<noteq> []" and "length core_list < 2 ^ 31"
  shows "ahl_wf l"
  using assms by (auto simp: mk_AddressHomeLookup_def ahl_wf_def bindE_Inr_iff mask_eq_exp_minus_1)

lemma unat_total_modules:
  assumes "ahl_wf l"
  shows "unat (m_total_modules l) = length (m_core_list l)" and "m_total_modules l \<noteq> 0"
    and "sint (m_total_modules l) = int (length (m_core_list l))"
proof -
  show *: "unat (m_total_modules l) = length (m_core_list l)"
    using assms by (simp add: ahl_wf_def)
  have "unat (m_total_modules l) \<noteq> 0" unfolding * using assms by (simp add: ahl_wf_def)
  then show "m_total_modules l \<noteq> 0" by (metis unsigned_0)
  have "uint (m_total_modules l) < 2 ^ 31" using * assms by (simp add: ahl_wf_def uint_nat)
  then show "sint (m_total_modules l) = int (length (m_core_list l))"
    using * by (simp add: sint_uint signed_take_bit_int_eq_self uint_nat)
qed

text \<open>The interleaved module of an address, as the number the code computes.\<close>

definition module_of :: "AddressHomeLookup \<Rightarrow> IntPtr \<Rightarrow> nat" where
  "module_of l a = unat (drop_bit (unat (m_ahl_param l)) a) mod length (m_core_list l)"

lemma getHome_module:
  assumes "ahl_wf l"
  shows "getHome l a = Inr (m_core_list l ! module_of l a)" and "module_of l a < length (m_core_list l)"
proof -
  let ?n = "length (m_core_list l)"
  let ?q = "drop_bit (unat (m_ahl_param l)) a mod ucast (m_total_modules l)"
  have n: "0 < ?n" "?n < 2 ^ 31" using assms by (auto simp: ahl_wf_def)
  then show lt: "module_of l a < ?n" by (simp add: module_of_def)
  have q: "unat ?q = module_of l a"
    by (simp add: module_of_def unat_mod_distrib unat_total_modules [OF assms])
  then have "unat (ucast ?q :: 32 word) = module_of l a"
    using lt n by (subst unat_ucast_small) simp_all
  then have "sint (ucast ?q :: 32 word) = int (module_of l a)"
    using lt n by (simp add: sint_uint signed_take_bit_int_eq_self uint_nat)
  then show "getHome l a = Inr (m_core_list l ! module_of l a)"
    using lt by (simp add: getHome_def Let_def unat_total_modules [OF assms])
qed

lemma linear_address_parts:
  assumes "ahl_wf l"
  defines "p \<equiv> unat (m_ahl_param l)"
  shows "drop_bit p (getLinearAddress l a) = getLinearBlock l a"
    and "getLinearAddress l a AND mask p = a AND mask p"
proof -
  have "unat (getLinearBlock l a) \<le> unat (drop_bit p a)"
    by (simp add: getLinearBlock_def p_def unat_div_distrib)
  also have "\<dots> < 2 ^ (64 - p)"
    using bit_imp_le_length [of a] by (fastforce simp: unat_less_exp_iff_bits bit_simps)
  finally have small: "bit (getLinearBlock l a) i \<Longrightarrow> i < 64 - p" for i
    by (simp add: unat_less_exp_iff_bits)
  have m: "m_ahl_mask l = mask p" using assms by (simp add: ahl_wf_def p_def)
  show "drop_bit p (getLinearAddress l a) = getLinearBlock l a"
    by (rule bit_word_eqI) (auto simp: getLinearAddress_def m p_def [symmetric] bit_simps dest: small)
  show "getLinearAddress l a AND mask p = a AND mask p"
    by (rule bit_word_eqI) (auto simp: getLinearAddress_def m p_def [symmetric] bit_simps)
qed

text \<open>C17. Home interleaving loses nothing: every address has a home among the configured
  nodes, and the home node together with the linear address inside it (distinct nodes)
  determines the address, so no two addresses collide in one node.\<close>

theorem getHome_linear_injective:
  assumes "ahl_wf l" and "distinct (m_core_list l)"
  shows "\<exists>h. getHome l a = Inr h \<and> h \<in> set (m_core_list l) \<and>
           (getHome l b = Inr h \<and> getLinearAddress l a = getLinearAddress l b \<longrightarrow> a = b)"
proof (intro exI conjI impI)
  let ?p = "unat (m_ahl_param l)"
  note home = getHome_module [OF assms(1)]
  show "getHome l a = Inr (m_core_list l ! module_of l a)" by (rule home)
  show "m_core_list l ! module_of l a \<in> set (m_core_list l)" using home(2) by simp
  assume *: "getHome l b = Inr (m_core_list l ! module_of l a) \<and> getLinearAddress l a = getLinearAddress l b"
  then have "module_of l a = module_of l b"
    using home assms(2) by (simp add: nth_eq_iff_index_eq)
  then have "drop_bit ?p a mod ucast (m_total_modules l) = drop_bit ?p b mod ucast (m_total_modules l)"
    by (simp add: word_unat_eq_iff unat_mod_distrib module_of_def unat_total_modules [OF assms(1)])
  moreover have "drop_bit ?p a div ucast (m_total_modules l) = drop_bit ?p b div ucast (m_total_modules l)"
    using linear_address_parts(1) [OF assms(1)] * by (metis getLinearBlock_def)
  ultimately have "drop_bit ?p a = drop_bit ?p b" by (metis word_divmod_eqI)
  moreover have "a AND mask ?p = b AND mask ?p"
    using linear_address_parts(2) [OF assms(1)] * by metis
  ultimately show "a = b" by (rule word_split_eqI)
qed

theorem getHome_linear_injective_witness:
  "let l = \<lparr>m_ahl_param = 6, m_ahl_mask = 63, m_core_list = [0, 4, 8], m_total_modules = 3,
            ahl_cache_block_size = 64\<rparr>
   in \<exists>h. getHome l 0x1040 = Inr h \<and> h \<in> set (m_core_list l) \<and>
        (getHome l 0x1100 = Inr h \<and> getLinearAddress l 0x1040 = getLinearAddress l 0x1100
          \<longrightarrow> (0x1040 :: IntPtr) = 0x1100)"
  using getHome_linear_injective [of "\<lparr>m_ahl_param = 6, m_ahl_mask = 63, m_core_list = [0, 4, 8],
    m_total_modules = 3, ahl_cache_block_size = 64\<rparr>" "0x1040" "0x1100"]
  by (simp add: ahl_wf_def mask_eq_exp_minus_1 Let_def)

section \<open>Splitting an address\<close>

definition cb_wf :: "CacheBase \<Rightarrow> bool" where
  "cb_wf c \<longleftrightarrow> m_num_sets c \<noteq> 0 \<and> m_hash c \<noteq> INVALID_HASH_TYPE \<and>
     unat (m_log_blocksize c) < 32 \<and> unat (m_blocksize c) = 2 ^ unat (m_log_blocksize c) \<and>
     (m_hash c = HASH_MASK \<longrightarrow> (\<exists>k<32. m_num_sets c = 2 ^ k)) \<and>
     (\<forall>l. m_ahl c = Some l \<longrightarrow> ahl_wf l \<and> unat (m_log_blocksize c) \<le> unat (m_ahl_param l))"

lemma mk_CacheBase_wf:
  assumes c: "mk_CacheBase name num_sets assoc block_size hash ahl = Inr c"
    and "num_sets \<noteq> 0" and "hash \<noteq> INVALID_HASH_TYPE" and k: "unat block_size = 2 ^ k"
    and "\<forall>l. ahl = Some l \<longrightarrow> ahl_wf l \<and> k \<le> unat (m_ahl_param l)"
  shows "cb_wf c" and "unat (m_log_blocksize c) = k"
proof -
  have fl: "floorLog2 block_size = int k"
    using k by (intro floorLog2_unique) simp_all
  then have "k < 32" using floorLog2_less [of block_size] by simp
  show log: "unat (m_log_blocksize c) = k"
    using c fl \<open>k < 32\<close> by (auto simp: mk_CacheBase_def bindE_Inr_iff)
  have pow: "\<exists>j<32. num_sets = 2 ^ j" if "hash = HASH_MASK"
  proof (intro exI conjI)
    let ?j = "nat (floorLog2 num_sets)"
    show "?j < 32" using floorLog2_less [of num_sets] by simp
    have "(ucast num_sets :: 64 word) = 2 ^ ?j"
      using c that by (auto simp: mk_CacheBase_def bindE_Inr_iff)
    then have "unat num_sets = unat (2 ^ ?j :: 64 word)" by (metis unat_ucast_32_64)
    also have "\<dots> = unat (2 ^ ?j :: 32 word)" using \<open>?j < 32\<close> by (simp add: unat_exp)
    finally show "num_sets = 2 ^ ?j" by (simp add: word_unat_eq_iff)
  qed
  show "cb_wf c"
    using assms log \<open>k < 32\<close> pow by (auto simp: cb_wf_def mk_CacheBase_def bindE_Inr_iff)
qed

lemma drop_linear_address:
  assumes "ahl_wf l" and "s \<le> unat (m_ahl_param l)" and "drop_bit s a = drop_bit s b"
  shows "drop_bit s (getLinearAddress l a) = drop_bit s (getLinearAddress l b)"
proof -
  let ?p = "unat (m_ahl_param l)"
  have bits: "bit a (s + i) \<longleftrightarrow> bit b (s + i)" for i
    using assms(3) by (metis bit_drop_bit_eq comp_apply)
  have "drop_bit ?p a = drop_bit ?p b"
    using bits [of "?p - s + i" for i] assms(2)
    by (intro bit_word_eqI) (simp add: bit_simps add.assoc [symmetric])
  then have "getLinearBlock l a = getLinearBlock l b" by (simp add: getLinearBlock_def)
  then show ?thesis using assms(1) bits
    by (intro bit_word_eqI) (auto simp: getLinearAddress_def ahl_wf_def bit_simps)
qed

lemma splitAddress_tag_only:
  assumes "cb_wf c" and "drop_bit (unat (m_log_blocksize c)) a = drop_bit (unat (m_log_blocksize c)) b"
  shows "splitAddress c a = splitAddress c b"
proof -
  have "drop_bit (unat (m_log_blocksize c)) (case m_ahl c of Some l \<Rightarrow> getLinearAddress l a | None \<Rightarrow> a)
      = drop_bit (unat (m_log_blocksize c)) (case m_ahl c of Some l \<Rightarrow> getLinearAddress l b | None \<Rightarrow> b)"
    using assms by (auto simp: cb_wf_def intro: drop_linear_address split: option.split)
  then show ?thesis using assms(2) by (simp only: splitAddress_def Let_def)
qed

lemma ucast_mod_less:
  assumes "n \<noteq> 0"
  shows "(ucast (x mod ucast n :: 64 word) :: UInt32) < n"
proof -
  have "0 < unat n" using assms by (simp add: unat_gt_0)
  then have lt: "unat (x mod ucast n :: 64 word) < unat n" by (simp add: unat_mod_distrib)
  then have "unat (ucast (x mod ucast n :: 64 word) :: UInt32) = unat (x mod ucast n :: 64 word)"
    using unat_lt [of n] by (intro unat_ucast_small) simp
  with lt show ?thesis by (simp add: word_less_nat_alt)
qed

lemma ucast_mask_less:
  assumes "n \<noteq> 0"
  shows "(ucast (x AND ucast (n - 1) :: 64 word) :: UInt32) < n"
proof -
  have "unat (x AND ucast (n - 1) :: 64 word) \<le> unat (n - 1)"
    using word_and_le1 [of x "ucast (n - 1)"] by (simp add: word_le_nat_alt)
  also have "\<dots> < unat n" using assms by (simp add: unat_dec unat_gt_0)
  finally have lt: "unat (x AND ucast (n - 1) :: 64 word) < unat n" .
  then have "unat (ucast (x AND ucast (n - 1) :: 64 word) :: UInt32) = unat (x AND ucast (n - 1) :: 64 word)"
    using unat_lt [of n] by (intro unat_ucast_small) simp
  with lt show ?thesis by (simp add: word_less_nat_alt)
qed

lemma splitAddress_ok:
  assumes "cb_wf c"
  shows "\<exists>idx. splitAddress c a = Inr (drop_bit (unat (m_log_blocksize c)) a, idx) \<and> idx < m_num_sets c"
  using assms
  by (cases "m_hash c") (simp_all add: cb_wf_def splitAddress_def Let_def ucast_mod_less ucast_mask_less)

lemma block_offset_parts:
  assumes "cb_wf c"
  defines "s \<equiv> unat (m_log_blocksize c)"
  shows "ucast (ucast (a AND ucast (m_blocksize c - 1)) :: UInt32) = a AND mask s"
    and "unat (ucast (a AND ucast (m_blocksize c - 1)) :: UInt32) < 2 ^ s"
proof -
  have "unat (m_blocksize c) = 2 ^ s" "s < 32" using assms by (simp_all add: cb_wf_def)
  then have "m_blocksize c = 2 ^ s" by (simp add: word_unat_eq_iff unat_exp)
  then have m: "m_blocksize c - 1 = mask s" by (simp add: mask_eq_exp_minus_1)
  show "ucast (ucast (a AND ucast (m_blocksize c - 1)) :: UInt32) = a AND mask s"
    using \<open>s < 32\<close> unfolding m by (intro bit_word_eqI) (auto simp: bit_simps)
  show "unat (ucast (a AND ucast (m_blocksize c - 1)) :: UInt32) < 2 ^ s"
    unfolding unat_less_exp_iff_bits m by (auto simp: bit_simps)
qed

text \<open>C16. Splitting an address: for a cache built by the constructor with at least one set, a
  power-of-two block size and (with an address home lookup) interleaving no finer than a block,
  \<^verbatim>\<open>splitAddress\<close> succeeds under every hash function, the set index is in range, the offset is
  below the block size, tag and offset give the address back through \<^verbatim>\<open>tagToAddress\<close>, and any
  other address with the same tag goes to the same set.\<close>

theorem splitAddress_roundtrip:
  assumes "mk_CacheBase name num_sets assoc block_size hash ahl = Inr c"
    and "num_sets \<noteq> 0" and "hash \<noteq> INVALID_HASH_TYPE" and "unat block_size = 2 ^ k"
    and "\<forall>l. ahl = Some l \<longrightarrow> ahl_wf l \<and> k \<le> unat (m_ahl_param l)"
  shows "\<exists>tag idx off. splitAddress_offset c a = Inr (tag, idx, off) \<and> idx < num_sets \<and>
      off < block_size \<and> tagToAddress c tag OR ucast off = a \<and>
      (\<forall>b idx' off'. splitAddress_offset c b = Inr (tag, idx', off') \<longrightarrow> idx' = idx)"
proof -
  note wf = mk_CacheBase_wf [OF assms]
  have sets: "m_num_sets c = num_sets" and bs: "m_blocksize c = block_size"
    using assms(1) by (auto simp: mk_CacheBase_def bindE_Inr_iff)
  obtain idx where idx: "splitAddress c a = Inr (drop_bit k a, idx)" "idx < num_sets"
    using splitAddress_ok [OF wf(1)] wf(2) sets by metis
  define off where "off = (ucast (a AND ucast (m_blocksize c - 1)) :: UInt32)"
  note off_parts = block_offset_parts [OF wf(1), unfolded wf(2), of a, folded off_def]
  have 1: "splitAddress_offset c a = Inr (drop_bit k a, idx, off)"
    by (simp add: splitAddress_offset_def idx off_def Let_def)
  have 2: "off < block_size" using off_parts(2) assms(4) by (simp add: word_less_nat_alt)
  have 3: "tagToAddress c (drop_bit k a) OR ucast off = a"
    unfolding off_parts(1) tagToAddress_def wf(2) by (rule bit_word_eqI) (auto simp: bit_simps)
  have 4: "idx' = idx" if "splitAddress_offset c b = Inr (drop_bit k a, idx', off')" for b idx' off'
  proof -
    from that have "splitAddress c b = Inr (drop_bit k a, idx')"
      by (auto simp: splitAddress_offset_def Let_def bindE_Inr_iff)
    moreover from this have "drop_bit k b = drop_bit k a"
      using splitAddress_ok [OF wf(1), of b] wf(2) by auto
    ultimately show ?thesis using splitAddress_tag_only [OF wf(1), of b a] wf(2) idx(1) by simp
  qed
  from 1 idx(2) 2 3 4 show ?thesis by blast
qed

theorem splitAddress_roundtrip_witness:
  "\<exists>c. mk_CacheBase ''L2'' 8 4 64 HASH_MASK None = Inr c \<and>
     (\<exists>tag idx off. splitAddress_offset c 0x12345 = Inr (tag, idx, off) \<and> idx < 8 \<and> off < 64 \<and>
        tagToAddress c tag OR ucast off = 0x12345)"
proof -
  have "floorLog2 8 = int 3" by (rule floorLog2_unique) simp_all
  then obtain c where c: "mk_CacheBase ''L2'' 8 4 64 HASH_MASK None = Inr c"
    by (simp add: mk_CacheBase_def)
  have "unat (64 :: UInt32) = 2 ^ 6" by simp
  from splitAddress_roundtrip [OF c _ _ this, of "0x12345"] c show ?thesis by auto
qed

end
