(* ===== verification/LS_Cache_Block.thy ===== *)
theory LS_Cache_Block
  imports LS_Utils
begin

unbundle bit_operations_syntax

text \<open>
  The state of one cache block: \<^verbatim>\<open>cache_state.h\<close>, \<^verbatim>\<open>cache_block_info.{h,cc}\<close> and the
  subclasses \<^verbatim>\<open>PrL1CacheBlockInfo\<close>, \<^verbatim>\<open>PrL2CacheBlockInfo\<close>, \<^verbatim>\<open>SharedCacheBlockInfo\<close> of
  \<^verbatim>\<open>common/core/memory_subsystem/cache\<close>. A block is one record that carries its dynamic class;
  the virtual methods \<^verbatim>\<open>invalidate\<close> and \<^verbatim>\<open>clone\<close> dispatch on it.
\<close>

section \<open>Definitions\<close>

datatype cstate_t =
    INVALID | SHARED | SHARED_UPGRADING | EXCLUSIVE | OWNED | MODIFIED
  | INVALID_COLD | INVALID_EVICT | INVALID_COHERENCY

definition readable :: "cstate_t \<Rightarrow> bool" where
  "readable cstate = (cstate = MODIFIED \<or> cstate = OWNED \<or> cstate = SHARED \<or> cstate = EXCLUSIVE)"

definition writable :: "cstate_t \<Rightarrow> bool" where
  "writable cstate = (cstate = MODIFIED)"

datatype cache_t = PR_L1_CACHE | PR_L2_CACHE | SHARED_CACHE

datatype option_t = PREFETCH | WARMUP

fun option_bit :: "option_t \<Rightarrow> nat" where
  "option_bit PREFETCH = 0"
| "option_bit WARMUP = 1"

fun getOptionName :: "option_t \<Rightarrow> string" where
  "getOptionName PREFETCH = ''prefetch''"
| "getOptionName WARMUP = ''warmup''"

record CacheBlockInfo =
  m_tag :: IntPtr
  m_cstate :: cstate_t
  m_owner :: UInt64
  m_used :: UInt8
  m_options :: UInt8
  block_class :: cache_t
  m_cached_loc_bitvec :: UInt32

definition mk_CacheBlockInfo :: "IntPtr \<Rightarrow> cstate_t \<Rightarrow> UInt64 \<Rightarrow> cache_t \<Rightarrow> CacheBlockInfo" where
  "mk_CacheBlockInfo tag cstate options cls =
     \<lparr>m_tag = tag, m_cstate = cstate, m_owner = 0, m_used = 0, m_options = ucast options,
      block_class = cls, m_cached_loc_bitvec = 0\<rparr>"

definition createBlock :: "cache_t \<Rightarrow> CacheBlockInfo" where
  "createBlock cache_type = mk_CacheBlockInfo (NOT 0) INVALID 0 cache_type"

definition isValid :: "CacheBlockInfo \<Rightarrow> bool" where
  "isValid b = (m_tag b \<noteq> NOT 0)"

definition invalidateBlock :: "CacheBlockInfo \<Rightarrow> CacheBlockInfo" where
  "invalidateBlock b =
     (let b = (if block_class b = PR_L2_CACHE then b\<lparr>m_cached_loc_bitvec := 0\<rparr> else b)
      in b\<lparr>m_tag := NOT 0, m_cstate := INVALID\<rparr>)"

text \<open>\<^verbatim>\<open>b->clone(src)\<close>: the receiver keeps its class and takes the fields of the source.\<close>

definition clone :: "CacheBlockInfo \<Rightarrow> CacheBlockInfo \<Rightarrow> CacheBlockInfo" where
  "clone b src =
     (let b = (if block_class b = PR_L2_CACHE then b\<lparr>m_cached_loc_bitvec := m_cached_loc_bitvec src\<rparr> else b)
      in b\<lparr>m_tag := m_tag src, m_cstate := m_cstate src, m_owner := m_owner src,
           m_used := m_used src, m_options := m_options src\<rparr>)"

definition hasOption :: "CacheBlockInfo \<Rightarrow> option_t \<Rightarrow> bool" where
  "hasOption b opt = (m_options b AND push_bit (option_bit opt) 1 \<noteq> 0)"

definition setOption :: "CacheBlockInfo \<Rightarrow> option_t \<Rightarrow> CacheBlockInfo" where
  "setOption b opt = b\<lparr>m_options := m_options b OR push_bit (option_bit opt) 1\<rparr>"

definition clearOption :: "CacheBlockInfo \<Rightarrow> option_t \<Rightarrow> CacheBlockInfo" where
  "clearOption b opt = b\<lparr>m_options := ucast (ucast (m_options b) AND NOT (push_bit (option_bit opt) (1 :: UInt64)))\<rparr>"

definition updateUsage_mask :: "CacheBlockInfo \<Rightarrow> UInt8 \<Rightarrow> bool \<times> CacheBlockInfo" where
  "updateUsage_mask b used = (used AND NOT (m_used b) \<noteq> 0, b\<lparr>m_used := m_used b OR used\<rparr>)"

definition BitsUsedOffset :: nat where
  "BitsUsedOffset = 3"

definition updateUsage :: "CacheBlockInfo \<Rightarrow> UInt32 \<Rightarrow> UInt32 \<Rightarrow> bool \<times> CacheBlockInfo" where
  "updateUsage b offset sz =
     (let first = ucast (drop_bit BitsUsedOffset offset) :: UInt64;
          last = ucast (drop_bit BitsUsedOffset (offset + sz - 1)) :: UInt64;
          first_mask = push_bit (unat first) 1 - 1 :: UInt64;
          last_mask = push_bit (unat (last + 1)) 1 - 1 :: UInt64;
          usage_mask = last_mask AND NOT first_mask
      in updateUsage_mask b (ucast usage_mask))"

text \<open>Components of the memory system, \<^verbatim>\<open>mem_component.h\<close>, with the enumeration's numbers.\<close>

datatype mem_component_t =
    INVALID_MEM_COMPONENT | CORE | L1_ICACHE | L1_DCACHE | L2_CACHE | L3_CACHE | L4_CACHE
  | LAST_LEVEL_CACHE | TAG_DIR | NUCA_CACHE | DRAM_CACHE | DRAM

fun mem_component_num :: "mem_component_t \<Rightarrow> nat" where
  "mem_component_num INVALID_MEM_COMPONENT = 0"
| "mem_component_num CORE = 1"
| "mem_component_num L1_ICACHE = 2"
| "mem_component_num L1_DCACHE = 3"
| "mem_component_num L2_CACHE = 4"
| "mem_component_num L3_CACHE = 5"
| "mem_component_num L4_CACHE = 6"
| "mem_component_num LAST_LEVEL_CACHE = 20"
| "mem_component_num TAG_DIR = 21"
| "mem_component_num NUCA_CACHE = 22"
| "mem_component_num DRAM_CACHE = 23"
| "mem_component_num DRAM = 24"

definition loc_bit :: "mem_component_t \<Rightarrow> UInt32" where
  "loc_bit c = push_bit (mem_component_num c) 1"

definition getCachedLoc :: "CacheBlockInfo \<Rightarrow> mem_component_t res" where
  "getCachedLoc b =
     bindE (assertE (m_cached_loc_bitvec b \<noteq> (loc_bit L1_ICACHE OR loc_bit L1_DCACHE)) (LogError ''m_cached_loc_bitvec''))
       (\<lambda>_. if m_cached_loc_bitvec b = loc_bit L1_ICACHE then Inr L1_ICACHE
            else if m_cached_loc_bitvec b = loc_bit L1_DCACHE then Inr L1_DCACHE
            else if m_cached_loc_bitvec b = 0 then Inr INVALID_MEM_COMPONENT
            else Inl (LogError ''Error: m_cached_loc_bitvec''))"

definition setCachedLoc :: "CacheBlockInfo \<Rightarrow> mem_component_t \<Rightarrow> CacheBlockInfo res" where
  "setCachedLoc b loc =
     bindE (assertE (loc \<noteq> INVALID_MEM_COMPONENT) (LogError ''cached_loc invalid''))
       (\<lambda>_. bindE (assertE (m_cached_loc_bitvec b AND loc_bit loc = 0) (LogError ''cached_loc already set''))
         (\<lambda>_. Inr (b\<lparr>m_cached_loc_bitvec := m_cached_loc_bitvec b OR loc_bit loc\<rparr>)))"

definition clearCachedLoc :: "CacheBlockInfo \<Rightarrow> mem_component_t \<Rightarrow> CacheBlockInfo res" where
  "clearCachedLoc b loc =
     bindE (assertE (loc \<noteq> INVALID_MEM_COMPONENT) (LogError ''cached_loc invalid''))
       (\<lambda>_. bindE (assertE (m_cached_loc_bitvec b AND loc_bit loc \<noteq> 0) (LogError ''cached_loc not set''))
         (\<lambda>_. Inr (b\<lparr>m_cached_loc_bitvec := m_cached_loc_bitvec b AND NOT (loc_bit loc)\<rparr>)))"

section \<open>Blocks\<close>

lemma createBlock_invalid [simp]: "\<not> isValid (createBlock cls)"
  by (simp add: createBlock_def mk_CacheBlockInfo_def isValid_def)

lemma invalidateBlock_invalid [simp]: "\<not> isValid (invalidateBlock b)"
  by (simp add: invalidateBlock_def isValid_def Let_def)

lemma m_tag_clone [simp]: "m_tag (clone b src) = m_tag src"
  by (simp add: clone_def Let_def)

lemma m_cstate_clone [simp]: "m_cstate (clone b src) = m_cstate src"
  by (simp add: clone_def Let_def)

lemma block_class_clone [simp]: "block_class (clone b src) = block_class b"
  by (simp add: clone_def Let_def)

lemma isValid_clone [simp]: "isValid (clone b src) = isValid src"
  by (simp add: isValid_def)

lemma m_tag_invalidateBlock [simp]: "m_tag (invalidateBlock b) = NOT 0"
  by (simp add: invalidateBlock_def Let_def)

text \<open>Cloning between blocks of one class copies every field.\<close>

lemma clone_same_class:
  "block_class b = block_class src \<Longrightarrow> m_cached_loc_bitvec b = 0 \<or> block_class b = PR_L2_CACHE \<Longrightarrow>
   m_cached_loc_bitvec src = 0 \<or> block_class src = PR_L2_CACHE \<Longrightarrow> clone b src = src"
  by (cases b, cases src) (auto simp: clone_def Let_def)

section \<open>Options and usage bits\<close>

lemma hasOption_bit: "hasOption b opt \<longleftrightarrow> bit (m_options b) (option_bit opt)"
  by (simp add: hasOption_def bit_iff_and_push_bit_not_eq_0)

lemma option_bit_eq_iff [simp]: "option_bit a = option_bit b \<longleftrightarrow> a = b"
  by (cases a; cases b) simp_all

lemma option_bit_less [simp]: "option_bit a < 8"
  by (cases a) simp_all

lemma hasOption_setOption: "hasOption (setOption b o1) o2 \<longleftrightarrow> o1 = o2 \<or> hasOption b o2"
  by (auto simp: hasOption_bit setOption_def bit_simps)

lemma hasOption_clearOption: "hasOption (clearOption b o1) o2 \<longleftrightarrow> o1 \<noteq> o2 \<and> hasOption b o2"
  by (auto simp: hasOption_bit clearOption_def bit_simps less_trans [OF option_bit_less])

text \<open>Usage tracking: for an access of \<open>sz > 0\<close> bytes that stays inside a 64-byte line,
  \<^verbatim>\<open>updateUsage\<close> marks exactly the 8-byte elements the access touches, keeps those already
  marked, and reports whether any mark is new.\<close>

theorem updateUsage_bits:
  assumes "0 < sz" and "unat offset + unat sz \<le> 64"
  shows "(\<forall>i. bit (m_used (snd (updateUsage b offset sz))) i \<longleftrightarrow>
      bit (m_used b) i \<or> (unat offset div 8 \<le> i \<and> i \<le> (unat offset + unat sz - 1) div 8)) \<and>
    (fst (updateUsage b offset sz) \<longleftrightarrow> m_used (snd (updateUsage b offset sz)) \<noteq> m_used b)"
proof -
  define lst where "lst = (unat offset + unat sz - 1) div 8"
  have "unat (offset + sz) = unat offset + unat sz"
    using assms(2) by (simp add: unat_add_lem [THEN iffD1])
  moreover have "offset + sz \<noteq> 0"
  proof
    assume "offset + sz = 0"
    then have "unat sz = 0" using calculation by simp
    then show False using assms(1) by (simp add: unat_eq_zero)
  qed
  ultimately have end_unat: "unat (offset + sz - 1) = unat offset + unat sz - 1"
    by (simp add: unat_dec)
  have l: "unat (ucast (drop_bit 3 (offset + sz - 1)) :: UInt64) = lst"
    by (simp add: unat_drop_bit_eq end_unat drop_bit_eq_div [where 'a = nat] lst_def)
  have lst8: "lst < 8" using assms(2) by (simp add: lst_def)
  then have "unat (ucast (drop_bit 3 (offset + sz - 1)) + 1 :: UInt64) = lst + 1"
    using l by (subst unat_add_lem [THEN iffD1]) simp_all
  moreover have f: "unat (ucast (drop_bit 3 offset) :: UInt64) = unat offset div 8"
    by (simp add: unat_drop_bit_eq drop_bit_eq_div [where 'a = nat])
  ultimately have u: "updateUsage b offset sz =
      updateUsage_mask b (ucast (mask (lst + 1) AND NOT (mask (unat offset div 8)) :: UInt64))"
    by (simp add: updateUsage_def BitsUsedOffset_def Let_def mask_eq_exp_minus_1)
  have bits: "bit (m_used (snd (updateUsage b offset sz))) i \<longleftrightarrow>
      bit (m_used b) i \<or> (unat offset div 8 \<le> i \<and> i \<le> lst)" for i
    using lst8 by (auto simp: u updateUsage_mask_def bit_simps)
  have "fst (updateUsage_mask b m) \<longleftrightarrow> m_used (snd (updateUsage_mask b m)) \<noteq> m_used b" for m
    by (auto simp: updateUsage_mask_def bit_eq_iff bit_simps)
  with bits show ?thesis by (simp add: u lst_def)
qed

theorem updateUsage_bits_witness:
  "let b = createBlock PR_L1_CACHE; (r, b') = updateUsage b 12 8
   in (\<forall>i. bit (m_used b') i \<longleftrightarrow> 1 \<le> i \<and> i \<le> 2) \<and> (r \<longleftrightarrow> m_used b' \<noteq> 0)"
  using updateUsage_bits [of 8 12 "createBlock PR_L1_CACHE"]
  by (simp add: createBlock_def mk_CacheBlockInfo_def Let_def split_beta)

section \<open>The location bits of an L2 block\<close>

lemma loc_bits [simp]:
  "loc_bit L1_ICACHE = 4" "loc_bit L1_DCACHE = 8" "loc_bit c \<noteq> 0"
  by (simp_all add: loc_bit_def push_bit_eq_mult) (cases c; simp)

lemma setCachedLoc_getCachedLoc:
  assumes "loc = L1_ICACHE \<or> loc = L1_DCACHE" and "m_cached_loc_bitvec b = 0"
  shows "\<exists>b'. setCachedLoc b loc = Inr b' \<and> getCachedLoc b' = Inr loc \<and>
    setCachedLoc b' loc = Inl (LogError ''cached_loc already set'') \<and> clearCachedLoc b' loc = Inr b"
  using assms by (auto simp: setCachedLoc_def getCachedLoc_def clearCachedLoc_def)

end
