(* ===== verification/LS_Replacement.thy ===== *)
theory LS_Replacement
  imports LS_Cache_Block
begin

text \<open>
  The replacement policies of \<^verbatim>\<open>common/core/memory_subsystem/cache/cache_set_*.cc\<close>. Each policy
  is its own state, a function for \<^verbatim>\<open>getReplacementIndex\<close> and one for
  \<^verbatim>\<open>updateReplacementIndex\<close>. The blocks of the set are an argument; the associativity is their
  number. The object shared by the sets of one cache (\<^verbatim>\<open>CacheSetInfoLRU\<close>) and the lookup cost
  charged to the cache controller are threaded as \<open>ReplCtx\<close>.
\<close>

section \<open>Shared state\<close>

record CacheSetInfoLRU =
  si_associativity :: nat
  m_access :: "UInt64 list"
  m_attempts :: "UInt64 list option"

definition mk_CacheSetInfoLRU :: "nat \<Rightarrow> UInt8 \<Rightarrow> CacheSetInfoLRU" where
  "mk_CacheSetInfoLRU assoc num_attempts =
     \<lparr>si_associativity = assoc, m_access = replicate assoc 0,
      m_attempts = (if num_attempts > 1 then Some (replicate (unat num_attempts) 0) else None)\<rparr>"

definition si_increment :: "CacheSetInfoLRU \<Rightarrow> nat \<Rightarrow> CacheSetInfoLRU res" where
  "si_increment si index =
     bindE (assertE (index < si_associativity si) (LogError ''Index(%d) >= Associativity(%d)''))
       (\<lambda>_. Inr (si\<lparr>m_access := (m_access si)[index := m_access si ! index + 1]\<rparr>))"

definition si_incrementAttempt :: "CacheSetInfoLRU \<Rightarrow> nat \<Rightarrow> CacheSetInfoLRU res" where
  "si_incrementAttempt si attempt =
     (case m_attempts si of
        Some att \<Rightarrow>
          (if attempt < length att
           then Inr (si\<lparr>m_attempts := Some (att[attempt := att ! attempt + 1])\<rparr>)
           else Inl OutOfRange)
      | None \<Rightarrow>
          bindE (assertE (attempt = 0) (LogError ''No place to store attempt# histogram but attempt != 0''))
            (\<lambda>_. Inr si))"

record ReplCtx =
  m_set_info :: "CacheSetInfoLRU option"
  qbs_lookup_cost :: nat

definition ctx_increment :: "ReplCtx \<Rightarrow> nat \<Rightarrow> ReplCtx res" where
  "ctx_increment ctx index =
     (case m_set_info ctx of None \<Rightarrow> Inl NullPointer
      | Some si \<Rightarrow> bindE (si_increment si index) (\<lambda>si. Inr (ctx\<lparr>m_set_info := Some si\<rparr>)))"

definition ctx_incrementAttempt :: "ReplCtx \<Rightarrow> nat \<Rightarrow> ReplCtx res" where
  "ctx_incrementAttempt ctx attempt =
     (case m_set_info ctx of None \<Rightarrow> Inl NullPointer
      | Some si \<Rightarrow> bindE (si_incrementAttempt si attempt) (\<lambda>si. Inr (ctx\<lparr>m_set_info := Some si\<rparr>)))"

text \<open>
  \<^verbatim>\<open>CacheCntlr *cntlr\<close>: a null pointer or a controller, of which the policies only call
  \<^verbatim>\<open>isInLowerLevelCache\<close> (and \<^verbatim>\<open>incrementQBSLookupCost\<close>, counted in \<open>ReplCtx\<close>).
\<close>

type_synonym cntlr = "(CacheBlockInfo \<Rightarrow> bool) option"

definition isValidReplacement :: "CacheBlockInfo list \<Rightarrow> nat \<Rightarrow> bool" where
  "isValidReplacement bs index = (if m_cstate (bs ! index) = SHARED_UPGRADING then False else True)"

definition first_invalid :: "CacheBlockInfo list \<Rightarrow> nat option" where
  "first_invalid bs = List.find (\<lambda>i. \<not> isValid (bs ! i)) [0..<length bs]"

definition next_ptr :: "nat \<Rightarrow> UInt8 \<Rightarrow> UInt8" where
  "next_ptr n ptr = of_nat ((unat ptr + 1) mod n)"

section \<open>LRU, with query-based selection\<close>

record LRUState =
  m_num_attempts :: UInt8
  m_lru_bits :: "UInt8 list"

definition mk_LRU :: "nat \<Rightarrow> UInt8 \<Rightarrow> LRUState" where
  "mk_LRU assoc num_attempts = \<lparr>m_num_attempts = num_attempts, m_lru_bits = map of_nat [0..<assoc]\<rparr>"

definition moveToMRU :: "UInt8 list \<Rightarrow> nat \<Rightarrow> UInt8 list" where
  "moveToMRU bits accessed_index =
     (fold (\<lambda>i b. if b ! i < b ! accessed_index then b[i := b ! i + 1] else b) [0..<length bits] bits)
       [accessed_index := 0]"

definition lru_scan :: "CacheBlockInfo list \<Rightarrow> UInt8 list \<Rightarrow> nat \<times> UInt8" where
  "lru_scan bs bits =
     fold (\<lambda>i (index, max_bits).
             if bits ! i > max_bits \<and> isValidReplacement bs i then (i, bits ! i) else (index, max_bits))
       [0..<length bs] (0, 0)"

definition qbs_query :: "cntlr \<Rightarrow> CacheBlockInfo \<Rightarrow> bool res" where
  "qbs_query cntlr block =
     (case cntlr of
        None \<Rightarrow> Inl (LogError ''CacheCntlr == NULL, QBS can only be used when cntlr is passed in'')
      | Some isInLowerLevelCache \<Rightarrow> Inr (isInLowerLevelCache block))"

text \<open>The loop over the attempts; \<open>todo\<close> is the number of iterations left.\<close>

fun lru_attempts ::
  "cntlr \<Rightarrow> CacheBlockInfo list \<Rightarrow> nat \<Rightarrow> nat \<Rightarrow> LRUState \<Rightarrow> ReplCtx \<Rightarrow> (nat \<times> LRUState \<times> ReplCtx) res"
where
  "lru_attempts cntlr bs 0 attempt s ctx = Inl (LogError ''Should not reach here'')"
| "lru_attempts cntlr bs (Suc todo) attempt s ctx =
     (let index = fst (lru_scan bs (m_lru_bits s))
      in bindE (assertE (index < length bs) (LogError ''Error Finding LRU bits''))
      (\<lambda>_. bindE (if int attempt < int (unat (m_num_attempts s)) - 1
                  then qbs_query cntlr (bs ! index) else Inr False)
      (\<lambda>qbs_reject.
         if qbs_reject
         then lru_attempts cntlr bs todo (attempt + 1)
                (s\<lparr>m_lru_bits := moveToMRU (m_lru_bits s) index\<rparr>)
                (ctx\<lparr>qbs_lookup_cost := qbs_lookup_cost ctx + 1\<rparr>)
         else bindE (ctx_incrementAttempt ctx attempt)
                (\<lambda>ctx. Inr (index, s\<lparr>m_lru_bits := moveToMRU (m_lru_bits s) index\<rparr>, ctx)))))"

definition lru_getReplacementIndex ::
  "cntlr \<Rightarrow> CacheBlockInfo list \<Rightarrow> LRUState \<Rightarrow> ReplCtx \<Rightarrow> (nat \<times> LRUState \<times> ReplCtx) res" where
  "lru_getReplacementIndex cntlr bs s ctx =
     (case first_invalid bs of
        Some i \<Rightarrow> Inr (i, s\<lparr>m_lru_bits := moveToMRU (m_lru_bits s) i\<rparr>, ctx)
      | None \<Rightarrow> lru_attempts cntlr bs (unat (m_num_attempts s)) 0 s ctx)"

definition lru_updateReplacementIndex ::
  "LRUState \<Rightarrow> ReplCtx \<Rightarrow> nat \<Rightarrow> (LRUState \<times> ReplCtx) res" where
  "lru_updateReplacementIndex s ctx accessed_index =
     bindE (ctx_increment ctx (unat (m_lru_bits s ! accessed_index)))
       (\<lambda>ctx. Inr (s\<lparr>m_lru_bits := moveToMRU (m_lru_bits s) accessed_index\<rparr>, ctx))"

section \<open>MRU and NMRU\<close>

definition mru_updateReplacementIndex :: "UInt8 list \<Rightarrow> nat \<Rightarrow> UInt8 list" where
  "mru_updateReplacementIndex bits accessed_index =
     (fold (\<lambda>i b. if b ! i < b ! accessed_index then b[i := b ! i + 1] else b) [0..<length bits] bits)
       [accessed_index := 0]"

definition mru_getReplacementIndex :: "CacheBlockInfo list \<Rightarrow> UInt8 list \<Rightarrow> (nat \<times> UInt8 list) res" where
  "mru_getReplacementIndex bs bits =
     (case first_invalid bs of
        Some i \<Rightarrow> Inr (i, mru_updateReplacementIndex bits i)
      | None \<Rightarrow>
         (case List.find (\<lambda>(target, i). unat (bits ! i) = target \<and> isValidReplacement bs i)
                 (List.product [0..<length bs] [0..<length bs]) of
            Some (target, i) \<Rightarrow> Inr (i, mru_updateReplacementIndex bits i)
          | None \<Rightarrow> Inl (LogError ''Error Finding LRU bits'')))"

record NMRUState =
  nmru_lru_bits :: "UInt8 list"
  nmru_replacement_pointer :: UInt8

definition mk_NMRU :: "nat \<Rightarrow> NMRUState" where
  "mk_NMRU assoc = \<lparr>nmru_lru_bits = map of_nat [0..<assoc], nmru_replacement_pointer = 0\<rparr>"

definition nmru_updateReplacementIndex :: "NMRUState \<Rightarrow> nat \<Rightarrow> NMRUState" where
  "nmru_updateReplacementIndex s accessed_index =
     s\<lparr>nmru_lru_bits :=
         (fold (\<lambda>i b. if b ! i < b ! accessed_index then b[i := b ! i + 1] else b)
            [0..<length (nmru_lru_bits s)] (nmru_lru_bits s))[accessed_index := 0]\<rparr>"

fun nmru_search :: "CacheBlockInfo list \<Rightarrow> nat \<Rightarrow> NMRUState \<Rightarrow> (nat \<times> NMRUState) res" where
  "nmru_search bs 0 s = Inl (LogError ''Error Finding LRU bits'')"
| "nmru_search bs (Suc todo) s =
     (let ptr = nmru_replacement_pointer s;
          s' = s\<lparr>nmru_replacement_pointer := next_ptr (length bs) ptr\<rparr>
      in if nmru_lru_bits s ! unat ptr \<noteq> 0 \<and> isValidReplacement bs (unat ptr)
         then Inr (unat ptr, nmru_updateReplacementIndex s' (unat ptr))
         else nmru_search bs todo s')"

definition nmru_getReplacementIndex :: "CacheBlockInfo list \<Rightarrow> NMRUState \<Rightarrow> (nat \<times> NMRUState) res" where
  "nmru_getReplacementIndex bs s =
     (case first_invalid bs of
        Some i \<Rightarrow> Inr (i, nmru_updateReplacementIndex s i)
      | None \<Rightarrow> nmru_search bs (length bs) s)"

section \<open>NRU\<close>

record NRUState =
  nru_lru_bits :: "UInt8 list"
  m_num_bits_set :: UInt8
  nru_replacement_pointer :: UInt8

definition mk_NRU :: "nat \<Rightarrow> NRUState" where
  "mk_NRU assoc = \<lparr>nru_lru_bits = replicate assoc 0, m_num_bits_set = 0, nru_replacement_pointer = 0\<rparr>"

definition nru_updateReplacementIndex :: "NRUState \<Rightarrow> nat \<Rightarrow> NRUState" where
  "nru_updateReplacementIndex s accessed_index =
     (let s = s\<lparr>nru_lru_bits := (nru_lru_bits s)[accessed_index := 1],
                m_num_bits_set := m_num_bits_set s + 1\<rparr>
      in if unat (m_num_bits_set s) = length (nru_lru_bits s)
         then s\<lparr>m_num_bits_set := 0, nru_lru_bits := replicate (length (nru_lru_bits s)) 0\<rparr>
         else s)"

fun nru_search :: "CacheBlockInfo list \<Rightarrow> bool \<Rightarrow> nat \<Rightarrow> NRUState \<Rightarrow> (nat \<times> NRUState) res" where
  "nru_search bs have_zero_bit 0 s = Inl (LogError ''Error Finding LRU bits'')"
| "nru_search bs have_zero_bit (Suc todo) s =
     (let ptr = nru_replacement_pointer s;
          s' = s\<lparr>nru_replacement_pointer := next_ptr (length bs) ptr\<rparr>
      in if (nru_lru_bits s ! unat ptr = 0 \<or> have_zero_bit = False) \<and> isValidReplacement bs (unat ptr)
         then Inr (unat ptr, nru_updateReplacementIndex s' (unat ptr))
         else nru_search bs have_zero_bit todo s')"

definition nru_getReplacementIndex :: "CacheBlockInfo list \<Rightarrow> NRUState \<Rightarrow> (nat \<times> NRUState) res" where
  "nru_getReplacementIndex bs s =
     (case first_invalid bs of
        Some i \<Rightarrow> Inr (i, nru_updateReplacementIndex s i)
      | None \<Rightarrow>
          let have_zero_bit = list_ex (\<lambda>i. nru_lru_bits s ! i = 0 \<and> isValidReplacement bs i) [0..<length bs]
          in nru_search bs have_zero_bit (length bs) s)"

section \<open>Tree PLRU\<close>

definition mk_PLRU :: "nat \<Rightarrow> UInt8 list res" where
  "mk_PLRU assoc =
     bindE (assertE (assoc = 4 \<or> assoc = 8) (LogError ''PLRU not implemted for associativity %d (only 4, 8)''))
       (\<lambda>_. Inr (replicate 8 0))"

definition plru_updateReplacementIndex :: "nat \<Rightarrow> UInt8 list \<Rightarrow> nat \<Rightarrow> UInt8 list res" where
  "plru_updateReplacementIndex assoc b accessed_index =
     (if assoc = 4 then Inr
        (if accessed_index = 0 then b[0 := 1, 1 := 1]
         else if accessed_index = 1 then b[0 := 1, 1 := 0]
         else if accessed_index = 2 then b[0 := 0, 2 := 1]
         else if accessed_index = 3 then b[0 := 0, 2 := 0]
         else b)
      else if assoc = 8 then Inr
        (if accessed_index = 0 then b[0 := 1, 1 := 1, 2 := 1]
         else if accessed_index = 1 then b[0 := 1, 1 := 1, 2 := 0]
         else if accessed_index = 2 then b[0 := 1, 1 := 0, 3 := 1]
         else if accessed_index = 3 then b[0 := 1, 1 := 0, 3 := 0]
         else if accessed_index = 4 then b[0 := 0, 4 := 1, 5 := 1]
         else if accessed_index = 5 then b[0 := 0, 4 := 1, 5 := 0]
         else if accessed_index = 6 then b[0 := 0, 4 := 0, 6 := 1]
         else if accessed_index = 7 then b[0 := 0, 4 := 0, 6 := 0]
         else b)
      else Inl (LogError ''PLRU doesn't support associativity %d''))"

definition plru_select :: "nat \<Rightarrow> UInt8 list \<Rightarrow> nat res" where
  "plru_select assoc b =
     (if assoc = 4 then Inr
        (if b ! 0 = 0 then (if b ! 1 = 0 then 0 else 1)
         else (if b ! 2 = 0 then 2 else 3))
      else if assoc = 8 then Inr
        (if b ! 0 = 0
         then (if b ! 1 = 0 then (if b ! 2 = 0 then 0 else 1)
               else (if b ! 3 = 0 then 2 else 3))
         else (if b ! 4 = 0 then (if b ! 5 = 0 then 4 else 5)
               else (if b ! 6 = 0 then 6 else 7)))
      else Inl (LogError ''PLRU doesn't support associativity %d''))"

definition plru_getReplacementIndex :: "CacheBlockInfo list \<Rightarrow> UInt8 list \<Rightarrow> (nat \<times> UInt8 list) res" where
  "plru_getReplacementIndex bs b =
     (case first_invalid bs of
        Some i \<Rightarrow> bindE (plru_updateReplacementIndex (length bs) b i) (\<lambda>b. Inr (i, b))
      | None \<Rightarrow>
          bindE (plru_select (length bs) b)
          (\<lambda>retValue. bindE (assertE (isValidReplacement bs retValue)
                               (LogError ''PLRU selected an invalid replacement candidate''))
          (\<lambda>_. bindE (plru_updateReplacementIndex (length bs) b retValue) (\<lambda>b. Inr (retValue, b)))))"

section \<open>SRRIP, with query-based selection\<close>

record SRRIPState =
  m_rrip_numbits :: UInt8
  m_rrip_max :: UInt8
  m_rrip_insert :: UInt8
  srrip_num_attempts :: UInt8
  m_rrip_bits :: "UInt8 list"
  srrip_replacement_pointer :: UInt8

definition mk_SRRIP :: "nat \<Rightarrow> UInt8 \<Rightarrow> UInt8 \<Rightarrow> SRRIPState" where
  "mk_SRRIP assoc numbits num_attempts =
     (let rrip_max = push_bit (unat numbits) 1 - 1; rrip_insert = rrip_max - 1
      in \<lparr>m_rrip_numbits = numbits, m_rrip_max = rrip_max, m_rrip_insert = rrip_insert,
          srrip_num_attempts = num_attempts, m_rrip_bits = replicate assoc rrip_insert,
          srrip_replacement_pointer = 0\<rparr>)"

text \<open>
  One pass over the ways from the replacement pointer; \<open>todo\<close> iterations are left. The result
  is the victim, or no victim with the state the pass leaves.
\<close>

fun srrip_pass ::
  "cntlr \<Rightarrow> CacheBlockInfo list \<Rightarrow> nat \<Rightarrow> nat \<Rightarrow> SRRIPState \<Rightarrow> ReplCtx
     \<Rightarrow> (nat option \<times> nat \<times> SRRIPState \<times> ReplCtx) res"
where
  "srrip_pass cntlr bs 0 attempt s ctx = Inr (None, attempt, s, ctx)"
| "srrip_pass cntlr bs (Suc todo) attempt s ctx =
     (let ptr = srrip_replacement_pointer s; index = unat ptr
      in if m_rrip_bits s ! index \<ge> m_rrip_max s
         then
           bindE (if int attempt < int (unat (srrip_num_attempts s)) - 1
                  then qbs_query cntlr (bs ! index) else Inr False)
           (\<lambda>qbs_reject.
              if qbs_reject
              then srrip_pass cntlr bs todo (attempt + 1)
                     (s\<lparr>m_rrip_bits := (m_rrip_bits s)[index := 0]\<rparr>)
                     (ctx\<lparr>qbs_lookup_cost := qbs_lookup_cost ctx + 1\<rparr>)
              else
                let s = s\<lparr>srrip_replacement_pointer := next_ptr (length bs) ptr,
                          m_rrip_bits := (m_rrip_bits s)[index := m_rrip_insert s]\<rparr>
                in bindE (ctx_incrementAttempt ctx attempt)
                   (\<lambda>ctx. bindE (assertE (isValidReplacement bs index)
                                   (LogError ''SRRIP selected an invalid replacement candidate''))
                   (\<lambda>_. Inr (Some index, attempt, s, ctx))))
         else srrip_pass cntlr bs todo attempt
                (s\<lparr>srrip_replacement_pointer := next_ptr (length bs) ptr\<rparr>) ctx)"

definition srrip_age :: "SRRIPState \<Rightarrow> SRRIPState" where
  "srrip_age s =
     s\<lparr>m_rrip_bits := fold (\<lambda>i b. if b ! i < m_rrip_max s then b[i := b ! i + 1] else b)
                         [0..<length (m_rrip_bits s)] (m_rrip_bits s)\<rparr>"

fun srrip_rounds ::
  "cntlr \<Rightarrow> CacheBlockInfo list \<Rightarrow> nat \<Rightarrow> nat \<Rightarrow> SRRIPState \<Rightarrow> ReplCtx \<Rightarrow> (nat \<times> SRRIPState \<times> ReplCtx) res"
where
  "srrip_rounds cntlr bs 0 attempt s ctx = Inl (LogError ''Error finding replacement index'')"
| "srrip_rounds cntlr bs (Suc todo) attempt s ctx =
     bindE (srrip_pass cntlr bs (length bs) attempt s ctx)
       (\<lambda>(r, attempt, s, ctx). case r of
          Some index \<Rightarrow> Inr (index, s, ctx)
        | None \<Rightarrow> srrip_rounds cntlr bs todo attempt (srrip_age s) ctx)"

definition srrip_getReplacementIndex ::
  "cntlr \<Rightarrow> CacheBlockInfo list \<Rightarrow> SRRIPState \<Rightarrow> ReplCtx \<Rightarrow> (nat \<times> SRRIPState \<times> ReplCtx) res" where
  "srrip_getReplacementIndex cntlr bs s ctx =
     (case first_invalid bs of
        Some i \<Rightarrow> Inr (i, s\<lparr>m_rrip_bits := (m_rrip_bits s)[i := m_rrip_insert s]\<rparr>, ctx)
      | None \<Rightarrow> srrip_rounds cntlr bs (unat (m_rrip_max s) + 1) 0 s ctx)"

definition srrip_updateReplacementIndex ::
  "SRRIPState \<Rightarrow> ReplCtx \<Rightarrow> nat \<Rightarrow> (SRRIPState \<times> ReplCtx) res" where
  "srrip_updateReplacementIndex s ctx accessed_index =
     bindE (ctx_increment ctx (unat (m_rrip_bits s ! accessed_index)))
       (\<lambda>ctx. Inr (if m_rrip_bits s ! accessed_index > 0
                   then s\<lparr>m_rrip_bits := (m_rrip_bits s)[accessed_index := m_rrip_bits s ! accessed_index - 1]\<rparr>
                   else s, ctx))"

section \<open>Round robin and random\<close>

text \<open>
  Both policies retry by calling themselves, without a bound: \<open>None\<close> is a retry that never
  ends.
\<close>

definition rr_next :: "nat \<Rightarrow> nat \<Rightarrow> nat" where
  "rr_next n r = (if r = 0 then n - 1 else r - 1)"

partial_function (option) rr_getReplacementIndex :: "CacheBlockInfo list \<Rightarrow> nat \<Rightarrow> (nat \<times> nat) option" where
  "rr_getReplacementIndex bs m_replacement_index =
     (let curr_replacement_index = m_replacement_index;
          m_replacement_index = rr_next (length bs) m_replacement_index
      in if \<not> isValidReplacement bs m_replacement_index
         then rr_getReplacementIndex bs m_replacement_index
         else Some (curr_replacement_index, m_replacement_index))"

partial_function (option) random_getReplacementIndex ::
  "CacheBlockInfo list \<Rightarrow> UInt32 \<Rightarrow> (nat \<times> UInt32) option" where
  "random_getReplacementIndex bs seed =
     (case first_invalid bs of
        Some i \<Rightarrow> Some (i, seed)
      | None \<Rightarrow>
          let index = unat (fst (random_next seed 32768)) mod length bs;
              seed = snd (random_next seed 32768)
          in if isValidReplacement bs index then Some (index, seed)
             else random_getReplacementIndex bs seed)"

declare rr_getReplacementIndex.simps [code] random_getReplacementIndex.simps [code]

end
