(* ===== verification/LS_LRU.thy ===== *)
theory LS_LRU
  imports LS_Replacement
begin

text \<open>
  Correctness of the LRU policy (\<^verbatim>\<open>cache_set_lru.cc\<close>): the 8-bit ranks are a permutation, they
  encode the ways in order of use, and the victim is the least recently used replaceable way.
\<close>

section \<open>The ranks as a recency list\<close>

definition lru_perm :: "nat \<Rightarrow> UInt8 list \<Rightarrow> bool" where
  "lru_perm n bits \<longleftrightarrow> length bits = n \<and> n \<le> 256 \<and> distinct bits \<and> (\<forall>b\<in>set bits. unat b < n)"

definition lru_order :: "UInt8 list \<Rightarrow> nat list" where
  "lru_order bits = sort_key (\<lambda>i. unat (bits ! i)) [0..<length bits]"

lemma moveToMRU_map [bridge]:
  assumes "k < length bits"
  shows "moveToMRU bits k = (map (\<lambda>x. if x < bits ! k then x + 1 else x) bits)[k := 0]"
proof -
  let ?f = "\<lambda>x. if x < bits ! k then x + 1 else x"
  let ?F = "\<lambda>i b. if b ! i < b ! k then b[i := b ! i + 1] else b"
  have "fold ?F [0..<n] bits = map ?f (take n bits) @ drop n bits" if "n \<le> length bits" for n
    using that
  proof (induction n)
    case (Suc n)
    let ?zs = "map ?f (take n bits) @ drop n bits"
    have k: "?zs ! k = bits ! k" using Suc.prems assms by (auto simp: nth_append)
    have z: "?zs ! n = bits ! n" using Suc.prems by (simp add: nth_append)
    have "fold ?F [0..<Suc n] bits = ?F n ?zs" using Suc by simp
    also have "\<dots> = ?zs[n := ?f (bits ! n)]"
    proof (cases "bits ! n < bits ! k")
      case False
      then have "?f (bits ! n) = ?zs ! n" by (simp only: z if_False)
      then have "?zs[n := ?f (bits ! n)] = ?zs" by (simp only: list_update_id)
      then show ?thesis using False by (simp only: k z if_False)
    qed (simp only: k z if_True)
    also have "\<dots> = map ?f (take (Suc n) bits) @ drop (Suc n) bits"
      using Suc.prems
      by (simp add: list_update_append take_Suc_conv_app_nth Cons_nth_drop_Suc [symmetric])
    finally show ?case .
  qed simp
  from this [of "length bits"] show ?thesis by (simp add: moveToMRU_def)
qed

lemma length_moveToMRU [simp]: "length (moveToMRU bits k) = length bits"
  by (simp add: moveToMRU_def)

lemma lru_perm_rank_lt: "lru_perm n bits \<Longrightarrow> i < n \<Longrightarrow> unat (bits ! i) < n"
  by (auto simp: lru_perm_def)

lemma unat_moveToMRU:
  assumes "lru_perm n bits" and "k < n" and "i < n"
  shows "unat (moveToMRU bits k ! i) =
    (if i = k then 0 else if unat (bits ! i) < unat (bits ! k) then unat (bits ! i) + 1 else unat (bits ! i))"
proof -
  have "k < length bits" "i < length bits" using assms by (simp_all add: lru_perm_def)
  then show ?thesis
    by (simp add: moveToMRU_map nth_list_update unat_plus_one word_less_nat_alt [symmetric])
qed

lemma lru_perm_inj: "lru_perm n bits \<Longrightarrow> i < n \<Longrightarrow> j < n \<Longrightarrow> unat (bits ! i) = unat (bits ! j) \<longleftrightarrow> i = j"
  by (auto simp: lru_perm_def word_unat_eq_iff [symmetric] nth_eq_iff_index_eq)

lemma lru_perm_moveToMRU [wf_intros]:
  assumes "lru_perm n bits" and "k < n"
  shows "lru_perm n (moveToMRU bits k)"
proof -
  let ?b = "moveToMRU bits k"
  have len: "length ?b = n" using assms by (simp add: lru_perm_def)
  note rank = unat_moveToMRU [OF assms] and inj = lru_perm_inj [OF assms(1)]
  have "?b ! i \<noteq> ?b ! j" if "i < n" "j < n" "i \<noteq> j" for i j
  proof -
    have "unat (bits ! i) \<noteq> unat (bits ! j)" using inj that by simp
    moreover have "i \<noteq> k \<Longrightarrow> unat (bits ! i) \<noteq> unat (bits ! k)" using inj that assms(2) by simp
    moreover have "j \<noteq> k \<Longrightarrow> unat (bits ! j) \<noteq> unat (bits ! k)" using inj that assms(2) by simp
    ultimately have "unat (?b ! i) \<noteq> unat (?b ! j)"
      using that by (auto simp: rank split: if_splits)
    then show ?thesis by auto
  qed
  then have "distinct ?b" unfolding distinct_conv_nth len by blast
  moreover have "unat (?b ! i) < n" if "i < n" for i
    using that assms(2) lru_perm_rank_lt [OF assms(1) that] lru_perm_rank_lt [OF assms(1) assms(2)]
    by (simp add: rank)
  ultimately show ?thesis
    using assms(1) len by (auto simp: lru_perm_def in_set_conv_nth)
qed

lemma lru_perm_init [wf_intros]:
  assumes "n \<le> 256"
  shows "lru_perm n (map of_nat [0..<n])"
proof -
  have "unat (of_nat i :: UInt8) = i" if "i < n" for i
    using that assms by simp
  moreover from this have "inj_on (of_nat :: nat \<Rightarrow> UInt8) {0..<n}"
    by (metis (mono_tags, lifting) atLeastLessThan_iff inj_onI)
  ultimately show ?thesis using assms by (auto simp: lru_perm_def distinct_map)
qed

lemma lru_order_set [simp]: "set (lru_order bits) = {0..<length bits}"
  by (simp add: lru_order_def)

lemma lru_order_distinct [simp]: "distinct (lru_order bits)"
  by (simp add: lru_order_def)

lemma lru_order_unique:
  assumes "lru_perm n bits" and "set xs = {0..<n}" and "distinct xs"
    and "sorted (map (\<lambda>i. unat (bits ! i)) xs)"
  shows "xs = lru_order bits"
proof -
  have inj: "inj_on (\<lambda>i. unat (bits ! i)) {0..<n}"
    using lru_perm_inj [OF assms(1)] by (auto simp: inj_on_def)
  have n: "length bits = n" using assms(1) by (simp add: lru_perm_def)
  show ?thesis
  proof (rule map_sorted_distinct_set_unique [of "\<lambda>i. unat (bits ! i)"])
    show "inj_on (\<lambda>i. unat (bits ! i)) (set xs \<union> set (lru_order bits))"
      using inj n assms(2) by simp
    show "distinct (map (\<lambda>i. unat (bits ! i)) xs)" "distinct (map (\<lambda>i. unat (bits ! i)) (lru_order bits))"
      using inj n assms(2,3) by (simp_all add: distinct_map)
    show "sorted (map (\<lambda>i. unat (bits ! i)) (lru_order bits))" by (simp add: lru_order_def)
    show "set xs = set (lru_order bits)" using n assms(2) by simp
  qed (rule assms)
qed

text \<open>C14. LRU refinement: with at most 256 ways, \<^verbatim>\<open>moveToMRU\<close> keeps the 8-bit ranks a
  permutation and, on the list of ways in order of use, moves the accessed way to the front and
  leaves the others in their order.\<close>

theorem moveToMRU_refines_recency_list:
  assumes "lru_perm n bits" and "k < n"
  shows "lru_perm n (moveToMRU bits k) \<and> lru_order (moveToMRU bits k) = k # remove1 k (lru_order bits)"
proof (rule conjI)
  show perm: "lru_perm n (moveToMRU bits k)" by (rule lru_perm_moveToMRU [OF assms])
  have n: "length bits = n" using assms(1) by (simp add: lru_perm_def)
  have rem: "remove1 k (lru_order bits) = filter (\<lambda>i. i \<noteq> k) (lru_order bits)"
    by (simp add: distinct_remove1_removeAll removeAll_filter_not_eq) (metis (mono_tags))
  let ?f = "\<lambda>i. unat (bits ! i)" and ?g = "\<lambda>i. unat (moveToMRU bits k ! i)"
  note rank = unat_moveToMRU [OF assms]
  have mono: "?g i \<le> ?g j" if "?f i \<le> ?f j" "i < n" "j < n" "i \<noteq> k" "j \<noteq> k" for i j
    using that lru_perm_inj [OF assms(1) _ assms(2)] by (auto simp: rank le_less)
  have "sorted_wrt (\<lambda>i j. ?f i \<le> ?f j) (lru_order bits)"
    using sorted_sort_key [of ?f "[0..<length bits]"] by (simp add: lru_order_def sorted_map)
  then have "sorted_wrt (\<lambda>i j. ?f i \<le> ?f j) (filter (\<lambda>i. i \<noteq> k) (lru_order bits))"
    by (rule sorted_wrt_filter)
  then have "sorted_wrt (\<lambda>i j. ?g i \<le> ?g j) (filter (\<lambda>i. i \<noteq> k) (lru_order bits))"
    by (rule sorted_wrt_mono_rel [rotated]) (use mono n in auto)
  then have "sorted (map ?g (k # filter (\<lambda>i. i \<noteq> k) (lru_order bits)))"
    using assms(2) by (simp add: sorted_map rank)
  moreover have "set (k # filter (\<lambda>i. i \<noteq> k) (lru_order bits)) = {0..<n}"
    using assms(2) n by auto
  ultimately show "lru_order (moveToMRU bits k) = k # remove1 k (lru_order bits)"
    unfolding rem by (intro lru_order_unique [OF perm, symmetric]) simp_all
qed

theorem moveToMRU_refines_recency_list_witness:
  "lru_perm 4 (moveToMRU [1, 3, 0, 2] 3) \<and>
   lru_order (moveToMRU [1, 3, 0, 2] 3) = 3 # remove1 3 (lru_order [1, 3, 0, 2])"
  by (rule moveToMRU_refines_recency_list) (simp_all add: lru_perm_def)

section \<open>The victim\<close>

lemma lru_scan_invariant:
  fixes bits :: "UInt8 list"
  assumes "n \<le> length bs"
    and "fold (\<lambda>i (index, max_bits).
           if bits ! i > max_bits \<and> isValidReplacement bs i then (i, bits ! i) else (index, max_bits))
         [0..<n] (0, 0) = (i, mx)"
  shows "(mx = 0 \<and> i = 0 \<and> (\<forall>j<n. isValidReplacement bs j \<longrightarrow> bits ! j = 0)) \<or>
    (i < n \<and> isValidReplacement bs i \<and> mx = bits ! i \<and> 0 < mx \<and>
     (\<forall>j<n. isValidReplacement bs j \<longrightarrow> bits ! j \<le> mx))"
  using assms
proof (induction n arbitrary: i mx)
  case 0
  then show ?case by simp
next
  case (Suc n)
  obtain i' mx' where prev: "fold (\<lambda>i (index, max_bits).
      if bits ! i > max_bits \<and> isValidReplacement bs i then (i, bits ! i) else (index, max_bits))
      [0..<n] (0, 0) = (i', mx')" by fastforce
  with Suc.prems(2) have step:
    "(i, mx) = (if bits ! n > mx' \<and> isValidReplacement bs n then (n, bits ! n) else (i', mx'))"
    by simp
  note IH = Suc.IH [OF _ prev]
  show ?case
  proof (cases "bits ! n > mx' \<and> isValidReplacement bs n")
    case True
    then have "i = n" "mx = bits ! n" using step by simp_all
    moreover have "\<forall>j<n. isValidReplacement bs j \<longrightarrow> bits ! j \<le> mx'" using IH Suc.prems(1) by auto
    moreover have "mx' < bits ! n" using True by simp
    ultimately show ?thesis using True
      by (auto simp: less_Suc_eq word_gt_0 dest: less_imp_le order_trans)
  next
    case False
    then have "i = i'" "mx = mx'" using step by auto
    with False IH Suc.prems(1) show ?thesis
      by (auto simp: less_Suc_eq not_less)
  qed
qed

lemma sorted_last_max:
  "sorted (map f xs) \<Longrightarrow> x \<in> set xs \<Longrightarrow> f x \<le> (f (last xs) :: nat)"
  by (induction xs) auto

text \<open>When some replaceable way is not the most recent one, the scan finds the least recently
  used of the replaceable ways.\<close>

lemma lru_scan_victim:
  assumes perm: "lru_perm (length bs) bits"
    and ex: "j < length bs" "isValidReplacement bs j" "bits ! j \<noteq> 0"
  shows "fst (lru_scan bs bits) = last (filter (isValidReplacement bs) (lru_order bits))"
proof -
  let ?n = "length bs" and ?f = "\<lambda>i. unat (bits ! i)"
  let ?xs = "filter (isValidReplacement bs) (lru_order bits)"
  have n: "length bits = ?n" using perm by (simp add: lru_perm_def)
  obtain i mx where scan: "lru_scan bs bits = (i, mx)" by fastforce
  have inv: "i < ?n" "isValidReplacement bs i" "\<forall>j<?n. isValidReplacement bs j \<longrightarrow> ?f j \<le> ?f i"
    using lru_scan_invariant [of ?n bs bits i mx] scan ex
    by (auto simp: lru_scan_def word_le_nat_alt)
  have in_xs: "i \<in> set ?xs" using inv n by simp
  then have "?xs \<noteq> []" by (metis list.set(1) empty_iff)
  then have last: "last ?xs \<in> set ?xs" by (rule last_in_set)
  have "sorted (map ?f ?xs)"
    using sorted_sort_key [of ?f "[0..<length bits]"]
    by (simp add: lru_order_def sorted_map sorted_wrt_filter)
  from sorted_last_max [OF this in_xs] have "?f i \<le> ?f (last ?xs)" .
  moreover have "?f (last ?xs) \<le> ?f i" using last inv(3) n by simp
  ultimately have "?f i = ?f (last ?xs)" by (rule le_antisym)
  moreover have "last ?xs < ?n" using last n by simp
  ultimately have "i = last ?xs" using lru_perm_inj [OF perm inv(1)] by blast
  then show ?thesis by (simp add: scan)
qed

lemma lru_scan_less: "bs \<noteq> [] \<Longrightarrow> fst (lru_scan bs bits) < length bs"
  using lru_scan_invariant [of "length bs" bs bits "fst (lru_scan bs bits)" "snd (lru_scan bs bits)"]
  by (auto simp: lru_scan_def)

text \<open>With one attempt, as configured for plain LRU, there is no query and no loop.\<close>

lemma lru_attempts_1:
  assumes "m_num_attempts s = 1" and "bs \<noteq> []" and "m_set_info ctx = Some si" and "m_attempts si = None"
  shows "lru_attempts cntlr bs (unat (m_num_attempts s)) 0 s ctx =
    (let v = fst (lru_scan bs (m_lru_bits s)) in Inr (v, s\<lparr>m_lru_bits := moveToMRU (m_lru_bits s) v\<rparr>, ctx))"
proof -
  have "ctx_incrementAttempt ctx 0 = Inr ctx"
    using assms(3,4) by (simp add: ctx_incrementAttempt_def si_incrementAttempt_def)
  then show ?thesis
    using assms(1,2) lru_scan_less [OF assms(2)] by (simp add: Let_def)
qed

text \<open>C15. LRU victim: in a set without an invalid block, plain LRU (one attempt) returns the least
  recently used of the ways that may be replaced, provided one of them is not the most recent way,
  and makes it the most recent one; no other state changes.\<close>

theorem lru_victim_least_recent:
  assumes "lru_perm (length bs) (m_lru_bits s)" and "first_invalid bs = None"
    and "j < length bs" and "isValidReplacement bs j" and "m_lru_bits s ! j \<noteq> 0"
    and "m_num_attempts s = 1" and "m_set_info ctx = Some si" and "m_attempts si = None"
  shows "lru_getReplacementIndex cntlr bs s ctx =
    (let v = last (filter (isValidReplacement bs) (lru_order (m_lru_bits s)))
     in Inr (v, s\<lparr>m_lru_bits := moveToMRU (m_lru_bits s) v\<rparr>, ctx))"
proof -
  have "bs \<noteq> []" using assms(3) by auto
  then show ?thesis
    unfolding lru_getReplacementIndex_def assms(2) option.case
      lru_scan_victim [OF assms(1,3-5), symmetric]
    using lru_attempts_1 [OF assms(6) _ assms(7,8)] by blast
qed

theorem lru_victim_least_recent_witness:
  "let bs = [mk_CacheBlockInfo 1 SHARED_UPGRADING 0 PR_L1_CACHE, mk_CacheBlockInfo 2 SHARED 0 PR_L1_CACHE,
             mk_CacheBlockInfo 3 MODIFIED 0 PR_L1_CACHE];
       s = \<lparr>m_num_attempts = 1, m_lru_bits = [2, 1, 0]\<rparr>;
       ctx = \<lparr>m_set_info = Some (mk_CacheSetInfoLRU 3 1), qbs_lookup_cost = 0\<rparr>
   in lru_getReplacementIndex None bs s ctx =
    (let v = last (filter (isValidReplacement bs) (lru_order (m_lru_bits s)))
     in Inr (v, s\<lparr>m_lru_bits := moveToMRU (m_lru_bits s) v\<rparr>, ctx))"
  unfolding Let_def
  by (rule lru_victim_least_recent [unfolded Let_def, where j = 1 and si = "mk_CacheSetInfoLRU 3 1"])
    (simp_all add: lru_perm_def isValidReplacement_def mk_CacheBlockInfo_def first_invalid_def isValid_def
      upt_rec mk_CacheSetInfoLRU_def)

text \<open>The provisos matter: the scan starts from way 0 and replaces it only by a way of higher rank, so
  when the only replaceable way is the most recent one, LRU evicts way 0 although it is being
  upgraded.\<close>

text \<open>LRU can evict a block that must not be replaced: with way 0 in state
  \<^verbatim>\<open>SHARED_UPGRADING\<close> and way 1, the most recent, replaceable, the victim is way 0.\<close>

theorem lru_evicts_upgrading_block:
  "let bs = [mk_CacheBlockInfo 1 SHARED_UPGRADING 0 PR_L1_CACHE, mk_CacheBlockInfo 2 SHARED 0 PR_L1_CACHE];
       s = \<lparr>m_num_attempts = 1, m_lru_bits = [1, 0]\<rparr>;
       ctx = \<lparr>m_set_info = Some (mk_CacheSetInfoLRU 2 1), qbs_lookup_cost = 0\<rparr>
   in \<not> isValidReplacement bs 0 \<and> isValidReplacement bs 1 \<and>
      map_sum id fst (lru_getReplacementIndex None bs s ctx) = Inr 0"
  by code_simp

end
