(* ===== verification/LS_Policies.thy ===== *)
theory LS_Policies
  imports LS_LRU
begin

text \<open>
  Correctness of the other replacement policies: MRU, NMRU and NRU, the PLRU tree, SRRIP, and
  round robin.
\<close>

section \<open>Cyclic pointers\<close>

lemma unat_next_ptr: "0 < n \<Longrightarrow> n \<le> 256 \<Longrightarrow> unat (next_ptr n p) = (unat p + 1) mod n"
proof -
  assume n: "0 < n" "n \<le> 256"
  then have "(unat p + 1) mod n < 256" by (meson mod_less_divisor order_less_le_trans)
  then show ?thesis by (simp add: next_ptr_def)
qed

lemma next_ptr_less: "0 < n \<Longrightarrow> n \<le> 256 \<Longrightarrow> unat (next_ptr n p) < n"
  by (simp add: unat_next_ptr)

lemma cyclic_reaches:
  assumes "p < n" and "j < (n::nat)"
  shows "\<exists>k<n. (p + k) mod n = j"
proof (cases "p \<le> j")
  case True
  then have "(p + (j - p)) mod n = j" using assms by simp
  then show ?thesis using assms True by (meson less_imp_diff_less)
next
  case False
  then have "p + (n - (p - j)) = n + j" using assms by simp
  then have "(p + (n - (p - j))) mod n = j" using assms by simp
  then show ?thesis using False assms by (intro exI [of _ "n - (p - j)"]) simp
qed

section \<open>MRU\<close>

lemma mru_update_eq [simp]: "mru_updateReplacementIndex = moveToMRU"
  by (intro ext) (simp add: mru_updateReplacementIndex_def moveToMRU_def)

lemma find_product_first:
  assumes "List.find P (List.product [0..<n] ys) = Some (t, i)"
  shows "P (t, i) \<and> t < n \<and> i \<in> set ys \<and> (\<forall>t'<t. \<forall>y\<in>set ys. \<not> P (t', y))"
  using assms
proof (induction n)
  case (Suc n)
  have app: "List.product [0..<Suc n] ys = List.product [0..<n] ys @ map (Pair n) ys"
    by (simp add: product_concat_map)
  show ?case
  proof (cases "List.find P (List.product [0..<n] ys)")
    case None
    then have "List.find P (map (Pair n) ys) = Some (t, i)"
      using Suc.prems unfolding app by (simp add: find_append)
    from find_SomeD [OF this] have "P (t, i)" "t = n" "i \<in> set ys" by auto
    then show ?thesis using find_NoneD [OF None] by auto
  next
    case (Some r)
    then show ?thesis using Suc unfolding app by (simp add: find_append)
  qed
qed simp

lemma hd_filter_sorted_min:
  "sorted (map f xs) \<Longrightarrow> x \<in> set xs \<Longrightarrow> P x \<Longrightarrow> (f (hd (filter P xs)) :: nat) \<le> f x"
  by (induction xs) auto

text \<open>MRU victim: in a set without an invalid block, the MRU policy returns the most recently used
  of the ways that may be replaced, whenever there is one.\<close>

theorem mru_victim_most_recent:
  assumes perm: "lru_perm (length bs) bits" and "first_invalid bs = None"
    and ex: "j < length bs" "isValidReplacement bs j"
  shows "mru_getReplacementIndex bs bits =
    (let v = hd (filter (isValidReplacement bs) (lru_order bits)) in Inr (v, moveToMRU bits v))"
proof -
  let ?n = "length bs" and ?f = "\<lambda>i. unat (bits ! i)"
  let ?P = "\<lambda>(target, i). ?f i = target \<and> isValidReplacement bs i"
  let ?xs = "filter (isValidReplacement bs) (lru_order bits)"
  have n: "length bits = ?n" using perm by (simp add: lru_perm_def)
  have some: "List.find ?P (List.product [0..<?n] [0..<?n]) \<noteq> None"
    using ex lru_perm_rank_lt [OF perm ex(1)] by (auto simp: find_None_iff)
  then obtain t i where find: "List.find ?P (List.product [0..<?n] [0..<?n]) = Some (t, i)" by auto
  note first = find_product_first [OF find]
  have i: "i < ?n" "isValidReplacement bs i" using first by auto
  then have "?xs \<noteq> []" using n by (auto simp: filter_empty_conv)
  then have hd: "hd ?xs < ?n" "isValidReplacement bs (hd ?xs)"
    using hd_in_set [of ?xs] n by auto
  have "sorted (map ?f (lru_order bits))" by (simp add: lru_order_def)
  then have "?f (hd ?xs) \<le> ?f i" by (rule hd_filter_sorted_min) (use i n in auto)
  moreover have "?f i \<le> ?f (hd ?xs)" using first hd by (auto simp: not_less [symmetric])
  ultimately have "hd ?xs = i" using lru_perm_inj [OF perm hd(1) i(1)] by simp
  then show ?thesis
    using find assms(2) by (simp add: mru_getReplacementIndex_def)
qed

theorem mru_victim_most_recent_witness:
  "mru_getReplacementIndex [mk_CacheBlockInfo 1 SHARED_UPGRADING 0 PR_L1_CACHE, mk_CacheBlockInfo 2 SHARED 0 PR_L1_CACHE]
     [0, 1] =
   (let v = hd (filter (isValidReplacement
       [mk_CacheBlockInfo 1 SHARED_UPGRADING 0 PR_L1_CACHE, mk_CacheBlockInfo 2 SHARED 0 PR_L1_CACHE]) (lru_order [0, 1]))
    in Inr (v, moveToMRU [0, 1] v))"
  by (rule mru_victim_most_recent [where j = 1])
    (simp_all add: lru_perm_def isValidReplacement_def mk_CacheBlockInfo_def first_invalid_def isValid_def upt_rec)

section \<open>NMRU and NRU\<close>

lemma nmru_update_bits [simp]:
  "nmru_lru_bits (nmru_updateReplacementIndex s k) = moveToMRU (nmru_lru_bits s) k"
  "nmru_replacement_pointer (nmru_updateReplacementIndex s k) = nmru_replacement_pointer s"
  by (simp_all add: nmru_updateReplacementIndex_def moveToMRU_def)

lemma nmru_search_sound:
  assumes "nmru_search bs todo s = Inr (v, s')"
    and "bs \<noteq> []" "length bs \<le> 256" "unat (nmru_replacement_pointer s) < length bs"
  shows "v < length bs \<and> isValidReplacement bs v \<and> nmru_lru_bits s ! v \<noteq> 0 \<and>
    nmru_lru_bits s' = moveToMRU (nmru_lru_bits s) v \<and> unat (nmru_replacement_pointer s') < length bs"
  using assms
proof (induction bs todo s rule: nmru_search.induct)
  case (2 bs todo s)
  then show ?case
    by (auto simp: Let_def next_ptr_less split: if_splits)
qed simp

lemma nmru_search_complete:
  assumes "k < todo" and "bs \<noteq> []" "length bs \<le> 256"
    and "(unat (nmru_replacement_pointer s) + k) mod length bs = j"
    and "unat (nmru_replacement_pointer s) < length bs"
    and "nmru_lru_bits s ! j \<noteq> 0" "isValidReplacement bs j"
  shows "\<exists>v s'. nmru_search bs todo s = Inr (v, s')"
  using assms
proof (induction bs todo s arbitrary: k rule: nmru_search.induct)
  case (2 bs todo s)
  let ?p = "unat (nmru_replacement_pointer s)"
  show ?case
  proof (cases "nmru_lru_bits s ! ?p \<noteq> 0 \<and> isValidReplacement bs ?p")
    case False
    then have "k \<noteq> 0" using 2 by (metis add.right_neutral mod_less)
    then obtain k' where k: "k = Suc k'" by (cases k) auto
    then have "((?p + 1) mod length bs + k') mod length bs = j"
      using 2 by (simp add: mod_add_left_eq)
    then show ?thesis
      using 2 False k by (simp add: Let_def unat_next_ptr)
  qed (simp add: Let_def)
qed simp

text \<open>NMRU victim: in a set without an invalid block in which some way other than the most
  recently used one may be replaced, the NMRU policy returns such a way, replaceable and not the most
  recent one, and makes it the most recent.\<close>

theorem nmru_victim_not_most_recent:
  assumes "first_invalid bs = None" and "length bs \<le> 256" and "unat (nmru_replacement_pointer s) < length bs"
    and "j < length bs" and "isValidReplacement bs j" and "nmru_lru_bits s ! j \<noteq> 0"
  shows "\<exists>v s'. nmru_getReplacementIndex bs s = Inr (v, s') \<and> v < length bs \<and> isValidReplacement bs v \<and>
    nmru_lru_bits s ! v \<noteq> 0 \<and> nmru_lru_bits s' = moveToMRU (nmru_lru_bits s) v"
proof -
  have ne: "bs \<noteq> []" using assms(4) by auto
  obtain k where "k < length bs" "(unat (nmru_replacement_pointer s) + k) mod length bs = j"
    using cyclic_reaches [OF assms(3,4)] by blast
  from nmru_search_complete [OF this(1) ne assms(2) this(2) assms(3,6,5)]
  obtain v s' where "nmru_search bs (length bs) s = Inr (v, s')" by blast
  with nmru_search_sound [OF this ne assms(2,3)] show ?thesis
    using assms(1) by (simp add: nmru_getReplacementIndex_def)
qed

theorem nmru_victim_not_most_recent_witness:
  "let bs = [mk_CacheBlockInfo 1 SHARED_UPGRADING 0 PR_L1_CACHE, mk_CacheBlockInfo 2 SHARED 0 PR_L1_CACHE];
       s = mk_NMRU 2
   in \<exists>v s'. nmru_getReplacementIndex bs s = Inr (v, s') \<and> v < length bs \<and> isValidReplacement bs v \<and>
    nmru_lru_bits s ! v \<noteq> 0 \<and> nmru_lru_bits s' = moveToMRU (nmru_lru_bits s) v"
  unfolding Let_def
  by (rule nmru_victim_not_most_recent [where j = 1])
    (simp_all add: mk_NMRU_def isValidReplacement_def mk_CacheBlockInfo_def first_invalid_def isValid_def upt_rec)

lemma nru_update_simps [simp]:
  "length (nru_lru_bits (nru_updateReplacementIndex s k)) = length (nru_lru_bits s)"
  "nru_replacement_pointer (nru_updateReplacementIndex s k) = nru_replacement_pointer s"
  by (simp_all add: nru_updateReplacementIndex_def Let_def)

lemma nru_search_sound:
  assumes "nru_search bs have_zero todo s = Inr (v, s')"
    and "bs \<noteq> []" "length bs \<le> 256" "unat (nru_replacement_pointer s) < length bs"
  shows "v < length bs \<and> isValidReplacement bs v \<and> (have_zero \<longrightarrow> nru_lru_bits s ! v = 0) \<and>
    length (nru_lru_bits s') = length (nru_lru_bits s) \<and> unat (nru_replacement_pointer s') < length bs"
  using assms
proof (induction bs have_zero todo s rule: nru_search.induct)
  case (2 bs have_zero todo s)
  then show ?case
    by (auto simp: Let_def next_ptr_less split: if_splits)
qed simp

lemma nru_search_complete:
  assumes "k < todo" and "bs \<noteq> []" "length bs \<le> 256"
    and "(unat (nru_replacement_pointer s) + k) mod length bs = j"
    and "unat (nru_replacement_pointer s) < length bs"
    and "have_zero \<longrightarrow> nru_lru_bits s ! j = 0" "isValidReplacement bs j"
  shows "\<exists>v s'. nru_search bs have_zero todo s = Inr (v, s')"
  using assms
proof (induction bs have_zero todo s arbitrary: k rule: nru_search.induct)
  case (2 bs have_zero todo s)
  let ?p = "unat (nru_replacement_pointer s)"
  show ?case
  proof (cases "(nru_lru_bits s ! ?p = 0 \<or> have_zero = False) \<and> isValidReplacement bs ?p")
    case False
    then have "k \<noteq> 0" using 2 by (metis (full_types) add.right_neutral mod_less)
    then obtain k' where k: "k = Suc k'" by (cases k) auto
    then have "((?p + 1) mod length bs + k') mod length bs = j"
      using 2 by (simp add: mod_add_left_eq)
    then show ?thesis
      using 2 False k by (simp add: Let_def unat_next_ptr)
  qed (simp add: Let_def)
qed simp

text \<open>NRU victim: in a set without an invalid block, the NRU policy returns a replaceable way
  whenever there is one, and one whose reference bit is clear whenever a replaceable way has a clear
  bit.\<close>

theorem nru_victim_not_recent:
  assumes "first_invalid bs = None" and "length bs \<le> 256" and "unat (nru_replacement_pointer s) < length bs"
    and "j < length bs" and "isValidReplacement bs j"
  shows "\<exists>v s'. nru_getReplacementIndex bs s = Inr (v, s') \<and> v < length bs \<and> isValidReplacement bs v \<and>
    (nru_lru_bits s ! j = 0 \<longrightarrow> nru_lru_bits s ! v = 0)"
proof -
  define have_zero where
    "have_zero \<longleftrightarrow> list_ex (\<lambda>i. nru_lru_bits s ! i = 0 \<and> isValidReplacement bs i) [0..<length bs]"
  obtain i where i: "i < length bs" "isValidReplacement bs i" "have_zero \<longrightarrow> nru_lru_bits s ! i = 0"
    using assms(4,5) by (cases have_zero) (auto simp: have_zero_def list_ex_iff)
  have ne: "bs \<noteq> []" using assms(4) by auto
  obtain k where "k < length bs" "(unat (nru_replacement_pointer s) + k) mod length bs = i"
    using cyclic_reaches [OF assms(3) i(1)] by blast
  from nru_search_complete [OF this(1) ne assms(2) this(2) assms(3) i(3,2)]
  obtain v s' where res: "nru_search bs have_zero (length bs) s = Inr (v, s')" by blast
  have "nru_lru_bits s ! j = 0 \<Longrightarrow> have_zero" using assms(4,5) by (auto simp: have_zero_def list_ex_iff)
  with nru_search_sound [OF res ne assms(2,3)] res show ?thesis
    using assms(1) by (auto simp: nru_getReplacementIndex_def have_zero_def [symmetric])
qed

theorem nru_victim_not_recent_witness:
  "let bs = [mk_CacheBlockInfo 1 SHARED_UPGRADING 0 PR_L1_CACHE, mk_CacheBlockInfo 2 SHARED 0 PR_L1_CACHE];
       s = mk_NRU 2
   in \<exists>v s'. nru_getReplacementIndex bs s = Inr (v, s') \<and> v < length bs \<and> isValidReplacement bs v \<and>
    (nru_lru_bits s ! 1 = 0 \<longrightarrow> nru_lru_bits s ! v = 0)"
  unfolding Let_def
  by (rule nru_victim_not_recent)
    (simp_all add: mk_NRU_def isValidReplacement_def mk_CacheBlockInfo_def first_invalid_def isValid_def upt_rec)

text \<open>
  \<^verbatim>\<open>m_num_bits_set\<close> is incremented on every access, also when the bit is set already, so it does
  not count the set bits.
\<close>

text \<open>The NRU counter drifts: after four accesses to the same way of a 4-way set the counter has
  reached the associativity and every reference bit is cleared, also that of the way in use, although
  three ways have never been referenced.\<close>

theorem nru_counter_drift:
  "nru_lru_bits (fold (\<lambda>k s. nru_updateReplacementIndex s k) [0, 0, 0] (mk_NRU 4)) = [1, 0, 0, 0] \<and>
   m_num_bits_set (fold (\<lambda>k s. nru_updateReplacementIndex s k) [0, 0, 0] (mk_NRU 4)) = 3 \<and>
   nru_lru_bits (fold (\<lambda>k s. nru_updateReplacementIndex s k) [0, 0, 0, 0] (mk_NRU 4)) = [0, 0, 0, 0]"
  by code_simp

section \<open>The PLRU tree\<close>

lemma plru_update_total:
  assumes "n = 4 \<or> n = 8"
  obtains b' where "plru_updateReplacementIndex n b k = Inr b'" "length b' = length b"
proof
  show "plru_updateReplacementIndex n b k = Inr (projr (plru_updateReplacementIndex n b k))"
    using assms by (auto simp: plru_updateReplacementIndex_def)
  show "length (projr (plru_updateReplacementIndex n b k)) = length b"
    using assms by (auto simp: plru_updateReplacementIndex_def)
qed

lemma plru_select_total:
  assumes "n = 4 \<or> n = 8"
  obtains v where "plru_select n b = Inr v" "v < n"
  using assms by (auto simp: plru_select_def)

text \<open>PLRU protection: right after an access to a way, the tree of a 4- or 8-way set selects
  another way of the set as victim.\<close>

theorem plru_protects_accessed_way:
  assumes "n = 4 \<or> n = 8" and "length b = 8" and "k < n"
  shows "\<exists>b' v. plru_updateReplacementIndex n b k = Inr b' \<and> length b' = 8 \<and>
    plru_select n b' = Inr v \<and> v < n \<and> v \<noteq> k"
proof (cases "n = 4")
  case True
  then have "k \<in> {0, 1, 2, 3}" using assms(3) by auto
  then show ?thesis
    using True assms(2)
    by (elim insertE emptyE; simp add: plru_updateReplacementIndex_def plru_select_def)
next
  case False
  then have "n = 8" "k \<in> {0, 1, 2, 3, 4, 5, 6, 7}" using assms by auto
  then show ?thesis
    using assms(2)
    by (elim insertE emptyE; simp add: plru_updateReplacementIndex_def plru_select_def)
qed

theorem plru_protects_accessed_way_witness:
  "\<exists>b' v. plru_updateReplacementIndex 8 (replicate 8 0) 5 = Inr b' \<and> length b' = 8 \<and>
    plru_select 8 b' = Inr v \<and> v < 8 \<and> v \<noteq> 5"
  by (rule plru_protects_accessed_way) simp_all

section \<open>SRRIP\<close>

definition srrip_wf :: "nat \<Rightarrow> SRRIPState \<Rightarrow> bool" where
  "srrip_wf n s \<longleftrightarrow> 0 < n \<and> n \<le> 256 \<and> length (m_rrip_bits s) = n \<and> unat (srrip_replacement_pointer s) < n"

lemma srrip_wf_init: "0 < n \<Longrightarrow> n \<le> 256 \<Longrightarrow> srrip_wf n (mk_SRRIP n numbits attempts)"
  by (simp add: srrip_wf_def mk_SRRIP_def Let_def)

lemma srrip_age_nth:
  assumes "i < length (m_rrip_bits s)"
  shows "m_rrip_bits (srrip_age s) ! i =
    (if m_rrip_bits s ! i < m_rrip_max s then m_rrip_bits s ! i + 1 else m_rrip_bits s ! i)"
proof -
  let ?f = "\<lambda>x. if x < m_rrip_max s then x + 1 else x"
  have "m_rrip_bits (srrip_age s) = fold (\<lambda>i b. b[i := ?f (b ! i)]) [0..<length (m_rrip_bits s)] (m_rrip_bits s)"
    unfolding srrip_age_def by (auto intro!: fold_cong)
  also have "\<dots> = map ?f (m_rrip_bits s)"
    using fold_upt_update [of "length (m_rrip_bits s)" "m_rrip_bits s" ?f] by simp
  finally show ?thesis using assms by simp
qed

lemma srrip_age_simps [simp]:
  "m_rrip_max (srrip_age s) = m_rrip_max s" "srrip_num_attempts (srrip_age s) = srrip_num_attempts s"
  "srrip_replacement_pointer (srrip_age s) = srrip_replacement_pointer s"
  "length (m_rrip_bits (srrip_age s)) = length (m_rrip_bits s)"
  by (simp_all add: srrip_age_def)

lemma srrip_wf_age [wf_intros]: "srrip_wf n s \<Longrightarrow> srrip_wf n (srrip_age s)"
  by (simp add: srrip_wf_def)

lemma srrip_pass_wf:
  assumes "srrip_pass cntlr bs todo attempt s ctx = Inr (r, attempt', s', ctx')" and "srrip_wf (length bs) s"
  shows "srrip_wf (length bs) s' \<and> (\<forall>i. r = Some i \<longrightarrow> i < length bs \<and> isValidReplacement bs i)"
  using assms
proof (induction cntlr bs todo attempt s ctx rule: srrip_pass.induct)
  case (2 cntlr bs todo attempt s ctx)
  show ?case
  proof (cases "m_rrip_bits s ! unat (srrip_replacement_pointer s) \<ge> m_rrip_max s")
    case True
    let ?q = "if int attempt < int (unat (srrip_num_attempts s)) - 1
              then qbs_query cntlr (bs ! unat (srrip_replacement_pointer s)) else Inr False"
    obtain reject where q: "?q = Inr reject"
      using "2.prems"(1) True by (auto simp: Let_def bindE_Inr_iff simp del: if_split)
    show ?thesis
    proof (cases reject)
      case rejected: True
      show ?thesis
        using "2.IH"(1) [OF refl refl True rejected] "2.prems" True rejected q
        by (simp add: Let_def srrip_wf_def)
    next
      case False
      then show ?thesis
        using "2.prems" True q
        by (auto simp: Let_def bindE_Inr_iff srrip_wf_def next_ptr_less simp del: if_split)
    qed
  next
    case False
    show ?thesis
      using "2.IH"(2) [OF refl refl False] "2.prems" False
      by (simp add: Let_def srrip_wf_def next_ptr_less)
  qed
qed simp

lemma srrip_rounds_wf:
  assumes "srrip_rounds cntlr bs todo attempt s ctx = Inr (i, s', ctx')" and "srrip_wf (length bs) s"
  shows "srrip_wf (length bs) s' \<and> i < length bs \<and> isValidReplacement bs i"
  using assms
proof (induction cntlr bs todo attempt s ctx rule: srrip_rounds.induct)
  case (2 cntlr bs todo attempt s ctx)
  then obtain r at1 s1 ctx1 where pass: "srrip_pass cntlr bs (length bs) attempt s ctx = Inr (r, at1, s1, ctx1)"
    by (auto simp: bindE_Inr_iff)
  note wf = srrip_pass_wf [OF pass "2.prems"(2)]
  show ?case
  proof (cases r)
    case None
    then have "srrip_rounds cntlr bs todo at1 (srrip_age s1) ctx1 = Inr (i, s', ctx')"
      using 2 pass by simp
    then show ?thesis using "2.IH" None wf srrip_wf_age by blast
  next
    case (Some j)
    then show ?thesis using 2 pass wf by simp
  qed
qed simp

text \<open>Without query-based selection a pass returns a way that has reached \<^verbatim>\<open>m_rrip_max\<close>, if the
  pointer meets one, and otherwise leaves the counters as they are.\<close>

definition srrip_plain :: "SRRIPState \<Rightarrow> ReplCtx \<Rightarrow> bool" where
  "srrip_plain s ctx \<longleftrightarrow> srrip_num_attempts s = 1 \<and> ctx_incrementAttempt ctx 0 = Inr ctx"

lemma srrip_pass_plain:
  assumes "srrip_wf (length bs) s" and "srrip_plain s ctx" and "\<forall>i<length bs. isValidReplacement bs i"
  shows "(\<exists>i s'. srrip_pass cntlr bs todo 0 s ctx = Inr (Some i, 0, s', ctx)) \<or>
    (\<exists>p. srrip_pass cntlr bs todo 0 s ctx = Inr (None, 0, s\<lparr>srrip_replacement_pointer := p\<rparr>, ctx) \<and>
      unat p < length bs \<and>
      (\<forall>k<todo. m_rrip_bits s ! ((unat (srrip_replacement_pointer s) + k) mod length bs) < m_rrip_max s))"
  using assms
proof (induction todo arbitrary: s)
  case 0
  then show ?case by (auto simp: srrip_wf_def intro!: exI [of _ "srrip_replacement_pointer s"])
next
  case (Suc todo)
  let ?p = "srrip_replacement_pointer s" and ?n = "length bs"
  show ?case
  proof (cases "m_rrip_bits s ! unat ?p \<ge> m_rrip_max s")
    case True
    then show ?thesis
      using Suc.prems by (simp add: Let_def srrip_plain_def srrip_wf_def)
  next
    case False
    let ?s = "s\<lparr>srrip_replacement_pointer := next_ptr ?n ?p\<rparr>"
    have n: "0 < ?n" "?n \<le> 256" "unat ?p < ?n" using Suc.prems(1) by (auto simp: srrip_wf_def)
    have "srrip_wf ?n ?s" "srrip_plain ?s ctx"
      using Suc.prems n by (simp_all add: srrip_wf_def srrip_plain_def next_ptr_less)
    note IH = Suc.IH [OF this Suc.prems(3)]
    have step: "srrip_pass cntlr bs (Suc todo) 0 s ctx = srrip_pass cntlr bs todo 0 ?s ctx"
      using False by (simp add: Let_def)
    have below: "m_rrip_bits s ! ((unat ?p + k) mod ?n) < m_rrip_max s"
      if "\<forall>k<todo. m_rrip_bits s ! (((unat ?p + 1) mod ?n + k) mod ?n) < m_rrip_max s" "k < Suc todo" for k
    proof (cases k)
      case 0
      then show ?thesis using False n by simp
    next
      case (Suc k')
      then show ?thesis using that by (simp add: mod_add_left_eq)
    qed
    show ?thesis
      using IH below n unfolding step by (auto simp: unat_next_ptr)
  qed
qed

lemma srrip_rounds_plain:
  assumes "srrip_wf (length bs) s" and "srrip_plain s ctx" and "\<forall>i<length bs. isValidReplacement bs i"
    and "unat (m_rrip_max s) - unat (m_rrip_bits s ! 0) < todo"
  shows "\<exists>i s'. srrip_rounds cntlr bs todo 0 s ctx = Inr (i, s', ctx)"
  using assms
proof (induction todo arbitrary: s)
  case 0
  then show ?case by simp
next
  case (Suc todo)
  let ?n = "length bs"
  from srrip_pass_plain [OF Suc.prems(1-3), of cntlr ?n] show ?case
  proof (elim disjE exE conjE)
    fix p
    assume pass: "srrip_pass cntlr bs ?n 0 s ctx = Inr (None, 0, s\<lparr>srrip_replacement_pointer := p\<rparr>, ctx)"
      and p: "unat p < ?n"
      and below: "\<forall>k<?n. m_rrip_bits s ! ((unat (srrip_replacement_pointer s) + k) mod ?n) < m_rrip_max s"
    let ?s = "s\<lparr>srrip_replacement_pointer := p\<rparr>"
    have "0 < ?n" "unat (srrip_replacement_pointer s) < ?n" using Suc.prems(1) by (auto simp: srrip_wf_def)
    with below cyclic_reaches have lt: "m_rrip_bits s ! 0 < m_rrip_max s" by metis
    have aged: "unat (m_rrip_bits (srrip_age ?s) ! 0) = unat (m_rrip_bits s ! 0) + 1"
      using lt Suc.prems(1) by (simp add: srrip_age_nth srrip_wf_def unat_plus_one)
    have "\<exists>i s'. srrip_rounds cntlr bs todo 0 (srrip_age ?s) ctx = Inr (i, s', ctx)"
      by (rule Suc.IH) (use Suc.prems p aged lt in \<open>auto simp: srrip_wf_def srrip_plain_def word_less_nat_alt\<close>)
    then show ?thesis using pass by simp
  qed simp
qed

text \<open>SRRIP progress: in a set without an invalid block whose ways may all be replaced, SRRIP
  without query-based selection always finds a victim within its \<^verbatim>\<open>m_rrip_max + 1\<close> rounds, whatever
  the counters are, and never reaches its error branch.\<close>

theorem srrip_finds_victim:
  assumes "srrip_wf (length bs) s" and "first_invalid bs = None" and "\<forall>i<length bs. isValidReplacement bs i"
    and "srrip_num_attempts s = 1" and "m_set_info ctx = Some si" and "m_attempts si = None"
  shows "\<exists>i s'. srrip_getReplacementIndex cntlr bs s ctx = Inr (i, s', ctx) \<and> i < length bs"
proof -
  have "srrip_plain s ctx"
    using assms by (simp add: srrip_plain_def ctx_incrementAttempt_def si_incrementAttempt_def)
  moreover have "unat (m_rrip_max s) - unat (m_rrip_bits s ! 0) < unat (m_rrip_max s) + 1" by simp
  ultimately obtain i s' where "srrip_rounds cntlr bs (unat (m_rrip_max s) + 1) 0 s ctx = Inr (i, s', ctx)"
    using srrip_rounds_plain [OF assms(1) _ assms(3)] by blast
  with srrip_rounds_wf [OF this assms(1)] show ?thesis
    using assms(2) by (simp add: srrip_getReplacementIndex_def)
qed

theorem srrip_finds_victim_witness:
  "let bs = [mk_CacheBlockInfo 1 MODIFIED 0 PR_L1_CACHE, mk_CacheBlockInfo 2 SHARED 0 PR_L1_CACHE];
       ctx = \<lparr>m_set_info = Some (mk_CacheSetInfoLRU 2 1), qbs_lookup_cost = 0\<rparr>
   in \<exists>i s'. srrip_getReplacementIndex None bs (mk_SRRIP 2 3 1) ctx = Inr (i, s', ctx) \<and> i < length bs"
  unfolding Let_def
  by (rule srrip_finds_victim [where si = "mk_CacheSetInfoLRU 2 1"])
    (simp_all add: srrip_wf_def mk_SRRIP_def isValidReplacement_def mk_CacheBlockInfo_def first_invalid_def
      isValid_def upt_rec mk_CacheSetInfoLRU_def Let_def less_Suc_eq)

section \<open>Round robin\<close>

lemma rr_next_less: "0 < n \<Longrightarrow> r < n \<Longrightarrow> rr_next n r < n"
  unfolding rr_next_def by (cases r) auto

lemma rr_result:
  assumes "rr_getReplacementIndex bs r = Some y" and "r < length bs"
  shows "fst y < length bs \<and> snd y = rr_next (length bs) (fst y) \<and> isValidReplacement bs (snd y)"
proof -
  have "r < length bs \<longrightarrow>
    fst y < length bs \<and> snd y = rr_next (length bs) (fst y) \<and> isValidReplacement bs (snd y)"
  proof (rule rr_getReplacementIndex.raw_induct [OF _ assms(1)])
    fix f bs r y
    assume "\<And>bs r y. f bs r = Some y \<Longrightarrow> r < length bs \<longrightarrow>
        fst y < length bs \<and> snd y = rr_next (length bs) (fst y) \<and> isValidReplacement bs (snd y)"
      and "(let curr_replacement_index = r; m_replacement_index = rr_next (length bs) r
            in if \<not> isValidReplacement bs m_replacement_index then f bs m_replacement_index
               else Some (curr_replacement_index, m_replacement_index)) = Some y"
    then show "r < length bs \<longrightarrow>
        fst y < length bs \<and> snd y = rr_next (length bs) (fst y) \<and> isValidReplacement bs (snd y)"
      using rr_next_less [of "length bs" r]
      by (cases y) (force simp: Let_def split: if_splits)
  qed
  with assms(2) show ?thesis by blast
qed

lemma rr_terminates_aux:
  assumes "r < length bs" and "isValidReplacement bs j" "j < length bs"
    and "k = (if j < r then r - j else r + length bs - j)"
  shows "\<exists>i r'. rr_getReplacementIndex bs r = Some (i, r')"
  using assms
proof (induction k arbitrary: r rule: less_induct)
  case (less k)
  let ?r = "rr_next (length bs) r"
  show ?case
  proof (cases "isValidReplacement bs ?r")
    case True
    then show ?thesis by (subst rr_getReplacementIndex.simps) (simp add: Let_def)
  next
    case False
    then have "?r \<noteq> j" using less.prems(2) by auto
    then have "\<exists>i r'. rr_getReplacementIndex bs ?r = Some (i, r')"
      using less.prems
      by (intro less.IH [OF _ _ less.prems(2,3) refl]) (auto simp: rr_next_def split: if_splits)
    then show ?thesis using False by (subst rr_getReplacementIndex.simps) (simp add: Let_def)
  qed
qed

text \<open>Round robin: whenever some way may be replaced the recursion of \<^verbatim>\<open>getReplacementIndex\<close> ends.
  It returns a way of the set and steps the pointer to the next lower way, cyclically; the way whose
  replaceability it has checked is that new pointer.\<close>

theorem rr_terminates_and_steps:
  assumes "r < length bs" and "j < length bs" and "isValidReplacement bs j"
  shows "\<exists>i. rr_getReplacementIndex bs r = Some (i, rr_next (length bs) i) \<and> i < length bs \<and>
    isValidReplacement bs (rr_next (length bs) i)"
  using rr_terminates_aux [OF assms(1,3,2) refl] rr_result [OF _ assms(1)] by fastforce

theorem rr_terminates_and_steps_witness:
  "let bs = [mk_CacheBlockInfo 1 SHARED_UPGRADING 0 PR_L1_CACHE, mk_CacheBlockInfo 2 SHARED 0 PR_L1_CACHE]
   in \<exists>i. rr_getReplacementIndex bs 1 = Some (i, rr_next (length bs) i) \<and> i < length bs \<and>
    isValidReplacement bs (rr_next (length bs) i)"
  unfolding Let_def
  by (rule rr_terminates_and_steps [where j = 1]) (simp_all add: isValidReplacement_def mk_CacheBlockInfo_def)

text \<open>Round robin can evict a block that must not be replaced: the check is made on the next
  pointer, so with the pointer on a \<^verbatim>\<open>SHARED_UPGRADING\<close> way that way is the victim.\<close>

theorem rr_evicts_upgrading_block:
  "let bs = [mk_CacheBlockInfo 1 SHARED 0 PR_L1_CACHE, mk_CacheBlockInfo 2 SHARED_UPGRADING 0 PR_L1_CACHE]
   in \<not> isValidReplacement bs 1 \<and> rr_getReplacementIndex bs 1 = Some (1, 0)"
  by (simp add: Let_def isValidReplacement_def mk_CacheBlockInfo_def rr_getReplacementIndex.simps rr_next_def)

end
