(* ===== verification/LS_Cache_Set.thy ===== *)
theory LS_Cache_Set
  imports LS_Policies
begin

unbundle bit_operations_syntax

text \<open>
  Cache sets (\<^verbatim>\<open>common/core/memory_subsystem/cache/cache_set.cc\<close>). The virtual methods
  \<^verbatim>\<open>getReplacementIndex\<close> and \<^verbatim>\<open>updateReplacementIndex\<close> are the arguments \<open>get\<close> and \<open>upd\<close> of the
  operations, their contract is the locale \<open>replacement_policy\<close>, and the lemmas on the operations
  are proved once for every policy. The dispatch over the subclasses interprets the locale.
\<close>

section \<open>Operations of a set\<close>

record 's CacheSet =
  cs_blocks :: "CacheBlockInfo list"
  m_blocks :: "Byte list option"
  cs_blocksize :: UInt32
  cs_policy :: 's

definition mk_CacheSet :: "bool \<Rightarrow> cache_t \<Rightarrow> nat \<Rightarrow> UInt32 \<Rightarrow> 's \<Rightarrow> 's CacheSet" where
  "mk_CacheSet faults cache_type assoc blocksize p =
     \<lparr>cs_blocks = replicate assoc (createBlock cache_type),
      m_blocks = (if faults then Some (replicate (unat (of_nat assoc * blocksize :: UInt32)) 0) else None),
      cs_blocksize = blocksize, cs_policy = p\<rparr>"

text \<open>\<^verbatim>\<open>memcpy\<close> out of and into the data array; an access outside it is an error.\<close>

definition mem_read :: "Byte list \<Rightarrow> nat \<Rightarrow> nat \<Rightarrow> Byte list res" where
  "mem_read mem pos n = (if pos + n \<le> length mem then Inr (take n (drop pos mem)) else Inl OutOfRange)"

definition mem_write :: "Byte list \<Rightarrow> nat \<Rightarrow> nat \<Rightarrow> Byte list \<Rightarrow> Byte list res" where
  "mem_write mem pos n buff =
     (if pos + n \<le> length mem \<and> n \<le> length buff
      then Inr (take pos mem @ take n buff @ drop (pos + n) mem) else Inl OutOfRange)"

definition line_pos :: "'s CacheSet \<Rightarrow> nat \<Rightarrow> UInt32 \<Rightarrow> nat" where
  "line_pos s line_index offset = unat (of_nat line_index * cs_blocksize s + offset)"

definition read_line ::
  "(nat \<Rightarrow> 's \<Rightarrow> ReplCtx \<Rightarrow> nat \<Rightarrow> ('s \<times> ReplCtx) res) \<Rightarrow> 's CacheSet \<Rightarrow> ReplCtx \<Rightarrow> nat \<Rightarrow> UInt32 \<Rightarrow> bool \<Rightarrow> UInt32 \<Rightarrow> bool
     \<Rightarrow> (Byte list option \<times> 's CacheSet \<times> ReplCtx) res" where
  "read_line upd s ctx line_index offset has_buff bytes update_replacement =
     bindE (assertE (offset + bytes \<le> cs_blocksize s) (AssertError ''offset + bytes <= m_blocksize''))
     (\<lambda>_. bindE (case m_blocks s of
                   Some mem \<Rightarrow> if has_buff then map_sum id Some (mem_read mem (line_pos s line_index offset) (unat bytes))
                               else Inr None
                 | None \<Rightarrow> Inr None)
     (\<lambda>out_buff. if update_replacement
        then bindE (upd (length (cs_blocks s)) (cs_policy s) ctx line_index) (\<lambda>(p, ctx). Inr (out_buff, s\<lparr>cs_policy := p\<rparr>, ctx))
        else Inr (out_buff, s, ctx)))"

definition write_line ::
  "(nat \<Rightarrow> 's \<Rightarrow> ReplCtx \<Rightarrow> nat \<Rightarrow> ('s \<times> ReplCtx) res) \<Rightarrow> 's CacheSet \<Rightarrow> ReplCtx \<Rightarrow> nat \<Rightarrow> UInt32 \<Rightarrow> Byte list option \<Rightarrow> UInt32 \<Rightarrow> bool
     \<Rightarrow> ('s CacheSet \<times> ReplCtx) res" where
  "write_line upd s ctx line_index offset in_buff bytes update_replacement =
     bindE (assertE (offset + bytes \<le> cs_blocksize s) (AssertError ''offset + bytes <= m_blocksize''))
     (\<lambda>_. bindE (case (in_buff, m_blocks s) of
                   (Some buff, Some mem) \<Rightarrow>
                     map_sum id Some (mem_write mem (line_pos s line_index offset) (unat bytes) buff)
                 | _ \<Rightarrow> Inr (m_blocks s))
     (\<lambda>mem. let s = s\<lparr>m_blocks := mem\<rparr> in
        if update_replacement
        then bindE (upd (length (cs_blocks s)) (cs_policy s) ctx line_index) (\<lambda>(p, ctx). Inr (s\<lparr>cs_policy := p\<rparr>, ctx))
        else Inr (s, ctx)))"

definition set_find :: "'s CacheSet \<Rightarrow> IntPtr \<Rightarrow> nat option" where
  "set_find s tag = List.find (\<lambda>index. m_tag (cs_blocks s ! index) = tag) (rev [0..<length (cs_blocks s)])"

definition set_invalidate :: "'s CacheSet \<Rightarrow> IntPtr \<Rightarrow> bool \<times> 's CacheSet" where
  "set_invalidate s tag =
     (case set_find s tag of
        Some index \<Rightarrow> (True, s\<lparr>cs_blocks := (cs_blocks s)[index := invalidateBlock (cs_blocks s ! index)]\<rparr>)
      | None \<Rightarrow> (False, s))"

record insert_out =
  eviction :: bool
  evict_block_info :: CacheBlockInfo
  evict_buff :: "Byte list option"

definition set_insert ::
  "(cntlr \<Rightarrow> CacheBlockInfo list \<Rightarrow> 's \<Rightarrow> ReplCtx \<Rightarrow> (nat \<times> 's \<times> ReplCtx) res) \<Rightarrow> cntlr \<Rightarrow> 's CacheSet \<Rightarrow> ReplCtx
     \<Rightarrow> CacheBlockInfo \<Rightarrow> Byte list option \<Rightarrow> CacheBlockInfo \<Rightarrow> bool \<Rightarrow> (insert_out \<times> 's CacheSet \<times> ReplCtx) res" where
  "set_insert get cntlr s ctx cache_block_info fill_buff evict_info has_evict_buff =
     bindE (get cntlr (cs_blocks s) (cs_policy s) ctx)
     (\<lambda>(index, p, ctx). bindE (assertE (index < length (cs_blocks s)) (AssertError ''index < m_associativity''))
     (\<lambda>_. let old = cs_blocks s ! index; s = s\<lparr>cs_policy := p\<rparr> in
        bindE (if isValid old
               then bindE (case m_blocks s of
                             Some mem \<Rightarrow>
                               if has_evict_buff
                               then map_sum id Some (mem_read mem (line_pos s index 0) (unat (cs_blocksize s)))
                               else Inr None
                           | None \<Rightarrow> Inr None)
                    (\<lambda>buff. Inr \<lparr>eviction = True, evict_block_info = clone evict_info old, evict_buff = buff\<rparr>)
               else Inr \<lparr>eviction = False, evict_block_info = evict_info, evict_buff = None\<rparr>)
     (\<lambda>out. bindE (case (fill_buff, m_blocks s) of
                     (Some buff, Some mem) \<Rightarrow>
                       map_sum id Some (mem_write mem (line_pos s index 0) (unat (cs_blocksize s)) buff)
                   | _ \<Rightarrow> Inr (m_blocks s))
     (\<lambda>mem. Inr (out, s\<lparr>cs_blocks := (cs_blocks s)[index := clone old cache_block_info], m_blocks := mem\<rparr>, ctx)))))"

definition peekBlock :: "'s CacheSet \<Rightarrow> nat \<Rightarrow> CacheBlockInfo" where
  "peekBlock s way = cs_blocks s ! way"

section \<open>The policies as subclasses\<close>

datatype ReplacementPolicy =
    ROUND_ROBIN | LRU | LRU_QBS | NRU | MRU | NMRU | PLRU | SRRIP | SRRIP_QBS | RANDOM

definition parsePolicyType :: "string \<Rightarrow> ReplacementPolicy res" where
  "parsePolicyType policy =
     (if policy = ''round_robin'' then Inr ROUND_ROBIN
      else if policy = ''lru'' then Inr LRU
      else if policy = ''lru_qbs'' then Inr LRU_QBS
      else if policy = ''nru'' then Inr NRU
      else if policy = ''mru'' then Inr MRU
      else if policy = ''nmru'' then Inr NMRU
      else if policy = ''plru'' then Inr PLRU
      else if policy = ''srrip'' then Inr SRRIP
      else if policy = ''srrip_qbs'' then Inr SRRIP_QBS
      else if policy = ''random'' then Inr RANDOM
      else Inl (LogError ''Unknown replacement policy %s''))"

datatype policy_state =
    CacheSetRoundRobin nat
  | CacheSetLRU LRUState
  | CacheSetNRU NRUState
  | CacheSetMRU "UInt8 list"
  | CacheSetNMRU NMRUState
  | CacheSetPLRU "UInt8 list"
  | CacheSetSRRIP SRRIPState
  | CacheSetRandom UInt32

text \<open>The configuration values the constructors read, and the clock that seeds the random policy.\<close>

record CacheCfg =
  cfg_qbs_attempts :: UInt8
  cfg_srrip_bits :: UInt8
  cfg_time :: UInt32
  cfg_fault_injection :: bool

definition getNumQBSAttempts :: "CacheCfg \<Rightarrow> ReplacementPolicy \<Rightarrow> UInt8" where
  "getNumQBSAttempts cfg policy =
     (case policy of LRU_QBS \<Rightarrow> cfg_qbs_attempts cfg | SRRIP_QBS \<Rightarrow> cfg_qbs_attempts cfg | _ \<Rightarrow> 1)"

definition createCacheSet ::
  "CacheCfg \<Rightarrow> string \<Rightarrow> cache_t \<Rightarrow> nat \<Rightarrow> UInt32 \<Rightarrow> policy_state CacheSet res" where
  "createCacheSet cfg replacement_policy cache_type assoc blocksize =
     bindE (parsePolicyType replacement_policy)
     (\<lambda>policy. bindE
       (case policy of
          ROUND_ROBIN \<Rightarrow> Inr (CacheSetRoundRobin (assoc - 1))
        | LRU \<Rightarrow> Inr (CacheSetLRU (mk_LRU assoc (getNumQBSAttempts cfg policy)))
        | LRU_QBS \<Rightarrow> Inr (CacheSetLRU (mk_LRU assoc (getNumQBSAttempts cfg policy)))
        | NRU \<Rightarrow> Inr (CacheSetNRU (mk_NRU assoc))
        | MRU \<Rightarrow> Inr (CacheSetMRU (map of_nat [0..<assoc]))
        | NMRU \<Rightarrow> Inr (CacheSetNMRU (mk_NMRU assoc))
        | PLRU \<Rightarrow> map_sum id CacheSetPLRU (mk_PLRU assoc)
        | SRRIP \<Rightarrow> Inr (CacheSetSRRIP (mk_SRRIP assoc (cfg_srrip_bits cfg) (getNumQBSAttempts cfg policy)))
        | SRRIP_QBS \<Rightarrow> Inr (CacheSetSRRIP (mk_SRRIP assoc (cfg_srrip_bits cfg) (getNumQBSAttempts cfg policy)))
        | RANDOM \<Rightarrow> Inr (CacheSetRandom (cfg_time cfg)))
     (\<lambda>p. Inr (mk_CacheSet (cfg_fault_injection cfg) cache_type assoc blocksize p)))"

definition createCacheSetInfo :: "CacheCfg \<Rightarrow> string \<Rightarrow> nat \<Rightarrow> CacheSetInfoLRU option res" where
  "createCacheSetInfo cfg replacement_policy assoc =
     bindE (parsePolicyType replacement_policy)
     (\<lambda>policy. Inr (if policy \<in> {LRU, LRU_QBS, SRRIP, SRRIP_QBS}
                    then Some (mk_CacheSetInfoLRU assoc (getNumQBSAttempts cfg policy)) else None))"

fun getReplacementIndex ::
  "cntlr \<Rightarrow> CacheBlockInfo list \<Rightarrow> policy_state \<Rightarrow> ReplCtx \<Rightarrow> (nat \<times> policy_state \<times> ReplCtx) res" where
  "getReplacementIndex cntlr bs (CacheSetRoundRobin r) ctx =
     (case rr_getReplacementIndex bs r of
        None \<Rightarrow> Inl NonTermination | Some (i, r) \<Rightarrow> Inr (i, CacheSetRoundRobin r, ctx))"
| "getReplacementIndex cntlr bs (CacheSetLRU s) ctx =
     map_sum id (\<lambda>(i, s, ctx). (i, CacheSetLRU s, ctx)) (lru_getReplacementIndex cntlr bs s ctx)"
| "getReplacementIndex cntlr bs (CacheSetNRU s) ctx =
     map_sum id (\<lambda>(i, s). (i, CacheSetNRU s, ctx)) (nru_getReplacementIndex bs s)"
| "getReplacementIndex cntlr bs (CacheSetMRU s) ctx =
     map_sum id (\<lambda>(i, s). (i, CacheSetMRU s, ctx)) (mru_getReplacementIndex bs s)"
| "getReplacementIndex cntlr bs (CacheSetNMRU s) ctx =
     map_sum id (\<lambda>(i, s). (i, CacheSetNMRU s, ctx)) (nmru_getReplacementIndex bs s)"
| "getReplacementIndex cntlr bs (CacheSetPLRU s) ctx =
     map_sum id (\<lambda>(i, s). (i, CacheSetPLRU s, ctx)) (plru_getReplacementIndex bs s)"
| "getReplacementIndex cntlr bs (CacheSetSRRIP s) ctx =
     map_sum id (\<lambda>(i, s, ctx). (i, CacheSetSRRIP s, ctx)) (srrip_getReplacementIndex cntlr bs s ctx)"
| "getReplacementIndex cntlr bs (CacheSetRandom seed) ctx =
     (case random_getReplacementIndex bs seed of
        None \<Rightarrow> Inl NonTermination | Some (i, seed) \<Rightarrow> Inr (i, CacheSetRandom seed, ctx))"

text \<open>\<open>n\<close> is the associativity, which only the PLRU tree asks for.\<close>

fun updateReplacementIndex :: "nat \<Rightarrow> policy_state \<Rightarrow> ReplCtx \<Rightarrow> nat \<Rightarrow> (policy_state \<times> ReplCtx) res" where
  "updateReplacementIndex n (CacheSetRoundRobin r) ctx i = Inr (CacheSetRoundRobin r, ctx)"
| "updateReplacementIndex n (CacheSetLRU s) ctx i =
     map_sum id (\<lambda>(s, ctx). (CacheSetLRU s, ctx)) (lru_updateReplacementIndex s ctx i)"
| "updateReplacementIndex n (CacheSetNRU s) ctx i = Inr (CacheSetNRU (nru_updateReplacementIndex s i), ctx)"
| "updateReplacementIndex n (CacheSetMRU s) ctx i = Inr (CacheSetMRU (mru_updateReplacementIndex s i), ctx)"
| "updateReplacementIndex n (CacheSetNMRU s) ctx i = Inr (CacheSetNMRU (nmru_updateReplacementIndex s i), ctx)"
| "updateReplacementIndex n (CacheSetPLRU s) ctx i =
     map_sum id (\<lambda>s. (CacheSetPLRU s, ctx)) (plru_updateReplacementIndex n s i)"
| "updateReplacementIndex n (CacheSetSRRIP s) ctx i =
     map_sum id (\<lambda>(s, ctx). (CacheSetSRRIP s, ctx)) (srrip_updateReplacementIndex s ctx i)"
| "updateReplacementIndex n (CacheSetRandom seed) ctx i = Inr (CacheSetRandom seed, ctx)"

section \<open>A set as a map from tags to blocks\<close>

text \<open>The blocks of one cache have one class, and only blocks of the L2 class use the location bits.\<close>

definition block_ok :: "cache_t \<Rightarrow> CacheBlockInfo \<Rightarrow> bool" where
  "block_ok c b \<longleftrightarrow> block_class b = c \<and> (c \<noteq> PR_L2_CACHE \<longrightarrow> m_cached_loc_bitvec b = 0)"

definition tags_unique :: "CacheBlockInfo list \<Rightarrow> bool" where
  "tags_unique bs \<longleftrightarrow>
     (\<forall>i<length bs. \<forall>j<length bs. isValid (bs ! i) \<longrightarrow> m_tag (bs ! i) = m_tag (bs ! j) \<longrightarrow> i = j)"

definition set_wf :: "(nat \<Rightarrow> 's \<Rightarrow> bool) \<Rightarrow> cache_t \<Rightarrow> nat \<Rightarrow> 's CacheSet \<Rightarrow> bool" where
  "set_wf pinv c n s \<longleftrightarrow> length (cs_blocks s) = n \<and> pinv n (cs_policy s) \<and> (\<forall>b\<in>set (cs_blocks s). block_ok c b) \<and>
     tags_unique (cs_blocks s) \<and> n * unat (cs_blocksize s) < 2 ^ 32 \<and>
     (\<forall>mem. m_blocks s = Some mem \<longrightarrow> length mem = n * unat (cs_blocksize s))"

definition set_map :: "'s CacheSet \<Rightarrow> IntPtr \<Rightarrow> CacheBlockInfo option" where
  "set_map s tag = (if tag = NOT 0 then None else map_option (\<lambda>i. cs_blocks s ! i) (set_find s tag))"

lemma clone_block_ok [simp]: "block_ok c b \<Longrightarrow> block_ok c src \<Longrightarrow> clone b src = src"
  by (cases b; cases src) (auto simp: block_ok_def clone_def Let_def)

lemma block_ok_invalidate [simp]: "block_ok c b \<Longrightarrow> block_ok c (invalidateBlock b)"
  by (auto simp: block_ok_def invalidateBlock_def Let_def)

lemma block_ok_create [simp]: "block_ok c (createBlock c)"
  by (simp add: block_ok_def createBlock_def mk_CacheBlockInfo_def)

lemma set_find_SomeD: "set_find s tag = Some i \<Longrightarrow> i < length (cs_blocks s) \<and> m_tag (cs_blocks s ! i) = tag"
  using find_SomeD unfolding set_find_def by fastforce

lemma set_find_NoneD: "set_find s tag = None \<Longrightarrow> i < length (cs_blocks s) \<Longrightarrow> m_tag (cs_blocks s ! i) \<noteq> tag"
  using find_NoneD unfolding set_find_def by fastforce

lemma set_find_unique:
  assumes "tags_unique (cs_blocks s)" and "i < length (cs_blocks s)" and "m_tag (cs_blocks s ! i) = tag"
    and "tag \<noteq> NOT 0"
  shows "set_find s tag = Some i"
proof (cases "set_find s tag")
  case None
  then show ?thesis using set_find_NoneD assms(2,3) by blast
next
  case (Some j)
  from set_find_SomeD [OF this] assms show ?thesis
    unfolding Some by (simp add: tags_unique_def isValid_def)
qed

lemma set_map_Some_iff:
  assumes "tags_unique (cs_blocks s)"
  shows "set_map s tag = Some b \<longleftrightarrow> tag \<noteq> NOT 0 \<and> m_tag b = tag \<and> b \<in> set (cs_blocks s)"
proof
  assume "set_map s tag = Some b"
  then show "tag \<noteq> NOT 0 \<and> m_tag b = tag \<and> b \<in> set (cs_blocks s)"
    using set_find_SomeD by (fastforce simp: set_map_def split: if_splits)
next
  assume *: "tag \<noteq> NOT 0 \<and> m_tag b = tag \<and> b \<in> set (cs_blocks s)"
  then obtain i where "i < length (cs_blocks s)" "cs_blocks s ! i = b" by (auto simp: in_set_conv_nth)
  then show "set_map s tag = Some b"
    using * set_find_unique [OF assms] by (simp add: set_map_def)
qed

text \<open>Replacing the block of one way changes the map at the old and the new tag only.\<close>

lemma tags_unique_update:
  assumes "tags_unique bs" and "i < length bs"
    and "isValid b \<longrightarrow> (\<forall>j<length bs. j \<noteq> i \<longrightarrow> m_tag (bs ! j) \<noteq> m_tag b)"
  shows "tags_unique (bs[i := b])"
  using assms unfolding tags_unique_def isValid_def by (auto simp: nth_list_update)

lemma set_map_update:
  assumes u: "tags_unique (cs_blocks s)" and i: "i < length (cs_blocks s)"
    and new: "isValid b \<longrightarrow> (\<forall>j<length (cs_blocks s). j \<noteq> i \<longrightarrow> m_tag (cs_blocks s ! j) \<noteq> m_tag b)"
    and s': "cs_blocks s' = (cs_blocks s)[i := b]"
  shows "set_map s' = (\<lambda>tag. if isValid b \<and> tag = m_tag b then Some b
     else if tag = m_tag (cs_blocks s ! i) then None else set_map s tag)"
proof
  fix tag
  let ?bs = "cs_blocks s"
  have u': "tags_unique (cs_blocks s')" unfolding s' by (rule tags_unique_update [OF u i new])
  have mem: "x \<in> set (cs_blocks s') \<longleftrightarrow> x = b \<or> (\<exists>j<length ?bs. j \<noteq> i \<and> x = ?bs ! j)" for x
    unfolding s' using i by (auto simp: in_set_conv_nth nth_list_update)
  have key: "set_map s' tag = Some x \<longleftrightarrow>
    (if isValid b \<and> tag = m_tag b then Some b
     else if tag = m_tag (?bs ! i) then None else set_map s tag) = Some x" for x
    unfolding set_map_Some_iff [OF u'] mem
    using set_map_Some_iff [OF u, of tag x] u i new
    by (auto simp: isValid_def tags_unique_def in_set_conv_nth)
  show "set_map s' tag = (if isValid b \<and> tag = m_tag b then Some b
     else if tag = m_tag (?bs ! i) then None else set_map s tag)"
    using key by (metis not_None_eq)
qed

lemma set_map_cong: "cs_blocks s' = cs_blocks s \<Longrightarrow> set_map s' = set_map s"
  by (auto simp: set_map_def set_find_def)

section \<open>The data array\<close>

lemma unat_mult_add_exact:
  assumes "i * unat b + unat off < 2 ^ 32"
  shows "unat (of_nat i * b + off :: UInt32) = i * unat b + unat off"
proof -
  have "unat (of_nat (i * unat b + unat off) :: UInt32) = i * unat b + unat off"
    by (rule unat_of_nat_lt) (use assms in simp)
  then show ?thesis by simp
qed

lemma line_in_range:
  assumes "n * b < (2::nat) ^ 32" and "i < n" and "off + k \<le> b"
  shows "i * b + off + k \<le> n * b" and "i * b + off < 2 ^ 32 \<or> k = 0"
proof -
  have "(i + 1) * b \<le> n * b" using assms(2) by (intro mult_le_mono1) simp
  then show le: "i * b + off + k \<le> n * b" using assms(3) by (simp add: algebra_simps)
  then show "i * b + off < 2 ^ 32 \<or> k = 0" using assms(1) by linarith
qed

lemma mem_read_write:
  assumes "mem_write mem pos n buff = Inr mem'" and "off + k \<le> n"
  shows "mem_read mem' (pos + off) k = Inr (take k (drop off buff)) \<and> length mem' = length mem"
  using assms by (auto simp: mem_write_def mem_read_def min_def take_drop split: if_splits)

section \<open>What a successful insertion does\<close>

lemma set_insertE:
  assumes "set_insert get cntlr s ctx b fill ev hb = Inr (out, s', ctx')"
  obtains i p where "get cntlr (cs_blocks s) (cs_policy s) ctx = Inr (i, p, ctx')"
    and "i < length (cs_blocks s)"
    and "cs_blocks s' = (cs_blocks s)[i := clone (cs_blocks s ! i) b]"
    and "cs_policy s' = p" and "cs_blocksize s' = cs_blocksize s"
    and "eviction out = isValid (cs_blocks s ! i)"
    and "evict_block_info out = (if isValid (cs_blocks s ! i) then clone ev (cs_blocks s ! i) else ev)"
    and "(case (fill, m_blocks s) of
            (Some buff, Some mem) \<Rightarrow> map_sum id Some (mem_write mem (line_pos s i 0) (unat (cs_blocksize s)) buff)
          | _ \<Rightarrow> Inr (m_blocks s)) = Inr (m_blocks s')"
proof -
  from assms obtain i p where g: "get cntlr (cs_blocks s) (cs_policy s) ctx = Inr (i, p, ctx')"
    and i: "i < length (cs_blocks s)"
    by (auto simp: set_insert_def bindE_Inr_iff Let_def)
  show thesis
    by (rule that [OF g i])
      (use assms g i in \<open>auto simp: set_insert_def bindE_Inr_iff Let_def line_pos_def split: if_splits option.splits\<close>)
qed

lemma set_insert_total:
  assumes "get cntlr (cs_blocks s) (cs_policy s) ctx = Inr (i, p, ctx')" and "i < n" and "set_wf pinv c n s"
    and "\<forall>buff. fill = Some buff \<longrightarrow> unat (cs_blocksize s) \<le> length buff"
  shows "\<exists>out s'. set_insert get cntlr s ctx b fill ev hb = Inr (out, s', ctx')"
proof -
  have wf: "length (cs_blocks s) = n" "n * unat (cs_blocksize s) < 2 ^ 32"
    "\<And>mem. m_blocks s = Some mem \<Longrightarrow> length mem = n * unat (cs_blocksize s)"
    using assms(3) by (auto simp: set_wf_def)
  have range: "i * unat (cs_blocksize s) + unat (cs_blocksize s) \<le> n * unat (cs_blocksize s)"
    using line_in_range(1) [OF wf(2) assms(2), of 0 "unat (cs_blocksize s)"] by simp
  then have pos: "line_pos s i 0 = i * unat (cs_blocksize s)"
    unfolding line_pos_def by (subst unat_mult_add_exact) (use wf(2) in \<open>simp_all\<close>)
  show ?thesis
    using assms range pos wf
    by (auto simp: set_insert_def Let_def line_pos_def mem_read_def mem_write_def split: option.splits)
qed

section \<open>The contract of a replacement policy\<close>

text \<open>
  What \<^verbatim>\<open>CacheSet\<close> asks of its subclasses: the victim is a way of the set, and both virtual methods
  keep the policy's own invariant.
\<close>

locale replacement_policy =
  fixes pinv :: "nat \<Rightarrow> 's \<Rightarrow> bool"
    and get :: "cntlr \<Rightarrow> CacheBlockInfo list \<Rightarrow> 's \<Rightarrow> ReplCtx \<Rightarrow> (nat \<times> 's \<times> ReplCtx) res"
    and upd :: "nat \<Rightarrow> 's \<Rightarrow> ReplCtx \<Rightarrow> nat \<Rightarrow> ('s \<times> ReplCtx) res"
  assumes get_range: "pinv (length bs) p \<Longrightarrow> get cntlr bs p ctx = Inr (i, p', ctx') \<Longrightarrow>
      i < length bs \<and> pinv (length bs) p'"
    and upd_inv: "pinv n p \<Longrightarrow> k < n \<Longrightarrow> upd n p ctx k = Inr (p', ctx') \<Longrightarrow> pinv n p'"
begin

lemma read_line_ok:
  assumes "read_line upd s ctx line_index offset has_buff bytes u = Inr (out, s', ctx')"
    and "set_wf pinv c n s" and "line_index < n"
  shows "set_wf pinv c n s' \<and> set_map s' = set_map s"
  using assms
  by (auto simp: read_line_def bindE_Inr_iff set_wf_def intro: upd_inv set_map_cong split: if_splits)

lemma write_line_ok:
  assumes "write_line upd s ctx line_index offset in_buff bytes u = Inr (s', ctx')"
    and "set_wf pinv c n s" and "line_index < n"
  shows "set_wf pinv c n s' \<and> set_map s' = set_map s"
  using assms
  by (auto simp: write_line_def bindE_Inr_iff set_wf_def mem_write_def Let_def
      intro: upd_inv set_map_cong split: if_splits option.splits)

lemma invalidate_ok:
  assumes "set_wf pinv c n s" and "tag \<noteq> NOT 0"
  shows "set_wf pinv c n (snd (set_invalidate s tag)) \<and>
    set_map (snd (set_invalidate s tag)) = (set_map s)(tag := None) \<and>
    fst (set_invalidate s tag) = (set_map s tag \<noteq> None)"
proof (cases "set_find s tag")
  case None
  then have "set_map s tag = None" by (simp add: set_map_def)
  then show ?thesis using None assms(1) by (auto simp: set_invalidate_def)
next
  case (Some i)
  let ?b = "invalidateBlock (cs_blocks s ! i)"
  let ?s = "snd (set_invalidate s tag)"
  have blocks: "cs_blocks ?s = (cs_blocks s)[i := ?b]" using Some by (simp add: set_invalidate_def)
  have i: "i < length (cs_blocks s)" "m_tag (cs_blocks s ! i) = tag" using set_find_SomeD [OF Some] by auto
  have u: "tags_unique (cs_blocks s)" using assms(1) by (simp add: set_wf_def)
  have "set_map ?s = (set_map s)(tag := None)"
    by (subst set_map_update [OF u i(1) _ blocks]) (auto simp: i(2))
  moreover have "tags_unique (cs_blocks ?s)"
    unfolding blocks by (rule tags_unique_update [OF u i(1)]) simp
  moreover have "set_map s tag \<noteq> None" using Some assms(2) by (simp add: set_map_def)
  ultimately show ?thesis
    using assms(1) Some i(1) by (auto simp: set_wf_def set_invalidate_def dest!: set_update_subset_insert [THEN subsetD])
qed

lemma insert_ok:
  assumes ins: "set_insert get cntlr s ctx b fill ev hb = Inr (out, s', ctx')"
    and wf: "set_wf pinv c n s" and b: "block_ok c b" "m_tag b \<noteq> NOT 0" and fresh: "set_map s (m_tag b) = None"
  shows "set_wf pinv c n s' \<and>
    (if eviction out
     then \<exists>old. set_map s (m_tag old) = Some old \<and> evict_block_info out = clone ev old \<and>
            set_map s' = (set_map s)(m_tag old := None, m_tag b \<mapsto> b)
     else evict_block_info out = ev \<and> set_map s' = (set_map s)(m_tag b \<mapsto> b))"
proof -
  from ins obtain i p where g: "get cntlr (cs_blocks s) (cs_policy s) ctx = Inr (i, p, ctx')"
    and i: "i < length (cs_blocks s)" and blocks: "cs_blocks s' = (cs_blocks s)[i := clone (cs_blocks s ! i) b]"
    and rest: "cs_policy s' = p" "cs_blocksize s' = cs_blocksize s" "eviction out = isValid (cs_blocks s ! i)"
      "evict_block_info out = (if isValid (cs_blocks s ! i) then clone ev (cs_blocks s ! i) else ev)"
    and mem: "(case (fill, m_blocks s) of
            (Some buff, Some mem) \<Rightarrow> map_sum id Some (mem_write mem (line_pos s i 0) (unat (cs_blocksize s)) buff)
          | _ \<Rightarrow> Inr (m_blocks s)) = Inr (m_blocks s')" by (rule set_insertE)
  let ?old = "cs_blocks s ! i"
  have u: "tags_unique (cs_blocks s)" and ok: "block_ok c ?old" using wf i by (auto simp: set_wf_def)
  have bl: "cs_blocks s' = (cs_blocks s)[i := b]" using blocks clone_block_ok [OF ok b(1)] by simp
  have "\<forall>j<length (cs_blocks s). m_tag (cs_blocks s ! j) \<noteq> m_tag b"
    using set_find_unique [OF u] fresh b(2) by (fastforce simp: set_map_def)
  then have new: "isValid b \<longrightarrow> (\<forall>j<length (cs_blocks s). j \<noteq> i \<longrightarrow> m_tag (cs_blocks s ! j) \<noteq> m_tag b)" by simp
  have v: "isValid b" using b(2) by (simp add: isValid_def)
  note map' = set_map_update [OF u i new bl]
  have inv: "pinv n p" using get_range [OF _ g] wf by (simp add: set_wf_def)
  have "length mem' = n * unat (cs_blocksize s)" if "m_blocks s' = Some mem'" for mem'
    using mem that wf by (auto simp: set_wf_def mem_write_def split: option.splits if_splits)
  then have wf': "set_wf pinv c n s'"
    using wf inv rest(1,2) tags_unique_update [OF u i new] bl b(1)
    by (auto simp: set_wf_def dest!: set_update_subset_insert [THEN subsetD])
  show ?thesis
  proof (cases "isValid ?old")
    case True
    then have old: "set_map s (m_tag ?old) = Some ?old"
      using set_map_Some_iff [OF u] i by (simp add: isValid_def)
    have "set_map s' = (set_map s)(m_tag ?old := None, m_tag b \<mapsto> b)"
      unfolding map' using v by auto
    then show ?thesis using wf' old rest True by auto
  next
    case False
    then have "set_map s (m_tag ?old) = None" by (simp add: isValid_def set_map_def)
    then have "set_map s' = (set_map s)(m_tag b \<mapsto> b)" unfolding map' using v by auto
    then show ?thesis using wf' rest False by simp
  qed
qed

end

text \<open>Every policy but round robin fills an invalid way first.\<close>

locale invalid_first_policy = replacement_policy +
  assumes get_invalid: "pinv (length bs) p \<Longrightarrow> first_invalid bs = Some k \<Longrightarrow>
    \<exists>p'. get cntlr bs p ctx = Inr (k, p', ctx)"
begin

lemma insert_no_eviction:
  assumes "set_wf pinv c n s" and "i < n" and "\<not> isValid (cs_blocks s ! i)"
    and "\<forall>buff. fill = Some buff \<longrightarrow> unat (cs_blocksize s) \<le> length buff"
  shows "\<exists>out s'. set_insert get cntlr s ctx b fill ev hb = Inr (out, s', ctx) \<and> \<not> eviction out"
proof -
  have n: "length (cs_blocks s) = n" "pinv n (cs_policy s)" using assms(1) by (auto simp: set_wf_def)
  have "first_invalid (cs_blocks s) \<noteq> None"
    unfolding first_invalid_def find_upt_None_iff using assms(2,3) n by auto
  then obtain k where k: "first_invalid (cs_blocks s) = Some k" by auto
  then have kn: "k < n" "\<not> isValid (cs_blocks s ! k)" using n by (auto simp: first_invalid_def find_upt_Some_iff)
  from get_invalid [OF _ k] n obtain p where g: "get cntlr (cs_blocks s) (cs_policy s) ctx = Inr (k, p, ctx)" by metis
  from set_insert_total [where get = get, OF g kn(1) assms(1,4)]
  obtain out s' where ins: "set_insert get cntlr s ctx b fill ev hb = Inr (out, s', ctx)" by blast
  moreover from ins have "\<not> eviction out" by (rule set_insertE) (use g kn in auto)
  ultimately show ?thesis by blast
qed

end

section \<open>The policies keep the contract\<close>

fun policy_inv :: "nat \<Rightarrow> policy_state \<Rightarrow> bool" where
  "policy_inv n (CacheSetRoundRobin r) = (r < n)"
| "policy_inv n (CacheSetLRU s) = (0 < n \<and> lru_perm n (m_lru_bits s))"
| "policy_inv n (CacheSetNRU s) =
     (0 < n \<and> n \<le> 256 \<and> length (nru_lru_bits s) = n \<and> unat (nru_replacement_pointer s) < n)"
| "policy_inv n (CacheSetMRU bits) = (0 < n \<and> lru_perm n bits)"
| "policy_inv n (CacheSetNMRU s) =
     (0 < n \<and> lru_perm n (nmru_lru_bits s) \<and> unat (nmru_replacement_pointer s) < n)"
| "policy_inv n (CacheSetPLRU b) = ((n = 4 \<or> n = 8) \<and> length b = 8)"
| "policy_inv n (CacheSetSRRIP s) = srrip_wf n s"
| "policy_inv n (CacheSetRandom seed) = (0 < n)"

definition invalid_first_inv :: "nat \<Rightarrow> policy_state \<Rightarrow> bool" where
  "invalid_first_inv n p \<longleftrightarrow> policy_inv n p \<and> (\<forall>r. p \<noteq> CacheSetRoundRobin r)"

lemma first_invalid_less: "first_invalid bs = Some i \<Longrightarrow> i < length bs"
  by (simp add: first_invalid_def find_upt_Some_iff)

lemma lru_perm_256: "lru_perm n bits \<Longrightarrow> n \<le> 256"
  by (simp add: lru_perm_def)

lemma lru_attempts_ok:
  assumes "lru_attempts cntlr bs todo attempt s ctx = Inr (i, s', ctx')" and "lru_perm (length bs) (m_lru_bits s)"
  shows "i < length bs \<and> lru_perm (length bs) (m_lru_bits s')"
  using assms
proof (induction cntlr bs todo attempt s ctx rule: lru_attempts.induct)
  case (2 cntlr bs todo attempt s ctx)
  let ?v = "fst (lru_scan bs (m_lru_bits s))"
  have v: "?v < length bs" using "2.prems"(1) by (auto simp: Let_def bindE_Inr_iff simp del: if_split)
  note perm' = lru_perm_moveToMRU [OF "2.prems"(2) v]
  obtain reject where q: "(if int attempt < int (unat (m_num_attempts s)) - 1
      then qbs_query cntlr (bs ! ?v) else Inr False) = Inr reject"
    using "2.prems"(1) by (auto simp: Let_def bindE_Inr_iff simp del: if_split)
  show ?case
  proof (cases reject)
    case True
    then show ?thesis using "2.IH" [OF refl True] "2.prems"(1) q v perm' by (simp add: Let_def)
  next
    case False
    then show ?thesis using "2.prems"(1) q v perm' by (auto simp: Let_def bindE_Inr_iff simp del: if_split)
  qed
qed simp

lemma lru_get_ok:
  assumes "lru_perm (length bs) (m_lru_bits s)" and "lru_getReplacementIndex cntlr bs s ctx = Inr (i, s', ctx')"
  shows "i < length bs \<and> lru_perm (length bs) (m_lru_bits s')"
  using assms
  by (auto simp: lru_getReplacementIndex_def lru_perm_moveToMRU first_invalid_less
      dest: lru_attempts_ok split: option.splits)

interpretation lru: invalid_first_policy
  "\<lambda>n s. 0 < n \<and> lru_perm n (m_lru_bits s)" lru_getReplacementIndex "\<lambda>n. lru_updateReplacementIndex"
  by unfold_locales
    (auto simp: lru_updateReplacementIndex_def lru_getReplacementIndex_def bindE_Inr_iff lru_perm_moveToMRU
      dest: lru_get_ok [unfolded lru_getReplacementIndex_def])

lemma srrip_get_ok:
  assumes "srrip_wf (length bs) s" and "srrip_getReplacementIndex cntlr bs s ctx = Inr (i, s', ctx')"
  shows "i < length bs \<and> srrip_wf (length bs) s'"
proof (cases "first_invalid bs")
  case None
  then have "srrip_rounds cntlr bs (unat (m_rrip_max s) + 1) 0 s ctx = Inr (i, s', ctx')"
    using assms(2) by (simp add: srrip_getReplacementIndex_def)
  from srrip_rounds_wf [OF this assms(1)] show ?thesis by simp
next
  case (Some k)
  then show ?thesis
    using assms first_invalid_less [OF Some] by (auto simp: srrip_getReplacementIndex_def srrip_wf_def)
qed

interpretation srrip: invalid_first_policy
  srrip_wf srrip_getReplacementIndex "\<lambda>n. srrip_updateReplacementIndex"
  by (unfold_locales; (erule (1) srrip_get_ok)?)
    (auto simp: srrip_updateReplacementIndex_def srrip_getReplacementIndex_def bindE_Inr_iff srrip_wf_def)

lemma nmru_get_ok:
  assumes "nmru_getReplacementIndex bs s = Inr (i, s')" and "bs \<noteq> []" "lru_perm (length bs) (nmru_lru_bits s)"
    and "unat (nmru_replacement_pointer s) < length bs"
  shows "i < length bs \<and> lru_perm (length bs) (nmru_lru_bits s') \<and> unat (nmru_replacement_pointer s') < length bs"
proof (cases "first_invalid bs")
  case None
  then have "nmru_search bs (length bs) s = Inr (i, s')" using assms(1) by (simp add: nmru_getReplacementIndex_def)
  from nmru_search_sound [OF this assms(2) lru_perm_256 [OF assms(3)] assms(4)] assms(3)
  show ?thesis by (simp add: lru_perm_moveToMRU)
next
  case (Some k)
  then show ?thesis
    using assms first_invalid_less [OF Some] by (auto simp: nmru_getReplacementIndex_def lru_perm_moveToMRU)
qed

lemma nru_get_ok:
  assumes "nru_getReplacementIndex bs s = Inr (i, s')" and "bs \<noteq> []" "length bs \<le> 256"
    and "unat (nru_replacement_pointer s) < length bs"
  shows "i < length bs \<and> length (nru_lru_bits s') = length (nru_lru_bits s) \<and>
    unat (nru_replacement_pointer s') < length bs"
proof (cases "first_invalid bs")
  case None
  then obtain z where "nru_search bs z (length bs) s = Inr (i, s')"
    using assms(1) by (auto simp: nru_getReplacementIndex_def Let_def)
  from nru_search_sound [OF this assms(2-4)] show ?thesis by simp
next
  case (Some k)
  then show ?thesis
    using assms first_invalid_less [OF Some] by (auto simp: nru_getReplacementIndex_def)
qed

lemma mru_get_ok:
  assumes "mru_getReplacementIndex bs bits = Inr (i, bits')" and "lru_perm (length bs) bits"
  shows "i < length bs \<and> lru_perm (length bs) bits'"
  using assms
  by (auto simp: mru_getReplacementIndex_def lru_perm_moveToMRU first_invalid_less
      dest!: find_SomeD split: option.splits prod.splits)

lemma plru_update_length: "plru_updateReplacementIndex n b k = Inr b' \<Longrightarrow> length b' = length b"
  by (auto simp: plru_updateReplacementIndex_def split: if_splits)

lemma plru_update_some: "\<exists>b'. plru_updateReplacementIndex 4 b k = Inr b'" "\<exists>b'. plru_updateReplacementIndex 8 b k = Inr b'"
  by (simp_all add: plru_updateReplacementIndex_def)

lemma plru_get_ok:
  assumes "plru_getReplacementIndex bs b = Inr (i, b')" and "length bs = 4 \<or> length bs = 8"
  shows "i < length bs \<and> length b' = length b"
proof -
  obtain v where v: "plru_select (length bs) b = Inr v" "v < length bs" by (rule plru_select_total [OF assms(2)])
  then show ?thesis
    using assms(1) by (auto simp: plru_getReplacementIndex_def bindE_Inr_iff first_invalid_less plru_update_length
        split: option.splits)
qed

lemma random_get_less: "random_getReplacementIndex bs seed = Some y \<Longrightarrow> bs \<noteq> [] \<Longrightarrow> fst y < length bs"
proof -
  assume *: "random_getReplacementIndex bs seed = Some y" and ne: "bs \<noteq> []"
  have "bs \<noteq> [] \<longrightarrow> fst y < length bs"
    by (rule random_getReplacementIndex.raw_induct [OF _ *])
      (auto simp: Let_def first_invalid_less split: option.splits if_splits)
  then show ?thesis using ne by simp
qed

lemma rr_get_ok:
  assumes "rr_getReplacementIndex bs r = Some (i, r')" and "r < length bs"
  shows "i < length bs \<and> r' < length bs"
  using rr_result [OF assms] rr_next_less [of "length bs" i] by (cases "bs = []") auto

interpretation policy: replacement_policy policy_inv getReplacementIndex updateReplacementIndex
proof (unfold_locales, goal_cases)
  case (1 bs p cntlr ctx i p' ctx')
  then show ?case
    by (cases p) (auto dest: lru_get_ok srrip_get_ok nmru_get_ok nru_get_ok mru_get_ok plru_get_ok rr_get_ok
        random_get_less split: option.splits)
next
  case (2 n p k ctx p' ctx')
  then show ?case
    by (cases p) (auto simp: lru_perm_moveToMRU lru_updateReplacementIndex_def bindE_Inr_iff plru_update_length
        dest: srrip.upd_inv)
qed

interpretation filling: invalid_first_policy invalid_first_inv getReplacementIndex updateReplacementIndex
proof (unfold_locales, goal_cases)
  case (1 bs p cntlr ctx i p' ctx')
  then show ?case
    using policy.get_range [of bs p cntlr ctx i p' ctx']
    by (cases p) (auto simp: invalid_first_inv_def split: option.splits)
next
  case (2 n p k ctx p' ctx')
  then show ?case
    using policy.upd_inv [of n p k ctx p' ctx'] by (cases p) (auto simp: invalid_first_inv_def)
next
  case (3 bs p k cntlr ctx)
  then show ?case
    by (cases p) (auto simp: invalid_first_inv_def nru_getReplacementIndex_def mru_getReplacementIndex_def
        nmru_getReplacementIndex_def plru_getReplacementIndex_def random_getReplacementIndex.simps
        lru_getReplacementIndex_def srrip_getReplacementIndex_def plru_update_some bindE_Inr_iff)
qed

lemma createCacheSet_cases:
  assumes "createCacheSet cfg pol c n bs = Inr s" and "0 < n" "n \<le> 256"
  obtains p where "s = mk_CacheSet (cfg_fault_injection cfg) c n bs p" and "policy_inv n p"
proof -
  from assms(1) obtain policy where pol: "parsePolicyType pol = Inr policy" by (auto simp: createCacheSet_def bindE_Inr_iff)
  show thesis
    using that assms lru_perm_init [OF assms(3)] srrip_wf_init [OF assms(2,3)] pol
    by (cases policy) (auto simp: createCacheSet_def bindE_Inr_iff mk_LRU_def mk_NRU_def mk_NMRU_def mk_PLRU_def)
qed

lemma createCacheSet_wf:
  assumes "createCacheSet cfg pol c n bs = Inr s" and "0 < n" "n \<le> 256" "n * unat bs < 2 ^ 32"
  shows "set_wf policy_inv c n s \<and> set_map s = (\<lambda>_. None)"
proof -
  from assms(1-3) obtain p where s: "s = mk_CacheSet (cfg_fault_injection cfg) c n bs p"
    and p: "policy_inv n p" by (rule createCacheSet_cases)
  have tag: "i < n \<Longrightarrow> m_tag (cs_blocks s ! i) = NOT 0" for i
    by (simp add: s mk_CacheSet_def createBlock_def mk_CacheBlockInfo_def)
  have len: "length (cs_blocks s) = n" by (simp add: s mk_CacheSet_def)
  have "set_map s tag = None" for tag
    using set_find_SomeD [of s tag] \<open>\<And>i. i < n \<Longrightarrow> m_tag (cs_blocks s ! i) = NOT 0\<close> len
    by (cases "set_find s tag") (auto simp: set_map_def)
  moreover have "tags_unique (cs_blocks s)" using \<open>\<And>i. i < n \<Longrightarrow> m_tag (cs_blocks s ! i) = NOT 0\<close> len
    by (simp add: tags_unique_def isValid_def)
  moreover have "unat (of_nat n * bs) = n * unat bs"
    using unat_mult_add_exact [of n bs 0] assms(4) by simp
  ultimately show ?thesis
    using p assms(4) len by (auto simp: s set_wf_def mk_CacheSet_def)
qed

section \<open>The data path\<close>

lemma line_pos_exact:
  assumes "set_wf pinv c n s" and "i < n" and "unat off < unat (cs_blocksize s)"
  shows "line_pos s i off = i * unat (cs_blocksize s) + unat off"
proof -
  have wf: "n * unat (cs_blocksize s) < 2 ^ 32" using assms(1) by (simp add: set_wf_def)
  from line_in_range [OF wf assms(2), of "unat off" 1] assms(3) wf show ?thesis
    unfolding line_pos_def by (intro unat_mult_add_exact) linarith
qed

lemma mem_read_write_disjoint:
  assumes "mem_write mem pos n buff = Inr mem'" and "p + k \<le> pos \<or> pos + n \<le> p"
  shows "mem_read mem' p k = mem_read mem p k"
proof -
  have mem': "mem' = take pos mem @ take n buff @ drop (pos + n) mem" "pos + n \<le> length mem" "n \<le> length buff"
    using assms(1) by (auto simp: mem_write_def split: if_splits)
  then have len: "length mem' = length mem" by simp
  have "mem' ! i = mem ! i" if "i < length mem" "i < pos \<or> pos + n \<le> i" for i
    using that mem' by (auto simp: nth_append min_def)
  then have "take k (drop p mem') = take k (drop p mem)" if "p + k \<le> length mem"
    using that len assms(2) by (intro nth_equalityI) auto
  then show ?thesis by (simp add: mem_read_def len)
qed

text \<open>Data round trip: in a well-formed set with a data array, writing a range inside a line succeeds, a read of
  that range returns the bytes written, and a read inside any other line returns what it returned before.\<close>

theorem write_line_read_line:
  assumes wf: "set_wf policy_inv c n s" and i: "i < n" and mem: "m_blocks s = Some mem"
    and off: "unat off + unat bytes \<le> unat (cs_blocksize s)" "0 < unat bytes" and buff: "unat bytes \<le> length buff"
  shows "\<exists>s'. write_line updateReplacementIndex s ctx i off (Some buff) bytes False = Inr (s', ctx) \<and>
    read_line updateReplacementIndex s' ctx i off True bytes False = Inr (Some (take (unat bytes) buff), s', ctx) \<and>
    (\<forall>j off'. j < n \<and> j \<noteq> i \<and> unat off' + unat bytes \<le> unat (cs_blocksize s) \<longrightarrow>
       map_sum id fst (read_line updateReplacementIndex s' ctx j off' True bytes False) =
       map_sum id fst (read_line updateReplacementIndex s ctx j off' True bytes False))"
proof -
  let ?b = "unat (cs_blocksize s)"
  have bwf: "n * ?b < 2 ^ 32" and len: "length mem = n * ?b" using wf mem by (auto simp: set_wf_def)
  have pos: "line_pos s j o' = j * ?b + unat o'" if "j < n" "unat o' + unat bytes \<le> ?b" for j o'
    using that off(2) by (intro line_pos_exact [OF wf]) simp_all
  have assert_ok: "o' + bytes \<le> cs_blocksize s" if "unat o' + unat bytes \<le> ?b" for o'
    using that unat_lt [of "cs_blocksize s"] by (simp add: word_le_nat_alt unat_add_lem [THEN iffD1])
  have "i * ?b + unat off + unat bytes \<le> n * ?b" by (rule line_in_range(1) [OF bwf i off(1)])
  then obtain mem' where wr: "mem_write mem (i * ?b + unat off) (unat bytes) buff = Inr mem'"
    using buff len by (simp add: mem_write_def)
  define s' where "s' = s\<lparr>m_blocks := Some mem'\<rparr>"
  have s': "line_pos s' = line_pos s" "m_blocks s' = Some mem'" "cs_blocksize s' = cs_blocksize s"
    by (auto simp: line_pos_def [abs_def] s'_def)
  have other: "mem_read mem' (j * ?b + unat o') (unat bytes) = mem_read mem (j * ?b + unat o') (unat bytes)"
    if "j < n" "j \<noteq> i" "unat o' + unat bytes \<le> ?b" for j o'
  proof (rule mem_read_write_disjoint [OF wr])
    have "j * ?b + ?b \<le> i * ?b \<or> i * ?b + ?b \<le> j * ?b"
      using that(2) by (metis add.commute mult_Suc mult_le_mono1 not_less_eq_eq linorder_neqE_nat Suc_leI)
    then show "j * ?b + unat o' + unat bytes \<le> i * ?b + unat off \<or> i * ?b + unat off + unat bytes \<le> j * ?b + unat o'"
      using that(3) off(1) by linarith
  qed
  have "write_line updateReplacementIndex s ctx i off (Some buff) bytes False = Inr (s', ctx)"
    using assert_ok [OF off(1)] pos [OF i off(1)] wr mem by (simp add: write_line_def s'_def)
  moreover have "read_line updateReplacementIndex s' ctx i off True bytes False = Inr (Some (take (unat bytes) buff), s', ctx)"
    using assert_ok [OF off(1)] pos [OF i off(1)] mem_read_write [OF wr, of 0 "unat bytes"]
    by (simp add: read_line_def s')
  moreover have "map_sum id fst (read_line updateReplacementIndex s' ctx j o' True bytes False) =
       map_sum id fst (read_line updateReplacementIndex s ctx j o' True bytes False)"
    if "j < n" "j \<noteq> i" "unat o' + unat bytes \<le> ?b" for j o'
    using assert_ok [OF that(3)] pos [OF that(1,3)] other [OF that] mem
    by (cases "mem_read mem (j * ?b + unat o') (unat bytes)") (simp_all add: read_line_def s')
  ultimately show ?thesis by blast
qed

theorem write_line_read_line_witness:
  "let s = mk_CacheSet True PR_L1_CACHE 2 16 (CacheSetRoundRobin 1); ctx = \<lparr>m_set_info = None, qbs_lookup_cost = 0\<rparr>
   in \<exists>s'. write_line updateReplacementIndex s ctx 1 4 (Some [7, 8, 9]) 2 False = Inr (s', ctx) \<and>
    read_line updateReplacementIndex s' ctx 1 4 True 2 False = Inr (Some [7, 8], s', ctx)"
proof -
  let ?s = "mk_CacheSet True PR_L1_CACHE 2 16 (CacheSetRoundRobin 1)"
  have "set_wf policy_inv PR_L1_CACHE 2 ?s"
    by (auto simp: set_wf_def mk_CacheSet_def tags_unique_def createBlock_def mk_CacheBlockInfo_def isValid_def block_ok_def)
  moreover have "m_blocks ?s = Some (replicate 32 0)" by (simp add: mk_CacheSet_def)
  ultimately show ?thesis
    using write_line_read_line [of PR_L1_CACHE 2 ?s 1 "replicate 32 0" 4 2 "[7, 8, 9]" "\<lparr>m_set_info = None, qbs_lookup_cost = 0\<rparr>"]
    unfolding Let_def by (auto simp: mk_CacheSet_def)
qed

end
