(* ===== verification/LS_Cache.thy ===== *)
theory LS_Cache
  imports LS_Cache_Set LS_Cache_Base
begin

unbundle bit_operations_syntax

text \<open>
  The cache (\<^verbatim>\<open>common/core/memory_subsystem/cache/cache.cc\<close>): sets indexed by the address split of
  \<^verbatim>\<open>CacheBase\<close>, with the hooks of the fault injectors
  (\<^verbatim>\<open>common/fault_injection/fault_injection.cc\<close>, \<^verbatim>\<open>fault_injector_random.cc\<close>).
\<close>

section \<open>Fault injectors\<close>

text \<open>The two classes of fault injectors; the random one keeps \<^verbatim>\<open>m_active\<close> and its generator.\<close>

datatype FaultInjector = FaultInjectorNone | FaultInjectorRandom bool UInt64

definition mk_FaultInjectorRandom :: "mem_component_t \<Rightarrow> FaultInjector" where
  "mk_FaultInjectorRandom mem_component = FaultInjectorRandom (mem_component = L1_DCACHE) (rng_seed 0)"

text \<open>\<open>fault\<close> is the array that \<^verbatim>\<open>Byte *fault\<close> points into, at position \<open>pos\<close>.\<close>

definition preRead :: "FaultInjector \<Rightarrow> UInt32 \<Rightarrow> Byte list \<Rightarrow> nat \<Rightarrow> (FaultInjector \<times> Byte list) res" where
  "preRead fi data_size fault pos =
     (case fi of
        FaultInjectorNone \<Rightarrow> Inr (fi, fault)
      | FaultInjectorRandom m_active m_rng \<Rightarrow>
          (if m_active
           then let (r, m_rng) = rng_next m_rng
                in if r mod 0xffff = 0
                   then if data_size = 0 then Inl DivByZero
                        else let (r, m_rng) = rng_next m_rng;
                                 bit_location = ucast (r mod ucast data_size) :: UInt32;
                                 i = pos + unat (bit_location div 8)
                             in if i < length fault
                                then Inr (FaultInjectorRandom m_active m_rng,
                                          fault[i := fault ! i OR push_bit (unat (bit_location mod 8)) 1])
                                else Inl OutOfRange
                   else Inr (FaultInjectorRandom m_active m_rng, fault)
           else Inr (fi, fault)))"

definition postWrite :: "FaultInjector \<Rightarrow> UInt32 \<Rightarrow> Byte list \<Rightarrow> nat \<Rightarrow> (FaultInjector \<times> Byte list) res" where
  "postWrite fi data_size fault pos = Inr (fi, fault)"

datatype fault_type_t = FAULT_TYPE_TOGGLE | FAULT_TYPE_SET0 | FAULT_TYPE_SET1

definition applyFault :: "fault_type_t \<Rightarrow> nat \<Rightarrow> Byte list \<Rightarrow> Byte list \<Rightarrow> Byte list" where
  "applyFault m_type data_size data fault =
     fold (\<lambda>i data. data[i := (case m_type of
              FAULT_TYPE_TOGGLE \<Rightarrow> data ! i XOR fault ! i
            | FAULT_TYPE_SET0 \<Rightarrow> data ! i AND NOT (fault ! i)
            | FAULT_TYPE_SET1 \<Rightarrow> data ! i OR fault ! i)]) [0..<data_size] data"

section \<open>The cache\<close>

datatype access_t = INVALID_ACCESS_TYPE | LOAD | STORE

record Cache =
  c_base :: CacheBase
  m_enabled :: bool
  m_num_accesses :: UInt64
  m_num_hits :: UInt64
  m_cache_type :: cache_t
  m_sets :: "policy_state CacheSet list"
  c_ctx :: ReplCtx
  m_fault_injector :: "FaultInjector option"

fun mapE :: "('a \<Rightarrow> 'b res) \<Rightarrow> 'a list \<Rightarrow> 'b list res" where
  "mapE f [] = Inr []"
| "mapE f (x # xs) = bindE (f x) (\<lambda>y. bindE (mapE f xs) (\<lambda>ys. Inr (y # ys)))"

definition mk_Cache ::
  "CacheCfg \<Rightarrow> string \<Rightarrow> UInt32 \<Rightarrow> UInt32 \<Rightarrow> UInt32 \<Rightarrow> string \<Rightarrow> cache_t \<Rightarrow> hash_t \<Rightarrow> FaultInjector option
     \<Rightarrow> AddressHomeLookup option \<Rightarrow> Cache res" where
  "mk_Cache cfg name num_sets assoc cache_block_size policy_name cache_type hash fault_injector ahl =
     bindE (mk_CacheBase name num_sets assoc cache_block_size hash ahl)
     (\<lambda>base. bindE (createCacheSetInfo cfg policy_name (unat assoc))
     (\<lambda>set_info. bindE (mapE (\<lambda>i. createCacheSet cfg policy_name cache_type (unat assoc) cache_block_size)
                          [0..<unat num_sets])
     (\<lambda>sets. Inr \<lparr>c_base = base, m_enabled = False, m_num_accesses = 0, m_num_hits = 0,
                   m_cache_type = cache_type, m_sets = sets,
                   c_ctx = \<lparr>m_set_info = set_info, qbs_lookup_cost = 0\<rparr>,
                   m_fault_injector = fault_injector\<rparr>)))"

text \<open>The set of an address; \<^verbatim>\<open>m_sets[set_index]\<close> outside the array is an error.\<close>

definition get_set :: "Cache \<Rightarrow> UInt32 \<Rightarrow> policy_state CacheSet res" where
  "get_set c set_index = (if unat set_index < length (m_sets c) then Inr (m_sets c ! unat set_index) else Inl OutOfRange)"

definition put_set :: "Cache \<Rightarrow> UInt32 \<Rightarrow> policy_state CacheSet \<Rightarrow> Cache" where
  "put_set c set_index s = c\<lparr>m_sets := (m_sets c)[unat set_index := s]\<rparr>"

definition invalidateSingleLine :: "Cache \<Rightarrow> IntPtr \<Rightarrow> (bool \<times> Cache) res" where
  "invalidateSingleLine c addr =
     bindE (splitAddress (c_base c) addr)
     (\<lambda>(tag, set_index). bindE (assertE (set_index < m_num_sets (c_base c)) (AssertError ''set_index < m_num_sets''))
     (\<lambda>_. bindE (get_set c set_index)
     (\<lambda>s. Inr (fst (set_invalidate s tag), put_set c set_index (snd (set_invalidate s tag))))))"

text \<open>
  Runs a hook of the fault injector, if there is one, on the data of a line. The pointer into the data array
  is computed with \<^verbatim>\<open>getDataPtr\<close>, also when \<^verbatim>\<open>m_blocks\<close> is null: an injector that writes through it
  then fails.
\<close>

definition run_injector ::
  "(FaultInjector \<Rightarrow> UInt32 \<Rightarrow> Byte list \<Rightarrow> nat \<Rightarrow> (FaultInjector \<times> Byte list) res) \<Rightarrow> Cache \<Rightarrow> UInt32 \<Rightarrow> nat \<Rightarrow> UInt32 \<Rightarrow> UInt32
     \<Rightarrow> Cache res" where
  "run_injector hook c set_index line_index offset bytes =
     (case m_fault_injector c of
        None \<Rightarrow> Inr c
      | Some fi \<Rightarrow>
          bindE (get_set c set_index)
          (\<lambda>s. bindE (hook fi bytes (case m_blocks s of Some mem \<Rightarrow> mem | None \<Rightarrow> []) (line_pos s line_index offset))
          (\<lambda>(fi, mem). Inr ((put_set c set_index (s\<lparr>m_blocks := map_option (\<lambda>_. mem) (m_blocks s)\<rparr>))
                              \<lparr>m_fault_injector := Some fi\<rparr>))))"

text \<open>The result is the way of the block found, the bytes read, and the new state.\<close>

definition accessSingleLine ::
  "Cache \<Rightarrow> IntPtr \<Rightarrow> access_t \<Rightarrow> Byte list option \<Rightarrow> UInt32 \<Rightarrow> bool
     \<Rightarrow> (CacheBlockInfo option \<times> Byte list option \<times> Cache) res" where
  "accessSingleLine c addr access_type buff bytes update_replacement =
     bindE (splitAddress_offset (c_base c) addr)
     (\<lambda>(tag, set_index, block_offset). bindE (get_set c set_index)
     (\<lambda>s. case set_find s tag of
        None \<Rightarrow> Inr (None, None, c)
      | Some line_index \<Rightarrow>
          (if access_type = LOAD then
             bindE (run_injector preRead c set_index line_index block_offset bytes)
             (\<lambda>c. bindE (get_set c set_index)
             (\<lambda>s. bindE (read_line updateReplacementIndex s (c_ctx c) line_index block_offset (buff \<noteq> None) bytes update_replacement)
             (\<lambda>(out, s, ctx). Inr (Some (peekBlock s line_index), out, (put_set c set_index s)\<lparr>c_ctx := ctx\<rparr>))))
           else
             bindE (write_line updateReplacementIndex s (c_ctx c) line_index block_offset buff bytes update_replacement)
             (\<lambda>(s, ctx). bindE (run_injector postWrite ((put_set c set_index s)\<lparr>c_ctx := ctx\<rparr>) set_index line_index block_offset bytes)
             (\<lambda>c. Inr (Some (peekBlock s line_index), None, c))))))"

text \<open>The results of \<^verbatim>\<open>insertSingleLine\<close>: its output arguments, and \<^verbatim>\<open>evict_addr\<close>.\<close>

definition insertSingleLine ::
  "Cache \<Rightarrow> IntPtr \<Rightarrow> Byte list option \<Rightarrow> CacheBlockInfo \<Rightarrow> bool \<Rightarrow> cntlr \<Rightarrow> (insert_out \<times> IntPtr \<times> Cache) res" where
  "insertSingleLine c addr fill_buff evict_info has_evict_buff cntlr =
     bindE (splitAddress (c_base c) addr)
     (\<lambda>(tag, set_index). bindE (get_set c set_index)
     (\<lambda>s. let cache_block_info = (createBlock (m_cache_type c))\<lparr>m_tag := tag\<rparr> in
        bindE (set_insert getReplacementIndex cntlr s (c_ctx c) cache_block_info fill_buff evict_info has_evict_buff)
        (\<lambda>(out, s, ctx).
           let evict_addr = tagToAddress (c_base c) (m_tag (evict_block_info out));
               c = (put_set c set_index s)\<lparr>c_ctx := ctx\<rparr>
           in if m_fault_injector c = None then Inr (out, evict_addr, c)
              else case set_find s tag of
                     None \<Rightarrow> Inl (LogError ''Inserted line no longer there?'')
                   | Some line_index \<Rightarrow>
                       bindE (run_injector postWrite c set_index line_index 0 (cs_blocksize s))
                         (\<lambda>c. Inr (out, evict_addr, c)))))"

definition peekSingleLine :: "Cache \<Rightarrow> IntPtr \<Rightarrow> CacheBlockInfo option res" where
  "peekSingleLine c addr =
     bindE (splitAddress (c_base c) addr)
     (\<lambda>(tag, set_index). bindE (get_set c set_index) (\<lambda>s. Inr (map_option (peekBlock s) (set_find s tag))))"

definition updateCounters :: "Cache \<Rightarrow> bool \<Rightarrow> Cache" where
  "updateCounters c cache_hit =
     (if m_enabled c
      then let c = c\<lparr>m_num_accesses := m_num_accesses c + 1\<rparr>
           in if cache_hit then c\<lparr>m_num_hits := m_num_hits c + 1\<rparr> else c
      else c)"

definition updateHits :: "Cache \<Rightarrow> UInt64 \<Rightarrow> Cache" where
  "updateHits c hits =
     (if m_enabled c then c\<lparr>m_num_accesses := m_num_accesses c + hits, m_num_hits := m_num_hits c + hits\<rparr> else c)"

section \<open>Invariant\<close>

definition line :: "Cache \<Rightarrow> IntPtr \<Rightarrow> IntPtr" where
  "line c addr = drop_bit (unat (m_log_blocksize (c_base c))) addr"

definition cache_wf :: "Cache \<Rightarrow> bool" where
  "cache_wf c \<longleftrightarrow> cb_wf (c_base c) \<and> 0 < unat (m_log_blocksize (c_base c)) \<and>
     length (m_sets c) = unat (m_num_sets (c_base c)) \<and>
     (\<forall>s\<in>set (m_sets c). set_wf policy_inv (m_cache_type c) (unat (m_associativity (c_base c))) s \<and>
        cs_blocksize s = m_blocksize (c_base c)) \<and>
     (\<forall>i<length (m_sets c). \<forall>tag. set_map (m_sets c ! i) tag \<noteq> None \<longrightarrow>
        (\<exists>addr. splitAddress (c_base c) addr = Inr (tag, of_nat i)))"

lemma line_not_invalid: "0 < unat (m_log_blocksize (c_base c)) \<Longrightarrow> line c addr \<noteq> NOT 0"
proof -
  assume *: "0 < unat (m_log_blocksize (c_base c))"
  then have "\<not> bit addr (unat (m_log_blocksize (c_base c)) + 63)" using bit_imp_le_length [of addr] by fastforce
  then have "\<not> bit (line c addr) 63" by (simp add: line_def bit_simps)
  moreover have "bit (NOT 0 :: IntPtr) 63" by (simp add: bit_simps)
  ultimately show ?thesis by metis
qed

text \<open>Under the invariant every address has a set, and \<^verbatim>\<open>peekSingleLine\<close> is a lookup in its map.\<close>

lemma cache_split:
  assumes "cache_wf c"
  obtains idx where "splitAddress (c_base c) addr = Inr (line c addr, idx)" and "unat idx < length (m_sets c)"
    and "get_set c idx = Inr (m_sets c ! unat idx)"
    and "set_wf policy_inv (m_cache_type c) (unat (m_associativity (c_base c))) (m_sets c ! unat idx)"
proof -
  have cb: "cb_wf (c_base c)" and len: "length (m_sets c) = unat (m_num_sets (c_base c))"
    using assms by (auto simp: cache_wf_def)
  obtain idx where idx: "splitAddress (c_base c) addr = Inr (line c addr, idx)" "idx < m_num_sets (c_base c)"
    using splitAddress_ok [OF cb] by (auto simp: line_def)
  then have lt: "unat idx < length (m_sets c)" by (simp add: len word_less_nat_alt)
  then have "get_set c idx = Inr (m_sets c ! unat idx)"
    "set_wf policy_inv (m_cache_type c) (unat (m_associativity (c_base c))) (m_sets c ! unat idx)"
    using assms by (auto simp: get_set_def cache_wf_def)
  then show thesis using that idx lt by blast
qed

lemma peek_set_map:
  assumes "cache_wf c" and "splitAddress (c_base c) addr = Inr (tag, idx)"
  shows "peekSingleLine c addr = Inr (set_map (m_sets c ! unat idx) (line c addr))"
proof -
  obtain idx' where *: "splitAddress (c_base c) addr = Inr (line c addr, idx')"
    "get_set c idx' = Inr (m_sets c ! unat idx')" by (rule cache_split [OF assms(1)])
  have "line c addr \<noteq> NOT 0" using assms(1) line_not_invalid unfolding cache_wf_def by blast
  with * assms(2) show ?thesis
    by (auto simp: peekSingleLine_def set_map_def peekBlock_def [abs_def] map_option_case split: option.splits)
qed

lemma split_same_line:
  assumes "cache_wf c" and "splitAddress (c_base c) a = Inr (t, i)" and "splitAddress (c_base c) b = Inr (t', j)"
    and "line c a = line c b"
  shows "i = j"
  using splitAddress_tag_only [of "c_base c" a b] assms by (auto simp: cache_wf_def line_def)

lemma split_tag:
  assumes "cache_wf c" and "splitAddress (c_base c) a = Inr (t, i)"
  shows "t = line c a"
  using assms(2) cache_split [OF assms(1), of a] by (metis prod.inject sum.inject(2))

text \<open>Replacing one set by a well-formed one keeps the invariant, if its tags stay at home, and
  changes lookups in that set only.\<close>

lemma put_set_wf:
  assumes "cache_wf c" and "unat idx < length (m_sets c)"
    and "set_wf policy_inv (m_cache_type c) (unat (m_associativity (c_base c))) s"
    and "cs_blocksize s = m_blocksize (c_base c)"
    and "\<And>tag. set_map s tag \<noteq> None \<Longrightarrow> \<exists>addr. splitAddress (c_base c) addr = Inr (tag, idx)"
    and "c_base c' = c_base c" "m_cache_type c' = m_cache_type c" "m_sets c' = (m_sets c)[unat idx := s]"
  shows "cache_wf c'"
  using assms by (auto simp: cache_wf_def nth_list_update dest!: set_update_subset_insert [THEN subsetD])

lemma put_set_peek:
  assumes "cache_wf c" "cache_wf c'" and "unat idx < length (m_sets c)"
    and "c_base c' = c_base c" "m_sets c' = (m_sets c)[unat idx := s]"
    and "splitAddress (c_base c) b = Inr (tag, j)"
  shows "peekSingleLine c' b = (if j = idx then Inr (set_map s (line c b)) else peekSingleLine c b)"
proof -
  have "line c' b = line c b" by (simp add: line_def assms(4))
  moreover have "unat j = unat idx \<longleftrightarrow> j = idx" by (simp add: word_unat_eq_iff)
  ultimately show ?thesis
    using peek_set_map [OF assms(1,6)] peek_set_map [of c' b tag j] assms(2-6)
    by (auto simp: nth_list_update)
qed

section \<open>Lookups after each operation\<close>

lemma run_injector_postWrite:
  assumes "unat idx < length (m_sets c)"
  shows "run_injector postWrite c idx line_index offset bytes = Inr c"
proof -
  have "map_option (\<lambda>_. case m_blocks s of None \<Rightarrow> [] | Some mem \<Rightarrow> mem) (m_blocks s) = m_blocks s"
    for s :: "policy_state CacheSet" by (cases "m_blocks s") auto
  moreover have "put_set c idx (m_sets c ! unat idx) = c" by (simp add: put_set_def)
  ultimately show ?thesis
    using assms by (auto simp: run_injector_def postWrite_def get_set_def split: option.splits)
qed

lemma invalidateSingleLine_lookup:
  assumes wf: "cache_wf c"
  shows "\<exists>present c'. invalidateSingleLine c a = Inr (present, c') \<and> cache_wf c' \<and>
    (present \<longleftrightarrow> peekSingleLine c a \<noteq> Inr None) \<and>
    (\<forall>b. peekSingleLine c' b = (if line c b = line c a then Inr None else peekSingleLine c b))"
proof -
  obtain idx where idx: "splitAddress (c_base c) a = Inr (line c a, idx)" "unat idx < length (m_sets c)"
    and s: "get_set c idx = Inr (m_sets c ! unat idx)"
      "set_wf policy_inv (m_cache_type c) (unat (m_associativity (c_base c))) (m_sets c ! unat idx)"
    by (rule cache_split [OF wf])
  let ?s = "m_sets c ! unat idx"
  let ?s' = "snd (set_invalidate ?s (line c a))"
  have len: "length (m_sets c) = unat (m_num_sets (c_base c))" and valid: "line c a \<noteq> NOT 0"
    using wf line_not_invalid unfolding cache_wf_def by blast+
  note inv = policy.invalidate_ok [OF s(2) valid]
  define c' where "c' = put_set c idx ?s'"
  have run: "invalidateSingleLine c a = Inr (fst (set_invalidate ?s (line c a)), c')"
    using idx s(1) len by (simp add: invalidateSingleLine_def c'_def word_less_nat_alt)
  have wf': "cache_wf c'"
  proof (rule put_set_wf [OF wf idx(2), of ?s'])
    show "cs_blocksize ?s' = m_blocksize (c_base c)"
      using wf idx(2) by (auto simp: cache_wf_def set_invalidate_def split: option.split)
    show "\<exists>addr. splitAddress (c_base c) addr = Inr (tag, idx)" if "set_map ?s' tag \<noteq> None" for tag
      using that inv wf idx(2) by (auto simp: cache_wf_def split: if_splits dest!: spec [of _ "unat idx"])
  qed (use inv in \<open>simp_all add: c'_def put_set_def\<close>)
  have "peekSingleLine c' b = (if line c b = line c a then Inr None else peekSingleLine c b)" for b
  proof -
    obtain j where j: "splitAddress (c_base c) b = Inr (line c b, j)" by (rule cache_split [OF wf])
    have "line c b = line c a \<Longrightarrow> j = idx" using split_same_line [OF wf j idx(1)] by simp
    then show ?thesis
      using put_set_peek [OF wf wf' idx(2), of ?s', OF _ _ j] inv peek_set_map [OF wf j]
      by (auto simp: c'_def put_set_def)
  qed
  with run wf' inv peek_set_map [OF wf idx(1)] show ?thesis by auto
qed

text \<open>C13. Invalidation: in a well-formed cache \<^verbatim>\<open>invalidateSingleLine\<close> succeeds, reports whether the line was
  present, removes that line and no other, and keeps the cache well-formed.\<close>

theorem invalidateSingleLine_refines_map:
  assumes wf: "cache_wf c"
  shows "\<exists>present c'. invalidateSingleLine c a = Inr (present, c') \<and> cache_wf c' \<and>
    (present \<longleftrightarrow> peekSingleLine c a \<noteq> Inr None) \<and>
    (\<forall>b. peekSingleLine c' b = (if line c b = line c a then Inr None else peekSingleLine c b))"
  by (rule invalidateSingleLine_lookup [OF wf])

lemma tag_at_home:
  assumes "cache_wf c" and "i < length (m_sets c)" and "set_map (m_sets c ! i) t \<noteq> None"
  shows "splitAddress (c_base c) (tagToAddress (c_base c) t) = Inr (t, of_nat i) \<and> line c (tagToAddress (c_base c) t) = t"
proof -
  obtain x where x: "splitAddress (c_base c) x = Inr (t, of_nat i)" using assms unfolding cache_wf_def by blast
  have t: "t = line c x" using split_tag [OF assms(1) x] .
  then have ln: "line c (tagToAddress (c_base c) t) = t"
    unfolding tagToAddress_def line_def by (intro bit_word_eqI) (auto simp: bit_simps dest: bit_imp_le_length)
  obtain j where j: "splitAddress (c_base c) (tagToAddress (c_base c) t) = Inr (t, j)"
    by (rule cache_split [OF assms(1), of "tagToAddress (c_base c) t"]) (simp add: ln)
  then have "j = of_nat i" using split_same_line [OF assms(1) j x] ln t by simp
  then show ?thesis using j ln by simp
qed

lemma insertSingleLine_step:
  assumes wf: "cache_wf c" and ins: "insertSingleLine c a fill ev hb cntlr = Inr (out, evict_addr, c')"
    and fresh: "peekSingleLine c a = Inr None"
    and blk: "blk = (createBlock (m_cache_type c))\<lparr>m_tag := line c a\<rparr>"
  obtains idx s' where "splitAddress (c_base c) a = Inr (line c a, idx)" and "unat idx < length (m_sets c)"
    and "evict_addr = tagToAddress (c_base c) (m_tag (evict_block_info out))"
    and "c_base c' = c_base c" and "m_sets c' = (m_sets c)[unat idx := s']" and "cache_wf c'"
    and "if eviction out
     then \<exists>old. set_map (m_sets c ! unat idx) (m_tag old) = Some old \<and> evict_block_info out = clone ev old \<and>
            set_map s' = (set_map (m_sets c ! unat idx))(m_tag old := None, line c a \<mapsto> blk)
     else set_map s' = (set_map (m_sets c ! unat idx))(line c a \<mapsto> blk)"
proof -
  obtain idx where idx: "splitAddress (c_base c) a = Inr (line c a, idx)" "unat idx < length (m_sets c)"
    and s: "get_set c idx = Inr (m_sets c ! unat idx)"
      "set_wf policy_inv (m_cache_type c) (unat (m_associativity (c_base c))) (m_sets c ! unat idx)"
    by (rule cache_split [OF wf])
  let ?s = "m_sets c ! unat idx"
  have valid: "m_tag blk \<noteq> NOT 0" and tag: "m_tag blk = line c a"
    using wf line_not_invalid unfolding cache_wf_def blk by simp_all
  have ok: "block_ok (m_cache_type c) blk"
    using block_ok_create [of "m_cache_type c"] by (simp add: blk block_ok_def)
  obtain s' ctx' where set_ins: "set_insert getReplacementIndex cntlr ?s (c_ctx c) blk fill ev hb = Inr (out, s', ctx')"
    and addr: "evict_addr = tagToAddress (c_base c) (m_tag (evict_block_info out))"
    and c': "c' = (put_set c idx s')\<lparr>c_ctx := ctx'\<rparr>"
    using ins idx s(1)
    by (auto simp: insertSingleLine_def bindE_Inr_iff Let_def blk [symmetric] run_injector_postWrite put_set_def
        split: if_splits option.splits)
  have "set_map ?s (m_tag blk) = None" using fresh peek_set_map [OF wf idx(1)] tag by simp
  note step = policy.insert_ok [OF set_ins s(2) ok valid this]
  have "\<exists>addr. splitAddress (c_base c) addr = Inr (t, idx)" if "set_map s' t \<noteq> None" for t
    using that step tag_at_home [OF wf idx(2), of t] idx(1) tag by (auto split: if_splits)
  moreover have "cs_blocksize s' = m_blocksize (c_base c)"
    using set_ins by (rule set_insertE) (use wf idx(2) in \<open>auto simp: cache_wf_def\<close>)
  ultimately have "cache_wf c'"
    using step by (intro put_set_wf [OF wf idx(2), of s']) (simp_all add: c' put_set_def)
  with step show thesis
    by (intro that [OF idx addr, of s']) (auto simp: c' put_set_def tag split: if_splits)
qed

lemma insertSingleLine_lookup:
  assumes wf: "cache_wf c" and ins: "insertSingleLine c a fill ev hb cntlr = Inr (out, evict_addr, c')"
    and fresh: "peekSingleLine c a = Inr None"
  shows "cache_wf c' \<and>
    (eviction out \<longrightarrow> (\<exists>old. peekSingleLine c evict_addr = Inr (Some old) \<and> evict_block_info out = clone ev old)) \<and>
    (\<forall>b. peekSingleLine c' b =
       (if line c b = line c a then Inr (Some ((createBlock (m_cache_type c))\<lparr>m_tag := line c a\<rparr>))
        else if eviction out \<and> line c b = line c evict_addr then Inr None
        else peekSingleLine c b))"
proof -
  define blk where "blk = (createBlock (m_cache_type c))\<lparr>m_tag := line c a\<rparr>"
  obtain idx s' where idx: "splitAddress (c_base c) a = Inr (line c a, idx)" "unat idx < length (m_sets c)"
    and addr: "evict_addr = tagToAddress (c_base c) (m_tag (evict_block_info out))"
    and c': "c_base c' = c_base c" "m_sets c' = (m_sets c)[unat idx := s']" and wf': "cache_wf c'"
    and step: "if eviction out
     then \<exists>old. set_map (m_sets c ! unat idx) (m_tag old) = Some old \<and> evict_block_info out = clone ev old \<and>
            set_map s' = (set_map (m_sets c ! unat idx))(m_tag old := None, line c a \<mapsto> blk)
     else set_map s' = (set_map (m_sets c ! unat idx))(line c a \<mapsto> blk)"
    by (rule insertSingleLine_step [OF wf ins fresh blk_def])
  let ?s = "m_sets c ! unat idx"
  have evicted: "\<exists>old. m_tag old = line c evict_addr \<and> peekSingleLine c evict_addr = Inr (Some old) \<and>
      evict_block_info out = clone ev old \<and> splitAddress (c_base c) evict_addr = Inr (line c evict_addr, idx) \<and>
      set_map s' = (set_map ?s)(m_tag old := None, line c a \<mapsto> blk)" if ev: "eviction out"
  proof -
    obtain old where old: "set_map ?s (m_tag old) = Some old" "evict_block_info out = clone ev old"
      "set_map s' = (set_map ?s)(m_tag old := None, line c a \<mapsto> blk)" using step ev by auto
    have home: "splitAddress (c_base c) evict_addr = Inr (m_tag old, idx)" "line c evict_addr = m_tag old"
      using tag_at_home [OF wf idx(2), of "m_tag old"] old by (auto simp: addr)
    then show ?thesis using old peek_set_map [OF wf home(1)] by auto
  qed
  have "peekSingleLine c' b = (if line c b = line c a then Inr (Some blk)
        else if eviction out \<and> line c b = line c evict_addr then Inr None else peekSingleLine c b)" for b
  proof -
    obtain j where j: "splitAddress (c_base c) b = Inr (line c b, j)" by (rule cache_split [OF wf])
    have a: "line c b = line c a \<Longrightarrow> j = idx" using split_same_line [OF wf j idx(1)] by simp
    have e: "eviction out \<Longrightarrow> line c b = line c evict_addr \<Longrightarrow> j = idx"
      using evicted split_same_line [OF wf j] by metis
    note peek = put_set_peek [OF wf wf' idx(2) c' j] peek_set_map [OF wf j]
    show ?thesis
    proof (cases "eviction out")
      case True
      from evicted [OF this] a e peek show ?thesis by (auto simp: True)
    next
      case False
      with a peek step show ?thesis by auto
    qed
  qed
  then show ?thesis using wf' evicted by (auto simp: blk_def)
qed

text \<open>C12. Insertion: when \<^verbatim>\<open>insertSingleLine\<close> of an absent line returns, the cache is well-formed, the line is present with a
  fresh block, and every other line is as before, but for the evicted one, which was present, which is handed to the
  caller together with its address, and which is gone.\<close>

theorem insertSingleLine_refines_map:
  assumes wf: "cache_wf c" and ins: "insertSingleLine c a fill ev hb cntlr = Inr (out, evict_addr, c')"
    and fresh: "peekSingleLine c a = Inr None"
  shows "cache_wf c' \<and>
    (eviction out \<longrightarrow> (\<exists>old. peekSingleLine c evict_addr = Inr (Some old) \<and> evict_block_info out = clone ev old)) \<and>
    (\<forall>b. peekSingleLine c' b =
       (if line c b = line c a then Inr (Some ((createBlock (m_cache_type c))\<lparr>m_tag := line c a\<rparr>))
        else if eviction out \<and> line c b = line c evict_addr then Inr None
        else peekSingleLine c b))"
  by (rule insertSingleLine_lookup [OF assms])

section \<open>A constructed cache\<close>

lemma mapE_Inr:
  "mapE f xs = Inr ys \<Longrightarrow> length ys = length xs \<and> (\<forall>i<length xs. f (xs ! i) = Inr (ys ! i))"
  by (induction xs arbitrary: ys) (auto simp: bindE_Inr_iff nth_Cons split: nat.split)

lemma mk_Cache_ok:
  assumes c: "mk_Cache cfg name num_sets assoc bsz pol ctype hash fi ahl = Inr c"
    and cb: "num_sets \<noteq> 0" "hash \<noteq> INVALID_HASH_TYPE" "unat bsz = 2 ^ k"
      "\<forall>l. ahl = Some l \<longrightarrow> ahl_wf l \<and> k \<le> unat (m_ahl_param l)"
    and "0 < k" "0 < unat assoc" "unat assoc \<le> 256" "unat assoc * unat bsz < 2 ^ 32"
  shows "cache_wf c" and "peekSingleLine c a = Inr None"
proof -
  from c obtain base sets where base: "mk_CacheBase name num_sets assoc bsz hash ahl = Inr base"
    and sets: "mapE (\<lambda>i. createCacheSet cfg pol ctype (unat assoc) bsz) [0..<unat num_sets] = Inr sets"
    and c': "c_base c = base" "m_cache_type c = ctype" "m_sets c = sets"
    by (auto simp: mk_Cache_def bindE_Inr_iff)
  have fields: "m_num_sets base = num_sets" "m_associativity base = assoc" "m_blocksize base = bsz"
    using base by (auto simp: mk_CacheBase_def bindE_Inr_iff)
  have bwf: "cb_wf base" "unat (m_log_blocksize base) = k" using mk_CacheBase_wf [OF base cb] by auto
  have len: "length sets = unat num_sets" using mapE_Inr [OF sets] by simp
  have "createCacheSet cfg pol ctype (unat assoc) bsz = Inr (sets ! i)" if "i < unat num_sets" for i
    using mapE_Inr [OF sets] that by simp
  then have set: "set_wf policy_inv ctype (unat assoc) (sets ! i) \<and> set_map (sets ! i) = (\<lambda>_. None) \<and>
      cs_blocksize (sets ! i) = bsz" if "i < unat num_sets" for i
    using createCacheSet_wf [OF _ assms(7-9)] createCacheSet_cases [OF _ assms(7,8)] that
    by (metis mk_CacheSet_def CacheSet.select_convs(3))
  show wf: "cache_wf c"
    using bwf set len assms(6) by (auto simp: cache_wf_def c' fields in_set_conv_nth)
  obtain idx where "splitAddress (c_base c) a = Inr (line c a, idx)" "unat idx < length (m_sets c)"
    by (rule cache_split [OF wf])
  with peek_set_map [OF wf this(1)] set len show "peekSingleLine c a = Inr None" by (simp add: c')
qed

text \<open>A two-set LRU cache on which the theorems are instantiated.\<close>

definition demo_cfg :: CacheCfg where
  "demo_cfg = \<lparr>cfg_qbs_attempts = 1, cfg_srrip_bits = 2, cfg_time = 0, cfg_fault_injection = True\<rparr>"

definition demo_set :: "policy_state CacheSet" where
  "demo_set = mk_CacheSet True PR_L1_CACHE 2 16 (CacheSetLRU (mk_LRU 2 1))"

definition demo_cache :: Cache where
  "demo_cache =
     \<lparr>c_base = \<lparr>m_name = ''L1-D'', m_cache_size = 64, m_associativity = 2, m_blocksize = 16,
       m_hash = HASH_MASK, m_num_sets = 2, m_ahl = None, m_log_blocksize = 4\<rparr>,
      m_enabled = False, m_num_accesses = 0, m_num_hits = 0, m_cache_type = PR_L1_CACHE,
      m_sets = [demo_set, demo_set],
      c_ctx = \<lparr>m_set_info = Some (mk_CacheSetInfoLRU 2 1), qbs_lookup_cost = 0\<rparr>, m_fault_injector = None\<rparr>"

lemma demo_cache_mk: "mk_Cache demo_cfg ''L1-D'' 2 2 16 ''lru'' PR_L1_CACHE HASH_MASK None None = Inr demo_cache"
proof -
  have "floorLog2 2 = int 1" "floorLog2 16 = int 4" by (rule floorLog2_unique; simp)+
  moreover have "[0..<2] = [0, 1 :: nat]" by (simp add: upt_rec)
  ultimately show ?thesis
    by (simp add: demo_cache_def demo_set_def mk_Cache_def mk_CacheBase_def createCacheSetInfo_def createCacheSet_def
        parsePolicyType_def getNumQBSAttempts_def demo_cfg_def)
qed

lemma demo_split: "splitAddress (c_base demo_cache) a = Inr (drop_bit 4 a, ucast (drop_bit 4 a AND 1))"
  by (simp add: splitAddress_def demo_cache_def)

lemma demo_cache_ok: "cache_wf demo_cache" "peekSingleLine demo_cache a = Inr None"
  using mk_Cache_ok [OF demo_cache_mk, of 4] by simp_all

theorem invalidateSingleLine_refines_map_witness:
  "\<exists>present c'. invalidateSingleLine demo_cache 0x40 = Inr (present, c') \<and> cache_wf c' \<and>
    (present \<longleftrightarrow> peekSingleLine demo_cache 0x40 \<noteq> Inr None) \<and>
    (\<forall>b. peekSingleLine c' b = (if line demo_cache b = line demo_cache 0x40 then Inr None else peekSingleLine demo_cache b))"
  by (rule invalidateSingleLine_refines_map [OF demo_cache_ok(1)])

lemma insertSingleLine_fills:
  assumes wf: "cache_wf c" and idx: "splitAddress (c_base c) a = Inr (tag, idx)"
    and rr: "\<forall>r. cs_policy (m_sets c ! unat idx) \<noteq> CacheSetRoundRobin r"
    and way: "i < unat (m_associativity (c_base c))" "\<not> isValid (cs_blocks (m_sets c ! unat idx) ! i)"
    and fresh: "peekSingleLine c a = Inr None"
    and fill: "\<forall>buff. fill = Some buff \<longrightarrow> unat (m_blocksize (c_base c)) \<le> length buff"
  shows "\<exists>out evict_addr c'. insertSingleLine c a fill ev hb cntlr = Inr (out, evict_addr, c') \<and> \<not> eviction out"
proof -
  let ?s = "m_sets c ! unat idx"
  obtain idx' where "splitAddress (c_base c) a = Inr (line c a, idx')" "unat idx' < length (m_sets c)"
    "get_set c idx' = Inr (m_sets c ! unat idx')"
    "set_wf policy_inv (m_cache_type c) (unat (m_associativity (c_base c))) (m_sets c ! unat idx')"
    by (rule cache_split [OF wf])
  with idx have s: "tag = line c a" "unat idx < length (m_sets c)" "get_set c idx = Inr ?s"
    "set_wf policy_inv (m_cache_type c) (unat (m_associativity (c_base c))) ?s" by auto
  then have pre: "set_wf invalid_first_inv (m_cache_type c) (unat (m_associativity (c_base c))) ?s"
    "\<forall>buff. fill = Some buff \<longrightarrow> unat (cs_blocksize ?s) \<le> length buff"
    using rr wf fill by (auto simp: set_wf_def invalid_first_inv_def cache_wf_def)
  define blk where "blk = (createBlock (m_cache_type c))\<lparr>m_tag := line c a\<rparr>"
  have valid: "m_tag blk \<noteq> NOT 0" and tag: "m_tag blk = line c a"
    using wf line_not_invalid unfolding cache_wf_def blk_def by simp_all
  have ok: "block_ok (m_cache_type c) blk"
    using block_ok_create [of "m_cache_type c"] by (simp add: blk_def block_ok_def)
  obtain out s' where ins: "set_insert getReplacementIndex cntlr ?s (c_ctx c) blk fill ev hb = Inr (out, s', c_ctx c)"
    and no: "\<not> eviction out" using filling.insert_no_eviction [OF pre(1) way pre(2)] by blast
  have "set_map ?s (m_tag blk) = None" using fresh peek_set_map [OF wf idx] tag by simp
  from policy.insert_ok [OF ins s(4) ok valid this] no have "set_map s' (line c a) = Some blk" by (simp add: tag)
  then have "set_find s' (line c a) \<noteq> None" by (auto simp: set_map_def split: if_splits)
  then show ?thesis
    using ins no idx s
    by (auto simp: insertSingleLine_def Let_def blk_def [symmetric] run_injector_postWrite put_set_def)
qed

text \<open>Insertion into a set with an empty way: under every policy but round robin, \<^verbatim>\<open>insertSingleLine\<close> of an
  absent line succeeds without evicting anything, the new line is present and every other line is as before.\<close>

theorem insertSingleLine_without_eviction:
  assumes wf: "cache_wf c" and "splitAddress (c_base c) a = Inr (tag, idx)"
    and "\<forall>r. cs_policy (m_sets c ! unat idx) \<noteq> CacheSetRoundRobin r"
    and "i < unat (m_associativity (c_base c))" and "\<not> isValid (cs_blocks (m_sets c ! unat idx) ! i)"
    and fresh: "peekSingleLine c a = Inr None"
    and "\<forall>buff. fill = Some buff \<longrightarrow> unat (m_blocksize (c_base c)) \<le> length buff"
  shows "\<exists>out evict_addr c'. insertSingleLine c a fill ev hb cntlr = Inr (out, evict_addr, c') \<and> \<not> eviction out \<and>
    (\<forall>b. peekSingleLine c' b =
       (if line c b = line c a then Inr (Some ((createBlock (m_cache_type c))\<lparr>m_tag := line c a\<rparr>)) else peekSingleLine c b))"
proof -
  obtain out evict_addr c' where ins: "insertSingleLine c a fill ev hb cntlr = Inr (out, evict_addr, c')"
    and no: "\<not> eviction out" using insertSingleLine_fills [OF assms] by blast
  from insertSingleLine_lookup [OF wf ins fresh] no ins show ?thesis by auto
qed

lemma demo_pre:
  "\<forall>r. cs_policy (m_sets demo_cache ! unat (ucast (drop_bit 4 (0x40 :: 64 word) AND 1) :: UInt32)) \<noteq> CacheSetRoundRobin r"
  "\<not> isValid (cs_blocks (m_sets demo_cache ! unat (ucast (drop_bit 4 (0x40 :: 64 word) AND 1) :: UInt32)) ! 0)"
  "0 < unat (m_associativity (c_base demo_cache))"
  by (simp_all add: demo_cache_def demo_set_def mk_CacheSet_def)

theorem insertSingleLine_without_eviction_witness:
  "\<exists>out evict_addr c'. insertSingleLine demo_cache 0x40 None (createBlock PR_L1_CACHE) False None = Inr (out, evict_addr, c') \<and>
    \<not> eviction out \<and>
    (\<forall>b. peekSingleLine c' b = (if line demo_cache b = line demo_cache 0x40
       then Inr (Some ((createBlock (m_cache_type demo_cache))\<lparr>m_tag := line demo_cache 0x40\<rparr>)) else peekSingleLine demo_cache b))"
  by (rule insertSingleLine_without_eviction [OF demo_cache_ok(1) demo_split demo_pre(1,3,2) demo_cache_ok(2)]) simp

theorem insertSingleLine_refines_map_witness:
  "\<exists>out evict_addr c'. insertSingleLine demo_cache 0x40 None (createBlock PR_L1_CACHE) False None = Inr (out, evict_addr, c') \<and>
    cache_wf c' \<and> peekSingleLine c' 0x40 = Inr (Some ((createBlock (m_cache_type demo_cache))\<lparr>m_tag := line demo_cache 0x40\<rparr>))"
proof -
  obtain out evict_addr c' where
    ins: "insertSingleLine demo_cache 0x40 None (createBlock PR_L1_CACHE) False None = Inr (out, evict_addr, c')"
    using insertSingleLine_fills [OF demo_cache_ok(1) demo_split demo_pre(1,3,2) demo_cache_ok(2)] by (metis option.distinct(1))
  from insertSingleLine_refines_map [OF demo_cache_ok(1) ins demo_cache_ok(2)] ins show ?thesis by auto
qed

section \<open>Accesses\<close>

lemma preRead_length: "preRead fi n mem pos = Inr (fi', mem') \<Longrightarrow> length mem' = length mem"
  by (auto simp: preRead_def Let_def split: FaultInjector.splits if_splits prod.splits)

text \<open>A set that differs in its data or its policy state only.\<close>

lemma put_set_same_blocks:
  fixes idx :: UInt32
  assumes wf: "cache_wf c" and idx: "unat idx < length (m_sets c)"
    and s: "set_wf policy_inv (m_cache_type c) (unat (m_associativity (c_base c))) s"
      "cs_blocksize s = m_blocksize (c_base c)" "set_map s = set_map (m_sets c ! unat idx)"
    and c': "c_base c' = c_base c" "m_cache_type c' = m_cache_type c" "m_sets c' = (m_sets c)[unat idx := s]"
  shows "cache_wf c' \<and> (\<forall>b. peekSingleLine c' b = peekSingleLine c b)"
proof (intro conjI allI)
  show wf': "cache_wf c'"
    by (rule put_set_wf [OF wf idx s(1,2)]) (use tag_at_home [OF wf idx] s(3) c' in auto)
  fix b
  obtain j where j: "splitAddress (c_base c) b = Inr (line c b, j)" by (rule cache_split [OF wf])
  show "peekSingleLine c' b = peekSingleLine c b"
    using put_set_peek [OF wf wf' idx c'(1,3) j] peek_set_map [OF wf j] s(3) by simp
qed

lemma run_injector_preRead:
  assumes wf: "cache_wf c" and idx: "unat idx < length (m_sets c)"
    and run: "run_injector preRead c idx line_index offset bytes = Inr c'"
  shows "cache_wf c' \<and> (\<forall>b. peekSingleLine c' b = peekSingleLine c b) \<and> c_base c' = c_base c \<and>
    m_cache_type c' = m_cache_type c \<and> length (m_sets c') = length (m_sets c) \<and>
    cs_blocks (m_sets c' ! unat idx) = cs_blocks (m_sets c ! unat idx)"
proof (cases "m_fault_injector c")
  case None
  then show ?thesis using run wf by (simp add: run_injector_def)
next
  case (Some fi)
  let ?s = "m_sets c ! unat idx"
  obtain fi' mem where hook: "preRead fi bytes (case m_blocks ?s of Some mem \<Rightarrow> mem | None \<Rightarrow> [])
      (line_pos ?s line_index offset) = Inr (fi', mem)"
    and c': "c' = (put_set c idx (?s\<lparr>m_blocks := map_option (\<lambda>_. mem) (m_blocks ?s)\<rparr>))\<lparr>m_fault_injector := Some fi'\<rparr>"
    using run Some idx by (auto simp: run_injector_def get_set_def bindE_Inr_iff)
  let ?s' = "?s\<lparr>m_blocks := map_option (\<lambda>_. mem) (m_blocks ?s)\<rparr>"
  have "set_wf policy_inv (m_cache_type c) (unat (m_associativity (c_base c))) ?s \<and> cs_blocksize ?s = m_blocksize (c_base c)"
    using wf idx by (auto simp: cache_wf_def)
  then have "set_wf policy_inv (m_cache_type c) (unat (m_associativity (c_base c))) ?s'"
    "cs_blocksize ?s' = m_blocksize (c_base c)"
    using preRead_length [OF hook] by (auto simp: set_wf_def)
  moreover have "set_map ?s' = set_map ?s" by (rule set_map_cong) simp
  ultimately show ?thesis
    using put_set_same_blocks [OF wf idx, of ?s' c'] idx by (simp add: c' put_set_def)
qed

lemma read_line_step:
  assumes wf: "cache_wf c" and idx: "unat idx < length (m_sets c)"
    and way: "way < unat (m_associativity (c_base c))"
    and read: "read_line updateReplacementIndex (m_sets c ! unat idx) (c_ctx c) way off hb bytes u = Inr (out, s, ctx)"
  shows "cache_wf ((put_set c idx s)\<lparr>c_ctx := ctx\<rparr>) \<and>
    (\<forall>b. peekSingleLine ((put_set c idx s)\<lparr>c_ctx := ctx\<rparr>) b = peekSingleLine c b) \<and>
    cs_blocks s = cs_blocks (m_sets c ! unat idx)"
proof -
  let ?s = "m_sets c ! unat idx"
  have s: "set_wf policy_inv (m_cache_type c) (unat (m_associativity (c_base c))) ?s"
    "cs_blocksize ?s = m_blocksize (c_base c)" using wf idx by (auto simp: cache_wf_def)
  have fields: "cs_blocks s = cs_blocks ?s" "cs_blocksize s = cs_blocksize ?s"
    using read by (auto simp: read_line_def bindE_Inr_iff split: if_splits)
  with policy.read_line_ok [OF read s(1) way] s show ?thesis
    using put_set_same_blocks [OF wf idx, of s "(put_set c idx s)\<lparr>c_ctx := ctx\<rparr>"] by (simp add: put_set_def)
qed

lemma write_line_step:
  assumes wf: "cache_wf c" and idx: "unat idx < length (m_sets c)"
    and way: "way < unat (m_associativity (c_base c))"
    and wr: "write_line updateReplacementIndex (m_sets c ! unat idx) (c_ctx c) way off buff bytes u = Inr (s, ctx)"
  shows "cache_wf ((put_set c idx s)\<lparr>c_ctx := ctx\<rparr>) \<and>
    (\<forall>b. peekSingleLine ((put_set c idx s)\<lparr>c_ctx := ctx\<rparr>) b = peekSingleLine c b) \<and>
    cs_blocks s = cs_blocks (m_sets c ! unat idx)"
proof -
  let ?s = "m_sets c ! unat idx"
  have s: "set_wf policy_inv (m_cache_type c) (unat (m_associativity (c_base c))) ?s"
    "cs_blocksize ?s = m_blocksize (c_base c)" using wf idx by (auto simp: cache_wf_def)
  have fields: "cs_blocks s = cs_blocks ?s" "cs_blocksize s = cs_blocksize ?s"
    using wr by (auto simp: write_line_def bindE_Inr_iff Let_def split: if_splits)
  with policy.write_line_ok [OF wr s(1) way] s show ?thesis
    using put_set_same_blocks [OF wf idx, of s "(put_set c idx s)\<lparr>c_ctx := ctx\<rparr>"] by (simp add: put_set_def)
qed

lemma accessSingleLine_map:
  assumes wf: "cache_wf c" and acc: "accessSingleLine c a t buff bytes u = Inr (found, out, c')"
  shows "cache_wf c' \<and> peekSingleLine c a = Inr found \<and> (\<forall>b. peekSingleLine c' b = peekSingleLine c b) \<and>
    (found = None \<longrightarrow> c' = c)"
proof -
  obtain idx where idx: "splitAddress (c_base c) a = Inr (line c a, idx)" "unat idx < length (m_sets c)"
    and s: "get_set c idx = Inr (m_sets c ! unat idx)"
      "set_wf policy_inv (m_cache_type c) (unat (m_associativity (c_base c))) (m_sets c ! unat idx)"
    by (rule cache_split [OF wf])
  let ?s = "m_sets c ! unat idx"
  note simps = accessSingleLine_def splitAddress_offset_def bindE_Inr_iff Let_def idx(1) s(1)
  show ?thesis
  proof (cases "set_find ?s (line c a)")
    case None
    then show ?thesis using acc wf idx(1) s(1) by (auto simp: simps peekSingleLine_def)
  next
    case (Some way)
    have way: "way < unat (m_associativity (c_base c))" using set_find_SomeD [OF Some] s(2) by (auto simp: set_wf_def)
    have peek: "peekSingleLine c a = Inr (Some (cs_blocks ?s ! way))"
      using Some idx(1) s(1) by (simp add: peekSingleLine_def peekBlock_def)
    show ?thesis
    proof (cases "t = LOAD")
      case True
      then obtain off c1 s1 ctx where pre: "run_injector preRead c idx way off bytes = Inr c1"
        and read: "read_line updateReplacementIndex (m_sets c1 ! unat idx) (c_ctx c1) way off (buff \<noteq> None) bytes u = Inr (out, s1, ctx)"
        and c': "c' = (put_set c1 idx s1)\<lparr>c_ctx := ctx\<rparr>" and found: "found = Some (peekBlock s1 way)"
        using acc Some idx(2) by (auto simp: simps get_set_def split: if_splits)
      note c1 = run_injector_preRead [OF wf idx(2) pre]
      then show ?thesis
        using read_line_step [OF _ _ _ read] idx(2) way found peek by (simp add: c' peekBlock_def)
    next
      case False
      then obtain off s1 ctx where wr: "write_line updateReplacementIndex ?s (c_ctx c) way off buff bytes u = Inr (s1, ctx)"
        and c': "c' = (put_set c idx s1)\<lparr>c_ctx := ctx\<rparr>" and found: "found = Some (peekBlock s1 way)"
        using acc Some idx(2) by (auto simp: simps run_injector_postWrite put_set_def split: if_splits)
      then show ?thesis
        using write_line_step [OF wf idx(2) way wr] peek by (simp add: peekBlock_def)
    qed
  qed
qed

text \<open>C18. Access: when \<^verbatim>\<open>accessSingleLine\<close> returns, it has found the block that \<^verbatim>\<open>peekSingleLine\<close> finds, the
  contents of the cache are unchanged as a map from lines to blocks, the cache is well-formed, and a miss changes no
  state at all.\<close>

theorem accessSingleLine_keeps_map:
  assumes wf: "cache_wf c" and acc: "accessSingleLine c a t buff bytes u = Inr (found, out, c')"
  shows "cache_wf c' \<and> peekSingleLine c a = Inr found \<and> (\<forall>b. peekSingleLine c' b = peekSingleLine c b) \<and>
    (found = None \<longrightarrow> c' = c)"
  by (rule accessSingleLine_map [OF assms])

theorem accessSingleLine_keeps_map_witness:
  "\<exists>found out c'. accessSingleLine demo_cache 0x40 LOAD None 4 True = Inr (found, out, c') \<and>
    cache_wf c' \<and> peekSingleLine demo_cache 0x40 = Inr found \<and>
    (\<forall>b. peekSingleLine c' b = peekSingleLine demo_cache b) \<and> (found = None \<longrightarrow> c' = demo_cache)"
proof -
  have "accessSingleLine demo_cache 0x40 LOAD None 4 True = Inr (None, None, demo_cache)"
    using demo_cache_ok(2) [of "0x40"] unfolding peekSingleLine_def accessSingleLine_def splitAddress_offset_def demo_split
    by (auto simp: Let_def bindE_Inr_iff)
  from accessSingleLine_keeps_map [OF demo_cache_ok(1) this] this show ?thesis by blast
qed

end
