(* ===== verification/LS_Directory.thy ===== *)
theory LS_Directory
  imports LS_Cache_Base
begin

unbundle bit_operations_syntax

text \<open>
  Directory entries and the directory that allocates them
  (\<^verbatim>\<open>common/core/memory_subsystem/directory_schemes/\<close>): the sharer sets, the two entry classes
  \<^verbatim>\<open>DirectoryEntryLimitedNoBroadcast\<close> and \<^verbatim>\<open>DirectoryEntryLimitless\<close>, and \<^verbatim>\<open>Directory\<close>.
  The contract of an entry is the locale \<open>directory_entry\<close>, stated on the abstract set of sharers.
\<close>

section \<open>Directory entries\<close>

datatype dstate_t = DIR_UNCACHED | DIR_SHARED | DIR_OWNED | DIR_MODIFIED | DIR_EXCLUSIVE

text \<open>The subclass with its own fields: the random generator, or the software trap.\<close>

datatype entry_class =
    LimitedNoBroadcast UInt32
  | Limitless bool UInt64

record DirectoryEntry =
  m_address :: IntPtr
  m_dstate :: dstate_t
  m_owner_id :: core_id_t
  m_forwarder_id :: core_id_t
  m_sharers :: "bool list"
  m_class :: entry_class

text \<open>
  The constructor leaves \<^verbatim>\<open>m_forwarder_id\<close> unset: its value is the argument \<open>junk\<close>. \<open>width\<close> is the
  size of the sharer container.
\<close>

definition mk_DirectoryEntry :: "core_id_t \<Rightarrow> nat \<Rightarrow> entry_class \<Rightarrow> DirectoryEntry" where
  "mk_DirectoryEntry junk width cls =
     \<lparr>m_address = INVALID_ADDRESS, m_dstate = DIR_UNCACHED, m_owner_id = INVALID_CORE_ID,
      m_forwarder_id = junk, m_sharers = replicate width False, m_class = cls\<rparr>"

text \<open>\<^verbatim>\<open>m_sharers[sharer_id]\<close>; outside the container the source has no check.\<close>

definition sharer_at :: "DirectoryEntry \<Rightarrow> core_id_t \<Rightarrow> bool res" where
  "sharer_at e sharer_id =
     (if 0 \<le> sharer_id \<and> nat sharer_id < length (m_sharers e)
      then Inr (m_sharers e ! nat sharer_id) else Inl OutOfRange)"

definition put_sharer :: "DirectoryEntry \<Rightarrow> core_id_t \<Rightarrow> bool \<Rightarrow> DirectoryEntry" where
  "put_sharer e sharer_id b = e\<lparr>m_sharers := (m_sharers e)[nat sharer_id := b]\<rparr>"

definition sharers_count :: "bool list \<Rightarrow> UInt32" where
  "sharers_count bits =
     fold (\<lambda>j num_sharers. if bits ! j then num_sharers + 1 else num_sharers) [0..<length bits] 0"

definition getNumSharers :: "DirectoryEntry \<Rightarrow> UInt32" where
  "getNumSharers e = sharers_count (m_sharers e)"

definition getSharersList :: "DirectoryEntry \<Rightarrow> bool \<times> core_id_t list" where
  "getSharersList e =
     (False, fold (\<lambda>j sharers. if m_sharers e ! j then sharers @ [int j] else sharers) [0..<length (m_sharers e)] [])"

definition hasSharer :: "DirectoryEntry \<Rightarrow> core_id_t \<Rightarrow> bool res" where
  "hasSharer e sharer_id = sharer_at e sharer_id"

definition addSharer :: "DirectoryEntry \<Rightarrow> core_id_t \<Rightarrow> UInt32 \<Rightarrow> (bool \<times> DirectoryEntry) res" where
  "addSharer e sharer_id max_hw_sharers =
     bindE (sharer_at e sharer_id)
     (\<lambda>present. bindE (assertE (\<not> present) (AssertError ''! m_sharers[sharer_id]''))
     (\<lambda>_. case m_class e of
        LimitedNoBroadcast seed \<Rightarrow>
          (if getNumSharers e \<ge> max_hw_sharers then Inr (False, e)
           else Inr (True, put_sharer e sharer_id True))
      | Limitless trap penalty \<Rightarrow>
          let e = (if of_nat (length (m_sharers e)) = max_hw_sharers then e\<lparr>m_class := Limitless True penalty\<rparr> else e)
          in Inr (True, put_sharer e sharer_id True)))"

definition removeSharer :: "DirectoryEntry \<Rightarrow> core_id_t \<Rightarrow> bool \<Rightarrow> DirectoryEntry res" where
  "removeSharer e sharer_id reply_expected =
     bindE (assertE (\<not> reply_expected) (AssertError ''!reply_expected''))
     (\<lambda>_. bindE (sharer_at e sharer_id)
     (\<lambda>present. bindE (assertE present (AssertError ''m_sharers[sharer_id]''))
     (\<lambda>_. Inr (put_sharer e sharer_id False))))"

definition setOwner :: "DirectoryEntry \<Rightarrow> core_id_t \<Rightarrow> DirectoryEntry res" where
  "setOwner e owner_id =
     bindE (if owner_id \<noteq> INVALID_CORE_ID
            then bindE (sharer_at e owner_id) (\<lambda>present. assertE present (AssertError ''m_sharers[owner_id]''))
            else Inr ())
     (\<lambda>_. Inr (e\<lparr>m_owner_id := owner_id\<rparr>))"

definition getOneSharer :: "DirectoryEntry \<Rightarrow> (core_id_t \<times> DirectoryEntry) res" where
  "getOneSharer e =
     (case m_class e of
        LimitedNoBroadcast seed \<Rightarrow>
          let (all, sharers) = getSharersList e in
          bindE (assertE (\<not> all) (AssertError ''!sharers_list.first''))
          (\<lambda>_. bindE (assertE (length sharers > 0) (AssertError ''sharers_list.second.size() > 0''))
          (\<lambda>_. let (index, seed) = random_next seed (of_nat (length sharers))
               in Inr (sharers ! unat index, e\<lparr>m_class := LimitedNoBroadcast seed\<rparr>)))
      | Limitless trap penalty \<Rightarrow>
          (case List.find (\<lambda>j. m_sharers e ! j) [0..<length (m_sharers e)] of
             Some j \<Rightarrow> Inr (int j, e)
           | None \<Rightarrow> Inl (AssertError ''sharer_id != -1'')))"

definition entry_getLatency :: "DirectoryEntry \<Rightarrow> UInt64" where
  "entry_getLatency e =
     (case m_class e of
        LimitedNoBroadcast seed \<Rightarrow> 0
      | Limitless trap penalty \<Rightarrow> if trap then penalty else 0)"

section \<open>The directory\<close>

datatype DirectoryType = FULL_MAP | LIMITED_NO_BROADCAST | LIMITLESS

record Directory =
  m_directory_type :: DirectoryType
  m_num_entries :: UInt32
  m_num_entries_allocated :: UInt64
  m_max_hw_sharers :: UInt32
  m_use_max_hw_sharers :: UInt32
  m_max_num_sharers :: UInt32
  m_limitless_software_trap_penalty :: UInt64
  m_directory_entry_list :: "DirectoryEntry option list"
  m_junk_forwarder :: core_id_t

definition parseDirectoryType :: "string \<Rightarrow> DirectoryType res" where
  "parseDirectoryType directory_type_str =
     (if directory_type_str = ''full_map'' then Inr FULL_MAP
      else if directory_type_str = ''limited_no_broadcast'' then Inr LIMITED_NO_BROADCAST
      else if directory_type_str = ''limitless'' then Inr LIMITLESS
      else Inl (LogError ''Unsupported Directory Type: %s''))"

definition mk_Directory :: "string \<Rightarrow> UInt32 \<Rightarrow> UInt32 \<Rightarrow> UInt32 \<Rightarrow> UInt64 \<Rightarrow> core_id_t \<Rightarrow> Directory res" where
  "mk_Directory directory_type_str num_entries max_hw_sharers max_num_sharers trap_penalty junk =
     bindE (parseDirectoryType directory_type_str)
     (\<lambda>ty. Inr \<lparr>m_directory_type = ty, m_num_entries = num_entries, m_num_entries_allocated = 0,
                 m_max_hw_sharers = max_hw_sharers, m_use_max_hw_sharers = max_hw_sharers,
                 m_max_num_sharers = max_num_sharers,
                 m_limitless_software_trap_penalty = (if ty = LIMITLESS then trap_penalty else 0),
                 m_directory_entry_list = replicate (unat num_entries) None, m_junk_forwarder = junk\<rparr>)"

text \<open>The container chosen for a number of sharers: a bitset of one of four sizes, or a vector.\<close>

definition sharers_width :: "UInt32 \<Rightarrow> nat" where
  "sharers_width max_num_sharers =
     (if max_num_sharers \<le> 64 then 64
      else if max_num_sharers \<le> 128 then 128
      else if max_num_sharers \<le> 256 then 256
      else if max_num_sharers \<le> 1024 then 1024
      else unat max_num_sharers)"

definition createDirectoryEntry :: "Directory \<Rightarrow> DirectoryEntry \<times> Directory" where
  "createDirectoryEntry d =
     (let mk = mk_DirectoryEntry (m_junk_forwarder d) (sharers_width (m_max_num_sharers d)) in
      case m_directory_type d of
        FULL_MAP \<Rightarrow> (mk (LimitedNoBroadcast 1), d\<lparr>m_use_max_hw_sharers := m_max_num_sharers d\<rparr>)
      | LIMITED_NO_BROADCAST \<Rightarrow> (mk (LimitedNoBroadcast 1), d)
      | LIMITLESS \<Rightarrow> (mk (Limitless False (m_limitless_software_trap_penalty d)), d))"

definition dir_getDirectoryEntry :: "Directory \<Rightarrow> UInt32 \<Rightarrow> (DirectoryEntry \<times> Directory) res" where
  "dir_getDirectoryEntry d entry_num =
     bindE (assertE (entry_num < m_num_entries d) (LogError ''Invalid entry_num(%d) >= num_entries(%d)''))
     (\<lambda>_. case m_directory_entry_list d ! unat entry_num of
        None \<Rightarrow>
          let (e, d) = createDirectoryEntry d in
          Inr (e, d\<lparr>m_directory_entry_list := (m_directory_entry_list d)[unat entry_num := Some e],
                    m_num_entries_allocated := m_num_entries_allocated d + 1\<rparr>)
      | Some e \<Rightarrow> Inr (e, d))"

definition setDirectoryEntry :: "Directory \<Rightarrow> UInt32 \<Rightarrow> DirectoryEntry \<Rightarrow> Directory" where
  "setDirectoryEntry d entry_num e = d\<lparr>m_directory_entry_list := (m_directory_entry_list d)[unat entry_num := Some e]\<rparr>"

section \<open>Entries as sets of sharers\<close>

definition sharer_set :: "DirectoryEntry \<Rightarrow> core_id_t set" where
  "sharer_set e = {c. 0 \<le> c \<and> nat c < length (m_sharers e) \<and> m_sharers e ! nat c}"

lemma sharer_at_iff: "sharer_at e c = Inr b \<longleftrightarrow> 0 \<le> c \<and> nat c < length (m_sharers e) \<and> b = (c \<in> sharer_set e)"
  by (auto simp: sharer_at_def sharer_set_def)

lemma put_sharer_set:
  "0 \<le> c \<Longrightarrow> nat c < length (m_sharers e) \<Longrightarrow>
    sharer_set (put_sharer e c b) = (if b then insert c (sharer_set e) else sharer_set e - {c})"
  by (auto simp: sharer_set_def put_sharer_def nth_list_update)

lemma put_sharer_fields [simp]:
  "m_address (put_sharer e c b) = m_address e" "m_dstate (put_sharer e c b) = m_dstate e"
  "m_owner_id (put_sharer e c b) = m_owner_id e" "m_class (put_sharer e c b) = m_class e"
  "m_forwarder_id (put_sharer e c b) = m_forwarder_id e"
  "length (m_sharers (put_sharer e c b)) = length (m_sharers e)"
  by (simp_all add: put_sharer_def)

lemma sharer_set_image: "sharer_set e = int ` {j. j < length (m_sharers e) \<and> m_sharers e ! j}"
proof -
  have "c \<in> int ` {j. j < length (m_sharers e) \<and> m_sharers e ! j}" if "c \<in> sharer_set e" for c
    using that by (intro image_eqI [of _ _ "nat c"]) (auto simp: sharer_set_def)
  then show ?thesis by (auto simp: sharer_set_def)
qed

lemma finite_sharer_set [simp]: "finite (sharer_set e)"
  by (simp add: sharer_set_image)

lemma fold_filter_snoc:
  "fold (\<lambda>j xs. if P j then xs @ [f j] else xs) js ys = ys @ map f (filter P js)"
  by (induction js arbitrary: ys) auto

lemma getSharersList_eq:
  "getSharersList e = (False, map int (filter (\<lambda>j. m_sharers e ! j) [0..<length (m_sharers e)]))"
  by (simp add: getSharersList_def fold_filter_snoc)

lemma getSharersList_set [simp]:
  "set (snd (getSharersList e)) = sharer_set e" "distinct (snd (getSharersList e))"
  "fst (getSharersList e) = False"
  by (auto simp: getSharersList_eq sharer_set_image distinct_map inj_on_def)

lemma length_getSharersList: "length (snd (getSharersList e)) = card (sharer_set e)"
  by (metis distinct_card getSharersList_set(1,2))

lemma sharers_count_eq:
  "fold (\<lambda>j n. if bits ! j then n + 1 else n) js (n0 :: UInt32) = n0 + of_nat (length (filter (\<lambda>j. bits ! j) js))"
  by (induction js arbitrary: n0) (auto simp: algebra_simps)

lemma getNumSharers_card:
  assumes "length (m_sharers e) < 2 ^ 32"
  shows "unat (getNumSharers e) = card (sharer_set e)"
proof -
  have "length (filter (\<lambda>j. m_sharers e ! j) [0..<length (m_sharers e)]) = card (sharer_set e)"
    using length_getSharersList [of e] by (simp add: getSharersList_eq)
  moreover have "card (sharer_set e) \<le> length (m_sharers e)"
    using calculation by (metis length_filter_le length_upt minus_nat.diff_0)
  ultimately show ?thesis
    using assms by (simp add: getNumSharers_def sharers_count_def sharers_count_eq)
qed

section \<open>The contract of an entry\<close>

text \<open>What the controller relies on: an entry is a set of cores to which \<^verbatim>\<open>addSharer\<close> may refuse to add
  another one, and whose size \<^verbatim>\<open>getNumSharers\<close> reports.\<close>

locale sharer_tracker =
  fixes wf :: "'e \<Rightarrow> bool" and sharers :: "'e \<Rightarrow> core_id_t set"
    and has :: "'e \<Rightarrow> core_id_t \<Rightarrow> bool res"
    and add :: "'e \<Rightarrow> core_id_t \<Rightarrow> UInt32 \<Rightarrow> (bool \<times> 'e) res"
    and remove :: "'e \<Rightarrow> core_id_t \<Rightarrow> bool \<Rightarrow> 'e res"
    and num :: "'e \<Rightarrow> UInt32"
  assumes finite_sharers: "wf e \<Longrightarrow> finite (sharers e)"
    and has_iff: "has e c = Inr b \<Longrightarrow> b = (c \<in> sharers e)"
    and add_sharers: "add e c m = Inr (b, e') \<Longrightarrow>
      c \<notin> sharers e \<and> sharers e' = (if b then insert c (sharers e) else sharers e)"
    and remove_sharers: "remove e c r = Inr e' \<Longrightarrow> c \<in> sharers e \<and> sharers e' = sharers e - {c}"
    and add_wf: "wf e \<Longrightarrow> add e c m = Inr (b, e') \<Longrightarrow> wf e'"
    and remove_wf: "wf e \<Longrightarrow> remove e c r = Inr e' \<Longrightarrow> wf e'"
    and num_card: "wf e \<Longrightarrow> unat (num e) = card (sharers e)"
begin

lemma num_add:
  assumes "wf e" and "add e c m = Inr (b, e')"
  shows "unat (num e') = (if b then unat (num e) + 1 else unat (num e))"
  using assms add_sharers [OF assms(2)] add_wf [OF assms] finite_sharers [OF assms(1)]
  by (auto simp: num_card)

lemma num_remove:
  assumes "wf e" and "remove e c r = Inr e'"
  shows "unat (num e) = unat (num e') + 1"
  using assms remove_sharers [OF assms(2)] remove_wf [OF assms] finite_sharers [OF assms(1)]
  by (metis num_card Suc_eq_plus1 card_Suc_Diff1)

lemma num_zero_iff: "wf e \<Longrightarrow> num e = 0 \<longleftrightarrow> sharers e = {}"
  using num_card [of e] finite_sharers [of e] by (auto simp: unat_eq_0 [symmetric] card_eq_0_iff)

lemma num_one_iff: "wf e \<Longrightarrow> num e = 1 \<longleftrightarrow> (\<exists>c. sharers e = {c})"
  using num_card [of e] by (metis card_1_singleton_iff One_nat_def unsigned_1 word_unat_eq_iff)

lemma remove_after_add:
  assumes "add e c m = Inr (True, e')" and "remove e' c r = Inr e''"
  shows "sharers e'' = sharers e"
  using add_sharers [OF assms(1)] remove_sharers [OF assms(2)] by simp

end

definition entry_wf :: "DirectoryEntry \<Rightarrow> bool" where
  "entry_wf e \<longleftrightarrow> length (m_sharers e) < 2 ^ 32"

lemma addSharer_cases:
  assumes "addSharer e c m = Inr (b, e')"
  shows "0 \<le> c \<and> nat c < length (m_sharers e) \<and> c \<notin> sharer_set e \<and> m_address e' = m_address e \<and>
    m_dstate e' = m_dstate e \<and> m_owner_id e' = m_owner_id e \<and> m_forwarder_id e' = m_forwarder_id e \<and>
    length (m_sharers e') = length (m_sharers e) \<and>
    sharer_set e' = (if b then insert c (sharer_set e) else sharer_set e) \<and>
    (\<not> b \<longrightarrow> (\<exists>seed. m_class e = LimitedNoBroadcast seed) \<and> getNumSharers e \<ge> m \<and> e' = e)"
proof -
  have c: "0 \<le> c" "nat c < length (m_sharers e)" "c \<notin> sharer_set e"
    using assms by (auto simp: addSharer_def bindE_Inr_iff sharer_at_iff)
  have "sharer_set (e\<lparr>m_class := x\<rparr>) = sharer_set e" for x by (simp add: sharer_set_def)
  then show ?thesis
    using assms c put_sharer_set [OF c(1), of e True] put_sharer_set [OF c(1), of "e\<lparr>m_class := x\<rparr>" True for x]
    by (auto simp: addSharer_def bindE_Inr_iff Let_def split: entry_class.splits if_splits)
qed

lemma removeSharer_cases:
  assumes "removeSharer e c r = Inr e'"
  shows "0 \<le> c \<and> nat c < length (m_sharers e) \<and> c \<in> sharer_set e \<and> e' = put_sharer e c False \<and>
    sharer_set e' = sharer_set e - {c}"
  using assms put_sharer_set [of c e False]
  by (auto simp: removeSharer_def bindE_Inr_iff sharer_at_iff)

interpretation entry: sharer_tracker entry_wf sharer_set hasSharer addSharer removeSharer getNumSharers
proof (unfold_locales, goal_cases)
  case (3 e c m b e')
  then show ?case using addSharer_cases by blast
next
  case (4 e c r e')
  then show ?case using removeSharer_cases by blast
next
  case (5 e c m b e')
  then show ?case using addSharer_cases by (metis entry_wf_def)
next
  case (6 e c r e')
  then show ?case using removeSharer_cases by (metis entry_wf_def put_sharer_fields(6))
qed (auto simp: hasSharer_def sharer_at_iff entry_wf_def getNumSharers_card)

text \<open>The limited directory respects its hardware limit: an entry of class
  \<^verbatim>\<open>DirectoryEntryLimitedNoBroadcast\<close> accepts a new sharer exactly when it has fewer than
  \<^verbatim>\<open>max_hw_sharers\<close>, so that it never holds more than that; a refusal leaves it unchanged, and an acceptance
  adds exactly the new sharer.\<close>

theorem limited_directory_bound:
  assumes "entry_wf e" and "m_class e = LimitedNoBroadcast seed" and "card (sharer_set e) \<le> unat m"
    and "addSharer e c m = Inr (added, e')"
  shows "card (sharer_set e') \<le> unat m \<and> (added \<longleftrightarrow> card (sharer_set e) < unat m) \<and>
    sharer_set e' = (if added then insert c (sharer_set e) else sharer_set e) \<and> (\<not> added \<longrightarrow> e' = e)"
proof -
  note cases = addSharer_cases [OF assms(4)]
  have "added \<longleftrightarrow> card (sharer_set e) < unat m"
    using assms(2,4) entry.num_card [OF assms(1)]
    by (auto simp: addSharer_def bindE_Inr_iff word_le_nat_alt split: if_splits)
  moreover have "card (sharer_set e') \<le> unat m"
    using cases calculation assms(3) by (simp add: card_insert_if)
  ultimately show ?thesis using cases by simp
qed

theorem limited_directory_bound_witness:
  "let e = mk_DirectoryEntry 0 64 (LimitedNoBroadcast 1) in
   \<exists>e'. addSharer e 5 1 = Inr (True, e') \<and> card (sharer_set e') \<le> 1 \<and> sharer_set e' = insert 5 (sharer_set e)"
proof -
  let ?e = "mk_DirectoryEntry 0 64 (LimitedNoBroadcast 1)"
  have empty: "sharer_set ?e = {}" and wf: "entry_wf ?e" and cls: "m_class ?e = LimitedNoBroadcast 1"
    by (auto simp: sharer_set_def mk_DirectoryEntry_def entry_wf_def)
  then have "getNumSharers ?e = 0" using entry.num_zero_iff by blast
  then have add: "addSharer ?e 5 1 = Inr (True, put_sharer ?e 5 True)"
    by (simp add: addSharer_def sharer_at_def mk_DirectoryEntry_def)
  from limited_directory_bound [OF wf cls _ add] add show ?thesis by (auto simp: empty Let_def)
qed

text \<open>
  The limitless entry compares the width of its container, not the number of sharers, with the hardware limit.
\<close>

text \<open>The software trap of the limitless directory does not fire when the hardware limit is exceeded: with a
  limit of two and a 64-bit container, adding a third sharer leaves the latency at zero; with a limit of 64, adding the
  first sharer raises it.\<close>

theorem limitless_trap_ignores_sharers:
  "let e = mk_DirectoryEntry 0 64 (Limitless False 1000);
       add = (\<lambda>m c r. bindE r (\<lambda>e. map_sum id snd (addSharer e c m)))
   in map_sum id entry_getLatency (add 2 3 (add 2 2 (add 2 1 (Inr e)))) = Inr 0 \<and>
      map_sum id entry_getLatency (add 64 1 (Inr e)) = Inr 1000"
  by (simp add: Let_def addSharer_def sharer_at_def mk_DirectoryEntry_def put_sharer_def entry_getLatency_def)
    (rule exI [of _ True], simp)

lemma getOneSharer_member:
  assumes "entry_wf e" and "getOneSharer e = Inr (c, e')"
  shows "c \<in> sharer_set e \<and> sharer_set e' = sharer_set e \<and> m_address e' = m_address e \<and> m_dstate e' = m_dstate e \<and>
    m_owner_id e' = m_owner_id e \<and> m_sharers e' = m_sharers e"
proof (cases "m_class e")
  case (LimitedNoBroadcast seed)
  let ?xs = "snd (getSharersList e)"
  let ?r = "random_next seed (of_nat (length ?xs))"
  have ne: "?xs \<noteq> []" and res: "c = ?xs ! unat (fst ?r)" "e' = e\<lparr>m_class := LimitedNoBroadcast (snd ?r)\<rparr>"
    using assms(2) LimitedNoBroadcast
    by (auto simp: getOneSharer_def bindE_Inr_iff Let_def split: prod.splits)
  have "length ?xs < 2 ^ 32"
    using assms(1) length_getSharersList [of e] getNumSharers_card [of e] unat_lt [of "getNumSharers e"]
    by (simp add: entry_wf_def)
  then have len: "unat (of_nat (length ?xs) :: UInt32) = length ?xs" by simp
  have "unat (fst ?r) < length ?xs"
    using ne len by (simp add: random_next_def Let_def unat_mod_distrib)
  then have "c \<in> set ?xs" unfolding res(1) by (rule nth_mem)
  then show ?thesis using res(2) by (simp add: sharer_set_def)
next
  case (Limitless trap penalty)
  then show ?thesis
    using assms(2) by (auto simp: getOneSharer_def sharer_set_def dest!: find_SomeD split: option.splits)
qed

end
