(* ===== verification/LS_Req_Queue.thy ===== *)
theory LS_Req_Queue
  imports LS_Prelude
begin

text \<open>
  \<^verbatim>\<open>ReqQueueListTemplate\<close>
  (\<^verbatim>\<open>common/core/memory_subsystem/cache/req_queue_list_template.h\<close>, the variant the build
  uses): a map from addresses to queues of requests, in which an address without requests has no
  queue. The interface the directory controller relies on is the locale \<open>request_queues\<close>.
\<close>

section \<open>Operations\<close>

type_synonym 'r ReqQueueList = "IntPtr \<Rightarrow> 'r list option"

definition rq_enqueue :: "'r ReqQueueList \<Rightarrow> IntPtr \<Rightarrow> 'r \<Rightarrow> 'r ReqQueueList" where
  "rq_enqueue q address shmem_req =
     (let q = (if q address = None then q(address \<mapsto> []) else q)
      in q(address \<mapsto> (case q address of Some xs \<Rightarrow> xs @ [shmem_req] | None \<Rightarrow> [shmem_req])))"

definition rq_dequeue :: "'r ReqQueueList \<Rightarrow> IntPtr \<Rightarrow> ('r \<times> 'r ReqQueueList) res" where
  "rq_dequeue q address =
     (case q address of
        None \<Rightarrow> Inl (LogError ''Could not find a request with address(0x%x)'')
      | Some [] \<Rightarrow> Inl OutOfRange
      | Some (x # xs) \<Rightarrow> Inr (x, q(address := (if xs = [] then None else Some xs))))"

definition rq_front :: "'r ReqQueueList \<Rightarrow> IntPtr \<Rightarrow> 'r res" where
  "rq_front q address =
     (case q address of
        None \<Rightarrow> Inl (LogError ''Could not find a request with address(0x%x)'')
      | Some [] \<Rightarrow> Inl OutOfRange
      | Some (x # xs) \<Rightarrow> Inr x)"

definition rq_back :: "'r ReqQueueList \<Rightarrow> IntPtr \<Rightarrow> 'r res" where
  "rq_back q address =
     (case q address of
        None \<Rightarrow> Inl (LogError ''Could not find a request with address(0x%x)'')
      | Some xs \<Rightarrow> if xs = [] then Inl OutOfRange else Inr (last xs))"

definition rq_size :: "'r ReqQueueList \<Rightarrow> IntPtr \<Rightarrow> UInt32" where
  "rq_size q address = (case q address of None \<Rightarrow> 0 | Some xs \<Rightarrow> of_nat (length xs))"

definition rq_empty :: "'r ReqQueueList \<Rightarrow> IntPtr \<Rightarrow> bool" where
  "rq_empty q address = (q address = None)"

text \<open>A queued request is changed through the pointer that \<^verbatim>\<open>front\<close> returns.\<close>

definition rq_update_front :: "'r ReqQueueList \<Rightarrow> IntPtr \<Rightarrow> ('r \<Rightarrow> 'r) \<Rightarrow> 'r ReqQueueList" where
  "rq_update_front q address f =
     (case q address of Some (x # xs) \<Rightarrow> q(address \<mapsto> f x # xs) | _ \<Rightarrow> q)"

section \<open>The queues as lists\<close>

definition rq_list :: "'r ReqQueueList \<Rightarrow> IntPtr \<Rightarrow> 'r list" where
  "rq_list q a = (case q a of None \<Rightarrow> [] | Some xs \<Rightarrow> xs)"

definition rq_wf :: "'r ReqQueueList \<Rightarrow> bool" where
  "rq_wf q \<longleftrightarrow> (\<forall>a. q a \<noteq> Some [])"

lemma rq_list_enqueue [simp]:
  "rq_list (rq_enqueue q a x) = (rq_list q)(a := rq_list q a @ [x])"
  by (rule ext) (auto simp: rq_list_def rq_enqueue_def Let_def split: option.splits)

lemma rq_wf_enqueue [wf_intros]: "rq_wf q \<Longrightarrow> rq_wf (rq_enqueue q a x)"
  by (auto simp: rq_wf_def rq_enqueue_def Let_def split: option.splits)

lemma rq_dequeue_Cons:
  assumes "rq_wf q" and "rq_list q a = x # xs"
  shows "\<exists>q'. rq_dequeue q a = Inr (x, q') \<and> rq_wf q' \<and> rq_list q' = (rq_list q)(a := xs)"
proof -
  have "q a = Some (x # xs)" using assms(2) by (auto simp: rq_list_def split: option.splits)
  then show ?thesis using assms(1) by (auto simp: rq_dequeue_def rq_wf_def rq_list_def)
qed

lemma rq_list_update_front [simp]:
  "rq_list (rq_update_front q a f) =
    (rq_list q)(a := (case rq_list q a of [] \<Rightarrow> [] | x # xs \<Rightarrow> f x # xs))"
  by (rule ext) (auto simp: rq_list_def rq_update_front_def split: option.splits list.splits)

lemma rq_wf_update_front [wf_intros]: "rq_wf q \<Longrightarrow> rq_wf (rq_update_front q a f)"
  by (auto simp: rq_wf_def rq_update_front_def split: option.splits list.splits)

section \<open>The interface of the controller\<close>

text \<open>One FIFO queue per address; an address has a queue exactly when it has requests.\<close>

locale request_queues =
  fixes wf :: "'q \<Rightarrow> bool" and contents :: "'q \<Rightarrow> IntPtr \<Rightarrow> 'r list"
    and enqueue :: "'q \<Rightarrow> IntPtr \<Rightarrow> 'r \<Rightarrow> 'q"
    and dequeue :: "'q \<Rightarrow> IntPtr \<Rightarrow> ('r \<times> 'q) res"
    and front :: "'q \<Rightarrow> IntPtr \<Rightarrow> 'r res"
    and empty :: "'q \<Rightarrow> IntPtr \<Rightarrow> bool"
  assumes enqueue_wf: "wf q \<Longrightarrow> wf (enqueue q a x)"
    and enqueue_contents: "contents (enqueue q a x) = (contents q)(a := contents q a @ [x])"
    and dequeue_contents: "wf q \<Longrightarrow> contents q a = x # xs \<Longrightarrow>
      \<exists>q'. dequeue q a = Inr (x, q') \<and> wf q' \<and> contents q' = (contents q)(a := xs)"
    and dequeue_empty: "wf q \<Longrightarrow> contents q a = [] \<Longrightarrow> \<exists>e. dequeue q a = Inl e"
    and front_contents: "contents q a = x # xs \<Longrightarrow> front q a = Inr x"
    and empty_contents: "wf q \<Longrightarrow> empty q a \<longleftrightarrow> contents q a = []"
begin

text \<open>\<open>n\<close> dequeues of an address.\<close>

fun drain :: "nat \<Rightarrow> 'q \<Rightarrow> IntPtr \<Rightarrow> ('r list \<times> 'q) res" where
  "drain 0 q a = Inr ([], q)"
| "drain (Suc n) q a = bindE (dequeue q a) (\<lambda>(x, q). bindE (drain n q a) (\<lambda>(xs, q). Inr (x # xs, q)))"

lemma drain_contents:
  "wf q \<Longrightarrow> n \<le> length (contents q a) \<Longrightarrow>
    \<exists>q'. drain n q a = Inr (take n (contents q a), q') \<and> wf q' \<and> contents q' = (contents q)(a := drop n (contents q a))"
proof (induction n arbitrary: q)
  case 0
  then show ?case by simp
next
  case (Suc n)
  then obtain x xs where xs: "contents q a = x # xs" by (cases "contents q a") auto
  from dequeue_contents [OF Suc.prems(1) xs] obtain q1 where
    q1: "dequeue q a = Inr (x, q1)" "wf q1" "contents q1 = (contents q)(a := xs)" by blast
  have "n \<le> length (contents q1 a)" using Suc.prems(2) xs q1(3) by simp
  from Suc.IH [OF q1(2) this] q1 xs show ?case by (auto simp: fun_eq_iff)
qed

lemma enqueue_all_wf: "wf q \<Longrightarrow> wf (fold (\<lambda>x q. enqueue q a x) xs q)"
  by (induction xs arbitrary: q) (auto simp: enqueue_wf)

lemma enqueue_all_contents:
  "contents (fold (\<lambda>x q. enqueue q a x) xs q) = (contents q)(a := contents q a @ xs)"
  by (induction xs arbitrary: q) (auto simp: enqueue_contents)

lemma fifo_order:
  assumes "wf q" and "contents q a = []"
  shows "\<exists>q'. drain (length xs) (fold (\<lambda>x q. enqueue q a x) xs q) a = Inr (xs, q') \<and> wf q' \<and>
    contents q' = contents q"
proof -
  let ?q = "fold (\<lambda>x q. enqueue q a x) xs q"
  have c: "contents ?q = (contents q)(a := xs)" using assms(2) by (simp add: enqueue_all_contents)
  from drain_contents [OF enqueue_all_wf [OF assms(1)], of "length xs" a xs a] c assms(2)
  show ?thesis by auto (metis fun_upd_triv)
qed

end

interpretation rq: request_queues rq_wf rq_list rq_enqueue rq_dequeue rq_front rq_empty
proof (unfold_locales, goal_cases)
  case (1 q a x)
  then show ?case by (rule rq_wf_enqueue)
next
  case (2 q a x)
  show ?case by (rule rq_list_enqueue)
next
  case (3 q a x xs)
  then show ?case by (rule rq_dequeue_Cons)
qed (auto simp: rq_list_def rq_dequeue_def rq_front_def rq_empty_def rq_wf_def split: option.splits)

text \<open>Requests for an address are served in the order of their arrival: whatever is queued for other addresses,
  queueing a list of requests for an idle address and dequeueing as many returns that list, and leaves every queue as it
  was.\<close>

theorem rq_served_in_order:
  assumes "rq_wf q" and "rq_list q a = []"
  shows "\<exists>q'. rq.drain (length xs) (fold (\<lambda>x q. rq_enqueue q a x) xs q) a = Inr (xs, q') \<and> rq_wf q' \<and>
    rq_list q' = rq_list q"
  by (rule rq.fifo_order [OF assms])

theorem rq_served_in_order_witness:
  "\<exists>q'. rq.drain (length [1 :: nat, 2, 3]) (fold (\<lambda>x q. rq_enqueue q 0x40 x) [1 :: nat, 2, 3] (Map.empty(0x80 \<mapsto> [7]))) 0x40 =
     Inr ([1 :: nat, 2, 3], q') \<and> rq_wf q' \<and> rq_list q' = rq_list (Map.empty(0x80 \<mapsto> [7]))"
  by (rule rq_served_in_order) (auto simp: rq_wf_def rq_list_def)

end
