(* ===== verification/LS_Directory_Cache.thy ===== *)
theory LS_Directory_Cache
  imports LS_Directory
begin

unbundle bit_operations_syntax

text \<open>
  \<^verbatim>\<open>DramDirectoryCache\<close>
  (\<^verbatim>\<open>common/core/memory_subsystem/pr_l1_pr_l2_dram_directory_msi/dram_directory_cache.cc\<close>): a set-associative
  array of directory entries, and the list of replaced entries whose invalidation is under way.
  A pointer to an entry is its location. The clock that \<^verbatim>\<open>incrElapsedTime\<close> advances is threaded.
\<close>

section \<open>The clock\<close>

text \<open>\<^verbatim>\<open>ShmemPerfModel\<close>, \<^verbatim>\<open>shmem_perf_model.cc\<close>, for the simulation thread.\<close>

definition incrElapsedTime :: "UInt64 \<Rightarrow> UInt64 \<Rightarrow> UInt64 res" where
  "incrElapsedTime i_elapsed_time time =
     (let t_elapsed_time = i_elapsed_time + time
      in bindE (assertE (t_elapsed_time \<ge> i_elapsed_time) (LogError ''t_elapsed_time(%s) < i_elapsed_time(%s)''))
           (\<lambda>_. Inr t_elapsed_time))"

definition updateElapsedTime :: "UInt64 \<Rightarrow> UInt64 \<Rightarrow> UInt64" where
  "updateElapsedTime elapsed_time time = (if elapsed_time < time then time else elapsed_time)"

section \<open>State\<close>

record DramDirectoryCache =
  m_directory :: Directory
  m_replacement_ptrs :: "UInt32 list"
  m_replaced_directory_entry_list :: "DirectoryEntry list"
  m_total_entries :: UInt32
  ddc_associativity :: UInt32
  ddc_num_sets :: UInt32
  ddc_cache_block_size :: UInt32
  m_log_num_sets :: UInt32
  m_log_cache_block_size :: UInt32
  m_dram_directory_cache_access_time :: UInt64

text \<open>\<open>ptrs\<close> is what the array allocated for the replacement pointers holds: the constructor does not
  set it.\<close>

definition mk_DramDirectoryCache ::
  "string \<Rightarrow> UInt32 \<Rightarrow> UInt32 \<Rightarrow> UInt32 \<Rightarrow> UInt32 \<Rightarrow> UInt32 \<Rightarrow> UInt64 \<Rightarrow> UInt64 \<Rightarrow> core_id_t \<Rightarrow> (nat \<Rightarrow> UInt32)
     \<Rightarrow> DramDirectoryCache res" where
  "mk_DramDirectoryCache directory_type_str total_entries associativity cache_block_size max_hw_sharers
       max_num_sharers trap_penalty access_time junk ptrs =
     (if associativity = 0 then Inl DivByZero
      else
        let num_sets = total_entries div associativity in
        bindE (mk_Directory directory_type_str total_entries max_hw_sharers max_num_sharers trap_penalty junk)
        (\<lambda>d. Inr \<lparr>m_directory = d, m_replacement_ptrs = map ptrs [0..<unat num_sets],
                   m_replaced_directory_entry_list = [], m_total_entries = total_entries,
                   ddc_associativity = associativity, ddc_num_sets = num_sets,
                   ddc_cache_block_size = cache_block_size,
                   m_log_num_sets = of_int (floorLog2 num_sets),
                   m_log_cache_block_size = of_int (floorLog2 cache_block_size),
                   m_dram_directory_cache_access_time = access_time\<rparr>))"

definition ddc_splitAddress :: "DramDirectoryCache \<Rightarrow> IntPtr \<Rightarrow> IntPtr \<times> UInt32" where
  "ddc_splitAddress c address =
     (let cache_block_address = drop_bit (unat (m_log_cache_block_size c)) address
      in (drop_bit (unat (m_log_num_sets c)) cache_block_address,
          ucast cache_block_address AND (ddc_num_sets c - 1)))"

datatype entry_loc = Slot UInt32 | Replaced nat

definition ddc_read :: "DramDirectoryCache \<Rightarrow> entry_loc \<Rightarrow> DirectoryEntry res" where
  "ddc_read c l =
     (case l of
        Slot n \<Rightarrow>
          (if unat n < length (m_directory_entry_list (m_directory c))
           then case m_directory_entry_list (m_directory c) ! unat n of Some e \<Rightarrow> Inr e | None \<Rightarrow> Inl NullPointer
           else Inl OutOfRange)
      | Replaced i \<Rightarrow>
          (if i < length (m_replaced_directory_entry_list c)
           then Inr (m_replaced_directory_entry_list c ! i) else Inl OutOfRange))"

definition ddc_write :: "DramDirectoryCache \<Rightarrow> entry_loc \<Rightarrow> DirectoryEntry \<Rightarrow> DramDirectoryCache" where
  "ddc_write c l e =
     (case l of
        Slot n \<Rightarrow> c\<lparr>m_directory := setDirectoryEntry (m_directory c) n e\<rparr>
      | Replaced i \<Rightarrow> c\<lparr>m_replaced_directory_entry_list := (m_replaced_directory_entry_list c)[i := e]\<rparr>)"

section \<open>Operations\<close>

text \<open>A loop over the ways of a set, which allocates the entries it looks at and stops at the first
  one that satisfies \<open>P\<close>.\<close>

fun ddc_scan :: "(DirectoryEntry \<Rightarrow> bool) \<Rightarrow> UInt32 \<Rightarrow> nat list \<Rightarrow> Directory \<Rightarrow> (UInt32 option \<times> Directory) res" where
  "ddc_scan P base [] d = Inr (None, d)"
| "ddc_scan P base (i # is) d =
     bindE (dir_getDirectoryEntry d (base + of_nat i))
     (\<lambda>(e, d). if P e then Inr (Some (base + of_nat i), d) else ddc_scan P base is d)"

definition getDirectoryEntry ::
  "DramDirectoryCache \<Rightarrow> UInt64 \<Rightarrow> IntPtr \<Rightarrow> bool \<Rightarrow> (entry_loc option \<times> DramDirectoryCache \<times> UInt64) res" where
  "getDirectoryEntry c now address modeled =
     bindE (if modeled then incrElapsedTime now (m_dram_directory_cache_access_time c) else Inr now)
     (\<lambda>now. let set_index = snd (ddc_splitAddress c address);
                base = set_index * ddc_associativity c;
                ways = [0..<unat (ddc_associativity c)] in
        bindE (ddc_scan (\<lambda>e. m_address e = address) base ways (m_directory c))
        (\<lambda>(hit, d). let c = c\<lparr>m_directory := d\<rparr> in
         case hit of
           Some n \<Rightarrow>
             bindE (ddc_read c (Slot n))
             (\<lambda>e. bindE (if modeled then incrElapsedTime now (entry_getLatency e) else Inr now)
             (\<lambda>now. Inr (Some (Slot n), c, now)))
         | None \<Rightarrow>
             bindE (ddc_scan (\<lambda>e. m_address e = INVALID_ADDRESS) base ways (m_directory c))
             (\<lambda>(free, d). let c = c\<lparr>m_directory := d\<rparr> in
              case free of
                Some n \<Rightarrow>
                  bindE (ddc_read c (Slot n))
                  (\<lambda>e. Inr (Some (Slot n), ddc_write c (Slot n) (e\<lparr>m_address := address\<rparr>), now))
              | None \<Rightarrow>
                  Inr (map_option Replaced
                         (List.find (\<lambda>i. m_address (m_replaced_directory_entry_list c ! i) = address)
                            [0..<length (m_replaced_directory_entry_list c)]), c, now))))"

text \<open>The entries of the candidates are allocated in turn.\<close>

fun dir_touch :: "UInt32 list \<Rightarrow> Directory \<Rightarrow> Directory res" where
  "dir_touch [] d = Inr d"
| "dir_touch (n # ns) d = bindE (dir_getDirectoryEntry d n) (\<lambda>(e, d). dir_touch ns d)"

definition getReplacementCandidates ::
  "DramDirectoryCache \<Rightarrow> UInt64 \<Rightarrow> IntPtr \<Rightarrow> (UInt32 list \<times> DramDirectoryCache) res" where
  "getReplacementCandidates c now address =
     bindE (getDirectoryEntry c now address False)
     (\<lambda>(l, c, now). bindE (assertE (l = None) (AssertError ''getDirectoryEntry(address) == NULL''))
     (\<lambda>_. let set_index = snd (ddc_splitAddress c address);
              base = set_index * ddc_associativity c in
        if unat set_index < length (m_replacement_ptrs c) \<and> ddc_associativity c \<noteq> 0
        then let ptr = m_replacement_ptrs c ! unat set_index;
                 slots = map (\<lambda>i. base + (of_nat i + ptr) mod ddc_associativity c) [0..<unat (ddc_associativity c)]
             in bindE (dir_touch slots (m_directory c))
                (\<lambda>d. Inr (slots, c\<lparr>m_directory := d,
                                    m_replacement_ptrs := (m_replacement_ptrs c)[unat set_index := ptr + 1]\<rparr>))
        else Inl OutOfRange))"

definition replaceDirectoryEntry ::
  "DramDirectoryCache \<Rightarrow> UInt64 \<Rightarrow> IntPtr \<Rightarrow> IntPtr \<Rightarrow> bool \<Rightarrow> (entry_loc \<times> DramDirectoryCache \<times> UInt64) res" where
  "replaceDirectoryEntry c now replaced_address address modeled =
     bindE (if modeled then incrElapsedTime now (m_dram_directory_cache_access_time c) else Inr now)
     (\<lambda>now. let set_index = snd (ddc_splitAddress c replaced_address);
                base = set_index * ddc_associativity c in
        bindE (ddc_scan (\<lambda>e. m_address e = replaced_address) base [0..<unat (ddc_associativity c)] (m_directory c))
        (\<lambda>(hit, d). let c = c\<lparr>m_directory := d\<rparr> in
         case hit of
           Some n \<Rightarrow>
             bindE (ddc_read c (Slot n))
             (\<lambda>replaced. let (e, d) = createDirectoryEntry (m_directory c);
                             e = e\<lparr>m_address := address\<rparr>
                         in Inr (Slot n,
                                 c\<lparr>m_replaced_directory_entry_list := m_replaced_directory_entry_list c @ [replaced],
                                   m_directory := setDirectoryEntry d n e\<rparr>, now))
         | None \<Rightarrow> Inl (LogError '''')))"

definition invalidateDirectoryEntry :: "DramDirectoryCache \<Rightarrow> IntPtr \<Rightarrow> DramDirectoryCache res" where
  "invalidateDirectoryEntry c address =
     (case List.find (\<lambda>i. m_address (m_replaced_directory_entry_list c ! i) = address)
             [0..<length (m_replaced_directory_entry_list c)] of
        Some i \<Rightarrow> Inr (c\<lparr>m_replaced_directory_entry_list :=
                        take i (m_replaced_directory_entry_list c) @ drop (Suc i) (m_replaced_directory_entry_list c)\<rparr>)
      | None \<Rightarrow> Inl (LogError ''''))"

definition ddc_getMaxHwSharers :: "DramDirectoryCache \<Rightarrow> UInt32" where
  "ddc_getMaxHwSharers c = m_use_max_hw_sharers (m_directory c)"

section \<open>Invariants of all entries\<close>

definition dir_entries :: "Directory \<Rightarrow> DirectoryEntry set" where
  "dir_entries d = {e. Some e \<in> set (m_directory_entry_list d)}"

definition all_entries :: "DramDirectoryCache \<Rightarrow> DirectoryEntry set" where
  "all_entries c = dir_entries (m_directory c) \<union> set (m_replaced_directory_entry_list c)"

text \<open>A property of entries that holds of every new entry and does not depend on the address.\<close>

definition entry_property :: "(DirectoryEntry \<Rightarrow> bool) \<Rightarrow> bool" where
  "entry_property P \<longleftrightarrow>
     (\<forall>junk width cls. width < 2 ^ 32 \<longrightarrow> P (mk_DirectoryEntry junk width cls)) \<and>
     (\<forall>e a. P e \<longrightarrow> P (e\<lparr>m_address := a\<rparr>))"

lemma sharers_width_less: "sharers_width m < 2 ^ 32"
  using unat_lt [of m] by (simp add: sharers_width_def)

lemma createDirectoryEntry_ok:
  assumes "createDirectoryEntry d = (e, d')"
  shows "(entry_property P \<longrightarrow> P e) \<and> m_address e = INVALID_ADDRESS \<and> m_dstate e = DIR_UNCACHED \<and> sharer_set e = {} \<and>
    m_directory_entry_list d' = m_directory_entry_list d"
proof -
  have "e = mk_DirectoryEntry (m_junk_forwarder d) (sharers_width (m_max_num_sharers d)) (m_class e)"
    using assms by (auto simp: createDirectoryEntry_def Let_def mk_DirectoryEntry_def split: DirectoryType.splits)
  then show ?thesis
    using sharers_width_less assms
    by (auto simp: entry_property_def mk_DirectoryEntry_def sharer_set_def createDirectoryEntry_def Let_def
        split: DirectoryType.splits)
qed

lemma dir_entries_update:
  "e \<in> dir_entries (setDirectoryEntry d n x) \<Longrightarrow> e = x \<or> e \<in> dir_entries d"
  by (auto simp: dir_entries_def setDirectoryEntry_def dest: set_update_subset_insert [THEN subsetD])

lemma dir_get_ok:
  assumes "dir_getDirectoryEntry d n = Inr (e, d')" and "entry_property P" and "\<forall>e\<in>dir_entries d. P e"
    and "length (m_directory_entry_list d) = unat (m_num_entries d)"
  shows "(\<forall>e\<in>dir_entries d'. P e) \<and> P e \<and> length (m_directory_entry_list d') = unat (m_num_entries d') \<and>
    unat n < length (m_directory_entry_list d') \<and> m_directory_entry_list d' ! unat n = Some e"
proof (cases "m_directory_entry_list d ! unat n")
  case None
  obtain x d1 where c: "createDirectoryEntry d = (x, d1)" by fastforce
  have num: "m_num_entries d1 = m_num_entries d"
    using c by (auto simp: createDirectoryEntry_def Let_def split: DirectoryType.splits)
  have n: "unat n < length (m_directory_entry_list d)"
    using assms(1,4) by (auto simp: dir_getDirectoryEntry_def bindE_Inr_iff word_less_nat_alt)
  have res: "e = x" "d' = d1\<lparr>m_directory_entry_list := (m_directory_entry_list d1)[unat n := Some x],
      m_num_entries_allocated := m_num_entries_allocated d1 + 1\<rparr>"
    using assms(1) None c by (auto simp: dir_getDirectoryEntry_def bindE_Inr_iff)
  have "P x" "m_directory_entry_list d1 = m_directory_entry_list d"
    using createDirectoryEntry_ok [OF c, of P] assms(2) by auto
  then show ?thesis
    using assms(3,4) n num res
    by (auto simp: dir_entries_def dest!: set_update_subset_insert [THEN subsetD])
next
  case (Some x)
  moreover have "unat n < length (m_directory_entry_list d)"
    using assms(1,4) by (auto simp: dir_getDirectoryEntry_def bindE_Inr_iff word_less_nat_alt)
  ultimately show ?thesis
    using assms by (auto simp: dir_getDirectoryEntry_def bindE_Inr_iff dir_entries_def) (metis nth_mem)
qed

lemma ddc_scan_ok:
  assumes "ddc_scan Q base is d = Inr (r, d')" and "entry_property P" and "\<forall>e\<in>dir_entries d. P e"
    and "length (m_directory_entry_list d) = unat (m_num_entries d)"
  shows "(\<forall>e\<in>dir_entries d'. P e) \<and> length (m_directory_entry_list d') = unat (m_num_entries d') \<and>
    (\<forall>n. r = Some n \<longrightarrow> unat n < length (m_directory_entry_list d') \<and>
      (\<exists>e. m_directory_entry_list d' ! unat n = Some e \<and> Q e \<and> P e))"
  using assms
proof (induction "is" arbitrary: d)
  case (Cons i "is")
  then obtain e d1 where get: "dir_getDirectoryEntry d (base + of_nat i) = Inr (e, d1)"
    by (auto simp: bindE_Inr_iff)
  note ok = dir_get_ok [OF get Cons.prems(2-4)]
  show ?case
  proof (cases "Q e")
    case True
    then show ?thesis using Cons.prems(1) get ok by auto
  next
    case False
    then have "ddc_scan Q base is d1 = Inr (r, d')" using Cons.prems(1) get by simp
    from Cons.IH [OF this Cons.prems(2)] ok show ?thesis by blast
  qed
qed auto

definition ddc_ok :: "(DirectoryEntry \<Rightarrow> bool) \<Rightarrow> DramDirectoryCache \<Rightarrow> bool" where
  "ddc_ok P c \<longleftrightarrow> (\<forall>e\<in>all_entries c. P e) \<and>
     length (m_directory_entry_list (m_directory c)) = unat (m_num_entries (m_directory c))"

lemma ddc_read_entry: "ddc_read c l = Inr e \<Longrightarrow> e \<in> all_entries c"
  by (auto simp: all_entries_def dir_entries_def ddc_read_def split: entry_loc.splits if_splits option.splits)
    (metis nth_mem)

lemma ddc_read_ok: "ddc_ok P c \<Longrightarrow> ddc_read c l = Inr e \<Longrightarrow> P e"
  using ddc_read_entry by (auto simp: ddc_ok_def)

lemma ddc_write_ok:
  assumes "ddc_ok P c" and "P e"
  shows "ddc_ok P (ddc_write c l e)"
proof (cases l)
  case (Slot n)
  then show ?thesis
    using assms dir_entries_update
    by (fastforce simp: ddc_ok_def all_entries_def ddc_write_def setDirectoryEntry_def dir_entries_def)
next
  case (Replaced i)
  then show ?thesis
    using assms by (auto simp: ddc_ok_def all_entries_def ddc_write_def dest!: set_update_subset_insert [THEN subsetD])
qed

lemma ddc_read_write:
  assumes "ddc_read c l = Inr e0"
  shows "ddc_read (ddc_write c l e) l = Inr e"
  using assms by (auto simp: ddc_read_def ddc_write_def setDirectoryEntry_def split: entry_loc.splits if_splits option.splits)

lemma ddc_scan_update:
  assumes "ddc_scan Q base is (m_directory c) = Inr (r, d)" and "entry_property P" and "ddc_ok P c"
  shows "ddc_ok P (c\<lparr>m_directory := d\<rparr>) \<and>
    (\<forall>n. r = Some n \<longrightarrow> (\<exists>e. ddc_read (c\<lparr>m_directory := d\<rparr>) (Slot n) = Inr e \<and> Q e \<and> P e))"
  using ddc_scan_ok [OF assms(1,2)] assms(3)
  by (auto simp: ddc_ok_def all_entries_def ddc_read_def)

text \<open>A lookup returns the location of an entry of that address and keeps every entry property.\<close>

lemma getDirectoryEntry_ok:
  assumes get: "getDirectoryEntry c now a modeled = Inr (l, c', now')" and P: "entry_property P" and ok: "ddc_ok P c"
  shows "ddc_ok P c' \<and> (\<forall>loc. l = Some loc \<longrightarrow> (\<exists>e. ddc_read c' loc = Inr e \<and> m_address e = a \<and> P e))"
proof -
  define base where "base = snd (ddc_splitAddress c a) * ddc_associativity c"
  define ways where "ways = [0..<unat (ddc_associativity c)]"
  obtain hit d where hit: "ddc_scan (\<lambda>e. m_address e = a) base ways (m_directory c) = Inr (hit, d)"
    using get by (auto simp: getDirectoryEntry_def bindE_Inr_iff Let_def base_def ways_def)
  note ok1 = ddc_scan_update [OF hit P ok]
  show ?thesis
  proof (cases hit)
    case (Some n)
    then have "l = Some (Slot n)" "c' = c\<lparr>m_directory := d\<rparr>"
      using get hit by (auto simp: getDirectoryEntry_def bindE_Inr_iff Let_def base_def ways_def)
    then show ?thesis using ok1 Some by auto
  next
    case None
    then obtain free d2 where free: "ddc_scan (\<lambda>e. m_address e = INVALID_ADDRESS) base ways (m_directory (c\<lparr>m_directory := d\<rparr>)) = Inr (free, d2)"
      using get hit by (auto simp: getDirectoryEntry_def bindE_Inr_iff Let_def base_def ways_def)
    note ok2 = ddc_scan_update [OF free P ok1 [THEN conjunct1]]
    show ?thesis
    proof (cases free)
      case (Some n)
      then obtain e where e: "ddc_read (c\<lparr>m_directory := d2\<rparr>) (Slot n) = Inr e" "l = Some (Slot n)"
        "c' = ddc_write (c\<lparr>m_directory := d2\<rparr>) (Slot n) (e\<lparr>m_address := a\<rparr>)"
        using get hit None free by (auto simp: getDirectoryEntry_def bindE_Inr_iff Let_def base_def ways_def)
      have "P (e\<lparr>m_address := a\<rparr>)" using ddc_read_ok [OF _ e(1), of P] ok2 P by (simp add: entry_property_def)
      then show ?thesis using e ok2 ddc_write_ok [of P "c\<lparr>m_directory := d2\<rparr>"] ddc_read_write [OF e(1)] by auto
    next
      case none2: None
      then have res: "c' = c\<lparr>m_directory := d2\<rparr>" "l = map_option Replaced
          (List.find (\<lambda>i. m_address (m_replaced_directory_entry_list c ! i) = a) [0..<length (m_replaced_directory_entry_list c)])"
        using get hit None free by (auto simp: getDirectoryEntry_def bindE_Inr_iff Let_def base_def ways_def)
      have "\<exists>e. ddc_read c' loc = Inr e \<and> m_address e = a \<and> P e" if "l = Some loc" for loc
      proof -
        from that res(2) obtain i where i: "loc = Replaced i" "i < length (m_replaced_directory_entry_list c)"
          "m_address (m_replaced_directory_entry_list c ! i) = a" by (auto dest!: find_SomeD)
        then have "ddc_read c' loc = Inr (m_replaced_directory_entry_list c ! i)" by (simp add: ddc_read_def res(1))
        then show ?thesis using i(3) ok2 ddc_read_ok res(1) by auto
      qed
      then show ?thesis using ok2 res(1) by simp
    qed
  qed
qed

lemma dir_touch_ok:
  assumes "dir_touch ns d = Inr d'" and P: "entry_property P"
    and "\<forall>e\<in>dir_entries d. P e" and "length (m_directory_entry_list d) = unat (m_num_entries d)"
  shows "(\<forall>e\<in>dir_entries d'. P e) \<and> length (m_directory_entry_list d') = unat (m_num_entries d')"
  using assms
proof (induction ns arbitrary: d)
  case (Cons n ns)
  then obtain e d1 where get: "dir_getDirectoryEntry d n = Inr (e, d1)" and rest: "dir_touch ns d1 = Inr d'"
    by (auto simp: bindE_Inr_iff)
  from Cons.IH [OF rest P] dir_get_ok [OF get P Cons.prems(3,4)] show ?case by blast
qed simp

lemma getReplacementCandidates_ok:
  assumes get: "getReplacementCandidates c now a = Inr (slots, c')" and P: "entry_property P" and ok: "ddc_ok P c"
  shows "ddc_ok P c'"
proof -
  obtain c1 now1 where g: "getDirectoryEntry c now a False = Inr (None, c1, now1)"
    using get by (auto simp: getReplacementCandidates_def bindE_Inr_iff)
  then have ok1: "ddc_ok P c1" using getDirectoryEntry_ok [OF _ P ok] by blast
  obtain d ptrs where touch: "dir_touch slots (m_directory c1) = Inr d"
    and c': "c' = c1\<lparr>m_directory := d, m_replacement_ptrs := ptrs\<rparr>"
    using get g by (auto simp: getReplacementCandidates_def bindE_Inr_iff Let_def split: if_splits)
  from dir_touch_ok [OF touch P] ok1 show ?thesis by (auto simp: ddc_ok_def all_entries_def c')
qed

lemma replaceDirectoryEntry_ok:
  assumes rep: "replaceDirectoryEntry c now old new modeled = Inr (l, c', now')" and P: "entry_property P" and ok: "ddc_ok P c"
  shows "ddc_ok P c' \<and> (\<exists>e. ddc_read c' l = Inr e \<and> P e \<and> m_address e = new \<and> m_dstate e = DIR_UNCACHED \<and> sharer_set e = {})"
proof -
  define base where "base = snd (ddc_splitAddress c old) * ddc_associativity c"
  obtain n d where hit: "ddc_scan (\<lambda>e. m_address e = old) base [0..<unat (ddc_associativity c)] (m_directory c) = Inr (Some n, d)"
    using rep by (auto simp: replaceDirectoryEntry_def bindE_Inr_iff Let_def base_def split: option.splits)
  note ok1 = ddc_scan_update [OF hit P ok]
  then obtain r where r: "ddc_read (c\<lparr>m_directory := d\<rparr>) (Slot n) = Inr r" "P r" by auto
  obtain e d2 where cr: "createDirectoryEntry d = (e, d2)" by fastforce
  have res: "l = Slot n" "c' = c\<lparr>m_replaced_directory_entry_list := m_replaced_directory_entry_list c @ [r],
      m_directory := setDirectoryEntry d2 n (e\<lparr>m_address := new\<rparr>)\<rparr>"
    using rep hit r cr by (auto simp: replaceDirectoryEntry_def bindE_Inr_iff Let_def base_def)
  have e: "P e" "m_dstate e = DIR_UNCACHED" "sharer_set e = {}" "m_directory_entry_list d2 = m_directory_entry_list d"
    using createDirectoryEntry_ok [OF cr, of P] P by auto
  have num: "m_num_entries d2 = m_num_entries d"
    using cr by (auto simp: createDirectoryEntry_def Let_def split: DirectoryType.splits)
  have P': "P (e\<lparr>m_address := new\<rparr>)" using e(1) P by (simp add: entry_property_def)
  have "ddc_ok P c'"
    using ok1 r(2) P' e(4) num dir_entries_update [of _ d2 n]
    by (auto simp: ddc_ok_def all_entries_def res dir_entries_def setDirectoryEntry_def)
  moreover have "ddc_read c' l = Inr (e\<lparr>m_address := new\<rparr>)"
    using r(1) e(4) by (auto simp: ddc_read_def res setDirectoryEntry_def split: if_splits option.splits)
  ultimately show ?thesis using e P' by (auto simp: sharer_set_def)
qed

lemma invalidateDirectoryEntry_ok:
  assumes "invalidateDirectoryEntry c a = Inr c'" and "ddc_ok P c"
  shows "ddc_ok P c'"
  using assms
  by (fastforce simp: invalidateDirectoryEntry_def ddc_ok_def all_entries_def split: option.splits
      dest: in_set_takeD in_set_dropD)

end
