(* ===== verification/LS_Nuca.thy ===== *)
theory LS_Nuca
  imports LS_Cache
begin

text \<open>
  The NUCA cache slice of a directory
  (\<^verbatim>\<open>common/core/memory_subsystem/parametric_dram_directory_msi/nuca_cache.cc\<close>), a client of \<^verbatim>\<open>Cache\<close>.
  The latency of the data array, which depends on a queue model, is a function of the access and its
  start time.
\<close>

section \<open>Operations\<close>

record NucaCache =
  n_cache :: Cache
  n_cache_block_size :: UInt32
  n_tags_access_time :: UInt64
  n_data_latency :: "access_t \<Rightarrow> UInt64 \<Rightarrow> UInt64"
  m_reads :: UInt64
  m_writes :: UInt64
  m_read_misses :: UInt64
  m_write_misses :: UInt64

text \<open>\<^verbatim>\<open>setCState\<close> through the pointer that \<^verbatim>\<open>peekSingleLine\<close> returns.\<close>

definition set_block_cstate :: "Cache \<Rightarrow> IntPtr \<Rightarrow> cstate_t \<Rightarrow> Cache res" where
  "set_block_cstate c addr cstate =
     bindE (splitAddress (c_base c) addr)
     (\<lambda>(tag, set_index). bindE (get_set c set_index)
     (\<lambda>s. case set_find s tag of
        None \<Rightarrow> Inl NullPointer
      | Some i \<Rightarrow> Inr (put_set c set_index
                       (s\<lparr>cs_blocks := (cs_blocks s)[i := (cs_blocks s ! i)\<lparr>m_cstate := cstate\<rparr>]\<rparr>))))"

text \<open>The result of a read is whether it hit, the bytes copied (if the cache holds data) and the latency.\<close>

definition nuca_read :: "NucaCache \<Rightarrow> IntPtr \<Rightarrow> UInt64 \<Rightarrow> bool \<Rightarrow> (bool \<times> Byte list option \<times> UInt64 \<times> NucaCache) res" where
  "nuca_read n address now count =
     bindE (peekSingleLine (n_cache n) address)
     (\<lambda>block_info. let latency = n_tags_access_time n in
        bindE (case block_info of
                 Some b \<Rightarrow>
                   bindE (accessSingleLine (n_cache n) address LOAD (Some []) (n_cache_block_size n) True)
                   (\<lambda>(found, out, c). Inr (True, out, latency + n_data_latency n LOAD (now + latency), n\<lparr>n_cache := c\<rparr>))
               | None \<Rightarrow> Inr (False, None, latency, if count then n\<lparr>m_read_misses := m_read_misses n + 1\<rparr> else n))
        (\<lambda>(hit, out, latency, n). Inr (hit, out, latency, if count then n\<lparr>m_reads := m_reads n + 1\<rparr> else n)))"

text \<open>
  The output arguments of \<^verbatim>\<open>write\<close> are assigned on a miss only: \<open>None\<close> stands for arguments that keep
  the value the caller's variables had.
\<close>

definition nuca_write ::
  "NucaCache \<Rightarrow> IntPtr \<Rightarrow> Byte list option \<Rightarrow> bool \<Rightarrow> ((bool \<times> IntPtr \<times> Byte list option) option \<times> NucaCache) res" where
  "nuca_write n address data_buf count =
     bindE (peekSingleLine (n_cache n) address)
     (\<lambda>block_info.
        bindE (case block_info of
                 Some b \<Rightarrow>
                   bindE (set_block_cstate (n_cache n) address MODIFIED)
                   (\<lambda>c. bindE (accessSingleLine c address STORE data_buf (n_cache_block_size n) True)
                   (\<lambda>(found, out, c). Inr (None, n\<lparr>n_cache := c\<rparr>)))
               | None \<Rightarrow>
                   bindE (insertSingleLine (n_cache n) address data_buf (createBlock PR_L1_CACHE) True None)
                   (\<lambda>(out, evict_address, c).
                      let evict = (if eviction out then m_cstate (evict_block_info out) = MODIFIED else False)
                      in Inr (Some (evict, evict_address, evict_buff out),
                              if count then n\<lparr>n_cache := c, m_write_misses := m_write_misses n + 1\<rparr> else n\<lparr>n_cache := c\<rparr>)))
        (\<lambda>(out, n). Inr (out, if count then n\<lparr>m_writes := m_writes n + 1\<rparr> else n)))"

section \<open>A written line is present\<close>

lemma set_block_cstate_wf:
  assumes wf: "cache_wf c" and set: "set_block_cstate c a st = Inr c'"
  shows "cache_wf c' \<and> peekSingleLine c' a \<noteq> Inr None \<and> line c' = line c \<and> m_cache_type c' = m_cache_type c"
proof -
  obtain idx where idx: "splitAddress (c_base c) a = Inr (line c a, idx)" "unat idx < length (m_sets c)"
    and s: "get_set c idx = Inr (m_sets c ! unat idx)"
      "set_wf policy_inv (m_cache_type c) (unat (m_associativity (c_base c))) (m_sets c ! unat idx)"
    by (rule cache_split [OF wf])
  let ?s = "m_sets c ! unat idx"
  obtain i where i: "set_find ?s (line c a) = Some i"
    and c': "c' = put_set c idx (?s\<lparr>cs_blocks := (cs_blocks ?s)[i := (cs_blocks ?s ! i)\<lparr>m_cstate := st\<rparr>]\<rparr>)"
    using set idx s(1) by (auto simp: set_block_cstate_def bindE_Inr_iff split: option.splits)
  define s' where "s' = ?s\<lparr>cs_blocks := (cs_blocks ?s)[i := (cs_blocks ?s ! i)\<lparr>m_cstate := st\<rparr>]\<rparr>"
  let ?b = "(cs_blocks ?s ! i)\<lparr>m_cstate := st\<rparr>"
  have lt: "i < length (cs_blocks ?s)" "m_tag (cs_blocks ?s ! i) = line c a" using set_find_SomeD [OF i] by auto
  have u: "tags_unique (cs_blocks ?s)" using s(2) by (simp add: set_wf_def)
  have valid: "line c a \<noteq> NOT 0" using wf line_not_invalid unfolding cache_wf_def by blast
  have new: "isValid ?b \<longrightarrow> (\<forall>j<length (cs_blocks ?s). j \<noteq> i \<longrightarrow> m_tag (cs_blocks ?s ! j) \<noteq> m_tag ?b)"
    using u lt valid unfolding tags_unique_def isValid_def by force
  have blocks: "cs_blocks s' = (cs_blocks ?s)[i := ?b]" by (simp add: s'_def)
  have map': "set_map s' = (\<lambda>tag. if isValid ?b \<and> tag = m_tag ?b then Some ?b
     else if tag = m_tag (cs_blocks ?s ! i) then None else set_map ?s tag)"
    by (rule set_map_update [OF u lt(1) new blocks])
  have ok: "block_ok (m_cache_type c) ?b" using s(2) lt(1) by (auto simp: set_wf_def block_ok_def)
  have wf_s': "set_wf policy_inv (m_cache_type c) (unat (m_associativity (c_base c))) s'"
    using s(2) tags_unique_update [OF u lt(1) new] ok
    by (auto simp: set_wf_def s'_def dest!: set_update_subset_insert [THEN subsetD])
  have wf': "cache_wf c'"
  proof (rule put_set_wf [OF wf idx(2) wf_s'])
    show "cs_blocksize s' = m_blocksize (c_base c)" using wf idx(2) by (auto simp: cache_wf_def s'_def)
    show "\<exists>addr. splitAddress (c_base c) addr = Inr (tag, idx)" if "set_map s' tag \<noteq> None" for tag
      using that tag_at_home [OF wf idx(2), of tag] idx(1) lt(2) by (auto simp: map' split: if_splits)
  qed (simp_all add: c' put_set_def s'_def)
  have "c_base c' = c_base c" "m_sets c' = (m_sets c)[unat idx := s']" by (simp_all add: c' put_set_def s'_def)
  from put_set_peek [OF wf wf' idx(2) this idx(1)] have "peekSingleLine c' a \<noteq> Inr None"
    using lt(2) valid by (simp add: map' isValid_def)
  then show ?thesis using wf' by (auto simp: line_def fun_eq_iff c' put_set_def)
qed

lemma nuca_write_hit:
  assumes wf: "cache_wf (n_cache n)" and hit: "peekSingleLine (n_cache n) a = Inr (Some b)"
    and w: "nuca_write n a data count = Inr (out, n')"
  shows "cache_wf (n_cache n') \<and> peekSingleLine (n_cache n') a \<noteq> Inr None \<and> out = None"
proof -
  obtain c1 found x c2 where st: "set_block_cstate (n_cache n) a MODIFIED = Inr c1"
    and acc: "accessSingleLine c1 a STORE data (n_cache_block_size n) True = Inr (found, x, c2)"
    and n': "n_cache n' = c2" "out = None"
    using w hit by (auto simp: nuca_write_def bindE_Inr_iff split: if_splits)
  from set_block_cstate_wf [OF wf st] accessSingleLine_map [OF _ acc] n' show ?thesis by auto
qed

lemma nuca_write_miss:
  assumes wf: "cache_wf (n_cache n)" and miss: "peekSingleLine (n_cache n) a = Inr None"
    and w: "nuca_write n a data count = Inr (out, n')"
  shows "cache_wf (n_cache n') \<and> peekSingleLine (n_cache n') a \<noteq> Inr None \<and>
    (\<exists>evict addr buf. out = Some (evict, addr, buf) \<and>
      (evict \<longrightarrow> (\<exists>old. peekSingleLine (n_cache n) addr = Inr (Some old) \<and> m_cstate old = MODIFIED)))"
proof -
  obtain o1 addr c2 where ins: "insertSingleLine (n_cache n) a data (createBlock PR_L1_CACHE) True None = Inr (o1, addr, c2)"
    using w miss by (cases "insertSingleLine (n_cache n) a data (createBlock PR_L1_CACHE) True None")
      (auto simp: nuca_write_def)
  have n': "n_cache n' = c2"
    and out: "out = Some (if eviction o1 then m_cstate (evict_block_info o1) = MODIFIED else False, addr, evict_buff o1)"
    using w unfolding nuca_write_def miss bindE_simps option.case ins Let_def prod.case by (auto split: if_splits)
  note look = insertSingleLine_lookup [OF wf ins miss]
  have "peekSingleLine c2 a \<noteq> Inr None" using look [THEN conjunct2, THEN conjunct2, rule_format, of a] by simp
  moreover have "\<exists>old. peekSingleLine (n_cache n) addr = Inr (Some old) \<and> m_cstate old = MODIFIED"
    if "if eviction o1 then m_cstate (evict_block_info o1) = MODIFIED else False"
    using that look [THEN conjunct2, THEN conjunct1] by (auto split: if_splits)
  ultimately show ?thesis using n' out look [THEN conjunct1] by blast
qed

text \<open>A line written to the NUCA cache is there: after a write that returns, the cache is well-formed and the
  line is present, so that the next read hits; a write-back is requested only of a line that was present and modified.
  On a hit the write leaves the caller's eviction flag unassigned.\<close>

theorem nuca_write_then_read_hits:
  assumes "cache_wf (n_cache n)" and "nuca_write n a data count = Inr (out, n')"
  shows "cache_wf (n_cache n') \<and>
    (\<forall>now cnt hit bytes lat n''. nuca_read n' a now cnt = Inr (hit, bytes, lat, n'') \<longrightarrow> hit) \<and>
    (out = None \<longleftrightarrow> peekSingleLine (n_cache n) a \<noteq> Inr None) \<and>
    (\<forall>addr buf. out = Some (True, addr, buf) \<longrightarrow>
       (\<exists>old. peekSingleLine (n_cache n) addr = Inr (Some old) \<and> m_cstate old = MODIFIED))"
proof -
  obtain r where r: "peekSingleLine (n_cache n) a = Inr r" using assms(2) by (auto simp: nuca_write_def bindE_Inr_iff)
  have ok: "cache_wf (n_cache n') \<and> peekSingleLine (n_cache n') a \<noteq> Inr None \<and> (out = None \<longleftrightarrow> r \<noteq> None) \<and>
    (\<forall>addr buf. out = Some (True, addr, buf) \<longrightarrow>
       (\<exists>old. peekSingleLine (n_cache n) addr = Inr (Some old) \<and> m_cstate old = MODIFIED))"
    using nuca_write_hit [OF assms(1) _ assms(2)] nuca_write_miss [OF assms(1) _ assms(2)] r by (cases r) auto
  have "hit" if "nuca_read n' a now cnt = Inr (hit, bytes, lat, n'')" for now cnt hit bytes lat n''
    using that ok by (auto simp: nuca_read_def bindE_Inr_iff Let_def split: option.splits)
  then show ?thesis using ok r by auto
qed

definition demo_nuca :: NucaCache where
  "demo_nuca = \<lparr>n_cache = demo_cache, n_cache_block_size = 16, n_tags_access_time = 3, n_data_latency = (\<lambda>_ _. 5),
     m_reads = 0, m_writes = 0, m_read_misses = 0, m_write_misses = 0\<rparr>"

theorem nuca_write_then_read_hits_witness:
  "\<exists>out n'. nuca_write demo_nuca 0x40 None True = Inr (out, n') \<and> cache_wf (n_cache n') \<and>
    (\<forall>now cnt hit bytes lat n''. nuca_read n' 0x40 now cnt = Inr (hit, bytes, lat, n'') \<longrightarrow> hit)"
proof -
  obtain o1 addr c where "insertSingleLine demo_cache 0x40 None (createBlock PR_L1_CACHE) True None = Inr (o1, addr, c)"
    using insertSingleLine_fills [OF demo_cache_ok(1) demo_split demo_pre(1,3,2) demo_cache_ok(2)] by (metis option.distinct(1))
  then obtain out n' where w: "nuca_write demo_nuca 0x40 None True = Inr (out, n')"
    using demo_cache_ok(2) [of "0x40"] by (simp add: nuca_write_def demo_nuca_def)
  have "cache_wf (n_cache demo_nuca)" using demo_cache_ok(1) by (simp add: demo_nuca_def)
  from nuca_write_then_read_hits [OF this w] w show ?thesis by blast
qed

end
