(* ===== verification/LS_Directory_Cntlr.thy ===== *)
theory LS_Directory_Cntlr
  imports LS_Directory_Cache LS_Req_Queue LS_Nuca
begin

unbundle bit_operations_syntax

text \<open>
  The directory controller
  (\<^verbatim>\<open>common/core/memory_subsystem/pr_l1_pr_l2_dram_directory_msi/dram_directory_cntlr.cc\<close>), which
  implements the MSI, MESI and MESIF protocols: one definition per method, on a state that holds the
  directory cache, the queues of requests, the NUCA slice, the clock of the simulation thread and the
  messages sent. The per-request latency breakdown (\<^verbatim>\<open>ShmemPerf\<close>), which no branch reads, is
  left out.
\<close>

section \<open>Messages and requests\<close>

datatype msg_t =
    INVALID_MSG_TYPE | EX_REQ | SH_REQ | UPGRADE_REQ | INV_REQ | FLUSH_REQ | WB_REQ
  | EX_REP | SH_REP | UPGRADE_REP | INV_REP | FLUSH_REP | WB_REP | NULLIFY_REQ
  | DRAM_READ_REQ | DRAM_WRITE_REQ | DRAM_READ_REP

text \<open>The values of \<^verbatim>\<open>HitWhere::where_t\<close> that the controller uses.\<close>

datatype where_t = W_UNKNOWN | W_NUCA_CACHE | W_DRAM_CACHE | W_DRAM | W_DRAM_LOCAL | W_DRAM_REMOTE | W_CACHE_REMOTE

text \<open>
  A data buffer is \<open>None\<close> for a null pointer; \<open>Some []\<close> stands for a buffer of a block whose bytes no
  one has written, as caches without a data array hand out.
\<close>

record ShmemMsg =
  m_msg_type :: msg_t
  m_requester :: core_id_t
  m_where :: where_t
  msg_address :: IntPtr
  m_data_buf :: "Byte list option"

record ShmemReq =
  m_shmem_msg :: ShmemMsg
  m_time :: UInt64
  m_wait_for_data :: bool
  m_forwarding_from :: core_id_t

definition mk_ShmemReq :: "ShmemMsg \<Rightarrow> UInt64 \<Rightarrow> ShmemReq res" where
  "mk_ShmemReq shmem_msg time =
     bindE (assertE (m_data_buf shmem_msg = None) (LogError ''Shmem Reqs should not have data payloads''))
     (\<lambda>_. Inr \<lparr>m_shmem_msg = shmem_msg, m_time = time, m_wait_for_data = False, m_forwarding_from = INVALID_CORE_ID\<rparr>)"

definition req_updateTime :: "ShmemReq \<Rightarrow> UInt64 \<Rightarrow> ShmemReq" where
  "req_updateTime r time = (if time > m_time r then r\<lparr>m_time := time\<rparr> else r)"

definition isForwarding :: "ShmemReq \<Rightarrow> bool" where
  "isForwarding r = (m_forwarding_from r \<noteq> INVALID_CORE_ID)"

text \<open>What \<^verbatim>\<open>sendMsg\<close> and \<^verbatim>\<open>broadcastMsg\<close> hand to the network; a broadcast has no receiver.\<close>

record NetMsg =
  n_type :: msg_t
  n_component :: mem_component_t
  n_requester :: core_id_t
  n_receiver :: "core_id_t option"
  n_address :: IntPtr
  n_data :: "Byte list option"
  n_where :: where_t

section \<open>State\<close>

datatype protocol_t = MSI | MESI | MESIF

record DirCntlr =
  m_dram_directory_cache :: DramDirectoryCache
  m_req_queues :: "ShmemReq ReqQueueList"
  m_nuca_cache :: "NucaCache option"
  m_dram_home_lookup :: AddressHomeLookup
  m_core_id :: core_id_t
  m_protocol :: protocol_t
  evict_count :: "dstate_t \<Rightarrow> UInt64"
  forward :: UInt64
  forward_failed :: UInt64
  m_elapsed_time :: UInt64
  m_sent :: "NetMsg list"
  stale_eviction :: "bool \<times> IntPtr"

text \<open>\<open>stale_eviction\<close> is what the uninitialised locals \<^verbatim>\<open>eviction\<close> and \<^verbatim>\<open>evict_address\<close> of
  \<^verbatim>\<open>sendDataToNUCA\<close> hold when \<^verbatim>\<open>NucaCache::write\<close> does not assign them.\<close>

definition parseProtocol :: "string \<Rightarrow> protocol_t res" where
  "parseProtocol protocol =
     (if protocol = ''msi'' then Inr MSI
      else if protocol = ''mesi'' then Inr MESI
      else if protocol = ''mesif'' then Inr MESIF
      else Inl (LogError ''Invalid coherency protocol %s, must be msi, mesi or mesif''))"

definition mk_DirCntlr ::
  "core_id_t \<Rightarrow> AddressHomeLookup \<Rightarrow> NucaCache option \<Rightarrow> DramDirectoryCache \<Rightarrow> string \<Rightarrow> (dstate_t \<Rightarrow> UInt64) \<Rightarrow> bool \<times> IntPtr
     \<Rightarrow> DirCntlr res" where
  "mk_DirCntlr core_id home nuca ddc protocol junk_evict stale =
     bindE (parseProtocol protocol)
     (\<lambda>p. Inr \<lparr>m_dram_directory_cache = ddc, m_req_queues = (\<lambda>_. None), m_nuca_cache = nuca,
                m_dram_home_lookup = home, m_core_id = core_id, m_protocol = p,
                evict_count = (\<lambda>s. if s = DIR_UNCACHED then junk_evict s else 0),
                forward = 0, forward_failed = 0, m_elapsed_time = 0, m_sent = [], stale_eviction = stale\<rparr>)"

definition sendMsg ::
  "msg_t \<Rightarrow> mem_component_t \<Rightarrow> core_id_t \<Rightarrow> core_id_t \<Rightarrow> IntPtr \<Rightarrow> Byte list option \<Rightarrow> where_t \<Rightarrow> DirCntlr \<Rightarrow> DirCntlr" where
  "sendMsg ty recv_mem requester receiver address data wh st =
     st\<lparr>m_sent := m_sent st @ [\<lparr>n_type = ty, n_component = recv_mem, n_requester = requester, n_receiver = Some receiver,
        n_address = address, n_data = data, n_where = wh\<rparr>]\<rparr>"

definition broadcastMsg :: "msg_t \<Rightarrow> mem_component_t \<Rightarrow> core_id_t \<Rightarrow> IntPtr \<Rightarrow> DirCntlr \<Rightarrow> DirCntlr" where
  "broadcastMsg ty recv_mem requester address st =
     st\<lparr>m_sent := m_sent st @ [\<lparr>n_type = ty, n_component = recv_mem, n_requester = requester, n_receiver = None,
        n_address = address, n_data = None, n_where = W_UNKNOWN\<rparr>]\<rparr>"

text \<open>Access to the directory and to the request in service.\<close>

definition dc_getEntry :: "DirCntlr \<Rightarrow> IntPtr \<Rightarrow> bool \<Rightarrow> (entry_loc option \<times> DirCntlr) res" where
  "dc_getEntry st address modeled =
     bindE (getDirectoryEntry (m_dram_directory_cache st) (m_elapsed_time st) address modeled)
     (\<lambda>(l, c, now). Inr (l, st\<lparr>m_dram_directory_cache := c, m_elapsed_time := now\<rparr>))"

definition dc_read :: "DirCntlr \<Rightarrow> entry_loc \<Rightarrow> DirectoryEntry res" where
  "dc_read st l = ddc_read (m_dram_directory_cache st) l"

definition dc_write :: "DirCntlr \<Rightarrow> entry_loc \<Rightarrow> DirectoryEntry \<Rightarrow> DirCntlr" where
  "dc_write st l e = st\<lparr>m_dram_directory_cache := ddc_write (m_dram_directory_cache st) l e\<rparr>"

definition update_front :: "DirCntlr \<Rightarrow> IntPtr \<Rightarrow> (ShmemReq \<Rightarrow> ShmemReq) \<Rightarrow> DirCntlr" where
  "update_front st address f = st\<lparr>m_req_queues := rq_update_front (m_req_queues st) address f\<rparr>"

section \<open>Data to and from memory\<close>

definition sendDataToNUCA :: "IntPtr \<Rightarrow> Byte list option \<Rightarrow> bool \<Rightarrow> DirCntlr \<Rightarrow> DirCntlr res" where
  "sendDataToNUCA address data_buf count st =
     (case m_nuca_cache st of
        None \<Rightarrow> Inr st
      | Some n \<Rightarrow>
          bindE (nuca_write n address data_buf count)
          (\<lambda>(out, n). let st = st\<lparr>m_nuca_cache := Some n\<rparr>;
                          (ev, evict_address, evict_buf) =
                            (case out of Some x \<Rightarrow> x | None \<Rightarrow> (fst (stale_eviction st), snd (stale_eviction st), None))
             in if ev
                then bindE (getHome (m_dram_home_lookup st) evict_address)
                     (\<lambda>dram_node. Inr (sendMsg DRAM_WRITE_REQ DRAM (m_core_id st) dram_node evict_address
                                         (case evict_buf of Some b \<Rightarrow> Some b | None \<Rightarrow> Some []) W_UNKNOWN st))
                else Inr st))"

definition sendDataToDram :: "IntPtr \<Rightarrow> core_id_t \<Rightarrow> Byte list option \<Rightarrow> DirCntlr \<Rightarrow> DirCntlr res" where
  "sendDataToDram address requester data_buf st =
     (if m_nuca_cache st \<noteq> None
      then sendDataToNUCA address data_buf True st
      else bindE (getHome (m_dram_home_lookup st) address)
           (\<lambda>dram_node. Inr (sendMsg DRAM_WRITE_REQ DRAM requester dram_node address data_buf W_UNKNOWN st)))"

text \<open>\<open>next\<close> is \<^verbatim>\<open>processNextReqFromL2Cache\<close>, with which the methods below are mutually recursive.\<close>

type_synonym next_req = "IntPtr \<Rightarrow> DirCntlr \<Rightarrow> DirCntlr res"

definition retrieve_from_memory :: "core_id_t \<Rightarrow> IntPtr \<Rightarrow> entry_loc \<Rightarrow> DirCntlr \<Rightarrow> DirCntlr res" where
  "retrieve_from_memory receiver address l st =
     bindE (assertE (rq_size (m_req_queues st) address > 0) (AssertError ''size(address) > 0''))
     (\<lambda>_. bindE (rq_front (m_req_queues st) address)
     (\<lambda>shmem_req. bindE (dc_read st l)
     (\<lambda>directory_entry.
        if m_protocol st = MESIF \<and> m_forwarding_from shmem_req = INVALID_CORE_ID
           \<and> m_dstate directory_entry = DIR_SHARED \<and> m_forwarder_id directory_entry \<noteq> INVALID_CORE_ID
        then let forwarder = m_forwarder_id directory_entry;
                 st = update_front st address (\<lambda>r. r\<lparr>m_forwarding_from := forwarder\<rparr>)
             in Inr (sendMsg WB_REQ L2_CACHE receiver forwarder address None W_UNKNOWN st)
        else let st = update_front st address (\<lambda>r. r\<lparr>m_wait_for_data := True\<rparr>)
             in bindE (getHome (m_dram_home_lookup st) address)
                (\<lambda>dram_node. Inr (sendMsg DRAM_READ_REQ DRAM receiver dram_node address None W_UNKNOWN st)))))"

definition retrieveDataAndSendToL2Cache ::
  "next_req \<Rightarrow> msg_t \<Rightarrow> core_id_t \<Rightarrow> IntPtr \<Rightarrow> Byte list option \<Rightarrow> DirCntlr \<Rightarrow> DirCntlr res" where
  "retrieveDataAndSendToL2Cache next reply_msg_type receiver address cached_data_buf st =
     bindE (dc_getEntry st address False)
     (\<lambda>(l, st). case l of
        None \<Rightarrow> Inl (AssertError ''directory_entry != NULL'')
      | Some l \<Rightarrow>
          if cached_data_buf \<noteq> None
          then bindE (dc_read st l)
               (\<lambda>e. next address (sendMsg reply_msg_type L2_CACHE receiver receiver address cached_data_buf W_CACHE_REMOTE
                                    (dc_write st l (e\<lparr>m_forwarder_id := receiver\<rparr>))))
          else
            (case m_nuca_cache st of
               None \<Rightarrow> retrieve_from_memory receiver address l st
             | Some n \<Rightarrow>
                 bindE (nuca_read n address (m_elapsed_time st) True)
                 (\<lambda>(hit, data, nuca_latency, n).
                    bindE (incrElapsedTime (m_elapsed_time st) nuca_latency)
                    (\<lambda>now. let st = st\<lparr>m_nuca_cache := Some n, m_elapsed_time := now\<rparr>
                       in if hit
                          then next address (sendMsg reply_msg_type L2_CACHE receiver receiver address
                                 (case data of Some b \<Rightarrow> Some b | None \<Rightarrow> Some []) W_NUCA_CACHE st)
                          else retrieve_from_memory receiver address l st))))"

section \<open>Requests\<close>

definition send_inv_reqs :: "core_id_t \<Rightarrow> IntPtr \<Rightarrow> bool \<times> core_id_t list \<Rightarrow> DirCntlr \<Rightarrow> DirCntlr" where
  "send_inv_reqs requester address sharers st =
     (if fst sharers
      then broadcastMsg INV_REQ L2_CACHE requester address st
      else fold (\<lambda>c st. sendMsg INV_REQ L2_CACHE requester c address None W_UNKNOWN st) (snd sharers) st)"

definition processNullifyReq :: "next_req \<Rightarrow> ShmemReq \<Rightarrow> DirCntlr \<Rightarrow> DirCntlr res" where
  "processNullifyReq next shmem_req st =
     (let address = msg_address (m_shmem_msg shmem_req); requester = m_requester (m_shmem_msg shmem_req) in
      bindE (dc_getEntry st address False)
      (\<lambda>(l, st). case l of
         None \<Rightarrow> Inl (AssertError ''directory_entry'')
       | Some l \<Rightarrow>
           bindE (dc_read st l)
           (\<lambda>e. case m_dstate e of
              DIR_EXCLUSIVE \<Rightarrow> Inr (sendMsg FLUSH_REQ L2_CACHE requester (m_owner_id e) address None W_UNKNOWN st)
            | DIR_MODIFIED \<Rightarrow> Inr (sendMsg FLUSH_REQ L2_CACHE requester (m_owner_id e) address None W_UNKNOWN st)
            | DIR_SHARED \<Rightarrow> Inr (send_inv_reqs requester address (getSharersList e) st)
            | DIR_UNCACHED \<Rightarrow>
                bindE (invalidateDirectoryEntry (m_dram_directory_cache st) address)
                (\<lambda>c. next address (st\<lparr>m_dram_directory_cache := c\<rparr>))
            | DIR_OWNED \<Rightarrow> Inl (LogError ''Unsupported Directory State: %u''))))"

text \<open>The candidate with the fewest sharers among those without requests, the first one of these.\<close>

fun pick_candidate ::
  "DirCntlr \<Rightarrow> UInt32 list \<Rightarrow> (UInt32 \<times> DirectoryEntry) option \<Rightarrow> (UInt32 \<times> DirectoryEntry) option res" where
  "pick_candidate st [] best = Inr best"
| "pick_candidate st (n # ns) best =
     bindE (dc_read st (Slot n))
     (\<lambda>e. pick_candidate st ns
        (if (case best of None \<Rightarrow> True | Some (b, be) \<Rightarrow> getNumSharers be > getNumSharers e)
            \<and> rq_size (m_req_queues st) (m_address e) = 0
         then Some (n, e) else best))"

definition processDirectoryEntryAllocationReq ::
  "next_req \<Rightarrow> ShmemReq \<Rightarrow> DirCntlr \<Rightarrow> (entry_loc \<times> DirCntlr) res" where
  "processDirectoryEntryAllocationReq next shmem_req st =
     (let address = msg_address (m_shmem_msg shmem_req); requester = m_requester (m_shmem_msg shmem_req);
          msg_time = m_elapsed_time st in
      bindE (getReplacementCandidates (m_dram_directory_cache st) (m_elapsed_time st) address)
      (\<lambda>(slots, c). let st = st\<lparr>m_dram_directory_cache := c\<rparr> in
       bindE (pick_candidate st slots None)
       (\<lambda>candidate. case candidate of
          None \<Rightarrow> Inl (LogError ''Cannot find a directory entry to be replaced with a non-zero request list (see Redmine #175)'')
        | Some (n, e) \<Rightarrow>
            let curr_dstate = m_dstate e; replaced_address = m_address e;
                st = st\<lparr>evict_count := (evict_count st)(curr_dstate := evict_count st curr_dstate + 1)\<rparr> in
            bindE (replaceDirectoryEntry (m_dram_directory_cache st) (m_elapsed_time st) replaced_address address True)
            (\<lambda>(l, c, now). let st = st\<lparr>m_dram_directory_cache := c, m_elapsed_time := now\<rparr>;
                               nullify_msg = \<lparr>m_msg_type = NULLIFY_REQ, m_requester = requester, m_where = W_UNKNOWN,
                                              msg_address = replaced_address, m_data_buf = None\<rparr> in
             bindE (mk_ShmemReq nullify_msg msg_time)
             (\<lambda>nullify_req. let st = st\<lparr>m_req_queues := rq_enqueue (m_req_queues st) replaced_address nullify_req\<rparr> in
              bindE (assertE (rq_size (m_req_queues st) replaced_address = 1) (AssertError ''size(replaced_address) == 1''))
              (\<lambda>_. bindE (processNullifyReq next nullify_req st)
              (\<lambda>st. Inr (l, st))))))))"

text \<open>Common start of the three kinds of requests: find the entry, or make room for one.\<close>

definition find_or_allocate :: "next_req \<Rightarrow> ShmemReq \<Rightarrow> DirCntlr \<Rightarrow> (entry_loc \<times> DirCntlr) res" where
  "find_or_allocate next shmem_req st =
     bindE (dc_getEntry st (msg_address (m_shmem_msg shmem_req)) False)
     (\<lambda>(l, st). case l of
        Some l \<Rightarrow> Inr (l, st)
      | None \<Rightarrow> processDirectoryEntryAllocationReq next shmem_req st)"

text \<open>Enter the requester into an entry that has no sharers, with a new state.\<close>

definition make_owner :: "core_id_t \<Rightarrow> dstate_t \<Rightarrow> entry_loc \<Rightarrow> DirectoryEntry \<Rightarrow> DirCntlr \<Rightarrow> DirCntlr res" where
  "make_owner requester dstate l e st =
     bindE (addSharer e requester (ddc_getMaxHwSharers (m_dram_directory_cache st)))
     (\<lambda>(add_result, e). bindE (assertE add_result (AssertError ''add_result == true''))
     (\<lambda>_. bindE (setOwner e requester)
     (\<lambda>e. Inr (dc_write st l (e\<lparr>m_dstate := dstate\<rparr>)))))"

definition processExReqFromL2Cache :: "next_req \<Rightarrow> ShmemReq \<Rightarrow> Byte list option \<Rightarrow> DirCntlr \<Rightarrow> DirCntlr res" where
  "processExReqFromL2Cache next shmem_req cached_data_buf st =
     (let address = msg_address (m_shmem_msg shmem_req); requester = m_requester (m_shmem_msg shmem_req) in
      bindE (find_or_allocate next shmem_req st)
      (\<lambda>(l, st). bindE (dc_read st l)
      (\<lambda>e. let flush =
                 bindE (assertE (cached_data_buf = None) (AssertError ''cached_data_buf == NULL''))
                 (\<lambda>_. Inr (sendMsg FLUSH_REQ L2_CACHE requester (m_owner_id e) address None W_UNKNOWN st)) in
         case m_dstate e of
           DIR_EXCLUSIVE \<Rightarrow> flush
         | DIR_MODIFIED \<Rightarrow> flush
         | DIR_SHARED \<Rightarrow>
             bindE (assertE (cached_data_buf = None) (AssertError ''cached_data_buf == NULL''))
             (\<lambda>_. Inr (send_inv_reqs requester address (getSharersList e) st))
         | DIR_UNCACHED \<Rightarrow>
             bindE (make_owner requester DIR_MODIFIED l e st)
             (\<lambda>st. retrieveDataAndSendToL2Cache next EX_REP requester address cached_data_buf st)
         | DIR_OWNED \<Rightarrow> Inl (LogError ''Unsupported Directory State: %u''))))"

definition processShReqFromL2Cache :: "next_req \<Rightarrow> ShmemReq \<Rightarrow> Byte list option \<Rightarrow> DirCntlr \<Rightarrow> DirCntlr res" where
  "processShReqFromL2Cache next shmem_req cached_data_buf st =
     (let address = msg_address (m_shmem_msg shmem_req); requester = m_requester (m_shmem_msg shmem_req) in
      bindE (find_or_allocate next shmem_req st)
      (\<lambda>(l, st). bindE (dc_read st l)
      (\<lambda>e. let wb = bindE (assertE (cached_data_buf = None) (AssertError ''cached_data_buf == NULL''))
                 (\<lambda>_. Inr (sendMsg WB_REQ L2_CACHE requester (m_owner_id e) address None W_UNKNOWN st)) in
         case m_dstate e of
           DIR_EXCLUSIVE \<Rightarrow>
             bindE (assertE (requester \<noteq> m_owner_id e) (AssertError ''requester != directory_entry->getOwner()'')) (\<lambda>_. wb)
         | DIR_MODIFIED \<Rightarrow> wb
         | DIR_SHARED \<Rightarrow>
             bindE (hasSharer e requester)
             (\<lambda>present.
                if present
                then let st = st\<lparr>forward := forward st + 1,
                                 forward_failed := (if cached_data_buf = None then forward_failed st + 1 else forward_failed st)\<rparr>
                     in retrieveDataAndSendToL2Cache next SH_REP requester address cached_data_buf st
                else
                  bindE (addSharer e requester (ddc_getMaxHwSharers (m_dram_directory_cache st)))
                  (\<lambda>(add_result, e).
                     if \<not> add_result
                     then bindE (getOneSharer e)
                          (\<lambda>(sharer_id, e). Inr (sendMsg INV_REQ L2_CACHE requester sharer_id address None W_UNKNOWN
                                                    (dc_write st l e)))
                     else retrieveDataAndSendToL2Cache next SH_REP requester address cached_data_buf (dc_write st l e)))
         | DIR_UNCACHED \<Rightarrow>
             (if m_protocol st = MSI
              then bindE (make_owner requester DIR_SHARED l e st)
                   (\<lambda>st. retrieveDataAndSendToL2Cache next SH_REP requester address cached_data_buf st)
              else bindE (make_owner requester DIR_EXCLUSIVE l e st)
                   (\<lambda>st. retrieveDataAndSendToL2Cache next EX_REP requester address cached_data_buf st))
         | DIR_OWNED \<Rightarrow> Inl (LogError ''Unsupported Directory State: %u''))))"

text \<open>The invalidations of an upgrade: all sharers but the requester, of which the first on the list is asked to
  flush when the requester has lost its own copy.\<close>

definition send_upgrade_invs :: "core_id_t \<Rightarrow> IntPtr \<Rightarrow> bool \<Rightarrow> bool \<times> core_id_t list \<Rightarrow> DirCntlr \<Rightarrow> DirCntlr" where
  "send_upgrade_invs requester address requesterHasCopy sharers st =
     (if fst sharers
      then broadcastMsg INV_REQ L2_CACHE requester address st
      else fold (\<lambda>(i, c) st. if c \<noteq> requester
                   then sendMsg (if \<not> requesterHasCopy \<and> i = 0 then FLUSH_REQ else INV_REQ) L2_CACHE requester c address
                          None W_UNKNOWN st
                   else st)
             (enumerate (0 :: nat) (snd sharers)) st)"

definition processUpgradeReqFromL2Cache :: "next_req \<Rightarrow> ShmemReq \<Rightarrow> Byte list option \<Rightarrow> DirCntlr \<Rightarrow> DirCntlr res" where
  "processUpgradeReqFromL2Cache next shmem_req cached_data_buf st =
     (let shmem_msg = m_shmem_msg shmem_req; address = msg_address shmem_msg; requester = m_requester shmem_msg in
      bindE (find_or_allocate next shmem_req st)
      (\<lambda>(l, st). bindE (dc_read st l)
      (\<lambda>e. let sharers = getSharersList e;
               owned =
                 (case snd sharers of
                    [] \<Rightarrow> Inl OutOfRange
                  | c # cs \<Rightarrow>
                      if c = requester
                      then bindE (assertE (m_owner_id e = requester) (AssertError ''getOwner() == requester''))
                           (\<lambda>_. next address (dc_write (sendMsg UPGRADE_REP L2_CACHE requester requester address None W_UNKNOWN st)
                                               l (e\<lparr>m_dstate := DIR_MODIFIED\<rparr>)))
                      else Inr (sendMsg FLUSH_REQ L2_CACHE requester (m_owner_id e) address None W_UNKNOWN st)) in
         case m_dstate e of
           DIR_EXCLUSIVE \<Rightarrow> owned
         | DIR_MODIFIED \<Rightarrow> owned
         | DIR_SHARED \<Rightarrow>
             (if snd sharers = [requester]
              then bindE (setOwner e requester)
                   (\<lambda>e. next address (sendMsg UPGRADE_REP L2_CACHE requester requester address None W_UNKNOWN
                                       (dc_write st l (e\<lparr>m_dstate := DIR_MODIFIED\<rparr>))))
              else bindE (hasSharer e requester)
                   (\<lambda>requesterHasCopy. Inr (send_upgrade_invs requester address requesterHasCopy sharers st)))
         | DIR_UNCACHED \<Rightarrow>
             bindE (assertE (length (snd sharers) = 0) (AssertError ''sharers_list_pair.second.size() == 0''))
             (\<lambda>_. bindE (make_owner requester DIR_MODIFIED l e st)
             (\<lambda>st. retrieveDataAndSendToL2Cache next EX_REP requester address
                     (if cached_data_buf = None then m_data_buf shmem_msg else cached_data_buf) st))
         | DIR_OWNED \<Rightarrow> Inl (LogError ''Unsupported Directory State: %u''))))"

text \<open>
  \<^verbatim>\<open>processNextReqFromL2Cache\<close>, after the dispatch on the kind of a request. Every call removes a request from the queue, so the recursion ends; \<open>n\<close> bounds its
  depth and \<open>out_of_fuel\<close> is what would follow if the bound were too small.
\<close>

definition serveRequest :: "next_req \<Rightarrow> ShmemReq \<Rightarrow> DirCntlr \<Rightarrow> DirCntlr res" where
  "serveRequest next shmem_req st =
     (case m_msg_type (m_shmem_msg shmem_req) of
        EX_REQ \<Rightarrow> processExReqFromL2Cache next shmem_req None st
      | SH_REQ \<Rightarrow> processShReqFromL2Cache next shmem_req None st
      | UPGRADE_REQ \<Rightarrow> processUpgradeReqFromL2Cache next shmem_req None st
      | _ \<Rightarrow> Inl (LogError ''Unrecognized Request(%u)''))"

fun processNextReqFromL2Cache :: "next_req \<Rightarrow> nat \<Rightarrow> next_req" where
  "processNextReqFromL2Cache out_of_fuel 0 address st = out_of_fuel address st"
| "processNextReqFromL2Cache out_of_fuel (Suc n) address st =
     bindE (assertE (rq_size (m_req_queues st) address \<ge> 1) (AssertError ''size(address) >= 1''))
     (\<lambda>_. bindE (rq_dequeue (m_req_queues st) address)
     (\<lambda>(completed, q). let st = st\<lparr>m_req_queues := q\<rparr> in
      if \<not> rq_empty q address
      then bindE (rq_front q address)
           (\<lambda>shmem_req. serveRequest (processNextReqFromL2Cache out_of_fuel n) shmem_req
                            (st\<lparr>m_elapsed_time := m_time shmem_req\<rparr>))
      else Inr st))"

section \<open>Replies\<close>

definition processDRAMReply :: "next_req \<Rightarrow> core_id_t \<Rightarrow> ShmemMsg \<Rightarrow> DirCntlr \<Rightarrow> DirCntlr res" where
  "processDRAMReply next sender shmem_msg st =
     (let address = msg_address shmem_msg in
      bindE (assertE (rq_size (m_req_queues st) address \<ge> 1) (AssertError ''size(address) >= 1''))
      (\<lambda>_. bindE (rq_front (m_req_queues st) address)
      (\<lambda>shmem_req. bindE (dc_getEntry st address False)
      (\<lambda>(l, st). case l of
         None \<Rightarrow> Inl (AssertError ''directory_entry'')
       | Some l \<Rightarrow>
           bindE (dc_read st l)
           (\<lambda>e. bindE
              (case m_msg_type (m_shmem_msg shmem_req) of
                 SH_REQ \<Rightarrow>
                   bindE (assertE (m_dstate e = DIR_SHARED \<or> m_dstate e = DIR_EXCLUSIVE)
                            (AssertError ''curr_dstate == SHARED || curr_dstate == EXCLUSIVE''))
                   (\<lambda>_. Inr (if m_dstate e = DIR_EXCLUSIVE then EX_REP else SH_REP))
               | EX_REQ \<Rightarrow>
                   bindE (assertE (m_dstate e = DIR_MODIFIED) (AssertError ''curr_dstate == MODIFIED'')) (\<lambda>_. Inr EX_REP)
               | UPGRADE_REQ \<Rightarrow> Inr EX_REP
               | _ \<Rightarrow> Inl (LogError ''Unsupported request type: %u''))
           (\<lambda>reply_msg_type.
              let requester = m_requester (m_shmem_msg shmem_req);
                  hit_where = (if m_where shmem_msg = W_DRAM
                               then if sender = m_requester shmem_msg then W_DRAM_LOCAL else W_DRAM_REMOTE
                               else m_where shmem_msg);
                  st = sendMsg reply_msg_type L2_CACHE requester requester address (m_data_buf shmem_msg) hit_where st
              in bindE (sendDataToNUCA address (m_data_buf shmem_msg) False st) (next address)))))))"

text \<open>The clock and the request in service move to the later of their times.\<close>

definition update_times :: "IntPtr \<Rightarrow> ShmemReq \<Rightarrow> DirCntlr \<Rightarrow> ShmemReq \<times> DirCntlr" where
  "update_times address shmem_req st =
     (let shmem_req = req_updateTime shmem_req (m_elapsed_time st);
          st = update_front st address (\<lambda>r. req_updateTime r (m_elapsed_time st))
      in (shmem_req, st\<lparr>m_elapsed_time := updateElapsedTime (m_elapsed_time st) (m_time shmem_req)\<rparr>))"

text \<open>The entry once the sender of an \<^verbatim>\<open>INV_REP\<close> has been removed from it.\<close>

definition after_inv_rep :: "core_id_t \<Rightarrow> DirectoryEntry \<Rightarrow> DirectoryEntry" where
  "after_inv_rep sender e =
     (let e = (if m_forwarder_id e = sender then e\<lparr>m_forwarder_id := INVALID_CORE_ID\<rparr> else e)
      in if getNumSharers e = 0 then e\<lparr>m_dstate := DIR_UNCACHED\<rparr> else e)"

text \<open>The request in service, if any, goes on once the invalidations it waits for are done.\<close>

definition resume_after_inv ::
  "next_req \<Rightarrow> core_id_t \<Rightarrow> IntPtr \<Rightarrow> entry_loc \<Rightarrow> DirectoryEntry \<Rightarrow> DirCntlr \<Rightarrow> DirCntlr res" where
  "resume_after_inv next sender address l e st =
     (if rq_size (m_req_queues st) address > 0
      then bindE (rq_front (m_req_queues st) address)
           (\<lambda>shmem_req. let (shmem_req, st) = update_times address shmem_req st in
            case m_msg_type (m_shmem_msg shmem_req) of
              EX_REQ \<Rightarrow>
                (if m_dstate e = DIR_UNCACHED then processExReqFromL2Cache next shmem_req None st else Inr st)
            | UPGRADE_REQ \<Rightarrow>
                (if getNumSharers e = 1
                 then bindE (hasSharer e (m_requester (m_shmem_msg shmem_req)))
                      (\<lambda>present. if present then processUpgradeReqFromL2Cache next shmem_req None st else Inr st)
                 else if getNumSharers e = 0
                 then processUpgradeReqFromL2Cache next shmem_req None (dc_write st l (e\<lparr>m_dstate := DIR_UNCACHED\<rparr>))
                 else Inr st)
            | SH_REQ \<Rightarrow>
                (if m_wait_for_data shmem_req then Inr st
                 else if isForwarding shmem_req \<and> sender \<noteq> m_forwarding_from shmem_req then Inr st
                 else processShReqFromL2Cache next shmem_req None st)
            | _ \<Rightarrow>
                (if m_dstate e = DIR_UNCACHED then processNullifyReq next shmem_req st else Inr st))
      else Inr st)"

definition processInvRepFromL2Cache :: "next_req \<Rightarrow> core_id_t \<Rightarrow> ShmemMsg \<Rightarrow> DirCntlr \<Rightarrow> DirCntlr res" where
  "processInvRepFromL2Cache next sender shmem_msg st =
     (let address = msg_address shmem_msg in
      bindE (dc_getEntry st address False)
      (\<lambda>(l, st). case l of
         None \<Rightarrow> Inl (AssertError ''directory_entry'')
       | Some l \<Rightarrow>
           bindE (dc_read st l)
           (\<lambda>e. bindE (assertE (m_dstate e = DIR_SHARED \<or> m_dstate e = DIR_EXCLUSIVE) (LogError ''Ooops (%lx)''))
           (\<lambda>_. bindE (removeSharer e sender False)
           (\<lambda>e. let e = after_inv_rep sender e in resume_after_inv next sender address l e (dc_write st l e))))))"

text \<open>The entry once the sender of a \<^verbatim>\<open>FLUSH_REP\<close> has been removed from it.\<close>

definition after_flush_rep :: "DirectoryEntry \<Rightarrow> DirectoryEntry res" where
  "after_flush_rep e =
     bindE (setOwner (e\<lparr>m_forwarder_id := INVALID_CORE_ID\<rparr>) INVALID_CORE_ID)
     (\<lambda>e. if getNumSharers e = 0 then Inr (e\<lparr>m_dstate := DIR_UNCACHED\<rparr>)
          else bindE (assertE (m_dstate e = DIR_SHARED) (AssertError ''getDState() == SHARED'')) (\<lambda>_. Inr e))"

definition resume_after_flush ::
  "next_req \<Rightarrow> ShmemMsg \<Rightarrow> entry_loc \<Rightarrow> DirectoryEntry \<Rightarrow> DirCntlr \<Rightarrow> DirCntlr res" where
  "resume_after_flush next shmem_msg l e st =
     (let address = msg_address shmem_msg; data_buf = m_data_buf shmem_msg in
      if rq_size (m_req_queues st) address \<noteq> 0
      then bindE (rq_front (m_req_queues st) address)
           (\<lambda>shmem_req. let (shmem_req, st) = update_times address shmem_req st in
            case m_msg_type (m_shmem_msg shmem_req) of
              EX_REQ \<Rightarrow> processExReqFromL2Cache next shmem_req data_buf st
            | SH_REQ \<Rightarrow>
                bindE (sendDataToDram address (m_requester shmem_msg) data_buf st)
                (\<lambda>st. processShReqFromL2Cache next shmem_req data_buf st)
            | UPGRADE_REQ \<Rightarrow>
                (if getNumSharers e = 0
                 then processUpgradeReqFromL2Cache next shmem_req data_buf (dc_write st l (e\<lparr>m_dstate := DIR_UNCACHED\<rparr>))
                 else Inr (update_front st address (\<lambda>r. r\<lparr>m_shmem_msg := (m_shmem_msg r)\<lparr>m_data_buf := data_buf\<rparr>\<rparr>)))
            | _ \<Rightarrow>
                bindE (sendDataToDram address (m_requester shmem_msg) data_buf st)
                (\<lambda>st. processNullifyReq next shmem_req st))
      else sendDataToDram address (m_requester shmem_msg) data_buf st)"

definition processFlushRepFromL2Cache :: "next_req \<Rightarrow> core_id_t \<Rightarrow> ShmemMsg \<Rightarrow> DirCntlr \<Rightarrow> DirCntlr res" where
  "processFlushRepFromL2Cache next sender shmem_msg st =
     bindE (dc_getEntry st (msg_address shmem_msg) False)
     (\<lambda>(l, st). case l of
        None \<Rightarrow> Inl (AssertError ''directory_entry'')
      | Some l \<Rightarrow>
          bindE (dc_read st l)
          (\<lambda>e. bindE (hasSharer e sender)
          (\<lambda>present. bindE (assertE present (AssertError ''directory_entry->hasSharer(sender)''))
          (\<lambda>_. bindE (removeSharer e sender False)
          (\<lambda>e. bindE (after_flush_rep e)
          (\<lambda>e. resume_after_flush next shmem_msg l e (dc_write st l e)))))))"

definition processWbRepFromL2Cache :: "next_req \<Rightarrow> core_id_t \<Rightarrow> ShmemMsg \<Rightarrow> DirCntlr \<Rightarrow> DirCntlr res" where
  "processWbRepFromL2Cache next sender shmem_msg st =
     (let address = msg_address shmem_msg in
      bindE (dc_getEntry st address False)
      (\<lambda>(l, st). case l of
         None \<Rightarrow> Inl (AssertError ''directory_entry'')
       | Some l \<Rightarrow>
           bindE (dc_read st l)
           (\<lambda>e. bindE (hasSharer e sender)
           (\<lambda>present. bindE (assertE present (AssertError ''directory_entry->hasSharer(sender)''))
           (\<lambda>_. bindE (setOwner e INVALID_CORE_ID)
           (\<lambda>e. let st = dc_write st l (e\<lparr>m_dstate := DIR_SHARED\<rparr>) in
              if rq_size (m_req_queues st) address \<noteq> 0
              then bindE (rq_front (m_req_queues st) address)
                   (\<lambda>shmem_req. let (shmem_req, st) = update_times address shmem_req st in
                    bindE (assertE (m_msg_type (m_shmem_msg shmem_req) = SH_REQ) (LogError ''Address(0x%x), Req(%u)''))
                    (\<lambda>_. processShReqFromL2Cache next shmem_req (m_data_buf shmem_msg) st))
              else Inl (LogError ''Should not reach here'')))))))"

section \<open>Message handlers\<close>

text \<open>A new request is queued, and served at once when it is the only one for its address.\<close>

definition enqueue_request ::
  "(ShmemReq \<Rightarrow> Byte list option \<Rightarrow> DirCntlr \<Rightarrow> DirCntlr res) \<Rightarrow> ShmemMsg \<Rightarrow> UInt64 \<Rightarrow> DirCntlr \<Rightarrow> DirCntlr res" where
  "enqueue_request process shmem_msg msg_time st =
     (let address = msg_address shmem_msg in
      bindE (mk_ShmemReq shmem_msg msg_time)
      (\<lambda>shmem_req. let st = st\<lparr>m_req_queues := rq_enqueue (m_req_queues st) address shmem_req\<rparr> in
         if rq_size (m_req_queues st) address = 1 then process shmem_req None st else Inr st))"

text \<open>The handlers, with the bound on the depth of the recursion.\<close>

definition dispatchL2 :: "next_req \<Rightarrow> core_id_t \<Rightarrow> ShmemMsg \<Rightarrow> DirCntlr \<Rightarrow> DirCntlr res" where
  "dispatchL2 next sender shmem_msg st =
     (let msg_time = m_elapsed_time st; address = msg_address shmem_msg in
      bindE (dc_getEntry st address True)
      (\<lambda>(l, st). case m_msg_type shmem_msg of
         EX_REQ \<Rightarrow> enqueue_request (processExReqFromL2Cache next) shmem_msg msg_time st
       | SH_REQ \<Rightarrow> enqueue_request (processShReqFromL2Cache next) shmem_msg msg_time st
       | UPGRADE_REQ \<Rightarrow> enqueue_request (processUpgradeReqFromL2Cache next) shmem_msg msg_time st
       | INV_REP \<Rightarrow> processInvRepFromL2Cache next sender shmem_msg st
       | FLUSH_REP \<Rightarrow> processFlushRepFromL2Cache next sender shmem_msg st
       | WB_REP \<Rightarrow> processWbRepFromL2Cache next sender shmem_msg st
       | _ \<Rightarrow> Inl (LogError ''Unrecognized Shmem Msg Type: %u'')))"

definition request_bound :: "DirCntlr \<Rightarrow> IntPtr \<Rightarrow> nat" where
  "request_bound st address = Suc (length (rq_list (m_req_queues st) address))"

definition run_next :: "DirCntlr \<Rightarrow> IntPtr \<Rightarrow> next_req" where
  "run_next st address = processNextReqFromL2Cache (\<lambda>_ _. Inl NonTermination) (request_bound st address)"

definition handleMsgFromL2Cache :: "core_id_t \<Rightarrow> ShmemMsg \<Rightarrow> DirCntlr \<Rightarrow> DirCntlr res" where
  "handleMsgFromL2Cache sender shmem_msg st = dispatchL2 (run_next st (msg_address shmem_msg)) sender shmem_msg st"

definition handleMsgFromDRAM :: "core_id_t \<Rightarrow> ShmemMsg \<Rightarrow> DirCntlr \<Rightarrow> DirCntlr res" where
  "handleMsgFromDRAM sender shmem_msg st =
     (if m_msg_type shmem_msg = DRAM_READ_REP
      then processDRAMReply (run_next st (msg_address shmem_msg)) sender shmem_msg st
      else Inl (LogError ''Unrecognized Shmem Msg Type: %u''))"

end
