(* ===== verification/LS_Coherence.thy ===== *)
theory LS_Coherence
  imports LS_Directory_Cntlr
begin

text \<open>
  Correctness of the directory controller: the single-writer invariant of its entries, which every
  handler keeps under all three protocols, and the termination of the recursion over queued
  requests.
\<close>

section \<open>The single-writer invariant\<close>

definition entry_inv :: "DirectoryEntry \<Rightarrow> bool" where
  "entry_inv e \<longleftrightarrow> entry_wf e \<and>
     (case m_dstate e of
        DIR_UNCACHED \<Rightarrow> sharer_set e = {}
      | DIR_SHARED \<Rightarrow> sharer_set e \<noteq> {}
      | DIR_OWNED \<Rightarrow> False
      | DIR_MODIFIED \<Rightarrow> sharer_set e = {m_owner_id e}
      | DIR_EXCLUSIVE \<Rightarrow> sharer_set e = {m_owner_id e})"

definition dir_inv :: "DirCntlr \<Rightarrow> bool" where
  "dir_inv st \<longleftrightarrow> ddc_ok entry_inv (m_dram_directory_cache st)"

definition keeps :: "(DirCntlr \<Rightarrow> bool) \<Rightarrow> next_req \<Rightarrow> bool" where
  "keeps I next \<longleftrightarrow> (\<forall>a s s'. next a s = Inr s' \<longrightarrow> I s \<longrightarrow> I s')"

lemma keepsD: "keeps I next \<Longrightarrow> next a s = Inr s' \<Longrightarrow> I s \<Longrightarrow> I s'"
  by (auto simp: keeps_def)

lemma sharer_set_upd [simp]:
  "sharer_set (e\<lparr>m_address := a\<rparr>) = sharer_set e" "sharer_set (e\<lparr>m_dstate := d\<rparr>) = sharer_set e"
  "sharer_set (e\<lparr>m_owner_id := c\<rparr>) = sharer_set e" "sharer_set (e\<lparr>m_forwarder_id := c\<rparr>) = sharer_set e"
  "sharer_set (e\<lparr>m_class := cl\<rparr>) = sharer_set e"
  by (simp_all add: sharer_set_def)

lemma entry_wf_upd [simp]:
  "entry_wf (e\<lparr>m_address := a\<rparr>) = entry_wf e" "entry_wf (e\<lparr>m_dstate := d\<rparr>) = entry_wf e"
  "entry_wf (e\<lparr>m_owner_id := c\<rparr>) = entry_wf e" "entry_wf (e\<lparr>m_forwarder_id := c\<rparr>) = entry_wf e"
  "entry_wf (put_sharer e c b) = entry_wf e"
  by (simp_all add: entry_wf_def put_sharer_def)

lemma entry_property_inv: "entry_property entry_inv"
proof -
  have "sharer_set (mk_DirectoryEntry junk width cls) = {}" for junk width cls
    by (auto simp: sharer_set_def mk_DirectoryEntry_def)
  then show ?thesis
    by (auto simp: entry_property_def entry_inv_def entry_wf_def mk_DirectoryEntry_def split: dstate_t.splits)
qed

subsection \<open>Steps that leave the directory alone\<close>

lemma cache_unchanged [simp]:
  "m_dram_directory_cache (sendMsg ty m r c a d w st) = m_dram_directory_cache st"
  "m_dram_directory_cache (broadcastMsg ty m r a st) = m_dram_directory_cache st"
  "m_dram_directory_cache (update_front st a f) = m_dram_directory_cache st"
  "m_dram_directory_cache (dc_write st l e) = ddc_write (m_dram_directory_cache st) l e"
  by (simp_all add: sendMsg_def broadcastMsg_def update_front_def dc_write_def)

lemma fold_unchanged:
  "(\<And>x st. f (g x st) = f st) \<Longrightarrow> f (fold g xs st) = f st"
  by (induction xs arbitrary: st) auto

lemma cache_unchanged_invs [simp]:
  "m_dram_directory_cache (send_inv_reqs r a s st) = m_dram_directory_cache st"
  "m_dram_directory_cache (send_upgrade_invs r a h s st) = m_dram_directory_cache st"
  "m_dram_directory_cache (snd (update_times a q st)) = m_dram_directory_cache st"
  by (auto simp: send_inv_reqs_def send_upgrade_invs_def update_times_def Let_def
      intro!: fold_unchanged split: prod.splits)

lemma sendDataToNUCA_cache: "sendDataToNUCA a d c st = Inr st' \<Longrightarrow> m_dram_directory_cache st' = m_dram_directory_cache st"
  by (cases "m_nuca_cache st") (auto simp: sendDataToNUCA_def bindE_Inr_iff Let_def case_prod_beta split: if_splits)

lemma sendDataToDram_cache: "sendDataToDram a r d st = Inr st' \<Longrightarrow> m_dram_directory_cache st' = m_dram_directory_cache st"
  by (auto simp: sendDataToDram_def bindE_Inr_iff sendDataToNUCA_cache split: if_splits)

lemma retrieve_from_memory_cache:
  "retrieve_from_memory r a l st = Inr st' \<Longrightarrow> m_dram_directory_cache st' = m_dram_directory_cache st"
  by (auto simp: retrieve_from_memory_def bindE_Inr_iff Let_def split: if_splits)

subsection \<open>Steps on one entry\<close>

lemma dc_read_inv: "dir_inv st \<Longrightarrow> dc_read st l = Inr e \<Longrightarrow> entry_inv e"
  by (auto simp: dir_inv_def dc_read_def intro: ddc_read_ok)

lemma dc_write_inv: "dir_inv st \<Longrightarrow> entry_inv e \<Longrightarrow> dir_inv (dc_write st l e)"
  by (simp add: dir_inv_def ddc_write_ok)

lemma dc_getEntry_inv: "dc_getEntry st a m = Inr (l, st') \<Longrightarrow> dir_inv st \<Longrightarrow> dir_inv st'"
  using getDirectoryEntry_ok [OF _ entry_property_inv]
  by (fastforce simp: dc_getEntry_def bindE_Inr_iff dir_inv_def)

lemma make_owner_inv:
  assumes "make_owner r d l e st = Inr st'" and "entry_inv e" "m_dstate e = DIR_UNCACHED" "dir_inv st"
    and "d \<in> {DIR_MODIFIED, DIR_EXCLUSIVE, DIR_SHARED}"
  shows "dir_inv st'"
proof -
  obtain e1 e2 where add: "addSharer e r (ddc_getMaxHwSharers (m_dram_directory_cache st)) = Inr (True, e1)"
    and own: "setOwner e1 r = Inr e2" and st': "st' = dc_write st l (e2\<lparr>m_dstate := d\<rparr>)"
    using assms(1) by (auto simp: make_owner_def bindE_Inr_iff)
  have "sharer_set e = {}" "entry_wf e" using assms(2,3) by (auto simp: entry_inv_def)
  then have "sharer_set e1 = {r}" "entry_wf e1"
    using entry.add_sharers [OF add] entry.add_wf [OF _ add] by auto
  moreover have "e2 = e1\<lparr>m_owner_id := r\<rparr>" using own by (auto simp: setOwner_def bindE_Inr_iff)
  ultimately have "entry_inv (e2\<lparr>m_dstate := d\<rparr>)" using assms(5) by (auto simp: entry_inv_def)
  then show ?thesis using assms(4) st' by (simp add: dc_write_inv)
qed

lemma retrieve_inv:
  assumes "retrieveDataAndSendToL2Cache next ty r a d st = Inr st'" and "keeps dir_inv next" and "dir_inv st"
  shows "dir_inv st'"
proof -
  obtain l st1 where get: "dc_getEntry st a False = Inr (Some l, st1)"
    using assms(1) by (auto simp: retrieveDataAndSendToL2Cache_def bindE_Inr_iff split: option.splits)
  have inv: "dir_inv st1" by (rule dc_getEntry_inv [OF get assms(3)])
  have fwd: "entry_inv (e\<lparr>m_forwarder_id := c\<rparr>)" if "entry_inv e" for e c
    using that by (auto simp: entry_inv_def split: dstate_t.splits)
  show ?thesis
  proof (cases "d = None")
    case True
    then show ?thesis
      using assms(1) get inv keepsD [OF assms(2)] retrieve_from_memory_cache
      by (fastforce simp: retrieveDataAndSendToL2Cache_def bindE_Inr_iff dir_inv_def Let_def
          split: option.splits if_splits prod.splits)
  next
    case False
    then obtain e where e: "dc_read st1 l = Inr e"
      and n: "next a (sendMsg ty L2_CACHE r r a d W_CACHE_REMOTE (dc_write st1 l (e\<lparr>m_forwarder_id := r\<rparr>))) = Inr st'"
      using assms(1) get by (auto simp: retrieveDataAndSendToL2Cache_def bindE_Inr_iff)
    have "dir_inv (dc_write st1 l (e\<lparr>m_forwarder_id := r\<rparr>))"
      using inv fwd dc_read_inv [OF inv e] by (intro dc_write_inv)
    then show ?thesis using keepsD [OF assms(2) n] by (simp add: dir_inv_def)
  qed
qed

lemma nullify_inv:
  assumes "processNullifyReq next q st = Inr st'" and "keeps dir_inv next" and "dir_inv st"
  shows "dir_inv st'"
proof -
  obtain l st1 e where get: "dc_getEntry st (msg_address (m_shmem_msg q)) False = Inr (Some l, st1)"
    and e: "dc_read st1 l = Inr e"
    using assms(1) by (auto simp: processNullifyReq_def bindE_Inr_iff Let_def split: option.splits)
  have inv: "dir_inv st1" by (rule dc_getEntry_inv [OF get assms(3)])
  show ?thesis
    using assms(1) get e inv keepsD [OF assms(2)] invalidateDirectoryEntry_ok
    by (cases "m_dstate e") (fastforce simp: processNullifyReq_def bindE_Inr_iff Let_def dir_inv_def)+
qed

lemma allocate_inv:
  assumes al: "processDirectoryEntryAllocationReq next q st = Inr (l, st')" and "keeps dir_inv next" and inv: "dir_inv st"
  shows "dir_inv st'"
proof -
  obtain slots c where cand: "getReplacementCandidates (m_dram_directory_cache st) (m_elapsed_time st) (msg_address (m_shmem_msg q)) = Inr (slots, c)"
    using al by (auto simp: processDirectoryEntryAllocationReq_def Let_def bindE_Inr_iff)
  have ok: "ddc_ok entry_inv c"
    using getReplacementCandidates_ok [OF cand entry_property_inv] inv by (simp add: dir_inv_def)
  from al cand obtain now0 old new c2 now nq st1 where rep: "replaceDirectoryEntry c now0 old new True = Inr (l, c2, now)"
    and nul: "processNullifyReq next nq st1 = Inr st'" and st1: "m_dram_directory_cache st1 = c2"
    by (auto simp: processDirectoryEntryAllocationReq_def Let_def bindE_Inr_iff split: option.splits)
  have "dir_inv st1" using replaceDirectoryEntry_ok [OF rep entry_property_inv ok] st1 by (simp add: dir_inv_def)
  then show ?thesis by (rule nullify_inv [OF nul assms(2)])
qed

lemma find_or_allocate_inv:
  assumes "find_or_allocate next q st = Inr (l, st')" and "keeps dir_inv next" and "dir_inv st"
  shows "dir_inv st'"
  using assms dc_getEntry_inv allocate_inv
  by (auto simp: find_or_allocate_def bindE_Inr_iff split: option.splits)

subsection \<open>Requests\<close>

lemma ex_inv:
  assumes ex: "processExReqFromL2Cache next q d st = Inr st'" and k: "keeps dir_inv next" and "dir_inv st"
  shows "dir_inv st'"
proof -
  obtain l st1 e where loc: "find_or_allocate next q st = Inr (l, st1)" and e: "dc_read st1 l = Inr e"
    using ex by (auto simp: processExReqFromL2Cache_def bindE_Inr_iff Let_def)
  have inv: "dir_inv st1" by (rule find_or_allocate_inv [OF loc k assms(3)])
  note einv = dc_read_inv [OF inv e]
  show ?thesis
    using ex loc e inv einv make_owner_inv retrieve_inv [OF _ k]
    by (cases "m_dstate e") (auto simp: processExReqFromL2Cache_def bindE_Inr_iff Let_def dir_inv_def entry_inv_def)
qed

lemma addSharer_inv:
  assumes "addSharer e c m = Inr (b, e')" and "entry_inv e" and "m_dstate e = DIR_SHARED"
  shows "entry_inv e' \<and> m_dstate e' = DIR_SHARED"
  using addSharer_cases [OF assms(1)] entry.add_wf [OF _ assms(1)] assms(2,3) by (auto simp: entry_inv_def)

lemma getOneSharer_inv:
  assumes "getOneSharer e = Inr (c, e')" and "entry_inv e"
  shows "entry_inv e'"
  using getOneSharer_member [OF _ assms(1)] assms(2) by (auto simp: entry_inv_def entry_wf_def split: dstate_t.splits)

lemma sh_shared_inv:
  assumes "entry_inv e" "m_dstate e = DIR_SHARED" "dir_inv st" and k: "keeps dir_inv next"
    and "addSharer e r m = Inr (b, e')"
    and "(if \<not> b then bindE (getOneSharer e')
             (\<lambda>(sharer_id, e). Inr (sendMsg INV_REQ L2_CACHE r sharer_id a None W_UNKNOWN (dc_write st l e)))
          else retrieveDataAndSendToL2Cache next SH_REP r a d (dc_write st l e')) = Inr st'"
  shows "dir_inv st'"
proof -
  have e': "entry_inv e'" using addSharer_inv [OF assms(5,1,2)] by simp
  show ?thesis
  proof (cases b)
    case True
    then show ?thesis
      using assms(6) retrieve_inv [OF _ k] dc_write_inv [OF assms(3) e'] by auto
  next
    case False
    then obtain c e2 where "getOneSharer e' = Inr (c, e2)"
      and "st' = sendMsg INV_REQ L2_CACHE r c a None W_UNKNOWN (dc_write st l e2)"
      using assms(6) by (auto simp: bindE_Inr_iff)
    then show ?thesis using dc_write_inv [OF assms(3) getOneSharer_inv [OF _ e']] by (simp add: dir_inv_def)
  qed
qed

lemma sh_inv:
  assumes sh: "processShReqFromL2Cache next q d st = Inr st'" and k: "keeps dir_inv next" and "dir_inv st"
  shows "dir_inv st'"
proof -
  obtain l st1 e where loc: "find_or_allocate next q st = Inr (l, st1)" and e: "dc_read st1 l = Inr e"
    using sh by (auto simp: processShReqFromL2Cache_def bindE_Inr_iff Let_def)
  have inv: "dir_inv st1" by (rule find_or_allocate_inv [OF loc k assms(3)])
  note einv = dc_read_inv [OF inv e] and sh' = sh [unfolded processShReqFromL2Cache_def Let_def loc e bindE_simps prod.case]
  show ?thesis
  proof (cases "m_dstate e")
    case DIR_UNCACHED
    then show ?thesis
      using sh' inv einv make_owner_inv retrieve_inv [OF _ k]
      by (cases "m_protocol st1 = MSI") (auto simp: bindE_Inr_iff)
  next
    case DIR_SHARED
    obtain present where has: "hasSharer e (m_requester (m_shmem_msg q)) = Inr present"
      using sh' DIR_SHARED by (auto simp: bindE_Inr_iff)
    show ?thesis
    proof (cases present)
      case True
      then show ?thesis
        using sh' DIR_SHARED has inv retrieve_inv [OF _ k] by (simp add: dir_inv_def)
    next
      case False
      then show ?thesis
        using sh' DIR_SHARED has sh_shared_inv [OF einv DIR_SHARED inv k] by (auto simp: bindE_Inr_iff)
    qed
  next
    case DIR_OWNED
    then show ?thesis using einv by (simp add: entry_inv_def)
  qed (use sh' inv in \<open>auto simp: bindE_Inr_iff dir_inv_def\<close>)
qed

lemma upgrade_inv:
  assumes up: "processUpgradeReqFromL2Cache next q d st = Inr st'" and k: "keeps dir_inv next" and "dir_inv st"
  shows "dir_inv st'"
proof -
  obtain l st1 e where loc: "find_or_allocate next q st = Inr (l, st1)" and e: "dc_read st1 l = Inr e"
    using up by (auto simp: processUpgradeReqFromL2Cache_def bindE_Inr_iff Let_def)
  have inv: "dir_inv st1" by (rule find_or_allocate_inv [OF loc k assms(3)])
  note einv = dc_read_inv [OF inv e]
    and up' = up [unfolded processUpgradeReqFromL2Cache_def Let_def loc e bindE_simps prod.case]
  let ?r = "m_requester (m_shmem_msg q)" and ?a = "msg_address (m_shmem_msg q)"
  have owned: "dir_inv st'" if "m_dstate e \<in> {DIR_EXCLUSIVE, DIR_MODIFIED}"
    and "(case snd (getSharersList e) of [] \<Rightarrow> Inl OutOfRange
        | c # cs \<Rightarrow> if c = ?r
            then bindE (assertE (m_owner_id e = ?r) (AssertError ''getOwner() == requester''))
              (\<lambda>_. next ?a (dc_write (sendMsg UPGRADE_REP L2_CACHE ?r ?r ?a None W_UNKNOWN st1) l (e\<lparr>m_dstate := DIR_MODIFIED\<rparr>)))
            else Inr (sendMsg FLUSH_REQ L2_CACHE ?r (m_owner_id e) ?a None W_UNKNOWN st1)) = Inr st'"
  proof -
    have "entry_inv (e\<lparr>m_dstate := DIR_MODIFIED\<rparr>)" using that(1) einv by (auto simp: entry_inv_def)
    then have "dir_inv (dc_write (sendMsg UPGRADE_REP L2_CACHE ?r ?r ?a None W_UNKNOWN st1) l (e\<lparr>m_dstate := DIR_MODIFIED\<rparr>))"
      using inv by (intro dc_write_inv) (simp_all add: dir_inv_def)
    then show ?thesis
      using that(2) inv keepsD [OF k] by (auto simp: bindE_Inr_iff dir_inv_def split: list.splits if_splits)
  qed
  show ?thesis
  proof (cases "m_dstate e")
    case DIR_UNCACHED
    then show ?thesis
      using up' inv einv make_owner_inv retrieve_inv [OF _ k] by (auto simp: bindE_Inr_iff)
  next
    case DIR_SHARED
    show ?thesis
    proof (cases "snd (getSharersList e) = [?r]")
      case True
      then obtain e2 where own: "setOwner e ?r = Inr e2"
        and n: "next ?a (sendMsg UPGRADE_REP L2_CACHE ?r ?r ?a None W_UNKNOWN (dc_write st1 l (e2\<lparr>m_dstate := DIR_MODIFIED\<rparr>))) = Inr st'"
        using up' DIR_SHARED by (auto simp: bindE_Inr_iff)
      have "sharer_set e = {?r}" using True getSharersList_set(1) [of e] by simp
      then have "entry_inv (e2\<lparr>m_dstate := DIR_MODIFIED\<rparr>)"
        using own einv by (auto simp: setOwner_def bindE_Inr_iff entry_inv_def)
      then show ?thesis using keepsD [OF k n] dc_write_inv [OF inv] by (simp add: dir_inv_def)
    next
      case False
      then show ?thesis using up' DIR_SHARED inv by (auto simp: bindE_Inr_iff dir_inv_def)
    qed
  next
    case DIR_OWNED
    then show ?thesis using einv by (simp add: entry_inv_def)
  qed (use up' owned in simp_all)
qed

lemma next_inv: "keeps dir_inv out \<Longrightarrow> keeps dir_inv (processNextReqFromL2Cache out n)"
proof (induction n)
  case 0
  then show ?case by (auto simp: keeps_def)
next
  case (Suc n)
  note k = Suc.IH [OF Suc.prems]
  show ?case
    unfolding keeps_def
  proof (intro allI impI)
    fix a s s'
    assume run: "processNextReqFromL2Cache out (Suc n) a s = Inr s'" and inv: "dir_inv s"
    obtain c q where q: "rq_dequeue (m_req_queues s) a = Inr (c, q)" using run by (auto simp: bindE_Inr_iff)
    have inv': "dir_inv (s\<lparr>m_req_queues := q\<rparr>)" "dir_inv (s\<lparr>m_req_queues := q, m_elapsed_time := t\<rparr>)" for t
      using inv by (simp_all add: dir_inv_def)
    show "dir_inv s'"
    proof (cases "rq_empty q a")
      case True
      then show ?thesis using run q inv' by (auto simp: bindE_Inr_iff Let_def)
    next
      case False
      then obtain r where r: "rq_front q a = Inr r" using run q by (auto simp: bindE_Inr_iff Let_def)
      show ?thesis
        using run q r False inv' ex_inv [OF _ k] sh_inv [OF _ k] upgrade_inv [OF _ k]
        by (cases "m_msg_type (m_shmem_msg r)") (auto simp: bindE_Inr_iff Let_def serveRequest_def)
    qed
  qed
qed

subsection \<open>Replies\<close>

lemma dram_reply_inv:
  assumes run: "processDRAMReply next sender m st = Inr st'" and k: "keeps dir_inv next" and "dir_inv st"
  shows "dir_inv st'"
proof -
  obtain l st1 st2 where get: "dc_getEntry st (msg_address m) False = Inr (Some l, st1)"
    and c2: "m_dram_directory_cache st2 = m_dram_directory_cache st1" and n: "next (msg_address m) st2 = Inr st'"
    using run sendDataToNUCA_cache
    by (fastforce simp: processDRAMReply_def bindE_Inr_iff Let_def split: option.splits)
  have "dir_inv st2" using dc_getEntry_inv [OF get assms(3)] c2 by (simp add: dir_inv_def)
  then show ?thesis by (rule keepsD [OF k n])
qed

lemma removeSharer_inv:
  assumes "removeSharer e c b = Inr e'" and "entry_inv e"
  shows "getNumSharers e' = 0 \<Longrightarrow> entry_inv (e'\<lparr>m_dstate := DIR_UNCACHED\<rparr>)"
    and "getNumSharers e' \<noteq> 0 \<Longrightarrow> m_dstate e = DIR_SHARED \<and> entry_inv e'" and "m_dstate e' = m_dstate e" and "entry_wf e'"
proof -
  have wf: "entry_wf e" using assms(2) by (simp add: entry_inv_def)
  show wf': "entry_wf e'" by (rule entry.remove_wf [OF wf assms(1)])
  note rem = removeSharer_cases [OF assms(1)]
  then show "m_dstate e' = m_dstate e" by simp
  note zero = entry.num_zero_iff [OF wf']
  then show "getNumSharers e' = 0 \<Longrightarrow> entry_inv (e'\<lparr>m_dstate := DIR_UNCACHED\<rparr>)"
    using wf' by (simp add: entry_inv_def)
  show "getNumSharers e' \<noteq> 0 \<Longrightarrow> m_dstate e = DIR_SHARED \<and> entry_inv e'"
    using zero rem wf' assms(2) by (auto simp: entry_inv_def split: dstate_t.splits)
qed

lemma getNumSharers_upd [simp]:
  "getNumSharers (e\<lparr>m_dstate := d\<rparr>) = getNumSharers e" "getNumSharers (e\<lparr>m_forwarder_id := c\<rparr>) = getNumSharers e"
  "getNumSharers (e\<lparr>m_owner_id := c\<rparr>) = getNumSharers e"
  by (simp_all add: getNumSharers_def)

lemma entry_inv_forwarder [simp]: "entry_inv (e\<lparr>m_forwarder_id := c\<rparr>) = entry_inv e"
  by (simp add: entry_inv_def split: dstate_t.splits)

lemma entry_inv_forwarder_dstate [simp]:
  "entry_inv (e\<lparr>m_forwarder_id := c, m_dstate := d\<rparr>) = entry_inv (e\<lparr>m_dstate := d\<rparr>)"
  by (simp add: entry_inv_def split: dstate_t.splits)

lemma after_inv_rep_inv: "removeSharer e c b = Inr e' \<Longrightarrow> entry_inv e \<Longrightarrow> entry_inv (after_inv_rep s e')"
  using removeSharer_inv [of e c b e'] by (auto simp: after_inv_rep_def Let_def)

lemma update_times_inv: "update_times a r st = (r', st') \<Longrightarrow> dir_inv st \<Longrightarrow> dir_inv st'"
  using cache_unchanged_invs(3) [of a r st] by (simp add: dir_inv_def)

lemma uncached_inv: "entry_inv e \<Longrightarrow> getNumSharers e = 0 \<Longrightarrow> entry_inv (e\<lparr>m_dstate := DIR_UNCACHED\<rparr>)"
  using entry.num_zero_iff [of e] by (simp add: entry_inv_def)

lemma resume_after_inv_inv:
  assumes run: "resume_after_inv next sender a l e st = Inr st'" and k: "keeps dir_inv next" and inv: "dir_inv st"
    and e: "entry_inv e"
  shows "dir_inv st'"
proof (cases "rq_size (m_req_queues st) a > 0")
  case False
  then show ?thesis using run inv by (simp add: resume_after_inv_def)
next
  case True
  then obtain r where r: "rq_front (m_req_queues st) a = Inr r"
    using run by (auto simp: resume_after_inv_def bindE_Inr_iff)
  obtain r1 st1 where ut: "update_times a r st = (r1, st1)" by fastforce
  have inv1: "dir_inv st1" by (rule update_times_inv [OF ut inv])
  show ?thesis
    using run True r ut inv1 ex_inv [OF _ k] sh_inv [OF _ k] upgrade_inv [OF _ k] nullify_inv [OF _ k]
      dc_write_inv [OF inv1 uncached_inv [OF e]]
    by (cases "m_msg_type (m_shmem_msg r1)") (auto simp: resume_after_inv_def bindE_Inr_iff split: if_splits)
qed

lemma inv_rep_inv:
  assumes run: "processInvRepFromL2Cache next sender m st = Inr st'" and k: "keeps dir_inv next" and "dir_inv st"
  shows "dir_inv st'"
proof -
  obtain l st1 e e1 where get: "dc_getEntry st (msg_address m) False = Inr (Some l, st1)" and e: "dc_read st1 l = Inr e"
    and rem: "removeSharer e sender False = Inr e1"
    and res: "resume_after_inv next sender (msg_address m) l (after_inv_rep sender e1) (dc_write st1 l (after_inv_rep sender e1)) = Inr st'"
    using run by (auto simp: processInvRepFromL2Cache_def bindE_Inr_iff Let_def split: option.splits)
  have inv: "dir_inv st1" by (rule dc_getEntry_inv [OF get assms(3)])
  have e2: "entry_inv (after_inv_rep sender e1)" by (rule after_inv_rep_inv [OF rem dc_read_inv [OF inv e]])
  show ?thesis by (rule resume_after_inv_inv [OF res k dc_write_inv [OF inv e2] e2])
qed

lemma after_flush_rep_inv:
  assumes "removeSharer e c b = Inr e1" and "entry_inv e" and "after_flush_rep e1 = Inr e2"
  shows "entry_inv e2"
  using removeSharer_inv [OF assms(1,2)] assms(3)
  by (auto simp: after_flush_rep_def setOwner_def bindE_Inr_iff entry_inv_def split: if_splits)

lemma resume_after_flush_inv:
  assumes run: "resume_after_flush next m l e st = Inr st'" and k: "keeps dir_inv next" and inv: "dir_inv st"
    and e: "entry_inv e"
  shows "dir_inv st'"
proof (cases "rq_size (m_req_queues st) (msg_address m) = 0")
  case True
  then show ?thesis using run inv sendDataToDram_cache by (auto simp: resume_after_flush_def Let_def dir_inv_def)
next
  case False
  then obtain r where r: "rq_front (m_req_queues st) (msg_address m) = Inr r"
    using run by (auto simp: resume_after_flush_def Let_def bindE_Inr_iff)
  obtain r1 st1 where ut: "update_times (msg_address m) r st = (r1, st1)" by fastforce
  have inv1: "dir_inv st1" by (rule update_times_inv [OF ut inv])
  have dram: "dir_inv st2" if "sendDataToDram a q d st1 = Inr st2" for a q d st2
    using sendDataToDram_cache [OF that] inv1 by (simp add: dir_inv_def)
  have upd: "dir_inv (update_front st1 a f)" for a f using inv1 by (simp add: dir_inv_def)
  show ?thesis
    using run False r ut inv1 dram upd ex_inv [OF _ k] sh_inv [OF _ k] upgrade_inv [OF _ k] nullify_inv [OF _ k]
      dc_write_inv [OF inv1 uncached_inv [OF e]]
    by (cases "m_msg_type (m_shmem_msg r1)") (auto simp: resume_after_flush_def Let_def bindE_Inr_iff split: if_splits)
qed

lemma flush_rep_inv:
  assumes run: "processFlushRepFromL2Cache next sender m st = Inr st'" and k: "keeps dir_inv next" and "dir_inv st"
  shows "dir_inv st'"
proof -
  obtain l st1 e e1 e2 where get: "dc_getEntry st (msg_address m) False = Inr (Some l, st1)" and e: "dc_read st1 l = Inr e"
    and rem: "removeSharer e sender False = Inr e1" and fl: "after_flush_rep e1 = Inr e2"
    and res: "resume_after_flush next m l e2 (dc_write st1 l e2) = Inr st'"
    using run by (auto simp: processFlushRepFromL2Cache_def bindE_Inr_iff split: option.splits)
  have inv: "dir_inv st1" by (rule dc_getEntry_inv [OF get assms(3)])
  have e2: "entry_inv e2" by (rule after_flush_rep_inv [OF rem dc_read_inv [OF inv e] fl])
  show ?thesis by (rule resume_after_flush_inv [OF res k dc_write_inv [OF inv e2] e2])
qed

lemma wb_rep_inv:
  assumes run: "processWbRepFromL2Cache next sender m st = Inr st'" and k: "keeps dir_inv next" and "dir_inv st"
  shows "dir_inv st'"
proof -
  let ?a = "msg_address m"
  obtain l st1 e e1 r where get: "dc_getEntry st ?a False = Inr (Some l, st1)" and e: "dc_read st1 l = Inr e"
    and has: "hasSharer e sender = Inr True" and own: "setOwner e INVALID_CORE_ID = Inr e1"
    and r: "rq_front (m_req_queues (dc_write st1 l (e1\<lparr>m_dstate := DIR_SHARED\<rparr>))) ?a = Inr r"
    and sh: "processShReqFromL2Cache next (fst (update_times ?a r (dc_write st1 l (e1\<lparr>m_dstate := DIR_SHARED\<rparr>)))) (m_data_buf m)
        (snd (update_times ?a r (dc_write st1 l (e1\<lparr>m_dstate := DIR_SHARED\<rparr>)))) = Inr st'"
    using run by (auto simp: processWbRepFromL2Cache_def bindE_Inr_iff Let_def case_prod_beta split: option.splits if_splits)
  have inv: "dir_inv st1" by (rule dc_getEntry_inv [OF get assms(3)])
  have "sharer_set e \<noteq> {}" "entry_wf e"
    using entry.has_iff [OF has] dc_read_inv [OF inv e] by (auto simp: entry_inv_def)
  then have "entry_inv (e1\<lparr>m_dstate := DIR_SHARED\<rparr>)" using own by (auto simp: setOwner_def entry_inv_def)
  then have "dir_inv (snd (update_times ?a r (dc_write st1 l (e1\<lparr>m_dstate := DIR_SHARED\<rparr>))))"
    using dc_write_inv [OF inv] by (simp add: dir_inv_def)
  then show ?thesis by (rule sh_inv [OF sh k])
qed

lemma dispatch_inv:
  assumes run: "dispatchL2 next sender m st = Inr st'" and k: "keeps dir_inv next" and "dir_inv st"
  shows "dir_inv st'"
proof -
  obtain l st1 where get: "dc_getEntry st (msg_address m) True = Inr (l, st1)"
    using run by (auto simp: dispatchL2_def Let_def bindE_Inr_iff)
  have inv: "dir_inv st1" by (rule dc_getEntry_inv [OF get assms(3)])
  have enq: "dir_inv s'" if "enqueue_request p m t st1 = Inr s'" "\<And>q d s s'. p q d s = Inr s' \<Longrightarrow> dir_inv s \<Longrightarrow> dir_inv s'"
    for p t s'
    using that inv by (auto simp: enqueue_request_def Let_def bindE_Inr_iff dir_inv_def split: if_splits)
  show ?thesis
    using run get inv enq ex_inv [OF _ k] sh_inv [OF _ k] upgrade_inv [OF _ k] inv_rep_inv [OF _ k]
      flush_rep_inv [OF _ k] wb_rep_inv [OF _ k]
    by (cases "m_msg_type m") (auto simp: dispatchL2_def Let_def bindE_Inr_iff)
qed

section \<open>Reachable states\<close>

text \<open>A step of the controller is the handling of any message of the caches or of a DRAM controller.\<close>

inductive dir_step :: "DirCntlr \<Rightarrow> DirCntlr \<Rightarrow> bool" where
  l2: "handleMsgFromL2Cache sender m st = Inr st' \<Longrightarrow> dir_step st st'"
| dram: "handleMsgFromDRAM sender m st = Inr st' \<Longrightarrow> dir_step st st'"

inductive dir_reachable :: "DirCntlr \<Rightarrow> DirCntlr \<Rightarrow> bool" for st0 where
  init: "dir_reachable st0 st0"
| step: "dir_reachable st0 st \<Longrightarrow> dir_step st st' \<Longrightarrow> dir_reachable st0 st'"

inductive_cases dir_stepE: "dir_step st st'"

lemma run_next_inv: "keeps dir_inv (run_next st a)"
  unfolding run_next_def by (rule next_inv) (simp add: keeps_def)

lemma dir_step_inv: "dir_step st st' \<Longrightarrow> dir_inv st \<Longrightarrow> dir_inv st'"
  by (erule dir_stepE)
    (auto simp: handleMsgFromL2Cache_def handleMsgFromDRAM_def run_next_inv
      intro: dispatch_inv dram_reply_inv split: if_splits)

lemma dir_reachable_inv: "dir_reachable st0 st \<Longrightarrow> dir_inv st0 \<Longrightarrow> dir_inv st"
  by (induction rule: dir_reachable.induct) (auto intro: dir_step_inv)

lemma mk_DirCntlr_inv:
  assumes "mk_DramDirectoryCache ty entries assoc bsz hw num pen acc junk ptrs = Inr c"
    and "mk_DirCntlr core home nuca c protocol je stale = Inr st"
  shows "dir_inv st"
  using assms
  by (auto simp: mk_DramDirectoryCache_def mk_Directory_def mk_DirCntlr_def bindE_Inr_iff Let_def dir_inv_def ddc_ok_def
      all_entries_def dir_entries_def split: if_splits)

text \<open>C1. Single writer: in every state that a directory controller reaches from its construction, whatever messages
  arrive in whatever order and under each of the protocols, every entry, also one that is being replaced, is consistent: an
  uncached line has no sharer, a line in state \<^verbatim>\<open>SHARED\<close> has at least one, and a line in state \<^verbatim>\<open>MODIFIED\<close> or
  \<^verbatim>\<open>EXCLUSIVE\<close> has its owner as the only sharer.\<close>

theorem single_writer:
  assumes "mk_DramDirectoryCache ty entries assoc bsz hw num pen acc junk ptrs = Inr c"
    and "mk_DirCntlr core home nuca c protocol je stale = Inr st0"
    and "dir_reachable st0 st" and "e \<in> all_entries (m_dram_directory_cache st)"
  shows "(m_dstate e = DIR_UNCACHED \<longrightarrow> sharer_set e = {}) \<and>
    (m_dstate e = DIR_SHARED \<longrightarrow> sharer_set e \<noteq> {}) \<and>
    (m_dstate e \<in> {DIR_MODIFIED, DIR_EXCLUSIVE} \<longrightarrow> sharer_set e = {m_owner_id e}) \<and>
    m_dstate e \<noteq> DIR_OWNED"
proof -
  have "dir_inv st" by (rule dir_reachable_inv [OF assms(3) mk_DirCntlr_inv [OF assms(1,2)]])
  then have "entry_inv e" using assms(4) by (simp add: dir_inv_def ddc_ok_def)
  then show ?thesis by (cases "m_dstate e") (auto simp: entry_inv_def)
qed

text \<open>A four-entry directory and a first exclusive request.\<close>

definition demo_ddc :: DramDirectoryCache where
  "demo_ddc = projr (mk_DramDirectoryCache ''full_map'' 4 2 64 4 4 0 10 0 (\<lambda>_. 0))"

definition demo_home :: AddressHomeLookup where
  "demo_home = \<lparr>m_ahl_param = 6, m_ahl_mask = 63, m_core_list = [0], m_total_modules = 1, ahl_cache_block_size = 64\<rparr>"

definition demo_cntlr :: DirCntlr where
  "demo_cntlr = projr (mk_DirCntlr 0 demo_home None demo_ddc ''mesi'' (\<lambda>_. 0) (False, 0))"

definition demo_msg :: "msg_t \<Rightarrow> core_id_t \<Rightarrow> ShmemMsg" where
  "demo_msg ty requester = \<lparr>m_msg_type = ty, m_requester = requester, m_where = W_UNKNOWN, msg_address = 0x1040, m_data_buf = None\<rparr>"

lemma demo_run:
  "map_sum id (\<lambda>st. map (map_option m_dstate) (m_directory_entry_list (m_directory (m_dram_directory_cache st))))
     (handleMsgFromL2Cache 1 (demo_msg EX_REQ 1) demo_cntlr) =
   Inr [None, None, Some DIR_MODIFIED, Some DIR_UNCACHED]"
  by code_simp

lemma demo_mk:
  "mk_DramDirectoryCache ''full_map'' 4 2 64 4 4 0 10 0 (\<lambda>_. 0) = Inr demo_ddc"
  "mk_DirCntlr 0 demo_home None demo_ddc ''mesi'' (\<lambda>_. 0) (False, 0) = Inr demo_cntlr"
  by (simp_all add: demo_ddc_def mk_DramDirectoryCache_def mk_Directory_def parseDirectoryType_def Let_def
      demo_cntlr_def mk_DirCntlr_def parseProtocol_def)

theorem single_writer_witness:
  "\<exists>st e. handleMsgFromL2Cache 1 (demo_msg EX_REQ 1) demo_cntlr = Inr st \<and> e \<in> all_entries (m_dram_directory_cache st) \<and>
    m_dstate e = DIR_MODIFIED \<and> sharer_set e = {m_owner_id e}"
proof -
  obtain st where st: "handleMsgFromL2Cache 1 (demo_msg EX_REQ 1) demo_cntlr = Inr st"
    and ds: "[None, None, Some DIR_MODIFIED, Some DIR_UNCACHED] =
      map (map_option m_dstate) (m_directory_entry_list (m_directory (m_dram_directory_cache st)))"
    using demo_run by auto
  have "Some DIR_MODIFIED \<in> set (map (map_option m_dstate) (m_directory_entry_list (m_directory (m_dram_directory_cache st))))"
    unfolding ds [symmetric] by simp
  then obtain e where e: "m_dstate e = DIR_MODIFIED" "e \<in> all_entries (m_dram_directory_cache st)"
    by (auto simp: all_entries_def dir_entries_def dest!: sym [of "Some _"])
  have "dir_reachable demo_cntlr st" using st by (meson dir_reachable.intros dir_step.l2)
  from single_writer [OF demo_mk this e(2)] e st show ?thesis by auto
qed

end
