(* ===== verification/LS_Dir_Progress.thy ===== *)
theory LS_Dir_Progress
  imports LS_Coherence
begin

text \<open>
  Termination of the directory controller: the mutual recursion between
  \<^verbatim>\<open>processNextReqFromL2Cache\<close> and the methods that serve a request is as deep as the queue of
  the address at most, so the bound of the model is never reached.
\<close>

section \<open>Lengths of the queues\<close>

definition qlen :: "DirCntlr \<Rightarrow> IntPtr \<Rightarrow> nat" where
  "qlen st a = length (rq_list (m_req_queues st) a)"

text \<open>The counters that \<^verbatim>\<open>size\<close> returns do not wrap, and a request is queued under its own address.\<close>

definition qbounded :: "DirCntlr \<Rightarrow> bool" where
  "qbounded st \<longleftrightarrow> (\<forall>a. qlen st a < 2 ^ 32 - 1 \<and>
     (\<forall>r\<in>set (rq_list (m_req_queues st) a). msg_address (m_shmem_msg r) = a))"

lemma rq_size_list: "rq_size q a = of_nat (length (rq_list q a))"
  by (simp add: rq_size_def rq_list_def split: option.split)

lemma rq_size_0: "qbounded st \<Longrightarrow> rq_size (m_req_queues st) a = 0 \<Longrightarrow> qlen st a = 0"
proof -
  assume b: "qbounded st" and z: "rq_size (m_req_queues st) a = 0"
  have "qlen st a < 2 ^ 32 - 1" using b unfolding qbounded_def by blast
  then have "unat (of_nat (qlen st a) :: UInt32) = qlen st a" by (intro unat_of_nat_lt) simp
  then show ?thesis using z by (simp add: rq_size_list qlen_def)
qed

lemma queues_unchanged [simp]:
  "m_req_queues (sendMsg ty m r c a d w st) = m_req_queues st"
  "m_req_queues (broadcastMsg ty m r a st) = m_req_queues st"
  "m_req_queues (dc_write st l e) = m_req_queues st"
  by (simp_all add: sendMsg_def broadcastMsg_def dc_write_def)

lemma queues_unchanged_invs [simp]:
  "m_req_queues (send_inv_reqs r a s st) = m_req_queues st"
  "m_req_queues (send_upgrade_invs r a h s st) = m_req_queues st"
  by (auto simp: send_inv_reqs_def send_upgrade_invs_def intro!: fold_unchanged split: prod.splits)

lemma dc_getEntry_queues: "dc_getEntry st a m = Inr (l, st') \<Longrightarrow> m_req_queues st' = m_req_queues st"
  by (auto simp: dc_getEntry_def bindE_Inr_iff)

lemma make_owner_queues: "make_owner r d l e st = Inr st' \<Longrightarrow> m_req_queues st' = m_req_queues st"
  by (auto simp: make_owner_def bindE_Inr_iff)

lemma sendDataToNUCA_queues: "sendDataToNUCA a d c st = Inr st' \<Longrightarrow> m_req_queues st' = m_req_queues st"
  by (cases "m_nuca_cache st") (auto simp: sendDataToNUCA_def bindE_Inr_iff Let_def case_prod_beta split: if_splits)

lemma sendDataToDram_queues: "sendDataToDram a r d st = Inr st' \<Longrightarrow> m_req_queues st' = m_req_queues st"
  by (auto simp: sendDataToDram_def bindE_Inr_iff sendDataToNUCA_queues split: if_splits)

lemma qlen_cong: "m_req_queues s = m_req_queues st \<Longrightarrow> qlen s = qlen st"
  by (rule ext) (simp add: qlen_def)

lemma qbounded_cong: "m_req_queues s = m_req_queues st \<Longrightarrow> qbounded s = qbounded st"
  unfolding qbounded_def qlen_def by simp

section \<open>Continuations that agree\<close>

text \<open>What a bound of at least one gives: a call on a queue with a single request removes it and stops.\<close>

definition pops_last :: "next_req \<Rightarrow> bool" where
  "pops_last next \<longleftrightarrow> (\<forall>b s. qlen s b = 1 \<longrightarrow> next b s = Inr (s\<lparr>m_req_queues := (m_req_queues s)(b := None)\<rparr>))"

lemma pops_last_next: "pops_last (processNextReqFromL2Cache out (Suc n))"
proof -
  have "processNextReqFromL2Cache out (Suc n) b s = Inr (s\<lparr>m_req_queues := (m_req_queues s)(b := None)\<rparr>)"
    if one: "qlen s b = 1" for b s
  proof -
    obtain x where "m_req_queues s b = Some [x]"
      using one by (auto simp: qlen_def rq_list_def length_Suc_conv split: option.splits)
    then show ?thesis by (simp add: rq_size_def rq_dequeue_def rq_empty_def)
  qed
  then show ?thesis by (simp add: pops_last_def)
qed

lemma retrieve_cong:
  assumes "\<And>s. m_req_queues s = m_req_queues st \<Longrightarrow> next1 a s = next2 a s"
  shows "retrieveDataAndSendToL2Cache next1 ty r a d st = retrieveDataAndSendToL2Cache next2 ty r a d st"
proof (cases "dc_getEntry st a False")
  case (Inr p)
  obtain l st1 where p: "p = (l, st1)" by (cases p)
  have "m_req_queues st1 = m_req_queues st" using dc_getEntry_queues Inr p by blast
  then show ?thesis
    using Inr p assms
    by (auto simp: retrieveDataAndSendToL2Cache_def Let_def bindE_def split: option.splits sum.splits prod.splits)
qed (simp add: retrieveDataAndSendToL2Cache_def)

lemma nullify_cong:
  assumes "pops_last next1" "pops_last next2" and "qlen st (msg_address (m_shmem_msg q)) = 1"
  shows "processNullifyReq next1 q st = processNullifyReq next2 q st"
    and "processNullifyReq next1 q st = Inr st' \<Longrightarrow>
      m_req_queues st' = m_req_queues st \<or> m_req_queues st' = (m_req_queues st)(msg_address (m_shmem_msg q) := None)"
proof -
  let ?a = "msg_address (m_shmem_msg q)"
  have n: "next1 ?a s = Inr (s\<lparr>m_req_queues := (m_req_queues s)(?a := None)\<rparr>)"
    "next2 ?a s = Inr (s\<lparr>m_req_queues := (m_req_queues s)(?a := None)\<rparr>)" if "m_req_queues s = m_req_queues st" for s
    using assms that qlen_cong [OF that] by (auto simp: pops_last_def)
  show "processNullifyReq next1 q st = processNullifyReq next2 q st"
  proof (cases "dc_getEntry st ?a False")
    case (Inr p)
    then show ?thesis
      using n dc_getEntry_queues [of st ?a False]
      by (auto simp: processNullifyReq_def Let_def bindE_def split: option.splits sum.splits prod.splits dstate_t.splits)
  qed (simp add: processNullifyReq_def)
  show "m_req_queues st' = m_req_queues st \<or> m_req_queues st' = (m_req_queues st)(?a := None)"
    if run: "processNullifyReq next1 q st = Inr st'"
  proof -
    obtain l st1 e where get: "dc_getEntry st ?a False = Inr (Some l, st1)" and e: "dc_read st1 l = Inr e"
      using run by (auto simp: processNullifyReq_def Let_def bindE_Inr_iff split: option.splits)
    have q1: "m_req_queues st1 = m_req_queues st" by (rule dc_getEntry_queues [OF get])
    show ?thesis
      using run get e q1 n(1) by (cases "m_dstate e") (auto simp: processNullifyReq_def Let_def bindE_Inr_iff)
  qed
qed

lemma pick_candidate_idle:
  assumes "pick_candidate st ns best = Inr (Some (n, e))"
    and "\<And>b be. best = Some (b, be) \<Longrightarrow> rq_size (m_req_queues st) (m_address be) = 0"
  shows "rq_size (m_req_queues st) (m_address e) = 0"
  using assms
proof (induction ns arbitrary: best)
  case (Cons x ns)
  then obtain y where y: "dc_read st (Slot x) = Inr y" by (auto simp: bindE_Inr_iff)
  define best' where "best' = (if (case best of None \<Rightarrow> True | Some (b, be) \<Rightarrow> getNumSharers be > getNumSharers y)
      \<and> rq_size (m_req_queues st) (m_address y) = 0 then Some (x, y) else best)"
  have "pick_candidate st ns best' = Inr (Some (n, e))" using Cons.prems(1) y by (simp add: best'_def)
  moreover have "rq_size (m_req_queues st) (m_address be) = 0" if "best' = Some (b, be)" for b be
    using that Cons.prems(2) unfolding best'_def by (auto split: if_splits)
  ultimately show ?case by (rule Cons.IH)
qed simp

text \<open>The allocation up to the nullification of the replaced entry.\<close>

definition allocate_prefix :: "ShmemReq \<Rightarrow> DirCntlr \<Rightarrow> (entry_loc \<times> ShmemReq \<times> DirCntlr) res" where
  "allocate_prefix q st =
     bindE (getReplacementCandidates (m_dram_directory_cache st) (m_elapsed_time st) (msg_address (m_shmem_msg q)))
      (\<lambda>(slots, c). let st' = st\<lparr>m_dram_directory_cache := c\<rparr> in
       bindE (pick_candidate st' slots None)
       (\<lambda>candidate. case candidate of
          None \<Rightarrow> Inl (LogError ''Cannot find a directory entry to be replaced with a non-zero request list (see Redmine #175)'')
        | Some (n, e) \<Rightarrow>
            let st' = st'\<lparr>evict_count := (evict_count st')(m_dstate e := evict_count st' (m_dstate e) + 1)\<rparr> in
            bindE (replaceDirectoryEntry (m_dram_directory_cache st') (m_elapsed_time st') (m_address e) (msg_address (m_shmem_msg q)) True)
            (\<lambda>(l, c, now). let st' = st'\<lparr>m_dram_directory_cache := c, m_elapsed_time := now\<rparr> in
             bindE (mk_ShmemReq \<lparr>m_msg_type = NULLIFY_REQ, m_requester = m_requester (m_shmem_msg q), m_where = W_UNKNOWN,
                                   msg_address = m_address e, m_data_buf = None\<rparr> (m_elapsed_time st))
             (\<lambda>nq. let st' = st'\<lparr>m_req_queues := rq_enqueue (m_req_queues st') (m_address e) nq\<rparr> in
              bindE (assertE (rq_size (m_req_queues st') (m_address e) = 1) (AssertError ''size(replaced_address) == 1''))
              (\<lambda>_. Inr (l, nq, st'))))))"

lemma allocate_split:
  "processDirectoryEntryAllocationReq next q st =
     bindE (allocate_prefix q st) (\<lambda>(l, nq, st). bindE (processNullifyReq next nq st) (\<lambda>st. Inr (l, st)))"
  by (auto simp: processDirectoryEntryAllocationReq_def allocate_prefix_def Let_def bindE_def
      split: sum.splits option.splits prod.splits)

lemma allocate_prefix_queues:
  assumes "allocate_prefix q st = Inr (l, nq, st1)" and "qbounded st"
  shows "qlen st1 (msg_address (m_shmem_msg nq)) = 1 \<and> qbounded st1 \<and> qlen st (msg_address (m_shmem_msg nq)) = 0 \<and>
    (\<forall>a. a \<noteq> msg_address (m_shmem_msg nq) \<longrightarrow> qlen st1 a = qlen st a)"
proof -
  obtain slots c n e where pick: "pick_candidate (st\<lparr>m_dram_directory_cache := c\<rparr>) slots None = Inr (Some (n, e))"
    and nq: "msg_address (m_shmem_msg nq) = m_address e"
    and q1: "m_req_queues st1 = rq_enqueue (m_req_queues st) (m_address e) nq"
    using assms(1)
    by (auto simp: allocate_prefix_def Let_def bindE_Inr_iff mk_ShmemReq_def split: option.splits)
  have "rq_size (m_req_queues st) (m_address e) = 0" using pick_candidate_idle [OF pick] by simp
  then have idle: "qlen st (m_address e) = 0" by (rule rq_size_0 [OF assms(2)])
  have qs: "qlen st1 = (qlen st)(m_address e := 1)"
    using idle by (auto simp: qlen_def q1 fun_eq_iff)
  moreover have "qbounded st1"
    using assms(2) nq qs unfolding qbounded_def q1 by auto
  ultimately show ?thesis using idle nq by auto
qed

lemma allocate_cong:
  assumes p: "pops_last next1" "pops_last next2" and b: "qbounded st"
  shows "processDirectoryEntryAllocationReq next1 q st = processDirectoryEntryAllocationReq next2 q st"
    and "processDirectoryEntryAllocationReq next1 q st = Inr (l, st') \<Longrightarrow>
      qbounded st' \<and> (\<forall>a. 0 < qlen st a \<longrightarrow> qlen st' a = qlen st a)"
proof -
  show "processDirectoryEntryAllocationReq next1 q st = processDirectoryEntryAllocationReq next2 q st"
    unfolding allocate_split
    using nullify_cong(1) [OF p] allocate_prefix_queues [OF _ b]
    by (cases "allocate_prefix q st") (auto split: prod.splits)
  assume "processDirectoryEntryAllocationReq next1 q st = Inr (l, st')"
  then obtain nq st1 where pre: "allocate_prefix q st = Inr (l, nq, st1)" and nul: "processNullifyReq next1 nq st1 = Inr st'"
    unfolding allocate_split by (auto simp: bindE_Inr_iff)
  let ?b = "msg_address (m_shmem_msg nq)"
  note q1 = allocate_prefix_queues [OF pre b]
  have "m_req_queues st' = m_req_queues st1 \<or> m_req_queues st' = (m_req_queues st1)(?b := None)"
    using nullify_cong(2) [OF p _ nul] q1 by blast
  then have lists: "rq_list (m_req_queues st') = rq_list (m_req_queues st1) \<or>
      rq_list (m_req_queues st') = (rq_list (m_req_queues st1))(?b := [])"
    by (auto simp: rq_list_def fun_eq_iff)
  then have le: "qlen st' a \<le> qlen st1 a" "a \<noteq> ?b \<Longrightarrow> qlen st' a = qlen st1 a" for a by (auto simp: qlen_def)
  have "set (rq_list (m_req_queues st') a) \<subseteq> set (rq_list (m_req_queues st1) a)" for a
    using lists by (auto split: if_splits)
  then have "qbounded st'" using q1 le(1) unfolding qbounded_def by (meson le_less_trans subsetD)
  moreover have "qlen st' a = qlen st a" if "0 < qlen st a" for a
    using q1 le(2) [of a] that by (cases "a = ?b") auto
  ultimately show "qbounded st' \<and> (\<forall>a. 0 < qlen st a \<longrightarrow> qlen st' a = qlen st a)" by blast
qed

lemma find_or_allocate_cong:
  assumes p: "pops_last next1" "pops_last next2" and b: "qbounded st"
  shows "find_or_allocate next1 q st = find_or_allocate next2 q st"
    and "find_or_allocate next1 q st = Inr (l, st') \<Longrightarrow>
      qbounded st' \<and> (\<forall>a. 0 < qlen st a \<longrightarrow> qlen st' a = qlen st a)"
proof -
  let ?g = "dc_getEntry st (msg_address (m_shmem_msg q)) False"
  have q1: "qbounded st1 \<and> qlen st1 = qlen st" if "?g = Inr (r, st1)" for r st1
    using dc_getEntry_queues [OF that] b qbounded_cong qlen_cong by blast
  show "find_or_allocate next1 q st = find_or_allocate next2 q st"
    using allocate_cong(1) [OF p] q1
    by (cases ?g) (auto simp: find_or_allocate_def split: prod.splits option.splits)
  show "qbounded st' \<and> (\<forall>a. 0 < qlen st a \<longrightarrow> qlen st' a = qlen st a)" if run: "find_or_allocate next1 q st = Inr (l, st')"
  proof -
    obtain r st1 where get: "?g = Inr (r, st1)" using run by (auto simp: find_or_allocate_def bindE_Inr_iff)
    show ?thesis
      using run get q1 [OF get] allocate_cong(2) [OF p]
      by (cases r) (auto simp: find_or_allocate_def)
  qed
qed

section \<open>Serving a request\<close>

text \<open>Two continuations that agree on the address of a request, as long as its queue has the length it has now.\<close>

definition agree_at :: "IntPtr \<Rightarrow> nat \<Rightarrow> next_req \<Rightarrow> next_req \<Rightarrow> bool" where
  "agree_at a n next1 next2 \<longleftrightarrow> pops_last next1 \<and> pops_last next2 \<and>
     (\<forall>s. qbounded s \<longrightarrow> qlen s a = n \<longrightarrow> next1 a s = next2 a s)"

lemma agree_retrieve:
  assumes "agree_at a n next1 next2" and "qbounded st" and "qlen st a = n"
  shows "retrieveDataAndSendToL2Cache next1 ty r a d st = retrieveDataAndSendToL2Cache next2 ty r a d st"
  using assms qbounded_cong qlen_cong unfolding agree_at_def by (intro retrieve_cong) metis

lemma agree_request:
  assumes ag: "agree_at (msg_address (m_shmem_msg q)) n next1 next2" and b: "qbounded st"
    and n: "qlen st (msg_address (m_shmem_msg q)) = n" "0 < n"
  shows "find_or_allocate next1 q st = find_or_allocate next2 q st"
    and "find_or_allocate next2 q st = Inr (l, st1) \<Longrightarrow> qbounded st1 \<and> qlen st1 (msg_address (m_shmem_msg q)) = n"
proof -
  have p: "pops_last next1" "pops_last next2" using ag by (auto simp: agree_at_def)
  note foa = find_or_allocate_cong [OF p b, of q]
  show "find_or_allocate next1 q st = find_or_allocate next2 q st" by (rule foa(1))
  show "find_or_allocate next2 q st = Inr (l, st1) \<Longrightarrow> qbounded st1 \<and> qlen st1 (msg_address (m_shmem_msg q)) = n"
    using foa n by auto
qed

text \<open>The continuation is called, or the data retrieved, in states with the queues of the state in which the entry was found.\<close>

lemma agree_after:
  assumes ag: "agree_at (msg_address (m_shmem_msg q)) n next1 next2" and b: "qbounded st"
    and n: "qlen st (msg_address (m_shmem_msg q)) = n" "0 < n"
    and loc: "find_or_allocate next2 q st = Inr (l, st1)" and s: "m_req_queues s = m_req_queues st1"
  shows "next1 (msg_address (m_shmem_msg q)) s = next2 (msg_address (m_shmem_msg q)) s"
    and "retrieveDataAndSendToL2Cache next1 ty r (msg_address (m_shmem_msg q)) d s =
      retrieveDataAndSendToL2Cache next2 ty r (msg_address (m_shmem_msg q)) d s"
proof -
  have s': "qbounded s" "qlen s (msg_address (m_shmem_msg q)) = n"
    using agree_request(2) [OF ag b n loc] qbounded_cong [OF s] qlen_cong [OF s] by auto
  then show "next1 (msg_address (m_shmem_msg q)) s = next2 (msg_address (m_shmem_msg q)) s"
    using ag by (simp add: agree_at_def)
  show "retrieveDataAndSendToL2Cache next1 ty r (msg_address (m_shmem_msg q)) d s =
      retrieveDataAndSendToL2Cache next2 ty r (msg_address (m_shmem_msg q)) d s"
    by (rule agree_retrieve [OF ag s'])
qed

lemma ex_cong:
  assumes "agree_at (msg_address (m_shmem_msg q)) n next1 next2" and "qbounded st"
    and "qlen st (msg_address (m_shmem_msg q)) = n" "0 < n"
  shows "processExReqFromL2Cache next1 q d st = processExReqFromL2Cache next2 q d st"
  unfolding processExReqFromL2Cache_def Let_def
  apply (rule bindE_cong [OF agree_request(1) [OF assms]])
  apply clarify
  subgoal premises loc for l st1
    by (auto intro!: bindE_cong agree_after [OF assms loc] dest!: make_owner_queues split: dstate_t.split)
  done

lemma sh_cong:
  assumes "agree_at (msg_address (m_shmem_msg q)) n next1 next2" and "qbounded st"
    and "qlen st (msg_address (m_shmem_msg q)) = n" "0 < n"
  shows "processShReqFromL2Cache next1 q d st = processShReqFromL2Cache next2 q d st"
  unfolding processShReqFromL2Cache_def Let_def
  apply (rule bindE_cong [OF agree_request(1) [OF assms]])
  apply clarify
  subgoal premises loc for l st1
    by (auto intro!: bindE_cong agree_after [OF assms loc] dest!: make_owner_queues split: dstate_t.split)
  done

lemma upgrade_cong:
  assumes "agree_at (msg_address (m_shmem_msg q)) n next1 next2" and "qbounded st"
    and "qlen st (msg_address (m_shmem_msg q)) = n" "0 < n"
  shows "processUpgradeReqFromL2Cache next1 q d st = processUpgradeReqFromL2Cache next2 q d st"
  unfolding processUpgradeReqFromL2Cache_def Let_def
  apply (rule bindE_cong [OF agree_request(1) [OF assms]])
  apply clarify
  subgoal premises loc for l st1
    by (auto intro!: bindE_cong agree_after [OF assms loc] dest!: make_owner_queues split: dstate_t.split list.split)
  done

section \<open>The bound is enough\<close>

lemma dequeue_qlen:
  assumes "rq_dequeue (m_req_queues st) a = Inr (x, q)" and "qbounded st"
  shows "qlen st a = Suc (length (rq_list q a))" and "qbounded (st\<lparr>m_req_queues := q\<rparr>)"
    and "\<not> rq_empty q a \<Longrightarrow> \<exists>r. rq_front q a = Inr r \<and> msg_address (m_shmem_msg r) = a"
proof -
  obtain xs where xs: "m_req_queues st a = Some (x # xs)" and q: "q = (m_req_queues st)(a := (if xs = [] then None else Some xs))"
    using assms(1) by (auto simp: rq_dequeue_def split: option.splits list.splits)
  then have l: "rq_list q = (rq_list (m_req_queues st))(a := xs)" "rq_list (m_req_queues st) a = x # xs"
    by (auto simp: rq_list_def)
  then show "qlen st a = Suc (length (rq_list q a))" by (simp add: qlen_def)
  have "qlen (st\<lparr>m_req_queues := q\<rparr>) b \<le> qlen st b" for b using l by (simp add: qlen_def)
  moreover have "set (rq_list q b) \<subseteq> set (rq_list (m_req_queues st) b)" for b using l by auto
  ultimately show "qbounded (st\<lparr>m_req_queues := q\<rparr>)"
    using assms(2) unfolding qbounded_def by (simp add: subset_iff) (meson le_less_trans)
  have home: "\<forall>r\<in>set xs. msg_address (m_shmem_msg r) = a" using assms(2) l(2) unfolding qbounded_def by auto
  show "\<exists>r. rq_front q a = Inr r \<and> msg_address (m_shmem_msg r) = a" if "\<not> rq_empty q a"
    using that q home by (cases xs) (auto simp: rq_empty_def rq_front_def)
qed

lemma serve_cong:
  assumes "agree_at (msg_address (m_shmem_msg q)) n next1 next2" and "qbounded st"
    and "qlen st (msg_address (m_shmem_msg q)) = n" "0 < n"
  shows "serveRequest next1 q st = serveRequest next2 q st"
  unfolding serveRequest_def ex_cong [OF assms] sh_cong [OF assms] upgrade_cong [OF assms] by (rule refl)

lemma next_enough:
  assumes "qbounded st" and "qlen st a \<le> n" "0 < n" "n \<le> m"
  shows "processNextReqFromL2Cache out n a st = processNextReqFromL2Cache out' m a st"
  using assms
proof (induction n arbitrary: m st)
  case (Suc n)
  then obtain m' where m: "m = Suc m'" "n \<le> m'" by (cases m) auto
  let ?next1 = "processNextReqFromL2Cache out n" and ?next2 = "processNextReqFromL2Cache out' m'"
  have serve: "serveRequest ?next1 r (st\<lparr>m_req_queues := q, m_elapsed_time := t\<rparr>) =
      serveRequest ?next2 r (st\<lparr>m_req_queues := q, m_elapsed_time := t\<rparr>)"
    if dq: "rq_dequeue (m_req_queues st) a = Inr (x, q)" and more: "\<not> rq_empty q a" and r: "rq_front q a = Inr r" for x q r t
  proof -
    note after = dequeue_qlen [OF dq Suc.prems(1)]
    have addr: "msg_address (m_shmem_msg r) = a" using after(3) more r by auto
    have len: "0 < length (rq_list q a)"
      using r by (auto simp: rq_front_def rq_list_def split: option.splits list.splits)
    then have n: "0 < n" "length (rq_list q a) \<le> n" using after(1) Suc.prems(2) by linarith+
    have "pops_last ?next1" "pops_last ?next2"
      using n(1) m(2) pops_last_next [of out "n - 1"] pops_last_next [of out' "m' - 1"] by simp_all
    moreover have "?next1 a s = ?next2 a s" if "qbounded s" "qlen s a = length (rq_list q a)" for s
      by (rule Suc.IH [OF that(1) _ n(1) m(2)]) (simp add: that(2) n(2))
    ultimately have "agree_at a (length (rq_list q a)) ?next1 ?next2"
      unfolding agree_at_def by blast
    then show ?thesis
      using after(2) len addr by (intro serve_cong) (auto simp: qlen_def qbounded_def)
  qed
  show ?case
    unfolding m(1) processNextReqFromL2Cache.simps Let_def
    by (intro bindE_cong refl) (auto intro!: bindE_cong simp: serve)
qed simp

text \<open>The requests that replies resume are those of the address of the reply.\<close>

lemma update_times_queues:
  assumes "update_times a r st = (r', st')" and "rq_front (m_req_queues st) a = Inr r" and "qbounded st"
  shows "qbounded st' \<and> qlen st' = qlen st \<and> msg_address (m_shmem_msg r') = a \<and> 0 < qlen st a"
proof -
  obtain xs where xs: "rq_list (m_req_queues st) a = r # xs"
    using assms(2) by (auto simp: rq_front_def rq_list_def split: option.splits list.splits)
  have q': "m_req_queues st' = rq_update_front (m_req_queues st) a (\<lambda>r. req_updateTime r (m_elapsed_time st))"
    and r': "r' = req_updateTime r (m_elapsed_time st)"
    using assms(1) by (auto simp: update_times_def Let_def update_front_def)
  have msg: "m_shmem_msg (req_updateTime x t) = m_shmem_msg x" for x t by (simp add: req_updateTime_def)
  have len: "qlen st' = qlen st" by (rule ext) (auto simp: qlen_def q' xs)
  have "qbounded st'"
    using assms(3) xs msg len unfolding qbounded_def q' by auto
  moreover have "msg_address (m_shmem_msg r') = a"
    using assms(3) xs msg unfolding qbounded_def r' by auto
  ultimately show ?thesis using len xs by (simp add: qlen_def)
qed

text \<open>Continuations that agree on the address as long as its queue is no longer than \<open>n\<close>.\<close>

definition agree_upto :: "IntPtr \<Rightarrow> nat \<Rightarrow> next_req \<Rightarrow> next_req \<Rightarrow> bool" where
  "agree_upto a n next1 next2 \<longleftrightarrow> (\<forall>k. 0 < k \<longrightarrow> k \<le> n \<longrightarrow> agree_at a k next1 next2)"

lemma agree_uptoD:
  assumes "agree_upto a n next1 next2" and "qlen st a \<le> n" "0 < qlen st a"
  shows "agree_at a (qlen st a) next1 next2"
  using assms by (simp add: agree_upto_def)

lemma nullify_cong_upto:
  assumes "agree_upto a n next1 next2" and "qbounded st" "qlen st a \<le> n" "0 < qlen st a"
    and a: "a = msg_address (m_shmem_msg q)"
  shows "processNullifyReq next1 q st = processNullifyReq next2 q st"
proof -
  have n: "next1 a s = next2 a s" if "m_req_queues s = m_req_queues st" for s
    using agree_uptoD [OF assms(1,3,4)] assms(2) qbounded_cong [OF that] qlen_cong [OF that] by (simp add: agree_at_def)
  show ?thesis
  proof (cases "dc_getEntry st a False")
    case (Inr p)
    then show ?thesis
      using n dc_getEntry_queues [of st a False]
      by (auto simp: processNullifyReq_def Let_def bindE_def a split: option.splits sum.splits prod.splits dstate_t.splits)
  qed (simp add: processNullifyReq_def a)
qed

lemma serving_cong:
  assumes "agree_upto a n next1 next2" and "qbounded st" "qlen st a \<le> n" "0 < qlen st a"
    and a: "a = msg_address (m_shmem_msg q)"
  shows "processExReqFromL2Cache next1 q d st = processExReqFromL2Cache next2 q d st"
    and "processShReqFromL2Cache next1 q d st = processShReqFromL2Cache next2 q d st"
    and "processUpgradeReqFromL2Cache next1 q d st = processUpgradeReqFromL2Cache next2 q d st"
  using agree_uptoD [OF assms(1,3,4)] assms(2,4) unfolding a by (auto intro: ex_cong sh_cong upgrade_cong)

lemma resume_inv_cong:
  assumes ag: "agree_upto a n next1 next2" and b: "qbounded st" "qlen st a \<le> n"
  shows "resume_after_inv next1 sender a l e st = resume_after_inv next2 sender a l e st"
proof (cases "rq_front (m_req_queues st) a")
  case (Inr r)
  obtain r1 st1 where ut: "update_times a r st = (r1, st1)" by fastforce
  note q1 = update_times_queues [OF ut Inr b(1)]
  have s: "qbounded s \<and> qlen s a \<le> n \<and> 0 < qlen s a" if "m_req_queues s = m_req_queues st1" for s
    using qbounded_cong [OF that] qlen_cong [OF that] q1 b(2) by simp
  have a: "a = msg_address (m_shmem_msg r1)" using q1 by simp
  show ?thesis
    unfolding resume_after_inv_def Inr bindE_simps ut Let_def prod.case
    using serving_cong [OF ag _ _ _ a] nullify_cong_upto [OF ag _ _ _ a] s [of st1] s [of "dc_write st1 l x" for x]
    by (auto intro!: bindE_cong split: msg_t.split)
qed (simp add: resume_after_inv_def)

lemma resume_flush_cong:
  assumes ag: "agree_upto (msg_address m) n next1 next2" and b: "qbounded st" "qlen st (msg_address m) \<le> n"
  shows "resume_after_flush next1 m l e st = resume_after_flush next2 m l e st"
proof (cases "rq_front (m_req_queues st) (msg_address m)")
  case (Inr r)
  obtain r1 st1 where ut: "update_times (msg_address m) r st = (r1, st1)" by fastforce
  note q1 = update_times_queues [OF ut Inr b(1)]
  have s: "qbounded s \<and> qlen s (msg_address m) \<le> n \<and> 0 < qlen s (msg_address m)" if "m_req_queues s = m_req_queues st1" for s
    using qbounded_cong [OF that] qlen_cong [OF that] q1 b(2) by simp
  have a: "msg_address m = msg_address (m_shmem_msg r1)" using q1 by simp
  show ?thesis
    unfolding resume_after_flush_def Inr bindE_simps ut Let_def prod.case
    using serving_cong [OF ag _ _ _ a] nullify_cong_upto [OF ag _ _ _ a] s [of st1] s [of "dc_write st1 l x" for x]
      s [OF sendDataToDram_queues]
    by (auto intro!: bindE_cong split: msg_t.split)
qed (simp add: resume_after_flush_def Let_def)

lemma found_entry_queues:
  assumes "dc_getEntry st a f = Inr (r, st1)"
  shows "qbounded (dc_write st1 l x) = qbounded st" and "qlen (dc_write st1 l x) = qlen st"
proof -
  have "m_req_queues (dc_write st1 l x) = m_req_queues st" using dc_getEntry_queues [OF assms] by simp
  then show "qbounded (dc_write st1 l x) = qbounded st" "qlen (dc_write st1 l x) = qlen st"
    by (rule qbounded_cong, rule qlen_cong)
qed

lemma inv_rep_cong:
  assumes ag: "agree_upto (msg_address m) n next1 next2" and b: "qbounded st" "qlen st (msg_address m) \<le> n"
  shows "processInvRepFromL2Cache next1 sender m st = processInvRepFromL2Cache next2 sender m st"
  unfolding processInvRepFromL2Cache_def Let_def
  by (auto intro!: bindE_cong simp: b found_entry_queues split: option.split intro!: resume_inv_cong [OF ag])

lemma flush_rep_cong:
  assumes ag: "agree_upto (msg_address m) n next1 next2" and b: "qbounded st" "qlen st (msg_address m) \<le> n"
  shows "processFlushRepFromL2Cache next1 sender m st = processFlushRepFromL2Cache next2 sender m st"
  unfolding processFlushRepFromL2Cache_def Let_def
  by (auto intro!: bindE_cong simp: b found_entry_queues split: option.split intro!: resume_flush_cong [OF ag])

lemma wb_rep_cong:
  assumes ag: "agree_upto (msg_address m) n next1 next2" and b: "qbounded st" "qlen st (msg_address m) \<le> n"
  shows "processWbRepFromL2Cache next1 sender m st = processWbRepFromL2Cache next2 sender m st"
proof -
  have "processShReqFromL2Cache next1 r1 d st2 = processShReqFromL2Cache next2 r1 d st2"
    if get: "dc_getEntry st (msg_address m) False = Inr (Some l, st1)"
      and fr: "rq_front (m_req_queues (dc_write st1 l x)) (msg_address m) = Inr r"
      and ut: "update_times (msg_address m) r (dc_write st1 l x) = (r1, st2)" for l st1 x r r1 st2 d
  proof -
    show ?thesis
      using update_times_queues [OF ut fr] b by (intro serving_cong(2) [OF ag]) (simp_all add: found_entry_queues [OF get])
  qed
  then show ?thesis
    unfolding processWbRepFromL2Cache_def Let_def
    by (auto intro!: bindE_cong split: option.split prod.split simp: case_prod_beta)
qed

lemma dram_reply_cong:
  assumes ag: "agree_upto (msg_address m) n next1 next2" and b: "qbounded st" "qlen st (msg_address m) \<le> n"
  shows "processDRAMReply next1 sender m st = processDRAMReply next2 sender m st"
proof -
  have "next1 (msg_address m) s = next2 (msg_address m) s"
    if "rq_front (m_req_queues st) (msg_address m) = Inr r" and q: "m_req_queues s = m_req_queues st" for s r
  proof -
    have "0 < qlen st (msg_address m)"
      using that(1) by (auto simp: rq_front_def rq_list_def qlen_def split: option.splits list.splits)
    then show ?thesis
      using agree_uptoD [OF ag b(2)] qbounded_cong [OF q] qlen_cong [OF q] b(1) by (simp add: agree_at_def)
  qed
  then show ?thesis
    unfolding processDRAMReply_def Let_def
    using dc_getEntry_queues sendDataToNUCA_queues
    by (fastforce intro!: bindE_cong split: option.split)
qed

lemma enqueue_cong:
  assumes ag: "agree_upto (msg_address m) n next1 next2" and n: "0 < n"
    and p: "\<And>q d s k. agree_at (msg_address (m_shmem_msg q)) k next1 next2 \<Longrightarrow> qbounded s \<Longrightarrow>
      qlen s (msg_address (m_shmem_msg q)) = k \<Longrightarrow> 0 < k \<Longrightarrow> process1 q d s = process2 q d s"
    and b: "qbounded st" "qlen st (msg_address m) < 2 ^ 32 - 2"
  shows "enqueue_request process1 m t st = enqueue_request process2 m t st"
proof -
  let ?a = "msg_address m"
  have "process1 q None s = process2 q None s"
    if mk: "mk_ShmemReq m t = Inr q" and s: "s = st\<lparr>m_req_queues := rq_enqueue (m_req_queues st) ?a q\<rparr>"
      and one: "rq_size (m_req_queues s) ?a = 1" for q s
  proof -
    have q: "msg_address (m_shmem_msg q) = ?a" using mk by (auto simp: mk_ShmemReq_def bindE_Inr_iff)
    have len: "qlen s = (qlen st)(?a := Suc (qlen st ?a))" by (auto simp: s qlen_def fun_eq_iff)
    have bs: "qbounded s"
      using b len q unfolding qbounded_def s by auto
    have "unat (of_nat (qlen s ?a) :: UInt32) = qlen s ?a"
      using b(2) len by (intro unat_of_nat_lt) simp
    then have "qlen s ?a = 1" using one by (simp add: rq_size_list qlen_def)
    then show ?thesis using ag n bs q by (intro p [of _ 1]) (simp_all add: agree_upto_def)
  qed
  then show ?thesis
    unfolding enqueue_request_def Let_def by (auto intro!: bindE_cong)
qed

lemma run_next_agrees:
  assumes "Suc (qlen st a) \<le> n"
  shows "agree_upto a (Suc (qlen st a)) (run_next st a) (processNextReqFromL2Cache out n)"
proof -
  obtain n' where n: "n = Suc n'" using assms by (cases n) auto
  have "run_next st a a s = processNextReqFromL2Cache out n a s" if "qbounded s" "0 < qlen s a" "qlen s a \<le> Suc (qlen st a)" for s
    unfolding run_next_def request_bound_def using that assms by (intro next_enough) (simp_all add: qlen_def)
  then show ?thesis
    by (auto simp: agree_upto_def agree_at_def n pops_last_next run_next_def request_bound_def)
qed

section \<open>Termination of the handlers\<close>

text \<open>
  C2. The recursion of the controller ends within the bound of the model: whatever would follow when the bound is
  reached (\<open>out\<close>) and whatever larger bound is taken, a message is handled with the same outcome. So
  \<^verbatim>\<open>handleMsgFromL2Cache\<close> and \<^verbatim>\<open>handleMsgFromDRAM\<close> return, with the value of the unbounded recursion, in every state
  whose requests are queued under their own addresses and whose 32-bit queue sizes have room for one more.
\<close>
theorem directory_recursion_terminates:
  assumes "qbounded st" and "qlen st (msg_address m) < 2 ^ 32 - 2" and "request_bound st (msg_address m) \<le> n"
  shows "dispatchL2 (processNextReqFromL2Cache out n) sender m st = handleMsgFromL2Cache sender m st \<and>
    (m_msg_type m = DRAM_READ_REP \<longrightarrow>
       processDRAMReply (processNextReqFromL2Cache out n) sender m st = handleMsgFromDRAM sender m st)"
proof -
  let ?a = "msg_address m"
  have ag: "agree_upto ?a (Suc (qlen st ?a)) (run_next st ?a) (processNextReqFromL2Cache out n)"
    using assms(3) by (intro run_next_agrees) (simp add: request_bound_def qlen_def)
  have found: "qbounded s \<and> qlen s = qlen st" if "dc_getEntry st ?a True = Inr (l, s)" for l s
    using dc_getEntry_queues [OF that] qbounded_cong qlen_cong assms(1) by blast
  have len: "qlen st ?a \<le> Suc (qlen st ?a)" by simp
  have "handleMsgFromL2Cache sender m st = dispatchL2 (processNextReqFromL2Cache out n) sender m st"
    unfolding handleMsgFromL2Cache_def dispatchL2_def Let_def
    apply (rule bindE_cong [OF refl])
    apply clarify
    subgoal premises get for l s
      using found [OF get] assms(2)
        enqueue_cong [OF ag _ ex_cong, where st = s] enqueue_cong [OF ag _ sh_cong, where st = s] enqueue_cong [OF ag _ upgrade_cong, where st = s]
        inv_rep_cong [OF ag, of s] flush_rep_cong [OF ag, of s] wb_rep_cong [OF ag, of s]
      by (simp split: msg_t.split)
    done
  then show ?thesis
    using dram_reply_cong [OF ag assms(1) len] by (simp add: handleMsgFromDRAM_def)
qed

theorem directory_recursion_terminates_witness:
  "dispatchL2 (processNextReqFromL2Cache (\<lambda>_ st. Inr st) 7) 1 (demo_msg EX_REQ 1) demo_cntlr =
     handleMsgFromL2Cache 1 (demo_msg EX_REQ 1) demo_cntlr \<and>
   (\<exists>st. handleMsgFromL2Cache 1 (demo_msg EX_REQ 1) demo_cntlr = Inr st)"
proof -
  have q: "m_req_queues demo_cntlr = Map.empty"
    by (simp add: demo_cntlr_def mk_DirCntlr_def parseProtocol_def Let_def)
  then have l: "rq_list (m_req_queues demo_cntlr) a = []" for a by (simp add: rq_list_def)
  have "qbounded demo_cntlr" by (simp add: qbounded_def qlen_def l)
  moreover have "\<exists>st. handleMsgFromL2Cache 1 (demo_msg EX_REQ 1) demo_cntlr = Inr st"
    using demo_run by auto
  ultimately show ?thesis
    using directory_recursion_terminates [of demo_cntlr "demo_msg EX_REQ 1" 7 "\<lambda>_ st. Inr st" 1]
    by (simp add: qlen_def l request_bound_def)
qed

end
