(* ===== verification/LS_Time.thy ===== *)
theory LS_Time
  imports LS_Prelude
begin

text \<open>
  Simulated time (\<^verbatim>\<open>common/misc/subsecond_time.h\<close>): 64-bit femtosecond counts that wrap, the units, the period of a
  component and the conversions between its cycles and time. A component holds a pointer to its period, which changes
  under frequency scaling; the model has a store of periods, and the checks on pointers compare the addresses.
\<close>

type_synonym SubsecondTime = UInt64

section \<open>Units\<close>

definition FS_1 :: UInt64 where "FS_1 = 1"
definition PS_1 :: UInt64 where "PS_1 = FS_1 * 1000"
definition NS_1 :: UInt64 where "NS_1 = PS_1 * 1000"
definition US_1 :: UInt64 where "US_1 = NS_1 * 1000"
definition MS_1 :: UInt64 where "MS_1 = US_1 * 1000"
definition SEC_1 :: UInt64 where "SEC_1 = MS_1 * 1000"

definition PS :: "UInt64 \<Rightarrow> SubsecondTime" where "PS ps = ps * PS_1"
definition NS :: "UInt64 \<Rightarrow> SubsecondTime" where "NS ns = ns * NS_1"
definition US :: "UInt64 \<Rightarrow> SubsecondTime" where "US us = us * US_1"
definition MS :: "UInt64 \<Rightarrow> SubsecondTime" where "MS ms = ms * MS_1"
definition SEC :: "UInt64 \<Rightarrow> SubsecondTime" where "SEC sec = sec * SEC_1"
definition MaxTime :: SubsecondTime where "MaxTime = 0xffffffffffffffff"

definition getPS :: "SubsecondTime \<Rightarrow> UInt64" where "getPS t = t div PS_1"
definition getNS :: "SubsecondTime \<Rightarrow> UInt64" where "getNS t = t div NS_1"
definition getUS :: "SubsecondTime \<Rightarrow> UInt64" where "getUS t = t div US_1"
definition getMS :: "SubsecondTime \<Rightarrow> UInt64" where "getMS t = t div MS_1"
definition getSEC :: "SubsecondTime \<Rightarrow> UInt64" where "getSEC t = t div SEC_1"

lemmas unit_defs = FS_1_def PS_1_def NS_1_def US_1_def MS_1_def SEC_1_def

section \<open>Division\<close>

definition time_div :: "SubsecondTime \<Rightarrow> UInt64 \<Rightarrow> SubsecondTime res" where
  "time_div lhs rhs = (if rhs = 0 then Inl DivByZero else Inr (lhs div rhs))"

definition divideRounded :: "SubsecondTime \<Rightarrow> SubsecondTime \<Rightarrow> UInt64 res" where
  "divideRounded lhs rhs = time_div (lhs + (rhs div 2 + 1)) rhs"

section \<open>Periods, latencies and bandwidths\<close>

type_synonym period_ptr = nat
type_synonym periods = "period_ptr \<Rightarrow> SubsecondTime"

definition fromFreqHz :: "UInt64 \<Rightarrow> SubsecondTime res" where
  "fromFreqHz freq_in_hz = time_div SEC_1 freq_in_hz"

definition setPeriodFromFreqHz :: "periods \<Rightarrow> period_ptr \<Rightarrow> UInt64 \<Rightarrow> periods res" where
  "setPeriodFromFreqHz ps p freq_in_hz = bindE (time_div SEC_1 freq_in_hz) (\<lambda>t. Inr (ps(p := t)))"

definition getPeriodInFreqMHz :: "SubsecondTime \<Rightarrow> UInt64 res" where
  "getPeriodInFreqMHz period = time_div US_1 period"

definition cyclesToSubsecondTime :: "periods \<Rightarrow> period_ptr \<Rightarrow> UInt64 \<Rightarrow> SubsecondTime" where
  "cyclesToSubsecondTime ps p cycles = ps p * cycles"

definition subsecondTimeToCycles :: "periods \<Rightarrow> period_ptr \<Rightarrow> SubsecondTime \<Rightarrow> UInt64 res" where
  "subsecondTimeToCycles ps p time = time_div time (ps p)"

record ComponentBandwidth =
  m_bw_in_bits_per_us :: UInt64

definition bw_getLatency :: "ComponentBandwidth \<Rightarrow> UInt64 \<Rightarrow> SubsecondTime res" where
  "bw_getLatency b bits_transmitted = time_div (bits_transmitted * US_1) (m_bw_in_bits_per_us b)"

definition bw_getRoundedLatency :: "ComponentBandwidth \<Rightarrow> UInt64 \<Rightarrow> SubsecondTime res" where
  "bw_getRoundedLatency b bits_transmitted = time_div (bits_transmitted * US_1 + US_1 div 2) (m_bw_in_bits_per_us b)"

record ComponentBandwidthPerCycle =
  bpc_period :: period_ptr
  m_bw_in_bits_per_cycle :: UInt64

definition isInfinite :: "ComponentBandwidthPerCycle \<Rightarrow> bool" where
  "isInfinite b \<longleftrightarrow> m_bw_in_bits_per_cycle b = 0"

definition bpc_getLatency :: "periods \<Rightarrow> ComponentBandwidthPerCycle \<Rightarrow> UInt64 \<Rightarrow> SubsecondTime res" where
  "bpc_getLatency ps b bits_transmitted = time_div (bits_transmitted * ps (bpc_period b)) (m_bw_in_bits_per_cycle b)"

definition bpc_getRoundedLatency :: "periods \<Rightarrow> ComponentBandwidthPerCycle \<Rightarrow> UInt64 \<Rightarrow> SubsecondTime res" where
  "bpc_getRoundedLatency ps b bits_transmitted =
     (let period = ps (bpc_period b) in
      time_div (bits_transmitted * period + period div 2) (m_bw_in_bits_per_cycle b))"

record ComponentLatency =
  cl_period :: period_ptr
  m_fixed_cycle_latency :: UInt64

definition cl_getLatency :: "periods \<Rightarrow> ComponentLatency \<Rightarrow> SubsecondTime" where
  "cl_getLatency ps c = ps (cl_period c) * m_fixed_cycle_latency c"

definition cl_add :: "ComponentLatency \<Rightarrow> UInt64 \<Rightarrow> ComponentLatency" where
  "cl_add c rhs = c\<lparr>m_fixed_cycle_latency := m_fixed_cycle_latency c + rhs\<rparr>"

section \<open>Component time\<close>

record ComponentTime =
  ct_period :: period_ptr
  ct_time :: SubsecondTime

definition mk_ComponentTime :: "period_ptr \<Rightarrow> ComponentTime" where
  "mk_ComponentTime base_period = \<lparr>ct_period = base_period, ct_time = 0\<rparr>"

definition addCycleLatency :: "periods \<Rightarrow> ComponentTime \<Rightarrow> UInt64 \<Rightarrow> ComponentTime" where
  "addCycleLatency ps c num_cycles = c\<lparr>ct_time := ct_time c + ps (ct_period c) * num_cycles\<rparr>"

definition addLatency :: "ComponentTime \<Rightarrow> SubsecondTime \<Rightarrow> ComponentTime" where
  "addLatency c time_to_add = c\<lparr>ct_time := ct_time c + time_to_add\<rparr>"

definition addLatency_component :: "ComponentTime \<Rightarrow> ComponentTime \<Rightarrow> ComponentTime res" where
  "addLatency_component c time_to_add =
     bindE (assertE (ct_period time_to_add = ct_period c) (AssertError ''time_to_add.m_period == this->m_period''))
     (\<lambda>_. Inr (c\<lparr>ct_time := ct_time c + ct_time time_to_add\<rparr>))"

definition ct_reset :: "ComponentTime \<Rightarrow> ComponentTime" where
  "ct_reset c = c\<lparr>ct_time := 0\<rparr>"

definition getLatencyGenerator :: "ComponentTime \<Rightarrow> ComponentTime" where
  "getLatencyGenerator c = mk_ComponentTime (ct_period c)"

definition getCycleCount :: "periods \<Rightarrow> ComponentTime \<Rightarrow> UInt64 res" where
  "getCycleCount ps c = divideRounded (ct_time c) (ps (ct_period c))"

definition setElapsedTime :: "ComponentTime \<Rightarrow> SubsecondTime \<Rightarrow> ComponentTime" where
  "setElapsedTime c new_time = c\<lparr>ct_time := new_time\<rparr>"

section \<open>Cycles and time\<close>

lemma unat_mult_nowrap:
  assumes "unat a * unat b < 2 ^ 64"
  shows "unat (a * b :: UInt64) = unat a * unat b"
  using assms by (simp add: unat_word_ariths)

lemma unat_add_nowrap64:
  assumes "unat a + unat b < 2 ^ 64"
  shows "unat (a + b :: UInt64) = unat a + unat b"
  using assms by (simp add: unat_word_ariths)

lemma word_div_eqI:
  fixes a b c :: UInt64
  assumes "unat a div unat b = unat c"
  shows "a div b = c"
  using assms by (metis unat_div word_unat_eq_iff)

text \<open>\<^verbatim>\<open>divideRounded\<close> as a function on natural numbers: the numerator gets half the divisor and one more.\<close>

lemma divideRounded_nat:
  assumes "rhs \<noteq> 0" and "unat lhs + unat rhs div 2 + 1 < 2 ^ 64"
  shows "\<exists>q. divideRounded lhs rhs = Inr q \<and> unat q = (unat lhs + unat rhs div 2 + 1) div unat rhs"
proof -
  have h: "unat (rhs div 2) = unat rhs div 2" by (simp add: unat_div)
  then have s: "unat (rhs div 2 + 1) = unat rhs div 2 + 1"
    using assms(2) by (subst unat_add_nowrap64) simp_all
  have "unat (lhs + (rhs div 2 + 1)) = unat lhs + unat rhs div 2 + 1"
    using assms(2) s by (subst unat_add_nowrap64) simp_all
  then show ?thesis
    using assms(1) by (simp add: divideRounded_def time_div_def unat_div)
qed

text \<open>The extra one makes the result too large when the divisor is small, and rounds up below one half.\<close>

lemma divideRounded_rounds_up_early:
  "divideRounded 5 1 = Inr 6" "divideRounded 6 2 = Inr 4" "divideRounded 4 10 = Inr 1"
  by code_simp+

lemma cycles_exact:
  assumes "ps p \<noteq> 0" and "unat (ps p) * unat n < 2 ^ 64"
  shows "subsecondTimeToCycles ps p (cyclesToSubsecondTime ps p n) = Inr n"
proof -
  have "unat (ps p * n) = unat (ps p) * unat n" using assms(2) by (rule unat_mult_nowrap)
  then have "(ps p * n) div ps p = n"
    using assms(1) by (intro word_div_eqI) (simp add: unat_gt_0 unat_eq_0)
  then show ?thesis using assms(1) by (simp add: subsecondTimeToCycles_def cyclesToSubsecondTime_def time_div_def)
qed

text \<open>
  Cycles to time and back: for a period of at least three femtoseconds, and as long as the product does not reach
  \<open>2 ^ 64\<close> femtoseconds, the conversion of a number of cycles to time and back is exact, both through
  \<^verbatim>\<open>SubsecondTimeCycleConverter\<close> and by adding the cycles to a fresh \<^verbatim>\<open>ComponentTime\<close> and reading its rounded cycle
  count. The rounded count of a component that has run for some time between two cycles is one of the two.
\<close>

theorem cycles_roundtrip:
  assumes "3 \<le> unat (ps p)" and "unat (ps p) * (unat n + 2) < 2 ^ 64"
  shows "subsecondTimeToCycles ps p (cyclesToSubsecondTime ps p n) = Inr n \<and>
    getCycleCount ps (addCycleLatency ps (mk_ComponentTime p) n) = Inr n \<and>
    (\<forall>d < ps p. \<exists>k. getCycleCount ps (addLatency (addCycleLatency ps (mk_ComponentTime p) n) d) = Inr k \<and>
       (unat k = unat n \<or> unat k = unat n + 1))"
proof -
  let ?p = "unat (ps p)"
  have nz: "ps p \<noteq> 0" using assms(1) by auto
  have t: "unat (ps p * n) = ?p * unat n" using assms(2) by (intro unat_mult_nowrap) simp
  have quot: "\<exists>k. divideRounded (ps p * n + d) (ps p) = Inr k \<and> unat k = unat n + (unat d + ?p div 2 + 1) div ?p"
    if d: "unat d + ?p div 2 + 1 < 2 * ?p" "unat (ps p * n) + unat d + ?p div 2 + 1 < 2 ^ 64" for d
  proof -
    have "unat (ps p * n + d) = ?p * unat n + unat d" using d(2) t by (subst unat_add_nowrap64) simp_all
    moreover have "(?p * unat n + unat d + ?p div 2 + 1) div ?p = unat n + (unat d + ?p div 2 + 1) div ?p"
      using div_mult_self4 [of ?p "unat n" "unat d + ?p div 2 + 1"] assms(1) by (simp add: add.assoc)
    ultimately show ?thesis using divideRounded_nat [OF nz, of "ps p * n + d"] d(2) t by (simp add: add.assoc)
  qed
  have half: "?p div 2 + 1 < ?p" using assms(1) by linarith
  have "getCycleCount ps (addCycleLatency ps (mk_ComponentTime p) n) = Inr n"
    using quot [of 0] half assms(2) t
    by (auto simp: getCycleCount_def addCycleLatency_def mk_ComponentTime_def word_unat_eq_iff)
  moreover have "\<exists>k. getCycleCount ps (addLatency (addCycleLatency ps (mk_ComponentTime p) n) d) = Inr k \<and>
       (unat k = unat n \<or> unat k = unat n + 1)" if "d < ps p" for d
  proof -
    have d: "unat d < ?p" using that by (simp add: word_less_nat_alt)
    obtain k where k: "divideRounded (ps p * n + d) (ps p) = Inr k" "unat k = unat n + (unat d + ?p div 2 + 1) div ?p"
      using quot [of d] d half assms(2) t by auto
    have "unat d + ?p div 2 + 1 < ?p + ?p" using d half by linarith
    then have "(unat d + ?p div 2 + 1) div ?p \<le> 1"
      using assms(1) by (metis One_nat_def less_Suc_eq_le less_mult_imp_div_less mult_2 numeral_2_eq_2)
    then show ?thesis using k by (auto simp: getCycleCount_def addCycleLatency_def addLatency_def mk_ComponentTime_def)
  qed
  ultimately show ?thesis using cycles_exact [of ps p n] nz assms(2) by simp
qed

text \<open>A clock of 2.66 GHz.\<close>

theorem cycles_roundtrip_witness:
  "3 \<le> unat (375939 :: UInt64) \<and>
   getCycleCount (\<lambda>_. 375939) (addCycleLatency (\<lambda>_. 375939) (mk_ComponentTime 0) 1000) = Inr 1000"
  using cycles_roundtrip [of "\<lambda>_. 375939" 0 1000] by simp

end
