(* ===== verification/LS_Threads.thy ===== *)
theory LS_Threads
  imports LS_Time
begin

text \<open>
  Simulated threads: \<^verbatim>\<open>common/system/thread_manager.cc\<close> and the parts of \<^verbatim>\<open>common/core/thread.h\<close> and
  \<^verbatim>\<open>common/core/thread.cc\<close> that it uses. A stalled host thread waits inside \<^verbatim>\<open>stallThread\<close> and goes on when another
  thread calls \<^verbatim>\<open>resumeThread\<close>; an operation of the model ends at the stall and the time at which the call returns is the
  wake-up time that the resume stores. Calls of hooks are appended to a log. The core that a scheduler chooses and the
  time of a core's performance model are arguments.
\<close>

section \<open>State\<close>

datatype core_State = RUNNING | INITIALIZING | STALLED | SLEEPING | WAKING_UP | IDLE | CORE_BROKEN

datatype stall_type_t =
    STALL_UNSCHEDULED | STALL_BROKEN | STALL_JOIN | STALL_MUTEX | STALL_COND | STALL_BARRIER | STALL_FUTEX
  | STALL_PAUSE | STALL_SLEEP | STALL_SYSCALL

text \<open>\<^verbatim>\<open>stalled_reason\<close> is not initialised by the constructor: \<open>None\<close> until it is first set.\<close>

record ThreadState =
  ts_status :: core_State
  stalled_reason :: "stall_type_t option"
  ts_waiter :: thread_id_t

definition mk_ThreadState :: ThreadState where
  "mk_ThreadState = \<lparr>ts_status = IDLE, stalled_reason = None, ts_waiter = INVALID_THREAD_ID\<rparr>"

text \<open>The wake-up message is only ever a truth value cast to a pointer.\<close>

record Thread =
  m_wakeup_time :: SubsecondTime
  m_wakeup_msg :: bool
  m_core :: "core_id_t option"

datatype hook_event =
    HOOK_THREAD_CREATE thread_id_t thread_id_t
  | HOOK_THREAD_START thread_id_t SubsecondTime
  | HOOK_THREAD_EXIT thread_id_t SubsecondTime
  | HOOK_THREAD_MIGRATE thread_id_t core_id_t SubsecondTime
  | HOOK_THREAD_STALL thread_id_t stall_type_t SubsecondTime
  | HOOK_THREAD_RESUME thread_id_t thread_id_t SubsecondTime

record ThreadSpawnRequest =
  sr_thread_by :: thread_id_t
  sr_thread_id :: thread_id_t
  sr_time :: SubsecondTime

record ThreadManager =
  m_thread_state :: "ThreadState list"
  m_threads :: "Thread list"
  m_thread_spawn_list :: "ThreadSpawnRequest list"
  core_state :: "core_id_t \<Rightarrow> core_State"
  core_thread :: "core_id_t \<Rightarrow> thread_id_t option"
  hooks_called :: "hook_event list"

definition mk_ThreadManager :: "(core_id_t \<Rightarrow> core_State) \<Rightarrow> ThreadManager" where
  "mk_ThreadManager cores = \<lparr>m_thread_state = [], m_threads = [], m_thread_spawn_list = [], core_state = cores,
     core_thread = (\<lambda>_. None), hooks_called = []\<rparr>"

section \<open>Access\<close>

definition valid_thread :: "ThreadManager \<Rightarrow> thread_id_t \<Rightarrow> bool" where
  "valid_thread tm t \<longleftrightarrow> 0 \<le> t \<and> nat t < length (m_threads tm)"

definition getThreadFromID :: "ThreadManager \<Rightarrow> thread_id_t \<Rightarrow> Thread res" where
  "getThreadFromID tm t =
     bindE (assertE (valid_thread tm t) (AssertError ''Invalid thread_id %d'')) (\<lambda>_. Inr (m_threads tm ! nat t))"

definition state_at :: "ThreadManager \<Rightarrow> thread_id_t \<Rightarrow> ThreadState res" where
  "state_at tm t = (if 0 \<le> t \<and> nat t < length (m_thread_state tm) then Inr (m_thread_state tm ! nat t) else Inl OutOfRange)"

definition put_thread :: "ThreadManager \<Rightarrow> thread_id_t \<Rightarrow> Thread \<Rightarrow> ThreadManager" where
  "put_thread tm t x = tm\<lparr>m_threads := (m_threads tm)[nat t := x]\<rparr>"

definition put_state :: "ThreadManager \<Rightarrow> thread_id_t \<Rightarrow> ThreadState \<Rightarrow> ThreadManager" where
  "put_state tm t x = tm\<lparr>m_thread_state := (m_thread_state tm)[nat t := x]\<rparr>"

definition call_hook :: "hook_event \<Rightarrow> ThreadManager \<Rightarrow> ThreadManager" where
  "call_hook e tm = tm\<lparr>hooks_called := hooks_called tm @ [e]\<rparr>"

definition isThreadRunning :: "ThreadManager \<Rightarrow> thread_id_t \<Rightarrow> bool res" where
  "isThreadRunning tm t = bindE (state_at tm t) (\<lambda>s. Inr (ts_status s = RUNNING))"

definition isThreadInitializing :: "ThreadManager \<Rightarrow> thread_id_t \<Rightarrow> bool res" where
  "isThreadInitializing tm t = bindE (state_at tm t) (\<lambda>s. Inr (ts_status s = INITIALIZING))"

definition anyThreadRunning :: "ThreadManager \<Rightarrow> bool" where
  "anyThreadRunning tm \<longleftrightarrow>
     list_ex (\<lambda>s. ts_status s = RUNNING \<or> ts_status s = INITIALIZING) (take (length (m_threads tm)) (m_thread_state tm))"

definition areAllCoresRunning :: "ThreadManager \<Rightarrow> bool" where
  "areAllCoresRunning tm \<longleftrightarrow> list_all (\<lambda>s. ts_status s \<noteq> IDLE) (m_thread_state tm)"

section \<open>Stall and resume\<close>

definition stallThread_async :: "thread_id_t \<Rightarrow> stall_type_t \<Rightarrow> SubsecondTime \<Rightarrow> ThreadManager \<Rightarrow> ThreadManager res" where
  "stallThread_async t reason time tm =
     bindE (state_at tm t)
     (\<lambda>s. Inr (call_hook (HOOK_THREAD_STALL t reason time)
                 (put_state tm t (s\<lparr>ts_status := STALLED, stalled_reason := Some reason\<rparr>))))"

text \<open>\<^verbatim>\<open>Thread::wait\<close> up to the wait on the host condition variable, and \<^verbatim>\<open>Thread::signal\<close>.\<close>

definition thread_wait :: "thread_id_t \<Rightarrow> ThreadManager \<Rightarrow> ThreadManager res" where
  "thread_wait t tm = bindE (getThreadFromID tm t) (\<lambda>x. Inr (put_thread tm t (x\<lparr>m_wakeup_msg := False\<rparr>)))"

definition thread_signal :: "thread_id_t \<Rightarrow> SubsecondTime \<Rightarrow> bool \<Rightarrow> ThreadManager \<Rightarrow> ThreadManager res" where
  "thread_signal t time msg tm =
     bindE (getThreadFromID tm t) (\<lambda>x. Inr (put_thread tm t (x\<lparr>m_wakeup_time := time, m_wakeup_msg := msg\<rparr>)))"

text \<open>
  The result has a time when the call returns at once. The loop that lets the clock-skew barrier advance while no thread
  is running is the step \<^verbatim>\<open>futexPeriodic\<close> of the system call server.
\<close>

definition stallThread ::
  "thread_id_t \<Rightarrow> stall_type_t \<Rightarrow> SubsecondTime \<Rightarrow> ThreadManager \<Rightarrow> (SubsecondTime option \<times> ThreadManager) res" where
  "stallThread t reason time tm =
     bindE (stallThread_async t reason time tm)
     (\<lambda>tm. bindE (state_at tm t)
     (\<lambda>s. if ts_status s = RUNNING
          then bindE (getThreadFromID tm t) (\<lambda>x. Inr (Some (m_wakeup_time x), tm))
          else bindE (thread_wait t tm) (\<lambda>tm. Inr (None, tm))))"

definition resumeThread_async ::
  "thread_id_t \<Rightarrow> thread_id_t \<Rightarrow> SubsecondTime \<Rightarrow> ThreadManager \<Rightarrow> ThreadManager res" where
  "resumeThread_async t thread_by time tm =
     bindE (state_at tm t)
     (\<lambda>s. Inr (call_hook (HOOK_THREAD_RESUME t thread_by time) (put_state tm t (s\<lparr>ts_status := RUNNING\<rparr>))))"

definition resumeThread ::
  "thread_id_t \<Rightarrow> thread_id_t \<Rightarrow> SubsecondTime \<Rightarrow> bool \<Rightarrow> ThreadManager \<Rightarrow> ThreadManager res" where
  "resumeThread t thread_by time msg tm =
     bindE (thread_signal t time msg tm) (resumeThread_async t thread_by time)"

section \<open>Creation, start, exit, join and migration\<close>

text \<open>\<^verbatim>\<open>Thread::setCore\<close>: a core runs one thread at a time.\<close>

definition setCore :: "thread_id_t \<Rightarrow> core_id_t option \<Rightarrow> ThreadManager \<Rightarrow> ThreadManager res" where
  "setCore t core tm =
     bindE (getThreadFromID tm t)
     (\<lambda>x. let tm = (case m_core x of None \<Rightarrow> tm | Some c \<Rightarrow> tm\<lparr>core_thread := (core_thread tm)(c := None)\<rparr>);
              tm = put_thread tm t (x\<lparr>m_core := core\<rparr>) in
          case core of
            None \<Rightarrow> Inr tm
          | Some c \<Rightarrow>
              bindE (assertE (core_thread tm c = None)
                       (AssertError ''Cannot move thread %d to core %d as it is already running thread %d''))
              (\<lambda>_. Inr (tm\<lparr>core_thread := (core_thread tm)(c := Some t)\<rparr>)))"

definition set_core_state :: "core_id_t \<Rightarrow> core_State \<Rightarrow> ThreadManager \<Rightarrow> ThreadManager" where
  "set_core_state c s tm = tm\<lparr>core_state := (core_state tm)(c := s)\<rparr>"

text \<open>\<open>wakeup\<close> is the uninitialised wake-up time and message of the new thread, \<open>core_id\<close> what the scheduler returns.\<close>

definition createThread_unlocked ::
  "SubsecondTime \<times> bool \<Rightarrow> core_id_t \<Rightarrow> thread_id_t \<Rightarrow> ThreadManager \<Rightarrow> (thread_id_t \<times> ThreadManager) res" where
  "createThread_unlocked wakeup core_id creator tm =
     (let t = int (length (m_threads tm));
          tm = tm\<lparr>m_threads := m_threads tm @ [\<lparr>m_wakeup_time = fst wakeup, m_wakeup_msg = snd wakeup, m_core = None\<rparr>],
                  m_thread_state := m_thread_state tm @ [mk_ThreadState]\<rparr>
      in bindE (state_at tm t)
         (\<lambda>s. let tm = put_state tm t (s\<lparr>ts_status := INITIALIZING\<rparr>) in
          bindE (if core_id \<noteq> INVALID_CORE_ID
                 then bindE (setCore t (Some core_id) tm) (\<lambda>tm. Inr (set_core_state core_id INITIALIZING tm))
                 else Inr tm)
          (\<lambda>tm. Inr (t, call_hook (HOOK_THREAD_CREATE t creator) tm))))"

definition spawnThread ::
  "SubsecondTime \<times> bool \<Rightarrow> core_id_t \<Rightarrow> thread_id_t \<Rightarrow> SubsecondTime \<Rightarrow> ThreadManager \<Rightarrow> (thread_id_t \<times> ThreadManager) res" where
  "spawnThread wakeup core_id thread_id elapsed tm =
     bindE (if thread_id \<noteq> INVALID_THREAD_ID
            then bindE (getThreadFromID tm thread_id)
                 (\<lambda>x. case m_core x of None \<Rightarrow> Inl NullPointer | Some c \<Rightarrow> Inr elapsed)
            else Inr 0)
     (\<lambda>time_start. bindE (createThread_unlocked wakeup core_id thread_id tm)
     (\<lambda>(t, tm). Inr (t, tm\<lparr>m_thread_spawn_list := m_thread_spawn_list tm @
          [\<lparr>sr_thread_by = thread_id, sr_thread_id = t, sr_time = time_start\<rparr>]\<rparr>)))"

definition getThreadToSpawn :: "ThreadManager \<Rightarrow> ((thread_id_t \<times> SubsecondTime) \<times> ThreadManager) res" where
  "getThreadToSpawn tm =
     (case m_thread_spawn_list tm of
        [] \<Rightarrow> Inl (AssertError ''Have no thread to spawn'')
      | req # rest \<Rightarrow> Inr ((sr_thread_id req, sr_time req), tm\<lparr>m_thread_spawn_list := rest\<rparr>))"

definition onThreadStart :: "thread_id_t \<Rightarrow> SubsecondTime \<Rightarrow> SubsecondTime \<Rightarrow> ThreadManager \<Rightarrow> ThreadManager res" where
  "onThreadStart t time elapsed tm =
     bindE (getThreadFromID tm t)
     (\<lambda>x. bindE (state_at tm t)
     (\<lambda>s. let tm = call_hook (HOOK_THREAD_START t time) (put_state tm t (s\<lparr>ts_status := RUNNING\<rparr>));
              (time, tm) =
                (case m_core x of
                   Some c \<Rightarrow>
                     let tm = set_core_state c RUNNING tm; time = max time elapsed
                     in (time, call_hook (HOOK_THREAD_MIGRATE t c time) (put_state tm t (s\<lparr>ts_status := RUNNING\<rparr>)))
                 | None \<Rightarrow> (time, put_state tm t (s\<lparr>ts_status := STALLED, stalled_reason := Some STALL_UNSCHEDULED\<rparr>)))
          in bindE (state_at tm t)
             (\<lambda>s. if ts_waiter s \<noteq> INVALID_THREAD_ID
                  then bindE (thread_signal (ts_waiter s) time False tm)
                       (\<lambda>tm. Inr (put_state tm t (s\<lparr>ts_waiter := INVALID_THREAD_ID\<rparr>)))
                  else Inr tm)))"

definition waitForThreadStart :: "thread_id_t \<Rightarrow> thread_id_t \<Rightarrow> ThreadManager \<Rightarrow> ThreadManager res" where
  "waitForThreadStart t wait_thread_id tm =
     bindE (getThreadFromID tm t)
     (\<lambda>_. bindE (state_at tm wait_thread_id)
     (\<lambda>s. if ts_status s = INITIALIZING
          then bindE (assertE (ts_waiter s = INVALID_THREAD_ID) (AssertError ''Multiple threads waiting for thread: %d''))
               (\<lambda>_. thread_wait t (put_state tm wait_thread_id (s\<lparr>ts_waiter := t\<rparr>)))
          else Inr tm))"

definition wakeUpWaiter :: "thread_id_t \<Rightarrow> SubsecondTime \<Rightarrow> ThreadManager \<Rightarrow> ThreadManager res" where
  "wakeUpWaiter t time tm =
     bindE (state_at tm t)
     (\<lambda>s. if ts_waiter s \<noteq> INVALID_THREAD_ID
          then bindE (resumeThread (ts_waiter s) t time False tm)
               (\<lambda>tm. bindE (state_at tm t) (\<lambda>s. Inr (put_state tm t (s\<lparr>ts_waiter := INVALID_THREAD_ID\<rparr>))))
          else Inr tm)"

definition joinThread ::
  "thread_id_t \<Rightarrow> thread_id_t \<Rightarrow> SubsecondTime \<Rightarrow> ThreadManager \<Rightarrow> (SubsecondTime option \<times> ThreadManager) res" where
  "joinThread t join_thread_id elapsed tm =
     bindE (getThreadFromID tm t)
     (\<lambda>x. bindE (state_at tm join_thread_id)
     (\<lambda>s. if ts_status s = IDLE then Inr (Some elapsed, tm)
          else case m_core x of
            None \<Rightarrow> Inl NullPointer
          | Some _ \<Rightarrow>
              bindE (assertE (ts_waiter s = INVALID_THREAD_ID) (AssertError ''Multiple threads joining on thread: %d''))
              (\<lambda>_. stallThread t STALL_JOIN elapsed (put_state tm join_thread_id (s\<lparr>ts_waiter := t\<rparr>)))))"

text \<open>The clearing of the child's thread id, which writes simulated memory and wakes a futex, is left to the caller.\<close>

definition onThreadExit :: "thread_id_t \<Rightarrow> SubsecondTime \<Rightarrow> ThreadManager \<Rightarrow> ThreadManager res" where
  "onThreadExit t elapsed tm =
     bindE (state_at tm t)
     (\<lambda>s. bindE (getThreadFromID tm t)
     (\<lambda>x. case m_core x of
        None \<Rightarrow> Inl (AssertError ''Thread ended while not running on a core?'')
      | Some c \<Rightarrow>
          bindE (assertE (ts_status s = RUNNING) (AssertError ''m_thread_state[thread_id].status == Core::RUNNING''))
          (\<lambda>_. bindE (wakeUpWaiter t elapsed (put_state tm t (s\<lparr>ts_status := IDLE\<rparr>)))
          (\<lambda>tm. bindE (setCore t None (set_core_state c IDLE tm))
          (\<lambda>tm. Inr (call_hook (HOOK_THREAD_EXIT t elapsed) tm))))))"

definition moveThread :: "thread_id_t \<Rightarrow> core_id_t \<Rightarrow> SubsecondTime \<Rightarrow> ThreadManager \<Rightarrow> ThreadManager res" where
  "moveThread t core_id time tm =
     bindE (getThreadFromID tm t)
     (\<lambda>x. let tm = (case m_core x of None \<Rightarrow> tm | Some c \<Rightarrow> set_core_state c IDLE tm) in
      bindE (if core_id = INVALID_CORE_ID then setCore t None tm
             else
               bindE (state_at tm t)
               (\<lambda>s. bindE (if m_core x = None \<and> ts_status s = STALLED \<and> stalled_reason s = Some STALL_UNSCHEDULED
                           then resumeThread t INVALID_THREAD_ID time False tm
                           else Inr tm)
               (\<lambda>tm. bindE (setCore t (Some core_id) tm)
               (\<lambda>tm. bindE (state_at tm t)
               (\<lambda>s. Inr (if ts_status s \<noteq> STALLED then set_core_state core_id RUNNING tm else tm))))))
      (\<lambda>tm. Inr (call_hook (HOOK_THREAD_MIGRATE t core_id time) tm)))"

end
