(* ===== verification/LS_Sync_Server.thy ===== *)
theory LS_Sync_Server
  imports LS_Threads
begin

text \<open>
  Simulated synchronisation: mutexes, condition variables and barriers of \<^verbatim>\<open>common/system/sync_server.cc\<close>, on the thread
  manager. Mutexes and condition variables are found by their address; a waiter on a condition variable keeps a pointer to
  its mutex, which is the address of the mutex in the model. Every operation runs under the lock of the thread manager, up to
  the point where the caller stalls.
\<close>

section \<open>Mutexes\<close>

record SimMutex =
  mx_waiting :: "thread_id_t list"
  mx_owner :: thread_id_t

text \<open>\<^verbatim>\<open>UINT_MAX\<close> as a signed 32-bit number.\<close>

definition NO_OWNER :: thread_id_t where
  "NO_OWNER = -1"

definition mk_SimMutex :: SimMutex where
  "mk_SimMutex = \<lparr>mx_waiting = [], mx_owner = NO_OWNER\<rparr>"

definition isLocked :: "SimMutex \<Rightarrow> thread_id_t \<Rightarrow> bool" where
  "isLocked m thread_id = (if mx_owner m = NO_OWNER then False else if mx_owner m = thread_id then False else True)"

definition mutex_lock ::
  "thread_id_t \<Rightarrow> SubsecondTime \<Rightarrow> SimMutex \<Rightarrow> ThreadManager \<Rightarrow> (SubsecondTime option \<times> SimMutex \<times> ThreadManager) res" where
  "mutex_lock thread_id time m tm =
     (if mx_owner m = NO_OWNER
      then Inr (Some time, m\<lparr>mx_owner := thread_id\<rparr>, tm)
      else let m = m\<lparr>mx_waiting := mx_waiting m @ [thread_id]\<rparr> in
           bindE (stallThread thread_id STALL_MUTEX time tm) (\<lambda>(r, tm). Inr (r, m, tm)))"

definition lock_async ::
  "thread_id_t \<Rightarrow> thread_id_t \<Rightarrow> SubsecondTime \<Rightarrow> SimMutex \<Rightarrow> ThreadManager \<Rightarrow> (bool \<times> SimMutex \<times> ThreadManager) res" where
  "lock_async thread_id thread_by time m tm =
     (if mx_owner m = NO_OWNER
      then bindE (resumeThread thread_id thread_by time False tm) (\<lambda>tm. Inr (True, m\<lparr>mx_owner := thread_id\<rparr>, tm))
      else Inr (False, m\<lparr>mx_waiting := mx_waiting m @ [thread_id]\<rparr>, tm))"

definition mutex_unlock ::
  "thread_id_t \<Rightarrow> SubsecondTime \<Rightarrow> SimMutex \<Rightarrow> ThreadManager \<Rightarrow> (thread_id_t \<times> SimMutex \<times> ThreadManager) res" where
  "mutex_unlock thread_id time m tm =
     bindE (assertE (mx_owner m = thread_id) (AssertError ''m_owner == thread_id''))
     (\<lambda>_. case mx_waiting m of
        [] \<Rightarrow> Inr (NO_OWNER, m\<lparr>mx_owner := NO_OWNER\<rparr>, tm)
      | waiter # rest \<Rightarrow>
          bindE (resumeThread waiter thread_id time False tm)
          (\<lambda>tm. Inr (waiter, m\<lparr>mx_waiting := rest, mx_owner := waiter\<rparr>, tm)))"

section \<open>The server\<close>

record CondWaiter =
  cw_thread_id :: thread_id_t
  cw_mutex :: IntPtr

record SimBarrier =
  br_waiting :: "thread_id_t list"
  br_count :: UInt32

record SyncServer =
  m_mutexes :: "IntPtr \<rightharpoonup> SimMutex"
  m_conds :: "IntPtr \<rightharpoonup> CondWaiter list"
  m_barriers :: "SimBarrier list"
  m_reschedule_cost :: SubsecondTime

type_synonym sync_sys = "SyncServer \<times> ThreadManager"

definition mk_SyncServer :: "UInt64 \<Rightarrow> SyncServer" where
  "mk_SyncServer reschedule_cost =
     \<lparr>m_mutexes = Map.empty, m_conds = Map.empty, m_barriers = [], m_reschedule_cost = NS reschedule_cost\<rparr>"

definition getMutex :: "IntPtr \<Rightarrow> bool \<Rightarrow> SyncServer \<Rightarrow> (SimMutex \<times> SyncServer) res" where
  "getMutex mux canCreate ss =
     (case m_mutexes ss mux of
        Some m \<Rightarrow> Inr (m, ss)
      | None \<Rightarrow>
          if canCreate then Inr (mk_SimMutex, ss\<lparr>m_mutexes := (m_mutexes ss)(mux \<mapsto> mk_SimMutex)\<rparr>)
          else Inl (AssertError ''Invalid mutex id passed''))"

definition getCond :: "IntPtr \<Rightarrow> bool \<Rightarrow> SyncServer \<Rightarrow> (CondWaiter list \<times> SyncServer) res" where
  "getCond cond canCreate ss =
     (case m_conds ss cond of
        Some w \<Rightarrow> Inr (w, ss)
      | None \<Rightarrow>
          if canCreate then Inr ([], ss\<lparr>m_conds := (m_conds ss)(cond \<mapsto> [])\<rparr>)
          else Inl (AssertError ''Invalid cond id passed''))"

definition put_mutex :: "IntPtr \<Rightarrow> SimMutex \<Rightarrow> SyncServer \<Rightarrow> SyncServer" where
  "put_mutex mux m ss = ss\<lparr>m_mutexes := (m_mutexes ss)(mux \<mapsto> m)\<rparr>"

definition put_cond :: "IntPtr \<Rightarrow> CondWaiter list \<Rightarrow> SyncServer \<Rightarrow> SyncServer" where
  "put_cond cond w ss = ss\<lparr>m_conds := (m_conds ss)(cond \<mapsto> w)\<rparr>"

definition mutexInit :: "thread_id_t \<Rightarrow> IntPtr \<Rightarrow> sync_sys \<Rightarrow> sync_sys res" where
  "mutexInit thread_id mux = (\<lambda>(ss, tm). bindE (getMutex mux True ss) (\<lambda>(m, ss). Inr (ss, tm)))"

definition mutexLock ::
  "thread_id_t \<Rightarrow> IntPtr \<Rightarrow> bool \<Rightarrow> SubsecondTime \<Rightarrow> sync_sys \<Rightarrow> ((SubsecondTime option \<times> bool) \<times> sync_sys) res" where
  "mutexLock thread_id mux tryLock time = (\<lambda>(ss, tm).
     bindE (getMutex mux True ss)
     (\<lambda>(m, ss). if tryLock \<and> isLocked m thread_id then Inr ((Some time, False), (ss, tm))
      else bindE (mutex_lock thread_id time m tm)
           (\<lambda>(r, m, tm). Inr ((map_option (\<lambda>t. t + m_reschedule_cost ss) r, True), (put_mutex mux m ss, tm)))))"

definition mutexUnlock :: "thread_id_t \<Rightarrow> IntPtr \<Rightarrow> SubsecondTime \<Rightarrow> sync_sys \<Rightarrow> (SubsecondTime \<times> sync_sys) res" where
  "mutexUnlock thread_id mux time = (\<lambda>(ss, tm).
     bindE (getMutex mux False ss)
     (\<lambda>(m, ss). bindE (mutex_unlock thread_id (time + m_reschedule_cost ss) m tm)
     (\<lambda>(new_owner, m, tm).
        Inr (time + (if new_owner = NO_OWNER then 0 else m_reschedule_cost ss), (put_mutex mux m ss, tm)))))"

definition condInit :: "thread_id_t \<Rightarrow> IntPtr \<Rightarrow> sync_sys \<Rightarrow> sync_sys res" where
  "condInit thread_id cond = (\<lambda>(ss, tm). bindE (getCond cond True ss) (\<lambda>(w, ss). Inr (ss, tm)))"

definition condWait ::
  "thread_id_t \<Rightarrow> IntPtr \<Rightarrow> IntPtr \<Rightarrow> SubsecondTime \<Rightarrow> sync_sys \<Rightarrow> (SubsecondTime option \<times> sync_sys) res" where
  "condWait thread_id cond mux time = (\<lambda>(ss, tm).
     bindE (getMutex mux True ss)
     (\<lambda>(m, ss). bindE (getCond cond True ss)
     (\<lambda>(w, ss). bindE (mutex_unlock thread_id time m tm)
     (\<lambda>(_, m, tm). let ss = put_cond cond (w @ [\<lparr>cw_thread_id = thread_id, cw_mutex = mux\<rparr>]) (put_mutex mux m ss) in
      bindE (stallThread thread_id STALL_COND time tm) (\<lambda>(r, tm). Inr (r, (ss, tm)))))))"

text \<open>A waiter that is woken up takes its mutex, or waits for it.\<close>

definition wake_waiter :: "CondWaiter \<Rightarrow> thread_id_t \<Rightarrow> SubsecondTime \<Rightarrow> sync_sys \<Rightarrow> (bool \<times> sync_sys) res" where
  "wake_waiter woken thread_id time = (\<lambda>(ss, tm).
     case m_mutexes ss (cw_mutex woken) of
       None \<Rightarrow> Inl NullPointer
     | Some m \<Rightarrow>
         bindE (lock_async (cw_thread_id woken) thread_id time m tm)
         (\<lambda>(locked, m, tm). Inr (locked, (put_mutex (cw_mutex woken) m ss, tm))))"

definition cond_signal :: "thread_id_t \<Rightarrow> SubsecondTime \<Rightarrow> IntPtr \<Rightarrow> sync_sys \<Rightarrow> (thread_id_t \<times> sync_sys) res" where
  "cond_signal thread_id time cond = (\<lambda>(ss, tm).
     case m_conds ss cond of
       None \<Rightarrow> Inl NullPointer
     | Some [] \<Rightarrow> Inr (INVALID_THREAD_ID, (ss, tm))
     | Some (woken # rest) \<Rightarrow>
         bindE (wake_waiter woken thread_id time (put_cond cond rest ss, tm))
         (\<lambda>(locked, sys). Inr (if locked then cw_thread_id woken else INVALID_THREAD_ID, sys)))"

definition condSignal :: "thread_id_t \<Rightarrow> IntPtr \<Rightarrow> SubsecondTime \<Rightarrow> sync_sys \<Rightarrow> (SubsecondTime \<times> sync_sys) res" where
  "condSignal thread_id cond time = (\<lambda>(ss, tm).
     bindE (getCond cond True ss)
     (\<lambda>(w, ss). bindE (cond_signal thread_id time cond (ss, tm)) (\<lambda>(_, sys). Inr (time, sys))))"

primrec cond_broadcast :: "CondWaiter list \<Rightarrow> thread_id_t \<Rightarrow> SubsecondTime \<Rightarrow> IntPtr \<Rightarrow> sync_sys \<Rightarrow> sync_sys res" where
  "cond_broadcast [] thread_id time cond sys = Inr sys"
| "cond_broadcast (woken # rest) thread_id time cond sys =
     bindE (wake_waiter woken thread_id time (put_cond cond rest (fst sys), snd sys))
     (\<lambda>(_, sys). cond_broadcast rest thread_id time cond sys)"

definition condBroadcast :: "thread_id_t \<Rightarrow> IntPtr \<Rightarrow> SubsecondTime \<Rightarrow> sync_sys \<Rightarrow> (SubsecondTime \<times> sync_sys) res" where
  "condBroadcast thread_id cond time = (\<lambda>(ss, tm).
     bindE (getCond cond True ss)
     (\<lambda>(w, ss). bindE (cond_broadcast w thread_id time cond (ss, tm)) (\<lambda>sys. Inr (time, sys))))"

section \<open>Barriers\<close>

primrec resume_all :: "thread_id_t list \<Rightarrow> thread_id_t \<Rightarrow> SubsecondTime \<Rightarrow> ThreadManager \<Rightarrow> ThreadManager res" where
  "resume_all [] thread_id time tm = Inr tm"
| "resume_all (waiter # rest) thread_id time tm =
     bindE (resumeThread waiter thread_id time False tm) (resume_all rest thread_id time)"

definition barrier_wait ::
  "thread_id_t \<Rightarrow> SubsecondTime \<Rightarrow> SimBarrier \<Rightarrow> ThreadManager \<Rightarrow> (SubsecondTime option \<times> SimBarrier \<times> ThreadManager) res" where
  "barrier_wait thread_id time b tm =
     (if length (br_waiting b) = unat (br_count b - 1)
      then bindE (resume_all (br_waiting b) thread_id time tm) (\<lambda>tm. Inr (Some time, b\<lparr>br_waiting := []\<rparr>, tm))
      else let b = b\<lparr>br_waiting := br_waiting b @ [thread_id]\<rparr> in
           bindE (stallThread thread_id STALL_BARRIER time tm) (\<lambda>(r, tm). Inr (r, b, tm)))"

definition barrierInit :: "thread_id_t \<Rightarrow> UInt32 \<Rightarrow> sync_sys \<Rightarrow> (nat \<times> sync_sys) res" where
  "barrierInit thread_id count = (\<lambda>(ss, tm).
     let ss = ss\<lparr>m_barriers := m_barriers ss @ [\<lparr>br_waiting = [], br_count = count\<rparr>]\<rparr>
     in Inr (length (m_barriers ss) - 1, (ss, tm)))"

definition barrierWait :: "thread_id_t \<Rightarrow> nat \<Rightarrow> SubsecondTime \<Rightarrow> sync_sys \<Rightarrow> (SubsecondTime option \<times> sync_sys) res" where
  "barrierWait thread_id barrier time = (\<lambda>(ss, tm).
     if barrier < length (m_barriers ss)
     then bindE (barrier_wait thread_id time (m_barriers ss ! barrier) tm)
          (\<lambda>(r, b, tm). Inr (r, (ss\<lparr>m_barriers := (m_barriers ss)[barrier := b]\<rparr>, tm)))
     else Inl OutOfRange)"

end
