(* ===== verification/LS_Sync.thy ===== *)
theory LS_Sync
  imports LS_Sync_Server
begin

text \<open>
  Correctness of the synchronisation primitives: no waiter is lost and none waits twice, in every sequence of calls; a
  mutex is a first-in first-out queue lock; a barrier releases its threads together.
\<close>

section \<open>Threads that run and threads that wait\<close>

definition tm_wf :: "ThreadManager \<Rightarrow> bool" where
  "tm_wf tm \<longleftrightarrow> length (m_thread_state tm) = length (m_threads tm)"

definition running_set :: "ThreadManager \<Rightarrow> thread_id_t set" where
  "running_set tm = {t. valid_thread tm t \<and> ts_status (m_thread_state tm ! nat t) = RUNNING}"

text \<open>The threads stalled by this server.\<close>

definition blocked_set :: "ThreadManager \<Rightarrow> thread_id_t set" where
  "blocked_set tm = {t. valid_thread tm t \<and> ts_status (m_thread_state tm ! nat t) = STALLED \<and>
     stalled_reason (m_thread_state tm ! nat t) \<in> {Some STALL_MUTEX, Some STALL_COND, Some STALL_BARRIER}}"

lemma running_not_blocked: "t \<in> running_set tm \<Longrightarrow> t \<notin> blocked_set tm"
  by (auto simp: running_set_def blocked_set_def)

lemmas tm_defs = state_at_def put_state_def put_thread_def call_hook_def getThreadFromID_def valid_thread_def tm_wf_def

lemma resumeThread_effect:
  assumes "tm_wf tm" and "valid_thread tm t"
  shows "\<exists>tm'. resumeThread t by time msg tm = Inr tm' \<and>
    m_thread_state tm' = (m_thread_state tm)[nat t := (m_thread_state tm ! nat t)\<lparr>ts_status := RUNNING\<rparr>] \<and>
    m_threads tm' = (m_threads tm)[nat t := (m_threads tm ! nat t)\<lparr>m_wakeup_time := time, m_wakeup_msg := msg\<rparr>]"
  using assms by (simp add: resumeThread_def thread_signal_def resumeThread_async_def tm_defs)

lemma resumeThread_sets:
  assumes "tm_wf tm" and run: "resumeThread t by time msg tm = Inr tm'"
  shows "tm_wf tm' \<and> running_set tm' = insert t (running_set tm) \<and> blocked_set tm' = blocked_set tm - {t} \<and>
    valid_thread tm t \<and> valid_thread tm' = valid_thread tm"
proof -
  have v: "valid_thread tm t"
    using run by (auto simp: resumeThread_def thread_signal_def getThreadFromID_def bindE_Inr_iff)
  note e = resumeThread_effect [OF assms(1) v, of "by" time msg]
  have st: "m_thread_state tm' = (m_thread_state tm)[nat t := (m_thread_state tm ! nat t)\<lparr>ts_status := RUNNING\<rparr>]"
    and th: "length (m_threads tm') = length (m_threads tm)" using e run by auto
  have at: "m_thread_state tm' ! nat u =
      (if u = t then (m_thread_state tm ! nat t)\<lparr>ts_status := RUNNING\<rparr> else m_thread_state tm ! nat u)"
    if "valid_thread tm u" for u
    using that v assms(1) unfolding st by (auto simp: tm_wf_def valid_thread_def nth_list_update)
  have vt: "valid_thread tm' u = valid_thread tm u" for u by (simp add: valid_thread_def th)
  show ?thesis
    using v at assms(1) by (auto simp: running_set_def blocked_set_def vt fun_eq_iff tm_wf_def st th split: if_splits)
qed

lemma stallThread_effect:
  assumes "tm_wf tm" and "valid_thread tm t"
  shows "\<exists>tm'. stallThread t reason time tm = Inr (None, tm') \<and>
    m_thread_state tm' =
      (m_thread_state tm)[nat t := (m_thread_state tm ! nat t)\<lparr>ts_status := STALLED, stalled_reason := Some reason\<rparr>] \<and>
    m_threads tm' = (m_threads tm)[nat t := (m_threads tm ! nat t)\<lparr>m_wakeup_msg := False\<rparr>]"
  using assms by (simp add: stallThread_def stallThread_async_def thread_wait_def tm_defs)

lemma stallThread_sets:
  assumes "tm_wf tm" and run: "stallThread t reason time tm = Inr (r, tm')"
    and reason: "reason \<in> {STALL_MUTEX, STALL_COND, STALL_BARRIER}"
  shows "r = None \<and> tm_wf tm' \<and> running_set tm' = running_set tm - {t} \<and> blocked_set tm' = insert t (blocked_set tm) \<and>
    valid_thread tm' = valid_thread tm"
proof -
  have v: "valid_thread tm t"
    using run assms(1)
    by (auto simp: stallThread_def stallThread_async_def state_at_def tm_wf_def valid_thread_def bindE_Inr_iff split: if_splits)
  note e = stallThread_effect [OF assms(1) v, of reason time]
  have st: "m_thread_state tm' =
      (m_thread_state tm)[nat t := (m_thread_state tm ! nat t)\<lparr>ts_status := STALLED, stalled_reason := Some reason\<rparr>]"
    and th: "length (m_threads tm') = length (m_threads tm)" and r: "r = None" using e run by auto
  have at: "m_thread_state tm' ! nat u =
      (if u = t then (m_thread_state tm ! nat t)\<lparr>ts_status := STALLED, stalled_reason := Some reason\<rparr>
       else m_thread_state tm ! nat u)"
    if "valid_thread tm u" for u
    using that v assms(1) unfolding st by (auto simp: tm_wf_def valid_thread_def nth_list_update)
  have vt: "valid_thread tm' u = valid_thread tm u" for u by (simp add: valid_thread_def th)
  show ?thesis
    using v at assms(1) reason r
    by (auto simp: running_set_def blocked_set_def vt fun_eq_iff tm_wf_def st th split: if_splits)
qed

section \<open>Where threads wait\<close>

datatype place = AtMutex IntPtr | AtCond IntPtr | AtBarrier nat

fun waiting_at :: "SyncServer \<Rightarrow> place \<Rightarrow> thread_id_t list" where
  "waiting_at ss (AtMutex a) = (case m_mutexes ss a of None \<Rightarrow> [] | Some m \<Rightarrow> mx_waiting m)"
| "waiting_at ss (AtCond a) = (case m_conds ss a of None \<Rightarrow> [] | Some w \<Rightarrow> map cw_thread_id w)"
| "waiting_at ss (AtBarrier i) = (if i < length (m_barriers ss) then br_waiting (m_barriers ss ! i) else [])"

definition waits_ok :: "(place \<Rightarrow> thread_id_t list) \<Rightarrow> thread_id_t set \<Rightarrow> bool" where
  "waits_ok W B \<longleftrightarrow> (\<forall>p. distinct (W p)) \<and> (\<forall>p q t. t \<in> set (W p) \<longrightarrow> t \<in> set (W q) \<longrightarrow> p = q) \<and>
     (\<forall>t. t \<in> B \<longleftrightarrow> (\<exists>p. t \<in> set (W p)))"

lemma waits_okI:
  assumes "\<And>p. distinct (W p)" and "\<And>p q t. t \<in> set (W p) \<Longrightarrow> t \<in> set (W q) \<Longrightarrow> p = q"
    and "\<And>t. t \<in> B \<longleftrightarrow> (\<exists>p. t \<in> set (W p))"
  shows "waits_ok W B"
  using assms unfolding waits_ok_def by blast

lemma waits_okD:
  assumes "waits_ok W B"
  shows "distinct (W p)" and "t \<in> set (W p) \<Longrightarrow> t \<in> set (W q) \<Longrightarrow> p = q" and "t \<in> B \<longleftrightarrow> (\<exists>p. t \<in> set (W p))"
  using assms unfolding waits_ok_def by blast+

lemma waits_push:
  assumes ok: "waits_ok W B" and t: "t \<notin> B"
  shows "waits_ok (W(p := W p @ [t])) (insert t B)"
proof (rule waits_okI)
  have new: "t \<notin> set (W q)" for q using t waits_okD(3) [OF ok] by blast
  show "distinct ((W(p := W p @ [t])) q)" for q using waits_okD(1) [OF ok] new by simp
  show "q = r" if "u \<in> set ((W(p := W p @ [t])) q)" "u \<in> set ((W(p := W p @ [t])) r)" for q r u
    using that new waits_okD(2) [OF ok, of u] by (cases "q = p"; cases "r = p") auto
  show "u \<in> insert t B \<longleftrightarrow> (\<exists>q. u \<in> set ((W(p := W p @ [t])) q))" for u
    unfolding insert_iff waits_okD(3) [OF ok] by (auto simp: fun_upd_def)
qed

lemma waits_drop_prefix:
  assumes ok: "waits_ok W B" and W: "W p = us @ vs"
  shows "waits_ok (W(p := vs)) (B - set us)"
proof (rule waits_okI)
  have d: "distinct (us @ vs)" using waits_okD(1) [OF ok] W by metis
  have other: "u \<notin> set (W q)" if "u \<in> set us \<or> u \<in> set vs" "q \<noteq> p" for u q
    using waits_okD(2) [OF ok, of u q p] W that by auto
  show "distinct ((W(p := vs)) q)" for q using waits_okD(1) [OF ok] d by simp
  show "q = r" if "u \<in> set ((W(p := vs)) q)" "u \<in> set ((W(p := vs)) r)" for q r u
    using that other [of u q] other [of u r] waits_okD(2) [OF ok, of u q r] by (cases "q = p"; cases "r = p") simp_all
  show "u \<in> B - set us \<longleftrightarrow> (\<exists>q. u \<in> set ((W(p := vs)) q))" for u
  proof -
    have "(\<exists>q. u \<in> set (W q)) \<longleftrightarrow> u \<in> set us \<or> u \<in> set vs \<or> (\<exists>q. q \<noteq> p \<and> u \<in> set (W q))"
      using W by (metis Un_iff set_append)
    moreover have "(\<exists>q. u \<in> set ((W(p := vs)) q)) \<longleftrightarrow> u \<in> set vs \<or> (\<exists>q. q \<noteq> p \<and> u \<in> set (W q))"
      by (metis fun_upd_apply)
    moreover have "u \<in> set us \<Longrightarrow> u \<notin> set vs" using d by auto
    ultimately show ?thesis using other [of u] unfolding Diff_iff waits_okD(3) [OF ok] by blast
  qed
qed

lemma waits_pop: "waits_ok W B \<Longrightarrow> W p = t # vs \<Longrightarrow> waits_ok (W(p := vs)) (B - {t})"
  using waits_drop_prefix [of W B p "[t]" vs] by simp

lemma waits_move:
  assumes "waits_ok W B" and "W p = t # vs" and "p \<noteq> q"
  shows "waits_ok (W(p := vs, q := W q @ [t])) B"
proof -
  have "waits_ok ((W(p := vs))(q := (W(p := vs)) q @ [t])) (insert t (B - {t}))"
    by (rule waits_push [OF waits_pop [OF assms(1,2)]]) simp
  moreover have "t \<in> B" using assms(2) unfolding waits_okD(3) [OF assms(1)] by (intro exI [of _ p]) simp
  ultimately show ?thesis using assms(3) by (simp add: insert_absorb)
qed

lemma waiting_at_update [simp]:
  "waiting_at (put_mutex a m ss) = (waiting_at ss)(AtMutex a := mx_waiting m)"
  "waiting_at (put_cond a w ss) = (waiting_at ss)(AtCond a := map cw_thread_id w)"
  "i < length (m_barriers ss) \<Longrightarrow>
     waiting_at (ss\<lparr>m_barriers := (m_barriers ss)[i := b]\<rparr>) = (waiting_at ss)(AtBarrier i := br_waiting b)"
proof -
  show "waiting_at (put_mutex a m ss) = (waiting_at ss)(AtMutex a := mx_waiting m)"
  proof
    show "waiting_at (put_mutex a m ss) p = ((waiting_at ss)(AtMutex a := mx_waiting m)) p" for p
      by (cases p) (auto simp: put_mutex_def)
  qed
  show "waiting_at (put_cond a w ss) = (waiting_at ss)(AtCond a := map cw_thread_id w)"
  proof
    show "waiting_at (put_cond a w ss) p = ((waiting_at ss)(AtCond a := map cw_thread_id w)) p" for p
      by (cases p) (auto simp: put_cond_def)
  qed
  show "waiting_at (ss\<lparr>m_barriers := (m_barriers ss)[i := b]\<rparr>) = (waiting_at ss)(AtBarrier i := br_waiting b)"
    if "i < length (m_barriers ss)"
  proof
    show "waiting_at (ss\<lparr>m_barriers := (m_barriers ss)[i := b]\<rparr>) p = ((waiting_at ss)(AtBarrier i := br_waiting b)) p" for p
      using that by (cases p) (auto simp: nth_list_update)
  qed
qed

section \<open>The invariant\<close>

definition server_ok :: "SyncServer \<Rightarrow> bool" where
  "server_ok ss \<longleftrightarrow> (\<forall>a m. m_mutexes ss a = Some m \<longrightarrow> mx_owner m = NO_OWNER \<longrightarrow> mx_waiting m = []) \<and>
     (\<forall>a w c. m_conds ss a = Some w \<longrightarrow> c \<in> set w \<longrightarrow> m_mutexes ss (cw_mutex c) \<noteq> None)"

definition sync_inv :: "sync_sys \<Rightarrow> bool" where
  "sync_inv sys \<longleftrightarrow> tm_wf (snd sys) \<and> waits_ok (waiting_at (fst sys)) (blocked_set (snd sys)) \<and> server_ok (fst sys)"

lemma blocked_valid: "t \<in> blocked_set tm \<Longrightarrow> valid_thread tm t"
  by (simp add: blocked_set_def)

lemma valid_nonneg: "valid_thread tm t \<Longrightarrow> t \<noteq> NO_OWNER"
  by (simp add: valid_thread_def NO_OWNER_def)

lemma waiter_valid:
  assumes "sync_inv (ss, tm)" and "t \<in> set (waiting_at ss p)"
  shows "t \<noteq> NO_OWNER" and "t \<in> blocked_set tm"
proof -
  have "waits_ok (waiting_at ss) (blocked_set tm)" using assms(1) by (simp add: sync_inv_def)
  from waits_okD(3) [OF this] show "t \<in> blocked_set tm" using assms(2) by blast
  then show "t \<noteq> NO_OWNER" using blocked_valid valid_nonneg by blast
qed

lemma getMutex_inv:
  assumes "sync_inv (ss, tm)" and "getMutex a c ss = Inr (m, ss')"
  shows "sync_inv (ss', tm) \<and> m_mutexes ss' a = Some m \<and> m_conds ss' = m_conds ss \<and> m_reschedule_cost ss' = m_reschedule_cost ss"
proof (cases "m_mutexes ss a")
  case None
  then have ss': "ss' = put_mutex a mk_SimMutex ss" "m = mk_SimMutex"
    using assms(2) by (auto simp: getMutex_def put_mutex_def split: if_splits)
  have "waiting_at ss' = waiting_at ss" using None by (auto simp: ss' mk_SimMutex_def fun_eq_iff)
  then show ?thesis
    using assms(1) None unfolding sync_inv_def server_ok_def by (auto simp: ss' put_mutex_def mk_SimMutex_def)
qed (use assms in \<open>simp add: getMutex_def\<close>)

lemma getCond_inv:
  assumes "sync_inv (ss, tm)" and "getCond a c ss = Inr (w, ss')"
  shows "sync_inv (ss', tm) \<and> m_conds ss' a = Some w \<and> m_mutexes ss' = m_mutexes ss"
proof (cases "m_conds ss a")
  case None
  then have ss': "ss' = put_cond a [] ss" "w = []"
    using assms(2) by (auto simp: getCond_def put_cond_def split: if_splits)
  have "waiting_at ss' = waiting_at ss" using None by (auto simp: ss' fun_eq_iff)
  then show ?thesis
    using assms(1) None unfolding sync_inv_def server_ok_def by (auto simp: ss' put_cond_def)
qed (use assms in \<open>simp add: getCond_def\<close>)

lemma server_ok_put_mutex:
  "server_ok ss \<Longrightarrow> (mx_owner m = NO_OWNER \<longrightarrow> mx_waiting m = []) \<Longrightarrow> server_ok (put_mutex a m ss)"
  by (auto simp: server_ok_def put_mutex_def)

lemma server_ok_put_cond:
  "server_ok ss \<Longrightarrow> (\<forall>c\<in>set w. m_mutexes ss (cw_mutex c) \<noteq> None) \<Longrightarrow> server_ok (put_cond a w ss)"
  by (auto simp: server_ok_def put_cond_def)

text \<open>A mutex with its new state; the queue has grown by a thread that stalls, or lost its head, which is resumed.\<close>

lemma mutex_unlock_inv:
  assumes inv: "sync_inv (ss, tm)" and m: "m_mutexes ss a = Some m" and run: "mutex_unlock t time m tm = Inr (o', m', tm')"
  shows "sync_inv (put_mutex a m' ss, tm') \<and> running_set tm \<subseteq> running_set tm'"
proof (cases "mx_waiting m")
  case Nil
  have ok: "waits_ok (waiting_at ss) (blocked_set tm)" "tm_wf tm" "server_ok ss" using inv by (simp_all add: sync_inv_def)
  have "m' = m\<lparr>mx_owner := NO_OWNER\<rparr>" "tm' = tm" using run Nil by (auto simp: mutex_unlock_def bindE_Inr_iff)
  moreover have "(waiting_at ss)(AtMutex a := []) = waiting_at ss" using m Nil by (auto simp: fun_eq_iff)
  ultimately show ?thesis using ok m Nil by (simp add: sync_inv_def server_ok_put_mutex)
next
  case (Cons w ws)
  have ok: "waits_ok (waiting_at ss) (blocked_set tm)" "tm_wf tm" "server_ok ss" using inv by (simp_all add: sync_inv_def)
  have m': "m' = m\<lparr>mx_waiting := ws, mx_owner := w\<rparr>" and res: "resumeThread w t time False tm = Inr tm'"
    using run Cons by (auto simp: mutex_unlock_def bindE_Inr_iff)
  have at: "waiting_at ss (AtMutex a) = w # ws" using m Cons by simp
  have "w \<noteq> NO_OWNER" by (rule waiter_valid(1) [OF inv, of w "AtMutex a"]) (simp only: at list.set_intros)
  then show ?thesis
    using resumeThread_sets [OF ok(2) res] waits_pop [OF ok(1) at] ok(3)
    by (auto simp: sync_inv_def m' intro!: server_ok_put_mutex)
qed

lemma mutex_lock_inv:
  assumes inv: "sync_inv (ss, tm)" and m: "m_mutexes ss a = Some m" and run: "mutex_lock t time m tm = Inr (r, m', tm')"
    and t: "t \<in> running_set tm"
  shows "sync_inv (put_mutex a m' ss, tm')"
proof -
  have ok: "waits_ok (waiting_at ss) (blocked_set tm)" "tm_wf tm" "server_ok ss" using inv by (simp_all add: sync_inv_def)
  have tv: "t \<noteq> NO_OWNER" using t valid_nonneg by (auto simp: running_set_def)
  show ?thesis
  proof (cases "mx_owner m = NO_OWNER")
    case True
    then have "m' = m\<lparr>mx_owner := t\<rparr>" "tm' = tm" using run by (auto simp: mutex_lock_def)
    moreover have "(waiting_at ss)(AtMutex a := mx_waiting m) = waiting_at ss" using m by (auto simp: fun_eq_iff)
    ultimately show ?thesis using ok tv by (simp add: sync_inv_def server_ok_put_mutex)
  next
    case False
    then have m': "m' = m\<lparr>mx_waiting := mx_waiting m @ [t]\<rparr>" and st: "stallThread t STALL_MUTEX time tm = Inr (r, tm')"
      using run by (auto simp: mutex_lock_def bindE_Inr_iff)
    show ?thesis
      using stallThread_sets [OF ok(2) st] waits_push [OF ok(1) running_not_blocked [OF t], of "AtMutex a"] ok(3) m False
      by (auto simp: sync_inv_def m' intro!: server_ok_put_mutex)
  qed
qed

lemma wake_waiter_inv:
  assumes inv: "sync_inv (ss, tm)" and c: "m_conds ss c = Some (w # rest)"
    and run: "wake_waiter w t time (put_cond c rest ss, tm) = Inr (l, ss', tm')"
  shows "sync_inv (ss', tm') \<and> m_conds ss' c = Some rest"
proof -
  have ok: "waits_ok (waiting_at ss) (blocked_set tm)" "tm_wf tm" "server_ok ss" using inv by (simp_all add: sync_inv_def)
  let ?u = "cw_thread_id w"
  obtain m m' where m: "m_mutexes ss (cw_mutex w) = Some m" and la: "lock_async ?u t time m tm = Inr (l, m', tm')"
    and ss': "ss' = put_mutex (cw_mutex w) m' (put_cond c rest ss)"
    using run by (auto simp: wake_waiter_def bindE_Inr_iff put_cond_def split: option.splits)
  have at: "waiting_at ss (AtCond c) = ?u # map cw_thread_id rest" using c by simp
  have u: "?u \<noteq> NO_OWNER" by (rule waiter_valid(1) [OF inv, of ?u "AtCond c"]) (simp only: at list.set_intros)
  have srv: "server_ok (put_cond c rest ss)" using ok(3) c by (intro server_ok_put_cond) (auto simp: server_ok_def)
  have cs: "m_conds ss' c = Some rest" by (simp add: ss' put_mutex_def put_cond_def)
  show ?thesis
  proof (cases "mx_owner m = NO_OWNER")
    case True
    then have m': "m' = m\<lparr>mx_owner := ?u\<rparr>" and res: "resumeThread ?u t time False tm = Inr tm'"
      using la by (auto simp: lock_async_def bindE_Inr_iff)
    have same: "((waiting_at ss)(AtCond c := map cw_thread_id rest))(AtMutex (cw_mutex w) := mx_waiting m) =
        (waiting_at ss)(AtCond c := map cw_thread_id rest)" using m by (auto simp: fun_eq_iff)
    then show ?thesis
      using resumeThread_sets [OF ok(2) res] waits_pop [OF ok(1) at] srv u cs
      by (simp add: sync_inv_def ss' m' server_ok_put_mutex)
  next
    case False
    then have m': "m' = m\<lparr>mx_waiting := mx_waiting m @ [?u]\<rparr>" and tm': "tm' = tm"
      using la by (auto simp: lock_async_def)
    show ?thesis
      using waits_move [OF ok(1) at, of "AtMutex (cw_mutex w)"] srv ok(2) m False cs
      by (simp add: sync_inv_def ss' m' tm' server_ok_put_mutex)
  qed
qed

lemma cond_broadcast_inv:
  "cond_broadcast w t time c sys = Inr sys' \<Longrightarrow> sync_inv sys \<Longrightarrow> m_conds (fst sys) c = Some w \<Longrightarrow> sync_inv sys'"
proof (induction w arbitrary: sys)
  case (Cons x xs)
  then obtain l sys1 where "wake_waiter x t time (put_cond c xs (fst sys), snd sys) = Inr (l, sys1)"
    and rest: "cond_broadcast xs t time c sys1 = Inr sys'" by (auto simp: bindE_Inr_iff)
  then have "sync_inv sys1 \<and> m_conds (fst sys1) c = Some xs"
    using wake_waiter_inv [of "fst sys" "snd sys" c x xs t time l "fst sys1" "snd sys1"] Cons.prems by simp
  then show ?case using Cons.IH [OF rest] by blast
qed simp

lemma resume_all_sets:
  "resume_all ws t time tm = Inr tm' \<Longrightarrow> tm_wf tm \<Longrightarrow> tm_wf tm' \<and> blocked_set tm' = blocked_set tm - set ws \<and>
     running_set tm' = set ws \<union> running_set tm"
proof (induction ws arbitrary: tm)
  case (Cons w ws)
  then obtain tm1 where res: "resumeThread w t time False tm = Inr tm1" and rest: "resume_all ws t time tm1 = Inr tm'"
    by (auto simp: bindE_Inr_iff)
  show ?case using resumeThread_sets [OF Cons.prems(2) res] Cons.IH [OF rest] by auto
qed simp

lemma barrierWait_inv:
  assumes inv: "sync_inv (ss, tm)" and run: "barrierWait t i time (ss, tm) = Inr (r, sys')" and t: "t \<in> running_set tm"
  shows "sync_inv sys'"
proof -
  have ok: "waits_ok (waiting_at ss) (blocked_set tm)" "tm_wf tm" "server_ok ss" using inv by (simp_all add: sync_inv_def)
  let ?b = "m_barriers ss ! i"
  obtain b' tm' where i: "i < length (m_barriers ss)" and bw: "barrier_wait t time ?b tm = Inr (r, b', tm')"
    and sys': "sys' = (ss\<lparr>m_barriers := (m_barriers ss)[i := b']\<rparr>, tm')"
    using run by (auto simp: barrierWait_def bindE_Inr_iff split: if_splits)
  have srv: "server_ok (ss\<lparr>m_barriers := (m_barriers ss)[i := b']\<rparr>)" using ok(3) by (simp add: server_ok_def)
  have at: "waiting_at ss (AtBarrier i) = br_waiting ?b @ []" using i by simp
  show ?thesis
  proof (cases "length (br_waiting ?b) = unat (br_count ?b - 1)")
    case True
    then have b': "b' = ?b\<lparr>br_waiting := []\<rparr>" and res: "resume_all (br_waiting ?b) t time tm = Inr tm'"
      using bw by (auto simp: barrier_wait_def bindE_Inr_iff)
    show ?thesis
      using resume_all_sets [OF res ok(2)] waits_drop_prefix [OF ok(1) at] srv i by (simp add: sync_inv_def sys' b')
  next
    case False
    then have b': "b' = ?b\<lparr>br_waiting := br_waiting ?b @ [t]\<rparr>" and st: "stallThread t STALL_BARRIER time tm = Inr (r, tm')"
      using bw by (auto simp: barrier_wait_def bindE_Inr_iff)
    show ?thesis
      using stallThread_sets [OF ok(2) st] waits_push [OF ok(1) running_not_blocked [OF t], of "AtBarrier i"] srv i
      by (auto simp: sync_inv_def sys' b')
  qed
qed

section \<open>Steps of the thread manager\<close>

lemma inv_threads: "sync_inv (ss, tm) \<Longrightarrow> tm_wf tm' \<Longrightarrow> blocked_set tm' = blocked_set tm \<Longrightarrow> sync_inv (ss, tm')"
  by (simp add: sync_inv_def)

lemma blocked_cong:
  "m_thread_state tm' = m_thread_state tm \<Longrightarrow> length (m_threads tm') = length (m_threads tm) \<Longrightarrow>
     blocked_set tm' = blocked_set tm \<and> tm_wf tm' = tm_wf tm"
  by (simp add: blocked_set_def valid_thread_def tm_wf_def)

text \<open>A state that is not blocked replaced by another that is not.\<close>

definition wakes :: "ThreadState \<Rightarrow> bool" where
  "wakes s \<longleftrightarrow> \<not> (ts_status s = STALLED \<and> stalled_reason s \<in> {Some STALL_MUTEX, Some STALL_COND, Some STALL_BARRIER})"

lemma put_state_blocked:
  assumes "state_at tm t = Inr s" and "wakes s" and "wakes s'" and "tm_wf tm"
  shows "blocked_set (put_state tm t s') = blocked_set tm \<and> tm_wf (put_state tm t s')"
proof -
  have t: "0 \<le> t" "nat t < length (m_thread_state tm)" and s: "s = m_thread_state tm ! nat t"
    using assms(1) by (auto simp: state_at_def split: if_splits)
  have "u \<in> blocked_set (put_state tm t s') \<longleftrightarrow> u \<in> blocked_set tm" for u
  proof (cases "u = t")
    case True
    then show ?thesis using assms t s by (auto simp: blocked_set_def put_state_def wakes_def valid_thread_def)
  next
    case False
    then have "0 \<le> u \<Longrightarrow> nat u \<noteq> nat t" using t by (simp add: nat_eq_iff)
    then show ?thesis by (auto simp: blocked_set_def put_state_def valid_thread_def nth_list_update)
  qed
  then show ?thesis using assms(4) by (auto simp: tm_wf_def put_state_def)
qed

lemma call_hook_sets [simp]:
  "blocked_set (call_hook e tm) = blocked_set tm" "tm_wf (call_hook e tm) = tm_wf tm"
  "running_set (call_hook e tm) = running_set tm" "state_at (call_hook e tm) t = state_at tm t"
  by (simp_all add: blocked_set_def running_set_def valid_thread_def tm_wf_def call_hook_def state_at_def)

lemma core_state_sets [simp]:
  "blocked_set (set_core_state c s tm) = blocked_set tm" "tm_wf (set_core_state c s tm) = tm_wf tm"
  "state_at (set_core_state c s tm) t = state_at tm t"
  by (simp_all add: blocked_set_def valid_thread_def tm_wf_def set_core_state_def state_at_def)

lemma setCore_threads:
  assumes "setCore t c tm = Inr tm'"
  shows "blocked_set tm' = blocked_set tm \<and> tm_wf tm' = tm_wf tm \<and> state_at tm' = state_at tm"
proof -
  have "m_thread_state tm' = m_thread_state tm \<and> length (m_threads tm') = length (m_threads tm)"
    using assms by (auto simp: setCore_def bindE_Inr_iff Let_def put_thread_def split: option.splits)
  then show ?thesis using blocked_cong [of tm' tm] by (auto simp: state_at_def fun_eq_iff)
qed

lemma thread_signal_threads:
  assumes "thread_signal t time msg tm = Inr tm'"
  shows "blocked_set tm' = blocked_set tm \<and> tm_wf tm' = tm_wf tm \<and> state_at tm' = state_at tm"
proof -
  have "m_thread_state tm' = m_thread_state tm \<and> length (m_threads tm') = length (m_threads tm)"
    using assms by (auto simp: thread_signal_def bindE_Inr_iff put_thread_def)
  then show ?thesis using blocked_cong [of tm' tm] by (auto simp: state_at_def fun_eq_iff)
qed

lemma createThread_threads:
  assumes "createThread_unlocked wakeup core_id creator tm = Inr (t, tm')" and "tm_wf tm"
  shows "blocked_set tm' = blocked_set tm \<and> tm_wf tm'"
proof -
  define tm1 where "tm1 = tm\<lparr>m_threads := m_threads tm @ [\<lparr>m_wakeup_time = fst wakeup, m_wakeup_msg = snd wakeup, m_core = None\<rparr>],
                  m_thread_state := m_thread_state tm @ [mk_ThreadState]\<rparr>"
  define n where "n = int (length (m_threads tm))"
  have b1: "blocked_set tm1 = blocked_set tm" and wf1: "tm_wf tm1"
    using assms(2) by (auto simp: blocked_set_def tm1_def valid_thread_def tm_wf_def nth_append mk_ThreadState_def split: if_splits)
  have s: "state_at tm1 n = Inr mk_ThreadState"
    using assms(2) by (simp add: state_at_def tm1_def n_def tm_wf_def nth_append)
  have w: "wakes mk_ThreadState" "wakes (mk_ThreadState\<lparr>ts_status := INITIALIZING\<rparr>)" by (simp_all add: wakes_def mk_ThreadState_def)
  have 2: "blocked_set (put_state tm1 n (mk_ThreadState\<lparr>ts_status := INITIALIZING\<rparr>)) = blocked_set tm \<and>
      tm_wf (put_state tm1 n (mk_ThreadState\<lparr>ts_status := INITIALIZING\<rparr>))"
    using put_state_blocked [OF s w wf1] b1 by simp
  define tm2 where "tm2 = put_state tm1 n (mk_ThreadState\<lparr>ts_status := INITIALIZING\<rparr>)"
  obtain tm3 where 3: "(if core_id \<noteq> INVALID_CORE_ID
        then bindE (setCore n (Some core_id) tm2) (\<lambda>tm. Inr (set_core_state core_id INITIALIZING tm)) else Inr tm2) = Inr tm3"
    and tm': "tm' = call_hook (HOOK_THREAD_CREATE n creator) tm3"
    using assms(1) unfolding createThread_unlocked_def Let_def tm1_def [symmetric] n_def [symmetric] s bindE_simps
      tm2_def [symmetric] bindE_Inr_iff by blast
  have "blocked_set tm3 = blocked_set tm2 \<and> tm_wf tm3 = tm_wf tm2"
    using 3 setCore_threads [of n "Some core_id" tm2] by (auto simp: bindE_Inr_iff split: if_splits)
  then show ?thesis using 2 by (simp add: tm' tm2_def)
qed

lemma resume_unscheduled:
  assumes "resumeThread t by time msg tm = Inr tm'" and "tm_wf tm" and "t \<notin> blocked_set tm"
  shows "blocked_set tm' = blocked_set tm \<and> tm_wf tm'"
  using resumeThread_sets [OF assms(2,1)] assms(3) by auto

lemma moveThread_threads:
  assumes run: "moveThread t core_id time tm = Inr tm'" and wf: "tm_wf tm"
  shows "blocked_set tm' = blocked_set tm \<and> tm_wf tm'"
proof -
  obtain x where x: "getThreadFromID tm t = Inr x" using run by (auto simp: moveThread_def bindE_Inr_iff)
  define tm1 where "tm1 = (case m_core x of None \<Rightarrow> tm | Some c \<Rightarrow> set_core_state c IDLE tm)"
  have 1: "blocked_set tm1 = blocked_set tm" "tm_wf tm1" "state_at tm1 = state_at tm"
    using wf by (auto simp: tm1_def fun_eq_iff split: option.splits)
  have other: "t \<notin> blocked_set tm" if "state_at tm t = Inr s" "stalled_reason s = Some STALL_UNSCHEDULED" for s
    using that by (auto simp: state_at_def blocked_set_def split: if_splits)
  show ?thesis
  proof (cases "core_id = INVALID_CORE_ID")
    case True
    then show ?thesis
      using run x 1 by (auto simp: moveThread_def bindE_Inr_iff tm1_def [symmetric] dest!: setCore_threads)
  next
    case False
    obtain s tm2 tm3 where s: "state_at tm t = Inr s"
      and 2: "(if m_core x = None \<and> ts_status s = STALLED \<and> stalled_reason s = Some STALL_UNSCHEDULED
               then resumeThread t INVALID_THREAD_ID time False tm1 else Inr tm1) = Inr tm2"
      and 3: "setCore t (Some core_id) tm2 = Inr tm3"
      and tm': "tm' \<in> call_hook (HOOK_THREAD_MIGRATE t core_id time) ` {set_core_state core_id RUNNING tm3, tm3}"
    proof -
      from run x 1 False show ?thesis
        by (simp add: moveThread_def bindE_Inr_iff tm1_def Let_def) (elim exE conjE, rule that [unfolded tm1_def], assumption, assumption, assumption, auto)
    qed
    have "blocked_set tm2 = blocked_set tm \<and> tm_wf tm2"
      using 2 1 other [OF s] resume_unscheduled [of t INVALID_THREAD_ID time False tm1 tm2] by (auto split: if_splits)
    then show ?thesis using setCore_threads [OF 3] tm' by auto
  qed
qed

section \<open>Sequences of calls\<close>

text \<open>
  A running thread calls an operation of the server, or another part of the simulator changes the threads without touching
  those that this server has stalled, as the creation and the migration of threads do.
\<close>

inductive sync_step :: "sync_sys \<Rightarrow> sync_sys \<Rightarrow> bool" where
  mutexInit: "mutexInit t a sys = Inr sys' \<Longrightarrow> sync_step sys sys'"
| mutexLock: "t \<in> running_set (snd sys) \<Longrightarrow> mutexLock t a tryLock time sys = Inr (r, sys') \<Longrightarrow> sync_step sys sys'"
| mutexUnlock: "mutexUnlock t a time sys = Inr (r, sys') \<Longrightarrow> sync_step sys sys'"
| condInit: "condInit t a sys = Inr sys' \<Longrightarrow> sync_step sys sys'"
| condWait: "t \<in> running_set (snd sys) \<Longrightarrow> condWait t c a time sys = Inr (r2, sys') \<Longrightarrow> sync_step sys sys'"
| condSignal: "condSignal t c time sys = Inr (r3, sys') \<Longrightarrow> sync_step sys sys'"
| condBroadcast: "condBroadcast t c time sys = Inr (r3, sys') \<Longrightarrow> sync_step sys sys'"
| barrierInit: "barrierInit t count sys = Inr (n, sys') \<Longrightarrow> sync_step sys sys'"
| barrierWait: "t \<in> running_set (snd sys) \<Longrightarrow> barrierWait t i time sys = Inr (r2, sys') \<Longrightarrow> sync_step sys sys'"
| threads: "tm_wf tm \<Longrightarrow> tm_wf tm' \<Longrightarrow> blocked_set tm' = blocked_set tm \<Longrightarrow> sync_step (ss, tm) (ss, tm')"

inductive sync_reachable :: "sync_sys \<Rightarrow> sync_sys \<Rightarrow> bool" for init where
  start: "sync_reachable init init"
| step: "sync_reachable init sys \<Longrightarrow> sync_step sys sys' \<Longrightarrow> sync_reachable init sys'"

lemma condWait_inv:
  assumes inv: "sync_inv (ss, tm)" and run: "condWait t c a time (ss, tm) = Inr (r, sys')" and t: "t \<in> running_set tm"
  shows "sync_inv sys'"
proof -
  obtain m ss1 w ss2 o' m' tm1 tm2 where gm: "getMutex a True ss = Inr (m, ss1)" and gc: "getCond c True ss1 = Inr (w, ss2)"
    and ul: "mutex_unlock t time m tm = Inr (o', m', tm1)" and st: "stallThread t STALL_COND time tm1 = Inr (r, tm2)"
    and sys': "sys' = (put_cond c (w @ [\<lparr>cw_thread_id = t, cw_mutex = a\<rparr>]) (put_mutex a m' ss2), tm2)"
    using run by (auto simp: condWait_def bindE_Inr_iff Let_def)
  note 1 = getMutex_inv [OF inv gm]
  have 2: "sync_inv (ss2, tm)" "m_mutexes ss2 a = Some m" "m_conds ss2 c = Some w" using getCond_inv [OF _ gc] 1 by auto
  have 3: "sync_inv (put_mutex a m' ss2, tm1)" "t \<in> running_set tm1"
    using mutex_unlock_inv [OF 2(1,2) ul] t by auto
  then have ok: "waits_ok (waiting_at (put_mutex a m' ss2)) (blocked_set tm1)" "tm_wf tm1" "server_ok (put_mutex a m' ss2)"
    by (simp_all add: sync_inv_def)
  have srv: "server_ok (fst sys')"
    using ok(3) 2(3) by (auto simp: sys' server_ok_def put_mutex_def put_cond_def)
  show ?thesis
    using stallThread_sets [OF ok(2) st] waits_push [OF ok(1) running_not_blocked [OF 3(2)], of "AtCond c"] srv 2(3)
    by (simp add: sync_inv_def sys')
qed

lemma condSignal_inv:
  assumes inv: "sync_inv (ss, tm)" and run: "condSignal t c time (ss, tm) = Inr (r, sys')"
  shows "sync_inv sys'"
proof -
  obtain w ss1 x where gc: "getCond c True ss = Inr (w, ss1)" and cs: "cond_signal t time c (ss1, tm) = Inr (x, sys')"
    using run by (auto simp: condSignal_def bindE_Inr_iff)
  have 1: "sync_inv (ss1, tm)" "m_conds ss1 c = Some w" using getCond_inv [OF inv gc] by auto
  show ?thesis
  proof (cases w)
    case (Cons v vs)
    then obtain l where "wake_waiter v t time (put_cond c vs ss1, tm) = Inr (l, fst sys', snd sys')"
      using cs 1 by (auto simp: cond_signal_def bindE_Inr_iff)
    from wake_waiter_inv [OF 1(1) _ this] show ?thesis using 1(2) Cons by simp
  qed (use cs 1 in \<open>simp add: cond_signal_def\<close>)
qed

lemma sync_step_inv: "sync_step sys sys' \<Longrightarrow> sync_inv sys \<Longrightarrow> sync_inv sys'"
proof (induction rule: sync_step.induct)
  case (mutexInit t a sys sys')
  then show ?case by (cases sys) (auto simp: mutexInit_def bindE_Inr_iff dest: getMutex_inv)
next
  case (mutexLock t sys a tryLock time r sys')
  obtain ss tm where sys: "sys = (ss, tm)" by (cases sys)
  obtain m ss1 where gm: "getMutex a True ss = Inr (m, ss1)" using mutexLock by (auto simp: mutexLock_def bindE_Inr_iff sys)
  have 1: "sync_inv (ss1, tm)" "m_mutexes ss1 a = Some m" using getMutex_inv [OF _ gm] mutexLock.prems by (auto simp: sys)
  show ?case
    using mutexLock.hyps 1 mutex_lock_inv [OF 1]
    by (auto simp: mutexLock_def bindE_Inr_iff sys gm split: if_splits)
next
  case (mutexUnlock t a time sys r sys')
  obtain ss tm where sys: "sys = (ss, tm)" by (cases sys)
  obtain m ss1 where gm: "getMutex a False ss = Inr (m, ss1)" using mutexUnlock by (auto simp: mutexUnlock_def bindE_Inr_iff sys)
  have 1: "sync_inv (ss1, tm)" "m_mutexes ss1 a = Some m" using getMutex_inv [OF _ gm] mutexUnlock.prems by (auto simp: sys)
  show ?case using mutexUnlock.hyps mutex_unlock_inv [OF 1] by (auto simp: mutexUnlock_def bindE_Inr_iff sys gm)
next
  case (condInit t a sys sys')
  then show ?case by (cases sys) (auto simp: condInit_def bindE_Inr_iff dest: getCond_inv)
next
  case (condWait t sys c a time r2 sys')
  then show ?case by (metis condWait_inv prod.collapse)
next
  case (condSignal t c time sys r3 sys')
  then show ?case by (metis condSignal_inv prod.collapse)
next
  case (condBroadcast t c time sys r3 sys')
  obtain ss tm where sys: "sys = (ss, tm)" by (cases sys)
  obtain w ss1 where gc: "getCond c True ss = Inr (w, ss1)" using condBroadcast by (auto simp: condBroadcast_def bindE_Inr_iff sys)
  have 1: "sync_inv (ss1, tm)" "m_conds ss1 c = Some w" using getCond_inv [OF _ gc] condBroadcast.prems by (auto simp: sys)
  have "cond_broadcast w t time c (ss1, tm) = Inr sys'"
    using condBroadcast.hyps by (auto simp: condBroadcast_def bindE_Inr_iff sys gc)
  then show ?case by (rule cond_broadcast_inv) (simp_all add: 1)
next
  case (barrierInit t count sys n sys')
  obtain ss tm where sys: "sys = (ss, tm)" by (cases sys)
  have sys': "sys' = (ss\<lparr>m_barriers := m_barriers ss @ [\<lparr>br_waiting = [], br_count = count\<rparr>]\<rparr>, tm)"
    using barrierInit.hyps by (auto simp: barrierInit_def sys Let_def)
  have "waiting_at (fst sys') p = waiting_at ss p" for p by (cases p) (auto simp: sys' nth_append)
  then have "waiting_at (fst sys') = waiting_at ss" by (rule ext)
  then show ?case using barrierInit.prems by (simp add: sync_inv_def sys) (simp add: sys' server_ok_def)
next
  case (barrierWait t sys i time r2 sys')
  then show ?case by (metis barrierWait_inv prod.collapse)
next
  case (threads tm tm' ss)
  then show ?case by (simp add: sync_inv_def)
qed

lemma sync_reachable_inv: "sync_reachable init sys \<Longrightarrow> sync_inv init \<Longrightarrow> sync_inv sys"
  by (induction rule: sync_reachable.induct) (auto dest: sync_step_inv)

section \<open>Properties\<close>

lemma sync_init: "tm_wf tm \<Longrightarrow> blocked_set tm = {} \<Longrightarrow> sync_inv (mk_SyncServer cost, tm)"
proof -
  assume tm: "tm_wf tm" "blocked_set tm = {}"
  have "waiting_at (mk_SyncServer cost) p = []" for p by (cases p) (simp_all add: mk_SyncServer_def)
  then show ?thesis using tm by (simp add: sync_inv_def waits_ok_def server_ok_def) (simp add: mk_SyncServer_def)
qed

text \<open>
  C19. No waiter is lost: after any sequence of calls by running threads, starting from an empty server, a thread is stalled
  by the server exactly when it waits in one queue and no other, of a mutex, a condition variable or a barrier, and it
  waits there once; and a mutex without an owner has nobody waiting for it.
\<close>

theorem no_lost_waiter:
  assumes "sync_reachable (mk_SyncServer cost, tm0) (ss, tm)" and "tm_wf tm0" and "blocked_set tm0 = {}"
  shows "(t \<in> blocked_set tm \<longleftrightarrow> (\<exists>!p. t \<in> set (waiting_at ss p))) \<and> distinct (waiting_at ss p) \<and>
    (m_mutexes ss a = Some m \<and> mx_owner m = NO_OWNER \<longrightarrow> mx_waiting m = [])"
proof -
  have inv: "sync_inv (ss, tm)" by (rule sync_reachable_inv [OF assms(1) sync_init [OF assms(2,3)]])
  then have ok: "waits_ok (waiting_at ss) (blocked_set tm)" "server_ok ss" by (simp_all add: sync_inv_def)
  have "t \<in> blocked_set tm \<longleftrightarrow> (\<exists>!p. t \<in> set (waiting_at ss p))"
    unfolding waits_okD(3) [OF ok(1)] using waits_okD(2) [OF ok(1)] by blast
  then show ?thesis using waits_okD(1) [OF ok(1)] ok(2) by (auto simp: server_ok_def)
qed

text \<open>The owners of a mutex release it in turn.\<close>

primrec releases :: "nat \<Rightarrow> IntPtr \<Rightarrow> SubsecondTime \<Rightarrow> sync_sys \<Rightarrow> sync_sys res" where
  "releases 0 a time sys = Inr sys"
| "releases (Suc n) a time sys =
     (case m_mutexes (fst sys) a of
        None \<Rightarrow> Inl NullPointer
      | Some m \<Rightarrow> bindE (mutexUnlock (mx_owner m) a time sys) (\<lambda>(_, sys). releases n a time sys))"

lemma mutexUnlock_hands_over:
  assumes inv: "sync_inv (ss, tm)" and m: "m_mutexes ss a = Some m" "mx_waiting m = w # ws"
  shows "\<exists>r ss' tm'. mutexUnlock (mx_owner m) a time (ss, tm) = Inr (r, (ss', tm')) \<and> sync_inv (ss', tm') \<and>
    m_mutexes ss' a = Some (m\<lparr>mx_waiting := ws, mx_owner := w\<rparr>) \<and> w \<in> running_set tm'"
proof -
  have "w \<in> blocked_set tm" by (rule waiter_valid(2) [OF inv, of w "AtMutex a"]) (simp add: m)
  then have v: "tm_wf tm" "valid_thread tm w" using inv by (simp_all add: sync_inv_def blocked_valid)
  obtain tm' where res: "resumeThread w (mx_owner m) (time + m_reschedule_cost ss) False tm = Inr tm'"
    using resumeThread_effect [OF v] by blast
  then have ul: "mutex_unlock (mx_owner m) (time + m_reschedule_cost ss) m tm = Inr (w, m\<lparr>mx_waiting := ws, mx_owner := w\<rparr>, tm')"
    by (simp add: mutex_unlock_def m)
  show ?thesis
    using mutex_unlock_inv [OF inv m(1) ul] resumeThread_sets [OF v(1) res]
    by (simp add: mutexUnlock_def getMutex_def m ul) (simp add: put_mutex_def)
qed

lemma releases_waiting:
  "sync_inv (ss, tm) \<Longrightarrow> m_mutexes ss a = Some m \<Longrightarrow> k < length (mx_waiting m) \<Longrightarrow>
   \<exists>ss' tm'. releases (Suc k) a time (ss, tm) = Inr (ss', tm') \<and> sync_inv (ss', tm') \<and> mx_waiting m ! k \<in> running_set tm' \<and>
     m_mutexes ss' a = Some (m\<lparr>mx_waiting := drop (Suc k) (mx_waiting m), mx_owner := mx_waiting m ! k\<rparr>)"
proof (induction k arbitrary: ss tm m)
  case 0
  then obtain w ws where w: "mx_waiting m = w # ws" by (cases "mx_waiting m") auto
  from mutexUnlock_hands_over [OF 0(1,2) w, of time] obtain r ss' tm' where
    "mutexUnlock (mx_owner m) a time (ss, tm) = Inr (r, (ss', tm'))" "sync_inv (ss', tm')"
    "m_mutexes ss' a = Some (m\<lparr>mx_waiting := ws, mx_owner := w\<rparr>)" "w \<in> running_set tm'" by blast
  then show ?case using 0(2) w by simp
next
  case (Suc k)
  then obtain w ws where w: "mx_waiting m = w # ws" by (cases "mx_waiting m") auto
  from mutexUnlock_hands_over [OF Suc.prems(1,2) w, of time] obtain r ss1 tm1 where
    u: "mutexUnlock (mx_owner m) a time (ss, tm) = Inr (r, (ss1, tm1))" "sync_inv (ss1, tm1)"
    "m_mutexes ss1 a = Some (m\<lparr>mx_waiting := ws, mx_owner := w\<rparr>)" by blast
  have "k < length (mx_waiting (m\<lparr>mx_waiting := ws, mx_owner := w\<rparr>))" using Suc.prems(3) w by simp
  from Suc.IH [OF u(2,3) this] show ?case using u(1) Suc.prems(2) w by simp
qed

text \<open>
  C20. Every waiter gets the mutex: in every reachable state, when the owners of a mutex release it in turn, the waiter at
  position \<open>k\<close> of the queue owns the mutex and runs after \<open>k + 1\<close> releases, none of which fails, and those behind
  it are still waiting in their order.
\<close>

theorem waiter_gets_mutex:
  assumes "sync_reachable (mk_SyncServer cost, tm0) (ss, tm)" and "tm_wf tm0" and "blocked_set tm0 = {}"
    and "m_mutexes ss a = Some m" and "k < length (mx_waiting m)"
  shows "\<exists>ss' tm' m'. releases (Suc k) a time (ss, tm) = Inr (ss', tm') \<and> m_mutexes ss' a = Some m' \<and>
    mx_owner m' = mx_waiting m ! k \<and> mx_waiting m ! k \<in> running_set tm' \<and> mx_waiting m' = drop (Suc k) (mx_waiting m)"
  using releases_waiting [OF sync_reachable_inv [OF assms(1) sync_init [OF assms(2,3)]] assms(4,5), of time] by auto

lemma resume_all_effect:
  "tm_wf tm \<Longrightarrow> \<forall>w\<in>set ws. valid_thread tm w \<Longrightarrow> distinct ws \<Longrightarrow> \<exists>tm'. resume_all ws t time tm = Inr tm' \<and>
     (\<forall>w\<in>set ws. m_wakeup_time (m_threads tm' ! nat w) = time) \<and>
     (\<forall>u. valid_thread tm u \<and> u \<notin> set ws \<longrightarrow> m_threads tm' ! nat u = m_threads tm ! nat u)"
proof (induction ws arbitrary: tm)
  case (Cons w ws)
  have v: "valid_thread tm w" using Cons.prems(2) by simp
  from resumeThread_effect [OF Cons.prems(1) v, of t time False] obtain tm1 where
    res: "resumeThread w t time False tm = Inr tm1" and th: "m_threads tm1 =
      (m_threads tm)[nat w := (m_threads tm ! nat w)\<lparr>m_wakeup_time := time, m_wakeup_msg := False\<rparr>]" by blast
  note s = resumeThread_sets [OF Cons.prems(1) res]
  obtain tm' where rest: "resume_all ws t time tm1 = Inr tm'"
    and woken: "\<forall>w\<in>set ws. m_wakeup_time (m_threads tm' ! nat w) = time"
    and other: "\<forall>u. valid_thread tm1 u \<and> u \<notin> set ws \<longrightarrow> m_threads tm' ! nat u = m_threads tm1 ! nat u"
    using Cons.IH [of tm1] Cons.prems s by auto
  have at: "m_threads tm1 ! nat u = (if u = w then (m_threads tm ! nat w)\<lparr>m_wakeup_time := time, m_wakeup_msg := False\<rparr>
      else m_threads tm ! nat u)" if "valid_thread tm u" for u
    using that v unfolding th by (auto simp: valid_thread_def nth_list_update)
  have "w \<notin> set ws" using Cons.prems(3) by simp
  then have "m_wakeup_time (m_threads tm' ! nat w) = time" using other at [OF v] v s by simp
  then show ?case using res rest woken other at s by auto
qed simp

text \<open>
  C25. A barrier releases its threads together: in every reachable state, a running thread that reaches a barrier is stalled
  behind the threads already there, unless it is the last of \<^verbatim>\<open>m_count\<close>; then its call returns at once with its own
  time, all the others are running with that time as their wake-up time, and the barrier is empty and ready for its next use.
\<close>

theorem barrier_releases_together:
  assumes "sync_reachable (mk_SyncServer cost, tm0) (ss, tm)" and "tm_wf tm0" and "blocked_set tm0 = {}"
    and "i < length (m_barriers ss)" and "t \<in> running_set tm"
  shows "\<exists>r ss' tm'. barrierWait t i time (ss, tm) = Inr (r, (ss', tm')) \<and>
    (if length (br_waiting (m_barriers ss ! i)) = unat (br_count (m_barriers ss ! i) - 1)
     then r = Some time \<and> waiting_at ss' (AtBarrier i) = [] \<and>
       (\<forall>w \<in> set (waiting_at ss (AtBarrier i)). w \<in> running_set tm' \<and> m_wakeup_time (m_threads tm' ! nat w) = time)
     else r = None \<and> waiting_at ss' (AtBarrier i) = waiting_at ss (AtBarrier i) @ [t] \<and> t \<in> blocked_set tm')"
proof -
  let ?b = "m_barriers ss ! i"
  have inv: "sync_inv (ss, tm)" by (rule sync_reachable_inv [OF assms(1) sync_init [OF assms(2,3)]])
  then have ok: "waits_ok (waiting_at ss) (blocked_set tm)" "tm_wf tm" by (simp_all add: sync_inv_def)
  have at: "waiting_at ss (AtBarrier i) = br_waiting ?b" using assms(4) by simp
  have v: "\<forall>w\<in>set (br_waiting ?b). valid_thread tm w"
    using waiter_valid(2) [OF inv, of _ "AtBarrier i"] blocked_valid assms(4) by simp
  have d: "distinct (br_waiting ?b)" using waits_okD(1) [OF ok(1), of "AtBarrier i"] at by simp
  have t: "valid_thread tm t" using assms(5) by (simp add: running_set_def)
  show ?thesis
  proof (cases "length (br_waiting ?b) = unat (br_count ?b - 1)")
    case True
    from resume_all_effect [OF ok(2) v d, of t time] obtain tm' where res: "resume_all (br_waiting ?b) t time tm = Inr tm'"
      and woken: "\<forall>w\<in>set (br_waiting ?b). m_wakeup_time (m_threads tm' ! nat w) = time" by blast
    show ?thesis
      using True assms(4) res woken resume_all_sets [OF res ok(2)] by (simp add: barrierWait_def barrier_wait_def)
  next
    case False
    from stallThread_effect [OF ok(2) t, of STALL_BARRIER time] obtain tm' where
      st: "stallThread t STALL_BARRIER time tm = Inr (None, tm')" by blast
    show ?thesis
      using False assms(4) st stallThread_sets [OF ok(2) st] by (simp add: barrierWait_def barrier_wait_def)
  qed
qed

text \<open>Two threads that want the same mutex, and two that meet at a barrier.\<close>

definition demo_tm :: ThreadManager where
  "demo_tm = (mk_ThreadManager (\<lambda>_. RUNNING))\<lparr>
     m_thread_state := replicate 2 (mk_ThreadState\<lparr>ts_status := RUNNING\<rparr>),
     m_threads := replicate 2 \<lparr>m_wakeup_time = 0, m_wakeup_msg = False, m_core = None\<rparr>\<rparr>"

definition demo_mutex_sys :: sync_sys where
  "demo_mutex_sys = snd (projr (bindE (mutexLock 0 0x40 False 5 (mk_SyncServer 1, demo_tm))
     (\<lambda>(_, sys). mutexLock 1 0x40 False 7 sys)))"

definition demo_barrier_sys :: sync_sys where
  "demo_barrier_sys = snd (projr (bindE (barrierInit 0 2 (mk_SyncServer 1, demo_tm)) (\<lambda>(_, sys). barrierWait 0 0 5 sys)))"

lemmas demo_eval = demo_tm_def mk_ThreadManager_def mk_ThreadState_def mk_SyncServer_def mutexLock_def getMutex_def isLocked_def
  mutex_lock_def mk_SimMutex_def NO_OWNER_def put_mutex_def stallThread_def stallThread_async_def thread_wait_def tm_defs
  barrierInit_def barrierWait_def barrier_wait_def running_set_def numeral_2_eq_2

lemma demo_tm_ok: "tm_wf demo_tm" "blocked_set demo_tm = {}"
  by (auto simp: demo_tm_def tm_wf_def blocked_set_def mk_ThreadState_def mk_ThreadManager_def valid_thread_def)

lemma demo_mutex_reachable:
  "sync_reachable (mk_SyncServer 1, demo_tm) demo_mutex_sys"
  "m_mutexes (fst demo_mutex_sys) 0x40 = Some \<lparr>mx_waiting = [1], mx_owner = 0\<rparr>"
proof -
  obtain sys1 where 1: "mutexLock 0 0x40 False 5 (mk_SyncServer 1, demo_tm) = Inr ((Some (5 + NS 1), True), sys1)"
    and r: "0 \<in> running_set demo_tm" "1 \<in> running_set (snd sys1)"
    and 2: "mutexLock 1 0x40 False 7 sys1 = Inr ((None, True), demo_mutex_sys)"
    and m: "m_mutexes (fst demo_mutex_sys) 0x40 = Some \<lparr>mx_waiting = [1], mx_owner = 0\<rparr>"
    unfolding demo_mutex_sys_def by (auto simp: demo_eval)
  show "sync_reachable (mk_SyncServer 1, demo_tm) demo_mutex_sys"
    using sync_reachable.step [OF sync_reachable.step [OF sync_reachable.start sync_step.mutexLock [OF _ 1]] sync_step.mutexLock [OF _ 2]] r by simp
  show "m_mutexes (fst demo_mutex_sys) 0x40 = Some \<lparr>mx_waiting = [1], mx_owner = 0\<rparr>" by (rule m)
qed

lemma demo_barrier_reachable:
  "sync_reachable (mk_SyncServer 1, demo_tm) demo_barrier_sys"
  "m_barriers (fst demo_barrier_sys) = [\<lparr>br_waiting = [0], br_count = 2\<rparr>]" "1 \<in> running_set (snd demo_barrier_sys)"
proof -
  obtain sys1 where 1: "barrierInit 0 2 (mk_SyncServer 1, demo_tm) = Inr (0, sys1)" and r: "0 \<in> running_set (snd sys1)"
    and 2: "barrierWait 0 0 5 sys1 = Inr (None, demo_barrier_sys)"
    and b: "m_barriers (fst demo_barrier_sys) = [\<lparr>br_waiting = [0], br_count = 2\<rparr>]" "1 \<in> running_set (snd demo_barrier_sys)"
    unfolding demo_barrier_sys_def by (auto simp: demo_eval)
  show "sync_reachable (mk_SyncServer 1, demo_tm) demo_barrier_sys"
    using sync_reachable.step [OF sync_reachable.step [OF sync_reachable.start sync_step.barrierInit [OF 1]] sync_step.barrierWait [OF r 2]] .
  show "m_barriers (fst demo_barrier_sys) = [\<lparr>br_waiting = [0], br_count = 2\<rparr>]" "1 \<in> running_set (snd demo_barrier_sys)"
    by (rule b)+
qed

theorem no_lost_waiter_witness: "1 \<in> blocked_set (snd demo_mutex_sys) \<and> 0 \<notin> blocked_set (snd demo_mutex_sys)"
proof -
  have r: "sync_reachable (mk_SyncServer 1, demo_tm) (fst demo_mutex_sys, snd demo_mutex_sys)"
    using demo_mutex_reachable(1) by simp
  have "waiting_at (fst demo_mutex_sys) p = (if p = AtMutex 0x40 then [1] else [])" for p
    by (cases p) (auto simp: demo_mutex_sys_def demo_eval)
  then show ?thesis
    using no_lost_waiter [OF r demo_tm_ok, of 0] no_lost_waiter [OF r demo_tm_ok, of 1] by (simp add: Ex1_def)
qed

theorem waiter_gets_mutex_witness:
  "\<exists>ss' tm' m'. releases 1 0x40 9 demo_mutex_sys = Inr (ss', tm') \<and> m_mutexes ss' 0x40 = Some m' \<and> mx_owner m' = 1 \<and>
     1 \<in> running_set tm'"
proof -
  have "sync_reachable (mk_SyncServer 1, demo_tm) (fst demo_mutex_sys, snd demo_mutex_sys)"
    using demo_mutex_reachable(1) by simp
  from waiter_gets_mutex [OF this demo_tm_ok demo_mutex_reachable(2), of 0 9] show ?thesis by auto
qed

theorem barrier_releases_together_witness:
  "\<exists>ss' tm'. barrierWait 1 0 9 demo_barrier_sys = Inr (Some 9, (ss', tm')) \<and> 0 \<in> running_set tm' \<and>
     m_wakeup_time (m_threads tm' ! 0) = 9"
proof -
  have "sync_reachable (mk_SyncServer 1, demo_tm) (fst demo_barrier_sys, snd demo_barrier_sys)"
    using demo_barrier_reachable(1) by simp
  from barrier_releases_together [OF this demo_tm_ok, of 0 1 9] show ?thesis
    using demo_barrier_reachable(2,3) by auto
qed

end
