(* ===== verification/LS_Futex.thy ===== *)
theory LS_Futex
  imports LS_Sync
begin

text \<open>
  Simulated futexes and sleeping threads: \<^verbatim>\<open>common/system/syscall_server.cc\<close>. The translation of virtual addresses, the
  number of instructions that the core of a thread has executed and the words of simulated memory that a call reads are
  arguments; a word that a call writes is part of its result. Waiters are kept in lists; the futexes are an association
  list, whose order stands for the unspecified order in which the hash map is traversed.
\<close>

section \<open>A futex\<close>

record Waiter =
  w_thread_id :: thread_id_t
  w_mask :: UInt32
  w_timeout :: SubsecondTime

definition mk_Waiter :: "thread_id_t \<Rightarrow> UInt32 \<Rightarrow> SubsecondTime \<Rightarrow> Waiter" where
  "mk_Waiter t bitset timeout = \<lparr>w_thread_id = t, w_mask = bitset, w_timeout = timeout\<rparr>"

type_synonym SimFutex = "Waiter list"

text \<open>Returns at the stall; the result of the call is the wake-up message of the thread.\<close>

definition enqueueWaiter ::
  "thread_id_t \<Rightarrow> UInt32 \<Rightarrow> SubsecondTime \<Rightarrow> SubsecondTime \<Rightarrow> SimFutex \<Rightarrow> ThreadManager \<Rightarrow> (SimFutex \<times> ThreadManager) res" where
  "enqueueWaiter thread_id bitset time timeout_time f tm =
     bindE (stallThread thread_id STALL_FUTEX time tm) (\<lambda>(_, tm). Inr (f @ [mk_Waiter thread_id bitset timeout_time], tm))"

text \<open>The first waiter that satisfies a condition, and the others.\<close>

fun take_first :: "(Waiter \<Rightarrow> bool) \<Rightarrow> SimFutex \<Rightarrow> (Waiter \<times> SimFutex) option" where
  "take_first P [] = None"
| "take_first P (w # ws) = (if P w then Some (w, ws) else map_option (map_prod id ((#) w)) (take_first P ws))"

definition dequeueWaiter ::
  "thread_id_t \<Rightarrow> UInt32 \<Rightarrow> SubsecondTime \<Rightarrow> SimFutex \<Rightarrow> ThreadManager \<Rightarrow> (thread_id_t \<times> SimFutex \<times> ThreadManager) res" where
  "dequeueWaiter thread_by bitset time f tm =
     (case take_first (\<lambda>w. bitset AND w_mask w \<noteq> 0) f of
        None \<Rightarrow> Inr (INVALID_THREAD_ID, f, tm)
      | Some (w, rest) \<Rightarrow>
          bindE (resumeThread (w_thread_id w) thread_by time True tm) (\<lambda>tm. Inr (w_thread_id w, rest, tm)))"

definition requeueWaiter :: "SimFutex \<Rightarrow> SimFutex \<Rightarrow> thread_id_t \<times> SimFutex \<times> SimFutex" where
  "requeueWaiter f requeue_futex =
     (case f of [] \<Rightarrow> (INVALID_THREAD_ID, [], requeue_futex) | w # rest \<Rightarrow> (w_thread_id w, rest, requeue_futex @ [w]))"

definition wakeTimedOut :: "SubsecondTime \<Rightarrow> SimFutex \<Rightarrow> ThreadManager \<Rightarrow> (SimFutex \<times> ThreadManager) res" where
  "wakeTimedOut time f tm =
     (case take_first (\<lambda>w. w_timeout w \<le> time) f of
        None \<Rightarrow> Inr (f, tm)
      | Some (w, rest) \<Rightarrow> bindE (resumeThread (w_thread_id w) INVALID_THREAD_ID time False tm) (\<lambda>tm. Inr (rest, tm)))"

definition futex_getNextTimeout :: "SimFutex \<Rightarrow> SubsecondTime" where
  "futex_getNextTimeout f = fold (\<lambda>w next. if w_timeout w < MaxTime then w_timeout w else next) f MaxTime"

section \<open>The system call server\<close>

record SyscallServer =
  m_sleeping :: "Waiter list"
  m_futexes :: "(IntPtr \<times> SimFutex) list"
  sc_reschedule_cost :: SubsecondTime

type_synonym futex_sys = "SyscallServer \<times> ThreadManager"

text \<open>What the server takes from the threads and their cores: the address translation and the instruction count.\<close>

record futex_env =
  va2pa :: "thread_id_t \<Rightarrow> IntPtr \<Rightarrow> IntPtr"
  instruction_count :: "thread_id_t \<Rightarrow> UInt64"

definition futex_at :: "SyscallServer \<Rightarrow> IntPtr \<Rightarrow> SimFutex" where
  "futex_at sc a = (case map_of (m_futexes sc) a of None \<Rightarrow> [] | Some f \<Rightarrow> f)"

fun alist_put :: "IntPtr \<Rightarrow> SimFutex \<Rightarrow> (IntPtr \<times> SimFutex) list \<Rightarrow> (IntPtr \<times> SimFutex) list" where
  "alist_put a f [] = [(a, f)]"
| "alist_put a f ((b, g) # xs) = (if a = b then (a, f) # xs else (b, g) # alist_put a f xs)"

definition put_futex :: "IntPtr \<Rightarrow> SimFutex \<Rightarrow> SyscallServer \<Rightarrow> SyscallServer" where
  "put_futex a f sc = sc\<lparr>m_futexes := alist_put a f (m_futexes sc)\<rparr>"

text \<open>The lookup inserts an empty futex when there is none.\<close>

definition findFutexByUaddr :: "futex_env \<Rightarrow> IntPtr \<Rightarrow> thread_id_t \<Rightarrow> futex_sys \<Rightarrow> (IntPtr \<times> futex_sys) res" where
  "findFutexByUaddr env uaddr thread_id = (\<lambda>(sc, tm).
     bindE (getThreadFromID tm thread_id)
     (\<lambda>_. let address = va2pa env thread_id uaddr in Inr (address, (put_futex address (futex_at sc address) sc, tm))))"

definition applyRescheduleCost :: "futex_env \<Rightarrow> thread_id_t \<Rightarrow> bool \<Rightarrow> futex_sys \<Rightarrow> SubsecondTime res" where
  "applyRescheduleCost env thread_id conditional = (\<lambda>(sc, tm).
     if \<not> conditional then Inr 0
     else bindE (getThreadFromID tm thread_id)
          (\<lambda>x. case m_core x of
             None \<Rightarrow> Inl NullPointer
           | Some _ \<Rightarrow> Inr (if instruction_count env thread_id = 0 then 0 else sc_reschedule_cost sc)))"

definition handleSleepCall :: "thread_id_t \<Rightarrow> SubsecondTime \<Rightarrow> SubsecondTime \<Rightarrow> futex_sys \<Rightarrow> futex_sys res" where
  "handleSleepCall thread_id wake_time curr_time = (\<lambda>(sc, tm).
     bindE (stallThread thread_id STALL_SLEEP curr_time tm)
     (\<lambda>(_, tm). Inr (sc\<lparr>m_sleeping := m_sleeping sc @ [mk_Waiter thread_id 0 wake_time]\<rparr>, tm)))"

definition EWOULDBLOCK :: int where "EWOULDBLOCK = 11"
definition ETIMEDOUT :: int where "ETIMEDOUT = 110"

text \<open>\<open>Some\<close> result and end time, or \<open>None\<close> when the thread waits; \<open>futexWait_result\<close> is what the call then returns.\<close>

definition futexWait ::
  "futex_env \<Rightarrow> thread_id_t \<Rightarrow> IntPtr \<Rightarrow> UInt32 \<Rightarrow> UInt32 \<Rightarrow> UInt32 \<Rightarrow> SubsecondTime \<Rightarrow> SubsecondTime \<Rightarrow> futex_sys
     \<Rightarrow> ((int \<times> SubsecondTime) option \<times> futex_sys) res" where
  "futexWait env thread_id uaddr val act_val bitset curr_time timeout_time sys =
     bindE (findFutexByUaddr env uaddr thread_id sys)
     (\<lambda>(address, (sc, tm)).
        if val \<noteq> act_val then Inr (Some (- EWOULDBLOCK, curr_time), (sc, tm))
        else bindE (enqueueWaiter thread_id bitset curr_time timeout_time (futex_at sc address) tm)
             (\<lambda>(f, tm). Inr (None, (put_futex address f sc, tm))))"

definition futexWait_result :: "ThreadManager \<Rightarrow> thread_id_t \<Rightarrow> int res" where
  "futexWait_result tm thread_id =
     bindE (getThreadFromID tm thread_id) (\<lambda>x. Inr (if m_wakeup_msg x then 0 else - ETIMEDOUT))"

definition wakeFutexOne ::
  "futex_env \<Rightarrow> IntPtr \<Rightarrow> thread_id_t \<Rightarrow> UInt32 \<Rightarrow> SubsecondTime \<Rightarrow> futex_sys \<Rightarrow> (thread_id_t \<times> futex_sys) res" where
  "wakeFutexOne env address thread_by bitset curr_time = (\<lambda>(sc, tm).
     bindE (applyRescheduleCost env thread_by True (sc, tm))
     (\<lambda>cost. bindE (dequeueWaiter thread_by bitset (curr_time + cost) (futex_at sc address) tm)
     (\<lambda>(waiter, f, tm). Inr (waiter, (put_futex address f sc, tm)))))"

text \<open>The loop that wakes up to \<open>n\<close> waiters and stops at the first failure.\<close>

fun wake_loop ::
  "(futex_sys \<Rightarrow> (thread_id_t \<times> futex_sys) res) \<Rightarrow> nat \<Rightarrow> futex_sys \<Rightarrow> (nat \<times> futex_sys) res" where
  "wake_loop wake 0 sys = Inr (0, sys)"
| "wake_loop wake (Suc n) sys =
     bindE (wake sys)
     (\<lambda>(waiter, sys). if waiter = INVALID_THREAD_ID then Inr (0, sys)
      else bindE (wake_loop wake n sys) (\<lambda>(k, sys). Inr (Suc k, sys)))"

definition futexWake ::
  "futex_env \<Rightarrow> thread_id_t \<Rightarrow> IntPtr \<Rightarrow> int \<Rightarrow> UInt32 \<Rightarrow> SubsecondTime \<Rightarrow> futex_sys \<Rightarrow> ((int \<times> SubsecondTime) \<times> futex_sys) res" where
  "futexWake env thread_id uaddr nr_wake bitset curr_time sys =
     bindE (findFutexByUaddr env uaddr thread_id sys)
     (\<lambda>(address, sys). bindE (wake_loop (wakeFutexOne env address thread_id bitset curr_time) (nat nr_wake) sys)
     (\<lambda>(k, sys). bindE (applyRescheduleCost env thread_id (k > 0) sys)
     (\<lambda>cost. Inr ((int k, curr_time + cost), sys))))"

section \<open>Operations on the futex word\<close>

definition FUTEX_BITSET_MATCH_ANY :: UInt32 where "FUTEX_BITSET_MATCH_ANY = 0xffffffff"

text \<open>The operation and the comparison that \<^verbatim>\<open>FUTEX_WAKE_OP\<close> encodes, on the old value of the word: the new value and the
  outcome of the comparison.\<close>

definition futexDoOp :: "UInt32 \<Rightarrow> UInt32 \<Rightarrow> (UInt32 \<times> bool) res" where
  "futexDoOp encoded_op oldval =
     (let op = unat (drop_bit 28 encoded_op AND 7);
          cmp = unat (drop_bit 24 encoded_op AND 15);
          oparg = signed_drop_bit 20 (push_bit 8 encoded_op);
          cmparg = signed_drop_bit 20 (push_bit 20 encoded_op);
          oparg = (if encoded_op AND push_bit 28 8 \<noteq> 0 then push_bit (unat oparg) 1 else oparg)
      in bindE (if op = 0 then Inr oparg
                else if op = 1 then Inr (oldval + oparg)
                else if op = 2 then Inr (oldval OR oparg)
                else if op = 3 then Inr (oldval AND NOT oparg)
                else if op = 4 then Inr (oldval XOR oparg)
                else Inl (AssertError ''futexWakeOp: unknown op = %d''))
         (\<lambda>newval.
            bindE (if cmp = 0 then Inr (oldval = cmparg)
                   else if cmp = 1 then Inr (oldval \<noteq> cmparg)
                   else if cmp = 2 then Inr (sint oldval < sint cmparg)
                   else if cmp = 3 then Inr (sint oldval \<le> sint cmparg)
                   else if cmp = 4 then Inr (sint oldval > sint cmparg)
                   else if cmp = 5 then Inr (sint oldval \<ge> sint cmparg)
                   else Inl (AssertError ''futexWakeOp: unknown cmp = %d''))
            (\<lambda>ret. Inr (newval, ret))))"

definition futexWakeOp ::
  "futex_env \<Rightarrow> thread_id_t \<Rightarrow> IntPtr \<Rightarrow> IntPtr \<Rightarrow> int \<Rightarrow> int \<Rightarrow> UInt32 \<Rightarrow> UInt32 \<Rightarrow> SubsecondTime \<Rightarrow> futex_sys
     \<Rightarrow> ((int \<times> SubsecondTime \<times> UInt32) \<times> futex_sys) res" where
  "futexWakeOp env thread_id uaddr uaddr2 nr_wake nr_wake2 op oldval curr_time sys =
     bindE (findFutexByUaddr env uaddr thread_id sys)
     (\<lambda>(address, sys). bindE (findFutexByUaddr env uaddr2 thread_id sys)
     (\<lambda>(address2, sys). bindE (getThreadFromID (snd sys) thread_id)
     (\<lambda>x. bindE (assertE (m_core x \<noteq> None) (AssertError ''Cannot execute futexWakeOp() for a thread that is unscheduled''))
     (\<lambda>_. bindE (futexDoOp op oldval)
     (\<lambda>(newval, op_ret).
        bindE (wake_loop (wakeFutexOne env address thread_id FUTEX_BITSET_MATCH_ANY curr_time) (nat nr_wake) sys)
        (\<lambda>(k, sys).
           bindE (if op_ret
                  then wake_loop (wakeFutexOne env address2 thread_id FUTEX_BITSET_MATCH_ANY curr_time) (nat nr_wake2) sys
                  else Inr (0, sys))
           (\<lambda>(k2, sys). bindE (applyRescheduleCost env thread_id (k + k2 > 0) sys)
           (\<lambda>cost. Inr ((int (k + k2), curr_time + cost, newval), sys)))))))))"

fun requeue_loop :: "SimFutex \<Rightarrow> SimFutex \<Rightarrow> SimFutex" where
  "requeue_loop [] target = target"
| "requeue_loop (w # ws) target = (case requeueWaiter (w # ws) target of (_, _, target) \<Rightarrow> requeue_loop ws target)"

definition futexCmpRequeue ::
  "futex_env \<Rightarrow> thread_id_t \<Rightarrow> IntPtr \<Rightarrow> int \<Rightarrow> IntPtr \<Rightarrow> UInt32 \<Rightarrow> UInt32 \<Rightarrow> SubsecondTime \<Rightarrow> futex_sys
     \<Rightarrow> ((int \<times> SubsecondTime) \<times> futex_sys) res" where
  "futexCmpRequeue env thread_id uaddr val uaddr2 val3 act_val curr_time sys =
     bindE (findFutexByUaddr env uaddr thread_id sys)
     (\<lambda>(address, sys).
        if val3 \<noteq> act_val then Inr ((- EWOULDBLOCK, curr_time), sys)
        else
          bindE (wake_loop (\<lambda>(sc, tm). bindE (dequeueWaiter thread_id FUTEX_BITSET_MATCH_ANY curr_time (futex_at sc address) tm)
                                        (\<lambda>(waiter, f, tm). Inr (waiter, (put_futex address f sc, tm)))) (nat val) sys)
          (\<lambda>(k, sys). bindE (findFutexByUaddr env uaddr2 thread_id sys)
          (\<lambda>(address2, (sc, tm)).
             Inr ((int k, curr_time),
                  (put_futex address2 (requeue_loop (futex_at sc address) (futex_at sc address2)) (put_futex address [] sc), tm)))))"

section \<open>Time-outs\<close>

primrec periodic_futexes ::
  "SubsecondTime \<Rightarrow> (IntPtr \<times> SimFutex) list \<Rightarrow> ThreadManager \<Rightarrow> ((IntPtr \<times> SimFutex) list \<times> ThreadManager) res" where
  "periodic_futexes time [] tm = Inr ([], tm)"
| "periodic_futexes time (x # xs) tm =
     bindE (wakeTimedOut time (snd x) tm)
     (\<lambda>(f, tm). bindE (periodic_futexes time xs tm) (\<lambda>(ys, tm). Inr ((fst x, f) # ys, tm)))"

definition futexPeriodic :: "SubsecondTime \<Rightarrow> futex_sys \<Rightarrow> futex_sys res" where
  "futexPeriodic time = (\<lambda>(sc, tm).
     bindE (case take_first (\<lambda>w. w_timeout w \<le> time) (m_sleeping sc) of
              None \<Rightarrow> Inr (sc, tm)
            | Some (w, rest) \<Rightarrow>
                bindE (resumeThread (w_thread_id w) (w_thread_id w) time False tm) (\<lambda>tm. Inr (sc\<lparr>m_sleeping := rest\<rparr>, tm)))
     (\<lambda>(sc, tm). bindE (periodic_futexes time (m_futexes sc) tm)
     (\<lambda>(fs, tm). Inr (sc\<lparr>m_futexes := fs\<rparr>, tm))))"

definition getNextTimeout :: "SyscallServer \<Rightarrow> SubsecondTime" where
  "getNextTimeout sc =
     fold (\<lambda>(_, f) next. if futex_getNextTimeout f < next then futex_getNextTimeout f else next) (m_futexes sc)
       (fold (\<lambda>w next. if w_timeout w < MaxTime then w_timeout w else next) (m_sleeping sc) MaxTime)"

section \<open>The system call\<close>

record futex_args_t =
  fa_uaddr :: IntPtr
  fa_op :: UInt32
  fa_val :: UInt32
  fa_timeout :: "SubsecondTime option"
  fa_val2 :: UInt32
  fa_uaddr2 :: IntPtr
  fa_val3 :: UInt32

datatype futex_result = Waits | Returns int SubsecondTime | ReturnsWord int SubsecondTime UInt32

text \<open>\<open>fa_timeout\<close> is the time-out as the call reads it from simulated memory; \<open>act_val\<close> and \<open>oldval2\<close> are the words at the
  two addresses.\<close>

definition handleFutexCall ::
  "futex_env \<Rightarrow> thread_id_t \<Rightarrow> futex_args_t \<Rightarrow> UInt32 \<Rightarrow> UInt32 \<Rightarrow> SubsecondTime \<Rightarrow> futex_sys \<Rightarrow> (futex_result \<times> futex_sys) res" where
  "handleFutexCall env thread_id args act_val oldval2 curr_time sys =
     (let cmd = (fa_op args AND NOT (128 OR 256)) AND NOT 128 in
      bindE (getThreadFromID (snd sys) thread_id)
      (\<lambda>x. bindE (assertE (m_core x \<noteq> None) (AssertError ''Core should not be NULL''))
      (\<lambda>_. bindE (assertE (cmd \<in> {0, 9, 1, 10, 5, 4}) (AssertError ''op = 0x%x''))
      (\<lambda>_. let timeout_time = (if cmd = 0 \<or> cmd = 9
                               then case fa_timeout args of
                                      None \<Rightarrow> MaxTime
                                    | Some timeout_val \<Rightarrow> if cmd = 9 then timeout_val else curr_time + timeout_val
                               else MaxTime) in
         if cmd = 0 \<or> cmd = 9
         then bindE (futexWait env thread_id (fa_uaddr args) (fa_val args) act_val
                       (if cmd = 9 then fa_val3 args else FUTEX_BITSET_MATCH_ANY) curr_time timeout_time sys)
              (\<lambda>(r, sys). Inr (case r of None \<Rightarrow> Waits | Some (res, t) \<Rightarrow> Returns res t, sys))
         else if cmd = 1 \<or> cmd = 10
         then bindE (futexWake env thread_id (fa_uaddr args) (sint (fa_val args))
                       (if cmd = 9 then fa_val3 args else FUTEX_BITSET_MATCH_ANY) curr_time sys)
              (\<lambda>((res, t), sys). Inr (Returns res t, sys))
         else if cmd = 5
         then bindE (futexWakeOp env thread_id (fa_uaddr args) (fa_uaddr2 args) (sint (fa_val args)) (sint (fa_val2 args))
                       (fa_val3 args) oldval2 curr_time sys)
              (\<lambda>((res, t, w), sys). Inr (ReturnsWord res t w, sys))
         else bindE (assertE (fa_uaddr args \<noteq> fa_uaddr2 args) (AssertError ''FUTEX_CMP_REQUEUE: uaddr == uaddr2 == %p''))
              (\<lambda>_. bindE (futexCmpRequeue env thread_id (fa_uaddr args) (sint (fa_val args)) (fa_uaddr2 args) (fa_val3 args)
                            act_val curr_time sys)
              (\<lambda>((res, t), sys). Inr (Returns res t, sys)))))))"

section \<open>Waking in order\<close>

lemma map_of_alist_put: "map_of (alist_put a f xs) = (map_of xs)(a \<mapsto> f)"
  by (induction xs) (auto simp: fun_eq_iff)

lemma futex_at_put [simp]: "futex_at (put_futex a f sc) b = (if b = a then f else futex_at sc b)"
  by (simp add: futex_at_def put_futex_def map_of_alist_put)

definition has_core :: "ThreadManager \<Rightarrow> thread_id_t \<Rightarrow> bool" where
  "has_core tm t \<longleftrightarrow> valid_thread tm t \<and> m_core (m_threads tm ! nat t) \<noteq> None"

definition woken :: "ThreadManager \<Rightarrow> thread_id_t \<Rightarrow> bool" where
  "woken tm t \<longleftrightarrow> t \<in> running_set tm \<and> m_wakeup_msg (m_threads tm ! nat t)"

lemma resume_woken:
  assumes "tm_wf tm" and v: "valid_thread tm t"
  shows "\<exists>tm'. resumeThread t by time True tm = Inr tm' \<and> tm_wf tm' \<and> valid_thread tm' = valid_thread tm \<and>
    has_core tm' = has_core tm \<and> (\<forall>u. woken tm' u \<longleftrightarrow> u = t \<or> woken tm u)"
proof -
  from resumeThread_effect [OF assms, of "by" time True] obtain tm' where res: "resumeThread t by time True tm = Inr tm'"
    and th: "m_threads tm' = (m_threads tm)[nat t := (m_threads tm ! nat t)\<lparr>m_wakeup_time := time, m_wakeup_msg := True\<rparr>]" by blast
  note s = resumeThread_sets [OF assms(1) res]
  have at: "m_threads tm' ! nat u = (if u = t then (m_threads tm ! nat t)\<lparr>m_wakeup_time := time, m_wakeup_msg := True\<rparr>
      else m_threads tm ! nat u)" if "valid_thread tm u" for u
    using that v unfolding th by (auto simp: valid_thread_def nth_list_update)
  have "has_core tm' u = has_core tm u" for u using s at [of u] by (auto simp: has_core_def split: if_splits)
  moreover have "woken tm' u \<longleftrightarrow> u = t \<or> woken tm u" for u
    using s at [of u] v by (cases "valid_thread tm u") (auto simp: woken_def running_set_def)
  ultimately show ?thesis using res s by auto
qed

lemma wakeFutexOne_head:
  assumes "tm_wf tm" and "futex_at sc a = w # ws" and "bitset AND w_mask w \<noteq> 0" and v: "valid_thread tm (w_thread_id w)"
    and c: "has_core tm t"
  shows "\<exists>tm'. wakeFutexOne env a t bitset time (sc, tm) = Inr (w_thread_id w, (put_futex a ws sc, tm')) \<and> tm_wf tm' \<and>
    valid_thread tm' = valid_thread tm \<and> has_core tm' = has_core tm \<and> (\<forall>u. woken tm' u \<longleftrightarrow> u = w_thread_id w \<or> woken tm u)"
proof -
  obtain cost where cost: "applyRescheduleCost env t True (sc, tm) = Inr cost"
    using c by (auto simp: applyRescheduleCost_def getThreadFromID_def has_core_def)
  from resume_woken [OF assms(1) v, of t "time + cost"] obtain tm' where
    "resumeThread (w_thread_id w) t (time + cost) True tm = Inr tm'" "tm_wf tm'" "valid_thread tm' = valid_thread tm"
    "has_core tm' = has_core tm" "\<forall>u. woken tm' u \<longleftrightarrow> u = w_thread_id w \<or> woken tm u" by blast
  then show ?thesis using assms(2,3) cost by (simp add: wakeFutexOne_def dequeueWaiter_def)
qed

lemma wakeFutexOne_empty:
  assumes "futex_at sc a = []" and "has_core tm t"
  shows "wakeFutexOne env a t bitset time (sc, tm) = Inr (INVALID_THREAD_ID, (put_futex a [] sc, tm))"
  using assms by (auto simp: wakeFutexOne_def dequeueWaiter_def applyRescheduleCost_def getThreadFromID_def has_core_def)

lemma wake_loop_in_order:
  assumes "tm_wf tm" and "\<forall>w\<in>set (futex_at sc a). valid_thread tm (w_thread_id w) \<and> bitset AND w_mask w \<noteq> 0" and "has_core tm t"
  shows "\<exists>sc' tm'. wake_loop (wakeFutexOne env a t bitset time) n (sc, tm) = Inr (min n (length (futex_at sc a)), (sc', tm')) \<and>
    (\<forall>b. futex_at sc' b = (if b = a then drop n (futex_at sc a) else futex_at sc b)) \<and> has_core tm' t \<and>
    (\<forall>u. woken tm' u \<longleftrightarrow> u \<in> w_thread_id ` set (take n (futex_at sc a)) \<or> woken tm u)"
  using assms
proof (induction n arbitrary: sc tm)
  case (Suc n)
  show ?case
  proof (cases "futex_at sc a")
    case Nil
    then show ?thesis using wakeFutexOne_empty [OF Nil Suc.prems(3)] Suc.prems(3) by simp
  next
    case (Cons w ws)
    obtain tm1 where one: "wakeFutexOne env a t bitset time (sc, tm) = Inr (w_thread_id w, (put_futex a ws sc, tm1))"
      and wf: "tm_wf tm1" and same: "valid_thread tm1 = valid_thread tm" "has_core tm1 = has_core tm"
      and wk: "\<forall>u. woken tm1 u \<longleftrightarrow> u = w_thread_id w \<or> woken tm u"
      using wakeFutexOne_head [OF Suc.prems(1) Cons, of bitset t env time] Suc.prems(2,3) Cons by auto
    have "w_thread_id w \<noteq> INVALID_THREAD_ID"
      using Suc.prems(2) Cons by (auto simp: valid_thread_def INVALID_THREAD_ID_def)
    moreover obtain sc' tm' where "wake_loop (wakeFutexOne env a t bitset time) n (put_futex a ws sc, tm1) =
        Inr (min n (length ws), (sc', tm'))" "\<forall>b. futex_at sc' b = (if b = a then drop n ws else futex_at sc b)"
        "has_core tm' t" "\<forall>u. woken tm' u \<longleftrightarrow> u \<in> w_thread_id ` set (take n ws) \<or> woken tm1 u"
      using Suc.IH [of tm1 "put_futex a ws sc"] wf same Suc.prems(2,3) Cons by auto
    ultimately show ?thesis using one wk Cons by auto
  qed
qed (simp add: has_core_def)

text \<open>
  A futex wakes its waiters in order: when the bitset matches every waiter, \<^verbatim>\<open>futexWake\<close> succeeds, wakes the first
  \<open>nr_wake\<close> waiters, or all if there are fewer, and returns their number; each of them runs again and its own call returns
  0 and not a time-out; the others wait on in the same order, and no other futex changes.
\<close>

theorem futexWake_in_order:
  assumes "tm_wf tm" and "has_core tm t" and "0 \<le> nr"
    and "\<forall>w\<in>set (futex_at sc (va2pa env t uaddr)). valid_thread tm (w_thread_id w) \<and> bitset AND w_mask w \<noteq> 0"
  shows "\<exists>end_time sc' tm'. futexWake env t uaddr nr bitset time (sc, tm) =
      Inr ((min nr (int (length (futex_at sc (va2pa env t uaddr)))), end_time), (sc', tm')) \<and>
    (\<forall>w\<in>set (take (nat nr) (futex_at sc (va2pa env t uaddr))).
       w_thread_id w \<in> running_set tm' \<and> futexWait_result tm' (w_thread_id w) = Inr 0) \<and>
    futex_at sc' (va2pa env t uaddr) = drop (nat nr) (futex_at sc (va2pa env t uaddr)) \<and>
    (\<forall>b. b \<noteq> va2pa env t uaddr \<longrightarrow> futex_at sc' b = futex_at sc b)"
proof -
  let ?a = "va2pa env t uaddr" let ?f = "futex_at sc ?a"
  have find: "findFutexByUaddr env uaddr t (sc, tm) = Inr (?a, (put_futex ?a ?f sc, tm))"
    using assms(2) by (simp add: findFutexByUaddr_def getThreadFromID_def has_core_def Let_def)
  from wake_loop_in_order [OF assms(1) _ assms(2), of "put_futex ?a ?f sc" ?a bitset env time "nat nr"] assms(4)
  obtain sc' tm' where loop: "wake_loop (wakeFutexOne env ?a t bitset time) (nat nr) (put_futex ?a ?f sc, tm) =
      Inr (min (nat nr) (length ?f), (sc', tm'))"
    and fs: "\<forall>b. futex_at sc' b = (if b = ?a then drop (nat nr) ?f else futex_at sc b)"
    and hc: "has_core tm' t" and wk: "\<forall>u. woken tm' u \<longleftrightarrow> u \<in> w_thread_id ` set (take (nat nr) ?f) \<or> woken tm u"
    by auto
  obtain cost where cost: "applyRescheduleCost env t (min (nat nr) (length ?f) > 0) (sc', tm') = Inr cost"
    using hc by (cases "min (nat nr) (length ?f) > 0") (auto simp: applyRescheduleCost_def getThreadFromID_def has_core_def)
  have "int (min (nat nr) (length ?f)) = min nr (int (length ?f))" using assms(3) by simp
  then have "futexWake env t uaddr nr bitset time (sc, tm) = Inr ((min nr (int (length ?f)), time + cost), (sc', tm'))"
    using find loop cost unfolding futexWake_def by simp
  moreover have "w_thread_id w \<in> running_set tm' \<and> futexWait_result tm' (w_thread_id w) = Inr 0" if "w \<in> set (take (nat nr) ?f)" for w
  proof -
    have "woken tm' (w_thread_id w)" using wk that by blast
    then show ?thesis by (simp add: woken_def futexWait_result_def getThreadFromID_def running_set_def)
  qed
  ultimately show ?thesis using fs by auto
qed

definition demo_futex_tm :: ThreadManager where
  "demo_futex_tm = demo_tm\<lparr>m_threads := replicate 2 \<lparr>m_wakeup_time = 0, m_wakeup_msg = False, m_core = Some 0\<rparr>\<rparr>"

definition demo_env :: futex_env where
  "demo_env = \<lparr>va2pa = (\<lambda>_ a. a), instruction_count = (\<lambda>_. 100)\<rparr>"

definition demo_sc :: SyscallServer where
  "demo_sc = \<lparr>m_sleeping = [], m_futexes = [(0x80, [mk_Waiter 1 1 MaxTime])], sc_reschedule_cost = 3\<rparr>"

theorem futexWake_in_order_witness:
  "\<exists>end_time sc' tm'. futexWake demo_env 0 0x80 5 1 10 (demo_sc, demo_futex_tm) = Inr ((1, end_time), (sc', tm')) \<and>
     1 \<in> running_set tm' \<and> futex_at sc' 0x80 = []"
proof -
  have f: "futex_at demo_sc (va2pa demo_env 0 0x80) = [mk_Waiter 1 1 MaxTime]" by (simp add: demo_sc_def demo_env_def futex_at_def)
  have "tm_wf demo_futex_tm" "has_core demo_futex_tm 0" "valid_thread demo_futex_tm 1"
    by (simp_all add: demo_futex_tm_def demo_tm_def tm_wf_def has_core_def valid_thread_def)
  then show ?thesis
    using futexWake_in_order [of demo_futex_tm 0 5 demo_sc demo_env "0x80" 1 10] f by (auto simp: mk_Waiter_def demo_env_def)
qed

text \<open>
  The bitset of a wake-up call is ignored: a call of \<^verbatim>\<open>FUTEX_WAKE_BITSET\<close> (operation 10) with bitset 2 wakes a
  waiter that waits with bitset 1, although the two have no bit in common; the guard asks for the operation
  \<^verbatim>\<open>FUTEX_WAIT_BITSET\<close>, which never gets there.
\<close>

theorem futex_wake_bitset_ignored:
  "map_sum id fst (handleFutexCall demo_env 0
     \<lparr>fa_uaddr = 0x80, fa_op = 10, fa_val = 1, fa_timeout = None, fa_val2 = 0, fa_uaddr2 = 0, fa_val3 = 2\<rparr> 0 0 10 (demo_sc, demo_futex_tm)) =
   Inr (Returns 1 13)"
  by code_simp

text \<open>The next time-out of a futex is that of its last waiter with one, and not the earliest.\<close>

lemma next_timeout_not_earliest: "futex_getNextTimeout [mk_Waiter 0 1 5, mk_Waiter 1 1 9] = 9"
  by code_simp

end
