(* ===== verification/LS_Skew_Barrier.thy ===== *)
theory LS_Skew_Barrier
  imports LS_Threads
begin

text \<open>
  Clock-skew minimisation: the barrier of \<^verbatim>\<open>common/system/barrier_sync_server.cc\<close> that keeps the clocks of the cores within
  one quantum of each other. The calls to the performance models and the signals to the threads that wait are a log. The
  handlers of \<^verbatim>\<open>HOOK_PERIODIC\<close> and the shuffle of the cores to release are arguments.
\<close>

section \<open>State\<close>

datatype barrier_event = barrierEnter nat | barrierExit nat | signal_core nat

record BarrierSyncServer =
  m_local_clock_list :: "SubsecondTime list"
  m_barrier_acquire_list :: "bool list"
  m_core_group :: "core_id_t list"
  m_core_thread :: "thread_id_t list"
  m_to_release :: "nat list"
  m_global_time :: SubsecondTime
  m_next_barrier_time :: SubsecondTime
  m_barrier_interval :: SubsecondTime
  m_fastforward :: bool
  m_disable :: bool
  bs_events :: "barrier_event list"

type_synonym barrier_sys = "BarrierSyncServer \<times> ThreadManager"

definition mk_BarrierSyncServer :: "nat \<Rightarrow> UInt64 \<Rightarrow> BarrierSyncServer" where
  "mk_BarrierSyncServer cores quantum =
     \<lparr>m_local_clock_list = replicate cores 0, m_barrier_acquire_list = replicate cores False,
      m_core_group = replicate cores INVALID_CORE_ID, m_core_thread = replicate cores INVALID_THREAD_ID, m_to_release = [],
      m_global_time = 0, m_next_barrier_time = NS quantum, m_barrier_interval = NS quantum, m_fastforward = False,
      m_disable = False, bs_events = []\<rparr>"

abbreviation num_cores :: "BarrierSyncServer \<Rightarrow> nat" where
  "num_cores bs \<equiv> length (m_local_clock_list bs)"

definition bs_event :: "barrier_event \<Rightarrow> BarrierSyncServer \<Rightarrow> BarrierSyncServer" where
  "bs_event e bs = bs\<lparr>bs_events := bs_events bs @ [e]\<rparr>"

section \<open>Release\<close>

text \<open>\<^verbatim>\<open>doRelease(n)\<close>; \<open>None\<close> stands for \<open>-1\<close>, which releases all.\<close>

fun release_list :: "nat option \<Rightarrow> nat list \<Rightarrow> nat list \<times> nat list" where
  "release_list n [] = ([], [])"
| "release_list (Some 0) xs = ([], xs)"
| "release_list n (x # xs) =
     (let (out, rest) = release_list (map_option (\<lambda>k. k - 1) n) xs in (x # out, rest))"

definition doRelease :: "nat option \<Rightarrow> BarrierSyncServer \<Rightarrow> BarrierSyncServer" where
  "doRelease n bs =
     (let (out, rest) = release_list n (rev (m_to_release bs))
      in bs\<lparr>m_to_release := rev rest, bs_events := bs_events bs @ map signal_core out\<rparr>)"

definition releaseThread :: "thread_id_t \<Rightarrow> BarrierSyncServer \<Rightarrow> BarrierSyncServer" where
  "releaseThread thread_id bs =
     doRelease (Some 1)
       (bs\<lparr>m_local_clock_list :=
          map (\<lambda>c. if m_barrier_acquire_list bs ! c \<and> m_core_thread bs ! c = thread_id then 0 else m_local_clock_list bs ! c)
            [0..<num_cores bs]\<rparr>)"

text \<open>\<^verbatim>\<open>threadMigrate\<close> leaves the signal to a later event.\<close>

definition threadMigrate :: "thread_id_t \<Rightarrow> BarrierSyncServer \<Rightarrow> BarrierSyncServer" where
  "threadMigrate thread_id bs = releaseThread thread_id bs"

section \<open>Is the barrier reached?\<close>

definition core_runs :: "ThreadManager \<Rightarrow> nat \<Rightarrow> bool res" where
  "core_runs tm c =
     (if core_state tm (int c) = RUNNING
      then case core_thread tm (int c) of
             None \<Rightarrow> Inl (AssertError ''Core (%d) is running but has no thread'')
           | Some t \<Rightarrow> isThreadRunning tm t
      else Inr False)"

fun any_res :: "(nat \<Rightarrow> bool res) \<Rightarrow> nat list \<Rightarrow> bool res" where
  "any_res P [] = Inr False"
| "any_res P (x # xs) = bindE (P x) (\<lambda>b. if b then Inr True else any_res P xs)"

definition isCoreRunning :: "barrier_sys \<Rightarrow> nat \<Rightarrow> bool res" where
  "isCoreRunning = (\<lambda>(bs, tm) c.
     bindE (core_runs tm c)
     (\<lambda>b. if b then Inr True
          else if \<not> m_fastforward bs
          then any_res (core_runs tm) (filter (\<lambda>s. m_core_group bs ! s = int c) [0..<num_cores bs])
          else Inr False))"

fun barrier_reached :: "barrier_sys \<Rightarrow> bool \<Rightarrow> nat list \<Rightarrow> bool res" where
  "barrier_reached sys single [] = Inr single"
| "barrier_reached sys single (c # cs) =
     (let bs = fst sys in
      if m_fastforward bs
      then if m_barrier_acquire_list bs ! c then barrier_reached sys True cs
           else bindE (isCoreRunning sys c) (\<lambda>b. if b then Inr False else barrier_reached sys single cs)
      else if m_core_group bs ! c \<noteq> INVALID_CORE_ID then barrier_reached sys single cs
      else bindE (isCoreRunning sys c)
           (\<lambda>b. if b
                then if m_local_clock_list bs ! c < m_next_barrier_time bs then Inr False else barrier_reached sys True cs
                else barrier_reached sys single cs))"

definition isBarrierReached :: "barrier_sys \<Rightarrow> bool res" where
  "isBarrierReached sys = barrier_reached sys False [0..<num_cores (fst sys)]"

section \<open>The release of the barrier\<close>

text \<open>One pass over the cores: those behind the new barrier time leave the barrier.\<close>

definition release_core :: "thread_id_t \<Rightarrow> nat \<Rightarrow> BarrierSyncServer \<times> bool \<times> bool \<Rightarrow> BarrierSyncServer \<times> bool \<times> bool" where
  "release_core caller_id c = (\<lambda>(bs, core_resumed, must_wait).
     if m_local_clock_list bs ! c < m_next_barrier_time bs \<and> m_barrier_acquire_list bs ! c
     then let bs = bs\<lparr>m_barrier_acquire_list := (m_barrier_acquire_list bs)[c := False]\<rparr> in
          if m_core_thread bs ! c = caller_id then (bs, True, False)
          else (bs_event (barrierExit c) (bs\<lparr>m_to_release := m_to_release bs @ [c]\<rparr>), True, must_wait)
     else (bs, core_resumed, must_wait))"

definition release_pass :: "thread_id_t \<Rightarrow> BarrierSyncServer \<Rightarrow> bool \<Rightarrow> BarrierSyncServer \<times> bool \<times> bool" where
  "release_pass caller_id bs must_wait = fold (release_core caller_id) [0..<num_cores bs] (bs, False, must_wait)"

text \<open>\<open>next_timeout\<close> is what \<^verbatim>\<open>SyscallServer::getNextTimeout\<close> returns. The result is the value of \<^verbatim>\<open>must_wait\<close>, and whether
  the method returns from inside the loop.\<close>

partial_function (option) release_loop ::
  "(SubsecondTime \<Rightarrow> barrier_sys \<Rightarrow> barrier_sys) \<Rightarrow> (SubsecondTime \<Rightarrow> SubsecondTime) \<Rightarrow> thread_id_t \<Rightarrow> bool \<Rightarrow> bool \<Rightarrow> barrier_sys
     \<Rightarrow> ((bool \<times> bool \<times> barrier_sys) res) option" where
  "release_loop periodic next_timeout caller_id continue_until_release must_wait sys =
     (let bs = (fst sys)\<lparr>m_global_time := m_next_barrier_time (fst sys)\<rparr>;
          sys = periodic (m_next_barrier_time bs) (bs, snd sys);
          bs = fst sys; tm = snd sys
      in if continue_until_release \<and> anyThreadRunning tm then Some (Inr (False, True, sys))
         else if continue_until_release \<and> \<not> next_timeout (m_global_time bs) < MaxTime
         then Some (Inl (AssertError ''No threads running, no timeout. Application has deadlocked...''))
         else if m_disable bs then Some (Inr (False, True, sys))
         else let bs = bs\<lparr>m_next_barrier_time := m_next_barrier_time bs + m_barrier_interval bs\<rparr>;
                  (bs, core_resumed, must_wait) = release_pass caller_id bs must_wait
              in if core_resumed then Some (Inr (must_wait, False, (bs, tm)))
                 else release_loop periodic next_timeout caller_id continue_until_release must_wait (bs, tm))"

definition skip_timeslots :: "BarrierSyncServer \<Rightarrow> BarrierSyncServer" where
  "skip_timeslots bs =
     (if m_fastforward bs
      then bs\<lparr>m_next_barrier_time := fold (\<lambda>t next. if t > next then t else next) (m_local_clock_list bs) (m_next_barrier_time bs)\<rparr>
      else bs)"

definition barrierRelease ::
  "(SubsecondTime \<Rightarrow> barrier_sys \<Rightarrow> barrier_sys) \<Rightarrow> (SubsecondTime \<Rightarrow> SubsecondTime) \<Rightarrow> (nat list \<Rightarrow> nat list) \<Rightarrow> nat
     \<Rightarrow> thread_id_t \<Rightarrow> bool \<Rightarrow> barrier_sys \<Rightarrow> (bool \<times> barrier_sys) res" where
  "barrierRelease periodic next_timeout shuffle host_cores caller_id continue_until_release sys =
     bindE (assertE (m_to_release (fst sys) = []) (AssertError ''Reached the barrier while some threads haven't even restarted?''))
     (\<lambda>_. case release_loop periodic next_timeout caller_id continue_until_release True (skip_timeslots (fst sys), snd sys) of
        None \<Rightarrow> Inl NonTermination
      | Some (Inl e) \<Rightarrow> Inl e
      | Some (Inr (must_wait, returned, (bs, tm))) \<Rightarrow>
          if returned then Inr (must_wait, (bs, tm))
          else Inr (must_wait, (doRelease (if m_fastforward bs then None else Some host_cores)
                                  (bs\<lparr>m_to_release := shuffle (m_to_release bs)\<rparr>), tm)))"

definition bs_signal ::
  "(SubsecondTime \<Rightarrow> barrier_sys \<Rightarrow> barrier_sys) \<Rightarrow> (SubsecondTime \<Rightarrow> SubsecondTime) \<Rightarrow> (nat list \<Rightarrow> nat list) \<Rightarrow> nat
     \<Rightarrow> barrier_sys \<Rightarrow> barrier_sys res" where
  "bs_signal periodic next_timeout shuffle host_cores sys =
     (if m_disable (fst sys) then Inr sys
      else bindE (isBarrierReached sys)
           (\<lambda>b. if b then map_sum id snd (barrierRelease periodic next_timeout shuffle host_cores INVALID_THREAD_ID False sys)
                else Inr sys))"

text \<open>\<^verbatim>\<open>threadExit\<close> and \<^verbatim>\<open>threadStall\<close>.\<close>

definition threadStall ::
  "(SubsecondTime \<Rightarrow> barrier_sys \<Rightarrow> barrier_sys) \<Rightarrow> (SubsecondTime \<Rightarrow> SubsecondTime) \<Rightarrow> (nat list \<Rightarrow> nat list) \<Rightarrow> nat
     \<Rightarrow> thread_id_t \<Rightarrow> barrier_sys \<Rightarrow> barrier_sys res" where
  "threadStall periodic next_timeout shuffle host_cores thread_id sys =
     bs_signal periodic next_timeout shuffle host_cores (releaseThread thread_id (fst sys), snd sys)"

text \<open>The first component of the result tells whether the calling thread waits on the condition variable of its core.\<close>

definition synchronize ::
  "(SubsecondTime \<Rightarrow> barrier_sys \<Rightarrow> barrier_sys) \<Rightarrow> (SubsecondTime \<Rightarrow> SubsecondTime) \<Rightarrow> (nat list \<Rightarrow> nat list) \<Rightarrow> nat
     \<Rightarrow> nat \<Rightarrow> SubsecondTime \<Rightarrow> barrier_sys \<Rightarrow> (bool \<times> barrier_sys) res" where
  "synchronize periodic next_timeout shuffle host_cores core_id time = (\<lambda>(bs, tm).
     if m_disable bs then Inr (False, (bs, tm))
     else if num_cores bs \<le> core_id then Inl OutOfRange
     else
       let master = (if m_fastforward bs then core_id
                     else if m_core_group bs ! core_id = INVALID_CORE_ID then core_id else nat (m_core_group bs ! core_id)) in
       case core_thread tm (int core_id) of
         None \<Rightarrow> Inl NullPointer
       | Some thread_me \<Rightarrow>
           bindE (assertE (core_state tm (int core_id) = RUNNING \<or> core_state tm (int core_id) = INITIALIZING)
                    (AssertError ''Core(%i) is not running or initializing at time(%s)''))
           (\<lambda>_. bindE (assertE (\<not> m_barrier_acquire_list bs ! master)
                    (AssertError ''Core(%i) or its sibling is already in the barrier (this is thread %d, we have thread %d)''))
           (\<lambda>_. if time < m_next_barrier_time bs \<and> \<not> m_fastforward bs then Inr (False, (bs, tm))
            else
              let bs = bs_event (barrierEnter core_id) (doRelease (Some 1) bs);
                  bs = bs\<lparr>m_local_clock_list := (m_local_clock_list bs)[master := time],
                          m_barrier_acquire_list := (m_barrier_acquire_list bs)[master := True],
                          m_core_thread := (m_core_thread bs)[master := thread_me]\<rparr>
              in bindE (isBarrierReached (bs, tm))
                 (\<lambda>reached. bindE (if reached then barrierRelease periodic next_timeout shuffle host_cores thread_me False (bs, tm)
                                   else Inr (True, (bs, tm)))
                 (\<lambda>(must_wait, (bs, tm)).
                    if must_wait then Inr (True, (bs, tm)) else Inr (False, (bs_event (barrierExit core_id) bs, tm)))))))"

definition bs_advance ::
  "(SubsecondTime \<Rightarrow> barrier_sys \<Rightarrow> barrier_sys) \<Rightarrow> (SubsecondTime \<Rightarrow> SubsecondTime) \<Rightarrow> (nat list \<Rightarrow> nat list) \<Rightarrow> nat
     \<Rightarrow> barrier_sys \<Rightarrow> barrier_sys res" where
  "bs_advance periodic next_timeout shuffle host_cores sys =
     map_sum id snd (barrierRelease periodic next_timeout shuffle host_cores INVALID_THREAD_ID True sys)"

section \<open>Settings\<close>

definition abortBarrier :: "BarrierSyncServer \<Rightarrow> BarrierSyncServer" where
  "abortBarrier bs =
     (let waiting = filter (\<lambda>c. m_barrier_acquire_list bs ! c) [0..<num_cores bs]
      in bs\<lparr>m_barrier_acquire_list := replicate (length (m_barrier_acquire_list bs)) False,
            bs_events := bs_events bs @ concat (map (\<lambda>c. [barrierExit c, signal_core c]) waiting)\<rparr>)"

definition setDisable :: "bool \<Rightarrow> BarrierSyncServer \<Rightarrow> BarrierSyncServer" where
  "setDisable disable bs = (let bs = bs\<lparr>m_disable := disable\<rparr> in if disable then abortBarrier bs else bs)"

definition setGroup :: "nat \<Rightarrow> core_id_t \<Rightarrow> BarrierSyncServer \<Rightarrow> BarrierSyncServer res" where
  "setGroup core_id master_core_id bs =
     (if core_id < num_cores bs
      then bindE (if master_core_id \<noteq> INVALID_CORE_ID
                  then assertE (\<not> m_barrier_acquire_list bs ! core_id)
                         (AssertError ''Core(%d) is in the barrier, cannot set participate to false'')
                  else Inr ())
           (\<lambda>_. Inr (bs\<lparr>m_core_group := (m_core_group bs)[core_id := master_core_id]\<rparr>))
      else Inl OutOfRange)"

definition setFastForward :: "bool \<Rightarrow> SubsecondTime \<Rightarrow> BarrierSyncServer \<Rightarrow> BarrierSyncServer" where
  "setFastForward fastforward next_barrier_time bs =
     (let bs = bs\<lparr>m_fastforward := fastforward\<rparr>
      in if next_barrier_time \<noteq> MaxTime then bs\<lparr>m_next_barrier_time := max (m_next_barrier_time bs) next_barrier_time\<rparr> else bs)"

section \<open>The barrier makes progress\<close>

text \<open>A core leaves the barrier when its clock is behind the barrier time.\<close>

abbreviation leaves :: "BarrierSyncServer \<Rightarrow> nat \<Rightarrow> bool" where
  "leaves bs c \<equiv> m_barrier_acquire_list bs ! c \<and> m_local_clock_list bs ! c < m_next_barrier_time bs"

definition bs_wf :: "BarrierSyncServer \<Rightarrow> bool" where
  "bs_wf bs \<longleftrightarrow> length (m_barrier_acquire_list bs) = num_cores bs"

text \<open>What a pass leaves alone.\<close>

definition same_clock :: "BarrierSyncServer \<Rightarrow> BarrierSyncServer \<Rightarrow> bool" where
  "same_clock bs bs' \<longleftrightarrow> m_local_clock_list bs' = m_local_clock_list bs \<and> m_next_barrier_time bs' = m_next_barrier_time bs \<and>
     m_barrier_interval bs' = m_barrier_interval bs \<and> m_fastforward bs' = m_fastforward bs \<and> m_disable bs' = m_disable bs \<and>
     length (m_barrier_acquire_list bs') = length (m_barrier_acquire_list bs)"

lemma same_clock_trans: "same_clock a b \<Longrightarrow> same_clock b c \<Longrightarrow> same_clock a c"
  by (simp add: same_clock_def)

lemma release_core_leaves:
  assumes "leaves bs c"
  shows "\<exists>bs' mw'. release_core caller c (bs, r, mw) = (bs', True, mw') \<and> same_clock bs bs' \<and>
    m_barrier_acquire_list bs' = (m_barrier_acquire_list bs)[c := False]"
  using assms by (cases "m_core_thread bs ! c = caller") (auto simp: release_core_def Let_def same_clock_def bs_event_def)

lemma release_core_stays: "\<not> leaves bs c \<Longrightarrow> release_core caller c (bs, r, mw) = (bs, r, mw)"
  by (auto simp: release_core_def)

lemma release_fold:
  assumes "bs_wf bs" and "k \<le> num_cores bs"
  shows "\<exists>bs' mw'. fold (release_core caller) [0..<k] (bs, False, mw) = (bs', (\<exists>c<k. leaves bs c), mw') \<and> same_clock bs bs' \<and>
    (\<forall>c. m_barrier_acquire_list bs' ! c = (if c < k \<and> leaves bs c then False else m_barrier_acquire_list bs ! c))"
  using assms(2)
proof (induction k)
  case 0
  then show ?case by (auto simp: same_clock_def)
next
  case (Suc k)
  then obtain bs' mw' where f: "fold (release_core caller) [0..<k] (bs, False, mw) = (bs', (\<exists>c<k. leaves bs c), mw')"
    and s: "same_clock bs bs'"
    and a: "\<forall>c. m_barrier_acquire_list bs' ! c = (if c < k \<and> leaves bs c then False else m_barrier_acquire_list bs ! c)" by auto
  have len: "k < length (m_barrier_acquire_list bs')" using s assms(1) Suc.prems by (simp add: same_clock_def bs_wf_def)
  have ak: "m_barrier_acquire_list bs' ! k = m_barrier_acquire_list bs ! k" using a by simp
  show ?case
  proof (cases "leaves bs k")
    case True
    then have lk: "leaves bs' k" using ak s by (simp add: same_clock_def)
    have upd: "((m_barrier_acquire_list bs')[k := False]) ! c = (if c < Suc k \<and> leaves bs c then False else m_barrier_acquire_list bs ! c)" for c
      using a len True by (cases "c = k") (auto simp: less_Suc_eq)
    have ex: "\<exists>c<Suc k. leaves bs c" using True by blast
    obtain bs2 mw2 where step: "release_core caller k (bs', (\<exists>c<k. leaves bs c), mw') = (bs2, True, mw2)"
      and s2: "same_clock bs' bs2" and a2: "m_barrier_acquire_list bs2 = (m_barrier_acquire_list bs')[k := False]"
      using release_core_leaves [OF lk] by blast
    have "fold (release_core caller) [0..<Suc k] (bs, False, mw) = (bs2, (\<exists>c<Suc k. leaves bs c), mw2)"
      using f step ex by (simp del: ex_simps)
    moreover have "\<forall>c. m_barrier_acquire_list bs2 ! c = (if c < Suc k \<and> leaves bs c then False else m_barrier_acquire_list bs ! c)"
      using upd unfolding a2 by (rule allI)
    ultimately show ?thesis using same_clock_trans [OF s s2] by (intro exI [of _ bs2] exI [of _ mw2] conjI)
  next
    case False
    then have "\<not> leaves bs' k" using ak s by (simp add: same_clock_def)
    moreover have "(\<exists>c<Suc k. leaves bs c) = (\<exists>c<k. leaves bs c)" using False by (auto simp: less_Suc_eq)
    moreover have "(if c < Suc k \<and> leaves bs c then False else m_barrier_acquire_list bs ! c) =
        (if c < k \<and> leaves bs c then False else m_barrier_acquire_list bs ! c)" for c
      using False by (auto simp: less_Suc_eq)
    ultimately show ?thesis using f s a by (simp add: release_core_stays)
  qed
qed

lemma release_pass_spec:
  assumes "bs_wf bs"
  obtains bs' mw' where "release_pass caller bs mw = (bs', (\<exists>c<num_cores bs. leaves bs c), mw')" "same_clock bs bs'"
    "\<forall>c<num_cores bs. m_barrier_acquire_list bs' ! c \<longleftrightarrow>
       m_barrier_acquire_list bs ! c \<and> \<not> m_local_clock_list bs ! c < m_next_barrier_time bs"
proof -
  obtain bs' mw' where p: "release_pass caller bs mw = (bs', (\<exists>c<num_cores bs. leaves bs c), mw')" and s: "same_clock bs bs'"
    and a: "\<forall>c. m_barrier_acquire_list bs' ! c = (if c < num_cores bs \<and> leaves bs c then False else m_barrier_acquire_list bs ! c)"
    using release_fold [OF assms order_refl, of caller mw] unfolding release_pass_def by blast
  have "\<forall>c<num_cores bs. m_barrier_acquire_list bs' ! c \<longleftrightarrow>
       m_barrier_acquire_list bs ! c \<and> \<not> m_local_clock_list bs ! c < m_next_barrier_time bs"
    by (simp add: a) blast
  with p s show thesis by (rule that)
qed

lemma release_pass_stays:
  assumes "\<forall>c<num_cores bs. \<not> leaves bs c"
  shows "release_pass caller bs mw = (bs, False, mw)"
proof -
  have "fold (release_core caller) [0..<k] (bs, False, mw) = (bs, False, mw)" if "k \<le> num_cores bs" for k
    using that assms by (induction k) (auto simp: release_core_stays)
  then show ?thesis by (simp add: release_pass_def)
qed

subsection \<open>What the handlers of the periodic hook do\<close>

text \<open>
  A handler may change the threads in every way. At the barrier it uses the interface: the dynamic scheduler migrates
  threads, the sampling and the fast-forward manager set the mode and the barrier time (to at most \<open>lim\<close>), the end of the
  region of interest disables the barrier. Enabling the barrier again from inside the hook is not among the steps.
\<close>

inductive handler_step :: "SubsecondTime \<Rightarrow> BarrierSyncServer \<Rightarrow> BarrierSyncServer \<Rightarrow> bool" for lim where
  Migrate: "handler_step lim bs (threadMigrate thread_id bs)"
| Group: "setGroup core_id master_core_id bs = Inr bs' \<Longrightarrow> handler_step lim bs bs'"
| FastForward: "t = MaxTime \<or> t \<le> lim \<Longrightarrow> handler_step lim bs (setFastForward fastforward t bs)"
| Disable: "handler_step lim bs (setDisable True bs)"

definition uses_interface :: "SubsecondTime \<Rightarrow> (SubsecondTime \<Rightarrow> barrier_sys \<Rightarrow> barrier_sys) \<Rightarrow> bool" where
  "uses_interface lim periodic \<longleftrightarrow> (\<forall>t bs tm. (handler_step lim)\<^sup>*\<^sup>* bs (fst (periodic t (bs, tm))))"

text \<open>Their effect: the barrier time may grow, clocks may be set to zero, and the cores wait as before unless the barrier has
  been disabled, and then none waits.\<close>

definition handled :: "SubsecondTime \<Rightarrow> BarrierSyncServer \<Rightarrow> BarrierSyncServer \<Rightarrow> bool" where
  "handled lim bs bs' \<longleftrightarrow> num_cores bs' = num_cores bs \<and> length (m_barrier_acquire_list bs') = length (m_barrier_acquire_list bs) \<and>
     m_barrier_interval bs' = m_barrier_interval bs \<and> m_next_barrier_time bs \<le> m_next_barrier_time bs' \<and>
     (m_next_barrier_time bs \<le> lim \<longrightarrow> m_next_barrier_time bs' \<le> lim) \<and>
     (\<forall>c<num_cores bs. m_local_clock_list bs' ! c = m_local_clock_list bs ! c \<or> m_local_clock_list bs' ! c = 0) \<and>
     (m_disable bs \<longrightarrow> m_disable bs') \<and>
     (m_barrier_acquire_list bs' = m_barrier_acquire_list bs \<or> m_disable bs' \<and> True \<notin> set (m_barrier_acquire_list bs')) \<and>
     (m_disable bs' \<longrightarrow> m_disable bs \<or> True \<notin> set (m_barrier_acquire_list bs'))"

lemma doRelease_simps [simp]:
  "m_next_barrier_time (doRelease n bs) = m_next_barrier_time bs" "m_barrier_acquire_list (doRelease n bs) = m_barrier_acquire_list bs"
  "m_local_clock_list (doRelease n bs) = m_local_clock_list bs" "m_barrier_interval (doRelease n bs) = m_barrier_interval bs"
  "m_disable (doRelease n bs) = m_disable bs"
  by (simp_all add: doRelease_def case_prod_beta Let_def)

lemma handler_step_handled: "handler_step lim bs bs' \<Longrightarrow> handled lim bs bs'"
proof (induction rule: handler_step.induct)
  case (Migrate bs thread_id)
  then show ?case by (simp add: handled_def threadMigrate_def releaseThread_def)
next
  case (Group core_id master_core_id bs bs')
  then show ?case by (auto simp: handled_def setGroup_def bindE_Inr_iff split: if_splits)
next
  case (FastForward t bs fastforward)
  then show ?case by (auto simp: handled_def setFastForward_def Let_def)
next
  case (Disable bs)
  then show ?case by (simp add: handled_def setDisable_def abortBarrier_def Let_def)
qed

lemma handled_trans:
  assumes "handled lim a b" and "handled lim b c"
  shows "handled lim a c"
  unfolding handled_def
proof (intro conjI)
  show "\<forall>i<num_cores a. m_local_clock_list c ! i = m_local_clock_list a ! i \<or> m_local_clock_list c ! i = 0"
    using assms unfolding handled_def by metis
  show "m_next_barrier_time a \<le> m_next_barrier_time c" using assms unfolding handled_def by (meson order.trans)
  show "m_barrier_acquire_list c = m_barrier_acquire_list a \<or> m_disable c \<and> True \<notin> set (m_barrier_acquire_list c)"
    using assms unfolding handled_def by metis
  show "m_disable c \<longrightarrow> m_disable a \<or> True \<notin> set (m_barrier_acquire_list c)" using assms unfolding handled_def by metis
qed (use assms in \<open>auto simp: handled_def\<close>)

lemma handlers_handled: "(handler_step lim)\<^sup>*\<^sup>* bs bs' \<Longrightarrow> handled lim bs bs'"
proof (induction rule: rtranclp_induct)
  case base
  then show ?case by (simp add: handled_def)
next
  case (step b c)
  then show ?case using handled_trans handler_step_handled by blast
qed

subsection \<open>The loop\<close>

text \<open>The outcome of a release: the barrier time has moved on, some core that waited has left, and those that still wait are
  not behind the new barrier time.\<close>

definition released :: "BarrierSyncServer \<Rightarrow> BarrierSyncServer \<Rightarrow> bool" where
  "released bs bs' \<longleftrightarrow> m_next_barrier_time bs < m_next_barrier_time bs' \<and>
     (\<forall>c<num_cores bs. m_local_clock_list bs' ! c = m_local_clock_list bs ! c \<or> m_local_clock_list bs' ! c = 0) \<and>
     (\<exists>c<num_cores bs. m_barrier_acquire_list bs ! c \<and> \<not> m_barrier_acquire_list bs' ! c) \<and>
     (\<forall>c<num_cores bs. m_barrier_acquire_list bs' ! c \<longleftrightarrow>
        m_barrier_acquire_list bs ! c \<and> \<not> m_local_clock_list bs' ! c < m_next_barrier_time bs')"

definition loop_outcome :: "bool \<Rightarrow> BarrierSyncServer \<Rightarrow> bool \<times> bool \<times> barrier_sys \<Rightarrow> bool" where
  "loop_outcome continue_until_release bs = (\<lambda>(must_wait, returned, (bs', tm')).
     if returned
     then \<not> must_wait \<and> (m_disable bs' \<and> True \<notin> set (m_barrier_acquire_list bs') \<or> continue_until_release \<and> anyThreadRunning tm')
     else released bs bs')"

text \<open>A core waits, and times up to one quantum after \<open>lim\<close>, which bounds the clocks, do not wrap around.\<close>

definition waiting :: "SubsecondTime \<Rightarrow> BarrierSyncServer \<Rightarrow> bool" where
  "waiting lim bs \<longleftrightarrow> bs_wf bs \<and> \<not> m_disable bs \<and> True \<in> set (m_barrier_acquire_list bs) \<and> m_barrier_interval bs \<noteq> 0 \<and>
     unat lim + unat (m_barrier_interval bs) < 2 ^ 64 \<and> m_next_barrier_time bs \<le> lim \<and> (\<forall>t\<in>set (m_local_clock_list bs). t \<le> lim)"

text \<open>One iteration of the loop after the handlers.\<close>

definition next_slot :: "BarrierSyncServer \<Rightarrow> BarrierSyncServer" where
  "next_slot bs = bs\<lparr>m_next_barrier_time := m_next_barrier_time bs + m_barrier_interval bs\<rparr>"

lemma next_slot_simps [simp]:
  "m_local_clock_list (next_slot bs) = m_local_clock_list bs" "m_barrier_acquire_list (next_slot bs) = m_barrier_acquire_list bs"
  "m_next_barrier_time (next_slot bs) = m_next_barrier_time bs + m_barrier_interval bs"
  "m_barrier_interval (next_slot bs) = m_barrier_interval bs" "m_disable (next_slot bs) = m_disable bs" "bs_wf (next_slot bs) = bs_wf bs"
  by (simp_all add: next_slot_def bs_wf_def)

lemma waiting_handled:
  assumes w: "waiting lim bs" and h: "handled lim bs bs1" and "\<not> m_disable bs1"
  shows "waiting lim bs1 \<and> m_barrier_acquire_list bs1 = m_barrier_acquire_list bs \<and> m_next_barrier_time bs < m_next_barrier_time (next_slot bs1) \<and>
    unat (m_next_barrier_time bs1 + m_barrier_interval bs1) = unat (m_next_barrier_time bs1) + unat (m_barrier_interval bs1)"
proof -
  have acq: "m_barrier_acquire_list bs1 = m_barrier_acquire_list bs" using h assms(3) by (simp add: handled_def)
  have clk: "\<forall>t\<in>set (m_local_clock_list bs1). t \<le> lim"
    unfolding all_set_conv_all_nth
  proof (intro allI impI)
    fix i assume "i < num_cores bs1"
    then have i: "i < num_cores bs" "m_local_clock_list bs1 ! i = m_local_clock_list bs ! i \<or> m_local_clock_list bs1 ! i = 0"
      using h by (simp_all add: handled_def)
    then show "m_local_clock_list bs1 ! i \<le> lim" using w by (auto simp: waiting_def)
  qed
  have w1: "waiting lim bs1" using w h acq clk assms(3) by (simp add: waiting_def handled_def bs_wf_def)
  then have "unat (m_next_barrier_time bs1) + unat (m_barrier_interval bs1) < 2 ^ 64" by (simp add: waiting_def word_le_nat_alt)
  then have sum: "unat (m_next_barrier_time bs1 + m_barrier_interval bs1) = unat (m_next_barrier_time bs1) + unat (m_barrier_interval bs1)"
    by (rule unat_add_nowrap64)
  have "m_next_barrier_time bs \<le> m_next_barrier_time bs1" "0 < unat (m_barrier_interval bs1)"
    using h w1 by (simp_all add: handled_def waiting_def unat_gt_0)
  then have "m_next_barrier_time bs < m_next_barrier_time (next_slot bs1)" using sum by (simp add: word_less_nat_alt word_le_nat_alt)
  then show ?thesis using w1 acq sum by blast
qed

lemma released_pass:
  assumes w: "waiting lim bs" and h: "handled lim bs bs1" and d: "\<not> m_disable bs1"
    and ex: "\<exists>c<num_cores bs1. leaves (next_slot bs1) c" and s: "same_clock (next_slot bs1) bs'"
    and a: "\<forall>c<num_cores bs1. m_barrier_acquire_list bs' ! c \<longleftrightarrow>
       m_barrier_acquire_list bs1 ! c \<and> \<not> m_local_clock_list bs1 ! c < m_next_barrier_time (next_slot bs1)"
  shows "released bs bs'"
  using waiting_handled [OF w h d] ex s a h unfolding released_def same_clock_def handled_def by auto

lemma released_later:
  assumes w: "waiting lim bs" and h: "handled lim bs bs1" and d: "\<not> m_disable bs1" and r: "released (next_slot bs1) bs'"
  shows "released bs bs'"
proof -
  have n: "num_cores bs1 = num_cores bs" and acq: "m_barrier_acquire_list bs1 = m_barrier_acquire_list bs"
    and lt: "m_next_barrier_time bs < m_next_barrier_time (next_slot bs1)"
    using waiting_handled [OF w h d] h by (simp_all add: handled_def)
  have "\<forall>c<num_cores bs. m_local_clock_list bs' ! c = m_local_clock_list bs ! c \<or> m_local_clock_list bs' ! c = 0"
  proof (intro allI impI)
    fix c assume "c < num_cores bs"
    then have "m_local_clock_list bs' ! c = m_local_clock_list bs1 ! c \<or> m_local_clock_list bs' ! c = 0"
      "m_local_clock_list bs1 ! c = m_local_clock_list bs ! c \<or> m_local_clock_list bs1 ! c = 0"
      using r h n by (simp_all add: released_def handled_def)
    then show "m_local_clock_list bs' ! c = m_local_clock_list bs ! c \<or> m_local_clock_list bs' ! c = 0" by auto
  qed
  then show ?thesis using r n acq lt unfolding released_def by auto
qed

lemma release_loop_progress:
  assumes u: "uses_interface lim periodic" and "waiting lim bs"
  shows "\<exists>r. release_loop periodic nt caller cont mw (bs, tm) = Some r \<and>
    (case r of Inl e \<Rightarrow> cont \<and> e = AssertError ''No threads running, no timeout. Application has deadlocked...''
     | Inr x \<Rightarrow> loop_outcome cont bs x)"
  using assms(2)
proof (induction "unat lim - unat (m_next_barrier_time bs)" arbitrary: bs tm mw rule: less_induct)
  case less
  let ?bs0 = "bs\<lparr>m_global_time := m_next_barrier_time bs\<rparr>"
  define sys1 where "sys1 = periodic (m_next_barrier_time bs) (?bs0, tm)"
  obtain bs1 tm1 where s1: "sys1 = (bs1, tm1)" by fastforce
  have "handled lim ?bs0 bs1" using u s1 handlers_handled unfolding uses_interface_def sys1_def by (metis fst_conv)
  then have h: "handled lim bs bs1" by (simp add: handled_def)
  obtain bs2 r mw2 where pass: "release_pass caller (next_slot bs1) mw = (bs2, r, mw2)" by (metis prod_cases3)
  have loop: "release_loop periodic nt caller cont mw (bs, tm) =
    (if cont \<and> anyThreadRunning tm1 then Some (Inr (False, True, (bs1, tm1)))
     else if cont \<and> \<not> nt (m_global_time bs1) < MaxTime
     then Some (Inl (AssertError ''No threads running, no timeout. Application has deadlocked...''))
     else if m_disable bs1 then Some (Inr (False, True, (bs1, tm1)))
     else if r then Some (Inr (mw2, False, (bs2, tm1)))
     else release_loop periodic nt caller cont mw2 (bs2, tm1))"
    using s1 pass unfolding sys1_def next_slot_def by (subst release_loop.simps) (simp add: Let_def)
  show ?case
  proof (cases "cont \<and> (anyThreadRunning tm1 \<or> \<not> nt (m_global_time bs1) < MaxTime) \<or> m_disable bs1")
    case True
    moreover have "m_disable bs1 \<longrightarrow> True \<notin> set (m_barrier_acquire_list bs1)" using h less.prems by (auto simp: handled_def waiting_def)
    ultimately show ?thesis unfolding loop by (auto simp: loop_outcome_def)
  next
    case False
    then have d: "\<not> m_disable bs1" by blast
    note w1 = waiting_handled [OF less.prems h d]
    show ?thesis
    proof (cases "\<exists>c<num_cores bs1. leaves (next_slot bs1) c")
      case True
      have "bs_wf (next_slot bs1)" using w1 by (simp add: waiting_def)
      from release_pass_spec [OF this, of caller mw] pass True have r: "r" "same_clock (next_slot bs1) bs2"
        "\<forall>c<num_cores bs1. m_barrier_acquire_list bs2 ! c \<longleftrightarrow>
           m_barrier_acquire_list bs1 ! c \<and> \<not> m_local_clock_list bs1 ! c < m_next_barrier_time (next_slot bs1)" by auto
      have "released bs bs2" by (rule released_pass [OF less.prems h d True r(2,3)])
      then show ?thesis unfolding loop using False r(1) by (auto simp: loop_outcome_def)
    next
      case none: False
      then have p: "bs2 = next_slot bs1" "\<not> r" "mw2 = mw" using pass release_pass_stays [of "next_slot bs1" caller mw] by auto
      obtain c where c: "c < num_cores bs1" "m_barrier_acquire_list bs1 ! c"
        using w1 by (auto simp: waiting_def bs_wf_def in_set_conv_nth)
      then have "m_next_barrier_time (next_slot bs1) \<le> m_local_clock_list bs1 ! c" using none by (auto simp: not_less)
      moreover have "m_local_clock_list bs1 ! c \<le> lim" using w1 c(1) by (simp add: waiting_def)
      ultimately have le: "m_next_barrier_time (next_slot bs1) \<le> lim" by (rule order.trans)
      then have w2: "waiting lim (next_slot bs1)" using conjunct1 [OF w1] by (simp add: waiting_def)
      have "unat lim - unat (m_next_barrier_time (next_slot bs1)) < unat lim - unat (m_next_barrier_time bs)"
        using w1 le by (intro diff_less_mono2) (simp_all add: word_less_nat_alt word_le_nat_alt del: next_slot_simps)
      from less.hyps [OF this w2, of mw tm1] obtain x where x: "release_loop periodic nt caller cont mw (next_slot bs1, tm1) = Some x"
        "case x of Inl e \<Rightarrow> cont \<and> e = AssertError ''No threads running, no timeout. Application has deadlocked...''
         | Inr x \<Rightarrow> loop_outcome cont (next_slot bs1) x" by blast
      have "case x of Inl e \<Rightarrow> cont \<and> e = AssertError ''No threads running, no timeout. Application has deadlocked...''
         | Inr x \<Rightarrow> loop_outcome cont bs x"
        using x(2) released_later [OF less.prems h d] by (auto simp: loop_outcome_def split: sum.splits prod.splits if_splits)
      then show ?thesis unfolding loop using False p x(1) by (intro exI [of _ x]) auto
    qed
  qed
qed

text \<open>In fast-forward mode the barrier time is first set to the latest clock.\<close>

lemma skip_timeslots_waiting:
  assumes "waiting lim bs"
  shows "waiting lim (skip_timeslots bs) \<and> m_next_barrier_time bs \<le> m_next_barrier_time (skip_timeslots bs)"
proof -
  have "t \<le> fold (\<lambda>t n. if t > n then t else n) xs t \<and> fold (\<lambda>t n. if t > n then t else n) xs t \<le> lim"
    if "\<forall>x\<in>set xs. x \<le> lim" "t \<le> lim" for xs and t :: SubsecondTime
    using that by (induction xs arbitrary: t) (fastforce intro: less_imp_le order.trans)+
  from this [of "m_local_clock_list bs" "m_next_barrier_time bs"] assms show ?thesis
    by (auto simp: skip_timeslots_def waiting_def bs_wf_def)
qed

lemma skip_timeslots_simps [simp]:
  "m_local_clock_list (skip_timeslots bs) = m_local_clock_list bs" "m_barrier_acquire_list (skip_timeslots bs) = m_barrier_acquire_list bs"
  by (simp_all add: skip_timeslots_def)

text \<open>
  C21. The clock-skew barrier makes progress, in detailed and in fast-forward mode and with periodic handlers that migrate
  threads, set the mode and the barrier time or disable the barrier. When the barrier is enabled, some core waits in it, no
  core is still to be released, the quantum is not zero and times up to one quantum after \<open>lim\<close> do not wrap around, where
  \<open>lim\<close> bounds the clocks, the barrier time and what the handlers set it to, then \<^verbatim>\<open>barrierRelease\<close> ends. With
  \<^verbatim>\<open>continue_until_release\<close> it may end with the report of a deadlock, or because a thread runs. Otherwise it returns: either a
  handler has disabled the barrier, and no core waits; or the barrier time has moved on, at least one waiting core has been
  let go, and a core is still held exactly when it was held and its clock (zero, if its thread has been migrated) has
  reached the new barrier time.
\<close>

theorem barrier_release_progress:
  assumes "uses_interface lim periodic" and "length (m_barrier_acquire_list bs) = num_cores bs" and "\<not> m_disable bs" and "m_to_release bs = []"
    and "True \<in> set (m_barrier_acquire_list bs)" and "m_barrier_interval bs \<noteq> 0"
    and "unat lim + unat (m_barrier_interval bs) < 2 ^ 64" and "m_next_barrier_time bs \<le> lim" and "\<forall>t\<in>set (m_local_clock_list bs). t \<le> lim"
  shows "case barrierRelease periodic nt shuffle host_cores caller cont (bs, tm) of
      Inl e \<Rightarrow> cont \<and> e = AssertError ''No threads running, no timeout. Application has deadlocked...''
    | Inr (must_wait, (bs', tm')) \<Rightarrow>
        cont \<and> anyThreadRunning tm' \<or>
        m_disable bs' \<and> \<not> must_wait \<and> True \<notin> set (m_barrier_acquire_list bs') \<or>
        m_next_barrier_time bs < m_next_barrier_time bs' \<and>
        (\<forall>c<num_cores bs. m_local_clock_list bs' ! c = m_local_clock_list bs ! c \<or> m_local_clock_list bs' ! c = 0) \<and>
        (\<exists>c<num_cores bs. m_barrier_acquire_list bs ! c \<and> \<not> m_barrier_acquire_list bs' ! c) \<and>
        (\<forall>c<num_cores bs. m_barrier_acquire_list bs' ! c \<longleftrightarrow>
           m_barrier_acquire_list bs ! c \<and> \<not> m_local_clock_list bs' ! c < m_next_barrier_time bs')"
proof -
  have "waiting lim bs" using assms(2-) by (simp add: waiting_def bs_wf_def)
  note w = skip_timeslots_waiting [OF this]
  obtain r where l: "release_loop periodic nt caller cont True (skip_timeslots bs, tm) = Some r"
    and r: "case r of Inl e \<Rightarrow> cont \<and> e = AssertError ''No threads running, no timeout. Application has deadlocked...''
     | Inr x \<Rightarrow> loop_outcome cont (skip_timeslots bs) x" using release_loop_progress [OF assms(1) conjunct1 [OF w]] by blast
  show ?thesis
  proof (cases r)
    case (Inl e)
    then show ?thesis using l r assms(4) by (simp add: barrierRelease_def)
  next
    case (Inr x)
    obtain mw ret bs' tm' where x: "x = (mw, ret, (bs', tm'))" by (metis prod_cases4)
    have "released (skip_timeslots bs) bs' \<Longrightarrow> m_next_barrier_time bs < m_next_barrier_time bs'"
      using w by (auto simp: released_def)
    then show ?thesis using l r assms(4) unfolding Inr x
      by (cases ret) (auto simp: barrierRelease_def loop_outcome_def released_def)
  qed
qed

theorem barrier_release_progress_witness:
  "case barrierRelease (\<lambda>_ (bs, tm). (threadMigrate 1 bs, tm)) (\<lambda>_. 0) rev 4 (-1) False
     ((mk_BarrierSyncServer 2 100)\<lparr>m_local_clock_list := [NS 350, NS 320], m_barrier_acquire_list := [True, True],
        m_core_thread := [0, 1]\<rparr>, mk_ThreadManager (\<lambda>_. IDLE)) of
     Inl e \<Rightarrow> False
   | Inr (must_wait, (bs', tm')) \<Rightarrow> m_disable bs' \<or> NS 100 < m_next_barrier_time bs'"
proof -
  let ?bs = "(mk_BarrierSyncServer 2 100)\<lparr>m_local_clock_list := [NS 350, NS 320], m_barrier_acquire_list := [True, True],
        m_core_thread := [0, 1]\<rparr>"
  have "uses_interface (NS 350) (\<lambda>_ (bs, tm). (threadMigrate 1 bs, tm))"
    by (auto simp: uses_interface_def intro: handler_step.Migrate)
  from barrier_release_progress [OF this, where bs = ?bs and nt = "\<lambda>_. 0" and shuffle = rev and host_cores = 4 and caller = "-1"
      and cont = False and tm = "mk_ThreadManager (\<lambda>_. IDLE)"]
  show ?thesis
    by (auto simp: mk_BarrierSyncServer_def NS_def unit_defs split: sum.splits prod.splits)
qed

end
