(* ===== verification/LS_Moving_Average.thy ===== *)
theory LS_Moving_Average
  imports LS_Time LS_Utils
begin

text \<open>
  The moving averages over the last samples (\<^verbatim>\<open>common/misc/moving_average.h\<close>), a ring buffer with one slot more than the window. The \<open>n\<close>-th root of the geometric
  mean is computed with floating point and is an argument.
\<close>

section \<open>Moving averages\<close>

datatype AvgType_t = ARITHMETIC_MEAN | GEOMETRIC_MEAN | MEDIAN

definition parseAvgType :: "string \<Rightarrow> AvgType_t res" where
  "parseAvgType avg_type =
     (if avg_type = ''arithmetic_mean'' then Inr ARITHMETIC_MEAN
      else if avg_type = ''geometric_mean'' then Inr GEOMETRIC_MEAN
      else if avg_type = ''median'' then Inr MEDIAN
      else Inl (LogError ''Unsupported Average Type: %s''))"

text \<open>The class hierarchy is a record with the kind of the object; only the arithmetic mean uses \<^verbatim>\<open>sum\<close>.\<close>

record MovingAverage =
  ma_type :: AvgType_t
  m_num_list :: "SubsecondTime list"
  m_max_window_size :: UInt32
  m_curr_window_front :: ModuloNum
  m_curr_window_back :: ModuloNum
  ma_sum :: SubsecondTime

definition createAvgType :: "AvgType_t \<Rightarrow> UInt32 \<Rightarrow> MovingAverage" where
  "createAvgType avg_type max_window_size =
     \<lparr>ma_type = avg_type, m_num_list = replicate (unat (max_window_size + 1)) 0, m_max_window_size = max_window_size,
      m_curr_window_front = mk_ModuloNum (max_window_size + 1), m_curr_window_back = mk_ModuloNum (max_window_size + 1),
      ma_sum = 0\<rparr>"

definition num_at :: "MovingAverage \<Rightarrow> ModuloNum \<Rightarrow> SubsecondTime res" where
  "num_at m k = (if unat (m_value k) < length (m_num_list m) then Inr (m_num_list m ! unat (m_value k)) else Inl OutOfRange)"

definition addToWindow :: "SubsecondTime \<Rightarrow> MovingAverage \<Rightarrow> MovingAverage res" where
  "addToWindow next_num m =
     bindE (num_at m (m_curr_window_back m))
     (\<lambda>_. let m = m\<lparr>m_num_list := (m_num_list m)[unat (m_value (m_curr_window_back m)) := next_num]\<rparr> in
       bindE (mn_add_value (m_curr_window_back m) 1)
       (\<lambda>back. let m = m\<lparr>m_curr_window_back := back\<rparr> in
         if back = m_curr_window_front m
         then bindE (mn_add_value (m_curr_window_front m) 1) (\<lambda>front. Inr (m\<lparr>m_curr_window_front := front\<rparr>))
         else Inr m))"

definition ma_update :: "SubsecondTime \<Rightarrow> MovingAverage \<Rightarrow> MovingAverage res" where
  "ma_update next_num m =
     (case ma_type m of
        ARITHMETIC_MEAN \<Rightarrow>
          bindE (mn_sub (m_curr_window_back m) (m_curr_window_front m))
          (\<lambda>size. bindE (if m_value size = m_max_window_size m
                         then bindE (num_at m (m_curr_window_front m)) (\<lambda>x. Inr (ma_sum m - x)) else Inr (ma_sum m))
          (\<lambda>s. addToWindow next_num (m\<lparr>ma_sum := s + next_num\<rparr>)))
      | _ \<Rightarrow> addToWindow next_num m)"

text \<open>The product of the loop of the geometric mean: from the front up to, and without, the back.\<close>

fun window_product :: "nat \<Rightarrow> MovingAverage \<Rightarrow> ModuloNum \<Rightarrow> SubsecondTime \<Rightarrow> SubsecondTime res" where
  "window_product 0 m k p = Inl NonTermination"
| "window_product (Suc fuel) m k p =
     (if k = m_curr_window_back m then Inr p
      else bindE (num_at m k) (\<lambda>x. bindE (mn_add_value k 1) (\<lambda>k. window_product fuel m k (p * x))))"

definition ma_compute :: "(UInt64 \<Rightarrow> UInt32 \<Rightarrow> UInt64) \<Rightarrow> MovingAverage \<Rightarrow> SubsecondTime res" where
  "ma_compute root m =
     bindE (mn_sub (m_curr_window_back m) (m_curr_window_front m))
     (\<lambda>size. case ma_type m of
        ARITHMETIC_MEAN \<Rightarrow> time_div (ma_sum m) (ucast (m_value size))
      | GEOMETRIC_MEAN \<Rightarrow>
          bindE (window_product (Suc (length (m_num_list m))) m (m_curr_window_front m) 1) (\<lambda>p. Inr (root p (m_value size)))
      | MEDIAN \<Rightarrow> bindE (mn_add_value (m_curr_window_front m) (m_value size div 2)) (num_at m))"

definition ma_compute_next :: "(UInt64 \<Rightarrow> UInt32 \<Rightarrow> UInt64) \<Rightarrow> SubsecondTime \<Rightarrow> MovingAverage \<Rightarrow> (SubsecondTime \<times> MovingAverage) res" where
  "ma_compute_next root next_num m =
     bindE (ma_update next_num m) (\<lambda>m. bindE (ma_compute root m) (\<lambda>t. Inr (t, m)))"

fun ma_updates :: "SubsecondTime list \<Rightarrow> MovingAverage \<Rightarrow> MovingAverage res" where
  "ma_updates [] m = Inr m"
| "ma_updates (x # xs) m = bindE (ma_update x m) (ma_updates xs)"

section \<open>The ring buffer holds the last samples\<close>

text \<open>The state after the samples \<open>xs\<close>: the cells from the front on hold the last \<open>n\<close> of them, in order.\<close>

definition lastn :: "nat \<Rightarrow> 'a list \<Rightarrow> 'a list" where
  "lastn n xs = drop (length xs - n) xs"

lemma length_lastn [simp]: "length (lastn n xs) = min n (length xs)"
  by (simp add: lastn_def)

lemma lastn_snoc:
  "0 < n \<Longrightarrow> lastn n (xs @ [x]) = (if length (lastn n xs) = n then tl (lastn n xs) else lastn n xs) @ [x]"
  by (auto simp: lastn_def tl_drop drop_Suc [symmetric] Suc_diff_le min_def)

definition ma_inv :: "nat \<Rightarrow> SubsecondTime list \<Rightarrow> MovingAverage \<Rightarrow> bool" where
  "ma_inv n xs m \<longleftrightarrow> unat (m_max_window_size m) = n \<and> length (m_num_list m) = Suc n \<and>
     (\<exists>f. mnum (Suc n) f (m_curr_window_front m) \<and> mnum (Suc n) ((f + length (lastn n xs)) mod Suc n) (m_curr_window_back m) \<and>
       (\<forall>k<length (lastn n xs). m_num_list m ! ((f + k) mod Suc n) = lastn n xs ! k)) \<and>
     (ma_type m = ARITHMETIC_MEAN \<longrightarrow> ma_sum m = sum_list (lastn n xs))"

lemma window_size:
  assumes "mnum (Suc n) f a" and "mnum (Suc n) ((f + l) mod Suc n) b" and "l \<le> n"
  shows "\<exists>c. mn_sub b a = Inr c \<and> mnum (Suc n) l c"
  using mn_sub_mnum [OF assms(2,1)] ring_size [of f "Suc n" l] assms by (simp add: mnum_def)

lemma ring_inj:
  assumes "f < M" and "j < M" and "k < M" and "(f + j) mod M = (f + k) mod (M::nat)"
  shows "j = k"
  using assms by (auto simp: mod_once split: if_splits)

text \<open>The window after one more sample; \<open>g\<close> is the new front.\<close>

lemma addToWindow_ring:
  fixes x :: SubsecondTime
  assumes inv: "length (m_num_list m) = Suc n" "mnum (Suc n) f (m_curr_window_front m)"
      "mnum (Suc n) ((f + length ws) mod Suc n) (m_curr_window_back m)" "length ws \<le> n"
      "\<forall>k<length ws. m_num_list m ! ((f + k) mod Suc n) = ws ! k"
    and n: "0 < n"
  defines "ws' \<equiv> (if length ws = n then tl ws else ws) @ [x]"
  shows "\<exists>m' g. addToWindow x m = Inr m' \<and> length (m_num_list m') = Suc n \<and> mnum (Suc n) g (m_curr_window_front m') \<and>
    mnum (Suc n) ((g + length ws') mod Suc n) (m_curr_window_back m') \<and>
    (\<forall>k<length ws'. m_num_list m' ! ((g + k) mod Suc n) = ws' ! k) \<and>
    ma_type m' = ma_type m \<and> ma_sum m' = ma_sum m \<and> m_max_window_size m' = m_max_window_size m"
proof -
  let ?b = "(f + length ws) mod Suc n" and ?l = "m_num_list m"
  have f: "f < Suc n" and b: "unat (m_value (m_curr_window_back m)) = ?b" using inv(2,3) by (simp_all add: mnum_def)
  have one: "unat (1 :: UInt32) = 1" by simp
  obtain bk where bk: "mn_add_value (m_curr_window_back m) 1 = Inr bk" "mnum (Suc n) ((?b + 1) mod Suc n) bk"
    using mn_add_value_mnum [OF inv(3), of 1] one by auto
  obtain front where front: "mn_add_value (m_curr_window_front m) 1 = Inr front" "mnum (Suc n) ((f + 1) mod Suc n) front"
    using mn_add_value_mnum [OF inv(2), of 1] one by auto
  have bb: "(?b + 1) mod Suc n = (f + Suc (length ws)) mod Suc n" by (simp add: mod_simps)
  have cells: "(?l[?b := x]) ! ((f + k) mod Suc n) = (ws @ [x]) ! k" if "k \<le> length ws" for k
  proof (cases "k = length ws")
    case False
    then have "(f + k) mod Suc n \<noteq> ?b" using ring_inj [OF f, of k "length ws"] that inv(4) by auto
    then show ?thesis using False that inv(5) by (auto simp: nth_append)
  qed (simp add: inv(1))
  have full: "bk = m_curr_window_front m \<longleftrightarrow> length ws = n"
  proof -
    have top: "(f + Suc n) mod Suc n = f" using f by (metis mod_add_self2 mod_less)
    have "bk = m_curr_window_front m \<longleftrightarrow> (f + Suc (length ws)) mod Suc n = f"
      using mnum_eq_iff [OF bk(2) inv(2)] bb by simp
    also have "\<dots> \<longleftrightarrow> length ws = n" using top
      using ring_inj [OF f, of "Suc (length ws)" 0] f inv(4) by (cases "length ws = n") auto
    finally show ?thesis .
  qed
  show ?thesis
  proof (cases "length ws = n")
    case True
    then have ws': "ws' = tl (ws @ [x])" using n by (cases ws) (auto simp: ws'_def)
    have "(\<forall>k<length ws'. (?l[?b := x]) ! (((f + 1) mod Suc n + k) mod Suc n) = ws' ! k)"
      using cells [of "Suc _"] True by (auto simp: ws' nth_tl mod_simps)
    moreover have "((f + 1) mod Suc n + length ws') mod Suc n = (?b + 1) mod Suc n"
      using True n by (simp add: ws' bb mod_simps)
    ultimately show ?thesis
      using True full bk front inv(1) b
      by (intro exI [of _ "m\<lparr>m_num_list := ?l[?b := x], m_curr_window_back := bk, m_curr_window_front := front\<rparr>"]
            exI [of _ "(f + 1) mod Suc n"]) (simp add: addToWindow_def num_at_def)
  next
    case False
    then have ws': "ws' = ws @ [x]" by (simp add: ws'_def)
    show ?thesis
      using False full bk inv(1,2) b cells
      by (intro exI [of _ "m\<lparr>m_num_list := ?l[?b := x], m_curr_window_back := bk\<rparr>"] exI [of _ f])
         (simp add: addToWindow_def num_at_def ws' mod_Suc_eq)
  qed
qed

lemma sum_list_tl: "ws \<noteq> [] \<Longrightarrow> sum_list (tl ws) = sum_list ws - (hd ws :: UInt64)"
  by (cases ws) auto

lemma addToWindow_inv:
  assumes "ma_inv n xs m" and n: "0 < n" and s: "ma_type m = ARITHMETIC_MEAN \<longrightarrow> s = sum_list (lastn n (xs @ [x]))"
  shows "\<exists>m'. addToWindow x (m\<lparr>ma_sum := s\<rparr>) = Inr m' \<and> ma_inv n (xs @ [x]) m' \<and> ma_type m' = ma_type m"
proof -
  let ?ws = "lastn n xs" and ?m = "m\<lparr>ma_sum := s\<rparr>"
  obtain f where r: "length (m_num_list ?m) = Suc n" "mnum (Suc n) f (m_curr_window_front ?m)"
      "mnum (Suc n) ((f + length ?ws) mod Suc n) (m_curr_window_back ?m)" "length ?ws \<le> n"
      "\<forall>k<length ?ws. m_num_list ?m ! ((f + k) mod Suc n) = ?ws ! k" and sz: "unat (m_max_window_size m) = n"
    using assms(1) by (auto simp: ma_inv_def)
  from addToWindow_ring [OF r n, of x] obtain m' g where "addToWindow x ?m = Inr m'" and "length (m_num_list m') = Suc n"
    and "mnum (Suc n) g (m_curr_window_front m')"
    and "mnum (Suc n) ((g + length (lastn n (xs @ [x]))) mod Suc n) (m_curr_window_back m')"
    and "\<forall>k<length (lastn n (xs @ [x])). m_num_list m' ! ((g + k) mod Suc n) = lastn n (xs @ [x]) ! k"
    and "ma_type m' = ma_type ?m" "ma_sum m' = ma_sum ?m" "m_max_window_size m' = m_max_window_size ?m"
    unfolding lastn_snoc [OF n] by blast
  then show ?thesis using s sz unfolding ma_inv_def by (intro exI [of _ m']) (simp del: length_lastn, blast)
qed

lemma ma_update_inv:
  assumes "ma_inv n xs m" and n: "0 < n"
  shows "\<exists>m'. ma_update x m = Inr m' \<and> ma_inv n (xs @ [x]) m' \<and> ma_type m' = ma_type m"
proof -
  let ?ws = "lastn n xs"
  obtain f where sz: "unat (m_max_window_size m) = n" "length (m_num_list m) = Suc n"
    and f: "mnum (Suc n) f (m_curr_window_front m)" and b: "mnum (Suc n) ((f + length ?ws) mod Suc n) (m_curr_window_back m)"
    and cells: "\<forall>k<length ?ws. m_num_list m ! ((f + k) mod Suc n) = ?ws ! k"
    and s: "ma_type m = ARITHMETIC_MEAN \<longrightarrow> ma_sum m = sum_list ?ws"
    using assms(1) by (auto simp: ma_inv_def)
  have le: "length ?ws \<le> n" by simp
  show ?thesis
  proof (cases "ma_type m = ARITHMETIC_MEAN")
    case True
    obtain size where size: "mn_sub (m_curr_window_back m) (m_curr_window_front m) = Inr size" "mnum (Suc n) (length ?ws) size"
      using window_size [OF f b le] by blast
    have full: "m_value size = m_max_window_size m \<longleftrightarrow> length ?ws = n" using size(2) sz(1) by (auto simp: mnum_def word_unat_eq_iff)
    let ?s = "(if length ?ws = n then sum_list (tl ?ws) else sum_list ?ws)"
    have front: "num_at m (m_curr_window_front m) = Inr (hd ?ws)" if "length ?ws = n"
    proof -
      have "?ws \<noteq> []" using that n by (metis less_irrefl list.size(3))
      moreover from this have "m_num_list m ! ((f + 0) mod Suc n) = ?ws ! 0" using cells by blast
      ultimately show ?thesis using f sz(2) by (auto simp: num_at_def mnum_def hd_conv_nth)
    qed
    have old: "(if m_value size = m_max_window_size m then bindE (num_at m (m_curr_window_front m)) (\<lambda>x. Inr (ma_sum m - x))
        else Inr (ma_sum m)) = Inr ?s"
    proof (cases "length ?ws = n")
      case t: True
      then have "?ws \<noteq> []" using n by (metis less_irrefl list.size(3))
      then show ?thesis using t full front s True by (simp add: sum_list_tl)
    qed (use full s True in \<open>simp del: length_lastn\<close>)
    have step: "ma_update x m = addToWindow x (m\<lparr>ma_sum := ?s + x\<rparr>)" using True size(1) old by (simp add: ma_update_def)
    have "?s + x = sum_list (lastn n (xs @ [x]))" by (simp add: lastn_snoc [OF n])
    then show ?thesis unfolding step by (intro addToWindow_inv [OF assms]) simp
  next
    case False
    then have step: "ma_update x m = addToWindow x m" by (simp add: ma_update_def split: AvgType_t.splits)
    show ?thesis unfolding step using addToWindow_inv [OF assms, of "ma_sum m" x] False by simp
  qed
qed

lemma ma_updates_inv:
  assumes "ma_inv n xs m" and "0 < n"
  shows "\<exists>m'. ma_updates ys m = Inr m' \<and> ma_inv n (xs @ ys) m' \<and> ma_type m' = ma_type m"
  using assms(1)
proof (induction ys arbitrary: xs m)
  case Nil
  then show ?case by simp
next
  case (Cons y ys)
  from ma_update_inv [OF Cons.prems assms(2)] obtain m1 where "ma_update y m = Inr m1" "ma_inv n (xs @ [y]) m1" "ma_type m1 = ma_type m"
    by blast
  then show ?case using Cons.IH [of "xs @ [y]" m1] by auto
qed

lemma createAvgType_inv:
  assumes "unat n < 2 ^ 31"
  shows "ma_inv (unat n) [] (createAvgType t n)"
proof -
  have "unat (n + 1) = Suc (unat n)" using assms by (simp add: unat_word_ariths)
  then show ?thesis using assms by (simp add: ma_inv_def createAvgType_def mk_ModuloNum_def mnum_def lastn_def)
qed

lemma ma_inv_size:
  assumes "ma_inv n xs m"
  obtains size where "mn_sub (m_curr_window_back m) (m_curr_window_front m) = Inr size" "mnum (Suc n) (length (lastn n xs)) size"
proof -
  obtain f where "mnum (Suc n) f (m_curr_window_front m)" "mnum (Suc n) ((f + length (lastn n xs)) mod Suc n) (m_curr_window_back m)"
    using assms unfolding ma_inv_def by blast
  then show thesis using window_size [of n f "m_curr_window_front m" "length (lastn n xs)" "m_curr_window_back m"] that by auto
qed

text \<open>The mean of the window, when there is a sample.\<close>

lemma ma_compute_mean:
  assumes "ma_inv n xs m" and "ma_type m = ARITHMETIC_MEAN" and "0 < n" and "n < 2 ^ 31" and "xs \<noteq> []"
  shows "ma_compute root m = Inr (sum_list (lastn n xs) div of_nat (length (lastn n xs)))"
proof -
  let ?l = "length (lastn n xs)"
  have small: "?l < 2 ^ 32" "0 < ?l" using assms by simp_all
  obtain size where size: "mn_sub (m_curr_window_back m) (m_curr_window_front m) = Inr size" "mnum (Suc n) ?l size"
    using ma_inv_size [OF assms(1)] by blast
  have "unat (of_nat ?l :: UInt64) = ?l" using small by (intro unat_of_nat_lt) (simp del: length_lastn)
  then have "(ucast (m_value size) :: UInt64) = of_nat ?l" "(of_nat ?l :: UInt64) \<noteq> 0"
    using size(2) small by (auto simp: mnum_def word_unat_eq_iff simp del: length_lastn)
  then show ?thesis using size(1) assms(1,2) by (simp add: ma_compute_def time_div_def ma_inv_def)
qed

text \<open>The state after the samples \<open>xs\<close>, with the size of its window.\<close>

lemma ma_run:
  assumes "0 < unat n" and "unat n < 2 ^ 31"
  obtains m size where "ma_updates xs (createAvgType t n) = Inr m" "ma_inv (unat n) xs m" "ma_type m = t"
    "mn_sub (m_curr_window_back m) (m_curr_window_front m) = Inr size" "mnum (Suc (unat n)) (length (lastn (unat n) xs)) size"
proof -
  obtain m where m: "ma_updates xs (createAvgType t n) = Inr m" "ma_inv (unat n) xs m" "ma_type m = t"
    using ma_updates_inv [OF createAvgType_inv [OF assms(2), of t] assms(1), of xs] by (auto simp: createAvgType_def)
  show thesis using ma_inv_size [OF m(2)] m that by blast
qed

lemma moving_mean:
  assumes "0 < unat n" and "unat n < 2 ^ 31" and "xs \<noteq> []"
  shows "bindE (ma_updates xs (createAvgType ARITHMETIC_MEAN n)) (ma_compute root) =
    Inr (sum_list (lastn (unat n) xs) div of_nat (length (lastn (unat n) xs)))"
proof -
  obtain m where m: "ma_updates xs (createAvgType ARITHMETIC_MEAN n) = Inr m" "ma_inv (unat n) xs m" "ma_type m = ARITHMETIC_MEAN"
    using ma_run [OF assms(1,2)] by blast
  then show ?thesis using ma_compute_mean [OF m(2,3) assms] by simp
qed

lemma moving_median:
  assumes "0 < unat n" and "unat n < 2 ^ 31" and "xs \<noteq> []"
  shows "bindE (ma_updates xs (createAvgType MEDIAN n)) (ma_compute root) =
    Inr (lastn (unat n) xs ! (length (lastn (unat n) xs) div 2))"
proof -
  let ?ws = "lastn (unat n) xs" and ?M = "Suc (unat n)"
  have pos: "0 < length ?ws" using assms by simp
  obtain m size where m: "ma_updates xs (createAvgType MEDIAN n) = Inr m" "ma_inv (unat n) xs m" "ma_type m = MEDIAN"
    "mn_sub (m_curr_window_back m) (m_curr_window_front m) = Inr size" "mnum ?M (length ?ws) size"
    using ma_run [OF assms(1,2)] by blast
  obtain f where f: "mnum ?M f (m_curr_window_front m)"
    and cells: "\<forall>k<length ?ws. m_num_list m ! ((f + k) mod ?M) = ?ws ! k"
    using m(2) unfolding ma_inv_def by blast
  have half: "unat (m_value size div 2) = length ?ws div 2" using m(5) by (simp add: mnum_def unat_div)
  obtain c where c: "mn_add_value (m_curr_window_front m) (m_value size div 2) = Inr c" "mnum ?M ((f + length ?ws div 2) mod ?M) c"
    using mn_add_value_mnum [OF f, of "m_value size div 2"] half by metis
  have "num_at m c = Inr (?ws ! (length ?ws div 2))"
    using c(2) cells m(2) pos by (simp add: num_at_def mnum_def ma_inv_def del: length_lastn)
  then show ?thesis using m c by (simp add: ma_compute_def)
qed

text \<open>
  C26. The moving averages: after the samples \<open>xs\<close>, the arithmetic mean returns the sum of the last \<open>n\<close> of them (of all of
  them while there are fewer) divided by their number, and the median returns the sample in the middle of the window in the
  order of arrival. The window size is below \<open>2 ^ 31\<close> and not zero, and there is at least one sample.
\<close>

theorem moving_average_window:
  assumes "0 < unat n" and "unat n < 2 ^ 31" and "xs \<noteq> []"
  shows "let ws = drop (length xs - unat n) xs in
    bindE (ma_updates xs (createAvgType ARITHMETIC_MEAN n)) (ma_compute root) = Inr (sum_list ws div of_nat (length ws)) \<and>
    bindE (ma_updates xs (createAvgType MEDIAN n)) (ma_compute root) = Inr (ws ! (length ws div 2))"
  using moving_mean [OF assms] moving_median [OF assms] by (simp add: lastn_def Let_def)

theorem moving_average_window_witness:
  "bindE (ma_updates [4, 100, 2, 6] (createAvgType ARITHMETIC_MEAN 3)) (ma_compute (\<lambda>x _. x)) = Inr 36 \<and>
   bindE (ma_updates [4, 100, 2, 6] (createAvgType MEDIAN 3)) (ma_compute (\<lambda>x _. x)) = Inr 2"
  using moving_average_window [of 3 "[4, 100, 2, 6]" "\<lambda>x _. x"] by (simp add: Let_def del: ma_updates.simps)

text \<open>The \<^verbatim>\<open>MovingMedian\<close> does not order the window: the middle sample by arrival is not its median.\<close>

lemma moving_median_not_median:
  "bindE (ma_updates [1, 100, 2] (createAvgType MEDIAN 3)) (ma_compute root) = Inr 100 \<and> sort [1, 100, 2 :: SubsecondTime] ! 1 = 2"
  using moving_median [of 3 "[1, 100, 2]" root] by (simp add: lastn_def del: ma_updates.simps)

end
