(* ===== verification/LS_Contention.thy ===== *)
theory LS_Contention
  imports LS_Time
begin

text \<open>
  The contention model (\<^verbatim>\<open>common/performance_model/contention_model.cc\<close>): a resource of \<^verbatim>\<open>m_num_outstanding\<close> units, the time
  at which each becomes free and the tag it works on. The miss status holding registers of the caches and the ports of the
  functional units are objects of this class.
\<close>

section \<open>State\<close>

record ContentionModel =
  m_num_outstanding :: nat
  m_time :: "(SubsecondTime \<times> UInt64) list"
  m_t_last :: SubsecondTime
  m_proc_period :: "period_ptr option"
  m_n_requests :: UInt64
  m_n_barriers :: UInt64
  m_n_outoforder :: UInt64
  m_n_simultaneous :: UInt64
  m_n_hasfreefail :: UInt64
  m_total_delay :: SubsecondTime
  m_total_barrier_delay :: SubsecondTime

definition mk_ContentionModel :: "period_ptr option \<Rightarrow> UInt32 \<Rightarrow> ContentionModel" where
  "mk_ContentionModel proc_period num_outstanding =
     \<lparr>m_num_outstanding = unat num_outstanding, m_time = replicate (unat num_outstanding) (0, 0), m_t_last = 0,
      m_proc_period = proc_period, m_n_requests = 0, m_n_barriers = 0, m_n_outoforder = 0, m_n_simultaneous = 0,
      m_n_hasfreefail = 0, m_total_delay = 0, m_total_barrier_delay = 0\<rparr>"

text \<open>The constructor without arguments.\<close>

definition mk_ContentionModel0 :: ContentionModel where
  "mk_ContentionModel0 = mk_ContentionModel None 1"

abbreviation free_at :: "ContentionModel \<Rightarrow> nat \<Rightarrow> SubsecondTime" where
  "free_at m i \<equiv> fst (m_time m ! i)"

abbreviation tag_at :: "ContentionModel \<Rightarrow> nat \<Rightarrow> UInt64" where
  "tag_at m i \<equiv> snd (m_time m ! i)"

section \<open>Queries\<close>

definition getNumUsed :: "ContentionModel \<Rightarrow> SubsecondTime \<Rightarrow> UInt32" where
  "getNumUsed m t_start = fold (\<lambda>i n. if free_at m i > t_start then n + 1 else n) [0..<m_num_outstanding m] 0"

definition getTagCompletionTime :: "ContentionModel \<Rightarrow> UInt64 \<Rightarrow> SubsecondTime" where
  "getTagCompletionTime m tag =
     (case List.find (\<lambda>i. tag_at m i = tag) [0..<m_num_outstanding m] of Some i \<Rightarrow> free_at m i | None \<Rightarrow> MaxTime)"

definition hasFreeSlot :: "SubsecondTime \<Rightarrow> UInt64 \<Rightarrow> ContentionModel \<Rightarrow> bool \<times> ContentionModel" where
  "hasFreeSlot t_start tag m =
     (case List.find (\<lambda>i. free_at m i \<le> t_start \<or> tag_at m i = tag) [0..<m_num_outstanding m] of
        Some i \<Rightarrow> (True, m)
      | None \<Rightarrow> (False, m\<lparr>m_n_hasfreefail := m_n_hasfreefail m + 1\<rparr>))"

definition hasTag :: "ContentionModel \<Rightarrow> UInt64 \<Rightarrow> bool" where
  "hasTag m tag \<longleftrightarrow> (\<exists>i\<in>set [0..<m_num_outstanding m]. tag_at m i = tag)"

section \<open>Requests\<close>

text \<open>All units become busy at once, when the last of them is free.\<close>

definition latest :: "ContentionModel \<Rightarrow> SubsecondTime \<Rightarrow> SubsecondTime" where
  "latest m t_start = fold (\<lambda>i t. if free_at m i > t then free_at m i else t) [0..<m_num_outstanding m] t_start"

definition getBarrierCompletionTime ::
  "SubsecondTime \<Rightarrow> SubsecondTime \<Rightarrow> UInt64 \<Rightarrow> ContentionModel \<Rightarrow> SubsecondTime \<times> ContentionModel" where
  "getBarrierCompletionTime t_start t_delay tag m =
     (if m_num_outstanding m = 0 then (t_start + t_delay, m)
      else let max_time = latest m t_start;
               m = m\<lparr>m_time := fold (\<lambda>i ts. ts[i := (max_time + t_delay, tag)]) [0..<m_num_outstanding m] (m_time m)\<rparr>
           in (max_time + t_delay,
               m\<lparr>m_total_barrier_delay := m_total_barrier_delay m + (max_time - t_start), m_n_barriers := m_n_barriers m + 1\<rparr>))"

text \<open>The loop that looks for a unit: the first that is free, and otherwise the one that is free first.\<close>

fun find_unit :: "ContentionModel \<Rightarrow> SubsecondTime \<Rightarrow> nat \<Rightarrow> nat list \<Rightarrow> nat" where
  "find_unit m t_start unit [] = unit"
| "find_unit m t_start unit (i # is) =
     (if free_at m i \<le> t_start then i
      else if free_at m i < free_at m unit then find_unit m t_start i is
      else find_unit m t_start unit is)"

definition getCompletionTime ::
  "SubsecondTime \<Rightarrow> SubsecondTime \<Rightarrow> UInt64 \<Rightarrow> ContentionModel \<Rightarrow> SubsecondTime \<times> ContentionModel" where
  "getCompletionTime t_start t_delay tag m =
     (if m_num_outstanding m = 0 then (t_start + t_delay, m)
      else
        let (t_end, m) =
          (if t_start = 0 then (t_delay, m)
           else if t_start < m_t_last m then (t_start + t_delay, m\<lparr>m_n_outoforder := m_n_outoforder m + 1\<rparr>)
           else
             let m = (if t_start = m_t_last m then m\<lparr>m_n_simultaneous := m_n_simultaneous m + 1\<rparr> else m);
                 unit = find_unit m t_start 0 [0..<m_num_outstanding m];
                 t_begin = (if t_start < free_at m unit then free_at m unit else t_start);
                 t_end = t_begin + t_delay
             in (t_end, m\<lparr>m_time := (m_time m)[unit := (t_end, tag)],
                          m_total_delay := m_total_delay m + (t_begin - t_start), m_t_last := t_start\<rparr>))
        in (t_end, m\<lparr>m_n_requests := m_n_requests m + 1\<rparr>))"

text \<open>\<^verbatim>\<open>getStartTime\<close> has its own copy of the loop, which returns from inside.\<close>

fun start_scan :: "ContentionModel \<Rightarrow> SubsecondTime \<Rightarrow> nat \<Rightarrow> nat list \<Rightarrow> SubsecondTime" where
  "start_scan m t_start unit [] = (if t_start < free_at m unit then free_at m unit else t_start)"
| "start_scan m t_start unit (i # is) =
     (if free_at m i \<le> t_start then t_start
      else if free_at m i < free_at m unit then start_scan m t_start i is
      else start_scan m t_start unit is)"

definition getStartTime :: "SubsecondTime \<Rightarrow> ContentionModel \<Rightarrow> SubsecondTime" where
  "getStartTime t_start m =
     (if m_num_outstanding m = 0 then t_start
      else if t_start < m_t_last m then t_start
      else start_scan m t_start 0 [0..<m_num_outstanding m])"

section \<open>The versions in cycles\<close>

definition to_time :: "periods \<Rightarrow> ContentionModel \<Rightarrow> UInt64 \<Rightarrow> SubsecondTime res" where
  "to_time ps m cycles =
     (case m_proc_period m of None \<Rightarrow> Inl NullPointer | Some p \<Rightarrow> Inr (cyclesToSubsecondTime ps p cycles))"

definition to_cycles :: "periods \<Rightarrow> ContentionModel \<Rightarrow> SubsecondTime \<Rightarrow> UInt64 res" where
  "to_cycles ps m t =
     (case m_proc_period m of None \<Rightarrow> Inl NullPointer | Some p \<Rightarrow> subsecondTimeToCycles ps p t)"

definition getNumUsed_cycles :: "periods \<Rightarrow> ContentionModel \<Rightarrow> UInt64 \<Rightarrow> UInt32 res" where
  "getNumUsed_cycles ps m t_start = bindE (to_time ps m t_start) (\<lambda>t. Inr (getNumUsed m t))"

definition hasFreeSlot_cycles :: "periods \<Rightarrow> UInt64 \<Rightarrow> UInt64 \<Rightarrow> ContentionModel \<Rightarrow> (bool \<times> ContentionModel) res" where
  "hasFreeSlot_cycles ps t_start tag m = bindE (to_time ps m t_start) (\<lambda>t. Inr (hasFreeSlot t tag m))"

definition getBarrierCompletionTime_cycles ::
  "periods \<Rightarrow> UInt64 \<Rightarrow> UInt64 \<Rightarrow> UInt64 \<Rightarrow> ContentionModel \<Rightarrow> (UInt64 \<times> ContentionModel) res" where
  "getBarrierCompletionTime_cycles ps t_start t_delay tag m =
     bindE (to_time ps m t_start) (\<lambda>start. bindE (to_time ps m t_delay)
     (\<lambda>delay. let (t, m') = getBarrierCompletionTime start delay tag m in bindE (to_cycles ps m' t) (\<lambda>c. Inr (c, m'))))"

definition getCompletionTime_cycles ::
  "periods \<Rightarrow> UInt64 \<Rightarrow> UInt64 \<Rightarrow> UInt64 \<Rightarrow> ContentionModel \<Rightarrow> (UInt64 \<times> ContentionModel) res" where
  "getCompletionTime_cycles ps t_start t_delay tag m =
     bindE (to_time ps m t_start) (\<lambda>start. bindE (to_time ps m t_delay)
     (\<lambda>delay. let (t, m') = getCompletionTime start delay tag m in bindE (to_cycles ps m' t) (\<lambda>c. Inr (c, m'))))"

definition getStartTime_cycles :: "periods \<Rightarrow> UInt64 \<Rightarrow> ContentionModel \<Rightarrow> UInt64 res" where
  "getStartTime_cycles ps t_start m = bindE (to_time ps m t_start) (\<lambda>t. to_cycles ps m (getStartTime t m))"

section \<open>The unit that is chosen\<close>

definition cm_wf :: "ContentionModel \<Rightarrow> bool" where
  "cm_wf m \<longleftrightarrow> length (m_time m) = m_num_outstanding m"

lemma mk_ContentionModel_wf: "cm_wf (mk_ContentionModel p n)"
  by (simp add: cm_wf_def mk_ContentionModel_def)

text \<open>Either a unit that is free, or one that is free before all of those looked at, when none of them is.\<close>

lemma find_unit_spec:
  assumes "unit < n" and "set is \<subseteq> {..<n}"
  shows "find_unit m t unit is < n \<and>
    (free_at m (find_unit m t unit is) \<le> t \<or> (\<forall>i\<in>insert unit (set is). free_at m (find_unit m t unit is) \<le> free_at m i))"
  using assms
proof (induction "is" arbitrary: unit)
  case (Cons i "is")
  consider "free_at m i \<le> t" | "\<not> free_at m i \<le> t" "free_at m i < free_at m unit" | "\<not> free_at m i \<le> t" "\<not> free_at m i < free_at m unit"
    by blast
  then show ?case
  proof cases
    case 2
    with Cons show ?thesis using Cons.IH [of i] by fastforce
  next
    case 3
    with Cons show ?thesis using Cons.IH [of unit] by fastforce
  qed (use Cons in simp)
qed simp

lemma start_scan_find_unit:
  "start_scan m t unit is = (let u = find_unit m t unit is in if t < free_at m u then free_at m u else t)"
  by (induction "is" arbitrary: unit) auto

lemma free_at_stats [simp]: "find_unit (m\<lparr>m_n_simultaneous := x\<rparr>) t u is = find_unit m t u is"
  by (induction "is" arbitrary: u) auto

text \<open>A request that takes a unit: not at time zero, and not earlier than the last one.\<close>

definition takes_unit :: "ContentionModel \<Rightarrow> SubsecondTime \<Rightarrow> bool" where
  "takes_unit m t \<longleftrightarrow> m_num_outstanding m \<noteq> 0 \<and> t \<noteq> 0 \<and> m_t_last m \<le> t"

lemma getCompletionTime_takes:
  assumes "cm_wf m" and "takes_unit m t"
  obtains u where "u < m_num_outstanding m" "free_at m u \<le> getStartTime t m" "t \<le> getStartTime t m"
    "\<forall>i<m_num_outstanding m. getStartTime t m \<le> max t (free_at m i)"
    "fst (getCompletionTime t d tag m) = getStartTime t m + d"
    "m_time (snd (getCompletionTime t d tag m)) = (m_time m)[u := (getStartTime t m + d, tag)]"
proof -
  let ?u = "find_unit m t 0 [0..<m_num_outstanding m]"
  have start: "getStartTime t m = (if t < free_at m ?u then free_at m ?u else t)"
    using assms by (auto simp: getStartTime_def takes_unit_def start_scan_find_unit Let_def)
  have pos: "0 < m_num_outstanding m" and sub: "set [0..<m_num_outstanding m] \<subseteq> {..<m_num_outstanding m}"
    using assms(2) by (auto simp: takes_unit_def)
  have spec: "?u < m_num_outstanding m"
    "free_at m ?u \<le> t \<or> (\<forall>i\<in>insert 0 (set [0..<m_num_outstanding m]). free_at m ?u \<le> free_at m i)"
    using find_unit_spec [OF pos sub, of m t] by blast+
  show thesis
  proof (rule that [of ?u])
    show "\<forall>i<m_num_outstanding m. getStartTime t m \<le> max t (free_at m i)"
      using spec(2) start by (fastforce simp: le_max_iff_disj)
    have "getCompletionTime t d tag m = (getStartTime t m + d, snd (getCompletionTime t d tag m)) \<and>
        m_time (snd (getCompletionTime t d tag m)) = (m_time m)[?u := (getStartTime t m + d, tag)]"
      using assms(2) unfolding start by (auto simp: getCompletionTime_def takes_unit_def Let_def)
    then show "fst (getCompletionTime t d tag m) = getStartTime t m + d"
      "m_time (snd (getCompletionTime t d tag m)) = (m_time m)[?u := (getStartTime t m + d, tag)]" by (simp_all add: prod_eq_iff)
  qed (use spec(1) start in auto)
qed

lemma getCompletionTime_other: "\<not> takes_unit m t \<Longrightarrow> m_time (snd (getCompletionTime t d tag m)) = m_time m"
  by (auto simp: takes_unit_def getCompletionTime_def Let_def)

text \<open>The start of a request that is not out of order.\<close>

lemma getStartTime_earliest:
  assumes "cm_wf m" and "m_num_outstanding m \<noteq> 0" and "m_t_last m \<le> t"
  shows "getStartTime t m = max t (Min (fst ` set (m_time m)))"
proof -
  let ?n = "m_num_outstanding m" and ?u = "find_unit m t 0 [0..<m_num_outstanding m]" and ?T = "fst ` set (m_time m)"
  have start: "getStartTime t m = (if t < free_at m ?u then free_at m ?u else t)"
    using assms(2,3) by (auto simp: getStartTime_def start_scan_find_unit Let_def)
  have len: "length (m_time m) = ?n" using assms(1) by (simp add: cm_wf_def)
  have pos: "0 < ?n" and sub: "set [0..<?n] \<subseteq> {..<?n}" using assms(2) by auto
  have u: "?u < ?n" "free_at m ?u \<le> t \<or> (\<forall>i\<in>insert 0 (set [0..<?n]). free_at m ?u \<le> free_at m i)"
    using find_unit_spec [OF pos sub, of m t] by blast+
  have mem: "free_at m ?u \<in> ?T" using u(1) len by auto
  show ?thesis
  proof (cases "free_at m ?u \<le> t")
    case True
    then have "Min ?T \<le> t" using mem by (meson Min_le finite_imageI finite_set order.trans)
    then show ?thesis using start True by (simp add: max_absorb1 leD)
  next
    case False
    then have "free_at m ?u \<le> free_at m i" if "i < ?n" for i using u(2) that by auto
    then have "\<forall>y\<in>set (m_time m). free_at m ?u \<le> fst y" unfolding all_set_conv_all_nth using len by simp
    then have "free_at m ?u \<le> x" if "x \<in> ?T" for x using that by (elim imageE) simp
    then have "Min ?T = free_at m ?u" using mem by (intro Min_eqI) simp_all
    then show ?thesis using start False by (simp add: max_absorb2 not_le less_imp_le)
  qed
qed

text \<open>
  C24. Prediction and choice of the unit, for every request on every well-formed model. The start that \<^verbatim>\<open>getStartTime\<close>
  predicts is the arrival when there are no units or the request is earlier than the last one, and otherwise the later of
  the arrival and the earliest time at which a unit is free. \<^verbatim>\<open>getCompletionTime\<close> returns that start plus the delay, except for
  a request at time zero, which it answers with the delay alone; it takes a unit exactly when there are units and the
  request is neither at time zero nor out of order, and otherwise leaves all of them as they are.
\<close>

theorem completion_time_earliest:
  assumes "cm_wf m"
  shows "getStartTime t m =
      (if m_num_outstanding m = 0 \<or> t < m_t_last m then t else max t (Min (fst ` set (m_time m)))) \<and>
    fst (getCompletionTime t d tag m) = (if t = 0 then d else getStartTime t m + d) \<and>
    (if m_num_outstanding m \<noteq> 0 \<and> t \<noteq> 0 \<and> m_t_last m \<le> t
     then \<exists>u<m_num_outstanding m. free_at m u \<le> getStartTime t m \<and>
            m_time (snd (getCompletionTime t d tag m)) = (m_time m)[u := (getStartTime t m + d, tag)]
     else m_time (snd (getCompletionTime t d tag m)) = m_time m)"
proof (intro conjI)
  show "getStartTime t m = (if m_num_outstanding m = 0 \<or> t < m_t_last m then t else max t (Min (fst ` set (m_time m))))"
  proof (cases "m_num_outstanding m = 0 \<or> t < m_t_last m")
    case True
    then show ?thesis by (auto simp: getStartTime_def)
  next
    case False
    then show ?thesis using getStartTime_earliest [OF assms, of t] by (auto simp: not_less)
  qed
  show "fst (getCompletionTime t d tag m) = (if t = 0 then d else getStartTime t m + d)"
  proof (cases "takes_unit m t")
    case True
    from getCompletionTime_takes [OF assms True, of d tag] have "fst (getCompletionTime t d tag m) = getStartTime t m + d" by blast
    then show ?thesis using True by (simp add: takes_unit_def)
  qed (auto simp: takes_unit_def getCompletionTime_def getStartTime_def Let_def)
  show "if m_num_outstanding m \<noteq> 0 \<and> t \<noteq> 0 \<and> m_t_last m \<le> t
     then \<exists>u<m_num_outstanding m. free_at m u \<le> getStartTime t m \<and>
            m_time (snd (getCompletionTime t d tag m)) = (m_time m)[u := (getStartTime t m + d, tag)]
     else m_time (snd (getCompletionTime t d tag m)) = m_time m"
  proof (cases "takes_unit m t")
    case True
    from getCompletionTime_takes [OF assms True, of d tag] obtain u where "u < m_num_outstanding m" "free_at m u \<le> getStartTime t m"
      "m_time (snd (getCompletionTime t d tag m)) = (m_time m)[u := (getStartTime t m + d, tag)]" by blast
    then show ?thesis using True unfolding takes_unit_def by auto
  next
    case False
    then show ?thesis using getCompletionTime_other [OF False] by (simp only: takes_unit_def if_False)
  qed
qed

theorem completion_time_earliest_witness:
  "fst (getCompletionTime 10 4 7 ((mk_ContentionModel None 2)\<lparr>m_time := [(15, 1), (12, 2)]\<rparr>)) = 16"
proof -
  let ?m = "(mk_ContentionModel None 2)\<lparr>m_time := [(15, 1), (12, 2)]\<rparr>"
  have "cm_wf ?m" by (simp add: cm_wf_def mk_ContentionModel_def)
  from completion_time_earliest [OF this, of 10 4 7] show ?thesis by (simp add: mk_ContentionModel_def)
qed

text \<open>After a barrier the start predicted for a request at time zero is not the one that is used.\<close>

lemma start_at_zero_differs:
  "let m = snd (getBarrierCompletionTime 5 10 0 (mk_ContentionModel None 1))
   in getStartTime 0 m = 15 \<and> fst (getCompletionTime 0 4 1 m) = 4"
  by code_simp

section \<open>The units are not oversubscribed\<close>

text \<open>Uses of the model, and the intervals for which they keep a unit. A barrier keeps all units.\<close>

datatype cm_op =
    Completion SubsecondTime SubsecondTime UInt64
  | BarrierCompletion SubsecondTime SubsecondTime UInt64
  | FreeSlot SubsecondTime UInt64

fun cm_step :: "cm_op \<Rightarrow> ContentionModel \<Rightarrow> ContentionModel" where
  "cm_step (Completion t d tag) m = snd (getCompletionTime t d tag m)"
| "cm_step (BarrierCompletion t d tag) m = snd (getBarrierCompletionTime t d tag m)"
| "cm_step (FreeSlot t tag) m = snd (hasFreeSlot t tag m)"

text \<open>Every request is in service for its delay until the completion time it is given.\<close>

fun cm_jobs :: "cm_op \<Rightarrow> ContentionModel \<Rightarrow> (SubsecondTime \<times> SubsecondTime) list" where
  "cm_jobs (Completion t d tag) m = (let e = fst (getCompletionTime t d tag m) in [(e - d, e)])"
| "cm_jobs (BarrierCompletion t d tag) m =
     (let e = fst (getBarrierCompletionTime t d tag m) in replicate (m_num_outstanding m) (e - d, e))"
| "cm_jobs (FreeSlot t tag) m = []"

text \<open>The requests that are answered without a unit: at time zero, or earlier than the last one that took a unit.\<close>

fun cm_bypass_jobs :: "cm_op \<Rightarrow> ContentionModel \<Rightarrow> (SubsecondTime \<times> SubsecondTime) list" where
  "cm_bypass_jobs (Completion t d tag) m = (if takes_unit m t then [] else cm_jobs (Completion t d tag) m)"
| "cm_bypass_jobs (BarrierCompletion t d tag) m = []"
| "cm_bypass_jobs (FreeSlot t tag) m = []"

fun cm_history :: "cm_op list \<Rightarrow> ContentionModel \<Rightarrow> (SubsecondTime \<times> SubsecondTime) list" where
  "cm_history [] m = []"
| "cm_history (op # ops) m = cm_jobs op m @ cm_history ops (cm_step op m)"

fun cm_bypass :: "cm_op list \<Rightarrow> ContentionModel \<Rightarrow> (SubsecondTime \<times> SubsecondTime) list" where
  "cm_bypass [] m = []"
| "cm_bypass (op # ops) m = cm_bypass_jobs op m @ cm_bypass ops (cm_step op m)"

text \<open>The requests of a sequence are in order: none at time zero, and none earlier than one before it.\<close>

fun arrivals_in_order :: "SubsecondTime \<Rightarrow> cm_op list \<Rightarrow> bool" where
  "arrivals_in_order prev [] \<longleftrightarrow> True"
| "arrivals_in_order prev (Completion t d tag # ops) \<longleftrightarrow> t \<noteq> 0 \<and> prev \<le> t \<and> arrivals_in_order t ops"
| "arrivals_in_order prev (BarrierCompletion t d tag # ops) \<longleftrightarrow> arrivals_in_order prev ops"
| "arrivals_in_order prev (FreeSlot t tag # ops) \<longleftrightarrow> arrivals_in_order prev ops"

definition busy :: "SubsecondTime \<Rightarrow> (SubsecondTime \<times> SubsecondTime) list \<Rightarrow> nat" where
  "busy x jobs = length (filter (\<lambda>(b, e). b \<le> x \<and> x < e) jobs)"

lemma busy_simps [simp]:
  "busy x [] = 0" "busy x (js @ ks) = busy x js + busy x ks"
  "busy x [j] = (if fst j \<le> x \<and> x < snd j then 1 else 0)"
  "busy x (replicate n j) = (if fst j \<le> x \<and> x < snd j then n else 0)"
  by (auto simp: busy_def filter_replicate split: prod.splits)

text \<open>The units that are free at time \<open>x\<close>.\<close>

definition idle :: "SubsecondTime \<Rightarrow> ContentionModel \<Rightarrow> nat set" where
  "idle x m = {u. u < m_num_outstanding m \<and> free_at m u \<le> x}"

lemma finite_idle [simp]: "finite (idle x m)"
  by (simp add: idle_def)

lemma latest_ge: "t \<le> latest m t \<and> (\<forall>i<m_num_outstanding m. free_at m i \<le> latest m t)"
proof -
  have "t \<le> fold (\<lambda>i t. if free_at m i > t then free_at m i else t) [0..<k] t \<and>
      (\<forall>i<k. free_at m i \<le> fold (\<lambda>i t. if free_at m i > t then free_at m i else t) [0..<k] t)" for k
    by (induction k) (fastforce simp: less_Suc_eq)+
  then show ?thesis by (simp add: latest_def)
qed

lemma getBarrierCompletionTime_time:
  assumes "cm_wf m"
  shows "m_time (snd (getBarrierCompletionTime t d tag m)) = replicate (m_num_outstanding m) (latest m t + d, tag)"
  using assms fold_upt_update [of "m_num_outstanding m" "m_time m" "\<lambda>_. (latest m t + d, tag)"]
  by (auto simp: getBarrierCompletionTime_def Let_def cm_wf_def map_replicate_const)

lemma cm_step_wf: "cm_wf m \<Longrightarrow> cm_wf (cm_step op m) \<and> m_num_outstanding (cm_step op m) = m_num_outstanding m"
proof (cases op)
  case (BarrierCompletion t d tag)
  assume "cm_wf m"
  then show ?thesis
    using getBarrierCompletionTime_time [of m t d tag] BarrierCompletion
    by (simp add: cm_wf_def) (simp add: getBarrierCompletionTime_def Let_def)
qed (auto simp: cm_wf_def getCompletionTime_def hasFreeSlot_def Let_def split: option.splits)

text \<open>A use that is under way at time \<open>x\<close> takes as many units from those that are free then, or bypasses them.\<close>

lemma completion_idle:
  assumes wf: "cm_wf m" and takes: "takes_unit m t" and ok: "\<forall>(b, e)\<in>set (cm_jobs (Completion t d tag) m). b \<le> e"
  shows "busy x (cm_jobs (Completion t d tag) m) + card (idle x (cm_step (Completion t d tag) m)) \<le> card (idle x m)"
proof -
  let ?n = "m_num_outstanding m" and ?m' = "cm_step (Completion t d tag) m"
  have n: "m_num_outstanding ?m' = ?n" using cm_step_wf [OF wf] by blast
  from getCompletionTime_takes [OF wf takes, of d tag] obtain u where u: "u < ?n" "free_at m u \<le> getStartTime t m"
    "fst (getCompletionTime t d tag m) = getStartTime t m + d"
    "m_time (snd (getCompletionTime t d tag m)) = (m_time m)[u := (getStartTime t m + d, tag)]" by blast
  have le: "getStartTime t m \<le> getStartTime t m + d" using ok u(3) by simp
  have idle': "idle x ?m' = {v. v < ?n \<and> (if v = u then getStartTime t m + d else free_at m v) \<le> x}"
    using u(1,4) n wf by (auto simp: idle_def cm_wf_def nth_list_update)
  show ?thesis
  proof (cases "getStartTime t m \<le> x \<and> x < getStartTime t m + d")
    case now: True
    then have "u \<in> idle x m" "idle x ?m' = idle x m - {u}"
      using u(1,2) unfolding idle' by (auto simp: idle_def split: if_splits)
    then have "Suc (card (idle x ?m')) = card (idle x m)" by (metis card_Suc_Diff1 finite_idle)
    then show ?thesis using now u(3) by simp
  next
    case False
    have "idle x ?m' \<subseteq> idle x m" using u(1,2) le unfolding idle' by (auto simp: idle_def split: if_splits)
    then have "card (idle x ?m') \<le> card (idle x m)" by (intro card_mono) auto
    moreover have "busy x (cm_jobs (Completion t d tag) m) = 0" using False u(3) by auto
    ultimately show ?thesis by simp
  qed
qed

lemma barrier_idle:
  assumes wf: "cm_wf m" and ok: "\<forall>(b, e)\<in>set (cm_jobs (BarrierCompletion t d tag) m). b \<le> e"
  shows "busy x (cm_jobs (BarrierCompletion t d tag) m) + card (idle x (cm_step (BarrierCompletion t d tag) m)) \<le> card (idle x m)"
proof (cases "m_num_outstanding m = 0")
  case False
  let ?n = "m_num_outstanding m" and ?m' = "cm_step (BarrierCompletion t d tag) m" and ?e = "latest m t + d"
  have n: "m_num_outstanding ?m' = ?n" using cm_step_wf [OF wf] by blast
  have e: "fst (getBarrierCompletionTime t d tag m) = ?e" using False by (simp add: getBarrierCompletionTime_def Let_def)
  have le: "latest m t \<le> ?e" using ok False e by simp
  have idle': "idle x ?m' = {v. v < ?n \<and> ?e \<le> x}"
    using getBarrierCompletionTime_time [OF wf, of t d tag] n by (auto simp: idle_def)
  show ?thesis
  proof (cases "latest m t \<le> x")
    case True
    then have all: "idle x m = {..<?n}" using latest_ge [of t m] by (auto simp: idle_def)
    have "idle x ?m' = (if ?e \<le> x then {..<?n} else {})" using idle' by auto
    then show ?thesis using e all by auto
  next
    case late: False
    then have "\<not> ?e \<le> x" using le by (meson order.trans)
    then have "idle x ?m' = {}" using idle' by simp
    then show ?thesis using late e by simp
  qed
qed (use cm_step_wf [OF wf, of "BarrierCompletion t d tag"] in \<open>simp add: idle_def\<close>)

lemma cm_step_idle:
  assumes wf: "cm_wf m" and ok: "\<forall>(b, e)\<in>set (cm_jobs op m). b \<le> e"
  shows "busy x (cm_jobs op m) + card (idle x (cm_step op m)) \<le> busy x (cm_bypass_jobs op m) + card (idle x m)"
proof (cases op)
  case (Completion t d tag)
  show ?thesis
  proof (cases "takes_unit m t")
    case True
    then show ?thesis using completion_idle [OF wf True ok [unfolded Completion]] by (simp add: Completion)
  next
    case False
    have "m_num_outstanding (cm_step op m) = m_num_outstanding m" using cm_step_wf [OF wf] by simp
    then show ?thesis using False by (simp add: Completion idle_def getCompletionTime_other)
  qed
next
  case (BarrierCompletion t d tag)
  then show ?thesis using barrier_idle [OF wf ok [unfolded BarrierCompletion]] by simp
qed (simp add: idle_def hasFreeSlot_def split: option.splits)

lemma cm_history_idle:
  assumes "cm_wf m" and "\<forall>(b, e)\<in>set (cm_history ops m). b \<le> e"
  shows "busy x (cm_history ops m) \<le> busy x (cm_bypass ops m) + card (idle x m)"
  using assms
proof (induction ops arbitrary: m)
  case (Cons op ops)
  then have "busy x (cm_history ops (cm_step op m)) \<le> busy x (cm_bypass ops (cm_step op m)) + card (idle x (cm_step op m))"
    using cm_step_wf [of m op] by (intro Cons.IH) auto
  moreover have "busy x (cm_jobs op m) + card (idle x (cm_step op m)) \<le> busy x (cm_bypass_jobs op m) + card (idle x m)"
    using Cons.prems by (intro cm_step_idle) auto
  ultimately show ?case by simp
qed simp

lemma cm_bypass_in_order:
  assumes "cm_wf m" and "m_num_outstanding m \<noteq> 0" and "arrivals_in_order (m_t_last m) ops"
  shows "cm_bypass ops m = []"
  using assms
proof (induction ops arbitrary: m)
  case (Cons op ops)
  have step: "m_t_last (cm_step op m) = (case op of Completion t d tag \<Rightarrow> t | _ \<Rightarrow> m_t_last m)"
    using Cons.prems by (cases op) (auto simp: getCompletionTime_def getBarrierCompletionTime_def hasFreeSlot_def Let_def split: option.splits)
  have "arrivals_in_order (m_t_last (cm_step op m)) ops" using Cons.prems(3) unfolding step by (cases op) auto
  then have "cm_bypass ops (cm_step op m) = []" using Cons.IH [of "cm_step op m"] cm_step_wf [OF Cons.prems(1), of op] Cons.prems(2) by simp
  moreover have "cm_bypass_jobs op m = []" using Cons.prems by (cases op) (auto simp: takes_unit_def)
  ultimately show ?case by simp
qed simp

text \<open>
  C22. A resource with \<open>n\<close> units does the work of \<open>n\<close> units. Take every sequence of requests, barriers and queries on a new
  contention model in which no completion time wraps around, and count as in service every request from its delay before its
  completion time on (a barrier as \<open>n\<close> of them). At every moment at most \<open>n\<close> are in service besides those that were answered
  without a unit, which are the ones at time zero or earlier than the last request; when no request is at time zero or
  earlier than one before it, at most \<open>n\<close> are in service.
\<close>

theorem units_not_oversubscribed:
  assumes "\<forall>(b, e)\<in>set (cm_history ops (mk_ContentionModel p n)). b \<le> e"
  shows "busy x (cm_history ops (mk_ContentionModel p n)) \<le> unat n + busy x (cm_bypass ops (mk_ContentionModel p n)) \<and>
    (n \<noteq> 0 \<and> arrivals_in_order 0 ops \<longrightarrow> busy x (cm_history ops (mk_ContentionModel p n)) \<le> unat n)"
proof -
  let ?m = "mk_ContentionModel p n"
  have "busy x (cm_history ops ?m) \<le> busy x (cm_bypass ops ?m) + card (idle x ?m)"
    by (rule cm_history_idle [OF mk_ContentionModel_wf assms])
  moreover have "card (idle x ?m) \<le> card {..<unat n}" by (intro card_mono) (auto simp: idle_def mk_ContentionModel_def)
  moreover have "cm_bypass ops ?m = []" if "n \<noteq> 0" "arrivals_in_order 0 ops"
    using that by (intro cm_bypass_in_order [OF mk_ContentionModel_wf]) (auto simp: mk_ContentionModel_def unat_eq_0)
  ultimately show ?thesis by auto
qed

theorem units_not_oversubscribed_witness:
  "busy 21 (cm_history [Completion 10 20 1, Completion 11 9 2, Completion 12 30 3, BarrierCompletion 5 10 4]
     (mk_ContentionModel None 2)) \<le> 2"
proof -
  let ?ops = "[Completion 10 20 1, Completion 11 9 2, Completion 12 30 3, BarrierCompletion 5 10 4]"
  have "cm_history ?ops (mk_ContentionModel None 2) = [(10, 30), (11, 20), (20, 50), (50, 60), (50, 60)]" by code_simp
  then have "\<forall>(b, e)\<in>set (cm_history ?ops (mk_ContentionModel None 2)). b \<le> e" by simp
  from units_not_oversubscribed [OF this, of 21] show ?thesis by simp
qed

text \<open>The order is needed: the one unit is busy until 30, and a request that comes late for time 5 is served beside it.\<close>

lemma out_of_order_oversubscribes:
  "busy 11 (cm_history [Completion 10 20 1, Completion 5 20 2] (mk_ContentionModel None 1)) = 2"
  by code_simp

end
