(* ===== verification/LS_Queue_Model.thy ===== *)
theory LS_Queue_Model
  imports LS_Moving_Average LS_Contention
begin

text \<open>
  The queue models (\<^verbatim>\<open>common/performance_model/queue_model*.cc\<close>): how long a request that arrives at \<^verbatim>\<open>pkt_time\<close> and needs
  \<^verbatim>\<open>processing_time\<close> waits for a bus or a link. Floating point is an argument: \<open>root\<close> of the geometric mean and \<open>estimate\<close>,
  the waiting time of the M/G/1 formula from the sum of service times, the number of arrivals, the window in picoseconds and
  the mean square of the service time. Settings are arguments of the constructors, statistics are fields.
\<close>

section \<open>Basic model\<close>

record QueueModelBasic =
  m_queue_time :: SubsecondTime
  m_moving_average :: "MovingAverage option"

definition mk_QueueModelBasic :: "bool \<Rightarrow> UInt32 \<Rightarrow> string \<Rightarrow> QueueModelBasic res" where
  "mk_QueueModelBasic moving_avg_enabled moving_avg_window_size moving_avg_type_str =
     (if moving_avg_enabled
      then bindE (parseAvgType moving_avg_type_str)
           (\<lambda>t. Inr \<lparr>m_queue_time = 0, m_moving_average = Some (createAvgType t moving_avg_window_size)\<rparr>)
      else Inr \<lparr>m_queue_time = 0, m_moving_average = None\<rparr>)"

definition basic_computeQueueDelay ::
  "(UInt64 \<Rightarrow> UInt32 \<Rightarrow> UInt64) \<Rightarrow> SubsecondTime \<Rightarrow> SubsecondTime \<Rightarrow> QueueModelBasic \<Rightarrow> (SubsecondTime \<times> QueueModelBasic) res" where
  "basic_computeQueueDelay root pkt_time processing_time q =
     bindE (case m_moving_average q of
              Some m \<Rightarrow> map_sum id (map_prod id Some) (ma_compute_next root pkt_time m)
            | None \<Rightarrow> Inr (pkt_time, None))
     (\<lambda>(ref_time, m).
        Inr (if m_queue_time q > ref_time then m_queue_time q - ref_time else 0,
             q\<lparr>m_moving_average := m, m_queue_time := max (m_queue_time q) ref_time + processing_time\<rparr>))"

section \<open>History list\<close>

record QueueModelHistoryList =
  m_min_processing_time :: SubsecondTime
  m_max_free_interval_list_size :: UInt32
  m_free_interval_list :: "(SubsecondTime \<times> SubsecondTime) list"
  m_utilized_time :: SubsecondTime
  m_total_queue_delay :: SubsecondTime
  m_average_delay :: MovingAverage
  m_analytical_model_enabled :: bool
  m_total_requests :: UInt64
  m_total_requests_using_analytical_model :: UInt64

definition mk_QueueModelHistoryList :: "bool \<Rightarrow> UInt32 \<Rightarrow> SubsecondTime \<Rightarrow> QueueModelHistoryList" where
  "mk_QueueModelHistoryList analytical_model_enabled max_list_size min_processing_time =
     \<lparr>m_min_processing_time = min_processing_time, m_max_free_interval_list_size = max_list_size,
      m_free_interval_list = [(0, push_bit 63 1)], m_utilized_time = 0, m_total_queue_delay = 0,
      m_average_delay = createAvgType ARITHMETIC_MEAN max_list_size, m_analytical_model_enabled = analytical_model_enabled,
      m_total_requests = 0, m_total_requests_using_analytical_model = 0\<rparr>"

text \<open>The loop over the free intervals: the delay and the new list.\<close>

fun history_scan ::
  "SubsecondTime \<Rightarrow> SubsecondTime \<Rightarrow> SubsecondTime \<Rightarrow> (SubsecondTime \<times> SubsecondTime) list
     \<Rightarrow> SubsecondTime \<times> (SubsecondTime \<times> SubsecondTime) list" where
  "history_scan min_time pkt_time processing_time [] = (MaxTime, [])"
| "history_scan min_time pkt_time processing_time ((a, b) # rest) =
     (if pkt_time \<ge> a \<and> pkt_time + processing_time \<le> b
      then (0, (if pkt_time - a \<ge> min_time then [(a, pkt_time)] else []) @
               (if b - (pkt_time + processing_time) \<ge> min_time then [(pkt_time + processing_time, b)] else []) @ rest)
      else if pkt_time < a
      then (a - pkt_time, (if b - (a + processing_time) \<ge> min_time then [(a + processing_time, b)] else []) @ rest)
      else let (queue_delay, rest) = history_scan min_time pkt_time processing_time rest in (queue_delay, (a, b) # rest))"

definition computeUsingHistoryList ::
  "SubsecondTime \<Rightarrow> SubsecondTime \<Rightarrow> QueueModelHistoryList \<Rightarrow> (SubsecondTime \<times> QueueModelHistoryList) res" where
  "computeUsingHistoryList pkt_time processing_time q =
     bindE (assertE (length (m_free_interval_list q) \<le> unat (m_max_free_interval_list_size q))
              (AssertError ''Free Interval list size(%u) > %u''))
     (\<lambda>_. let (queue_delay, ivs) = history_scan (m_min_processing_time q) pkt_time processing_time (m_free_interval_list q)
          in bindE (assertE (queue_delay \<noteq> MaxTime) (AssertError ''queue delay(%s), free interval not found''))
             (\<lambda>_. Inr (queue_delay,
                q\<lparr>m_free_interval_list := if length ivs > unat (m_max_free_interval_list_size q) then tl ivs else ivs\<rparr>)))"

definition computeUsingAnalyticalModel :: "(UInt64 \<Rightarrow> UInt32 \<Rightarrow> UInt64) \<Rightarrow> QueueModelHistoryList \<Rightarrow> SubsecondTime res" where
  "computeUsingAnalyticalModel root q = ma_compute root (m_average_delay q)"

definition updateAverageDelay :: "SubsecondTime \<Rightarrow> QueueModelHistoryList \<Rightarrow> QueueModelHistoryList res" where
  "updateAverageDelay queue_delay q =
     bindE (ma_update queue_delay (m_average_delay q)) (\<lambda>m. Inr (q\<lparr>m_average_delay := m\<rparr>))"

definition updateQueueUtilization :: "SubsecondTime \<Rightarrow> QueueModelHistoryList \<Rightarrow> QueueModelHistoryList" where
  "updateQueueUtilization processing_time q = q\<lparr>m_utilized_time := m_utilized_time q + processing_time\<rparr>"

definition history_computeQueueDelay ::
  "(UInt64 \<Rightarrow> UInt32 \<Rightarrow> UInt64) \<Rightarrow> SubsecondTime \<Rightarrow> SubsecondTime \<Rightarrow> QueueModelHistoryList
     \<Rightarrow> (SubsecondTime \<times> QueueModelHistoryList) res" where
  "history_computeQueueDelay root pkt_time processing_time q =
     bindE (assertE (length (m_free_interval_list q) \<ge> 1) (AssertError ''Free Interval list size < 1''))
     (\<lambda>_. bindE
       (if m_analytical_model_enabled q \<and> pkt_time + processing_time \<le> fst (hd (m_free_interval_list q))
        then let q = q\<lparr>m_total_requests_using_analytical_model := m_total_requests_using_analytical_model q + 1\<rparr>
             in bindE (computeUsingAnalyticalModel root q) (\<lambda>t. Inr (t, q))
        else bindE (computeUsingHistoryList pkt_time processing_time q)
             (\<lambda>(t, q). bindE (updateAverageDelay t q) (\<lambda>q. Inr (t, q))))
     (\<lambda>(queue_delay, q). let q = updateQueueUtilization processing_time q in
        Inr (queue_delay, q\<lparr>m_total_requests := m_total_requests q + 1,
                            m_total_queue_delay := m_total_queue_delay q + queue_delay\<rparr>)))"

section \<open>Contention\<close>

definition contention_computeQueueDelay ::
  "SubsecondTime \<Rightarrow> SubsecondTime \<Rightarrow> ContentionModel \<Rightarrow> SubsecondTime \<times> ContentionModel" where
  "contention_computeQueueDelay pkt_time processing_time m_contention =
     (let (t_complete, m_contention) = getCompletionTime pkt_time processing_time 0 m_contention
      in (t_complete - pkt_time - processing_time, m_contention))"

section \<open>Windowed M/G/1\<close>

text \<open>The multimap of the window is a list in the order of its keys; a new entry goes after those with the same key.\<close>

record QueueModelWindowedMG1 =
  m_window_size :: SubsecondTime
  w_total_requests :: UInt64
  m_total_utilized_time :: SubsecondTime
  w_total_queue_delay :: SubsecondTime
  m_window :: "(SubsecondTime \<times> SubsecondTime) list"
  m_num_arrivals :: UInt64
  m_service_time_sum :: UInt64
  m_service_time_sum2 :: UInt64

definition mk_QueueModelWindowedMG1 :: "UInt64 \<Rightarrow> QueueModelWindowedMG1" where
  "mk_QueueModelWindowedMG1 window_size =
     \<lparr>m_window_size = NS window_size, w_total_requests = 0, m_total_utilized_time = 0, w_total_queue_delay = 0, m_window = [],
      m_num_arrivals = 0, m_service_time_sum = 0, m_service_time_sum2 = 0\<rparr>"

definition multimap_insert :: "SubsecondTime \<Rightarrow> SubsecondTime \<Rightarrow> (SubsecondTime \<times> SubsecondTime) list \<Rightarrow> (SubsecondTime \<times> SubsecondTime) list" where
  "multimap_insert k v m = takeWhile (\<lambda>x. fst x \<le> k) m @ (k, v) # dropWhile (\<lambda>x. fst x \<le> k) m"

definition addItem :: "SubsecondTime \<Rightarrow> SubsecondTime \<Rightarrow> QueueModelWindowedMG1 \<Rightarrow> QueueModelWindowedMG1" where
  "addItem pkt_time service_time q =
     q\<lparr>m_window := multimap_insert pkt_time service_time (m_window q), m_num_arrivals := m_num_arrivals q + 1,
       m_service_time_sum := m_service_time_sum q + getPS service_time,
       m_service_time_sum2 := m_service_time_sum2 q + getPS service_time * getPS service_time\<rparr>"

fun remove_items :: "SubsecondTime \<Rightarrow> (SubsecondTime \<times> SubsecondTime) list \<Rightarrow> QueueModelWindowedMG1 \<Rightarrow> QueueModelWindowedMG1" where
  "remove_items earliest_time [] q = q\<lparr>m_window := []\<rparr>"
| "remove_items earliest_time ((k, v) # m) q =
     (if k < earliest_time
      then remove_items earliest_time m
             (q\<lparr>m_num_arrivals := m_num_arrivals q - 1, m_service_time_sum := m_service_time_sum q - getPS v,
                m_service_time_sum2 := m_service_time_sum2 q - getPS v * getPS v\<rparr>)
      else q\<lparr>m_window := (k, v) # m\<rparr>)"

definition removeItems :: "SubsecondTime \<Rightarrow> QueueModelWindowedMG1 \<Rightarrow> QueueModelWindowedMG1" where
  "removeItems earliest_time q = remove_items earliest_time (m_window q) q"

definition windowed_computeQueueDelay ::
  "(UInt64 \<Rightarrow> UInt64 \<Rightarrow> UInt64 \<Rightarrow> UInt64 \<Rightarrow> SubsecondTime) \<Rightarrow> SubsecondTime \<Rightarrow> SubsecondTime \<Rightarrow> SubsecondTime
     \<Rightarrow> QueueModelWindowedMG1 \<Rightarrow> SubsecondTime \<times> QueueModelWindowedMG1" where
  "windowed_computeQueueDelay estimate global_time pkt_time processing_time q =
     (let q = removeItems (max (global_time - m_window_size q) (pkt_time - 10 * m_window_size q)) q;
          t_queue = (if m_num_arrivals q > 1
                     then let t = estimate (m_service_time_sum q) (m_num_arrivals q) (getPS (m_window_size q))
                                    (m_service_time_sum2 q div m_num_arrivals q)
                          in if t > m_window_size q then m_window_size q else t
                     else 0);
          q = addItem pkt_time processing_time q
      in (t_queue, q\<lparr>w_total_requests := w_total_requests q + 1,
                     m_total_utilized_time := m_total_utilized_time q + processing_time,
                     w_total_queue_delay := w_total_queue_delay q + t_queue\<rparr>))"

section \<open>The models behind one interface\<close>

datatype QueueModel =
    Basic QueueModelBasic
  | HistoryList QueueModelHistoryList
  | Contention ContentionModel
  | WindowedMG1 QueueModelWindowedMG1

record queue_cfg =
  moving_avg_enabled :: bool
  moving_avg_window_size :: UInt32
  moving_avg_type :: string
  analytical_model_enabled :: bool
  max_list_size :: UInt32
  window_size :: UInt64

definition QueueModel_create :: "queue_cfg \<Rightarrow> period_ptr \<Rightarrow> string \<Rightarrow> SubsecondTime \<Rightarrow> QueueModel res" where
  "QueueModel_create cfg domain model_type min_processing_time =
     (if model_type = ''basic''
      then map_sum id Basic (mk_QueueModelBasic (moving_avg_enabled cfg) (moving_avg_window_size cfg) (moving_avg_type cfg))
      else if model_type = ''history_list''
      then Inr (HistoryList (mk_QueueModelHistoryList (analytical_model_enabled cfg) (max_list_size cfg) min_processing_time))
      else if model_type = ''contention'' then Inr (Contention (mk_ContentionModel (Some domain) 1))
      else if model_type = ''windowed_mg1'' then Inr (WindowedMG1 (mk_QueueModelWindowedMG1 (window_size cfg)))
      else Inl (LogError ''Unrecognized Queue Model Type(%s)''))"

record queue_env =
  qe_root :: "UInt64 \<Rightarrow> UInt32 \<Rightarrow> UInt64"
  qe_estimate :: "UInt64 \<Rightarrow> UInt64 \<Rightarrow> UInt64 \<Rightarrow> UInt64 \<Rightarrow> SubsecondTime"
  qe_global_time :: SubsecondTime

fun computeQueueDelay :: "queue_env \<Rightarrow> SubsecondTime \<Rightarrow> SubsecondTime \<Rightarrow> QueueModel \<Rightarrow> (SubsecondTime \<times> QueueModel) res" where
  "computeQueueDelay env t d (Basic q) = map_sum id (map_prod id Basic) (basic_computeQueueDelay (qe_root env) t d q)"
| "computeQueueDelay env t d (HistoryList q) = map_sum id (map_prod id HistoryList) (history_computeQueueDelay (qe_root env) t d q)"
| "computeQueueDelay env t d (Contention q) = Inr (map_prod id Contention (contention_computeQueueDelay t d q))"
| "computeQueueDelay env t d (WindowedMG1 q) =
     Inr (map_prod id WindowedMG1 (windowed_computeQueueDelay (qe_estimate env) (qe_global_time env) t d q))"

section \<open>Exclusive service\<close>

text \<open>The time during which a request is served, and the times at which a sequence of requests is served.\<close>

definition slot :: "SubsecondTime \<Rightarrow> SubsecondTime \<Rightarrow> SubsecondTime \<Rightarrow> nat set" where
  "slot t d delay = {unat t + unat delay..<unat t + unat delay + unat d}"

fun served :: "(SubsecondTime \<Rightarrow> SubsecondTime \<Rightarrow> 's \<Rightarrow> (SubsecondTime \<times> 's) res) \<Rightarrow> 's \<Rightarrow> (SubsecondTime \<times> SubsecondTime) list
    \<Rightarrow> (SubsecondTime list) res" where
  "served serve s [] = Inr []"
| "served serve s ((t, d) # rs) =
     bindE (serve t d s) (\<lambda>(delay, s'). bindE (served serve s' rs) (\<lambda>ds. Inr (delay # ds)))"

text \<open>Which requests of a sequence are booked: those for which the server sets time aside.\<close>

fun booked :: "(SubsecondTime \<Rightarrow> SubsecondTime \<Rightarrow> 's \<Rightarrow> (SubsecondTime \<times> 's) res) \<Rightarrow> (SubsecondTime \<Rightarrow> SubsecondTime \<Rightarrow> 's \<Rightarrow> bool)
    \<Rightarrow> 's \<Rightarrow> (SubsecondTime \<times> SubsecondTime) list \<Rightarrow> bool list" where
  "booked serve books s [] = []"
| "booked serve books s ((t, d) # rs) =
     books t d s # (case serve t d s of Inl e \<Rightarrow> [] | Inr (delay, s') \<Rightarrow> booked serve books s' rs)"

text \<open>The times at which the booked requests are served.\<close>

definition slots :: "bool list \<Rightarrow> (SubsecondTime \<times> SubsecondTime) list \<Rightarrow> SubsecondTime list \<Rightarrow> nat set list" where
  "slots bs rs ds = map2 (\<lambda>b ((t, d), delay). if b then slot t d delay else {}) bs (zip rs ds)"

definition no_overlap :: "nat set list \<Rightarrow> bool" where
  "no_overlap = sorted_wrt (\<lambda>x y. x \<inter> y = {})"

text \<open>
  What a queue model for one server promises: every request is answered, a request that is booked is served within the time
  that is still free, and this time is free no longer.
\<close>

locale exclusive_server =
  fixes serve :: "SubsecondTime \<Rightarrow> SubsecondTime \<Rightarrow> 's \<Rightarrow> (SubsecondTime \<times> 's) res"
    and books :: "SubsecondTime \<Rightarrow> SubsecondTime \<Rightarrow> 's \<Rightarrow> bool"
    and ready :: "'s \<Rightarrow> (SubsecondTime \<times> SubsecondTime) list \<Rightarrow> bool"
    and free :: "'s \<Rightarrow> nat set"
  assumes serve_slot: "ready s ((t, d) # rs) \<Longrightarrow> \<exists>delay s'. serve t d s = Inr (delay, s') \<and> ready s' rs \<and> free s' \<subseteq> free s \<and>
    (books t d s \<longrightarrow> slot t d delay \<subseteq> free s \<and> free s' \<inter> slot t d delay = {})"
begin

lemma served_no_overlap:
  "ready s rs \<Longrightarrow> \<exists>ds. served serve s rs = Inr ds \<and> length ds = length rs \<and> length (booked serve books s rs) = length rs \<and>
     no_overlap (slots (booked serve books s rs) rs ds) \<and> (\<forall>x\<in>set (slots (booked serve books s rs) rs ds). x \<subseteq> free s)"
proof (induction rs arbitrary: s)
  case Nil
  then show ?case by (simp add: slots_def no_overlap_def)
next
  case (Cons r rs)
  obtain t d where r: "r = (t, d)" by fastforce
  obtain delay s' where s: "serve t d s = Inr (delay, s')" "ready s' rs" "free s' \<subseteq> free s"
    "books t d s \<longrightarrow> slot t d delay \<subseteq> free s \<and> free s' \<inter> slot t d delay = {}"
    using serve_slot [of s t d rs] Cons.prems by (auto simp: r)
  let ?bs = "booked serve books s' rs" and ?S = "if books t d s then slot t d delay else {}"
  from Cons.IH [OF s(2)] obtain ds where ds: "served serve s' rs = Inr ds" "length ds = length rs" "length ?bs = length rs"
    "no_overlap (slots ?bs rs ds)" "\<forall>x\<in>set (slots ?bs rs ds). x \<subseteq> free s'" by blast
  have eq: "booked serve books s (r # rs) = books t d s # ?bs" "served serve s (r # rs) = Inr (delay # ds)" using s(1) ds(1) by (simp_all add: r)
  have sl: "slots (booked serve books s (r # rs)) (r # rs) (delay # ds) = ?S # slots ?bs rs ds" using eq(1) by (simp add: slots_def r)
  have "no_overlap (?S # slots ?bs rs ds)" using s(4) ds(4,5) by (fastforce simp: no_overlap_def)
  moreover have "\<forall>x\<in>set (?S # slots ?bs rs ds). x \<subseteq> free s" using s(3,4) ds(5) by auto
  ultimately show ?case using ds(2,3) eq sl by (intro exI [of _ "delay # ds"]) simp
qed

end

section \<open>The basic model serves one request after the other\<close>

text \<open>All requests arrive by \<open>T\<close>, and serving them all after \<open>T\<close> stays below \<open>limit\<close>.\<close>

definition horizon :: "nat \<Rightarrow> nat \<Rightarrow> (SubsecondTime \<times> SubsecondTime) list \<Rightarrow> bool" where
  "horizon limit T rs \<longleftrightarrow> (\<forall>(t, d)\<in>set rs. unat t \<le> T) \<and> T + sum_list (map (unat \<circ> snd) rs) < limit"

lemma horizon_Cons: "horizon limit T ((t, d) # rs) \<Longrightarrow> horizon limit (T + unat d) rs \<and> unat t \<le> T \<and> T + unat d < limit"
  by (fastforce simp: horizon_def)

definition basic_ready :: "QueueModelBasic \<Rightarrow> (SubsecondTime \<times> SubsecondTime) list \<Rightarrow> bool" where
  "basic_ready q rs \<longleftrightarrow> m_moving_average q = None \<and> (\<exists>T. unat (m_queue_time q) \<le> T \<and> horizon (2 ^ 64) T rs)"

lemma unat_max: "unat (max a b) = max (unat a) (unat (b :: 'a::len word))"
  by (simp add: max_def word_le_nat_alt)

lemma basic_serve_slot:
  assumes "basic_ready q ((t, d) # rs)"
  shows "\<exists>delay q'. basic_computeQueueDelay root t d q = Inr (delay, q') \<and> basic_ready q' rs \<and>
    {unat (m_queue_time q')..} \<subseteq> {unat (m_queue_time q)..} \<and>
    (True \<longrightarrow> slot t d delay \<subseteq> {unat (m_queue_time q)..} \<and> {unat (m_queue_time q')..} \<inter> slot t d delay = {})"
proof -
  let ?delay = "if m_queue_time q > t then m_queue_time q - t else 0"
  let ?q = "q\<lparr>m_queue_time := max (m_queue_time q) t + d\<rparr>"
  obtain T where T: "unat (m_queue_time q) \<le> T" "horizon (2 ^ 64) T ((t, d) # rs)" and none: "m_moving_average q = None"
    using assms by (auto simp: basic_ready_def)
  note h = horizon_Cons [OF T(2)]
  have start: "unat t + unat ?delay = max (unat (m_queue_time q)) (unat t)"
    by (auto simp: word_less_nat_alt unat_sub word_le_nat_alt)
  have finish: "unat (m_queue_time ?q) = max (unat (m_queue_time q)) (unat t) + unat d"
  proof -
    have "max (unat (m_queue_time q)) (unat t) + unat d < 2 ^ 64" using h T(1) by linarith
    then show ?thesis using unat_add_nowrap64 [of "max (m_queue_time q) t" d] by (simp add: unat_max)
  qed
  have "basic_ready ?q rs" unfolding basic_ready_def using h T(1) none finish by (auto intro!: exI [of _ "T + unat d"])
  moreover have "basic_computeQueueDelay root t d q = Inr (?delay, ?q)" using none by (simp add: basic_computeQueueDelay_def)
  moreover have "slot t d ?delay = {max (unat (m_queue_time q)) (unat t)..<max (unat (m_queue_time q)) (unat t) + unat d}"
    unfolding slot_def start ..
  ultimately show ?thesis using finish by auto
qed

interpretation basic_server: exclusive_server "basic_computeQueueDelay root" "\<lambda>_ _ _. True" basic_ready
  "\<lambda>q. {unat (m_queue_time q)..}" for root
  by unfold_locales (rule basic_serve_slot)

section \<open>The history list\<close>

text \<open>The free intervals are long enough, in order and disjoint, and the last one has no end.\<close>

definition intervals_ok :: "nat \<Rightarrow> (SubsecondTime \<times> SubsecondTime) list \<Rightarrow> bool" where
  "intervals_ok mn l \<longleftrightarrow> (\<forall>(a, b)\<in>set l. unat a + mn \<le> unat b) \<and> sorted_wrt (\<lambda>(a, b) (a', b'). b \<le> a') l \<and>
     l \<noteq> [] \<and> unat (snd (last l)) = 2 ^ 63"

definition free_times :: "(SubsecondTime \<times> SubsecondTime) list \<Rightarrow> nat set" where
  "free_times l = (\<Union>(a, b)\<in>set l. {unat a..<unat b})"

definition within :: "(SubsecondTime \<times> SubsecondTime) list \<Rightarrow> (SubsecondTime \<times> SubsecondTime) list \<Rightarrow> bool" where
  "within l' l \<longleftrightarrow> (\<forall>(a', b')\<in>set l'. \<exists>(a, b)\<in>set l. a \<le> a' \<and> b' \<le> b)"

lemma free_times_simps [simp]:
  "free_times [] = {}" "free_times ((a, b) # l) = {unat a..<unat b} \<union> free_times l" "free_times (l @ l') = free_times l \<union> free_times l'"
  by (auto simp: free_times_def)

lemma within_bound: "within l' l \<Longrightarrow> \<forall>(a, b)\<in>set l. c \<le> a \<Longrightarrow> \<forall>(a, b)\<in>set l'. c \<le> a"
  by (fastforce simp: within_def)

lemma within_refl: "within l l"
  by (auto simp: within_def)

lemma free_after: "\<forall>(a, b)\<in>set l. c \<le> a \<Longrightarrow> free_times l \<subseteq> {unat c..}"
  by (fastforce simp: free_times_def word_le_nat_alt)

text \<open>The outcome of the scan: \<open>S\<close> is the time that is taken.\<close>

definition scanned :: "nat \<Rightarrow> nat \<Rightarrow> nat set \<Rightarrow> (SubsecondTime \<times> SubsecondTime) list \<Rightarrow> (SubsecondTime \<times> SubsecondTime) list \<Rightarrow> bool" where
  "scanned mn T S l l' \<longleftrightarrow> intervals_ok mn l' \<and> unat (fst (last l')) \<le> T \<and> length l' \<le> Suc (length l) \<and> within l' l \<and>
     S \<subseteq> free_times l \<and> free_times l' \<subseteq> free_times l - S"

text \<open>The first interval is replaced by what is left of it.\<close>

lemma scanned_head:
  assumes ok: "intervals_ok mn ((a, b) # l)"
    and parts: "\<forall>(x, y)\<in>set ps. a \<le> x \<and> unat x + mn \<le> unat y \<and> y \<le> b" "sorted_wrt (\<lambda>(a, b) (a', b'). b \<le> a') ps" "length ps \<le> 2"
    and S: "S \<subseteq> {unat a..<unat b}" "free_times ps \<inter> S = {}"
    and T: "l = [] \<Longrightarrow> ps \<noteq> [] \<and> snd (last ps) = b \<and> unat (fst (last ps)) \<le> T" "l \<noteq> [] \<Longrightarrow> unat (fst (last l)) \<le> T"
  shows "scanned mn T S ((a, b) # l) (ps @ l)"
proof -
  have after: "\<forall>(x, y)\<in>set l. b \<le> x" using ok by (auto simp: intervals_ok_def)
  have sub: "free_times ps \<subseteq> {unat a..<unat b}"
    using parts(1) by (fastforce simp: free_times_def word_le_nat_alt)
  have "intervals_ok mn (ps @ l)"
    unfolding intervals_ok_def
  proof (intro conjI)
    show "\<forall>(a, b)\<in>set (ps @ l). unat a + mn \<le> unat b" using ok parts(1) by (auto simp: intervals_ok_def)
    show "sorted_wrt (\<lambda>(a, b) (a', b'). b \<le> a') (ps @ l)"
      using ok parts(1,2) after by (fastforce simp: intervals_ok_def sorted_wrt_append)
    show "ps @ l \<noteq> []" "unat (snd (last (ps @ l))) = 2 ^ 63" using ok T(1) by (cases "l = []"; simp add: intervals_ok_def)+
  qed
  moreover have "unat (fst (last (ps @ l))) \<le> T" using T by (cases "l = []") auto
  moreover have "within (ps @ l) ((a, b) # l)" using parts(1) by (fastforce simp: within_def)
  moreover have "free_times l \<inter> S = {}" using free_after [OF after] S(1) by fastforce
  ultimately show ?thesis using parts(3) S sub by (auto simp: scanned_def)
qed

lemma scanned_Cons:
  assumes "intervals_ok mn ((a, b) # l)" and "scanned mn T S l l'"
  shows "scanned mn T S ((a, b) # l) ((a, b) # l')"
proof -
  have after: "\<forall>(x, y)\<in>set l. b \<le> x" using assms(1) by (auto simp: intervals_ok_def)
  have l': "intervals_ok mn l'" "l' \<noteq> []" "within l' l" using assms(2) by (auto simp: scanned_def intervals_ok_def)
  have after': "\<forall>(x, y)\<in>set l'. b \<le> x" by (rule within_bound [OF l'(3) after])
  have "intervals_ok mn ((a, b) # l')" using assms(1) l' after' by (auto simp: intervals_ok_def)
  moreover have "within ((a, b) # l') ((a, b) # l)" using l'(3) by (fastforce simp: within_def)
  moreover have "S \<inter> {unat a..<unat b} = {}" using assms(2) free_after [OF after] by (fastforce simp: scanned_def)
  ultimately show ?thesis using assms(2) l'(2) by (auto simp: scanned_def)
qed

lemma history_scan_spec:
  assumes "intervals_ok (unat mn) l" and "unat t \<le> T" and "unat d \<le> unat mn" and "unat (fst (last l)) \<le> T"
    and "T + unat d + unat mn \<le> 2 ^ 63"
  shows "\<exists>delay l'. history_scan mn t d l = (delay, l') \<and> delay \<noteq> MaxTime \<and> scanned (unat mn) (T + unat d) (slot t d delay) l l'"
  using assms(1,4)
proof (induction l)
  case Nil
  then show ?case by (simp add: intervals_ok_def)
next
  case (Cons iv l)
  obtain a b where iv: "iv = (a, b)" by fastforce
  have ok: "intervals_ok (unat mn) ((a, b) # l)" and ab: "unat a + unat mn \<le> unat b" and b64: "unat b < 2 ^ 64"
    using Cons.prems(1) unat_lt [of b] by (auto simp: intervals_ok_def iv)
  have td: "unat (t + d) = unat t + unat d" using assms(2,5) by (intro unat_add_nowrap64) simp
  have ad: "unat (a + d) = unat a + unat d" using ab b64 assms(3) by (intro unat_add_nowrap64) simp
  have T: "l \<noteq> [] \<Longrightarrow> unat (fst (last l)) \<le> T + unat d" "l = [] \<Longrightarrow> unat a \<le> T \<and> unat b = 2 ^ 63"
    using Cons.prems ok by (auto simp: iv intervals_ok_def)
  have b63: "unat b \<le> 2 ^ 63"
  proof (cases "l = []")
    case False
    then have "b \<le> fst (last l)" using ok last_in_set [OF False] by (cases "last l") (auto simp: intervals_ok_def)
    then show ?thesis using Cons.prems(2) False assms(5) by (simp add: iv word_le_nat_alt)
  qed (use T(2) in simp)
  consider (fits) "a \<le> t" "t + d \<le> b" | (before) "t < a" | (later) "a \<le> t" "\<not> t + d \<le> b" by fastforce
  then show ?case
  proof cases
    case fits
    let ?p = "if mn \<le> t - a then [(a, t)] else []" and ?r = "if mn \<le> b - (t + d) then [(t + d, b)] else []"
    have le: "unat a \<le> unat t" "unat t + unat d \<le> unat b" using fits td by (simp_all add: word_le_nat_alt)
    have diffs: "unat (t - a) = unat t - unat a" "unat (b - (t + d)) = unat b - (unat t + unat d)"
      using fits td by (simp_all add: unat_sub)
    have "scanned (unat mn) (T + unat d) (slot t d 0) ((a, b) # l) ((?p @ ?r) @ l)"
    proof (rule scanned_head [OF ok])
      show "\<forall>(x, y)\<in>set (?p @ ?r). a \<le> x \<and> unat x + unat mn \<le> unat y \<and> y \<le> b"
        using le diffs td by (auto simp: word_le_nat_alt)
      show "l = [] \<Longrightarrow> ?p @ ?r \<noteq> [] \<and> snd (last (?p @ ?r)) = b \<and> unat (fst (last (?p @ ?r))) \<le> T + unat d"
        using T(2) diffs(2) td assms(2,5) by (auto simp: word_le_nat_alt)
    qed (use le td T(1) in \<open>auto simp: slot_def word_le_nat_alt\<close>)
    then show ?thesis using fits by (auto simp: iv MaxTime_def)
  next
    case before
    let ?r = "if mn \<le> b - (a + d) then [(a + d, b)] else []"
    have diff: "unat (b - (a + d)) = unat b - (unat a + unat d)" using ab ad assms(3) by (simp add: unat_sub word_le_nat_alt)
    have start: "unat (a - t) = unat a - unat t" "unat t < unat a" using before by (simp_all add: unat_sub word_less_nat_alt word_le_nat_alt)
    have "scanned (unat mn) (T + unat d) (slot t d (a - t)) ((a, b) # l) (?r @ l)"
    proof (rule scanned_head [OF ok])
      show "l = [] \<Longrightarrow> ?r \<noteq> [] \<and> snd (last ?r) = b \<and> unat (fst (last ?r)) \<le> T + unat d"
        using T(2) diff ad assms(5) by (auto simp: word_le_nat_alt)
    qed (use ab ad assms(3) diff start T(1) in \<open>auto simp: slot_def word_le_nat_alt\<close>)
    moreover have "a - t \<noteq> MaxTime"
    proof
      assume "a - t = MaxTime"
      then have "unat a - unat t = 2 ^ 64 - 1" using start by (simp add: MaxTime_def)
      then show False using ab b63 by simp
    qed
    ultimately show ?thesis using before by (auto simp: iv)
  next
    case later
    then have ne: "l \<noteq> []" using T(2) td assms(2,5) by (auto simp: word_le_nat_alt)
    then have "intervals_ok (unat mn) l" "unat (fst (last l)) \<le> T" using Cons.prems by (auto simp: iv intervals_ok_def)
    from Cons.IH [OF this] obtain delay l' where l': "history_scan mn t d l = (delay, l')" "delay \<noteq> MaxTime"
      "scanned (unat mn) (T + unat d) (slot t d delay) l l'" by blast
    then show ?thesis using later scanned_Cons [OF ok l'(3)] by (auto simp: iv)
  qed
qed

text \<open>The oldest interval is dropped when there are too many.\<close>

lemma scanned_trim:
  assumes "scanned mn T S l l'" and "length l \<le> k" and "1 \<le> k"
  shows "let l'' = if length l' > k then tl l' else l' in
    intervals_ok mn l'' \<and> unat (fst (last l'')) \<le> T \<and> length l'' \<le> k \<and> S \<subseteq> free_times l \<and> free_times l'' \<subseteq> free_times l - S"
proof (cases "length l' > k")
  case True
  then have "Suc 0 < length l'" using assms(3) by linarith
  then obtain x zs where l': "l' = x # zs" "zs \<noteq> []" by (cases l') auto
  then show ?thesis using assms True by (auto simp: scanned_def intervals_ok_def free_times_def)
qed (use assms in \<open>auto simp: scanned_def\<close>)

text \<open>Whether a request is booked in the list; one that is too old for it gets the average of the delays.\<close>

definition from_list :: "SubsecondTime \<Rightarrow> SubsecondTime \<Rightarrow> QueueModelHistoryList \<Rightarrow> bool" where
  "from_list t d q \<longleftrightarrow> \<not> (m_analytical_model_enabled q \<and> t + d \<le> fst (hd (m_free_interval_list q)))"

text \<open>Before the first sample of the average the list starts at time zero.\<close>

definition history_ready :: "QueueModelHistoryList \<Rightarrow> (SubsecondTime \<times> SubsecondTime) list \<Rightarrow> bool" where
  "history_ready q rs \<longleftrightarrow> intervals_ok (unat (m_min_processing_time q)) (m_free_interval_list q) \<and>
     length (m_free_interval_list q) \<le> unat (m_max_free_interval_list_size q) \<and> unat (m_max_free_interval_list_size q) < 2 ^ 31 \<and>
     ma_type (m_average_delay q) = ARITHMETIC_MEAN \<and>
     (\<exists>xs. ma_inv (unat (m_max_free_interval_list_size q)) xs (m_average_delay q) \<and>
           (xs = [] \<longrightarrow> fst (hd (m_free_interval_list q)) = 0)) \<and>
     (\<forall>(t, d)\<in>set rs. d \<le> m_min_processing_time q \<and> (m_analytical_model_enabled q \<longrightarrow> t \<noteq> 0 \<or> d \<noteq> 0)) \<and>
     (\<exists>T. unat (fst (last (m_free_interval_list q))) \<le> T \<and> horizon (2 ^ 63 - unat (m_min_processing_time q)) T rs)"

lemma history_list_slot:
  assumes ready: "history_ready q ((t, d) # rs)" and list: "from_list t d q"
  shows "\<exists>delay q'. history_computeQueueDelay root t d q = Inr (delay, q') \<and> history_ready q' rs \<and>
    slot t d delay \<subseteq> free_times (m_free_interval_list q) \<and>
    free_times (m_free_interval_list q') \<subseteq> free_times (m_free_interval_list q) - slot t d delay"
proof -
  let ?l = "m_free_interval_list q" and ?mn = "m_min_processing_time q" and ?k = "unat (m_max_free_interval_list_size q)"
  obtain T xs where ok: "intervals_ok (unat ?mn) ?l" "length ?l \<le> ?k" "?k < 2 ^ 31" "ma_type (m_average_delay q) = ARITHMETIC_MEAN"
    "ma_inv ?k xs (m_average_delay q)" "d \<le> ?mn" "\<forall>(t, d)\<in>set rs. d \<le> ?mn \<and> (m_analytical_model_enabled q \<longrightarrow> t \<noteq> 0 \<or> d \<noteq> 0)"
    "unat (fst (last ?l)) \<le> T" and hz: "horizon (2 ^ 63 - unat ?mn) T ((t, d) # rs)"
    using ready by (auto simp: history_ready_def)
  note h = horizon_Cons [OF hz]
  have k: "1 \<le> ?k" using ok(1,2) by (cases ?l) (auto simp: intervals_ok_def)
  have "T + unat d + unat ?mn \<le> 2 ^ 63" using h by linarith
  then obtain delay l' where scan: "history_scan ?mn t d ?l = (delay, l')" "delay \<noteq> MaxTime"
    "scanned (unat ?mn) (T + unat d) (slot t d delay) ?l l'"
    using history_scan_spec [OF ok(1) _ _ ok(8), of t d] h ok(6) by (auto simp: word_le_nat_alt)
  define l'' where "l'' = (if length l' > ?k then tl l' else l')"
  have tr: "intervals_ok (unat ?mn) l''" "unat (fst (last l'')) \<le> T + unat d" "length l'' \<le> ?k" "slot t d delay \<subseteq> free_times ?l"
    "free_times l'' \<subseteq> free_times ?l - slot t d delay"
    using scanned_trim [OF scan(3) ok(2) k] by (simp_all add: l''_def Let_def)
  obtain avg where avg: "ma_update delay (m_average_delay q) = Inr avg" "ma_inv ?k (xs @ [delay]) avg" "ma_type avg = ARITHMETIC_MEAN"
    using ma_update_inv [OF ok(5), of delay] k ok(4) by auto
  let ?q = "q\<lparr>m_free_interval_list := l'', m_average_delay := avg, m_utilized_time := m_utilized_time q + d,
      m_total_requests := m_total_requests q + 1, m_total_queue_delay := m_total_queue_delay q + delay\<rparr>"
  have ne: "length ?l \<ge> 1" using ok(1) by (cases ?l) (auto simp: intervals_ok_def)
  have branch: "(m_analytical_model_enabled q \<and> t + d \<le> fst (hd ?l)) = False" using list by (simp add: from_list_def)
  have "history_computeQueueDelay root t d q = Inr (delay, ?q)"
    unfolding history_computeQueueDelay_def branch if_False using ne ok(2) scan(1,2) avg(1)
    by (simp add: computeUsingHistoryList_def updateAverageDelay_def
        updateQueueUtilization_def l''_def)
  moreover have "history_ready ?q rs"
    unfolding history_ready_def using ok(3,7) tr(1-3) avg(2,3) h by (auto intro: exI [of _ "xs @ [delay]"])
  ultimately show ?thesis using tr(4,5) by auto
qed

text \<open>A request that is too old leaves the list as it is.\<close>

lemma history_estimate:
  assumes ready: "history_ready q ((t, d) # rs)" and old: "\<not> from_list t d q"
  shows "\<exists>delay q'. history_computeQueueDelay root t d q = Inr (delay, q') \<and> history_ready q' rs \<and>
    m_free_interval_list q' = m_free_interval_list q"
proof -
  let ?l = "m_free_interval_list q" and ?mn = "m_min_processing_time q" and ?k = "unat (m_max_free_interval_list_size q)"
  obtain T xs where ok: "intervals_ok (unat ?mn) ?l" "length ?l \<le> ?k" "?k < 2 ^ 31" "ma_type (m_average_delay q) = ARITHMETIC_MEAN"
    "ma_inv ?k xs (m_average_delay q)" "xs = [] \<longrightarrow> fst (hd ?l) = 0" "d \<le> ?mn" "m_analytical_model_enabled q \<longrightarrow> t \<noteq> 0 \<or> d \<noteq> 0"
    "\<forall>(t, d)\<in>set rs. d \<le> ?mn \<and> (m_analytical_model_enabled q \<longrightarrow> t \<noteq> 0 \<or> d \<noteq> 0)"
    "unat (fst (last ?l)) \<le> T" and hz: "horizon (2 ^ 63 - unat ?mn) T ((t, d) # rs)"
    using ready by (auto simp: history_ready_def)
  note h = horizon_Cons [OF hz]
  have ne: "length ?l \<ge> 1" using ok(1) by (cases ?l) (auto simp: intervals_ok_def)
  then have k: "0 < ?k" using ok(2) by linarith
  have old': "m_analytical_model_enabled q" "t + d \<le> fst (hd ?l)" using old by (auto simp: from_list_def)
  have "unat t + unat d < 2 ^ 64" using conjunct1 [OF conjunct2 [OF h]] conjunct2 [OF conjunct2 [OF h]] by simp
  then have "unat (t + d) = unat t + unat d" by (rule unat_add_nowrap64)
  then have "t + d \<noteq> 0" using ok(8) old'(1) by (metis add_is_0 unat_0 unat_eq_0)
  then have "xs \<noteq> []" using ok(6) old'(2) by (auto simp: word_le_0_iff)
  then obtain a where a: "ma_compute root (m_average_delay q) = Inr a" using ma_compute_mean [OF ok(5,4) k ok(3)] by blast
  let ?q = "q\<lparr>m_total_requests_using_analytical_model := m_total_requests_using_analytical_model q + 1,
      m_utilized_time := m_utilized_time q + d, m_total_requests := m_total_requests q + 1,
      m_total_queue_delay := m_total_queue_delay q + a\<rparr>"
  have "history_computeQueueDelay root t d q = Inr (a, ?q)"
    using ne a old' by (simp add: history_computeQueueDelay_def computeUsingAnalyticalModel_def updateQueueUtilization_def)
  moreover have "history_ready ?q rs"
    unfolding history_ready_def using ok(1-6,9,10) h by (auto intro: exI [of _ xs] exI [of _ "T + unat d"])
  ultimately show ?thesis by simp
qed

lemma history_serve_slot:
  assumes "history_ready q ((t, d) # rs)"
  shows "\<exists>delay q'. history_computeQueueDelay root t d q = Inr (delay, q') \<and> history_ready q' rs \<and>
    free_times (m_free_interval_list q') \<subseteq> free_times (m_free_interval_list q) \<and>
    (from_list t d q \<longrightarrow> slot t d delay \<subseteq> free_times (m_free_interval_list q) \<and>
       free_times (m_free_interval_list q') \<inter> slot t d delay = {})"
proof (cases "from_list t d q")
  case True
  then show ?thesis using history_list_slot [OF assms True, of root] by fastforce
next
  case False
  then show ?thesis using history_estimate [OF assms False, of root] by fastforce
qed

interpretation history_server: exclusive_server "history_computeQueueDelay root" from_list history_ready
  "\<lambda>q. free_times (m_free_interval_list q)" for root
  by unfold_locales (rule history_serve_slot)

text \<open>Without the analytical model every request is booked.\<close>

lemma history_computeQueueDelay_analytical:
  "history_computeQueueDelay root t d q = Inr (delay, q') \<Longrightarrow> m_analytical_model_enabled q' = m_analytical_model_enabled q"
  by (auto simp: history_computeQueueDelay_def computeUsingHistoryList_def updateAverageDelay_def updateQueueUtilization_def
      assertE_def bindE_Inr_iff Let_def split: if_splits prod.splits)

lemma booked_all:
  assumes "\<not> m_analytical_model_enabled q"
  shows "list_all id (booked (history_computeQueueDelay root) from_list q rs)"
  using assms
proof (induction rs arbitrary: q)
  case (Cons r rs)
  then show ?case by (cases r) (auto simp: from_list_def split: sum.splits dest: history_computeQueueDelay_analytical)
qed simp

text \<open>
  C23. The history list serves one request at a time, as far as it books them: for every sequence of requests on a new model,
  every request gets a delay, and the times for which the booked requests are served do not overlap. Booked is every request
  without the analytical model (\<open>analytical\<close> False); with it, those that end after the beginning of the first free interval,
  while an older one gets the average of the delays so far and no time is set aside for it. Conditions: no request is longer
  than the minimum processing time the model was built with, the list may hold at least one interval and less than
  \<open>2 ^ 31\<close>, with the analytical model no request is at time zero without processing time, and the requests arrive by a time \<open>T\<close>
  from which all of them could be served before the end of the simulated time.
\<close>

theorem history_list_exclusive:
  assumes "\<forall>(t, d)\<in>set rs. unat t \<le> T \<and> d \<le> mn \<and> (analytical \<longrightarrow> t \<noteq> 0 \<or> d \<noteq> 0)"
    and "T + sum_list (map (unat \<circ> snd) rs) + unat mn < 2 ^ 63" and "0 < unat max_size" and "unat max_size < 2 ^ 31"
  shows "let q = mk_QueueModelHistoryList analytical max_size mn; bs = booked (history_computeQueueDelay root) from_list q rs in
    \<exists>ds. served (history_computeQueueDelay root) q rs = Inr ds \<and> length ds = length rs \<and> length bs = length rs \<and>
      no_overlap (slots bs rs ds) \<and> (\<not> analytical \<longrightarrow> list_all id bs)"
proof -
  let ?q = "mk_QueueModelHistoryList analytical max_size mn"
  have "unat (push_bit 63 1 :: UInt64) = 2 ^ 63" by simp
  then have "history_ready ?q rs"
    using assms createAvgType_inv [OF assms(4), of ARITHMETIC_MEAN]
    by (fastforce simp: history_ready_def mk_QueueModelHistoryList_def intervals_ok_def horizon_def createAvgType_def)
  from history_server.served_no_overlap [OF this, of root] show ?thesis
    using booked_all [of ?q root rs] by (auto simp: Let_def mk_QueueModelHistoryList_def)
qed

theorem history_list_exclusive_witness:
  "\<exists>ds. served (history_computeQueueDelay (\<lambda>x _. x)) (mk_QueueModelHistoryList True 4 10) [(100, 10), (95, 8), (200, 5), (40, 10)] = Inr ds \<and>
    no_overlap (slots (booked (history_computeQueueDelay (\<lambda>x _. x)) from_list (mk_QueueModelHistoryList True 4 10)
      [(100, 10), (95, 8), (200, 5), (40, 10)]) [(100, 10), (95, 8), (200, 5), (40, 10)] ds)"
  using history_list_exclusive [of "[(100, 10), (95, 8), (200, 5), (40, 10)]" 200 10 True 4 "\<lambda>x _. x"]
  by (auto simp: Let_def simp del: served.simps booked.simps)

text \<open>With the analytical model the second of two requests at time zero is too old for the list, and served together with the
  first.\<close>

lemma history_list_overlap:
  "served (history_computeQueueDelay (\<lambda>x _. x)) (mk_QueueModelHistoryList True 4 10) [(0, 10), (0, 10)] = Inr [0, 0]"
  by code_simp

text \<open>A request longer than the minimum: the difference wraps around, and an interval that ends before it starts stays in the
  list.\<close>

lemma history_list_inverted:
  "history_scan 10 5 30 [(20, 35), (90, 100)] = (15, [(50, 35), (90, 100)])"
  by simp

text \<open>The first request, at time zero and without processing time, takes the average of no samples.\<close>

lemma history_list_first_request:
  "history_computeQueueDelay root 0 0 (mk_QueueModelHistoryList True max_size mn) = Inl DivByZero"
  by (simp add: history_computeQueueDelay_def mk_QueueModelHistoryList_def computeUsingAnalyticalModel_def ma_compute_def
      createAvgType_def mk_ModuloNum_def mn_sub_def time_div_def)

section \<open>The window of the M/G/1 model\<close>

definition window_inv :: "QueueModelWindowedMG1 \<Rightarrow> bool" where
  "window_inv q \<longleftrightarrow> m_num_arrivals q = of_nat (length (m_window q)) \<and>
     m_service_time_sum q = sum_list (map (getPS \<circ> snd) (m_window q)) \<and>
     m_service_time_sum2 q = sum_list (map (\<lambda>x. getPS (snd x) * getPS (snd x)) (m_window q)) \<and>
     sorted (map fst (m_window q))"

lemma multimap_insert_split:
  obtains xs ys where "m = xs @ ys" "multimap_insert k v m = xs @ (k, v) # ys" "\<forall>x\<in>set xs. fst x \<le> k" "ys \<noteq> [] \<Longrightarrow> k < fst (hd ys)"
proof (rule that)
  show "m = takeWhile (\<lambda>x. fst x \<le> k) m @ dropWhile (\<lambda>x. fst x \<le> k) m" by simp
  show "dropWhile (\<lambda>x. fst x \<le> k) m \<noteq> [] \<Longrightarrow> k < fst (hd (dropWhile (\<lambda>x. fst x \<le> k) m))" using hd_dropWhile not_le by blast
qed (auto simp: multimap_insert_def dest: set_takeWhileD)

lemma addItem_inv:
  assumes "window_inv q"
  shows "window_inv (addItem t d q)"
proof -
  obtain xs ys where m: "m_window q = xs @ ys" "multimap_insert t d (m_window q) = xs @ (t, d) # ys" "\<forall>x\<in>set xs. fst x \<le> t"
    "ys \<noteq> [] \<Longrightarrow> t < fst (hd ys)" by (rule multimap_insert_split [of "m_window q" t d]) blast
  have "\<forall>y\<in>set ys. t \<le> fst y" using assms m(1,4) by (cases ys) (auto simp: window_inv_def sorted_append intro: less_imp_le order.trans)
  then show ?thesis using assms m by (auto simp: window_inv_def addItem_def sorted_append)
qed

lemma remove_items_inv:
  assumes "window_inv (q\<lparr>m_window := m\<rparr>)"
  shows "window_inv (remove_items t m q) \<and> m_window (remove_items t m q) = filter (\<lambda>x. t \<le> fst x) m \<and>
    m_window_size (remove_items t m q) = m_window_size q"
  using assms
proof (induction m arbitrary: q)
  case (Cons x m)
  show ?case
  proof (cases "fst x < t")
    case True
    obtain k v where x: "x = (k, v)" by fastforce
    let ?q = "q\<lparr>m_num_arrivals := m_num_arrivals q - 1, m_service_time_sum := m_service_time_sum q - getPS v,
        m_service_time_sum2 := m_service_time_sum2 q - getPS v * getPS v\<rparr>"
    have "window_inv (?q\<lparr>m_window := m\<rparr>)" using Cons.prems by (simp add: window_inv_def x)
    from Cons.IH [OF this] True show ?thesis by (simp add: x)
  next
    case False
    then have "\<forall>y\<in>set m. t \<le> fst y" using Cons.prems by (fastforce simp: window_inv_def)
    then show ?thesis using Cons.prems False by (cases x) (auto simp: filter_id_conv)
  qed
qed simp

lemma removeItems_inv:
  assumes "window_inv q"
  shows "window_inv (removeItems t q)" "m_window (removeItems t q) = filter (\<lambda>x. t \<le> fst x) (m_window q)"
    "m_window_size (removeItems t q) = m_window_size q"
  using remove_items_inv [of "m_window q" q t] assms by (simp_all add: removeItems_def)

text \<open>The delays of a sequence of requests, each with the global time at which it is made, and the state after them.\<close>

fun windowed_run :: "(UInt64 \<Rightarrow> UInt64 \<Rightarrow> UInt64 \<Rightarrow> UInt64 \<Rightarrow> SubsecondTime) \<Rightarrow> (SubsecondTime \<times> SubsecondTime \<times> SubsecondTime) list
    \<Rightarrow> QueueModelWindowedMG1 \<Rightarrow> SubsecondTime list \<times> QueueModelWindowedMG1" where
  "windowed_run estimate [] q = ([], q)"
| "windowed_run estimate ((g, t, d) # rs) q =
     (let (delay, q) = windowed_computeQueueDelay estimate g t d q; (delays, q) = windowed_run estimate rs q in (delay # delays, q))"

lemma windowed_step:
  assumes "window_inv q"
  shows "window_inv (snd (windowed_computeQueueDelay estimate g t d q))"
    "fst (windowed_computeQueueDelay estimate g t d q) \<le> m_window_size q"
    "m_window_size (snd (windowed_computeQueueDelay estimate g t d q)) = m_window_size q"
proof -
  let ?r = "removeItems (max (g - m_window_size q) (t - 10 * m_window_size q)) q"
  have r: "window_inv ?r" "m_window_size ?r = m_window_size q" using removeItems_inv [OF assms] by simp_all
  have "window_inv (q'\<lparr>w_total_requests := a, m_total_utilized_time := b, w_total_queue_delay := c\<rparr>) = window_inv q'" for q' a b c
    by (simp add: window_inv_def)
  then show "window_inv (snd (windowed_computeQueueDelay estimate g t d q))"
    using addItem_inv [OF r(1), of t d] by (simp add: windowed_computeQueueDelay_def Let_def)
  show "fst (windowed_computeQueueDelay estimate g t d q) \<le> m_window_size q"
    using r(2) by (auto simp: windowed_computeQueueDelay_def Let_def not_less)
  show "m_window_size (snd (windowed_computeQueueDelay estimate g t d q)) = m_window_size q"
    using r(2) by (simp add: windowed_computeQueueDelay_def addItem_def Let_def)
qed

text \<open>
  The counters of the M/G/1 model follow its window: after every sequence of requests on a new model, the number of
  arrivals, the sum of the service times and the sum of their squares (as 64-bit numbers) are those of the entries in the
  window, the entries are in the order of their times, and no delay is longer than the window.
\<close>

theorem windowed_counters:
  "let (delays, q) = windowed_run estimate rs (mk_QueueModelWindowedMG1 w) in
   m_num_arrivals q = of_nat (length (m_window q)) \<and>
   m_service_time_sum q = sum_list (map (\<lambda>x. getPS (snd x)) (m_window q)) \<and>
   m_service_time_sum2 q = sum_list (map (\<lambda>x. getPS (snd x) * getPS (snd x)) (m_window q)) \<and>
   sorted (map fst (m_window q)) \<and> (\<forall>t\<in>set delays. t \<le> NS w)"
proof -
  have run: "window_inv q \<Longrightarrow> window_inv (snd (windowed_run estimate rs q)) \<and> (\<forall>t\<in>set (fst (windowed_run estimate rs q)). t \<le> m_window_size q)" for q
  proof (induction rs arbitrary: q)
    case (Cons r rs)
    obtain g t d where r: "r = (g, t, d)" by (cases r) auto
    show ?case
      using Cons.IH [OF windowed_step(1) [OF Cons.prems, of estimate g t d]] windowed_step(2,3) [OF Cons.prems, of estimate g t d]
      by (auto simp: r case_prod_beta Let_def)
  qed simp
  have "window_inv (mk_QueueModelWindowedMG1 w)" by (simp add: window_inv_def mk_QueueModelWindowedMG1_def)
  from run [OF this] show ?thesis
    by (simp add: window_inv_def case_prod_beta Let_def o_def mk_QueueModelWindowedMG1_def)
qed

theorem windowed_counters_witness:
  "let (delays, q) = windowed_run (\<lambda>_ _ _ _. NS 500) [(NS 20000, NS 30000, NS 5), (NS 20000, NS 29990, NS 7)] (mk_QueueModelWindowedMG1 1000)
   in m_num_arrivals q = of_nat (length (m_window q)) \<and> sorted (map fst (m_window q))"
  using windowed_counters [of "\<lambda>_ _ _ _. NS 500" "[(NS 20000, NS 30000, NS 5), (NS 20000, NS 29990, NS 7)]" 1000]
  by (auto simp del: windowed_run.simps split: prod.splits)

text \<open>
  At the start of the simulation the M/G/1 model forgets its window: for a request that arrives earlier than ten windows,
  the subtraction wraps around, every entry is removed and the delay is zero, whatever the load. The entries are at times
  below \<open>2 ^ 64\<close> less ten windows.
\<close>

theorem windowed_forgets_at_start:
  assumes "window_inv q" and "10 * unat (m_window_size q) < 2 ^ 64" and "unat t < 10 * unat (m_window_size q)"
    and "\<forall>x\<in>set (m_window q). unat (fst x) < 2 ^ 64 - 10 * unat (m_window_size q)"
  shows "fst (windowed_computeQueueDelay estimate g t d q) = 0 \<and> m_window (snd (windowed_computeQueueDelay estimate g t d q)) = [(t, d)]"
proof -
  let ?W = "10 * m_window_size q" and ?lim = "max (g - m_window_size q) (t - 10 * m_window_size q)"
  have W: "unat ?W = 10 * unat (m_window_size q)" using assms(2) by (subst unat_mult_nowrap) simp_all
  have "unat (t - ?W) = 2 ^ 64 + unat t - unat ?W" using assms(3) W by (simp add: unat_sub_if_size word_size word_le_nat_alt)
  then have "\<forall>x\<in>set (m_window q). fst x < t - ?W" using assms(2,4) W by (auto simp: word_less_nat_alt)
  then have "\<forall>x\<in>set (m_window q). \<not> ?lim \<le> fst x" by (auto simp: not_le less_max_iff_disj)
  then have empty: "m_window (removeItems ?lim q) = []" unfolding removeItems_inv(2) [OF assms(1)] by (auto simp: filter_empty_conv)
  then have "m_num_arrivals (removeItems ?lim q) = 0" using removeItems_inv(1) [OF assms(1), of ?lim] by (simp add: window_inv_def)
  then show ?thesis using empty by (simp add: windowed_computeQueueDelay_def addItem_def multimap_insert_def Let_def)
qed

theorem windowed_forgets_at_start_witness:
  "fst (windowed_computeQueueDelay (\<lambda>_ _ _ _. NS 500) (NS 2000) (NS 5000) (NS 100)
     (addItem (NS 4990) (NS 900) (addItem (NS 4980) (NS 900) (mk_QueueModelWindowedMG1 1000)))) = 0"
proof -
  let ?q = "addItem (NS 4990) (NS 900) (addItem (NS 4980) (NS 900) (mk_QueueModelWindowedMG1 1000))"
  have inv: "window_inv ?q" by (intro addItem_inv) (simp add: window_inv_def mk_QueueModelWindowedMG1_def)
  show ?thesis
    using windowed_forgets_at_start [OF inv, of "NS 5000" "\<lambda>_ _ _ _. NS 500" "NS 2000" "NS 100"]
    by (simp add: addItem_def multimap_insert_def mk_QueueModelWindowedMG1_def NS_def unit_defs)
qed

end
