(* ===== verification/LS_Cache_Cntlr.thy ===== *)
theory LS_Cache_Cntlr
  imports LS_Directory_Cntlr LS_Contention
begin

text \<open>
  The cache controllers
  (\<^verbatim>\<open>common/core/memory_subsystem/parametric_dram_directory_msi/cache_cntlr.cc\<close>): operations on the blocks of one level, those
  that reach into the previous levels, and the messages of the directory. Controllers and the masters they share are
  addressed by numbers. The configuration is the one without prefetcher, auxiliary tag directories, cache efficiency
  callbacks and direct DRAM access; the latency breakdown (\<^verbatim>\<open>ShmemPerf\<close>) and the counts of transitions, which
  \<^verbatim>\<open>ENABLE_TRANSITIONS\<close> leaves out, are not part of the state, and neither are the locks of the sets: one operation runs
  after the other. The latencies of the cache performance models are an argument.
\<close>

section \<open>State\<close>

datatype Thread_t = USER_THREAD | SIM_THREAD

datatype reason_t = CORE_RD | CORE_WR | CORE_RDEX | UPGRADE | EVICT | BACK_INVAL | COHERENCY

datatype mem_op_t = READ | READ_EX | WRITE

datatype lock_signal_t = LOCK_NONE | LOCK | UNLOCK

datatype CacheAccess_t = ACCESS_CACHE_DATA_AND_TAGS | ACCESS_CACHE_DATA | ACCESS_CACHE_TAGS

text \<open>Where a core finds its data (\<^verbatim>\<open>HitWhere::where_t\<close>): in a cache or in one next to it, or in the place that a reply names.\<close>

datatype hit_where_t = MISS | HIT_AT mem_component_t | HIT_SIBLING mem_component_t | HIT_REMOTE where_t

type_synonym cntlr_ptr = nat
type_synonym master_ptr = nat

record CntlrStats =
  loads :: UInt64
  stores :: UInt64
  load_misses :: UInt64
  store_misses :: UInt64
  load_overlapping_misses :: UInt64
  store_overlapping_misses :: UInt64
  loads_state :: "cstate_t \<Rightarrow> UInt64"
  stores_state :: "cstate_t \<Rightarrow> UInt64"
  loads_where :: "hit_where_t \<Rightarrow> UInt64"
  stores_where :: "hit_where_t \<Rightarrow> UInt64"
  load_misses_state :: "cstate_t \<Rightarrow> UInt64"
  store_misses_state :: "cstate_t \<Rightarrow> UInt64"
  hits_prefetch :: UInt64
  evict_prefetch :: UInt64
  invalidate_prefetch :: UInt64
  evict :: "cstate_t \<Rightarrow> UInt64"
  backinval :: "cstate_t \<Rightarrow> UInt64"
  hits_warmup :: UInt64
  evict_warmup :: UInt64
  invalidate_warmup :: UInt64
  total_latency :: SubsecondTime
  snoop_latency :: SubsecondTime
  qbs_query_latency :: SubsecondTime
  mshr_latency :: SubsecondTime
  coherency_downgrades :: UInt64
  coherency_upgrades :: UInt64
  coherency_invalidates :: UInt64
  coherency_writebacks :: UInt64

definition zero_stats :: CntlrStats where
  "zero_stats =
     \<lparr>loads = 0, stores = 0, load_misses = 0, store_misses = 0, load_overlapping_misses = 0, store_overlapping_misses = 0,
      loads_state = (\<lambda>_. 0), stores_state = (\<lambda>_. 0), loads_where = (\<lambda>_. 0), stores_where = (\<lambda>_. 0), load_misses_state = (\<lambda>_. 0), store_misses_state = (\<lambda>_. 0),
      hits_prefetch = 0, evict_prefetch = 0, invalidate_prefetch = 0, evict = (\<lambda>_. 0), backinval = (\<lambda>_. 0), hits_warmup = 0,
      evict_warmup = 0, invalidate_warmup = 0, total_latency = 0, snoop_latency = 0, qbs_query_latency = 0, mshr_latency = 0,
      coherency_downgrades = 0, coherency_upgrades = 0, coherency_invalidates = 0, coherency_writebacks = 0\<rparr>"

record CacheCntlr =
  m_mem_component :: mem_component_t
  m_master :: master_ptr
  m_next_cache_cntlr :: "cntlr_ptr option"
  m_perfect :: bool
  m_passthrough :: bool
  m_coherent :: bool
  m_l1_mshr :: bool
  cc_core_id :: core_id_t
  m_core_id_master :: core_id_t
  m_cache_block_size :: UInt32
  m_cache_writethrough :: bool
  m_writeback_time :: ComponentLatency
  m_next_level_read_bandwidth :: ComponentBandwidthPerCycle
  stats :: CntlrStats
  m_last_remote_hit_where :: where_t

record CacheDirectoryWaiter =
  exclusive :: bool
  waiter_cntlr :: cntlr_ptr
  w_t_issue :: SubsecondTime

record MshrEntry =
  t_issue :: SubsecondTime
  t_complete :: SubsecondTime

record CacheMasterCntlr =
  m_cache :: Cache
  m_prev_cache_cntlrs :: "cntlr_ptr list"
  mshr :: "(IntPtr \<times> MshrEntry) list"
  mm_l1_mshr :: ContentionModel
  mm_next_level_read_bandwidth :: ContentionModel
  m_directory_waiters :: "CacheDirectoryWaiter ReqQueueList"
  m_evicting_address :: IntPtr
  m_evicting_buf :: "Byte list option"

text \<open>A memory operation that waits for the directory: the arguments and the local variables of \<^verbatim>\<open>processMemOpFromCore\<close>.\<close>

record PendingOp =
  po_cntlr :: cntlr_ptr
  po_mem_op_type :: mem_op_t
  po_address :: IntPtr
  po_offset :: UInt32
  po_data_buf :: "Byte list option"
  po_data_length :: UInt32
  po_modeled :: bool
  po_count :: bool
  po_t_start :: SubsecondTime
  po_t_miss_begin :: SubsecondTime
  po_t_mshr_avail :: SubsecondTime

text \<open>
  The memory system: the controllers, their masters, the clocks of the cores, the messages sent, the operations that wait, and
  the results of those that have waited.
\<close>

record MemSys =
  cntlrs :: "cntlr_ptr \<Rightarrow> CacheCntlr"
  masters :: "master_ptr \<Rightarrow> CacheMasterCntlr"
  elapsed :: "core_id_t \<Rightarrow> Thread_t \<Rightarrow> SubsecondTime"
  sys_periods :: periods
  getCost :: "core_id_t \<Rightarrow> mem_component_t \<Rightarrow> CacheAccess_t \<Rightarrow> SubsecondTime"
  m_tag_directory_home_lookup :: AddressHomeLookup
  cache_only_mode :: bool
  mem_sent :: "NetMsg list"
  mem_pending :: "core_id_t \<Rightarrow> PendingOp option"
  mem_results :: "(core_id_t \<times> hit_where_t \<times> Byte list option) list"

abbreviation master_of :: "MemSys \<Rightarrow> cntlr_ptr \<Rightarrow> CacheMasterCntlr" where
  "master_of sys c \<equiv> masters sys (m_master (cntlrs sys c))"

definition put_cntlr :: "cntlr_ptr \<Rightarrow> CacheCntlr \<Rightarrow> MemSys \<Rightarrow> MemSys" where
  "put_cntlr c k sys = sys\<lparr>cntlrs := (cntlrs sys)(c := k)\<rparr>"

definition put_master :: "cntlr_ptr \<Rightarrow> CacheMasterCntlr \<Rightarrow> MemSys \<Rightarrow> MemSys" where
  "put_master c m sys = sys\<lparr>masters := (masters sys)(m_master (cntlrs sys c) := m)\<rparr>"

definition put_cache :: "cntlr_ptr \<Rightarrow> Cache \<Rightarrow> MemSys \<Rightarrow> MemSys" where
  "put_cache c cache sys = put_master c ((master_of sys c)\<lparr>m_cache := cache\<rparr>) sys"

definition count_stats :: "cntlr_ptr \<Rightarrow> (CntlrStats \<Rightarrow> CntlrStats) \<Rightarrow> MemSys \<Rightarrow> MemSys" where
  "count_stats c f sys = put_cntlr c ((cntlrs sys c)\<lparr>stats := f (stats (cntlrs sys c))\<rparr>) sys"

text \<open>\<^verbatim>\<open>MemoryManager::incrElapsedTime\<close> of the core of a controller, and \<^verbatim>\<open>sendMsg\<close> to the directory.\<close>

definition cc_incrElapsedTime :: "cntlr_ptr \<Rightarrow> SubsecondTime \<Rightarrow> Thread_t \<Rightarrow> MemSys \<Rightarrow> MemSys res" where
  "cc_incrElapsedTime c latency th sys =
     (let core = cc_core_id (cntlrs sys c) in
      bindE (incrElapsedTime (elapsed sys core th) latency)
      (\<lambda>t. Inr (sys\<lparr>elapsed := (elapsed sys)(core := (elapsed sys core)(th := t))\<rparr>)))"

definition cc_accessTime :: "cntlr_ptr \<Rightarrow> CacheAccess_t \<Rightarrow> Thread_t \<Rightarrow> MemSys \<Rightarrow> MemSys res" where
  "cc_accessTime c acc th sys = cc_incrElapsedTime c (getCost sys (cc_core_id (cntlrs sys c)) (m_mem_component (cntlrs sys c)) acc) th sys"

definition sendToDirectory :: "msg_t \<Rightarrow> core_id_t \<Rightarrow> core_id_t \<Rightarrow> IntPtr \<Rightarrow> Byte list option \<Rightarrow> MemSys \<Rightarrow> MemSys" where
  "sendToDirectory ty requester receiver address data sys =
     sys\<lparr>mem_sent := mem_sent sys @ [\<lparr>n_type = ty, n_component = TAG_DIR, n_requester = requester, n_receiver = Some receiver,
        n_address = address, n_data = data, n_where = W_UNKNOWN\<rparr>]\<rparr>"

section \<open>Blocks of one level\<close>

definition getCacheBlockInfo :: "MemSys \<Rightarrow> cntlr_ptr \<Rightarrow> IntPtr \<Rightarrow> CacheBlockInfo option res" where
  "getCacheBlockInfo sys c address = peekSingleLine (m_cache (master_of sys c)) address"

definition block_state :: "CacheBlockInfo option \<Rightarrow> cstate_t" where
  "block_state b = (case b of None \<Rightarrow> INVALID | Some b \<Rightarrow> m_cstate b)"

definition getCacheState :: "MemSys \<Rightarrow> cntlr_ptr \<Rightarrow> IntPtr \<Rightarrow> cstate_t res" where
  "getCacheState sys c address = bindE (getCacheBlockInfo sys c address) (\<lambda>b. Inr (block_state b))"

text \<open>A change of a block through the pointer that \<^verbatim>\<open>peekSingleLine\<close> returns.\<close>

definition change_block :: "(CacheBlockInfo \<Rightarrow> CacheBlockInfo) \<Rightarrow> Cache \<Rightarrow> IntPtr \<Rightarrow> Cache res" where
  "change_block f c addr =
     bindE (splitAddress (c_base c) addr)
     (\<lambda>(tag, set_index). bindE (get_set c set_index)
     (\<lambda>s. case set_find s tag of
        None \<Rightarrow> Inl NullPointer
      | Some i \<Rightarrow> Inr (put_set c set_index (s\<lparr>cs_blocks := (cs_blocks s)[i := f (cs_blocks s ! i)]\<rparr>))))"

definition cc_change_block :: "(CacheBlockInfo \<Rightarrow> CacheBlockInfo) \<Rightarrow> cntlr_ptr \<Rightarrow> IntPtr \<Rightarrow> MemSys \<Rightarrow> MemSys res" where
  "cc_change_block f c address sys =
     bindE (change_block f (m_cache (master_of sys c)) address) (\<lambda>cache. Inr (put_cache c cache sys))"

definition setCacheState :: "cntlr_ptr \<Rightarrow> IntPtr \<Rightarrow> cstate_t \<Rightarrow> MemSys \<Rightarrow> MemSys res" where
  "setCacheState c address cstate sys = cc_change_block (\<lambda>b. b\<lparr>m_cstate := cstate\<rparr>) c address sys"

definition operationPermissibleinCache :: "MemSys \<Rightarrow> cntlr_ptr \<Rightarrow> IntPtr \<Rightarrow> mem_op_t \<Rightarrow> bool res" where
  "operationPermissibleinCache sys c address mem_op_type =
     bindE (getCacheState sys c address)
     (\<lambda>cstate. Inr (case mem_op_type of READ \<Rightarrow> readable cstate | _ \<Rightarrow> writable cstate))"

text \<open>\<^verbatim>\<open>notifyPrevLevelEvict\<close> of the next level has no effect without \<^verbatim>\<open>ENABLE_TRACK_SHARING_PREVCACHES\<close>.\<close>

definition invalidateCacheBlock :: "cntlr_ptr \<Rightarrow> IntPtr \<Rightarrow> MemSys \<Rightarrow> MemSys res" where
  "invalidateCacheBlock c address sys =
     bindE (getCacheState sys c address)
     (\<lambda>old_cstate. bindE (assertE (old_cstate \<noteq> MODIFIED) (AssertError ''old_cstate != CacheState::MODIFIED''))
     (\<lambda>_. bindE (assertE (old_cstate \<noteq> INVALID) (AssertError ''old_cstate != CacheState::INVALID''))
     (\<lambda>_. bindE (invalidateSingleLine (m_cache (master_of sys c)) address)
     (\<lambda>(_, cache). Inr (put_cache c cache sys)))))"

text \<open>The bytes that a read leaves in the buffer; \<open>[]\<close> when the cache holds no data.\<close>

definition retrieveCacheBlock :: "cntlr_ptr \<Rightarrow> IntPtr \<Rightarrow> bool \<Rightarrow> MemSys \<Rightarrow> (Byte list \<times> MemSys) res" where
  "retrieveCacheBlock c address update_replacement sys =
     bindE (accessSingleLine (m_cache (master_of sys c)) address LOAD (Some []) (m_cache_block_size (cntlrs sys c)) update_replacement)
     (\<lambda>(block, out, cache).
        bindE (assertE (block \<noteq> None) (AssertError ''Expected block to be there but it wasn't''))
        (\<lambda>_. Inr (case out of Some bs \<Rightarrow> bs | None \<Rightarrow> [], put_cache c cache sys)))"

section \<open>Operations that reach the next and the previous levels\<close>

text \<open>The write of \<^verbatim>\<open>writeCacheBlock\<close> at its own level, to the line or to the buffer of the line that is being evicted.\<close>

definition write_own_block :: "cntlr_ptr \<Rightarrow> IntPtr \<Rightarrow> UInt32 \<Rightarrow> Byte list option \<Rightarrow> UInt32 \<Rightarrow> MemSys \<Rightarrow> MemSys res" where
  "write_own_block c address offset data_buf data_length sys =
     (let m = master_of sys c in
      if m_evicting_buf m \<noteq> None \<and> address = m_evicting_address m
      then bindE (assertE (offset = 0) (AssertError ''offset==0''))
           (\<lambda>_. bindE (assertE (data_length = m_cache_block_size (cntlrs sys c)) (AssertError ''data_length==getCacheBlockSize()''))
           (\<lambda>_. Inr (case data_buf of
                       Some bs \<Rightarrow> put_master c (m\<lparr>m_evicting_buf := Some bs\<rparr>) sys
                     | None \<Rightarrow> sys)))
      else bindE (accessSingleLine (m_cache m) (address + ucast offset) STORE data_buf data_length False)
           (\<lambda>(block, _, cache).
              bindE (assertE (block \<noteq> None) (AssertError ''writethrough expected a hit at next-level cache but got miss''))
              (\<lambda>_. bindE (assertE (block_state block = MODIFIED) (AssertError ''Got writeback for non-MODIFIED line''))
              (\<lambda>_. Inr (put_cache c cache sys)))))"

text \<open>The fuel bounds the number of levels.\<close>

fun writeCacheBlock :: "nat \<Rightarrow> cntlr_ptr \<Rightarrow> IntPtr \<Rightarrow> UInt32 \<Rightarrow> Byte list option \<Rightarrow> UInt32 \<Rightarrow> MemSys \<Rightarrow> MemSys res" where
  "writeCacheBlock 0 c address offset data_buf data_length sys = Inl NonTermination"
| "writeCacheBlock (Suc fuel) c address offset data_buf data_length sys =
     bindE (write_own_block c address offset data_buf data_length sys)
     (\<lambda>sys. if m_cache_writethrough (cntlrs sys c)
            then case m_next_cache_cntlr (cntlrs sys c) of
                   None \<Rightarrow> Inl NullPointer
                 | Some n \<Rightarrow> writeCacheBlock fuel n address offset data_buf data_length sys
            else Inr sys)"

text \<open>A loop over previous-level caches: the largest latency, and whether one of them answered.\<close>

fun update_prevs :: "(cntlr_ptr \<Rightarrow> MemSys \<Rightarrow> (SubsecondTime \<times> bool \<times> MemSys) res) \<Rightarrow> cntlr_ptr list \<Rightarrow> SubsecondTime \<times> bool \<Rightarrow> MemSys
    \<Rightarrow> (SubsecondTime \<times> bool \<times> MemSys) res" where
  "update_prevs f [] acc sys = Inr (fst acc, snd acc, sys)"
| "update_prevs f (p # ps) acc sys =
     bindE (f p sys) (\<lambda>(t, hit, sys). update_prevs f ps (max (fst acc) t, snd acc \<or> hit) sys)"

text \<open>The statistics of a change of state.\<close>

definition count_update :: "reason_t \<Rightarrow> cstate_t \<Rightarrow> CacheBlockInfo \<Rightarrow> CntlrStats \<Rightarrow> CntlrStats" where
  "count_update reason new_cstate b s =
     (let s = (if reason = COHERENCY
               then let s = (if new_cstate = SHARED then s\<lparr>coherency_downgrades := coherency_downgrades s + 1\<rparr>
                             else if m_cstate b = MODIFIED then s\<lparr>coherency_writebacks := coherency_writebacks s + 1\<rparr>
                             else s\<lparr>coherency_invalidates := coherency_invalidates s + 1\<rparr>);
                        s = (if hasOption b PREFETCH \<and> new_cstate = INVALID then s\<lparr>invalidate_prefetch := invalidate_prefetch s + 1\<rparr> else s)
                    in if hasOption b WARMUP \<and> new_cstate = INVALID then s\<lparr>invalidate_warmup := invalidate_warmup s + 1\<rparr> else s
               else s)
      in if reason = UPGRADE then s\<lparr>coherency_upgrades := coherency_upgrades s + 1\<rparr>
         else if reason = BACK_INVAL then s\<lparr>backinval := (backinval s)(m_cstate b := backinval s (m_cstate b) + 1)\<rparr>
         else s)"

text \<open>What happens to modified data; the result is the data for \<open>out_buf\<close>, whether there was a write-back, and the state.\<close>

definition write_back :: "nat \<Rightarrow> cntlr_ptr \<Rightarrow> IntPtr \<Rightarrow> bool \<Rightarrow> MemSys \<Rightarrow> (Byte list option \<times> bool \<times> MemSys) res" where
  "write_back fuel c address want sys =
     (let k = cntlrs sys c in
      bindE (if m_cache_writethrough k then Inr (None, False, sys)
             else case m_next_cache_cntlr k of
                    Some n \<Rightarrow>
                      bindE (retrieveCacheBlock c address False sys)
                      (\<lambda>(data, sys). bindE (writeCacheBlock fuel n address 0 (Some data) (m_cache_block_size k) sys)
                      (\<lambda>sys. Inr (None, True, sys)))
                  | None \<Rightarrow>
                      if want then bindE (retrieveCacheBlock c address False sys) (\<lambda>(data, sys). Inr (Some data, True, sys))
                      else Inl (AssertError ''MODIFIED data is about to get lost!''))
      (\<lambda>(out, wb, sys). bindE (setCacheState c address SHARED sys) (\<lambda>sys. Inr (out, wb, sys))))"

text \<open>The new state, once modified data is written back. \<open>want\<close> tells whether the caller passes a buffer.\<close>

definition settle_block ::
  "cntlr_ptr \<Rightarrow> IntPtr \<Rightarrow> cstate_t \<Rightarrow> bool \<Rightarrow> Byte list option \<times> bool \<times> MemSys \<Rightarrow> (Byte list option \<times> bool \<times> MemSys) res" where
  "settle_block c address new_cstate want = (\<lambda>(out, wb, sys).
     if new_cstate = INVALID \<or> new_cstate = SHARED
     then bindE (if want then bindE (retrieveCacheBlock c address False sys) (\<lambda>(data, sys). Inr (Some data, True, sys))
                 else Inr (out, wb, sys))
          (\<lambda>(out, wb, sys).
             bindE (if new_cstate = INVALID
                    then if m_coherent (cntlrs sys c) then invalidateCacheBlock c address sys else Inr sys
                    else setCacheState c address SHARED sys)
             (\<lambda>sys. Inr (out, wb, sys)))
     else if new_cstate = MODIFIED
     then bindE (setCacheState c address MODIFIED sys) (\<lambda>sys. Inr (out, wb, sys))
     else Inl (AssertError ''Cannot change block status to %c''))"

text \<open>The change of the block itself, after the previous levels.\<close>

definition update_own_block ::
  "nat \<Rightarrow> cntlr_ptr \<Rightarrow> IntPtr \<Rightarrow> cstate_t \<Rightarrow> reason_t \<Rightarrow> bool \<Rightarrow> CacheBlockInfo \<Rightarrow> MemSys \<Rightarrow> (Byte list option \<times> bool \<times> MemSys) res" where
  "update_own_block fuel c address new_cstate reason want b sys =
     (if new_cstate = m_cstate b \<and> want
      then bindE (retrieveCacheBlock c address False sys) (\<lambda>(data, sys). Inr (Some data, True, sys))
      else
        bindE (let sys = count_stats c (count_update reason new_cstate b) sys
               in if m_cstate b = MODIFIED then write_back fuel c address want sys else Inr (None, False, sys))
        (settle_block c address new_cstate want))"

text \<open>
  What \<^verbatim>\<open>updateCacheBlock\<close> does after the previous levels: the result is the latency, \<^verbatim>\<open>sibling_hit\<close>, and the bytes written to
  \<open>out_buf\<close>. The second assertion on the state at the end of the method repeats the first through the pointer to the block.
\<close>

definition update_level ::
  "nat \<Rightarrow> cntlr_ptr \<Rightarrow> IntPtr \<Rightarrow> cstate_t \<Rightarrow> reason_t \<Rightarrow> bool \<Rightarrow> bool \<Rightarrow> MemSys
     \<Rightarrow> (SubsecondTime \<times> bool \<times> Byte list option \<times> MemSys) res" where
  "update_level fuel c address new_cstate reason want sibling_hit sys =
     bindE (getCacheBlockInfo sys c address)
     (\<lambda>block. bindE (case block of
                       None \<Rightarrow> Inr (None, False, sys)
                     | Some b \<Rightarrow> update_own_block fuel c address new_cstate reason want b sys)
     (\<lambda>(out, is_writeback, sys). bindE (getCacheState sys c address)
     (\<lambda>state. bindE (assertE (state = INVALID \<or> state = new_cstate \<or> \<not> m_coherent (cntlrs sys c))
                       (AssertError ''state didn't change as we wanted: %c instead of %c''))
     (\<lambda>_. bindE (assertE (want \<longrightarrow> out \<noteq> None) (AssertError ''out_buf passed in but never written to''))
     (\<lambda>_. Inr (if is_writeback then cl_getLatency (sys_periods sys) (m_writeback_time (cntlrs sys c)) else 0,
               sibling_hit \<or> is_writeback, out, sys))))))"

fun updateCacheBlock ::
  "nat \<Rightarrow> cntlr_ptr \<Rightarrow> IntPtr \<Rightarrow> cstate_t \<Rightarrow> reason_t \<Rightarrow> bool \<Rightarrow> MemSys \<Rightarrow> (SubsecondTime \<times> bool \<times> Byte list option \<times> MemSys) res" where
  "updateCacheBlock 0 c address new_cstate reason want sys = Inl NonTermination"
| "updateCacheBlock (Suc fuel) c address new_cstate reason want sys =
     bindE (assertE (new_cstate \<notin> {INVALID_COLD, INVALID_EVICT, INVALID_COHERENCY}) (AssertError ''Invalid new cstate %u''))
     (\<lambda>_. bindE (update_prevs
                  (\<lambda>p sys. map_sum id (\<lambda>(t, hit, _, sys). (t, hit, sys))
                     (updateCacheBlock fuel p address new_cstate (if reason = EVICT then BACK_INVAL else reason) False sys))
                  (m_prev_cache_cntlrs (master_of sys c)) (0, False) sys)
     (\<lambda>(_, sibling_hit, sys). update_level (Suc fuel) c address new_cstate reason want sibling_hit sys))"

text \<open>\<^verbatim>\<open>isInLowerLevelCache\<close>: some previous-level cache has the line of the block.\<close>

definition isInLowerLevelCache :: "MemSys \<Rightarrow> cntlr_ptr \<Rightarrow> CacheBlockInfo \<Rightarrow> bool" where
  "isInLowerLevelCache sys c b =
     (let address = tagToAddress (c_base (m_cache (master_of sys c))) (m_tag b)
      in \<exists>p\<in>set (m_prev_cache_cntlrs (master_of sys c)).
           case getCacheBlockInfo sys p address of Inr (Some _) \<Rightarrow> True | _ \<Rightarrow> False)"

definition incrementQBSLookupCost :: "cntlr_ptr \<Rightarrow> MemSys \<Rightarrow> MemSys res" where
  "incrementQBSLookupCost c sys =
     (let latency = cl_getLatency (sys_periods sys) (m_writeback_time (cntlrs sys c)) in
      bindE (cc_incrElapsedTime c latency USER_THREAD sys)
      (\<lambda>sys. Inr (count_stats c (\<lambda>s. s\<lparr>qbs_query_latency := qbs_query_latency s + latency\<rparr>) sys)))"

text \<open>The queries that the replacement policy counted during an insertion are charged.\<close>

fun charge_queries :: "nat \<Rightarrow> cntlr_ptr \<Rightarrow> MemSys \<Rightarrow> MemSys res" where
  "charge_queries 0 c sys = Inr sys"
| "charge_queries (Suc n) c sys = bindE (incrementQBSLookupCost c sys) (charge_queries n c)"

text \<open>The previous levels give up an evicted line and write modified data to the eviction buffer, which is the result.\<close>

definition back_invalidate :: "nat \<Rightarrow> cntlr_ptr \<Rightarrow> IntPtr \<Rightarrow> Byte list \<Rightarrow> Thread_t \<Rightarrow> MemSys \<Rightarrow> (Byte list \<times> MemSys) res" where
  "back_invalidate fuel c evict_address evict_buf th sys =
     (let prevs = m_prev_cache_cntlrs (master_of sys c) in
      if prevs = [] then Inr (evict_buf, sys)
      else
        bindE (update_prevs
                 (\<lambda>p sys. map_sum id (\<lambda>(t, hit, _, sys). (t, hit, sys)) (updateCacheBlock fuel p evict_address INVALID BACK_INVAL False sys))
                 prevs (0, False)
                 (put_master c ((master_of sys c)\<lparr>m_evicting_address := evict_address, m_evicting_buf := Some evict_buf\<rparr>) sys))
        (\<lambda>(latency, _, sys). bindE (cc_incrElapsedTime c latency th sys)
        (\<lambda>sys. let sys = count_stats c (\<lambda>s. s\<lparr>snoop_latency := snoop_latency s + latency\<rparr>) sys;
                   buf = m_evicting_buf (master_of sys c)
               in Inr (case buf of Some bs \<Rightarrow> bs | None \<Rightarrow> evict_buf,
                       put_master c ((master_of sys c)\<lparr>m_evicting_address := 0, m_evicting_buf := None\<rparr>) sys))))"

text \<open>What becomes of the evicted line; the last level gives it back to the directory.\<close>

definition evict_to_directory :: "cntlr_ptr \<Rightarrow> IntPtr \<Rightarrow> cstate_t \<Rightarrow> Byte list \<Rightarrow> MemSys \<Rightarrow> MemSys res" where
  "evict_to_directory c evict_address evict_state evict_buf sys =
     (let core_id = cc_core_id (cntlrs sys c) in
      bindE (getHome (m_tag_directory_home_lookup sys) evict_address)
      (\<lambda>home_node_id.
         if evict_state = MODIFIED
         then Inr (sendToDirectory FLUSH_REP core_id home_node_id evict_address (Some evict_buf) sys)
         else bindE (assertE (evict_state = SHARED \<or> evict_state = EXCLUSIVE) (AssertError ''evict_address(0x%x), evict_state(%u)''))
              (\<lambda>_. Inr (sendToDirectory INV_REP core_id home_node_id evict_address None sys))))"

definition dispose_evicted :: "nat \<Rightarrow> cntlr_ptr \<Rightarrow> IntPtr \<Rightarrow> cstate_t \<Rightarrow> Byte list \<Rightarrow> MemSys \<Rightarrow> MemSys res" where
  "dispose_evicted fuel c evict_address evict_state evict_buf sys =
     (let k = cntlrs sys c in
      if m_perfect k then Inr sys
      else if \<not> m_coherent k
      then if \<not> m_cache_writethrough k
           then bindE (assertE (evict_state \<noteq> MODIFIED) (AssertError ''Non-coherent cache is throwing away dirty data'')) (\<lambda>_. Inr sys)
           else Inr sys
      else case m_next_cache_cntlr k of
             Some n \<Rightarrow>
               if \<not> m_cache_writethrough k \<and> evict_state = MODIFIED
               then writeCacheBlock fuel n evict_address 0 (Some evict_buf) (m_cache_block_size k) sys
               else Inr sys
           | None \<Rightarrow> evict_to_directory c evict_address evict_state evict_buf sys)"

definition count_evict :: "CacheBlockInfo \<Rightarrow> CntlrStats \<Rightarrow> CntlrStats" where
  "count_evict b s =
     (let s = s\<lparr>evict := (evict s)(m_cstate b := evict s (m_cstate b) + 1)\<rparr>;
          s = (if hasOption b PREFETCH then s\<lparr>evict_prefetch := evict_prefetch s + 1\<rparr> else s)
      in if hasOption b WARMUP then s\<lparr>evict_warmup := evict_warmup s + 1\<rparr> else s)"

definition evict_line :: "nat \<Rightarrow> cntlr_ptr \<Rightarrow> insert_out \<Rightarrow> IntPtr \<Rightarrow> Thread_t \<Rightarrow> MemSys \<Rightarrow> MemSys res" where
  "evict_line fuel c out evict_address th sys =
     bindE (back_invalidate fuel c evict_address (case evict_buff out of Some bs \<Rightarrow> bs | None \<Rightarrow> []) th
              (count_stats c (count_evict (evict_block_info out)) sys))
     (\<lambda>(evict_buf, sys). bindE (dispose_evicted fuel c evict_address (m_cstate (evict_block_info out)) evict_buf sys)
     (\<lambda>sys. bindE (getCacheState sys c evict_address)
     (\<lambda>state. bindE (assertE (state = INVALID) (AssertError ''Evicted address did not become invalid, now in state %s''))
     (\<lambda>_. Inr sys))))"

definition insertCacheBlock :: "nat \<Rightarrow> cntlr_ptr \<Rightarrow> IntPtr \<Rightarrow> cstate_t \<Rightarrow> Byte list option \<Rightarrow> Thread_t \<Rightarrow> MemSys \<Rightarrow> MemSys res" where
  "insertCacheBlock fuel c address cstate data_buf th sys =
     bindE (getCacheState sys c address)
     (\<lambda>old. bindE (assertE (old = INVALID) (AssertError ''we already have this line, can't add it again''))
     (\<lambda>_. bindE (insertSingleLine (m_cache (master_of sys c)) address data_buf (createBlock SHARED_CACHE) True
                   (Some (isInLowerLevelCache sys c)))
     (\<lambda>(out, evict_address, cache).
        let queries = qbs_lookup_cost (c_ctx cache) - qbs_lookup_cost (c_ctx (m_cache (master_of sys c))) in
        bindE (charge_queries queries c (put_cache c cache sys))
        (\<lambda>sys. bindE (setCacheState c address cstate sys)
        (\<lambda>sys. bindE (if cache_only_mode sys then cc_change_block (\<lambda>b. setOption b WARMUP) c address sys else Inr sys)
        (\<lambda>sys. if eviction out then evict_line fuel c out evict_address th sys else Inr sys))))))"

section \<open>Messages of the directory\<close>

definition processExRepFromDramDirectory :: "nat \<Rightarrow> cntlr_ptr \<Rightarrow> ShmemMsg \<Rightarrow> MemSys \<Rightarrow> MemSys res" where
  "processExRepFromDramDirectory fuel c msg sys = insertCacheBlock fuel c (msg_address msg) EXCLUSIVE (m_data_buf msg) SIM_THREAD sys"

definition processShRepFromDramDirectory :: "nat \<Rightarrow> cntlr_ptr \<Rightarrow> ShmemMsg \<Rightarrow> MemSys \<Rightarrow> MemSys res" where
  "processShRepFromDramDirectory fuel c msg sys = insertCacheBlock fuel c (msg_address msg) SHARED (m_data_buf msg) SIM_THREAD sys"

definition processUpgradeRepFromDramDirectory :: "nat \<Rightarrow> cntlr_ptr \<Rightarrow> ShmemMsg \<Rightarrow> MemSys \<Rightarrow> MemSys res" where
  "processUpgradeRepFromDramDirectory fuel c msg sys =
     bindE (getCacheState sys c (msg_address msg))
     (\<lambda>cstate.
        if cstate = INVALID
        then bindE (assertE (m_data_buf msg \<noteq> None) (AssertError ''Trying to upgrade a block that is now INV and no data in the shmem_msg''))
             (\<lambda>_. bindE (updateCacheBlock fuel c (msg_address msg) MODIFIED UPGRADE True sys) (\<lambda>(_, _, _, sys). Inr sys))
        else if cstate = SHARED_UPGRADING
        then bindE (updateCacheBlock fuel c (msg_address msg) MODIFIED UPGRADE False sys) (\<lambda>(_, _, _, sys). Inr sys)
        else Inl (LogError ''Trying to upgrade a block that is not SHARED_UPGRADING but %c (%lx)''))"

definition processInvReqFromDramDirectory :: "nat \<Rightarrow> cntlr_ptr \<Rightarrow> core_id_t \<Rightarrow> ShmemMsg \<Rightarrow> MemSys \<Rightarrow> MemSys res" where
  "processInvReqFromDramDirectory fuel c sender msg sys =
     bindE (getCacheState sys c (msg_address msg))
     (\<lambda>cstate. bindE (cc_accessTime c ACCESS_CACHE_TAGS SIM_THREAD sys)
     (\<lambda>sys. if cstate \<noteq> INVALID
            then bindE (updateCacheBlock fuel c (msg_address msg) INVALID COHERENCY False sys)
                 (\<lambda>(_, _, _, sys). Inr (sendToDirectory INV_REP (m_requester msg) sender (msg_address msg) None sys))
            else Inr sys))"

definition processFlushReqFromDramDirectory :: "nat \<Rightarrow> cntlr_ptr \<Rightarrow> core_id_t \<Rightarrow> ShmemMsg \<Rightarrow> MemSys \<Rightarrow> MemSys res" where
  "processFlushReqFromDramDirectory fuel c sender msg sys =
     bindE (getCacheState sys c (msg_address msg))
     (\<lambda>cstate.
        if cstate \<noteq> INVALID
        then bindE (cc_accessTime c ACCESS_CACHE_DATA_AND_TAGS SIM_THREAD sys)
             (\<lambda>sys. bindE (updateCacheBlock fuel c (msg_address msg) INVALID COHERENCY True sys)
             (\<lambda>(_, _, data, sys). Inr (sendToDirectory FLUSH_REP (m_requester msg) sender (msg_address msg) data sys)))
        else cc_accessTime c ACCESS_CACHE_TAGS SIM_THREAD sys)"

text \<open>In state \<^verbatim>\<open>SHARED_UPGRADING\<close> the buffer that is sent has not been written.\<close>

definition processWbReqFromDramDirectory :: "nat \<Rightarrow> cntlr_ptr \<Rightarrow> core_id_t \<Rightarrow> ShmemMsg \<Rightarrow> MemSys \<Rightarrow> MemSys res" where
  "processWbReqFromDramDirectory fuel c sender msg sys =
     bindE (getCacheState sys c (msg_address msg))
     (\<lambda>cstate.
        if cstate \<noteq> INVALID
        then bindE (cc_accessTime c ACCESS_CACHE_DATA_AND_TAGS SIM_THREAD sys)
             (\<lambda>sys. bindE (if cstate \<noteq> SHARED_UPGRADING
                           then bindE (updateCacheBlock fuel c (msg_address msg) SHARED COHERENCY True sys) (\<lambda>(_, _, data, sys). Inr (data, sys))
                           else Inr (Some [], sys))
             (\<lambda>(data, sys). Inr (sendToDirectory WB_REP (m_requester msg) sender (msg_address msg) data sys)))
        else cc_accessTime c ACCESS_CACHE_TAGS SIM_THREAD sys)"

end
