(* ===== verification/LS_Hierarchy.thy ===== *)
theory LS_Hierarchy
  imports LS_Cache_Cntlr
begin

text \<open>
  What the operations of the cache controllers do to a hierarchy of caches. The contents of a cache are a map from lines to
  blocks (\<open>peek\<close>). What every change of a line keeps is proved once, in the locale \<open>update_relation\<close>, for every
  relation between states that the change of one block keeps.
\<close>

section \<open>The contents of the caches\<close>

definition peek :: "MemSys \<Rightarrow> master_ptr \<Rightarrow> IntPtr \<Rightarrow> CacheBlockInfo option" where
  "peek sys m a = (case peekSingleLine (m_cache (masters sys m)) a of Inr b \<Rightarrow> b | Inl _ \<Rightarrow> None)"

definition same_line :: "MemSys \<Rightarrow> master_ptr \<Rightarrow> IntPtr \<Rightarrow> IntPtr \<Rightarrow> bool" where
  "same_line sys m a b \<longleftrightarrow> line (m_cache (masters sys m)) a = line (m_cache (masters sys m)) b"

definition sys_wf :: "MemSys \<Rightarrow> bool" where
  "sys_wf sys \<longleftrightarrow> (\<forall>m. cache_wf (m_cache (masters sys m)))"

lemma peekSingleLine_total: "cache_wf c \<Longrightarrow> \<exists>b. peekSingleLine c a = Inr b"
  using cache_split [of c a] peek_set_map by metis

lemma peek_Inr: "sys_wf sys \<Longrightarrow> peekSingleLine (m_cache (masters sys m)) a = Inr (peek sys m a)"
  using peekSingleLine_total [of "m_cache (masters sys m)" a] by (auto simp: sys_wf_def peek_def)

lemma getCacheBlockInfo_peek: "sys_wf sys \<Longrightarrow> getCacheBlockInfo sys c a = Inr (peek sys (m_master (cntlrs sys c)) a)"
  by (simp add: getCacheBlockInfo_def peek_Inr)

lemma getCacheState_peek: "sys_wf sys \<Longrightarrow> getCacheState sys c a = Inr (block_state (peek sys (m_master (cntlrs sys c)) a))"
  by (simp add: getCacheState_def getCacheBlockInfo_peek)

text \<open>A block that keeps its tag and class is replaced in the map.\<close>

lemma change_block_lookup:
  assumes wf: "cache_wf c" and ch: "change_block f c a = Inr c'"
    and f: "\<And>b. m_tag (f b) = m_tag b" "\<And>t b. block_ok t b \<Longrightarrow> block_ok t (f b)"
  shows "cache_wf c' \<and>
    (\<exists>b. peekSingleLine c a = Inr (Some b) \<and>
      (\<forall>x. peekSingleLine c' x = (if line c x = line c a then Inr (Some (f b)) else peekSingleLine c x)))"
proof -
  obtain idx where idx: "splitAddress (c_base c) a = Inr (line c a, idx)" "unat idx < length (m_sets c)"
    and s: "get_set c idx = Inr (m_sets c ! unat idx)"
      "set_wf policy_inv (m_cache_type c) (unat (m_associativity (c_base c))) (m_sets c ! unat idx)"
    by (rule cache_split [OF wf])
  let ?s = "m_sets c ! unat idx"
  obtain i where i: "set_find ?s (line c a) = Some i"
    and c': "c' = put_set c idx (?s\<lparr>cs_blocks := (cs_blocks ?s)[i := f (cs_blocks ?s ! i)]\<rparr>)"
    using ch idx s(1) by (auto simp: change_block_def split: option.splits)
  let ?b = "cs_blocks ?s ! i"
  let ?s' = "?s\<lparr>cs_blocks := (cs_blocks ?s)[i := f ?b]\<rparr>"
  have valid: "line c a \<noteq> NOT 0" using wf line_not_invalid unfolding cache_wf_def by blast
  have tag: "i < length (cs_blocks ?s)" "m_tag ?b = line c a" using set_find_SomeD [OF i] by auto
  have u: "tags_unique (cs_blocks ?s)" "\<forall>b\<in>set (cs_blocks ?s). block_ok (m_cache_type c) b" using s(2) by (auto simp: set_wf_def)
  have other: "\<forall>j<length (cs_blocks ?s). j \<noteq> i \<longrightarrow> m_tag (cs_blocks ?s ! j) \<noteq> m_tag (f ?b)"
    using u(1) tag valid by (auto simp: f tags_unique_def isValid_def)
  have map: "set_map ?s' = (set_map ?s)(line c a \<mapsto> f ?b)"
    using set_map_update [OF u(1) tag(1), of "f ?b" "?s'"] other valid tag(2) by (auto simp: f isValid_def fun_eq_iff)
  have swf: "set_wf policy_inv (m_cache_type c) (unat (m_associativity (c_base c))) ?s'"
    using s(2) tags_unique_update [OF u(1) tag(1), of "f ?b"] other u(2) tag(1) f(2)
    by (auto simp: set_wf_def dest!: set_update_subset_insert [THEN subsetD])
  have old: "set_map ?s (line c a) = Some ?b" using i valid by (simp add: set_map_def)
  have wf': "cache_wf c'"
  proof (rule put_set_wf [OF wf idx(2) swf])
    show "cs_blocksize ?s' = m_blocksize (c_base c)" using wf idx(2) by (auto simp: cache_wf_def)
    show "\<exists>addr. splitAddress (c_base c) addr = Inr (tag, idx)" if "set_map ?s' tag \<noteq> None" for tag
      using that map idx tag_at_home [OF wf idx(2), of tag] by (auto split: if_splits)
  qed (simp_all add: c' put_set_def)
  have "peekSingleLine c' x = (if line c x = line c a then Inr (Some (f ?b)) else peekSingleLine c x)" for x
  proof -
    obtain j where j: "splitAddress (c_base c) x = Inr (line c x, j)" by (rule cache_split [OF wf])
    have "line c x = line c a \<Longrightarrow> j = idx" using split_same_line [OF wf j idx(1)] by simp
    then show ?thesis
      using put_set_peek [OF wf wf' idx(2), of ?s', OF _ _ j] map peek_set_map [OF wf j] by (auto simp: c' put_set_def)
  qed
  then show ?thesis using wf' old peek_set_map [OF wf idx(1)] by (auto simp: c' put_set_def)
qed

text \<open>What no operation changes: the geometry, whether faults are injected, and which sets hold data.\<close>

definition shape :: "Cache \<Rightarrow> CacheBase \<times> bool \<times> bool list" where
  "shape c = (c_base c, m_fault_injector c = None, map (\<lambda>s. m_blocks s = None) (m_sets c))"

lemma shape_put_set [simp]:
  assumes "get_set c i = Inr s" and "(m_blocks s' = None) = (m_blocks s = None)"
  shows "shape (put_set c i s') = shape c" "shape ((put_set c i s')\<lparr>c_ctx := ctx\<rparr>) = shape c"
  using assms by (auto simp: shape_def put_set_def get_set_def map_update intro!: list_update_same_conv [THEN iffD2] split: if_splits)

lemma run_injector_shape: "run_injector hook c i l off n = Inr c' \<Longrightarrow> shape c' = shape c"
  by (auto simp: run_injector_def bindE_Inr_iff shape_def put_set_def get_set_def map_update
      intro!: list_update_same_conv [THEN iffD2] split: option.splits if_splits)

lemma read_line_data: "read_line upd s ctx i off hb n u = Inr (out, s', ctx') \<Longrightarrow> m_blocks s' = m_blocks s"
  by (auto simp: read_line_def bindE_Inr_iff split: if_splits)

lemma write_line_data: "write_line upd s ctx i off buff n u = Inr (s', ctx') \<Longrightarrow> (m_blocks s' = None) = (m_blocks s = None)"
  by (auto simp: write_line_def Let_def bindE_Inr_iff mem_write_def split: if_splits option.splits)

lemma accessSingleLine_shape: "accessSingleLine c a t buff bytes u = Inr (found, out, c') \<Longrightarrow> shape c' = shape c"
  by (auto simp: accessSingleLine_def bindE_Inr_iff dest!: run_injector_shape read_line_data write_line_data
      split: option.splits if_splits)

lemma invalidateSingleLine_shape: "invalidateSingleLine c a = Inr (p, c') \<Longrightarrow> shape c' = shape c"
  by (auto simp: invalidateSingleLine_def bindE_Inr_iff set_invalidate_def split: option.splits)

lemma change_block_shape: "change_block f c a = Inr c' \<Longrightarrow> shape c' = shape c"
  by (auto simp: change_block_def bindE_Inr_iff split: option.splits)

lemma shape_base: "shape c' = shape c \<Longrightarrow> c_base c' = c_base c"
  by (simp add: shape_def)

section \<open>What the operations on one block change\<close>

text \<open>The controllers keep all but their statistics, the masters all but the contents of the cache and the eviction buffer.\<close>

definition fixed :: "MemSys \<Rightarrow> MemSys \<Rightarrow> bool" where
  "fixed sys sys' \<longleftrightarrow> sys'\<lparr>cntlrs := cntlrs sys, masters := masters sys\<rparr> = sys \<and>
     (\<forall>c. (cntlrs sys' c)\<lparr>stats := stats (cntlrs sys c)\<rparr> = cntlrs sys c) \<and>
     (\<forall>m. (masters sys' m)\<lparr>m_cache := m_cache (masters sys m), m_evicting_buf := m_evicting_buf (masters sys m)\<rparr> = masters sys m \<and>
        shape (m_cache (masters sys' m)) = shape (m_cache (masters sys m)))"

lemma fixed_refl [simp]: "fixed sys sys"
  by (simp add: fixed_def)

lemma fixed_trans:
  assumes "fixed s1 s2" and "fixed s2 s3"
  shows "fixed s1 s3"
proof -
  have e: "s3\<lparr>cntlrs := cntlrs s2, masters := masters s2\<rparr> = s2" "(cntlrs s3 c)\<lparr>stats := stats (cntlrs s2 c)\<rparr> = cntlrs s2 c"
    "(masters s3 m)\<lparr>m_cache := m_cache (masters s2 m), m_evicting_buf := m_evicting_buf (masters s2 m)\<rparr> = masters s2 m" for c m
    using assms(2) by (simp_all only: fixed_def)
  have "s3\<lparr>cntlrs := x, masters := y\<rparr> = s2\<lparr>cntlrs := x, masters := y\<rparr>" for x y
    using arg_cong [OF e(1), of "\<lambda>s. s\<lparr>cntlrs := x, masters := y\<rparr>"] by simp
  moreover have "(cntlrs s3 c)\<lparr>stats := x\<rparr> = (cntlrs s2 c)\<lparr>stats := x\<rparr>" for c x
    using arg_cong [OF e(2) [of c], of "\<lambda>k. k\<lparr>stats := x\<rparr>"] by simp
  moreover have "(masters s3 m)\<lparr>m_cache := x, m_evicting_buf := y\<rparr> = (masters s2 m)\<lparr>m_cache := x, m_evicting_buf := y\<rparr>" for m x y
    using arg_cong [OF e(3) [of m], of "\<lambda>k. k\<lparr>m_cache := x, m_evicting_buf := y\<rparr>"] by simp
  ultimately show ?thesis using assms unfolding fixed_def by simp
qed

lemma fixed_sym: "fixed sys sys' \<Longrightarrow> fixed sys' sys"
proof -
  assume f: "fixed sys sys'"
  have e: "sys'\<lparr>cntlrs := cntlrs sys, masters := masters sys\<rparr> = sys" "(cntlrs sys' c)\<lparr>stats := stats (cntlrs sys c)\<rparr> = cntlrs sys c"
    "(masters sys' m)\<lparr>m_cache := m_cache (masters sys m), m_evicting_buf := m_evicting_buf (masters sys m)\<rparr> = masters sys m" for c m
    using f by (simp_all only: fixed_def)
  have "sys\<lparr>cntlrs := cntlrs sys', masters := masters sys'\<rparr> = sys'"
    using arg_cong [OF e(1), of "\<lambda>s. s\<lparr>cntlrs := cntlrs sys', masters := masters sys'\<rparr>"] by simp
  moreover have "(cntlrs sys c)\<lparr>stats := stats (cntlrs sys' c)\<rparr> = cntlrs sys' c" for c
    using arg_cong [OF e(2) [of c], of "\<lambda>k. k\<lparr>stats := stats (cntlrs sys' c)\<rparr>"] by simp
  moreover have "(masters sys m)\<lparr>m_cache := m_cache (masters sys' m), m_evicting_buf := m_evicting_buf (masters sys' m)\<rparr> = masters sys' m" for m
    using arg_cong [OF e(3) [of m], of "\<lambda>k. k\<lparr>m_cache := m_cache (masters sys' m), m_evicting_buf := m_evicting_buf (masters sys' m)\<rparr>"] by simp
  ultimately show ?thesis using f by (simp add: fixed_def)
qed

lemma fixed_cntlr:
  assumes "fixed sys sys'"
  shows "m_master (cntlrs sys' c) = m_master (cntlrs sys c)" "m_coherent (cntlrs sys' c) = m_coherent (cntlrs sys c)"
    "m_next_cache_cntlr (cntlrs sys' c) = m_next_cache_cntlr (cntlrs sys c)"
    "m_cache_writethrough (cntlrs sys' c) = m_cache_writethrough (cntlrs sys c)"
    "m_cache_block_size (cntlrs sys' c) = m_cache_block_size (cntlrs sys c)"
    "cc_core_id (cntlrs sys' c) = cc_core_id (cntlrs sys c)"
proof -
  have k: "cntlrs sys c = (cntlrs sys' c)\<lparr>stats := stats (cntlrs sys c)\<rparr>" using assms by (simp add: fixed_def)
  show "m_master (cntlrs sys' c) = m_master (cntlrs sys c)" "m_coherent (cntlrs sys' c) = m_coherent (cntlrs sys c)"
    "m_next_cache_cntlr (cntlrs sys' c) = m_next_cache_cntlr (cntlrs sys c)"
    "m_cache_writethrough (cntlrs sys' c) = m_cache_writethrough (cntlrs sys c)"
    "m_cache_block_size (cntlrs sys' c) = m_cache_block_size (cntlrs sys c)"
    "cc_core_id (cntlrs sys' c) = cc_core_id (cntlrs sys c)" by (subst k, simp)+
qed

lemma fixed_master:
  assumes "fixed sys sys'"
  shows "m_prev_cache_cntlrs (masters sys' m) = m_prev_cache_cntlrs (masters sys m)"
    "m_evicting_address (masters sys' m) = m_evicting_address (masters sys m)"
    "shape (m_cache (masters sys' m)) = shape (m_cache (masters sys m))" "same_line sys' m a b = same_line sys m a b"
proof -
  have m: "masters sys m =
      (masters sys' m)\<lparr>m_cache := m_cache (masters sys m), m_evicting_buf := m_evicting_buf (masters sys m)\<rparr>"
    using assms by (simp add: fixed_def)
  show "m_prev_cache_cntlrs (masters sys' m) = m_prev_cache_cntlrs (masters sys m)"
    "m_evicting_address (masters sys' m) = m_evicting_address (masters sys m)" by (subst m, simp)+
  show "shape (m_cache (masters sys' m)) = shape (m_cache (masters sys m))" "same_line sys' m a b = same_line sys m a b"
    using assms shape_base [of "m_cache (masters sys' m)" "m_cache (masters sys m)"] by (simp_all add: fixed_def same_line_def line_def)
qed

lemma fixed_sys:
  assumes "fixed sys sys'"
  shows "mem_sent sys' = mem_sent sys" "elapsed sys' = elapsed sys" "getCost sys' = getCost sys" "sys_periods sys' = sys_periods sys"
proof -
  have s: "sys = sys'\<lparr>cntlrs := cntlrs sys, masters := masters sys\<rparr>" using assms by (simp add: fixed_def)
  show "mem_sent sys' = mem_sent sys" "elapsed sys' = elapsed sys" "getCost sys' = getCost sys" "sys_periods sys' = sys_periods sys"
    by (subst s, simp)+
qed

lemmas fixed_simps = fixed_cntlr fixed_master fixed_sys

lemma put_cache_fields [simp]:
  "cntlrs (put_cache c cache sys) = cntlrs sys"
  "masters (put_cache c cache sys) = (masters sys)(m_master (cntlrs sys c) := (master_of sys c)\<lparr>m_cache := cache\<rparr>)"
  by (simp_all add: put_cache_def put_master_def)

lemma count_stats_fields [simp]:
  "masters (count_stats c f sys) = masters sys" "peek (count_stats c f sys) = peek sys" "sys_wf (count_stats c f sys) = sys_wf sys"
  by (simp_all add: count_stats_def put_cntlr_def peek_def [abs_def] sys_wf_def)

lemma count_stats_fixed [simp]: "fixed sys (count_stats c f sys)"
  by (simp add: fixed_def count_stats_def put_cntlr_def)

lemma put_cache_fixed: "shape cache = shape (m_cache (master_of sys c)) \<Longrightarrow> fixed sys (put_cache c cache sys)"
  by (simp add: fixed_def put_cache_def put_master_def)

lemma put_cache_wf: "sys_wf sys \<Longrightarrow> cache_wf cache \<Longrightarrow> sys_wf (put_cache c cache sys)"
  by (simp add: sys_wf_def)

lemma peek_put_cache:
  "peek (put_cache c cache sys) m x =
     (if m = m_master (cntlrs sys c) then case peekSingleLine cache x of Inr b \<Rightarrow> b | Inl _ \<Rightarrow> None else peek sys m x)"
  by (simp add: peek_def)

text \<open>Reads, and writes of data, change no contents; a change of state or an invalidation changes one line of one cache.\<close>

abbreviation contents_set :: "MemSys \<Rightarrow> MemSys \<Rightarrow> (master_ptr \<Rightarrow> IntPtr \<Rightarrow> CacheBlockInfo option) \<Rightarrow> bool" where
  "contents_set sys sys' f \<equiv> sys_wf sys' \<and> fixed sys sys' \<and> peek sys' = f"

definition put_line :: "MemSys \<Rightarrow> cntlr_ptr \<Rightarrow> IntPtr \<Rightarrow> CacheBlockInfo option \<Rightarrow> master_ptr \<Rightarrow> IntPtr \<Rightarrow> CacheBlockInfo option" where
  "put_line sys c a b m x = (if m = m_master (cntlrs sys c) \<and> same_line sys m a x then b else peek sys m x)"

lemma put_cache_contents:
  assumes "sys_wf sys" and "cache_wf cache" and "shape cache = shape (m_cache (master_of sys c))"
    and "\<And>x. peekSingleLine cache x = Inr (f (m_master (cntlrs sys c)) x)" "\<And>m x. m \<noteq> m_master (cntlrs sys c) \<Longrightarrow> f m x = peek sys m x"
  shows "contents_set sys (put_cache c cache sys) f"
  using assms put_cache_wf put_cache_fixed by (auto simp: peek_put_cache fun_eq_iff)

lemma retrieveCacheBlock_contents:
  assumes "sys_wf sys" and "retrieveCacheBlock c a u sys = Inr (data, sys')"
  shows "contents_set sys sys' (peek sys)"
proof -
  let ?c = "m_cache (master_of sys c)"
  obtain found out cache where acc: "accessSingleLine ?c a LOAD (Some []) (m_cache_block_size (cntlrs sys c)) u = Inr (found, out, cache)"
    and sys': "sys' = put_cache c cache sys" using assms(2) by (auto simp: retrieveCacheBlock_def bindE_Inr_iff)
  have wf: "cache_wf ?c" using assms(1) by (simp add: sys_wf_def)
  from accessSingleLine_map [OF wf acc] accessSingleLine_shape [OF acc] show ?thesis
    unfolding sys' by (intro put_cache_contents [OF assms(1)]) (auto simp: peek_Inr [OF assms(1)])
qed

lemma write_own_block_contents:
  assumes "sys_wf sys" and "write_own_block c a off buf n sys = Inr sys'"
  shows "contents_set sys sys' (peek sys)"
proof (cases "m_evicting_buf (master_of sys c) \<noteq> None \<and> a = m_evicting_address (master_of sys c)")
  case True
  then show ?thesis
    using assms
    by (auto simp: write_own_block_def Let_def bindE_Inr_iff put_master_def fixed_def sys_wf_def peek_def fun_eq_iff split: option.splits)
next
  case False
  then obtain found out cache
    where acc: "accessSingleLine (m_cache (master_of sys c)) (a + ucast off) STORE buf n False = Inr (found, out, cache)"
      and sys': "sys' = put_cache c cache sys"
    using assms(2) by (auto simp: write_own_block_def Let_def bindE_Inr_iff)
  have wf: "cache_wf (m_cache (master_of sys c))" using assms(1) by (simp add: sys_wf_def)
  from accessSingleLine_map [OF wf acc] accessSingleLine_shape [OF acc] show ?thesis
    unfolding sys' by (intro put_cache_contents [OF assms(1)]) (auto simp: peek_Inr [OF assms(1)])
qed

lemma writeCacheBlock_contents:
  "sys_wf sys \<Longrightarrow> writeCacheBlock fuel c a off buf n sys = Inr sys' \<Longrightarrow> contents_set sys sys' (peek sys)"
proof (induction fuel arbitrary: c sys)
  case (Suc fuel)
  then obtain s1 where s1: "write_own_block c a off buf n sys = Inr s1"
    and rest: "s1 = sys' \<or> (\<exists>d. writeCacheBlock fuel d a off buf n s1 = Inr sys')"
    by (auto simp: bindE_Inr_iff split: if_splits option.splits)
  from write_own_block_contents [OF Suc.prems(1) s1] rest Suc.IH [of s1] show ?case using fixed_trans by metis
qed simp

lemma setCacheState_contents:
  assumes "sys_wf sys" and "setCacheState c a s sys = Inr sys'"
  shows "\<exists>b. peek sys (m_master (cntlrs sys c)) a = Some b \<and> contents_set sys sys' (put_line sys c a (Some (b\<lparr>m_cstate := s\<rparr>)))"
proof -
  let ?c = "m_cache (master_of sys c)"
  obtain cache where ch: "change_block (\<lambda>b. b\<lparr>m_cstate := s\<rparr>) ?c a = Inr cache" and sys': "sys' = put_cache c cache sys"
    using assms(2) by (auto simp: setCacheState_def cc_change_block_def bindE_Inr_iff)
  have wf: "cache_wf ?c" using assms(1) by (simp add: sys_wf_def)
  obtain b where b: "cache_wf cache" "peekSingleLine ?c a = Inr (Some b)"
    "\<forall>x. peekSingleLine cache x = (if line ?c x = line ?c a then Inr (Some (b\<lparr>m_cstate := s\<rparr>)) else peekSingleLine ?c x)"
    using change_block_lookup [OF wf ch] by (auto simp: block_ok_def)
  then have "contents_set sys sys' (put_line sys c a (Some (b\<lparr>m_cstate := s\<rparr>)))"
    unfolding sys' using change_block_shape [OF ch]
    by (intro put_cache_contents [OF assms(1)]) (auto simp: peek_Inr [OF assms(1)] put_line_def same_line_def)
  then show ?thesis using b(2) peek_Inr [OF assms(1)] by auto
qed

lemma invalidateCacheBlock_contents:
  assumes "sys_wf sys" and "invalidateCacheBlock c a sys = Inr sys'"
  shows "contents_set sys sys' (put_line sys c a None)"
proof -
  let ?c = "m_cache (master_of sys c)"
  obtain p cache where inv: "invalidateSingleLine ?c a = Inr (p, cache)" and sys': "sys' = put_cache c cache sys"
    using assms(2) by (auto simp: invalidateCacheBlock_def bindE_Inr_iff)
  have wf: "cache_wf ?c" using assms(1) by (simp add: sys_wf_def)
  have "cache_wf cache" "\<forall>x. peekSingleLine cache x = (if line ?c x = line ?c a then Inr None else peekSingleLine ?c x)"
    using invalidateSingleLine_lookup [OF wf, of a] inv by auto
  then show ?thesis
    unfolding sys' using invalidateSingleLine_shape [OF inv]
    by (intro put_cache_contents [OF assms(1)]) (auto simp: peek_Inr [OF assms(1)] put_line_def same_line_def)
qed

lemma put_line_own [simp]: "put_line sys c a b (m_master (cntlrs sys c)) a = b"
  by (simp add: put_line_def same_line_def)

lemma put_line_same: "peek sys (m_master (cntlrs sys c)) a = b \<Longrightarrow> sys_wf sys \<Longrightarrow> put_line sys c a b = peek sys"
proof (intro ext)
  fix m x
  assume b: "peek sys (m_master (cntlrs sys c)) a = b" and wf: "sys_wf sys"
  let ?c = "m_cache (masters sys m)"
  have cwf: "cache_wf ?c" using wf by (simp add: sys_wf_def)
  obtain i j where "splitAddress (c_base ?c) a = Inr (line ?c a, i)" "splitAddress (c_base ?c) x = Inr (line ?c x, j)"
    using cache_split [OF cwf] by metis
  with split_same_line [OF cwf this] peek_set_map [OF cwf] b show "put_line sys c a b m x = peek sys m x"
    by (auto simp: put_line_def same_line_def peek_def)
qed

lemma put_line_put_line:
  assumes "contents_set s1 s2 (put_line s1 c a b1)" and "contents_set s2 s3 (put_line s2 c a b2)"
  shows "contents_set s1 s3 (put_line s1 c a b2)"
proof -
  have f: "fixed s1 s2" and p: "peek s2 = put_line s1 c a b1" using assms(1) by auto
  have "put_line s2 c a b2 = put_line s1 c a b2"
    by (intro ext) (auto simp: put_line_def p fixed_simps [OF f])
  with assms show ?thesis using fixed_trans by metis
qed

lemma contents_set_trans:
  "contents_set s1 s2 f \<Longrightarrow> contents_set s2 s3 (peek s2) \<Longrightarrow> contents_set s1 s3 f"
  using fixed_trans by metis

lemma contents_set_put_line:
  assumes "contents_set s1 s2 (peek s1)" and "contents_set s2 s3 (put_line s2 c a b)"
  shows "contents_set s1 s3 (put_line s1 c a b)"
proof -
  have f: "fixed s1 s2" and p: "peek s2 = peek s1" using assms(1) by auto
  have "put_line s2 c a b = put_line s1 c a b" by (intro ext) (auto simp: put_line_def p fixed_simps [OF f])
  with assms show ?thesis using fixed_trans by metis
qed

lemma write_back_contents:
  assumes wf: "sys_wf sys" and b: "peek sys (m_master (cntlrs sys c)) a = Some b"
    and run: "write_back fuel c a want sys = Inr (out, wb, sys')"
  shows "contents_set sys sys' (put_line sys c a (Some (b\<lparr>m_cstate := SHARED\<rparr>)))"
proof -
  let ?k = "cntlrs sys c"
  consider "m_cache_writethrough ?k" "setCacheState c a SHARED sys = Inr sys'"
    | n data s2 s1 where "retrieveCacheBlock c a False sys = Inr (data, s2)"
        "writeCacheBlock fuel n a 0 (Some data) (m_cache_block_size ?k) s2 = Inr s1" "setCacheState c a SHARED s1 = Inr sys'"
    | data s1 where "retrieveCacheBlock c a False sys = Inr (data, s1)" "setCacheState c a SHARED s1 = Inr sys'"
    using run by (auto simp: write_back_def Let_def bindE_Inr_iff split: if_splits option.splits)
  then obtain s1 where s1: "contents_set sys s1 (peek sys)" and st: "setCacheState c a SHARED s1 = Inr sys'"
  proof cases
    case 1
    then show thesis using that wf fixed_refl by blast
  next
    case 2
    note s2 = retrieveCacheBlock_contents [OF wf 2(1)]
    then have "contents_set s2 s1 (peek s2)" using writeCacheBlock_contents [OF _ 2(2)] by blast
    from that [OF contents_set_trans [OF s2 this] 2(3)] show thesis .
  next
    case 3
    from that [OF retrieveCacheBlock_contents [OF wf 3(1)] 3(2)] show thesis .
  qed
  have f: "fixed sys s1" using s1 by blast
  have "peek s1 (m_master (cntlrs s1 c)) a = Some b" using s1 b by (simp add: fixed_simps [OF f])
  with setCacheState_contents [OF _ st] s1 show ?thesis by (intro contents_set_put_line [OF s1]) auto
qed

text \<open>The block that \<^verbatim>\<open>updateCacheBlock\<close> leaves at its own level.\<close>

definition new_block :: "bool \<Rightarrow> cstate_t \<Rightarrow> bool \<Rightarrow> CacheBlockInfo \<Rightarrow> CacheBlockInfo option" where
  "new_block coherent new_cstate want b =
     (if new_cstate = m_cstate b \<and> want then Some b
      else if new_cstate = INVALID
      then if coherent then None else Some (if m_cstate b = MODIFIED then b\<lparr>m_cstate := SHARED\<rparr> else b)
      else Some (b\<lparr>m_cstate := new_cstate\<rparr>))"

lemma settle_block_contents:
  assumes wf: "sys_wf sys" and b: "peek sys (m_master (cntlrs sys c)) a = Some b"
    and run: "settle_block c a new_cstate want (o1, w1, sys) = Inr (out, wb, sys')"
  shows "contents_set sys sys' (put_line sys c a
    (if new_cstate = INVALID then if m_coherent (cntlrs sys c) then None else Some b else Some (b\<lparr>m_cstate := new_cstate\<rparr>)))"
proof (cases "new_cstate = INVALID \<or> new_cstate = SHARED")
  case True
  then obtain o2 w2 s2 where
      ret: "(if want then bindE (retrieveCacheBlock c a False sys) (\<lambda>(data, sys). Inr (Some data, True, sys)) else Inr (o1, w1, sys)) = Inr (o2, w2, s2)"
    and r: "(if new_cstate = INVALID then if m_coherent (cntlrs s2 c) then invalidateCacheBlock c a s2 else Inr s2
            else setCacheState c a SHARED s2) = Inr sys'"
    using run by (auto simp: settle_block_def bindE_Inr_iff)
  have s2: "contents_set sys s2 (peek sys)"
    using ret wf retrieveCacheBlock_contents [OF wf] by (auto simp: bindE_Inr_iff split: if_splits)
  have f: "fixed sys s2" "sys_wf s2" using s2 by auto
  have b2: "peek s2 (m_master (cntlrs s2 c)) a = Some b" using s2 b by (simp add: fixed_simps [OF f(1)])
  consider "new_cstate = INVALID" "m_coherent (cntlrs sys c)" "invalidateCacheBlock c a s2 = Inr sys'"
    | "new_cstate = INVALID" "\<not> m_coherent (cntlrs sys c)" "s2 = sys'"
    | "new_cstate = SHARED" "setCacheState c a SHARED s2 = Inr sys'"
    using r True by (auto simp: fixed_simps [OF f(1)] split: if_splits)
  then show ?thesis
  proof cases
    case 1
    with contents_set_put_line [OF s2 invalidateCacheBlock_contents [OF f(2) 1(3)]] show ?thesis by simp
  next
    case 2
    with s2 put_line_same [OF b wf] show ?thesis by simp
  next
    case 3
    with contents_set_put_line [OF s2, of sys' c a] setCacheState_contents [OF f(2) 3(2)] b2 show ?thesis by auto
  qed
next
  case False
  then have "setCacheState c a MODIFIED sys = Inr sys'" "new_cstate = MODIFIED"
    using run by (auto simp: settle_block_def bindE_Inr_iff split: if_splits)
  with setCacheState_contents [OF wf this(1)] b show ?thesis by auto
qed

lemma update_own_block_contents:
  assumes wf: "sys_wf sys" and b: "peek sys (m_master (cntlrs sys c)) a = Some b"
    and run: "update_own_block fuel c a new_cstate reason want b sys = Inr (out, wb, sys')"
  shows "contents_set sys sys' (put_line sys c a (new_block (m_coherent (cntlrs sys c)) new_cstate want b))"
proof (cases "new_cstate = m_cstate b \<and> want")
  case True
  then show ?thesis
    using run retrieveCacheBlock_contents [OF wf] put_line_same [OF b wf]
    by (auto simp: update_own_block_def new_block_def bindE_Inr_iff)
next
  case False
  let ?s0 = "count_stats c (count_update reason new_cstate b) sys"
  let ?b1 = "if m_cstate b = MODIFIED then b\<lparr>m_cstate := SHARED\<rparr> else b"
  have s0: "contents_set sys ?s0 (peek sys)" using wf by simp
  have b0: "peek ?s0 (m_master (cntlrs ?s0 c)) a = Some b" using b by (simp add: fixed_cntlr [OF count_stats_fixed])
  obtain o1 w1 s1 where r1: "(if m_cstate b = MODIFIED then write_back fuel c a want ?s0 else Inr (None, False, ?s0)) = Inr (o1, w1, s1)"
    and r2: "settle_block c a new_cstate want (o1, w1, s1) = Inr (out, wb, sys')"
    using run False unfolding update_own_block_def Let_def by (auto simp: bindE_Inr_iff)
  have "contents_set ?s0 s1 (put_line ?s0 c a (Some ?b1))"
    using r1 write_back_contents [OF _ b0] put_line_same [OF b0] wf by (auto split: if_splits)
  note c1 = contents_set_put_line [OF s0 this]
  then have f: "fixed sys s1" "sys_wf s1" by auto
  have "peek s1 (m_master (cntlrs s1 c)) a = Some ?b1" using c1 by (simp add: fixed_simps [OF f(1)])
  from put_line_put_line [OF c1 settle_block_contents [OF f(2) this r2]] False show ?thesis
    by (auto simp: new_block_def fixed_simps [OF f(1)] split: if_splits)
qed

section \<open>What a change of a line keeps in the whole hierarchy\<close>

text \<open>The calls of \<^verbatim>\<open>updateCacheBlock\<close> on the previous levels.\<close>

definition update_below ::
  "nat \<Rightarrow> IntPtr \<Rightarrow> cstate_t \<Rightarrow> reason_t \<Rightarrow> cntlr_ptr \<Rightarrow> MemSys \<Rightarrow> (SubsecondTime \<times> bool \<times> MemSys) res" where
  "update_below fuel a new_cstate reason p sys =
     map_sum id (\<lambda>(t, hit, _, sys). (t, hit, sys)) (updateCacheBlock fuel p a new_cstate reason False sys)"

lemma update_below_Inr:
  "update_below fuel a new_cstate reason p sys = Inr (t, hit, sys') \<longleftrightarrow>
     (\<exists>out. updateCacheBlock fuel p a new_cstate reason False sys = Inr (t, hit, out, sys'))"
  by (cases "updateCacheBlock fuel p a new_cstate reason False sys") (auto simp: update_below_def)

lemma updateCacheBlock_Inr:
  "updateCacheBlock (Suc fuel) c a new_cstate reason want sys = Inr (t, hit, out, sys') \<longleftrightarrow>
     new_cstate \<notin> {INVALID_COLD, INVALID_EVICT, INVALID_COHERENCY} \<and>
     (\<exists>t1 h1 s1. update_prevs (update_below fuel a new_cstate (if reason = EVICT then BACK_INVAL else reason))
         (m_prev_cache_cntlrs (master_of sys c)) (0, False) sys = Inr (t1, h1, s1) \<and>
       update_level (Suc fuel) c a new_cstate reason want h1 s1 = Inr (t, hit, out, sys'))"
  unfolding updateCacheBlock.simps update_below_def [abs_def] bindE_Inr_iff assertE_Inr_iff by auto

lemma update_levelD:
  assumes wf: "sys_wf sys" and run: "update_level fuel c a new_cstate reason want h sys = Inr (t, hit, out, sys')"
  shows "case peek sys (m_master (cntlrs sys c)) a of None \<Rightarrow> sys' = sys \<and> out = None
     | Some b \<Rightarrow> contents_set sys sys' (put_line sys c a (new_block (m_coherent (cntlrs sys c)) new_cstate want b))"
    and "m_coherent (cntlrs sys' c) \<Longrightarrow> getCacheState sys' c a \<in> {Inr INVALID, Inr new_cstate}"
    and "want \<longrightarrow> out \<noteq> None"
proof -
  obtain o1 wb s1 where own: "(case peek sys (m_master (cntlrs sys c)) a of
          None \<Rightarrow> Inr (None, False, sys) | Some b \<Rightarrow> update_own_block fuel c a new_cstate reason want b sys) = Inr (o1, wb, s1)"
    and rest: "out = o1" "sys' = s1" "want \<longrightarrow> o1 \<noteq> None"
      "\<exists>st. getCacheState s1 c a = Inr st \<and> (st = INVALID \<or> st = new_cstate \<or> \<not> m_coherent (cntlrs s1 c))"
    using run unfolding update_level_def getCacheBlockInfo_peek [OF wf] by (auto simp: bindE_Inr_iff)
  from own rest show "case peek sys (m_master (cntlrs sys c)) a of None \<Rightarrow> sys' = sys \<and> out = None
     | Some b \<Rightarrow> contents_set sys sys' (put_line sys c a (new_block (m_coherent (cntlrs sys c)) new_cstate want b))"
    using update_own_block_contents [OF wf] by (auto split: option.splits)
  from rest show "m_coherent (cntlrs sys' c) \<Longrightarrow> getCacheState sys' c a \<in> {Inr INVALID, Inr new_cstate}" "want \<longrightarrow> out \<noteq> None" by auto
qed

locale update_relation =
  fixes R :: "MemSys \<Rightarrow> MemSys \<Rightarrow> bool" and a :: IntPtr and new_cstate :: cstate_t
  assumes R_refl: "R sys sys"
    and R_trans: "R s1 s2 \<Longrightarrow> R s2 s3 \<Longrightarrow> R s1 s3"
    and R_own: "\<lbrakk>sys_wf sys; peek sys (m_master (cntlrs sys c)) a = Some b;
        contents_set sys sys' (put_line sys c a (new_block (m_coherent (cntlrs sys c)) new_cstate want b))\<rbrakk> \<Longrightarrow> R sys sys'"
begin

lemma update_prevs_visits:
  assumes "\<And>p s t h s'. sys_wf s \<Longrightarrow> f p s = Inr (t, h, s') \<Longrightarrow> sys_wf s' \<and> R s s'"
  shows "sys_wf sys \<Longrightarrow> update_prevs f ps acc sys = Inr (t, h, sys') \<Longrightarrow> sys_wf sys' \<and> R sys sys' \<and>
    (\<forall>p\<in>set ps. \<exists>s t h s'. sys_wf s \<and> R sys s \<and> f p s = Inr (t, h, s') \<and> R s' sys')"
proof (induction ps arbitrary: acc sys)
  case Nil
  then show ?case using R_refl by simp
next
  case (Cons p ps)
  then obtain t1 h1 s1 where p: "f p sys = Inr (t1, h1, s1)"
    and rest: "update_prevs f ps (max (fst acc) t1, snd acc \<or> h1) s1 = Inr (t, h, sys')" by (auto simp: bindE_Inr_iff)
  have s1: "sys_wf s1" "R sys s1" using assms [OF Cons.prems(1) p] by auto
  note ih = Cons.IH [OF s1(1) rest]
  have "\<exists>s t h s'. sys_wf s \<and> R sys s \<and> f q s = Inr (t, h, s') \<and> R s' sys'" if "q \<in> set (p # ps)" for q
  proof (cases "q = p")
    case True
    then show ?thesis using p ih Cons.prems(1) R_refl by blast
  next
    case False
    then show ?thesis using that ih R_trans [OF s1(2)] by (metis set_ConsD)
  qed
  then show ?case using ih R_trans [OF s1(2)] by blast
qed

lemma updateCacheBlock_keeps:
  "sys_wf sys \<Longrightarrow> updateCacheBlock fuel c a new_cstate reason want sys = Inr (t, hit, out, sys') \<Longrightarrow> sys_wf sys' \<and> R sys sys'"
proof (induction fuel arbitrary: c reason want sys t hit out sys')
  case (Suc fuel)
  have step: "sys_wf s' \<and> R s s'" if "sys_wf s" "update_below fuel a new_cstate r p s = Inr (t, h, s')" for r p s t h s'
    using that Suc.IH by (auto simp: update_below_Inr)
  note visits = update_prevs_visits [OF step]
  obtain t1 h1 s1 where prevs: "update_prevs (update_below fuel a new_cstate (if reason = EVICT then BACK_INVAL else reason))
       (m_prev_cache_cntlrs (master_of sys c)) (0, False) sys = Inr (t1, h1, s1)"
    and own: "update_level (Suc fuel) c a new_cstate reason want h1 s1 = Inr (t, hit, out, sys')"
    using Suc.prems(2) unfolding updateCacheBlock_Inr by blast
  have s1: "sys_wf s1" "R sys s1" using visits [OF _ _ Suc.prems(1) prevs] by auto
  show ?case
    using update_levelD(1) [OF s1(1) own] R_own [OF s1(1)] s1 R_trans by (auto split: option.splits)
qed simp

end

text \<open>
  Three relations: lines other than that of the address are unchanged, no line appears, and a cache that has the new state
  or does not hold the line stays so.
\<close>

definition frames_line :: "IntPtr \<Rightarrow> MemSys \<Rightarrow> MemSys \<Rightarrow> bool" where
  "frames_line a sys sys' \<longleftrightarrow> fixed sys sys' \<and> (\<forall>m x. \<not> same_line sys m a x \<longrightarrow> peek sys' m x = peek sys m x)"

definition adds_nothing :: "IntPtr \<Rightarrow> MemSys \<Rightarrow> MemSys \<Rightarrow> bool" where
  "adds_nothing a sys sys' \<longleftrightarrow> (\<forall>m. peek sys m a = None \<longrightarrow> peek sys' m a = None)"

definition settled :: "IntPtr \<Rightarrow> cstate_t \<Rightarrow> MemSys \<Rightarrow> master_ptr \<Rightarrow> bool" where
  "settled a new_cstate sys m \<longleftrightarrow> block_state (peek sys m a) \<in> {INVALID, new_cstate}"

definition keeps_settled :: "IntPtr \<Rightarrow> cstate_t \<Rightarrow> MemSys \<Rightarrow> MemSys \<Rightarrow> bool" where
  "keeps_settled a new_cstate sys sys' \<longleftrightarrow> fixed sys sys' \<and> (\<forall>m. settled a new_cstate sys m \<longrightarrow> settled a new_cstate sys' m)"

interpretation upd_frame: update_relation "frames_line a" a new_cstate for a new_cstate
proof (unfold_locales, goal_cases)
  case (1 sys) then show ?case by (simp add: frames_line_def)
next
  case (2 s1 s2 s3)
  then have "fixed s1 s2" "fixed s1 s3" using fixed_trans by (auto simp: frames_line_def)
  with 2 show ?case by (simp add: frames_line_def fixed_simps [of s1 s2])
next
  case (3 sys c b sys' want) then show ?case by (auto simp: frames_line_def put_line_def)
qed

interpretation upd_absent: update_relation "adds_nothing a" a new_cstate for a new_cstate
proof (unfold_locales, goal_cases)
  case (3 sys c b sys' want) then show ?case by (auto simp: adds_nothing_def put_line_def same_line_def)
qed (auto simp: adds_nothing_def)

interpretation upd_settled: update_relation "keeps_settled a new_cstate" a new_cstate for a new_cstate
proof (unfold_locales, goal_cases)
  case (3 sys c b sys' want)
  then have "settled a new_cstate sys' m" if "settled a new_cstate sys m" for m
    using that by (auto simp: settled_def put_line_def same_line_def new_block_def block_state_def split: if_splits)
  with 3 show ?case by (auto simp: keeps_settled_def)
qed (auto simp: keeps_settled_def intro: fixed_trans)

text \<open>The controllers at a controller or at the levels below it.\<close>

inductive below :: "MemSys \<Rightarrow> cntlr_ptr \<Rightarrow> cntlr_ptr \<Rightarrow> bool" for sys where
  below_refl: "below sys c c"
| below_prev: "p \<in> set (m_prev_cache_cntlrs (master_of sys c)) \<Longrightarrow> below sys p d \<Longrightarrow> below sys c d"

lemma below_fixed: "below sys c d \<Longrightarrow> fixed sys sys' \<Longrightarrow> below sys' c d"
  by (induction rule: below.induct) (auto simp: fixed_simps [of sys sys'] intro: below.intros)

lemma below_fixed_iff: "fixed sys sys' \<Longrightarrow> below sys' c d = below sys c d"
  using below_fixed fixed_sym by blast

lemma update_prevs_inv:
  assumes "\<And>p s t h s'. P s \<Longrightarrow> p \<in> set ps \<Longrightarrow> f p s = Inr (t, h, s') \<Longrightarrow> P s'"
    and "P sys" and "update_prevs f ps acc sys = Inr (t, h, sys')"
  shows "P sys'"
  using assms
proof (induction ps arbitrary: acc sys)
  case (Cons p ps)
  obtain t1 h1 s1 where p: "f p sys = Inr (t1, h1, s1)"
    and rest: "update_prevs f ps (max (fst acc) t1, snd acc \<or> h1) s1 = Inr (t, h, sys')"
    using Cons.prems(3) by (auto simp: bindE_Inr_iff)
  have "P s1" by (rule Cons.prems(1) [OF Cons.prems(2) _ p]) simp
  moreover have "P s'" if "P s" "q \<in> set ps" "f q s = Inr (t, h, s')" for q s t h s'
    by (rule Cons.prems(1) [OF that(1) _ that(3)]) (simp add: that(2))
  ultimately show ?case by (intro Cons.IH [OF _ _ rest])
qed simp

lemma updateCacheBlock_settled:
  assumes "sys_wf sys" and "updateCacheBlock fuel c a new_cstate reason want sys = Inr (t, hit, out, sys')"
    and "below sys c d" and "m_coherent (cntlrs sys d)"
  shows "settled a new_cstate sys' (m_master (cntlrs sys d))"
  using assms
proof (induction fuel arbitrary: c reason want sys t hit out sys')
  case (Suc fuel)
  let ?r = "if reason = EVICT then BACK_INVAL else reason"
  let ?R = "keeps_settled a new_cstate"
  obtain t1 h1 s1 where prevs: "update_prevs (update_below fuel a new_cstate ?r) (m_prev_cache_cntlrs (master_of sys c)) (0, False) sys
      = Inr (t1, h1, s1)" and own: "update_level (Suc fuel) c a new_cstate reason want h1 s1 = Inr (t, hit, out, sys')"
    using Suc.prems(2) unfolding updateCacheBlock_Inr by blast
  have step: "sys_wf s' \<and> ?R s s'" if "sys_wf s" "update_below fuel a new_cstate ?r p s = Inr (t, h, s')" for p s t h s'
    using that upd_settled.updateCacheBlock_keeps by (auto simp: update_below_Inr)
  have visits: "sys_wf s1 \<and> ?R sys s1 \<and> (\<forall>p\<in>set (m_prev_cache_cntlrs (master_of sys c)).
      \<exists>s t h s'. sys_wf s \<and> ?R sys s \<and> update_below fuel a new_cstate ?r p s = Inr (t, h, s') \<and> ?R s' s1)"
    by (rule upd_settled.update_prevs_visits [OF _ Suc.prems(1) prevs]) (rule step)
  have s1: "sys_wf s1" "?R sys s1" using visits by auto
  have last: "sys_wf sys' \<and> ?R s1 sys'"
    using update_levelD(1) [OF s1(1) own] upd_settled.R_own [OF s1(1)] s1(1) upd_settled.R_refl by (auto split: option.splits)
  have fx: "fixed sys sys'" using s1(2) last upd_settled.R_trans by (auto simp: keeps_settled_def intro: fixed_trans)
  from Suc.prems(3) show ?case
  proof (cases rule: below.cases)
    case below_refl
    then have "getCacheState sys' c a \<in> {Inr INVALID, Inr new_cstate}"
      using update_levelD(2) [OF s1(1) own] Suc.prems(4) by (simp add: fixed_simps [OF fx])
    then show ?thesis using below_refl last by (simp add: getCacheState_peek settled_def fixed_simps [OF fx])
  next
    case (below_prev p)
    then obtain s t h s' where s: "sys_wf s" "?R sys s" "update_below fuel a new_cstate ?r p s = Inr (t, h, s')" "?R s' s1"
      using visits by blast
    then have f: "fixed sys s" by (simp add: keeps_settled_def)
    from s(3) obtain out' where "updateCacheBlock fuel p a new_cstate ?r False s = Inr (t, h, out', s')"
      by (auto simp: update_below_Inr)
    from Suc.IH [OF s(1) this below_fixed [OF below_prev(2) f]] Suc.prems(4)
    have "settled a new_cstate s' (m_master (cntlrs sys d))" by (simp add: fixed_simps [OF f])
    then show ?thesis using s(4) last by (auto simp: keeps_settled_def)
  qed
qed simp

end
