(* ===== verification/LS_Flush.thy ===== *)
theory LS_Flush
  imports LS_Hierarchy
begin

unbundle bit_operations_syntax

text \<open>
  Invalidations in a hierarchy of caches: they return, reach every cache of the hierarchy, and a request of the directory to
  flush a line is answered with its data.
\<close>

section \<open>Where an invalidation has no effect\<close>

text \<open>Caches that no level below reaches keep their contents.\<close>

lemma update_level_outside:
  assumes "sys_wf sys" and "update_level fuel c a new_cstate reason want h sys = Inr (t, hit, out, sys')"
    and "m \<noteq> m_master (cntlrs sys c)"
  shows "peek sys' m = peek sys m"
  using update_levelD(1) [OF assms(1,2)] assms(3) by (auto simp: put_line_def fun_eq_iff split: option.splits)

lemma updateCacheBlock_outside:
  assumes "sys_wf sys" and "updateCacheBlock fuel c a new_cstate reason want sys = Inr (t, hit, out, sys')"
    and "\<forall>d. below sys c d \<longrightarrow> m_master (cntlrs sys d) \<noteq> m"
  shows "peek sys' m = peek sys m"
  using assms
proof (induction fuel arbitrary: c reason want sys t hit out sys')
  case (Suc fuel)
  let ?r = "if reason = EVICT then BACK_INVAL else reason"
  obtain t1 h1 s1 where prevs: "update_prevs (update_below fuel a new_cstate ?r) (m_prev_cache_cntlrs (master_of sys c)) (0, False) sys
      = Inr (t1, h1, s1)" and own: "update_level (Suc fuel) c a new_cstate reason want h1 s1 = Inr (t, hit, out, sys')"
    using Suc.prems(2) unfolding updateCacheBlock_Inr by blast
  define P where "P s \<longleftrightarrow> sys_wf s \<and> fixed sys s \<and> peek s m = peek sys m" for s
  have "P s'" if P: "P s" and p: "p \<in> set (m_prev_cache_cntlrs (master_of sys c))" and "update_below fuel a new_cstate ?r p s = Inr (t, h, s')"
    for p s t h s'
  proof -
    from that(3) obtain out where run: "updateCacheBlock fuel p a new_cstate ?r False s = Inr (t, h, out, s')" by (auto simp: update_below_Inr)
    have f: "sys_wf s" "fixed sys s" using P by (auto simp: P_def)
    have "peek s' m = peek s m"
      using Suc.prems(3) p by (intro Suc.IH [OF f(1) run]) (auto simp: below_fixed_iff [OF f(2)] fixed_simps [OF f(2)] intro: below_prev)
    moreover have "sys_wf s' \<and> fixed s s'" using upd_frame.updateCacheBlock_keeps [OF f(1) run] by (simp add: frames_line_def)
    ultimately show ?thesis using P fixed_trans unfolding P_def by metis
  qed
  then have "P s1" by (rule update_prevs_inv [OF _ _ prevs]) (use Suc.prems(1) in \<open>simp_all add: P_def\<close>)
  then show ?case
    using update_level_outside [OF _ own, of m] Suc.prems(3) below_refl [of sys c] by (auto simp: P_def fixed_simps [of sys s1])
qed simp

text \<open>An invalidation in a coherent hierarchy removes the line or leaves it as it is.\<close>

definition only_drops :: "IntPtr \<Rightarrow> MemSys \<Rightarrow> MemSys \<Rightarrow> bool" where
  "only_drops a sys sys' \<longleftrightarrow> fixed sys sys' \<and>
     ((\<forall>c. m_coherent (cntlrs sys c)) \<longrightarrow> (\<forall>m. peek sys' m a = peek sys m a \<or> peek sys' m a = None))"

interpretation upd_drop: update_relation "only_drops a" a INVALID for a
proof (unfold_locales, goal_cases)
  case (1 sys) then show ?case by (simp add: only_drops_def)
next
  case (2 s1 s2 s3)
  then have "fixed s1 s2" "fixed s1 s3" using fixed_trans by (auto simp: only_drops_def)
  with 2 show ?case by (simp add: only_drops_def fixed_simps [of s1 s2]) metis
next
  case (3 sys c b sys' want) then show ?case by (auto simp: only_drops_def put_line_def same_line_def new_block_def)
qed

section \<open>Invalidations return\<close>

text \<open>Reads and writes of a whole line that is present return.\<close>

definition plain_cache :: "bool \<Rightarrow> Cache \<Rightarrow> bool" where
  "plain_cache data c \<longleftrightarrow> m_fault_injector c = None \<and> (\<forall>s\<in>set (m_sets c). (m_blocks s \<noteq> None) = data)"

lemma plain_cache_shape:
  assumes "shape c' = shape c"
  shows "plain_cache data c' = plain_cache data c"
proof -
  have eq: "(\<forall>s\<in>set (m_sets c). (m_blocks s \<noteq> None) = data) = (\<forall>x\<in>set (map (\<lambda>s. m_blocks s = None) (m_sets c)). x = (\<not> data))" for c
    by auto
  show ?thesis using assms unfolding plain_cache_def eq by (simp only: shape_def prod.inject)
qed

lemma present_line:
  assumes wf: "cache_wf c" and plain: "plain_cache data c" and peek: "peekSingleLine c a = Inr (Some b)"
    and al: "a AND ucast (m_blocksize (c_base c) - 1) = 0"
  obtains idx i s where "splitAddress_offset (c_base c) a = Inr (line c a, idx, 0)" and "get_set c idx = Inr s"
    and "set_find s (line c a) = Some i" and "cs_blocks s ! i = b" and "cs_blocksize s = m_blocksize (c_base c)"
    and "unat idx < length (m_sets c)" and "(m_blocks s \<noteq> None) = data"
    and "\<And>mem. m_blocks s = Some mem \<Longrightarrow> line_pos s i 0 + unat (cs_blocksize s) \<le> length mem"
proof -
  obtain idx where idx: "splitAddress (c_base c) a = Inr (line c a, idx)" "unat idx < length (m_sets c)"
    and s: "get_set c idx = Inr (m_sets c ! unat idx)"
      "set_wf policy_inv (m_cache_type c) (unat (m_associativity (c_base c))) (m_sets c ! unat idx)"
    by (rule cache_split [OF wf])
  let ?s = "m_sets c ! unat idx"
  obtain i where i: "set_find ?s (line c a) = Some i" "cs_blocks ?s ! i = b"
    using peek idx s(1) by (auto simp: peekSingleLine_def peekBlock_def)
  have bs: "cs_blocksize ?s = m_blocksize (c_base c)" "0 < unat (cs_blocksize ?s)" "(m_blocks ?s \<noteq> None) = data"
    using wf idx(2) plain by (auto simp: cache_wf_def cb_wf_def plain_cache_def)
  have lt: "i < unat (m_associativity (c_base c))" using set_find_SomeD [OF i(1)] s(2) by (auto simp: set_wf_def)
  have "line_pos ?s i 0 + unat (cs_blocksize ?s) \<le> length mem" if "m_blocks ?s = Some mem" for mem
    using line_pos_exact [OF s(2) lt, of 0] line_in_range(1) [OF _ lt, of "unat (cs_blocksize ?s)" 0 "unat (cs_blocksize ?s)"] bs(2) s(2) that
    by (auto simp: set_wf_def)
  then show thesis
    using that [of idx ?s i] idx s(1) i bs al by (simp add: splitAddress_offset_def)
qed

lemma accessSingleLine_load_returns:
  assumes "cache_wf c" and plain: "plain_cache data c" and "peekSingleLine c a = Inr (Some b)"
    and "a AND ucast (m_blocksize (c_base c) - 1) = 0"
  shows "\<exists>out c'. accessSingleLine c a LOAD (Some buf) (m_blocksize (c_base c)) False = Inr (Some b, out, c') \<and>
    (data \<longrightarrow> (\<exists>bs. out = Some bs \<and> length bs = unat (m_blocksize (c_base c))))"
proof -
  obtain idx i s where *: "splitAddress_offset (c_base c) a = Inr (line c a, idx, 0)" "get_set c idx = Inr s"
    "set_find s (line c a) = Some i" "cs_blocks s ! i = b" "cs_blocksize s = m_blocksize (c_base c)" "(m_blocks s \<noteq> None) = data"
    "\<And>mem. m_blocks s = Some mem \<Longrightarrow> line_pos s i 0 + unat (cs_blocksize s) \<le> length mem"
    by (rule present_line [OF assms]) blast
  have inj: "m_fault_injector c = None" using plain by (simp add: plain_cache_def)
  show ?thesis
  proof (cases "m_blocks s")
    case None
    then show ?thesis using * inj by (simp add: accessSingleLine_def run_injector_def read_line_def peekBlock_def)
  next
    case (Some mem)
    then show ?thesis
      using * inj *(7) [OF Some] by (simp add: accessSingleLine_def run_injector_def read_line_def mem_read_def peekBlock_def)
  qed
qed

lemma accessSingleLine_store_returns:
  assumes "cache_wf c" and plain: "plain_cache data c" and "peekSingleLine c a = Inr (Some b)"
    and "a AND ucast (m_blocksize (c_base c) - 1) = 0" and buf: "data \<longrightarrow> length bs = unat (m_blocksize (c_base c))"
  shows "\<exists>c'. accessSingleLine c a STORE (Some bs) (m_blocksize (c_base c)) False = Inr (Some b, None, c')"
proof -
  obtain idx i s where *: "splitAddress_offset (c_base c) a = Inr (line c a, idx, 0)" "get_set c idx = Inr s"
    "set_find s (line c a) = Some i" "cs_blocks s ! i = b" "cs_blocksize s = m_blocksize (c_base c)" "unat idx < length (m_sets c)"
    "(m_blocks s \<noteq> None) = data"
    "\<And>mem. m_blocks s = Some mem \<Longrightarrow> line_pos s i 0 + unat (cs_blocksize s) \<le> length mem"
    by (rule present_line [OF assms(1-4)]) blast
  have post: "run_injector postWrite ((put_set c idx s')\<lparr>c_ctx := ctx\<rparr>) idx i 0 n = Inr ((put_set c idx s')\<lparr>c_ctx := ctx\<rparr>)" for s' ctx n
    using *(6) by (intro run_injector_postWrite) (simp add: put_set_def)
  show ?thesis
  proof (cases "m_blocks s")
    case None
    then show ?thesis using * post by (simp add: accessSingleLine_def write_line_def peekBlock_def)
  next
    case (Some mem)
    then show ?thesis
      using * post buf *(8) [OF Some] by (auto simp: accessSingleLine_def write_line_def mem_write_def peekBlock_def)
  qed
qed

text \<open>
  A hierarchy of coherent write-back caches with one line size: a controller is a previous level of its next level, and
  only the last level has none. The address is that of a line. A line that is modified in a cache is modified in the next level.
\<close>

definition hierarchy :: "bool \<Rightarrow> IntPtr \<Rightarrow> MemSys \<Rightarrow> bool" where
  "hierarchy data a sys \<longleftrightarrow>
     (\<forall>c. m_coherent (cntlrs sys c) \<and> \<not> m_cache_writethrough (cntlrs sys c) \<and>
        m_cache_block_size (cntlrs sys c) = m_blocksize (c_base (m_cache (master_of sys c))) \<and>
        plain_cache data (m_cache (master_of sys c)) \<and> a AND ucast (m_cache_block_size (cntlrs sys c) - 1) = 0 \<and>
        (\<forall>n. m_next_cache_cntlr (cntlrs sys c) = Some n \<longrightarrow>
           c \<in> set (m_prev_cache_cntlrs (master_of sys n)) \<and> m_cache_block_size (cntlrs sys n) = m_cache_block_size (cntlrs sys c)) \<and>
        (\<forall>p\<in>set (m_prev_cache_cntlrs (master_of sys c)). m_next_cache_cntlr (cntlrs sys p) \<noteq> None))"

definition dirty_inclusive :: "IntPtr \<Rightarrow> MemSys \<Rightarrow> bool" where
  "dirty_inclusive a sys \<longleftrightarrow>
     (\<forall>c. \<forall>p\<in>set (m_prev_cache_cntlrs (master_of sys c)).
        block_state (peek sys (m_master (cntlrs sys p)) a) = MODIFIED \<longrightarrow> block_state (peek sys (m_master (cntlrs sys c)) a) = MODIFIED) \<and>
     (\<forall>m b. peek sys m a = Some b \<longrightarrow> m_cstate b \<noteq> INVALID)"

lemma dirty_inclusiveD:
  assumes "dirty_inclusive a sys" and "p \<in> set (m_prev_cache_cntlrs (master_of sys c))"
    and "block_state (peek sys (m_master (cntlrs sys p)) a) = MODIFIED"
  shows "block_state (peek sys (m_master (cntlrs sys c)) a) = MODIFIED"
  using assms unfolding dirty_inclusive_def by blast

lemma hierarchyD:
  assumes "hierarchy data a sys"
  shows "m_coherent (cntlrs sys c)" "\<not> m_cache_writethrough (cntlrs sys c)"
    "m_cache_block_size (cntlrs sys c) = m_blocksize (c_base (m_cache (master_of sys c)))"
    "plain_cache data (m_cache (master_of sys c))" "a AND ucast (m_cache_block_size (cntlrs sys c) - 1) = 0"
    "m_next_cache_cntlr (cntlrs sys c) = Some n \<Longrightarrow> c \<in> set (m_prev_cache_cntlrs (master_of sys n))"
    "m_next_cache_cntlr (cntlrs sys c) = Some n \<Longrightarrow> m_cache_block_size (cntlrs sys n) = m_cache_block_size (cntlrs sys c)"
    "p \<in> set (m_prev_cache_cntlrs (master_of sys c)) \<Longrightarrow> m_next_cache_cntlr (cntlrs sys p) \<noteq> None"
  using assms unfolding hierarchy_def by blast+

lemma hierarchy_fixed:
  assumes f: "fixed sys sys'" and h: "hierarchy data a sys"
  shows "hierarchy data a sys'"
proof -
  have same: "plain_cache data (m_cache (masters sys' m)) = plain_cache data (m_cache (masters sys m))"
    "c_base (m_cache (masters sys' m)) = c_base (m_cache (masters sys m))" for m
    using plain_cache_shape shape_base fixed_master(3) [OF f] by metis+
  show ?thesis unfolding hierarchy_def fixed_simps [OF f] same using h unfolding hierarchy_def .
qed

lemma retrieveCacheBlock_returns:
  assumes "sys_wf sys" and "hierarchy data a sys" and "peek sys (m_master (cntlrs sys c)) a = Some b"
  shows "\<exists>bytes sys'. retrieveCacheBlock c a False sys = Inr (bytes, sys') \<and>
    (data \<longrightarrow> length bytes = unat (m_cache_block_size (cntlrs sys c)))"
proof -
  let ?c = "m_cache (master_of sys c)"
  have bs: "m_cache_block_size (cntlrs sys c) = m_blocksize (c_base ?c)" and plain: "plain_cache data ?c"
    and al: "a AND ucast (m_cache_block_size (cntlrs sys c) - 1) = 0" by (rule hierarchyD [OF assms(2)])+
  have wf: "cache_wf ?c" and pk: "peekSingleLine ?c a = Inr (Some b)"
    using assms(1,3) by (auto simp: sys_wf_def peek_Inr [OF assms(1)])
  obtain out c' where "accessSingleLine ?c a LOAD (Some []) (m_blocksize (c_base ?c)) False = Inr (Some b, out, c')"
    "data \<longrightarrow> (\<exists>x. out = Some x \<and> length x = unat (m_blocksize (c_base ?c)))"
    using accessSingleLine_load_returns [OF wf plain pk al [unfolded bs], of "[]"] by blast
  then show ?thesis by (cases out) (auto simp: retrieveCacheBlock_def bs)
qed

lemma writeCacheBlock_returns:
  assumes "sys_wf sys" and "hierarchy data a sys" and "peek sys (m_master (cntlrs sys c)) a = Some b" and "m_cstate b = MODIFIED"
    and "data \<longrightarrow> length bytes = unat (m_cache_block_size (cntlrs sys c))"
  shows "\<exists>sys'. writeCacheBlock (Suc fuel) c a 0 (Some bytes) (m_cache_block_size (cntlrs sys c)) sys = Inr sys'"
proof -
  let ?c = "m_cache (master_of sys c)"
  have bs: "m_cache_block_size (cntlrs sys c) = m_blocksize (c_base ?c)" and plain: "plain_cache data ?c"
    and al: "a AND ucast (m_cache_block_size (cntlrs sys c) - 1) = 0" and wt: "\<not> m_cache_writethrough (cntlrs sys c)"
    by (rule hierarchyD [OF assms(2)])+
  have wf: "cache_wf ?c" and pk: "peekSingleLine ?c a = Inr (Some b)"
    using assms(1,3) by (auto simp: sys_wf_def peek_Inr [OF assms(1)])
  obtain c' where "accessSingleLine ?c a STORE (Some bytes) (m_cache_block_size (cntlrs sys c)) False = Inr (Some b, None, c')"
    using accessSingleLine_store_returns [OF wf plain pk al [unfolded bs]] assms(5) by (auto simp: bs)
  then obtain s1 where s1: "write_own_block c a 0 (Some bytes) (m_cache_block_size (cntlrs sys c)) sys = Inr s1"
    using assms(4) by (cases "m_evicting_buf (master_of sys c) \<noteq> None \<and> a = m_evicting_address (master_of sys c)")
      (auto simp: write_own_block_def block_state_def)
  then have "fixed sys s1" using write_own_block_contents [OF assms(1)] by blast
  with s1 wt show ?thesis by (simp add: fixed_simps [of sys s1])
qed

lemma setCacheState_returns:
  assumes "sys_wf sys" and "peek sys (m_master (cntlrs sys c)) a = Some b"
  shows "\<exists>sys'. setCacheState c a st sys = Inr sys'"
proof -
  let ?c = "m_cache (master_of sys c)"
  have wf: "cache_wf ?c" and pk: "peekSingleLine ?c a = Inr (Some b)"
    using assms by (auto simp: sys_wf_def peek_Inr [OF assms(1)])
  from pk obtain tag idx s i where "splitAddress (c_base ?c) a = Inr (tag, idx)" "get_set ?c idx = Inr s" "set_find s tag = Some i"
    by (auto simp: peekSingleLine_def bindE_Inr_iff)
  then show ?thesis by (simp add: setCacheState_def cc_change_block_def change_block_def)
qed

lemma invalidateCacheBlock_returns:
  assumes "sys_wf sys" and "peek sys (m_master (cntlrs sys c)) a = Some b" and "m_cstate b \<notin> {MODIFIED, INVALID}"
  shows "\<exists>sys'. invalidateCacheBlock c a sys = Inr sys'"
proof -
  have wf: "cache_wf (m_cache (master_of sys c))" using assms(1) by (simp add: sys_wf_def)
  from invalidateSingleLine_lookup [OF this, of a] assms show ?thesis
    by (auto simp: invalidateCacheBlock_def getCacheState_peek block_state_def)
qed

lemma write_back_returns:
  assumes "sys_wf sys" and h: "hierarchy data a sys" and incl: "dirty_inclusive a sys"
    and b: "peek sys (m_master (cntlrs sys c)) a = Some b" "m_cstate b = MODIFIED"
    and top: "m_next_cache_cntlr (cntlrs sys c) = None \<longrightarrow> want"
  shows "\<exists>out wb sys'. write_back (Suc fuel) c a want sys = Inr (out, wb, sys')"
proof -
  let ?k = "cntlrs sys c"
  obtain bytes s1 where ret: "retrieveCacheBlock c a False sys = Inr (bytes, s1)"
    and len: "data \<longrightarrow> length bytes = unat (m_cache_block_size ?k)" using retrieveCacheBlock_returns [OF assms(1) h b(1)] by blast
  have s1: "sys_wf s1" "fixed sys s1" "peek s1 = peek sys" using retrieveCacheBlock_contents [OF assms(1) ret] by auto
  have "\<exists>s2. setCacheState c a SHARED s = Inr s2" if "contents_set sys s (peek sys)" for s
    using that b by (intro setCacheState_returns [of s]) (auto simp: fixed_simps [of sys s])
  note st = this
  show ?thesis
  proof (cases "m_next_cache_cntlr ?k")
    case None
    then show ?thesis
      using st [of s1] s1 ret top hierarchyD(2) [OF h, of c] by (auto simp: write_back_def)
  next
    case (Some n)
    have bs: "m_cache_block_size ?k = m_cache_block_size (cntlrs s1 n)" using hierarchyD(7) [OF h Some] by (simp add: fixed_simps [OF s1(2)])
    have "block_state (peek sys (m_master (cntlrs sys n)) a) = MODIFIED"
      by (rule dirty_inclusiveD [OF incl hierarchyD(6) [OF h Some]]) (use b in \<open>simp add: block_state_def\<close>)
    then obtain bn where bn: "peek s1 (m_master (cntlrs s1 n)) a = Some bn" "m_cstate bn = MODIFIED"
      by (auto simp: block_state_def fixed_simps [OF s1(2)] s1(3) split: option.splits)
    from writeCacheBlock_returns [OF s1(1) hierarchy_fixed [OF s1(2) h] bn, of bytes fuel] len bs
    obtain s2 where wr: "writeCacheBlock (Suc fuel) n a 0 (Some bytes) (m_cache_block_size ?k) s1 = Inr s2" by auto
    have "contents_set sys s2 (peek sys)" using writeCacheBlock_contents [OF s1(1) wr] s1 fixed_trans by metis
    from st [OF this] show ?thesis
      using ret wr Some hierarchyD(2) [OF h, of c] by (auto simp: write_back_def simp del: writeCacheBlock.simps)
  qed
qed

lemma settle_block_returns:
  assumes "sys_wf sys" and h: "hierarchy data a sys" and b: "peek sys (m_master (cntlrs sys c)) a = Some b" "m_cstate b \<notin> {MODIFIED, INVALID}"
  shows "\<exists>out wb sys'. settle_block c a INVALID want (o1, w1, sys) = Inr (out, wb, sys') \<and>
    (want \<longrightarrow> (\<exists>bytes. out = Some bytes \<and> (data \<longrightarrow> length bytes = unat (m_cache_block_size (cntlrs sys c)))))"
proof -
  obtain bytes s1 where ret: "retrieveCacheBlock c a False sys = Inr (bytes, s1)"
    and len: "data \<longrightarrow> length bytes = unat (m_cache_block_size (cntlrs sys c))" using retrieveCacheBlock_returns [OF assms(1) h b(1)] by blast
  have s1: "sys_wf s1" "fixed sys s1" "peek s1 = peek sys" using retrieveCacheBlock_contents [OF assms(1) ret] by auto
  obtain s2 s3 where "invalidateCacheBlock c a sys = Inr s2" "invalidateCacheBlock c a s1 = Inr s3"
    using invalidateCacheBlock_returns [OF assms(1) b] invalidateCacheBlock_returns [of s1 c a b] s1 b
    by (auto simp: fixed_simps [OF s1(2)])
  then show ?thesis
    using ret len hierarchyD(1) [OF h, of c] by (auto simp: settle_block_def fixed_simps [OF s1(2)])
qed

lemma update_own_block_returns:
  assumes "sys_wf sys" and h: "hierarchy data a sys" and incl: "dirty_inclusive a sys"
    and b: "peek sys (m_master (cntlrs sys c)) a = Some b"
    and top: "m_next_cache_cntlr (cntlrs sys c) = None \<and> m_cstate b = MODIFIED \<longrightarrow> want"
  shows "\<exists>out wb sys'. update_own_block (Suc fuel) c a INVALID reason want b sys = Inr (out, wb, sys') \<and>
    (want \<longrightarrow> (\<exists>bytes. out = Some bytes \<and> (data \<longrightarrow> length bytes = unat (m_cache_block_size (cntlrs sys c)))))"
proof -
  let ?s = "count_stats c (count_update reason INVALID b) sys"
  let ?b = "if m_cstate b = MODIFIED then b\<lparr>m_cstate := SHARED\<rparr> else b"
  have st: "m_cstate b \<noteq> INVALID" using incl b by (simp add: dirty_inclusive_def)
  have s: "sys_wf ?s" "hierarchy data a ?s" "dirty_inclusive a ?s" "peek ?s (m_master (cntlrs ?s c)) a = Some b"
    using assms(1) hierarchy_fixed [OF count_stats_fixed h] incl b by (simp_all add: dirty_inclusive_def fixed_simps [OF count_stats_fixed])
  obtain o1 w1 s1 where r1: "(if m_cstate b = MODIFIED then write_back (Suc fuel) c a want ?s else Inr (None, False, ?s)) = Inr (o1, w1, s1)"
    using write_back_returns [OF s, of want fuel] top by (cases "m_cstate b = MODIFIED") (auto simp: fixed_simps [OF count_stats_fixed])
  have "contents_set ?s s1 (put_line ?s c a (Some ?b))"
    using r1 write_back_contents [OF s(1,4)] put_line_same [OF s(4,1)] s(1) by (auto split: if_splits)
  then have s1: "sys_wf s1" "fixed sys s1" "peek s1 (m_master (cntlrs ?s c)) a = Some ?b"
    using fixed_trans [OF count_stats_fixed] by auto
  then have "peek s1 (m_master (cntlrs s1 c)) a = Some ?b" by (simp add: fixed_simps [OF s1(2)] fixed_simps [OF count_stats_fixed])
  from settle_block_returns [OF s1(1) hierarchy_fixed [OF s1(2) h] this, of want o1 w1] r1 st show ?thesis
    by (auto simp: update_own_block_def fixed_simps [OF s1(2)] split: if_splits)
qed

lemma update_level_returns:
  assumes "sys_wf sys" and h: "hierarchy data a sys" and incl: "dirty_inclusive a sys"
    and top: "m_next_cache_cntlr (cntlrs sys c) = None \<and> block_state (peek sys (m_master (cntlrs sys c)) a) = MODIFIED \<longrightarrow> want"
    and want: "want \<longrightarrow> peek sys (m_master (cntlrs sys c)) a \<noteq> None"
  shows "\<exists>t hit out sys'. update_level (Suc fuel) c a INVALID reason want h1 sys = Inr (t, hit, out, sys') \<and>
    (want \<longrightarrow> (\<exists>bytes. out = Some bytes \<and> (data \<longrightarrow> length bytes = unat (m_cache_block_size (cntlrs sys c)))))"
proof (cases "peek sys (m_master (cntlrs sys c)) a")
  case None
  then show ?thesis
    using want by (simp add: update_level_def getCacheBlockInfo_peek [OF assms(1)] getCacheState_peek [OF assms(1)] block_state_def)
next
  case (Some b)
  then obtain out wb s1 where own: "update_own_block (Suc fuel) c a INVALID reason want b sys = Inr (out, wb, s1)"
    and out: "want \<longrightarrow> (\<exists>bytes. out = Some bytes \<and> (data \<longrightarrow> length bytes = unat (m_cache_block_size (cntlrs sys c))))"
    using update_own_block_returns [OF assms(1) h incl Some, of want fuel reason] top by (auto simp: block_state_def)
  have c1: "contents_set sys s1 (put_line sys c a (new_block (m_coherent (cntlrs sys c)) INVALID want b))"
    by (rule update_own_block_contents [OF assms(1) Some own])
  then have f: "fixed sys s1" "sys_wf s1" by auto
  have nz: "m_cstate b \<noteq> INVALID" using incl Some unfolding dirty_inclusive_def by blast
  have "new_block (m_coherent (cntlrs sys c)) INVALID want b = None"
    using nz hierarchyD(1) [OF h, of c] by (auto simp: new_block_def)
  then have "getCacheState s1 c a = Inr INVALID" using c1 by (simp add: getCacheState_peek f fixed_simps [OF f(1)] block_state_def)
  then show ?thesis
    using own out Some by (auto simp: update_level_def getCacheBlockInfo_peek [OF assms(1)])
qed

text \<open>The fuel is enough for the levels below.\<close>

fun height :: "nat \<Rightarrow> MemSys \<Rightarrow> cntlr_ptr \<Rightarrow> bool" where
  "height 0 sys c = False"
| "height (Suc n) sys c = (\<forall>p\<in>set (m_prev_cache_cntlrs (master_of sys c)). height n sys p)"

lemma height_fixed: "fixed sys sys' \<Longrightarrow> height n sys' c = height n sys c"
  by (induction n arbitrary: c) (simp_all add: fixed_simps [of sys sys'])

lemma height_master: "m_master (cntlrs sys c) = m_master (cntlrs sys d) \<Longrightarrow> height n sys c = height n sys d"
  by (cases n) simp_all

lemma height_below: "below sys c d \<Longrightarrow> height n sys c \<Longrightarrow> \<exists>k\<le>n. height k sys d"
proof (induction arbitrary: n rule: below.induct)
  case (below_prev p c d)
  then obtain k where "n = Suc k" "height k sys p" by (cases n) auto
  with below_prev.IH show ?case using le_SucI by blast
qed blast

lemma height_acyclic:
  assumes "height n sys c" and "p \<in> set (m_prev_cache_cntlrs (master_of sys c))" and "below sys p d"
  shows "m_master (cntlrs sys d) \<noteq> m_master (cntlrs sys c)"
proof
  assume eq: "m_master (cntlrs sys d) = m_master (cntlrs sys c)"
  define k where "k = (LEAST n. height n sys c)"
  have k: "height k sys c" unfolding k_def by (rule LeastI [of "\<lambda>n. height n sys c", OF assms(1)])
  then obtain j where j: "k = Suc j" "height j sys p" using assms(2) by (cases k) auto
  then obtain i where "i \<le> j" "height i sys d" using height_below [OF assms(3)] by blast
  then have "height i sys c" using height_master [OF eq] by blast
  then have "k \<le> i" unfolding k_def by (rule Least_le)
  with j(1) \<open>i \<le> j\<close> show False by simp
qed

text \<open>A completed invalidation keeps \<open>dirty_inclusive\<close>.\<close>

lemma dirty_inclusive_updated:
  assumes wf: "sys_wf sys" and h: "hierarchy data a sys" and incl: "dirty_inclusive a sys"
    and run: "updateCacheBlock fuel c a INVALID reason want sys = Inr (t, hit, out, sys')"
  shows "dirty_inclusive a sys'"
proof -
  have f: "fixed sys sys'" and drop: "\<And>m. peek sys' m a = peek sys m a \<or> peek sys' m a = None"
    using upd_drop.updateCacheBlock_keeps [OF wf run] hierarchyD(1) [OF h] by (auto simp: only_drops_def)
  have "block_state (peek sys' (m_master (cntlrs sys d)) a) = MODIFIED"
    if p: "p \<in> set (m_prev_cache_cntlrs (master_of sys d))" and m: "block_state (peek sys' (m_master (cntlrs sys p)) a) = MODIFIED" for d p
  proof (cases "\<forall>e. below sys c e \<longrightarrow> m_master (cntlrs sys e) \<noteq> m_master (cntlrs sys d)")
    case True
    have "peek sys (m_master (cntlrs sys p)) a = peek sys' (m_master (cntlrs sys p)) a"
      using m drop [of "m_master (cntlrs sys p)"] by (auto simp: block_state_def)
    with dirty_inclusiveD [OF incl p] m have "block_state (peek sys (m_master (cntlrs sys d)) a) = MODIFIED" by simp
    then show ?thesis using updateCacheBlock_outside [OF wf run True] by simp
  next
    case False
    then obtain e where e: "below sys c e" "m_master (cntlrs sys e) = m_master (cntlrs sys d)" by blast
    then have "below sys c p"
      using p by (induction rule: below.induct) (auto intro: below.intros)
    from updateCacheBlock_settled [OF wf run this] hierarchyD(1) [OF h] m show ?thesis by (simp add: settled_def)
  qed
  moreover have "m_cstate b \<noteq> INVALID" if "peek sys' m a = Some b" for m b
    using that drop [of m] incl by (auto simp: dirty_inclusive_def)
  ultimately show ?thesis unfolding dirty_inclusive_def fixed_simps [OF f] by blast
qed

lemma update_prevs_returns:
  assumes "\<And>p s. P s \<Longrightarrow> p \<in> set ps \<Longrightarrow> \<exists>t h s'. f p s = Inr (t, h, s') \<and> P s'" and "P sys"
  shows "\<exists>t h sys'. update_prevs f ps acc sys = Inr (t, h, sys') \<and> P sys'"
  using assms
proof (induction ps arbitrary: acc sys)
  case (Cons p ps)
  obtain t h s where s: "f p sys = Inr (t, h, s)" "P s" using Cons.prems(1) [OF Cons.prems(2), of p] by auto
  have "\<exists>t h s'. f q s = Inr (t, h, s') \<and> P s'" if "P s" "q \<in> set ps" for q s using Cons.prems(1) [OF that(1), of q] that(2) by simp
  from Cons.IH [OF this s(2)] s(1) show ?case by simp
qed simp

lemma updateCacheBlock_returns:
  assumes "sys_wf sys" and "hierarchy data a sys" and "dirty_inclusive a sys" and "height fuel sys c"
    and "m_next_cache_cntlr (cntlrs sys c) = None \<and> block_state (peek sys (m_master (cntlrs sys c)) a) = MODIFIED \<longrightarrow> want"
    and "want \<longrightarrow> peek sys (m_master (cntlrs sys c)) a \<noteq> None"
  shows "\<exists>t hit out sys'. updateCacheBlock fuel c a INVALID reason want sys = Inr (t, hit, out, sys') \<and>
    (want \<longrightarrow> (\<exists>bytes. out = Some bytes \<and> (data \<longrightarrow> length bytes = unat (m_cache_block_size (cntlrs sys c)))))"
  using assms
proof (induction fuel arbitrary: c reason want sys)
  case (Suc fuel)
  let ?r = "if reason = EVICT then BACK_INVAL else reason"
  let ?m = "m_master (cntlrs sys c)"
  define P where "P s \<longleftrightarrow> sys_wf s \<and> fixed sys s \<and> dirty_inclusive a s \<and> peek s ?m = peek sys ?m" for s
  have step: "\<exists>t h s'. update_below fuel a INVALID ?r p s = Inr (t, h, s') \<and> P s'"
    if P: "P s" and p: "p \<in> set (m_prev_cache_cntlrs (masters sys ?m))" for p s
  proof -
    have s: "sys_wf s" "fixed sys s" "dirty_inclusive a s" using P by (auto simp: P_def)
    have hs: "hierarchy data a s" by (rule hierarchy_fixed [OF s(2) Suc.prems(2)])
    have "height fuel s p" using Suc.prems(4) p by (simp add: height_fixed [OF s(2)])
    from Suc.IH [OF s(1) hs s(3) this, of False ?r] hierarchyD(8) [OF Suc.prems(2) p]
    obtain t h out s' where run: "updateCacheBlock fuel p a INVALID ?r False s = Inr (t, h, out, s')" by (auto simp: fixed_simps [OF s(2)])
    have s': "sys_wf s'" "fixed s s'" using upd_frame.updateCacheBlock_keeps [OF s(1) run] by (auto simp: frames_line_def)
    have "peek s' ?m = peek s ?m"
      using height_acyclic [OF Suc.prems(4) p]
      by (intro updateCacheBlock_outside [OF s(1) run]) (simp add: below_fixed_iff [OF s(2)] fixed_simps [OF s(2)])
    then have "P s'" using P s' fixed_trans dirty_inclusive_updated [OF s(1) hs s(3) run] unfolding P_def by metis
    then show ?thesis using run by (auto simp: update_below_Inr)
  qed
  have "P sys" using Suc.prems by (simp add: P_def)
  then obtain t1 h1 s1
    where prevs: "update_prevs (update_below fuel a INVALID ?r) (m_prev_cache_cntlrs (masters sys ?m)) (0, False) sys = Inr (t1, h1, s1)"
      and "P s1" using update_prevs_returns [of P _ "update_below fuel a INVALID ?r"] step by metis
  then have s1: "sys_wf s1" "fixed sys s1" "dirty_inclusive a s1" "peek s1 ?m = peek sys ?m" by (auto simp: P_def)
  from update_level_returns [OF s1(1) hierarchy_fixed [OF s1(2) Suc.prems(2)] s1(3), of c want fuel reason h1] Suc.prems(5,6) prevs
  show ?case unfolding updateCacheBlock_Inr by (auto simp: fixed_simps [OF s1(2)] s1(4))
qed simp

text \<open>C4. A change of a line reaches the whole hierarchy: when \<^verbatim>\<open>updateCacheBlock\<close> returns, every coherent cache at this level
  or below has the line in the new state or not at all, no cache has gained a line, every other line of every cache is as
  before, and no message has been sent.\<close>

theorem updateCacheBlock_reaches_all:
  assumes "sys_wf sys" and "updateCacheBlock fuel c a new_cstate reason want sys = Inr (t, hit, out, sys')"
  shows "(\<forall>d. below sys c d \<and> m_coherent (cntlrs sys d) \<longrightarrow> getCacheState sys' d a \<in> {Inr INVALID, Inr new_cstate}) \<and>
    (\<forall>m. peek sys m a = None \<longrightarrow> peek sys' m a = None) \<and>
    (\<forall>m x. \<not> same_line sys m a x \<longrightarrow> peek sys' m x = peek sys m x) \<and> mem_sent sys' = mem_sent sys"
proof -
  have f: "sys_wf sys'" "frames_line a sys sys'" "adds_nothing a sys sys'"
    using upd_frame.updateCacheBlock_keeps [OF assms] upd_absent.updateCacheBlock_keeps [OF assms] by auto
  then have fx: "fixed sys sys'" by (simp add: frames_line_def)
  have "getCacheState sys' d a \<in> {Inr INVALID, Inr new_cstate}" if "below sys c d" "m_coherent (cntlrs sys d)" for d
    using updateCacheBlock_settled [OF assms that] f(1) by (simp add: getCacheState_peek settled_def fixed_simps [OF fx])
  with f show ?thesis by (simp add: frames_line_def adds_nothing_def fixed_simps [OF fx])
qed

section \<open>Messages of the directory\<close>

lemma below_cong: "below s c d \<Longrightarrow> cntlrs s' = cntlrs s \<Longrightarrow> masters s' = masters s \<Longrightarrow> below s' c d"
  by (induction rule: below.induct) (auto intro: below.intros)

lemma elapsed_simps [simp]:
  "peek (sys\<lparr>elapsed := e\<rparr>) = peek sys" "sys_wf (sys\<lparr>elapsed := e\<rparr>) = sys_wf sys" "same_line (sys\<lparr>elapsed := e\<rparr>) = same_line sys"
  "hierarchy data a (sys\<lparr>elapsed := e\<rparr>) = hierarchy data a sys" "dirty_inclusive a (sys\<lparr>elapsed := e\<rparr>) = dirty_inclusive a sys"
  "height n (sys\<lparr>elapsed := e\<rparr>) c = height n sys c" "below (sys\<lparr>elapsed := e\<rparr>) c d = below sys c d"
proof -
  show "height n (sys\<lparr>elapsed := e\<rparr>) c = height n sys c" by (induction n arbitrary: c) simp_all
  show "below (sys\<lparr>elapsed := e\<rparr>) c d = below sys c d"
    using below_cong [of "sys\<lparr>elapsed := e\<rparr>" c d sys] below_cong [of sys c d "sys\<lparr>elapsed := e\<rparr>"] by auto
qed (simp_all add: peek_def [abs_def] sys_wf_def same_line_def [abs_def] hierarchy_def dirty_inclusive_def)

lemma sendToDirectory_simps [simp]:
  "peek (sendToDirectory ty r v a data sys) = peek sys" "getCacheState (sendToDirectory ty r v a data sys) d x = getCacheState sys d x"
  "mem_sent (sendToDirectory ty r v a data sys) = mem_sent sys @ [\<lparr>n_type = ty, n_component = TAG_DIR, n_requester = r,
     n_receiver = Some v, n_address = a, n_data = data, n_where = W_UNKNOWN\<rparr>]"
  by (simp_all add: peek_def [abs_def] sendToDirectory_def getCacheState_def getCacheBlockInfo_def)

text \<open>C40. The reply to an upgrade of a line that the cache has lost is an error in every case, also when the message carries the
  data that is meant for it: \<^verbatim>\<open>updateCacheBlock\<close> writes its buffer only from a block that it finds.\<close>

theorem lost_upgrade_fails:
  assumes wf: "sys_wf sys" and "getCacheBlockInfo sys c (msg_address msg) = Inr None"
  shows "\<exists>e. processUpgradeRepFromDramDirectory fuel c msg sys = Inl e"
proof (rule ccontr)
  let ?a = "msg_address msg"
  have none: "peek sys (m_master (cntlrs sys c)) ?a = None" using assms by (simp add: getCacheBlockInfo_peek)
  assume "\<nexists>e. processUpgradeRepFromDramDirectory fuel c msg sys = Inl e"
  then obtain sys2 where "processUpgradeRepFromDramDirectory fuel c msg sys = Inr sys2" by (metis sum.exhaust)
  then obtain t hit out sys' where run: "updateCacheBlock fuel c ?a MODIFIED UPGRADE True sys = Inr (t, hit, out, sys')"
    using none wf by (auto simp: processUpgradeRepFromDramDirectory_def getCacheState_peek block_state_def bindE_Inr_iff)
  then obtain k where "fuel = Suc k" by (cases fuel) auto
  then have "updateCacheBlock (Suc k) c ?a MODIFIED UPGRADE True sys = Inr (t, hit, out, sys')" using run by (simp only:)
  then obtain t1 h1 s1 where prevs: "update_prevs (update_below k ?a MODIFIED UPGRADE) (m_prev_cache_cntlrs (master_of sys c)) (0, False) sys = Inr (t1, h1, s1)"
    and own: "update_level (Suc k) c ?a MODIFIED UPGRADE True h1 s1 = Inr (t, hit, out, sys')"
    unfolding updateCacheBlock_Inr by auto
  have step: "sys_wf s' \<and> fixed s s' \<and> adds_nothing ?a s s'" if "sys_wf s" "update_below k ?a MODIFIED UPGRADE p s = Inr (t, h, s')" for p s t h s'
    using that upd_absent.updateCacheBlock_keeps upd_frame.updateCacheBlock_keeps by (fastforce simp: update_below_Inr frames_line_def)
  define P where "P s \<longleftrightarrow> sys_wf s \<and> fixed sys s \<and> peek s (m_master (cntlrs sys c)) ?a = None" for s
  have "P s1"
    by (rule update_prevs_inv [OF _ _ prevs]) (use wf none step fixed_trans in \<open>auto simp: P_def adds_nothing_def\<close>)
  then have "sys_wf s1" "peek s1 (m_master (cntlrs s1 c)) ?a = None" by (auto simp: P_def fixed_simps [of sys s1])
  with update_levelD [OF _ own] show False by auto
qed

section \<open>Two private caches below a shared one\<close>

text \<open>The first private cache has line 4 modified, the second is empty.\<close>

definition dirty_block :: CacheBlockInfo where
  "dirty_block = (createBlock PR_L1_CACHE)\<lparr>m_tag := 4, m_cstate := MODIFIED\<rparr>"

definition dirty_set :: "policy_state CacheSet" where
  "dirty_set = demo_set\<lparr>cs_blocks := [dirty_block, createBlock PR_L1_CACHE]\<rparr>"

definition demo_line :: Cache where
  "demo_line = put_set demo_cache 0 dirty_set"

definition demo_cntlr :: "cntlr_ptr \<Rightarrow> CacheCntlr" where
  "demo_cntlr c =
     \<lparr>m_mem_component = (if c < 2 then L1_DCACHE else L2_CACHE), m_master = min c 2, m_next_cache_cntlr = (if c < 2 then Some 2 else None),
      m_perfect = False, m_passthrough = False, m_coherent = True, m_l1_mshr = False, cc_core_id = (if c = 1 then 1 else 0),
      m_core_id_master = 0, m_cache_block_size = 16, m_cache_writethrough = False,
      m_writeback_time = \<lparr>cl_period = 0, m_fixed_cycle_latency = 10\<rparr>,
      m_next_level_read_bandwidth = \<lparr>bpc_period = 0, m_bw_in_bits_per_cycle = 0\<rparr>, stats = zero_stats, m_last_remote_hit_where = W_UNKNOWN\<rparr>"

definition demo_master :: "master_ptr \<Rightarrow> CacheMasterCntlr" where
  "demo_master m =
     \<lparr>m_cache = (if m = 1 then demo_cache else demo_line), m_prev_cache_cntlrs = (if m = 2 then [0, 1] else []), mshr = [],
      mm_l1_mshr = mk_ContentionModel0, mm_next_level_read_bandwidth = mk_ContentionModel0, m_directory_waiters = (\<lambda>_. None),
      m_evicting_address = 0, m_evicting_buf = None\<rparr>"

definition demo_sys :: MemSys where
  "demo_sys = \<lparr>cntlrs = demo_cntlr, masters = demo_master, elapsed = (\<lambda>_ _. 0), sys_periods = (\<lambda>_. 500), getCost = (\<lambda>_ _ _. 3000),
     m_tag_directory_home_lookup = \<lparr>m_ahl_param = 6, m_ahl_mask = 63, m_core_list = [0], m_total_modules = 1, ahl_cache_block_size = 16\<rparr>,
     cache_only_mode = False, mem_sent = [], mem_pending = (\<lambda>_. None), mem_results = []\<rparr>"

definition demo_flush :: ShmemMsg where
  "demo_flush = \<lparr>m_msg_type = FLUSH_REQ, m_requester = 0, m_where = W_UNKNOWN, msg_address = 0x40, m_data_buf = None\<rparr>"

lemma demo_base: "c_base demo_line = c_base demo_cache" "m_cache_type demo_line = m_cache_type demo_cache"
  "m_fault_injector demo_line = None" "m_sets demo_line = (m_sets demo_cache)[unat (0::UInt32) := dirty_set]"
  by (simp_all add: demo_line_def put_set_def) (simp add: demo_cache_def)

lemma dirty_find: "set_find dirty_set tag = (if tag = NOT 0 then Some 1 else if tag = 4 then Some 0 else None)"
proof -
  have "rev [0..<length (cs_blocks dirty_set)] = [1, 0]" by (simp add: dirty_set_def)
  then show ?thesis
    unfolding set_find_def by (auto simp: dirty_set_def dirty_block_def createBlock_def mk_CacheBlockInfo_def)
qed

lemma dirty_set_wf: "set_wf policy_inv PR_L1_CACHE 2 dirty_set"
proof -
  have wf: "set_wf policy_inv PR_L1_CACHE 2 demo_set" using demo_cache_ok(1) by (auto simp: cache_wf_def demo_cache_def)
  have tags: "m_tag (createBlock PR_L1_CACHE) = NOT 0" "m_tag dirty_block = 4"
    by (simp_all add: createBlock_def mk_CacheBlockInfo_def dirty_block_def)
  have "tags_unique (cs_blocks dirty_set)"
    by (simp add: tags_unique_def isValid_def tags less_Suc_eq nth_Cons dirty_set_def split: nat.splits)
  moreover have "\<forall>b\<in>set (cs_blocks dirty_set). block_ok PR_L1_CACHE b"
    using block_ok_create [of PR_L1_CACHE] by (auto simp: block_ok_def dirty_set_def dirty_block_def)
  ultimately show ?thesis using wf by (simp add: set_wf_def dirty_set_def)
qed

lemma demo_line_wf: "cache_wf demo_line"
proof (rule put_set_wf [OF demo_cache_ok(1) _ _ _ _ demo_base(1,2,4)])
  show "set_wf policy_inv (m_cache_type demo_cache) (unat (m_associativity (c_base demo_cache))) dirty_set"
    using dirty_set_wf by (simp add: demo_cache_def)
  show "\<exists>addr. splitAddress (c_base demo_cache) addr = Inr (tag, 0)" if "set_map dirty_set tag \<noteq> None" for tag
    using that by (intro exI [of _ "0x40"]) (auto simp: demo_split set_map_def dirty_find split: if_splits)
qed (simp_all add: demo_cache_def dirty_set_def demo_set_def mk_CacheSet_def)

lemma demo_peek: "peekSingleLine demo_line 0x40 = Inr (Some dirty_block)"
proof -
  have "splitAddress (c_base demo_line) 0x40 = Inr (4, 0)" unfolding demo_base(1) demo_split by simp
  then show ?thesis
    by (simp add: peekSingleLine_def get_set_def demo_base(4) peekBlock_def dirty_find) (simp add: demo_cache_def dirty_set_def)
qed

lemma demo_plain: "plain_cache True demo_line" "plain_cache True demo_cache"
  by (simp_all add: plain_cache_def demo_base demo_cache_def demo_set_def mk_CacheSet_def dirty_set_def)

lemma demo_state: "block_state (peek demo_sys m 0x40) = (if m = 1 then INVALID else MODIFIED)"
  using demo_cache_ok(2) [of "0x40"] by (simp add: peek_def demo_sys_def demo_master_def demo_peek block_state_def dirty_block_def)

lemma demo_sys_ok:
  "sys_wf demo_sys" "hierarchy True 0x40 demo_sys" "dirty_inclusive 0x40 demo_sys" "height 2 demo_sys 2"
  "m_next_cache_cntlr (cntlrs demo_sys 2) = None" "getCacheState demo_sys 2 0x40 \<noteq> Inr INVALID"
  "\<exists>s. cc_accessTime 2 ACCESS_CACHE_DATA_AND_TAGS SIM_THREAD demo_sys = Inr s"
proof -
  show wf: "sys_wf demo_sys" using demo_line_wf demo_cache_ok(1) by (simp add: sys_wf_def demo_sys_def demo_master_def)
  show "hierarchy True 0x40 demo_sys"
    using demo_plain by (auto simp: hierarchy_def demo_sys_def demo_master_def demo_cntlr_def demo_base) (simp_all add: demo_cache_def)
  show "dirty_inclusive 0x40 demo_sys"
    unfolding dirty_inclusive_def demo_state using demo_cache_ok(2) [of "0x40"]
    by (auto simp: demo_sys_def demo_master_def demo_cntlr_def demo_peek peek_def dirty_block_def split: if_splits)
  show "height 2 demo_sys 2" by (simp add: numeral_2_eq_2 demo_sys_def demo_master_def demo_cntlr_def)
  show "getCacheState demo_sys 2 0x40 \<noteq> Inr INVALID"
    using demo_state by (simp add: getCacheState_peek [OF wf]) (simp add: demo_sys_def demo_cntlr_def)
  show "m_next_cache_cntlr (cntlrs demo_sys 2) = None" by (simp add: demo_sys_def demo_cntlr_def)
  show "\<exists>s. cc_accessTime 2 ACCESS_CACHE_DATA_AND_TAGS SIM_THREAD demo_sys = Inr s"
    by (simp add: cc_accessTime_def cc_incrElapsedTime_def incrElapsedTime_def demo_sys_def)
qed

theorem updateCacheBlock_reaches_all_witness:
  "\<exists>t hit out sys'. updateCacheBlock 2 2 0x40 INVALID COHERENCY True demo_sys = Inr (t, hit, out, sys') \<and>
    getCacheState sys' 0 0x40 = Inr INVALID \<and> mem_sent sys' = mem_sent demo_sys"
proof -
  have "peek demo_sys (m_master (cntlrs demo_sys 2)) 0x40 \<noteq> None"
    using demo_sys_ok(6) by (auto simp: getCacheState_peek [OF demo_sys_ok(1)] block_state_def split: option.splits)
  then obtain t hit out sys' where run: "updateCacheBlock 2 2 0x40 INVALID COHERENCY True demo_sys = Inr (t, hit, out, sys')"
    using updateCacheBlock_returns [OF demo_sys_ok(1-4), of True COHERENCY] by blast
  have "below demo_sys 2 0" "m_coherent (cntlrs demo_sys 0)"
    by (rule below_prev [of 0]) (simp_all add: demo_sys_def demo_master_def demo_cntlr_def below_refl)
  with updateCacheBlock_reaches_all [OF demo_sys_ok(1) run] run show ?thesis by force
qed

theorem lost_upgrade_fails_witness:
  "\<exists>e. processUpgradeRepFromDramDirectory 2 1 (demo_flush\<lparr>m_msg_type := UPGRADE_REP, m_data_buf := Some [1]\<rparr>) demo_sys = Inl e"
proof (rule lost_upgrade_fails [OF demo_sys_ok(1)])
  have "peek demo_sys (m_master (cntlrs demo_sys 1)) 0x40 = None"
    using demo_cache_ok(2) [of "0x40"] by (simp add: peek_def demo_sys_def demo_master_def demo_cntlr_def)
  then show "getCacheBlockInfo demo_sys 1 (msg_address (demo_flush\<lparr>m_msg_type := UPGRADE_REP, m_data_buf := Some [1]\<rparr>)) = Inr None"
    by (simp add: getCacheBlockInfo_peek [OF demo_sys_ok(1)] demo_flush_def)
qed

end
