(* ===== verification/LS_Flush_Data.thy ===== *)
theory LS_Flush_Data
  imports LS_Flush
begin

unbundle bit_operations_syntax

text \<open>
  The data that a flush collects: write-backs carry the bytes of modified copies up the hierarchy, and the reply to the directory is what they
  leave in the last level.
\<close>

section \<open>The bytes of a line\<close>

definition cache_data :: "Cache \<Rightarrow> IntPtr \<Rightarrow> Byte list option" where
  "cache_data c a =
     (case splitAddress (c_base c) a of
        Inl e \<Rightarrow> None
      | Inr (tag, set_index) \<Rightarrow>
          (case get_set c set_index of
             Inl e \<Rightarrow> None
           | Inr s \<Rightarrow>
               (case set_find s tag of
                  None \<Rightarrow> None
                | Some i \<Rightarrow> map_option (\<lambda>mem. take (unat (cs_blocksize s)) (drop (line_pos s i 0) mem)) (m_blocks s))))"

definition line_data :: "MemSys \<Rightarrow> IntPtr \<Rightarrow> master_ptr \<Rightarrow> Byte list option" where
  "line_data sys a m = cache_data (m_cache (masters sys m)) a"

text \<open>A read of a whole line returns its bytes and changes nothing, a write of a whole line replaces them.\<close>

lemma put_same_set: "get_set c i = Inr s \<Longrightarrow> put_set c i s = c"
  by (auto simp: get_set_def put_set_def split: if_splits)

lemma get_put_set: "get_set c i = Inr s \<Longrightarrow> get_set (put_set c i s') i = Inr s'"
  by (auto simp: get_set_def put_set_def split: if_splits)

lemma present_data:
  assumes "splitAddress_offset (c_base c) a = Inr (tag, idx, off)" and "get_set c idx = Inr s" and "set_find s tag = Some i"
  shows "cache_data c a = map_option (\<lambda>mem. take (unat (cs_blocksize s)) (drop (line_pos s i 0) mem)) (m_blocks s)"
proof -
  have "splitAddress (c_base c) a = Inr (tag, idx)" using assms(1) by (auto simp: splitAddress_offset_def bindE_Inr_iff)
  then show ?thesis using assms(2,3) by (simp add: cache_data_def)
qed

lemma load_data:
  assumes "cache_wf c" and plain: "plain_cache True c" and "peekSingleLine c a = Inr (Some b)"
    and "a AND ucast (m_blocksize (c_base c) - 1) = 0"
    and run: "accessSingleLine c a LOAD (Some []) (m_blocksize (c_base c)) False = Inr (found, out, c')"
  shows "c' = c" "out = cache_data c a" "out \<noteq> None"
proof -
  obtain idx i s where *: "splitAddress_offset (c_base c) a = Inr (line c a, idx, 0)" "get_set c idx = Inr s"
    "set_find s (line c a) = Some i" "cs_blocksize s = m_blocksize (c_base c)" "(m_blocks s \<noteq> None) = True"
    by (rule present_line [OF assms(1-4)]) blast
  obtain mem where mem: "m_blocks s = Some mem" using *(5) by auto
  have inj: "m_fault_injector c = None" using plain by (simp add: plain_cache_def)
  have r: "bindE (read_line updateReplacementIndex s (c_ctx c) i 0 True (m_blocksize (c_base c)) False)
      (\<lambda>(out, s, ctx). Inr (Some (peekBlock s i), out, (put_set c idx s)\<lparr>c_ctx := ctx\<rparr>)) = Inr (found, out, c')"
    using run * inj by (simp add: accessSingleLine_def run_injector_def)
  then have "out = Some (take (unat (cs_blocksize s)) (drop (line_pos s i 0) mem)) \<and> c' = (put_set c idx s)\<lparr>c_ctx := c_ctx c\<rparr>"
    using mem *(4) by (auto simp: read_line_def bindE_Inr_iff mem_read_def split: if_splits)
  moreover have "(put_set c idx s)\<lparr>c_ctx := c_ctx c\<rparr> = c" using put_same_set [OF *(2)] by simp
  ultimately show "c' = c" "out = cache_data c a" "out \<noteq> None" using present_data [OF *(1-3)] mem by simp_all
qed

lemma store_data:
  assumes "cache_wf c" and plain: "plain_cache True c" and "peekSingleLine c a = Inr (Some b)"
    and "a AND ucast (m_blocksize (c_base c) - 1) = 0" and len: "length bs = unat (m_blocksize (c_base c))"
    and run: "accessSingleLine c a STORE (Some bs) (m_blocksize (c_base c)) False = Inr (found, out, c')"
  shows "cache_data c' a = Some bs"
proof -
  obtain idx i s where *: "splitAddress_offset (c_base c) a = Inr (line c a, idx, 0)" "get_set c idx = Inr s"
    "set_find s (line c a) = Some i" "cs_blocksize s = m_blocksize (c_base c)" "(m_blocks s \<noteq> None) = True"
    "\<And>mem. m_blocks s = Some mem \<Longrightarrow> line_pos s i 0 + unat (cs_blocksize s) \<le> length mem"
    by (rule present_line [OF assms(1-4)]) blast
  obtain mem where mem: "m_blocks s = Some mem" using *(5) by auto
  have inj: "m_fault_injector c = None" using plain by (simp add: plain_cache_def)
  let ?p = "line_pos s i 0" and ?n = "unat (cs_blocksize s)"
  let ?s = "s\<lparr>m_blocks := Some (take ?p mem @ bs @ drop (?p + ?n) mem)\<rparr>"
  have fit: "?p + ?n \<le> length mem" by (rule *(6) [OF mem])
  have "run_injector postWrite ((put_set c idx x)\<lparr>c_ctx := ctx\<rparr>) idx i 0 n = Inr ((put_set c idx x)\<lparr>c_ctx := ctx\<rparr>)" for x ctx n
    using inj by (simp add: run_injector_def put_set_def)
  then have c': "c' = (put_set c idx ?s)\<lparr>c_ctx := c_ctx c\<rparr>"
    using run * mem fit len by (auto simp: accessSingleLine_def write_line_def mem_write_def bindE_Inr_iff)
  have "splitAddress_offset (c_base c') a = Inr (line c a, idx, 0)" "get_set c' idx = Inr ?s" "set_find ?s (line c a) = Some i"
    using *(1,3) get_put_set [OF *(2), of ?s] by (simp_all add: c' put_set_def get_set_def set_find_def)
  from present_data [OF this] have "cache_data c' a = Some (take ?n (drop (line_pos ?s i 0) (take ?p mem @ bs @ drop (?p + ?n) mem)))" by simp
  moreover have "line_pos ?s i 0 = ?p" by (simp add: line_pos_def)
  ultimately show ?thesis using fit len *(4) by simp
qed

lemma change_block_data:
  assumes run: "change_block f c a = Inr c'" and f: "\<And>b. m_tag (f b) = m_tag b"
  shows "cache_data c' a = cache_data c a"
proof -
  obtain tag idx s i where *: "splitAddress (c_base c) a = Inr (tag, idx)" "get_set c idx = Inr s" "set_find s tag = Some i"
    "c' = put_set c idx (s\<lparr>cs_blocks := (cs_blocks s)[i := f (cs_blocks s ! i)]\<rparr>)"
    using run by (auto simp: change_block_def bindE_Inr_iff split: option.splits)
  let ?s = "s\<lparr>cs_blocks := (cs_blocks s)[i := f (cs_blocks s ! i)]\<rparr>"
  have "m_tag ((cs_blocks s)[i := f (cs_blocks s ! i)] ! j) = m_tag (cs_blocks s ! j)" if "j < length (cs_blocks s)" for j
    using that f by (cases "j = i") simp_all
  then have "set_find ?s tag = set_find s tag" unfolding set_find_def by (intro find_cong) auto
  moreover have "splitAddress (c_base c') a = Inr (tag, idx)" using *(1,4) by (simp add: put_set_def)
  ultimately show ?thesis using * get_put_set [OF *(2), of ?s] by (simp add: cache_data_def line_pos_def)
qed

section \<open>One cache\<close>

text \<open>No cache is evicting the line.\<close>

definition not_evicting :: "IntPtr \<Rightarrow> MemSys \<Rightarrow> bool" where
  "not_evicting a sys \<longleftrightarrow> (\<forall>m. m_evicting_buf (masters sys m) = None \<or> m_evicting_address (masters sys m) \<noteq> a)"

text \<open>How an operation changes the bytes of the line in the caches; evictions stay as they are.\<close>

definition data_set :: "IntPtr \<Rightarrow> MemSys \<Rightarrow> MemSys \<Rightarrow> (master_ptr \<Rightarrow> Byte list option) \<Rightarrow> bool" where
  "data_set a sys sys' f \<longleftrightarrow> line_data sys' a = f \<and>
     (\<forall>m. m_evicting_buf (masters sys' m) = m_evicting_buf (masters sys m) \<and> m_evicting_address (masters sys' m) = m_evicting_address (masters sys m))"

lemma data_set_put_cache: "data_set a sys (put_cache c cache sys) ((line_data sys a)(m_master (cntlrs sys c) := cache_data cache a))"
  by (auto simp: data_set_def line_data_def)

lemma data_set_evicting: "data_set a sys sys' f \<Longrightarrow> not_evicting a sys' = not_evicting a sys"
  by (simp add: data_set_def not_evicting_def)

lemma retrieve_data:
  assumes "sys_wf sys" and h: "hierarchy True a sys" and "peek sys (m_master (cntlrs sys c)) a = Some b"
    and run: "retrieveCacheBlock c a False sys = Inr (bytes, sys')"
  shows "sys' = sys" "line_data sys a (m_master (cntlrs sys c)) = Some bytes"
proof -
  let ?c = "m_cache (master_of sys c)"
  have bs: "m_cache_block_size (cntlrs sys c) = m_blocksize (c_base ?c)" and plain: "plain_cache True ?c"
    and al: "a AND ucast (m_cache_block_size (cntlrs sys c) - 1) = 0" by (rule hierarchyD [OF h])+
  have wf: "cache_wf ?c" and pk: "peekSingleLine ?c a = Inr (Some b)"
    using assms(1,3) by (auto simp: sys_wf_def peek_Inr [OF assms(1)])
  obtain found out cache where acc: "accessSingleLine ?c a LOAD (Some []) (m_blocksize (c_base ?c)) False = Inr (found, out, cache)"
    and res: "bytes = (case out of Some bs \<Rightarrow> bs | None \<Rightarrow> [])" "sys' = put_cache c cache sys"
    using run by (auto simp: retrieveCacheBlock_def bindE_Inr_iff bs)
  note ld = load_data [OF wf plain pk al [unfolded bs] acc]
  show "sys' = sys" using res(2) ld(1) by (simp add: put_cache_def put_master_def)
  show "line_data sys a (m_master (cntlrs sys c)) = Some bytes" using res(1) ld(2,3) by (auto simp: line_data_def)
qed

lemma write_data:
  assumes "sys_wf sys" and h: "hierarchy True a sys" and ev: "not_evicting a sys" and "peek sys (m_master (cntlrs sys c)) a = Some b"
    and len: "length bytes = unat (m_cache_block_size (cntlrs sys c))"
    and run: "writeCacheBlock (Suc fuel) c a 0 (Some bytes) (m_cache_block_size (cntlrs sys c)) sys = Inr sys'"
  shows "data_set a sys sys' ((line_data sys a)(m_master (cntlrs sys c) := Some bytes))"
proof -
  let ?c = "m_cache (master_of sys c)"
  have bs: "m_cache_block_size (cntlrs sys c) = m_blocksize (c_base ?c)" and plain: "plain_cache True ?c"
    and al: "a AND ucast (m_cache_block_size (cntlrs sys c) - 1) = 0" and wt: "\<not> m_cache_writethrough (cntlrs sys c)" by (rule hierarchyD [OF h])+
  have wf: "cache_wf ?c" and pk: "peekSingleLine ?c a = Inr (Some b)"
    using assms(1,4) by (auto simp: sys_wf_def peek_Inr [OF assms(1)])
  obtain s1 where own: "write_own_block c a 0 (Some bytes) (m_cache_block_size (cntlrs sys c)) sys = Inr s1"
    and rest: "(if m_cache_writethrough (cntlrs s1 c) then case m_next_cache_cntlr (cntlrs s1 c) of None \<Rightarrow> Inl NullPointer
       | Some n \<Rightarrow> writeCacheBlock fuel n a 0 (Some bytes) (m_cache_block_size (cntlrs sys c)) s1 else Inr s1) = Inr sys'"
    using run by (auto simp: bindE_Inr_iff)
  have "fixed sys s1" using write_own_block_contents [OF assms(1) own] by blast
  then have eq: "sys' = s1" using rest wt by (simp add: fixed_simps [of sys s1])
  have "\<not> (m_evicting_buf (master_of sys c) \<noteq> None \<and> a = m_evicting_address (master_of sys c))"
    using ev unfolding not_evicting_def by metis
  then obtain found out cache where acc: "accessSingleLine ?c a STORE (Some bytes) (m_blocksize (c_base ?c)) False = Inr (found, out, cache)"
    and s1: "s1 = put_cache c cache sys"
    using own by (auto simp: write_own_block_def Let_def bindE_Inr_iff bs)
  have "cache_data cache a = Some bytes" by (rule store_data [OF wf plain pk al [unfolded bs] _ acc]) (use len bs in simp)
  then show ?thesis using data_set_put_cache [of a sys c cache] by (simp add: eq s1)
qed

lemma setCacheState_data: "setCacheState c a st sys = Inr sys' \<Longrightarrow> data_set a sys sys' (line_data sys a)"
proof -
  assume "setCacheState c a st sys = Inr sys'"
  then obtain cache where ch: "change_block (\<lambda>b. b\<lparr>m_cstate := st\<rparr>) (m_cache (master_of sys c)) a = Inr cache" and sys': "sys' = put_cache c cache sys"
    by (auto simp: setCacheState_def cc_change_block_def bindE_Inr_iff)
  have "cache_data cache a = line_data sys a (m_master (cntlrs sys c))" using change_block_data [OF ch] by (simp add: line_data_def)
  then show ?thesis using data_set_put_cache [of a sys c cache] by (simp add: sys')
qed

text \<open>A write-back puts the bytes of the line into the next level.\<close>

definition parent_data :: "MemSys \<Rightarrow> cntlr_ptr \<Rightarrow> Byte list option \<Rightarrow> (master_ptr \<Rightarrow> Byte list option) \<Rightarrow> master_ptr \<Rightarrow> Byte list option" where
  "parent_data sys c v f = (case m_next_cache_cntlr (cntlrs sys c) of None \<Rightarrow> f | Some n \<Rightarrow> f(m_master (cntlrs sys n) := v))"

lemma parent_data_fixed: "fixed sys s \<Longrightarrow> parent_data s = parent_data sys"
  by (simp add: fun_eq_iff parent_data_def fixed_simps [of sys s] split: option.split)

lemma write_back_data:
  assumes wf: "sys_wf sys" and h: "hierarchy True a sys" and ev: "not_evicting a sys" and incl: "dirty_inclusive a sys"
    and b: "peek sys (m_master (cntlrs sys c)) a = Some b" "m_cstate b = MODIFIED"
    and run: "write_back (Suc fuel) c a want sys = Inr (out, wb, sys')"
  shows "data_set a sys sys' (parent_data sys c (line_data sys a (m_master (cntlrs sys c))) (line_data sys a))"
proof -
  let ?v = "line_data sys a (m_master (cntlrs sys c))"
  have wt: "\<not> m_cache_writethrough (cntlrs sys c)" by (rule hierarchyD [OF h])
  show ?thesis
  proof (cases "m_next_cache_cntlr (cntlrs sys c)")
    case None
    then obtain bytes s1 where ret: "retrieveCacheBlock c a False sys = Inr (bytes, s1)" and st: "setCacheState c a SHARED s1 = Inr sys'"
      using run wt by (auto simp: write_back_def bindE_Inr_iff split: if_splits)
    then show ?thesis using setCacheState_data [OF st] retrieve_data(1) [OF wf h b(1) ret] None by (simp add: parent_data_def)
  next
    case (Some n)
    then obtain bytes s1 s2 where ret: "retrieveCacheBlock c a False sys = Inr (bytes, s1)"
      and wr: "writeCacheBlock (Suc fuel) n a 0 (Some bytes) (m_cache_block_size (cntlrs sys c)) s1 = Inr s2"
      and st: "setCacheState c a SHARED s2 = Inr sys'"
      using run wt by (auto simp: write_back_def bindE_Inr_iff simp del: writeCacheBlock.simps)
    have s1: "s1 = sys" and v: "?v = Some bytes" by (rule retrieve_data [OF wf h b(1) ret])+
    have len: "length bytes = unat (m_cache_block_size (cntlrs sys c))" using retrieveCacheBlock_returns [OF wf h b(1)] ret by auto
    have bs: "m_cache_block_size (cntlrs sys n) = m_cache_block_size (cntlrs sys c)" by (rule hierarchyD(7) [OF h Some])
    have "block_state (peek sys (m_master (cntlrs sys n)) a) = MODIFIED"
      by (rule dirty_inclusiveD [OF incl hierarchyD(6) [OF h Some]]) (use b in \<open>simp add: block_state_def\<close>)
    then obtain bn where bn: "peek sys (m_master (cntlrs sys n)) a = Some bn" by (auto simp: block_state_def split: option.splits)
    have "data_set a sys s2 ((line_data sys a)(m_master (cntlrs sys n) := Some bytes))"
      by (rule write_data [OF wf h ev bn]) (use len bs wr s1 in simp_all)
    then show ?thesis using setCacheState_data [OF st] v Some by (simp add: data_set_def parent_data_def)
  qed
qed

lemma update_own_block_data:
  assumes wf: "sys_wf sys" and h: "hierarchy True a sys" and ev: "not_evicting a sys" and incl: "dirty_inclusive a sys"
    and b: "peek sys (m_master (cntlrs sys c)) a = Some b"
    and apart: "\<forall>n. m_next_cache_cntlr (cntlrs sys c) = Some n \<longrightarrow> m_master (cntlrs sys n) \<noteq> m_master (cntlrs sys c)"
    and run: "update_own_block (Suc fuel) c a INVALID reason want b sys = Inr (out, wb, sys')"
  shows "(want \<longrightarrow> out = line_data sys a (m_master (cntlrs sys c))) \<and>
    (\<exists>v. data_set a sys sys' ((if m_cstate b = MODIFIED then parent_data sys c (line_data sys a (m_master (cntlrs sys c))) (line_data sys a)
       else line_data sys a)(m_master (cntlrs sys c) := v)))"
proof -
  let ?s = "count_stats c (count_update reason INVALID b) sys" and ?M = "m_master (cntlrs sys c)"
  let ?f = "if m_cstate b = MODIFIED then parent_data sys c (line_data sys a ?M) (line_data sys a) else line_data sys a"
  have nz: "m_cstate b \<noteq> INVALID" using incl b by (simp add: dirty_inclusive_def)
  have fs: "fixed sys ?s" by simp
  have same: "line_data ?s = line_data sys" "not_evicting a ?s" "parent_data ?s = parent_data sys"
    using ev parent_data_fixed [OF fs] by (simp_all add: line_data_def [abs_def] not_evicting_def)
  have s: "sys_wf ?s" "hierarchy True a ?s" "dirty_inclusive a ?s" "peek ?s (m_master (cntlrs ?s c)) a = Some b"
    using wf hierarchy_fixed [OF fs h] incl b by (simp_all add: dirty_inclusive_def fixed_simps [OF fs])
  obtain o1 w1 s1 where r1: "(if m_cstate b = MODIFIED then write_back (Suc fuel) c a want ?s else Inr (None, False, ?s)) = Inr (o1, w1, s1)"
    and r2: "settle_block c a INVALID want (o1, w1, s1) = Inr (out, wb, sys')"
    using run nz by (auto simp: update_own_block_def bindE_Inr_iff Let_def)
  have d1: "data_set a sys s1 ?f"
    using r1 write_back_data [OF s(1,2) same(2) s(3,4)] fixed_cntlr(1) [OF fs]
    by (auto simp: same data_set_def split: if_splits)
  let ?b = "if m_cstate b = MODIFIED then b\<lparr>m_cstate := SHARED\<rparr> else b"
  have "contents_set ?s s1 (put_line ?s c a (Some ?b))"
    using r1 write_back_contents [OF s(1,4)] put_line_same [OF s(4,1)] s(1) by (auto split: if_splits)
  then have s1: "sys_wf s1" "fixed sys s1" "peek s1 (m_master (cntlrs ?s c)) a = Some ?b"
    using fixed_trans [OF fs] by auto
  then have p1: "peek s1 (m_master (cntlrs s1 c)) a = Some ?b" by (simp add: fixed_simps [OF s1(2)] fixed_simps [OF fs])
  have h1: "hierarchy True a s1" by (rule hierarchy_fixed [OF s1(2) h])
  have M1: "m_master (cntlrs s1 c) = ?M" by (simp add: fixed_simps [OF s1(2)])
  have own: "line_data s1 a ?M = line_data sys a ?M" using d1 apart by (auto simp: data_set_def parent_data_def split: option.splits if_splits)
  have coh: "m_coherent (cntlrs s2 c)" if "retrieveCacheBlock c a False s1 = Inr (x, s2)" for x s2
    using retrieve_data(1) [OF s1(1) h1 p1 that] hierarchyD(1) [OF h1] by simp
  obtain o2 w2 s2 where ret: "(if want then bindE (retrieveCacheBlock c a False s1) (\<lambda>(data, sys). Inr (Some data, True, sys)) else Inr (o1, w1, s1))
      = Inr (o2, w2, s2)" and inv: "invalidateCacheBlock c a s2 = Inr sys'" and out: "out = o2"
    using r2 hierarchyD(1) [OF h1] by (auto simp: settle_block_def bindE_Inr_iff dest: coh split: if_splits)
  have s2: "s2 = s1" and o2: "want \<longrightarrow> out = line_data sys a ?M"
    using ret retrieve_data [OF s1(1) h1 p1] out own M1 by (auto simp: bindE_Inr_iff split: if_splits)
  obtain x cache where "sys' = put_cache c cache s1" using inv s2 by (auto simp: invalidateCacheBlock_def bindE_Inr_iff)
  then have "data_set a s1 sys' ((line_data s1 a)(?M := cache_data cache a))" using data_set_put_cache [of a s1 c cache] M1 by simp
  then have "data_set a sys sys' (?f(?M := cache_data cache a))" using d1 by (simp add: data_set_def)
  then show ?thesis using o2 by blast
qed

lemma update_level_data:
  assumes wf: "sys_wf sys" and h: "hierarchy True a sys" and ev: "not_evicting a sys" and incl: "dirty_inclusive a sys"
    and apart: "\<forall>n. m_next_cache_cntlr (cntlrs sys c) = Some n \<longrightarrow> m_master (cntlrs sys n) \<noteq> m_master (cntlrs sys c)"
    and run: "update_level (Suc fuel) c a INVALID reason want h1 sys = Inr (t, hit, out, sys')"
  shows "(want \<longrightarrow> out = line_data sys a (m_master (cntlrs sys c))) \<and>
    (\<exists>v. data_set a sys sys' ((if block_state (peek sys (m_master (cntlrs sys c)) a) = MODIFIED
       then parent_data sys c (line_data sys a (m_master (cntlrs sys c))) (line_data sys a) else line_data sys a)(m_master (cntlrs sys c) := v)))"
proof (cases "peek sys (m_master (cntlrs sys c)) a")
  case None
  then have "sys' = sys" "out = None" "want \<longrightarrow> out \<noteq> None" using update_levelD(1,3) [OF wf run] by simp_all
  then show ?thesis using None by (auto simp: data_set_def block_state_def intro!: exI [of _ "line_data sys a (m_master (cntlrs sys c))"])
next
  case (Some b)
  then obtain wb where "update_own_block (Suc fuel) c a INVALID reason want b sys = Inr (out, wb, sys')"
    using run by (auto simp: update_level_def getCacheBlockInfo_peek [OF wf] bindE_Inr_iff)
  from update_own_block_data [OF wf h ev incl Some apart this] Some show ?thesis by (simp add: block_state_def)
qed

section \<open>The hierarchy\<close>

text \<open>
  The caches form a tree: a controller has a cache as a previous level once, the next level of that is this one, and below different
  previous levels there are different caches.
\<close>

definition cache_tree :: "MemSys \<Rightarrow> bool" where
  "cache_tree sys \<longleftrightarrow> (\<forall>c. distinct (m_prev_cache_cntlrs (master_of sys c)) \<and>
     (\<forall>p\<in>set (m_prev_cache_cntlrs (master_of sys c)).
        (\<exists>n. m_next_cache_cntlr (cntlrs sys p) = Some n \<and> m_master (cntlrs sys n) = m_master (cntlrs sys c)) \<and>
        (\<forall>q\<in>set (m_prev_cache_cntlrs (master_of sys c)). p \<noteq> q \<longrightarrow>
           (\<forall>d e. below sys p d \<longrightarrow> below sys q e \<longrightarrow> m_master (cntlrs sys d) \<noteq> m_master (cntlrs sys e)))))"

text \<open>The bytes of the line at a level once the levels below are flushed: those of the last previous level that has the line modified, and
  of the level itself when none has.\<close>

fun flush_value :: "nat \<Rightarrow> MemSys \<Rightarrow> IntPtr \<Rightarrow> cntlr_ptr \<Rightarrow> Byte list option" where
  "flush_value 0 sys a c = None"
| "flush_value (Suc n) sys a c =
     fold (\<lambda>p v. if block_state (peek sys (m_master (cntlrs sys p)) a) = MODIFIED then flush_value n sys a p else v)
       (m_prev_cache_cntlrs (master_of sys c)) (line_data sys a (m_master (cntlrs sys c)))"

lemma flush_value_cong:
  assumes f: "fixed sys s"
    and "\<forall>d. below sys c d \<longrightarrow> peek s (m_master (cntlrs sys d)) = peek sys (m_master (cntlrs sys d)) \<and>
       line_data s a (m_master (cntlrs sys d)) = line_data sys a (m_master (cntlrs sys d))"
  shows "flush_value n s a c = flush_value n sys a c"
  using assms(2)
proof (induction n arbitrary: c)
  case (Suc n)
  have sub: "flush_value n s a p = flush_value n sys a p \<and> peek s (m_master (cntlrs sys p)) = peek sys (m_master (cntlrs sys p))"
    if "p \<in> set (m_prev_cache_cntlrs (master_of sys c))" for p
    using Suc.IH [of p] Suc.prems below_prev [OF that] below_refl [of sys p] by blast
  have "line_data s a (m_master (cntlrs sys c)) = line_data sys a (m_master (cntlrs sys c))" using Suc.prems below_refl [of sys c] by blast
  then show ?case using sub by (auto simp: fixed_simps [OF f] intro!: fold_cong)
qed simp

text \<open>The loop over the previous levels, with what is known after a part of them.\<close>

lemma update_prevs_prefix:
  assumes "update_prevs f ps acc sys = Inr (t, h, sys')" and "Q [] sys"
    and "\<And>pre p post s t h s'. ps = pre @ p # post \<Longrightarrow> Q pre s \<Longrightarrow> f p s = Inr (t, h, s') \<Longrightarrow> Q (pre @ [p]) s'"
  shows "Q ps sys'"
proof -
  have "Q ps sys'" if "ps = pre @ post" "update_prevs f post acc s = Inr (t, h, sys')" "Q pre s" for pre post acc s
    using that
  proof (induction post arbitrary: pre acc s)
    case (Cons p post)
    then obtain t1 h1 s1 where "f p s = Inr (t1, h1, s1)" "update_prevs f post (max (fst acc) t1, snd acc \<or> h1) s1 = Inr (t, h, sys')"
      by (auto simp: bindE_Inr_iff)
    then show ?case using Cons.IH [of "pre @ [p]" _ s1] assms(3) [OF Cons.prems(1,3)] Cons.prems(1) by simp
  qed simp
  then show ?thesis using assms(1,2) by (metis append_Nil)
qed

lemma updateCacheBlock_data:
  assumes "sys_wf sys" and "hierarchy True a sys" and "dirty_inclusive a sys" and "not_evicting a sys" and "cache_tree sys" and "height fuel sys c"
    and "updateCacheBlock fuel c a INVALID reason want sys = Inr (t, hit, out, sys')"
  shows "(want \<longrightarrow> out = flush_value fuel sys a c) \<and> not_evicting a sys' \<and>
    (\<forall>m. (\<forall>d. below sys c d \<longrightarrow> m_master (cntlrs sys d) \<noteq> m) \<longrightarrow> line_data sys' a m =
       (if block_state (peek sys (m_master (cntlrs sys c)) a) = MODIFIED then parent_data sys c (flush_value fuel sys a c) (line_data sys a) m
        else line_data sys a m))"
  using assms
proof (induction fuel arbitrary: c reason want sys t hit out sys')
  case (Suc fuel)
  let ?r = "if reason = EVICT then BACK_INVAL else reason"
  let ?M = "m_master (cntlrs sys c)"
  let ?ps = "m_prev_cache_cntlrs (masters sys ?M)"
  let ?g = "\<lambda>p v. if block_state (peek sys (m_master (cntlrs sys p)) a) = MODIFIED then flush_value fuel sys a p else v"
  obtain t1 h1 s1 where prevs: "update_prevs (update_below fuel a INVALID ?r) ?ps (0, False) sys = Inr (t1, h1, s1)"
    and own: "update_level (Suc fuel) c a INVALID reason want h1 s1 = Inr (t, hit, out, sys')"
    using Suc.prems(7) unfolding updateCacheBlock_Inr by blast
  have tree: "distinct ?ps" "\<And>p. p \<in> set ?ps \<Longrightarrow> \<exists>n. m_next_cache_cntlr (cntlrs sys p) = Some n \<and> m_master (cntlrs sys n) = ?M"
    "\<And>p q d e. p \<in> set ?ps \<Longrightarrow> q \<in> set ?ps \<Longrightarrow> p \<noteq> q \<Longrightarrow> below sys p d \<Longrightarrow> below sys q e \<Longrightarrow> m_master (cntlrs sys d) \<noteq> m_master (cntlrs sys e)"
    using Suc.prems(5) unfolding cache_tree_def by blast+
  define Q where "Q pre s \<longleftrightarrow> sys_wf s \<and> fixed sys s \<and> dirty_inclusive a s \<and> not_evicting a s \<and> peek s ?M = peek sys ?M \<and>
    line_data s a ?M = fold ?g pre (line_data sys a ?M) \<and>
    (\<forall>q\<in>set ?ps - set pre. \<forall>d. below sys q d \<longrightarrow> peek s (m_master (cntlrs sys d)) = peek sys (m_master (cntlrs sys d)) \<and>
       line_data s a (m_master (cntlrs sys d)) = line_data sys a (m_master (cntlrs sys d))) \<and>
    (\<forall>m. (\<forall>d. below sys c d \<longrightarrow> m_master (cntlrs sys d) \<noteq> m) \<longrightarrow> line_data s a m = line_data sys a m)" for pre s
  have "Q ?ps s1"
  proof (rule update_prevs_prefix [OF prevs])
    show "Q [] sys" using Suc.prems by (simp add: Q_def)
    fix pre p post s t h s'
    assume split: "?ps = pre @ p # post" and q: "Q pre s" and "update_below fuel a INVALID ?r p s = Inr (t, h, s')"
    then obtain o' where run: "updateCacheBlock fuel p a INVALID ?r False s = Inr (t, h, o', s')" by (auto simp: update_below_Inr)
    have p: "p \<in> set ?ps" "p \<notin> set pre" using split tree(1) by auto
    have s: "sys_wf s" "fixed sys s" "dirty_inclusive a s" "not_evicting a s" using q by (simp_all add: Q_def)
    have hs: "hierarchy True a s" by (rule hierarchy_fixed [OF s(2) Suc.prems(2)])
    have bl: "below s = below sys" by (auto simp: fun_eq_iff below_fixed_iff [OF s(2)])
    have ts: "cache_tree s" using Suc.prems(5) unfolding cache_tree_def fixed_simps [OF s(2)] bl .
    have hp: "height fuel s p" using Suc.prems(6) p by (simp add: height_fixed [OF s(2)])
    have same: "\<forall>d. below sys p d \<longrightarrow> peek s (m_master (cntlrs sys d)) = peek sys (m_master (cntlrs sys d)) \<and>
       line_data s a (m_master (cntlrs sys d)) = line_data sys a (m_master (cntlrs sys d))" using q p unfolding Q_def by blast
    have val: "flush_value fuel s a p = flush_value fuel sys a p" by (rule flush_value_cong [OF s(2) same])
    have pk: "peek s (m_master (cntlrs sys p)) = peek sys (m_master (cntlrs sys p))" using same below_refl [of sys p] by blast
    obtain n where n: "m_next_cache_cntlr (cntlrs sys p) = Some n" "m_master (cntlrs sys n) = ?M" using tree(2) [OF p(1)] by blast
    have ms: "m_master (cntlrs s x) = m_master (cntlrs sys x)" for x by (simp add: fixed_simps [OF s(2)])
    have pkp: "peek s (m_master (cntlrs sys p)) a = peek sys (m_master (cntlrs sys p)) a" by (simp add: pk)
    have par: "parent_data s p (flush_value fuel s a p) (line_data s a) = (line_data s a)(?M := flush_value fuel sys a p)"
      using n fixed_cntlr(1) [OF s(2), of p] by (simp add: parent_data_def fixed_simps [OF s(2)] val)
    have ev': "not_evicting a s'" and upd: "\<And>m. \<forall>d. below sys p d \<longrightarrow> m_master (cntlrs sys d) \<noteq> m \<Longrightarrow> line_data s' a m =
       (if block_state (peek sys (m_master (cntlrs sys p)) a) = MODIFIED then ((line_data s a)(?M := flush_value fuel sys a p)) m else line_data s a m)"
      using Suc.IH [OF s(1) hs s(3,4) ts hp run] by (simp_all add: par pkp bl ms cong: if_cong split del: if_split)
    have out: "peek s' m = peek s m" if "\<forall>d. below sys p d \<longrightarrow> m_master (cntlrs sys d) \<noteq> m" for m
      by (rule updateCacheBlock_outside [OF s(1) run]) (use that in \<open>simp add: bl fixed_simps [OF s(2)]\<close>)
    have apart: "\<forall>d. below sys q d \<longrightarrow> m_master (cntlrs sys d) \<noteq> ?M" if "q \<in> set ?ps" for q
      using height_acyclic [OF Suc.prems(6) that] by blast
    have s': "sys_wf s'" "fixed sys s'" "dirty_inclusive a s'"
      using upd_frame.updateCacheBlock_keeps [OF s(1) run] fixed_trans [OF s(2)] dirty_inclusive_updated [OF s(1) hs s(3) run]
      by (auto simp: frames_line_def)
    show "Q (pre @ [p]) s'"
      unfolding Q_def
    proof (intro conjI ballI allI impI)
      show "peek s' ?M = peek sys ?M" using out [OF apart [OF p(1)]] q by (simp add: Q_def)
      show "line_data s' a ?M = fold ?g (pre @ [p]) (line_data sys a ?M)" using upd [OF apart [OF p(1)]] q by (simp add: Q_def)
    next
      fix q d assume qd: "q \<in> set ?ps - set (pre @ [p])" "below sys q d"
      let ?m = "m_master (cntlrs sys d)"
      have m: "\<forall>e. below sys p e \<longrightarrow> m_master (cntlrs sys e) \<noteq> ?m" using tree(3) [OF p(1), of q] qd by auto
      have "?m \<noteq> ?M" using apart [of q] qd by auto
      then show "peek s' ?m = peek sys ?m" "line_data s' a ?m = line_data sys a ?m"
        using out [OF m] upd [OF m] \<open>Q pre s\<close> qd by (auto simp: Q_def)
    next
      fix m assume m: "\<forall>d. below sys c d \<longrightarrow> m_master (cntlrs sys d) \<noteq> m"
      then have "\<forall>d. below sys p d \<longrightarrow> m_master (cntlrs sys d) \<noteq> m" "m \<noteq> ?M" using below_prev [OF p(1)] below_refl [of sys c] by auto
      then show "line_data s' a m = line_data sys a m" using upd [of m] q m by (simp add: Q_def)
    qed (use s' ev' in simp_all)
  qed
  then have s1: "sys_wf s1" "fixed sys s1" "dirty_inclusive a s1" "not_evicting a s1" "peek s1 ?M = peek sys ?M"
    "line_data s1 a ?M = flush_value (Suc fuel) sys a c"
    "\<And>m. \<forall>d. below sys c d \<longrightarrow> m_master (cntlrs sys d) \<noteq> m \<Longrightarrow> line_data s1 a m = line_data sys a m" by (simp_all add: Q_def)
  have apart: "m_master (cntlrs sys n) \<noteq> ?M" if "m_next_cache_cntlr (cntlrs sys c) = Some n" for n
  proof
    assume eq: "m_master (cntlrs sys n) = ?M"
    have "c \<in> set (m_prev_cache_cntlrs (master_of sys n))" by (rule hierarchyD(6) [OF Suc.prems(2) that])
    then have "c \<in> set ?ps" by (simp add: eq)
    from height_acyclic [OF Suc.prems(6) this below_refl] show False by simp
  qed
  have level: "(want \<longrightarrow> out = line_data s1 a ?M) \<and> (\<exists>v. data_set a s1 sys' ((if block_state (peek sys ?M a) = MODIFIED
       then parent_data sys c (line_data s1 a ?M) (line_data s1 a) else line_data s1 a)(?M := v)))"
    using update_level_data [OF s1(1) hierarchy_fixed [OF s1(2) Suc.prems(2)] s1(4,3) _ own] apart s1(5)
    by (simp add: fixed_simps [OF s1(2)] parent_data_fixed [OF s1(2)] cong: if_cong split del: if_split)
  then obtain v where d: "data_set a s1 sys' ((if block_state (peek sys ?M a) = MODIFIED
       then parent_data sys c (line_data s1 a ?M) (line_data s1 a) else line_data s1 a)(?M := v))" by blast
  have "line_data sys' a m = (if block_state (peek sys ?M a) = MODIFIED then parent_data sys c (flush_value (Suc fuel) sys a c) (line_data sys a) m
      else line_data sys a m)" if m: "\<forall>d. below sys c d \<longrightarrow> m_master (cntlrs sys d) \<noteq> m" for m
  proof -
    have "m \<noteq> ?M" using m below_refl [of sys c] by auto
    then show ?thesis using d s1(6) s1(7) [OF m] by (auto simp: data_set_def parent_data_def simp del: flush_value.simps split: option.splits)
  qed
  then show ?case using level s1(6) data_set_evicting [OF d] s1(4) by (simp del: flush_value.simps)
qed simp

section \<open>The newest copy\<close>

text \<open>
  Controller d has the newest copy of the line below c: no previous level of it has the line modified, and it has itself, or it is c.
  No controller below c has two previous levels with the line modified.
\<close>

definition modified :: "MemSys \<Rightarrow> IntPtr \<Rightarrow> cntlr_ptr \<Rightarrow> bool" where
  "modified sys a c \<longleftrightarrow> block_state (peek sys (m_master (cntlrs sys c)) a) = MODIFIED"

definition newest :: "MemSys \<Rightarrow> IntPtr \<Rightarrow> cntlr_ptr \<Rightarrow> cntlr_ptr \<Rightarrow> bool" where
  "newest sys a c d \<longleftrightarrow> below sys c d \<and> (d = c \<or> modified sys a d) \<and> (\<forall>p\<in>set (m_prev_cache_cntlrs (master_of sys d)). \<not> modified sys a p) \<and>
     (\<forall>e. below sys c e \<longrightarrow> (\<forall>p\<in>set (m_prev_cache_cntlrs (master_of sys e)). \<forall>q\<in>set (m_prev_cache_cntlrs (master_of sys e)).
        modified sys a p \<longrightarrow> modified sys a q \<longrightarrow> p = q))"

lemma fold_pick_none: "(\<forall>p\<in>set ps. \<not> P p) \<Longrightarrow> fold (\<lambda>p v. if P p then f p else v) ps v = v"
  by (induction ps) simp_all

lemma fold_pick_one:
  assumes "p \<in> set ps" and "P p" and "\<forall>q\<in>set ps. P q \<longrightarrow> q = p"
  shows "fold (\<lambda>q v. if P q then f q else v) ps v = f p"
proof -
  obtain xs ys where ps: "ps = xs @ p # ys" "p \<notin> set ys" using split_list_last [OF assms(1)] by blast
  have "\<forall>q\<in>set ys. \<not> P q"
  proof (intro ballI notI)
    fix q assume "q \<in> set ys" "P q"
    moreover from this have "q = p" using assms(3) ps(1) by simp
    ultimately show False using ps(2) by simp
  qed
  from fold_pick_none [OF this, of f "f p"] show ?thesis by (simp add: ps(1) \<open>P p\<close>)
qed

lemma modified_above: "below sys c d \<Longrightarrow> dirty_inclusive a sys \<Longrightarrow> modified sys a d \<Longrightarrow> modified sys a c"
proof (induction rule: below.induct)
  case (below_prev p c d)
  have "modified sys a p" by (rule below_prev.IH [OF below_prev.prems])
  then show ?case unfolding modified_def by (rule dirty_inclusiveD [OF below_prev.prems(1) below_prev.hyps(1)])
qed

lemma flush_value_newest:
  assumes "below sys c d" and "dirty_inclusive a sys" and "height n sys c" and "newest sys a c d"
  shows "flush_value n sys a c = line_data sys a (m_master (cntlrs sys d))"
  using assms
proof (induction arbitrary: n rule: below.induct)
  case (below_refl c)
  then obtain k where "n = Suc k" by (cases n) auto
  then show ?case using below_refl by (simp add: newest_def modified_def [symmetric] fold_pick_none)
next
  case (below_prev p c d)
  then obtain k where n: "n = Suc k" by (cases n) auto
  have "d \<noteq> c" using height_acyclic [OF below_prev.prems(2) below_prev.hyps(1,2)] by auto
  then have d: "modified sys a d" using below_prev.prems(3) by (auto simp: newest_def)
  then have p: "modified sys a p" by (rule modified_above [OF below_prev.hyps(2) below_prev.prems(1)])
  have "newest sys a p d" using below_prev.prems(3) below_prev.hyps d unfolding newest_def by (blast intro: below.below_prev)
  then have val: "flush_value k sys a p = line_data sys a (m_master (cntlrs sys d))"
    using below_prev n by simp
  have "\<forall>q\<in>set (m_prev_cache_cntlrs (master_of sys c)). modified sys a q \<longrightarrow> q = p"
    using below_prev.prems(3) below_prev.hyps(1) p below.below_refl [of sys c] unfolding newest_def by blast
  note one = fold_pick_one [of p _ "modified sys a", OF below_prev.hyps(1) p this, unfolded modified_def]
  show ?case unfolding n flush_value.simps by (simp only: one val)
qed

lemma elapsed_data:
  "line_data (sys\<lparr>elapsed := e\<rparr>) = line_data sys" "not_evicting a (sys\<lparr>elapsed := e\<rparr>) = not_evicting a sys"
  "cache_tree (sys\<lparr>elapsed := e\<rparr>) = cache_tree sys" "flush_value n (sys\<lparr>elapsed := e\<rparr>) a c = flush_value n sys a c"
proof -
  show d: "line_data (sys\<lparr>elapsed := e\<rparr>) = line_data sys" by (simp add: line_data_def [abs_def])
  show "flush_value n (sys\<lparr>elapsed := e\<rparr>) a c = flush_value n sys a c"
    by (induction n arbitrary: c) (simp_all add: d cong: if_cong)
qed (simp_all add: not_evicting_def cache_tree_def)

text \<open>C3. A request to flush a line that the last level holds is answered: \<^verbatim>\<open>processFlushReqFromDramDirectory\<close> returns, one
  message has been sent, the \<^verbatim>\<open>FLUSH_REP\<close> to the sender of the request, no cache of the hierarchy has the line any more, and every
  other line is as before. The data of the reply is the newest copy of the line: when the caches keep data, are a tree and none is evicting
  the line, it is what the modified copies below leave in the last level, which is the copy of the controller without a modified previous
  level that the chain of modified copies ends in. The hierarchy is one of coherent write-back caches of one line size without a fault
  injector, a line modified in a cache is modified in the next level, and the time of the access is computed without an error.\<close>

theorem flush_request_answered:
  assumes wf: "sys_wf sys" and h: "hierarchy data (msg_address msg) sys" and incl: "dirty_inclusive (msg_address msg) sys"
    and fuel: "height fuel sys c" and last: "m_next_cache_cntlr (cntlrs sys c) = None"
    and present: "getCacheState sys c (msg_address msg) \<noteq> Inr INVALID"
    and clock: "cc_accessTime c ACCESS_CACHE_DATA_AND_TAGS SIM_THREAD sys = Inr sys0"
  shows "\<exists>bytes sys'. processFlushReqFromDramDirectory fuel c sender msg sys = Inr sys' \<and>
    mem_sent sys' = mem_sent sys @ [\<lparr>n_type = FLUSH_REP, n_component = TAG_DIR, n_requester = m_requester msg, n_receiver = Some sender,
      n_address = msg_address msg, n_data = Some bytes, n_where = W_UNKNOWN\<rparr>] \<and>
    (data \<longrightarrow> length bytes = unat (m_cache_block_size (cntlrs sys c))) \<and>
    (data \<and> cache_tree sys \<and> not_evicting (msg_address msg) sys \<longrightarrow> Some bytes = flush_value fuel sys (msg_address msg) c \<and>
       (\<forall>d. newest sys (msg_address msg) c d \<longrightarrow> Some bytes = line_data sys (msg_address msg) (m_master (cntlrs sys d)))) \<and>
    (\<forall>d. below sys c d \<longrightarrow> getCacheState sys' d (msg_address msg) = Inr INVALID) \<and>
    (\<forall>m x. \<not> same_line sys m (msg_address msg) x \<longrightarrow> peek sys' m x = peek sys m x)"
proof -
  let ?a = "msg_address msg"
  obtain e where sys0: "sys0 = sys\<lparr>elapsed := e\<rparr>"
    using clock by (auto simp: cc_accessTime_def cc_incrElapsedTime_def bindE_Inr_iff Let_def)
  have p: "peek sys (m_master (cntlrs sys c)) ?a \<noteq> None" using present by (auto simp: getCacheState_peek [OF wf] block_state_def split: option.splits)
  then obtain t hit bytes s1 where run: "updateCacheBlock fuel c ?a INVALID COHERENCY True sys0 = Inr (t, hit, Some bytes, s1)"
    and len: "data \<longrightarrow> length bytes = unat (m_cache_block_size (cntlrs sys c))"
    using updateCacheBlock_returns [of sys0 data ?a fuel c True COHERENCY] wf h incl fuel by (auto simp: sys0)
  have wf0: "sys_wf sys0" using wf by (simp add: sys0)
  have val: "Some bytes = flush_value fuel sys ?a c" if "data" "cache_tree sys" "not_evicting ?a sys"
    using updateCacheBlock_data [OF wf0 _ _ _ _ _ run] h incl fuel that by (simp add: sys0 elapsed_data)
  have new: "Some bytes = line_data sys ?a (m_master (cntlrs sys d))" if "data" "cache_tree sys" "not_evicting ?a sys" "newest sys ?a c d" for d
    using val [OF that(1-3)] flush_value_newest [OF _ incl fuel that(4)] that(4) by (simp add: newest_def)
  have s1: "sys_wf s1" "frames_line ?a sys0 s1" using upd_frame.updateCacheBlock_keeps [OF wf0 run] by auto
  then have f: "fixed sys0 s1" by (simp add: frames_line_def)
  have "getCacheState s1 d ?a = Inr INVALID" if "below sys c d" for d
    using updateCacheBlock_settled [OF wf0 run, of d] that hierarchyD(1) [OF h]
    by (simp add: getCacheState_peek [OF s1(1)] settled_def fixed_simps [OF f] sys0)
  moreover have "peek s1 m x = peek sys m x" if "\<not> same_line sys m ?a x" for m x
    using s1(2) that by (simp add: frames_line_def sys0)
  moreover have "mem_sent s1 = mem_sent sys" by (simp add: fixed_simps [OF f] sys0)
  ultimately show ?thesis
    using present clock run len val new
    by (intro exI [of _ bytes] exI [of _ "sendToDirectory FLUSH_REP (m_requester msg) sender ?a (Some bytes) s1"])
      (auto simp: processFlushReqFromDramDirectory_def getCacheState_peek [OF wf])
qed

section \<open>A store that a flush brings to the directory\<close>

lemma demo_shape:
  "m_master (cntlrs demo_sys c) = min c 2" "m_prev_cache_cntlrs (masters demo_sys m) = (if m = 2 then [0, 1] else [])"
  "m_next_cache_cntlr (cntlrs demo_sys c) = (if c < 2 then Some 2 else None)" "m_cache_block_size (cntlrs demo_sys c) = 16"
  by (simp_all add: demo_sys_def demo_master_def demo_cntlr_def)

lemma demo_tree: "cache_tree demo_sys" "not_evicting a demo_sys"
proof -
  have "p = d" if "below demo_sys p d" "p < 2" for p d
    using that by (induction rule: below.induct) (auto simp: demo_shape)
  then have b: "below demo_sys 0 d \<longleftrightarrow> d = 0" "below demo_sys (Suc 0) d \<longleftrightarrow> d = 1" for d using below_refl by fastforce+
  show "cache_tree demo_sys" unfolding cache_tree_def demo_shape by (auto simp: b)
  show "not_evicting a demo_sys" by (simp add: not_evicting_def demo_sys_def demo_master_def)
qed

text \<open>The bytes 1 to 16 are written to the first private cache and come back in the reply.\<close>

theorem flush_request_answered_witness:
  "\<exists>s sys'. writeCacheBlock 1 0 0x40 0 (Some (map of_nat [1..<17])) 16 demo_sys = Inr s \<and>
    processFlushReqFromDramDirectory 2 2 7 demo_flush s = Inr sys' \<and>
    mem_sent sys' = [\<lparr>n_type = FLUSH_REP, n_component = TAG_DIR, n_requester = 0, n_receiver = Some 7,
      n_address = 0x40, n_data = Some (map of_nat [1..<17]), n_where = W_UNKNOWN\<rparr>] \<and> getCacheState sys' 0 0x40 = Inr INVALID"
proof -
  let ?bs = "map of_nat [1..<17] :: Byte list"
  have a: "msg_address demo_flush = 0x40" "m_requester demo_flush = 0" "mem_sent demo_sys = []"
    "getCost demo_sys = (\<lambda>_ _ _. 3000)" "elapsed demo_sys = (\<lambda>_ _. 0)" by (simp_all add: demo_flush_def demo_sys_def)
  have pk: "peek demo_sys (m_master (cntlrs demo_sys 0)) 0x40 = Some dirty_block"
    using demo_peek by (simp add: demo_shape) (simp add: peek_def demo_sys_def demo_master_def)
  have dirty: "m_cstate dirty_block = MODIFIED" by (simp add: dirty_block_def)
  obtain s where w: "writeCacheBlock (Suc 0) 0 0x40 0 (Some ?bs) 16 demo_sys = Inr s"
    using writeCacheBlock_returns [OF demo_sys_ok(1,2) pk dirty, of ?bs 0] by (auto simp: demo_shape simp del: writeCacheBlock.simps)
  have s: "sys_wf s" "fixed demo_sys s" "peek s = peek demo_sys" using writeCacheBlock_contents [OF demo_sys_ok(1) w] by auto
  have set: "data_set 0x40 demo_sys s ((line_data demo_sys 0x40)(0 := Some ?bs))"
    using write_data [OF demo_sys_ok(1,2) demo_tree(2) pk, of ?bs 0 s] w by (simp add: demo_shape del: writeCacheBlock.simps)
  have bl: "below s = below demo_sys" by (auto simp: fun_eq_iff below_fixed_iff [OF s(2)])
  have ok: "hierarchy True 0x40 s" "dirty_inclusive 0x40 s" "height 2 s 2" "m_next_cache_cntlr (cntlrs s 2) = None" "mem_sent s = []"
    "getCacheState s 2 0x40 \<noteq> Inr INVALID" "not_evicting 0x40 s" "cache_tree s"
    using hierarchy_fixed [OF s(2) demo_sys_ok(2)] demo_sys_ok(3,6) demo_tree(1) data_set_evicting [OF set] demo_tree(2) a(3)
    by (simp_all add: dirty_inclusive_def fixed_simps [OF s(2)] s(3) getCacheState_peek [OF s(1)] getCacheState_peek [OF demo_sys_ok(1)]
        demo_sys_ok(4) height_fixed [OF s(2)] cache_tree_def bl demo_shape)
  have b0: "below s 2 0" unfolding bl by (rule below_prev [of 0]) (simp_all add: demo_shape below_refl)
  have "newest s 0x40 2 0"
    using b0 demo_state by (simp add: newest_def modified_def fixed_simps [OF s(2)] s(3) demo_shape) auto
  moreover obtain s0 where "cc_accessTime 2 ACCESS_CACHE_DATA_AND_TAGS SIM_THREAD s = Inr s0"
    by (auto simp: cc_accessTime_def cc_incrElapsedTime_def incrElapsedTime_def fixed_simps [OF s(2)] a(4,5))
  moreover have "line_data s 0x40 0 = Some ?bs" using set by (simp add: data_set_def)
  ultimately show ?thesis
    using flush_request_answered [of s True demo_flush 2 2 s0 7] s(1) ok w b0 unfolding a by (auto simp: demo_shape fixed_simps [OF s(2)])
qed

end
