(* ===== verification/LS_Mem_Op.thy ===== *)
theory LS_Mem_Op
  imports LS_Cache_Cntlr
begin

unbundle bit_operations_syntax

text \<open>
  The requests of a core to its caches
  (\<^verbatim>\<open>common/core/memory_subsystem/parametric_dram_directory_msi/cache_cntlr.cc\<close>): \<^verbatim>\<open>processMemOpFromCore\<close> at the first level,
  \<^verbatim>\<open>processShmemReqFromPrevCache\<close> at the others, the requests to the directory, and the reply that wakes the cores which
  wait for it. \<^verbatim>\<open>processMemOpFromCore\<close> is cut where the thread of the core waits for the network thread; the rest of it runs when
  a reply has come. As in \<^verbatim>\<open>LS_Cache_Cntlr\<close> there is no prefetcher and no direct access to DRAM. The fuel \<open>lv\<close> is that of
  the operations on blocks.
\<close>

section \<open>Misses in progress\<close>

abbreviation user_time :: "MemSys \<Rightarrow> cntlr_ptr \<Rightarrow> SubsecondTime" where
  "user_time sys c \<equiv> elapsed sys (cc_core_id (cntlrs sys c)) USER_THREAD"

definition make_mshr :: "SubsecondTime \<Rightarrow> SubsecondTime \<Rightarrow> MshrEntry" where
  "make_mshr issue complete = \<lparr>t_issue = issue, t_complete = complete\<rparr>"

type_synonym Mshr = "(IntPtr \<times> MshrEntry) list"

text \<open>The order of the list stands for the order in which \<^verbatim>\<open>std::unordered_map\<close> is traversed.\<close>

definition mshr_put :: "IntPtr \<Rightarrow> MshrEntry \<Rightarrow> Mshr \<Rightarrow> Mshr" where
  "mshr_put a e m = (if a \<in> fst ` set m then map (\<lambda>(b, f). if b = a then (b, e) else (b, f)) m else m @ [(a, e)])"

definition mshr_oldest :: "Mshr \<Rightarrow> IntPtr" where
  "mshr_oldest m = fst (fold (\<lambda>(a, e) (address_min, time_min). if t_complete e < time_min then (a, t_complete e) else (address_min, time_min))
     m (0, MaxTime))"

text \<open>An iteration that removes nothing repeats for ever; the fuel is the number of entries.\<close>

fun cleanup_mshr :: "nat \<Rightarrow> Mshr \<Rightarrow> Mshr res" where
  "cleanup_mshr 0 m = (if 8 < length m then Inl NonTermination else Inr m)"
| "cleanup_mshr (Suc n) m = (if 8 < length m then cleanup_mshr n (filter (\<lambda>x. fst x \<noteq> mshr_oldest m) m) else Inr m)"

definition cleanupMshr :: "cntlr_ptr \<Rightarrow> MemSys \<Rightarrow> MemSys res" where
  "cleanupMshr c sys =
     (let m = master_of sys c in
      bindE (cleanup_mshr (length (mshr m)) (mshr m)) (\<lambda>ms. Inr (put_master c (m\<lparr>mshr := ms\<rparr>) sys)))"

definition set_mshr :: "cntlr_ptr \<Rightarrow> IntPtr \<Rightarrow> MshrEntry \<Rightarrow> MemSys \<Rightarrow> MemSys" where
  "set_mshr c a e sys = put_master c ((master_of sys c)\<lparr>mshr := mshr_put a e (mshr (master_of sys c))\<rparr>) sys"

text \<open>When the miss of the line completes, if it is in progress at a time.\<close>

definition mshr_completion :: "MemSys \<Rightarrow> cntlr_ptr \<Rightarrow> IntPtr \<Rightarrow> SubsecondTime \<Rightarrow> SubsecondTime option" where
  "mshr_completion sys c a t_now =
     (case map_of (mshr (master_of sys c)) a of
        Some e \<Rightarrow> if t_issue e < t_now \<and> t_complete e > t_now then Some (t_complete e) else None
      | None \<Rightarrow> None)"

section \<open>Statistics\<close>

definition count_op :: "mem_op_t \<Rightarrow> bool \<Rightarrow> cstate_t \<Rightarrow> bool \<Rightarrow> CntlrStats \<Rightarrow> CntlrStats" where
  "count_op mem_op_type cache_hit state overlapping s =
     (if mem_op_type = WRITE
      then let s = s\<lparr>stores := stores s + 1, stores_state := (stores_state s)(state := stores_state s state + 1)\<rparr>
           in if \<not> cache_hit \<or> overlapping
              then let s = s\<lparr>store_misses := store_misses s + 1, store_misses_state := (store_misses_state s)(state := store_misses_state s state + 1)\<rparr>
                   in if overlapping then s\<lparr>store_overlapping_misses := store_overlapping_misses s + 1\<rparr> else s
              else s
      else let s = s\<lparr>loads := loads s + 1, loads_state := (loads_state s)(state := loads_state s state + 1)\<rparr>
           in if \<not> cache_hit
              then let s = s\<lparr>load_misses := load_misses s + 1, load_misses_state := (load_misses_state s)(state := load_misses_state s state + 1)\<rparr>
                   in if overlapping then s\<lparr>load_overlapping_misses := load_overlapping_misses s + 1\<rparr> else s
              else s)"

definition cc_updateCounters :: "cntlr_ptr \<Rightarrow> mem_op_t \<Rightarrow> IntPtr \<Rightarrow> bool \<Rightarrow> cstate_t \<Rightarrow> MemSys \<Rightarrow> MemSys res" where
  "cc_updateCounters c mem_op_type address cache_hit state sys =
     cleanupMshr c (count_stats c (count_op mem_op_type cache_hit state (mshr_completion sys c address (user_time sys c) \<noteq> None)) sys)"

text \<open>\<^verbatim>\<open>getCache()->updateCounters\<close>, then the counters of the controller.\<close>

definition count_access :: "cntlr_ptr \<Rightarrow> mem_op_t \<Rightarrow> IntPtr \<Rightarrow> bool \<Rightarrow> cstate_t \<Rightarrow> MemSys \<Rightarrow> MemSys res" where
  "count_access c mem_op_type address cache_hit state sys =
     cc_updateCounters c mem_op_type address cache_hit state (put_cache c (updateCounters (m_cache (master_of sys c)) cache_hit) sys)"

fun cc_updateHits :: "nat \<Rightarrow> cntlr_ptr \<Rightarrow> mem_op_t \<Rightarrow> MemSys \<Rightarrow> MemSys res" where
  "cc_updateHits 0 c mem_op_type sys = Inr sys"
| "cc_updateHits (Suc hits) c mem_op_type sys =
     bindE (count_access c mem_op_type 0 True (if mem_op_type = READ then SHARED else MODIFIED) sys) (cc_updateHits hits c mem_op_type)"

section \<open>Requests to the directory\<close>

text \<open>A message to the home of the address, on behalf of the master of the cache.\<close>

definition request_home :: "msg_t \<Rightarrow> cntlr_ptr \<Rightarrow> IntPtr \<Rightarrow> MemSys \<Rightarrow> MemSys res" where
  "request_home ty c address sys =
     bindE (getHome (m_tag_directory_home_lookup sys) address)
     (\<lambda>home. Inr (sendToDirectory ty (m_core_id_master (cntlrs sys c)) home address None sys))"

definition processExReqToDirectory :: "cntlr_ptr \<Rightarrow> IntPtr \<Rightarrow> MemSys \<Rightarrow> MemSys res" where
  "processExReqToDirectory c address sys =
     bindE (getCacheState sys c address)
     (\<lambda>cstate. bindE (assertE (cstate \<noteq> SHARED) (AssertError ''ExReq for a Cacheblock in S, should be a UpgradeReq''))
     (\<lambda>_. bindE (assertE (cstate = INVALID) (AssertError ''cstate == CacheState::INVALID''))
     (\<lambda>_. request_home EX_REQ c address sys)))"

definition processUpgradeReqToDirectory :: "cntlr_ptr \<Rightarrow> IntPtr \<Rightarrow> MemSys \<Rightarrow> MemSys res" where
  "processUpgradeReqToDirectory c address sys =
     bindE (getCacheState sys c address)
     (\<lambda>cstate. bindE (assertE (cstate = SHARED) (AssertError ''cstate == CacheState::SHARED''))
     (\<lambda>_. bindE (setCacheState c address SHARED_UPGRADING sys)
     (\<lambda>sys. request_home UPGRADE_REQ c address sys)))"

definition processShReqToDirectory :: "cntlr_ptr \<Rightarrow> IntPtr \<Rightarrow> MemSys \<Rightarrow> MemSys res" where
  "processShReqToDirectory c address sys = request_home SH_REQ c address sys"

definition add_waiter :: "cntlr_ptr \<Rightarrow> IntPtr \<Rightarrow> CacheDirectoryWaiter \<Rightarrow> MemSys \<Rightarrow> MemSys" where
  "add_waiter c address w sys =
     put_master c ((master_of sys c)\<lparr>m_directory_waiters := rq_enqueue (m_directory_waiters (master_of sys c)) address w\<rparr>) sys"

definition initiateDirectoryAccess :: "cntlr_ptr \<Rightarrow> mem_op_t \<Rightarrow> IntPtr \<Rightarrow> SubsecondTime \<Rightarrow> MemSys \<Rightarrow> MemSys res" where
  "initiateDirectoryAccess c mem_op_type address issue sys =
     (let exclusive = (mem_op_type \<noteq> READ);
          sys = add_waiter c address \<lparr>exclusive = exclusive, waiter_cntlr = c, w_t_issue = issue\<rparr> sys
      in if rq_size (m_directory_waiters (master_of sys c)) address = 1
         then if exclusive
              then bindE (getCacheState sys c address)
                   (\<lambda>cstate. if cstate = SHARED then processUpgradeReqToDirectory c address sys else processExReqToDirectory c address sys)
              else processShReqToDirectory c address sys
         else Inr sys)"

section \<open>Copies from the next level\<close>

text \<open>The changes of the copies in the other previous-level caches, and the time they take.\<close>

definition snoop :: "nat \<Rightarrow> cntlr_ptr \<Rightarrow> cntlr_ptr \<Rightarrow> IntPtr \<Rightarrow> cstate_t \<Rightarrow> reason_t \<Rightarrow> MemSys \<Rightarrow> (bool \<times> MemSys) res" where
  "snoop lv c requester address cstate reason sys =
     bindE (update_prevs
              (\<lambda>p sys. map_sum id (\<lambda>(t, hit, _, sys). (t, hit, sys)) (updateCacheBlock lv p address cstate reason False sys))
              (filter (\<lambda>p. p \<noteq> requester) (m_prev_cache_cntlrs (master_of sys c))) (0, False) sys)
     (\<lambda>(latency, sibling_hit, sys). bindE (cc_incrElapsedTime c latency USER_THREAD sys)
     (\<lambda>sys. Inr (sibling_hit, count_stats c (\<lambda>s. s\<lparr>snoop_latency := snoop_latency s + latency\<rparr>) sys)))"

text \<open>The contention on the way from the next level.\<close>

definition read_bandwidth :: "cntlr_ptr \<Rightarrow> SubsecondTime \<Rightarrow> MemSys \<Rightarrow> MemSys res" where
  "read_bandwidth c t_now sys =
     (let k = cntlrs sys c; m = master_of sys c in
      if isInfinite (m_next_level_read_bandwidth k) then Inr sys
      else bindE (bpc_getRoundedLatency (sys_periods sys) (m_next_level_read_bandwidth k) (ucast (m_cache_block_size k * 8)))
           (\<lambda>delay. let (t_done, cm) = getCompletionTime t_now delay 0 (mm_next_level_read_bandwidth m);
                        sys = put_master c (m\<lparr>mm_next_level_read_bandwidth := cm\<rparr>) sys
                    in bindE (assertE (t_done \<ge> t_now + delay) (AssertError ''Did not expect next-level cache to be this fast''))
                       (\<lambda>_. cc_incrElapsedTime c (t_done - t_now - delay) USER_THREAD sys)))"

definition copyDataFromNextLevel :: "nat \<Rightarrow> cntlr_ptr \<Rightarrow> mem_op_t \<Rightarrow> IntPtr \<Rightarrow> bool \<Rightarrow> SubsecondTime \<Rightarrow> MemSys \<Rightarrow> MemSys res" where
  "copyDataFromNextLevel lv c mem_op_type address modeled t_now sys =
     (case m_next_cache_cntlr (cntlrs sys c) of
        None \<Rightarrow> Inl NullPointer
      | Some n \<Rightarrow>
          bindE (operationPermissibleinCache sys n address mem_op_type)
          (\<lambda>ok. bindE (assertE ok (AssertError ''Tried to read from next-level cache, but data is already gone''))
          (\<lambda>_. bindE (retrieveCacheBlock n address False sys)
          (\<lambda>(data, sys). bindE (getCacheState sys n address)
          (\<lambda>cstate. bindE (if modeled then read_bandwidth c t_now sys else Inr sys)
          (\<lambda>sys. bindE (getCacheBlockInfo sys c address)
          (\<lambda>block. if block \<noteq> None
                   then bindE (updateCacheBlock lv c address cstate UPGRADE False sys) (\<lambda>(_, _, _, sys). Inr sys)
                   else insertCacheBlock lv c address cstate (Some data) USER_THREAD sys)))))))"

section \<open>A request from the previous level\<close>

text \<open>
  What the level finds: whether it is a hit, whether it was one at first, and whether it has the line. A perfect cache
  always hits; one that lets everything pass never does, but for the fill of the first level.
\<close>

definition lookup_level :: "nat \<Rightarrow> cntlr_ptr \<Rightarrow> mem_op_t \<Rightarrow> IntPtr \<Rightarrow> bool \<Rightarrow> MemSys \<Rightarrow> (bool \<times> bool \<times> bool \<times> MemSys) res" where
  "lookup_level lv c mem_op_type address count sys =
     bindE (operationPermissibleinCache sys c address mem_op_type)
     (\<lambda>cache_hit. bindE (getCacheBlockInfo sys c address)
     (\<lambda>block.
        if \<not> cache_hit \<and> m_perfect (cntlrs sys c)
        then bindE (if block \<noteq> None then setCacheState c address MODIFIED sys
                    else insertCacheBlock lv c address (if mem_op_type = READ then SHARED else MODIFIED) None USER_THREAD sys)
             (\<lambda>sys. Inr (True, False, True, sys))
        else if cache_hit \<and> m_passthrough (cntlrs sys c) \<and> count
        then bindE (cc_change_block invalidateBlock c address sys)
             (\<lambda>sys. bindE (assertE (m_next_cache_cntlr (cntlrs sys c) \<noteq> None) (AssertError ''Cannot do passthrough on an LLC''))
             (\<lambda>_. Inr (False, False, False, sys)))
        else Inr (cache_hit, cache_hit, block \<noteq> None, sys)))"

text \<open>The marks of prefetched and of warmed-up lines are cleared on a hit.\<close>

definition clear_marks :: "cntlr_ptr \<Rightarrow> IntPtr \<Rightarrow> CacheBlockInfo \<Rightarrow> MemSys \<Rightarrow> MemSys res" where
  "clear_marks c address b sys =
     bindE (if hasOption b PREFETCH
            then cc_change_block (\<lambda>b. clearOption b PREFETCH) c address (count_stats c (\<lambda>s. s\<lparr>hits_prefetch := hits_prefetch s + 1\<rparr>) sys)
            else Inr sys)
     (\<lambda>sys. if hasOption b WARMUP \<and> \<not> cache_only_mode sys
            then cc_change_block (\<lambda>b. clearOption b WARMUP) c address (count_stats c (\<lambda>s. s\<lparr>hits_warmup := hits_warmup s + 1\<rparr>) sys)
            else Inr sys)"

text \<open>A line whose miss is in progress is ready when the miss completes.\<close>

definition wait_mshr :: "cntlr_ptr \<Rightarrow> SubsecondTime \<Rightarrow> MemSys \<Rightarrow> MemSys res" where
  "wait_mshr c t_done sys =
     (let latency = t_done - user_time sys c
      in cc_incrElapsedTime c latency USER_THREAD (count_stats c (\<lambda>s. s\<lparr>mshr_latency := mshr_latency s + latency\<rparr>) sys))"

definition hit_time :: "cntlr_ptr \<Rightarrow> IntPtr \<Rightarrow> bool \<Rightarrow> MemSys \<Rightarrow> MemSys res" where
  "hit_time c address modeled sys =
     (if modeled
      then case mshr_completion sys c address (user_time sys c) of
             Some t \<Rightarrow> wait_mshr c t sys
           | None \<Rightarrow> cc_accessTime c ACCESS_CACHE_DATA_AND_TAGS USER_THREAD sys
      else Inr sys)"

text \<open>A write invalidates the other copies; a read of a line that may have been written makes them shared.\<close>

definition hit_snoop :: "nat \<Rightarrow> cntlr_ptr \<Rightarrow> cntlr_ptr \<Rightarrow> mem_op_t \<Rightarrow> IntPtr \<Rightarrow> cstate_t \<Rightarrow> MemSys \<Rightarrow> (bool \<times> MemSys) res" where
  "hit_snoop lv c requester mem_op_type address cstate sys =
     (if mem_op_type \<noteq> READ then snoop lv c requester address INVALID COHERENCY sys
      else if cstate = MODIFIED \<or> cstate = EXCLUSIVE then snoop lv c requester address SHARED COHERENCY sys
      else Inr (False, sys))"

text \<open>Where the data comes from; a reply of the directory has left its source in \<^verbatim>\<open>m_last_remote_hit_where\<close>.\<close>

definition take_source :: "cntlr_ptr \<Rightarrow> bool \<Rightarrow> MemSys \<Rightarrow> hit_where_t \<times> MemSys" where
  "take_source c sibling_hit sys =
     (let k = cntlrs sys c in
      if m_last_remote_hit_where k \<noteq> W_UNKNOWN
      then (HIT_REMOTE (m_last_remote_hit_where k), put_cntlr c (k\<lparr>m_last_remote_hit_where := W_UNKNOWN\<rparr>) sys)
      else (if sibling_hit then HIT_SIBLING (m_mem_component k) else HIT_AT (m_mem_component k), sys))"

definition serve_hit ::
  "nat \<Rightarrow> cntlr_ptr \<Rightarrow> cntlr_ptr \<Rightarrow> mem_op_t \<Rightarrow> IntPtr \<Rightarrow> bool \<Rightarrow> MemSys \<Rightarrow> (hit_where_t \<times> MemSys) res" where
  "serve_hit lv c requester mem_op_type address modeled sys =
     bindE (getCacheBlockInfo sys c address)
     (\<lambda>block. case block of None \<Rightarrow> Inl NullPointer | Some b \<Rightarrow>
        bindE (clear_marks c address b sys)
        (\<lambda>sys. bindE (hit_time c address modeled sys)
        (\<lambda>sys. bindE (hit_snoop lv c requester mem_op_type address (m_cstate b) sys)
        (\<lambda>(sibling_hit, sys). Inr (take_source c sibling_hit sys)))))"

text \<open>
  A miss. The next level is asked by the argument \<open>next_level\<close>; the last level turns an exclusive line into a modified one
  and otherwise asks the directory.
\<close>

definition miss_upgrade :: "nat \<Rightarrow> cntlr_ptr \<Rightarrow> cntlr_ptr \<Rightarrow> IntPtr \<Rightarrow> bool \<Rightarrow> MemSys \<Rightarrow> MemSys res" where
  "miss_upgrade lv c requester address shared sys =
     (if shared then bindE (snoop lv c requester address INVALID UPGRADE sys) (\<lambda>(_, sys). Inr sys) else Inr sys)"

definition miss_next ::
  "nat \<Rightarrow> (MemSys \<Rightarrow> (hit_where_t \<times> MemSys) res) \<Rightarrow> cntlr_ptr \<Rightarrow> mem_op_t \<Rightarrow> IntPtr \<Rightarrow> bool \<Rightarrow> bool \<Rightarrow> MemSys
     \<Rightarrow> (bool \<times> hit_where_t \<times> MemSys) res" where
  "miss_next lv next_level c mem_op_type address modeled present sys =
     bindE (if present then invalidateCacheBlock c address sys else Inr sys)
     (\<lambda>sys. bindE (next_level sys)
     (\<lambda>(hit_where, sys).
        if hit_where \<noteq> MISS
        then bindE (copyDataFromNextLevel lv c mem_op_type address modeled (user_time sys c) sys) (\<lambda>sys. Inr (True, hit_where, sys))
        else Inr (False, MISS, sys)))"

definition miss_last ::
  "nat \<Rightarrow> cntlr_ptr \<Rightarrow> cntlr_ptr \<Rightarrow> mem_op_t \<Rightarrow> IntPtr \<Rightarrow> bool \<Rightarrow> SubsecondTime \<Rightarrow> MemSys \<Rightarrow> (bool \<times> hit_where_t \<times> MemSys) res" where
  "miss_last lv c requester mem_op_type address have_exclusive issue sys =
     (if have_exclusive
      then bindE (snoop lv c requester address INVALID UPGRADE sys)
           (\<lambda>(_, sys). bindE (setCacheState c address MODIFIED sys)
           (\<lambda>sys. Inr (True, HIT_AT (m_mem_component (cntlrs sys c)), sys)))
      else bindE (initiateDirectoryAccess c mem_op_type address issue sys) (\<lambda>sys. Inr (False, MISS, sys)))"

definition serve_miss ::
  "nat \<Rightarrow> (cntlr_ptr \<Rightarrow> MemSys \<Rightarrow> (hit_where_t \<times> MemSys) res) \<Rightarrow> cntlr_ptr \<Rightarrow> cntlr_ptr \<Rightarrow> mem_op_t \<Rightarrow> IntPtr \<Rightarrow> bool \<Rightarrow> bool
     \<Rightarrow> SubsecondTime \<Rightarrow> MemSys \<Rightarrow> (bool \<times> hit_where_t \<times> MemSys) res" where
  "serve_miss lv next_level c requester mem_op_type address modeled present issue sys =
     bindE (if modeled then cc_accessTime c ACCESS_CACHE_TAGS USER_THREAD sys else Inr sys)
     (\<lambda>sys. bindE (getCacheState sys c address)
     (\<lambda>cstate. bindE (miss_upgrade lv c requester address (present \<and> cstate = SHARED) sys)
     (\<lambda>sys. case m_next_cache_cntlr (cntlrs sys c) of
        Some n \<Rightarrow> miss_next lv (next_level n) c mem_op_type address modeled present sys
      | None \<Rightarrow> miss_last lv c requester mem_op_type address (present \<and> cstate = EXCLUSIVE) issue sys)))"

text \<open>After a hit at this level or below: the line is read and the end of the miss is noted.\<close>

definition finish_hit :: "cntlr_ptr \<Rightarrow> IntPtr \<Rightarrow> bool \<Rightarrow> bool \<Rightarrow> bool \<Rightarrow> SubsecondTime \<Rightarrow> MemSys \<Rightarrow> MemSys res" where
  "finish_hit c address modeled count first issue sys =
     bindE (retrieveCacheBlock c address (first \<and> count) sys)
     (\<lambda>(_, sys). if modeled \<and> \<not> first \<and> \<not> m_passthrough (cntlrs sys c)
                 then cleanupMshr c (set_mshr c address (make_mshr issue (user_time sys c)) sys)
                 else Inr sys)"

fun processShmemReqFromPrevCache ::
  "nat \<Rightarrow> nat \<Rightarrow> cntlr_ptr \<Rightarrow> cntlr_ptr \<Rightarrow> mem_op_t \<Rightarrow> IntPtr \<Rightarrow> bool \<Rightarrow> bool \<Rightarrow> SubsecondTime \<Rightarrow> MemSys \<Rightarrow> (hit_where_t \<times> MemSys) res" where
  "processShmemReqFromPrevCache lv 0 c requester mem_op_type address modeled count issue sys = Inl NonTermination"
| "processShmemReqFromPrevCache lv (Suc fuel) c requester mem_op_type address modeled count issue sys =
     bindE (lookup_level lv c mem_op_type address count sys)
     (\<lambda>(cache_hit, first_hit, present, sys). bindE (getCacheState sys c address)
     (\<lambda>cstate. bindE (if count then count_access c mem_op_type address cache_hit cstate sys else Inr sys)
     (\<lambda>sys. bindE (if cache_hit
                   then bindE (serve_hit lv c requester mem_op_type address modeled sys) (\<lambda>(hit_where, sys). Inr (True, hit_where, sys))
                   else serve_miss lv (\<lambda>n. processShmemReqFromPrevCache lv fuel n c mem_op_type address modeled count issue)
                          c requester mem_op_type address modeled present issue sys)
     (\<lambda>(cache_hit, hit_where, sys).
        if cache_hit then bindE (finish_hit c address modeled count first_hit issue sys) (\<lambda>sys. Inr (hit_where, sys))
        else Inr (hit_where, sys)))))"

section \<open>A request of the core\<close>

definition accessCache ::
  "nat \<Rightarrow> cntlr_ptr \<Rightarrow> mem_op_t \<Rightarrow> IntPtr \<Rightarrow> UInt32 \<Rightarrow> Byte list option \<Rightarrow> UInt32 \<Rightarrow> bool \<Rightarrow> MemSys \<Rightarrow> (Byte list option \<times> MemSys) res" where
  "accessCache lv c mem_op_type ca_address offset data_buf data_length update_replacement sys =
     bindE (accessSingleLine (m_cache (master_of sys c)) (ca_address + ucast offset) (if mem_op_type = WRITE then STORE else LOAD)
              data_buf data_length update_replacement)
     (\<lambda>(_, out, cache). let sys = put_cache c cache sys in
        if mem_op_type = WRITE \<and> m_cache_writethrough (cntlrs sys c)
        then case m_next_cache_cntlr (cntlrs sys c) of
               None \<Rightarrow> Inl (AssertError ''Writethrough enabled on last-level cache !?'')
             | Some n \<Rightarrow> bindE (writeCacheBlock lv n ca_address offset data_buf data_length sys) (\<lambda>sys. Inr (out, sys))
        else Inr (out, sys))"

text \<open>The lookup in the first level: whether it is a hit, and the state of the line that is counted.\<close>

definition lookup_first :: "nat \<Rightarrow> cntlr_ptr \<Rightarrow> mem_op_t \<Rightarrow> IntPtr \<Rightarrow> MemSys \<Rightarrow> (bool \<times> cstate_t \<times> MemSys) res" where
  "lookup_first lv c mem_op_type ca_address sys =
     bindE (operationPermissibleinCache sys c ca_address mem_op_type)
     (\<lambda>cache_hit. bindE (getCacheBlockInfo sys c ca_address)
     (\<lambda>block.
        if \<not> cache_hit \<and> m_perfect (cntlrs sys c)
        then bindE (if block \<noteq> None then setCacheState c ca_address MODIFIED sys
                    else insertCacheBlock lv c ca_address (if mem_op_type = READ then SHARED else MODIFIED) None USER_THREAD sys)
             (\<lambda>sys. bindE (getCacheState sys c ca_address) (\<lambda>cstate. Inr (True, cstate, sys)))
        else if cache_hit \<and> m_passthrough (cntlrs sys c)
        then bindE (cc_change_block invalidateBlock c ca_address sys) (\<lambda>sys. Inr (False, INVALID, sys))
        else Inr (cache_hit, block_state block, sys)))"

text \<open>A hit in the first level may have to wait for a miss of the same line that is in progress.\<close>

definition wait_l1_mshr :: "cntlr_ptr \<Rightarrow> mem_op_t \<Rightarrow> IntPtr \<Rightarrow> bool \<Rightarrow> MemSys \<Rightarrow> MemSys res" where
  "wait_l1_mshr c mem_op_type ca_address modeled sys =
     (let t_now = user_time sys c; t_completed = getTagCompletionTime (mm_l1_mshr (master_of sys c)) ca_address in
      if modeled \<and> m_l1_mshr (cntlrs sys c) \<and> t_completed \<noteq> MaxTime \<and> t_completed > t_now
      then cc_incrElapsedTime c (t_completed - t_now) USER_THREAD
             (count_stats c (\<lambda>s. if mem_op_type = WRITE then s\<lparr>store_overlapping_misses := store_overlapping_misses s + 1\<rparr>
                                 else s\<lparr>load_overlapping_misses := load_overlapping_misses s + 1\<rparr>) sys)
      else Inr sys)"

definition first_hit :: "cntlr_ptr \<Rightarrow> mem_op_t \<Rightarrow> IntPtr \<Rightarrow> bool \<Rightarrow> MemSys \<Rightarrow> MemSys res" where
  "first_hit c mem_op_type ca_address modeled sys =
     bindE (cc_accessTime c ACCESS_CACHE_DATA_AND_TAGS USER_THREAD sys)
     (\<lambda>sys. bindE (getCacheBlockInfo sys c ca_address)
     (\<lambda>block. case block of None \<Rightarrow> Inl NullPointer | Some b \<Rightarrow>
        bindE (clear_marks c ca_address b sys)
        (\<lambda>sys. bindE (wait_l1_mshr c mem_op_type ca_address modeled sys)
        (\<lambda>sys. if modeled
               then case mshr_completion sys c ca_address (user_time sys c) of Some t \<Rightarrow> wait_mshr c t sys | None \<Rightarrow> Inr sys
               else Inr sys))))"

text \<open>A miss in the first level waits until it can be entered into the table of misses.\<close>

definition enter_mshr :: "cntlr_ptr \<Rightarrow> bool \<Rightarrow> MemSys \<Rightarrow> (SubsecondTime \<times> MemSys) res" where
  "enter_mshr c modeled sys =
     (let t_miss_begin = user_time sys c in
      if modeled \<and> m_l1_mshr (cntlrs sys c) \<and> \<not> m_passthrough (cntlrs sys c)
      then let t_mshr_avail = getStartTime t_miss_begin (mm_l1_mshr (master_of sys c)) in
           bindE (assertE (t_mshr_avail \<ge> t_miss_begin) (AssertError ''t_mshr_avail < t_miss_begin''))
           (\<lambda>_. let latency = t_mshr_avail - t_miss_begin in
                bindE (cc_incrElapsedTime c latency USER_THREAD sys)
                (\<lambda>sys. Inr (t_mshr_avail, count_stats c (\<lambda>s. s\<lparr>mshr_latency := mshr_latency s + latency\<rparr>) sys)))
      else Inr (t_miss_begin, sys))"

text \<open>The end of a miss: the data is in the next level.\<close>

definition fill_first :: "nat \<Rightarrow> PendingOp \<Rightarrow> MemSys \<Rightarrow> MemSys res" where
  "fill_first lv po sys =
     (let c = po_cntlr po; a = po_address po in
      bindE (copyDataFromNextLevel lv c (po_mem_op_type po) a (po_modeled po) (user_time sys c) sys)
      (\<lambda>sys. bindE (operationPermissibleinCache sys c a (po_mem_op_type po))
      (\<lambda>ok. bindE (assertE ok (AssertError ''Expected %x to be valid in L1''))
      (\<lambda>_. if po_modeled po \<and> m_l1_mshr (cntlrs sys c) \<and> \<not> m_passthrough (cntlrs sys c)
           then let m = master_of sys c;
                    (_, cm) = getCompletionTime (po_t_miss_begin po) (user_time sys c - po_t_mshr_avail po) a (mm_l1_mshr m)
                in Inr (put_master c (m\<lparr>mm_l1_mshr := cm\<rparr>) sys)
           else Inr sys))))"

text \<open>The access itself and the statistics, common to hits and misses.\<close>

definition finish_op :: "nat \<Rightarrow> PendingOp \<Rightarrow> bool \<Rightarrow> hit_where_t \<Rightarrow> MemSys \<Rightarrow> (Byte list option \<times> MemSys) res" where
  "finish_op lv po cache_hit hit_where sys =
     (let c = po_cntlr po in
      bindE (accessCache lv c (po_mem_op_type po) (po_address po) (po_offset po) (po_data_buf po) (po_data_length po)
               (hit_where = HIT_AT (m_mem_component (cntlrs sys c)) \<and> po_count po) sys)
      (\<lambda>(out, sys). let latency = user_time sys c - po_t_start po in
         Inr (out, count_stats c (\<lambda>s.
           let s = (if \<not> cache_hit \<and> po_count po then s\<lparr>total_latency := total_latency s + latency\<rparr> else s)
           in if po_mem_op_type po = WRITE then s\<lparr>stores_where := (stores_where s)(hit_where := stores_where s hit_where + 1)\<rparr>
              else s\<lparr>loads_where := (loads_where s)(hit_where := loads_where s hit_where + 1)\<rparr>) sys)))"

text \<open>The request to the next level, up to the point where the core waits.\<close>

definition ask_next :: "nat \<Rightarrow> nat \<Rightarrow> PendingOp \<Rightarrow> MemSys \<Rightarrow> (hit_where_t \<times> MemSys) res" where
  "ask_next lv fuel po sys =
     bindE (getCacheState sys (po_cntlr po) (po_address po))
     (\<lambda>cstate. bindE (if cstate \<noteq> INVALID then invalidateCacheBlock (po_cntlr po) (po_address po) sys else Inr sys)
     (\<lambda>sys. case m_next_cache_cntlr (cntlrs sys (po_cntlr po)) of
        None \<Rightarrow> Inl NullPointer
      | Some n \<Rightarrow> processShmemReqFromPrevCache lv fuel n (po_cntlr po) (po_mem_op_type po) (po_address po) (po_modeled po) (po_count po)
                    (po_t_start po) sys))"

text \<open>The result of an operation: where it hit and the bytes read, or nothing yet when the core waits for the directory.\<close>

definition miss_first ::
  "nat \<Rightarrow> nat \<Rightarrow> lock_signal_t \<Rightarrow> PendingOp \<Rightarrow> MemSys \<Rightarrow> ((hit_where_t \<times> Byte list option) option \<times> MemSys) res" where
  "miss_first lv fuel lock_signal po sys =
     (let c = po_cntlr po in
      bindE (if m_passthrough (cntlrs sys c) then Inr sys else cc_accessTime c ACCESS_CACHE_TAGS USER_THREAD sys)
      (\<lambda>sys. let po = po\<lparr>po_t_miss_begin := user_time sys c\<rparr> in
         bindE (enter_mshr c (po_modeled po) sys)
         (\<lambda>(t_mshr_avail, sys). let po = po\<lparr>po_t_mshr_avail := t_mshr_avail\<rparr> in
            bindE (assertE (lock_signal \<noteq> UNLOCK) (LogError ''Expected to find address(0x%x) in L1 Cache''))
            (\<lambda>_. bindE (ask_next lv fuel po sys)
            (\<lambda>(hit_where, sys).
               if hit_where \<noteq> MISS
               then bindE (fill_first lv po sys)
                    (\<lambda>sys. bindE (finish_op lv po False hit_where sys) (\<lambda>(out, sys). Inr (Some (hit_where, out), sys)))
               else Inr (None, sys\<lparr>mem_pending := (mem_pending sys)(cc_core_id (cntlrs sys c) \<mapsto> po)\<rparr>))))))"

definition processMemOpFromCore ::
  "nat \<Rightarrow> nat \<Rightarrow> cntlr_ptr \<Rightarrow> lock_signal_t \<Rightarrow> mem_op_t \<Rightarrow> IntPtr \<Rightarrow> UInt32 \<Rightarrow> Byte list option \<Rightarrow> UInt32 \<Rightarrow> bool \<Rightarrow> bool \<Rightarrow> MemSys
     \<Rightarrow> ((hit_where_t \<times> Byte list option) option \<times> MemSys) res" where
  "processMemOpFromCore lv fuel c lock_signal mem_op_type ca_address offset data_buf data_length modeled count sys =
     bindE (assertE (ca_address AND ucast (m_cache_block_size (cntlrs sys c) - 1) = 0) (AssertError ''address at cache line + %x''))
     (\<lambda>_. bindE (assertE (offset + data_length \<le> m_cache_block_size (cntlrs sys c)) (AssertError ''access until %u > %u''))
     (\<lambda>_. let po = \<lparr>po_cntlr = c, po_mem_op_type = mem_op_type, po_address = ca_address, po_offset = offset, po_data_buf = data_buf,
                    po_data_length = data_length, po_modeled = modeled, po_count = count, po_t_start = user_time sys c,
                    po_t_miss_begin = 0, po_t_mshr_avail = 0\<rparr> in
        bindE (lookup_first lv c mem_op_type ca_address sys)
        (\<lambda>(cache_hit, cstate, sys). bindE (if count then count_access c mem_op_type ca_address cache_hit cstate sys else Inr sys)
        (\<lambda>sys.
           if cache_hit
           then bindE (first_hit c mem_op_type ca_address modeled sys)
                (\<lambda>sys. let hit_where = HIT_AT (m_mem_component (cntlrs sys c)) in
                   bindE (finish_op lv po True hit_where sys) (\<lambda>(out, sys). Inr (Some (hit_where, out), sys)))
           else miss_first lv fuel lock_signal po sys))))"

text \<open>The rest of an operation that has waited: the levels below the one that got the reply fill themselves.\<close>

definition resume_op :: "nat \<Rightarrow> nat \<Rightarrow> core_id_t \<Rightarrow> MemSys \<Rightarrow> MemSys res" where
  "resume_op lv fuel core sys =
     (case mem_pending sys core of
        None \<Rightarrow> Inl NonTermination
      | Some po \<Rightarrow>
          (case m_next_cache_cntlr (cntlrs sys (po_cntlr po)) of
             None \<Rightarrow> Inl NullPointer
           | Some n \<Rightarrow>
               bindE (processShmemReqFromPrevCache lv fuel n (po_cntlr po) (po_mem_op_type po) (po_address po) False False (po_t_start po)
                        (sys\<lparr>mem_pending := (mem_pending sys)(core := None)\<rparr>))
               (\<lambda>(hit_where, sys). bindE (assertE (hit_where \<noteq> MISS) (AssertError ''Tried to read in next-level cache, but data is already gone''))
               (\<lambda>_. bindE (fill_first lv po sys)
               (\<lambda>sys. bindE (finish_op lv po False hit_where sys)
               (\<lambda>(out, sys). Inr (sys\<lparr>mem_results := mem_results sys @ [(core, hit_where, out)]\<rparr>)))))))"

section \<open>Messages of the directory\<close>

text \<open>
  The cores that wait for the line are served one after the other; a core runs to the end of its operation before the network
  thread goes on, because it is handed the lock of the set. A core that is woken without an operation that waits would leave the
  network thread waiting for it.
\<close>

definition cc_updateUncoreStatistics :: "cntlr_ptr \<Rightarrow> where_t \<Rightarrow> MemSys \<Rightarrow> MemSys" where
  "cc_updateUncoreStatistics c hit_where sys = put_cntlr c ((cntlrs sys c)\<lparr>m_last_remote_hit_where := hit_where\<rparr>) sys"

text \<open>The clock of the core that waits is not behind that of the reply.\<close>

definition adjust_time :: "cntlr_ptr \<Rightarrow> cntlr_ptr \<Rightarrow> MemSys \<Rightarrow> MemSys" where
  "adjust_time c w sys =
     (let core = cc_core_id (cntlrs sys w); t_core = elapsed sys core USER_THREAD; t_here = elapsed sys (cc_core_id (cntlrs sys c)) SIM_THREAD
      in if t_here > t_core then sys\<lparr>elapsed := (elapsed sys)(core := (elapsed sys core)(USER_THREAD := t_here))\<rparr> else sys)"

definition serve_waiter :: "nat \<Rightarrow> nat \<Rightarrow> cntlr_ptr \<Rightarrow> ShmemMsg \<Rightarrow> CacheDirectoryWaiter \<Rightarrow> MemSys \<Rightarrow> MemSys res" where
  "serve_waiter lv fuel c msg request sys =
     (let address = msg_address msg; w = waiter_cntlr request
      in bindE (resume_op lv fuel (cc_core_id (cntlrs sys w)) (cc_updateUncoreStatistics w (m_where msg) (adjust_time c w sys)))
         (\<lambda>sys. bindE (cleanupMshr c (set_mshr w address (make_mshr (w_t_issue request) (elapsed sys (cc_core_id (cntlrs sys c)) SIM_THREAD)) sys))
         (\<lambda>sys. bindE (rq_dequeue (m_directory_waiters (master_of sys c)) address)
         (\<lambda>(_, q). Inr (put_master c ((master_of sys c)\<lparr>m_directory_waiters := q\<rparr>) sys)))))"

fun serve_waiters :: "nat \<Rightarrow> nat \<Rightarrow> nat \<Rightarrow> cntlr_ptr \<Rightarrow> ShmemMsg \<Rightarrow> MemSys \<Rightarrow> MemSys res" where
  "serve_waiters lv fuel n c msg sys =
     (if rq_empty (m_directory_waiters (master_of sys c)) (msg_address msg) then Inr sys
      else case n of
        0 \<Rightarrow> Inl NonTermination
      | Suc n \<Rightarrow>
          bindE (rq_front (m_directory_waiters (master_of sys c)) (msg_address msg))
          (\<lambda>request. bindE (getCacheState sys c (msg_address msg))
          (\<lambda>cstate.
             if exclusive request \<and> cstate = SHARED then processUpgradeReqToDirectory c (msg_address msg) sys
             else bindE (serve_waiter lv fuel c msg request sys) (serve_waiters lv fuel n c msg))))"

declare serve_waiters.simps [simp del]

definition process_reply :: "nat \<Rightarrow> cntlr_ptr \<Rightarrow> ShmemMsg \<Rightarrow> MemSys \<Rightarrow> MemSys res" where
  "process_reply lv c msg sys =
     (case m_msg_type msg of
        EX_REP \<Rightarrow> processExRepFromDramDirectory lv c msg sys
      | SH_REP \<Rightarrow> processShRepFromDramDirectory lv c msg sys
      | _ \<Rightarrow> processUpgradeRepFromDramDirectory lv c msg sys)"

definition handleMsgFromDramDirectory :: "nat \<Rightarrow> nat \<Rightarrow> cntlr_ptr \<Rightarrow> core_id_t \<Rightarrow> ShmemMsg \<Rightarrow> MemSys \<Rightarrow> MemSys res" where
  "handleMsgFromDramDirectory lv fuel c sender msg sys =
     (if m_msg_type msg \<in> {EX_REP, SH_REP, UPGRADE_REP}
      then bindE (rq_front (m_directory_waiters (master_of sys c)) (msg_address msg))
           (\<lambda>_. bindE (process_reply lv c msg sys)
           (\<lambda>sys. serve_waiters lv fuel (unat (rq_size (m_directory_waiters (master_of sys c)) (msg_address msg))) c msg sys))
      else if m_msg_type msg = INV_REQ then processInvReqFromDramDirectory lv c sender msg sys
      else if m_msg_type msg = FLUSH_REQ then processFlushReqFromDramDirectory lv c sender msg sys
      else if m_msg_type msg = WB_REQ then processWbReqFromDramDirectory lv c sender msg sys
      else Inl (LogError ''Unrecognized msg type: %u''))"

end
