(* ===== verification/LS_Waiters.thy ===== *)
theory LS_Waiters
  imports LS_Mem_Op LS_Flush
begin

text \<open>
  The cores that wait for a line: a reply of the directory serves them in the order in which they asked, and the entries of
  the misses in progress. What all operations of the cache controllers keep is proved once in the locale \<open>step_relation\<close>,
  for every relation that their elementary changes of the state keep.
\<close>

section \<open>Relations that every operation keeps\<close>

locale step_relation =
  fixes R :: "MemSys \<Rightarrow> MemSys \<Rightarrow> bool"
  assumes R_refl: "R sys sys" and R_trans: "R s1 s2 \<Longrightarrow> R s2 s3 \<Longrightarrow> R s1 s3"
    and R_cache: "R sys (put_cache c cache sys)" and R_stats: "R sys (count_stats c f sys)"
    and R_evict: "R sys (put_master c ((master_of sys c)\<lparr>m_evicting_address := a, m_evicting_buf := b\<rparr>) sys)"
    and R_mshr: "R sys (put_master c ((master_of sys c)\<lparr>mshr := ms\<rparr>) sys)"
    and R_l1_mshr: "R sys (put_master c ((master_of sys c)\<lparr>mm_l1_mshr := cm\<rparr>) sys)"
    and R_bandwidth: "R sys (put_master c ((master_of sys c)\<lparr>mm_next_level_read_bandwidth := cm\<rparr>) sys)"
    and R_where: "R sys (put_cntlr c ((cntlrs sys c)\<lparr>m_last_remote_hit_where := w\<rparr>) sys)"
    and R_time: "R sys (sys\<lparr>elapsed := e\<rparr>)" and R_sent: "R sys (sys\<lparr>mem_sent := ms'\<rparr>)"
begin

lemma incr_keeps: "cc_incrElapsedTime c l th sys = Inr sys' \<Longrightarrow> R sys sys'"
  by (auto simp: cc_incrElapsedTime_def Let_def bindE_Inr_iff intro: R_time)

lemma access_keeps: "cc_accessTime c acc th sys = Inr sys' \<Longrightarrow> R sys sys'"
  unfolding cc_accessTime_def by (rule incr_keeps)

lemma send_keeps: "R sys (sendToDirectory ty r v a d sys)"
  unfolding sendToDirectory_def by (rule R_sent)

lemma change_keeps: "cc_change_block f c a sys = Inr sys' \<Longrightarrow> R sys sys'"
  by (auto simp: cc_change_block_def bindE_Inr_iff intro: R_cache)

lemma set_keeps: "setCacheState c a st sys = Inr sys' \<Longrightarrow> R sys sys'"
  unfolding setCacheState_def by (rule change_keeps)

lemma invalidate_keeps: "invalidateCacheBlock c a sys = Inr sys' \<Longrightarrow> R sys sys'"
  by (auto simp: invalidateCacheBlock_def bindE_Inr_iff intro: R_cache)

lemma retrieve_keeps: "retrieveCacheBlock c a u sys = Inr (d, sys') \<Longrightarrow> R sys sys'"
  by (auto simp: retrieveCacheBlock_def bindE_Inr_iff intro: R_cache)

lemma write_own_keeps: "write_own_block c a off buf n sys = Inr sys' \<Longrightarrow> R sys sys'"
  using R_evict [where sys = sys and c = c and a = "m_evicting_address (master_of sys c)"]
  by (auto simp: write_own_block_def Let_def bindE_Inr_iff intro: R_cache R_refl split: if_splits option.splits)

lemma write_keeps: "writeCacheBlock fuel c a off buf n sys = Inr sys' \<Longrightarrow> R sys sys'"
proof (induction fuel arbitrary: c sys)
  case (Suc fuel)
  then obtain s1 where "write_own_block c a off buf n sys = Inr s1" "s1 = sys' \<or> (\<exists>d. writeCacheBlock fuel d a off buf n s1 = Inr sys')"
    by (auto simp: bindE_Inr_iff split: if_splits option.splits)
  then show ?case using write_own_keeps Suc.IH R_trans by blast
qed simp

lemma write_back_keeps: "write_back fuel c a want sys = Inr (out, wb, sys') \<Longrightarrow> R sys sys'"
  by (auto simp: write_back_def Let_def bindE_Inr_iff split: if_splits option.splits
      dest!: retrieve_keeps write_keeps set_keeps intro: R_trans)

lemma settle_keeps: "settle_block c a new_cstate want (o1, w1, sys) = Inr (out, wb, sys') \<Longrightarrow> R sys sys'"
  by (auto simp: settle_block_def bindE_Inr_iff split: if_splits dest!: retrieve_keeps invalidate_keeps set_keeps intro: R_trans R_refl)

lemma update_own_keeps:
  assumes "update_own_block fuel c a new_cstate reason want b sys = Inr (out, wb, sys')"
  shows "R sys sys'"
proof (cases "new_cstate = m_cstate b \<and> want")
  case True
  then show ?thesis using assms by (auto simp: update_own_block_def bindE_Inr_iff dest: retrieve_keeps)
next
  case False
  let ?s = "count_stats c (count_update reason new_cstate b) sys"
  from False obtain o1 w1 s1 where "(if m_cstate b = MODIFIED then write_back fuel c a want ?s else Inr (None, False, ?s)) = Inr (o1, w1, s1)"
    "settle_block c a new_cstate want (o1, w1, s1) = Inr (out, wb, sys')"
    using assms unfolding update_own_block_def Let_def by (auto simp: bindE_Inr_iff)
  then have "R ?s s1" "R s1 sys'" using write_back_keeps settle_keeps R_refl by (auto split: if_splits)
  then show ?thesis using R_stats R_trans by blast
qed

lemma update_level_keeps: "update_level fuel c a new_cstate reason want h sys = Inr (t, hit, out, sys') \<Longrightarrow> R sys sys'"
  by (auto simp: update_level_def bindE_Inr_iff split: option.splits dest!: update_own_keeps intro: R_refl)

lemma update_prevs_keeps:
  assumes "\<And>p s t h s'. f p s = Inr (t, h, s') \<Longrightarrow> R s s'"
  shows "update_prevs f ps acc sys = Inr (t, h, sys') \<Longrightarrow> R sys sys'"
proof (induction ps arbitrary: acc sys)
  case (Cons p ps)
  then obtain t1 h1 s1 where "f p sys = Inr (t1, h1, s1)" "update_prevs f ps (max (fst acc) t1, snd acc \<or> h1) s1 = Inr (t, h, sys')"
    by (auto simp: bindE_Inr_iff)
  then show ?case using assms Cons.IH R_trans by blast
qed (simp add: R_refl)

lemma update_keeps: "updateCacheBlock fuel c a new_cstate reason want sys = Inr (t, hit, out, sys') \<Longrightarrow> R sys sys'"
proof (induction fuel arbitrary: c reason want sys t hit out sys')
  case (Suc fuel)
  have step: "R s s'" if "update_below fuel a new_cstate r p s = Inr (t, h, s')" for r p s t h s'
    using that Suc.IH by (auto simp: update_below_Inr)
  from Suc.prems obtain t1 h1 s1 where prevs: "update_prevs (update_below fuel a new_cstate (if reason = EVICT then BACK_INVAL else reason))
      (m_prev_cache_cntlrs (master_of sys c)) (0, False) sys = Inr (t1, h1, s1)"
    and own: "update_level (Suc fuel) c a new_cstate reason want h1 s1 = Inr (t, hit, out, sys')" unfolding updateCacheBlock_Inr by blast
  have "R sys s1" by (rule update_prevs_keeps [OF _ prevs]) (rule step)
  then show ?case using update_level_keeps [OF own] by (rule R_trans)
qed simp

lemma update_prevs_update_keeps:
  assumes "update_prevs (\<lambda>p sys. map_sum id (\<lambda>(t, hit, _, sys). (t, hit, sys)) (updateCacheBlock fuel p a new_cstate reason False sys)) ps acc sys
    = Inr (t, h, sys')"
  shows "R sys sys'"
proof -
  have "R s s'" if "update_below fuel a new_cstate reason p s = Inr (t, h, s')" for p s t h s'
    using that update_keeps by (auto simp: update_below_Inr)
  then show ?thesis using assms update_prevs_keeps [of "update_below fuel a new_cstate reason"] unfolding update_below_def [abs_def] by blast
qed

lemma charge_keeps: "charge_queries n c sys = Inr sys' \<Longrightarrow> R sys sys'"
proof (induction n arbitrary: sys)
  case (Suc n)
  then obtain s1 where "incrementQBSLookupCost c sys = Inr s1" "charge_queries n c s1 = Inr sys'" by (auto simp: bindE_Inr_iff)
  moreover from this(1) have "R sys s1"
    by (auto simp: incrementQBSLookupCost_def Let_def bindE_Inr_iff dest!: incr_keeps intro: R_trans R_stats)
  ultimately show ?case using Suc.IH R_trans by blast
qed (simp add: R_refl)

lemma back_invalidate_keeps:
  assumes "back_invalidate fuel c a buf th sys = Inr (buf', sys')"
  shows "R sys sys'"
proof (cases "m_prev_cache_cntlrs (master_of sys c) = []")
  case True
  then show ?thesis using assms by (simp add: back_invalidate_def R_refl)
next
  case False
  let ?s0 = "put_master c ((master_of sys c)\<lparr>m_evicting_address := a, m_evicting_buf := Some buf\<rparr>) sys"
  let ?count = "\<lambda>t. count_stats c (\<lambda>s. s\<lparr>snoop_latency := snoop_latency s + t\<rparr>)"
  from False assms obtain t h s1 s2 where
    steps: "update_prevs (\<lambda>p sys. map_sum id (\<lambda>(t, hit, _, sys). (t, hit, sys)) (updateCacheBlock fuel p a INVALID BACK_INVAL False sys))
       (m_prev_cache_cntlrs (master_of sys c)) (0, False) ?s0 = Inr (t, h, s1)" "cc_incrElapsedTime c t th s1 = Inr s2"
    and s': "sys' = put_master c ((master_of (?count t s2) c)\<lparr>m_evicting_address := 0, m_evicting_buf := None\<rparr>) (?count t s2)"
    by (auto simp: back_invalidate_def Let_def bindE_Inr_iff)
  have "R sys ?s0" "R s2 (?count t s2)" "R (?count t s2) sys'" unfolding s' by (rule R_evict R_stats)+
  with update_prevs_update_keeps [OF steps(1)] incr_keeps [OF steps(2)] show ?thesis using R_trans by blast
qed

lemma dispose_keeps: "dispose_evicted fuel c a st buf sys = Inr sys' \<Longrightarrow> R sys sys'"
  by (auto simp: dispose_evicted_def evict_to_directory_def Let_def bindE_Inr_iff split: if_splits option.splits
      intro: R_refl send_keeps dest: write_keeps)

lemma evict_keeps:
  assumes "evict_line fuel c out ea th sys = Inr sys'"
  shows "R sys sys'"
proof -
  obtain buf s1 where b: "back_invalidate fuel c ea (case evict_buff out of Some bs \<Rightarrow> bs | None \<Rightarrow> []) th
      (count_stats c (count_evict (evict_block_info out)) sys) = Inr (buf, s1)"
    and d: "dispose_evicted fuel c ea (m_cstate (evict_block_info out)) buf s1 = Inr sys'"
    using assms by (auto simp: evict_line_def bindE_Inr_iff)
  show ?thesis by (rule R_trans [OF R_trans [OF R_stats back_invalidate_keeps [OF b]] dispose_keeps [OF d]])
qed

lemma insert_keeps:
  assumes "insertCacheBlock fuel c a st buf th sys = Inr sys'"
  shows "R sys sys'"
proof -
  obtain out ea cache n s1 s2 s3 where ch: "charge_queries n c (put_cache c cache sys) = Inr s1" "setCacheState c a st s1 = Inr s2"
    "(if cache_only_mode s2 then cc_change_block (\<lambda>b. setOption b WARMUP) c a s2 else Inr s2) = Inr s3"
    and ev: "(if eviction out then evict_line fuel c out ea th s3 else Inr s3) = Inr sys'"
    using assms by (auto simp: insertCacheBlock_def Let_def bindE_Inr_iff)
  have "R s2 s3" using ch(3) change_keeps R_refl by (auto split: if_splits)
  then have "R sys s3" using R_cache charge_keeps [OF ch(1)] set_keeps [OF ch(2)] R_trans by blast
  moreover have "R s3 sys'" using ev R_refl evict_keeps by (auto split: if_splits)
  ultimately show ?thesis by (rule R_trans)
qed

lemma cleanup_keeps: "cleanupMshr c sys = Inr sys' \<Longrightarrow> R sys sys'"
  by (auto simp: cleanupMshr_def Let_def bindE_Inr_iff intro: R_mshr)

lemma set_mshr_keeps: "R sys (set_mshr c a e sys)"
  unfolding set_mshr_def by (rule R_mshr)

lemma count_access_keeps: "count_access c op a hit st sys = Inr sys' \<Longrightarrow> R sys sys'"
  unfolding count_access_def cc_updateCounters_def using R_trans [OF R_trans [OF R_cache R_stats] cleanup_keeps] by blast

lemma snoop_keeps: "snoop lv c r a st reason sys = Inr (hit, sys') \<Longrightarrow> R sys sys'"
  unfolding snoop_def by (auto simp: bindE_Inr_iff dest!: update_prevs_update_keeps incr_keeps intro: R_trans [OF R_trans R_stats])

lemma read_bandwidth_keeps:
  assumes "read_bandwidth c t sys = Inr sys'"
  shows "R sys sys'"
proof (cases "isInfinite (m_next_level_read_bandwidth (cntlrs sys c))")
  case True
  then show ?thesis using assms by (simp add: read_bandwidth_def Let_def R_refl)
next
  case False
  then obtain cm l where "cc_incrElapsedTime c l USER_THREAD (put_master c ((master_of sys c)\<lparr>mm_next_level_read_bandwidth := cm\<rparr>) sys) = Inr sys'"
    using assms by (auto simp: read_bandwidth_def Let_def bindE_Inr_iff case_prod_beta)
  from R_trans [OF R_bandwidth incr_keeps [OF this]] show ?thesis .
qed

lemma copy_keeps:
  assumes "copyDataFromNextLevel lv c op a modeled t sys = Inr sys'"
  shows "R sys sys'"
proof -
  obtain n d s1 s2 st and b :: "CacheBlockInfo option" where r: "retrieveCacheBlock n a False sys = Inr (d, s1)"
    and bw: "(if modeled then read_bandwidth c t s1 else Inr s1) = Inr s2"
    and up: "(if b \<noteq> None then bindE (updateCacheBlock lv c a st UPGRADE False s2) (\<lambda>(_, _, _, sys). Inr sys)
       else insertCacheBlock lv c a st (Some d) USER_THREAD s2) = Inr sys'"
    using assms unfolding copyDataFromNextLevel_def by (auto simp: bindE_Inr_iff split: option.splits)
  have "R s1 s2" using bw read_bandwidth_keeps R_refl by (auto split: if_splits)
  moreover have "R s2 sys'" using up update_keeps insert_keeps by (auto simp: bindE_Inr_iff split: if_splits)
  moreover note retrieve_keeps [OF r]
  ultimately show ?thesis using R_trans by blast
qed

lemma lookup_level_keeps: "lookup_level lv c op a count sys = Inr (hit, first, present, sys') \<Longrightarrow> R sys sys'"
  by (auto simp: lookup_level_def bindE_Inr_iff split: if_splits dest!: set_keeps insert_keeps change_keeps intro: R_refl)

lemma clear_marks_keeps: "clear_marks c a b sys = Inr sys' \<Longrightarrow> R sys sys'"
  by (auto simp: clear_marks_def bindE_Inr_iff split: if_splits dest!: change_keeps intro: R_refl R_trans [OF R_stats]
      R_trans [OF R_trans [OF R_stats] R_trans [OF R_stats]])

lemma wait_mshr_keeps: "wait_mshr c t sys = Inr sys' \<Longrightarrow> R sys sys'"
  unfolding wait_mshr_def Let_def using R_trans [OF R_stats incr_keeps] by blast

lemma hit_time_keeps: "hit_time c a modeled sys = Inr sys' \<Longrightarrow> R sys sys'"
  by (auto simp: hit_time_def split: if_splits option.splits intro: R_refl dest: wait_mshr_keeps access_keeps)

lemma hit_snoop_keeps: "hit_snoop lv c r op a st sys = Inr (h, sys') \<Longrightarrow> R sys sys'"
  by (auto simp: hit_snoop_def split: if_splits intro: R_refl dest: snoop_keeps)

lemma take_source_keeps: "R sys (snd (take_source c h sys))"
  by (simp add: take_source_def Let_def R_refl R_where)

lemma serve_hit_keeps:
  assumes "serve_hit lv c r op a modeled sys = Inr (w, sys')"
  shows "R sys sys'"
proof -
  obtain b s1 s2 s3 h where s: "clear_marks c a b sys = Inr s1" "hit_time c a modeled s1 = Inr s2"
    "hit_snoop lv c r op a (m_cstate b) s2 = Inr (h, s3)" "sys' = snd (take_source c h s3)"
    using assms unfolding serve_hit_def by (auto simp: bindE_Inr_iff split: option.splits)
  note steps = clear_marks_keeps [OF s(1)] hit_time_keeps [OF s(2)] hit_snoop_keeps [OF s(3)] take_source_keeps [of s3 c h]
  from R_trans [OF R_trans [OF R_trans [OF steps(1,2)] steps(3)] steps(4)] show ?thesis by (simp add: s(4))
qed

lemma miss_upgrade_keeps: "miss_upgrade lv c r a shared sys = Inr sys' \<Longrightarrow> R sys sys'"
  by (auto simp: miss_upgrade_def bindE_Inr_iff split: if_splits intro: R_refl dest: snoop_keeps)

lemma finish_hit_keeps: "finish_hit c a modeled count first issue sys = Inr sys' \<Longrightarrow> R sys sys'"
  by (auto simp: finish_hit_def bindE_Inr_iff split: if_splits dest!: retrieve_keeps cleanup_keeps
      intro: R_trans R_trans [OF _ R_trans [OF set_mshr_keeps]])

text \<open>A level that does not send the core to wait keeps the relation; only a request to the directory may break it.\<close>

lemma miss_last_keeps: "miss_last lv c r op a ex issue sys = Inr (hit, w, sys') \<Longrightarrow> w \<noteq> MISS \<Longrightarrow> R sys sys'"
  by (auto simp: miss_last_def bindE_Inr_iff split: if_splits dest!: snoop_keeps set_keeps intro: R_trans)

lemma miss_next_keeps:
  assumes "miss_next lv next_level c op a modeled present sys = Inr (hit, w, sys')" and "w \<noteq> MISS"
    and next_keeps: "\<And>s w s'. next_level s = Inr (w, s') \<Longrightarrow> w \<noteq> MISS \<Longrightarrow> R s s'"
  shows "R sys sys'"
proof -
  obtain s1 s2 where s: "(if present then invalidateCacheBlock c a sys else Inr sys) = Inr s1" "next_level s1 = Inr (w, s2)"
    "copyDataFromNextLevel lv c op a modeled (user_time s2 c) s2 = Inr sys'"
    using assms(1,2) unfolding miss_next_def by (auto simp: bindE_Inr_iff split: if_splits)
  have "R sys s1" using s(1) invalidate_keeps R_refl by (auto split: if_splits)
  from R_trans [OF R_trans [OF this next_keeps [OF s(2) assms(2)]] copy_keeps [OF s(3)]] show ?thesis .
qed

lemma serve_miss_keeps:
  assumes "serve_miss lv next_level c r op a modeled present issue sys = Inr (hit, w, sys')" and "w \<noteq> MISS"
    and next_keeps: "\<And>n s w s'. next_level n s = Inr (w, s') \<Longrightarrow> w \<noteq> MISS \<Longrightarrow> R s s'"
  shows "R sys sys'"
proof -
  obtain s1 s2 st where s: "(if modeled then cc_accessTime c ACCESS_CACHE_TAGS USER_THREAD sys else Inr sys) = Inr s1"
    "miss_upgrade lv c r a (present \<and> st = SHARED) s1 = Inr s2"
    "(case m_next_cache_cntlr (cntlrs s2 c) of Some n \<Rightarrow> miss_next lv (next_level n) c op a modeled present s2
        | None \<Rightarrow> miss_last lv c r op a (present \<and> st = EXCLUSIVE) issue s2) = Inr (hit, w, sys')"
    using assms(1) unfolding serve_miss_def by (auto simp: bindE_Inr_iff)
  have "R sys s1" using s(1) access_keeps R_refl by (auto split: if_splits)
  moreover have "R s2 sys'"
    using s(3) miss_last_keeps miss_next_keeps [OF _ assms(2) next_keeps] assms(2) by (auto split: option.splits)
  ultimately show ?thesis using miss_upgrade_keeps [OF s(2)] R_trans by blast
qed

lemma request_keeps:
  "processShmemReqFromPrevCache lv fuel c r op a modeled count issue sys = Inr (w, sys') \<Longrightarrow> w \<noteq> MISS \<Longrightarrow> R sys sys'"
proof (induction fuel arbitrary: c r sys w sys')
  case (Suc fuel)
  let ?next = "\<lambda>n. processShmemReqFromPrevCache lv fuel n c op a modeled count issue"
  obtain hit first present s1 st s2 hit2 w2 s3 where s: "lookup_level lv c op a count sys = Inr (hit, first, present, s1)"
    "(if count then count_access c op a hit st s1 else Inr s1) = Inr s2"
    "(if hit then bindE (serve_hit lv c r op a modeled s2) (\<lambda>(w, sys). Inr (True, w, sys))
      else serve_miss lv ?next c r op a modeled present issue s2) = Inr (hit2, w2, s3)"
    "(if hit2 then bindE (finish_hit c a modeled count first issue s3) (\<lambda>sys. Inr (w2, sys)) else Inr (w2, s3)) = Inr (w, sys')"
    using Suc.prems(1) unfolding processShmemReqFromPrevCache.simps by (auto simp: bindE_Inr_iff)
  have w: "w2 = w" and last: "R s3 sys'" using s(4) finish_hit_keeps R_refl by (auto simp: bindE_Inr_iff split: if_splits)
  have "R s1 s2" using s(2) count_access_keeps R_refl by (auto split: if_splits)
  moreover have "R s2 s3"
  proof (cases hit)
    case True
    then show ?thesis using s(3) serve_hit_keeps by (auto simp: bindE_Inr_iff)
  next
    case False
    then have "serve_miss lv ?next c r op a modeled present issue s2 = Inr (hit2, w2, s3)" using s(3) by simp
    then show ?thesis using Suc.prems(2) unfolding w by (rule serve_miss_keeps) (rule Suc.IH)
  qed
  ultimately show ?case using lookup_level_keeps [OF s(1)] last R_trans by metis
qed simp

lemma access_cache_keeps:
  assumes "accessCache lv c op a off buf n u sys = Inr (out, sys')"
  shows "R sys sys'"
proof -
  obtain cache where "sys' = put_cache c cache sys \<or> (\<exists>m. writeCacheBlock lv m a off buf n (put_cache c cache sys) = Inr sys')"
    using assms by (auto simp: accessCache_def Let_def bindE_Inr_iff split: if_splits option.splits)
  then show ?thesis using R_cache write_keeps R_trans by blast
qed

lemma finish_op_keeps: "finish_op lv po hit w sys = Inr (out, sys') \<Longrightarrow> R sys sys'"
  by (auto simp: finish_op_def Let_def bindE_Inr_iff dest!: access_cache_keeps intro: R_trans [OF _ R_stats])

lemma fill_first_keeps:
  assumes "fill_first lv po sys = Inr sys'"
  shows "R sys sys'"
proof -
  obtain s1 where c: "copyDataFromNextLevel lv (po_cntlr po) (po_mem_op_type po) (po_address po) (po_modeled po) (user_time sys (po_cntlr po)) sys = Inr s1"
    and s': "Inr sys' = (if po_modeled po \<and> m_l1_mshr (cntlrs s1 (po_cntlr po)) \<and> \<not> m_passthrough (cntlrs s1 (po_cntlr po))
      then Inr (put_master (po_cntlr po) ((master_of s1 (po_cntlr po))\<lparr>mm_l1_mshr := snd (getCompletionTime (po_t_miss_begin po)
        (user_time s1 (po_cntlr po) - po_t_mshr_avail po) (po_address po) (mm_l1_mshr (master_of s1 (po_cntlr po))))\<rparr>) s1) else Inr s1 :: MemSys res)"
    using assms unfolding fill_first_def Let_def case_prod_beta by (auto simp: bindE_Inr_iff)
  from s' have "R s1 sys'" using R_refl R_l1_mshr by (auto split: if_splits)
  with copy_keeps [OF c] show ?thesis by (rule R_trans)
qed

lemma reply_keeps: "process_reply lv c msg sys = Inr sys' \<Longrightarrow> R sys sys'"
  by (auto simp: process_reply_def processExRepFromDramDirectory_def processShRepFromDramDirectory_def processUpgradeRepFromDramDirectory_def
      bindE_Inr_iff split: msg_t.splits if_splits dest: insert_keeps update_keeps)

lemma resume_keeps:
  assumes "resume_op lv fuel core sys = Inr sys'"
  shows "\<exists>w out s. R (sys\<lparr>mem_pending := (mem_pending sys)(core := None)\<rparr>) s \<and> sys' = s\<lparr>mem_results := mem_results s @ [(core, w, out)]\<rparr>"
proof -
  let ?s0 = "sys\<lparr>mem_pending := (mem_pending sys)(core := None)\<rparr>"
  obtain po n w s1 s2 out s3 where
    s: "processShmemReqFromPrevCache lv fuel n (po_cntlr po) (po_mem_op_type po) (po_address po) False False (po_t_start po) ?s0 = Inr (w, s1)"
      "w \<noteq> MISS" "fill_first lv po s1 = Inr s2" "finish_op lv po False w s2 = Inr (out, s3)"
    and s': "sys' = s3\<lparr>mem_results := mem_results s3 @ [(core, w, out)]\<rparr>"
    using assms by (auto simp: resume_op_def bindE_Inr_iff split: option.splits)
  from R_trans [OF R_trans [OF request_keeps [OF s(1,2)] fill_first_keeps [OF s(3)]] finish_op_keeps [OF s(4)]] s' show ?thesis by blast
qed

end

section \<open>The cores that wait for a line\<close>

definition keeps_queue :: "MemSys \<Rightarrow> MemSys \<Rightarrow> bool" where
  "keeps_queue s s' \<longleftrightarrow> (\<forall>m. m_directory_waiters (masters s' m) = m_directory_waiters (masters s m)) \<and>
     (\<forall>c. m_master (cntlrs s' c) = m_master (cntlrs s c) \<and> cc_core_id (cntlrs s' c) = cc_core_id (cntlrs s c)) \<and>
     mem_results s' = mem_results s"

interpretation kq: step_relation keeps_queue
  by unfold_locales (auto simp: keeps_queue_def put_cache_def put_master_def put_cntlr_def count_stats_def)

abbreviation waiters :: "MemSys \<Rightarrow> cntlr_ptr \<Rightarrow> CacheDirectoryWaiter ReqQueueList" where
  "waiters sys c \<equiv> m_directory_waiters (master_of sys c)"

abbreviation waiter_core :: "MemSys \<Rightarrow> CacheDirectoryWaiter \<Rightarrow> core_id_t" where
  "waiter_core sys w \<equiv> cc_core_id (cntlrs sys (waiter_cntlr w))"

text \<open>A waiter that is served leaves the queue and has a result; everything else about the queues stays.\<close>

definition served :: "cntlr_ptr \<Rightarrow> IntPtr \<Rightarrow> CacheDirectoryWaiter list \<Rightarrow> MemSys \<Rightarrow> MemSys \<Rightarrow> bool" where
  "served c a ws s s' \<longleftrightarrow>
     (\<forall>d. m_master (cntlrs s' d) = m_master (cntlrs s d) \<and> cc_core_id (cntlrs s' d) = cc_core_id (cntlrs s d)) \<and>
     rq_wf (waiters s' c) \<and> rq_list (waiters s c) a = ws @ rq_list (waiters s' c) a \<and>
     (\<forall>b. b \<noteq> a \<longrightarrow> rq_list (waiters s' c) b = rq_list (waiters s c) b) \<and>
     (\<exists>rs. mem_results s' = mem_results s @ rs \<and> map fst rs = map (waiter_core s) ws)"

lemma served_Nil: "keeps_queue s s' \<Longrightarrow> rq_wf (waiters s c) \<Longrightarrow> served c a [] s s'"
  by (simp add: served_def keeps_queue_def)

lemma served_trans: "served c a ws s1 s2 \<Longrightarrow> served c a vs s2 s3 \<Longrightarrow> served c a (ws @ vs) s1 s3"
  unfolding served_def by (elim conjE exE) auto

lemma serve_waiter_served:
  assumes wf: "rq_wf (waiters sys c)" and head: "rq_list (waiters sys c) (msg_address msg) = w # ws"
    and run: "serve_waiter lv fuel c msg w sys = Inr sys'"
  shows "served c (msg_address msg) [w] sys sys'"
proof -
  let ?a = "msg_address msg" and ?core = "waiter_core sys w"
  define s0 where "s0 = cc_updateUncoreStatistics (waiter_cntlr w) (m_where msg) (adjust_time c (waiter_cntlr w) sys)"
  obtain s1 e s2 v q where s: "resume_op lv fuel ?core s0 = Inr s1" "cleanupMshr c (set_mshr (waiter_cntlr w) ?a e s1) = Inr s2"
    "rq_dequeue (waiters s2 c) ?a = Inr (v, q)" "sys' = put_master c ((master_of s2 c)\<lparr>m_directory_waiters := q\<rparr>) s2"
    using run unfolding serve_waiter_def Let_def s0_def by (auto simp: bindE_Inr_iff)
  have k0: "keeps_queue sys s0" by (simp add: s0_def cc_updateUncoreStatistics_def adjust_time_def Let_def keeps_queue_def put_cntlr_def)
  obtain hw out s1' where k1: "keeps_queue (s0\<lparr>mem_pending := (mem_pending s0)(?core := None)\<rparr>) s1'"
    and s1: "s1 = s1'\<lparr>mem_results := mem_results s1' @ [(?core, hw, out)]\<rparr>" using kq.resume_keeps [OF s(1)] by blast
  have k2: "keeps_queue s1 s2" using kq.R_trans [OF kq.set_mshr_keeps kq.cleanup_keeps [OF s(2)]] .
  have q2: "waiters s2 c = waiters sys c" using k0 k1 k2 by (simp add: keeps_queue_def s1)
  have "rq_wf q \<and> rq_list q = (rq_list (waiters sys c))(?a := ws)"
    using rq.dequeue_contents [OF wf head] s(3) q2 by auto
  then show ?thesis using k0 k1 k2 head by (auto simp: served_def keeps_queue_def s(4) s1 put_master_def)
qed

text \<open>The state that is set is the one that is read back.\<close>

lemma setCacheState_read:
  assumes "setCacheState c a st sys = Inr sys'"
  shows "getCacheState sys' c a = Inr st"
proof -
  let ?c = "m_cache (master_of sys c)"
  obtain tag j s i where s: "splitAddress (c_base ?c) a = Inr (tag, j)" "get_set ?c j = Inr s" "set_find s tag = Some i"
    and sys': "sys' = put_cache c (put_set ?c j (s\<lparr>cs_blocks := (cs_blocks s)[i := (cs_blocks s ! i)\<lparr>m_cstate := st\<rparr>]\<rparr>)) sys"
    using assms by (auto simp: setCacheState_def cc_change_block_def change_block_def bindE_Inr_iff split: option.splits)
  let ?s = "s\<lparr>cs_blocks := (cs_blocks s)[i := (cs_blocks s ! i)\<lparr>m_cstate := st\<rparr>]\<rparr>"
  have tags: "m_tag ((cs_blocks s)[i := (cs_blocks s ! i)\<lparr>m_cstate := st\<rparr>] ! k) = m_tag (cs_blocks s ! k)" for k
    by (cases "i < length (cs_blocks s)") (auto simp: nth_list_update list_update_beyond)
  then have "set_find ?s tag = Some i" using s(3) by (simp add: set_find_def)
  then show ?thesis using s set_find_SomeD [OF s(3)]
    by (auto simp: getCacheState_def getCacheBlockInfo_def peekSingleLine_def sys' put_cache_def put_master_def put_set_def get_set_def
        peekBlock_def block_state_def split: if_splits)
qed

text \<open>The upgrade that a reply asks for when a core that wants to write finds a shared line.\<close>

definition upgrade_sent :: "cntlr_ptr \<Rightarrow> IntPtr \<Rightarrow> MemSys \<Rightarrow> bool" where
  "upgrade_sent c a sys \<longleftrightarrow> getCacheState sys c a = Inr SHARED_UPGRADING \<and> mem_sent sys \<noteq> [] \<and>
     n_type (last (mem_sent sys)) = UPGRADE_REQ \<and> n_address (last (mem_sent sys)) = a"

lemma processUpgradeReq_sent:
  assumes "processUpgradeReqToDirectory c a sys = Inr sys'"
  shows "keeps_queue sys sys'" and "upgrade_sent c a sys'"
proof -
  obtain s1 home where s1: "setCacheState c a SHARED_UPGRADING sys = Inr s1"
    and s': "sys' = sendToDirectory UPGRADE_REQ (m_core_id_master (cntlrs s1 c)) home a None s1"
    using assms by (auto simp: processUpgradeReqToDirectory_def request_home_def bindE_Inr_iff)
  show "keeps_queue sys sys'" using kq.R_trans [OF kq.set_keeps [OF s1] kq.send_keeps] s' by simp
  show "upgrade_sent c a sys'" using setCacheState_read [OF s1]
    by (simp add: upgrade_sent_def s' sendToDirectory_def getCacheState_def getCacheBlockInfo_def)
qed

lemma serve_waiters_served:
  assumes "rq_wf (waiters sys c)" and "serve_waiters lv fuel n c msg sys = Inr sys'"
  shows "\<exists>ws. served c (msg_address msg) ws sys sys' \<and>
    (\<forall>r rs. rq_list (waiters sys' c) (msg_address msg) = r # rs \<longrightarrow> exclusive r \<and> upgrade_sent c (msg_address msg) sys')"
  using assms
proof (induction n arbitrary: sys)
  case 0
  then show ?case using served_Nil [of sys sys c] rq.empty_contents [OF 0(1)]
    by (intro exI [of _ "[]"]) (auto simp: serve_waiters.simps [of _ _ 0] kq.R_refl split: if_splits)
next
  case (Suc n)
  let ?a = "msg_address msg"
  show ?case
  proof (cases "rq_list (waiters sys c) ?a")
    case Nil
    then show ?thesis using Suc.prems served_Nil [of sys sys c] rq.empty_contents [OF Suc.prems(1)]
      by (intro exI [of _ "[]"]) (auto simp: serve_waiters.simps [of _ _ "Suc n"] kq.R_refl split: if_splits)
  next
    case (Cons r rs)
    then obtain st where run: "(if exclusive r \<and> st = SHARED then processUpgradeReqToDirectory c ?a sys
        else bindE (serve_waiter lv fuel c msg r sys) (serve_waiters lv fuel n c msg)) = Inr sys'"
      using Suc.prems rq.empty_contents [OF Suc.prems(1)] rq.front_contents [OF Cons]
      by (auto simp: serve_waiters.simps [of _ _ "Suc n"] bindE_Inr_iff)
    show ?thesis
    proof (cases "exclusive r \<and> st = SHARED")
      case True
      then have up: "processUpgradeReqToDirectory c ?a sys = Inr sys'" using run by simp
      have "served c ?a [] sys sys'" by (rule served_Nil [OF processUpgradeReq_sent(1) [OF up] Suc.prems(1)])
      then show ?thesis using True Cons processUpgradeReq_sent(2) [OF up] by (intro exI [of _ "[]"]) (auto simp: served_def)
    next
      case False
      then obtain s1 where s1: "serve_waiter lv fuel c msg r sys = Inr s1" "serve_waiters lv fuel n c msg s1 = Inr sys'"
        using run by (auto simp: bindE_Inr_iff)
      have one: "served c ?a [r] sys s1" by (rule serve_waiter_served [OF Suc.prems(1) Cons s1(1)])
      then have "rq_wf (waiters s1 c)" unfolding served_def by blast
      from Suc.IH [OF this s1(2)] served_trans [OF one] show ?thesis by blast
    qed
  qed
qed

text \<open>A core that is served leaves the queue, so the number of cores that wait is enough fuel.\<close>

lemma serve_waiters_fuel:
  assumes "rq_wf (waiters sys c)" and "length (rq_list (waiters sys c) (msg_address msg)) \<le> n"
  shows "serve_waiters lv fuel (n + k) c msg sys = serve_waiters lv fuel n c msg sys"
  using assms
proof (induction n arbitrary: sys)
  case 0
  then have "rq_empty (waiters sys c) (msg_address msg)" by (simp add: rq.empty_contents)
  then show ?case by (simp add: serve_waiters.simps [of _ _ k] serve_waiters.simps [of _ _ 0])
next
  case (Suc n)
  show ?case
  proof (cases "rq_list (waiters sys c) (msg_address msg)")
    case Nil
    then have "rq_empty (waiters sys c) (msg_address msg)" using Suc.prems by (simp add: rq.empty_contents)
    then show ?thesis by (simp add: serve_waiters.simps [of _ _ "Suc _"])
  next
    case (Cons r rs)
    have "serve_waiters lv fuel (n + k) c msg s1 = serve_waiters lv fuel n c msg s1" if "serve_waiter lv fuel c msg r sys = Inr s1" for s1
    proof -
      from serve_waiter_served [OF Suc.prems(1) Cons that] Cons Suc.prems(2)
      have "rq_wf (waiters s1 c)" "length (rq_list (waiters s1 c) (msg_address msg)) \<le> n" by (auto simp: served_def)
      then show ?thesis by (rule Suc.IH)
    qed
    then have "bindE (serve_waiter lv fuel c msg r sys) (serve_waiters lv fuel (n + k) c msg) =
        bindE (serve_waiter lv fuel c msg r sys) (serve_waiters lv fuel n c msg)"
      by (cases "serve_waiter lv fuel c msg r sys") simp_all
    then show ?thesis using rq.front_contents [OF Cons] by (simp add: serve_waiters.simps [of _ _ "Suc _"] cong: if_cong)
  qed
qed

text \<open>C5. A reply of the directory serves the cores that wait for the line in the order in which they asked: the cores served are a
  prefix of the queue, each has a result and the results are in that order, the rest of the queue and the queues of other
  lines are unchanged, and no core stays behind unless the first of the rest wants to write a line that is only shared; then the
  line is being upgraded and the upgrade has been asked for.\<close>

theorem reply_serves_waiters:
  assumes "m_msg_type msg \<in> {EX_REP, SH_REP, UPGRADE_REP}" and "rq_wf (waiters sys c)"
    and "handleMsgFromDramDirectory lv fuel c sender msg sys = Inr sys'"
  shows "\<exists>ws rest rs. rq_list (waiters sys c) (msg_address msg) = ws @ rest \<and>
    rq_list (waiters sys' c) = (rq_list (waiters sys c))(msg_address msg := rest) \<and>
    mem_results sys' = mem_results sys @ rs \<and> map fst rs = map (waiter_core sys) ws \<and>
    (rest = [] \<or> exclusive (hd rest) \<and> upgrade_sent c (msg_address msg) sys')"
proof -
  let ?a = "msg_address msg"
  obtain s1 n where s1: "process_reply lv c msg sys = Inr s1" "serve_waiters lv fuel n c msg s1 = Inr sys'"
    using assms(1,3) by (auto simp: handleMsgFromDramDirectory_def bindE_Inr_iff)
  have k: "keeps_queue sys s1" by (rule kq.reply_keeps [OF s1(1)])
  then have "waiters s1 c = waiters sys c" by (simp add: keeps_queue_def)
  then obtain ws where ws: "served c ?a ws s1 sys'"
    and rest: "\<forall>r rs. rq_list (waiters sys' c) ?a = r # rs \<longrightarrow> exclusive r \<and> upgrade_sent c ?a sys'"
    using serve_waiters_served [OF _ s1(2)] assms(2) by auto
  have all: "served c ?a ([] @ ws) sys sys'" by (rule served_trans [OF served_Nil [OF k assms(2)] ws])
  then obtain rs where rs: "mem_results sys' = mem_results sys @ rs" "map fst rs = map (waiter_core sys) ws" by (auto simp: served_def)
  have q: "rq_list (waiters sys c) ?a = ws @ rq_list (waiters sys' c) ?a"
    "rq_list (waiters sys' c) = (rq_list (waiters sys c))(?a := rq_list (waiters sys' c) ?a)"
    using all by (auto simp: served_def fun_eq_iff)
  show ?thesis
  proof (intro exI conjI)
    show "rq_list (waiters sys' c) ?a = [] \<or> exclusive (hd (rq_list (waiters sys' c) ?a)) \<and> upgrade_sent c ?a sys'"
      using rest by (cases "rq_list (waiters sys' c) ?a") auto
  qed (rule q rs)+
qed

section \<open>Two cores with a shared second level\<close>

text \<open>Caches of one line of four bytes.\<close>

definition tiny_set :: "policy_state CacheSet" where
  "tiny_set = mk_CacheSet True PR_L1_CACHE 1 4 (CacheSetLRU (mk_LRU 1 1))"

definition tiny_cache :: Cache where
  "tiny_cache =
     \<lparr>c_base = \<lparr>m_name = ''L1-D'', m_cache_size = 4, m_associativity = 1, m_blocksize = 4, m_hash = HASH_MASK, m_num_sets = 1, m_ahl = None,
       m_log_blocksize = 2\<rparr>, m_enabled = False, m_num_accesses = 0, m_num_hits = 0, m_cache_type = PR_L1_CACHE, m_sets = [tiny_set],
      c_ctx = \<lparr>m_set_info = Some (mk_CacheSetInfoLRU 1 1), qbs_lookup_cost = 0\<rparr>, m_fault_injector = None\<rparr>"

definition tiny_line :: Cache where
  "tiny_line = put_set tiny_cache 0 (tiny_set\<lparr>cs_blocks := [(createBlock PR_L1_CACHE)\<lparr>m_tag := 16, m_cstate := MODIFIED\<rparr>]\<rparr>)"

text \<open>Every core has a controller of its own at both levels; those of the second level, 2 and 3, share a master.\<close>

definition tiny_cntlr :: "cntlr_ptr \<Rightarrow> CacheCntlr" where
  "tiny_cntlr c = (demo_cntlr (min c 2))\<lparr>m_next_cache_cntlr := (if c < 2 then Some (c + 2) else None), cc_core_id := (if odd c then 1 else 0),
     m_cache_block_size := 4\<rparr>"

text \<open>The first core has written the line; the second has not got it.\<close>

definition tiny_sys :: MemSys where
  "tiny_sys = demo_sys\<lparr>cntlrs := tiny_cntlr, masters := (\<lambda>m. (demo_master m)\<lparr>m_cache := if m = 1 then tiny_cache else tiny_line\<rparr>)\<rparr>"

text \<open>The second core waits for the line, which is in no cache.\<close>

definition tiny_wait :: MemSys where
  "tiny_wait = tiny_sys\<lparr>
     masters := (\<lambda>m. (demo_master m)\<lparr>m_cache := tiny_cache,
       m_directory_waiters := (if m = 2 then [0x40 \<mapsto> [\<lparr>exclusive = False, waiter_cntlr = 3, w_t_issue = 0\<rparr>]] else Map.empty)\<rparr>),
     mem_pending := [1 \<mapsto> \<lparr>po_cntlr = 1, po_mem_op_type = READ, po_address = 0x40, po_offset = 0, po_data_buf = Some [], po_data_length = 4,
       po_modeled = False, po_count = False, po_t_start = 0, po_t_miss_begin = 0, po_t_mshr_avail = 0\<rparr>]\<rparr>"

definition tiny_reply :: ShmemMsg where
  "tiny_reply = \<lparr>m_msg_type = SH_REP, m_requester = 0, m_where = W_DRAM, msg_address = 0x40, m_data_buf = Some [7, 8, 9, 10]\<rparr>"

lemma tiny_reply_run:
  "(case handleMsgFromDramDirectory 3 3 2 0 tiny_reply tiny_wait of Inr sys' \<Rightarrow> mem_results sys' | Inl _ \<Rightarrow> [])
     = [(1, HIT_REMOTE W_DRAM, Some [7, 8, 9, 10])]"
  by code_simp

theorem reply_serves_waiters_witness:
  "\<exists>sys'. handleMsgFromDramDirectory 3 3 2 0 tiny_reply tiny_wait = Inr sys' \<and> rq_list (waiters sys' 2) 0x40 = [] \<and>
    mem_results sys' = [(1, HIT_REMOTE W_DRAM, Some [7, 8, 9, 10])]"
proof -
  obtain sys' where run: "handleMsgFromDramDirectory 3 3 2 0 tiny_reply tiny_wait = Inr sys'"
    and rs: "mem_results sys' = [(1, HIT_REMOTE W_DRAM, Some [7, 8, 9, 10])]"
    using tiny_reply_run by (auto split: sum.splits)
  have q: "rq_wf (waiters tiny_wait 2)" "rq_list (waiters tiny_wait 2) 0x40 = [\<lparr>exclusive = False, waiter_cntlr = 3, w_t_issue = 0\<rparr>]"
    by (simp_all add: tiny_wait_def tiny_sys_def demo_sys_def tiny_cntlr_def demo_cntlr_def rq_wf_def rq_list_def)
  have "msg_address tiny_reply = 0x40" "m_msg_type tiny_reply \<in> {EX_REP, SH_REP, UPGRADE_REP}" "mem_results tiny_wait = []"
    by (simp_all add: tiny_reply_def tiny_wait_def tiny_sys_def demo_sys_def)
  with reply_serves_waiters [OF _ q(1) run] q(2) rs run show ?thesis by (auto simp: append_eq_Cons_conv)
qed

text \<open>An access of four bytes to the line, without timing.\<close>

definition tiny_read :: "cntlr_ptr \<Rightarrow> MemSys \<Rightarrow> ((hit_where_t \<times> Byte list option) option \<times> MemSys) res" where
  "tiny_read c = processMemOpFromCore 3 3 c LOCK_NONE READ 0x40 0 (Some []) 4 False False"

definition tiny_write :: "cntlr_ptr \<Rightarrow> Byte list \<Rightarrow> MemSys \<Rightarrow> ((hit_where_t \<times> Byte list option) option \<times> MemSys) res" where
  "tiny_write c bytes = processMemOpFromCore 3 3 c LOCK_NONE WRITE 0x40 0 (Some bytes) 4 False False"

text \<open>A run in which a core reads old data below a shared second level: core 0 has written a line, core 1 reads it, and
  \<^verbatim>\<open>copyDataFromNextLevel\<close> gives the copy of core 1 the state of the second level, which is \<^verbatim>\<open>MODIFIED\<close>, while core 0 keeps a
  readable copy. So core 1 writes without a message to anybody, and core 0 then still reads what was there before.\<close>

lemma sibling_reads_stale_data:
  "bindE (tiny_read 1 tiny_sys) (\<lambda>(_, s). bindE (tiny_write 1 [1, 2, 3, 4] s) (\<lambda>(_, s). bindE (tiny_read 0 s)
     (\<lambda>(r, s). Inr (r, getCacheState s 0 0x40, getCacheState s 1 0x40))))
   = Inr (Some (HIT_AT L1_DCACHE, Some [0, 0, 0, 0]), Inr SHARED, Inr MODIFIED)"
  by code_simp

section \<open>The table of misses in progress\<close>

definition mshr_ok :: "Mshr \<Rightarrow> bool" where
  "mshr_ok m \<longleftrightarrow> distinct (map fst m) \<and> (\<forall>x\<in>set m. t_complete (snd x) < MaxTime)"

lemma mshr_scan:
  assumes "fold (\<lambda>(a, e) (address_min, time_min). if t_complete e < time_min then (a, t_complete e) else (address_min, time_min)) m (a0, t0) = (a, t)"
  shows "t \<le> t0 \<and> (\<forall>x\<in>set m. t \<le> t_complete (snd x)) \<and> ((a, t) = (a0, t0) \<or> (\<exists>e. (a, e) \<in> set m \<and> t_complete e = t))"
  using assms
proof (induction m arbitrary: a0 t0)
  case (Cons x m)
  obtain b e where x: "x = (b, e)" by (cases x)
  show ?case
  proof (cases "t_complete e < t0")
    case True
    then show ?thesis using Cons.IH [of b "t_complete e"] Cons.prems x by auto
  next
    case False
    then show ?thesis using Cons.IH [of a0 t0] Cons.prems x by auto
  qed
qed simp

text \<open>The entry that is removed is one that completes first.\<close>

lemma mshr_oldest_first:
  assumes "mshr_ok m" and "m \<noteq> []"
  shows "\<exists>e. (mshr_oldest m, e) \<in> set m \<and> (\<forall>x\<in>set m. t_complete e \<le> t_complete (snd x))"
proof -
  obtain a t where scan: "fold (\<lambda>(a, e) (address_min, time_min). if t_complete e < time_min then (a, t_complete e) else (address_min, time_min)) m (0, MaxTime) = (a, t)"
    by (cases "fold (\<lambda>(a, e) (address_min, time_min). if t_complete e < time_min then (a, t_complete e) else (address_min, time_min)) m (0, MaxTime)")
  obtain x where x: "x \<in> set m" using assms(2) by (cases m) auto
  from mshr_scan [OF scan] have "t \<le> t_complete (snd x)" using x by blast
  then have "t < MaxTime" using assms(1) x unfolding mshr_ok_def by (meson order.strict_trans1)
  then show ?thesis using mshr_scan [OF scan] by (auto simp: mshr_oldest_def scan)
qed

lemma remove_key:
  assumes "distinct (map fst m)" and "(a, e) \<in> set m"
  shows "length (filter (\<lambda>x. fst x \<noteq> a) m) = length m - 1" and "set (filter (\<lambda>x. fst x \<noteq> a) m) = set m - {(a, e)}"
proof -
  show s: "set (filter (\<lambda>x. fst x \<noteq> a) m) = set m - {(a, e)}"
    using assms by (auto dest: eq_key_imp_eq_value)
  have "distinct m" using assms(1) by (simp add: distinct_map)
  then show "length (filter (\<lambda>x. fst x \<noteq> a) m) = length m - 1"
    using s assms(2) by (metis card_Diff_singleton distinct_card distinct_filter)
qed

lemma mshr_ok_filter: "mshr_ok m \<Longrightarrow> mshr_ok (filter P m)"
  by (auto simp: mshr_ok_def distinct_map_filter)

lemma mshr_ok_put: "mshr_ok m \<Longrightarrow> t_complete e < MaxTime \<Longrightarrow> mshr_ok (mshr_put a e m)"
proof -
  assume ok: "mshr_ok m" and e: "t_complete e < MaxTime"
  have "map fst (map (\<lambda>(b, f). if b = a then (b, e) else (b, f)) m) = map fst m" by (simp add: case_prod_beta)
  then have "distinct (map fst (mshr_put a e m))" using ok by (auto simp: mshr_ok_def mshr_put_def simp del: map_map)
  moreover have "set (mshr_put a e m) \<subseteq> insert (a, e) (set m)" by (auto simp: mshr_put_def split: if_splits)
  ultimately show "mshr_ok (mshr_put a e m)" using ok e unfolding mshr_ok_def by fastforce
qed

text \<open>C27. \<^verbatim>\<open>cleanupMshr\<close> ends and keeps the misses that complete last: from a table with distinct addresses and completion times below
  \<^verbatim>\<open>MaxTime\<close> it returns a part of the table with at most 8 entries, all of it if it had no more, and no entry that it removed
  completes later than one that it kept.\<close>

theorem cleanup_keeps_latest:
  assumes "mshr_ok m"
  shows "\<exists>m'. cleanup_mshr (length m) m = Inr m' \<and> mshr_ok m' \<and> length m' = min 8 (length m) \<and> set m' \<subseteq> set m \<and>
    (\<forall>x\<in>set m'. \<forall>y\<in>set m - set m'. t_complete (snd y) \<le> t_complete (snd x))"
  using assms
proof (induction "length m" arbitrary: m)
  case 0
  then show ?case by simp
next
  case (Suc n)
  show ?case
  proof (cases "8 < length m")
    case False
    then show ?thesis using Suc.prems Suc.hyps(2) [symmetric] by simp
  next
    case True
    let ?m = "filter (\<lambda>x. fst x \<noteq> mshr_oldest m) m"
    from True have "m \<noteq> []" by auto
    from mshr_oldest_first [OF Suc.prems this] obtain e where e: "(mshr_oldest m, e) \<in> set m"
      "\<forall>x\<in>set m. t_complete e \<le> t_complete (snd x)" by blast
    have d: "distinct (map fst m)" using Suc.prems by (simp add: mshr_ok_def)
    note rm = remove_key [OF d e(1)]
    have n: "n = length ?m" using rm(1) Suc.hyps(2) by simp
    from Suc.hyps(1) [OF n mshr_ok_filter [OF Suc.prems]] obtain m' where m': "cleanup_mshr n ?m = Inr m'" "mshr_ok m'"
      "length m' = min 8 n" "set m' \<subseteq> set ?m" "\<forall>x\<in>set m'. \<forall>y\<in>set ?m - set m'. t_complete (snd y) \<le> t_complete (snd x)"
      unfolding n by blast
    have "t_complete (snd y) \<le> t_complete (snd x)" if "x \<in> set m'" "y \<in> set m - set m'" for x y
      using that e(2) m'(4,5) rm(2) by (cases "y = (mshr_oldest m, e)") auto
    moreover have "cleanup_mshr (length m) m = Inr m'" using m'(1) True Suc.hyps(2) [symmetric] by simp
    moreover have "length m' = min 8 (length m)" using m'(3) True Suc.hyps(2) by simp
    ultimately show ?thesis using m'(2,4) by auto
  qed
qed

theorem cleanup_keeps_latest_witness:
  "\<exists>m'. cleanup_mshr 9 (map (\<lambda>i. (of_nat i, make_mshr 0 (of_nat (20 - i)))) [0..<9]) = Inr m' \<and> length m' = 8"
proof -
  let ?m = "map (\<lambda>i. (of_nat i, make_mshr 0 (of_nat (20 - i)))) [0..<9] :: Mshr"
  have "mshr_ok ?m" by (simp add: mshr_ok_def upt_rec make_mshr_def MaxTime_def)
  from cleanup_keeps_latest [OF this] show ?thesis by auto
qed

end
