(* ===== verification/LS_Fill.thy ===== *)
theory LS_Fill
  imports LS_Waiters
begin

text \<open>
  A first-level cache that gets a line from the next level: the state of its copy is the state of the line in the next level, and the
  copies of the other caches stay as they are.
\<close>

section \<open>The connections between the controllers\<close>











section \<open>The insertion\<close>








end
