(* ===== verification/LS_Scheduler.thy ===== *)
theory LS_Scheduler
  imports LS_Threads LS_Utils
begin

unbundle bit_operations_syntax

text \<open>
  The schedulers of \<^verbatim>\<open>common/scheduler\<close>: the base class \<^verbatim>\<open>SchedulerPinnedBase\<close> with \<^verbatim>\<open>SchedulerDynamic\<close> above it, and the pinned,
  roaming, big/small and static schedulers. A scheduler keeps which thread it has put on which core and tells the thread manager
  to move threads; when a move wakes a thread, the thread manager calls the scheduler back, which may fill further free cores.
  The state of the thread manager is part of the state. The clocks of the cores, the files with mappings that an external
  program writes, and the configuration are arguments; power and temperature traces are output only and left out.
\<close>

section \<open>Vectors\<close>

definition vec_at :: "'a list \<Rightarrow> int \<Rightarrow> 'a res" where
  "vec_at xs i = (if 0 \<le> i \<and> nat i < length xs then Inr (xs ! nat i) else Inl OutOfRange)"

definition vec_put :: "'a list \<Rightarrow> int \<Rightarrow> 'a \<Rightarrow> 'a list res" where
  "vec_put xs i x = (if 0 \<le> i \<and> nat i < length xs then Inr (xs[nat i := x]) else Inl OutOfRange)"

section \<open>Threads as the scheduler sees them\<close>

record ThreadInfo =
  m_has_affinity :: bool
  m_explicit_affinity :: bool
  m_core_affinity :: "bool list"
  m_core_running :: core_id_t
  m_last_scheduled_in :: SubsecondTime
  m_last_scheduled_out :: SubsecondTime

definition mk_ThreadInfo :: "nat \<Rightarrow> ThreadInfo" where
  "mk_ThreadInfo num_cores = \<lparr>m_has_affinity = False, m_explicit_affinity = False, m_core_affinity = replicate num_cores False,
     m_core_running = INVALID_CORE_ID, m_last_scheduled_in = 0, m_last_scheduled_out = 0\<rparr>"

definition clearAffinity :: "ThreadInfo \<Rightarrow> ThreadInfo" where
  "clearAffinity ti = ti\<lparr>m_core_affinity := map (\<lambda>_. False) (m_core_affinity ti)\<rparr>"

definition addAffinity :: "core_id_t \<Rightarrow> ThreadInfo \<Rightarrow> ThreadInfo res" where
  "addAffinity core_id ti =
     bindE (vec_put (m_core_affinity ti) core_id True) (\<lambda>a. Inr (ti\<lparr>m_core_affinity := a, m_has_affinity := True\<rparr>))"

definition setAffinitySingle :: "core_id_t \<Rightarrow> ThreadInfo \<Rightarrow> ThreadInfo res" where
  "setAffinitySingle core_id ti = addAffinity core_id (clearAffinity ti)"

definition hasAffinity :: "ThreadInfo \<Rightarrow> core_id_t \<Rightarrow> bool res" where
  "hasAffinity ti core_id = vec_at (m_core_affinity ti) core_id"

definition isRunning :: "ThreadInfo \<Rightarrow> bool" where
  "isRunning ti \<longleftrightarrow> m_core_running ti \<noteq> INVALID_CORE_ID"

section \<open>State\<close>

text \<open>
  The three builds that \<^verbatim>\<open>install_config.py\<close> makes: without changes, with the mapping of threads to cores read from a file, and
  with workloads that arrive in periods as well (\<^verbatim>\<open>PERIODIC_WORKLOAD\<close> and \<^verbatim>\<open>USE_RMU\<close>).
\<close>

datatype build_t = PLAIN | MODIFIED_CODE | PERIODIC_WORKLOAD

record Scheduler =
  sch_build :: build_t
  m_thread_manager :: ThreadManager
  app_id_of :: "thread_id_t \<Rightarrow> int"
  m_threads_runnable :: "bool list"
  m_quantum :: SubsecondTime
  m_last_periodic :: SubsecondTime
  m_thread_info :: "ThreadInfo list"
  m_core_thread_running :: "thread_id_t list"
  m_quantum_left :: "SubsecondTime list"
  core_thread_map :: "(int \<times> int) \<Rightarrow> int option"
  threads_on_core :: "thread_id_t list list"
  current_thread_count :: "int list"
  mw_rank_of_thread :: "thread_id_t \<Rightarrow> int option"
  m_interval :: SubsecondTime
  m_last_periodic_interval :: SubsecondTime
  m_num_apps :: int
  m_hyper_period_number :: int
  threads_of_app :: "thread_id_t list list"
  m_num_threads_exited :: int
  m_last_hyper_period_time :: SubsecondTime
  end_times :: "SubsecondTime list"
  hyper_period_start_time :: SubsecondTime
  num_app_per_hyper_period :: int
  num_threads_per_hyper_period :: int

abbreviation num_cores :: "Scheduler \<Rightarrow> nat" where
  "num_cores s \<equiv> length (m_core_thread_running s)"

abbreviation core_ids :: "Scheduler \<Rightarrow> core_id_t list" where
  "core_ids s \<equiv> map int [0..<num_cores s]"

text \<open>\<open>apps\<close>, \<open>app_per\<close> and \<open>threads_per\<close> are the configured number of applications, of those per period, and of threads per period.\<close>

definition mk_SchedulerPinnedBase ::
  "build_t \<Rightarrow> ThreadManager \<Rightarrow> (thread_id_t \<Rightarrow> int) \<Rightarrow> nat \<Rightarrow> SubsecondTime \<Rightarrow> SubsecondTime \<Rightarrow> nat \<Rightarrow> int \<Rightarrow> int \<Rightarrow> Scheduler" where
  "mk_SchedulerPinnedBase build tm app cores quantum interval apps app_per threads_per =
     \<lparr>sch_build = build, m_thread_manager = tm, app_id_of = app, m_threads_runnable = replicate 16 False, m_quantum = quantum,
      m_last_periodic = 0, m_thread_info = [], m_core_thread_running = replicate cores INVALID_THREAD_ID,
      m_quantum_left = replicate cores 0, core_thread_map = (\<lambda>_. None), threads_on_core = replicate cores [],
      current_thread_count = replicate apps 0, mw_rank_of_thread = (\<lambda>_. None), m_interval = interval, m_last_periodic_interval = 0,
      m_num_apps = int apps, m_hyper_period_number = 0, threads_of_app = replicate apps [], m_num_threads_exited = 0,
      m_last_hyper_period_time = 0, end_times = replicate cores 0, hyper_period_start_time = 0,
      num_app_per_hyper_period = app_per, num_threads_per_hyper_period = threads_per\<rparr>"

definition info_at :: "Scheduler \<Rightarrow> thread_id_t \<Rightarrow> ThreadInfo res" where
  "info_at s t = vec_at (m_thread_info s) t"

definition put_info :: "thread_id_t \<Rightarrow> ThreadInfo \<Rightarrow> Scheduler \<Rightarrow> Scheduler res" where
  "put_info t ti s = bindE (vec_put (m_thread_info s) t ti) (\<lambda>is. Inr (s\<lparr>m_thread_info := is\<rparr>))"

definition change_info :: "(ThreadInfo \<Rightarrow> ThreadInfo res) \<Rightarrow> thread_id_t \<Rightarrow> Scheduler \<Rightarrow> Scheduler res" where
  "change_info f t s = bindE (info_at s t) (\<lambda>ti. bindE (f ti) (\<lambda>ti. put_info t ti s))"

definition set_running :: "core_id_t \<Rightarrow> thread_id_t \<Rightarrow> Scheduler \<Rightarrow> Scheduler res" where
  "set_running c t s = bindE (vec_put (m_core_thread_running s) c t) (\<lambda>r. Inr (s\<lparr>m_core_thread_running := r\<rparr>))"

definition set_quantum :: "core_id_t \<Rightarrow> SubsecondTime \<Rightarrow> Scheduler \<Rightarrow> Scheduler res" where
  "set_quantum c q s = bindE (vec_put (m_quantum_left s) c q) (\<lambda>qs. Inr (s\<lparr>m_quantum_left := qs\<rparr>))"

definition set_runnable :: "thread_id_t \<Rightarrow> bool \<Rightarrow> Scheduler \<Rightarrow> Scheduler res" where
  "set_runnable t b s = bindE (vec_put (m_threads_runnable s) t b) (\<lambda>r. Inr (s\<lparr>m_threads_runnable := r\<rparr>))"

section \<open>The choice of a thread\<close>

fun first_free :: "ThreadInfo \<Rightarrow> thread_id_t list \<Rightarrow> core_id_t list \<Rightarrow> core_id_t res" where
  "first_free ti running [] = Inr INVALID_CORE_ID"
| "first_free ti running (c # cs) =
     bindE (hasAffinity ti c)
     (\<lambda>a. if a then bindE (vec_at running c) (\<lambda>t. if t = INVALID_THREAD_ID then Inr c else first_free ti running cs)
          else first_free ti running cs)"

definition findFreeCoreForThread :: "Scheduler \<Rightarrow> thread_id_t \<Rightarrow> core_id_t res" where
  "findFreeCoreForThread s t = bindE (info_at s t) (\<lambda>ti. first_free ti (m_core_thread_running s) (core_ids s))"

text \<open>A thread may get a core when it is allowed to run there, is not stalled, and does not run on another core.\<close>

definition eligible :: "core_id_t \<Rightarrow> thread_id_t \<Rightarrow> Scheduler \<Rightarrow> bool res" where
  "eligible core_id t s =
     bindE (info_at s t)
     (\<lambda>ti. bindE (hasAffinity ti core_id)
     (\<lambda>a. bindE (vec_at (m_threads_runnable s) t)
     (\<lambda>r. Inr (a \<and> r \<and> (\<not> isRunning ti \<or> m_core_running ti = core_id)))))"

text \<open>How long the thread has waited, or, negative, how long it has run, in picoseconds as a signed number of 64 bits.\<close>

definition sched_score :: "SubsecondTime \<Rightarrow> ThreadInfo \<Rightarrow> 64 word" where
  "sched_score time ti =
     (if isRunning ti then getPS (m_last_scheduled_in ti) - getPS time else getPS time - getPS (m_last_scheduled_out ti))"

fun scan_threads :: "SubsecondTime \<Rightarrow> core_id_t \<Rightarrow> Scheduler \<Rightarrow> thread_id_t list \<Rightarrow> thread_id_t \<times> 64 word \<Rightarrow> (thread_id_t \<times> 64 word) res" where
  "scan_threads time core_id s [] best = Inr best"
| "scan_threads time core_id s (t # ts) best =
     bindE (eligible core_id t s)
     (\<lambda>e. if e then bindE (info_at s t)
                     (\<lambda>ti. scan_threads time core_id s ts
                             (if sint (sched_score time ti) > sint (snd best) then (t, sched_score time ti) else best))
          else scan_threads time core_id s ts best)"

definition INT64_MIN :: "64 word" where
  "INT64_MIN = 0x8000000000000000"

definition pick_thread :: "SubsecondTime \<Rightarrow> core_id_t \<Rightarrow> Scheduler \<Rightarrow> thread_id_t res" where
  "pick_thread time core_id s =
     bindE (scan_threads time core_id s (map int [0..<length (m_threads_runnable s)]) (INVALID_THREAD_ID, INT64_MIN)) (\<lambda>(t, _). Inr t)"

section \<open>Moving threads\<close>

text \<open>
  \<^verbatim>\<open>SchedulerDynamic::moveThread\<close> with \<^verbatim>\<open>ThreadManager::moveThread\<close>, which calls the hook of the scheduler when it resumes the
  thread. The hook is an argument.
\<close>

type_synonym resume_hook = "thread_id_t \<Rightarrow> SubsecondTime \<Rightarrow> Scheduler \<Rightarrow> Scheduler res"

definition wake_unscheduled :: "resume_hook \<Rightarrow> thread_id_t \<Rightarrow> bool \<Rightarrow> SubsecondTime \<Rightarrow> Scheduler \<Rightarrow> Scheduler res" where
  "wake_unscheduled hook t no_core time s =
     bindE (state_at (m_thread_manager s) t)
     (\<lambda>x. if no_core \<and> ts_status x = STALLED \<and> stalled_reason x = Some STALL_UNSCHEDULED
          then bindE (resumeThread t INVALID_THREAD_ID time False (m_thread_manager s)) (\<lambda>tm. hook t time (s\<lparr>m_thread_manager := tm\<rparr>))
          else Inr s)"

definition enter_core :: "thread_id_t \<Rightarrow> core_id_t \<Rightarrow> Scheduler \<Rightarrow> Scheduler res" where
  "enter_core t core_id s =
     bindE (setCore t (Some core_id) (m_thread_manager s))
     (\<lambda>tm. bindE (state_at tm t)
     (\<lambda>x. Inr (s\<lparr>m_thread_manager := if ts_status x \<noteq> STALLED then set_core_state core_id RUNNING tm else tm\<rparr>)))"

definition sched_moveThread :: "resume_hook \<Rightarrow> thread_id_t \<Rightarrow> core_id_t \<Rightarrow> SubsecondTime \<Rightarrow> Scheduler \<Rightarrow> Scheduler res" where
  "sched_moveThread hook t core_id time s =
     bindE (getThreadFromID (m_thread_manager s) t)
     (\<lambda>x. let s = (case m_core x of None \<Rightarrow> s | Some c \<Rightarrow> s\<lparr>m_thread_manager := set_core_state c IDLE (m_thread_manager s)\<rparr>) in
      bindE (if core_id = INVALID_CORE_ID
             then bindE (setCore t None (m_thread_manager s)) (\<lambda>tm. Inr (s\<lparr>m_thread_manager := tm\<rparr>))
             else bindE (wake_unscheduled hook t (m_core x = None) time s) (enter_core t core_id))
      (\<lambda>s. Inr (s\<lparr>m_thread_manager := call_hook (HOOK_THREAD_MIGRATE t core_id time) (m_thread_manager s)\<rparr>)))"

text \<open>The thread on the core leaves it; another thread is put there.\<close>

definition unschedule :: "resume_hook \<Rightarrow> core_id_t \<Rightarrow> thread_id_t \<Rightarrow> SubsecondTime \<Rightarrow> Scheduler \<Rightarrow> Scheduler res" where
  "unschedule hook core_id t time s =
     bindE (change_info (\<lambda>ti. Inr (ti\<lparr>m_core_running := INVALID_CORE_ID, m_last_scheduled_out := time + PS (word_of_int core_id)\<rparr>)) t s)
     (sched_moveThread hook t INVALID_CORE_ID time)"

definition schedule_in :: "resume_hook \<Rightarrow> core_id_t \<Rightarrow> thread_id_t \<Rightarrow> SubsecondTime \<Rightarrow> Scheduler \<Rightarrow> Scheduler res" where
  "schedule_in hook core_id t time s =
     bindE (info_at s t)
     (\<lambda>ti. bindE (if isRunning ti then set_running (m_core_running ti) INVALID_THREAD_ID s else Inr s)
     (\<lambda>s. bindE (put_info t (ti\<lparr>m_core_running := core_id, m_last_scheduled_in := time\<rparr>) s)
     (sched_moveThread hook t core_id time)))"

definition switch_thread ::
  "resume_hook \<Rightarrow> core_id_t \<Rightarrow> thread_id_t \<Rightarrow> thread_id_t \<Rightarrow> SubsecondTime \<Rightarrow> Scheduler \<Rightarrow> Scheduler res" where
  "switch_thread hook core_id current new time s =
     bindE (if current \<noteq> INVALID_THREAD_ID then unschedule hook core_id current time s else Inr s)
     (\<lambda>s. bindE (set_running core_id new s)
     (\<lambda>s. if new \<noteq> INVALID_THREAD_ID then schedule_in hook core_id new time s else Inr s))"

definition is_initializing :: "Scheduler \<Rightarrow> thread_id_t \<Rightarrow> bool res" where
  "is_initializing s t =
     (if t = INVALID_THREAD_ID then Inr False
      else bindE (state_at (m_thread_manager s) t) (\<lambda>x. Inr (ts_status x = INITIALIZING)))"

definition reschedule_with :: "resume_hook \<Rightarrow> SubsecondTime \<Rightarrow> core_id_t \<Rightarrow> Scheduler \<Rightarrow> Scheduler res" where
  "reschedule_with hook time core_id s =
     bindE (vec_at (m_core_thread_running s) core_id)
     (\<lambda>current. bindE (is_initializing s current)
     (\<lambda>ini. if ini then Inr s
       else bindE (pick_thread time core_id s)
            (\<lambda>new. bindE (if current \<noteq> new then switch_thread hook core_id current new time s else Inr s)
            (\<lambda>s. set_quantum core_id (m_quantum s) s))))"

text \<open>\<^verbatim>\<open>__threadResume\<close> and \<^verbatim>\<open>threadResume\<close>: a thread that is runnable again gets a free core if there is one.\<close>

definition resume_with ::
  "(SubsecondTime \<Rightarrow> core_id_t \<Rightarrow> Scheduler \<Rightarrow> Scheduler res) \<Rightarrow> thread_id_t \<Rightarrow> SubsecondTime \<Rightarrow> Scheduler \<Rightarrow> Scheduler res" where
  "resume_with resched t time s =
     bindE (set_runnable t True s)
     (\<lambda>s. bindE (findFreeCoreForThread s t) (\<lambda>c. if c \<noteq> INVALID_CORE_ID then resched time c s else Inr s))"

text \<open>The recursion through the hook, with fuel; \<^verbatim>\<open>LS_Sched_Inv\<close> shows that the number of cores is enough.\<close>

fun reschedule_rec :: "nat \<Rightarrow> SubsecondTime \<Rightarrow> core_id_t \<Rightarrow> Scheduler \<Rightarrow> Scheduler res" where
  "reschedule_rec 0 time core_id s = Inl NonTermination"
| "reschedule_rec (Suc n) time core_id s = reschedule_with (resume_with (reschedule_rec n)) time core_id s"

definition reschedule :: "SubsecondTime \<Rightarrow> core_id_t \<Rightarrow> Scheduler \<Rightarrow> Scheduler res" where
  "reschedule time core_id s = reschedule_rec (Suc (num_cores s)) time core_id s"

section \<open>Events\<close>

definition resize_info :: "nat \<Rightarrow> Scheduler \<Rightarrow> Scheduler" where
  "resize_info n s = s\<lparr>m_thread_info := m_thread_info s @ replicate (n - length (m_thread_info s)) (mk_ThreadInfo (num_cores s))\<rparr>"

text \<open>The periods in which applications arrive: a thread of a later period waits.\<close>

definition wait_for_period :: "thread_id_t \<Rightarrow> Scheduler \<Rightarrow> Scheduler res" where
  "wait_for_period t s =
     bindE (vec_at (threads_of_app s) (app_id_of s t))
     (\<lambda>ts. bindE (vec_put (threads_of_app s) (app_id_of s t) (ts @ [t]))
     (\<lambda>a. bindE (change_info (\<lambda>ti. Inr (ti\<lparr>m_core_running := INVALID_CORE_ID\<rparr>)) t (s\<lparr>threads_of_app := a\<rparr>))
     (\<lambda>s. bindE (vec_at (current_thread_count s) (app_id_of s t))
     (\<lambda>n. bindE (vec_put (current_thread_count s) (app_id_of s t) (n + 1)) (\<lambda>cs. Inr (s\<lparr>current_thread_count := cs\<rparr>))))))"

text \<open>\<open>initial\<close> is \<^verbatim>\<open>threadSetInitialAffinity\<close> of the subclass.\<close>

definition threadCreate ::
  "(thread_id_t \<Rightarrow> Scheduler \<Rightarrow> Scheduler res) \<Rightarrow> thread_id_t \<Rightarrow> Scheduler \<Rightarrow> (core_id_t \<times> Scheduler) res" where
  "threadCreate initial t s =
     (let s = (if int (length (m_thread_info s)) \<le> t then resize_info (length (m_thread_info s) + 16) s else s) in
      if sch_build s = PERIODIC_WORKLOAD \<and> app_id_of s t \<ge> (m_hyper_period_number s + 1) * num_app_per_hyper_period s
      then bindE (wait_for_period t s) (\<lambda>s. Inr (INVALID_CORE_ID, s))
      else
        bindE (info_at s t)
        (\<lambda>ti. bindE (if m_has_affinity ti then Inr s else initial t s)
        (\<lambda>s. bindE (findFreeCoreForThread s t)
        (\<lambda>c. bindE (change_info (\<lambda>ti. Inr (ti\<lparr>m_core_running := c\<rparr>)) t s)
        (\<lambda>s. if c = INVALID_CORE_ID then Inr (c, s)
             else bindE (set_running c t s) (\<lambda>s. bindE (set_quantum c (m_quantum s) s) (\<lambda>s. Inr (c, s))))))))"

definition threadStart :: "thread_id_t \<Rightarrow> SubsecondTime \<Rightarrow> Scheduler \<Rightarrow> Scheduler res" where
  "threadStart t time s =
     (let s = (if int (length (m_threads_runnable s)) \<le> t then s\<lparr>m_threads_runnable := m_threads_runnable s @ replicate 16 False\<rparr> else s)
      in resume_with reschedule t time s)"

definition threadResume :: "thread_id_t \<Rightarrow> SubsecondTime \<Rightarrow> Scheduler \<Rightarrow> Scheduler res" where
  "threadResume t time s = resume_with reschedule t time s"

text \<open>The thread that runs becomes unrunnable: someone else gets the core.\<close>

definition leave_core :: "thread_id_t \<Rightarrow> SubsecondTime \<Rightarrow> Scheduler \<Rightarrow> Scheduler res" where
  "leave_core t time s =
     bindE (info_at s t) (\<lambda>ti. if isRunning ti then reschedule time (m_core_running ti) s else Inr s)"

definition sched_threadStall :: "thread_id_t \<Rightarrow> stall_type_t \<Rightarrow> SubsecondTime \<Rightarrow> Scheduler \<Rightarrow> Scheduler res" where
  "sched_threadStall t reason time s =
     (if reason = STALL_UNSCHEDULED then Inr s else bindE (set_runnable t False s) (leave_core t time))"

definition threadYield :: "(core_id_t \<Rightarrow> SubsecondTime) \<Rightarrow> thread_id_t \<Rightarrow> Scheduler \<Rightarrow> Scheduler res" where
  "threadYield core_time t s =
     bindE (info_at s t)
     (\<lambda>ti. let c = m_core_running ti in
        if c = INVALID_CORE_ID then Inr s
        else bindE (set_quantum c 0 s)
             (\<lambda>s. bindE (reschedule (core_time c) c s)
             (\<lambda>s. bindE (info_at s t)
             (\<lambda>ti. bindE (hasAffinity ti c)
             (\<lambda>a. if a then Inr s
                  else bindE (findFreeCoreForThread s t)
                       (\<lambda>f. if f \<noteq> INVALID_CORE_ID then reschedule (core_time c) f s else Inr s))))))"

section \<open>Affinity\<close>

fun add_cores :: "core_id_t list \<Rightarrow> ThreadInfo \<Rightarrow> ThreadInfo res" where
  "add_cores [] ti = Inr ti"
| "add_cores (c # cs) ti = bindE (addAffinity c ti) (add_cores cs)"

fun add_mask :: "nat \<Rightarrow> nat \<Rightarrow> bool list \<Rightarrow> ThreadInfo \<Rightarrow> ThreadInfo res" where
  "add_mask cores cpu [] ti = Inr ti"
| "add_mask cores cpu (b # bs) ti =
     bindE (if b then bindE (assertE (cpu < cores) (AssertError ''Invalid core %d found in sched_setaffinity() mask''))
                      (\<lambda>_. addAffinity (int cpu) ti)
            else Inr ti)
     (add_mask cores (Suc cpu) bs)"

text \<open>What is done at once when the cores of a thread change: it is moved at the next chance, or put on a core that is free.\<close>

definition apply_affinity ::
  "(core_id_t \<Rightarrow> SubsecondTime) \<Rightarrow> SubsecondTime \<Rightarrow> thread_id_t \<Rightarrow> Scheduler \<Rightarrow> Scheduler res" where
  "apply_affinity core_time global_time t s =
     bindE (info_at s t)
     (\<lambda>ti. bindE (if isRunning ti then hasAffinity ti (m_core_running ti) else Inr True)
     (\<lambda>stay. if \<not> stay then set_quantum (m_core_running ti) 0 s
       else bindE (vec_at (m_threads_runnable s) t)
            (\<lambda>r. if r \<and> \<not> isRunning ti
                 then bindE (findFreeCoreForThread s t)
                      (\<lambda>f. if f \<noteq> INVALID_CORE_ID then reschedule (max (core_time f) global_time) f s else Inr s)
                 else Inr s)))"

definition threadSetAffinity ::
  "(core_id_t \<Rightarrow> SubsecondTime) \<Rightarrow> SubsecondTime \<Rightarrow> thread_id_t \<Rightarrow> thread_id_t \<Rightarrow> bool list option \<Rightarrow> Scheduler \<Rightarrow> Scheduler res" where
  "threadSetAffinity core_time global_time caller t cpu_mask s =
     (let s = (if int (length (m_thread_info s)) \<le> t then resize_info (nat (t + 16)) s else s) in
      bindE (change_info (\<lambda>ti. let ti = ti\<lparr>m_explicit_affinity := True\<rparr> in
               case cpu_mask of None \<Rightarrow> add_cores (core_ids s) ti
                          | Some bits \<Rightarrow> add_mask (num_cores s) 0 bits (clearAffinity ti)) t s)
      (\<lambda>s. if t \<ge> int (length (m_threads (m_thread_manager s))) then Inr s
           else if t = caller then threadYield core_time t s
           else apply_affinity core_time global_time t s))"

definition threadGetAffinity :: "nat \<Rightarrow> thread_id_t \<Rightarrow> Scheduler \<Rightarrow> bool list option res" where
  "threadGetAffinity cpusetsize t s =
     (if cpusetsize * 8 < num_cores s then Inr None
      else bindE (info_at s t)
           (\<lambda>ti. Inr (Some (map (\<lambda>c. (m_core_affinity ti ! c) \<or> \<not> m_explicit_affinity ti) [0..<num_cores s] @
                            replicate (cpusetsize * 8 - num_cores s) False))))"

section \<open>New mappings\<close>

text \<open>The threads of one core are given another; the list collects where they go. The pairs come from the mapping file.\<close>

fun remap_threads ::
  "(core_id_t \<Rightarrow> SubsecondTime) \<Rightarrow> SubsecondTime \<Rightarrow> core_id_t \<Rightarrow> thread_id_t list \<Rightarrow> Scheduler \<Rightarrow> Scheduler res" where
  "remap_threads core_time global_time to_core [] s = Inr s"
| "remap_threads core_time global_time to_core (t # ts) s =
     bindE (change_info (\<lambda>ti. addAffinity to_core (clearAffinity (ti\<lparr>m_explicit_affinity := True\<rparr>))) t s)
     (\<lambda>s. bindE (if t \<ge> int (length (m_threads (m_thread_manager s))) then Inr s else apply_affinity core_time global_time t s)
     (remap_threads core_time global_time to_core ts))"

fun remap_cores ::
  "(core_id_t \<Rightarrow> SubsecondTime) \<Rightarrow> SubsecondTime \<Rightarrow> (core_id_t \<times> core_id_t) list \<Rightarrow> thread_id_t list list \<Rightarrow> Scheduler
     \<Rightarrow> (thread_id_t list list \<times> Scheduler) res" where
  "remap_cores core_time global_time [] new s = Inr (new, s)"
| "remap_cores core_time global_time ((from_core, to_core) # ps) new s =
     bindE (vec_at (threads_on_core s) from_core)
     (\<lambda>ts. bindE (if ts = [] then Inr new else bindE (vec_at new to_core) (\<lambda>us. vec_put new to_core (us @ ts)))
     (\<lambda>new. bindE (remap_threads core_time global_time to_core ts s)
     (\<lambda>s. bindE (vec_put (threads_on_core s) from_core [])
     (\<lambda>tc. remap_cores core_time global_time ps new (s\<lparr>threads_on_core := tc\<rparr>)))))"

definition changeMapping ::
  "(core_id_t \<Rightarrow> SubsecondTime) \<Rightarrow> SubsecondTime \<Rightarrow> bool \<Rightarrow> (core_id_t \<times> core_id_t) list \<Rightarrow> Scheduler \<Rightarrow> Scheduler res" where
  "changeMapping core_time global_time is_mapping_changed mapping s =
     (if is_mapping_changed
      then bindE (remap_cores core_time global_time mapping (replicate (num_cores s) []) s)
           (\<lambda>(new, s). Inr (s\<lparr>threads_on_core := map2 (@) (threads_on_core s) new\<rparr>))
      else Inr s)"

section \<open>The periodic call\<close>

fun periodic_cores :: "SubsecondTime \<Rightarrow> SubsecondTime \<Rightarrow> core_id_t list \<Rightarrow> Scheduler \<Rightarrow> Scheduler res" where
  "periodic_cores time delta [] s = Inr s"
| "periodic_cores time delta (c # cs) s =
     bindE (vec_at (m_quantum_left s) c)
     (\<lambda>q. bindE (vec_at (m_core_thread_running s) c)
     (\<lambda>t. bindE (if delta > q \<or> t = INVALID_THREAD_ID then reschedule time c s else set_quantum c (q - delta) s)
     (periodic_cores time delta cs)))"

text \<open>\<open>intervention\<close> is the contents of the mapping file when \<^verbatim>\<open>runtime_intervention\<close> is set. The new frequencies of the cores are left out.\<close>

definition periodic ::
  "(core_id_t \<Rightarrow> SubsecondTime) \<Rightarrow> SubsecondTime \<Rightarrow> (bool \<times> (core_id_t \<times> core_id_t) list) option \<Rightarrow> SubsecondTime \<Rightarrow> Scheduler \<Rightarrow> Scheduler res" where
  "periodic core_time global_time intervention time s =
     bindE (case intervention of
              Some (changed, mapping) \<Rightarrow>
                if sch_build s \<noteq> PLAIN \<and> time \<ge> m_last_periodic_interval s + m_interval s
                then bindE (changeMapping core_time global_time changed mapping s) (\<lambda>s. Inr (s\<lparr>m_last_periodic_interval := time\<rparr>))
                else Inr s
            | None \<Rightarrow> Inr s)
     (\<lambda>s. bindE (periodic_cores time (time - m_last_periodic s) (core_ids s) s) (\<lambda>s. Inr (s\<lparr>m_last_periodic := time\<rparr>)))"

section \<open>The end of a thread and of a period\<close>

fun insert_mapping :: "int \<Rightarrow> (int \<times> int \<times> int) list \<Rightarrow> (int \<times> int \<Rightarrow> int option) \<Rightarrow> (int \<times> int \<Rightarrow> int option)" where
  "insert_mapping offset [] m = m"
| "insert_mapping offset ((core_id, app_id, thread_id) # rows) m =
     insert_mapping offset rows
       (case m (app_id + offset, thread_id) of Some _ \<Rightarrow> m | None \<Rightarrow> m((app_id + offset, thread_id) \<mapsto> core_id))"

text \<open>A key that is not in the map is inserted with value zero, as \<^verbatim>\<open>operator[]\<close> does.\<close>

definition map_core :: "int \<times> int \<Rightarrow> Scheduler \<Rightarrow> core_id_t \<times> Scheduler" where
  "map_core key s = (case core_thread_map s key of Some c \<Rightarrow> (c, s) | None \<Rightarrow> (0, s\<lparr>core_thread_map := (core_thread_map s)(key \<mapsto> 0)\<rparr>))"

definition push_thread :: "core_id_t \<Rightarrow> thread_id_t \<Rightarrow> int \<Rightarrow> Scheduler \<Rightarrow> Scheduler res" where
  "push_thread core_id t rank s =
     bindE (vec_at (threads_on_core s) core_id)
     (\<lambda>ts. bindE (vec_put (threads_on_core s) core_id (ts @ [t]))
     (\<lambda>tc. Inr (s\<lparr>threads_on_core := tc, mw_rank_of_thread := (case mw_rank_of_thread s t of
         Some _ \<Rightarrow> mw_rank_of_thread s | None \<Rightarrow> (mw_rank_of_thread s)(t \<mapsto> rank))\<rparr>)))"

fun place_threads :: "SubsecondTime \<Rightarrow> int \<Rightarrow> int \<Rightarrow> thread_id_t list \<Rightarrow> Scheduler \<Rightarrow> Scheduler res" where
  "place_threads time app_id thread_count [] s = Inr s"
| "place_threads time app_id thread_count (t # ts) s =
     (let (core_id, s) = map_core (app_id, thread_count) s in
      bindE (change_info (\<lambda>ti. addAffinity core_id (clearAffinity (ti\<lparr>m_explicit_affinity := True\<rparr>))) t s)
      (\<lambda>s. bindE (set_running core_id t s)
      (\<lambda>s. bindE (set_quantum core_id (m_quantum s) s)
      (\<lambda>s. bindE (change_info (\<lambda>ti. Inr (ti\<lparr>m_core_running := core_id, m_last_scheduled_in := time\<rparr>)) t s)
      (\<lambda>s. bindE (sched_moveThread (resume_with reschedule) t core_id time s)
      (\<lambda>s. bindE (push_thread core_id t thread_count s)
      (place_threads time app_id (thread_count + 1) ts)))))))"

fun place_apps :: "SubsecondTime \<Rightarrow> int list \<Rightarrow> Scheduler \<Rightarrow> Scheduler res" where
  "place_apps time [] s = Inr s"
| "place_apps time (app_id # as) s =
     bindE (vec_at (threads_of_app s) app_id) (\<lambda>ts. bindE (place_threads time app_id 0 ts s) (place_apps time as))"

text \<open>\<open>rows\<close> is the file with the mapping of the next period, which an external program has written.\<close>

definition next_hyper_period :: "SubsecondTime \<Rightarrow> (int \<times> int \<times> int) list \<Rightarrow> Scheduler \<Rightarrow> Scheduler res" where
  "next_hyper_period time rows s =
     (let offset = (m_hyper_period_number s + 1) * num_app_per_hyper_period s;
          s = s\<lparr>m_num_threads_exited := 0, m_hyper_period_number := m_hyper_period_number s + 1, hyper_period_start_time := time,
                m_last_hyper_period_time := time, core_thread_map := insert_mapping offset rows (core_thread_map s),
                threads_on_core := map (\<lambda>_. []) (threads_on_core s)\<rparr>
      in place_apps time (map (\<lambda>i. offset + i) [0..num_app_per_hyper_period s - 1]) s)"

text \<open>\<^verbatim>\<open>end_times\<close> is written only in the third build.\<close>

definition note_end_time :: "thread_id_t \<Rightarrow> SubsecondTime \<Rightarrow> Scheduler \<Rightarrow> Scheduler res" where
  "note_end_time t time s =
     bindE (info_at s t) (\<lambda>ti. bindE (vec_put (end_times s) (m_core_running ti) time) (\<lambda>e. Inr (s\<lparr>end_times := e\<rparr>)))"

definition end_of_period :: "Scheduler \<Rightarrow> bool res" where
  "end_of_period s =
     bindE (if num_app_per_hyper_period s = 0 then Inl DivByZero else Inr (m_num_apps s div num_app_per_hyper_period s))
     (\<lambda>max_hyper_periods. Inr (m_num_threads_exited s = num_threads_per_hyper_period s \<and> m_hyper_period_number s < max_hyper_periods - 1))"

definition exit_thread :: "thread_id_t \<Rightarrow> SubsecondTime \<Rightarrow> (int \<times> int \<times> int) list \<Rightarrow> Scheduler \<Rightarrow> Scheduler res" where
  "exit_thread t time rows s =
     bindE (leave_core t time s)
     (\<lambda>s. if sch_build s \<noteq> PERIODIC_WORKLOAD then Inr s
          else bindE (note_end_time t time s)
               (\<lambda>s. let s = s\<lparr>m_num_threads_exited := m_num_threads_exited s + 1\<rparr> in
                    bindE (end_of_period s) (\<lambda>e. if e then next_hyper_period time rows s else Inr s)))"

definition threadExit :: "thread_id_t \<Rightarrow> SubsecondTime \<Rightarrow> (int \<times> int \<times> int) list \<Rightarrow> Scheduler \<Rightarrow> Scheduler res" where
  "threadExit t time rows s = bindE (set_runnable t False s) (exit_thread t time rows)"

section \<open>The thread manager with the scheduler behind its hooks\<close>

definition sys_enter :: "thread_id_t \<Rightarrow> core_id_t \<Rightarrow> Scheduler \<Rightarrow> Scheduler res" where
  "sys_enter t c s =
     (if c = INVALID_CORE_ID then Inr s
      else bindE (setCore t (Some c) (m_thread_manager s)) (\<lambda>tm. Inr (s\<lparr>m_thread_manager := set_core_state c INITIALIZING tm\<rparr>)))"

definition sys_createThread ::
  "(thread_id_t \<Rightarrow> Scheduler \<Rightarrow> Scheduler res) \<Rightarrow> SubsecondTime \<times> bool \<Rightarrow> thread_id_t \<Rightarrow> Scheduler \<Rightarrow> Scheduler res" where
  "sys_createThread initial wakeup creator s =
     (let tm = m_thread_manager s; t = int (length (m_threads tm));
          tm = tm\<lparr>m_threads := m_threads tm @ [\<lparr>m_wakeup_time = fst wakeup, m_wakeup_msg = snd wakeup, m_core = None\<rparr>],
                  m_thread_state := m_thread_state tm @ [mk_ThreadState\<lparr>ts_status := INITIALIZING\<rparr>]\<rparr>
      in bindE (threadCreate initial t (s\<lparr>m_thread_manager := tm\<rparr>))
         (\<lambda>(c, s). bindE (sys_enter t c s)
         (\<lambda>s. Inr (s\<lparr>m_thread_manager := call_hook (HOOK_THREAD_CREATE t creator) (m_thread_manager s)\<rparr>))))"

text \<open>After the hook has run, the thread runs on the core it has got, or waits for one.\<close>

definition settle_started :: "thread_id_t \<Rightarrow> SubsecondTime \<Rightarrow> SubsecondTime \<Rightarrow> ThreadManager \<Rightarrow> ThreadManager res" where
  "settle_started t time elapsed tm =
     bindE (getThreadFromID tm t)
     (\<lambda>x. bindE (state_at tm t)
     (\<lambda>st. let (time, st, tm) =
                (case m_core x of
                   Some c \<Rightarrow> (max time elapsed, st\<lparr>ts_status := RUNNING\<rparr>,
                              call_hook (HOOK_THREAD_MIGRATE t c (max time elapsed)) (set_core_state c RUNNING tm))
                 | None \<Rightarrow> (time, st\<lparr>ts_status := STALLED, stalled_reason := Some STALL_UNSCHEDULED\<rparr>, tm))
           in if ts_waiter st \<noteq> INVALID_THREAD_ID
              then bindE (thread_signal (ts_waiter st) time False (put_state tm t st))
                   (\<lambda>tm. Inr (put_state tm t (st\<lparr>ts_waiter := INVALID_THREAD_ID\<rparr>)))
              else Inr (put_state tm t st)))"

definition sys_onThreadStart :: "thread_id_t \<Rightarrow> SubsecondTime \<Rightarrow> SubsecondTime \<Rightarrow> Scheduler \<Rightarrow> Scheduler res" where
  "sys_onThreadStart t time elapsed s =
     bindE (getThreadFromID (m_thread_manager s) t)
     (\<lambda>_. bindE (state_at (m_thread_manager s) t)
     (\<lambda>st. let tm = call_hook (HOOK_THREAD_START t time) (put_state (m_thread_manager s) t (st\<lparr>ts_status := RUNNING\<rparr>)) in
        bindE (threadStart t time (s\<lparr>m_thread_manager := tm\<rparr>))
        (\<lambda>s. bindE (settle_started t time elapsed (m_thread_manager s)) (\<lambda>tm. Inr (s\<lparr>m_thread_manager := tm\<rparr>)))))"

definition sys_stallThread :: "thread_id_t \<Rightarrow> stall_type_t \<Rightarrow> SubsecondTime \<Rightarrow> Scheduler \<Rightarrow> Scheduler res" where
  "sys_stallThread t reason time s =
     bindE (stallThread_async t reason time (m_thread_manager s)) (\<lambda>tm. sched_threadStall t reason time (s\<lparr>m_thread_manager := tm\<rparr>))"

definition sys_resumeThread :: "thread_id_t \<Rightarrow> thread_id_t \<Rightarrow> SubsecondTime \<Rightarrow> bool \<Rightarrow> Scheduler \<Rightarrow> Scheduler res" where
  "sys_resumeThread t thread_by time msg s =
     bindE (resumeThread t thread_by time msg (m_thread_manager s)) (\<lambda>tm. threadResume t time (s\<lparr>m_thread_manager := tm\<rparr>))"

definition sys_wakeUpWaiter :: "thread_id_t \<Rightarrow> SubsecondTime \<Rightarrow> Scheduler \<Rightarrow> Scheduler res" where
  "sys_wakeUpWaiter t time s =
     bindE (state_at (m_thread_manager s) t)
     (\<lambda>st. if ts_waiter st = INVALID_THREAD_ID then Inr s
           else bindE (sys_resumeThread (ts_waiter st) t time False s)
                (\<lambda>s. bindE (state_at (m_thread_manager s) t)
                (\<lambda>st. Inr (s\<lparr>m_thread_manager := put_state (m_thread_manager s) t (st\<lparr>ts_waiter := INVALID_THREAD_ID\<rparr>)\<rparr>))))"

text \<open>\<open>cleared\<close> is the thread that the wake of \<^verbatim>\<open>CLONE_CHILD_CLEARTID\<close> in the system call server resumes, with its time, if any.\<close>

definition sys_onThreadExit ::
  "thread_id_t \<Rightarrow> SubsecondTime \<Rightarrow> (thread_id_t \<times> SubsecondTime) option \<Rightarrow> (int \<times> int \<times> int) list \<Rightarrow> Scheduler \<Rightarrow> Scheduler res" where
  "sys_onThreadExit t time cleared rows s =
     bindE (getThreadFromID (m_thread_manager s) t)
     (\<lambda>x. case m_core x of
        None \<Rightarrow> Inl (AssertError ''Thread ended while not running on a core?'')
      | Some c \<Rightarrow>
          bindE (state_at (m_thread_manager s) t)
          (\<lambda>st. bindE (assertE (ts_status st = RUNNING) (AssertError ''m_thread_state[thread_id].status == Core::RUNNING''))
          (\<lambda>_. bindE (sys_wakeUpWaiter t time (s\<lparr>m_thread_manager := put_state (m_thread_manager s) t (st\<lparr>ts_status := IDLE\<rparr>)\<rparr>))
          (\<lambda>s. bindE (case cleared of None \<Rightarrow> Inr s | Some (w, wake_time) \<Rightarrow> sys_resumeThread w t wake_time True s)
          (\<lambda>s. bindE (setCore t None (set_core_state c IDLE (m_thread_manager s)))
          (\<lambda>tm. threadExit t time rows (s\<lparr>m_thread_manager := call_hook (HOOK_THREAD_EXIT t time) tm\<rparr>)))))))"

section \<open>The pinned scheduler\<close>

record SchedulerPinned =
  m_interleaving :: int
  m_core_mask :: "bool list"
  m_next_core :: core_id_t

definition mk_SchedulerPinned :: "int \<Rightarrow> bool list \<Rightarrow> SchedulerPinned" where
  "mk_SchedulerPinned interleaving core_mask = \<lparr>m_interleaving = interleaving, m_core_mask = core_mask, m_next_core = 0\<rparr>"

text \<open>The second half of the constructor, in the builds that read the mapping from a file.\<close>

definition read_mapping :: "(int \<times> int \<times> int) list \<Rightarrow> Scheduler \<Rightarrow> Scheduler" where
  "read_mapping rows s = s\<lparr>core_thread_map := insert_mapping 0 (filter (\<lambda>(core_id, app_id, thread_id). app_id \<noteq> -1) rows) (core_thread_map s)\<rparr>"

text \<open>The core after a core, also if it is masked out; then the search for one that is not, which need not end.\<close>

definition step_core :: "int \<Rightarrow> int \<Rightarrow> core_id_t \<Rightarrow> core_id_t" where
  "step_core cores interleaving core_id =
     (let core_id = core_id + interleaving in if core_id \<ge> cores then (core_id mod cores + 1) mod interleaving else core_id)"

partial_function (option) getNextCore :: "SchedulerPinned \<Rightarrow> core_id_t \<Rightarrow> core_id_t res option" where
  "getNextCore p core_id =
     (let c = step_core (int (length (m_core_mask p))) (m_interleaving p) core_id in
      case vec_at (m_core_mask p) c of
        Inl e \<Rightarrow> Some (Inl e)
      | Inr b \<Rightarrow> if b then Some (Inr c) else getNextCore p c)"

partial_function (option) free_core_from :: "SchedulerPinned \<Rightarrow> thread_id_t list \<Rightarrow> core_id_t \<Rightarrow> core_id_t \<Rightarrow> core_id_t res option" where
  "free_core_from p running core_first core_next =
     (case bindE (vec_at running core_next) (\<lambda>t. bindE (vec_at (m_core_mask p) core_next) (\<lambda>b. Inr (t = INVALID_THREAD_ID \<and> b))) of
        Inl e \<Rightarrow> Some (Inl e)
      | Inr free \<Rightarrow>
          if free then Some (Inr core_next)
          else Option.bind (getNextCore p core_next)
                 (\<lambda>r. case r of Inl e \<Rightarrow> Some (Inl e)
                       | Inr c \<Rightarrow> if c = core_first then Some (Inr core_first) else free_core_from p running core_first c))"

declare getNextCore.simps [code] free_core_from.simps [code]

definition may_hang :: "'a res option \<Rightarrow> 'a res" where
  "may_hang r = (case r of None \<Rightarrow> Inl NonTermination | Some r \<Rightarrow> r)"

definition getFreeCore :: "SchedulerPinned \<Rightarrow> Scheduler \<Rightarrow> core_id_t \<Rightarrow> core_id_t res" where
  "getFreeCore p s core_first = may_hang (free_core_from p (m_core_thread_running s) core_first core_first)"

text \<open>\<^verbatim>\<open>threadSetInitialAffinity\<close> of the first build, and of the builds that read the mapping from a file.\<close>

definition pinned_initial :: "thread_id_t \<Rightarrow> SchedulerPinned \<times> Scheduler \<Rightarrow> (SchedulerPinned \<times> Scheduler) res" where
  "pinned_initial t ps =
     (case ps of (p, s) \<Rightarrow>
        bindE (getFreeCore p s (m_next_core p))
        (\<lambda>c. bindE (may_hang (getNextCore p c))
        (\<lambda>n. bindE (change_info (setAffinitySingle c) t s) (\<lambda>s. Inr (p\<lparr>m_next_core := n\<rparr>, s)))))"

definition mapped_initial :: "thread_id_t \<Rightarrow> Scheduler \<Rightarrow> Scheduler res" where
  "mapped_initial t s =
     bindE (vec_at (current_thread_count s) (app_id_of s t))
     (\<lambda>key_thread. let (core_id, s) = map_core (app_id_of s t, key_thread) s in
        bindE (push_thread core_id t key_thread s)
        (\<lambda>s. bindE (vec_put (current_thread_count s) (app_id_of s t) (key_thread + 1))
        (\<lambda>cs. change_info (setAffinitySingle core_id) t (s\<lparr>current_thread_count := cs\<rparr>))))"

section \<open>The roaming, big/small and static schedulers\<close>

fun add_masked :: "bool list \<Rightarrow> core_id_t list \<Rightarrow> ThreadInfo \<Rightarrow> ThreadInfo res" where
  "add_masked core_mask [] ti = Inr ti"
| "add_masked core_mask (c # cs) ti =
     bindE (vec_at core_mask c) (\<lambda>b. bindE (if b then addAffinity c ti else Inr ti) (add_masked core_mask cs))"

definition roaming_initial :: "bool list \<Rightarrow> thread_id_t \<Rightarrow> Scheduler \<Rightarrow> Scheduler res" where
  "roaming_initial core_mask t s = change_info (\<lambda>ti. add_masked core_mask (core_ids s) (clearAffinity ti)) t s"

record SchedulerBigSmall =
  m_num_big_cores :: UInt64
  m_mask_big :: "bool list"
  m_mask_small :: "bool list"
  m_last_reshuffle :: SubsecondTime
  m_rng :: UInt64
  m_thread_isbig :: "thread_id_t \<Rightarrow> bool"

text \<open>\<open>big\<close> says which cores have the tag.\<close>

definition mk_SchedulerBigSmall :: "bool list \<Rightarrow> SchedulerBigSmall" where
  "mk_SchedulerBigSmall big = \<lparr>m_num_big_cores = of_nat (length (filter id big)), m_mask_big = big, m_mask_small = map Not big,
     m_last_reshuffle = 0, m_rng = rng_seed 42, m_thread_isbig = (\<lambda>_. False)\<rparr>"

type_synonym BigSmall = "SchedulerBigSmall \<times> Scheduler"

definition moveToSmall :: "(core_id_t \<Rightarrow> SubsecondTime) \<Rightarrow> SubsecondTime \<Rightarrow> thread_id_t \<Rightarrow> BigSmall \<Rightarrow> BigSmall res" where
  "moveToSmall core_time global_time t bs =
     (case bs of (b, s) \<Rightarrow>
        bindE (threadSetAffinity core_time global_time INVALID_THREAD_ID t (Some (m_mask_small b)) s)
        (\<lambda>s. Inr (b\<lparr>m_thread_isbig := (m_thread_isbig b)(t := False)\<rparr>, s)))"

definition moveToBig :: "(core_id_t \<Rightarrow> SubsecondTime) \<Rightarrow> SubsecondTime \<Rightarrow> thread_id_t \<Rightarrow> BigSmall \<Rightarrow> BigSmall res" where
  "moveToBig core_time global_time t bs =
     (case bs of (b, s) \<Rightarrow>
        bindE (threadSetAffinity core_time global_time INVALID_THREAD_ID t (Some (m_mask_big b)) s)
        (\<lambda>s. Inr (b\<lparr>m_thread_isbig := (m_thread_isbig b)(t := True)\<rparr>, s)))"

definition big_small_initial :: "(core_id_t \<Rightarrow> SubsecondTime) \<Rightarrow> SubsecondTime \<Rightarrow> thread_id_t \<Rightarrow> BigSmall \<Rightarrow> BigSmall res" where
  "big_small_initial core_time global_time t bs = moveToSmall core_time global_time t bs"

fun eligible_big :: "SchedulerBigSmall \<Rightarrow> Scheduler \<Rightarrow> thread_id_t list \<Rightarrow> thread_id_t list res" where
  "eligible_big b s [] = Inr []"
| "eligible_big b s (t # ts) =
     bindE (if m_thread_isbig b t then Inr False else vec_at (m_threads_runnable s) t)
     (\<lambda>e. bindE (eligible_big b s ts) (\<lambda>es. Inr (if e then t # es else es)))"

abbreviation thread_ids :: "Scheduler \<Rightarrow> thread_id_t list" where
  "thread_ids s \<equiv> map int [0..<length (m_threads (m_thread_manager s))]"

definition pickBigThread :: "(core_id_t \<Rightarrow> SubsecondTime) \<Rightarrow> SubsecondTime \<Rightarrow> BigSmall \<Rightarrow> BigSmall res" where
  "pickBigThread core_time global_time bs =
     (case bs of (b, s) \<Rightarrow>
        bindE (eligible_big b s (thread_ids s))
        (\<lambda>es. if es = [] then Inr (b, s)
              else let (r, rng) = rng_next (m_rng b) in
                   moveToBig core_time global_time (es ! (unat r mod length es)) (b\<lparr>m_rng := rng\<rparr>, s)))"

definition big_small_stall ::
  "(core_id_t \<Rightarrow> SubsecondTime) \<Rightarrow> SubsecondTime \<Rightarrow> thread_id_t \<Rightarrow> stall_type_t \<Rightarrow> SubsecondTime \<Rightarrow> BigSmall \<Rightarrow> BigSmall res" where
  "big_small_stall core_time global_time t reason time bs =
     (if reason = STALL_UNSCHEDULED then Inr bs
      else case bs of (b, s) \<Rightarrow>
        bindE (set_runnable t False s)
        (\<lambda>s. bindE (if m_thread_isbig b t
                    then bindE (pickBigThread core_time global_time (b, s)) (moveToSmall core_time global_time t) else Inr (b, s))
        (\<lambda>(b, s). bindE (leave_core t time s) (\<lambda>s. Inr (b, s)))))"

definition big_small_exit ::
  "(core_id_t \<Rightarrow> SubsecondTime) \<Rightarrow> SubsecondTime \<Rightarrow> thread_id_t \<Rightarrow> SubsecondTime \<Rightarrow> (int \<times> int \<times> int) list \<Rightarrow> BigSmall \<Rightarrow> BigSmall res" where
  "big_small_exit core_time global_time t time rows bs =
     (case bs of (b, s) \<Rightarrow>
        bindE (set_runnable t False s)
        (\<lambda>s. bindE (if m_thread_isbig b t then pickBigThread core_time global_time (b, s) else Inr (b, s))
        (\<lambda>(b, s). bindE (exit_thread t time rows s) (\<lambda>s. Inr (b, s)))))"

fun all_to_small :: "(core_id_t \<Rightarrow> SubsecondTime) \<Rightarrow> SubsecondTime \<Rightarrow> thread_id_t list \<Rightarrow> BigSmall \<Rightarrow> BigSmall res" where
  "all_to_small core_time global_time [] bs = Inr bs"
| "all_to_small core_time global_time (t # ts) bs =
     bindE (if m_thread_isbig (fst bs) t then moveToSmall core_time global_time t bs else Inr bs) (all_to_small core_time global_time ts)"

fun pick_big_threads :: "(core_id_t \<Rightarrow> SubsecondTime) \<Rightarrow> SubsecondTime \<Rightarrow> nat \<Rightarrow> BigSmall \<Rightarrow> BigSmall res" where
  "pick_big_threads core_time global_time 0 bs = Inr bs"
| "pick_big_threads core_time global_time (Suc n) bs =
     bindE (pickBigThread core_time global_time bs) (pick_big_threads core_time global_time n)"

definition reshuffle :: "(core_id_t \<Rightarrow> SubsecondTime) \<Rightarrow> SubsecondTime \<Rightarrow> SubsecondTime \<Rightarrow> BigSmall \<Rightarrow> BigSmall res" where
  "reshuffle core_time global_time time bs =
     (if time > m_last_reshuffle (fst bs) + m_quantum (snd bs)
      then bindE (all_to_small core_time global_time (thread_ids (snd bs)) bs)
           (\<lambda>bs. bindE (pick_big_threads core_time global_time
                          (min (unat (m_num_big_cores (fst bs))) (length (m_threads (m_thread_manager (snd bs))))) bs)
           (\<lambda>(b, s). Inr (b\<lparr>m_last_reshuffle := time\<rparr>, s)))
      else Inr bs)"

definition big_small_periodic ::
  "(core_id_t \<Rightarrow> SubsecondTime) \<Rightarrow> SubsecondTime \<Rightarrow> (bool \<times> (core_id_t \<times> core_id_t) list) option \<Rightarrow> SubsecondTime \<Rightarrow> BigSmall \<Rightarrow> BigSmall res" where
  "big_small_periodic core_time global_time intervention time bs =
     bindE (reshuffle core_time global_time time bs)
     (\<lambda>(b, s). bindE (periodic core_time global_time intervention time s) (\<lambda>s. Inr (b, s)))"

definition findFirstFreeCore :: "nat \<Rightarrow> ThreadManager \<Rightarrow> core_id_t" where
  "findFirstFreeCore cores tm =
     (case filter (\<lambda>c. core_state tm (int c) = IDLE) [0..<cores] of [] \<Rightarrow> INVALID_CORE_ID | c # _ \<Rightarrow> int c)"

definition findFirstFreeMaskedCore :: "bool list \<Rightarrow> ThreadManager \<Rightarrow> core_id_t" where
  "findFirstFreeMaskedCore core_mask tm =
     (case filter (\<lambda>c. core_mask ! c \<and> core_state tm (int c) = IDLE) [0..<length core_mask] of [] \<Rightarrow> INVALID_CORE_ID | c # _ \<Rightarrow> int c)"

definition static_threadCreate :: "bool list \<Rightarrow> ThreadManager \<Rightarrow> core_id_t res" where
  "static_threadCreate core_mask tm =
     (let c = findFirstFreeMaskedCore core_mask tm in
      bindE (assertE (c \<noteq> INVALID_CORE_ID) (AssertError ''No cores available for spawnThread request.'')) (\<lambda>_. Inr c))"

end
