(* ===== verification/LS_Sched_Inv.thy ===== *)
theory LS_Sched_Inv
  imports LS_Scheduler
begin

text \<open>
  The tables of the scheduler agree with each other and with the thread manager, and rescheduling returns. While a thread is being
  moved, the scheduler has already noted its core and the thread manager has not; the invariant names the threads for which this
  is so.
\<close>

section \<open>The invariant\<close>

lemmas invalid_defs = INVALID_CORE_ID_def INVALID_THREAD_ID_def

lemma vec_at_int [simp]: "i < length xs \<Longrightarrow> vec_at xs (int i) = Inr (xs ! i)"
  by (simp add: vec_at_def)

lemma vec_put_int [simp]: "i < length xs \<Longrightarrow> vec_put xs (int i) x = Inr (xs[i := x])"
  by (simp add: vec_put_def)

definition tables_ok :: "Scheduler \<Rightarrow> bool" where
  "tables_ok s \<longleftrightarrow> length (m_quantum_left s) = num_cores s \<and> length (m_threads_runnable s) \<le> length (m_thread_info s) \<and>
     (\<forall>i<length (m_thread_info s). length (m_core_affinity (m_thread_info s ! i)) = num_cores s) \<and>
     (\<forall>k<num_cores s. m_core_thread_running s ! k = -1 \<or>
        (\<exists>j. m_core_thread_running s ! k = int j \<and> j < length (m_thread_info s) \<and> m_core_running (m_thread_info s ! j) = int k)) \<and>
     (\<forall>j<length (m_thread_info s). m_core_running (m_thread_info s ! j) = -1 \<or>
        (\<exists>k. m_core_running (m_thread_info s ! j) = int k \<and> k < num_cores s \<and> m_core_thread_running s ! k = int j))"

text \<open>The threads of \<open>P\<close> have a core in the tables of the scheduler and none in the thread manager.\<close>

definition cores_agree :: "nat set \<Rightarrow> ThreadManager \<Rightarrow> ThreadInfo list \<Rightarrow> thread_id_t list \<Rightarrow> bool" where
  "cores_agree P tm is running \<longleftrightarrow>
     (\<forall>j<length (m_threads tm). m_core (m_threads tm ! j) =
        (if j \<in> P \<or> m_core_running (is ! j) = -1 then None else Some (m_core_running (is ! j)))) \<and>
     (\<forall>k<length running. core_thread tm (int k) =
        (if running ! k = -1 \<or> nat (running ! k) \<in> P then None else Some (running ! k)))"

definition threads_known :: "Scheduler \<Rightarrow> bool" where
  "threads_known s \<longleftrightarrow>
     (let n = length (m_threads (m_thread_manager s)) in
      length (m_thread_state (m_thread_manager s)) = n \<and> n \<le> length (m_thread_info s) \<and>
      (\<forall>j<length (m_threads_runnable s). m_threads_runnable s ! j \<longrightarrow> j < n) \<and>
      (\<forall>j<length (m_thread_info s). m_core_running (m_thread_info s ! j) \<noteq> -1 \<longrightarrow> j < n))"

definition sched_inv :: "nat set \<Rightarrow> Scheduler \<Rightarrow> bool" where
  "sched_inv P s \<longleftrightarrow> tables_ok s \<and> threads_known s \<and>
     cores_agree P (m_thread_manager s) (m_thread_info s) (m_core_thread_running s) \<and>
     (\<forall>j\<in>P. j < length (m_thread_info s) \<and> m_core_running (m_thread_info s ! j) \<noteq> -1)"

lemmas sched_inv_defs = sched_inv_def tables_ok_def threads_known_def cores_agree_def Let_def

lemma sched_inv_lengths:
  "sched_inv P s \<Longrightarrow> length (m_quantum_left s) = num_cores s"
  "sched_inv P s \<Longrightarrow> length (m_threads_runnable s) \<le> length (m_thread_info s)"
  "sched_inv P s \<Longrightarrow> i < length (m_thread_info s) \<Longrightarrow> length (m_core_affinity (m_thread_info s ! i)) = num_cores s"
  "sched_inv P s \<Longrightarrow> length (m_thread_state (m_thread_manager s)) = length (m_threads (m_thread_manager s))"
  "sched_inv P s \<Longrightarrow> length (m_threads (m_thread_manager s)) \<le> length (m_thread_info s)"
  by (auto simp: sched_inv_defs)

lemma sched_inv_running:
  assumes "sched_inv P s" and "k < num_cores s" and "m_core_thread_running s ! k \<noteq> -1"
  obtains j where "m_core_thread_running s ! k = int j" "j < length (m_threads (m_thread_manager s))" "j < length (m_thread_info s)"
    "m_core_running (m_thread_info s ! j) = int k"
proof -
  from assms obtain j where j: "m_core_thread_running s ! k = int j" "j < length (m_thread_info s)" "m_core_running (m_thread_info s ! j) = int k"
    unfolding sched_inv_def tables_ok_def by blast
  moreover from this have "j < length (m_threads (m_thread_manager s))" using assms(1) by (auto simp: sched_inv_def threads_known_def Let_def)
  ultimately show thesis using that by blast
qed

lemma sched_inv_core:
  assumes "sched_inv P s" and "j < length (m_thread_info s)" and "m_core_running (m_thread_info s ! j) \<noteq> -1"
  obtains k where "m_core_running (m_thread_info s ! j) = int k" "k < num_cores s" "m_core_thread_running s ! k = int j"
  using assms unfolding sched_inv_def tables_ok_def by blast

section \<open>The thread that is chosen\<close>

definition may_run :: "Scheduler \<Rightarrow> nat \<Rightarrow> nat \<Rightarrow> bool" where
  "may_run s k j \<longleftrightarrow> j < length (m_threads_runnable s) \<and> m_threads_runnable s ! j \<and> m_core_affinity (m_thread_info s ! j) ! k \<and>
     m_core_running (m_thread_info s ! j) \<in> {-1, int k}"

abbreviation waited :: "SubsecondTime \<Rightarrow> Scheduler \<Rightarrow> nat \<Rightarrow> int" where
  "waited time s j \<equiv> sint (sched_score time (m_thread_info s ! j))"

lemma eligible_may_run:
  assumes "sched_inv P s" and "k < num_cores s" and "j < length (m_threads_runnable s)"
  shows "eligible (int k) (int j) s = Inr (may_run s k j)"
proof -
  have "j < length (m_thread_info s)" using assms(3) sched_inv_lengths(2) [OF assms(1)] by simp
  then show ?thesis using assms(2,3) sched_inv_lengths(3) [OF assms(1)]
    by (auto simp: eligible_def info_at_def hasAffinity_def may_run_def isRunning_def invalid_defs)
qed

lemma scan_threads_best:
  assumes "sched_inv P s" and "k < num_cores s" and "set js \<subseteq> {0..<length (m_threads_runnable s)}"
  shows "\<exists>t v. scan_threads time (int k) s (map int js) best = Inr (t, v) \<and> sint (snd best) \<le> sint v \<and>
    ((t, v) = best \<or> (\<exists>j. t = int j \<and> may_run s k j \<and> sint v = waited time s j)) \<and>
    (\<forall>j\<in>set js. may_run s k j \<longrightarrow> waited time s j \<le> sint v)"
  using assms(3)
proof (induction js arbitrary: best)
  case Nil
  then show ?case by (cases best) auto
next
  case (Cons j js)
  have j: "j < length (m_threads_runnable s)" "j < length (m_thread_info s)" "set js \<subseteq> {0..<length (m_threads_runnable s)}"
    using Cons.prems sched_inv_lengths(2) [OF assms(1)] by auto
  note el = eligible_may_run [OF assms(1,2) j(1)]
  show ?case
  proof (cases "may_run s k j \<and> waited time s j > sint (snd best)")
    case True
    then show ?thesis using el j(2) Cons.IH [OF j(3), of "(int j, sched_score time (m_thread_info s ! j))"]
      by (auto simp: info_at_def)
  next
    case False
    then show ?thesis using el j(2) Cons.IH [OF j(3), of best] by (fastforce simp: info_at_def)
  qed
qed

lemma pick_thread_best:
  assumes "sched_inv P s" and "k < num_cores s"
  shows "\<exists>t. pick_thread time (int k) s = Inr t \<and>
    (t = -1 \<and> (\<forall>j. may_run s k j \<longrightarrow> waited time s j = sint INT64_MIN) \<or>
     (\<exists>j. t = int j \<and> may_run s k j \<and> (\<forall>i. may_run s k i \<longrightarrow> waited time s i \<le> waited time s j)))"
proof -
  obtain t v where t: "scan_threads time (int k) s (map int [0..<length (m_threads_runnable s)]) (INVALID_THREAD_ID, INT64_MIN) = Inr (t, v)"
    "(t, v) = (INVALID_THREAD_ID, INT64_MIN) \<or> (\<exists>j. t = int j \<and> may_run s k j \<and> sint v = waited time s j)"
    "\<forall>j\<in>set [0..<length (m_threads_runnable s)]. may_run s k j \<longrightarrow> waited time s j \<le> sint v"
    using scan_threads_best [OF assms, of "[0..<length (m_threads_runnable s)]" time "(INVALID_THREAD_ID, INT64_MIN)"] by auto
  have all: "waited time s j \<le> sint v" if "may_run s k j" for j using t(3) that by (auto simp: may_run_def)
  have min: "sint INT64_MIN \<le> sint (x :: 64 word)" for x using sint_ge [of x] by (simp add: INT64_MIN_def)
  from t(2) show ?thesis
  proof
    assume "(t, v) = (INVALID_THREAD_ID, INT64_MIN)"
    then show ?thesis using t(1) all min by (auto simp: pick_thread_def invalid_defs intro: antisym)
  next
    assume "\<exists>j. t = int j \<and> may_run s k j \<and> sint v = waited time s j"
    then show ?thesis using t(1) all by (auto simp: pick_thread_def)
  qed
qed

section \<open>Steps of a switch\<close>

text \<open>What rescheduling may change, and what of it stays.\<close>

definition untouched :: "Scheduler \<Rightarrow> Scheduler" where
  "untouched s = s\<lparr>m_thread_manager := mk_ThreadManager (\<lambda>_. IDLE), m_thread_info := [], m_core_thread_running := [], m_quantum_left := []\<rparr>"

text \<open>No thread goes back to its initial state.\<close>

definition settled :: "ThreadManager \<Rightarrow> ThreadManager \<Rightarrow> bool" where
  "settled tm tm' \<longleftrightarrow> (\<forall>j. ts_status (m_thread_state tm' ! j) = INITIALIZING \<longrightarrow> ts_status (m_thread_state tm ! j) = INITIALIZING)"

lemma settled_refl [simp]: "settled tm tm"
  by (simp add: settled_def)

lemma settled_same: "m_thread_state tm' = m_thread_state tm \<Longrightarrow> settled tm tm'"
  by (simp add: settled_def)

definition frame :: "Scheduler \<Rightarrow> Scheduler \<Rightarrow> bool" where
  "frame s s' \<longleftrightarrow> untouched s' = untouched s \<and> settled (m_thread_manager s) (m_thread_manager s') \<and>
     num_cores s' = num_cores s \<and> length (m_thread_info s') = length (m_thread_info s) \<and>
     length (m_threads (m_thread_manager s')) = length (m_threads (m_thread_manager s)) \<and>
     (\<forall>j<length (m_thread_info s). m_core_affinity (m_thread_info s' ! j) = m_core_affinity (m_thread_info s ! j) \<and>
        m_explicit_affinity (m_thread_info s' ! j) = m_explicit_affinity (m_thread_info s ! j))"

lemma frame_refl: "frame s s"
  by (simp add: frame_def)

lemma frame_trans: "frame s1 s2 \<Longrightarrow> frame s2 s3 \<Longrightarrow> frame s1 s3"
  by (simp add: frame_def settled_def)

lemma frame_fields:
  assumes "frame s s'"
  shows "sch_build s' = sch_build s" "m_threads_runnable s' = m_threads_runnable s" "m_quantum s' = m_quantum s"
    "end_times s' = end_times s" "threads_on_core s' = threads_on_core s" "app_id_of s' = app_id_of s"
proof -
  have u: "untouched s' = untouched s" using assms by (simp add: frame_def)
  show "sch_build s' = sch_build s" using arg_cong [OF u, of sch_build] by (simp add: untouched_def)
  show "m_threads_runnable s' = m_threads_runnable s" using arg_cong [OF u, of m_threads_runnable] by (simp add: untouched_def)
  show "m_quantum s' = m_quantum s" using arg_cong [OF u, of m_quantum] by (simp add: untouched_def)
  show "end_times s' = end_times s" using arg_cong [OF u, of end_times] by (simp add: untouched_def)
  show "threads_on_core s' = threads_on_core s" using arg_cong [OF u, of threads_on_core] by (simp add: untouched_def)
  show "app_id_of s' = app_id_of s" using arg_cong [OF u, of app_id_of] by (simp add: untouched_def)
qed

lemma move_off:
  assumes "j < length (m_threads tm)"
  shows "\<exists>tm'. sched_moveThread hook (int j) (-1) time (s\<lparr>m_thread_manager := tm\<rparr>) = Inr (s\<lparr>m_thread_manager := tm'\<rparr>) \<and>
    length (m_threads tm') = length (m_threads tm) \<and> m_thread_state tm' = m_thread_state tm \<and>
    (\<forall>i<length (m_threads tm). m_core (m_threads tm' ! i) = (if i = j then None else m_core (m_threads tm ! i))) \<and>
    core_thread tm' = (case m_core (m_threads tm ! j) of None \<Rightarrow> core_thread tm | Some c \<Rightarrow> (core_thread tm)(c := None))"
  using assms
  by (auto simp: sched_moveThread_def getThreadFromID_def valid_thread_def setCore_def set_core_state_def put_thread_def call_hook_def
      invalid_defs nth_list_update split: option.splits)

lemma enter_core_moves:
  assumes "j < length (m_threads tm)" and "length (m_thread_state tm) = length (m_threads tm)"
    and "m_core (m_threads tm ! j) = None" and "core_thread tm (int k) = None"
  shows "\<exists>tm'. enter_core (int j) (int k) (s\<lparr>m_thread_manager := tm\<rparr>) = Inr (s\<lparr>m_thread_manager := tm'\<rparr>) \<and>
    length (m_threads tm') = length (m_threads tm) \<and> m_thread_state tm' = m_thread_state tm \<and>
    (\<forall>i<length (m_threads tm). m_core (m_threads tm' ! i) = (if i = j then Some (int k) else m_core (m_threads tm ! i))) \<and>
    core_thread tm' = (core_thread tm)(int k := Some (int j))"
  using assms
  by (auto simp: enter_core_def getThreadFromID_def valid_thread_def setCore_def set_core_state_def put_thread_def state_at_def
      nth_list_update)

lemma resume_keeps_cores:
  assumes "j < length (m_threads tm)" and "length (m_thread_state tm) = length (m_threads tm)"
  shows "\<exists>tm'. resumeThread (int j) by_thread time msg tm = Inr tm' \<and> length (m_threads tm') = length (m_threads tm) \<and>
    length (m_thread_state tm') = length (m_thread_state tm) \<and>
    (\<forall>i<length (m_threads tm). m_core (m_threads tm' ! i) = m_core (m_threads tm ! i)) \<and> core_thread tm' = core_thread tm \<and> settled tm tm'"
  using assms
  by (auto simp: settled_def resumeThread_def thread_signal_def resumeThread_async_def getThreadFromID_def valid_thread_def state_at_def put_thread_def
      put_state_def call_hook_def nth_list_update)

text \<open>The invariant looks at the thread manager only through the cores.\<close>

lemma sched_inv_tm:
  assumes "sched_inv P s" and "length (m_threads tm') = length (m_threads (m_thread_manager s))"
    and "length (m_thread_state tm') = length (m_thread_state (m_thread_manager s))"
    and "\<forall>i<length (m_threads (m_thread_manager s)). m_core (m_threads tm' ! i) = m_core (m_threads (m_thread_manager s) ! i)"
    and "core_thread tm' = core_thread (m_thread_manager s)"
  shows "sched_inv P (s\<lparr>m_thread_manager := tm'\<rparr>)"
  using assms by (simp add: sched_inv_defs)

text \<open>One thread less on one core, and one more.\<close>

lemma tables_free:
  assumes ok: "tables_ok s" and k: "k < num_cores s" and j: "m_core_thread_running s ! k = int j" and jn: "j < length (m_thread_info s)"
    and core: "m_core_running (m_thread_info s ! j) = int k"
    and ti: "m_core_running ti = -1" "m_core_affinity ti = m_core_affinity (m_thread_info s ! j)"
  shows "tables_ok (s\<lparr>m_thread_info := (m_thread_info s)[j := ti], m_core_thread_running := (m_core_thread_running s)[k := -1]\<rparr>)"
proof -
  have "\<exists>i. m_core_thread_running s ! c = int i \<and> i < length (m_thread_info s) \<and> m_core_running ((m_thread_info s)[j := ti] ! i) = int c"
    if c: "c < num_cores s" "c \<noteq> k" "m_core_thread_running s ! c \<noteq> -1" for c
  proof -
    obtain i where i: "m_core_thread_running s ! c = int i" "i < length (m_thread_info s)" "m_core_running (m_thread_info s ! i) = int c"
      using ok c unfolding tables_ok_def by blast
    then have "i \<noteq> j" using core c(2) by auto
    then show ?thesis using i by simp
  qed
  moreover have "\<exists>c. m_core_running (m_thread_info s ! i) = int c \<and> c < num_cores s \<and> (m_core_thread_running s)[k := -1] ! c = int i"
    if i: "i < length (m_thread_info s)" "i \<noteq> j" "m_core_running (m_thread_info s ! i) \<noteq> -1" for i
  proof -
    obtain c where c: "m_core_running (m_thread_info s ! i) = int c" "c < num_cores s" "m_core_thread_running s ! c = int i"
      using ok i unfolding tables_ok_def by blast
    then have "c \<noteq> k" using j i(2) by auto
    then show ?thesis using c by simp
  qed
  moreover have "length (m_core_affinity ((m_thread_info s)[j := ti] ! i)) = num_cores s" if "i < length (m_thread_info s)" for i
    using ok ti(2) that by (cases "i = j") (auto simp: tables_ok_def)
  ultimately show ?thesis using ok k jn ti(1) unfolding tables_ok_def
    by (simp, intro conjI allI impI) (metis nth_list_update_eq nth_list_update_neq)+
qed

lemma tables_fill:
  assumes ok: "tables_ok s" and k: "k < num_cores s" and free: "m_core_thread_running s ! k = -1" and jn: "j < length (m_thread_info s)"
    and core: "m_core_running (m_thread_info s ! j) = -1"
    and ti: "m_core_running ti = int k" "m_core_affinity ti = m_core_affinity (m_thread_info s ! j)"
  shows "tables_ok (s\<lparr>m_thread_info := (m_thread_info s)[j := ti], m_core_thread_running := (m_core_thread_running s)[k := int j]\<rparr>)"
proof -
  have "\<exists>i. m_core_thread_running s ! c = int i \<and> i < length (m_thread_info s) \<and> m_core_running ((m_thread_info s)[j := ti] ! i) = int c"
    if c: "c < num_cores s" "m_core_thread_running s ! c \<noteq> -1" for c
  proof -
    obtain i where i: "m_core_thread_running s ! c = int i" "i < length (m_thread_info s)" "m_core_running (m_thread_info s ! i) = int c"
      using ok c unfolding tables_ok_def by blast
    then have "i \<noteq> j" using core by auto
    then show ?thesis using i by simp
  qed
  moreover have "\<exists>c. m_core_running (m_thread_info s ! i) = int c \<and> c < num_cores s \<and> (m_core_thread_running s)[k := int j] ! c = int i"
    if i: "i < length (m_thread_info s)" "m_core_running (m_thread_info s ! i) \<noteq> -1" for i
  proof -
    obtain c where c: "m_core_running (m_thread_info s ! i) = int c" "c < num_cores s" "m_core_thread_running s ! c = int i"
      using ok i unfolding tables_ok_def by blast
    then have "c \<noteq> k" using free by auto
    then show ?thesis using c by simp
  qed
  moreover have "length (m_core_affinity ((m_thread_info s)[j := ti] ! i)) = num_cores s" if "i < length (m_thread_info s)" for i
    using ok ti(2) that by (cases "i = j") (auto simp: tables_ok_def)
  ultimately show ?thesis using ok k jn ti(1) unfolding tables_ok_def
    by (simp, intro conjI allI impI) (metis nth_list_update_eq nth_list_update_neq)+
qed

text \<open>The thread leaves the core: in the tables and in the thread manager.\<close>

lemma unschedule_free:
  assumes inv: "sched_inv P s" and k: "k < num_cores s" and j: "m_core_thread_running s ! k = int j"
  shows "\<exists>s1. unschedule hook (int k) (int j) time s = Inr s1 \<and> m_core_thread_running s1 = m_core_thread_running s \<and> frame s s1 \<and>
    sched_inv (P - {j}) (s1\<lparr>m_core_thread_running := (m_core_thread_running s)[k := -1]\<rparr>) \<and>
    (\<forall>i. i \<noteq> j \<longrightarrow> m_thread_info s1 ! i = m_thread_info s ! i)"
proof -
  have "m_core_thread_running s ! k \<noteq> -1" using j by simp
  from sched_inv_running [OF inv k this] j have jn: "j < length (m_threads (m_thread_manager s))" "j < length (m_thread_info s)"
    "m_core_running (m_thread_info s ! j) = int k" by auto
  let ?ti = "(m_thread_info s ! j)\<lparr>m_core_running := -1, m_last_scheduled_out := time + PS (word_of_int (int k))\<rparr>"
  let ?is = "(m_thread_info s)[j := ?ti]"
  obtain tm' where tm': "sched_moveThread hook (int j) (-1) time (s\<lparr>m_thread_info := ?is, m_thread_manager := m_thread_manager s\<rparr>) =
      Inr (s\<lparr>m_thread_info := ?is, m_thread_manager := tm'\<rparr>)"
    "length (m_threads tm') = length (m_threads (m_thread_manager s))" "m_thread_state tm' = m_thread_state (m_thread_manager s)"
    "\<forall>i<length (m_threads (m_thread_manager s)). m_core (m_threads tm' ! i) = (if i = j then None else m_core (m_threads (m_thread_manager s) ! i))"
    "core_thread tm' = (case m_core (m_threads (m_thread_manager s) ! j) of None \<Rightarrow> core_thread (m_thread_manager s)
       | Some c \<Rightarrow> (core_thread (m_thread_manager s))(c := None))"
    using move_off [OF jn(1), of hook time "s\<lparr>m_thread_info := ?is\<rparr>"] by auto
  let ?s1 = "s\<lparr>m_thread_info := ?is, m_thread_manager := tm'\<rparr>"
  have run: "unschedule hook (int k) (int j) time s = Inr ?s1"
    using jn(2) tm'(1) by (simp add: unschedule_def change_info_def info_at_def put_info_def invalid_defs)
  have core: "m_core (m_threads (m_thread_manager s) ! j) = (if j \<in> P then None else Some (int k))"
    using inv jn by (simp add: sched_inv_def cores_agree_def)
  have ag: "cores_agree (P - {j}) tm' ?is ((m_core_thread_running s)[k := -1])"
    unfolding cores_agree_def
  proof (intro conjI allI impI)
    fix i assume "i < length (m_threads tm')"
    then show "m_core (m_threads tm' ! i) = (if i \<in> P - {j} \<or> m_core_running (?is ! i) = -1 then None else Some (m_core_running (?is ! i)))"
      using inv tm'(2,4) jn(2) by (auto simp: sched_inv_def cores_agree_def nth_list_update)
  next
    fix c assume "c < length ((m_core_thread_running s)[k := -1])"
    then have c: "c < num_cores s" by simp
    have own: "m_core_thread_running s ! c \<noteq> int j" if "c \<noteq> k"
    proof
      assume "m_core_thread_running s ! c = int j"
      then show False using sched_inv_running [OF inv c] jn(3) that by auto
    qed
    have old: "core_thread (m_thread_manager s) (int c) =
        (if m_core_thread_running s ! c = -1 \<or> nat (m_core_thread_running s ! c) \<in> P then None else Some (m_core_thread_running s ! c))"
      using inv c by (simp add: sched_inv_def cores_agree_def)
    show "core_thread tm' (int c) = (if (m_core_thread_running s)[k := -1] ! c = -1 \<or> nat ((m_core_thread_running s)[k := -1] ! c) \<in> P - {j}
        then None else Some ((m_core_thread_running s)[k := -1] ! c))"
    proof (cases "c = k")
      case True
      then show ?thesis using tm'(5) core j old k by (cases "j \<in> P") simp_all
    next
      case False
      have "core_thread tm' (int c) = core_thread (m_thread_manager s) (int c)" using tm'(5) core False by (cases "j \<in> P") simp_all
      moreover have "m_core_thread_running s ! c = -1 \<or> nat (m_core_thread_running s ! c) \<noteq> j"
        using sched_inv_running [OF inv c] own [OF False] by force
      ultimately show ?thesis using old False by auto
    qed
  qed
  have "sched_inv (P - {j}) (?s1\<lparr>m_core_thread_running := (m_core_thread_running s)[k := -1]\<rparr>)"
    unfolding sched_inv_def
  proof (intro conjI)
    show "tables_ok (?s1\<lparr>m_core_thread_running := (m_core_thread_running s)[k := -1]\<rparr>)"
      using tables_free [OF _ k j jn(2,3), of ?ti] inv by (simp add: sched_inv_def tables_ok_def)
    show "threads_known (?s1\<lparr>m_core_thread_running := (m_core_thread_running s)[k := -1]\<rparr>)"
      using inv tm'(2,3) jn(1) by (auto simp: sched_inv_def threads_known_def Let_def)
  qed (use ag inv in \<open>auto simp: sched_inv_def nth_list_update\<close>)
  moreover have "frame s ?s1" using tm'(2,3) jn(2) by (auto simp: frame_def untouched_def settled_same nth_list_update)
  ultimately show ?thesis using run by auto
qed

text \<open>The thread gets the core: in the tables first, then in the thread manager.\<close>

lemma fill_inv:
  assumes inv: "sched_inv P s" and k: "k < num_cores s" and free: "m_core_thread_running s ! k = -1"
    and j: "j < length (m_threads (m_thread_manager s))" "m_core_running (m_thread_info s ! j) = -1"
    and ti: "m_core_running ti = int k" "m_core_affinity ti = m_core_affinity (m_thread_info s ! j)"
  shows "sched_inv (insert j P) (s\<lparr>m_thread_info := (m_thread_info s)[j := ti], m_core_thread_running := (m_core_thread_running s)[k := int j]\<rparr>)"
proof -
  have jn: "j < length (m_thread_info s)" using j(1) sched_inv_lengths(5) [OF inv] by simp
  have "core_thread (m_thread_manager s) (int c) = (if (m_core_thread_running s)[k := int j] ! c = -1 \<or>
      nat ((m_core_thread_running s)[k := int j] ! c) \<in> insert j P then None else Some ((m_core_thread_running s)[k := int j] ! c))"
    if c: "c < num_cores s" for c
  proof (cases "c = k")
    case True
    then show ?thesis using inv k free by (simp add: sched_inv_def cores_agree_def)
  next
    case False
    have "m_core_thread_running s ! c = -1 \<or> nat (m_core_thread_running s ! c) \<noteq> j"
      using sched_inv_running [OF inv c] j(2) by force
    then show ?thesis using inv c False by (auto simp: sched_inv_def cores_agree_def)
  qed
  then have "cores_agree (insert j P) (m_thread_manager s) ((m_thread_info s)[j := ti]) ((m_core_thread_running s)[k := int j])"
    using inv j jn by (auto simp: sched_inv_def cores_agree_def nth_list_update)
  moreover have "tables_ok (s\<lparr>m_thread_info := (m_thread_info s)[j := ti], m_core_thread_running := (m_core_thread_running s)[k := int j]\<rparr>)"
    using tables_fill [OF _ k free jn j(2) ti] inv by (simp add: sched_inv_def)
  moreover have "threads_known (s\<lparr>m_thread_info := (m_thread_info s)[j := ti], m_core_thread_running := (m_core_thread_running s)[k := int j]\<rparr>)"
    using inv j(1) jn by (auto simp: sched_inv_def threads_known_def Let_def nth_list_update)
  ultimately show ?thesis using inv jn ti(1) by (auto simp: sched_inv_def nth_list_update)
qed

text \<open>The thread manager follows: the thread that was in motion has arrived.\<close>

lemma arrive_inv:
  assumes inv: "sched_inv (insert j P) s" and "j \<notin> P" and k: "k < num_cores s" "m_core_thread_running s ! k = int j"
    and tm': "length (m_threads tm') = length (m_threads (m_thread_manager s))"
      "length (m_thread_state tm') = length (m_thread_state (m_thread_manager s))"
      "\<forall>i<length (m_threads (m_thread_manager s)). m_core (m_threads tm' ! i) = (if i = j then Some (int k) else m_core (m_threads (m_thread_manager s) ! i))"
      "core_thread tm' = (core_thread (m_thread_manager s))(int k := Some (int j))"
  shows "sched_inv P (s\<lparr>m_thread_manager := tm'\<rparr>)"
proof -
  have jn: "m_core_running (m_thread_info s ! j) = int k" using sched_inv_running [OF inv k(1)] k(2) by auto
  have other: "m_core_thread_running s ! c = -1 \<or> nat (m_core_thread_running s ! c) \<noteq> j" if "c < num_cores s" "c \<noteq> k" for c
    using sched_inv_running [OF inv that(1)] jn that(2) by force
  have "cores_agree P tm' (m_thread_info s) (m_core_thread_running s)"
    unfolding cores_agree_def
  proof (intro conjI allI impI)
    fix i assume "i < length (m_threads tm')"
    then show "m_core (m_threads tm' ! i) = (if i \<in> P \<or> m_core_running (m_thread_info s ! i) = -1 then None else Some (m_core_running (m_thread_info s ! i)))"
      using inv tm'(1,3) jn assms(2) by (auto simp: sched_inv_def cores_agree_def)
  next
    fix c assume c: "c < num_cores s"
    then show "core_thread tm' (int c) = (if m_core_thread_running s ! c = -1 \<or> nat (m_core_thread_running s ! c) \<in> P then None
        else Some (m_core_thread_running s ! c))"
      using inv tm'(4) k(2) assms(2) other by (auto simp: sched_inv_def cores_agree_def)
  qed
  then show ?thesis using inv tm'(1,2) by (auto simp: sched_inv_def tables_ok_def threads_known_def Let_def)
qed

lemma in_motion:
  assumes inv: "sched_inv (insert j P) s" and k: "k < num_cores s" "m_core_thread_running s ! k = int j"
  shows "j < length (m_threads (m_thread_manager s))" "m_core (m_threads (m_thread_manager s) ! j) = None"
    "core_thread (m_thread_manager s) (int k) = None"
proof -
  show j: "j < length (m_threads (m_thread_manager s))" using sched_inv_running [OF inv k(1)] k(2) by auto
  show "m_core (m_threads (m_thread_manager s) ! j) = None" "core_thread (m_thread_manager s) (int k) = None"
    using inv j k by (auto simp: sched_inv_def cores_agree_def)
qed

lemma enter_core_inv:
  assumes inv: "sched_inv (insert j P) s" and "j \<notin> P" and k: "k < num_cores s" "m_core_thread_running s ! k = int j"
  shows "\<exists>tm'. enter_core (int j) (int k) s = Inr (s\<lparr>m_thread_manager := tm'\<rparr>) \<and> sched_inv P (s\<lparr>m_thread_manager := tm'\<rparr>) \<and>
    length (m_threads tm') = length (m_threads (m_thread_manager s)) \<and> settled (m_thread_manager s) tm'"
proof -
  obtain tm' where tm': "enter_core (int j) (int k) s = Inr (s\<lparr>m_thread_manager := tm'\<rparr>)"
      "length (m_threads tm') = length (m_threads (m_thread_manager s))"
      "m_thread_state tm' = m_thread_state (m_thread_manager s)"
      "\<forall>i<length (m_threads (m_thread_manager s)). m_core (m_threads tm' ! i) = (if i = j then Some (int k) else m_core (m_threads (m_thread_manager s) ! i))"
      "core_thread tm' = (core_thread (m_thread_manager s))(int k := Some (int j))"
    using enter_core_moves [OF in_motion(1) [OF inv k] sched_inv_lengths(4) [OF inv], of k s] in_motion(2,3) [OF inv k] by auto
  then show ?thesis using arrive_inv [OF assms, of tm'] by (auto simp: settled_same)
qed

section \<open>Rescheduling returns\<close>

definition free_cores :: "Scheduler \<Rightarrow> nat set" where
  "free_cores s = {k. k < num_cores s \<and> m_core_thread_running s ! k = -1}"

lemma finite_free [simp]: "finite (free_cores s)"
  by (simp add: free_cores_def)

text \<open>A core keeps its thread, unless it was free or is one of \<open>K\<close>; a new thread on a core is a runnable one.\<close>

definition new_thread_ok :: "Scheduler \<Rightarrow> thread_id_t \<Rightarrow> bool" where
  "new_thread_ok s t \<longleftrightarrow> t = -1 \<or> (\<exists>i<length (m_threads_runnable s). t = int i \<and> m_threads_runnable s ! i)"

definition busy_kept :: "nat set \<Rightarrow> Scheduler \<Rightarrow> Scheduler \<Rightarrow> bool" where
  "busy_kept K s s' \<longleftrightarrow> (\<forall>c<num_cores s. m_core_thread_running s' ! c = m_core_thread_running s ! c \<or>
     (c \<in> K \<or> m_core_thread_running s ! c = -1) \<and> new_thread_ok s' (m_core_thread_running s' ! c))"

text \<open>What a hook may rely on and has to do: it is called for a runnable thread that has got its core.\<close>

definition hook_ok :: "nat \<Rightarrow> resume_hook \<Rightarrow> bool" where
  "hook_ok n hook \<longleftrightarrow> (\<forall>P s j time. sched_inv P s \<longrightarrow> card (free_cores s) \<le> n \<longrightarrow> j < length (m_threads_runnable s) \<longrightarrow> m_threads_runnable s ! j \<longrightarrow>
     (\<exists>s'. hook (int j) time s = Inr s' \<and> sched_inv P s' \<and> frame s s' \<and> busy_kept {} s s'))"

lemma first_free_found:
  assumes "sched_inv P s" and "j < length (m_thread_info s)" and "set ks \<subseteq> {0..<num_cores s}"
  shows "\<exists>c. first_free (m_thread_info s ! j) (m_core_thread_running s) (map int ks) = Inr c \<and>
    (c = -1 \<and> (\<forall>k\<in>set ks. m_core_affinity (m_thread_info s ! j) ! k \<longrightarrow> k \<notin> free_cores s) \<or>
     (\<exists>k. c = int k \<and> k \<in> free_cores s \<and> m_core_affinity (m_thread_info s ! j) ! k))"
  using assms(3)
proof (induction ks)
  case (Cons k ks)
  then have "k < num_cores s" by simp
  then show ?case using Cons sched_inv_lengths(3) [OF assms(1,2)]
    by (auto simp: hasAffinity_def free_cores_def invalid_defs)
qed (simp add: invalid_defs)

lemma findFreeCoreForThread_found:
  assumes "sched_inv P s" and "j < length (m_thread_info s)"
  shows "\<exists>c. findFreeCoreForThread s (int j) = Inr c \<and>
    (c = -1 \<and> (\<forall>k\<in>free_cores s. \<not> m_core_affinity (m_thread_info s ! j) ! k) \<or>
     (\<exists>k. c = int k \<and> k \<in> free_cores s \<and> m_core_affinity (m_thread_info s ! j) ! k))"
  using first_free_found [OF assms, of "[0..<num_cores s]"] assms(2) by (auto simp: findFreeCoreForThread_def info_at_def free_cores_def)

lemma running_info_swap:
  "s\<lparr>m_core_thread_running := r, m_thread_info := is\<rparr> = s\<lparr>m_thread_info := is, m_core_thread_running := r\<rparr>" for s :: Scheduler
  by simp

lemma sched_inv_not_pending: "sched_inv P s \<Longrightarrow> m_core_running (m_thread_info s ! j) = -1 \<Longrightarrow> j \<notin> P"
  by (auto simp: sched_inv_def)

lemma sched_inv_hook_log: "sched_inv P s \<Longrightarrow> sched_inv P (s\<lparr>m_thread_manager := call_hook e (m_thread_manager s)\<rparr>)"
  by (rule sched_inv_tm) (simp_all add: call_hook_def)

lemma wake_unscheduled_inv:
  assumes inv: "sched_inv P s" and hook: "hook_ok n hook" and free: "card (free_cores s) \<le> n"
    and j: "j < length (m_threads (m_thread_manager s))" "j < length (m_threads_runnable s)" "m_threads_runnable s ! j"
  shows "\<exists>s'. wake_unscheduled hook (int j) b time s = Inr s' \<and> sched_inv P s' \<and> frame s s' \<and> busy_kept {} s s'"
proof -
  let ?tm = "m_thread_manager s"
  have st: "state_at ?tm (int j) = Inr (m_thread_state ?tm ! j)" using j(1) sched_inv_lengths(4) [OF inv] by (simp add: state_at_def)
  obtain tm' where tm': "resumeThread (int j) INVALID_THREAD_ID time False ?tm = Inr tm'" "length (m_threads tm') = length (m_threads ?tm)"
    "length (m_thread_state tm') = length (m_thread_state ?tm)"
    "\<forall>i<length (m_threads ?tm). m_core (m_threads tm' ! i) = m_core (m_threads ?tm ! i)" "core_thread tm' = core_thread ?tm" "settled ?tm tm'"
    using resume_keeps_cores [OF j(1) sched_inv_lengths(4) [OF inv]] by blast
  let ?s = "s\<lparr>m_thread_manager := tm'\<rparr>"
  have "sched_inv P ?s" using inv tm' by (intro sched_inv_tm)
  moreover have "card (free_cores ?s) \<le> n" using free by (simp add: free_cores_def)
  ultimately obtain s' where s': "hook (int j) time ?s = Inr s'" "sched_inv P s'" "frame ?s s'" "busy_kept {} ?s s'"
    using hook j(2,3) unfolding hook_ok_def by (metis Scheduler.select_convs(4) Scheduler.surjective Scheduler.update_convs(2))
  have "frame s ?s" using tm'(2,6) by (simp add: frame_def untouched_def)
  then have "frame s s'" using s'(3) by (rule frame_trans)
  moreover have "busy_kept {} s s'" using s'(4) by (simp add: busy_kept_def)
  ultimately show ?thesis using st tm'(1) s'(1,2) inv frame_refl
    by (cases "b \<and> ts_status (m_thread_state ?tm ! j) = STALLED \<and> stalled_reason (m_thread_state ?tm ! j) = Some STALL_UNSCHEDULED")
      (auto simp: wake_unscheduled_def busy_kept_def)
qed

lemma schedule_in_inv:
  assumes inv: "sched_inv P s" and hook: "hook_ok n hook" and k: "k < num_cores s" "m_core_thread_running s ! k = -1"
    and free: "card (free_cores s) \<le> Suc n"
    and j: "j < length (m_threads_runnable s)" "m_threads_runnable s ! j" "m_core_running (m_thread_info s ! j) = -1"
  shows "\<exists>s'. schedule_in hook (int k) (int j) time (s\<lparr>m_core_thread_running := (m_core_thread_running s)[k := int j]\<rparr>) = Inr s' \<and>
    sched_inv P s' \<and> frame s s' \<and> busy_kept {} s s' \<and> m_core_thread_running s' ! k = int j"
proof -
  have jn: "j < length (m_threads (m_thread_manager s))" "j < length (m_thread_info s)"
    using inv j(1,2) by (auto simp: sched_inv_def threads_known_def tables_ok_def Let_def)
  let ?ti = "(m_thread_info s ! j)\<lparr>m_core_running := int k, m_last_scheduled_in := time\<rparr>"
  let ?s3 = "s\<lparr>m_thread_info := (m_thread_info s)[j := ?ti], m_core_thread_running := (m_core_thread_running s)[k := int j]\<rparr>"
  have inv3: "sched_inv (insert j P) ?s3" by (rule fill_inv [OF inv k jn(1) j(3)]) simp_all
  have "free_cores ?s3 = free_cores s - {k}" using k by (auto simp: free_cores_def nth_list_update)
  moreover have "k \<in> free_cores s" using k by (simp add: free_cores_def)
  ultimately have free3: "card (free_cores ?s3) \<le> n" using free by simp
  obtain s4 where s4: "wake_unscheduled hook (int j) True time ?s3 = Inr s4" "sched_inv (insert j P) s4" "frame ?s3 s4" "busy_kept {} ?s3 s4"
    using wake_unscheduled_inv [OF inv3 hook free3, of j True time] jn(1) j(1,2) by auto
  have k4: "k < num_cores s4" "m_core_thread_running s4 ! k = int j" using s4(3,4) k by (auto simp: frame_def busy_kept_def)
  obtain tm' where tm': "enter_core (int j) (int k) s4 = Inr (s4\<lparr>m_thread_manager := tm'\<rparr>)" "sched_inv P (s4\<lparr>m_thread_manager := tm'\<rparr>)"
    "length (m_threads tm') = length (m_threads (m_thread_manager s4))" "settled (m_thread_manager s4) tm'"
    using enter_core_inv [OF s4(2) sched_inv_not_pending [OF inv j(3)] k4] by blast
  let ?s' = "s4\<lparr>m_thread_manager := call_hook (HOOK_THREAD_MIGRATE (int j) (int k) time) tm'\<rparr>"
  have none: "m_core (m_threads (m_thread_manager s) ! j) = None" using inv jn(1) j(3) by (simp add: sched_inv_def cores_agree_def)
  have "sched_moveThread hook (int j) (int k) time ?s3 = Inr ?s'"
    using jn(1) none s4(1) tm'(1) by (simp add: sched_moveThread_def getThreadFromID_def valid_thread_def invalid_defs)
  then have run: "schedule_in hook (int k) (int j) time (s\<lparr>m_core_thread_running := (m_core_thread_running s)[k := int j]\<rparr>) = Inr ?s'"
    using jn(2) j(3) by (simp add: schedule_in_def info_at_def put_info_def isRunning_def invalid_defs running_info_swap)
  have "frame s ?s3" using jn(2) by (auto simp: frame_def untouched_def nth_list_update)
  moreover have "frame s4 ?s'" using tm'(3,4) by (simp add: frame_def untouched_def call_hook_def settled_def)
  ultimately have "frame s ?s'" using s4(3) frame_trans by blast
  moreover have "new_thread_ok ?s' (int j)" using j(1,2) frame_fields(2) [OF s4(3)] by (simp add: new_thread_ok_def)
  then have "busy_kept {} s ?s'" using s4(4) k k4(2) by (auto simp: busy_kept_def new_thread_ok_def nth_list_update split: if_splits)
  moreover have "sched_inv P ?s'" using sched_inv_hook_log [OF tm'(2)] by simp
  ultimately show ?thesis using run k4(2) by auto
qed

text \<open>Giving the core to nobody or to a thread that waits.\<close>

lemma fill_core_inv:
  assumes inv: "sched_inv P s" and hook: "hook_ok n hook" and k: "k < num_cores s" "m_core_thread_running s ! k = -1"
    and free: "card (free_cores s - {k}) \<le> n"
    and new: "new = -1 \<or> (\<exists>j. new = int j \<and> j < length (m_threads_runnable s) \<and> m_threads_runnable s ! j \<and> m_core_running (m_thread_info s ! j) = -1)"
    and s1: "s = s1\<lparr>m_core_thread_running := (m_core_thread_running s1)[k := -1]\<rparr>"
  shows "\<exists>s'. bindE (set_running (int k) new s1) (\<lambda>s. if new \<noteq> -1 then schedule_in hook (int k) new time s else Inr s) = Inr s' \<and>
    sched_inv P s' \<and> frame s s' \<and> busy_kept {} s s' \<and> m_core_thread_running s' ! k = new"
proof -
  have k1: "k < num_cores s1" using arg_cong [OF s1, of m_core_thread_running] k(1) by simp
  have set: "set_running (int k) x s1 = Inr (s\<lparr>m_core_thread_running := (m_core_thread_running s)[k := x]\<rparr>)" for x
    using k1 arg_cong [OF s1, of m_core_thread_running] by (simp add: set_running_def) (subst s1, simp)
  from new show ?thesis
  proof
    assume "new = -1"
    moreover have "s\<lparr>m_core_thread_running := (m_core_thread_running s)[k := -1]\<rparr> = s" using k(2) by (metis Scheduler.surjective Scheduler.update_convs(8) list_update_id)
    ultimately show ?thesis using set [of "-1"] inv k(2) frame_refl by (simp add: busy_kept_def)
  next
    assume "\<exists>j. new = int j \<and> j < length (m_threads_runnable s) \<and> m_threads_runnable s ! j \<and> m_core_running (m_thread_info s ! j) = -1"
    then obtain j where j: "new = int j" "j < length (m_threads_runnable s)" "m_threads_runnable s ! j" "m_core_running (m_thread_info s ! j) = -1" by blast
    have "k \<in> free_cores s" using k by (simp add: free_cores_def)
    then have "card (free_cores s) \<le> Suc n" using free by simp
    from schedule_in_inv [OF inv hook k this j(2-4), of time] show ?thesis using set [of "int j"] j(1) by simp
  qed
qed

lemma is_initializing_Inr:
  assumes "sched_inv P s" and "k < num_cores s"
  shows "\<exists>b. is_initializing s (m_core_thread_running s ! k) = Inr b"
proof (cases "m_core_thread_running s ! k = -1")
  case False
  from sched_inv_running [OF assms False] obtain j where "m_core_thread_running s ! k = int j" "j < length (m_threads (m_thread_manager s))" .
  then show ?thesis using sched_inv_lengths(4) [OF assms(1)] by (simp add: is_initializing_def state_at_def invalid_defs)
qed (auto simp: is_initializing_def invalid_defs)

lemma free_core_inv:
  assumes inv: "sched_inv P s" and k: "k < num_cores s"
  shows "\<exists>s1 s2. (if m_core_thread_running s ! k \<noteq> -1 then unschedule hook (int k) (m_core_thread_running s ! k) time s else Inr s) = Inr s1 \<and>
    s2 = s1\<lparr>m_core_thread_running := (m_core_thread_running s1)[k := -1]\<rparr> \<and> sched_inv (P - {j. m_core_thread_running s ! k = int j}) s2 \<and>
    frame s s2 \<and> m_core_thread_running s2 = (m_core_thread_running s)[k := -1] \<and>
    (\<forall>i. m_core_thread_running s ! k \<noteq> int i \<longrightarrow> m_thread_info s2 ! i = m_thread_info s ! i)"
proof (cases "m_core_thread_running s ! k = -1")
  case True
  then have "(m_core_thread_running s)[k := -1] = m_core_thread_running s" by (metis list_update_id)
  then show ?thesis using True inv frame_refl by simp
next
  case False
  from sched_inv_running [OF assms False] obtain j where j: "m_core_thread_running s ! k = int j" .
  from unschedule_free [OF inv k j, of hook time] obtain s1 where s1: "unschedule hook (int k) (int j) time s = Inr s1"
    "m_core_thread_running s1 = m_core_thread_running s" "frame s s1"
    "sched_inv (P - {j}) (s1\<lparr>m_core_thread_running := (m_core_thread_running s)[k := -1]\<rparr>)"
    "\<forall>i. i \<noteq> j \<longrightarrow> m_thread_info s1 ! i = m_thread_info s ! i" by blast
  have "{i. m_core_thread_running s ! k = int i} = {j}" using j by auto
  moreover have "frame s (s1\<lparr>m_core_thread_running := (m_core_thread_running s)[k := -1]\<rparr>)" using s1(3) by (simp add: frame_def untouched_def)
  ultimately show ?thesis using s1 j by simp
qed

lemma may_run_waits:
  assumes "sched_inv P s" and "k < num_cores s" and "may_run s k j" and "m_core_thread_running s ! k \<noteq> int j"
  shows "m_core_running (m_thread_info s ! j) = -1"
proof (rule ccontr)
  assume run: "m_core_running (m_thread_info s ! j) \<noteq> -1"
  have "j < length (m_thread_info s)" using assms(1,3) sched_inv_lengths(2) by (fastforce simp: may_run_def)
  from sched_inv_core [OF assms(1) this run] assms(3,4) run show False by (auto simp: may_run_def)
qed

lemma reschedule_with_inv:
  assumes inv: "sched_inv P s" and k: "k < num_cores s" and hook: "hook_ok n hook" and free: "card (free_cores s - {k}) \<le> n"
  shows "\<exists>s'. reschedule_with hook time (int k) s = Inr s' \<and> frame s s' \<and> busy_kept {k} s s' \<and>
    sched_inv (P - {j. m_core_thread_running s ! k = int j \<and> m_core_thread_running s' ! k \<noteq> int j}) s' \<and>
    (is_initializing s (m_core_thread_running s ! k) \<noteq> Inr True \<longrightarrow> pick_thread time (int k) s = Inr (m_core_thread_running s' ! k))"
proof -
  let ?cur = "m_core_thread_running s ! k"
  obtain ini where ini: "is_initializing s ?cur = Inr ini" using is_initializing_Inr [OF inv k] by blast
  show ?thesis
  proof (cases ini)
    case True
    then show ?thesis using ini k inv frame_refl by (auto simp: reschedule_with_def busy_kept_def)
  next
    case False
    obtain new where new: "pick_thread time (int k) s = Inr new" "new = -1 \<or> (\<exists>j. new = int j \<and> may_run s k j)"
      using pick_thread_best [OF inv k] by blast
    have quantum: "\<exists>s''. set_quantum (int k) (m_quantum s') s' = Inr s'' \<and> frame s' s'' \<and> busy_kept {} s' s'' \<and> sched_inv Q s'' \<and>
        m_core_thread_running s'' = m_core_thread_running s'" if "sched_inv Q s'" "num_cores s' = num_cores s" for Q s'
      using that k by (auto simp: set_quantum_def sched_inv_defs frame_def untouched_def busy_kept_def)
    show ?thesis
    proof (cases "?cur = new")
      case True
      with quantum [OF inv] new(1) ini False k show ?thesis by (auto simp: reschedule_with_def busy_kept_def)
    next
      case diff: False
      let ?G = "{j. ?cur = int j}"
      obtain s1 s2 where s1: "(if ?cur \<noteq> -1 then unschedule hook (int k) ?cur time s else Inr s) = Inr s1"
        and s2: "s2 = s1\<lparr>m_core_thread_running := (m_core_thread_running s1)[k := -1]\<rparr>" "sched_inv (P - ?G) s2" "frame s s2"
        and r2: "m_core_thread_running s2 = (m_core_thread_running s)[k := -1]"
          "\<forall>i. ?cur \<noteq> int i \<longrightarrow> m_thread_info s2 ! i = m_thread_info s ! i"
        using free_core_inv [OF inv k] by blast
      have k2: "k < num_cores s2" "m_core_thread_running s2 ! k = -1" using r2(1) k by simp_all
      have free2: "free_cores s2 - {k} = free_cores s - {k}" using r2(1) by (auto simp: free_cores_def nth_list_update)
      have new2: "new = -1 \<or> (\<exists>j. new = int j \<and> j < length (m_threads_runnable s2) \<and> m_threads_runnable s2 ! j \<and> m_core_running (m_thread_info s2 ! j) = -1)"
      proof (cases "new = -1")
        case False
        then obtain j where j: "new = int j" "may_run s k j" using new(2) by blast
        with may_run_waits [OF inv k j(2)] diff r2(2) show ?thesis by (auto simp: may_run_def frame_fields(2) [OF s2(3)])
      qed simp
      obtain s3 where s3: "bindE (set_running (int k) new s1) (\<lambda>s. if new \<noteq> -1 then schedule_in hook (int k) new time s else Inr s) = Inr s3"
        "sched_inv (P - ?G) s3" "frame s2 s3" "busy_kept {} s2 s3" "m_core_thread_running s3 ! k = new"
        using fill_core_inv [OF s2(2) hook k2 _ new2 s2(1), of time] free free2 by auto
      have f3: "frame s s3" using s2(3) s3(3) by (rule frame_trans)
      then obtain s' where s': "set_quantum (int k) (m_quantum s3) s3 = Inr s'" "frame s3 s'" "busy_kept {} s3 s'" "sched_inv (P - ?G) s'"
        "m_core_thread_running s' = m_core_thread_running s3" using quantum [OF s3(2)] by (auto simp: frame_def)
      have "reschedule_with hook time (int k) s = Inr s'"
        using ini False new(1) diff s1 s3(1) s'(1) k by (simp add: reschedule_with_def switch_thread_def invalid_defs)
      moreover have "frame s s'" using f3 s'(2) by (rule frame_trans)
      moreover have "busy_kept {k} s s'"
        unfolding busy_kept_def
      proof (intro allI impI)
        fix c assume c: "c < num_cores s"
        have same: "new_thread_ok s' = new_thread_ok s3" "new_thread_ok s3 = new_thread_ok s2"
          using frame_fields(2) [OF s'(2)] frame_fields(2) [OF s3(3)] by (auto simp: new_thread_ok_def)
        show "m_core_thread_running s' ! c = m_core_thread_running s ! c \<or>
          (c \<in> {k} \<or> m_core_thread_running s ! c = -1) \<and> new_thread_ok s' (m_core_thread_running s' ! c)"
        proof (cases "c = k")
          case True
          then show ?thesis using new2 s3(5) s'(5) same by (auto simp: new_thread_ok_def)
        next
          case False
          then show ?thesis using s3(4) c r2(1) s'(5) same by (auto simp: busy_kept_def)
        qed
      qed
      moreover have "{j. ?cur = int j \<and> m_core_thread_running s' ! k \<noteq> int j} = ?G" using s3(5) s'(5) diff by auto
      ultimately show ?thesis using s'(4,5) s3(5) new(1) by auto
    qed
  qed
qed

text \<open>A call from the hook fills a core that was free, so the depth of the calls is bounded by the number of free cores.\<close>

lemma resume_with_inv:
  assumes inv: "sched_inv P s" and j: "j < length (m_threads_runnable s)" "j < length (m_threads (m_thread_manager s))"
    and resched: "\<And>s k. sched_inv P s \<Longrightarrow> k \<in> free_cores s \<Longrightarrow> free_cores s = F \<Longrightarrow>
      \<exists>s'. resched time (int k) s = Inr s' \<and> sched_inv P s' \<and> frame s s' \<and> busy_kept {} s s'"
    and F: "F = free_cores s"
  shows "\<exists>s'. resume_with resched (int j) time s = Inr s' \<and> sched_inv P s' \<and>
    frame (s\<lparr>m_threads_runnable := (m_threads_runnable s)[j := True]\<rparr>) s' \<and> busy_kept {} s s'"
proof -
  let ?s = "s\<lparr>m_threads_runnable := (m_threads_runnable s)[j := True]\<rparr>"
  have inv': "sched_inv P ?s" using inv j by (auto simp: sched_inv_defs nth_list_update)
  have jn: "j < length (m_thread_info ?s)" using j sched_inv_lengths(5) [OF inv] by simp
  obtain c where c: "findFreeCoreForThread ?s (int j) = Inr c" "c = -1 \<or> (\<exists>k. c = int k \<and> k \<in> free_cores ?s)"
    using findFreeCoreForThread_found [OF inv' jn] by blast
  have run: "set_runnable (int j) True s = Inr ?s" using j(1) by (simp add: set_runnable_def)
  from c(2) show ?thesis
  proof
    assume "c = -1"
    then show ?thesis using run c(1) inv' frame_refl by (simp add: resume_with_def invalid_defs busy_kept_def)
  next
    assume "\<exists>k. c = int k \<and> k \<in> free_cores ?s"
    then obtain k where k: "c = int k" "k \<in> free_cores ?s" by blast
    moreover have "free_cores ?s = F" by (simp add: F free_cores_def)
    ultimately show ?thesis using run c(1) resched [OF inv' k(2)] by (auto simp: resume_with_def invalid_defs busy_kept_def)
  qed
qed

lemma reschedule_rec_inv:
  assumes "sched_inv P s" and "k < num_cores s" and "card (free_cores s - {k}) < n"
  shows "\<exists>s'. reschedule_rec n time (int k) s = Inr s' \<and> frame s s' \<and> busy_kept {k} s s' \<and>
    sched_inv (P - {j. m_core_thread_running s ! k = int j \<and> m_core_thread_running s' ! k \<noteq> int j}) s' \<and>
    (is_initializing s (m_core_thread_running s ! k) \<noteq> Inr True \<longrightarrow> pick_thread time (int k) s = Inr (m_core_thread_running s' ! k))"
  using assms
proof (induction n arbitrary: P s k time)
  case (Suc n)
  have step: "\<exists>s'. reschedule_rec n time (int k) s = Inr s' \<and> sched_inv P s' \<and> frame s s' \<and> busy_kept {} s s'"
    if "sched_inv P s" "k \<in> free_cores s" "card (free_cores s) \<le> n" for P s k time
  proof -
    have k: "k < num_cores s" "m_core_thread_running s ! k = -1" using that(2) by (auto simp: free_cores_def)
    have "card (free_cores s - {k}) < n" using that(2,3) by (metis card_Diff1_less finite_free order_less_le_trans)
    from Suc.IH [OF that(1) k(1) this, of time] k(2) show ?thesis by (auto simp: busy_kept_def)
  qed
  have "hook_ok n (resume_with (reschedule_rec n))"
    unfolding hook_ok_def
  proof (intro allI impI)
    fix P s j time
    assume a: "sched_inv P s" "card (free_cores s) \<le> n" "j < length (m_threads_runnable s)" "m_threads_runnable s ! j"
    then have "j < length (m_threads (m_thread_manager s))" by (auto simp: sched_inv_def threads_known_def Let_def)
    moreover have "(m_threads_runnable s)[j := True] = m_threads_runnable s" using a(4) by (metis (full_types) list_update_id)
    ultimately show "\<exists>s'. resume_with (reschedule_rec n) (int j) time s = Inr s' \<and> sched_inv P s' \<and> frame s s' \<and> busy_kept {} s s'"
      using resume_with_inv [OF a(1,3), of "free_cores s" "reschedule_rec n" time] step a(2) by simp
  qed
  moreover have "card (free_cores s - {k}) \<le> n" using Suc.prems(3) by simp
  ultimately show ?case unfolding reschedule_rec.simps by (rule reschedule_with_inv [OF Suc.prems(1,2)])
qed simp

lemma reschedule_inv:
  assumes "sched_inv P s" and "k < num_cores s"
  shows "\<exists>s'. reschedule time (int k) s = Inr s' \<and> frame s s' \<and> busy_kept {k} s s' \<and>
    sched_inv (P - {j. m_core_thread_running s ! k = int j \<and> m_core_thread_running s' ! k \<noteq> int j}) s' \<and>
    (is_initializing s (m_core_thread_running s ! k) \<noteq> Inr True \<longrightarrow> pick_thread time (int k) s = Inr (m_core_thread_running s' ! k))"
proof -
  have "free_cores s - {k} \<subseteq> {0..<num_cores s}" by (auto simp: free_cores_def)
  from card_mono [OF finite_atLeastLessThan this] have "card (free_cores s - {k}) < Suc (num_cores s)" by simp
  then show ?thesis unfolding reschedule_def by (rule reschedule_rec_inv [OF assms])
qed

section \<open>The events of a system\<close>

text \<open>\<^verbatim>\<open>reschedule\<close> of a core without a thread in motion.\<close>

lemma reschedule_idle:
  assumes "sched_inv {} s" and "k < num_cores s"
  shows "\<exists>s'. reschedule time (int k) s = Inr s' \<and> frame s s' \<and> sched_inv {} s'"
  using reschedule_inv [OF assms, of time] by auto

lemma resume_inv:
  assumes inv: "sched_inv {} s" and j: "j < length (m_threads_runnable s)" "j < length (m_threads (m_thread_manager s))"
  shows "\<exists>s'. resume_with reschedule (int j) time s = Inr s' \<and> sched_inv {} s' \<and>
    frame (s\<lparr>m_threads_runnable := (m_threads_runnable s)[j := True]\<rparr>) s'"
proof -
  have "\<exists>s'. reschedule time (int k) s = Inr s' \<and> sched_inv {} s' \<and> frame s s' \<and> busy_kept {} s s'"
    if "sched_inv {} s" "k \<in> free_cores s" for s k
    using reschedule_inv [OF that(1), of k time] that(2) by (auto simp: free_cores_def busy_kept_def)
  from resume_with_inv [OF inv j, of "free_cores s" reschedule time] this show ?thesis by auto
qed

text \<open>A thread that stops leaves its core; when it exits, the thread manager has already taken the core away.\<close>

lemma leave_core_inv:
  assumes inv: "sched_inv P s" and j: "j < length (m_threads (m_thread_manager s))" and P: "P \<subseteq> {j}"
    and off: "j < length (m_threads_runnable s) \<Longrightarrow> \<not> m_threads_runnable s ! j"
    and "ts_status (m_thread_state (m_thread_manager s) ! j) \<noteq> INITIALIZING"
  shows "\<exists>s'. leave_core (int j) time s = Inr s' \<and> sched_inv {} s' \<and> frame s s' \<and> m_core_running (m_thread_info s' ! j) = -1"
proof -
  have jn: "j < length (m_thread_info s)" using j sched_inv_lengths(5) [OF inv] by simp
  show ?thesis
  proof (cases "m_core_running (m_thread_info s ! j) = -1")
    case True
    then have "P = {}" using sched_inv_not_pending [OF inv] P by blast
    then show ?thesis using True inv jn frame_refl by (simp add: leave_core_def info_at_def isRunning_def invalid_defs)
  next
    case False
    from sched_inv_core [OF inv jn False] obtain k where k: "m_core_running (m_thread_info s ! j) = int k" "k < num_cores s"
      "m_core_thread_running s ! k = int j" .
    have ini: "is_initializing s (m_core_thread_running s ! k) = Inr False"
      using k(3) assms(5) j sched_inv_lengths(4) [OF inv] by (simp add: is_initializing_def state_at_def invalid_defs)
    obtain s' where s': "reschedule time (int k) s = Inr s'" "frame s s'"
      "sched_inv (P - {i. m_core_thread_running s ! k = int i \<and> m_core_thread_running s' ! k \<noteq> int i}) s'"
      "pick_thread time (int k) s = Inr (m_core_thread_running s' ! k)" and bk: "busy_kept {k} s s'"
      using reschedule_inv [OF inv k(2), of time] ini by auto
    have new: "m_core_thread_running s' ! k \<noteq> int j"
      using pick_thread_best [OF inv k(2), of time] s'(4) off by (auto simp: may_run_def)
    then have gone: "P - {i. m_core_thread_running s ! k = int i \<and> m_core_thread_running s' ! k \<noteq> int i} = {}" using k(3) P by auto
    have "m_core_running (m_thread_info s' ! j) = -1"
    proof (rule ccontr)
      assume "m_core_running (m_thread_info s' ! j) \<noteq> -1"
      from sched_inv_core [OF s'(3) _ this] obtain c where c: "c < num_cores s" "m_core_thread_running s' ! c = int j"
        using jn s'(2) by (auto simp: frame_def)
      have ck: "c \<noteq> k" using new c(2) by auto
      have "m_core_thread_running s ! c \<noteq> int j"
      proof
        assume cj: "m_core_thread_running s ! c = int j"
        then have "m_core_thread_running s ! c \<noteq> -1" by simp
        from sched_inv_running [OF inv c(1) this] cj k(1) ck show False by auto
      qed
      with c bk ck have "new_thread_ok s' (int j)" by (auto simp: busy_kept_def)
      then show False using off frame_fields(2) [OF s'(2)] by (auto simp: new_thread_ok_def)
    qed
    then show ?thesis using s' gone k(1) jn by (simp add: leave_core_def info_at_def isRunning_def invalid_defs)
  qed
qed

end
