(* ===== verification/LS_Sched_Steps.thy ===== *)
theory LS_Sched_Steps
  imports LS_Sched_Inv
begin

text \<open>
  The scheduler and the thread manager together, over every sequence of events: creation, start, stall, wake-up and exit of
  threads, yields, changes of affinity and of the mapping, and the periodic call.
\<close>

section \<open>Operations keep the invariant\<close>

definition system_ok :: "Scheduler \<Rightarrow> bool" where
  "system_ok s \<longleftrightarrow> sched_inv {} s \<and> 16 dvd length (m_thread_info s) \<and> 16 dvd length (m_threads_runnable s) \<and> sch_build s \<noteq> PERIODIC_WORKLOAD"

lemma system_okI: "sched_inv {} s' \<Longrightarrow> system_ok s \<Longrightarrow> frame s s' \<Longrightarrow> system_ok s'"
  using frame_fields(1,2) [of s s'] by (simp add: system_ok_def frame_def)

lemma vec_at_Inr_iff: "vec_at xs i = Inr x \<longleftrightarrow> (\<exists>k<length xs. i = int k \<and> x = xs ! k)"
proof (cases "0 \<le> i \<and> nat i < length xs")
  case True
  then show ?thesis unfolding vec_at_def by (auto intro!: exI [of _ "nat i"])
qed (auto simp: vec_at_def)

lemma vec_put_Inr_iff: "vec_put xs i x = Inr ys \<longleftrightarrow> (\<exists>k<length xs. i = int k \<and> ys = xs[k := x])"
proof (cases "0 \<le> i \<and> nat i < length xs")
  case True
  then show ?thesis unfolding vec_put_def by (auto intro!: exI [of _ "nat i"])
qed (auto simp: vec_put_def)

lemmas vec_iffs = vec_at_Inr_iff vec_put_Inr_iff

lemma reschedule_range:
  assumes "reschedule time c s = Inr s'"
  obtains k where "c = int k" "k < num_cores s"
proof -
  have "reschedule_with (resume_with (reschedule_rec (num_cores s))) time c s = Inr s'" using assms by (simp only: reschedule_def reschedule_rec.simps)
  then obtain t where "vec_at (m_core_thread_running s) c = Inr t" unfolding reschedule_with_def bindE_Inr_iff by blast
  then show thesis using that by (auto simp: vec_at_Inr_iff)
qed

lemma reschedule_ok:
  assumes ok: "system_ok s" and run: "reschedule time c s = Inr s'"
  shows "system_ok s' \<and> frame s s'"
proof -
  obtain k where k: "c = int k" "k < num_cores s" using run by (rule reschedule_range)
  have "sched_inv {} s" using ok by (simp add: system_ok_def)
  from reschedule_idle [OF this k(2), of time] have "frame s s'" "sched_inv {} s'" using run k(1) by auto
  then show ?thesis using system_okI ok by blast
qed

lemma set_quantum_ok: "system_ok s \<Longrightarrow> set_quantum c q s = Inr s' \<Longrightarrow> system_ok s' \<and> frame s s'"
  by (auto simp: set_quantum_def bindE_Inr_iff vec_put_Inr_iff system_ok_def sched_inv_defs frame_def untouched_def)

text \<open>Fields that the invariant does not mention.\<close>

lemma system_ok_other [simp]:
  "system_ok (s\<lparr>m_last_periodic := x1\<rparr>) = system_ok s" "system_ok (s\<lparr>m_last_periodic_interval := x2\<rparr>) = system_ok s"
  "system_ok (s\<lparr>threads_on_core := x3\<rparr>) = system_ok s" "system_ok (s\<lparr>core_thread_map := x4\<rparr>) = system_ok s"
  "system_ok (s\<lparr>current_thread_count := x5\<rparr>) = system_ok s" "system_ok (s\<lparr>mw_rank_of_thread := x6\<rparr>) = system_ok s"
  by (simp_all add: system_ok_def sched_inv_defs)

subsection \<open>Affinity\<close>

definition affinity_only :: "(ThreadInfo \<Rightarrow> ThreadInfo res) \<Rightarrow> bool" where
  "affinity_only f \<longleftrightarrow> (\<forall>ti ti'. f ti = Inr ti' \<longrightarrow> m_core_running ti' = m_core_running ti \<and> length (m_core_affinity ti') = length (m_core_affinity ti))"

lemma addAffinity_keeps:
  "addAffinity c ti = Inr ti' \<Longrightarrow> m_core_running ti' = m_core_running ti \<and> length (m_core_affinity ti') = length (m_core_affinity ti)"
  by (auto simp: addAffinity_def bindE_Inr_iff vec_put_Inr_iff)

lemma add_cores_keeps:
  "add_cores cs ti = Inr ti' \<Longrightarrow> m_core_running ti' = m_core_running ti \<and> length (m_core_affinity ti') = length (m_core_affinity ti)"
  by (induction cs arbitrary: ti) (auto simp: bindE_Inr_iff dest!: addAffinity_keeps)

lemma add_mask_keeps:
  "add_mask n k bs ti = Inr ti' \<Longrightarrow> m_core_running ti' = m_core_running ti \<and> length (m_core_affinity ti') = length (m_core_affinity ti)"
  by (induction bs arbitrary: k ti) (fastforce simp: bindE_Inr_iff split: if_splits dest!: addAffinity_keeps)+

lemma add_masked_keeps:
  "add_masked m cs ti = Inr ti' \<Longrightarrow> m_core_running ti' = m_core_running ti \<and> length (m_core_affinity ti') = length (m_core_affinity ti)"
  by (induction cs arbitrary: ti) (fastforce simp: bindE_Inr_iff split: if_splits dest!: addAffinity_keeps)+

lemma change_info_ok:
  assumes f: "affinity_only f" and inv: "sched_inv P s" and ch: "change_info f t s = Inr s'"
  shows "sched_inv P s' \<and> (\<exists>is. s' = s\<lparr>m_thread_info := is\<rparr> \<and> length is = length (m_thread_info s) \<and>
    (\<forall>j<length is. m_core_running (is ! j) = m_core_running (m_thread_info s ! j)))"
proof -
  obtain j ti where j: "t = int j" "j < length (m_thread_info s)" "f (m_thread_info s ! j) = Inr ti"
    and s': "s' = s\<lparr>m_thread_info := (m_thread_info s)[j := ti]\<rparr>"
    using ch by (auto simp: change_info_def info_at_def put_info_def bindE_Inr_iff vec_iffs)
  have ti: "m_core_running ti = m_core_running (m_thread_info s ! j)" "length (m_core_affinity ti) = length (m_core_affinity (m_thread_info s ! j))"
    using f j(3) by (auto simp: affinity_only_def)
  have same: "m_core_running ((m_thread_info s)[j := ti] ! i) = m_core_running (m_thread_info s ! i)"
    "length (m_core_affinity ((m_thread_info s)[j := ti] ! i)) = length (m_core_affinity (m_thread_info s ! i))" for i
    using ti j(2) by (cases "i = j"; simp)+
  have "sched_inv P s'" using inv by (simp add: s' sched_inv_defs same)
  then show ?thesis using same by (auto simp: s')
qed

lemma system_ok_change_info: "affinity_only f \<Longrightarrow> system_ok s \<Longrightarrow> change_info f t s = Inr s' \<Longrightarrow> system_ok s'"
  using change_info_ok [of f "{}" s t s'] by (auto simp: system_ok_def)

lemma apply_affinity_ok: "system_ok s \<Longrightarrow> apply_affinity ct g t s = Inr s' \<Longrightarrow> system_ok s' \<and> frame s s'"
  by (auto simp: apply_affinity_def bindE_Inr_iff frame_refl split: if_splits dest: set_quantum_ok reschedule_ok)

lemma threadYield_ok:
  assumes ok: "system_ok s" and run: "threadYield ct t s = Inr s'"
  shows "system_ok s' \<and> frame s s'"
proof (cases "\<exists>ti. info_at s t = Inr ti \<and> m_core_running ti = INVALID_CORE_ID")
  case True
  then show ?thesis using assms frame_refl by (auto simp: threadYield_def)
next
  case False
  then obtain c s1 s2 a where s: "set_quantum c 0 s = Inr s1" "reschedule (ct c) c s1 = Inr s2"
    "(if a then Inr s2 else bindE (findFreeCoreForThread s2 t) (\<lambda>f. if f \<noteq> INVALID_CORE_ID then reschedule (ct c) f s2 else Inr s2)) = Inr s'"
    using run unfolding threadYield_def Let_def by (auto simp: bindE_Inr_iff)
  have ok2: "system_ok s2" "frame s s2" using set_quantum_ok [OF ok s(1)] reschedule_ok [OF _ s(2)] frame_trans by blast+
  obtain f where "s' = s2 \<or> reschedule (ct c) f s2 = Inr s'" using s(3) by (auto simp: bindE_Inr_iff split: if_splits)
  then show ?thesis using ok2 reschedule_ok [OF ok2(1)] frame_trans [OF ok2(2)] by blast
qed

text \<open>The mask is set first; what follows changes no mask.\<close>

lemma threadSetAffinity_sets:
  assumes ok: "system_ok s" and j: "j < length (m_threads (m_thread_manager s))" and run: "threadSetAffinity ct g caller (int j) m s = Inr s'"
  shows "\<exists>s1 ti. system_ok s1 \<and> system_ok s' \<and> frame s1 s' \<and> num_cores s1 = num_cores s \<and> length (m_thread_info s1) = length (m_thread_info s) \<and>
    m_thread_info s1 ! j = ti \<and> (let t0 = (m_thread_info s ! j)\<lparr>m_explicit_affinity := True\<rparr> in
      (case m of None \<Rightarrow> add_cores (core_ids s) t0 | Some bits \<Rightarrow> add_mask (num_cores s) 0 bits (clearAffinity t0)) = Inr ti)"
proof -
  let ?f = "\<lambda>ti. let ti = ti\<lparr>m_explicit_affinity := True\<rparr> in case m of None \<Rightarrow> add_cores (core_ids s) ti
      | Some bits \<Rightarrow> add_mask (num_cores s) 0 bits (clearAffinity ti)"
  have jn: "j < length (m_thread_info s)" using j sched_inv_lengths(5) [of "{}" s] ok by (simp add: system_ok_def)
  then have pad: "(if int (length (m_thread_info s)) \<le> int j then resize_info (nat (int j + 16)) s else s) = s" by simp
  obtain s1 where s1: "change_info ?f (int j) s = Inr s1" "(if int j \<ge> int (length (m_threads (m_thread_manager s1))) then Inr s1
      else if int j = caller then threadYield ct (int j) s1 else apply_affinity ct g (int j) s1) = Inr s'"
    using run unfolding threadSetAffinity_def Let_def pad by (auto simp: bindE_Inr_iff)
  have "affinity_only ?f"
    unfolding affinity_only_def
  proof (intro allI impI)
    fix ti ti' assume f: "?f ti = Inr ti'"
    show "m_core_running ti' = m_core_running ti \<and> length (m_core_affinity ti') = length (m_core_affinity ti)"
    proof (cases m)
      case None
      then show ?thesis using f add_cores_keeps [of "core_ids s" "ti\<lparr>m_explicit_affinity := True\<rparr>" ti'] by (simp add: Let_def)
    next
      case (Some bits)
      then show ?thesis using f add_mask_keeps [of "num_cores s" 0 bits "clearAffinity (ti\<lparr>m_explicit_affinity := True\<rparr>)" ti']
        by (simp add: Let_def clearAffinity_def)
    qed
  qed
  from system_ok_change_info [OF this ok s1(1)] have ok1: "system_ok s1" .
  obtain ti where ti: "?f (m_thread_info s ! j) = Inr ti" "s1 = s\<lparr>m_thread_info := (m_thread_info s)[j := ti]\<rparr>"
    using s1(1) jn unfolding change_info_def info_at_def put_info_def by (simp add: bindE_Inr_iff) blast
  have "s' = s1 \<or> threadYield ct (int j) s1 = Inr s' \<or> apply_affinity ct g (int j) s1 = Inr s'"
    using s1(2) by (simp split: if_splits)
  then have "system_ok s' \<and> frame s1 s'" using ok1 frame_refl threadYield_ok [OF ok1] apply_affinity_ok [OF ok1] by blast
  then show ?thesis using ok1 ti jn by (intro exI [of _ s1] exI [of _ ti]) (simp add: Let_def)
qed

lemma threadSetAffinity_ok:
  assumes ok: "system_ok s" and t: "t < int (length (m_threads (m_thread_manager s)))" and run: "threadSetAffinity ct g caller t m s = Inr s'"
  shows "system_ok s'"
proof (cases "0 \<le> t")
  case True
  then obtain j where "t = int j" using nonneg_int_cases by blast
  then show ?thesis using threadSetAffinity_sets [OF ok, of j ct g caller m s'] t run by auto
next
  case False
  have "threadSetAffinity ct g caller t m s = Inl OutOfRange"
    using False by (simp add: threadSetAffinity_def change_info_def info_at_def vec_at_def)
  then show ?thesis using run by simp
qed

subsection \<open>Stalls and wake-ups\<close>

definition same_cores :: "ThreadManager \<Rightarrow> ThreadManager \<Rightarrow> bool" where
  "same_cores tm tm' \<longleftrightarrow> length (m_threads tm') = length (m_threads tm) \<and> length (m_thread_state tm') = length (m_thread_state tm) \<and>
     (\<forall>i<length (m_threads tm). m_core (m_threads tm' ! i) = m_core (m_threads tm ! i)) \<and> core_thread tm' = core_thread tm"

lemma system_ok_tm: "system_ok s \<Longrightarrow> same_cores (m_thread_manager s) tm' \<Longrightarrow> system_ok (s\<lparr>m_thread_manager := tm'\<rparr>)"
  using sched_inv_tm [of "{}" s tm'] by (simp add: system_ok_def same_cores_def)

lemma same_cores_simple [simp]:
  "same_cores tm (call_hook e tm') = same_cores tm tm'" "same_cores tm (put_state tm' t x) = same_cores tm tm'"
  "same_cores tm (set_core_state c st tm') = same_cores tm tm'" "same_cores tm tm"
  by (simp_all add: same_cores_def call_hook_def put_state_def set_core_state_def)

lemma same_cores_signal: "thread_signal t time msg tm = Inr tm' \<Longrightarrow> same_cores tm tm'"
  by (auto simp: thread_signal_def getThreadFromID_def valid_thread_def bindE_Inr_iff put_thread_def same_cores_def nth_list_update)

lemma same_cores_trans: "same_cores tm1 tm2 \<Longrightarrow> same_cores tm2 tm3 \<Longrightarrow> same_cores tm1 tm3"
  by (simp add: same_cores_def)

lemma state_at_Inr_iff: "state_at tm t = Inr x \<longleftrightarrow> (\<exists>j<length (m_thread_state tm). t = int j \<and> x = m_thread_state tm ! j)"
  using vec_at_Inr_iff [of "m_thread_state tm" t x] by (simp add: state_at_def vec_at_def)

lemma getThread_Inr_iff: "getThreadFromID tm t = Inr x \<longleftrightarrow> (\<exists>j<length (m_threads tm). t = int j \<and> x = m_threads tm ! j)"
  using vec_at_Inr_iff [of "m_threads tm" t x] by (cases "valid_thread tm t") (auto simp: getThreadFromID_def valid_thread_def vec_at_def)

lemma settled_trans: "settled tm1 tm2 \<Longrightarrow> settled tm2 tm3 \<Longrightarrow> settled tm1 tm3"
  by (simp add: settled_def)

lemma settled_resume: "resumeThread t by_thread time msg tm = Inr tm' \<Longrightarrow> settled tm tm'"
  by (auto simp: resumeThread_def resumeThread_async_def thread_signal_def bindE_Inr_iff state_at_Inr_iff put_thread_def put_state_def
      call_hook_def settled_def nth_list_update split: if_splits)

lemma same_cores_resume: "resumeThread t by_thread time msg tm = Inr tm' \<Longrightarrow> same_cores tm tm'"
  by (auto simp: resumeThread_def resumeThread_async_def bindE_Inr_iff dest: same_cores_signal)

lemma resume_ok:
  assumes ok: "system_ok s" and t: "t < int (length (m_threads (m_thread_manager s)))" and run: "resume_with reschedule t time s = Inr s'"
  shows "system_ok s' \<and> length (m_threads (m_thread_manager s')) = length (m_threads (m_thread_manager s)) \<and> settled (m_thread_manager s) (m_thread_manager s')"
proof -
  obtain s1 where "set_runnable t True s = Inr s1" using run unfolding resume_with_def bindE_Inr_iff by blast
  then obtain j where j: "t = int j" "j < length (m_threads_runnable s)" by (auto simp: set_runnable_def bindE_Inr_iff vec_put_Inr_iff)
  let ?s = "s\<lparr>m_threads_runnable := (m_threads_runnable s)[j := True]\<rparr>"
  have "sched_inv {} s" using ok by (simp add: system_ok_def)
  from resume_inv [OF this j(2), of time] run t j(1) have s': "sched_inv {} s'" "frame ?s s'" by auto
  have "length (m_thread_info s') = length (m_thread_info s)" using s'(2) by (simp add: frame_def)
  then show ?thesis using ok s' frame_fields(1,2) [OF s'(2)] by (simp add: system_ok_def frame_def)
qed

lemma threadStart_ok:
  assumes ok: "system_ok s" and t: "t < int (length (m_threads (m_thread_manager s)))" and run: "threadStart t time s = Inr s'"
  shows "system_ok s' \<and> length (m_threads (m_thread_manager s')) = length (m_threads (m_thread_manager s)) \<and> settled (m_thread_manager s) (m_thread_manager s')"
proof (cases "int (length (m_threads_runnable s)) \<le> t")
  case True
  let ?s = "s\<lparr>m_threads_runnable := m_threads_runnable s @ replicate 16 False\<rparr>"
  have "length (m_threads_runnable s) < length (m_thread_info s)"
    using True t ok sched_inv_lengths(5) [of "{}" s] by (simp add: system_ok_def)
  moreover have "16 dvd length (m_threads_runnable s)" "16 dvd length (m_thread_info s)" using ok by (simp_all add: system_ok_def)
  ultimately have "length (m_threads_runnable s) + 16 \<le> length (m_thread_info s)" by presburger
  then have "system_ok ?s" using ok by (auto simp: system_ok_def sched_inv_defs nth_append split: if_splits)
  from resume_ok [OF this] t run True show ?thesis by (simp add: threadStart_def)
next
  case False
  then show ?thesis using resume_ok [OF ok t] run by (simp add: threadStart_def)
qed

lemma sys_resumeThread_ok:
  assumes ok: "system_ok s" and run: "sys_resumeThread t by_thread time msg s = Inr s'"
  shows "system_ok s' \<and> length (m_threads (m_thread_manager s')) = length (m_threads (m_thread_manager s)) \<and> settled (m_thread_manager s) (m_thread_manager s')"
proof -
  obtain tm where tm: "resumeThread t by_thread time msg (m_thread_manager s) = Inr tm"
    "resume_with reschedule t time (s\<lparr>m_thread_manager := tm\<rparr>) = Inr s'"
    using run unfolding sys_resumeThread_def threadResume_def bindE_Inr_iff by blast
  have cores: "same_cores (m_thread_manager s) tm" by (rule same_cores_resume [OF tm(1)])
  have "t < int (length (m_threads (m_thread_manager s)))"
    using tm(1) by (auto simp: resumeThread_def thread_signal_def bindE_Inr_iff getThread_Inr_iff)
  then show ?thesis using resume_ok [OF system_ok_tm [OF ok cores] _ tm(2)] cores settled_trans [OF settled_resume [OF tm(1)]]
    by (simp add: same_cores_def)
qed

lemma unrunnable_inv:
  assumes inv: "sched_inv P s"
  shows "sched_inv P (s\<lparr>m_threads_runnable := (m_threads_runnable s)[j := False]\<rparr>)"
proof -
  have "i < length (m_threads (m_thread_manager s))" if "i < length (m_threads_runnable s)" "(m_threads_runnable s)[j := False] ! i" for i
    using inv that by (cases "i = j") (auto simp: sched_inv_def threads_known_def Let_def)
  then show ?thesis using inv by (simp add: sched_inv_defs)
qed

lemma leave_core_ok:
  assumes inv: "sched_inv P s" "system_ok (s\<lparr>m_thread_manager := tm\<rparr>)" and j: "j < length (m_threads (m_thread_manager s))" and P: "P \<subseteq> {j}"
    and st: "ts_status (m_thread_state (m_thread_manager s) ! j) \<noteq> INITIALIZING"
    and run: "bindE (set_runnable (int j) False s) (leave_core (int j) time) = Inr s'"
  shows "system_ok s' \<and> m_core_running (m_thread_info s' ! j) = -1"
proof -
  have jr: "j < length (m_threads_runnable s)" using run by (auto simp: set_runnable_def bindE_Inr_iff vec_put_Inr_iff)
  let ?s = "s\<lparr>m_threads_runnable := (m_threads_runnable s)[j := False]\<rparr>"
  have inv1: "sched_inv P ?s" by (rule unrunnable_inv [OF inv(1)])
  have run1: "leave_core (int j) time ?s = Inr s'" using run jr by (simp add: set_runnable_def)
  from leave_core_inv [OF inv1 _ P, of time] j st jr run1 have s': "sched_inv {} s'" "frame ?s s'" "m_core_running (m_thread_info s' ! j) = -1" by auto
  have "length (m_thread_info s') = length (m_thread_info s)" using s'(2) by (simp add: frame_def)
  then show ?thesis using inv(2) s' frame_fields(1,2) [OF s'(2)] by (simp add: system_ok_def)
qed

lemma sys_stallThread_ok:
  assumes ok: "system_ok s" and run: "sys_stallThread t reason time s = Inr s'"
  shows "system_ok s'"
proof -
  obtain tm where tm: "stallThread_async t reason time (m_thread_manager s) = Inr tm" "sched_threadStall t reason time (s\<lparr>m_thread_manager := tm\<rparr>) = Inr s'"
    using run unfolding sys_stallThread_def bindE_Inr_iff by blast
  then obtain j where j: "t = int j" "j < length (m_thread_state (m_thread_manager s))" and st: "ts_status (m_thread_state tm ! j) = STALLED"
    and cores: "same_cores (m_thread_manager s) tm"
    by (auto simp: stallThread_async_def bindE_Inr_iff state_at_Inr_iff) (simp add: call_hook_def put_state_def)
  have ok1: "system_ok (s\<lparr>m_thread_manager := tm\<rparr>)" using system_ok_tm [OF ok cores] .
  show ?thesis
  proof (cases "reason = STALL_UNSCHEDULED")
    case True
    then show ?thesis using ok1 tm(2) by (simp add: sched_threadStall_def)
  next
    case False
    have "j < length (m_threads tm)" using j(2) ok cores sched_inv_lengths(4) [of "{}" s] by (simp add: system_ok_def same_cores_def)
    then show ?thesis using leave_core_ok [of "{}" "s\<lparr>m_thread_manager := tm\<rparr>" tm j time s'] ok1 st tm(2) False j(1)
      by (simp add: sched_threadStall_def system_ok_def)
  qed
qed

text \<open>A thread that starts, and one that ends.\<close>

lemma same_cores_settle:
  assumes "settle_started t time elapsed tm = Inr tm'"
  shows "same_cores tm tm'"
proof -
  have sig: "same_cores tm (put_state tm2 t x)" if "thread_signal w time msg tm1 = Inr tm2" "same_cores tm tm1" for w time msg tm1 tm2 x
    using same_cores_trans [OF that(2) same_cores_signal [OF that(1)]] by simp
  show ?thesis using assms sig unfolding settle_started_def Let_def
    by (auto simp: bindE_Inr_iff split: option.splits if_splits)
qed

lemma sys_onThreadStart_ok:
  assumes ok: "system_ok s" and run: "sys_onThreadStart t time elapsed s = Inr s'"
  shows "system_ok s'"
proof -
  obtain x st s1 tm where s1: "getThreadFromID (m_thread_manager s) t = Inr x"
    "threadStart t time (s\<lparr>m_thread_manager := call_hook (HOOK_THREAD_START t time) (put_state (m_thread_manager s) t (st\<lparr>ts_status := RUNNING\<rparr>))\<rparr>) = Inr s1"
    "settle_started t time elapsed (m_thread_manager s1) = Inr tm" "s' = s1\<lparr>m_thread_manager := tm\<rparr>"
    using run unfolding sys_onThreadStart_def Let_def by (auto simp: bindE_Inr_iff)
  have "t < int (length (m_threads (m_thread_manager s)))" using s1(1) by (auto simp: getThread_Inr_iff)
  moreover have "system_ok (s\<lparr>m_thread_manager := call_hook (HOOK_THREAD_START t time) (put_state (m_thread_manager s) t (st\<lparr>ts_status := RUNNING\<rparr>))\<rparr>)"
    by (rule system_ok_tm [OF ok]) simp
  ultimately have "system_ok s1" using threadStart_ok [OF _ _ s1(2)] by (simp add: call_hook_def put_state_def)
  from system_ok_tm [OF this same_cores_settle [OF s1(3)]] show ?thesis using s1(4) by simp
qed

lemma sys_wakeUpWaiter_ok:
  assumes ok: "system_ok s" and run: "sys_wakeUpWaiter t time s = Inr s'"
  shows "system_ok s' \<and> length (m_threads (m_thread_manager s')) = length (m_threads (m_thread_manager s)) \<and> settled (m_thread_manager s) (m_thread_manager s')"
proof -
  obtain st :: ThreadState where st: "(if ts_waiter st = INVALID_THREAD_ID then Inr s else bindE (sys_resumeThread (ts_waiter st) t time False s)
      (\<lambda>s :: Scheduler. bindE (state_at (m_thread_manager s) t)
      (\<lambda>st. Inr (s\<lparr>m_thread_manager := put_state (m_thread_manager s) t (st\<lparr>ts_waiter := INVALID_THREAD_ID\<rparr>)\<rparr>)))) = Inr s'"
    using run unfolding sys_wakeUpWaiter_def bindE_Inr_iff by blast
  show ?thesis
  proof (cases "ts_waiter st = INVALID_THREAD_ID")
    case True
    then show ?thesis using st ok by simp
  next
    case False
    then obtain s1 st1 where s1: "sys_resumeThread (ts_waiter st) t time False s = Inr s1" "state_at (m_thread_manager s1) t = Inr st1"
      "s' = s1\<lparr>m_thread_manager := put_state (m_thread_manager s1) t (st1\<lparr>ts_waiter := INVALID_THREAD_ID\<rparr>)\<rparr>"
      using st by (auto simp: bindE_Inr_iff)
    have ok1: "system_ok s1" "length (m_threads (m_thread_manager s1)) = length (m_threads (m_thread_manager s))"
      "settled (m_thread_manager s) (m_thread_manager s1)" using sys_resumeThread_ok [OF ok s1(1)] by auto
    have "settled (m_thread_manager s1) (m_thread_manager s')"
      using s1(2,3) by (auto simp: settled_def state_at_Inr_iff put_state_def nth_list_update split: if_splits)
    then show ?thesis using ok1 s1(3) system_ok_tm [OF ok1(1)] settled_trans [OF ok1(3)] by (simp add: put_state_def same_cores_def)
  qed
qed

text \<open>The thread manager takes the core away first.\<close>

lemma setCore_None_inv:
  assumes inv: "sched_inv {} s" and run: "setCore (int j) None (set_core_state c IDLE (m_thread_manager s)) = Inr tm"
  shows "sched_inv (if m_core_running (m_thread_info s ! j) = -1 then {} else {j}) (s\<lparr>m_thread_manager := tm\<rparr>)"
    (is "sched_inv ?P _")
proof -
  let ?tm = "m_thread_manager s"
  have j: "j < length (m_threads ?tm)" using run by (auto simp: setCore_def bindE_Inr_iff getThread_Inr_iff set_core_state_def)
  then have core: "m_core (m_threads ?tm ! j) = (if m_core_running (m_thread_info s ! j) = -1 then None else Some (m_core_running (m_thread_info s ! j)))"
    using inv by (simp add: sched_inv_def cores_agree_def)
  have tm: "length (m_threads tm) = length (m_threads ?tm)" "m_thread_state tm = m_thread_state ?tm"
    "\<forall>i<length (m_threads ?tm). m_core (m_threads tm ! i) = (if i = j then None else m_core (m_threads ?tm ! i))"
    "core_thread tm = (case m_core (m_threads ?tm ! j) of None \<Rightarrow> core_thread ?tm | Some c \<Rightarrow> (core_thread ?tm)(c := None))"
    using run j by (auto simp: setCore_def bindE_Inr_iff getThread_Inr_iff set_core_state_def put_thread_def nth_list_update split: option.splits)
  have jn: "j < length (m_thread_info s)" using j sched_inv_lengths(5) [OF inv] by simp
  have run: "core_thread tm (int k) = (if m_core_thread_running s ! k = -1 \<or> nat (m_core_thread_running s ! k) \<in> ?P then None else Some (m_core_thread_running s ! k))"
    if k: "k < num_cores s" for k
  proof -
    have old: "core_thread ?tm (int k) = (if m_core_thread_running s ! k = -1 then None else Some (m_core_thread_running s ! k))"
      using inv k by (simp add: sched_inv_def cores_agree_def)
    show ?thesis
    proof (cases "m_core_thread_running s ! k = -1")
      case True
      then show ?thesis using old tm(4) by (auto split: option.splits)
    next
      case False
      from sched_inv_running [OF inv k False] obtain i where i: "m_core_thread_running s ! k = int i" "m_core_running (m_thread_info s ! i) = int k" .
      show ?thesis
      proof (cases "i = j")
        case True
        then show ?thesis using i core tm(4) by simp
      next
        case other: False
        have "m_core_running (m_thread_info s ! j) \<noteq> int k"
        proof
          assume jk: "m_core_running (m_thread_info s ! j) = int k"
          then have "m_core_running (m_thread_info s ! j) \<noteq> -1" by simp
          from sched_inv_core [OF inv jn this] jk i(1) other show False by auto
        qed
        then show ?thesis using i core tm(4) old other by auto
      qed
    qed
  qed
  then have "cores_agree ?P tm (m_thread_info s) (m_core_thread_running s)"
    using inv tm(1,3) core by (auto simp: sched_inv_def cores_agree_def)
  then show ?thesis using inv tm(1,2) jn by (auto simp: sched_inv_def tables_ok_def threads_known_def Let_def)
qed

lemma sys_onThreadExit_ok:
  assumes ok: "system_ok s" and run: "sys_onThreadExit t time cleared rows s = Inr s'"
  shows "system_ok s'"
proof -
  obtain x c st s1 s2 tm where x: "getThreadFromID (m_thread_manager s) t = Inr x" "state_at (m_thread_manager s) t = Inr st"
    and s1: "sys_wakeUpWaiter t time (s\<lparr>m_thread_manager := put_state (m_thread_manager s) t (st\<lparr>ts_status := IDLE\<rparr>)\<rparr>) = Inr s1"
    and s2: "(case cleared of None \<Rightarrow> Inr s1 | Some (w, wake_time) \<Rightarrow> sys_resumeThread w t wake_time True s1) = Inr s2"
    and tm: "setCore t None (set_core_state c IDLE (m_thread_manager s2)) = Inr tm"
    and s': "threadExit t time rows (s2\<lparr>m_thread_manager := call_hook (HOOK_THREAD_EXIT t time) tm\<rparr>) = Inr s'"
  proof -
    obtain x where "getThreadFromID (m_thread_manager s) t = Inr x" "m_core x \<noteq> None"
      using run by (auto simp: sys_onThreadExit_def bindE_Inr_iff split: option.splits)
    then show thesis using that run by (auto simp: sys_onThreadExit_def bindE_Inr_iff)
  qed
  obtain j where j: "t = int j" "j < length (m_threads (m_thread_manager s))" using x(1) by (auto simp: getThread_Inr_iff)
  let ?s0 = "s\<lparr>m_thread_manager := put_state (m_thread_manager s) t (st\<lparr>ts_status := IDLE\<rparr>)\<rparr>"
  have "system_ok ?s0" by (rule system_ok_tm [OF ok]) simp
  from sys_wakeUpWaiter_ok [OF this s1] have ok1: "system_ok s1" "length (m_threads (m_thread_manager s1)) = length (m_threads (m_thread_manager s))"
    "settled (m_thread_manager ?s0) (m_thread_manager s1)" by (auto simp: put_state_def)
  have "s2 = s1 \<or> (\<exists>w wake_time. sys_resumeThread w t wake_time True s1 = Inr s2)" using s2 by (auto split: option.splits)
  then have ok2: "system_ok s2" "length (m_threads (m_thread_manager s2)) = length (m_threads (m_thread_manager s))"
    "settled (m_thread_manager ?s0) (m_thread_manager s2)"
    using ok1 sys_resumeThread_ok [OF ok1(1)] settled_trans [OF ok1(3)] by auto
  have st2: "ts_status (m_thread_state (m_thread_manager s2) ! j) \<noteq> INITIALIZING"
    using ok2(3) x(2) j(1) by (auto simp: settled_def put_state_def state_at_Inr_iff)
  let ?s3 = "s2\<lparr>m_thread_manager := call_hook (HOOK_THREAD_EXIT t time) tm\<rparr>"
  let ?P = "if m_core_running (m_thread_info s2 ! j) = -1 then {} else {j}"
  have "sched_inv ?P (s2\<lparr>m_thread_manager := tm\<rparr>)" using setCore_None_inv [of s2 j c tm] ok2(1) tm j(1) by (simp add: system_ok_def)
  from sched_inv_hook_log [OF this, of "HOOK_THREAD_EXIT t time"] have inv3: "sched_inv ?P ?s3" by simp
  have same: "m_thread_state tm = m_thread_state (m_thread_manager s2)" "length (m_threads tm) = length (m_threads (m_thread_manager s2))"
    using tm by (auto simp: setCore_def bindE_Inr_iff set_core_state_def put_thread_def split: option.splits)
  obtain s5 where s5: "bindE (set_runnable (int j) False ?s3) (leave_core (int j) time) = Inr s5"
    "sch_build s5 \<noteq> PERIODIC_WORKLOAD \<Longrightarrow> s' = s5"
    using s' unfolding threadExit_def exit_thread_def j(1) by (auto simp: bindE_Inr_iff split: if_splits)
  have "system_ok s5"
    using leave_core_ok [OF inv3, of "m_thread_manager s2" j time s5] ok2(1,2) j s5(1) st2 same by (auto simp: call_hook_def)
  then show ?thesis using s5(2) by (simp add: system_ok_def)
qed

subsection \<open>The periodic call and new mappings\<close>

lemma move_affinity_only: "affinity_only (\<lambda>ti. addAffinity c (clearAffinity (ti\<lparr>m_explicit_affinity := True\<rparr>)))"
  unfolding affinity_only_def
proof (intro allI impI)
  fix ti ti' assume "addAffinity c (clearAffinity (ti\<lparr>m_explicit_affinity := True\<rparr>)) = Inr ti'"
  from addAffinity_keeps [OF this]
  show "m_core_running ti' = m_core_running ti \<and> length (m_core_affinity ti') = length (m_core_affinity ti)" by (simp add: clearAffinity_def)
qed

lemma remap_threads_ok: "system_ok s \<Longrightarrow> remap_threads ct g c ts s = Inr s' \<Longrightarrow> system_ok s'"
proof (induction ts arbitrary: s)
  case (Cons t ts)
  obtain s1 s2 where s1: "change_info (\<lambda>ti. addAffinity c (clearAffinity (ti\<lparr>m_explicit_affinity := True\<rparr>))) t s = Inr s1"
    "(if t \<ge> int (length (m_threads (m_thread_manager s1))) then Inr s1 else apply_affinity ct g t s1) = Inr s2" "remap_threads ct g c ts s2 = Inr s'"
    using Cons.prems(2) by (auto simp: bindE_Inr_iff)
  have ok1: "system_ok s1" by (rule system_ok_change_info [OF move_affinity_only Cons.prems(1) s1(1)])
  have "s2 = s1 \<or> apply_affinity ct g t s1 = Inr s2" using s1(2) by (simp split: if_splits)
  then have "system_ok s2" using ok1 apply_affinity_ok [OF ok1] by blast
  then show ?case using Cons.IH s1(3) by blast
qed simp

lemma remap_cores_ok: "system_ok s \<Longrightarrow> remap_cores ct g ps new s = Inr (new', s') \<Longrightarrow> system_ok s'"
proof (induction ps arbitrary: new s)
  case (Cons p ps)
  obtain f c where p: "p = (f, c)" by (cases p)
  obtain ts new1 s1 tc where s1: "remap_threads ct g c ts s = Inr s1" "remap_cores ct g ps new1 (s1\<lparr>threads_on_core := tc\<rparr>) = Inr (new', s')"
    using Cons.prems(2) unfolding p remap_cores.simps bindE_Inr_iff by blast
  have "system_ok (s1\<lparr>threads_on_core := tc\<rparr>)" using remap_threads_ok [OF Cons.prems(1) s1(1)] by simp
  then show ?case using Cons.IH s1(2) by blast
qed simp

lemma periodic_cores_ok: "system_ok s \<Longrightarrow> periodic_cores time delta cs s = Inr s' \<Longrightarrow> system_ok s'"
proof (induction cs arbitrary: s)
  case (Cons c cs)
  obtain q t s1 where s1: "(if delta > q \<or> t = INVALID_THREAD_ID then reschedule time c s else set_quantum c (q - delta) s) = Inr s1"
    "periodic_cores time delta cs s1 = Inr s'"
    using Cons.prems(2) unfolding periodic_cores.simps bindE_Inr_iff by blast
  have "reschedule time c s = Inr s1 \<or> set_quantum c (q - delta) s = Inr s1" using s1(1) by (simp split: if_splits)
  then have "system_ok s1" using reschedule_ok [OF Cons.prems(1)] set_quantum_ok [OF Cons.prems(1)] by blast
  then show ?case using Cons.IH s1(2) by blast
qed simp

lemma changeMapping_ok: "system_ok s \<Longrightarrow> changeMapping ct g b m s = Inr s' \<Longrightarrow> system_ok s'"
  using remap_cores_ok [of s ct g m "replicate (num_cores s) []"] by (auto simp: changeMapping_def bindE_Inr_iff split: if_splits)

lemma periodic_ok:
  assumes ok: "system_ok s" and run: "periodic ct g iv time s = Inr s'"
  shows "system_ok s'"
proof -
  obtain s1 s2 where s1: "(case iv of Some (changed, mapping) \<Rightarrow>
      if sch_build s \<noteq> PLAIN \<and> time \<ge> m_last_periodic_interval s + m_interval s
      then bindE (changeMapping ct g changed mapping s) (\<lambda>s. Inr (s\<lparr>m_last_periodic_interval := time\<rparr>)) else Inr s | None \<Rightarrow> Inr s) = Inr s1"
    "periodic_cores time (time - m_last_periodic s1) (core_ids s1) s1 = Inr s2" "s' = s2\<lparr>m_last_periodic := time\<rparr>"
    using run by (auto simp: periodic_def bindE_Inr_iff)
  have "system_ok s1" using s1(1) ok changeMapping_ok [OF ok] by (auto simp: bindE_Inr_iff split: option.splits if_splits)
  then show ?thesis using periodic_cores_ok s1(2,3) by simp
qed

subsection \<open>Creation\<close>

definition with_thread :: "SubsecondTime \<times> bool \<Rightarrow> ThreadManager \<Rightarrow> ThreadManager" where
  "with_thread wakeup tm = tm\<lparr>m_threads := m_threads tm @ [\<lparr>m_wakeup_time = fst wakeup, m_wakeup_msg = snd wakeup, m_core = None\<rparr>],
     m_thread_state := m_thread_state tm @ [mk_ThreadState\<lparr>ts_status := INITIALIZING\<rparr>]\<rparr>"

definition pad_info :: "nat \<Rightarrow> Scheduler \<Rightarrow> Scheduler" where
  "pad_info n s = (if length (m_thread_info s) \<le> n then resize_info (length (m_thread_info s) + 16) s else s)"

lemma pad_info_ok:
  assumes ok: "system_ok s"
  shows "system_ok (pad_info n s)" "m_thread_manager (pad_info n s) = m_thread_manager s"
    "length (m_thread_info (pad_info n s)) = length (m_thread_info s) + (if length (m_thread_info s) \<le> n then 16 else 0)"
proof -
  let ?is = "m_thread_info s @ replicate 16 (mk_ThreadInfo (num_cores s))"
  have run: "m_core_running (?is ! i) = (if i < length (m_thread_info s) then m_core_running (m_thread_info s ! i) else -1)"
    "length (m_core_affinity (?is ! i)) = (if i < length (m_thread_info s) then length (m_core_affinity (m_thread_info s ! i)) else num_cores s)"
    if "i < length (m_thread_info s) + 16" for i
    using that by (auto simp: nth_append mk_ThreadInfo_def invalid_defs)
  have inv: "sched_inv {} s" and n: "length (m_threads (m_thread_manager s)) \<le> length (m_thread_info s)"
    using ok sched_inv_lengths(5) [of "{}" s] by (auto simp: system_ok_def)
  have "tables_ok (s\<lparr>m_thread_info := ?is\<rparr>)"
    using inv run unfolding sched_inv_def tables_ok_def by (simp, intro conjI allI impI) (metis trans_less_add1 not_less)+
  moreover have "threads_known (s\<lparr>m_thread_info := ?is\<rparr>)"
    using inv run by (auto simp: sched_inv_def threads_known_def Let_def split: if_splits)
  moreover have "cores_agree {} (m_thread_manager s) ?is (m_core_thread_running s)"
    using inv run n by (auto simp: sched_inv_def cores_agree_def)
  ultimately show "system_ok (pad_info n s)" using ok by (simp add: pad_info_def resize_info_def system_ok_def sched_inv_def)
qed (simp_all add: pad_info_def resize_info_def)

lemma info_manager_swap:
  "s\<lparr>m_thread_manager := tm, m_thread_info := is\<rparr> = s\<lparr>m_thread_info := is, m_thread_manager := tm\<rparr>" for s :: Scheduler
  by simp

lemma with_thread_ok:
  assumes ok: "system_ok s" and n: "length (m_threads (m_thread_manager s)) < length (m_thread_info s)"
  shows "system_ok (s\<lparr>m_thread_manager := with_thread w (m_thread_manager s)\<rparr>)"
    "m_core_running (m_thread_info s ! length (m_threads (m_thread_manager s))) = -1"
proof -
  show free: "m_core_running (m_thread_info s ! length (m_threads (m_thread_manager s))) = -1"
    using ok n by (auto simp: system_ok_def sched_inv_def threads_known_def Let_def)
  have "cores_agree {} (with_thread w (m_thread_manager s)) (m_thread_info s) (m_core_thread_running s)"
    using ok free by (auto simp: system_ok_def sched_inv_def cores_agree_def with_thread_def nth_append less_Suc_eq)
  moreover have "threads_known (s\<lparr>m_thread_manager := with_thread w (m_thread_manager s)\<rparr>)"
    using ok n by (auto simp: system_ok_def sched_inv_def threads_known_def with_thread_def Let_def less_Suc_eq)
  ultimately show "system_ok (s\<lparr>m_thread_manager := with_thread w (m_thread_manager s)\<rparr>)"
    using ok by (simp add: system_ok_def sched_inv_def tables_ok_def)
qed

text \<open>What a subclass promises when it picks the cores of a new thread: it changes nothing but the affinity of threads.\<close>

locale initial_affinity =
  fixes policies :: "(thread_id_t \<Rightarrow> Scheduler \<Rightarrow> Scheduler res) set"
  assumes keeps_ok: "\<lbrakk>initial \<in> policies; system_ok s; initial t s = Inr s'\<rbrakk> \<Longrightarrow> system_ok s'"
    and keeps_manager: "\<lbrakk>initial \<in> policies; system_ok s; initial t s = Inr s'\<rbrakk> \<Longrightarrow> m_thread_manager s' = m_thread_manager s"
    and keeps_running: "\<lbrakk>initial \<in> policies; system_ok s; initial t s = Inr s'; j < length (m_thread_info s)\<rbrakk> \<Longrightarrow>
      m_core_running (m_thread_info s' ! j) = m_core_running (m_thread_info s ! j)"
begin

lemma threadCreate_inv:
  assumes ok: "system_ok s" and j: "j < length (m_threads (m_thread_manager s))" "m_core_running (m_thread_info s ! j) = -1"
    and I: "initial \<in> policies" and run: "threadCreate initial (int j) s = Inr (c, s')"
  shows "m_thread_manager s' = m_thread_manager s \<and>
    (c = -1 \<and> system_ok s' \<or> (\<exists>k<num_cores s'. c = int k \<and> m_core_thread_running s' ! k = int j \<and> sched_inv {j} s' \<and>
      (\<exists>s1. system_ok s1 \<and> length (m_thread_info s') = length (m_thread_info s1) \<and> m_threads_runnable s' = m_threads_runnable s1 \<and> sch_build s' = sch_build s1)))"
proof -
  have jn: "j < length (m_thread_info s)" using j(1) ok sched_inv_lengths(5) [of "{}" s] by (simp add: system_ok_def)
  have pad: "(if int (length (m_thread_info s)) \<le> int j then resize_info (length (m_thread_info s) + 16) s else s) = s" using jn by simp
  have build: "(sch_build s = PERIODIC_WORKLOAD \<and> x) = False" for x using ok by (simp add: system_ok_def)
  let ?place = "\<lambda>c s2. if c = INVALID_CORE_ID then Inr (c, s2)
    else bindE (set_running c (int j) s2) (\<lambda>s. bindE (set_quantum c (m_quantum s) s) (\<lambda>s. Inr (c, s)))"
  obtain ti :: ThreadInfo and s1 s2 c' where s1': "(if m_has_affinity ti then Inr s else initial (int j) s) = Inr s1" "findFreeCoreForThread s1 (int j) = Inr c'"
    "change_info (\<lambda>ti :: ThreadInfo. Inr (ti\<lparr>m_core_running := c'\<rparr>)) (int j) s1 = Inr s2" "?place c' s2 = Inr (c, s')"
    using run unfolding threadCreate_def Let_def pad build if_False bindE_Inr_iff by blast
  have "c' = c" using s1'(4) by (auto simp: bindE_Inr_iff split: if_splits)
  note s1 = s1' [unfolded this]
  have "s1 = s \<or> initial (int j) s = Inr s1" using s1(1) by (simp split: if_splits)
  then have ok1: "system_ok s1" "m_thread_manager s1 = m_thread_manager s" "m_core_running (m_thread_info s1 ! j) = -1"
    using ok j(2) keeps_ok [OF I ok] keeps_manager [OF I ok] keeps_running [OF I ok _ jn] by auto
  have inv1: "sched_inv {} s1" using ok1(1) by (simp add: system_ok_def)
  have jn1: "j < length (m_thread_info s1)" using j(1) ok1(2) sched_inv_lengths(5) [OF inv1] by simp
  let ?ti = "(m_thread_info s1 ! j)\<lparr>m_core_running := c\<rparr>"
  have s2: "s2 = s1\<lparr>m_thread_info := (m_thread_info s1)[j := ?ti]\<rparr>"
    using s1(3) jn1 by (simp add: change_info_def info_at_def put_info_def)
  from findFreeCoreForThread_found [OF inv1 jn1] s1(2) consider "c = -1" | k where "c = int k" "k \<in> free_cores s1" by auto
  then show ?thesis
  proof cases
    case 1
    then have "?ti = m_thread_info s1 ! j" using ok1(3) by (cases "m_thread_info s1 ! j") simp
    then have "s2 = s1" using s2 by simp
    then show ?thesis using 1 s1(4) ok1(1,2) by (simp add: invalid_defs)
  next
    case 2
    then have k: "k < num_cores s1" "m_core_thread_running s1 ! k = -1" by (auto simp: free_cores_def)
    let ?s3 = "s1\<lparr>m_thread_info := (m_thread_info s1)[j := ?ti], m_core_thread_running := (m_core_thread_running s1)[k := int j]\<rparr>"
    have "sched_inv {j} ?s3" using fill_inv [OF inv1 k _ ok1(3), of ?ti] j(1) ok1(2) 2(1) by simp
    moreover have "s' = ?s3\<lparr>m_quantum_left := (m_quantum_left s1)[k := m_quantum s1]\<rparr>"
      using s1(4) s2 2(1) k(1) sched_inv_lengths(1) [OF inv1] by (simp add: set_running_def set_quantum_def invalid_defs)
    ultimately show ?thesis using 2(1) k(1) ok1(1,2) by (auto simp: sched_inv_defs)
  qed
qed

lemma sys_createThread_ok:
  assumes ok: "system_ok s" and I: "initial \<in> policies" and run: "sys_createThread initial w creator s = Inr s'"
  shows "system_ok s'"
proof -
  let ?n = "length (m_threads (m_thread_manager s))"
  let ?p = "pad_info ?n s"
  let ?s0 = "?p\<lparr>m_thread_manager := with_thread w (m_thread_manager s)\<rparr>"
  have n: "?n < length (m_thread_info ?p)" using ok sched_inv_lengths(5) [of "{}" s] pad_info_ok(3) [OF ok] by (simp add: system_ok_def)
  have ok0: "system_ok ?s0" "m_core_running (m_thread_info ?s0 ! ?n) = -1"
    using with_thread_ok [OF pad_info_ok(1) [OF ok, of ?n]] n pad_info_ok(2) [OF ok] by simp_all
  have same: "threadCreate initial (int ?n) (s\<lparr>m_thread_manager := with_thread w (m_thread_manager s)\<rparr>) = threadCreate initial (int ?n) ?s0"
    using n by (simp add: threadCreate_def pad_info_def resize_info_def info_manager_swap split: if_splits)
  obtain c s1 s2 where s1: "threadCreate initial (int ?n) ?s0 = Inr (c, s1)" "sys_enter (int ?n) c s1 = Inr s2"
    "s' = s2\<lparr>m_thread_manager := call_hook (HOOK_THREAD_CREATE (int ?n) creator) (m_thread_manager s2)\<rparr>"
    using run unfolding sys_createThread_def Let_def with_thread_def [symmetric] same by (auto simp: bindE_Inr_iff)
  have len: "?n < length (m_threads (m_thread_manager ?s0))" by (simp add: with_thread_def)
  have "system_ok s2"
  proof (cases "c = -1")
    case True
    then show ?thesis using threadCreate_inv [OF ok0(1) len ok0(2) I s1(1)] s1(2) by (auto simp: sys_enter_def invalid_defs)
  next
    case False
    then obtain k o1 where k: "c = int k" "k < num_cores s1" "m_core_thread_running s1 ! k = int ?n" "sched_inv {?n} s1"
      and o1: "system_ok o1" "length (m_thread_info s1) = length (m_thread_info o1)" "m_threads_runnable s1 = m_threads_runnable o1" "sch_build s1 = sch_build o1"
      using threadCreate_inv [OF ok0(1) len ok0(2) I s1(1)] by blast
    have mot: "?n < length (m_threads (m_thread_manager s1))" "m_core (m_threads (m_thread_manager s1) ! ?n) = None"
      "core_thread (m_thread_manager s1) (int k) = None" using in_motion [of ?n "{}" s1 k] k by auto
    then obtain tm where tm: "s2 = s1\<lparr>m_thread_manager := tm\<rparr>" "length (m_threads tm) = length (m_threads (m_thread_manager s1))"
      "m_thread_state tm = m_thread_state (m_thread_manager s1)"
      "\<forall>i<length (m_threads (m_thread_manager s1)). m_core (m_threads tm ! i) = (if i = ?n then Some (int k) else m_core (m_threads (m_thread_manager s1) ! i))"
      "core_thread tm = (core_thread (m_thread_manager s1))(int k := Some (int ?n))"
      using s1(2) k(1) by (auto simp: sys_enter_def setCore_def bindE_Inr_iff getThread_Inr_iff put_thread_def set_core_state_def invalid_defs nth_list_update Let_def)
    have "sched_inv {} s2" using arrive_inv [of ?n "{}" s1 k tm] k tm by simp
    then show ?thesis using o1 tm(1) by (simp add: system_ok_def)
  qed
  then show ?thesis using s1(3) system_ok_tm [of s2] by simp
qed

end

end
