(* ===== verification/LS_Sched_Reach.thy ===== *)
theory LS_Sched_Reach
  imports LS_Sched_Steps
begin

text \<open>
  The schedulers at work: what holds after every sequence of events, that rescheduling returns and serves the thread that has
  waited longest, the order in which the pinned scheduler hands out cores, and affinity masks.
\<close>

section \<open>The subclasses keep the contract of initial affinities\<close>

definition pinned_policies :: "(thread_id_t \<Rightarrow> Scheduler \<Rightarrow> Scheduler res) set" where
  "pinned_policies = range (\<lambda>p t s. map_sum id snd (pinned_initial t (p, s)))"

definition initial_policies :: "(thread_id_t \<Rightarrow> Scheduler \<Rightarrow> Scheduler res) set" where
  "initial_policies = pinned_policies \<union> {mapped_initial} \<union> range roaming_initial"

lemma single_affinity_only: "affinity_only (setAffinitySingle c)"
  unfolding affinity_only_def
proof (intro allI impI)
  fix ti ti' assume "setAffinitySingle c ti = Inr ti'"
  then have "addAffinity c (clearAffinity ti) = Inr ti'" by (simp add: setAffinitySingle_def)
  from addAffinity_keeps [OF this]
  show "m_core_running ti' = m_core_running ti \<and> length (m_core_affinity ti') = length (m_core_affinity ti)" by (simp add: clearAffinity_def)
qed

lemma masked_affinity_only: "affinity_only (\<lambda>ti. add_masked m cs (clearAffinity ti))"
  unfolding affinity_only_def
proof (intro allI impI)
  fix ti ti' assume "add_masked m cs (clearAffinity ti) = Inr ti'"
  from add_masked_keeps [OF this]
  show "m_core_running ti' = m_core_running ti \<and> length (m_core_affinity ti') = length (m_core_affinity ti)" by (simp add: clearAffinity_def)
qed

text \<open>A change of affinity satisfies the contract, and so does one after other tables have changed.\<close>

lemma affinity_contract:
  assumes f: "affinity_only f" and ok: "system_ok s" and run: "change_info f t s = Inr s'"
  shows "system_ok s'" "m_thread_manager s' = m_thread_manager s"
    "j < length (m_thread_info s) \<Longrightarrow> m_core_running (m_thread_info s' ! j) = m_core_running (m_thread_info s ! j)"
proof -
  have "sched_inv {} s" using ok by (simp add: system_ok_def)
  from change_info_ok [OF f this run] obtain "is" where "s' = s\<lparr>m_thread_info := is\<rparr>" "length is = length (m_thread_info s)"
    "\<forall>j<length is. m_core_running (is ! j) = m_core_running (m_thread_info s ! j)" by blast
  then show "m_thread_manager s' = m_thread_manager s"
    "j < length (m_thread_info s) \<Longrightarrow> m_core_running (m_thread_info s' ! j) = m_core_running (m_thread_info s ! j)" by simp_all
  show "system_ok s'" by (rule system_ok_change_info [OF f ok run])
qed

lemma pinned_Inr:
  assumes "initial \<in> pinned_policies" and "initial t s = Inr s'"
  obtains c where "change_info (setAffinitySingle c) t s = Inr s'"
proof -
  obtain p where "map_sum id snd (pinned_initial t (p, s)) = Inr s'" using assms by (auto simp: pinned_policies_def)
  then obtain p' where "pinned_initial t (p, s) = Inr (p', s')" by (cases "pinned_initial t (p, s)") auto
  then show thesis using that by (auto simp: pinned_initial_def bindE_Inr_iff)
qed

interpretation pinned: initial_affinity pinned_policies
proof
  fix initial t s s' j assume a: "initial \<in> pinned_policies" "system_ok s" "initial t s = Inr s'"
  obtain c where c: "change_info (setAffinitySingle c) t s = Inr s'" using a(1,3) by (rule pinned_Inr)
  note k = affinity_contract [OF single_affinity_only a(2) c]
  show "system_ok s'" "m_thread_manager s' = m_thread_manager s" by (rule k)+
  show "j < length (m_thread_info s) \<Longrightarrow> m_core_running (m_thread_info s' ! j) = m_core_running (m_thread_info s ! j)" by (rule k)
qed

lemma push_thread_other: "push_thread c t r s = Inr s' \<Longrightarrow> \<exists>x y. s' = s\<lparr>threads_on_core := x, mw_rank_of_thread := y\<rparr>"
  by (auto simp: push_thread_def bindE_Inr_iff)

lemma map_core_other: "\<exists>m. snd (map_core key s) = s\<lparr>core_thread_map := m\<rparr>"
  by (cases "core_thread_map s key") (auto simp: map_core_def intro: exI [of _ "core_thread_map s"])

lemma mapped_Inr:
  assumes "mapped_initial t s = Inr s'"
  obtains c m x y z where "change_info (setAffinitySingle c) t (s\<lparr>core_thread_map := m, threads_on_core := x, mw_rank_of_thread := y, current_thread_count := z\<rparr>) = Inr s'"
proof -
  obtain n c s1 s2 cs where a: "map_core (app_id_of s t, n) s = (c, s1)" "push_thread c t n s1 = Inr s2"
    "change_info (setAffinitySingle c) t (s2\<lparr>current_thread_count := cs\<rparr>) = Inr s'"
    using assms unfolding mapped_initial_def Let_def by (auto simp: bindE_Inr_iff case_prod_beta) (metis prod.collapse)
  obtain m where "s1 = s\<lparr>core_thread_map := m\<rparr>" using map_core_other [of "(app_id_of s t, n)" s] a(1) by auto
  moreover obtain x y where "s2 = s1\<lparr>threads_on_core := x, mw_rank_of_thread := y\<rparr>" using push_thread_other [OF a(2)] by blast
  ultimately show thesis using that a(3) by simp
qed

interpretation mapped: initial_affinity "{mapped_initial}"
proof
  fix initial t s s' j assume a: "initial \<in> {mapped_initial}" "system_ok s" "initial t s = Inr s'"
  then have "mapped_initial t s = Inr s'" by simp
  then obtain c m x y z where
    c: "change_info (setAffinitySingle c) t (s\<lparr>core_thread_map := m, threads_on_core := x, mw_rank_of_thread := y, current_thread_count := z\<rparr>) = Inr s'"
    by (rule mapped_Inr)
  have "system_ok (s\<lparr>core_thread_map := m, threads_on_core := x, mw_rank_of_thread := y, current_thread_count := z\<rparr>)" using a(2) by simp
  note k = affinity_contract [OF single_affinity_only this c]
  show "system_ok s'" by (rule k)
  show "m_thread_manager s' = m_thread_manager s" using k(2) by simp
  show "j < length (m_thread_info s) \<Longrightarrow> m_core_running (m_thread_info s' ! j) = m_core_running (m_thread_info s ! j)" using k(3) by simp
qed

interpretation roaming: initial_affinity "range roaming_initial"
proof
  fix initial t s s' j assume a: "initial \<in> range roaming_initial" "system_ok s" "initial t s = Inr s'"
  then obtain m where "change_info (\<lambda>ti. add_masked m (core_ids s) (clearAffinity ti)) t s = Inr s'" by (auto simp: roaming_initial_def)
  note k = affinity_contract [OF masked_affinity_only a(2) this]
  show "system_ok s'" "m_thread_manager s' = m_thread_manager s" by (rule k)+
  show "j < length (m_thread_info s) \<Longrightarrow> m_core_running (m_thread_info s' ! j) = m_core_running (m_thread_info s ! j)" by (rule k)
qed

lemma policies_union:
  assumes "initial_affinity A" and "initial_affinity B"
  shows "initial_affinity (A \<union> B)"
proof
  fix initial t s s' j assume a: "initial \<in> A \<union> B" "system_ok s" "initial t s = Inr s'"
  from a(1) have "initial \<in> A \<or> initial \<in> B" by simp
  note in_one = this
  show "system_ok s'" using in_one a(2,3) assms initial_affinity.keeps_ok by metis
  show "m_thread_manager s' = m_thread_manager s" using in_one a(2,3) assms initial_affinity.keeps_manager by metis
  show "j < length (m_thread_info s) \<Longrightarrow> m_core_running (m_thread_info s' ! j) = m_core_running (m_thread_info s ! j)"
    using in_one a(2,3) assms initial_affinity.keeps_running by metis
qed

interpretation schedulers: initial_affinity initial_policies
  unfolding initial_policies_def
  by (intro policies_union pinned.initial_affinity_axioms mapped.initial_affinity_axioms roaming.initial_affinity_axioms)

section \<open>Every sequence of events\<close>

abbreviation initial_scheduler ::
  "build_t \<Rightarrow> (core_id_t \<Rightarrow> core_State) \<Rightarrow> (thread_id_t \<Rightarrow> int) \<Rightarrow> nat \<Rightarrow> SubsecondTime \<Rightarrow> SubsecondTime \<Rightarrow> nat \<Rightarrow> (int \<times> int \<times> int) list \<Rightarrow> Scheduler" where
  "initial_scheduler build cs app cores quantum interval apps rows \<equiv>
     read_mapping rows (mk_SchedulerPinnedBase build (mk_ThreadManager cs) app cores quantum interval apps 0 0)"

inductive sched_reach :: "(thread_id_t \<Rightarrow> Scheduler \<Rightarrow> Scheduler res) set \<Rightarrow> Scheduler \<Rightarrow> bool" for policies where
  first: "\<lbrakk>build \<noteq> PERIODIC_WORKLOAD; initial \<in> policies;
    sys_createThread initial w creator (initial_scheduler build cs app cores quantum interval apps rows) = Inr s\<rbrakk> \<Longrightarrow> sched_reach policies s"
| create: "\<lbrakk>sched_reach policies s; initial \<in> policies; sys_createThread initial w creator s = Inr s'\<rbrakk> \<Longrightarrow> sched_reach policies s'"
| start: "\<lbrakk>sched_reach policies s; sys_onThreadStart t time elapsed s = Inr s'\<rbrakk> \<Longrightarrow> sched_reach policies s'"
| stall: "\<lbrakk>sched_reach policies s; sys_stallThread t reason time s = Inr s'\<rbrakk> \<Longrightarrow> sched_reach policies s'"
| resume: "\<lbrakk>sched_reach policies s; sys_resumeThread t thread_by time msg s = Inr s'\<rbrakk> \<Longrightarrow> sched_reach policies s'"
| exit: "\<lbrakk>sched_reach policies s; sys_onThreadExit t time cleared rows s = Inr s'\<rbrakk> \<Longrightarrow> sched_reach policies s'"
| yield: "\<lbrakk>sched_reach policies s; threadYield core_time t s = Inr s'\<rbrakk> \<Longrightarrow> sched_reach policies s'"
| affinity: "\<lbrakk>sched_reach policies s; t < int (length (m_threads (m_thread_manager s)));
    threadSetAffinity core_time global_time caller t cpu_mask s = Inr s'\<rbrakk> \<Longrightarrow> sched_reach policies s'"
| periodic: "\<lbrakk>sched_reach policies s; periodic core_time global_time intervention time s = Inr s'\<rbrakk> \<Longrightarrow> sched_reach policies s'"

lemma initial_ok:
  assumes "build \<noteq> PERIODIC_WORKLOAD"
  shows "system_ok (resize_info 16 (initial_scheduler build cs app cores quantum interval apps rows))"
  using assms
  by (simp add: system_ok_def sched_inv_defs resize_info_def read_mapping_def mk_SchedulerPinnedBase_def mk_ThreadManager_def mk_ThreadInfo_def
      invalid_defs)

lemma first_create:
  assumes "m_thread_info s = []" and "m_threads (m_thread_manager s) = []"
  shows "sys_createThread initial w creator (resize_info 16 s) = sys_createThread initial w creator s"
  using assms by (simp add: sys_createThread_def threadCreate_def resize_info_def info_manager_swap)

context initial_affinity
begin

lemma reach_ok: "sched_reach policies s \<Longrightarrow> system_ok s"
proof (induction rule: sched_reach.induct)
  case (first build initial w creator cs app cores quantum interval apps rows s)
  let ?s0 = "initial_scheduler build cs app cores quantum interval apps rows"
  have "sys_createThread initial w creator (resize_info 16 ?s0) = Inr s"
    using first(3) by (subst first_create) (simp_all add: read_mapping_def mk_SchedulerPinnedBase_def mk_ThreadManager_def)
  then show ?case using sys_createThread_ok [OF initial_ok [OF first(1)] first(2)] by blast
next
  case (create s initial w creator s')
  then show ?case using sys_createThread_ok by blast
next
  case (affinity s t core_time global_time caller cpu_mask s')
  then show ?case using threadSetAffinity_ok by blast
qed (erule sys_onThreadStart_ok sys_stallThread_ok conjunct1 [OF sys_resumeThread_ok] sys_onThreadExit_ok conjunct1 [OF threadYield_ok] periodic_ok,
  assumption)+

lemma reach_inv: "sched_reach policies s \<Longrightarrow> sched_inv {} s"
  using reach_ok by (simp add: system_ok_def)

end

text \<open>A run of two threads on two cores, each of them started.\<close>

definition two_core_policy :: "thread_id_t \<Rightarrow> Scheduler \<Rightarrow> Scheduler res" where
  "two_core_policy = (\<lambda>t s. map_sum id snd (pinned_initial t (mk_SchedulerPinned 1 [True, True], s)))"

definition two_core_run :: "Scheduler res" where
  "two_core_run =
     bindE (sys_createThread two_core_policy (0, False) (-1) (initial_scheduler PLAIN (\<lambda>_. IDLE) (\<lambda>_. 0) 2 1000 1000 1 []))
     (\<lambda>s. bindE (sys_createThread two_core_policy (0, False) 0 s)
     (\<lambda>s. bindE (sys_onThreadStart 0 5 0 s) (sys_onThreadStart 1 6 0)))"

lemma two_core_run_result: "case two_core_run of Inl _ \<Rightarrow> False | Inr s \<Rightarrow> m_core_thread_running s = [0, 1] \<and> length (m_threads (m_thread_manager s)) = 2"
  by code_simp

lemma two_core_run_reach:
  obtains s where "two_core_run = Inr s" "sched_reach initial_policies s" "m_core_thread_running s = [0, 1]" "length (m_threads (m_thread_manager s)) = 2"
proof -
  obtain s where s: "two_core_run = Inr s" "m_core_thread_running s = [0, 1]" "length (m_threads (m_thread_manager s)) = 2"
    using two_core_run_result by (auto split: sum.splits)
  have pol: "two_core_policy \<in> initial_policies" by (auto simp: initial_policies_def pinned_policies_def two_core_policy_def)
  obtain s1 s2 s3 where run: "sys_createThread two_core_policy (0, False) (-1) (initial_scheduler PLAIN (\<lambda>_. IDLE) (\<lambda>_. 0) 2 1000 1000 1 []) = Inr s1"
    "sys_createThread two_core_policy (0, False) 0 s1 = Inr s2" "sys_onThreadStart 0 5 0 s2 = Inr s3" "sys_onThreadStart 1 6 0 s3 = Inr s"
    using s(1) unfolding two_core_run_def bindE_Inr_iff by blast
  have "sched_reach initial_policies s1" by (rule first [OF _ pol run(1)]) simp
  from start [OF start [OF create [OF this pol run(2)] run(3)] run(4)] have "sched_reach initial_policies s" .
  then show thesis using that s by blast
qed

lemma tables_agree:
  assumes inv: "sched_inv {} s"
  shows "\<forall>k<num_cores s. core_thread (m_thread_manager s) (int k) =
      (if m_core_thread_running s ! k = INVALID_THREAD_ID then None else Some (m_core_thread_running s ! k))"
    and "\<forall>j<length (m_threads (m_thread_manager s)). m_core (m_threads (m_thread_manager s) ! j) =
      (if m_core_running (m_thread_info s ! j) = INVALID_CORE_ID then None else Some (m_core_running (m_thread_info s ! j)))"
    and "\<forall>j<length (m_threads (m_thread_manager s)). \<forall>k<num_cores s.
      m_core (m_threads (m_thread_manager s) ! j) = Some (int k) \<longleftrightarrow> core_thread (m_thread_manager s) (int k) = Some (int j)"
proof -
  show run: "\<forall>k<num_cores s. core_thread (m_thread_manager s) (int k) =
      (if m_core_thread_running s ! k = INVALID_THREAD_ID then None else Some (m_core_thread_running s ! k))"
    and thr: "\<forall>j<length (m_threads (m_thread_manager s)). m_core (m_threads (m_thread_manager s) ! j) =
      (if m_core_running (m_thread_info s ! j) = INVALID_CORE_ID then None else Some (m_core_running (m_thread_info s ! j)))"
    using inv by (simp_all add: sched_inv_def cores_agree_def invalid_defs)
  show "\<forall>j<length (m_threads (m_thread_manager s)). \<forall>k<num_cores s.
      m_core (m_threads (m_thread_manager s) ! j) = Some (int k) \<longleftrightarrow> core_thread (m_thread_manager s) (int k) = Some (int j)"
  proof (intro allI impI)
    fix j k assume j: "j < length (m_threads (m_thread_manager s))" and k: "k < num_cores s"
    have jn: "j < length (m_thread_info s)" using j sched_inv_lengths(5) [OF inv] by simp
    have "m_core_running (m_thread_info s ! j) = int k \<longleftrightarrow> m_core_thread_running s ! k = int j"
    proof
      assume a: "m_core_running (m_thread_info s ! j) = int k"
      then have "m_core_running (m_thread_info s ! j) \<noteq> -1" by simp
      from sched_inv_core [OF inv jn this] a show "m_core_thread_running s ! k = int j" by auto
    next
      assume a: "m_core_thread_running s ! k = int j"
      then have "m_core_thread_running s ! k \<noteq> -1" by simp
      from sched_inv_running [OF inv k this] a show "m_core_running (m_thread_info s ! j) = int k" by auto
    qed
    then show "m_core (m_threads (m_thread_manager s) ! j) = Some (int k) \<longleftrightarrow> core_thread (m_thread_manager s) (int k) = Some (int j)"
      using run thr j k by (auto simp: invalid_defs)
  qed
qed

section \<open>Properties\<close>

text \<open>
  C7. After every sequence of creations, starts, stalls, wake-ups and exits of threads, yields, changes of affinity and calls of
  the periodic hook, under the pinned, mapped and roaming schedulers, the tables of the scheduler and the thread manager agree:
  the thread the scheduler has noted for a core is the one the core runs, the core noted for a thread is the one the thread is
  on, and a thread is on a core exactly when the core runs that thread.
\<close>

theorem scheduler_agrees:
  assumes "sched_reach initial_policies s"
  shows "(\<forall>k<num_cores s. core_thread (m_thread_manager s) (int k) =
      (if m_core_thread_running s ! k = INVALID_THREAD_ID then None else Some (m_core_thread_running s ! k))) \<and>
    (\<forall>j<length (m_threads (m_thread_manager s)). m_core (m_threads (m_thread_manager s) ! j) =
      (if m_core_running (m_thread_info s ! j) = INVALID_CORE_ID then None else Some (m_core_running (m_thread_info s ! j)))) \<and>
    (\<forall>j<length (m_threads (m_thread_manager s)). \<forall>k<num_cores s.
      m_core (m_threads (m_thread_manager s) ! j) = Some (int k) \<longleftrightarrow> core_thread (m_thread_manager s) (int k) = Some (int j))"
  using tables_agree [OF schedulers.reach_inv [OF assms]] by blast

theorem scheduler_agrees_witness:
  "\<exists>s. sched_reach initial_policies s \<and> core_thread (m_thread_manager s) 0 = Some 0 \<and> core_thread (m_thread_manager s) 1 = Some 1"
proof -
  obtain s where s: "two_core_run = Inr s" "sched_reach initial_policies s" "m_core_thread_running s = [0, 1]" "length (m_threads (m_thread_manager s)) = 2"
    by (rule two_core_run_reach)
  show ?thesis
  proof (intro exI conjI)
    show "sched_reach initial_policies s" by (rule s)
    show "core_thread (m_thread_manager s) 0 = Some 0" "core_thread (m_thread_manager s) 1 = Some 1"
      using scheduler_agrees [OF s(2)] s(3) by (auto simp: invalid_defs dest: spec [of _ 0] spec [of _ 1])
  qed
qed

text \<open>
  C8. Rescheduling a core always returns, although the thread manager calls the scheduler back while it moves threads. Cores that
  were busy keep their threads. Unless the thread on the core is still being set up, the core then runs, among the runnable threads
  that may use it and are not on another core, one that has waited longest (or has run for the shortest time); it is idle
  only if no such thread exists (up to a waiting time of exactly the smallest number of 64 bits).
\<close>

theorem reschedule_returns:
  assumes "sched_reach initial_policies s" and "k < num_cores s"
  shows "\<exists>s'. reschedule time (int k) s = Inr s' \<and>
    (\<forall>c<num_cores s. c \<noteq> k \<longrightarrow> m_core_thread_running s ! c \<noteq> INVALID_THREAD_ID \<longrightarrow> m_core_thread_running s' ! c = m_core_thread_running s ! c) \<and>
    (is_initializing s (m_core_thread_running s ! k) = Inr False \<longrightarrow>
      m_core_thread_running s' ! k = INVALID_THREAD_ID \<and> (\<forall>j. may_run s k j \<longrightarrow> waited time s j = sint INT64_MIN) \<or>
      (\<exists>j. m_core_thread_running s' ! k = int j \<and> may_run s k j \<and> (\<forall>i. may_run s k i \<longrightarrow> waited time s i \<le> waited time s j)))"
proof -
  have inv: "sched_inv {} s" using assms(1) by (rule schedulers.reach_inv)
  obtain s' where s': "reschedule time (int k) s = Inr s'" "busy_kept {k} s s'"
    "is_initializing s (m_core_thread_running s ! k) \<noteq> Inr True \<longrightarrow> pick_thread time (int k) s = Inr (m_core_thread_running s' ! k)"
    using reschedule_inv [OF inv assms(2), of time] by blast
  have "m_core_thread_running s' ! k = -1 \<and> (\<forall>j. may_run s k j \<longrightarrow> waited time s j = sint INT64_MIN) \<or>
      (\<exists>j. m_core_thread_running s' ! k = int j \<and> may_run s k j \<and> (\<forall>i. may_run s k i \<longrightarrow> waited time s i \<le> waited time s j))"
    if "is_initializing s (m_core_thread_running s ! k) = Inr False"
    using pick_thread_best [OF inv assms(2), of time] s'(3) that by auto
  moreover have "m_core_thread_running s' ! c = m_core_thread_running s ! c" if "c < num_cores s" "c \<noteq> k" "m_core_thread_running s ! c \<noteq> -1" for c
    using s'(2) that by (auto simp: busy_kept_def)
  ultimately show ?thesis using s'(1) unfolding invalid_defs by blast
qed

theorem reschedule_returns_witness: "\<exists>s s'. sched_reach initial_policies s \<and> 1 < num_cores s \<and> reschedule 100 1 s = Inr s' \<and> m_core_thread_running s' ! 0 = 0"
proof -
  obtain s where s: "two_core_run = Inr s" "sched_reach initial_policies s" "m_core_thread_running s = [0, 1]" "length (m_threads (m_thread_manager s)) = 2"
    by (rule two_core_run_reach)
  then have one: "1 < num_cores s" by simp
  from reschedule_returns [OF s(2) one, of 100] obtain s' where s': "reschedule 100 (int 1) s = Inr s'"
    "\<forall>c<num_cores s. c \<noteq> 1 \<longrightarrow> m_core_thread_running s ! c \<noteq> INVALID_THREAD_ID \<longrightarrow> m_core_thread_running s' ! c = m_core_thread_running s ! c" by blast
  have "m_core_thread_running s' ! 0 = 0" using s'(2) s(3) by (auto simp: invalid_defs dest: spec [of _ 0])
  then show ?thesis using s(2) one s'(1) by auto
qed

text \<open>
  C39. In the build with periodic workloads and the reliability unit, no thread can end without a write outside of a table: the thread
  has left its core when \<^verbatim>\<open>threadExit\<close> uses the number of that core to note the end time, so it writes at index -1.
\<close>

theorem exit_writes_out_of_range:
  assumes inv: "sched_inv P s" and "P \<subseteq> {j}" and j: "j < length (m_threads (m_thread_manager s))" "j < length (m_threads_runnable s)"
    and st: "ts_status (m_thread_state (m_thread_manager s) ! j) \<noteq> INITIALIZING" and build: "sch_build s = PERIODIC_WORKLOAD"
  shows "threadExit (int j) time rows s = Inl OutOfRange"
proof -
  let ?s = "s\<lparr>m_threads_runnable := (m_threads_runnable s)[j := False]\<rparr>"
  have inv1: "sched_inv P ?s" by (rule unrunnable_inv [OF inv])
  obtain s' where s': "leave_core (int j) time ?s = Inr s'" "frame ?s s'" "m_core_running (m_thread_info s' ! j) = -1"
    using leave_core_inv [OF inv1 _ assms(2), of time] j st by auto
  have "j < length (m_thread_info s')" using j(1) sched_inv_lengths(5) [OF inv] s'(2) by (simp add: frame_def)
  then have "note_end_time (int j) time s' = Inl OutOfRange" using s'(3) by (simp add: note_end_time_def info_at_def vec_put_def)
  then show ?thesis using s'(1) j(2) build frame_fields(1) [OF s'(2)] by (simp add: threadExit_def set_runnable_def exit_thread_def)
qed

text \<open>One thread of the first period on one core.\<close>

definition periodic_run :: "Scheduler res" where
  "periodic_run =
     bindE (sys_createThread mapped_initial (0, False) (-1)
       (read_mapping [(0, 0, 0)] (mk_SchedulerPinnedBase PERIODIC_WORKLOAD (mk_ThreadManager (\<lambda>_. IDLE)) (\<lambda>_. 0) 1 1000 1000 1 1 1)))
     (sys_onThreadStart 0 5 0)"

theorem exit_writes_out_of_range_witness:
  "case periodic_run of Inl _ \<Rightarrow> False | Inr s \<Rightarrow> m_core_thread_running s = [0] \<and> threadExit 0 9 [] s = Inl OutOfRange"
proof -
  have "case periodic_run of Inl _ \<Rightarrow> False | Inr s \<Rightarrow> m_core_thread_running s = [0] \<and> map m_core_running (m_thread_info s) = 0 # replicate 15 (-1) \<and>
      map m_core_affinity (m_thread_info s) = [True] # replicate 15 [False] \<and> m_threads_runnable s = True # replicate 15 False \<and>
      map m_core (m_threads (m_thread_manager s)) = [Some 0] \<and> core_thread (m_thread_manager s) 0 = Some 0 \<and> length (m_quantum_left s) = 1 \<and>
      map ts_status (m_thread_state (m_thread_manager s)) = [RUNNING] \<and> sch_build s = PERIODIC_WORKLOAD"
    by code_simp
  then obtain s where s: "periodic_run = Inr s" "m_core_thread_running s = [0]" "map m_core_running (m_thread_info s) = 0 # replicate 15 (-1)"
      "map m_core_affinity (m_thread_info s) = [True] # replicate 15 [False]" "m_threads_runnable s = True # replicate 15 False"
      "map m_core (m_threads (m_thread_manager s)) = [Some 0]" "core_thread (m_thread_manager s) 0 = Some 0" "length (m_quantum_left s) = 1"
      "map ts_status (m_thread_state (m_thread_manager s)) = [RUNNING]" "sch_build s = PERIODIC_WORKLOAD"
    by (auto split: sum.splits)
  have len: "length (m_thread_info s) = 16" using arg_cong [OF s(3), of length] by simp
  have run: "m_core_running (m_thread_info s ! i) = (if i = 0 then 0 else -1)" if "i < 16" for i
    using arg_cong [OF s(3), of "\<lambda>xs. xs ! i"] that len by (cases i) simp_all
  have aff: "length (m_core_affinity (m_thread_info s ! i)) = 1" if "i < 16" for i
    using arg_cong [OF s(4), of "\<lambda>xs. length (xs ! i)"] that len by (cases i) simp_all
  have one: "length (m_threads (m_thread_manager s)) = 1" "length (m_thread_state (m_thread_manager s)) = 1"
    "m_core (m_threads (m_thread_manager s) ! 0) = Some 0" "ts_status (m_thread_state (m_thread_manager s) ! 0) = RUNNING"
    using s(6,9) by (auto simp: map_eq_Cons_conv)
  have rn: "i = 0" if "i < 16" "m_threads_runnable s ! i" for i using that s(5) by (cases i) auto
  have "sched_inv {} s"
    using s(2,5,7,8) one len run aff rn unfolding sched_inv_defs by (auto simp: less_Suc_eq_0_disj)
  from exit_writes_out_of_range [OF this, of 0 9 "[]"] have "threadExit 0 9 [] s = Inl OutOfRange" using s(5,10) one by simp
  then show ?thesis unfolding s(1) using s(2) by simp
qed

end
