(* ===== verification/LS_Sched_Place.thy ===== *)
theory LS_Sched_Place
  imports LS_Sched_Reach "HOL-Library.Multiset"
begin

text \<open>
  Where threads are placed: the order in which the pinned scheduler hands out cores and its search for a free one, the mask of
  cores that a thread sets and reads back, and the move of threads between cores when the mapping changes.
\<close>

section \<open>The order of the cores\<close>

text \<open>With \<open>h\<close> rows of \<open>i\<close> cores, the columns are visited one after the other.\<close>

definition core_at :: "nat \<Rightarrow> nat \<Rightarrow> nat \<Rightarrow> nat" where
  "core_at h i m = m mod h * i + m div h mod i"

lemma core_at_less:
  assumes "0 < h" and "0 < i"
  shows "core_at h i m < h * i"
proof -
  have "m mod h * i + m div h mod i < m mod h * i + i" using assms by simp
  also have "\<dots> = Suc (m mod h) * i" by simp
  also have "\<dots> \<le> h * i" using assms by (intro mult_le_mono1) (simp add: Suc_leI)
  finally show ?thesis by (simp add: core_at_def)
qed

lemma step_core_at:
  assumes "0 < h" and "0 < i"
  shows "step_core (int (h * i)) (int i) (int (core_at h i m)) = int (core_at h i (Suc m))"
proof (cases "Suc (m mod h) = h")
  case True
  have "i \<le> h * i" using assms(1) by simp
  then have q: "m div h mod i < h * i" using mod_less_divisor [OF assms(2)] order_less_le_trans by blast
  have "Suc (m mod h) * i = h * i" by (simp only: True)
  then have "core_at h i m + i = h * i + m div h mod i" by (simp add: core_at_def)
  then have c: "int (core_at h i m) + int i = int (h * i) + int (m div h mod i)" by (metis of_nat_add)
  have "int (m div h mod i) mod int (h * i) = int (m div h mod i)" using q by (intro mod_pos_pos_trivial) linarith+
  then have m: "(int (h * i) + int (m div h mod i)) mod int (h * i) = int (m div h mod i)" by (simp only: mod_add_self1)
  have "step_core (int (h * i)) (int i) (int (core_at h i m)) = (int (m div h mod i) + 1) mod int i"
    unfolding step_core_def Let_def c m by simp
  then have "step_core (int (h * i)) (int i) (int (core_at h i m)) = int ((m div h mod i + 1) mod i)"
    by (simp only: zmod_int of_nat_add of_nat_1)
  moreover have "core_at h i (Suc m) = (m div h + 1) mod i" using True assms by (simp add: core_at_def mod_Suc div_Suc)
  ultimately show ?thesis by (simp add: mod_simps)
next
  case False
  then have suc: "Suc m mod h = Suc (m mod h)" "Suc m div h = m div h" by (simp_all add: mod_Suc div_Suc)
  have "core_at h i (Suc m) = core_at h i m + i" by (simp add: core_at_def suc)
  moreover have "core_at h i (Suc m) < h * i" using assms by (rule core_at_less)
  ultimately have "int (core_at h i m) + int i < int (h * i)" "int (core_at h i m) + int i = int (core_at h i (Suc m))" by (metis of_nat_add of_nat_less_iff)+
  then show ?thesis by (simp add: step_core_def del: of_nat_mult)
qed

lemma core_at_onto:
  assumes "0 < h" and "0 < i" and "c < h * i"
  shows "\<exists>m<h * i. core_at h i m = c"
proof (intro exI conjI)
  have r: "c div i < h" using assms by (simp add: div_less_iff_less_mult)
  show "core_at h i (c mod i * h + c div i) = c" using r by (simp add: core_at_def)
  have "c mod i * h + c div i < Suc (c mod i) * h" using r by simp
  also have "\<dots> \<le> i * h" using assms by (intro mult_le_mono1) (simp add: Suc_leI)
  finally show "c mod i * h + c div i < h * i" by (simp add: mult.commute)
qed

lemma core_at_bij:
  assumes "0 < h" and "0 < i"
  shows "bij_betw (core_at h i) {0..<h * i} {0..<h * i}"
proof -
  have "core_at h i ` {0..<h * i} = {0..<h * i}"
    using core_at_less [OF assms] core_at_onto [OF assms] by (auto simp: image_iff Bex_def) metis
  then show ?thesis by (simp add: bij_betw_def eq_card_imp_inj_on)
qed

lemma core_at_period: "core_at h i (m + h * i) = core_at h i m"
  by (cases "h = 0") (simp_all add: core_at_def)

lemma core_at_mod:
  assumes "0 < h" and "0 < i"
  shows "core_at h i m = core_at h i (m mod (h * i))"
proof (induction m rule: less_induct)
  case (less m)
  let ?n = "h * i"
  show ?case
  proof (cases "m < ?n")
    case False
    have "0 < ?n" using assms by simp
    with False have "m - ?n < m" by linarith
    then have "core_at h i (m - ?n) = core_at h i ((m - ?n) mod ?n)" by (rule less)
    moreover have "core_at h i m = core_at h i (m - ?n)" using core_at_period [of h i "m - ?n"] False by simp
    ultimately show ?thesis using False by (simp add: mod_if [of m])
  qed simp
qed

text \<open>From any core, every core is found within one round.\<close>

lemma core_at_from:
  assumes "0 < h" and "0 < i" and "c < h * i"
  shows "\<exists>e<h * i. core_at h i (a + e) = c"
proof -
  let ?n = "h * i"
  obtain m where m: "m < ?n" "core_at h i m = c" using core_at_onto [OF assms] by blast
  let ?e = "(m + (?n - a mod ?n)) mod ?n"
  have "(a + ?e) mod ?n = (a mod ?n + (m + (?n - a mod ?n))) mod ?n" by (simp add: mod_simps)
  also have "a mod ?n + (m + (?n - a mod ?n)) = m + ?n" using mod_less_divisor [of ?n a] assms by linarith
  finally have "(a + ?e) mod ?n = m" using m(1) by simp
  then have "core_at h i (a + ?e) = c" using m(2) core_at_mod [OF assms(1,2), of "a + ?e"] by simp
  moreover have "?e < ?n" using assms by simp
  ultimately show ?thesis by blast
qed

lemma core_at_again:
  assumes "0 < h" and "0 < i" and "0 < d" and "d < h * i"
  shows "core_at h i (a + d) \<noteq> core_at h i a"
proof
  assume eq: "core_at h i (a + d) = core_at h i a"
  let ?n = "h * i"
  note red = core_at_mod [OF assms(1,2)]
  have "inj_on (core_at h i) {0..<?n}" using core_at_bij [OF assms(1,2)] by (simp add: bij_betw_def)
  moreover have "core_at h i ((a + d) mod ?n) = core_at h i (a mod ?n)" using eq red by metis
  moreover have "(a + d) mod ?n \<in> {0..<?n}" "a mod ?n \<in> {0..<?n}" using assms by simp_all
  ultimately have "(a + d) mod ?n = a mod ?n" by (simp add: inj_on_eq_iff)
  then have "?n dvd d" by (metis add_diff_cancel_left' mod_eq_dvd_iff_nat le_add1)
  then show False using assms(3,4) by (simp add: nat_dvd_not_less)
qed


section \<open>The search for a free core\<close>

lemma getNextCore_open:
  assumes "m_core_mask p = replicate (h * i) True" and "m_interleaving p = int i" and "0 < h" and "0 < i"
  shows "getNextCore p (int (core_at h i m)) = Some (Inr (int (core_at h i (Suc m))))"
  using assms step_core_at [OF assms(3,4), of m] core_at_less [OF assms(3,4), of "Suc m"]
  by (subst getNextCore.simps) simp

lemma free_core_from_finds:
  assumes p: "m_core_mask p = replicate (h * i) True" "m_interleaving p = int i" "0 < h" "0 < i" and n: "length running = h * i"
    and d: "d < h * i"
  shows "\<exists>c<h * i. free_core_from p running (int (core_at h i a)) (int (core_at h i (a + d))) = Some (Inr (int c)) \<and>
    (running ! c = INVALID_THREAD_ID \<or> c = core_at h i a \<and> (\<forall>e. d \<le> e \<and> e < h * i \<longrightarrow> running ! core_at h i (a + e) \<noteq> INVALID_THREAD_ID))"
  using d
proof (induction "h * i - d" arbitrary: d)
  case (Suc k)
  let ?c = "core_at h i (a + d)"
  have c: "?c < h * i" "core_at h i a < h * i" by (rule core_at_less [OF p(3,4)])+
  note next_c = getNextCore_open [OF p, of "a + d"]
  show ?case
  proof (cases "running ! ?c = INVALID_THREAD_ID")
    case True
    then show ?thesis using c n p(1) by (subst free_core_from.simps) (auto intro!: exI [of _ ?c])
  next
    case busy: False
    have step: "free_core_from p running (int (core_at h i a)) (int ?c) =
        (if core_at h i (a + Suc d) = core_at h i a then Some (Inr (int (core_at h i a)))
         else free_core_from p running (int (core_at h i a)) (int (core_at h i (a + Suc d))))"
      using busy c n p(1) next_c by (subst free_core_from.simps) simp
    show ?thesis
    proof (cases "Suc d = h * i")
      case True
      then have "core_at h i (a + Suc d) = core_at h i a" using core_at_period [of h i a] by simp
      then show ?thesis using step c(2) busy True by (auto simp: less_Suc_eq simp del: add_Suc_right dest: le_antisym)
    next
      case False
      then have d': "Suc d < h * i" using Suc.prems by simp
      then have "core_at h i (a + Suc d) \<noteq> core_at h i a" using core_at_again [OF p(3,4), of "Suc d" a] by simp
      with step have "free_core_from p running (int (core_at h i a)) (int ?c) = free_core_from p running (int (core_at h i a)) (int (core_at h i (a + Suc d)))"
        by simp
      moreover have "k = h * i - Suc d" using Suc.hyps(2) by simp
      ultimately show ?thesis using Suc.hyps(1) [OF _ d'] busy by (metis Suc_leI le_neq_implies_less)
    qed
  qed
qed simp

text \<open>
  C9. The pinned scheduler finds a free core whenever there is one, if all cores may be used and the interleaving divides their
  number: the search from any core ends, with a free core if some core is free and with the core it began with otherwise.
\<close>

theorem getFreeCore_finds:
  assumes "m_core_mask p = replicate (num_cores s) True" and "m_interleaving p = int i" and "0 < i" and "i dvd num_cores s"
    and "core_first < num_cores s"
  shows "\<exists>c<num_cores s. getFreeCore p s (int core_first) = Inr (int c) \<and>
    (if \<exists>k<num_cores s. m_core_thread_running s ! k = INVALID_THREAD_ID then m_core_thread_running s ! c = INVALID_THREAD_ID else c = core_first)"
proof -
  obtain h where h: "num_cores s = h * i" using assms(4) by (metis dvd_def mult.commute)
  have h0: "0 < h" using assms(5) h by (cases h) auto
  obtain a where a: "core_at h i a = core_first" using core_at_onto [OF h0 assms(3), of core_first] assms(5) h by auto
  have p: "m_core_mask p = replicate (h * i) True" using assms(1) h by simp
  have pos: "0 < h * i" using h0 assms(3) by simp
  obtain c where c: "c < h * i" "free_core_from p (m_core_thread_running s) (int core_first) (int core_first) = Some (Inr (int c))"
    "m_core_thread_running s ! c = INVALID_THREAD_ID \<or> c = core_first \<and> (\<forall>e<h * i. m_core_thread_running s ! core_at h i (a + e) \<noteq> INVALID_THREAD_ID)"
    using free_core_from_finds [OF p assms(2) h0 assms(3) h pos, of a] a by auto
  have "\<not> (\<exists>k<num_cores s. m_core_thread_running s ! k = INVALID_THREAD_ID)"
    if all: "\<forall>e<h * i. m_core_thread_running s ! core_at h i (a + e) \<noteq> INVALID_THREAD_ID"
  proof
    assume "\<exists>k<num_cores s. m_core_thread_running s ! k = INVALID_THREAD_ID"
    then obtain k where k: "k < h * i" "m_core_thread_running s ! k = INVALID_THREAD_ID" using h by auto
    from core_at_from [OF h0 assms(3) k(1), of a] all k(2) show False by auto
  qed
  then show ?thesis using c h by (auto simp: getFreeCore_def may_hang_def)
qed

text \<open>Four cores of which two are busy, visited two apart.\<close>

definition four_cores :: "thread_id_t list \<Rightarrow> Scheduler" where
  "four_cores running = (mk_SchedulerPinnedBase PLAIN (mk_ThreadManager (\<lambda>_. IDLE)) (\<lambda>_. 0) (length running) 1000 1000 1 0 0)
     \<lparr>m_core_thread_running := running\<rparr>"

theorem getFreeCore_finds_witness: "\<exists>c<4. getFreeCore (mk_SchedulerPinned 2 (replicate 4 True)) (four_cores [7, -1, 8, -1]) 2 = Inr (int c) \<and> [7, -1, 8, -1 :: int] ! c = -1"
proof -
  let ?s = "four_cores [7, -1, 8, -1]" and ?p = "mk_SchedulerPinned 2 (replicate 4 True)"
  have run: "m_core_thread_running ?s = [7, -1, 8, -1]" by (simp add: four_cores_def)
  then have n: "num_cores ?s = 4" by simp
  have "\<exists>k<4. [7, -1, 8, -1 :: int] ! k = INVALID_THREAD_ID" by (rule exI [of _ 1]) (simp add: invalid_defs)
  note free = this
  have "\<exists>c<num_cores ?s. getFreeCore ?p ?s (int 2) = Inr (int c) \<and>
      (if \<exists>k<num_cores ?s. m_core_thread_running ?s ! k = INVALID_THREAD_ID then m_core_thread_running ?s ! c = INVALID_THREAD_ID else c = 2)"
    by (rule getFreeCore_finds [where i = 2]) (simp_all only: n, simp_all add: mk_SchedulerPinned_def)
  then show ?thesis using free unfolding n unfolding run by (simp add: invalid_defs)
qed

text \<open>When the interleaving does not divide the number of cores, some cores are never found: of five cores, two apart, only three.\<close>

lemma interleaving_skips_cores:
  "getFreeCore (mk_SchedulerPinned 2 (replicate 5 True)) (four_cores [7, -1, 8, -1, 9]) 0 = Inr 0"
  by code_simp

section \<open>Affinity masks\<close>

lemma add_mask_bits:
  assumes "add_mask n k bs ti = Inr ti'" and "length (m_core_affinity ti) = n"
  shows "length (m_core_affinity ti') = n \<and> m_explicit_affinity ti' = m_explicit_affinity ti \<and> (\<forall>i<length bs. bs ! i \<longrightarrow> k + i < n) \<and>
    (\<forall>i<n. m_core_affinity ti' ! i = (m_core_affinity ti ! i \<or> k \<le> i \<and> i - k < length bs \<and> bs ! (i - k)))"
  using assms
proof (induction bs arbitrary: k ti)
  case (Cons b bs)
  obtain t1 where t1: "(if b then bindE (assertE (k < n) (AssertError ''Invalid core %d found in sched_setaffinity() mask'')) (\<lambda>_. addAffinity (int k) ti)
      else Inr ti) = Inr t1" "add_mask n (Suc k) bs t1 = Inr ti'"
    using Cons.prems(1) by (auto simp: bindE_Inr_iff)
  have k: "b \<longrightarrow> k < n" and t1': "m_core_affinity t1 = (if b then (m_core_affinity ti)[k := True] else m_core_affinity ti)"
    "m_explicit_affinity t1 = m_explicit_affinity ti"
    using t1(1) Cons.prems(2) by (auto simp: bindE_Inr_iff addAffinity_def vec_put_def split: if_splits)
  have "length (m_core_affinity t1) = n" using t1'(1) Cons.prems(2) by simp
  note IH = Cons.IH [OF t1(2) this]
  have "m_core_affinity ti' ! i = (m_core_affinity ti ! i \<or> k \<le> i \<and> i - k < length (b # bs) \<and> (b # bs) ! (i - k))" if i: "i < n" for i
  proof (cases "i = k")
    case True
    then show ?thesis using IH i t1'(1) Cons.prems(2) by auto
  next
    case False
    then have "m_core_affinity t1 ! i = m_core_affinity ti ! i" using t1'(1) by simp
    then show ?thesis using IH i False by (cases "k \<le> i") (auto simp: nth_Cons' Suc_le_eq)
  qed
  moreover have "k + i < n" if "i < length (b # bs)" "(b # bs) ! i" for i using IH k that by (cases i) auto
  ultimately show ?case using IH t1'(2) by blast
qed simp

text \<open>
  C10. A thread that sets the mask of cores it may use reads the same mask back, whatever the scheduler does at once to honour it
  (a yield of the thread, or a move to a core that is free).
\<close>

theorem affinity_roundtrip:
  assumes reach: "sched_reach initial_policies s" and j: "j < length (m_threads (m_thread_manager s))"
    and bits: "length bits = cpusetsize * 8" "num_cores s \<le> length bits"
    and set: "threadSetAffinity core_time global_time caller (int j) (Some bits) s = Inr s'"
  shows "threadGetAffinity cpusetsize (int j) s' = Inr (Some bits)"
proof -
  have ok: "system_ok s" using reach by (rule schedulers.reach_ok)
  then have inv: "sched_inv {} s" by (simp add: system_ok_def)
  have jn: "j < length (m_thread_info s)" using j sched_inv_lengths(5) [OF inv] by simp
  obtain s1 ti where s1: "system_ok s1" "frame s1 s'" "num_cores s1 = num_cores s" "length (m_thread_info s1) = length (m_thread_info s)"
    and ti: "m_thread_info s1 ! j = ti" "add_mask (num_cores s) 0 bits (clearAffinity ((m_thread_info s ! j)\<lparr>m_explicit_affinity := True\<rparr>)) = Inr ti"
    using threadSetAffinity_sets [OF ok j set] by (auto simp: Let_def)
  have len: "length (m_core_affinity (clearAffinity ((m_thread_info s ! j)\<lparr>m_explicit_affinity := True\<rparr>))) = num_cores s"
    using sched_inv_lengths(3) [OF inv jn] by (simp add: clearAffinity_def)
  note mask = add_mask_bits [OF ti(2) len]
  have "m_core_affinity (m_thread_info s' ! j) = m_core_affinity ti" "m_explicit_affinity (m_thread_info s' ! j)" "num_cores s' = num_cores s"
    "j < length (m_thread_info s')"
    using s1(2-4) jn ti(1) mask by (auto simp: frame_def clearAffinity_def)
  then have "threadGetAffinity cpusetsize (int j) s' =
      Inr (Some (map (\<lambda>c. m_core_affinity ti ! c) [0..<num_cores s] @ replicate (length bits - num_cores s) False))"
    using bits by (simp add: threadGetAffinity_def info_at_def)
  also have "map (\<lambda>c. m_core_affinity ti ! c) [0..<num_cores s] @ replicate (length bits - num_cores s) False = bits"
  proof (rule nth_equalityI)
    fix i assume "i < length (map (\<lambda>c. m_core_affinity ti ! c) [0..<num_cores s] @ replicate (length bits - num_cores s) False)"
    then have i: "i < length bits" using bits(2) by simp
    have "i < num_cores s \<Longrightarrow> \<not> m_core_affinity (clearAffinity ((m_thread_info s ! j)\<lparr>m_explicit_affinity := True\<rparr>)) ! i"
      using sched_inv_lengths(3) [OF inv jn] by (simp add: clearAffinity_def)
    then show "(map (\<lambda>c. m_core_affinity ti ! c) [0..<num_cores s] @ replicate (length bits - num_cores s) False) ! i = bits ! i"
      using mask i by (auto simp: nth_append)
  qed (use bits(2) in simp)
  finally show ?thesis .
qed

theorem affinity_roundtrip_witness:
  "\<exists>s s'. sched_reach initial_policies s \<and> threadSetAffinity (\<lambda>_. 7) 7 (-1) 1 (Some [True, True, False, False, False, False, False, False]) s = Inr s' \<and>
    threadGetAffinity 1 1 s' = Inr (Some [True, True, False, False, False, False, False, False])"
proof -
  let ?bits = "[True, True, False, False, False, False, False, False]"
  have "case two_core_run of Inl _ \<Rightarrow> False | Inr s \<Rightarrow> (case threadSetAffinity (\<lambda>_. 7) 7 (-1) 1 (Some ?bits) s of Inl _ \<Rightarrow> False | Inr _ \<Rightarrow> True)"
    by code_simp
  note run = this
  obtain s where s: "two_core_run = Inr s" "sched_reach initial_policies s" "m_core_thread_running s = [0, 1]" "length (m_threads (m_thread_manager s)) = 2"
    by (rule two_core_run_reach)
  have "case threadSetAffinity (\<lambda>_. 7) 7 (-1) 1 (Some ?bits) s of Inl _ \<Rightarrow> False | Inr _ \<Rightarrow> True" using run unfolding s(1) by simp
  then obtain s' where s': "threadSetAffinity (\<lambda>_. 7) 7 (-1) 1 (Some ?bits) s = Inr s'"
    by (cases "threadSetAffinity (\<lambda>_. 7) 7 (-1) 1 (Some ?bits) s") auto
  then have "threadGetAffinity 1 1 s' = Inr (Some ?bits)"
    using affinity_roundtrip [OF s(2), of 1 ?bits 1 "\<lambda>_. 7" 7 "-1" s'] s(3,4) by simp
  then show ?thesis using s(2) s' by blast
qed

section \<open>Threads move with the mapping\<close>

lemma mset_concat_update:
  "k < length xss \<Longrightarrow> mset (concat (xss[k := ys])) + mset (xss ! k) = mset (concat xss) + mset ys"
  by (induction xss arbitrary: k) (auto simp: nth_Cons split: nat.splits)

lemma mset_concat_append:
  "length xss = length yss \<Longrightarrow> mset (concat (map2 (@) xss yss)) = mset (concat xss) + mset (concat yss)"
  by (induction xss yss rule: list_induct2) simp_all

lemma remap_threads_on_core:
  "system_ok s \<Longrightarrow> remap_threads ct g c ts s = Inr s' \<Longrightarrow> threads_on_core s' = threads_on_core s \<and> system_ok s'"
proof (induction ts arbitrary: s)
  case (Cons t ts)
  obtain s1 s2 where s1: "change_info (\<lambda>ti. addAffinity c (clearAffinity (ti\<lparr>m_explicit_affinity := True\<rparr>))) t s = Inr s1"
    "(if t \<ge> int (length (m_threads (m_thread_manager s1))) then Inr s1 else apply_affinity ct g t s1) = Inr s2" "remap_threads ct g c ts s2 = Inr s'"
    using Cons.prems(2) by (auto simp: bindE_Inr_iff)
  have ok1: "system_ok s1" by (rule system_ok_change_info [OF move_affinity_only Cons.prems(1) s1(1)])
  have same: "threads_on_core s1 = threads_on_core s" using s1(1) by (auto simp: change_info_def put_info_def bindE_Inr_iff)
  have "s2 = s1 \<or> apply_affinity ct g t s1 = Inr s2" using s1(2) by (simp split: if_splits)
  then have "system_ok s2" "threads_on_core s2 = threads_on_core s1" using ok1 apply_affinity_ok [OF ok1] frame_fields(5) by blast+
  then show ?case using Cons.IH [OF _ s1(3)] same by simp
qed simp

lemma remap_cores_threads:
  assumes "system_ok s" and "remap_cores ct g ps new s = Inr (new', s')"
  shows "mset (concat (threads_on_core s')) + mset (concat new') = mset (concat (threads_on_core s)) + mset (concat new) \<and>
    length new' = length new \<and> length (threads_on_core s') = length (threads_on_core s)"
  using assms
proof (induction ps arbitrary: new s)
  case (Cons p ps)
  obtain f c where p: "p = (f, c)" by (cases p)
  obtain ts new1 s1 tc where a: "vec_at (threads_on_core s) f = Inr ts"
    "(if ts = [] then Inr new else bindE (vec_at new c) (\<lambda>us. vec_put new c (us @ ts))) = Inr new1"
    "remap_threads ct g c ts s = Inr s1" "vec_put (threads_on_core s1) f [] = Inr tc"
    "remap_cores ct g ps new1 (s1\<lparr>threads_on_core := tc\<rparr>) = Inr (new', s')"
    using Cons.prems(2) unfolding p remap_cores.simps bindE_Inr_iff by blast
  have s1: "threads_on_core s1 = threads_on_core s" "system_ok s1" using remap_threads_on_core [OF Cons.prems(1) a(3)] by auto
  obtain k where k: "k < length (threads_on_core s)" "ts = threads_on_core s ! k" "tc = (threads_on_core s)[k := []]"
    using a(1,4) s1(1) by (auto simp: vec_iffs)
  have "mset (concat new1) = mset (concat new) + mset ts \<and> length new1 = length new"
  proof (cases "ts = []")
    case False
    then obtain i where "i < length new" "new1 = new[i := new ! i @ ts]" using a(2) by (auto simp: bindE_Inr_iff vec_iffs)
    then show ?thesis using mset_concat_update [of i new "new ! i @ ts"] by simp
  qed (use a(2) in simp)
  moreover have "mset (concat tc) + mset ts = mset (concat (threads_on_core s))" using mset_concat_update [OF k(1), of "[]"] k(2,3) by simp
  moreover have "mset (concat (threads_on_core s')) + mset (concat new') = mset (concat tc) + mset (concat new1) \<and>
      length new' = length new1 \<and> length (threads_on_core s') = length tc"
    using Cons.IH [OF _ a(5)] s1(2) by simp
  ultimately show ?case using k(3) by (simp add: ac_simps)
qed simp

text \<open>
  C11. A change of the mapping moves threads and loses none: the lists of threads per core hold the same threads, with the same
  multiplicities, before and after, whatever pairs of cores the mapping file names.
\<close>

theorem changeMapping_keeps_threads:
  assumes "sched_reach initial_policies s" and "length (threads_on_core s) = num_cores s"
    and "changeMapping core_time global_time changed mapping s = Inr s'"
  shows "mset (concat (threads_on_core s')) = mset (concat (threads_on_core s))"
proof (cases changed)
  case True
  have ok: "system_ok s" using assms(1) by (rule schedulers.reach_ok)
  obtain new s1 where s1: "remap_cores core_time global_time mapping (replicate (num_cores s) []) s = Inr (new, s1)"
    "s' = s1\<lparr>threads_on_core := map2 (@) (threads_on_core s1) new\<rparr>"
    using assms(3) True by (auto simp: changeMapping_def bindE_Inr_iff)
  have "mset (concat (replicate n [])) = {#}" for n by (induction n) simp_all
  then show ?thesis using remap_cores_threads [OF ok s1(1)] s1(2) assms(2) by (simp add: mset_concat_append)
qed (use assms(3) in \<open>simp add: changeMapping_def\<close>)

text \<open>Two threads on core 0 of two, by the mapping file.\<close>

definition mapped_run :: "Scheduler res" where
  "mapped_run =
     bindE (sys_createThread mapped_initial (0, False) (-1) (initial_scheduler MODIFIED_CODE (\<lambda>_. IDLE) (\<lambda>_. 0) 2 1000 1000 1 [(0, 0, 0), (0, 0, 1)]))
     (sys_createThread mapped_initial (0, False) 0)"

theorem changeMapping_keeps_threads_witness:
  "\<exists>s s'. sched_reach initial_policies s \<and> threads_on_core s = [[0, 1], []] \<and>
    changeMapping (\<lambda>_. 7) 7 True [(0, 1)] s = Inr s' \<and> mset (concat (threads_on_core s')) = {#0, 1#}"
proof -
  let ?move = "changeMapping (\<lambda>_. 7) 7 True [(0, 1)]"
  have "case mapped_run of Inl _ \<Rightarrow> False | Inr s \<Rightarrow> threads_on_core s = [[0, 1], []] \<and> length (m_core_thread_running s) = 2 \<and>
      (case ?move s of Inl _ \<Rightarrow> False | Inr _ \<Rightarrow> True)"
    by code_simp
  then obtain s s' where s: "mapped_run = Inr s" "threads_on_core s = [[0, 1], []]" "num_cores s = 2" "?move s = Inr s'"
    by (cases mapped_run) (auto split: sum.splits)
  obtain s1 where run: "sys_createThread mapped_initial (0, False) (-1)
      (initial_scheduler MODIFIED_CODE (\<lambda>_. IDLE) (\<lambda>_. 0) 2 1000 1000 1 [(0, 0, 0), (0, 0, 1)]) = Inr s1"
    "sys_createThread mapped_initial (0, False) 0 s1 = Inr s"
    using s(1) unfolding mapped_run_def bindE_Inr_iff by blast
  have pol: "mapped_initial \<in> initial_policies" by (simp add: initial_policies_def)
  have "sched_reach initial_policies s1" by (rule first [OF _ pol run(1)]) simp
  from create [OF this pol run(2)] have reach: "sched_reach initial_policies s" .
  from changeMapping_keeps_threads [OF reach _ s(4)] s(2,3) have "mset (concat (threads_on_core s')) = {#0, 1#}" by simp
  then show ?thesis using reach s(2,4) by blast
qed

end
