(* ===== verification/LS_Containers.thy ===== *)
theory LS_Containers
  imports LS_Prelude
begin

unbundle bit_operations_syntax

text \<open>
  Containers of \<^verbatim>\<open>common/misc\<close>: \<^verbatim>\<open>circular_queue.h\<close>, a queue in an array with one slot more than it holds, and \<^verbatim>\<open>bit_vector.cc\<close>, a
  set of small numbers with a search that remembers where it stopped.
\<close>

section \<open>Circular queue\<close>

record 'a CircularQueue =
  cq_size :: UInt32
  cq_first :: UInt32
  cq_last :: UInt32
  cq_queue :: "'a list"

text \<open>\<open>fresh\<close> is what the array holds before it is written.\<close>

definition mk_CircularQueue :: "'a list \<Rightarrow> UInt32 \<Rightarrow> 'a CircularQueue" where
  "mk_CircularQueue fresh n = \<lparr>cq_size = n + 1, cq_first = 0, cq_last = 0, cq_queue = take (unat (n + 1)) fresh\<rparr>"

definition cq_full :: "'a CircularQueue \<Rightarrow> bool" where
  "cq_full q \<longleftrightarrow> (cq_first q + 1) mod cq_size q = cq_last q"

definition cq_empty :: "'a CircularQueue \<Rightarrow> bool" where
  "cq_empty q \<longleftrightarrow> cq_first q = cq_last q"

definition cq_length :: "'a CircularQueue \<Rightarrow> UInt32" where
  "cq_length q = (cq_first q + cq_size q - cq_last q) mod cq_size q"

text \<open>Only the size is copied, and only from an empty queue.\<close>

definition copy_CircularQueue :: "'a list \<Rightarrow> 'a CircularQueue \<Rightarrow> 'a CircularQueue res" where
  "copy_CircularQueue fresh q =
     bindE (assertE (cq_length q = 0) (AssertError ''queue.size() == 0''))
     (\<lambda>_. Inr \<lparr>cq_size = cq_size q, cq_first = 0, cq_last = 0, cq_queue = take (unat (cq_size q)) fresh\<rparr>)"

definition cq_push :: "'a \<Rightarrow> 'a CircularQueue \<Rightarrow> 'a CircularQueue res" where
  "cq_push t q =
     bindE (assertE (\<not> cq_full q) (AssertError ''!full()''))
     (\<lambda>_. Inr (q\<lparr>cq_queue := (cq_queue q)[unat (cq_first q) := t], cq_first := (cq_first q + 1) mod cq_size q\<rparr>))"

text \<open>\<^verbatim>\<open>next\<close> makes room and returns a reference: here the slot, which is written through it.\<close>

definition cq_next :: "'a CircularQueue \<Rightarrow> (nat \<times> 'a CircularQueue) res" where
  "cq_next q =
     bindE (assertE (\<not> cq_full q) (AssertError ''!full()''))
     (\<lambda>_. Inr (unat (cq_first q), q\<lparr>cq_first := (cq_first q + 1) mod cq_size q\<rparr>))"

definition cq_pop :: "'a CircularQueue \<Rightarrow> ('a \<times> 'a CircularQueue) res" where
  "cq_pop q =
     bindE (assertE (\<not> cq_empty q) (AssertError ''!empty()''))
     (\<lambda>_. Inr (cq_queue q ! unat (cq_last q), q\<lparr>cq_last := (cq_last q + 1) mod cq_size q\<rparr>))"

definition cq_pushCircular :: "'a \<Rightarrow> 'a CircularQueue \<Rightarrow> 'a CircularQueue res" where
  "cq_pushCircular t q = bindE (if cq_full q then bindE (cq_pop q) (\<lambda>(_, q). Inr q) else Inr q) (cq_push t)"

definition cq_front :: "'a CircularQueue \<Rightarrow> 'a res" where
  "cq_front q = bindE (assertE (\<not> cq_empty q) (AssertError ''!empty()'')) (\<lambda>_. Inr (cq_queue q ! unat (cq_last q)))"

definition cq_back :: "'a CircularQueue \<Rightarrow> 'a res" where
  "cq_back q =
     bindE (assertE (\<not> cq_empty q) (AssertError ''!empty()''))
     (\<lambda>_. Inr (cq_queue q ! unat ((cq_first q + cq_size q - 1) mod cq_size q)))"

definition cq_index :: "'a CircularQueue \<Rightarrow> UInt32 \<Rightarrow> 'a" where
  "cq_index q idx = cq_queue q ! unat ((cq_last q + idx) mod cq_size q)"

definition cq_at :: "'a CircularQueue \<Rightarrow> UInt32 \<Rightarrow> 'a res" where
  "cq_at q idx = bindE (assertE (idx < cq_length q) (AssertError ''idx < size()'')) (\<lambda>_. Inr (cq_index q idx))"

subsection \<open>The interface: a bounded queue\<close>

text \<open>A sequence of calls: \<open>Some t\<close> pushes, \<open>None\<close> pops; the elements that were popped are collected.\<close>

fun queue_run :: "('a \<Rightarrow> 'q \<Rightarrow> 'q res) \<Rightarrow> ('q \<Rightarrow> ('a \<times> 'q) res) \<Rightarrow> 'a option list \<Rightarrow> 'q \<Rightarrow> ('a list \<times> 'q) res" where
  "queue_run push pop [] q = Inr ([], q)"
| "queue_run push pop (Some t # os) q = bindE (push t q) (queue_run push pop os)"
| "queue_run push pop (None # os) q = bindE (pop q) (\<lambda>(x, q). bindE (queue_run push pop os q) (\<lambda>(xs, q). Inr (x # xs, q)))"

locale bounded_queue =
  fixes inv :: "'q \<Rightarrow> bool" and abs :: "'q \<Rightarrow> 'a list" and capacity :: "'q \<Rightarrow> nat"
    and push :: "'a \<Rightarrow> 'q \<Rightarrow> 'q res" and pop :: "'q \<Rightarrow> ('a \<times> 'q) res" and size_of :: "'q \<Rightarrow> UInt32" and at :: "'q \<Rightarrow> UInt32 \<Rightarrow> 'a res"
  assumes within: "inv q \<Longrightarrow> length (abs q) \<le> capacity q"
    and push_ok: "inv q \<Longrightarrow> length (abs q) < capacity q \<Longrightarrow> \<exists>q'. push t q = Inr q' \<and> inv q' \<and> abs q' = abs q @ [t] \<and> capacity q' = capacity q"
    and push_full: "inv q \<Longrightarrow> length (abs q) = capacity q \<Longrightarrow> \<exists>e. push t q = Inl e"
    and pop_ok: "inv q \<Longrightarrow> abs q = x # xs \<Longrightarrow> \<exists>q'. pop q = Inr (x, q') \<and> inv q' \<and> abs q' = xs \<and> capacity q' = capacity q"
    and pop_empty: "inv q \<Longrightarrow> abs q = [] \<Longrightarrow> \<exists>e. pop q = Inl e"
    and size_ok: "inv q \<Longrightarrow> unat (size_of q) = length (abs q)"
    and at_ok: "inv q \<Longrightarrow> i < length (abs q) \<Longrightarrow> at q (of_nat i) = Inr (abs q ! i)"
begin

text \<open>Whatever is pushed and popped: what came out and what is still inside are, in this order, what was inside and what went in.\<close>

lemma first_in_first_out:
  assumes "inv q" and "queue_run push pop os q = Inr (out, q')"
  shows "inv q' \<and> out @ abs q' = abs q @ List.map_filter (\<lambda>x. x) os"
  using assms
proof (induction os arbitrary: q out)
  case Nil
  then show ?case by (simp add: List.map_filter_def)
next
  case (Cons c os)
  show ?case
  proof (cases c)
    case None
    then obtain x q1 xs where q1: "pop q = Inr (x, q1)" "queue_run push pop os q1 = Inr (xs, q')" "out = x # xs"
      using Cons.prems(2) by (auto simp: bindE_Inr_iff)
    then obtain ys where "abs q = x # ys" "inv q1" "abs q1 = ys"
      using pop_ok [OF Cons.prems(1)] pop_empty [OF Cons.prems(1)] by (cases "abs q") auto
    then show ?thesis using Cons.IH [OF _ q1(2)] q1(3) None by (simp add: List.map_filter_def)
  next
    case (Some t)
    then obtain q1 where q1: "push t q = Inr q1" "queue_run push pop os q1 = Inr (out, q')" using Cons.prems(2) by (auto simp: bindE_Inr_iff)
    then have "length (abs q) \<noteq> capacity q" using push_full [OF Cons.prems(1), of t] by auto
    then have "inv q1" "abs q1 = abs q @ [t]" using within [OF Cons.prems(1)] push_ok [OF Cons.prems(1), of t] q1(1) by auto
    then show ?thesis using Cons.IH [OF _ q1(2)] Some by (simp add: List.map_filter_def)
  qed
qed

end

subsection \<open>The array refines the list\<close>

definition cq_list :: "'a CircularQueue \<Rightarrow> 'a list" where
  "cq_list q = map (\<lambda>i. cq_queue q ! ((unat (cq_last q) + i) mod unat (cq_size q))) [0..<unat (cq_length q)]"

definition cq_inv :: "'a CircularQueue \<Rightarrow> bool" where
  "cq_inv q \<longleftrightarrow> 0 < unat (cq_size q) \<and> unat (cq_size q) \<le> 2 ^ 31 \<and> length (cq_queue q) = unat (cq_size q) \<and>
     unat (cq_first q) < unat (cq_size q) \<and> unat (cq_last q) < unat (cq_size q)"

definition cq_capacity :: "'a CircularQueue \<Rightarrow> nat" where
  "cq_capacity q = unat (cq_size q) - 1"

lemma unat_add_small: "unat a + unat b < 2 ^ 32 \<Longrightarrow> unat (a + b) = unat a + unat b" for a b :: UInt32
  by (simp add: unat_add_lem [THEN iffD1])

lemma cq_facts:
  assumes "cq_inv q"
  shows "unat ((cq_first q + 1) mod cq_size q) = (unat (cq_first q) + 1) mod unat (cq_size q)"
    and "unat ((cq_last q + 1) mod cq_size q) = (unat (cq_last q) + 1) mod unat (cq_size q)"
    and "unat (cq_length q) = (unat (cq_first q) + unat (cq_size q) - unat (cq_last q)) mod unat (cq_size q)"
    and "idx < cq_size q \<Longrightarrow> unat ((cq_last q + idx) mod cq_size q) = (unat (cq_last q) + unat idx) mod unat (cq_size q)"
proof -
  have s: "unat (cq_size q) \<le> 2147483648" "unat (cq_first q) < unat (cq_size q)" "unat (cq_last q) < unat (cq_size q)"
    using assms by (auto simp: cq_inv_def)
  have one: "unat (x + 1) = unat x + 1" if "unat x < unat (cq_size q)" for x :: UInt32
    using that s(1) by (subst unat_add_small) simp_all
  show "unat ((cq_first q + 1) mod cq_size q) = (unat (cq_first q) + 1) mod unat (cq_size q)"
    "unat ((cq_last q + 1) mod cq_size q) = (unat (cq_last q) + 1) mod unat (cq_size q)"
    using s one by (simp_all add: unat_mod)
  have sum: "unat (cq_first q + cq_size q) = unat (cq_first q) + unat (cq_size q)" by (rule unat_add_small) (use s in simp)
  then have "cq_last q \<le> cq_first q + cq_size q" using s by (simp add: word_le_nat_alt)
  then have "unat (cq_first q + cq_size q - cq_last q) = unat (cq_first q) + unat (cq_size q) - unat (cq_last q)"
    using sum by (simp add: unat_sub)
  then show "unat (cq_length q) = (unat (cq_first q) + unat (cq_size q) - unat (cq_last q)) mod unat (cq_size q)"
    by (simp add: cq_length_def unat_mod)
  show "unat ((cq_last q + idx) mod cq_size q) = (unat (cq_last q) + unat idx) mod unat (cq_size q)" if "idx < cq_size q"
    using that s by (subst unat_mod, subst unat_add_small) (simp_all add: word_less_nat_alt)
qed

lemma ring_shift:
  fixes f l n :: nat
  assumes "f < n" and "l < n"
  shows "(f + n - l) mod n = (if l \<le> f then f - l else f + n - l)"
proof (cases "l \<le> f")
  case True
  then have "(f + n - l) mod n = (f - l) mod n" by (metis Nat.add_diff_assoc2 mod_add_self2)
  then show ?thesis using True assms by simp
next
  case False
  then show ?thesis using assms by simp
qed

lemma cq_length_cases:
  assumes "cq_inv q"
  shows "unat (cq_length q) = (if unat (cq_last q) \<le> unat (cq_first q) then unat (cq_first q) - unat (cq_last q)
      else unat (cq_first q) + unat (cq_size q) - unat (cq_last q))"
  using assms cq_facts(3) [OF assms] ring_shift [of "unat (cq_first q)" "unat (cq_size q)" "unat (cq_last q)"] by (simp add: cq_inv_def)

lemma length_cq_list: "length (cq_list q) = unat (cq_length q)"
  by (simp add: cq_list_def)

lemma cq_full_iff:
  assumes "cq_inv q"
  shows "cq_full q \<longleftrightarrow> unat (cq_length q) = cq_capacity q"
proof -
  have s: "unat (cq_first q) < unat (cq_size q)" "unat (cq_last q) < unat (cq_size q)" using assms by (auto simp: cq_inv_def)
  have "cq_full q \<longleftrightarrow> (unat (cq_first q) + 1) mod unat (cq_size q) = unat (cq_last q)"
    unfolding cq_full_def by (metis cq_facts(1) [OF assms] word_unat_eq_iff)
  also have "\<dots> \<longleftrightarrow> (if unat (cq_first q) + 1 = unat (cq_size q) then 0 else unat (cq_first q) + 1) = unat (cq_last q)"
    using s by (auto simp: mod_if)
  also have "\<dots> \<longleftrightarrow> unat (cq_length q) = cq_capacity q"
    using s unfolding cq_length_cases [OF assms] cq_capacity_def by (auto split: if_splits)
  finally show ?thesis .
qed

lemma cq_empty_iff: "cq_inv q \<Longrightarrow> cq_empty q \<longleftrightarrow> cq_list q = []"
  using cq_length_cases [of q] by (auto simp: cq_empty_def cq_list_def word_unat_eq_iff cq_inv_def split: if_splits)

lemma nth_cq_list: "i < unat (cq_length q) \<Longrightarrow> cq_list q ! i = cq_queue q ! ((unat (cq_last q) + i) mod unat (cq_size q))"
  by (simp add: cq_list_def)

text \<open>The slot that a push writes is behind all elements.\<close>

lemma slot_behind:
  fixes f l n :: nat
  assumes "f < n" and "l < n"
  shows "(l + (if l \<le> f then f - l else f + n - l)) mod n = f"
  using assms by auto

lemma slot_inside:
  fixes f l n i :: nat
  assumes "f < n" and "l < n" and "i < (if l \<le> f then f - l else f + n - l)"
  shows "(l + i) mod n \<noteq> f"
proof (cases "l + i < n")
  case True
  then show ?thesis using assms by (auto split: if_splits)
next
  case False
  have "i < n" using assms by (simp split: if_splits)
  then have "l + i - n < n" using assms(2) by linarith
  then have "(l + i) mod n = l + i - n" using False by (simp add: le_mod_geq)
  moreover have "l + i - n < f" using assms False by (simp split: if_splits)
  ultimately show ?thesis by simp
qed

lemma cq_push_list:
  assumes inv: "cq_inv q" and room: "unat (cq_length q) < cq_capacity q"
  shows "\<exists>q'. cq_push t q = Inr q' \<and> cq_inv q' \<and> cq_list q' = cq_list q @ [t] \<and> cq_capacity q' = cq_capacity q"
proof -
  let ?q = "q\<lparr>cq_queue := (cq_queue q)[unat (cq_first q) := t], cq_first := (cq_first q + 1) mod cq_size q\<rparr>"
  let ?f = "unat (cq_first q)" and ?l = "unat (cq_last q)" and ?n = "unat (cq_size q)"
  have s: "?f < ?n" "?l < ?n" "length (cq_queue q) = ?n" using inv by (auto simp: cq_inv_def)
  have run: "cq_push t q = Inr ?q" using cq_full_iff [OF inv] room by (simp add: cq_push_def)
  have first: "unat (cq_first ?q) = (?f + 1) mod ?n" using cq_facts(1) [OF inv] by simp
  have inv': "cq_inv ?q" using inv s first by (simp add: cq_inv_def)
  have len: "unat (cq_length ?q) = Suc (unat (cq_length q))"
    using room s first cq_length_cases [OF inv] cq_length_cases [OF inv'] unfolding cq_capacity_def
    by (cases "?f + 1 = ?n") (auto split: if_splits)
  have "cq_list ?q = cq_list q @ [t]"
  proof (rule nth_equalityI)
    show "length (cq_list ?q) = length (cq_list q @ [t])" by (simp add: length_cq_list len)
    fix i assume "i < length (cq_list ?q)"
    then have i: "i < Suc (unat (cq_length q))" by (simp add: length_cq_list len)
    then have at: "cq_list ?q ! i = (cq_queue q)[?f := t] ! ((?l + i) mod ?n)" using nth_cq_list [of i ?q] len by simp
    show "cq_list ?q ! i = (cq_list q @ [t]) ! i"
    proof (cases "i = unat (cq_length q)")
      case True
      then have "(?l + i) mod ?n = ?f" using slot_behind [OF s(1,2)] cq_length_cases [OF inv] by simp
      then show ?thesis using at True s by (simp add: nth_append length_cq_list)
    next
      case False
      then have "(?l + i) mod ?n \<noteq> ?f" using slot_inside [OF s(1,2), of i] i cq_length_cases [OF inv] by simp
      then show ?thesis using at False i by (simp add: nth_append length_cq_list nth_cq_list)
    qed
  qed
  then show ?thesis using run inv' by (simp add: cq_capacity_def)
qed

lemma cq_pop_list:
  assumes inv: "cq_inv q" and list: "cq_list q = x # xs"
  shows "\<exists>q'. cq_pop q = Inr (x, q') \<and> cq_inv q' \<and> cq_list q' = xs \<and> cq_capacity q' = cq_capacity q"
proof -
  let ?q = "q\<lparr>cq_last := (cq_last q + 1) mod cq_size q\<rparr>"
  let ?f = "unat (cq_first q)" and ?l = "unat (cq_last q)" and ?n = "unat (cq_size q)"
  have s: "?f < ?n" "?l < ?n" using inv by (auto simp: cq_inv_def)
  have last: "unat (cq_last ?q) = (?l + 1) mod ?n" using cq_facts(2) [OF inv] by simp
  have inv': "cq_inv ?q" using inv s last by (simp add: cq_inv_def)
  have pos: "0 < unat (cq_length q)" using arg_cong [OF list, of length] by (simp add: length_cq_list)
  have len: "Suc (unat (cq_length ?q)) = unat (cq_length q)"
    using pos s last cq_length_cases [OF inv] cq_length_cases [OF inv']
    by (cases "?l + 1 = ?n") (auto split: if_splits)
  have "cq_list ?q ! i = cq_list q ! Suc i" if "i < unat (cq_length ?q)" for i
    using that len last by (simp add: nth_cq_list mod_simps)
  then have "cq_list ?q = tl (cq_list q)"
    by (intro nth_equalityI) (simp_all add: length_cq_list nth_tl flip: len)
  moreover have "cq_queue q ! ?l = x" using arg_cong [OF list, of "\<lambda>xs. xs ! 0"] nth_cq_list [OF pos] s by simp
  ultimately show ?thesis using list inv' cq_empty_iff [OF inv] by (simp add: cq_pop_def cq_capacity_def)
qed

interpretation cq: bounded_queue cq_inv cq_list cq_capacity cq_push cq_pop cq_length cq_at
proof
  fix q :: "'a CircularQueue" and t x :: 'a and xs i
  assume inv: "cq_inv q"
  show "length (cq_list q) \<le> cq_capacity q"
    using inv cq_length_cases [OF inv] by (auto simp: length_cq_list cq_capacity_def cq_inv_def split: if_splits)
  show "length (cq_list q) < cq_capacity q \<Longrightarrow> \<exists>q'. cq_push t q = Inr q' \<and> cq_inv q' \<and> cq_list q' = cq_list q @ [t] \<and> cq_capacity q' = cq_capacity q"
    using cq_push_list [OF inv] by (simp add: length_cq_list)
  show "length (cq_list q) = cq_capacity q \<Longrightarrow> \<exists>e. cq_push t q = Inl e"
    using cq_full_iff [OF inv] by (simp add: length_cq_list cq_push_def)
  show "cq_list q = x # xs \<Longrightarrow> \<exists>q'. cq_pop q = Inr (x, q') \<and> cq_inv q' \<and> cq_list q' = xs \<and> cq_capacity q' = cq_capacity q"
    by (rule cq_pop_list [OF inv])
  show "cq_list q = [] \<Longrightarrow> \<exists>e. cq_pop q = Inl e" using cq_empty_iff [OF inv] by (simp add: cq_pop_def)
  show "unat (cq_length q) = length (cq_list q)" by (simp add: length_cq_list)
  show "i < length (cq_list q) \<Longrightarrow> cq_at q (of_nat i) = Inr (cq_list q ! i)"
  proof -
    assume "i < length (cq_list q)"
    then have i: "i < unat (cq_length q)" by (simp add: length_cq_list)
    moreover have "unat (cq_length q) < unat (cq_size q)" using inv cq_length_cases [OF inv] by (auto simp: cq_inv_def split: if_splits)
    ultimately have u: "unat (of_nat i :: UInt32) = i" using inv by (intro unat_of_nat_lt) (simp add: cq_inv_def)
    then have "of_nat i < cq_length q" "of_nat i < cq_size q" using i \<open>unat (cq_length q) < unat (cq_size q)\<close> by (simp_all add: word_less_nat_alt)
    then show "cq_at q (of_nat i) = Inr (cq_list q ! i)"
      using cq_facts(4) [OF inv, of "of_nat i"] u nth_cq_list [OF i] by (simp add: cq_at_def cq_index_def)
  qed
qed

text \<open>
  C37. The circular queue is a first-in first-out queue with room for one element less than it has slots: for every sequence of
  pushes and pops that returns, the elements popped followed by the elements left are the elements that were there followed by
  the elements pushed, and a push fails exactly when the queue holds that many elements.
\<close>

theorem circular_queue_fifo:
  assumes "cq_inv q" and "queue_run cq_push cq_pop os q = Inr (out, q')"
  shows "out @ cq_list q' = cq_list q @ List.map_filter (\<lambda>x. x) os \<and> cq_inv q' \<and>
    ((\<exists>e. cq_push t q' = Inl e) \<longleftrightarrow> length (cq_list q') = unat (cq_size q') - 1)"
proof -
  have inv: "cq_inv q'" and fifo: "out @ cq_list q' = cq_list q @ List.map_filter (\<lambda>x. x) os"
    using cq.first_in_first_out [OF assms] by blast+
  show ?thesis
  proof (cases "length (cq_list q') = cq_capacity q'")
    case True
    then show ?thesis using inv fifo cq.push_full [OF inv True, of t] by (simp add: cq_capacity_def)
  next
    case False
    then have "length (cq_list q') < cq_capacity q'" using cq.within [OF inv] by simp
    from cq.push_ok [OF inv this, of t] show ?thesis using inv fifo False by (auto simp: cq_capacity_def)
  qed
qed

theorem circular_queue_fifo_witness:
  "\<exists>q'. queue_run cq_push cq_pop [Some 1, Some 2, None, Some 3, None, Some 4] (mk_CircularQueue [0, 0, 0, 0 :: nat] 2) = Inr ([1, 2], q') \<and> cq_list q' = [3, 4]"
proof -
  let ?q = "mk_CircularQueue [0, 0, 0, 0 :: nat] 2" and ?os = "[Some 1, Some 2, None, Some 3, None, Some 4 :: nat option]"
  have inv: "cq_inv ?q" by (simp add: cq_inv_def mk_CircularQueue_def)
  have "case queue_run cq_push cq_pop ?os ?q of Inl _ \<Rightarrow> False | Inr (out, _) \<Rightarrow> out = [1, 2]" by code_simp
  then obtain q' where q': "queue_run cq_push cq_pop ?os ?q = Inr ([1, 2], q')"
    by (cases "queue_run cq_push cq_pop ?os ?q") auto
  have "cq_list ?q = []" by (simp add: cq_list_def cq_length_def mk_CircularQueue_def)
  moreover have "List.map_filter (\<lambda>x. x) ?os = [1, 2, 3, 4]" by (simp add: List.map_filter_def)
  ultimately have "cq_list q' = [3, 4]" using circular_queue_fifo [OF inv q'] by simp
  then show ?thesis using q' by blast
qed

text \<open>A full queue makes room by dropping its oldest element.\<close>

lemma cq_pushCircular_list:
  assumes inv: "cq_inv q" and "0 < cq_capacity q"
  shows "\<exists>q'. cq_pushCircular t q = Inr q' \<and> cq_inv q' \<and>
    cq_list q' = (if length (cq_list q) = cq_capacity q then tl (cq_list q) else cq_list q) @ [t]"
proof (cases "length (cq_list q) = cq_capacity q")
  case True
  then obtain x xs where xs: "cq_list q = x # xs" using assms(2) by (cases "cq_list q") auto
  obtain q1 where q1: "cq_pop q = Inr (x, q1)" "cq_inv q1" "cq_list q1 = xs" "cq_capacity q1 = cq_capacity q"
    using cq.pop_ok [OF inv xs] by blast
  have "length (cq_list q1) < cq_capacity q1" using True xs q1(3,4) by simp
  moreover have "cq_full q" using True by (simp add: cq_full_iff [OF inv] length_cq_list)
  ultimately show ?thesis
    using cq.push_ok [OF q1(2), of t] q1(1,3) True xs by (auto simp: cq_pushCircular_def)
next
  case False
  then have "length (cq_list q) < cq_capacity q" using cq.within [OF inv] by simp
  from cq.push_ok [OF inv this, of t] show ?thesis using False cq_full_iff [OF inv] by (auto simp: cq_pushCircular_def length_cq_list)
qed

section \<open>Bit vector\<close>

record BitVector =
  bv_capacity :: UInt32
  bv_size :: UInt32
  bv_last_pos :: int
  bv_words :: "UInt64 list"

definition mk_BitVector :: "UInt32 \<Rightarrow> BitVector" where
  "mk_BitVector bits = \<lparr>bv_capacity = bits, bv_size = 0, bv_last_pos = -1, bv_words = replicate (unat (drop_bit 6 (bits + 64 - 1))) 0\<rparr>"

definition bv_reset :: "BitVector \<Rightarrow> BitVector" where
  "bv_reset v = v\<lparr>bv_words := map (\<lambda>_. 0) (bv_words v), bv_size := 0, bv_last_pos := -1\<rparr>"

definition resetFind :: "BitVector \<Rightarrow> BitVector" where
  "resetFind v = v\<lparr>bv_last_pos := -1\<rparr>"

definition bTestBit :: "UInt8 \<Rightarrow> nat \<Rightarrow> bool" where
  "bTestBit byte_word l \<longleftrightarrow> byte_word AND push_bit l 1 \<noteq> 0"

definition word_at :: "BitVector \<Rightarrow> UInt32 \<Rightarrow> UInt64 res" where
  "word_at v b = (let i = unat (drop_bit 6 b) in if i < length (bv_words v) then Inr (bv_words v ! i) else Inl OutOfRange)"

definition bv_at :: "BitVector \<Rightarrow> UInt32 \<Rightarrow> bool res" where
  "bv_at v b =
     bindE (assertE (b < bv_capacity v) (AssertError ''bit < m_capacity''))
     (\<lambda>_. bindE (word_at v b) (\<lambda>w. Inr (w AND push_bit (unat (b AND 63)) 1 \<noteq> 0)))"

definition bv_set :: "UInt32 \<Rightarrow> BitVector \<Rightarrow> BitVector res" where
  "bv_set b v =
     bindE (bv_at v b)
     (\<lambda>x. if x then Inr v
          else Inr (v\<lparr>bv_words := (bv_words v)[unat (drop_bit 6 b) := bv_words v ! unat (drop_bit 6 b) OR push_bit (unat (b AND 63)) 1],
                      bv_size := bv_size v + 1\<rparr>))"

definition bv_clear :: "UInt32 \<Rightarrow> BitVector \<Rightarrow> BitVector res" where
  "bv_clear b v =
     bindE (bv_at v b)
     (\<lambda>x. if \<not> x then Inr v
          else Inr (v\<lparr>bv_words := (bv_words v)[unat (drop_bit 6 b) := bv_words v ! unat (drop_bit 6 b) AND NOT (push_bit (unat (b AND 63)) 1)],
                      bv_size := bv_size v - 1\<rparr>))"

text \<open>The search goes through the halves of a word, of its halves, and so on, and skips those that are zero.\<close>

definition orelse :: "'a option \<Rightarrow> 'a option \<Rightarrow> 'a option" where
  "orelse x y = (case x of None \<Rightarrow> y | Some _ \<Rightarrow> x)"

definition scan8 :: "int \<Rightarrow> int \<Rightarrow> UInt8 \<Rightarrow> int option" where
  "scan8 pos last_pos w = (if w = 0 then None
     else map_option (\<lambda>l. pos + int l) (List.find (\<lambda>l. bTestBit w l \<and> pos + int l > last_pos) [0..<8]))"

definition scan16 :: "int \<Rightarrow> int \<Rightarrow> UInt16 \<Rightarrow> int option" where
  "scan16 pos last_pos w = (if w = 0 then None
     else orelse (scan8 pos last_pos (ucast (w AND 0xFF))) (scan8 (pos + 8) last_pos (ucast (drop_bit 8 w))))"

definition scan32 :: "int \<Rightarrow> int \<Rightarrow> UInt32 \<Rightarrow> int option" where
  "scan32 pos last_pos w = (if w = 0 then None
     else orelse (scan16 pos last_pos (ucast (w AND 0xFFFF))) (scan16 (pos + 16) last_pos (ucast (drop_bit 16 w))))"

definition scan64 :: "int \<Rightarrow> int \<Rightarrow> UInt64 \<Rightarrow> int option" where
  "scan64 pos last_pos w = (if w = 0 then None
     else orelse (scan32 pos last_pos (ucast (w AND 0xFFFFFFFF))) (scan32 (pos + 32) last_pos (ucast (drop_bit 32 w))))"

fun scan_words :: "int \<Rightarrow> int \<Rightarrow> UInt64 list \<Rightarrow> int option" where
  "scan_words pos last_pos [] = None"
| "scan_words pos last_pos (w # ws) = orelse (scan64 pos last_pos w) (scan_words (pos + 64) last_pos ws)"

text \<open>The number of words is computed from the capacity as in the constructor.\<close>

definition bv_find :: "BitVector \<Rightarrow> int \<times> BitVector" where
  "bv_find v =
     (let windex = (if bv_last_pos v = -1 then 0 else nat (bv_last_pos v div 64));
          pos = (case scan_words (64 * int windex) (bv_last_pos v) (drop windex (bv_words v)) of None \<Rightarrow> -1 | Some p \<Rightarrow> p)
      in (pos, v\<lparr>bv_last_pos := pos\<rparr>))"

subsection \<open>The search finds the next set bit\<close>

definition bit_scan :: "int \<Rightarrow> int \<Rightarrow> nat \<Rightarrow> (nat \<Rightarrow> bool) \<Rightarrow> int option" where
  "bit_scan pos last_pos n P = map_option (\<lambda>l. pos + int l) (List.find (\<lambda>l. P l \<and> pos + int l > last_pos) [0..<n])"

lemma find_orelse: "List.find P (xs @ ys) = orelse (List.find P xs) (List.find P ys)"
  by (induction xs) (auto simp: orelse_def)

lemma find_map: "List.find P (map f xs) = map_option f (List.find (P \<circ> f) xs)"
  by (induction xs) auto

lemma map_option_orelse: "map_option f (orelse x y) = orelse (map_option f x) (map_option f y)"
  by (cases x) (auto simp: orelse_def)

lemma bit_scan_split:
  "bit_scan pos last_pos (m + n) P = orelse (bit_scan pos last_pos m P) (bit_scan (pos + int m) last_pos n (\<lambda>l. P (m + l)))"
proof -
  have "[0..<m + n] = [0..<m] @ map (\<lambda>l. m + l) [0..<n]" by (rule nth_equalityI) (auto simp: nth_append)
  then show ?thesis
    by (simp add: bit_scan_def find_orelse map_option_orelse find_map option.map_comp o_def add.assoc)
qed

lemma bit_scan_cong: "(\<And>l. l < n \<Longrightarrow> P l = Q l) \<Longrightarrow> bit_scan pos last_pos n P = bit_scan pos last_pos n Q"
  unfolding bit_scan_def by (intro arg_cong [where f = "map_option _"] find_cong) auto

lemma bit_scan_None: "(\<And>l. l < n \<Longrightarrow> \<not> P l) \<Longrightarrow> bit_scan pos last_pos n P = None"
  by (auto simp: bit_scan_def find_None_iff)

lemma scan8_eq: "scan8 pos last_pos w = bit_scan pos last_pos 8 (bit w)"
proof (cases "w = 0")
  case True
  then show ?thesis by (simp add: scan8_def bit_scan_None)
next
  case False
  then show ?thesis by (simp add: scan8_def bit_scan_def bTestBit_def bit_iff_and_push_bit_not_eq_0)
qed

text \<open>A word is scanned as its low half and then its high half.\<close>

lemma bit_scan_halves:
  fixes w :: "'a :: len word"
  assumes "h = LENGTH('b)" and "LENGTH('a) = h + h"
  shows "orelse (bit_scan pos last_pos h (bit (ucast (w AND mask h) :: 'b :: len word)))
      (bit_scan (pos + int h) last_pos h (bit (ucast (drop_bit h w) :: 'b word)))
    = bit_scan pos last_pos (h + h) (bit w)"
proof -
  have "bit (ucast (w AND mask h) :: 'b word) l = bit w l" if "l < h" for l
    using that assms by (simp add: bit_ucast_iff bit_and_iff bit_mask_iff)
  moreover have "bit (ucast (drop_bit h w) :: 'b word) l = bit w (h + l)" if "l < h" for l
    using that assms by (simp add: bit_ucast_iff bit_drop_bit_eq)
  ultimately show ?thesis by (simp add: bit_scan_split cong: bit_scan_cong)
qed

lemma scan16_eq: "scan16 pos last_pos w = bit_scan pos last_pos 16 (bit w)"
proof -
  have "mask 8 = (0xFF :: UInt16)" by (simp add: mask_eq_exp_minus_1)
  then show ?thesis using bit_scan_halves [of 8, where w = w and 'b = 8, of pos last_pos]
    by (simp add: scan16_def scan8_eq bit_scan_None)
qed

lemma scan32_eq: "scan32 pos last_pos w = bit_scan pos last_pos 32 (bit w)"
proof -
  have "mask 16 = (0xFFFF :: UInt32)" by (simp add: mask_eq_exp_minus_1)
  then show ?thesis using bit_scan_halves [of 16, where w = w and 'b = 16, of pos last_pos]
    by (simp add: scan32_def scan16_eq bit_scan_None)
qed

lemma scan64_eq: "scan64 pos last_pos w = bit_scan pos last_pos 64 (bit w)"
proof -
  have "mask 32 = (0xFFFFFFFF :: UInt64)" by (simp add: mask_eq_exp_minus_1)
  then show ?thesis using bit_scan_halves [of 32, where w = w and 'b = 32, of pos last_pos]
    by (simp add: scan64_def scan32_eq bit_scan_None)
qed

definition bv_bit :: "UInt64 list \<Rightarrow> nat \<Rightarrow> bool" where
  "bv_bit ws p \<longleftrightarrow> p div 64 < length ws \<and> bit (ws ! (p div 64)) (p mod 64)"

lemma bv_bit_Cons: "bv_bit (w # ws) (64 + p) = bv_bit ws p"
proof -
  have "(64 + p) div 64 = Suc (p div 64)" by simp
  then show ?thesis by (simp only: bv_bit_def) simp
qed

lemma scan_words_eq: "scan_words pos last_pos ws = bit_scan pos last_pos (64 * length ws) (bv_bit ws)"
proof (induction ws arbitrary: pos)
  case Nil
  then show ?case by (simp add: bit_scan_None)
next
  case (Cons w ws)
  have "bit_scan pos last_pos 64 (bv_bit (w # ws)) = bit_scan pos last_pos 64 (bit w)"
    by (rule bit_scan_cong) (simp add: bv_bit_def)
  moreover have "64 * length (w # ws) = 64 + 64 * length ws" by simp
  ultimately show ?case by (simp only: bit_scan_split scan_words.simps scan64_eq Cons.IH bv_bit_Cons) simp
qed

definition bv_elems :: "BitVector \<Rightarrow> nat set" where
  "bv_elems v = {p. p < 64 * length (bv_words v) \<and> bv_bit (bv_words v) p}"

definition bv_inv :: "BitVector \<Rightarrow> bool" where
  "bv_inv v \<longleftrightarrow> unat (bv_capacity v) \<le> 2 ^ 31 \<and> length (bv_words v) = (unat (bv_capacity v) + 63) div 64 \<and>
     (\<forall>p \<in> bv_elems v. p < unat (bv_capacity v)) \<and> unat (bv_size v) = card (bv_elems v) \<and> -1 \<le> bv_last_pos v"

lemma finite_bv_elems [simp]: "finite (bv_elems v)"
  by (simp add: bv_elems_def)

lemma mem_bv_elems [simp]: "p \<in> bv_elems v \<longleftrightarrow> bv_bit (bv_words v) p"
  by (auto simp: bv_elems_def bv_bit_def)

text \<open>The elements behind the last one that was found, in ascending order.\<close>

definition bv_rest :: "BitVector \<Rightarrow> nat list" where
  "bv_rest v = filter (\<lambda>p. p \<in> bv_elems v \<and> bv_last_pos v < int p) [0..<64 * length (bv_words v)]"

lemma find_filter: "List.find P xs = (case filter P xs of [] \<Rightarrow> None | x # _ \<Rightarrow> Some x)"
  by (induction xs) auto

lemma bv_find_rest:
  assumes "bv_inv v"
  shows "bv_find v = (case bv_rest v of [] \<Rightarrow> (-1, v\<lparr>bv_last_pos := -1\<rparr>) | p # _ \<Rightarrow> (int p, v\<lparr>bv_last_pos := int p\<rparr>))"
proof -
  let ?n = "length (bv_words v)" and ?L = "bv_last_pos v"
  define k where "k = (if ?L = -1 then 0 else nat (?L div 64))"
  have L: "-1 \<le> ?L" using assms by (simp add: bv_inv_def)
  have whole: "bit_scan 0 ?L (64 * ?n) (bv_bit (bv_words v)) = (case bv_rest v of [] \<Rightarrow> None | p # _ \<Rightarrow> Some (int p))"
    by (simp add: bit_scan_def find_filter bv_rest_def split: list.split)
  have "scan_words (64 * int k) ?L (drop k (bv_words v)) = bit_scan 0 ?L (64 * ?n) (bv_bit (bv_words v))"
  proof (cases "k \<le> ?n")
    case True
    have "bit_scan 0 ?L (64 * k) (bv_bit (bv_words v)) = None"
      using L by (auto simp: bit_scan_def find_None_iff k_def split: if_splits)
    moreover have "bv_bit (drop k (bv_words v)) = (\<lambda>p. bv_bit (bv_words v) (64 * k + p))"
      using True by (auto simp: bv_bit_def fun_eq_iff)
    ultimately show ?thesis
      using bit_scan_split [of 0 ?L "64 * k" "64 * (?n - k)" "bv_bit (bv_words v)"] True
      by (simp add: scan_words_eq orelse_def algebra_simps)
  next
    case False
    then have "int p \<le> ?L" if "p < 64 * ?n" for p using L that by (auto simp: k_def split: if_splits)
    then have "bit_scan 0 ?L (64 * ?n) (bv_bit (bv_words v)) = None" by (force simp: bit_scan_def find_None_iff)
    then show ?thesis using False by simp
  qed
  then show ?thesis by (simp add: bv_find_def whole Let_def flip: k_def split: list.split)
qed

text \<open>\<open>n\<close> calls of \<^verbatim>\<open>find\<close>, one after the other.\<close>

fun bv_finds :: "nat \<Rightarrow> BitVector \<Rightarrow> int list \<times> BitVector" where
  "bv_finds 0 v = ([], v)"
| "bv_finds (Suc n) v = (let (p, v) = bv_find v; (ps, v) = bv_finds n v in (p # ps, v))"

lemma bv_rest_step:
  assumes "bv_rest v = p # ps"
  shows "bv_rest (v\<lparr>bv_last_pos := int p\<rparr>) = ps" and "bv_last_pos v < int p"
proof -
  have mem: "p \<in> set (bv_rest v)" using assms by simp
  then show less: "bv_last_pos v < int p" by (simp add: bv_rest_def)
  have "sorted_wrt (<) (bv_rest v)" by (simp add: bv_rest_def sorted_wrt_filter)
  then have "filter (\<lambda>q. p < q) (bv_rest v) = ps" using assms by (auto intro!: filter_True)
  moreover have "bv_rest (v\<lparr>bv_last_pos := int p\<rparr>) = filter (\<lambda>q. p < q) (bv_rest v)"
    using less by (auto simp: bv_rest_def intro!: filter_cong)
  ultimately show "bv_rest (v\<lparr>bv_last_pos := int p\<rparr>) = ps" by simp
qed

lemma bv_finds_rest:
  "bv_inv v \<Longrightarrow> bv_finds (Suc (length (bv_rest v))) v = (map int (bv_rest v) @ [-1], v\<lparr>bv_last_pos := -1\<rparr>)"
proof (induction "bv_rest v" arbitrary: v)
  case Nil
  then show ?case by (simp add: bv_find_rest flip: Nil.hyps)
next
  case (Cons p ps)
  note rest = Cons.hyps(2) [symmetric]
  let ?v = "v\<lparr>bv_last_pos := int p\<rparr>"
  have "bv_inv ?v" using Cons.prems by (simp add: bv_inv_def bv_elems_def)
  then have "bv_finds (Suc (length ps)) ?v = (map int ps @ [-1], v\<lparr>bv_last_pos := -1\<rparr>)"
    using Cons.hyps(1) [of ?v] bv_rest_step(1) [OF rest] by simp
  then show ?case using bv_find_rest [OF Cons.prems] rest by (simp del: bv_finds.simps add: bv_finds.simps(2) [of "Suc (length ps)"])
qed

lemma bv_rest_all:
  assumes "bv_last_pos v = -1"
  shows "bv_rest v = sorted_list_of_set (bv_elems v)"
proof -
  have "set (bv_rest v) = bv_elems v" using assms by (auto simp: bv_rest_def bv_bit_def)
  then show ?thesis by (metis (no_types, lifting) bv_rest_def sorted_list_of_set.idem_if_sorted_distinct distinct_filter distinct_upt sorted_wrt_filter sorted_upt)
qed

subsection \<open>The words refine a set\<close>

lemma bit_index_facts:
  assumes inv: "bv_inv v" and b: "b < bv_capacity v"
  shows "unat (drop_bit 6 b) = unat b div 64" and "unat (b AND 63) = unat b mod 64" and "unat b div 64 < length (bv_words v)"
proof -
  show "unat (drop_bit 6 b) = unat b div 64" by (simp add: drop_bit_eq_div unat_div)
  have "(63 :: UInt32) = mask 6" by (simp add: mask_eq_exp_minus_1)
  then have "b AND 63 = b mod 64" using take_bit_eq_mask [of 6 b] by (simp add: take_bit_eq_mod)
  then show "unat (b AND 63) = unat b mod 64" by (simp add: unat_mod)
  have "unat b < unat (bv_capacity v)" using b by (simp add: word_less_nat_alt)
  then show "unat b div 64 < length (bv_words v)" using inv by (simp add: bv_inv_def)
qed

lemma bv_at_elem:
  assumes "bv_inv v" and "b < bv_capacity v"
  shows "bv_at v b = Inr (unat b \<in> bv_elems v)"
  using assms bit_index_facts [OF assms]
  by (simp add: bv_at_def word_at_def bv_bit_def Let_def bit_iff_and_push_bit_not_eq_0)

lemma bv_bit_update:
  assumes "i < length ws"
  shows "bv_bit (ws[i := w]) p \<longleftrightarrow> (if p div 64 = i then bit w (p mod 64) else bv_bit ws p)"
  using assms by (auto simp: bv_bit_def nth_list_update)

lemma bv_bit_set:
  assumes "b div 64 < length ws"
  shows "bv_bit (ws[b div 64 := ws ! (b div 64) OR push_bit (b mod 64) 1]) p \<longleftrightarrow> p = b \<or> bv_bit ws p"
proof (cases "p div 64 = b div 64")
  case True
  then have "p mod 64 = b mod 64 \<longleftrightarrow> p = b" by (metis div_mult_mod_eq)
  then show ?thesis using True assms by (auto simp: bv_bit_update bit_or_iff bit_exp_iff possible_bit_word bv_bit_def)
next
  case False
  then show ?thesis using assms by (auto simp: bv_bit_update)
qed

lemma bv_bit_clear:
  assumes "b div 64 < length ws"
  shows "bv_bit (ws[b div 64 := ws ! (b div 64) AND NOT (push_bit (b mod 64) 1)]) p \<longleftrightarrow> p \<noteq> b \<and> bv_bit ws p"
proof (cases "p div 64 = b div 64")
  case True
  then have "p mod 64 = b mod 64 \<longleftrightarrow> p = b" by (metis div_mult_mod_eq)
  then show ?thesis using True assms by (auto simp: bv_bit_update bit_and_iff bit_not_iff bit_exp_iff possible_bit_word bv_bit_def)
next
  case False
  then show ?thesis using assms by (auto simp: bv_bit_update)
qed

lemma bv_inv_update:
  assumes "bv_inv v" and "length ws = length (bv_words v)"
    and "\<And>p. bv_bit ws p \<Longrightarrow> p < unat (bv_capacity v)" and "unat n = card {p. bv_bit ws p}"
  shows "bv_inv (v\<lparr>bv_words := ws, bv_size := n\<rparr>)" and "bv_elems (v\<lparr>bv_words := ws, bv_size := n\<rparr>) = {p. bv_bit ws p}"
proof -
  show elems: "bv_elems (v\<lparr>bv_words := ws, bv_size := n\<rparr>) = {p. bv_bit ws p}" by auto
  show "bv_inv (v\<lparr>bv_words := ws, bv_size := n\<rparr>)" using assms elems by (simp add: bv_inv_def)
qed

lemma card_bv_elems:
  assumes "bv_inv v"
  shows "card (bv_elems v) \<le> 2 ^ 31"
proof -
  have "bv_elems v \<subseteq> {..<unat (bv_capacity v)}" using assms by (auto simp: bv_inv_def)
  then have "card (bv_elems v) \<le> unat (bv_capacity v)" using subset_eq_atLeast0_lessThan_card by (metis atLeast0LessThan)
  then show ?thesis using assms by (simp add: bv_inv_def)
qed

lemma bv_set_elems:
  assumes inv: "bv_inv v" and b: "b < bv_capacity v"
  shows "\<exists>v'. bv_set b v = Inr v' \<and> bv_inv v' \<and> bv_elems v' = insert (unat b) (bv_elems v) \<and> bv_last_pos v' = bv_last_pos v \<and> bv_capacity v' = bv_capacity v"
proof (cases "unat b \<in> bv_elems v")
  case True
  then show ?thesis using inv bv_at_elem [OF inv b] by (auto simp: bv_set_def)
next
  case False
  note ix = bit_index_facts [OF inv b]
  let ?ws = "(bv_words v)[unat b div 64 := bv_words v ! (unat b div 64) OR push_bit (unat b mod 64) 1]"
  let ?v = "v\<lparr>bv_words := ?ws, bv_size := bv_size v + 1\<rparr>"
  have elems: "{p. bv_bit ?ws p} = insert (unat b) (bv_elems v)" by (auto simp only: bv_bit_set [OF ix(3)] mem_bv_elems)
  have size: "unat (bv_size v) = card (bv_elems v)" and cap: "\<And>p. p \<in> bv_elems v \<Longrightarrow> p < unat (bv_capacity v)" using inv by (auto simp: bv_inv_def)
  have "unat (bv_size v + 1) = Suc (unat (bv_size v))"
    using card_bv_elems [OF inv] size by (subst unat_add_small) simp_all
  then have card: "unat (bv_size v + 1) = card {p. bv_bit ?ws p}" unfolding elems using False size by simp
  have low: "p < unat (bv_capacity v)" if "bv_bit ?ws p" for p
    using that cap [of p] b unfolding bv_bit_set [OF ix(3)] by (auto simp: word_less_nat_alt)
  have len: "length ?ws = length (bv_words v)" by simp
  have "bv_inv ?v" by (rule bv_inv_update(1) [OF inv len low card])
  moreover have "bv_elems ?v = insert (unat b) (bv_elems v)" using bv_inv_update(2) [OF inv len low card] elems by (rule trans)
  moreover have "bv_set b v = Inr ?v" using False bv_at_elem [OF inv b] ix by (simp add: bv_set_def)
  ultimately show ?thesis by simp
qed

lemma bv_clear_elems:
  assumes inv: "bv_inv v" and b: "b < bv_capacity v"
  shows "\<exists>v'. bv_clear b v = Inr v' \<and> bv_inv v' \<and> bv_elems v' = bv_elems v - {unat b} \<and> bv_last_pos v' = bv_last_pos v \<and> bv_capacity v' = bv_capacity v"
proof (cases "unat b \<in> bv_elems v")
  case False
  then show ?thesis using inv bv_at_elem [OF inv b] by (auto simp: bv_clear_def)
next
  case True
  note ix = bit_index_facts [OF inv b]
  let ?ws = "(bv_words v)[unat b div 64 := bv_words v ! (unat b div 64) AND NOT (push_bit (unat b mod 64) 1)]"
  let ?v = "v\<lparr>bv_words := ?ws, bv_size := bv_size v - 1\<rparr>"
  have elems: "{p. bv_bit ?ws p} = bv_elems v - {unat b}" by (auto simp only: bv_bit_clear [OF ix(3)] mem_bv_elems)
  have size: "unat (bv_size v) = card (bv_elems v)" and cap: "\<And>p. p \<in> bv_elems v \<Longrightarrow> p < unat (bv_capacity v)" using inv by (auto simp: bv_inv_def)
  have "0 < card (bv_elems v)" using True by (auto simp: card_gt_0_iff)
  then have "unat (bv_size v - 1) = unat (bv_size v) - 1" using size by (subst unat_sub) (auto simp: word_le_nat_alt)
  then have card: "unat (bv_size v - 1) = card {p. bv_bit ?ws p}" unfolding elems using True size by simp
  have low: "p < unat (bv_capacity v)" if "bv_bit ?ws p" for p using that cap [of p] unfolding bv_bit_clear [OF ix(3)] by simp
  have len: "length ?ws = length (bv_words v)" by simp
  have "bv_inv ?v" by (rule bv_inv_update(1) [OF inv len low card])
  moreover have "bv_elems ?v = bv_elems v - {unat b}" using bv_inv_update(2) [OF inv len low card] elems by (rule trans)
  moreover have "bv_clear b v = Inr ?v" using True bv_at_elem [OF inv b] ix by (simp add: bv_clear_def)
  ultimately show ?thesis by simp
qed

text \<open>
  C38. The bit vector is a set of the numbers below its capacity, with its size counted: setting a bit inserts it, clearing one
  removes it, and after the search is reset the calls of \<^verbatim>\<open>find\<close> return the elements in ascending order, each once, then -1, and
  leave the search where it starts over. The search skips zero words and zero halves of words, this is what it computes all the same.
\<close>

theorem bit_vector_refines_set:
  assumes inv: "bv_inv v" and b: "b < bv_capacity v"
  shows "(\<exists>v'. bv_set b v = Inr v' \<and> bv_inv v' \<and> bv_elems v' = insert (unat b) (bv_elems v)) \<and>
    (\<exists>v'. bv_clear b v = Inr v' \<and> bv_inv v' \<and> bv_elems v' = bv_elems v - {unat b}) \<and>
    bv_at v b = Inr (unat b \<in> bv_elems v) \<and> unat (bv_size v) = card (bv_elems v) \<and>
    bv_finds (card (bv_elems v) + 1) (resetFind v) = (map int (sorted_list_of_set (bv_elems v)) @ [-1], resetFind v)"
proof -
  have inv': "bv_inv (resetFind v)" and elems: "bv_elems (resetFind v) = bv_elems v"
    using inv by (simp_all add: resetFind_def bv_inv_def bv_elems_def)
  have rest: "bv_rest (resetFind v) = sorted_list_of_set (bv_elems v)"
    using bv_rest_all [of "resetFind v"] elems by (simp add: resetFind_def)
  have "bv_finds (card (bv_elems v) + 1) (resetFind v) = (map int (sorted_list_of_set (bv_elems v)) @ [-1], resetFind v)"
    using bv_finds_rest [OF inv'] unfolding rest by (simp add: resetFind_def)
  moreover have "unat (bv_size v) = card (bv_elems v)" using inv by (simp add: bv_inv_def)
  ultimately show ?thesis using bv_set_elems [OF inv b] bv_clear_elems [OF inv b] bv_at_elem [OF inv b] by blast
qed

text \<open>A new vector is the empty set.\<close>

lemma mk_BitVector_inv:
  assumes "unat bits \<le> 2 ^ 31"
  shows "bv_inv (mk_BitVector bits)" and "bv_elems (mk_BitVector bits) = {}"
proof -
  have "bv_bit (replicate n 0) p = False" for n p by (simp add: bv_bit_def)
  then show empty: "bv_elems (mk_BitVector bits) = {}" by (auto simp: mk_BitVector_def)
  have "unat (63 + bits) = unat bits + 63" using assms by (subst unat_add_small) simp_all
  then have "unat (drop_bit 6 (bits + 64 - 1)) = (unat bits + 63) div 64" by (simp add: drop_bit_eq_div unat_div)
  then have "length (bv_words (mk_BitVector bits)) = (unat bits + 63) div 64" by (simp add: mk_BitVector_def)
  then show "bv_inv (mk_BitVector bits)" using assms unfolding bv_inv_def empty by (simp add: mk_BitVector_def)
qed

theorem bit_vector_refines_set_witness:
  "\<exists>v. bv_set 70 (mk_BitVector 100) = Inr v \<and> bv_elems v = {70}"
  using bit_vector_refines_set [OF mk_BitVector_inv(1), of 100 70] mk_BitVector_inv(2) [of 100] by (auto simp: mk_BitVector_def)

end
