(* ===== verification/LS_Branch.thy ===== *)
theory LS_Branch
  imports LS_Prelude
begin

unbundle bit_operations_syntax

text \<open>
  Branch predictors: \<^verbatim>\<open>branch_predictor.cc\<close>, the files of \<^verbatim>\<open>branch_predictors\<close>, and \<^verbatim>\<open>Core::accessBranchPredictor\<close>, which asks for
  a prediction and then tells the predictor what the branch did. The predictor of the Pentium M combines a table of two-bit
  counters, a global predictor with tags, a predictor of loops and a branch target buffer.
\<close>

section \<open>Saturating counters\<close>

text \<open>A counter of \<open>n\<close> bits is kept in a byte that is read as a signed number.\<close>

type_synonym SaturatingPredictor = UInt8

fun Pow2 :: "nat \<Rightarrow> int" where
  "Pow2 0 = 1"
| "Pow2 (Suc n) = 2 * Pow2 n"

definition sp_predict :: "SaturatingPredictor \<Rightarrow> bool" where
  "sp_predict c \<longleftrightarrow> sint c \<ge> 0"

definition sp_reset :: "nat \<Rightarrow> bool \<Rightarrow> SaturatingPredictor" where
  "sp_reset n prediction = (if prediction then word_of_int (Pow2 (n - 1) - 1) else word_of_int (- Pow2 (n - 1)))"

definition sp_inc :: "nat \<Rightarrow> SaturatingPredictor \<Rightarrow> SaturatingPredictor" where
  "sp_inc n c = (if sint c \<noteq> Pow2 (n - 1) - 1 then c + 1 else c)"

definition sp_dec :: "nat \<Rightarrow> SaturatingPredictor \<Rightarrow> SaturatingPredictor" where
  "sp_dec n c = (if sint c \<noteq> - Pow2 (n - 1) then c - 1 else c)"

definition sp_update :: "nat \<Rightarrow> bool \<Rightarrow> SaturatingPredictor \<Rightarrow> SaturatingPredictor" where
  "sp_update n actual c = (if actual then sp_inc n c else sp_dec n c)"

section \<open>The base class and the one-bit predictor\<close>

record BranchPredictor =
  m_correct_predictions :: UInt64
  m_incorrect_predictions :: UInt64

definition resetCounters :: "'a BranchPredictor_scheme \<Rightarrow> 'a BranchPredictor_scheme" where
  "resetCounters b = b\<lparr>m_correct_predictions := 0, m_incorrect_predictions := 0\<rparr>"

definition bp_updateCounters :: "bool \<Rightarrow> bool \<Rightarrow> 'a BranchPredictor_scheme \<Rightarrow> 'a BranchPredictor_scheme" where
  "bp_updateCounters predicted actual b =
     (if predicted = actual then b\<lparr>m_correct_predictions := m_correct_predictions b + 1\<rparr>
      else b\<lparr>m_incorrect_predictions := m_incorrect_predictions b + 1\<rparr>)"

record OneBitBranchPredictor = BranchPredictor +
  m_bits :: "bool list"

definition mk_OneBitBranchPredictor :: "UInt32 \<Rightarrow> OneBitBranchPredictor" where
  "mk_OneBitBranchPredictor n = \<lparr>m_correct_predictions = 0, m_incorrect_predictions = 0, m_bits = replicate (unat n) False\<rparr>"

definition one_bit_index :: "IntPtr \<Rightarrow> OneBitBranchPredictor \<Rightarrow> nat res" where
  "one_bit_index ip b = (if length (m_bits b) = 0 then Inl DivByZero else Inr (unat (ip mod of_nat (length (m_bits b)))))"

definition one_bit_predict :: "IntPtr \<Rightarrow> IntPtr \<Rightarrow> OneBitBranchPredictor \<Rightarrow> (bool \<times> OneBitBranchPredictor) res" where
  "one_bit_predict ip target b = bindE (one_bit_index ip b) (\<lambda>i. Inr (m_bits b ! i, b))"

definition one_bit_update :: "bool \<Rightarrow> bool \<Rightarrow> IntPtr \<Rightarrow> IntPtr \<Rightarrow> OneBitBranchPredictor \<Rightarrow> OneBitBranchPredictor res" where
  "one_bit_update predicted actual ip target b =
     (let b = bp_updateCounters predicted actual b in
      bindE (one_bit_index ip b) (\<lambda>i. Inr (b\<lparr>m_bits := (m_bits b)[i := actual]\<rparr>)))"

section \<open>The bimodal table\<close>

text \<open>\<^verbatim>\<open>for (i = 0; n > 0; n >>= 1, i++)\<close>\<close>

function halvings :: "UInt32 \<Rightarrow> UInt32 \<Rightarrow> UInt32" where
  "halvings i n = (if n > 0 then halvings (i + 1) (drop_bit 1 n) else i)"
  by pat_completeness auto
termination
  by (relation "measure (\<lambda>(i, n). unat n)") (auto simp: drop_bit_eq_div word_less_nat_alt unat_div word_neq_0_conv)

declare halvings.simps [simp del]

definition bp_ilog2 :: "UInt32 \<Rightarrow> UInt32" where
  "bp_ilog2 n = halvings 0 n - 1"

record SimpleBimodalTable =
  bt_num_entries :: UInt32
  bt_mask :: IntPtr
  bt_table :: "SaturatingPredictor list"

definition bt_reset :: "SimpleBimodalTable \<Rightarrow> SimpleBimodalTable" where
  "bt_reset t = t\<lparr>bt_table := map (\<lambda>_. sp_reset 2 False) (bt_table t)\<rparr>"

text \<open>A table without entries has a logarithm of all ones, and the mask is shifted past its width.\<close>

definition mk_SimpleBimodalTable :: "UInt32 \<Rightarrow> SimpleBimodalTable res" where
  "mk_SimpleBimodalTable entries =
     (let t = bt_reset \<lparr>bt_num_entries = entries, bt_mask = 0, bt_table = replicate (unat entries) 0\<rparr> in
      bindE (assertE (bp_ilog2 entries \<le> 64) OutOfRange)
      (\<lambda>_. Inr (t\<lparr>bt_mask := fold (\<lambda>i m. m OR push_bit i 1) [0..<unat (bp_ilog2 entries)] 0\<rparr>)))"

definition bt_index :: "IntPtr \<Rightarrow> SimpleBimodalTable \<Rightarrow> nat res" where
  "bt_index ip t =
     (let index = unat (ucast (ip AND bt_mask t) :: UInt32) in if index < length (bt_table t) then Inr index else Inl OutOfRange)"

definition bt_predict :: "IntPtr \<Rightarrow> SimpleBimodalTable \<Rightarrow> bool res" where
  "bt_predict ip t = bindE (bt_index ip t) (\<lambda>i. Inr (sp_predict (bt_table t ! i)))"

definition bt_update :: "bool \<Rightarrow> IntPtr \<Rightarrow> SimpleBimodalTable \<Rightarrow> SimpleBimodalTable res" where
  "bt_update actual ip t =
     bindE (bt_index ip t)
     (\<lambda>i. Inr (t\<lparr>bt_table := (bt_table t)[i := (if actual then sp_inc 2 (bt_table t ! i) else sp_dec 2 (bt_table t ! i))]\<rparr>))"

definition mk_PentiumMBimodalTable :: "SimpleBimodalTable res" where
  "mk_PentiumMBimodalTable = mk_SimpleBimodalTable 4096"

section \<open>What a lookup returns, and the search through the ways\<close>

datatype BranchType = InvalidBranch | DirectBranch | IndirectBranch | UnconditionalBranch | ConditionalBranch

record BranchPredictorReturnValue =
  rv_prediction :: bool
  rv_hit :: bool
  rv_target :: IntPtr
  rv_type :: BranchType

definition no_prediction :: BranchPredictorReturnValue where
  "no_prediction = \<lparr>rv_prediction = False, rv_hit = False, rv_target = 0, rv_type = InvalidBranch\<rparr>"

text \<open>
  The loops over the ways of the global predictor, of the loop predictor and of the branch target buffer: the first way that
  matches, or else the first of the ways that were used least recently.
\<close>

fun way_scan :: "(nat \<Rightarrow> bool) \<Rightarrow> (nat \<Rightarrow> UInt64) \<Rightarrow> nat list \<Rightarrow> nat \<Rightarrow> nat option \<times> nat" where
  "way_scan match lru [] lru_way = (None, lru_way)"
| "way_scan match lru (w # ws) lru_way =
     (if match w then (Some w, lru_way) else way_scan match lru ws (if lru w < lru lru_way then w else lru_way))"

section \<open>The global predictor\<close>

record GpWay =
  gw_valid :: "bool list"
  gw_tags :: "UInt8 list"
  gw_predictors :: "SaturatingPredictor list"
  gw_lru :: "UInt64 list"
  gw_num_entries :: UInt32
  gw_tag_bitwidth :: UInt32

record GlobalPredictor =
  gp_lru_use_count :: UInt64
  gp_num_ways :: UInt32
  gp_ways :: "GpWay list"

definition mk_GpWay :: "UInt32 \<Rightarrow> UInt32 \<Rightarrow> GpWay res" where
  "mk_GpWay entries tag_bitwidth =
     bindE (assertE (tag_bitwidth \<le> 8) (AssertError ''tag_bitwidth <= 8''))
     (\<lambda>_. Inr \<lparr>gw_valid = replicate (unat entries) False, gw_tags = replicate (unat entries) 0,
               gw_predictors = replicate (unat entries) 0, gw_lru = replicate (unat entries) 0,
               gw_num_entries = entries, gw_tag_bitwidth = tag_bitwidth\<rparr>)"

text \<open>The width of the tag is 6, whatever the caller asks for.\<close>

definition mk_GlobalPredictor :: "UInt32 \<Rightarrow> UInt32 \<Rightarrow> UInt32 \<Rightarrow> GlobalPredictor res" where
  "mk_GlobalPredictor entries tag_bitwidth ways =
     (if ways = 0 then Inl DivByZero
      else bindE (mk_GpWay (entries div ways) 6)
        (\<lambda>w. Inr \<lparr>gp_lru_use_count = 0, gp_num_ways = ways, gp_ways = replicate (unat ways) w\<rparr>))"

definition mk_PentiumMGlobalPredictor :: "GlobalPredictor res" where
  "mk_PentiumMGlobalPredictor = mk_GlobalPredictor 2048 6 4"

definition gp_gen_index_tag :: "IntPtr \<Rightarrow> IntPtr \<Rightarrow> nat \<times> UInt32" where
  "gp_gen_index_tag ip pir =
     (unat (ucast ((drop_bit 4 ip XOR drop_bit 6 pir) AND 0x1FF) :: UInt32), ucast ((drop_bit 13 ip XOR pir) AND 0x3F))"

definition gw_has :: "nat \<Rightarrow> GpWay \<Rightarrow> bool" where
  "gw_has i w \<longleftrightarrow> i < length (gw_valid w) \<and> i < length (gw_tags w) \<and> i < length (gw_predictors w) \<and> i < length (gw_lru w)"

definition gp_checked :: "nat \<Rightarrow> GlobalPredictor \<Rightarrow> unit res" where
  "gp_checked i g = assertE (unat (gp_num_ways g) = length (gp_ways g) \<and> list_all (gw_has i) (gp_ways g)) OutOfRange"

definition gp_match :: "nat \<Rightarrow> UInt32 \<Rightarrow> GlobalPredictor \<Rightarrow> nat \<Rightarrow> bool" where
  "gp_match i tag g w \<longleftrightarrow> gw_valid (gp_ways g ! w) ! i \<and> ucast (gw_tags (gp_ways g ! w) ! i) = tag"

definition gp_scan :: "nat \<Rightarrow> UInt32 \<Rightarrow> GlobalPredictor \<Rightarrow> nat option \<times> nat" where
  "gp_scan i tag g = way_scan (gp_match i tag g) (\<lambda>w. gw_lru (gp_ways g ! w) ! i) [0..<unat (gp_num_ways g)] 0"

definition gp_predict :: "IntPtr \<Rightarrow> IntPtr \<Rightarrow> GlobalPredictor \<Rightarrow> bool res" where
  "gp_predict ip pir g =
     (let (i, tag) = gp_gen_index_tag ip pir in
      bindE (gp_checked i g) (\<lambda>_. Inr (fst (gp_scan i tag g) \<noteq> None)))"

definition gp_lookup :: "IntPtr \<Rightarrow> IntPtr \<Rightarrow> GlobalPredictor \<Rightarrow> BranchPredictorReturnValue res" where
  "gp_lookup ip pir g =
     (let (i, tag) = gp_gen_index_tag ip pir in
      bindE (gp_checked i g)
      (\<lambda>_. Inr (case fst (gp_scan i tag g) of None \<Rightarrow> no_prediction
                | Some w \<Rightarrow> no_prediction\<lparr>rv_hit := True, rv_prediction := sp_predict (gw_predictors (gp_ways g ! w) ! i)\<rparr>)))"

definition gp_update :: "bool \<Rightarrow> IntPtr \<Rightarrow> IntPtr \<Rightarrow> GlobalPredictor \<Rightarrow> GlobalPredictor res" where
  "gp_update actual ip pir g =
     (let (i, tag) = gp_gen_index_tag ip pir in
      bindE (gp_checked i g)
      (\<lambda>_. case gp_scan i tag g of
         (Some w, _) \<Rightarrow>
           (let y = gp_ways g ! w in
            Inr (g\<lparr>gp_ways := (gp_ways g)[w := y\<lparr>gw_predictors := (gw_predictors y)[i := sp_update 2 actual (gw_predictors y ! i)],
                                                gw_lru := (gw_lru y)[i := gp_lru_use_count g]\<rparr>],
                   gp_lru_use_count := gp_lru_use_count g + 1\<rparr>))
       | (None, w) \<Rightarrow>
           (let y = gp_ways g ! w in
            if w < length (gp_ways g)
            then Inr (g\<lparr>gp_ways := (gp_ways g)[w := y\<lparr>gw_valid := (gw_valid y)[i := True], gw_tags := (gw_tags y)[i := ucast tag],
                                                      gw_predictors := (gw_predictors y)[i := sp_reset 2 actual],
                                                      gw_lru := (gw_lru y)[i := gp_lru_use_count g]\<rparr>],
                        gp_lru_use_count := gp_lru_use_count g + 1\<rparr>)
            else Inl OutOfRange)))"

definition gp_evict :: "IntPtr \<Rightarrow> IntPtr \<Rightarrow> GlobalPredictor \<Rightarrow> GlobalPredictor res" where
  "gp_evict ip pir g =
     (let (i, tag) = gp_gen_index_tag ip pir in
      bindE (gp_checked i g)
      (\<lambda>_. case fst (gp_scan i tag g) of None \<Rightarrow> Inr g
       | Some w \<Rightarrow> Inr (g\<lparr>gp_ways := (gp_ways g)[w := (gp_ways g ! w)\<lparr>gw_valid := (gw_valid (gp_ways g ! w))[i := False]\<rparr>]\<rparr>)))"

section \<open>The branch target buffers\<close>

record BtbWay =
  bw_tag_offset :: "UInt32 list"
  bw_plru :: "UInt64 list"

record PentiumMBranchTargetBuffer =
  btb_ways :: "BtbWay list"
  btb_lru_use_count :: UInt64

definition NUM_WAYS :: nat where
  "NUM_WAYS = 4"

definition NUM_ENTRIES :: nat where
  "NUM_ENTRIES = 512"

definition mk_BtbWay :: BtbWay where
  "mk_BtbWay = \<lparr>bw_tag_offset = replicate NUM_ENTRIES 0, bw_plru = replicate NUM_ENTRIES 0\<rparr>"

definition mk_PentiumMBranchTargetBuffer :: PentiumMBranchTargetBuffer where
  "mk_PentiumMBranchTargetBuffer = \<lparr>btb_ways = replicate NUM_WAYS mk_BtbWay, btb_lru_use_count = 0\<rparr>"

definition IP_TO_INDEX :: "IntPtr \<Rightarrow> nat" where
  "IP_TO_INDEX ip = unat (ucast (drop_bit 4 ip AND 0x1ff) :: UInt32)"

definition IP_TO_TAGOFF :: "IntPtr \<Rightarrow> UInt32" where
  "IP_TO_TAGOFF ip = ucast (ip AND 0x3fe00f)"

definition btb_checked :: "nat \<Rightarrow> PentiumMBranchTargetBuffer \<Rightarrow> unit res" where
  "btb_checked i b = assertE (length (btb_ways b) = NUM_WAYS \<and>
     list_all (\<lambda>w. i < length (bw_tag_offset w) \<and> i < length (bw_plru w)) (btb_ways b)) OutOfRange"

definition btb_scan :: "nat \<Rightarrow> UInt32 \<Rightarrow> PentiumMBranchTargetBuffer \<Rightarrow> nat option \<times> nat" where
  "btb_scan i tag b = way_scan (\<lambda>w. bw_tag_offset (btb_ways b ! w) ! i = tag) (\<lambda>w. bw_plru (btb_ways b ! w) ! i) [0..<NUM_WAYS] 0"

definition btb_lookup :: "IntPtr \<Rightarrow> PentiumMBranchTargetBuffer \<Rightarrow> BranchPredictorReturnValue res" where
  "btb_lookup ip b =
     bindE (btb_checked (IP_TO_INDEX ip) b)
     (\<lambda>_. Inr (no_prediction\<lparr>rv_hit := fst (btb_scan (IP_TO_INDEX ip) (IP_TO_TAGOFF ip) b) \<noteq> None\<rparr>))"

definition btb_update :: "IntPtr \<Rightarrow> PentiumMBranchTargetBuffer \<Rightarrow> PentiumMBranchTargetBuffer res" where
  "btb_update ip b =
     (let i = IP_TO_INDEX ip in
      bindE (btb_checked i b)
      (\<lambda>_. case btb_scan i (IP_TO_TAGOFF ip) b of
         (Some w, _) \<Rightarrow>
           Inr (b\<lparr>btb_ways := (btb_ways b)[w := (btb_ways b ! w)\<lparr>bw_plru := (bw_plru (btb_ways b ! w))[i := btb_lru_use_count b]\<rparr>],
                  btb_lru_use_count := btb_lru_use_count b + 1\<rparr>)
       | (None, w) \<Rightarrow>
           Inr (b\<lparr>btb_ways := (btb_ways b)[w := (btb_ways b ! w)\<lparr>bw_tag_offset := (bw_tag_offset (btb_ways b ! w))[i := IP_TO_TAGOFF ip],
                                                             bw_plru := (bw_plru (btb_ways b ! w))[i := btb_lru_use_count b]\<rparr>],
                  btb_lru_use_count := btb_lru_use_count b + 1\<rparr>)))"

record IndirectBranchTargetBuffer =
  ib_num_entries :: UInt32
  ib_tag_bitwidth :: UInt32
  ib_table :: "UInt8 list"

definition mk_IndirectBranchTargetBuffer :: "UInt32 \<Rightarrow> UInt32 \<Rightarrow> IndirectBranchTargetBuffer res" where
  "mk_IndirectBranchTargetBuffer entries tag_bitwidth =
     bindE (assertE (tag_bitwidth \<le> 8) (AssertError ''tag_bitwidth <= 8 && tag_bitwidth >= 0''))
     (\<lambda>_. Inr \<lparr>ib_num_entries = entries, ib_tag_bitwidth = tag_bitwidth, ib_table = replicate (unat entries) 0\<rparr>)"

definition ib_gen_index_tag :: "IntPtr \<Rightarrow> nat \<times> UInt32" where
  "ib_gen_index_tag ip = (unat (ucast (drop_bit 6 ip AND 0xFF) :: UInt32), ucast (drop_bit 8 (ip AND 0x4000) OR ip AND 0x3F))"

definition ib_predict :: "IntPtr \<Rightarrow> IndirectBranchTargetBuffer \<Rightarrow> bool res" where
  "ib_predict ip b = (let (i, tag) = ib_gen_index_tag ip in
     if i < length (ib_table b) then Inr (ucast (ib_table b ! i) = tag) else Inl OutOfRange)"

definition ib_update :: "IntPtr \<Rightarrow> IndirectBranchTargetBuffer \<Rightarrow> IndirectBranchTargetBuffer res" where
  "ib_update ip b = (let (i, tag) = ib_gen_index_tag ip in
     if i < length (ib_table b) then Inr (b\<lparr>ib_table := (ib_table b)[i := ucast tag]\<rparr>) else Inl OutOfRange)"

definition mk_PentiumMIndirectBranchTargetBuffer :: "IndirectBranchTargetBuffer res" where
  "mk_PentiumMIndirectBranchTargetBuffer = mk_IndirectBranchTargetBuffer 256 7"

section \<open>The loop predictor\<close>

text \<open>The bytes of the last outcome and of the enabled flag hold only 0 and 1 and are truth values here.\<close>

record LpWay =
  lw_tags :: "UInt8 list"
  lw_previous_actual :: "bool list"
  lw_enabled :: "bool list"
  lw_predictors :: "SaturatingPredictor list"
  lw_lru :: "UInt64 list"
  lw_count :: "UInt32 list"
  lw_limit :: "UInt32 list"
  lw_num_entries :: UInt32
  lw_tag_bitwidth :: UInt32

record LoopBranchPredictor =
  lp_lru_use_count :: UInt64
  lp_num_ways :: UInt32
  lp_ways :: "LpWay list"

definition mk_LpWay :: "UInt32 \<Rightarrow> UInt32 \<Rightarrow> LpWay res" where
  "mk_LpWay entries tag_bitwidth =
     bindE (assertE (tag_bitwidth \<le> 8) (AssertError ''tag_bitwidth <= 8''))
     (\<lambda>_. Inr \<lparr>lw_tags = replicate (unat entries) 0, lw_previous_actual = replicate (unat entries) False,
               lw_enabled = replicate (unat entries) False, lw_predictors = replicate (unat entries) 0,
               lw_lru = replicate (unat entries) 0, lw_count = replicate (unat entries) 0, lw_limit = replicate (unat entries) 0,
               lw_num_entries = entries, lw_tag_bitwidth = tag_bitwidth\<rparr>)"

definition mk_LoopBranchPredictor :: "UInt32 \<Rightarrow> UInt32 \<Rightarrow> UInt32 \<Rightarrow> LoopBranchPredictor res" where
  "mk_LoopBranchPredictor entries tag_bitwidth ways =
     (if ways = 0 then Inl DivByZero
      else bindE (mk_LpWay (entries div ways) tag_bitwidth)
        (\<lambda>w. Inr \<lparr>lp_lru_use_count = 0, lp_num_ways = ways, lp_ways = replicate (unat ways) w\<rparr>))"

definition mk_PentiumMLoopBranchPredictor :: "LoopBranchPredictor res" where
  "mk_PentiumMLoopBranchPredictor = mk_LoopBranchPredictor 128 6 2"

definition lp_gen_index_tag :: "IntPtr \<Rightarrow> nat \<times> UInt32" where
  "lp_gen_index_tag ip = (unat (ucast (drop_bit 4 ip AND 0x3F) :: UInt32), ucast (drop_bit 10 ip AND 0x3F))"

definition lw_has :: "nat \<Rightarrow> LpWay \<Rightarrow> bool" where
  "lw_has i w \<longleftrightarrow> i < length (lw_tags w) \<and> i < length (lw_previous_actual w) \<and> i < length (lw_enabled w) \<and>
     i < length (lw_predictors w) \<and> i < length (lw_lru w) \<and> i < length (lw_count w) \<and> i < length (lw_limit w)"

definition lp_checked :: "nat \<Rightarrow> LoopBranchPredictor \<Rightarrow> unit res" where
  "lp_checked i l = assertE (unat (lp_num_ways l) = length (lp_ways l) \<and> list_all (lw_has i) (lp_ways l)) OutOfRange"

definition lp_tag :: "nat \<Rightarrow> UInt32 \<Rightarrow> LoopBranchPredictor \<Rightarrow> nat \<Rightarrow> bool" where
  "lp_tag i tag l w \<longleftrightarrow> ucast (lw_tags (lp_ways l ! w) ! i) = tag"

definition lp_lru :: "nat \<Rightarrow> LoopBranchPredictor \<Rightarrow> nat \<Rightarrow> UInt64" where
  "lp_lru i l w = lw_lru (lp_ways l ! w) ! i"

definition lp_lookup :: "IntPtr \<Rightarrow> LoopBranchPredictor \<Rightarrow> (BranchPredictorReturnValue \<times> LoopBranchPredictor) res" where
  "lp_lookup ip l =
     (let (i, tag) = lp_gen_index_tag ip in
      bindE (lp_checked i l)
      (\<lambda>_. case fst (way_scan (\<lambda>w. lw_enabled (lp_ways l ! w) ! i \<and> lp_tag i tag l w) (lp_lru i l) [0..<unat (lp_num_ways l)] 0) of
         None \<Rightarrow> Inr (no_prediction, l)
       | Some w \<Rightarrow>
           (let y = lp_ways l ! w; p = sp_predict (lw_predictors y ! i) in
            Inr (no_prediction\<lparr>rv_hit := True, rv_prediction := (if lw_count y ! i = lw_limit y ! i then \<not> p else p)\<rparr>,
                 l\<lparr>lp_ways := (lp_ways l)[w := y\<lparr>lw_lru := (lw_lru y)[i := lp_lru_use_count l]\<rparr>],
                   lp_lru_use_count := lp_lru_use_count l + 1\<rparr>))))"

definition prediction_match :: "bool \<Rightarrow> UInt32 \<Rightarrow> UInt32 \<Rightarrow> bool \<Rightarrow> bool" where
  "prediction_match prediction count limit actual \<longleftrightarrow> (if count = limit then prediction \<noteq> actual else prediction = actual)"

text \<open>The next count, limit and enabled flag as long as the direction of the loop stays the same.\<close>

definition same_direction :: "bool \<Rightarrow> UInt32 \<Rightarrow> UInt32 \<Rightarrow> bool \<Rightarrow> UInt32 \<times> UInt32 \<times> bool" where
  "same_direction match counter limit enabled =
     (if \<not> match
      then (if counter < limit then (0, counter, enabled) else (counter + 1, counter + 1, False))
      else ((if counter = limit then 0 else counter + 1), limit, enabled))"

text \<open>The next count, limit, enabled flag and predictor of an entry that the branch matches.\<close>

definition loop_step ::
  "bool \<Rightarrow> bool \<Rightarrow> UInt32 \<Rightarrow> UInt32 \<Rightarrow> bool \<Rightarrow> SaturatingPredictor \<Rightarrow> UInt32 \<times> UInt32 \<times> bool \<times> SaturatingPredictor" where
  "loop_step actual previous_actual counter limit enabled p =
     (let current_prediction = sp_predict p;
          (same_counter, same_limit, same_enabled) = same_direction (prediction_match current_prediction counter limit actual) counter limit enabled
      in if previous_actual = actual \<and> actual = (\<not> current_prediction) then (1, 1, False, sp_update 1 actual p)
         else if previous_actual \<noteq> actual \<and> actual = (\<not> current_prediction)
         then (if \<not> enabled then (0, limit, True, p) else (same_counter, same_limit, same_enabled, p))
         else (same_counter, same_limit, same_enabled, p))"

definition lp_update :: "bool \<Rightarrow> IntPtr \<Rightarrow> LoopBranchPredictor \<Rightarrow> LoopBranchPredictor res" where
  "lp_update actual ip l =
     (let (i, tag) = lp_gen_index_tag ip in
      bindE (lp_checked i l)
      (\<lambda>_. case way_scan (lp_tag i tag l) (lp_lru i l) [0..<unat (lp_num_ways l)] 0 of
         (Some w, _) \<Rightarrow>
           (let y = lp_ways l ! w;
                (counter, limit, enabled, p) =
                  loop_step actual (lw_previous_actual y ! i) (lw_count y ! i) (lw_limit y ! i) (lw_enabled y ! i) (lw_predictors y ! i)
            in Inr (l\<lparr>lp_ways := (lp_ways l)[w := y\<lparr>lw_count := (lw_count y)[i := counter], lw_limit := (lw_limit y)[i := limit],
                        lw_enabled := (lw_enabled y)[i := enabled], lw_predictors := (lw_predictors y)[i := p],
                        lw_previous_actual := (lw_previous_actual y)[i := actual], lw_lru := (lw_lru y)[i := lp_lru_use_count l]\<rparr>],
                      lp_lru_use_count := lp_lru_use_count l + 1\<rparr>))
       | (None, w) \<Rightarrow>
           (let y = lp_ways l ! w in
            if w < length (lp_ways l)
            then Inr (l\<lparr>lp_ways := (lp_ways l)[w := y\<lparr>lw_tags := (lw_tags y)[i := ucast tag],
                        lw_predictors := (lw_predictors y)[i := sp_reset 1 actual],
                        lw_previous_actual := (lw_previous_actual y)[i := actual], lw_lru := (lw_lru y)[i := lp_lru_use_count l],
                        lw_count := (lw_count y)[i := 1], lw_limit := (lw_limit y)[i := 1]\<rparr>],
                      lp_lru_use_count := lp_lru_use_count l + 1\<rparr>)
            else Inl OutOfRange)))"

section \<open>The predictor of the Pentium M\<close>

record PentiumMBranchPredictor = BranchPredictor +
  pm_global_predictor :: GlobalPredictor
  pm_btb :: PentiumMBranchTargetBuffer
  pm_bimodal_table :: SimpleBimodalTable
  pm_lpb :: LoopBranchPredictor
  pm_pir :: IntPtr
  pm_last_gp_hit :: bool
  pm_last_bm_pred :: bool
  pm_last_lpb_hit :: bool

text \<open>The last bimodal prediction is not initialised.\<close>

definition mk_PentiumMBranchPredictor :: "bool \<Rightarrow> PentiumMBranchPredictor res" where
  "mk_PentiumMBranchPredictor fresh =
     bindE mk_PentiumMGlobalPredictor (\<lambda>g. bindE mk_PentiumMBimodalTable (\<lambda>t. bindE mk_PentiumMLoopBranchPredictor (\<lambda>l.
     Inr \<lparr>m_correct_predictions = 0, m_incorrect_predictions = 0, pm_global_predictor = g, pm_btb = mk_PentiumMBranchTargetBuffer,
          pm_bimodal_table = t, pm_lpb = l, pm_pir = 0, pm_last_gp_hit = False, pm_last_bm_pred = fresh, pm_last_lpb_hit = False\<rparr>)))"

definition pm_predict :: "IntPtr \<Rightarrow> IntPtr \<Rightarrow> PentiumMBranchPredictor \<Rightarrow> (bool \<times> PentiumMBranchPredictor) res" where
  "pm_predict ip target b =
     bindE (gp_lookup ip (pm_pir b) (pm_global_predictor b)) (\<lambda>global_pred_out.
     bindE (btb_lookup ip (pm_btb b)) (\<lambda>btb_out.
     bindE (lp_lookup ip (pm_lpb b)) (\<lambda>(lpb_out, l).
     bindE (bt_predict ip (pm_bimodal_table b)) (\<lambda>bimodal_out.
     Inr (if rv_hit global_pred_out then rv_prediction global_pred_out
          else if rv_hit lpb_out \<and> rv_hit btb_out then rv_prediction lpb_out
          else bimodal_out,
          b\<lparr>pm_lpb := l, pm_last_gp_hit := rv_hit global_pred_out, pm_last_bm_pred := bimodal_out,
            pm_last_lpb_hit := rv_hit lpb_out \<and> rv_hit btb_out\<rparr>)))))"

definition update_pir :: "bool \<Rightarrow> IntPtr \<Rightarrow> IntPtr \<Rightarrow> BranchType \<Rightarrow> PentiumMBranchPredictor \<Rightarrow> PentiumMBranchPredictor" where
  "update_pir actual ip target branch_type b =
     (if branch_type = ConditionalBranch \<and> actual then b\<lparr>pm_pir := (push_bit 2 (pm_pir b) XOR drop_bit 4 ip) AND 0x7fff\<rparr>
      else if branch_type = IndirectBranch then b\<lparr>pm_pir := (push_bit 2 (pm_pir b) XOR (drop_bit 4 ip OR target)) AND 0x7fff\<rparr>
      else b)"

definition pm_update :: "bool \<Rightarrow> bool \<Rightarrow> IntPtr \<Rightarrow> IntPtr \<Rightarrow> PentiumMBranchPredictor \<Rightarrow> PentiumMBranchPredictor res" where
  "pm_update predicted actual ip target b =
     (let b = bp_updateCounters predicted actual b in
      bindE (btb_update ip (pm_btb b)) (\<lambda>btb.
      bindE (lp_update actual ip (pm_lpb b)) (\<lambda>l.
      bindE (if \<not> pm_last_gp_hit b \<and> \<not> pm_last_lpb_hit b then bt_update actual ip (pm_bimodal_table b) else Inr (pm_bimodal_table b)) (\<lambda>t.
      let lpb_or_bm_hit = pm_last_lpb_hit b \<or> pm_last_bm_pred b = actual; g = pm_global_predictor b in
      bindE (if pm_last_gp_hit b
             then (if predicted \<noteq> actual \<and> lpb_or_bm_hit then gp_evict ip (pm_pir b) g else gp_update actual ip (pm_pir b) g)
             else if predicted \<noteq> actual \<and> (pm_last_gp_hit b \<or> \<not> lpb_or_bm_hit) then gp_update actual ip (pm_pir b) g
             else Inr g) (\<lambda>g.
      Inr (update_pir actual ip target ConditionalBranch
             (b\<lparr>pm_btb := btb, pm_lpb := l, pm_bimodal_table := t, pm_global_predictor := g\<rparr>)))))))"

section \<open>The predictor of a core\<close>

datatype predictor_t = OneBit OneBitBranchPredictor | PentiumM PentiumMBranchPredictor

definition BranchPredictor_create :: "string \<Rightarrow> UInt32 \<Rightarrow> bool \<Rightarrow> predictor_t option res" where
  "BranchPredictor_create type n fresh =
     (if type = ''none'' then Inr None
      else if type = ''one_bit'' then Inr (Some (OneBit (mk_OneBitBranchPredictor n)))
      else if type = ''pentium_m'' then bindE (mk_PentiumMBranchPredictor fresh) (\<lambda>b. Inr (Some (PentiumM b)))
      else Inl (LogError ''Invalid branch predictor type.''))"

fun bp_predict :: "IntPtr \<Rightarrow> IntPtr \<Rightarrow> predictor_t \<Rightarrow> (bool \<times> predictor_t) res" where
  "bp_predict ip target (OneBit b) = bindE (one_bit_predict ip target b) (\<lambda>(p, b). Inr (p, OneBit b))"
| "bp_predict ip target (PentiumM b) = bindE (pm_predict ip target b) (\<lambda>(p, b). Inr (p, PentiumM b))"

fun bp_update :: "bool \<Rightarrow> bool \<Rightarrow> IntPtr \<Rightarrow> IntPtr \<Rightarrow> predictor_t \<Rightarrow> predictor_t res" where
  "bp_update predicted actual ip target (OneBit b) = bindE (one_bit_update predicted actual ip target b) (\<lambda>b. Inr (OneBit b))"
| "bp_update predicted actual ip target (PentiumM b) = bindE (pm_update predicted actual ip target b) (\<lambda>b. Inr (PentiumM b))"

definition accessBranchPredictor :: "IntPtr \<Rightarrow> bool \<Rightarrow> IntPtr \<Rightarrow> predictor_t option \<Rightarrow> (bool \<times> predictor_t option) res" where
  "accessBranchPredictor eip taken target bp =
     (case bp of None \<Rightarrow> Inr (False, None)
      | Some b \<Rightarrow> bindE (bp_predict eip target b) (\<lambda>(prediction, b).
          bindE (bp_update prediction taken eip target b) (\<lambda>b. Inr (prediction \<noteq> taken, Some b))))"

definition getBranchCost :: "UInt64 \<Rightarrow> UInt64 \<Rightarrow> IntPtr \<Rightarrow> bool \<Rightarrow> IntPtr \<Rightarrow> predictor_t option \<Rightarrow> (UInt64 \<times> bool \<times> predictor_t option) res" where
  "getBranchCost period m_mispredict_penalty eip taken target bp =
     bindE (accessBranchPredictor eip taken target bp)
     (\<lambda>(is_mispredict, bp). Inr (period * (if is_mispredict then m_mispredict_penalty else 1), is_mispredict, bp))"

end
