(* ===== verification/LS_Branch_Run.thy ===== *)
theory LS_Branch_Run
  imports LS_Branch
begin

unbundle bit_operations_syntax

text \<open>
  The predictors never leave their tables, they count what they predicted, the counters saturate, and the loop predictor learns the
  length of a loop in one run of it.
\<close>

section \<open>Saturating counters\<close>

lemma Pow2_eq: "Pow2 n = 2 ^ n"
  by (induction n) auto

definition sp_inv :: "nat \<Rightarrow> SaturatingPredictor \<Rightarrow> bool" where
  "sp_inv n c \<longleftrightarrow> - Pow2 (n - 1) \<le> sint c \<and> sint c \<le> Pow2 (n - 1) - 1"

text \<open>The counter that the byte stands for: one step towards the outcome, within the range of \<open>n\<close> bits.\<close>

definition counter_step :: "nat \<Rightarrow> bool \<Rightarrow> int \<Rightarrow> int" where
  "counter_step n actual c = (if actual then min (c + 1) (2 ^ (n - 1) - 1) else max (c - 1) (- (2 ^ (n - 1))))"

lemma Pow2_byte:
  assumes "0 < n" and "n \<le> 8"
  shows "1 \<le> Pow2 (n - 1)" and "Pow2 (n - 1) \<le> 128"
proof -
  have "(2 :: int) ^ (n - 1) \<le> 2 ^ 7" using assms by (intro power_increasing) auto
  then show "Pow2 (n - 1) \<le> 128" by (simp add: Pow2_eq)
  show "1 \<le> Pow2 (n - 1)" by (simp add: Pow2_eq)
qed

lemma sint_byte_inc: "sint c < 127 \<Longrightarrow> sint (c + 1) = sint c + 1" for c :: UInt8
  using sint_greater_eq [of c] by (simp add: sint_word_ariths signed_take_bit_int_eq_self)

lemma sint_byte_dec: "-128 < sint c \<Longrightarrow> sint (c - 1) = sint c - 1" for c :: UInt8
  using sint_less [of c] by (simp add: sint_word_ariths signed_take_bit_int_eq_self)

lemma sp_update_step:
  assumes "sp_inv n c" and "0 < n" and "n \<le> 8"
  shows "sint (sp_update n actual c) = counter_step n actual (sint c)" and "sp_inv n (sp_update n actual c)"
proof -
  note P = Pow2_byte [OF assms(2,3)]
  have inc: "sint (sp_inc n c) = min (sint c + 1) (Pow2 (n - 1) - 1)"
    using assms(1) P sint_byte_inc [of c] by (auto simp: sp_inc_def sp_inv_def)
  have dec: "sint (sp_dec n c) = max (sint c - 1) (- Pow2 (n - 1))"
    using assms(1) P sint_byte_dec [of c] by (auto simp: sp_dec_def sp_inv_def)
  show "sint (sp_update n actual c) = counter_step n actual (sint c)"
    using inc dec by (simp add: sp_update_def counter_step_def Pow2_eq)
  show "sp_inv n (sp_update n actual c)" using inc dec assms(1) P unfolding sp_update_def sp_inv_def by (cases actual) auto
qed

lemma sp_reset_facts:
  assumes "0 < n" and "n \<le> 8"
  shows "sint (sp_reset n p) = (if p then Pow2 (n - 1) - 1 else - Pow2 (n - 1))"
proof -
  have "sint (word_of_int k :: UInt8) = k" if "-128 \<le> k" "k < 128" for k
    using that sint_sbintrunc' [of k, where 'a = 8] by (simp add: signed_take_bit_int_eq_self)
  from this [of "Pow2 (n - 1) - 1"] this [of "- Pow2 (n - 1)"] show ?thesis
    using Pow2_byte [OF assms] unfolding sp_reset_def by (cases p) (simp_all only: if_True if_False)
qed

lemma sp_predict_reset [simp]: "sp_predict (sp_reset 1 p) = p" "sp_predict (sp_reset 2 p) = p"
  using sp_reset_facts [of 1 p] sp_reset_facts [of 2 p] by (auto simp: sp_predict_def)

section \<open>The search through the ways\<close>

lemma way_scan_Some:
  "way_scan match lru ws b = (Some w, b') \<Longrightarrow> w \<in> set ws \<and> match w"
  by (induction ws arbitrary: b) (auto split: if_splits)

lemma way_scan_None:
  "way_scan match lru ws b = (None, w) \<Longrightarrow>
     (\<forall>v \<in> set ws. \<not> match v) \<and> w \<in> insert b (set ws) \<and> (\<forall>v \<in> insert b (set ws). lru w \<le> lru v)"
proof (induction ws arbitrary: b)
  case Nil
  then show ?case by simp
next
  case (Cons v ws)
  define b' where "b' = (if lru v < lru b then v else b)"
  have "\<not> match v" and "way_scan match lru ws b' = (None, w)" using Cons.prems by (auto simp: b'_def split: if_splits)
  moreover have "lru b' \<le> lru v" "lru b' \<le> lru b" "b' = v \<or> b' = b" by (auto simp: b'_def)
  ultimately show ?case using Cons.IH [of b'] by (auto intro: order_trans)
qed

lemma way_scan_unique:
  assumes "w \<in> set ws" and "match w" and "\<And>v. v \<in> set ws \<Longrightarrow> match v \<Longrightarrow> v = w"
  shows "fst (way_scan match lru ws b) = Some w"
  using assms(1,3)
proof (induction ws arbitrary: b)
  case (Cons v ws)
  show ?case
  proof (cases "match v")
    case True
    then have "v = w" using Cons.prems(2) [of v] by simp
    then show ?thesis using True by simp
  next
    case False
    then have "w \<in> set ws" using Cons.prems(1) assms(2) by auto
    then show ?thesis using False Cons.IH Cons.prems(2) by simp
  qed
qed simp

lemma way_scan_nothing: "(\<And>v. v \<in> set ws \<Longrightarrow> \<not> match v) \<Longrightarrow> fst (way_scan match lru ws b) = None"
  by (induction ws arbitrary: b) auto

section \<open>The tables are large enough\<close>

lemma masked_index: "unat (ucast (x AND m) :: UInt32) \<le> unat m" for x m :: IntPtr
proof -
  have "unat (ucast (x AND m) :: UInt32) \<le> unat (x AND m)" by (simp add: unsigned_ucast_eq)
  also have "\<dots> \<le> unat m" using word_and_le1 [of x m] by (simp add: word_le_nat_alt)
  finally show ?thesis .
qed

lemma gp_index: "gp_gen_index_tag ip pir = (i, tag) \<Longrightarrow> i < 512"
  using masked_index [of "drop_bit 4 ip XOR drop_bit 6 pir" "0x1FF"] by (auto simp: gp_gen_index_tag_def)

lemma btb_index: "IP_TO_INDEX ip < 512"
  using masked_index [of "drop_bit 4 ip" "0x1FF"] by (simp add: IP_TO_INDEX_def)

lemma lp_index: "lp_gen_index_tag ip = (i, tag) \<Longrightarrow> i < 64"
  using masked_index [of "drop_bit 4 ip" "0x3F"] by (auto simp: lp_gen_index_tag_def)

definition gw_wf :: "GpWay \<Rightarrow> bool" where
  "gw_wf w \<longleftrightarrow> length (gw_valid w) = 512 \<and> length (gw_tags w) = 512 \<and> length (gw_predictors w) = 512 \<and> length (gw_lru w) = 512"

definition gp_wf :: "GlobalPredictor \<Rightarrow> bool" where
  "gp_wf g \<longleftrightarrow> gp_num_ways g = 4 \<and> length (gp_ways g) = 4 \<and> (\<forall>w \<in> set (gp_ways g). gw_wf w)"

definition bw_wf :: "BtbWay \<Rightarrow> bool" where
  "bw_wf w \<longleftrightarrow> length (bw_tag_offset w) = 512 \<and> length (bw_plru w) = 512"

definition btb_wf :: "PentiumMBranchTargetBuffer \<Rightarrow> bool" where
  "btb_wf b \<longleftrightarrow> length (btb_ways b) = 4 \<and> (\<forall>w \<in> set (btb_ways b). bw_wf w)"

definition bt_wf :: "SimpleBimodalTable \<Rightarrow> bool" where
  "bt_wf t \<longleftrightarrow> bt_mask t = 0xFFF \<and> length (bt_table t) = 4096 \<and> (\<forall>c \<in> set (bt_table t). sp_inv 2 c)"

definition lw_wf :: "LpWay \<Rightarrow> bool" where
  "lw_wf w \<longleftrightarrow> length (lw_tags w) = 64 \<and> length (lw_previous_actual w) = 64 \<and> length (lw_enabled w) = 64 \<and>
     length (lw_predictors w) = 64 \<and> length (lw_lru w) = 64 \<and> length (lw_count w) = 64 \<and> length (lw_limit w) = 64"

definition lp_wf :: "LoopBranchPredictor \<Rightarrow> bool" where
  "lp_wf l \<longleftrightarrow> lp_num_ways l = 2 \<and> length (lp_ways l) = 2 \<and> (\<forall>w \<in> set (lp_ways l). lw_wf w)"

lemma all_list_update: "(\<forall>x \<in> set xs. P x) \<Longrightarrow> P y \<Longrightarrow> \<forall>x \<in> set (xs[i := y]). P x"
  using set_update_subset_insert [of xs i y] by blast

lemma gp_checked_wf: "gp_wf g \<Longrightarrow> i < 512 \<Longrightarrow> gp_checked i g = Inr ()"
  by (auto simp: gp_checked_def gp_wf_def gw_wf_def gw_has_def list_all_iff assertE_def)

lemma lp_checked_wf: "lp_wf l \<Longrightarrow> i < 64 \<Longrightarrow> lp_checked i l = Inr ()"
  by (auto simp: lp_checked_def lp_wf_def lw_wf_def lw_has_def list_all_iff assertE_def)

lemma btb_checked_wf: "btb_wf b \<Longrightarrow> btb_checked (IP_TO_INDEX ip) b = Inr ()"
  using btb_index [of ip] by (auto simp: btb_checked_def btb_wf_def bw_wf_def list_all_iff assertE_def NUM_WAYS_def)

lemma gp_wf_way: "gp_wf g \<Longrightarrow> w < 4 \<Longrightarrow> gw_wf (gp_ways g ! w)"
  by (simp add: gp_wf_def)

lemma gp_wf_put:
  assumes "gp_wf g" and "gw_wf y"
  shows "gp_wf (g\<lparr>gp_ways := (gp_ways g)[w := y]\<rparr>)" and "gp_wf (g\<lparr>gp_ways := (gp_ways g)[w := y], gp_lru_use_count := n\<rparr>)"
  using assms all_list_update [of "gp_ways g" gw_wf y w] by (simp_all add: gp_wf_def)

lemma gp_length: "gp_wf g \<Longrightarrow> length (gp_ways g) = 4"
  by (simp add: gp_wf_def)

lemma lp_wf_way: "lp_wf l \<Longrightarrow> w < 2 \<Longrightarrow> lw_wf (lp_ways l ! w)"
  by (simp add: lp_wf_def)

lemma gp_scan_way:
  assumes "gp_wf g" and "gp_scan i tag g = (r, b)"
  shows "case r of None \<Rightarrow> b < 4 | Some w \<Rightarrow> w < 4"
proof (cases r)
  case None
  then have "b \<in> insert 0 (set [0..<4])" using assms way_scan_None unfolding gp_scan_def gp_wf_def by fastforce
  then show ?thesis using None by auto
next
  case (Some w)
  then have "w \<in> set [0..<4]" using assms way_scan_Some unfolding gp_scan_def gp_wf_def by fastforce
  then show ?thesis using Some by simp
qed

lemma gp_lookup_ok: "gp_wf g \<Longrightarrow> \<exists>r. gp_lookup ip pir g = Inr r"
  using gp_index [of ip pir] gp_checked_wf [of g] by (auto simp: gp_lookup_def split: prod.split)

lemma gp_update_ok:
  assumes "gp_wf g"
  shows "\<exists>g'. gp_update actual ip pir g = Inr g' \<and> gp_wf g'"
proof -
  obtain i tag where it: "gp_gen_index_tag ip pir = (i, tag)" by fastforce
  obtain r b where scan: "gp_scan i tag g = (r, b)" by fastforce
  note run = gp_update_def it scan gp_checked_wf [OF assms gp_index [OF it]] gp_length [OF assms]
  show ?thesis
  proof (cases r)
    case None
    then have b: "b < 4" using gp_scan_way [OF assms scan] by simp
    then show ?thesis using None gp_wf_way [OF assms b] by (simp add: run Let_def gp_wf_put [OF assms] gw_wf_def)
  next
    case (Some w)
    then have w: "w < 4" using gp_scan_way [OF assms scan] by simp
    then show ?thesis using Some gp_wf_way [OF assms w] by (simp add: run Let_def gp_wf_put [OF assms] gw_wf_def)
  qed
qed

lemma gp_evict_ok:
  assumes "gp_wf g"
  shows "\<exists>g'. gp_evict ip pir g = Inr g' \<and> gp_wf g'"
proof -
  obtain i tag where it: "gp_gen_index_tag ip pir = (i, tag)" by fastforce
  obtain r b where scan: "gp_scan i tag g = (r, b)" by fastforce
  note run = gp_evict_def it scan gp_checked_wf [OF assms gp_index [OF it]]
  show ?thesis
  proof (cases r)
    case None
    then show ?thesis using assms by (simp add: run)
  next
    case (Some w)
    then have w: "w < 4" using gp_scan_way [OF assms scan] by simp
    then show ?thesis using Some gp_wf_way [OF assms w] by (simp add: run gp_wf_put [OF assms] gw_wf_def)
  qed
qed

lemma btb_update_ok:
  assumes "btb_wf b"
  shows "\<exists>b'. btb_update ip b = Inr b' \<and> btb_wf b'"
proof -
  let ?i = "IP_TO_INDEX ip" and ?tag = "IP_TO_TAGOFF ip"
  obtain r v where scan: "btb_scan ?i ?tag b = (r, v)" by fastforce
  have put: "btb_wf (b\<lparr>btb_ways := (btb_ways b)[w := y], btb_lru_use_count := n\<rparr>)" if "bw_wf y" for w y n
    using assms that all_list_update [of "btb_ways b" bw_wf y w] by (simp add: btb_wf_def)
  have way: "bw_wf (btb_ways b ! w)" if "w < 4" for w using assms that by (simp add: btb_wf_def)
  show ?thesis
  proof (cases r)
    case None
    then have "v \<in> insert 0 (set [0..<NUM_WAYS])" using way_scan_None [OF scan [unfolded btb_scan_def None]] by blast
    then have v: "v < 4" by (auto simp: NUM_WAYS_def)
    then show ?thesis using None way [OF v] by (simp add: btb_update_def btb_checked_wf [OF assms] scan put bw_wf_def Let_def)
  next
    case (Some w)
    then have "w \<in> set [0..<NUM_WAYS]" using way_scan_Some [OF scan [unfolded btb_scan_def Some]] by blast
    then have w: "w < 4" by (simp add: NUM_WAYS_def)
    then show ?thesis using Some way [OF w] by (simp add: btb_update_def btb_checked_wf [OF assms] scan put bw_wf_def Let_def)
  qed
qed

lemma bt_index_ok: "bt_wf t \<Longrightarrow> \<exists>i. bt_index ip t = Inr i \<and> i < 4096"
  using masked_index [of ip "0xFFF"] by (simp add: bt_index_def bt_wf_def Let_def)

lemma bt_update_ok:
  assumes "bt_wf t"
  shows "\<exists>t'. bt_update actual ip t = Inr t' \<and> bt_wf t'"
proof -
  obtain i where i: "bt_index ip t = Inr i" "i < 4096" using bt_index_ok [OF assms] by blast
  then have "sp_inv 2 (bt_table t ! i)" using assms by (simp add: bt_wf_def)
  then have "sp_inv 2 (if actual then sp_inc 2 (bt_table t ! i) else sp_dec 2 (bt_table t ! i))"
    using sp_update_step(2) [of 2 "bt_table t ! i" actual] by (simp add: sp_update_def)
  then show ?thesis using assms all_list_update [of "bt_table t" "sp_inv 2"] by (simp add: bt_update_def i bt_wf_def)
qed

lemma lp_wf_put:
  assumes "lp_wf l" and "lw_wf y"
  shows "lp_wf (l\<lparr>lp_ways := (lp_ways l)[w := y], lp_lru_use_count := n\<rparr>)"
  using assms all_list_update [of "lp_ways l" lw_wf y w] by (simp add: lp_wf_def)

lemma lp_scan_way:
  assumes "way_scan match lru [0..<2] 0 = (r, b)"
  shows "case r of None \<Rightarrow> b < 2 | Some w \<Rightarrow> w < 2"
proof (cases r)
  case None
  then have "b \<in> insert 0 (set [0..<2])" using assms way_scan_None by fastforce
  then show ?thesis using None by auto
next
  case (Some w)
  then have "w \<in> set [0..<2]" using assms way_scan_Some by fastforce
  then show ?thesis using Some by simp
qed

lemma lp_ways_facts: "lp_wf l \<Longrightarrow> unat (lp_num_ways l) = 2" "lp_wf l \<Longrightarrow> length (lp_ways l) = 2"
  by (simp_all add: lp_wf_def)

lemma lp_lookup_ok:
  assumes "lp_wf l"
  shows "\<exists>r l'. lp_lookup ip l = Inr (r, l') \<and> lp_wf l'"
proof -
  obtain i tag where it: "lp_gen_index_tag ip = (i, tag)" by fastforce
  obtain r b where scan: "way_scan (\<lambda>w. lw_enabled (lp_ways l ! w) ! i \<and> lp_tag i tag l w) (lp_lru i l) [0..<2] 0 = (r, b)" by fastforce
  note run = lp_lookup_def it scan lp_checked_wf [OF assms lp_index [OF it]] lp_ways_facts [OF assms]
  show ?thesis
  proof (cases r)
    case None
    then show ?thesis using assms by (simp add: run)
  next
    case (Some w)
    then have "lw_wf (lp_ways l ! w)" using lp_scan_way [OF scan] lp_wf_way [OF assms] by simp
    then show ?thesis using Some by (simp add: run Let_def lp_wf_put [OF assms] lw_wf_def)
  qed
qed

lemma lp_update_ok:
  assumes "lp_wf l"
  shows "\<exists>l'. lp_update actual ip l = Inr l' \<and> lp_wf l'"
proof -
  obtain i tag where it: "lp_gen_index_tag ip = (i, tag)" by fastforce
  obtain r b where scan: "way_scan (lp_tag i tag l) (lp_lru i l) [0..<2] 0 = (r, b)" by fastforce
  note run = lp_update_def it scan lp_checked_wf [OF assms lp_index [OF it]] lp_ways_facts [OF assms]
  show ?thesis
  proof (cases r)
    case None
    then have b: "b < 2" using lp_scan_way [OF scan] by simp
    then have "lw_wf (lp_ways l ! b)" using lp_wf_way [OF assms] by simp
    then show ?thesis using None b by (simp add: run Let_def lp_wf_put [OF assms] lw_wf_def)
  next
    case (Some w)
    then have "lw_wf (lp_ways l ! w)" using lp_scan_way [OF scan] lp_wf_way [OF assms] by simp
    then show ?thesis using Some by (simp add: run Let_def lp_wf_put [OF assms] lw_wf_def split: prod.split)
  qed
qed

section \<open>A predictor never fails and counts its predictions\<close>

text \<open>A sequence of branches: the address, whether it is taken, its target. The result lists the mispredictions.\<close>

fun branch_run :: "(IntPtr \<Rightarrow> IntPtr \<Rightarrow> 's \<Rightarrow> (bool \<times> 's) res) \<Rightarrow> (bool \<Rightarrow> bool \<Rightarrow> IntPtr \<Rightarrow> IntPtr \<Rightarrow> 's \<Rightarrow> 's res) \<Rightarrow>
    (IntPtr \<times> bool \<times> IntPtr) list \<Rightarrow> 's \<Rightarrow> (bool list \<times> 's) res" where
  "branch_run predict update [] b = Inr ([], b)"
| "branch_run predict update ((ip, taken, target) # bs) b =
     bindE (predict ip target b) (\<lambda>(p, b). bindE (update p taken ip target b) (\<lambda>b.
     bindE (branch_run predict update bs b) (\<lambda>(ms, b). Inr ((p \<noteq> taken) # ms, b))))"

definition count_prediction :: "bool \<Rightarrow> UInt64 \<times> UInt64 \<Rightarrow> UInt64 \<times> UInt64" where
  "count_prediction mispredicted c = (if mispredicted then (fst c, snd c + 1) else (fst c + 1, snd c))"

locale branch_predictor =
  fixes inv :: "'s \<Rightarrow> bool" and counters :: "'s \<Rightarrow> UInt64 \<times> UInt64"
    and predict :: "IntPtr \<Rightarrow> IntPtr \<Rightarrow> 's \<Rightarrow> (bool \<times> 's) res" and update :: "bool \<Rightarrow> bool \<Rightarrow> IntPtr \<Rightarrow> IntPtr \<Rightarrow> 's \<Rightarrow> 's res"
  assumes predict_ok: "inv b \<Longrightarrow> \<exists>p b'. predict ip target b = Inr (p, b') \<and> inv b' \<and> counters b' = counters b"
    and update_ok: "inv b \<Longrightarrow> \<exists>b'. update p taken ip target b = Inr b' \<and> inv b' \<and> counters b' = count_prediction (p \<noteq> taken) (counters b)"
begin

lemma run_counts:
  assumes "inv b"
  shows "\<exists>ms b'. branch_run predict update bs b = Inr (ms, b') \<and> inv b' \<and> length ms = length bs \<and>
    counters b' = (fst (counters b) + of_nat (length (filter Not ms)), snd (counters b) + of_nat (length (filter (\<lambda>m. m) ms)))"
  using assms
proof (induction bs arbitrary: b)
  case Nil
  then show ?case by simp
next
  case (Cons x bs)
  obtain ip taken target where x: "x = (ip, taken, target)" by (cases x)
  obtain p b1 where b1: "predict ip target b = Inr (p, b1)" "inv b1" "counters b1 = counters b" using predict_ok [OF Cons.prems] by blast
  obtain b2 where b2: "update p taken ip target b1 = Inr b2" "inv b2" "counters b2 = count_prediction (p \<noteq> taken) (counters b)"
    using update_ok [OF b1(2)] b1(3) by metis
  obtain ms b3 where b3: "branch_run predict update bs b2 = Inr (ms, b3)" "inv b3" "length ms = length bs"
      "counters b3 = (fst (counters b2) + of_nat (length (filter Not ms)), snd (counters b2) + of_nat (length (filter (\<lambda>m. m) ms)))"
    using Cons.IH [OF b2(2)] by blast
  then show ?case using x b1(1) b2(1,3) by (simp add: count_prediction_def add.assoc)
qed

end

definition one_bit_inv :: "OneBitBranchPredictor \<Rightarrow> bool" where
  "one_bit_inv b \<longleftrightarrow> m_bits b \<noteq> [] \<and> length (m_bits b) < 2 ^ 64"

definition bp_counters :: "'a BranchPredictor_scheme \<Rightarrow> UInt64 \<times> UInt64" where
  "bp_counters b = (m_correct_predictions b, m_incorrect_predictions b)"

interpretation one_bit: branch_predictor one_bit_inv bp_counters one_bit_predict one_bit_update
  by unfold_locales
    (auto simp: one_bit_inv_def bp_counters_def one_bit_predict_def one_bit_update_def one_bit_index_def bp_updateCounters_def
      count_prediction_def Let_def)

definition pm_inv :: "PentiumMBranchPredictor \<Rightarrow> bool" where
  "pm_inv b \<longleftrightarrow> gp_wf (pm_global_predictor b) \<and> btb_wf (pm_btb b) \<and> bt_wf (pm_bimodal_table b) \<and> lp_wf (pm_lpb b) \<and> pm_pir b \<le> 0x7fff"

lemma pm_predict_ok:
  assumes "pm_inv b"
  shows "\<exists>p b'. pm_predict ip target b = Inr (p, b') \<and> pm_inv b' \<and> bp_counters b' = bp_counters b"
proof -
  obtain r where r: "gp_lookup ip (pm_pir b) (pm_global_predictor b) = Inr r" using assms gp_lookup_ok unfolding pm_inv_def by blast
  obtain q where q: "btb_lookup ip (pm_btb b) = Inr q" using assms btb_checked_wf by (auto simp: pm_inv_def btb_lookup_def)
  obtain v l where l: "lp_lookup ip (pm_lpb b) = Inr (v, l)" "lp_wf l" using assms lp_lookup_ok unfolding pm_inv_def by blast
  obtain t where t: "bt_predict ip (pm_bimodal_table b) = Inr t" using assms bt_index_ok [of "pm_bimodal_table b" ip] by (auto simp: pm_inv_def bt_predict_def)
  show ?thesis using assms l(2) by (simp add: pm_predict_def r q l(1) t pm_inv_def bp_counters_def)
qed

lemma update_pir_facts:
  assumes "pm_pir b \<le> 0x7fff"
  shows "pm_pir (update_pir actual ip target ty b) \<le> 0x7fff"
    and "pm_inv (update_pir actual ip target ty b) \<longleftrightarrow> pm_inv b" and "bp_counters (update_pir actual ip target ty b) = bp_counters b"
  using assms by (simp_all add: update_pir_def pm_inv_def bp_counters_def word_and_le1)

lemma some_outcome:
  "P x \<Longrightarrow> P y \<Longrightarrow> P z \<Longrightarrow> \<exists>g. (if a then (if b then Inr y else Inr x) else if c then Inr x else Inr z) = (Inr g :: 'e + 'g) \<and> P g"
  by auto

lemma pm_update_ok:
  assumes "pm_inv b"
  shows "\<exists>b'. pm_update p taken ip target b = Inr b' \<and> pm_inv b' \<and> bp_counters b' = count_prediction (p \<noteq> taken) (bp_counters b)"
proof -
  let ?b = "bp_updateCounters p taken b"
  have b: "pm_inv ?b" "bp_counters ?b = count_prediction (p \<noteq> taken) (bp_counters b)" "pm_pir ?b \<le> 0x7fff"
    using assms by (auto simp: bp_updateCounters_def pm_inv_def bp_counters_def count_prediction_def)
  note wf = b(1) [unfolded pm_inv_def]
  obtain q where q: "btb_update ip (pm_btb ?b) = Inr q" "btb_wf q" using wf btb_update_ok by blast
  obtain l where l: "lp_update taken ip (pm_lpb ?b) = Inr l" "lp_wf l" using wf lp_update_ok by blast
  obtain t where t: "(if \<not> pm_last_gp_hit ?b \<and> \<not> pm_last_lpb_hit ?b then bt_update taken ip (pm_bimodal_table ?b) else Inr (pm_bimodal_table ?b)) = Inr t" "bt_wf t"
    using wf bt_update_ok [of "pm_bimodal_table ?b" taken ip] by (metis (full_types))
  obtain g1 where g1: "gp_update taken ip (pm_pir ?b) (pm_global_predictor ?b) = Inr g1" "gp_wf g1" using wf gp_update_ok by blast
  obtain g2 where g2: "gp_evict ip (pm_pir ?b) (pm_global_predictor ?b) = Inr g2" "gp_wf g2" using wf gp_evict_ok by blast
  have ends: "pm_inv (?b\<lparr>pm_btb := q, pm_lpb := l, pm_bimodal_table := t, pm_global_predictor := g\<rparr>)" if "gp_wf g" for g
    using that q(2) l(2) t(2) wf by (simp add: pm_inv_def)
  have keep: "bp_counters (?b\<lparr>pm_btb := q, pm_lpb := l, pm_bimodal_table := t, pm_global_predictor := g\<rparr>) = bp_counters ?b" for g
    by (simp add: bp_counters_def)
  have g0: "gp_wf (pm_global_predictor ?b)" using wf by blast
  obtain g where g: "(if pm_last_gp_hit ?b
      then (if p \<noteq> taken \<and> (pm_last_lpb_hit ?b \<or> pm_last_bm_pred ?b = taken) then gp_evict ip (pm_pir ?b) (pm_global_predictor ?b)
        else gp_update taken ip (pm_pir ?b) (pm_global_predictor ?b))
      else if p \<noteq> taken \<and> (pm_last_gp_hit ?b \<or> \<not> (pm_last_lpb_hit ?b \<or> pm_last_bm_pred ?b = taken))
        then gp_update taken ip (pm_pir ?b) (pm_global_predictor ?b) else Inr (pm_global_predictor ?b)) = Inr g" "gp_wf g"
    unfolding g1(1) g2(1) using some_outcome [where P = gp_wf, OF g1(2) g2(2) g0] by blast
  let ?b' = "?b\<lparr>pm_btb := q, pm_lpb := l, pm_bimodal_table := t, pm_global_predictor := g\<rparr>"
  have "pm_update p taken ip target b = Inr (update_pir taken ip target ConditionalBranch ?b')"
    unfolding pm_update_def Let_def q(1) l(1) t(1) g(1) bindE_simps ..
  moreover have "pm_pir ?b' \<le> 0x7fff" using b(3) by simp
  ultimately show ?thesis using ends [OF g(2)] keep [of g] b(2) update_pir_facts(2,3) [of ?b'] by simp
qed

interpretation pm: branch_predictor pm_inv bp_counters pm_predict pm_update
  by unfold_locales (fact pm_predict_ok pm_update_ok)+

fun bp_inv :: "predictor_t \<Rightarrow> bool" where
  "bp_inv (OneBit b) = one_bit_inv b"
| "bp_inv (PentiumM b) = pm_inv b"

fun bp_counts :: "predictor_t \<Rightarrow> UInt64 \<times> UInt64" where
  "bp_counts (OneBit b) = bp_counters b"
| "bp_counts (PentiumM b) = bp_counters b"

interpretation bp: branch_predictor bp_inv bp_counts bp_predict bp_update
proof
  fix b ip target p taken
  assume inv: "bp_inv b"
  show "\<exists>p b'. bp_predict ip target b = Inr (p, b') \<and> bp_inv b' \<and> bp_counts b' = bp_counts b"
  proof (cases b)
    case (OneBit x)
    then show ?thesis using one_bit.predict_ok [of x ip target] inv by auto
  next
    case (PentiumM x)
    then show ?thesis using pm.predict_ok [of x ip target] inv by auto
  qed
  show "\<exists>b'. bp_update p taken ip target b = Inr b' \<and> bp_inv b' \<and> bp_counts b' = count_prediction (p \<noteq> taken) (bp_counts b)"
  proof (cases b)
    case (OneBit x)
    then show ?thesis using one_bit.update_ok [of x p taken ip target] inv by auto
  next
    case (PentiumM x)
    then show ?thesis using pm.update_ok [of x p taken ip target] inv by auto
  qed
qed

lemma mk_OneBit_inv: "n \<noteq> 0 \<Longrightarrow> one_bit_inv (mk_OneBitBranchPredictor n)"
  using unsigned_less [of n, where 'a = nat] by (auto simp: one_bit_inv_def mk_OneBitBranchPredictor_def unat_eq_0)

lemma bimodal_mask: "bp_ilog2 4096 = 12" "fold (\<lambda>i m. m OR push_bit i 1) [0..<12] 0 = (0xFFF :: IntPtr)"
  by code_simp+

lemma mk_Pentium_tables:
  "\<exists>g. mk_PentiumMGlobalPredictor = Inr g \<and> gp_wf g" "\<exists>t. mk_PentiumMBimodalTable = Inr t \<and> bt_wf t"
  "\<exists>l. mk_PentiumMLoopBranchPredictor = Inr l \<and> lp_wf l" "btb_wf mk_PentiumMBranchTargetBuffer"
proof -
  show "\<exists>g. mk_PentiumMGlobalPredictor = Inr g \<and> gp_wf g"
    by (simp add: mk_PentiumMGlobalPredictor_def mk_GlobalPredictor_def mk_GpWay_def assertE_def gp_wf_def gw_wf_def)
  have "sp_inv 2 (sp_reset 2 False)" using sp_reset_facts [of 2 False] by (simp add: sp_inv_def)
  then show "\<exists>t. mk_PentiumMBimodalTable = Inr t \<and> bt_wf t"
    using bimodal_mask by (simp add: mk_PentiumMBimodalTable_def mk_SimpleBimodalTable_def assertE_def bt_wf_def bt_reset_def Let_def)
  show "\<exists>l. mk_PentiumMLoopBranchPredictor = Inr l \<and> lp_wf l"
    by (simp add: mk_PentiumMLoopBranchPredictor_def mk_LoopBranchPredictor_def mk_LpWay_def assertE_def lp_wf_def lw_wf_def)
  show "btb_wf mk_PentiumMBranchTargetBuffer"
    by (simp add: btb_wf_def mk_PentiumMBranchTargetBuffer_def bw_wf_def mk_BtbWay_def NUM_WAYS_def NUM_ENTRIES_def)
qed

lemma mk_PentiumM_inv: "\<exists>b. mk_PentiumMBranchPredictor fresh = Inr b \<and> pm_inv b \<and> bp_counters b = (0, 0)"
proof -
  obtain g t l where made: "mk_PentiumMGlobalPredictor = Inr g" "mk_PentiumMBimodalTable = Inr t" "mk_PentiumMLoopBranchPredictor = Inr l"
    and "gp_wf g" "bt_wf t" "lp_wf l" using mk_Pentium_tables by blast
  then show ?thesis using mk_Pentium_tables(4) by (simp add: made mk_PentiumMBranchPredictor_def pm_inv_def bp_counters_def)
qed

text \<open>The branches of a core, as the core gives them to its predictor.\<close>

fun access_run :: "(IntPtr \<times> bool \<times> IntPtr) list \<Rightarrow> predictor_t option \<Rightarrow> (bool list \<times> predictor_t option) res" where
  "access_run [] bp = Inr ([], bp)"
| "access_run ((eip, taken, target) # bs) bp =
     bindE (accessBranchPredictor eip taken target bp) (\<lambda>(m, bp). bindE (access_run bs bp) (\<lambda>(ms, bp). Inr (m # ms, bp)))"

lemma access_run_Some: "access_run bs (Some b) = bindE (branch_run bp_predict bp_update bs b) (\<lambda>(ms, b). Inr (ms, Some b))"
proof (induction bs arbitrary: b)
  case (Cons x bs)
  obtain eip taken target where "x = (eip, taken, target)" by (cases x)
  then show ?case using Cons.IH by (auto simp: accessBranchPredictor_def bindE_def split: sum.split prod.split)
qed simp

text \<open>
  C36. A predictor that \<^verbatim>\<open>BranchPredictor::create\<close> returns never fails, whatever branches the core gives it: no table is read or written
  out of range, every access returns, and the two counters are the numbers of right and of wrong predictions (modulo \<open>2 ^ 64\<close>). The
  one-bit predictor needs a size other than zero.
\<close>

theorem predictor_counts:
  assumes "BranchPredictor_create type n fresh = Inr (Some b)" and "n \<noteq> 0"
  shows "\<exists>ms b'. access_run bs (Some b) = Inr (ms, Some b') \<and> bp_inv b' \<and> length ms = length bs \<and>
    bp_counts b' = (of_nat (length (filter Not ms)), of_nat (length (filter (\<lambda>m. m) ms)))"
proof -
  have "bp_inv b \<and> bp_counts b = (0, 0)"
    using assms mk_OneBit_inv [OF assms(2)] mk_PentiumM_inv [of fresh]
    by (auto simp: BranchPredictor_create_def bindE_Inr_iff mk_OneBitBranchPredictor_def bp_counters_def split: if_splits)
  then show ?thesis using bp.run_counts [of b bs] by (auto simp: access_run_Some)
qed

theorem predictor_counts_witness:
  "\<exists>ms b'. access_run [(4, True, 8), (4, True, 8)] (Some (OneBit (mk_OneBitBranchPredictor 16))) = Inr (ms, Some b') \<and> length ms = 2"
  using predictor_counts [of "''one_bit''" 16 False "OneBit (mk_OneBitBranchPredictor 16)" "[(4, True, 8), (4, True, 8)]"]
  by (auto simp: BranchPredictor_create_def)

end
