(* ===== verification/LS_Branch_Loop.thy ===== *)
theory LS_Branch_Loop
  imports LS_Branch_Run
begin

unbundle bit_operations_syntax

text \<open>
  The loop predictor: one run of a loop teaches it the number of iterations, and it predicts every later run of the same length without
  a miss; an entry that is replaced keeps the enabled flag of the branch before.
\<close>

section \<open>One entry\<close>

text \<open>The last outcome, the count, the limit, the enabled flag and the predictor.\<close>

type_synonym loop_entry = "bool \<times> UInt32 \<times> UInt32 \<times> bool \<times> SaturatingPredictor"

fun entry_next :: "bool \<Rightarrow> loop_entry \<Rightarrow> loop_entry" where
  "entry_next actual (a, c, m, e, p) = (actual, loop_step actual a c m e p)"

fun entry_out :: "loop_entry \<Rightarrow> bool \<times> bool" where
  "entry_out (a, c, m, e, p) = (e, e \<and> (if c = m then \<not> sp_predict p else sp_predict p))"

fun entry_run :: "bool list \<Rightarrow> loop_entry \<Rightarrow> (bool \<times> bool) list \<times> loop_entry" where
  "entry_run [] s = ([], s)"
| "entry_run (a # as) s = (let (outs, s') = entry_run as (entry_next a s) in (entry_out s # outs, s'))"

lemma entry_run_append:
  "entry_run as s = (outs, s') \<Longrightarrow> entry_run bs s' = (outs', s'') \<Longrightarrow> entry_run (as @ bs) s = (outs @ outs', s'')"
  by (induction as arbitrary: s outs) (auto split: prod.splits)

text \<open>While an entry is trained, it follows the loop; at the end of the loop it is enabled.\<close>

lemma entry_train:
  assumes "sp_predict p = d"
  shows "\<exists>outs. entry_run (replicate j d) (d, c, c, False, p) = (outs, (d, c + of_nat j, c + of_nat j, False, p)) \<and> length outs = j"
proof (induction j arbitrary: c)
  case (Suc j)
  have "entry_next d (d, c, c, False, p) = (d, c + 1, c + 1, False, p)"
    using assms by (simp add: loop_step_def same_direction_def prediction_match_def Let_def)
  then show ?case using Suc.IH [of "c + 1"] by (auto simp: add.assoc)
qed simp

lemma entry_enable:
  assumes "sp_predict p = d"
  shows "entry_next (\<not> d) (d, c, c, False, p) = (\<not> d, 0, c, True, p)"
  using assms by (simp add: loop_step_def same_direction_def prediction_match_def Let_def)

text \<open>An enabled entry predicts the iterations and then the exit.\<close>

lemma entry_iterate:
  assumes "sp_predict p = d" and "j + i \<le> k" and "k < 2 ^ 32" and "0 < i \<Longrightarrow> a = d"
  shows "entry_run (replicate j d) (a, of_nat i, of_nat k, True, p) =
    (replicate j (True, d), (if j = 0 then a else d), of_nat (i + j), of_nat k, True, p)"
  using assms(2,4)
proof (induction j arbitrary: i a)
  case (Suc j)
  have "unat (of_nat i :: UInt32) = i" "unat (of_nat k :: UInt32) = k" using Suc.prems(1) assms(3) by (simp_all add: unat_of_nat_lt)
  then have ne: "(of_nat i :: UInt32) \<noteq> of_nat k" using Suc.prems(1) by (metis Suc_n_not_le_n add_Suc le_add2 order_trans)
  have "entry_next d (a, of_nat i, of_nat k, True, p) = (d, of_nat (Suc i), of_nat k, True, p)"
    using assms(1) ne by (simp add: loop_step_def same_direction_def prediction_match_def Let_def add.commute)
  moreover have "entry_out (a, of_nat i, of_nat k, True, p) = (True, d)" using assms(1) ne by simp
  ultimately show ?case using Suc.IH [of "Suc i" d] Suc.prems(1) by simp
qed simp

lemma entry_exit:
  assumes "sp_predict p = d"
  shows "entry_run [\<not> d] (d, c, c, True, p) = ([(True, \<not> d)], (\<not> d, 0, c, True, p))"
  using assms by (simp add: loop_step_def same_direction_def prediction_match_def Let_def)

lemma entry_loop:
  assumes "sp_predict p = d" and "0 < k" and "k < 2 ^ 32"
  shows "entry_run (replicate k d @ [\<not> d]) (\<not> d, 0, of_nat k, True, p) =
    (map (\<lambda>a. (True, a)) (replicate k d @ [\<not> d]), (\<not> d, 0, of_nat k, True, p))"
proof -
  have "entry_run (replicate k d) (\<not> d, 0, of_nat k, True, p) = (replicate k (True, d), (d, of_nat k, of_nat k, True, p))"
    using entry_iterate [OF assms(1) _ assms(3), of k 0 "\<not> d"] assms(2) by simp
  from entry_run_append [OF this entry_exit [OF assms(1)]] show ?thesis by simp
qed

lemma entry_loops:
  assumes "sp_predict p = d" and "0 < k" and "k < 2 ^ 32"
  shows "entry_run (concat (replicate n (replicate k d @ [\<not> d]))) (\<not> d, 0, of_nat k, True, p) =
    (map (\<lambda>a. (True, a)) (concat (replicate n (replicate k d @ [\<not> d]))), (\<not> d, 0, of_nat k, True, p))"
proof (induction n)
  case (Suc n)
  show ?case using entry_run_append [OF entry_loop [OF assms] Suc.IH] by simp
qed simp

text \<open>From the second branch of a loop on: the first run trains the entry, the later ones are predicted.\<close>

lemma entry_learns:
  assumes "sp_predict p = d" and "0 < k" and "k < 2 ^ 32"
  shows "\<exists>outs s. entry_run (replicate (k - 1) d @ [\<not> d] @ concat (replicate n (replicate k d @ [\<not> d]))) (d, 1, 1, False, p) = (outs, s) \<and>
    drop k outs = map (\<lambda>a. (True, a)) (concat (replicate n (replicate k d @ [\<not> d])))"
proof -
  have k: "1 + of_nat (k - 1) = (of_nat k :: UInt32)" using assms(2) by (cases k) simp_all
  obtain o1 where o1: "entry_run (replicate (k - 1) d) (d, 1, 1, False, p) = (o1, (d, of_nat k, of_nat k, False, p))" "length o1 = k - 1"
    using entry_train [OF assms(1), of "k - 1" 1] unfolding k by blast
  have o2: "entry_run [\<not> d] (d, of_nat k, of_nat k, False, p) = ([(False, False)], (\<not> d, 0, of_nat k, True, p))"
    using entry_enable [OF assms(1)] by simp
  note whole = entry_run_append [OF o1(1) entry_run_append [OF o2 entry_loops [OF assms, of n]]]
  have "drop k (o1 @ [(False, False)] @ outs) = outs" for outs using o1(2) assms(2) by simp
  then show ?thesis using whole by blast
qed

section \<open>The entry in the table\<close>

text \<open>Way \<open>w\<close> of the set, and no other, holds the branch.\<close>

fun loop_at :: "nat \<Rightarrow> UInt32 \<Rightarrow> nat \<Rightarrow> loop_entry \<Rightarrow> LoopBranchPredictor \<Rightarrow> bool" where
  "loop_at i tag w (a, c, m, e, p) l \<longleftrightarrow> lp_wf l \<and> i < 64 \<and> w < 2 \<and> (\<forall>v < 2. lp_tag i tag l v \<longleftrightarrow> v = w) \<and>
     lw_previous_actual (lp_ways l ! w) ! i = a \<and> lw_count (lp_ways l ! w) ! i = c \<and> lw_limit (lp_ways l ! w) ! i = m \<and>
     lw_enabled (lp_ways l ! w) ! i = e \<and> lw_predictors (lp_ways l ! w) ! i = p"

lemma lp_tag_put:
  assumes "lp_wf l" and "w < 2" and "v < 2"
  shows "lp_tag i tag (l\<lparr>lp_ways := (lp_ways l)[w := y], lp_lru_use_count := n\<rparr>) v \<longleftrightarrow>
    (if v = w then ucast (lw_tags y ! i) = tag else lp_tag i tag l v)"
  using assms by (simp add: lp_tag_def lp_wf_def)

lemma loop_at_lookup:
  assumes at: "loop_at i tag w (a, c, m, e, p) l" and it: "lp_gen_index_tag ip = (i, tag)"
  shows "\<exists>r l'. lp_lookup ip l = Inr (r, l') \<and> (rv_hit r, rv_prediction r) = entry_out (a, c, m, e, p) \<and> loop_at i tag w (a, c, m, e, p) l'"
proof -
  have wf: "lp_wf l" and w: "w < 2" and tags: "\<And>v. v < 2 \<Longrightarrow> lp_tag i tag l v \<longleftrightarrow> v = w" using at by auto
  note run = lp_lookup_def it lp_checked_wf [OF wf lp_index [OF it]] lp_ways_facts [OF wf]
  let ?match = "\<lambda>v. lw_enabled (lp_ways l ! v) ! i \<and> lp_tag i tag l v"
  show ?thesis
  proof (cases e)
    case False
    then have "fst (way_scan ?match (lp_lru i l) [0..<2] 0) = None" by (intro way_scan_nothing) (use at in auto)
    then show ?thesis using at False by (simp add: run no_prediction_def)
  next
    case True
    have scan: "fst (way_scan ?match (lp_lru i l) [0..<2] 0) = Some w" by (rule way_scan_unique) (use at True in auto)
    let ?l = "l\<lparr>lp_ways := (lp_ways l)[w := (lp_ways l ! w)\<lparr>lw_lru := (lw_lru (lp_ways l ! w))[i := lp_lru_use_count l]\<rparr>],
                lp_lru_use_count := lp_lru_use_count l + 1\<rparr>"
    have "lp_wf ?l" using lp_wf_put [OF wf] lp_wf_way [OF wf w] by (simp add: lw_wf_def)
    moreover have "\<forall>v<2. lp_tag i tag ?l v \<longleftrightarrow> v = w" using lp_tag_put [OF wf w] tags w by (simp add: lp_tag_def)
    ultimately have "loop_at i tag w (a, c, m, e, p) ?l" using at lp_ways_facts(2) [OF wf] by simp
    moreover have "lw_count (lp_ways l ! w) ! i = c" "lw_limit (lp_ways l ! w) ! i = m" "lw_predictors (lp_ways l ! w) ! i = p" using at by auto
    then have "lp_lookup ip l = Inr (no_prediction\<lparr>rv_hit := True, rv_prediction := (if c = m then \<not> sp_predict p else sp_predict p)\<rparr>, ?l)"
      by (simp add: run scan Let_def)
    ultimately show ?thesis using True by auto
  qed
qed

lemma loop_at_update:
  assumes at: "loop_at i tag w (a, c, m, e, p) l" and it: "lp_gen_index_tag ip = (i, tag)"
  shows "\<exists>l'. lp_update actual ip l = Inr l' \<and> loop_at i tag w (entry_next actual (a, c, m, e, p)) l'"
proof -
  have wf: "lp_wf l" and w: "w < 2" and i: "i < 64" and tags: "\<And>v. v < 2 \<Longrightarrow> lp_tag i tag l v \<longleftrightarrow> v = w" using at by auto
  note run = lp_update_def it lp_checked_wf [OF wf lp_index [OF it]] lp_ways_facts [OF wf]
  have "fst (way_scan (lp_tag i tag l) (lp_lru i l) [0..<2] 0) = Some w"
    by (rule way_scan_unique) (use at in auto)
  then obtain b where scan: "way_scan (lp_tag i tag l) (lp_lru i l) [0..<2] 0 = (Some w, b)" by (metis prod.collapse)
  obtain c' m' e' p' where step: "loop_step actual a c m e p = (c', m', e', p')" by (metis prod_cases4)
  let ?y = "(lp_ways l ! w)\<lparr>lw_count := (lw_count (lp_ways l ! w))[i := c'], lw_limit := (lw_limit (lp_ways l ! w))[i := m'],
      lw_enabled := (lw_enabled (lp_ways l ! w))[i := e'], lw_predictors := (lw_predictors (lp_ways l ! w))[i := p'],
      lw_previous_actual := (lw_previous_actual (lp_ways l ! w))[i := actual], lw_lru := (lw_lru (lp_ways l ! w))[i := lp_lru_use_count l]\<rparr>"
  let ?l = "l\<lparr>lp_ways := (lp_ways l)[w := ?y], lp_lru_use_count := lp_lru_use_count l + 1\<rparr>"
  have y: "lw_wf ?y" using lp_wf_way [OF wf w] by (simp add: lw_wf_def)
  have "lp_wf ?l" by (rule lp_wf_put [OF wf y])
  moreover have "\<forall>v<2. lp_tag i tag ?l v \<longleftrightarrow> v = w" using lp_tag_put [OF wf w] tags w by (simp add: lp_tag_def)
  ultimately have "loop_at i tag w (actual, c', m', e', p') ?l"
    using i w lp_ways_facts(2) [OF wf] lp_wf_way [OF wf w] by (simp add: lw_wf_def)
  moreover have "lw_previous_actual (lp_ways l ! w) ! i = a" "lw_count (lp_ways l ! w) ! i = c" "lw_limit (lp_ways l ! w) ! i = m"
      "lw_enabled (lp_ways l ! w) ! i = e" "lw_predictors (lp_ways l ! w) ! i = p" using at by auto
  then have "lp_update actual ip l = Inr ?l" by (simp add: run scan step Let_def)
  ultimately show ?thesis using step by simp
qed

lemma lp_tag_byte: "lp_gen_index_tag ip = (i, tag) \<Longrightarrow> ucast (ucast tag :: UInt8) = tag"
proof -
  assume "lp_gen_index_tag ip = (i, tag)"
  then have "unat tag \<le> 0x3F" using masked_index [of "drop_bit 10 ip" "0x3F"] by (auto simp: lp_gen_index_tag_def)
  then have "take_bit 8 (unat tag) = unat tag" by (simp add: take_bit_nat_eq_self)
  then have "take_bit 8 tag = tag" by (simp add: word_unat_eq_iff unsigned_take_bit_eq)
  then show ?thesis by (simp add: unsigned_ucast_eq)
qed

text \<open>A branch that is in no way of its set replaces the way that was used least recently.\<close>

lemma loop_allocate:
  assumes wf: "lp_wf l" and it: "lp_gen_index_tag ip = (i, tag)"
    and scan: "way_scan (lp_tag i tag l) (lp_lru i l) [0..<2] 0 = (None, w)"
  shows "\<exists>l'. lp_update actual ip l = Inr l' \<and> loop_at i tag w (actual, 1, 1, lw_enabled (lp_ways l ! w) ! i, sp_reset 1 actual) l'"
    and "lp_lookup ip l = Inr (no_prediction, l)"
proof -
  have w: "w < 2" using lp_scan_way [OF scan] by simp
  have i: "i < 64" by (rule lp_index [OF it])
  have none: "\<not> lp_tag i tag l v" if "v < 2" for v using way_scan_None [OF scan] that by simp
  note chk = it lp_checked_wf [OF wf i] lp_ways_facts [OF wf]
  let ?y = "(lp_ways l ! w)\<lparr>lw_tags := (lw_tags (lp_ways l ! w))[i := ucast tag],
      lw_predictors := (lw_predictors (lp_ways l ! w))[i := sp_reset 1 actual],
      lw_previous_actual := (lw_previous_actual (lp_ways l ! w))[i := actual], lw_lru := (lw_lru (lp_ways l ! w))[i := lp_lru_use_count l],
      lw_count := (lw_count (lp_ways l ! w))[i := 1], lw_limit := (lw_limit (lp_ways l ! w))[i := 1]\<rparr>"
  let ?l = "l\<lparr>lp_ways := (lp_ways l)[w := ?y], lp_lru_use_count := lp_lru_use_count l + 1\<rparr>"
  have y: "lw_wf ?y" using lp_wf_way [OF wf w] by (simp add: lw_wf_def)
  have "lp_wf ?l" by (rule lp_wf_put [OF wf y])
  moreover have "lp_tag i tag ?l v \<longleftrightarrow> v = w" if "v < 2" for v
    unfolding lp_tag_put [OF wf w that] using none [OF that] i lp_wf_way [OF wf w] lp_tag_byte [OF it] by (simp add: lw_wf_def)
  ultimately have "loop_at i tag w (actual, 1, 1, lw_enabled (lp_ways l ! w) ! i, sp_reset 1 actual) ?l"
    using i w lp_ways_facts(2) [OF wf] lp_wf_way [OF wf w] by (simp add: lw_wf_def)
  moreover have "lp_update actual ip l = Inr ?l" using w by (simp add: lp_update_def chk scan Let_def)
  ultimately show "\<exists>l'. lp_update actual ip l = Inr l' \<and> loop_at i tag w (actual, 1, 1, lw_enabled (lp_ways l ! w) ! i, sp_reset 1 actual) l'" by blast
  have "fst (way_scan (\<lambda>v. lw_enabled (lp_ways l ! v) ! i \<and> lp_tag i tag l v) (lp_lru i l) [0..<2] 0) = None"
    by (rule way_scan_nothing) (use none in auto)
  then show "lp_lookup ip l = Inr (no_prediction, l)" by (simp add: lp_lookup_def chk)
qed

section \<open>Learning a loop\<close>

text \<open>The outcomes of one branch, with what the predictor says before each: whether it hits, and its prediction.\<close>

fun loop_run :: "IntPtr \<Rightarrow> bool list \<Rightarrow> LoopBranchPredictor \<Rightarrow> ((bool \<times> bool) list \<times> LoopBranchPredictor) res" where
  "loop_run ip [] l = Inr ([], l)"
| "loop_run ip (a # as) l =
     bindE (lp_lookup ip l) (\<lambda>(r, l). bindE (lp_update a ip l) (\<lambda>l.
     bindE (loop_run ip as l) (\<lambda>(rs, l). Inr ((rv_hit r, rv_prediction r) # rs, l))))"

lemma loop_run_entry:
  assumes "loop_at i tag w s l" and it: "lp_gen_index_tag ip = (i, tag)" and "entry_run as s = (outs, s')"
  shows "\<exists>l'. loop_run ip as l = Inr (outs, l') \<and> loop_at i tag w s' l'"
  using assms(1,3)
proof (induction as arbitrary: s l outs)
  case Nil
  then show ?case by simp
next
  case (Cons x as)
  obtain a c m e p where s: "s = (a, c, m, e, p)" by (metis prod_cases5)
  obtain r l1 where l1: "lp_lookup ip l = Inr (r, l1)" "(rv_hit r, rv_prediction r) = entry_out s" "loop_at i tag w s l1"
    using loop_at_lookup [OF Cons.prems(1) [unfolded s] it] unfolding s by blast
  obtain l2 where l2: "lp_update x ip l1 = Inr l2" "loop_at i tag w (entry_next x s) l2"
    using loop_at_update [OF l1(3) [unfolded s] it] unfolding s by blast
  obtain outs2 where outs2: "entry_run as (entry_next x s) = (outs2, s')" "outs = entry_out s # outs2"
    using Cons.prems(2) by (auto split: prod.splits)
  obtain l3 where "loop_run ip as l2 = Inr (outs2, l3)" "loop_at i tag w s' l3" using Cons.IH [OF l2(2) outs2(1)] by blast
  then show ?case using l1(1,2) l2(1) outs2(2) by simp
qed

text \<open>
  C35. The loop predictor learns a loop in one run: a branch that is new in the table and goes \<open>k\<close> times one way and then once the
  other, over and over, is predicted by a hit and without a misprediction from the second run on, for every \<open>k\<close> that the 32-bit count
  holds. The entry it replaces must not be enabled.
\<close>

theorem loop_predictor_learns:
  assumes wf: "lp_wf l" and it: "lp_gen_index_tag ip = (i, tag)"
    and scan: "way_scan (lp_tag i tag l) (lp_lru i l) [0..<2] 0 = (None, w)" and off: "\<not> lw_enabled (lp_ways l ! w) ! i"
    and k: "0 < k" "k < 2 ^ 32"
  shows "\<exists>outs l'. loop_run ip (concat (replicate (Suc n) (replicate k d @ [\<not> d]))) l = Inr (outs, l') \<and>
    drop (Suc k) outs = map (\<lambda>a. (True, a)) (concat (replicate n (replicate k d @ [\<not> d])))"
proof -
  obtain l1 where l1: "lp_update d ip l = Inr l1" "loop_at i tag w (d, 1, 1, False, sp_reset 1 d) l1"
    using loop_allocate(1) [OF wf it scan, of d] off by auto
  let ?rest = "replicate (k - 1) d @ [\<not> d] @ concat (replicate n (replicate k d @ [\<not> d]))"
  have "concat (replicate (Suc n) (replicate k d @ [\<not> d])) = d # ?rest" using k(1) by (cases k) simp_all
  moreover obtain outs s where run: "entry_run ?rest (d, 1, 1, False, sp_reset 1 d) = (outs, s)"
    and outs: "drop k outs = map (\<lambda>a. (True, a)) (concat (replicate n (replicate k d @ [\<not> d])))"
    using entry_learns [OF sp_predict_reset(1) k, of d n] by blast
  obtain l2 where "loop_run ip ?rest l1 = Inr (outs, l2)" using loop_run_entry [OF l1(2) it run] by blast
  ultimately show ?thesis using loop_allocate(2) [OF wf it scan] l1(1) outs by simp
qed

theorem loop_predictor_learns_witness:
  "\<exists>l outs l'. mk_PentiumMLoopBranchPredictor = Inr l \<and>
    loop_run 0x400 (concat (replicate 3 [True, True, False])) l = Inr (outs, l') \<and>
    drop 3 outs = [(True, True), (True, True), (True, False), (True, True), (True, True), (True, False)]"
proof -
  obtain l where l: "mk_PentiumMLoopBranchPredictor = Inr l" "lp_wf l" using mk_Pentium_tables(3) by blast
  have it: "lp_gen_index_tag 0x400 = (0, 1)" by (simp add: lp_gen_index_tag_def drop_bit_eq_div)
  have tags: "\<not> lp_tag 0 1 l v \<and> lp_lru 0 l v = 0 \<and> \<not> lw_enabled (lp_ways l ! v) ! 0" if "v < 2" for v
    using l(1) that by (auto simp: mk_PentiumMLoopBranchPredictor_def mk_LoopBranchPredictor_def mk_LpWay_def assertE_def lp_tag_def lp_lru_def)
  have "way_scan (lp_tag 0 1 l) (lp_lru 0 l) [0..<2] 0 = (None, 0)" using tags [of 0] tags [of 1] by (simp add: upt_rec)
  then obtain outs l' where run: "loop_run 0x400 (concat (replicate (Suc 2) (replicate 2 True @ [\<not> True]))) l = Inr (outs, l')"
    and outs: "drop (Suc 2) outs = map (\<lambda>a. (True, a)) (concat (replicate 2 (replicate 2 True @ [\<not> True])))"
    using loop_predictor_learns [OF l(2) it, of 0 2 2 True] tags [of 0] by auto
  have trace: "concat (replicate (Suc 2) (replicate 2 True @ [\<not> True])) = concat (replicate 3 [True, True, False])" by code_simp
  have "drop 3 outs = [(True, True), (True, True), (True, False), (True, True), (True, True), (True, False)]"
    using outs by (simp add: eval_nat_numeral)
  then show ?thesis using run [unfolded trace] l(1) by blast
qed

text \<open>
  An entry that is replaced keeps its enabled flag. A branch that takes over an enabled entry hits at once, after a single outcome, and
  the prediction is the opposite of that outcome, because count and limit are both one.
\<close>

lemma loop_entry_stays_enabled:
  assumes wf: "lp_wf l" and it: "lp_gen_index_tag ip = (i, tag)"
    and scan: "way_scan (lp_tag i tag l) (lp_lru i l) [0..<2] 0 = (None, w)" and on: "lw_enabled (lp_ways l ! w) ! i"
  shows "\<exists>l' r l''. lp_update actual ip l = Inr l' \<and> lp_lookup ip l' = Inr (r, l'') \<and> rv_hit r \<and> rv_prediction r = (\<not> actual)"
proof -
  obtain l1 where l1: "lp_update actual ip l = Inr l1" "loop_at i tag w (actual, 1, 1, True, sp_reset 1 actual) l1"
    using loop_allocate(1) [OF wf it scan, of actual] on by auto
  then show ?thesis using loop_at_lookup [OF l1(2) it] sp_predict_reset(1) [of actual] by (auto simp del: loop_at.simps sp_predict_reset)
qed

end
