(* ===== verification/LS_Micro_Op.thy ===== *)
theory LS_Micro_Op
  imports LS_Time
begin

unbundle bit_operations_syntax

text \<open>
  Micro-operations: \<^verbatim>\<open>micro_op.cc\<close>, \<^verbatim>\<open>dynamic_micro_op.cc\<close>, the core model of the Nehalem (\<^verbatim>\<open>core_model_nehalem.cc\<close>,
  \<^verbatim>\<open>dynamic_micro_op_nehalem.cc\<close>), and the tables that find the micro-operations another one depends on
  (\<^verbatim>\<open>register_dependencies.cc\<close>, \<^verbatim>\<open>memory_dependencies.cc\<close>). The enumerations of the disassembler are not part of the repository: an
  opcode is the name of its enumeration constant without the prefix \<^verbatim>\<open>XED_ICLASS_\<close>, a register is a number.
\<close>

section \<open>Micro-operations\<close>

type_synonym xed_iclass_enum_t = string
type_synonym xed_reg_enum_t = nat

datatype uop_type_t = UOP_INVALID | UOP_LOAD | UOP_EXECUTE | UOP_STORE

datatype uop_subtype_t =
    UOP_SUBTYPE_FP_ADDSUB
  | UOP_SUBTYPE_FP_MULDIV
  | UOP_SUBTYPE_LOAD
  | UOP_SUBTYPE_STORE
  | UOP_SUBTYPE_GENERIC
  | UOP_SUBTYPE_BRANCH

text \<open>An array of registers with its length is a list.\<close>

record MicroOp =
  uop_type :: uop_type_t
  uop_subtype :: uop_subtype_t
  uop_first :: bool
  uop_last :: bool
  instructionOpcode :: xed_iclass_enum_t
  uop_typeOffset :: UInt32
  uop_intraDependencies :: UInt32
  sourceRegisters :: "xed_reg_enum_t list"
  addressRegisters :: "xed_reg_enum_t list"
  destinationRegisters :: "xed_reg_enum_t list"
  uop_interrupt :: bool
  uop_serializing :: bool
  uop_branch :: bool
  m_membar :: bool
  is_x87 :: bool
  operand_size :: UInt16
  memoryAccessSize :: UInt16

definition MAXIMUM_NUMBER_OF_SOURCE_REGISTERS :: nat where
  "MAXIMUM_NUMBER_OF_SOURCE_REGISTERS = 3 + 11"

definition MAXIMUM_NUMBER_OF_ADDRESS_REGISTERS :: nat where
  "MAXIMUM_NUMBER_OF_ADDRESS_REGISTERS = 2"

definition MAXIMUM_NUMBER_OF_DESTINATION_REGISTERS :: nat where
  "MAXIMUM_NUMBER_OF_DESTINATION_REGISTERS = 3 + 11"

definition MAXIMUM_NUMBER_OF_DEPENDENCIES :: nat where
  "MAXIMUM_NUMBER_OF_DEPENDENCIES = MAXIMUM_NUMBER_OF_SOURCE_REGISTERS"

definition INVALID_SEQNR :: UInt64 where
  "INVALID_SEQNR = -1"

text \<open>What the constructor leaves uninitialised is taken from \<open>fresh\<close>.\<close>

definition mk_MicroOp :: "MicroOp \<Rightarrow> MicroOp" where
  "mk_MicroOp fresh = fresh\<lparr>uop_type := UOP_INVALID, instructionOpcode := ''INVALID'', uop_first := False, uop_last := False,
     uop_typeOffset := 0, uop_intraDependencies := 0, sourceRegisters := [], addressRegisters := [], destinationRegisters := [],
     uop_interrupt := False, uop_serializing := False, uop_branch := False, m_membar := False, is_x87 := False, operand_size := 0\<rparr>"

abbreviation isLoad :: "MicroOp \<Rightarrow> bool" where
  "isLoad u \<equiv> uop_type u = UOP_LOAD"

abbreviation isStore :: "MicroOp \<Rightarrow> bool" where
  "isStore u \<equiv> uop_type u = UOP_STORE"

definition branch_opcodes :: "xed_iclass_enum_t list" where
  "branch_opcodes =
     [''CALL_FAR'', ''CALL_NEAR'', ''JB'', ''JBE'', ''JL'', ''JLE'', ''JMP'', ''JMP_FAR'', ''JNB'', ''JNBE'', ''JNL'',
      ''JNLE'', ''JNO'', ''JNP'', ''JNS'', ''JNZ'', ''JO'', ''JP'', ''JRCXZ'', ''JS'', ''JZ'', ''RET_FAR'', ''RET_NEAR'']"

definition fp_addsub_opcodes :: "xed_iclass_enum_t list" where
  "fp_addsub_opcodes =
     [''ADDPD'', ''ADDPS'', ''ADDSD'', ''ADDSS'', ''ADDSUBPD'', ''ADDSUBPS'', ''SUBPD'', ''SUBPS'', ''SUBSD'', ''SUBSS'',
      ''VADDPD'', ''VADDPS'', ''VADDSD'', ''VADDSS'', ''VADDSUBPD'', ''VADDSUBPS'', ''VSUBPD'', ''VSUBPS'', ''VSUBSD'',
      ''VSUBSS'']"

definition fp_muldiv_opcodes :: "xed_iclass_enum_t list" where
  "fp_muldiv_opcodes =
     [''MULPD'', ''MULPS'', ''MULSD'', ''MULSS'', ''DIVPD'', ''DIVPS'', ''DIVSD'', ''DIVSS'', ''VMULPD'', ''VMULPS'',
      ''VMULSD'', ''VMULSS'', ''VDIVPD'', ''VDIVPS'', ''VDIVSD'', ''VDIVSS'']"

definition getSubtype_Exec :: "MicroOp \<Rightarrow> uop_subtype_t" where
  "getSubtype_Exec u =
     (if instructionOpcode u \<in> set branch_opcodes then UOP_SUBTYPE_BRANCH
      else if instructionOpcode u \<in> set fp_addsub_opcodes then UOP_SUBTYPE_FP_ADDSUB
      else if instructionOpcode u \<in> set fp_muldiv_opcodes then UOP_SUBTYPE_FP_MULDIV
      else UOP_SUBTYPE_GENERIC)"

definition getSubtype :: "MicroOp \<Rightarrow> uop_subtype_t" where
  "getSubtype u =
     (if isLoad u then UOP_SUBTYPE_LOAD
      else if isStore u then UOP_SUBTYPE_STORE
      else if uop_branch u then UOP_SUBTYPE_BRANCH
      else if uop_type u = UOP_EXECUTE then getSubtype_Exec u
      else UOP_SUBTYPE_GENERIC)"

definition setTypes :: "MicroOp \<Rightarrow> MicroOp" where
  "setTypes u = u\<lparr>uop_subtype := getSubtype u\<rparr>"

definition makeLoad :: "UInt32 \<Rightarrow> xed_iclass_enum_t \<Rightarrow> UInt16 \<Rightarrow> MicroOp \<Rightarrow> MicroOp" where
  "makeLoad offset opcode mem_size u =
     setTypes (u\<lparr>uop_type := UOP_LOAD, uop_typeOffset := offset, memoryAccessSize := mem_size, instructionOpcode := opcode,
                 uop_intraDependencies := 0\<rparr>)"

definition makeExecute :: "UInt32 \<Rightarrow> UInt32 \<Rightarrow> xed_iclass_enum_t \<Rightarrow> bool \<Rightarrow> MicroOp \<Rightarrow> MicroOp" where
  "makeExecute offset num_loads opcode isBranch u =
     setTypes (u\<lparr>uop_type := UOP_EXECUTE, uop_typeOffset := offset, uop_intraDependencies := num_loads, instructionOpcode := opcode,
                 uop_branch := isBranch\<rparr>)"

definition makeStore :: "UInt32 \<Rightarrow> UInt32 \<Rightarrow> xed_iclass_enum_t \<Rightarrow> UInt16 \<Rightarrow> MicroOp \<Rightarrow> MicroOp" where
  "makeStore offset num_execute opcode mem_size u =
     setTypes (u\<lparr>uop_type := UOP_STORE, uop_typeOffset := offset, memoryAccessSize := mem_size, instructionOpcode := opcode,
                 uop_intraDependencies := num_execute\<rparr>)"

definition makeDynamic :: "MicroOp \<Rightarrow> MicroOp" where
  "makeDynamic u =
     setTypes (u\<lparr>uop_type := UOP_EXECUTE, uop_typeOffset := 0, uop_intraDependencies := 0, instructionOpcode := ''INVALID'',
                 uop_branch := False\<rparr>)"

definition fp_load_store_opcodes :: "xed_iclass_enum_t list" where
  "fp_load_store_opcodes =
     [''MOVAPS'', ''MOVAPD'', ''MOVUPS'', ''MOVUPD'', ''MOVSS'', ''MOVSD_XMM'', ''MOVHPS'', ''MOVHPD'', ''MOVLPS'', ''MOVLPD'',
      ''SHUFPS'', ''SHUFPD'', ''BLENDPS'', ''BLENDPD'', ''MOVDDUP'', ''MOVSHDUP'', ''MOVSLDUP'', ''UNPCKHPS'', ''UNPCKLPS'',
      ''UNPCKHPD'', ''UNPCKLPD'', ''EXTRACTPS'', ''INSERTPS'', ''CVTPD2PS'', ''CVTSD2SS'', ''CVTPS2PD'', ''CVTSS2SD'',
      ''CVTDQ2PS'', ''CVTPS2DQ'', ''CVTTPS2DQ'', ''CVTDQ2PD'', ''CVTPD2DQ'', ''CVTTPD2DQ'', ''CVTPI2PS'', ''CVTPS2PI'',
      ''CVTTPS2PI'', ''CVTPI2PD'', ''CVTPD2PI'', ''CVTTPD2PI'', ''CVTSI2SS'', ''CVTSS2SI'', ''CVTTSS2SI'', ''CVTSI2SD'',
      ''CVTSD2SI'', ''CVTTSD2SI'', ''COMISS'', ''COMISD'', ''UCOMISS'', ''UCOMISD'', ''MAXSS'', ''MAXSD'', ''MAXPS'',
      ''MAXPD'', ''MINSS'', ''MINSD'', ''MINPS'', ''MINPD'', ''ROUNDPS'', ''ROUNDPD'', ''DPPS'', ''DPPD'', ''ANDPS'',
      ''ANDPD'', ''ANDNPS'', ''ANDNPD'', ''ORPS'', ''ORPD'', ''XORPS'', ''XORPD'']"

definition isFpLoadStore :: "MicroOp \<Rightarrow> bool" where
  "isFpLoadStore u \<longleftrightarrow> (isLoad u \<or> isStore u) \<and>
     (getSubtype_Exec u = UOP_SUBTYPE_FP_ADDSUB \<or> getSubtype_Exec u = UOP_SUBTYPE_FP_MULDIV \<or>
      instructionOpcode u \<in> set fp_load_store_opcodes)"

definition addSourceRegister :: "xed_reg_enum_t \<Rightarrow> MicroOp \<Rightarrow> MicroOp res" where
  "addSourceRegister r u =
     bindE (assertE (length (sourceRegisters u) < MAXIMUM_NUMBER_OF_SOURCE_REGISTERS) (AssertError ''sourceRegistersLength < MAX''))
     (\<lambda>_. Inr (u\<lparr>sourceRegisters := sourceRegisters u @ [r]\<rparr>))"

definition addAddressRegister :: "xed_reg_enum_t \<Rightarrow> MicroOp \<Rightarrow> MicroOp res" where
  "addAddressRegister r u =
     bindE (assertE (length (addressRegisters u) < MAXIMUM_NUMBER_OF_ADDRESS_REGISTERS) (AssertError ''addressRegistersLength < MAX''))
     (\<lambda>_. Inr (u\<lparr>addressRegisters := addressRegisters u @ [r]\<rparr>))"

definition addDestinationRegister :: "xed_reg_enum_t \<Rightarrow> MicroOp \<Rightarrow> MicroOp res" where
  "addDestinationRegister r u =
     bindE (assertE (length (destinationRegisters u) < MAXIMUM_NUMBER_OF_DESTINATION_REGISTERS) (AssertError ''destinationRegistersLength < MAX''))
     (\<lambda>_. Inr (u\<lparr>destinationRegisters := destinationRegisters u @ [r]\<rparr>))"

section \<open>The core model of the Nehalem\<close>

datatype uop_port_t = UOP_PORT0 | UOP_PORT1 | UOP_PORT2 | UOP_PORT34 | UOP_PORT5 | UOP_PORT05 | UOP_PORT015

datatype uop_alu_t = UOP_ALU_NONE | UOP_ALU_TRIG

datatype uop_bypass_t = UOP_BYPASS_NONE | UOP_BYPASS_LOAD_FP | UOP_BYPASS_FP_STORE

definition port0_opcodes :: "xed_iclass_enum_t list" where
  "port0_opcodes =
     [''CVTPS2PD'', ''CVTSS2SD'', ''SQRTSS'', ''SQRTPS'', ''SQRTSD'', ''SQRTPD'', ''VSQRTSS'', ''VSQRTPS'', ''VSQRTSD'',
      ''VSQRTPD'']"

definition port1_opcodes :: "xed_iclass_enum_t list" where
  "port1_opcodes =
     [''COMISD'', ''COMISS'', ''UCOMISD'', ''UCOMISS'', ''MAXSS'', ''MAXSD'', ''MAXPS'', ''MAXPD'', ''MINSS'', ''MINSD'',
      ''MINPS'', ''MINPD'', ''ROUNDPS'', ''ROUNDPD'', ''CVTPD2PS'', ''CVTSD2SS'', ''CVTDQ2PS'', ''CVTPS2DQ'', ''CVTTPS2DQ'',
      ''CVTDQ2PD'', ''CVTPD2DQ'', ''CVTTPD2DQ'', ''CVTPI2PS'', ''CVTPS2PI'', ''CVTTPS2PI'', ''CVTPI2PD'', ''CVTPD2PI'',
      ''CVTTPD2PI'', ''CVTSI2SS'', ''CVTSS2SI'', ''CVTTSS2SI'', ''CVTSI2SD'', ''CVTSD2SI'', ''CVTTSD2SI'', ''RSQRTSS'',
      ''RSQRTPS'', ''VRSQRTSS'', ''VRSQRTPS'']"

definition port5_opcodes :: "xed_iclass_enum_t list" where
  "port5_opcodes =
     [''ANDPS'', ''ANDPD'', ''ANDNPS'', ''ANDNPD'', ''ORPS'', ''ORPD'', ''XORPS'', ''XORPD'', ''MOVAPD'', ''MOVAPS'',
      ''MOVHLPS'', ''MOVHPD'', ''MOVHPS'', ''MOVLHPS'', ''MOVLPD'', ''MOVLPS'', ''MOVMSKPD'', ''MOVMSKPS'', ''MOVSD_XMM'',
      ''MOVSHDUP'', ''MOVSLDUP'', ''MOVSS'', ''VMOVAPD'', ''VMOVAPS'', ''VMOVHLPS'', ''VMOVHPD'', ''VMOVHPS'', ''VMOVLHPS'',
      ''VMOVLPD'', ''VMOVLPS'', ''VMOVMSKPD'', ''VMOVMSKPS'', ''VMOVSD'', ''VMOVSHDUP'', ''VMOVSLDUP'', ''VMOVSS'',
      ''UNPCKHPD'', ''UNPCKHPS'', ''UNPCKLPD'', ''UNPCKLPS'']"

definition getPort :: "MicroOp \<Rightarrow> uop_port_t" where
  "getPort u = (case uop_subtype u of
       UOP_SUBTYPE_FP_ADDSUB \<Rightarrow> UOP_PORT1
     | UOP_SUBTYPE_FP_MULDIV \<Rightarrow> UOP_PORT0
     | UOP_SUBTYPE_LOAD \<Rightarrow> UOP_PORT2
     | UOP_SUBTYPE_STORE \<Rightarrow> UOP_PORT34
     | UOP_SUBTYPE_GENERIC \<Rightarrow>
         (if instructionOpcode u = ''IMUL'' then (if operand_size u = 64 then UOP_PORT0 else UOP_PORT1)
          else if instructionOpcode u = ''LEA'' then UOP_PORT1
          else if instructionOpcode u \<in> set port0_opcodes then UOP_PORT0
          else if instructionOpcode u \<in> set port1_opcodes then UOP_PORT1
          else if instructionOpcode u \<in> set port5_opcodes then UOP_PORT5
          else UOP_PORT015)
     | UOP_SUBTYPE_BRANCH \<Rightarrow> UOP_PORT5)"

definition getBypassType :: "MicroOp \<Rightarrow> uop_bypass_t" where
  "getBypassType u =
     (if uop_subtype u = UOP_SUBTYPE_LOAD \<and> isFpLoadStore u then UOP_BYPASS_LOAD_FP
      else if uop_subtype u = UOP_SUBTYPE_STORE \<and> isFpLoadStore u then UOP_BYPASS_FP_STORE
      else UOP_BYPASS_NONE)"

definition trig_opcodes :: "xed_iclass_enum_t list" where
  "trig_opcodes =
     [''DIV'', ''IDIV'', ''FDIV'', ''FIDIV'', ''FDIVP'', ''FDIVR'', ''FDIVRP'', ''DIVSS'', ''DIVPS'', ''DIVSD'', ''DIVPD'',
      ''VDIVSS'', ''VDIVPS'', ''VDIVSD'', ''VDIVPD'', ''SQRTSS'', ''SQRTPS'', ''SQRTSD'', ''SQRTPD'', ''VSQRTSS'', ''VSQRTPS'',
      ''VSQRTSD'', ''VSQRTPD'', ''RSQRTSS'', ''RSQRTPS'', ''VRSQRTSS'', ''VRSQRTPS'']"

definition getAlu :: "MicroOp \<Rightarrow> uop_alu_t" where
  "getAlu u = (if uop_type u = UOP_EXECUTE \<and> instructionOpcode u \<in> set trig_opcodes then UOP_ALU_TRIG else UOP_ALU_NONE)"

text \<open>The table of latencies; an opcode that is not listed takes one cycle.\<close>

definition instructionLatencies :: "(xed_iclass_enum_t \<times> UInt32) list" where
  "instructionLatencies =
     [(''MUL'', 3), (''IMUL'', 3), (''DIV'', 28), (''IDIV'', 28), (''ADDPS'', 3), (''ADDSS'', 3), (''ADDSUBPS'', 3),
      (''SUBPS'', 3), (''SUBSS'', 3), (''VADDPS'', 3), (''VADDSS'', 3), (''VADDSUBPS'', 3), (''VSUBPS'', 3), (''VSUBSS'', 3),
      (''ADDPD'', 3), (''ADDSD'', 3), (''ADDSUBPD'', 3), (''SUBPD'', 3), (''SUBSD'', 3), (''VADDPD'', 3), (''VADDSD'', 3),
      (''VADDSUBPD'', 3), (''VSUBPD'', 3), (''VSUBSD'', 3), (''MAXSS'', 3), (''MAXSD'', 3), (''MAXPS'', 3), (''MAXPD'', 3),
      (''MINSS'', 3), (''MINSD'', 3), (''MINPS'', 3), (''MINPD'', 3), (''MULSS'', 4), (''MULPS'', 4), (''VMULSS'', 4),
      (''VMULPS'', 4), (''MULSD'', 5), (''MULPD'', 5), (''VMULSD'', 5), (''VMULPD'', 5), (''DIVSS'', 11), (''DIVPS'', 11),
      (''VDIVSS'', 11), (''VDIVPS'', 11), (''DIVSD'', 17), (''DIVPD'', 17), (''VDIVSD'', 17), (''VDIVPD'', 17),
      (''SQRTSS'', 18), (''SQRTPS'', 18), (''VSQRTSS'', 18), (''VSQRTPS'', 18), (''SQRTSD'', 32), (''SQRTPD'', 32),
      (''VSQRTSD'', 32), (''VSQRTPD'', 32), (''RSQRTSS'', 3), (''RSQRTPS'', 3), (''VRSQRTSS'', 3), (''VRSQRTPS'', 3),
      (''FLDENV'', 110), (''FNSTENV'', 75), (''CVTPD2PS'', 4), (''CVTSD2SS'', 4), (''CVTPS2PD'', 2), (''CVTSS2SD'', 1),
      (''CVTDQ2PS'', 5), (''CVTPS2DQ'', 5), (''CVTTPS2DQ'', 5), (''CVTDQ2PD'', 6), (''CVTPD2DQ'', 6), (''CVTTPD2DQ'', 6),
      (''CVTPI2PS'', 5), (''CVTPS2PI'', 5), (''CVTTPS2PI'', 5), (''CVTPI2PD'', 6), (''CVTPD2PI'', 6), (''CVTTPD2PI'', 6),
      (''CVTSI2SS'', 5), (''CVTSS2SI'', 5), (''CVTTSS2SI'', 5), (''CVTSI2SD'', 6), (''CVTSD2SI'', 5), (''CVTTSD2SI'', 5),
      (''COMISS'', 3), (''COMISD'', 3), (''UCOMISS'', 3), (''UCOMISD'', 3)]"

definition getInstructionLatency :: "MicroOp \<Rightarrow> UInt32" where
  "getInstructionLatency u = (case map_of instructionLatencies (instructionOpcode u) of None \<Rightarrow> 1 | Some n \<Rightarrow> n)"

definition getAluLatency :: "MicroOp \<Rightarrow> UInt32" where
  "getAluLatency u =
     (if instructionOpcode u = ''DIV'' \<or> instructionOpcode u = ''IDIV'' then (if operand_size u > 32 then 28 else 9)
      else getInstructionLatency u)"

fun bypassLatencies :: "uop_bypass_t \<Rightarrow> UInt32" where
  "bypassLatencies UOP_BYPASS_NONE = 0"
| "bypassLatencies UOP_BYPASS_LOAD_FP = 2"
| "bypassLatencies UOP_BYPASS_FP_STORE = 1"

section \<open>Dynamic micro-operations\<close>

datatype hitwhere_t =
    HW_FIRST | HW_L1I | HW_L1_OWN | HW_L2_OWN | HW_L3_OWN | HW_L4_OWN | HW_MISS | HW_NUCA_CACHE | HW_DRAM_CACHE | HW_DRAM | HW_DRAM_LOCAL
  | HW_DRAM_REMOTE | HW_CACHE_REMOTE | HW_SIBLING | HW_L1_SIBLING | HW_L2_SIBLING | HW_L3_SIBLING | HW_L4_SIBLING | HW_UNKNOWN
  | HW_PREDICATE_FALSE | HW_PREFETCH_NO_MAPPING

text \<open>The array of dependencies with its length is a list of at most 14 sequence numbers.\<close>

record DynamicMicroOp =
  d_uop :: MicroOp
  d_period :: SubsecondTime
  sequenceNumber :: UInt64
  d_address :: UInt64
  squashed :: bool
  intraInstructionDependencies :: UInt32
  microOpTypeOffset :: UInt32
  squashedCount :: UInt32
  dependencies :: "UInt64 list"
  execLatency :: UInt32
  branchTaken :: bool
  branchMispredicted :: bool
  branchTargetAddress :: IntPtr
  dCacheHitWhere :: hitwhere_t
  iCacheHitWhere :: hitwhere_t
  iCacheLatency :: UInt32
  m_forceLongLatencyLoad :: bool
  d_first :: bool
  d_last :: bool
  uop_port :: uop_port_t
  uop_alu :: uop_alu_t
  uop_bypass :: uop_bypass_t

text \<open>The address and the target of a branch are not initialised.\<close>

definition createDynamicMicroOp :: "UInt64 \<Rightarrow> IntPtr \<Rightarrow> MicroOp \<Rightarrow> SubsecondTime \<Rightarrow> DynamicMicroOp res" where
  "createDynamicMicroOp fresh_address fresh_target u period =
     bindE (assertE (period \<noteq> 0) (LogError ''MicroOp Period is == SubsecondTime::Zero()''))
     (\<lambda>_. Inr \<lparr>d_uop = u, d_period = period, sequenceNumber = INVALID_SEQNR, d_address = fresh_address, squashed = False,
        intraInstructionDependencies = uop_intraDependencies u, microOpTypeOffset = uop_typeOffset u, squashedCount = 0,
        dependencies = [], execLatency = getInstructionLatency u, branchTaken = False, branchMispredicted = False,
        branchTargetAddress = fresh_target, dCacheHitWhere = HW_UNKNOWN, iCacheHitWhere = HW_L1I, iCacheLatency = 0,
        m_forceLongLatencyLoad = False, d_first = uop_first u, d_last = uop_last u,
        uop_port = getPort u, uop_alu = getAlu u, uop_bypass = getBypassType u\<rparr>)"

text \<open>The first and the last micro-operation of the instruction that is left are marked.\<close>

fun mark_first :: "DynamicMicroOp list \<Rightarrow> DynamicMicroOp list" where
  "mark_first [] = []"
| "mark_first (d # ds) = (if squashed d then d # mark_first ds else d\<lparr>d_first := True\<rparr> # ds)"

fun mark_last :: "DynamicMicroOp list \<Rightarrow> DynamicMicroOp list" where
  "mark_last [] = []"
| "mark_last (d # ds) =
     (if list_all squashed ds \<and> \<not> squashed d then d\<lparr>d_last := True\<rparr> # ds else d # mark_last ds)"

definition squash_at :: "nat \<Rightarrow> DynamicMicroOp list \<Rightarrow> DynamicMicroOp list" where
  "squash_at i ds = mark_last (mark_first (ds[i := (ds ! i)\<lparr>squashed := True\<rparr>]))"

definition first_intra :: "DynamicMicroOp \<Rightarrow> UInt64" where
  "first_intra d = sequenceNumber d - ucast (microOpTypeOffset d) - ucast (intraInstructionDependencies d)"

definition getDependenciesLength :: "DynamicMicroOp \<Rightarrow> UInt32" where
  "getDependenciesLength d = intraInstructionDependencies d + of_nat (length (dependencies d))"

definition getDependency :: "DynamicMicroOp \<Rightarrow> UInt32 \<Rightarrow> UInt64 res" where
  "getDependency d index =
     (if index < intraInstructionDependencies d then Inr (first_intra d + ucast index)
      else let i = unat (index - intraInstructionDependencies d) in
        bindE (assertE (i < length (dependencies d)) (AssertError ''index < dependenciesLength'')) (\<lambda>_. Inr (dependencies d ! i)))"

definition addDependency :: "UInt64 \<Rightarrow> DynamicMicroOp \<Rightarrow> DynamicMicroOp res" where
  "addDependency seq d =
     (if seq \<in> set (dependencies d) then Inr d
      else bindE (assertE (length (dependencies d) < MAXIMUM_NUMBER_OF_DEPENDENCIES) (AssertError ''dependenciesLength < MAX''))
        (\<lambda>_. Inr (d\<lparr>dependencies := dependencies d @ [seq]\<rparr>)))"

text \<open>
  The dependencies inside the instruction are a range of sequence numbers. Those before the one that is removed go to the list, one after
  the other, and the first of the range moves up; the length of the list is checked after the write.
\<close>

fun rotate_intra :: "nat \<Rightarrow> UInt64 \<Rightarrow> DynamicMicroOp \<Rightarrow> DynamicMicroOp res" where
  "rotate_intra n seq d =
     (case n of 0 \<Rightarrow> Inr d
      | Suc n \<Rightarrow>
          if seq = first_intra d then Inr d
          else bindE (assertE (length (dependencies d) < MAXIMUM_NUMBER_OF_DEPENDENCIES) OutOfRange)
            (\<lambda>_. let d = d\<lparr>dependencies := dependencies d @ [first_intra d]\<rparr> in
               bindE (assertE (length (dependencies d) < MAXIMUM_NUMBER_OF_DEPENDENCIES) (LogError ''dependenciesLength > MAX''))
               (\<lambda>_. rotate_intra n seq (d\<lparr>intraInstructionDependencies := intraInstructionDependencies d - 1\<rparr>))))"

declare rotate_intra.simps [simp del]

text \<open>The entry to remove is moved to the end of the list by a swap with the last one.\<close>

definition drop_dependency :: "UInt64 \<Rightarrow> UInt64 list \<Rightarrow> UInt64 list res" where
  "drop_dependency seq ds =
     bindE (assertE (ds \<noteq> []) (LogError ''Cannot remove dependency when there are none''))
     (\<lambda>_. if last ds = seq then Inr (butlast ds)
          else case List.find (\<lambda>i. ds ! i = seq) [0..<length ds] of
            None \<Rightarrow> Inl (LogError ''MicroOp dependency list does not contain'')
          | Some i \<Rightarrow> Inr (butlast (ds[i := last ds])))"

definition removeDependency :: "UInt64 \<Rightarrow> DynamicMicroOp \<Rightarrow> DynamicMicroOp res" where
  "removeDependency seq d =
     (if seq \<ge> first_intra d
      then bindE (rotate_intra (unat (intraInstructionDependencies d)) seq d)
        (\<lambda>d. bindE (assertE (intraInstructionDependencies d > 0) (LogError ''Something went wrong while removing an intra-instruction dependency''))
        (\<lambda>_. Inr (d\<lparr>intraInstructionDependencies := intraInstructionDependencies d - 1\<rparr>)))
      else bindE (drop_dependency seq (dependencies d)) (\<lambda>ds. Inr (d\<lparr>dependencies := ds\<rparr>)))"

definition isLongLatencyLoad :: "UInt32 \<Rightarrow> DynamicMicroOp \<Rightarrow> bool res" where
  "isLongLatencyLoad cutoff d =
     bindE (assertE (isLoad (d_uop d)) (LogError ''Expected a load instruction.''))
     (\<lambda>_. Inr (m_forceLongLatencyLoad d \<or> (cutoff > 0 \<and> execLatency d > cutoff)))"

section \<open>Register dependencies\<close>

text \<open>The length of the table is \<^verbatim>\<open>XED_REG_LAST\<close>; \<open>reg_invalid\<close> is \<^verbatim>\<open>XED_REG_INVALID\<close>.\<close>

record RegisterDependencies =
  reg_invalid :: xed_reg_enum_t
  reg_producers :: "UInt64 list"

definition rd_clear :: "RegisterDependencies \<Rightarrow> RegisterDependencies" where
  "rd_clear r = r\<lparr>reg_producers := map (\<lambda>_. INVALID_SEQNR) (reg_producers r)\<rparr>"

fun rd_sources :: "UInt64 \<Rightarrow> xed_reg_enum_t list \<Rightarrow> DynamicMicroOp \<times> RegisterDependencies \<Rightarrow> (DynamicMicroOp \<times> RegisterDependencies) res" where
  "rd_sources lowest [] (d, r) = Inr (d, r)"
| "rd_sources lowest (reg # regs) (d, r) =
     bindE (assertE (reg < length (reg_producers r)) (LogError ''Source register is invalid''))
     (\<lambda>_. let producer = reg_producers r ! reg in
        if producer = INVALID_SEQNR then rd_sources lowest regs (d, r)
        else if producer \<ge> lowest then bindE (addDependency producer d) (\<lambda>d. rd_sources lowest regs (d, r))
        else rd_sources lowest regs (d, r\<lparr>reg_producers := (reg_producers r)[reg := INVALID_SEQNR]\<rparr>))"

fun rd_destinations :: "UInt64 \<Rightarrow> xed_reg_enum_t list \<Rightarrow> RegisterDependencies \<Rightarrow> RegisterDependencies res" where
  "rd_destinations seq [] r = Inr r"
| "rd_destinations seq (reg # regs) r =
     bindE (assertE (reg < length (reg_producers r)) (LogError ''Destination register is invalid''))
     (\<lambda>_. rd_destinations seq regs (r\<lparr>reg_producers := (reg_producers r)[reg := seq]\<rparr>))"

definition rd_setDependencies :: "UInt64 \<Rightarrow> DynamicMicroOp \<times> RegisterDependencies \<Rightarrow> (DynamicMicroOp \<times> RegisterDependencies) res" where
  "rd_setDependencies lowest = (\<lambda>(d, r).
     bindE (rd_sources lowest (sourceRegisters (d_uop d)) (d, r))
     (\<lambda>(d, r). bindE (rd_destinations (sequenceNumber d) (destinationRegisters (d_uop d)) r) (\<lambda>r. Inr (d, r))))"

definition peekProducer :: "xed_reg_enum_t \<Rightarrow> UInt64 \<Rightarrow> RegisterDependencies \<Rightarrow> UInt64 res" where
  "peekProducer reg lowest r =
     (if reg = reg_invalid r then Inr INVALID_SEQNR
      else if reg \<ge> length (reg_producers r) then Inl OutOfRange
      else let producer = reg_producers r ! reg in
        Inr (if producer = INVALID_SEQNR \<or> producer < lowest then INVALID_SEQNR else producer))"

section \<open>Memory dependencies\<close>

text \<open>The circular queue of 1024 stores, of which \<^verbatim>\<open>LS_Containers\<close> shows that it is a list of bounded length, is a list here.\<close>

record MemoryDependencies =
  md_producers :: "(UInt64 \<times> UInt64) list"
  md_membar :: UInt64

definition mk_MemoryDependencies :: MemoryDependencies where
  "mk_MemoryDependencies = \<lparr>md_producers = [], md_membar = INVALID_SEQNR\<rparr>"

definition md_clean :: "UInt64 \<Rightarrow> MemoryDependencies \<Rightarrow> MemoryDependencies" where
  "md_clean lowest m = m\<lparr>md_producers := dropWhile (\<lambda>p. fst p < lowest) (md_producers m)\<rparr>"

definition md_find :: "UInt64 \<Rightarrow> MemoryDependencies \<Rightarrow> UInt64" where
  "md_find address m = (case List.find (\<lambda>p. snd p = address) (rev (md_producers m)) of None \<Rightarrow> INVALID_SEQNR | Some p \<Rightarrow> fst p)"

definition md_add :: "UInt64 \<Rightarrow> UInt64 \<Rightarrow> MemoryDependencies \<Rightarrow> MemoryDependencies res" where
  "md_add seq address m =
     bindE (assertE (length (md_producers m) < 1024) (AssertError ''!full()''))
     (\<lambda>_. Inr (m\<lparr>md_producers := md_producers m @ [(seq, address)]\<rparr>))"

definition md_barrier :: "UInt64 \<Rightarrow> MemoryDependencies \<Rightarrow> DynamicMicroOp \<Rightarrow> DynamicMicroOp res" where
  "md_barrier lowest m d =
     (if md_membar m \<noteq> INVALID_SEQNR \<and> md_membar m > lowest then addDependency (md_membar m) d else Inr d)"

definition md_setDependencies :: "UInt64 \<Rightarrow> DynamicMicroOp \<times> MemoryDependencies \<Rightarrow> (DynamicMicroOp \<times> MemoryDependencies) res" where
  "md_setDependencies lowest = (\<lambda>(d, m).
     let m = md_clean lowest m in
     if isLoad (d_uop d) then
       let producer = md_find (d_address d) m in
       bindE (if producer \<noteq> INVALID_SEQNR then addDependency producer d else Inr d)
       (\<lambda>d. bindE (md_barrier lowest m d) (\<lambda>d. Inr (d, m)))
     else if isStore (d_uop d) then
       bindE (md_add (sequenceNumber d) (d_address d) m)
       (\<lambda>m. bindE (md_barrier lowest m d) (\<lambda>d. Inr (d, m)))
     else if m_membar (d_uop d) then
       bindE (md_barrier lowest m d) (\<lambda>d. Inr (d, m\<lparr>md_membar := sequenceNumber d\<rparr>))
     else Inr (d, m))"

end
