(* ===== verification/LS_Rob.thy ===== *)
theory LS_Rob
  imports LS_Micro_Op LS_Contention
begin

text \<open>
  The out-of-order core model: \<^verbatim>\<open>rob_contention_nehalem.cc\<close>, the issue ports of a cycle, and \<^verbatim>\<open>rob_timer.cc\<close>, the reorder buffer.
  Micro-operations enter the buffer in program order, are dispatched into its window, issued when their dependencies are resolved, and
  leave it in order. The circular queue of the buffer is a list; a pointer to an entry is its sequence number, and following it is a
  search for that number. The answer of the memory hierarchy to an access is the argument \<open>mem\<close>, a function of the sequence number
  of the micro-operation, which accesses memory at most once, and of the time.
\<close>

section \<open>Ports\<close>

record RobContentionNehalem =
  rc_now :: SubsecondTime
  rc_ports :: "uop_port_t \<Rightarrow> bool"
  ports_generic :: nat
  ports_generic05 :: nat
  alu_used_until :: "uop_alu_t \<Rightarrow> SubsecondTime"

definition initCycle :: "SubsecondTime \<Rightarrow> RobContentionNehalem \<Rightarrow> RobContentionNehalem" where
  "initCycle now c = c\<lparr>rc_now := now, rc_ports := (\<lambda>_. False), ports_generic := 0, ports_generic05 := 0\<rparr>"

definition take_port :: "uop_port_t \<Rightarrow> RobContentionNehalem \<Rightarrow> RobContentionNehalem option" where
  "take_port p c =
     (if p = UOP_PORT015 then (if ports_generic c \<ge> 3 then None else Some (c\<lparr>ports_generic := ports_generic c + 1\<rparr>))
      else if p = UOP_PORT05 then (if ports_generic05 c \<ge> 2 then None else Some (c\<lparr>ports_generic05 := ports_generic05 c + 1\<rparr>))
      else if p = UOP_PORT2 \<or> p = UOP_PORT34 then (if rc_ports c p then None else Some (c\<lparr>rc_ports := (rc_ports c)(p := True)\<rparr>))
      else if rc_ports c p then None
      else if ports_generic c \<ge> 3 then None
      else if p \<noteq> UOP_PORT1 \<and> ports_generic05 c \<ge> 2 then None
      else Some (c\<lparr>rc_ports := (rc_ports c)(p := True), ports_generic := ports_generic c + 1,
                   ports_generic05 := (if p \<noteq> UOP_PORT1 then ports_generic05 c + 1 else ports_generic05 c)\<rparr>))"

definition tryIssue :: "DynamicMicroOp \<Rightarrow> RobContentionNehalem \<Rightarrow> bool \<times> RobContentionNehalem" where
  "tryIssue d c =
     (case take_port (uop_port d) c of None \<Rightarrow> (False, c)
      | Some c \<Rightarrow> if uop_alu d \<noteq> UOP_ALU_NONE \<and> alu_used_until c (uop_alu d) > rc_now c then (False, c) else (True, c))"

definition rc_doIssue :: "SubsecondTime \<Rightarrow> DynamicMicroOp \<Rightarrow> RobContentionNehalem \<Rightarrow> RobContentionNehalem" where
  "rc_doIssue period d c =
     (if uop_alu d \<noteq> UOP_ALU_NONE
      then c\<lparr>alu_used_until := (alu_used_until c)(uop_alu d := rc_now c + period * ucast (getAluLatency (d_uop d)))\<rparr> else c)"

definition noMore :: "RobContentionNehalem \<Rightarrow> bool" where
  "noMore c \<longleftrightarrow> rc_ports c UOP_PORT2 \<and> rc_ports c UOP_PORT34 \<and> ports_generic c \<ge> 3"

section \<open>The state\<close>

record RobEntry =
  e_uop :: DynamicMicroOp
  e_dependants :: "UInt64 list"
  e_addressProducers :: "UInt64 list"
  e_dispatched :: SubsecondTime
  e_ready :: SubsecondTime
  e_readyMax :: SubsecondTime
  e_addressReady :: SubsecondTime
  e_addressReadyMax :: SubsecondTime
  e_issued :: SubsecondTime
  e_done :: SubsecondTime

datatype cpi_t = CpiBase | CpiBranchPredictor | CpiSerialization | CpiRSFull | CpiInstructionCache hitwhere_t | CpiDataCache hitwhere_t

record RobTimer =
  dispatchWidth :: UInt64
  commitWidth :: UInt64
  windowSize :: UInt64
  rsEntries :: UInt64
  misprediction_penalty :: UInt64
  m_store_to_load_forwarding :: bool
  m_no_address_disambiguation :: bool
  inorder :: bool
  m_lll_cutoff :: UInt32
  rob_capacity :: nat
  rob :: "RobEntry list"
  m_num_in_rob :: UInt64
  m_rs_entries_used :: UInt64
  m_rob_contention :: "RobContentionNehalem option"
  rt_now :: SubsecondTime
  rt_period :: SubsecondTime
  frontend_stalled_until :: SubsecondTime
  in_icache_miss :: bool
  last_store_done :: SubsecondTime
  load_queue :: ContentionModel
  store_queue :: ContentionModel
  nextSequenceNumber :: UInt64
  will_skip :: bool
  time_skipped :: SubsecondTime
  registerDependencies :: RegisterDependencies
  memoryDependencies :: MemoryDependencies
  m_uop_type_count :: "uop_subtype_t \<Rightarrow> UInt64"
  m_uops_total :: UInt64
  m_uops_x87 :: UInt64
  m_uops_pause :: UInt64
  m_outstandingLongLatencyInsns :: SubsecondTime
  m_outstandingLongLatencyCycles :: SubsecondTime
  m_lastAccountedMemoryCycle :: SubsecondTime
  m_loads_count :: UInt64
  m_loads_latency :: SubsecondTime
  m_stores_count :: UInt64
  m_stores_latency :: SubsecondTime
  m_totalProducerInsDistance :: UInt64
  m_totalConsumers :: UInt64
  m_producerInsDistance :: "UInt64 list"
  m_cpi :: "cpi_t \<Rightarrow> SubsecondTime"
  m_cpiCurrentFrontEndStall :: "cpi_t option"
  m_mlp_histogram :: bool
  m_outstandingLoads :: "hitwhere_t \<Rightarrow> SubsecondTime list"
  m_outstandingLoadsAll :: "SubsecondTime list"

text \<open>
  The constructor; the entries of the configuration are arguments. \<open>regs\<close> is \<^verbatim>\<open>XED_REG_LAST\<close>, and the contention model is there when
  \<open>issue_contention\<close> is set.
\<close>

definition mk_RobTimer ::
  "UInt32 \<Rightarrow> UInt32 \<Rightarrow> UInt32 \<Rightarrow> UInt64 \<Rightarrow> UInt64 \<Rightarrow> bool \<Rightarrow> bool \<Rightarrow> bool \<Rightarrow> bool \<Rightarrow> bool \<Rightarrow> UInt32 \<Rightarrow> UInt32 \<Rightarrow> UInt32 \<Rightarrow> SubsecondTime \<Rightarrow>
    xed_reg_enum_t \<Rightarrow> nat \<Rightarrow> RobTimer" where
  "mk_RobTimer penalty dispatch_width window_size commit_width rs_entries forwarding address_disambiguation in_order issue_contention mlp_histogram
     outstanding_loads outstanding_stores lll_cutoff period invalid regs =
     \<lparr>dispatchWidth = ucast dispatch_width, commitWidth = commit_width, windowSize = ucast window_size, rsEntries = rs_entries,
      misprediction_penalty = ucast penalty, m_store_to_load_forwarding = forwarding, m_no_address_disambiguation = \<not> address_disambiguation,
      inorder = in_order, m_lll_cutoff = lll_cutoff, rob_capacity = unat (window_size + 255), rob = [], m_num_in_rob = 0, m_rs_entries_used = 0,
      m_rob_contention = (if issue_contention then Some \<lparr>rc_now = 0, rc_ports = (\<lambda>_. False), ports_generic = 0, ports_generic05 = 0, alu_used_until = (\<lambda>_. 0)\<rparr> else None),
      rt_now = 0, rt_period = period, frontend_stalled_until = 0, in_icache_miss = False, last_store_done = 0,
      load_queue = mk_ContentionModel None outstanding_loads, store_queue = mk_ContentionModel None outstanding_stores,
      nextSequenceNumber = 0, will_skip = False, time_skipped = 0,
      registerDependencies = \<lparr>reg_invalid = invalid, reg_producers = replicate regs INVALID_SEQNR\<rparr>, memoryDependencies = mk_MemoryDependencies,
      m_uop_type_count = (\<lambda>_. 0), m_uops_total = 0, m_uops_x87 = 0, m_uops_pause = 0, m_outstandingLongLatencyInsns = 0,
      m_outstandingLongLatencyCycles = 0, m_lastAccountedMemoryCycle = 0, m_loads_count = 0, m_loads_latency = 0, m_stores_count = 0, m_stores_latency = 0,
      m_totalProducerInsDistance = 0, m_totalConsumers = 0, m_producerInsDistance = replicate (unat window_size) 0, m_cpi = (\<lambda>_. 0),
      m_cpiCurrentFrontEndStall = None, m_mlp_histogram = mlp_histogram, m_outstandingLoads = (\<lambda>_. replicate 32 0), m_outstandingLoadsAll = replicate 32 0\<rparr>"

text \<open>The number of cycles from \<open>now\<close> on, as \<^verbatim>\<open>ComponentTime\<close> adds them.\<close>

definition in_cycles :: "RobTimer \<Rightarrow> UInt64 \<Rightarrow> SubsecondTime" where
  "in_cycles t n = rt_now t + rt_period t * n"

definition init_entry :: "SubsecondTime \<Rightarrow> DynamicMicroOp \<Rightarrow> UInt64 \<Rightarrow> RobEntry" where
  "init_entry fresh d seq = \<lparr>e_uop = d\<lparr>sequenceNumber := seq\<rparr>, e_dependants = [], e_addressProducers = [], e_dispatched = fresh,
     e_ready = MaxTime, e_readyMax = 0, e_addressReady = MaxTime, e_addressReadyMax = 0, e_issued = MaxTime, e_done = MaxTime\<rparr>"

abbreviation e_seq :: "RobEntry \<Rightarrow> UInt64" where
  "e_seq e \<equiv> sequenceNumber (e_uop e)"

definition change_entry :: "nat \<Rightarrow> (RobEntry \<Rightarrow> RobEntry) \<Rightarrow> RobTimer \<Rightarrow> RobTimer" where
  "change_entry i f t = t\<lparr>rob := (rob t)[i := f (rob t ! i)]\<rparr>"

text \<open>The position of the entry with a sequence number.\<close>

definition findEntryBySequenceNumber :: "UInt64 \<Rightarrow> RobTimer \<Rightarrow> nat res" where
  "findEntryBySequenceNumber seq t =
     (case rob t of [] \<Rightarrow> Inl OutOfRange
      | e # _ \<Rightarrow> let position = unat (seq - e_seq e) in
          bindE (assertE (position < length (rob t)) (LogError ''Sequence number outside of ROB''))
          (\<lambda>_. bindE (assertE (e_seq (rob t ! position) = seq) (LogError ''Sequence number unexpectedly not at ROB position''))
          (\<lambda>_. Inr position)))"

definition rob_at :: "nat \<Rightarrow> RobTimer \<Rightarrow> RobEntry res" where
  "rob_at i t = bindE (assertE (i < length (rob t)) (AssertError ''idx < size()'')) (\<lambda>_. Inr (rob t ! i))"

section \<open>Entering the buffer\<close>

fun note_address_producers :: "nat \<Rightarrow> UInt64 \<Rightarrow> xed_reg_enum_t list \<Rightarrow> RobTimer \<Rightarrow> RobTimer res" where
  "note_address_producers i lowest [] t = Inr t"
| "note_address_producers i lowest (reg # regs) t =
     bindE (peekProducer reg lowest (registerDependencies t))
     (\<lambda>p. bindE (if p = INVALID_SEQNR then Inr t
        else bindE (findEntryBySequenceNumber p t)
          (\<lambda>j. if e_done (rob t ! j) \<noteq> MaxTime
               then Inr (change_entry i (\<lambda>e. e\<lparr>e_addressReadyMax := max (e_addressReadyMax e) (e_done (rob t ! j))\<rparr>) t)
               else Inr (change_entry i (\<lambda>e. e\<lparr>e_addressProducers := e_addressProducers e @ [p]\<rparr>) t)))
     (\<lambda>t. note_address_producers i lowest regs t))"

definition enter_address :: "nat \<Rightarrow> UInt64 \<Rightarrow> RobTimer \<Rightarrow> RobTimer res" where
  "enter_address i lowest t =
     (if isStore (d_uop (e_uop (rob t ! i)))
      then bindE (note_address_producers i lowest (addressRegisters (d_uop (e_uop (rob t ! i)))) t)
        (\<lambda>t. Inr (if e_addressProducers (rob t ! i) = [] then change_entry i (\<lambda>e. e\<lparr>e_addressReady := e_addressReadyMax e\<rparr>) t else t))
      else Inr t)"

definition enter_dependencies :: "nat \<Rightarrow> UInt64 \<Rightarrow> RobTimer \<Rightarrow> RobTimer res" where
  "enter_dependencies i lowest t =
     bindE (rd_setDependencies lowest (e_uop (rob t ! i), registerDependencies t))
     (\<lambda>(d, r). bindE (md_setDependencies lowest (d, memoryDependencies t))
     (\<lambda>(d, m). Inr (change_entry i (\<lambda>e. e\<lparr>e_uop := d\<rparr>) (t\<lparr>registerDependencies := r, memoryDependencies := m\<rparr>))))"

text \<open>A load that depends on a store depends on what the store depends on instead.\<close>

fun add_dependencies :: "UInt32 list \<Rightarrow> DynamicMicroOp \<Rightarrow> DynamicMicroOp \<Rightarrow> DynamicMicroOp res" where
  "add_dependencies [] p d = Inr d"
| "add_dependencies (j # js) p d = bindE (getDependency p j) (\<lambda>s. bindE (addDependency s d) (\<lambda>d. add_dependencies js p d))"

definition indices :: "UInt32 \<Rightarrow> UInt32 list" where
  "indices n = map of_nat [0..<unat n]"

fun forward_store :: "nat \<Rightarrow> UInt32 list \<Rightarrow> RobTimer \<Rightarrow> RobTimer res" where
  "forward_store i [] t = Inr t"
| "forward_store i (k # ks) t =
     (let d = e_uop (rob t ! i) in
      bindE (getDependency d k) (\<lambda>s. bindE (findEntryBySequenceNumber s t)
      (\<lambda>j. let p = e_uop (rob t ! j) in
         if isStore (d_uop p)
         then bindE (removeDependency s d)
           (\<lambda>d. bindE (add_dependencies (indices (getDependenciesLength p)) p d)
           (\<lambda>d. Inr (change_entry i (\<lambda>e. e\<lparr>e_uop := d\<rparr>) t)))
         else forward_store i ks t)))"

definition enter_forwarding :: "nat \<Rightarrow> RobTimer \<Rightarrow> RobTimer res" where
  "enter_forwarding i t =
     (if m_store_to_load_forwarding t \<and> isLoad (d_uop (e_uop (rob t ! i)))
      then forward_store i (indices (getDependenciesLength (e_uop (rob t ! i)))) t else Inr t)"

text \<open>
  The entry joins the dependants of the entries it depends on; producers that are done already are collected in an array of eight. The
  result has the smallest distance to a producer.
\<close>

fun join_dependants :: "nat \<Rightarrow> UInt32 list \<Rightarrow> UInt64 \<times> UInt64 list \<Rightarrow> RobTimer \<Rightarrow> (UInt64 \<times> UInt64 list \<times> RobTimer) res" where
  "join_dependants i [] (distance, dtr) t = Inr (distance, dtr, t)"
| "join_dependants i (k # ks) (distance, dtr) t =
     (let d = e_uop (rob t ! i) in
      bindE (getDependency d k) (\<lambda>s. bindE (findEntryBySequenceNumber s t)
      (\<lambda>j. let p = rob t ! j; distance = min distance (sequenceNumber d - e_seq p) in
         if e_done p \<noteq> MaxTime
         then bindE (assertE (length dtr < 8) OutOfRange)
           (\<lambda>_. join_dependants i ks (distance, dtr @ [s]) (change_entry i (\<lambda>e. e\<lparr>e_readyMax := max (e_readyMax e) (e_done p)\<rparr>) t))
         else join_dependants i ks (distance, dtr) (change_entry j (\<lambda>e. e\<lparr>e_dependants := e_dependants e @ [sequenceNumber d]\<rparr>) t))))"

fun remove_dependencies :: "UInt64 list \<Rightarrow> DynamicMicroOp \<Rightarrow> DynamicMicroOp res" where
  "remove_dependencies [] d = Inr d"
| "remove_dependencies (s # ss) d = bindE (removeDependency s d) (\<lambda>d. remove_dependencies ss d)"

definition UINT64_MAX :: UInt64 where
  "UINT64_MAX = -1"

definition count_distance :: "UInt64 \<Rightarrow> RobTimer \<Rightarrow> RobTimer res" where
  "count_distance distance t =
     (let n = length (m_producerInsDistance t);
          t = (if distance \<noteq> UINT64_MAX then t\<lparr>m_totalProducerInsDistance := m_totalProducerInsDistance t + distance\<rparr> else t);
          k = (if distance = UINT64_MAX then 0 else if unat distance \<ge> n then n - 1 else unat distance)
      in bindE (assertE (n > 0) OutOfRange)
        (\<lambda>_. Inr (t\<lparr>m_producerInsDistance := (m_producerInsDistance t)[k := m_producerInsDistance t ! k + 1]\<rparr>)))"

definition enter_dependants :: "nat \<Rightarrow> RobTimer \<Rightarrow> RobTimer res" where
  "enter_dependants i t =
     bindE (join_dependants i (indices (getDependenciesLength (e_uop (rob t ! i)))) (UINT64_MAX, []) (t\<lparr>m_totalConsumers := m_totalConsumers t + 1\<rparr>))
     (\<lambda>(distance, dtr, t). bindE (count_distance distance t)
     (\<lambda>t. bindE (assertE (length dtr < 16) (LogError ''Have to remove more dependencies than I expected''))
     (\<lambda>_. bindE (remove_dependencies dtr (e_uop (rob t ! i)))
     (\<lambda>d. Inr (change_entry i (\<lambda>e. e\<lparr>e_uop := d, e_ready := (if getDependenciesLength d = 0 then e_readyMax e else e_ready e)\<rparr>) t)))))"

definition count_uop :: "MicroOp \<Rightarrow> RobTimer \<Rightarrow> RobTimer" where
  "count_uop u t = t\<lparr>m_uop_type_count := (m_uop_type_count t)(uop_subtype u := m_uop_type_count t (uop_subtype u) + 1),
     m_uops_total := m_uops_total t + 1, m_uops_x87 := (if is_x87 u then m_uops_x87 t + 1 else m_uops_x87 t),
     m_uops_pause := (if instructionOpcode u = ''PAUSE'' then m_uops_pause t + 1 else m_uops_pause t)\<rparr>"

definition enter_uop :: "SubsecondTime \<Rightarrow> DynamicMicroOp \<Rightarrow> RobTimer \<Rightarrow> RobTimer res" where
  "enter_uop fresh d t =
     (if squashed d then Inr t
      else bindE (assertE (length (rob t) < rob_capacity t) (AssertError ''!full()''))
       (\<lambda>_. let i = length (rob t);
               t = t\<lparr>rob := rob t @ [init_entry fresh d (nextSequenceNumber t)], nextSequenceNumber := nextSequenceNumber t + 1\<rparr>;
               lowest = e_seq (hd (rob t))
           in bindE (enter_address i lowest t)
             (\<lambda>t. bindE (enter_dependencies i lowest t)
             (\<lambda>t. bindE (enter_forwarding i t)
             (\<lambda>t. bindE (enter_dependants i t)
             (\<lambda>t. Inr (count_uop (d_uop d) t)))))))"

section \<open>Dispatch\<close>

fun find_cpi :: "nat list \<Rightarrow> RobTimer \<Rightarrow> cpi_t option res" where
  "find_cpi [] t = Inr None"
| "find_cpi (i # is) t =
     bindE (rob_at i t)
     (\<lambda>e. if e_done e < rt_now t then find_cpi is t
        else let u = d_uop (e_uop e) in
          Inr (if uop_serializing u \<or> m_membar u then Some CpiSerialization
               else if isLoad u \<or> isStore u then Some (CpiDataCache (dCacheHitWhere (e_uop e)))
               else None))"

definition findCpiComponent :: "RobTimer \<Rightarrow> cpi_t option res" where
  "findCpiComponent t = find_cpi [0..<unat (m_num_in_rob t)] t"

text \<open>The loop runs while there is room in the window; its first argument is the room.\<close>

fun dispatch_loop :: "nat \<Rightarrow> UInt32 \<Rightarrow> SubsecondTime \<Rightarrow> RobTimer \<Rightarrow> (SubsecondTime \<times> cpi_t option \<times> RobTimer) res" where
  "dispatch_loop 0 uops_dispatched next_event t = Inr (next_event, None, t)"
| "dispatch_loop (Suc room) uops_dispatched next_event t =
     bindE (assertE (unat (m_num_in_rob t) < length (rob t)) (LogError ''Expected sufficient uops for dispatching in pre-ROB buffer, but didn't find them''))
     (\<lambda>_. let i = unat (m_num_in_rob t); d = e_uop (rob t ! i) in
        if ucast uops_dispatched = dispatchWidth t then Inr (next_event, None, t)
        else if iCacheHitWhere d \<noteq> HW_L1I \<and> \<not> in_icache_miss t
        then Inr (next_event, Some (CpiInstructionCache (iCacheHitWhere d)),
                  t\<lparr>frontend_stalled_until := in_cycles t (ucast (iCacheLatency d)), in_icache_miss := True\<rparr>)
        else
          let t = (if iCacheHitWhere d \<noteq> HW_L1I then t\<lparr>in_icache_miss := False\<rparr> else t) in
          if m_rs_entries_used t = rsEntries t then Inr (next_event, Some CpiRSFull, t)
          else
            let ready = max (e_ready (rob t ! i)) (in_cycles t 1);
                t = change_entry i (\<lambda>e. e\<lparr>e_dispatched := rt_now t, e_ready := ready\<rparr>) t;
                t = t\<lparr>m_num_in_rob := m_num_in_rob t + 1, m_rs_entries_used := m_rs_entries_used t + 1\<rparr>
            in if uop_branch (d_uop d) \<and> branchMispredicted d
               then Inr (min next_event ready, Some CpiBranchPredictor, t\<lparr>frontend_stalled_until := MaxTime\<rparr>)
               else dispatch_loop room (uops_dispatched + 1) (min next_event ready) t)"

definition doDispatch :: "RobTimer \<Rightarrow> (SubsecondTime \<times> cpi_t \<times> RobTimer) res" where
  "doDispatch t =
     bindE (if frontend_stalled_until t \<le> rt_now t
            then bindE (dispatch_loop (unat (windowSize t) - unat (m_num_in_rob t)) 0 MaxTime t)
              (\<lambda>(next_event, c, t). Inr (next_event, c, t\<lparr>m_cpiCurrentFrontEndStall := c\<rparr>))
            else Inr (MaxTime, m_cpiCurrentFrontEndStall t, t))
     (\<lambda>(next_event, cpiFrontEnd, t). bindE (findCpiComponent t)
     (\<lambda>cpiRobHead.
        let c = (case cpiFrontEnd of
                   Some f \<Rightarrow> (case cpiRobHead of Some h \<Rightarrow> h | None \<Rightarrow> f)
                 | None \<Rightarrow> if m_num_in_rob t = windowSize t then (case cpiRobHead of Some h \<Rightarrow> h | None \<Rightarrow> CpiBase) else CpiBase)
        in Inr (if m_num_in_rob t = windowSize t then next_event else min (frontend_stalled_until t) next_event, c, t)))"

section \<open>Issue\<close>

text \<open>The access to memory, and the place in the queue of loads or stores.\<close>

definition access_memory :: "(UInt64 \<Rightarrow> SubsecondTime \<Rightarrow> SubsecondTime \<times> hitwhere_t) \<Rightarrow> nat \<Rightarrow> RobTimer \<Rightarrow> RobTimer res" where
  "access_memory mem i t =
     (let d = e_uop (rob t ! i) in
      if (isLoad (d_uop d) \<or> isStore (d_uop d)) \<and> dCacheHitWhere d = HW_UNKNOWN
      then let (l, hit_where) = mem (sequenceNumber d) (rt_now t) in
        bindE (divideRounded l (rt_period t))
        (\<lambda>latency. Inr (change_entry i (\<lambda>e. e\<lparr>e_uop := d\<lparr>execLatency := ucast (ucast (execLatency d) + latency), dCacheHitWhere := hit_where\<rparr>\<rparr>) t))
      else Inr t)"

definition enter_queue :: "DynamicMicroOp \<Rightarrow> RobTimer \<Rightarrow> RobTimer" where
  "enter_queue d t =
     (let latency = ucast (execLatency d) * rt_period t in
      if isLoad (d_uop d)
      then t\<lparr>load_queue := snd (getCompletionTime (rt_now t) latency (d_address d) (load_queue t)),
             m_loads_count := m_loads_count t + 1, m_loads_latency := m_loads_latency t + latency\<rparr>
      else if isStore (d_uop d)
      then t\<lparr>store_queue := snd (getCompletionTime (rt_now t) latency (d_address d) (store_queue t)),
             m_stores_count := m_stores_count t + 1, m_stores_latency := m_stores_latency t + latency\<rparr>
      else t)"

fun address_producers :: "nat \<Rightarrow> SubsecondTime \<Rightarrow> UInt64 list \<Rightarrow> bool \<times> SubsecondTime \<Rightarrow> RobTimer \<Rightarrow> (bool \<times> SubsecondTime) res" where
  "address_producers i cycle_depend [] (ready, readyMax) t = Inr (ready, readyMax)"
| "address_producers i cycle_depend (p # ps) (ready, readyMax) t =
     (if p \<ge> e_seq (hd (rob t))
      then bindE (findEntryBySequenceNumber p t)
        (\<lambda>j. address_producers i cycle_depend ps
          (ready \<and> e_done (rob t ! j) \<noteq> MaxTime, if j = i then max readyMax cycle_depend else readyMax) t)
      else address_producers i cycle_depend ps (ready, readyMax) t)"

text \<open>The dependants of the entry that is issued: the dependency is removed, and with the last of them the time it is ready is known.\<close>

definition resolved_entry :: "DynamicMicroOp \<Rightarrow> SubsecondTime \<Rightarrow> RobEntry \<Rightarrow> RobEntry" where
  "resolved_entry d cycle_depend e =
     (let readyMax = max (e_readyMax e) cycle_depend in
      e\<lparr>e_readyMax := readyMax, e_uop := d, e_ready := (if getDependenciesLength d = 0 then readyMax else e_ready e)\<rparr>)"

definition settle_address :: "nat \<Rightarrow> SubsecondTime \<Rightarrow> nat \<Rightarrow> RobTimer \<Rightarrow> RobTimer res" where
  "settle_address i cycle_depend j t =
     (let e = rob t ! j in
      if isStore (d_uop (e_uop e)) \<and> e_addressReady e = MaxTime
      then bindE (address_producers i cycle_depend (e_addressProducers e) (True, e_addressReadyMax e) t)
        (\<lambda>(ready, addressReadyMax).
           Inr (change_entry j (\<lambda>e. e\<lparr>e_addressReadyMax := addressReadyMax, e_addressReady := (if ready then addressReadyMax else e_addressReady e)\<rparr>) t))
      else Inr t)"

definition resolve_one :: "nat \<Rightarrow> UInt64 \<Rightarrow> SubsecondTime \<Rightarrow> UInt64 \<Rightarrow> RobTimer \<Rightarrow> RobTimer res" where
  "resolve_one i seq cycle_depend dep t =
     bindE (findEntryBySequenceNumber dep t)
     (\<lambda>j. bindE (assertE (getDependenciesLength (e_uop (rob t ! j)) > 0) (LogError ''??''))
     (\<lambda>_. bindE (removeDependency seq (e_uop (rob t ! j)))
     (\<lambda>d. settle_address i cycle_depend j (t\<lparr>rob := (rob t)[j := resolved_entry d cycle_depend (rob t ! j)]\<rparr>))))"

fun resolve_dependants :: "nat \<Rightarrow> UInt64 \<Rightarrow> SubsecondTime \<Rightarrow> UInt64 list \<Rightarrow> RobTimer \<Rightarrow> RobTimer res" where
  "resolve_dependants i seq cycle_depend [] t = Inr t"
| "resolve_dependants i seq cycle_depend (dep # deps) t =
     bindE (resolve_one i seq cycle_depend dep t) (resolve_dependants i seq cycle_depend deps)"

text \<open>When the result is there for dependent micro-operations, and when the entry can be committed; stores forward their result at once.\<close>

definition cycle_depend :: "RobTimer \<Rightarrow> DynamicMicroOp \<Rightarrow> SubsecondTime" where
  "cycle_depend t d = (if isStore (d_uop d) then in_cycles t 1 else in_cycles t (ucast (execLatency d)))"

definition cycle_done :: "RobTimer \<Rightarrow> DynamicMicroOp \<Rightarrow> SubsecondTime" where
  "cycle_done t d = (if isStore (d_uop d) then in_cycles t 1 else in_cycles t (ucast (execLatency d)) + rt_period t)"

definition note_store :: "DynamicMicroOp \<Rightarrow> RobTimer \<Rightarrow> RobTimer" where
  "note_store d t =
     (if isStore (d_uop d)
      then t\<lparr>last_store_done := max (last_store_done t) (in_cycles t (ucast (execLatency d)) + rt_period t)\<rparr> else t)"

definition start_execution :: "nat \<Rightarrow> RobTimer \<Rightarrow> RobTimer" where
  "start_execution i t =
     (let d = e_uop (rob t ! i);
          t = note_store d (enter_queue d t);
          t = t\<lparr>m_rob_contention := map_option (rc_doIssue (rt_period t) d) (m_rob_contention t)\<rparr>
      in (change_entry i (\<lambda>e. e\<lparr>e_issued := rt_now t, e_done := cycle_done t d\<rparr>) t)\<lparr>m_rs_entries_used := m_rs_entries_used t - 1\<rparr>)"

text \<open>After a mispredicted branch the front end starts again.\<close>

definition resume_frontend :: "DynamicMicroOp \<Rightarrow> RobTimer \<Rightarrow> RobTimer" where
  "resume_frontend d t =
     (if uop_branch (d_uop d) \<and> branchMispredicted d
      then t\<lparr>frontend_stalled_until := in_cycles t (misprediction_penalty t - 2)\<rparr> else t)"

definition issueInstruction ::
  "(UInt64 \<Rightarrow> SubsecondTime \<Rightarrow> SubsecondTime \<times> hitwhere_t) \<Rightarrow> nat \<Rightarrow> SubsecondTime \<Rightarrow> RobTimer \<Rightarrow> (SubsecondTime \<times> RobTimer) res" where
  "issueInstruction mem i next_event t =
     bindE (access_memory mem i t)
     (\<lambda>t. let e = rob t ! i; d = e_uop e in
        bindE (assertE (isStore (d_uop d) \<longrightarrow> e_addressReady e \<le> e_ready e) (LogError ''Store address cannot be ready later than the whole uop is''))
        (\<lambda>_. bindE (resolve_dependants i (sequenceNumber d) (cycle_depend t d) (e_dependants e) (start_execution i t))
        (\<lambda>u. Inr (min next_event (cycle_done t d), resume_frontend d u))))"

datatype issue_t = CanIssue | CannotIssue | StopIssue

record IssueFlags =
  num_issued :: UInt64
  head_of_queue :: bool
  no_more_load :: bool
  no_more_store :: bool
  have_unresolved_store :: bool

definition free_load :: "RobTimer \<Rightarrow> bool \<times> RobTimer" where
  "free_load t = (let (b, q) = hasFreeSlot (rt_now t) (-1) (load_queue t) in (b, t\<lparr>load_queue := q\<rparr>))"

definition free_store :: "RobTimer \<Rightarrow> bool \<times> RobTimer" where
  "free_store t = (let (b, q) = hasFreeSlot (rt_now t) (-1) (store_queue t) in (b, t\<lparr>store_queue := q\<rparr>))"

definition canIssue :: "RobEntry \<Rightarrow> IssueFlags \<Rightarrow> RobTimer \<Rightarrow> issue_t \<times> IssueFlags \<times> RobTimer" where
  "canIssue e f t =
     (let u = d_uop (e_uop e) in
      if e_ready e > rt_now t then (CannotIssue, f, t)
      else if no_more_load f \<and> isLoad u \<or> no_more_store f \<and> isStore u then (CannotIssue, f, t)
      else if uop_serializing u then
        (if head_of_queue f \<and> last_store_done t \<le> rt_now t then (CanIssue, f, t) else (StopIssue, f, t))
      else if m_membar u then
        (if head_of_queue f \<and> last_store_done t \<le> rt_now t then (CanIssue, f, t)
         else (CannotIssue, f\<lparr>no_more_load := True, no_more_store := True\<rparr>, t))
      else if m_rob_contention t = None \<and> num_issued f = dispatchWidth t then (CannotIssue, f, t)
      else if isLoad u then
        (let (free, t) = free_load t in
         if \<not> free then (CannotIssue, f, t)
         else if m_no_address_disambiguation t \<and> have_unresolved_store f then (CannotIssue, f, t)
         else (CanIssue, f, t))
      else if isStore u then
        (if \<not> head_of_queue f then (CannotIssue, f, t)
         else let (free, t) = free_store t in (if free then CanIssue else CannotIssue, f, t))
      else (CanIssue, f, t))"

text \<open>The ports are asked last, because the answer takes the port.\<close>

definition ask_port :: "issue_t \<Rightarrow> DynamicMicroOp \<Rightarrow> RobTimer \<Rightarrow> issue_t \<times> RobTimer" where
  "ask_port a d t =
     (case m_rob_contention t of None \<Rightarrow> (a, t)
      | Some c \<Rightarrow> if a = CanIssue
          then let (ok, c) = tryIssue d c in (if ok then CanIssue else CannotIssue, t\<lparr>m_rob_contention := Some c\<rparr>)
          else (a, t))"

text \<open>Memory-level parallelism of long-latency loads.\<close>

definition account_memory :: "RobEntry \<Rightarrow> RobTimer \<Rightarrow> RobTimer res" where
  "account_memory e t =
     (if isLoad (d_uop (e_uop e))
      then bindE (isLongLatencyLoad (m_lll_cutoff t) (e_uop e))
        (\<lambda>long. if long \<and> dCacheHitWhere (e_uop e) \<noteq> HW_L1_OWN
           then let last = (if m_lastAccountedMemoryCycle t < rt_now t then rt_now t else m_lastAccountedMemoryCycle t);
                    done = max (rt_now t) (e_done e);
                    t = t\<lparr>m_lastAccountedMemoryCycle := last, m_outstandingLongLatencyInsns := m_outstandingLongLatencyInsns t + (done - rt_now t)\<rparr>
                in Inr (if done > last
                     then t\<lparr>m_outstandingLongLatencyCycles := m_outstandingLongLatencyCycles t + (done - last), m_lastAccountedMemoryCycle := done\<rparr>
                     else t)
           else Inr t)
      else Inr t)"

definition issue_stops :: "IssueFlags \<Rightarrow> RobTimer \<Rightarrow> bool" where
  "issue_stops f t = (case m_rob_contention t of Some c \<Rightarrow> noMore c | None \<Rightarrow> num_issued f = dispatchWidth t)"

fun issue_loop ::
  "(UInt64 \<Rightarrow> SubsecondTime \<Rightarrow> SubsecondTime \<times> hitwhere_t) \<Rightarrow> nat list \<Rightarrow> IssueFlags \<Rightarrow> SubsecondTime \<Rightarrow> RobTimer \<Rightarrow> (SubsecondTime \<times> RobTimer) res" where
  "issue_loop mem [] f next_event t = Inr (next_event, t)"
| "issue_loop mem (i # is) f next_event t =
     bindE (rob_at i t)
     (\<lambda>e. if e_done e \<noteq> MaxTime then issue_loop mem is f (min next_event (e_done e)) t
        else
          let next_event = min next_event (e_ready e);
              (a, f, t) = canIssue e f t;
              (a, t) = ask_port a (e_uop e) t
          in if a = StopIssue then Inr (next_event, t)
             else if a = CanIssue
             then bindE (issueInstruction mem i next_event t)
               (\<lambda>(next_event, t). bindE (account_memory (rob t ! i) t)
               (\<lambda>t. let f = f\<lparr>num_issued := num_issued f + 1\<rparr> in
                  if issue_stops f t then Inr (next_event, t) else issue_loop mem is f next_event t))
             else
               let f = f\<lparr>head_of_queue := False,
                         have_unresolved_store := have_unresolved_store f \<or> isStore (d_uop (e_uop e)) \<and> e_addressReady e > rt_now t\<rparr>
               in if inorder t then Inr (next_event, t)
                  else if issue_stops f t then Inr (next_event, t) else issue_loop mem is f next_event t)"

definition doIssue :: "(UInt64 \<Rightarrow> SubsecondTime \<Rightarrow> SubsecondTime \<times> hitwhere_t) \<Rightarrow> RobTimer \<Rightarrow> (SubsecondTime \<times> RobTimer) res" where
  "doIssue mem t =
     (let t = t\<lparr>m_rob_contention := map_option (initCycle (rt_now t)) (m_rob_contention t)\<rparr> in
      issue_loop mem [0..<unat (m_num_in_rob t)]
        \<lparr>num_issued = 0, head_of_queue = True, no_more_load = False, no_more_store = False, have_unresolved_store = False\<rparr> MaxTime t)"

section \<open>Commit\<close>

fun commit_loop :: "SubsecondTime \<Rightarrow> UInt64 \<Rightarrow> UInt64 \<Rightarrow> RobEntry list \<Rightarrow> RobEntry list \<times> RobEntry list" where
  "commit_loop now width n [] = ([], [])"
| "commit_loop now width n (e # es) =
     (if e_done e \<le> now
      then (if n + 1 = width then ([e], es) else let (cs, es) = commit_loop now width (n + 1) es in (e # cs, es))
      else ([], e # es))"

text \<open>The entries that leave the buffer are returned, in the order in which they are given to the tracer.\<close>

definition doCommit :: "RobTimer \<Rightarrow> RobEntry list \<times> SubsecondTime \<times> RobTimer" where
  "doCommit t =
     (let (cs, es) = commit_loop (rt_now t) (commitWidth t) 0 (rob t);
          t = t\<lparr>rob := es, m_num_in_rob := m_num_in_rob t - of_nat (length cs)\<rparr>
      in (cs, case es of [] \<Rightarrow> MaxTime | e # _ \<Rightarrow> e_done e, t))"

section \<open>A cycle\<close>

definition MAX_OUTSTANDING :: nat where
  "MAX_OUTSTANDING = 32"

definition add_histogram :: "nat \<Rightarrow> SubsecondTime \<Rightarrow> SubsecondTime list \<Rightarrow> SubsecondTime list" where
  "add_histogram n time h =
     (if n > 0 then let k = (if n \<ge> MAX_OUTSTANDING then MAX_OUTSTANDING - 1 else n) in h[k := h ! k + time] else h)"

definition countOutstandingMemop :: "SubsecondTime \<Rightarrow> RobTimer \<Rightarrow> RobTimer res" where
  "countOutstandingMemop time t =
     bindE (assertE (unat (m_num_in_rob t) \<le> length (rob t)) (AssertError ''idx < size()''))
     (\<lambda>_. let es = filter (\<lambda>e. e_done e \<noteq> MaxTime \<and> e_done e > rt_now t \<and> isLoad (d_uop (e_uop e))) (take (unat (m_num_in_rob t)) (rob t)) in
        Inr (t\<lparr>m_outstandingLoads := (\<lambda>h. add_histogram (length (filter (\<lambda>e. dCacheHitWhere (e_uop e) = h) es)) time (m_outstandingLoads t h)),
               m_outstandingLoadsAll := add_histogram (length es) time (m_outstandingLoadsAll t)\<rparr>))"

definition rob_execute ::
  "(UInt64 \<Rightarrow> SubsecondTime \<Rightarrow> SubsecondTime \<times> hitwhere_t) \<Rightarrow> RobTimer \<Rightarrow> (RobEntry list \<times> SubsecondTime \<times> RobTimer) res" where
  "rob_execute mem t =
     (if frontend_stalled_until t \<le> rt_now t \<and> of_nat (length (rob t)) < m_num_in_rob t + 2 * dispatchWidth t then Inr ([], 0, t)
      else
        bindE (doDispatch t)
        (\<lambda>(next_dispatch, cpi, t). bindE (doIssue mem t)
        (\<lambda>(next_issue, t).
          let (cs, next_commit, t) = doCommit t;
              next_event = min next_dispatch (min next_issue next_commit);
              skips = (next_event \<noteq> MaxTime \<and> next_event > in_cycles t 1);
              skip = (if skips then next_event - rt_now t else rt_period t);
              t = t\<lparr>will_skip := skips, rt_now := rt_now t + skip,
                    time_skipped := (if skip > rt_period t then time_skipped t + (skip - rt_period t) else time_skipped t)\<rparr>
          in bindE (if m_mlp_histogram t then countOutstandingMemop skip t else Inr t)
          (\<lambda>t. Inr (cs, skip, t\<lparr>m_cpi := (m_cpi t)(cpi := m_cpi t cpi + skip)\<rparr>)))))"

definition instructions_in :: "RobEntry list \<Rightarrow> UInt64" where
  "instructions_in cs = of_nat (length (filter (\<lambda>e. d_last (e_uop e)) cs))"

section \<open>Simulation\<close>

fun enter_uops :: "SubsecondTime \<Rightarrow> DynamicMicroOp list \<Rightarrow> RobTimer \<Rightarrow> RobTimer res" where
  "enter_uops fresh [] t = Inr t"
| "enter_uops fresh (d # ds) t = bindE (enter_uop fresh d t) (enter_uops fresh ds)"

text \<open>The loop over the cycles ends when a cycle takes no time; its result is \<open>None\<close> when it never ends.\<close>

partial_function (option) rob_cycles ::
  "(UInt64 \<Rightarrow> SubsecondTime \<Rightarrow> SubsecondTime \<times> hitwhere_t) \<Rightarrow> UInt64 \<Rightarrow> SubsecondTime \<Rightarrow> RobTimer \<Rightarrow> (UInt64 \<times> SubsecondTime \<times> RobTimer) res option" where
  "rob_cycles mem insns lat t =
     (case rob_execute mem t of
        Inl e \<Rightarrow> Some (Inl e)
      | Inr (cs, latency, t) \<Rightarrow>
          (if latency = 0 then Some (Inr (insns + instructions_in cs, lat, t))
           else rob_cycles mem (insns + instructions_in cs) (lat + latency) t))"

definition simulate ::
  "(UInt64 \<Rightarrow> SubsecondTime \<Rightarrow> SubsecondTime \<times> hitwhere_t) \<Rightarrow> SubsecondTime \<Rightarrow> DynamicMicroOp list \<Rightarrow> RobTimer \<Rightarrow> (UInt64 \<times> SubsecondTime \<times> RobTimer) res option" where
  "simulate mem fresh insts t = (case enter_uops fresh insts t of Inl e \<Rightarrow> Some (Inl e) | Inr t \<Rightarrow> rob_cycles mem 0 0 t)"

definition rob_synchronize :: "SubsecondTime \<Rightarrow> RobTimer \<Rightarrow> RobTimer" where
  "rob_synchronize time t = t\<lparr>rt_now := time\<rparr>"

end
