(* ===== verification/LS_Rob_Inv.thy ===== *)
theory LS_Rob_Inv
  imports LS_Rob
begin

text \<open>
  The reorder buffer keeps the micro-operations in program order, dispatches only what fits its window and its reservation stations, and
  issues a micro-operation only when its dependencies are resolved. Every operation is shown to keep the sequence numbers, the times of
  completion and the bookkeeping it does not mean to change.
\<close>

section \<open>Dependencies of a micro-operation\<close>

lemma addDependency_keeps:
  "addDependency s d = Inr d' \<Longrightarrow> sequenceNumber d' = sequenceNumber d \<and> d_uop d' = d_uop d"
  by (auto simp: addDependency_def bindE_Inr_iff split: if_splits)

lemma rotate_intra_keeps:
  "rotate_intra n s d = Inr d' \<Longrightarrow> sequenceNumber d' = sequenceNumber d \<and> d_uop d' = d_uop d"
proof (induction n arbitrary: d)
  case (Suc n)
  then show ?case using rotate_intra.simps [of "Suc n" s d] by (auto simp: bindE_Inr_iff Let_def split: if_splits)
qed (simp add: rotate_intra.simps)

lemma removeDependency_keeps:
  "removeDependency s d = Inr d' \<Longrightarrow> sequenceNumber d' = sequenceNumber d \<and> d_uop d' = d_uop d"
  by (auto simp: removeDependency_def bindE_Inr_iff split: if_splits dest: rotate_intra_keeps)

lemma add_dependencies_keeps:
  "add_dependencies js p d = Inr d' \<Longrightarrow> sequenceNumber d' = sequenceNumber d \<and> d_uop d' = d_uop d"
  by (induction js arbitrary: d) (auto simp: bindE_Inr_iff dest: addDependency_keeps)

lemma remove_dependencies_keeps:
  "remove_dependencies ss d = Inr d' \<Longrightarrow> sequenceNumber d' = sequenceNumber d \<and> d_uop d' = d_uop d"
  by (induction ss arbitrary: d) (auto simp: bindE_Inr_iff dest: removeDependency_keeps)

lemma rd_sources_keeps:
  "rd_sources lowest regs (d, r) = Inr (d', r') \<Longrightarrow> sequenceNumber d' = sequenceNumber d \<and> d_uop d' = d_uop d"
  by (induction lowest regs "(d, r)" arbitrary: d r rule: rd_sources.induct)
    (auto simp: bindE_Inr_iff Let_def split: if_splits dest: addDependency_keeps)

lemma rd_setDependencies_keeps:
  "rd_setDependencies lowest (d, r) = Inr (d', r') \<Longrightarrow> sequenceNumber d' = sequenceNumber d \<and> d_uop d' = d_uop d"
  by (auto simp: rd_setDependencies_def bindE_Inr_iff dest: rd_sources_keeps)

lemma md_setDependencies_keeps:
  assumes "md_setDependencies lowest (d, m) = Inr (d', m')"
  shows "sequenceNumber d' = sequenceNumber d \<and> d_uop d' = d_uop d"
proof -
  have barrier: "sequenceNumber y = sequenceNumber x \<and> d_uop y = d_uop x" if "md_barrier lowest k x = Inr y" for k x y
    using that by (auto simp: md_barrier_def split: if_splits dest: addDependency_keeps)
  show ?thesis using assms
    by (auto simp: md_setDependencies_def Let_def bindE_Inr_iff split: if_splits dest!: barrier addDependency_keeps)
qed

section \<open>What the operations keep\<close>

text \<open>An entry with a dependency left is neither ready nor done.\<close>

definition entry_ok :: "RobEntry \<Rightarrow> bool" where
  "entry_ok e \<longleftrightarrow> (getDependenciesLength (e_uop e) \<noteq> 0 \<longrightarrow> e_ready e = MaxTime \<and> e_done e = MaxTime)"

text \<open>The fields that only dispatch, issue and commit change.\<close>

definition same_core :: "RobTimer \<Rightarrow> RobTimer \<Rightarrow> bool" where
  "same_core t t' \<longleftrightarrow> m_num_in_rob t' = m_num_in_rob t \<and> m_rs_entries_used t' = m_rs_entries_used t \<and> windowSize t' = windowSize t \<and>
     rsEntries t' = rsEntries t \<and> rt_now t' = rt_now t \<and> rt_period t' = rt_period t \<and> nextSequenceNumber t' = nextSequenceNumber t \<and>
     rob_capacity t' = rob_capacity t \<and> dispatchWidth t' = dispatchWidth t \<and> commitWidth t' = commitWidth t \<and>
     frontend_stalled_until t' = frontend_stalled_until t"

lemma same_core_refl [simp]: "same_core t t"
  by (simp add: same_core_def)

lemma same_core_trans: "same_core t u \<Longrightarrow> same_core u v \<Longrightarrow> same_core t v"
  by (simp add: same_core_def)

lemma same_core_change [simp]: "same_core t (change_entry i f u) = same_core t u"
  by (simp add: same_core_def change_entry_def)

lemma rob_change [simp]: "rob (change_entry i f t) = (rob t)[i := f (rob t ! i)]"
  by (simp add: change_entry_def)

lemma map_change_at: "g y = g (xs ! i) \<Longrightarrow> map g (xs[i := y]) = map g xs"
  by (metis list_update_id map_update)

lemma map_change: "(\<And>e. g (f e) = g e) \<Longrightarrow> map g (xs[i := f (xs ! i)]) = map g xs"
  by (rule map_change_at) simp

text \<open>Entry \<open>i\<close> is being filled in; what is known of the others, and the times of all, stay.\<close>

definition entering :: "nat \<Rightarrow> RobTimer \<Rightarrow> RobTimer \<Rightarrow> bool" where
  "entering i t t' \<longleftrightarrow> same_core t t' \<and> map e_seq (rob t') = map e_seq (rob t) \<and> map e_done (rob t') = map e_done (rob t) \<and>
     map e_ready (rob t') = map e_ready (rob t) \<and> (\<forall>k. k \<noteq> i \<longrightarrow> e_uop (rob t' ! k) = e_uop (rob t ! k))"

lemma entering_refl [simp]: "entering i t t"
  by (simp add: entering_def)

lemma entering_trans: "entering i t u \<Longrightarrow> entering i u v \<Longrightarrow> entering i t v"
  by (auto simp: entering_def intro: same_core_trans)

lemma entering_change:
  assumes "\<And>e. e_uop (f e) = e_uop e" "\<And>e. e_done (f e) = e_done e" "\<And>e. e_ready (f e) = e_ready e"
  shows "entering i t (change_entry j f t)"
proof -
  have "e_uop ((rob t)[j := f (rob t ! j)] ! k) = e_uop (rob t ! k)" for k
    using assms(1) by (cases "k = j \<and> j < length (rob t)") (auto simp: nth_list_update list_update_beyond)
  then show ?thesis using assms by (simp add: entering_def map_change)
qed

lemma note_address_producers_entering:
  "note_address_producers i lowest regs t = Inr t' \<Longrightarrow> entering i t t'"
proof (induction regs arbitrary: t)
  case (Cons reg regs)
  then obtain u where "note_address_producers i lowest regs u = Inr t'" "entering i t u"
    by (auto simp: bindE_Inr_iff entering_change split: if_splits)
  then show ?case using Cons.IH entering_trans by blast
qed simp

lemma enter_address_entering: "enter_address i lowest t = Inr t' \<Longrightarrow> entering i t t'"
  by (auto simp: enter_address_def bindE_Inr_iff split: if_splits dest!: note_address_producers_entering
      elim!: entering_trans intro!: entering_change)

lemma entering_uop:
  assumes "sequenceNumber d = e_seq (rob t ! i)"
  shows "entering i t (change_entry i (\<lambda>e. e\<lparr>e_uop := d\<rparr>) t)"
proof -
  have "map e_seq ((rob t)[i := (rob t ! i)\<lparr>e_uop := d\<rparr>]) = map e_seq (rob t)"
    using assms by (intro map_change_at) simp
  then show ?thesis by (simp add: entering_def map_change)
qed

lemma enter_dependencies_entering:
  assumes "enter_dependencies i lowest t = Inr t'"
  shows "entering i t t'"
proof -
  obtain d r d' m where d: "rd_setDependencies lowest (e_uop (rob t ! i), registerDependencies t) = Inr (d, r)"
      "md_setDependencies lowest (d, memoryDependencies t) = Inr (d', m)"
      "t' = change_entry i (\<lambda>e. e\<lparr>e_uop := d'\<rparr>) (t\<lparr>registerDependencies := r, memoryDependencies := m\<rparr>)"
    using assms by (auto simp: enter_dependencies_def bindE_Inr_iff)
  have "sequenceNumber d' = e_seq (rob t ! i)" using rd_setDependencies_keeps [OF d(1)] md_setDependencies_keeps [OF d(2)] by simp
  then have "entering i (t\<lparr>registerDependencies := r, memoryDependencies := m\<rparr>) t'" using d(3) entering_uop by simp
  then show ?thesis by (simp add: entering_def same_core_def)
qed

lemma forward_store_entering: "forward_store i ks t = Inr t' \<Longrightarrow> entering i t t'"
proof (induction ks arbitrary: t)
  case (Cons k ks)
  show ?case using Cons.prems Cons.IH
    by (auto simp: bindE_Inr_iff Let_def split: if_splits dest!: removeDependency_keeps add_dependencies_keeps intro!: entering_uop)
qed simp

lemma enter_forwarding_entering: "enter_forwarding i t = Inr t' \<Longrightarrow> entering i t t'"
  by (auto simp: enter_forwarding_def split: if_splits dest: forward_store_entering)

lemma join_dependants_entering: "join_dependants i ks (distance, dtr) t = Inr (distance', dtr', t') \<Longrightarrow> entering i t t'"
proof (induction ks arbitrary: distance dtr t)
  case (Cons k ks)
  then obtain distance1 dtr1 u where "join_dependants i ks (distance1, dtr1) u = Inr (distance', dtr', t')" "entering i t u"
    by (auto simp: bindE_Inr_iff Let_def entering_change split: if_splits)
  then show ?case using Cons.IH entering_trans by blast
qed simp

section \<open>The invariant\<close>

definition open_entries :: "RobTimer \<Rightarrow> nat" where
  "open_entries t = length (filter (\<lambda>d. d = MaxTime) (take (unat (m_num_in_rob t)) (map e_done (rob t))))"

definition rob_inv :: "RobTimer \<Rightarrow> bool" where
  "rob_inv t \<longleftrightarrow>
     map e_seq (rob t) = map (\<lambda>i. nextSequenceNumber t - of_nat (length (rob t)) + of_nat i) [0..<length (rob t)] \<and>
     unat (m_num_in_rob t) \<le> length (rob t) \<and> m_num_in_rob t \<le> windowSize t \<and> length (rob t) \<le> rob_capacity t \<and> rob_capacity t < 2 ^ 32 \<and>
     (\<forall>d \<in> set (drop (unat (m_num_in_rob t)) (map e_done (rob t))). d = MaxTime) \<and> list_all entry_ok (rob t) \<and>
     unat (m_rs_entries_used t) = open_entries t \<and> m_rs_entries_used t \<le> rsEntries t"

lemma entering_length: "entering i t t' \<Longrightarrow> length (rob t') = length (rob t)"
  by (metis entering_def length_map)

lemma rob_inv_entering:
  assumes "rob_inv t" and "entering i t t'" and "i < length (rob t)" and "e_ready (rob t ! i) = MaxTime" and "e_done (rob t ! i) = MaxTime"
  shows "rob_inv t'"
proof -
  note ent = assms(2) [unfolded entering_def same_core_def]
  have len: "length (rob t') = length (rob t)" by (rule entering_length [OF assms(2)])
  have at: "e_done (rob t' ! k) = e_done (rob t ! k)" "e_ready (rob t' ! k) = e_ready (rob t ! k)" if "k < length (rob t)" for k
    using ent len that by (metis nth_map)+
  have "entry_ok (rob t' ! k)" if k: "k < length (rob t)" for k
  proof (cases "k = i")
    case True
    then show ?thesis using at [OF k] assms(4,5) by (simp add: entry_ok_def)
  next
    case False
    have "entry_ok (rob t ! k)" using assms(1) k by (auto simp: rob_inv_def list_all_length)
    then show ?thesis using False at [OF k] ent by (simp add: entry_ok_def)
  qed
  then have "list_all entry_ok (rob t')" by (simp add: list_all_length len)
  then show ?thesis using assms(1) ent len by (simp add: rob_inv_def open_entries_def)
qed

lemma enter_dependants_inv:
  assumes inv: "rob_inv t" and run: "enter_dependants i t = Inr t'" and i: "i < length (rob t)"
    and new: "e_ready (rob t ! i) = MaxTime" "e_done (rob t ! i) = MaxTime"
  shows "rob_inv t'" and "same_core t t'" and "map e_seq (rob t') = map e_seq (rob t)"
proof -
  let ?t = "t\<lparr>m_totalConsumers := m_totalConsumers t + 1\<rparr>"
  obtain distance dtr u v d where join: "join_dependants i (indices (getDependenciesLength (e_uop (rob t ! i)))) (UINT64_MAX, []) ?t = Inr (distance, dtr, u)"
    and count: "count_distance distance u = Inr v" and rm: "remove_dependencies dtr (e_uop (rob v ! i)) = Inr d"
    and t': "t' = change_entry i (\<lambda>e. e\<lparr>e_uop := d, e_ready := (if getDependenciesLength d = 0 then e_readyMax e else e_ready e)\<rparr>) v"
    using run by (auto simp: enter_dependants_def bindE_Inr_iff)
  have "entering i ?t u" by (rule join_dependants_entering [OF join])
  moreover have "rob v = rob u \<and> same_core u v" using count by (auto simp: count_distance_def Let_def bindE_Inr_iff same_core_def)
  ultimately have ent: "entering i t v" by (auto simp: entering_def same_core_def)
  have inv_v: "rob_inv v" by (rule rob_inv_entering [OF inv ent i new])
  have len: "length (rob v) = length (rob t)" by (rule entering_length [OF ent])
  have at: "e_done (rob v ! i) = MaxTime" "e_ready (rob v ! i) = MaxTime" using ent new i len unfolding entering_def by (metis nth_map)+
  let ?e = "(rob v ! i)\<lparr>e_uop := d, e_ready := (if getDependenciesLength d = 0 then e_readyMax (rob v ! i) else e_ready (rob v ! i))\<rparr>"
  have seq: "sequenceNumber d = e_seq (rob v ! i)" using remove_dependencies_keeps [OF rm] by simp
  have ok: "entry_ok ?e" using at by (simp add: entry_ok_def)
  have rob': "rob t' = (rob v)[i := ?e]" using t' by simp
  have seqs: "map e_seq (rob t') = map e_seq (rob v)" unfolding rob' by (rule map_change_at) (simp add: seq)
  have dones: "map e_done (rob t') = map e_done (rob v)" unfolding rob' by (rule map_change_at) simp
  have oks: "list_all entry_ok (rob t')" using inv_v ok set_update_subset_insert [of "rob v" i ?e] unfolding rob' by (auto simp: rob_inv_def list_all_iff)
  have core: "same_core v t'" using t' by simp
  then show "same_core t t'" using ent same_core_trans by (auto simp: entering_def)
  have len': "length (rob t') = length (rob v)" using rob' by simp
  show "rob_inv t'" using inv_v seqs dones oks core len' by (simp add: rob_inv_def open_entries_def same_core_def)
  show "map e_seq (rob t') = map e_seq (rob t)" using seqs ent by (simp add: entering_def)
qed

text \<open>A micro-operation enters behind the others, with the next sequence number.\<close>

lemma append_inv:
  assumes inv: "rob_inv t" and room: "length (rob t) < rob_capacity t"
  shows "rob_inv (t\<lparr>rob := rob t @ [init_entry fresh d (nextSequenceNumber t)], nextSequenceNumber := nextSequenceNumber t + 1\<rparr>)"
proof -
  let ?n = "length (rob t)" and ?s = "nextSequenceNumber t"
  have "map e_seq (rob t @ [init_entry fresh d ?s]) = map (\<lambda>i. ?s - of_nat ?n + of_nat i) [0..<?n] @ [?s]"
    using inv by (simp add: rob_inv_def init_entry_def)
  also have "\<dots> = map (\<lambda>i. ?s + 1 - of_nat (Suc ?n) + of_nat i) [0..<Suc ?n]" by simp
  finally show ?thesis using inv room by (simp add: rob_inv_def open_entries_def entry_ok_def init_entry_def)
qed

text \<open>What the constructor sets, and the sequence number of the oldest entry.\<close>

definition same_config :: "RobTimer \<Rightarrow> RobTimer \<Rightarrow> bool" where
  "same_config t t' \<longleftrightarrow> windowSize t' = windowSize t \<and> rsEntries t' = rsEntries t \<and> dispatchWidth t' = dispatchWidth t \<and> commitWidth t' = commitWidth t"

lemma same_config_refl [simp]: "same_config t t"
  by (simp add: same_config_def)

lemma same_config_trans: "same_config t u \<Longrightarrow> same_config u v \<Longrightarrow> same_config t v"
  by (simp add: same_config_def)

definition oldest :: "RobTimer \<Rightarrow> UInt64" where
  "oldest t = nextSequenceNumber t - of_nat (length (rob t))"

lemma enter_uop_inv:
  assumes inv: "rob_inv t" and run: "enter_uop fresh d t = Inr t'"
  shows "rob_inv t' \<and> same_config t t' \<and> oldest t' = oldest t"
proof (cases "squashed d")
  case True
  then show ?thesis using assms by (simp add: enter_uop_def)
next
  case False
  let ?i = "length (rob t)"
  define t0 where "t0 = t\<lparr>rob := rob t @ [init_entry fresh d (nextSequenceNumber t)], nextSequenceNumber := nextSequenceNumber t + 1\<rparr>"
  obtain t1 t2 t3 t4 where room: "length (rob t) < rob_capacity t" and t1: "enter_address ?i (e_seq (hd (rob t0))) t0 = Inr t1"
    and t2: "enter_dependencies ?i (e_seq (hd (rob t0))) t1 = Inr t2" and t3: "enter_forwarding ?i t2 = Inr t3"
    and t4: "enter_dependants ?i t3 = Inr t4" and t': "t' = count_uop (d_uop d) t4"
    using run False by (auto simp: enter_uop_def bindE_Inr_iff Let_def t0_def)
  have inv0: "rob_inv t0" unfolding t0_def by (rule append_inv [OF inv room])
  have at0: "?i < length (rob t0)" "e_ready (rob t0 ! ?i) = MaxTime" "e_done (rob t0 ! ?i) = MaxTime" by (simp_all add: t0_def init_entry_def)
  have ent: "entering ?i t0 t3"
    by (rule entering_trans [OF enter_address_entering [OF t1] entering_trans [OF enter_dependencies_entering [OF t2] enter_forwarding_entering [OF t3]]])
  have at3: "?i < length (rob t3)" "e_ready (rob t3 ! ?i) = MaxTime" "e_done (rob t3 ! ?i) = MaxTime"
    using ent at0 entering_length [OF ent] unfolding entering_def by (metis nth_map)+
  note t34 = enter_dependants_inv [OF rob_inv_entering [OF inv0 ent at0] t4 at3]
  have "same_core t0 t4" using same_core_trans [OF _ t34(2)] ent by (simp add: entering_def)
  moreover have "length (rob t4) = length (rob t0)" using map_eq_imp_length_eq [OF t34(3)] entering_length [OF ent] by simp
  ultimately have "same_config t t4 \<and> oldest t4 = oldest t" by (simp add: same_core_def same_config_def oldest_def t0_def)
  then show ?thesis using t34(1) by (simp add: t' count_uop_def rob_inv_def open_entries_def same_config_def oldest_def)
qed

section \<open>Dispatch\<close>

definition same_params :: "RobTimer \<Rightarrow> RobTimer \<Rightarrow> bool" where
  "same_params t t' \<longleftrightarrow> windowSize t' = windowSize t \<and> rsEntries t' = rsEntries t \<and> rt_now t' = rt_now t \<and> rt_period t' = rt_period t \<and>
     nextSequenceNumber t' = nextSequenceNumber t \<and> rob_capacity t' = rob_capacity t \<and> dispatchWidth t' = dispatchWidth t \<and>
     commitWidth t' = commitWidth t \<and> map e_seq (rob t') = map e_seq (rob t)"

lemma same_params_refl [simp]: "same_params t t"
  by (simp add: same_params_def)

lemma same_params_trans: "same_params t u \<Longrightarrow> same_params u v \<Longrightarrow> same_params t v"
  by (simp add: same_params_def)

lemma same_params_length: "same_params t t' \<Longrightarrow> length (rob t') = length (rob t)"
  by (metis same_params_def length_map)

lemma le_MaxTime [simp]: "x \<le> MaxTime"
proof -
  have "MaxTime = -1" by (simp add: MaxTime_def)
  then show ?thesis using word_order.extremum [of x] by simp
qed

lemma max_MaxTime [simp]: "max MaxTime x = MaxTime"
  by (simp add: max_absorb1)

lemma unat_inc: "x < y \<Longrightarrow> unat (x + 1) = unat x + 1" for x y :: UInt64
  by (rule unat_plus_one)

definition dispatch_one :: "RobTimer \<Rightarrow> RobTimer" where
  "dispatch_one t = (let i = unat (m_num_in_rob t) in
     (change_entry i (\<lambda>e. e\<lparr>e_dispatched := rt_now t, e_ready := max (e_ready (rob t ! i)) (in_cycles t 1)\<rparr>) t)
       \<lparr>m_num_in_rob := m_num_in_rob t + 1, m_rs_entries_used := m_rs_entries_used t + 1\<rparr>)"

lemma dispatch_one_inv:
  assumes inv: "rob_inv t" and n: "unat (m_num_in_rob t) < length (rob t)" and w: "m_num_in_rob t < windowSize t"
    and rs: "m_rs_entries_used t \<noteq> rsEntries t"
  shows "rob_inv (dispatch_one t)" and "same_params t (dispatch_one t)" and "unat (m_num_in_rob (dispatch_one t)) = unat (m_num_in_rob t) + 1"
proof -
  let ?n = "unat (m_num_in_rob t)" and ?t = "dispatch_one t"
  let ?e = "(rob t ! ?n)\<lparr>e_dispatched := rt_now t, e_ready := max (e_ready (rob t ! ?n)) (in_cycles t 1)\<rparr>"
  have rob': "rob ?t = (rob t)[?n := ?e]" by (simp add: dispatch_one_def Let_def)
  have num: "unat (m_num_in_rob t + 1) = ?n + 1" by (rule unat_inc [OF w])
  then show "unat (m_num_in_rob ?t) = ?n + 1" by (simp add: dispatch_one_def Let_def)
  have rsu: "unat (m_rs_entries_used t + 1) = unat (m_rs_entries_used t) + 1" "m_rs_entries_used t + 1 \<le> rsEntries t"
    using inv rs unat_inc [of "m_rs_entries_used t" "rsEntries t"] by (auto simp: rob_inv_def inc_le order_less_le)
  have pre: "\<forall>d \<in> set (drop ?n (map e_done (rob t))). d = MaxTime" using inv by (simp add: rob_inv_def)
  have done_n: "e_done (rob t ! ?n) = MaxTime" using inv n by (auto simp: rob_inv_def simp flip: Cons_nth_drop_Suc)
  have seqs: "map e_seq (rob ?t) = map e_seq (rob t)" unfolding rob' by (rule map_change_at) simp
  have dones: "map e_done (rob ?t) = map e_done (rob t)" unfolding rob' by (rule map_change_at) simp
  have ok: "entry_ok ?e" using inv n by (auto simp: rob_inv_def list_all_length entry_ok_def)
  have oks: "list_all entry_ok (rob ?t)" using inv ok set_update_subset_insert [of "rob t" ?n ?e] unfolding rob' by (auto simp: rob_inv_def list_all_iff)
  have "take (?n + 1) (map e_done (rob t)) = take ?n (map e_done (rob t)) @ [MaxTime]" using n done_n by (simp add: take_Suc_conv_app_nth)
  then have cnt: "open_entries ?t = open_entries t + 1" unfolding open_entries_def dones using num by (simp add: dispatch_one_def Let_def)
  have rest: "\<forall>d \<in> set (drop (?n + 1) (map e_done (rob t))). d = MaxTime"
    using pre set_drop_subset_set_drop [of ?n "?n + 1" "map e_done (rob t)"] by auto
  show par: "same_params t ?t" using seqs by (simp add: same_params_def dispatch_one_def Let_def change_entry_def)
  have len: "length (rob ?t) = length (rob t)" using rob' by simp
  show "rob_inv ?t" unfolding rob_inv_def seqs dones len cnt
    using inv n num rsu oks rest par w inc_le [OF w] by (simp add: rob_inv_def dispatch_one_def Let_def change_entry_def)
qed

lemma rob_inv_fields [simp]:
  "rob_inv (t\<lparr>frontend_stalled_until := a\<rparr>) = rob_inv t" "rob_inv (t\<lparr>in_icache_miss := b\<rparr>) = rob_inv t"
  "rob_inv (t\<lparr>m_cpiCurrentFrontEndStall := c\<rparr>) = rob_inv t" "rob_inv (t\<lparr>m_rob_contention := r\<rparr>) = rob_inv t"
  "rob_inv (t\<lparr>load_queue := q\<rparr>) = rob_inv t" "rob_inv (t\<lparr>store_queue := q\<rparr>) = rob_inv t"
  by (simp_all add: rob_inv_def open_entries_def)

lemma dispatch_loop_step:
  fixes t
  defines "d \<equiv> e_uop (rob t ! unat (m_num_in_rob t))"
  defines "u \<equiv> (if iCacheHitWhere d \<noteq> HW_L1I then t\<lparr>in_icache_miss := False\<rparr> else t)"
  assumes "unat (m_num_in_rob t) < length (rob t)" and "ucast uops \<noteq> dispatchWidth t" and "\<not> (iCacheHitWhere d \<noteq> HW_L1I \<and> \<not> in_icache_miss t)"
    and "m_rs_entries_used u \<noteq> rsEntries u"
  shows "dispatch_loop (Suc room) uops next_event t =
    (let ready = max (e_ready (rob u ! unat (m_num_in_rob u))) (in_cycles u 1) in
     if uop_branch (d_uop d) \<and> branchMispredicted d
     then Inr (min next_event ready, Some CpiBranchPredictor, (dispatch_one u)\<lparr>frontend_stalled_until := MaxTime\<rparr>)
     else dispatch_loop room (uops + 1) (min next_event ready) (dispatch_one u))"
proof (cases "iCacheHitWhere d = HW_L1I")
  case True
  then have "u = t" by (simp add: u_def)
  then show ?thesis using assms(3-) True unfolding d_def dispatch_loop.simps
    by (simp add: Let_def dispatch_one_def change_entry_def)
next
  case False
  then have u: "u = t\<lparr>in_icache_miss := False\<rparr>" by (simp add: u_def)
  show ?thesis using assms(3-) False unfolding u d_def dispatch_loop.simps
    by (simp add: Let_def dispatch_one_def change_entry_def in_cycles_def)
qed

text \<open>With enough entries in front of the window, dispatch never runs out of them.\<close>

lemma dispatch_loop_ok:
  assumes "rob_inv t" and "unat (windowSize t) = unat (m_num_in_rob t) + room" and "unat uops \<le> unat (dispatchWidth t)"
    and "unat (dispatchWidth t) < 2 ^ 32" and "unat (m_num_in_rob t) + (unat (dispatchWidth t) - unat uops) < length (rob t)"
  shows "\<exists>ne c t'. dispatch_loop room uops next_event t = Inr (ne, c, t') \<and> rob_inv t' \<and> same_params t t'"
  using assms
proof (induction room arbitrary: uops next_event t)
  case 0
  then show ?case by simp
next
  case (Suc room)
  let ?i = "unat (m_num_in_rob t)"
  let ?d = "e_uop (rob t ! ?i)"
  have i: "?i < length (rob t)" using Suc.prems(5) by simp
  show ?case
  proof (cases "ucast uops = dispatchWidth t")
    case True
    then show ?thesis using Suc.prems(1) i by simp
  next
    case width: False
    show ?thesis
    proof (cases "iCacheHitWhere ?d \<noteq> HW_L1I \<and> \<not> in_icache_miss t")
      case True
      then show ?thesis using Suc.prems(1) i width by (simp add: same_params_def Let_def)
    next
      case hit: False
      define u where "u = (if iCacheHitWhere ?d \<noteq> HW_L1I then t\<lparr>in_icache_miss := False\<rparr> else t)"
      have u: "rob_inv u" "same_params t u" "m_num_in_rob u = m_num_in_rob t" "rob u = rob t" using Suc.prems(1) by (simp_all add: u_def same_params_def)
      show ?thesis
      proof (cases "m_rs_entries_used u = rsEntries u")
        case True
        then have "dispatch_loop (Suc room) uops next_event t = Inr (next_event, Some CpiRSFull, u)"
          using i width hit u(3,4) by (simp add: Let_def flip: u_def)
        then show ?thesis using u by simp
      next
        case rs: False
        define v where "v = dispatch_one u"
        have "m_num_in_rob u < windowSize u" using Suc.prems(2) u by (simp add: word_less_nat_alt same_params_def)
        then have v: "rob_inv v" "same_params u v" "unat (m_num_in_rob v) = ?i + 1"
          using dispatch_one_inv [OF u(1)] rs i u(3,4) unfolding v_def by simp_all
        have tv: "same_params t v" using u(2) v(2) by (rule same_params_trans)
        let ?ready = "max (e_ready (rob u ! ?i)) (in_cycles u 1)"
        show ?thesis
        proof (cases "uop_branch (d_uop ?d) \<and> branchMispredicted ?d")
          case True
          then have "dispatch_loop (Suc room) uops next_event t = Inr (min next_event ?ready, Some CpiBranchPredictor, v\<lparr>frontend_stalled_until := MaxTime\<rparr>)"
            using dispatch_loop_step [of t uops room next_event, folded u_def, OF i width hit rs] u(3) unfolding v_def by (simp only: Let_def if_True simp_thms)
          then show ?thesis using v tv by (simp add: same_params_def)
        next
          case False
          have "unat (ucast uops :: UInt64) = unat uops" by (simp add: unat_ucast_32_64)
          then have less: "unat uops < unat (dispatchWidth t)" using width Suc.prems(3) by (metis le_neq_implies_less word_unat_eq_iff)
          have uops: "unat (uops + 1) = unat uops + 1"
            using less Suc.prems(4) by (simp add: unat_word_ariths(1))
          have len: "length (rob v) = length (rob t)" by (rule same_params_length [OF tv])
          have par: "windowSize v = windowSize t" "dispatchWidth v = dispatchWidth t" using tv by (simp_all add: same_params_def)
          have "dispatch_loop (Suc room) uops next_event t = dispatch_loop room (uops + 1) (min next_event ?ready) v"
            using dispatch_loop_step [of t uops room next_event, folded u_def, OF i width hit rs] u(3) False unfolding v_def by (simp only: Let_def if_False simp_thms)
          moreover have "\<exists>ne c t'. dispatch_loop room (uops + 1) (min next_event ?ready) v = Inr (ne, c, t') \<and> rob_inv t' \<and> same_params v t'"
            by (rule Suc.IH [OF v(1)]) (use Suc.prems v(3) par uops less len in auto)
          ultimately show ?thesis using tv same_params_trans by (auto; blast)
        qed
      qed
    qed
  qed
qed

lemma find_cpi_ok: "(\<And>i. i \<in> set is \<Longrightarrow> i < length (rob t)) \<Longrightarrow> \<exists>c. find_cpi is t = Inr c"
  by (induction "is") (auto simp: rob_at_def assertE_def Let_def)

text \<open>The condition under which \<^verbatim>\<open>execute\<close> goes on: the front end is stalled or there are enough entries.\<close>

definition can_dispatch :: "RobTimer \<Rightarrow> bool" where
  "can_dispatch t \<longleftrightarrow> \<not> (frontend_stalled_until t \<le> rt_now t \<and> of_nat (length (rob t)) < m_num_in_rob t + 2 * dispatchWidth t)"

lemma doDispatch_ok:
  assumes inv: "rob_inv t" and can: "can_dispatch t" and width: "0 < unat (dispatchWidth t)" "unat (dispatchWidth t) < 2 ^ 32"
  shows "\<exists>ne c t'. doDispatch t = Inr (ne, c, t') \<and> rob_inv t' \<and> same_params t t'"
proof -
  have "\<exists>ne c u. (if frontend_stalled_until t \<le> rt_now t
      then bindE (dispatch_loop (unat (windowSize t) - unat (m_num_in_rob t)) 0 MaxTime t)
        (\<lambda>(next_event, c, t). Inr (next_event, c, t\<lparr>m_cpiCurrentFrontEndStall := c\<rparr>))
      else Inr (MaxTime, m_cpiCurrentFrontEndStall t, t)) = Inr (ne, c, u) \<and> rob_inv u \<and> same_params t u"
  proof (cases "frontend_stalled_until t \<le> rt_now t")
    case True
    have sizes: "unat (m_num_in_rob t) \<le> length (rob t)" "length (rob t) < 2 ^ 32" using inv by (auto simp: rob_inv_def)
    have "unat (2 * dispatchWidth t) = 2 * unat (dispatchWidth t)" using width(2) by (simp add: unat_word_ariths(2))
    then have "unat (m_num_in_rob t + 2 * dispatchWidth t) = unat (m_num_in_rob t) + 2 * unat (dispatchWidth t)"
      using sizes width(2) by (simp add: unat_word_ariths(1))
    moreover have "unat (of_nat (length (rob t)) :: UInt64) = length (rob t)" using sizes(2) by simp
    ultimately have "unat (m_num_in_rob t) + 2 * unat (dispatchWidth t) \<le> length (rob t)"
      using can True by (simp add: can_dispatch_def word_less_nat_alt not_less)
    then have "unat (m_num_in_rob t) + (unat (dispatchWidth t) - unat (0 :: UInt32)) < length (rob t)" using width(1) by simp
    moreover have "unat (windowSize t) = unat (m_num_in_rob t) + (unat (windowSize t) - unat (m_num_in_rob t))"
      using inv by (simp add: rob_inv_def word_le_nat_alt)
    ultimately obtain ne c u where "dispatch_loop (unat (windowSize t) - unat (m_num_in_rob t)) 0 MaxTime t = Inr (ne, c, u)" "rob_inv u" "same_params t u"
      using dispatch_loop_ok [OF inv, of _ 0] width(2) by (metis unat_0 zero_le)
    then show ?thesis using True by (simp add: same_params_def)
  qed (use inv in simp)
  then obtain ne c u where u: "(if frontend_stalled_until t \<le> rt_now t
      then bindE (dispatch_loop (unat (windowSize t) - unat (m_num_in_rob t)) 0 MaxTime t)
        (\<lambda>(next_event, c, t). Inr (next_event, c, t\<lparr>m_cpiCurrentFrontEndStall := c\<rparr>))
      else Inr (MaxTime, m_cpiCurrentFrontEndStall t, t)) = Inr (ne, c, u)" "rob_inv u" "same_params t u" by blast
  moreover obtain h where "findCpiComponent u = Inr h"
    using find_cpi_ok [of "[0..<unat (m_num_in_rob u)]" u] u(2) unfolding findCpiComponent_def by (auto simp: rob_inv_def)
  ultimately show ?thesis by (auto simp: doDispatch_def Let_def split: option.splits)
qed

section \<open>Issue\<close>

text \<open>While an entry is issued, the sequence numbers, the times of completion and the bookkeeping of the buffer stay.\<close>

definition issuing :: "RobTimer \<Rightarrow> RobTimer \<Rightarrow> bool" where
  "issuing t t' \<longleftrightarrow> same_params t t' \<and> m_num_in_rob t' = m_num_in_rob t \<and> m_rs_entries_used t' = m_rs_entries_used t \<and>
     map e_done (rob t') = map e_done (rob t) \<and> (list_all entry_ok (rob t) \<longrightarrow> list_all entry_ok (rob t'))"

lemma issuing_refl [simp]: "issuing t t"
  by (simp add: issuing_def)

lemma issuing_trans: "issuing t u \<Longrightarrow> issuing u v \<Longrightarrow> issuing t v"
  by (auto simp: issuing_def intro: same_params_trans)

lemma rob_inv_issuing: "rob_inv t \<Longrightarrow> issuing t t' \<Longrightarrow> rob_inv t'"
  using same_params_length [of t t'] by (simp add: rob_inv_def issuing_def same_params_def open_entries_def)

lemma issuing_update:
  assumes "e_seq e = e_seq (rob t ! j)" and "e_done e = e_done (rob t ! j)" and "entry_ok (rob t ! j) \<Longrightarrow> entry_ok e"
  shows "issuing t (t\<lparr>rob := (rob t)[j := e]\<rparr>)"
proof -
  have "map e_seq ((rob t)[j := e]) = map e_seq (rob t)" by (rule map_change_at) (use assms(1) in simp)
  moreover have "map e_done ((rob t)[j := e]) = map e_done (rob t)" by (rule map_change_at) (use assms(2) in simp)
  moreover have "list_all entry_ok ((rob t)[j := e])" if "list_all entry_ok (rob t)"
  proof (cases "j < length (rob t)")
    case True
    then have "entry_ok e" using assms(3) that by (simp add: list_all_length)
    then show ?thesis using that set_update_subset_insert [of "rob t" j e] by (auto simp: list_all_iff)
  next
    case False
    then show ?thesis using that by (simp add: list_update_beyond)
  qed
  ultimately show ?thesis by (simp add: issuing_def same_params_def)
qed

lemma settle_address_issuing: "settle_address i cd j t = Inr t' \<Longrightarrow> issuing t t'"
  by (auto simp: settle_address_def Let_def bindE_Inr_iff change_entry_def entry_ok_def split: if_splits intro!: issuing_update)

lemma resolve_one_issuing:
  assumes "resolve_one i seq cd dep t = Inr t'"
  shows "issuing t t'"
proof -
  obtain j d where j: "getDependenciesLength (e_uop (rob t ! j)) > 0" "removeDependency seq (e_uop (rob t ! j)) = Inr d"
      "settle_address i cd j (t\<lparr>rob := (rob t)[j := resolved_entry d cd (rob t ! j)]\<rparr>) = Inr t'"
    using assms by (auto simp: resolve_one_def bindE_Inr_iff)
  have "sequenceNumber d = e_seq (rob t ! j)" using removeDependency_keeps [OF j(2)] by simp
  then have "issuing t (t\<lparr>rob := (rob t)[j := resolved_entry d cd (rob t ! j)]\<rparr>)"
    by (intro issuing_update) (use j(1) in \<open>auto simp: resolved_entry_def entry_ok_def Let_def\<close>)
  then show ?thesis using settle_address_issuing [OF j(3)] issuing_trans by blast
qed

lemma resolve_dependants_issuing: "resolve_dependants i seq cd deps t = Inr t' \<Longrightarrow> issuing t t'"
proof (induction deps arbitrary: t)
  case (Cons dep deps)
  then show ?case using resolve_one_issuing issuing_trans by (fastforce simp: bindE_Inr_iff)
qed simp

lemma access_memory_issuing: "access_memory mem i t = Inr t' \<Longrightarrow> issuing t t'"
  by (auto simp: access_memory_def bindE_Inr_iff Let_def change_entry_def entry_ok_def getDependenciesLength_def split: if_splits prod.splits
      intro!: issuing_update)

text \<open>The clock is far enough from its last value for every latency of 32 bits.\<close>

definition clock_room :: "RobTimer \<Rightarrow> bool" where
  "clock_room t \<longleftrightarrow> unat (rt_now t) + 2 ^ 32 * unat (rt_period t) < 2 ^ 64 - 1"

lemma not_MaxTime: "unat x < 2 ^ 64 - 1 \<Longrightarrow> x \<noteq> MaxTime"
  by (auto simp: MaxTime_def)

lemma in_cycles_room:
  assumes "clock_room t" and "n \<le> 2 ^ 32"
  shows "unat (in_cycles t (of_nat n)) = unat (rt_now t) + unat (rt_period t) * n" and "unat (rt_now t) + unat (rt_period t) * n < 2 ^ 64 - 1"
proof -
  have "unat (rt_period t) * n \<le> 2 ^ 32 * unat (rt_period t)" using assms(2) by (metis mult.commute mult_le_mono1)
  then show less: "unat (rt_now t) + unat (rt_period t) * n < 2 ^ 64 - 1" using assms(1) unfolding clock_room_def by linarith
  then have bound: "unat (rt_now t) + unat (rt_period t) * n < 2 ^ 64" by simp
  have "unat (of_nat n :: UInt64) = n" using assms(2) by simp
  then have "unat (rt_period t * of_nat n) = unat (rt_period t) * n" using bound by (simp add: unat_word_ariths(2))
  then show "unat (in_cycles t (of_nat n)) = unat (rt_now t) + unat (rt_period t) * n" using bound by (simp add: in_cycles_def unat_word_ariths(1))
qed

lemma done_in_time:
  fixes latency :: UInt32
  assumes "clock_room t"
  shows "in_cycles t 1 \<noteq> MaxTime" and "in_cycles t (ucast latency) + rt_period t \<noteq> MaxTime"
proof -
  have le: "unat (in_cycles t (of_nat n)) < 2 ^ 64 - 1" if "n \<le> 2 ^ 32" for n
    using in_cycles_room [OF assms that] by simp
  show "in_cycles t 1 \<noteq> MaxTime" using le [of 1] not_MaxTime by simp
  have "in_cycles t (ucast latency) + rt_period t = in_cycles t (of_nat (unat latency + 1))"
    by (simp add: in_cycles_def algebra_simps)
  moreover have "unat latency + 1 \<le> 2 ^ 32" using unsigned_less [of latency, where 'a = nat] by simp
  ultimately show "in_cycles t (ucast latency) + rt_period t \<noteq> MaxTime" using le not_MaxTime by metis
qed

lemma now_in_time: "clock_room t \<Longrightarrow> rt_now t < MaxTime"
  using not_MaxTime [of "rt_now t"] le_MaxTime [of "rt_now t"] by (simp add: clock_room_def order_less_le)

lemma count_less:
  assumes "i < length xs" and "P (xs ! i)" and "\<not> P y"
  shows "length (filter P xs) = length (filter P (xs[i := y])) + 1"
proof -
  have "filter P xs = filter P (take i xs) @ xs ! i # filter P (drop (Suc i) xs)"
    using assms(1,2) by (metis filter.simps(2) filter_append id_take_nth_drop)
  then show ?thesis using assms by (simp add: upd_conv_take_nth_drop)
qed

text \<open>An entry leaves its reservation station when the time of its completion is known.\<close>

lemma complete_inv:
  assumes inv: "rob_inv t" and i: "i < unat (m_num_in_rob t)" and open_: "e_done (rob t ! i) = MaxTime"
    and deps: "getDependenciesLength (e_uop (rob t ! i)) = 0" and time: "cd \<noteq> MaxTime"
  shows "rob_inv ((change_entry i (\<lambda>e. e\<lparr>e_issued := now, e_done := cd\<rparr>) t)\<lparr>m_rs_entries_used := m_rs_entries_used t - 1\<rparr>)" (is "rob_inv ?t")
proof -
  let ?n = "unat (m_num_in_rob t)" and ?e = "(rob t ! i)\<lparr>e_issued := now, e_done := cd\<rparr>"
  have len: "i < length (rob t)" using inv i by (simp add: rob_inv_def)
  have rob': "rob ?t = (rob t)[i := ?e]" by (simp add: change_entry_def)
  have num': "m_num_in_rob ?t = m_num_in_rob t" by (simp add: change_entry_def)
  have seqs: "map e_seq (rob ?t) = map e_seq (rob t)" unfolding rob' by (rule map_change_at) simp
  have dones: "map e_done (rob ?t) = (map e_done (rob t))[i := cd]" unfolding rob' by (simp add: map_update)
  have "take ?n (map e_done (rob ?t)) = (take ?n (map e_done (rob t)))[i := cd]" unfolding dones by (simp add: take_update_swap)
  moreover have "i < length (take ?n (map e_done (rob t)))" "take ?n (map e_done (rob t)) ! i = MaxTime" using i len open_ by simp_all
  ultimately have count: "open_entries t = open_entries ?t + 1"
    unfolding open_entries_def num' using count_less [of i "take ?n (map e_done (rob t))" "\<lambda>d. d = MaxTime" cd] time by (simp only: simp_thms)
  then have pos: "0 < unat (m_rs_entries_used t)" using inv by (simp add: rob_inv_def)
  then have one: "1 \<le> m_rs_entries_used t" by (simp add: word_le_nat_alt)
  then have rs: "unat (m_rs_entries_used t - 1) = unat (m_rs_entries_used t) - 1" by (simp add: unat_sub)
  have "unat (m_rs_entries_used t) \<le> unat (rsEntries t)" using inv by (simp add: rob_inv_def word_le_nat_alt)
  then have rs_le: "m_rs_entries_used t - 1 \<le> rsEntries t" using rs by (simp add: word_le_nat_alt)
  have "entry_ok ?e" using deps by (simp add: entry_ok_def)
  then have oks: "list_all entry_ok (rob ?t)" using inv set_update_subset_insert [of "rob t" i ?e] unfolding rob' by (auto simp: rob_inv_def list_all_iff)
  have "drop ?n (map e_done (rob ?t)) = drop ?n (map e_done (rob t))" unfolding dones using i by (simp add: drop_update_cancel)
  then show ?thesis unfolding rob_inv_def seqs using inv oks count rs rs_le rob' by (simp add: rob_inv_def change_entry_def)
qed

lemma issuing_fields [simp]:
  "issuing t (t\<lparr>load_queue := q\<rparr>)" "issuing t (t\<lparr>store_queue := q\<rparr>)" "issuing t (t\<lparr>m_rob_contention := c\<rparr>)"
  "issuing t (enter_queue d t)" "issuing t (note_store d t)" "issuing t (resume_frontend d t)"
  by (simp_all add: issuing_def same_params_def enter_queue_def note_store_def resume_frontend_def Let_def)

lemma access_memory_entry:
  assumes "access_memory mem i t = Inr t'"
  shows "getDependenciesLength (e_uop (rob t' ! i)) = getDependenciesLength (e_uop (rob t ! i))"
  using assms by (cases "i < length (rob t)")
    (auto simp: access_memory_def bindE_Inr_iff Let_def getDependenciesLength_def list_update_beyond split: if_splits prod.splits)

lemma issueInstruction_inv:
  assumes inv: "rob_inv t" and room: "clock_room t" and i: "i < unat (m_num_in_rob t)"
    and entry: "e_done (rob t ! i) = MaxTime" "e_ready (rob t ! i) \<le> rt_now t" and run: "issueInstruction mem i next_event t = Inr (ne, t')"
  shows "rob_inv t' \<and> same_params t t' \<and> m_num_in_rob t' = m_num_in_rob t"
proof -
  obtain u z where u: "access_memory mem i t = Inr u"
    and z: "resolve_dependants i (e_seq (rob u ! i)) (cycle_depend u (e_uop (rob u ! i))) (e_dependants (rob u ! i)) (start_execution i u) = Inr z"
    and t': "t' = resume_frontend (e_uop (rob u ! i)) z"
    using run by (auto simp: issueInstruction_def bindE_Inr_iff Let_def)
  let ?d = "e_uop (rob u ! i)"
  define x where "x = (let t = note_store ?d (enter_queue ?d u) in t\<lparr>m_rob_contention := map_option (rc_doIssue (rt_period t) ?d) (m_rob_contention t)\<rparr>)"
  have y: "start_execution i u = (change_entry i (\<lambda>e. e\<lparr>e_issued := rt_now x, e_done := cycle_done x ?d\<rparr>) x)\<lparr>m_rs_entries_used := m_rs_entries_used x - 1\<rparr>"
    by (simp add: start_execution_def x_def Let_def)
  have tu: "issuing t u" by (rule access_memory_issuing [OF u])
  have ux: "issuing u x" unfolding x_def Let_def by (rule issuing_trans [OF issuing_trans [OF issuing_fields(4,5)] issuing_fields(3)])
  have tx: "issuing t x" by (rule issuing_trans [OF tu ux])
  have inv_x: "rob_inv x" by (rule rob_inv_issuing [OF inv tx])
  have robx: "rob x = rob u" by (simp add: x_def note_store_def enter_queue_def Let_def)
  have room_x: "clock_room x" using room tx by (simp add: clock_room_def issuing_def same_params_def)
  have len: "i < length (rob t)" using inv i by (simp add: rob_inv_def)
  have open_x: "e_done (rob x ! i) = MaxTime" using tx entry(1) len unfolding issuing_def by (metis length_map nth_map)
  have "entry_ok (rob t ! i)" using inv len by (simp add: rob_inv_def list_all_length)
  then have "getDependenciesLength (e_uop (rob t ! i)) = 0" using entry(2) now_in_time [OF room] by (auto simp: entry_ok_def)
  then have deps: "getDependenciesLength (e_uop (rob x ! i)) = 0" using access_memory_entry [OF u] robx by simp
  have dn: "cycle_done x ?d \<noteq> MaxTime" unfolding cycle_done_def using done_in_time [OF room_x] by simp
  have i_x: "i < unat (m_num_in_rob x)" using i tx by (simp add: issuing_def)
  have inv_y: "rob_inv (start_execution i u)" unfolding y by (rule complete_inv [OF inv_x i_x open_x deps dn])
  have "map e_seq (rob (start_execution i u)) = map e_seq (rob x)" unfolding y by (simp add: map_change_at)
  then have xy: "same_params x (start_execution i u) \<and> m_num_in_rob (start_execution i u) = m_num_in_rob x"
    unfolding y by (simp add: same_params_def change_entry_def)
  have yt: "issuing (start_execution i u) t'" unfolding t' by (rule issuing_trans [OF resolve_dependants_issuing [OF z] issuing_fields(6)])
  show ?thesis using rob_inv_issuing [OF inv_y yt] tx xy yt same_params_trans unfolding issuing_def by metis
qed

lemma canIssue_facts:
  assumes "canIssue e f t = (a, f', t')"
  shows "issuing t t'" and "a = CanIssue \<Longrightarrow> e_ready e \<le> rt_now t" and "rob t' = rob t"
proof -
  have load: "issuing t (snd (free_load t))" "rob (snd (free_load t)) = rob t" by (simp_all add: free_load_def split: prod.split)
  have store: "issuing t (snd (free_store t))" "rob (snd (free_store t)) = rob t" by (simp_all add: free_store_def split: prod.split)
  show "issuing t t'" "rob t' = rob t" using assms load store
    by (auto simp: canIssue_def Let_def split: if_splits prod.splits)
  show "e_ready e \<le> rt_now t" if "a = CanIssue" using assms that by (auto simp: canIssue_def Let_def not_less split: if_splits prod.splits)
qed

lemma ask_port_facts:
  assumes "ask_port a d t = (a', t')"
  shows "issuing t t'" and "a' = CanIssue \<Longrightarrow> a = CanIssue" and "rob t' = rob t"
  using assms by (auto simp: ask_port_def Let_def split: option.splits if_splits prod.splits)

lemma account_memory_facts: "account_memory e t = Inr t' \<Longrightarrow> issuing t t'"
  by (auto simp: account_memory_def bindE_Inr_iff Let_def issuing_def same_params_def split: if_splits)

lemma issue_loop_inv:
  assumes "issue_loop mem is f next_event t = Inr (ne, t')" and "rob_inv t" and "clock_room t" and "\<forall>i \<in> set is. i < unat (m_num_in_rob t)"
  shows "rob_inv t' \<and> same_params t t' \<and> m_num_in_rob t' = m_num_in_rob t"
  using assms
proof (induction "is" arbitrary: f next_event t)
  case Nil
  then show ?case by simp
next
  case (Cons i "is")
  note inv = Cons.prems(2) and room = Cons.prems(3)
  have i: "i < unat (m_num_in_rob t)" "i < length (rob t)" using Cons.prems(4) inv by (auto simp: rob_inv_def)
  have at: "rob_at i t = Inr (rob t ! i)" using i by (simp add: rob_at_def)
  let ?e = "rob t ! i"
  show ?case
  proof (cases "e_done ?e = MaxTime")
    case False
    then show ?thesis using Cons.prems Cons.IH at by simp
  next
    case True
    let ?ne = "min next_event (e_ready ?e)"
    obtain a f1 t1 where c: "canIssue ?e f t = (a, f1, t1)" by (metis prod_cases3)
    obtain b t2 where p: "ask_port a (e_uop ?e) t1 = (b, t2)" by fastforce
    have t2: "issuing t t2" using canIssue_facts(1) [OF c] ask_port_facts(1) [OF p] issuing_trans by blast
    then have inv2: "rob_inv t2" and room2: "clock_room t2" and num2: "m_num_in_rob t2 = m_num_in_rob t" and par2: "same_params t t2"
      using rob_inv_issuing [OF inv] room by (auto simp: issuing_def same_params_def clock_room_def)
    have step: "\<exists>ne0 f0 u. issue_loop mem is f0 ne0 u = Inr (ne, t') \<and> rob_inv u \<and> same_params t u \<and> m_num_in_rob u = m_num_in_rob t \<or>
        rob_inv t' \<and> same_params t t' \<and> m_num_in_rob t' = m_num_in_rob t"
    proof (cases "b = CanIssue")
      case issue: True
      have rob2: "rob t2 = rob t" using canIssue_facts(3) [OF c] ask_port_facts(3) [OF p] by simp
      have ready: "e_ready (rob t2 ! i) \<le> rt_now t2"
        using canIssue_facts(2) [OF c] ask_port_facts(2) [OF p issue] rob2 par2 by (simp add: same_params_def)
      obtain ne3 t3 t4 where t3: "issueInstruction mem i ?ne t2 = Inr (ne3, t3)" and t4: "account_memory (rob t3 ! i) t3 = Inr t4"
        and rest: "(if issue_stops (f1\<lparr>num_issued := num_issued f1 + 1\<rparr>) t4 then Inr (ne3, t4)
          else issue_loop mem is (f1\<lparr>num_issued := num_issued f1 + 1\<rparr>) ne3 t4) = Inr (ne, t')"
        using Cons.prems(1) at True c p issue by (auto simp: bindE_Inr_iff Let_def)
      have i2: "i < unat (m_num_in_rob t2)" "e_done (rob t2 ! i) = MaxTime" using i num2 rob2 True by simp_all
      have t23: "rob_inv t3 \<and> same_params t2 t3 \<and> m_num_in_rob t3 = m_num_in_rob t2"
        by (rule issueInstruction_inv [OF inv2 room2 i2 ready t3])
      have t34: "issuing t3 t4" by (rule account_memory_facts [OF t4])
      have "rob_inv t4" using rob_inv_issuing [OF _ t34] t23 by blast
      moreover have "same_params t t4" using same_params_trans [OF par2 same_params_trans [of t2 t3 t4]] t23 t34 by (simp add: issuing_def)
      moreover have "m_num_in_rob t4 = m_num_in_rob t" using t23 t34 num2 by (simp add: issuing_def)
      ultimately show ?thesis using rest by (cases "issue_stops (f1\<lparr>num_issued := num_issued f1 + 1\<rparr>) t4") auto
    next
      case False
      then have "(\<exists>f0. issue_loop mem is f0 ?ne t2 = Inr (ne, t')) \<or> t' = t2"
        using Cons.prems(1) at True c p by (auto simp: Let_def split: if_splits)
      then show ?thesis using inv2 par2 num2 by blast
    qed
    then show ?thesis
    proof (elim exE disjE conjE)
      fix ne0 f0 u
      assume u: "issue_loop mem is f0 ne0 u = Inr (ne, t')" "rob_inv u" "same_params t u" "m_num_in_rob u = m_num_in_rob t"
      have "clock_room u" using room u(3) by (simp add: clock_room_def same_params_def)
      then have "rob_inv t' \<and> same_params u t' \<and> m_num_in_rob t' = m_num_in_rob u" using Cons.IH [OF u(1,2)] Cons.prems(4) u(4) by simp
      then show ?thesis using u(3,4) same_params_trans by metis
    qed blast
  qed
qed

lemma doIssue_inv:
  assumes inv: "rob_inv t" and "clock_room t" and "doIssue mem t = Inr (ne, t')"
  shows "rob_inv t' \<and> same_params t t'"
proof -
  let ?t = "t\<lparr>m_rob_contention := map_option (initCycle (rt_now t)) (m_rob_contention t)\<rparr>"
  have "issuing t ?t" by simp
  then have t: "rob_inv ?t" "same_params t ?t" "clock_room ?t" using rob_inv_issuing [OF inv] assms(2) by (auto simp: issuing_def clock_room_def)
  have "rob_inv t' \<and> same_params ?t t' \<and> m_num_in_rob t' = m_num_in_rob ?t"
    by (rule issue_loop_inv [OF assms(3) [unfolded doIssue_def Let_def] t(1,3)]) simp
  then show ?thesis using same_params_trans [OF t(2)] by blast
qed

section \<open>Commit\<close>

lemma commit_loop_split:
  "commit_loop now width n es = (cs, rest) \<Longrightarrow> es = cs @ rest \<and> (\<forall>e \<in> set cs. e_done e \<le> now)"
  by (induction es arbitrary: n cs rest) (auto simp: Let_def split: if_splits prod.splits)

lemma commit_loop_width:
  "commit_loop now width n es = (cs, rest) \<Longrightarrow> n < width \<Longrightarrow> unat n + length cs \<le> unat width"
proof (induction es arbitrary: n cs rest)
  case (Cons e es)
  have n: "unat (n + 1) = unat n + 1" by (rule unat_plus_one [OF Cons.prems(2)])
  then have "unat n + 1 \<le> unat width" using Cons.prems(2) by (simp add: word_less_nat_alt)
  moreover have "n + 1 < width" if "n + 1 \<noteq> width" using that n Cons.prems(2) by (metis inc_le order_less_le)
  ultimately show ?case using Cons.IH [of "n + 1"] Cons.prems n by (auto split: if_splits prod.splits)
qed (simp add: word_less_nat_alt)

end
