(* ===== verification/LS_Rob_Reach.thy ===== *)
theory LS_Rob_Reach
  imports LS_Rob_Inv
begin

text \<open>
  What holds of the reorder buffer after any sequence of micro-operations that enter it and of cycles: it is read in program order,
  nothing is lost, and dispatch never runs out of micro-operations; and what the ports let through in a cycle.
\<close>

section \<open>Commit keeps the invariant\<close>

lemma doCommit_inv:
  assumes inv: "rob_inv t" and now: "rt_now t < MaxTime" and run: "doCommit t = (cs, next_commit, t')"
  shows "rob_inv t' \<and> rob t = cs @ rob t' \<and> (\<forall>e \<in> set cs. e_done e \<le> rt_now t) \<and> nextSequenceNumber t' = nextSequenceNumber t"
proof -
  let ?n = "unat (m_num_in_rob t)" and ?k = "length cs" and ?ds = "map e_done (rob t)"
  obtain es where loop: "commit_loop (rt_now t) (commitWidth t) 0 (rob t) = (cs, es)"
    and t': "t' = t\<lparr>rob := es, m_num_in_rob := m_num_in_rob t - of_nat ?k\<rparr>"
    using run by (auto simp: doCommit_def Let_def split: prod.splits)
  have split: "rob t = cs @ es" and early: "\<forall>e \<in> set cs. e_done e \<le> rt_now t" using commit_loop_split [OF loop] by auto
  have k: "?k \<le> ?n"
  proof (rule ccontr)
    assume "\<not> ?k \<le> ?n"
    then have n: "?n < length cs" "?n < length (rob t)" using split by auto
    then have "?ds ! ?n \<in> set (drop ?n ?ds)" by (simp flip: Cons_nth_drop_Suc)
    then have "e_done (rob t ! ?n) = MaxTime" using inv n by (simp add: rob_inv_def)
    moreover have "e_done (rob t ! ?n) \<le> rt_now t" using early n split by (simp add: nth_append)
    ultimately show False using now by simp
  qed
  have small: "length (rob t) < 2 ^ 32" using inv by (auto simp: rob_inv_def)
  then have u: "unat (of_nat ?k :: UInt64) = ?k" using split by simp
  then have num: "unat (m_num_in_rob t - of_nat ?k) = ?n - ?k" using k by (simp add: unat_sub word_le_nat_alt)
  have ds: "map e_done es = drop ?k ?ds" using split by simp
  have "take (?n - ?k) (drop ?k ?ds) = drop ?k (take ?n ?ds)" by (simp add: drop_take)
  moreover have "filter (\<lambda>d. d = MaxTime) (take ?k (take ?n ?ds)) = []" using early now split k by (auto simp: filter_empty_conv min_def)
  then have "filter (\<lambda>d. d = MaxTime) (take ?n ?ds) = filter (\<lambda>d. d = MaxTime) (drop ?k (take ?n ?ds))"
    by (metis append_Nil append_take_drop_id filter_append)
  ultimately have count: "open_entries t' = open_entries t" unfolding open_entries_def t' using num ds by simp
  have rest: "drop (?n - ?k) (map e_done es) = drop ?n ?ds" unfolding ds using k by simp
  have "map e_seq es = drop ?k (map e_seq (rob t))" using split by simp
  also have "\<dots> = map (\<lambda>i. nextSequenceNumber t - of_nat (length (rob t)) + of_nat i) [?k..<length (rob t)]" using inv by (simp add: rob_inv_def drop_map)
  also have "\<dots> = map (\<lambda>i. nextSequenceNumber t - of_nat (length es) + of_nat i) [0..<length es]"
    by (rule nth_equalityI) (use split in auto)
  finally have seqs: "map e_seq es = map (\<lambda>i. nextSequenceNumber t - of_nat (length es) + of_nat i) [0..<length es]" .
  have le: "m_num_in_rob t - of_nat ?k \<le> windowSize t"
  proof -
    have "unat (m_num_in_rob t) \<le> unat (windowSize t)" using inv by (simp add: rob_inv_def word_le_nat_alt)
    then show ?thesis using num by (simp add: word_le_nat_alt)
  qed
  have f: "rob t' = es" "m_num_in_rob t' = m_num_in_rob t - of_nat ?k" "nextSequenceNumber t' = nextSequenceNumber t" "windowSize t' = windowSize t"
    "rob_capacity t' = rob_capacity t" "rsEntries t' = rsEntries t" "m_rs_entries_used t' = m_rs_entries_used t" by (simp_all add: t')
  have len: "length (rob t) = ?k + length es" using split by simp
  have "rob_inv t'" unfolding rob_inv_def f count num rest
  proof (intro conjI)
    show "map e_seq es = map (\<lambda>i. nextSequenceNumber t - of_nat (length es) + of_nat i) [0..<length es]" by (rule seqs)
    show "m_num_in_rob t - of_nat ?k \<le> windowSize t" by (rule le)
    show "list_all entry_ok es" using inv split by (simp add: rob_inv_def)
    show "\<forall>d\<in>set (drop ?n ?ds). d = MaxTime" using inv unfolding rob_inv_def by blast
    have "?n \<le> length (rob t)" "length (rob t) \<le> rob_capacity t" using inv unfolding rob_inv_def by auto
    then show "?n - ?k \<le> length es" "length es \<le> rob_capacity t" using len by auto
  qed (use inv in \<open>simp_all add: rob_inv_def\<close>)
  then show ?thesis using split early t' by simp
qed

section \<open>A cycle keeps the invariant\<close>

lemma rob_inv_cycle_fields [simp]:
  "rob_inv (t\<lparr>will_skip := b, rt_now := n, time_skipped := s\<rparr>) = rob_inv t" "rob_inv (t\<lparr>m_cpi := c\<rparr>) = rob_inv t"
  "rob_inv (t\<lparr>m_outstandingLoads := l, m_outstandingLoadsAll := a\<rparr>) = rob_inv t" "rob_inv (t\<lparr>rt_now := n\<rparr>) = rob_inv t"
  by (simp_all add: rob_inv_def open_entries_def)

text \<open>After commit a cycle only moves the clock and counts.\<close>

definition same_buffer :: "RobTimer \<Rightarrow> RobTimer \<Rightarrow> bool" where
  "same_buffer t t' \<longleftrightarrow> rob_inv t' = rob_inv t \<and> rob t' = rob t \<and> nextSequenceNumber t' = nextSequenceNumber t \<and> same_config t t'"

lemma countOutstandingMemop_same: "countOutstandingMemop time t = Inr t' \<Longrightarrow> same_buffer t t'"
  by (auto simp: countOutstandingMemop_def bindE_Inr_iff Let_def same_buffer_def same_config_def)

lemma rob_execute_end:
  assumes run: "rob_execute mem t = Inr (cs, latency, t')" and go: "can_dispatch t" and d: "doDispatch t = Inr (nd, c, u)" and i: "doIssue mem u = Inr (ni, v)"
  obtains nc w where "doCommit v = (cs, nc, w)" and "same_buffer w t'" and "rt_now t' = rt_now w + latency"
    and "latency = rt_period w \<or> (\<exists>n. n > in_cycles w 1 \<and> latency = n - rt_now w)"
proof -
  obtain cs0 nc w where w: "doCommit v = (cs0, nc, w)" by (metis prod_cases3)
  let ?skips = "min nd (min ni nc) \<noteq> MaxTime \<and> min nd (min ni nc) > in_cycles w 1"
  let ?skip = "if ?skips then min nd (min ni nc) - rt_now w else rt_period w"
  let ?x = "w\<lparr>will_skip := ?skips, rt_now := rt_now w + ?skip,
      time_skipped := (if ?skip > rt_period w then time_skipped w + (?skip - rt_period w) else time_skipped w)\<rparr>"
  have "\<not> (frontend_stalled_until t \<le> rt_now t \<and> of_nat (length (rob t)) < m_num_in_rob t + 2 * dispatchWidth t)"
    using go by (simp add: can_dispatch_def)
  then have "bindE (if m_mlp_histogram ?x then countOutstandingMemop ?skip ?x else Inr ?x)
      (\<lambda>t. Inr (cs0, ?skip, t\<lparr>m_cpi := (m_cpi t)(c := m_cpi t c + ?skip)\<rparr>)) = Inr (cs, latency, t')"
    using run by (simp only: rob_execute_def d i w bindE_simps prod.case Let_def if_False)
  then obtain y where y: "(if m_mlp_histogram ?x then countOutstandingMemop ?skip ?x else Inr ?x) = Inr y"
    and cs: "cs0 = cs" "?skip = latency" and t': "t' = y\<lparr>m_cpi := (m_cpi y)(c := m_cpi y c + ?skip)\<rparr>" unfolding bindE_Inr_iff by blast
  have "same_buffer w ?x" by (simp add: same_buffer_def same_config_def)
  moreover have "same_buffer ?x y" using y countOutstandingMemop_same by (cases "m_mlp_histogram ?x") (simp_all add: same_buffer_def)
  moreover have "same_buffer y t'" by (simp add: same_buffer_def same_config_def t')
  ultimately have same: "same_buffer w t'" by (simp add: same_buffer_def same_config_def)
  have "rt_now y = rt_now ?x" using y by (cases "m_mlp_histogram ?x") (auto simp: countOutstandingMemop_def bindE_Inr_iff Let_def)
  then have now: "rt_now t' = rt_now w + ?skip" unfolding t' by simp
  have "?skip = rt_period w \<or> (\<exists>n. n > in_cycles w 1 \<and> ?skip = n - rt_now w)" by (cases ?skips) auto
  then show thesis using that [OF w [unfolded cs(1)] same] now unfolding cs(2) by blast
qed

lemma rob_execute_issues:
  assumes run: "rob_execute mem t = Inr (cs, latency, t')" and go: "can_dispatch t" and d: "doDispatch t = Inr (nd, c, u)"
  obtains ni v where "doIssue mem u = Inr (ni, v)"
proof (cases "doIssue mem u")
  case (Inl e)
  have "\<not> (frontend_stalled_until t \<le> rt_now t \<and> of_nat (length (rob t)) < m_num_in_rob t + 2 * dispatchWidth t)"
    using go by (simp add: can_dispatch_def)
  then have "rob_execute mem t = Inl e" by (simp only: rob_execute_def if_False d Inl bindE_simps prod.case)
  then show thesis using run by simp
next
  case (Inr r)
  then show thesis using that by (cases r) simp
qed

lemma rob_execute_inv:
  assumes inv: "rob_inv t" and room: "clock_room t" and width: "0 < unat (dispatchWidth t)" "unat (dispatchWidth t) < 2 ^ 32"
    and run: "rob_execute mem t = Inr (cs, latency, t')"
  shows "rob_inv t' \<and> same_config t t' \<and> map e_seq (rob t) = map e_seq (cs @ rob t') \<and> nextSequenceNumber t' = nextSequenceNumber t \<and>
    (\<forall>e \<in> set cs. getDependenciesLength (e_uop e) = 0 \<and> e_done e \<noteq> MaxTime)"
proof (cases "can_dispatch t")
  case False
  then show ?thesis using run inv by (simp add: rob_execute_def can_dispatch_def)
next
  case True
  obtain nd c u where u: "doDispatch t = Inr (nd, c, u)" "rob_inv u" "same_params t u" using doDispatch_ok [OF inv True width] by blast
  have room_u: "clock_room u" using room u(3) by (simp add: clock_room_def same_params_def)
  obtain ni v where v: "doIssue mem u = Inr (ni, v)" by (rule rob_execute_issues [OF run True u(1)])
  have iv: "rob_inv v" "same_params u v" using doIssue_inv [OF u(2) room_u v] by auto
  have tv: "same_params t v" by (rule same_params_trans [OF u(3) iv(2)])
  have now: "rt_now v < MaxTime" using now_in_time [OF room] tv by (simp add: same_params_def)
  obtain nc w where w: "doCommit v = (cs, nc, w)" and fin: "same_buffer w t'" by (rule rob_execute_end [OF run True u(1) v])
  note cw = doCommit_inv [OF iv(1) now w]
  have "same_config v w" using w by (auto simp: doCommit_def Let_def same_config_def split: prod.splits)
  then have conf: "same_config t t'" using tv fin by (simp add: same_params_def same_config_def same_buffer_def)
  have early: "getDependenciesLength (e_uop e) = 0 \<and> e_done e \<noteq> MaxTime" if "e \<in> set cs" for e
  proof -
    have "entry_ok e" using iv(1) cw that by (auto simp: rob_inv_def list_all_iff)
    moreover have "e_done e \<noteq> MaxTime" using cw that now by auto
    ultimately show ?thesis by (auto simp: entry_ok_def)
  qed
  have "rob v = cs @ rob t'" "rob_inv t'" "nextSequenceNumber t' = nextSequenceNumber t" using cw fin tv by (simp_all add: same_buffer_def same_params_def)
  moreover have "map e_seq (rob t) = map e_seq (rob v)" using tv by (simp add: same_params_def)
  ultimately show ?thesis using conf early by simp
qed

text \<open>
  The loop of \<^verbatim>\<open>simulate\<close> stops at the first cycle that takes no time: that is the one which cannot dispatch. Every other cycle moves
  the clock forward by its latency.
\<close>

lemma rob_execute_stops: "\<not> can_dispatch t \<Longrightarrow> rob_execute mem t = Inr ([], 0, t)"
  by (simp add: rob_execute_def can_dispatch_def)

lemma rob_execute_time:
  assumes inv: "rob_inv t" and room: "clock_room t" and width: "0 < unat (dispatchWidth t)" "unat (dispatchWidth t) < 2 ^ 32"
    and period: "rt_period t \<noteq> 0" and can: "can_dispatch t" and run: "rob_execute mem t = Inr (cs, latency, t')"
  shows "latency \<noteq> 0 \<and> rt_now t' = rt_now t + latency"
proof -
  obtain nd c u where u: "doDispatch t = Inr (nd, c, u)" "rob_inv u" "same_params t u" using doDispatch_ok [OF inv can width] by blast
  have room_u: "clock_room u" using room u(3) by (simp add: clock_room_def same_params_def)
  obtain ni v where v: "doIssue mem u = Inr (ni, v)" by (rule rob_execute_issues [OF run can u(1)])
  have tv: "same_params t v" using doIssue_inv [OF u(2) room_u v] same_params_trans [OF u(3)] by blast
  obtain nc w where w: "doCommit v = (cs, nc, w)" and now: "rt_now t' = rt_now w + latency"
    and lat: "latency = rt_period w \<or> (\<exists>n. n > in_cycles w 1 \<and> latency = n - rt_now w)"
    by (rule rob_execute_end [OF run can u(1) v])
  have tw: "rt_now w = rt_now t" "rt_period w = rt_period t"
    using w tv by (auto simp: doCommit_def Let_def same_params_def split: prod.splits)
  have "unat (in_cycles t (of_nat 1)) = unat (rt_now t) + unat (rt_period t) * 1" by (rule in_cycles_room(1) [OF room]) simp
  then have "rt_now w \<le> in_cycles w 1" using tw by (simp add: in_cycles_def word_le_nat_alt)
  then have "latency \<noteq> 0" using lat period tw(2) by auto
  then show ?thesis using now tw(1) by simp
qed

section \<open>Every sequence of calls\<close>

text \<open>The second argument lists the entries that have been committed.\<close>

inductive rob_reach :: "RobTimer \<Rightarrow> RobEntry list \<Rightarrow> RobTimer \<Rightarrow> bool" for t0 where
  rob_start: "rob_reach t0 [] t0"
| rob_enter: "rob_reach t0 cs t \<Longrightarrow> enter_uop fresh d t = Inr t' \<Longrightarrow> rob_reach t0 cs t'"
| rob_cycle: "rob_reach t0 cs t \<Longrightarrow> clock_room t \<Longrightarrow> rob_execute mem t = Inr (cs', latency, t') \<Longrightarrow> rob_reach t0 (cs @ cs') t'"
| rob_sync: "rob_reach t0 cs t \<Longrightarrow> rob_reach t0 cs (rob_synchronize time t)"

lemma mk_RobTimer_inv:
  "rob_inv (mk_RobTimer penalty dw ws cw rs fwd dis ord cont mlp ol os lll period invalid regs)"
proof -
  have "unat (ws + 255) < 2 ^ 32" using unsigned_less [of "ws + 255", where 'a = nat] by simp
  then show ?thesis by (simp add: rob_inv_def mk_RobTimer_def open_entries_def)
qed

lemma rob_reach_inv:
  assumes "rob_reach t0 cs t" and "rob_inv t0" and "oldest t0 = 0" and width: "0 < unat (dispatchWidth t0)" "unat (dispatchWidth t0) < 2 ^ 32"
  shows "rob_inv t \<and> same_config t0 t \<and> oldest t = of_nat (length cs) \<and> map e_seq cs = map of_nat [0..<length cs] \<and>
    (\<forall>e \<in> set cs. getDependenciesLength (e_uop e) = 0 \<and> e_done e \<noteq> MaxTime)"
  using assms(1)
proof (induction rule: rob_reach.induct)
  case rob_start
  then show ?case using assms(2,3) by simp
next
  case (rob_enter cs t fresh d t')
  have "rob_inv t" using rob_enter.IH by simp
  then have "rob_inv t' \<and> same_config t t' \<and> oldest t' = oldest t" using rob_enter.hyps(2) by (rule enter_uop_inv)
  then show ?case using rob_enter.IH same_config_trans by metis
next
  case (rob_cycle cs t mem cs' latency t')
  have t: "rob_inv t" "same_config t0 t" "oldest t = of_nat (length cs)" using rob_cycle.IH by simp_all
  have w: "0 < unat (dispatchWidth t)" "unat (dispatchWidth t) < 2 ^ 32" using t(2) width by (simp_all add: same_config_def)
  note ex = rob_execute_inv [OF t(1) rob_cycle.hyps(2) w rob_cycle.hyps(3)]
  have len: "length (rob t) = length cs' + length (rob t')" using ex map_eq_imp_length_eq [of e_seq "rob t" e_seq "cs' @ rob t'"] by simp
  then have old: "oldest t' = of_nat (length (cs @ cs'))" using t(3) ex by (simp add: oldest_def algebra_simps)
  have "map e_seq cs' = take (length cs') (map e_seq (rob t))" using ex by simp
  also have "\<dots> = map (\<lambda>i. oldest t + of_nat i) [0..<length cs']" using t(1) len by (simp add: rob_inv_def oldest_def take_map)
  also have "\<dots> = map of_nat [length cs..<length (cs @ cs')]" unfolding t(3) by (rule nth_equalityI) simp_all
  finally have "map e_seq (cs @ cs') = map of_nat [0..<length (cs @ cs')]"
    using rob_cycle.IH upt_add_eq_append [of 0 "length cs" "length cs'"] by simp
  then show ?case using ex old rob_cycle.IH same_config_trans [OF t(2)] by auto
next
  case (rob_sync cs t time)
  then show ?case by (simp add: same_config_def oldest_def rob_synchronize_def)
qed

lemma clock_room_code [code]: "clock_room t \<longleftrightarrow> uint (rt_now t) + 4294967296 * uint (rt_period t) < 18446744073709551615"
proof -
  have "int (unat (rt_now t) + 2 ^ 32 * unat (rt_period t)) = uint (rt_now t) + 4294967296 * uint (rt_period t)" by simp
  moreover have "(18446744073709551615 :: int) = int (2 ^ 64 - 1)" by simp
  ultimately show ?thesis unfolding clock_room_def by (metis of_nat_less_iff)
qed

text \<open>The same sequences, as a function of the calls.\<close>

datatype rob_call = CallEnter SubsecondTime DynamicMicroOp | CallCycle | CallSync SubsecondTime

fun rob_run :: "(UInt64 \<Rightarrow> SubsecondTime \<Rightarrow> SubsecondTime \<times> hitwhere_t) \<Rightarrow> rob_call list \<Rightarrow> RobTimer \<Rightarrow> (RobEntry list \<times> RobTimer) res" where
  "rob_run mem [] t = Inr ([], t)"
| "rob_run mem (CallEnter fresh d # es) t = bindE (enter_uop fresh d t) (rob_run mem es)"
| "rob_run mem (CallSync time # es) t = rob_run mem es (rob_synchronize time t)"
| "rob_run mem (CallCycle # es) t =
     bindE (assertE (clock_room t) (AssertError ''clock'')) (\<lambda>_. bindE (rob_execute mem t)
     (\<lambda>(cs, latency, t). bindE (rob_run mem es t) (\<lambda>(cs', t). Inr (cs @ cs', t))))"

lemma rob_run_reach_from: "rob_run mem es t = Inr (cs', t') \<Longrightarrow> rob_reach t0 cs t \<Longrightarrow> rob_reach t0 (cs @ cs') t'"
proof (induction mem es t arbitrary: cs cs' t' rule: rob_run.induct)
  case (4 mem es t)
  then obtain cs1 latency u cs2 where "clock_room t" "rob_execute mem t = Inr (cs1, latency, u)" "rob_run mem es u = Inr (cs2, t')" "cs' = cs1 @ cs2"
    by (auto simp: bindE_Inr_iff)
  then show ?case using 4 rob_cycle by (metis append.assoc assertE_Inr_iff)
next
  case (2 mem fresh d es t)
  then show ?case using rob_enter by (auto simp: bindE_Inr_iff)
qed (auto intro: rob_sync)

lemma rob_run_reach: "rob_run mem es t = Inr (cs, t') \<Longrightarrow> rob_reach t cs t'"
  using rob_run_reach_from [OF _ rob_start] by simp

lemma mk_RobTimer_config:
  "oldest (mk_RobTimer penalty dw ws cw rs fwd dis ord cont mlp ol os lll period invalid regs) = 0"
  "dispatchWidth (mk_RobTimer penalty dw ws cw rs fwd dis ord cont mlp ol os lll period invalid regs) = ucast dw"
  "windowSize (mk_RobTimer penalty dw ws cw rs fwd dis ord cont mlp ol os lll period invalid regs) = ucast ws"
  "rsEntries (mk_RobTimer penalty dw ws cw rs fwd dis ord cont mlp ol os lll period invalid regs) = rs"
  by (simp_all add: mk_RobTimer_def oldest_def)

lemma mk_RobTimer_width:
  assumes "dw \<noteq> 0"
  shows "0 < unat (dispatchWidth (mk_RobTimer penalty dw ws cw rs fwd dis ord cont mlp ol os lll period invalid regs))"
    and "unat (dispatchWidth (mk_RobTimer penalty dw ws cw rs fwd dis ord cont mlp ol os lll period invalid regs)) < 2 ^ 32"
  using assms unsigned_less [of dw, where 'a = nat] unfolding mk_RobTimer_config by (simp_all add: unat_ucast_32_64 unat_gt_0)

text \<open>
  C28. Micro-operations leave the reorder buffer in the order in which they entered it, none is lost and none comes twice: what has been
  committed followed by what is in the buffer are the sequence numbers from 0 on. What has been committed had been executed and had no
  dependency left, and the window and the reservation stations never hold more than the configuration says.
\<close>

theorem rob_commits_in_order:
  assumes "rob_reach (mk_RobTimer penalty dispatch_width window_size commit_width rs_entries forwarding disambiguation in_order contention histogram
      loads stores cutoff period invalid regs) cs t" and "dispatch_width \<noteq> 0"
  shows "map e_seq (cs @ rob t) = map of_nat [0..<length cs + length (rob t)] \<and>
    (\<forall>e \<in> set cs. getDependenciesLength (e_uop e) = 0 \<and> e_done e \<noteq> MaxTime) \<and>
    unat (m_num_in_rob t) \<le> min (length (rob t)) (unat window_size) \<and> m_rs_entries_used t \<le> rs_entries"
proof -
  let ?t0 = "mk_RobTimer penalty dispatch_width window_size commit_width rs_entries forwarding disambiguation in_order contention histogram
      loads stores cutoff period invalid regs"
  note conf = mk_RobTimer_config
  note r = rob_reach_inv [OF assms(1) mk_RobTimer_inv conf(1) mk_RobTimer_width [OF assms(2)]]
  have old: "oldest t = of_nat (length cs)" and inv: "rob_inv t" and same: "same_config ?t0 t" using r by simp_all
  have "map e_seq (rob t) = map (\<lambda>i. oldest t + of_nat i) [0..<length (rob t)]" using inv by (simp add: rob_inv_def oldest_def)
  also have "\<dots> = map of_nat [length cs..<length cs + length (rob t)]" unfolding old by (rule nth_equalityI) simp_all
  finally have "map e_seq (rob t) = map of_nat [length cs..<length cs + length (rob t)]" .
  moreover have "map e_seq cs = map of_nat [0..<length cs]" using r by simp
  ultimately have "map e_seq (cs @ rob t) = map of_nat [0..<length cs + length (rob t)]" by (simp only: map_append upt_add_eq_append [of 0] zero_le)
  moreover have "unat (m_num_in_rob t) \<le> length (rob t)" "m_num_in_rob t \<le> windowSize t" "m_rs_entries_used t \<le> rsEntries t"
    using inv by (simp_all add: rob_inv_def)
  moreover have "unat (windowSize t) = unat window_size" "rsEntries t = rs_entries"
    using same conf by (simp_all add: same_config_def unat_ucast_32_64)
  ultimately show ?thesis using r by (simp add: word_le_nat_alt)
qed

text \<open>A small run: additions, each of which reads the register that the one before it writes, one dispatched in a cycle.\<close>

definition sample_uop :: "nat \<Rightarrow> DynamicMicroOp" where
  "sample_uop r =
    (let u = makeExecute 0 0 ''ADD'' False \<lparr>uop_type = UOP_INVALID, uop_subtype = UOP_SUBTYPE_GENERIC, uop_first = True, uop_last = True,
          instructionOpcode = ''INVALID'', uop_typeOffset = 0, uop_intraDependencies = 0, sourceRegisters = [r], addressRegisters = [],
          destinationRegisters = [r + 1], uop_interrupt = False, uop_serializing = False, uop_branch = False, m_membar = False, is_x87 = False,
          operand_size = 0, memoryAccessSize = 0\<rparr>
     in \<lparr>d_uop = u, d_period = 10, sequenceNumber = INVALID_SEQNR, d_address = 0, squashed = False,
        intraInstructionDependencies = uop_intraDependencies u, microOpTypeOffset = uop_typeOffset u, squashedCount = 0,
        dependencies = [], execLatency = getInstructionLatency u, branchTaken = False, branchMispredicted = False,
        branchTargetAddress = 0, dCacheHitWhere = HW_UNKNOWN, iCacheHitWhere = HW_L1I, iCacheLatency = 0,
        m_forceLongLatencyLoad = False, d_first = uop_first u, d_last = uop_last u,
        uop_port = getPort u, uop_alu = getAlu u, uop_bypass = getBypassType u\<rparr>)"

definition sample_timer :: RobTimer where
  "sample_timer = mk_RobTimer 8 1 4 2 4 False True False True False 4 4 30 10 0 8"

definition sample_run :: "(RobEntry list \<times> RobTimer) res" where
  "sample_run = rob_run (\<lambda>_ _. (0, HW_L1_OWN)) (map (\<lambda>r. CallEnter 0 (sample_uop r)) [1..<7] @ replicate 4 CallCycle) sample_timer"

lemma sample_runs:
  "\<exists>cs t. sample_run = Inr (cs, t) \<and> map e_seq cs = [0] \<and> of_nat (length (rob t)) \<ge> m_num_in_rob t + 2 * ucast (1 :: UInt32)"
proof -
  have ok: "(case sample_run of Inl _ \<Rightarrow> False
    | Inr (cs, t) \<Rightarrow> map e_seq cs = [0] \<and> of_nat (length (rob t)) \<ge> m_num_in_rob t + 2 * ucast (1 :: UInt32))" by code_simp
  show ?thesis
  proof (cases sample_run)
    case (Inr r)
    obtain cs t where r: "r = (cs, t)" by (cases r)
    show ?thesis unfolding Inr r by (rule exI [of _ cs], rule exI [of _ t]) (use ok in \<open>simp add: Inr r\<close>)
  next
    case (Inl e)
    show ?thesis using ok unfolding Inl by simp
  qed
qed

theorem rob_commits_in_order_witness:
  "\<exists>cs t. rob_reach sample_timer cs t \<and> map e_seq cs = [0] \<and> map e_seq (cs @ rob t) = map of_nat [0..<length cs + length (rob t)] \<and>
     m_rs_entries_used t \<le> 4"
proof -
  obtain cs t where run: "sample_run = Inr (cs, t)" "map e_seq cs = [0]" using sample_runs by (elim exE conjE)
  have reach: "rob_reach sample_timer cs t" by (rule rob_run_reach [OF run(1) [unfolded sample_run_def]])
  have "map e_seq (cs @ rob t) = map of_nat [0..<length cs + length (rob t)] \<and> m_rs_entries_used t \<le> 4"
    using rob_commits_in_order [OF reach [unfolded sample_timer_def]] by auto
  then show ?thesis by (intro exI [of _ cs] exI [of _ t] conjI reach run(2)) (elim conjE, assumption)+
qed

text \<open>
  C29. A cycle that starts dispatching finds every micro-operation it looks at: once \<^verbatim>\<open>execute\<close> has checked that the buffer holds two
  dispatch widths of undispatched micro-operations, or that the front end is stalled, \<^verbatim>\<open>doDispatch\<close> never reads past the end of
  the buffer and never fails, and it changes neither the order nor the number of the entries.
\<close>

theorem dispatch_never_starves:
  assumes reach: "rob_reach (mk_RobTimer penalty dispatch_width window_size commit_width rs_entries forwarding disambiguation in_order contention histogram
      loads stores cutoff period invalid regs) cs t" and dw: "dispatch_width \<noteq> 0"
    and can: "frontend_stalled_until t > rt_now t \<or> of_nat (length (rob t)) \<ge> m_num_in_rob t + 2 * ucast dispatch_width"
  shows "\<exists>next_event cpi t'. doDispatch t = Inr (next_event, cpi, t') \<and> map e_seq (rob t') = map e_seq (rob t)"
proof -
  let ?t0 = "mk_RobTimer penalty dispatch_width window_size commit_width rs_entries forwarding disambiguation in_order contention histogram
      loads stores cutoff period invalid regs"
  note r = rob_reach_inv [OF reach mk_RobTimer_inv mk_RobTimer_config(1) mk_RobTimer_width [OF dw]]
  have inv: "rob_inv t" and same: "dispatchWidth t = ucast dispatch_width" using r mk_RobTimer_config by (simp_all add: same_config_def)
  have width: "0 < unat (dispatchWidth t)" "unat (dispatchWidth t) < 2 ^ 32" using mk_RobTimer_width [OF dw] same mk_RobTimer_config(2) by simp_all
  have "can_dispatch t" using can unfolding can_dispatch_def same by auto
  then show ?thesis using doDispatch_ok [OF inv _ width] by (auto simp: same_params_def)
qed

theorem dispatch_never_starves_witness:
  "\<exists>cs t next_event cpi t'. rob_reach sample_timer cs t \<and> map e_seq cs = [0] \<and> doDispatch t = Inr (next_event, cpi, t') \<and> map e_seq (rob t') = map e_seq (rob t)"
proof -
  obtain cs t where run: "sample_run = Inr (cs, t)" "map e_seq cs = [0]" "of_nat (length (rob t)) \<ge> m_num_in_rob t + 2 * ucast (1 :: UInt32)"
    using sample_runs by (elim exE conjE)
  have reach: "rob_reach sample_timer cs t" by (rule rob_run_reach [OF run(1) [unfolded sample_run_def]])
  obtain next_event cpi t' where "doDispatch t = Inr (next_event, cpi, t') \<and> map e_seq (rob t') = map e_seq (rob t)"
    using dispatch_never_starves [OF reach [unfolded sample_timer_def] _ disjI2 [OF run(3)]] by auto
  then show ?thesis by (intro exI [of _ cs] exI [of _ t] exI [of _ next_event] exI [of _ cpi] exI [of _ t'] conjI reach run(2)) (elim conjE, assumption)+
qed

end
