(* ===== verification/LS_Rob_Ports.thy ===== *)
theory LS_Rob_Ports
  imports LS_Rob_Inv
begin

text \<open>
  What the issue ports let through in a cycle, how much a cycle commits and how long it takes.
\<close>

section \<open>Ports\<close>

text \<open>The micro-operations that are issued of those that are tried in a cycle, in the order in which they are tried.\<close>

fun issue_all :: "SubsecondTime \<Rightarrow> DynamicMicroOp list \<Rightarrow> RobContentionNehalem \<Rightarrow> DynamicMicroOp list" where
  "issue_all period [] c = []"
| "issue_all period (d # ds) c =
     (let (can, c) = tryIssue d c in if can then d # issue_all period ds (rc_doIssue period d c) else issue_all period ds c)"

definition on_ports :: "uop_port_t set \<Rightarrow> DynamicMicroOp list \<Rightarrow> nat" where
  "on_ports ps ds = length (filter (\<lambda>d. uop_port d \<in> ps) ds)"

lemma on_ports_simps [simp]:
  "on_ports ps [] = 0"
  "on_ports ps (d # ds) = (if uop_port d \<in> ps then Suc (on_ports ps ds) else on_ports ps ds)"
  by (simp_all add: on_ports_def)

lemma rc_doIssue_ports [simp]:
  "rc_ports (rc_doIssue period d c) = rc_ports c" "ports_generic (rc_doIssue period d c) = ports_generic c"
  by (simp_all add: rc_doIssue_def)

lemma issue_all_step:
  assumes "take_port (uop_port d) c = Some c'"
  obtains c2 where "rc_ports c2 = rc_ports c'" and "ports_generic c2 = ports_generic c'"
    and "issue_all period (d # ds) c = issue_all period ds c2 \<or> issue_all period (d # ds) c = d # issue_all period ds c2"
proof (cases "uop_alu d \<noteq> UOP_ALU_NONE \<and> alu_used_until c' (uop_alu d) > rc_now c'")
  case True
  then show thesis using that [of c'] assms by (simp add: tryIssue_def)
next
  case False
  then have "tryIssue d c = (True, c')" using assms by (simp add: tryIssue_def)
  then show thesis using that [of "rc_doIssue period d c'"] by simp
qed

text \<open>A port of its own is taken once.\<close>

lemma take_port_once:
  assumes "take_port p c = Some c'" and "q \<noteq> UOP_PORT015" and "q \<noteq> UOP_PORT05"
  shows "(if rc_ports c q then 1 else 0) + (if p = q then 1 else 0) = (if rc_ports c' q then 1 else (0 :: nat))"
  using assms by (auto simp: take_port_def split: if_splits)

lemma issue_all_once:
  "q \<noteq> UOP_PORT015 \<Longrightarrow> q \<noteq> UOP_PORT05 \<Longrightarrow> on_ports {q} (issue_all period ds c) + (if rc_ports c q then 1 else 0) \<le> 1"
proof (induction ds arbitrary: c)
  case (Cons d ds)
  show ?case
  proof (cases "take_port (uop_port d) c")
    case None
    then show ?thesis using Cons.IH Cons.prems by (simp add: tryIssue_def)
  next
    case (Some c')
    obtain c2 where c2: "rc_ports c2 = rc_ports c'"
        "issue_all period (d # ds) c = issue_all period ds c2 \<or> issue_all period (d # ds) c = d # issue_all period ds c2"
      by (rule issue_all_step [OF Some])
    then have "on_ports {q} (issue_all period (d # ds) c) \<le> on_ports {q} (issue_all period ds c2) + (if uop_port d = q then 1 else 0)" by auto
    moreover have "on_ports {q} (issue_all period ds c2) + (if rc_ports c' q then 1 else 0) \<le> 1" using Cons.IH [OF Cons.prems, of c2] c2(1) by simp
    ultimately show ?thesis using take_port_once [OF Some Cons.prems] by linarith
  qed
qed simp

text \<open>The three ports of the arithmetic units share one count.\<close>

abbreviation alu_ports :: "uop_port_t set" where
  "alu_ports \<equiv> {UOP_PORT0, UOP_PORT1, UOP_PORT5, UOP_PORT015}"

lemma take_port_generic:
  "take_port p c = Some c' \<Longrightarrow> ports_generic c \<le> 3 \<Longrightarrow>
     ports_generic c' = ports_generic c + (if p \<in> alu_ports then 1 else 0) \<and> ports_generic c' \<le> 3"
  by (cases p) (auto simp: take_port_def split: if_splits)

lemma issue_all_generic: "ports_generic c \<le> 3 \<Longrightarrow> on_ports alu_ports (issue_all period ds c) + ports_generic c \<le> 3"
proof (induction ds arbitrary: c)
  case (Cons d ds)
  show ?case
  proof (cases "take_port (uop_port d) c")
    case None
    then show ?thesis using Cons by (simp add: tryIssue_def)
  next
    case (Some c')
    note step = take_port_generic [OF Some Cons.prems]
    obtain c2 where c2: "ports_generic c2 = ports_generic c'"
        "issue_all period (d # ds) c = issue_all period ds c2 \<or> issue_all period (d # ds) c = d # issue_all period ds c2"
      by (rule issue_all_step [OF Some])
    then have "on_ports alu_ports (issue_all period (d # ds) c) \<le> on_ports alu_ports (issue_all period ds c2) + (if uop_port d \<in> alu_ports then 1 else 0)"
      by auto
    moreover have "on_ports alu_ports (issue_all period ds c2) + ports_generic c' \<le> 3" using Cons.IH [of c2] c2(1) step by simp
    ultimately show ?thesis using step by linarith
  qed
qed simp

lemma getPort_not_05: "getPort u \<noteq> UOP_PORT05"
  by (simp add: getPort_def split: uop_subtype_t.split)

lemma on_all_ports: "\<forall>d \<in> set ds. uop_port d \<noteq> UOP_PORT05 \<Longrightarrow> length ds = on_ports alu_ports ds + on_ports {UOP_PORT2} ds + on_ports {UOP_PORT34} ds"
proof (induction ds)
  case (Cons d ds)
  then show ?case by (cases "uop_port d") simp_all
qed simp

lemma issue_all_subset: "set (issue_all period ds c) \<subseteq> set ds"
  by (induction ds arbitrary: c) (auto simp: Let_def split: prod.splits if_splits)

text \<open>
  C30. In one cycle the ports of the Nehalem model let through at most five micro-operations: at most one load, at most one store, at most
  three on the arithmetic ports, and at most one on each of the ports 0, 1 and 5, in whatever order they are tried.
\<close>

theorem issue_ports_bound:
  assumes "\<forall>d \<in> set ds. uop_port d = getPort (d_uop d)"
  shows "length (issue_all period ds (initCycle now c)) \<le> 5 \<and> on_ports alu_ports (issue_all period ds (initCycle now c)) \<le> 3 \<and>
    (\<forall>q \<in> {UOP_PORT0, UOP_PORT1, UOP_PORT2, UOP_PORT34, UOP_PORT5}. on_ports {q} (issue_all period ds (initCycle now c)) \<le> 1)"
proof -
  let ?is = "issue_all period ds (initCycle now c)"
  have once: "on_ports {q} ?is \<le> 1" if "q \<noteq> UOP_PORT015" "q \<noteq> UOP_PORT05" for q
    using issue_all_once [OF that, of period ds "initCycle now c"] by simp
  have alu: "on_ports alu_ports ?is \<le> 3" using issue_all_generic [of "initCycle now c" period ds] by (simp add: initCycle_def)
  have "\<forall>d \<in> set ?is. uop_port d \<noteq> UOP_PORT05" using assms issue_all_subset [of period ds "initCycle now c"] getPort_not_05 by (metis subsetD)
  then have "length ?is = on_ports alu_ports ?is + on_ports {UOP_PORT2} ?is + on_ports {UOP_PORT34} ?is" by (rule on_all_ports)
  then have "length ?is \<le> 5" using alu once [of UOP_PORT2] once [of UOP_PORT34] by simp
  then show ?thesis using alu once by simp
qed

text \<open>Two additions, two loads, a third addition and two jumps are tried: one load, the additions and none of the jumps get a port.\<close>

definition port_uop :: "uop_type_t \<Rightarrow> uop_subtype_t \<Rightarrow> xed_iclass_enum_t \<Rightarrow> DynamicMicroOp" where
  "port_uop ty sub opcode =
    (let u = \<lparr>uop_type = ty, uop_subtype = sub, uop_first = True, uop_last = True,
          instructionOpcode = opcode, uop_typeOffset = 0, uop_intraDependencies = 0, sourceRegisters = [], addressRegisters = [],
          destinationRegisters = [], uop_interrupt = False, uop_serializing = False, uop_branch = False, m_membar = False, is_x87 = False,
          operand_size = 0, memoryAccessSize = 0\<rparr>
     in \<lparr>d_uop = u, d_period = 10, sequenceNumber = 0, d_address = 0, squashed = False,
        intraInstructionDependencies = uop_intraDependencies u, microOpTypeOffset = uop_typeOffset u, squashedCount = 0,
        dependencies = [], execLatency = getInstructionLatency u, branchTaken = False, branchMispredicted = False,
        branchTargetAddress = 0, dCacheHitWhere = HW_UNKNOWN, iCacheHitWhere = HW_L1I, iCacheLatency = 0,
        m_forceLongLatencyLoad = False, d_first = uop_first u, d_last = uop_last u,
        uop_port = getPort u, uop_alu = getAlu u, uop_bypass = getBypassType u\<rparr>)"

definition port_trial :: "DynamicMicroOp list" where
  "port_trial =
    (let add = port_uop UOP_EXECUTE UOP_SUBTYPE_GENERIC ''ADD''; load = port_uop UOP_LOAD UOP_SUBTYPE_LOAD ''MOV''; jump = port_uop UOP_EXECUTE UOP_SUBTYPE_BRANCH ''JMP''
     in [add, add, load, load, add, jump, jump])"

definition idle_ports :: RobContentionNehalem where
  "idle_ports = \<lparr>rc_now = 0, rc_ports = (\<lambda>_. False), ports_generic = 0, ports_generic05 = 0, alu_used_until = (\<lambda>_. 0)\<rparr>"

theorem issue_ports_bound_witness:
  "length (issue_all 10 port_trial (initCycle 0 idle_ports)) \<le> 5 \<and>
   map uop_port (issue_all 10 port_trial (initCycle 0 idle_ports)) = [UOP_PORT015, UOP_PORT015, UOP_PORT2, UOP_PORT015]"
proof
  have "\<forall>d \<in> set port_trial. uop_port d = getPort (d_uop d)" by (simp add: port_trial_def port_uop_def Let_def)
  then show "length (issue_all 10 port_trial (initCycle 0 idle_ports)) \<le> 5" using issue_ports_bound by blast
  show "map uop_port (issue_all 10 port_trial (initCycle 0 idle_ports)) = [UOP_PORT015, UOP_PORT015, UOP_PORT2, UOP_PORT015]" by code_simp
qed

section \<open>Commit\<close>

text \<open>At most \<open>commitWidth\<close> micro-operations leave in a cycle.\<close>

lemma doCommit_width: "doCommit t = (cs, next_commit, t') \<Longrightarrow> 0 < commitWidth t \<Longrightarrow> length cs \<le> unat (commitWidth t)"
  by (auto simp: doCommit_def Let_def split: prod.splits dest!: commit_loop_width)

end
