(* ===== verification/LS_Network.thy ===== *)
theory LS_Network
  imports LS_Queue_Model "HOL-Library.Signed_Division"
begin

text \<open>
  The networks between the cores: \<^verbatim>\<open>network.cc\<close>, which sends, forwards and receives packets, and the models that say where a packet
  goes next and when it arrives (\<^verbatim>\<open>network_model.cc\<close>, \<^verbatim>\<open>network_model_magic.cc\<close>, \<^verbatim>\<open>network_model_bus.cc\<close>,
  \<^verbatim>\<open>network_model_emesh_hop_counter.cc\<close>, \<^verbatim>\<open>network_model_emesh_hop_by_hop.cc\<close>). What the network reads of the data of a packet, the
  requester and the modelled length, is the content of the packet here. The number of a core and the size of a mesh are integers: the
  code multiplies them only up to the number of cores. Division is that of C, which truncates.
\<close>

section \<open>Packets\<close>

datatype PacketType = INVALID_PACKET_TYPE | SHARED_MEM_1 | SIM_THREAD_TERMINATE_THREADS | CORE_THREAD_TERMINATE_THREADS

datatype EStaticNetwork = STATIC_NETWORK_MEMORY_1 | STATIC_NETWORK_SYSTEM

fun g_type_to_static_network_map :: "PacketType \<Rightarrow> EStaticNetwork" where
  "g_type_to_static_network_map SHARED_MEM_1 = STATIC_NETWORK_MEMORY_1"
| "g_type_to_static_network_map _ = STATIC_NETWORK_SYSTEM"

record NetPacket =
  start_time :: SubsecondTime
  pkt_time :: SubsecondTime
  queue_delay :: SubsecondTime
  pkt_type :: PacketType
  sender :: core_id_t
  receiver :: core_id_t
  pkt_length :: UInt32
  data_requester :: core_id_t
  data_length :: UInt32

definition BROADCAST :: core_id_t where
  "BROADCAST = -559039810"

record Hop =
  final_dest :: core_id_t
  next_dest :: core_id_t
  hop_time :: SubsecondTime

text \<open>
  What the models read of the configuration and of the rest of the simulator: the clocks, the arguments of the queue models, the number
  of cores, the bytes that a core number takes in a message, and the size of the packet structure.
\<close>

record net_env =
  ne_periods :: periods
  ne_queue :: queue_env
  total_cores :: int
  application_cores :: int
  core_id_length :: UInt32
  packet_size :: UInt32

definition bufferSize :: "net_env \<Rightarrow> NetPacket \<Rightarrow> UInt32" where
  "bufferSize env p = packet_size env + pkt_length p"

definition net_getModeledLength :: "net_env \<Rightarrow> NetPacket \<Rightarrow> UInt32" where
  "net_getModeledLength env p =
     (if pkt_type p = SHARED_MEM_1 then 1 + 2 * core_id_length env + 2 + data_length p else bufferSize env p)"

definition pkt_requester :: "net_env \<Rightarrow> NetPacket \<Rightarrow> core_id_t res" where
  "pkt_requester env p =
     (let requester = (if pkt_type p = SHARED_MEM_1 then data_requester p else sender p) in
      bindE (assertE (0 \<le> requester \<and> requester < total_cores env) (LogError ''requester(%i)'')) (\<lambda>_. Inr requester))"

definition all_cores :: "net_env \<Rightarrow> core_id_t list" where
  "all_cores env = [0..total_cores env - 1]"

section \<open>The traffic matrix\<close>

record TrafficMatrix =
  m_collect_traffic_matrix :: bool
  m_matrix_packets :: "UInt64 list"
  m_matrix_bytes :: "UInt64 list"

definition mk_TrafficMatrix :: "bool \<Rightarrow> nat \<Rightarrow> TrafficMatrix" where
  "mk_TrafficMatrix collect ncores =
     (let n = (if collect then ncores + 1 else 0) in
      \<lparr>m_collect_traffic_matrix = collect, m_matrix_packets = replicate n 0, m_matrix_bytes = replicate n 0\<rparr>)"

definition countPacket :: "net_env \<Rightarrow> NetPacket \<Rightarrow> TrafficMatrix \<Rightarrow> TrafficMatrix res" where
  "countPacket env p m =
     (if m_collect_traffic_matrix m
      then let dst = (if receiver p = BROADCAST then int (length (m_matrix_bytes m)) - 1 else receiver p); k = nat dst in
        bindE (assertE (0 \<le> dst \<and> k < length (m_matrix_bytes m) \<and> k < length (m_matrix_packets m)) OutOfRange)
        (\<lambda>_. Inr (m\<lparr>m_matrix_packets := (m_matrix_packets m)[k := m_matrix_packets m ! k + 1],
                    m_matrix_bytes := (m_matrix_bytes m)[k := m_matrix_bytes m ! k + ucast (net_getModeledLength env p)]\<rparr>))
      else Inr m)"

section \<open>Magic\<close>

record NetworkModelMagic =
  mg_enabled :: bool
  mg_num_packets :: UInt64
  mg_num_bytes :: UInt64
  mg_latency :: ComponentLatency

definition mk_NetworkModelMagic :: "period_ptr \<Rightarrow> NetworkModelMagic" where
  "mk_NetworkModelMagic domain = \<lparr>mg_enabled = False, mg_num_packets = 0, mg_num_bytes = 0, mg_latency = \<lparr>cl_period = domain, m_fixed_cycle_latency = 1\<rparr>\<rparr>"

definition direct_hops :: "net_env \<Rightarrow> NetPacket \<Rightarrow> SubsecondTime \<Rightarrow> Hop list" where
  "direct_hops env p t =
     (if receiver p = BROADCAST then map (\<lambda>i. \<lparr>final_dest = i, next_dest = i, hop_time = t\<rparr>) (all_cores env)
      else [\<lparr>final_dest = receiver p, next_dest = receiver p, hop_time = t\<rparr>])"

definition magic_routePacket :: "net_env \<Rightarrow> NetPacket \<Rightarrow> NetworkModelMagic \<Rightarrow> Hop list" where
  "magic_routePacket env p m = direct_hops env p (pkt_time p + cl_getLatency (ne_periods env) (mg_latency m))"

definition magic_processReceivedPacket :: "net_env \<Rightarrow> NetPacket \<Rightarrow> NetworkModelMagic \<Rightarrow> NetworkModelMagic res" where
  "magic_processReceivedPacket env p m =
     bindE (pkt_requester env p)
     (\<lambda>requester. if \<not> mg_enabled m \<or> requester \<ge> application_cores env then Inr m
        else Inr (m\<lparr>mg_num_packets := mg_num_packets m + 1, mg_num_bytes := mg_num_bytes m + ucast (net_getModeledLength env p)\<rparr>))"

section \<open>The bus\<close>

record NetworkModelBusGlobal =
  bus_bandwidth :: ComponentBandwidth
  bus_queue_model :: QueueModel
  bus_num_packets :: UInt64
  bus_num_packets_delayed :: UInt64
  bus_num_bytes :: UInt64
  bus_time_used :: SubsecondTime
  bus_total_delay :: SubsecondTime

text \<open>The bandwidth, in bits per microsecond, is a product of floating-point numbers in the code and an argument here.\<close>

definition mk_NetworkModelBusGlobal :: "queue_cfg \<Rightarrow> period_ptr \<Rightarrow> string \<Rightarrow> SubsecondTime \<Rightarrow> UInt64 \<Rightarrow> NetworkModelBusGlobal res" where
  "mk_NetworkModelBusGlobal cfg domain model_type proc_period bandwidth =
     bindE (QueueModel_create cfg domain model_type (10 * proc_period))
     (\<lambda>q. Inr \<lparr>bus_bandwidth = \<lparr>m_bw_in_bits_per_us = bandwidth\<rparr>, bus_queue_model = q, bus_num_packets = 0, bus_num_packets_delayed = 0,
        bus_num_bytes = 0, bus_time_used = 0, bus_total_delay = 0\<rparr>)"

definition useBus :: "net_env \<Rightarrow> SubsecondTime \<Rightarrow> UInt32 \<Rightarrow> NetworkModelBusGlobal \<Rightarrow> (SubsecondTime \<times> SubsecondTime \<times> NetworkModelBusGlobal) res" where
  "useBus env t_start len b =
     bindE (bw_getLatency (bus_bandwidth b) (ucast (len * 8)))
     (\<lambda>t_delay. bindE (computeQueueDelay (ne_queue env) t_start t_delay (bus_queue_model b))
     (\<lambda>(t_queue, q). Inr (t_start + t_queue + t_delay, t_queue,
        b\<lparr>bus_queue_model := q, bus_time_used := bus_time_used b + t_delay, bus_total_delay := bus_total_delay b + t_queue,
          bus_num_packets_delayed := (if t_queue > 0 then bus_num_packets_delayed b + 1 else bus_num_packets_delayed b)\<rparr>)))"

record NetworkModelBus =
  bus_enabled :: bool
  bus_ignore_local :: bool

definition mk_NetworkModelBus :: "bool \<Rightarrow> NetworkModelBus" where
  "mk_NetworkModelBus ignore_local = \<lparr>bus_enabled = False, bus_ignore_local = ignore_local\<rparr>"

definition accountPacket :: "net_env \<Rightarrow> NetPacket \<Rightarrow> NetworkModelBus \<Rightarrow> bool res" where
  "accountPacket env p m =
     bindE (pkt_requester env p)
     (\<lambda>requester. Inr (\<not> (\<not> bus_enabled m \<or> bus_ignore_local m \<and> sender p = receiver p \<or> requester \<ge> application_cores env \<or>
        sender p \<ge> application_cores env \<or> receiver p \<ge> application_cores env)))"

text \<open>The delay in the queue is added to the packet, which is passed by reference.\<close>

definition bus_routePacket ::
  "net_env \<Rightarrow> NetPacket \<Rightarrow> NetworkModelBus \<Rightarrow> NetworkModelBusGlobal \<Rightarrow> (NetPacket \<times> Hop list \<times> NetworkModelBusGlobal) res" where
  "bus_routePacket env p m b =
     bindE (accountPacket env p m)
     (\<lambda>account. bindE (if account
        then bindE (useBus env (pkt_time p) (pkt_length p)
            (b\<lparr>bus_num_packets := bus_num_packets b + 1, bus_num_bytes := bus_num_bytes b + ucast (net_getModeledLength env p)\<rparr>))
          (\<lambda>(t, t_queue, b). Inr (t, p\<lparr>queue_delay := queue_delay p + t_queue\<rparr>, b))
        else Inr (pkt_time p, p, b))
     (\<lambda>(t_recv, p, b). Inr (p, direct_hops env p t_recv, b)))"

section \<open>The mesh that counts hops\<close>

text \<open>The square root is rounded down: the number of squares from 1 on that do not exceed the number.\<close>

definition isqrt :: "int \<Rightarrow> int" where
  "isqrt n = int (length (filter (\<lambda>k. k * k \<le> n) [1..n]))"

definition ceil_div :: "int \<Rightarrow> int \<Rightarrow> int" where
  "ceil_div a b = (a + b - 1) div b"

record NetworkModelEMeshHopCounter =
  hc_hopLatency :: ComponentLatency
  hc_linkBandwidth :: ComponentBandwidthPerCycle
  hc_meshWidth :: int
  hc_meshHeight :: int
  hc_enabled :: bool
  hc_num_packets :: UInt64
  hc_num_bytes :: UInt64
  hc_total_latency :: SubsecondTime

definition mk_NetworkModelEMeshHopCounter :: "int \<Rightarrow> period_ptr \<Rightarrow> UInt64 \<Rightarrow> UInt64 \<Rightarrow> NetworkModelEMeshHopCounter res" where
  "mk_NetworkModelEMeshHopCounter cores domain link_bandwidth hop_latency =
     (let w = isqrt cores; h = ceil_div cores w in
      bindE (assertE (0 < w \<and> cores \<le> w * h \<and> cores > (w - 1) * h \<and> cores > w * (h - 1)) (AssertError ''total_cores <= _meshWidth * _meshHeight''))
      (\<lambda>_. Inr \<lparr>hc_hopLatency = \<lparr>cl_period = domain, m_fixed_cycle_latency = hop_latency\<rparr>,
         hc_linkBandwidth = \<lparr>bpc_period = domain, m_bw_in_bits_per_cycle = link_bandwidth\<rparr>, hc_meshWidth = w, hc_meshHeight = h,
         hc_enabled = False, hc_num_packets = 0, hc_num_bytes = 0, hc_total_latency = 0\<rparr>))"

definition hc_computePosition :: "core_id_t \<Rightarrow> NetworkModelEMeshHopCounter \<Rightarrow> int \<times> int" where
  "hc_computePosition c m = (c smod hc_meshWidth m, c sdiv hc_meshWidth m)"

definition hc_computeDistance :: "int \<times> int \<Rightarrow> int \<times> int \<Rightarrow> int" where
  "hc_computeDistance p q = \<bar>fst p - fst q\<bar> + \<bar>snd p - snd q\<bar>"

definition computeSerializationLatency :: "net_env \<Rightarrow> UInt32 \<Rightarrow> NetworkModelEMeshHopCounter \<Rightarrow> SubsecondTime res" where
  "computeSerializationLatency env len m = bpc_getRoundedLatency (ne_periods env) (hc_linkBandwidth m) (ucast (len * 8))"

definition hc_hop :: "net_env \<Rightarrow> NetPacket \<Rightarrow> SubsecondTime \<Rightarrow> SubsecondTime \<Rightarrow> core_id_t \<Rightarrow> NetworkModelEMeshHopCounter \<Rightarrow> Hop" where
  "hc_hop env p t serialization_latency dest m =
     (let latency = of_int (hc_computeDistance (hc_computePosition (sender p) m) (hc_computePosition dest m)) * cl_getLatency (ne_periods env) (hc_hopLatency m)
      in \<lparr>final_dest = dest, next_dest = dest, hop_time = t + (if dest \<noteq> sender p then latency + serialization_latency else latency)\<rparr>)"

text \<open>Each copy of a broadcast leaves one serialization latency after the one before it.\<close>

fun hc_broadcast :: "net_env \<Rightarrow> NetPacket \<Rightarrow> SubsecondTime \<Rightarrow> SubsecondTime \<Rightarrow> core_id_t list \<Rightarrow> NetworkModelEMeshHopCounter \<Rightarrow> Hop list" where
  "hc_broadcast env p t serialization_latency [] m = []"
| "hc_broadcast env p t serialization_latency (i # is) m =
     hc_hop env p t serialization_latency i m # hc_broadcast env p (t + serialization_latency) serialization_latency is m"

definition hc_routePacket :: "net_env \<Rightarrow> NetPacket \<Rightarrow> NetworkModelEMeshHopCounter \<Rightarrow> Hop list res" where
  "hc_routePacket env p m =
     bindE (computeSerializationLatency env (net_getModeledLength env p) m)
     (\<lambda>s. Inr (if receiver p = BROADCAST then hc_broadcast env p (pkt_time p) s (all_cores env) m
               else [hc_hop env p (pkt_time p) s (receiver p) m]))"

definition hc_processReceivedPacket :: "net_env \<Rightarrow> NetPacket \<Rightarrow> NetworkModelEMeshHopCounter \<Rightarrow> NetworkModelEMeshHopCounter res" where
  "hc_processReceivedPacket env p m =
     bindE (pkt_requester env p)
     (\<lambda>requester. if \<not> hc_enabled m \<or> requester \<ge> application_cores env then Inr m
        else Inr (m\<lparr>hc_num_packets := hc_num_packets m + 1, hc_num_bytes := hc_num_bytes m + ucast (net_getModeledLength env p),
                    hc_total_latency := hc_total_latency m + (pkt_time p - start_time p)\<rparr>))"

end
