(* ===== verification/LS_Mesh.thy ===== *)
theory LS_Mesh
  imports LS_Network
begin

text \<open>
  The mesh that moves a packet hop by hop, \<^verbatim>\<open>network_model_emesh_hop_by_hop.cc\<close>: its dimensions, the position of a core, the next
  hop and its latency, and the places of the memory controllers.
\<close>

datatype OutputDirection = UP | DOWN | LEFT | RIGHT | SELF | PEER | DESTINATION

abbreviation real_direction :: "OutputDirection \<Rightarrow> bool" where
  "real_direction d \<equiv> d \<in> {UP, DOWN, LEFT, RIGHT}"

record NetworkModelEMeshHopByHop =
  m_mesh_width :: int
  m_mesh_height :: int
  m_queue_models :: "OutputDirection \<Rightarrow> QueueModel"
  m_injection_port_queue_model :: QueueModel
  m_ejection_port_queue_model :: QueueModel
  m_enabled :: bool
  m_total_bytes_sent :: UInt64
  m_total_packets_sent :: UInt64
  m_total_bytes_received :: UInt64
  m_total_packets_received :: UInt64
  m_total_contention_delay :: SubsecondTime
  m_total_packet_latency :: SubsecondTime
  m_fake_node :: bool
  hb_core_id :: core_id_t
  m_concentration :: int
  m_dimensions :: int
  m_wrap_around :: bool
  m_link_bandwidth :: ComponentBandwidthPerCycle
  m_hop_latency :: ComponentLatency
  m_broadcast_tree_enabled :: bool
  m_queue_model_enabled :: bool

section \<open>Dimensions\<close>

text \<open>
  The entry \<^verbatim>\<open>size\<close> of the configuration is \<open>None\<close> when it is empty and \<open>Some None\<close> when it cannot be read. A division by zero, of
  integers or of a floating-point number that is converted to an integer, is an error.
\<close>

definition mesh_shape :: "int \<Rightarrow> int \<Rightarrow> int \<Rightarrow> (int \<times> int) option option \<Rightarrow> (int \<times> int) res" where
  "mesh_shape core_count concentration dimensions sz =
     (case sz of
        None \<Rightarrow> bindE (assertE (concentration \<noteq> 0) DivByZero)
          (\<lambda>_. if dimensions = 1 then Inr (core_count sdiv concentration, 1)
             else if dimensions = 2
             then let w = isqrt (core_count sdiv concentration) in
               bindE (assertE (w \<noteq> 0) DivByZero) (\<lambda>_. Inr (w, ceil_div core_count (concentration * w)))
             else Inl (LogError ''Invalid value for dimensions''))
      | Some None \<Rightarrow> Inl (LogError ''Invalid mesh size'')
      | Some (Some p) \<Rightarrow> Inr p)"

definition computeMeshDimensions :: "int \<Rightarrow> int \<Rightarrow> int \<Rightarrow> (int \<times> int) option option \<Rightarrow> (int \<times> int) res" where
  "computeMeshDimensions core_count concentration dimensions sz =
     bindE (mesh_shape core_count concentration dimensions sz)
     (\<lambda>(w, h). bindE (assertE (core_count = concentration * h * w) (LogError ''Cannot build a mesh'')) (\<lambda>_. Inr (w, h)))"

definition createQueueModels :: "queue_cfg \<Rightarrow> period_ptr \<Rightarrow> string \<Rightarrow> SubsecondTime \<Rightarrow> ((OutputDirection \<Rightarrow> QueueModel) \<times> QueueModel \<times> QueueModel) res" where
  "createQueueModels qcfg domain model_type min_processing_time =
     bindE (QueueModel_create qcfg domain model_type min_processing_time) (\<lambda>q. Inr (\<lambda>_. q, q, q))"

text \<open>The constructor; \<open>fresh\<close> is what the queue models of a node that takes no part in the topology are left with.\<close>

definition mk_NetworkModelEMeshHopByHop ::
  "queue_cfg \<Rightarrow> string \<Rightarrow> net_env \<Rightarrow> period_ptr \<Rightarrow> UInt64 \<Rightarrow> UInt64 \<Rightarrow> int \<Rightarrow> int \<Rightarrow> bool \<Rightarrow> (int \<times> int) option option \<Rightarrow> bool \<Rightarrow> bool \<Rightarrow>
    QueueModel \<Rightarrow> core_id_t \<Rightarrow> NetworkModelEMeshHopByHop res" where
  "mk_NetworkModelEMeshHopByHop qcfg model_type env domain link_bandwidth hop_latency concentration dimensions wrap sz queue_enabled tree fresh core =
     bindE (computeMeshDimensions (application_cores env) concentration dimensions sz)
     (\<lambda>(w, h).
        let fake = (core smod concentration \<noteq> 0 \<or> core \<ge> concentration * w * h);
            m = \<lparr>m_mesh_width = w, m_mesh_height = h, m_queue_models = (\<lambda>_. fresh), m_injection_port_queue_model = fresh,
                 m_ejection_port_queue_model = fresh, m_enabled = False, m_total_bytes_sent = 0, m_total_packets_sent = 0,
                 m_total_bytes_received = 0, m_total_packets_received = 0, m_total_contention_delay = 0, m_total_packet_latency = 0,
                 m_fake_node = fake, hb_core_id = core, m_concentration = concentration, m_dimensions = dimensions, m_wrap_around = wrap,
                 m_link_bandwidth = \<lparr>bpc_period = domain, m_bw_in_bits_per_cycle = link_bandwidth\<rparr>,
                 m_hop_latency = \<lparr>cl_period = domain, m_fixed_cycle_latency = hop_latency\<rparr>,
                 m_broadcast_tree_enabled = tree, m_queue_model_enabled = queue_enabled\<rparr>
        in if fake then Inr m
           else bindE (createQueueModels qcfg domain model_type (ne_periods env domain))
             (\<lambda>(qs, qi, qe). Inr (m\<lparr>m_queue_models := qs, m_injection_port_queue_model := qi, m_ejection_port_queue_model := qe\<rparr>)))"

section \<open>Positions\<close>

definition computePosition :: "core_id_t \<Rightarrow> NetworkModelEMeshHopByHop \<Rightarrow> int \<times> int" where
  "computePosition c m = ((c sdiv m_concentration m) smod m_mesh_width m, (c sdiv m_concentration m) sdiv m_mesh_width m)"

definition computeCoreId :: "int \<Rightarrow> int \<Rightarrow> NetworkModelEMeshHopByHop \<Rightarrow> core_id_t" where
  "computeCoreId x y m =
     (let x = (x + m_mesh_width m) smod m_mesh_width m; y = (y + m_mesh_height m) smod m_mesh_height m in
      (y * m_mesh_width m + x) * m_concentration m)"

definition computeDistance :: "core_id_t \<Rightarrow> core_id_t \<Rightarrow> NetworkModelEMeshHopByHop \<Rightarrow> int" where
  "computeDistance s d m =
     (let (sx, sy) = computePosition s m; (dx, dy) = computePosition d m in
      if m_wrap_around m
      then min \<bar>sx - dx\<bar> (m_mesh_width m - \<bar>sx - dx\<bar>) + min \<bar>sy - dy\<bar> (m_mesh_height m - \<bar>sy - dy\<bar>)
      else \<bar>sx - dx\<bar> + \<bar>sy - dy\<bar>)"

text \<open>Dimension-order routing, with the result and the direction.\<close>

definition getNextDest :: "net_env \<Rightarrow> core_id_t \<Rightarrow> NetworkModelEMeshHopByHop \<Rightarrow> OutputDirection \<times> core_id_t" where
  "getNextDest env dest m =
     (if dest \<ge> application_cores env then (DESTINATION, dest)
      else if hb_core_id m sdiv m_concentration m = dest sdiv m_concentration m then (DESTINATION, dest)
      else if m_fake_node m then (PEER, hb_core_id m - hb_core_id m smod m_concentration m)
      else
        let (sx, sy) = computePosition (hb_core_id m) m; (dx, dy) = computePosition dest m in
        if (sx > dx) \<noteq> (m_wrap_around m \<and> \<bar>sx - dx\<bar> > (m_mesh_width m + 1) sdiv 2) then (LEFT, computeCoreId (sx - 1) sy m)
        else if sx \<noteq> dx then (RIGHT, computeCoreId (sx + 1) sy m)
        else if (sy > dy) \<noteq> (m_wrap_around m \<and> \<bar>sy - dy\<bar> > (m_mesh_height m + 1) sdiv 2) then (DOWN, computeCoreId sx (sy - 1) m)
        else if sy \<noteq> dy then (UP, computeCoreId sx (sy + 1) m)
        else (SELF, hb_core_id m))"

section \<open>Latency\<close>

definition computeProcessingTime :: "net_env \<Rightarrow> UInt32 \<Rightarrow> NetworkModelEMeshHopByHop \<Rightarrow> SubsecondTime res" where
  "computeProcessingTime env len m =
     bindE (assertE (\<not> m_fake_node m) (LogError ''Cannot computeProcessingTime on a fake network node''))
     (\<lambda>_. bpc_getRoundedLatency (ne_periods env) (m_link_bandwidth m) (ucast (len * 8)))"

definition computeInjectionPortQueueDelay ::
  "net_env \<Rightarrow> core_id_t \<Rightarrow> SubsecondTime \<Rightarrow> UInt32 \<Rightarrow> NetworkModelEMeshHopByHop \<Rightarrow> (SubsecondTime \<times> NetworkModelEMeshHopByHop) res" where
  "computeInjectionPortQueueDelay env pkt_receiver t len m =
     bindE (assertE (\<not> m_fake_node m) (LogError ''Cannot computeInjectionPortQueueDelay on a fake network node''))
     (\<lambda>_. if \<not> m_queue_model_enabled m then Inr (0, m)
        else if pkt_receiver = hb_core_id m then Inr (0, m)
        else bindE (computeProcessingTime env len m)
          (\<lambda>processing_time. bindE (computeQueueDelay (ne_queue env) t processing_time (m_injection_port_queue_model m))
          (\<lambda>(delay, q). Inr (delay, m\<lparr>m_injection_port_queue_model := q\<rparr>))))"

definition computeEjectionPortQueueDelay ::
  "net_env \<Rightarrow> SubsecondTime \<Rightarrow> UInt32 \<Rightarrow> NetworkModelEMeshHopByHop \<Rightarrow> (SubsecondTime \<times> NetworkModelEMeshHopByHop) res" where
  "computeEjectionPortQueueDelay env t len m =
     bindE (assertE (\<not> m_fake_node m) (LogError ''Cannot computeEjectionPortQueueDelay on a fake network node''))
     (\<lambda>_. if \<not> m_queue_model_enabled m then Inr (0, m)
        else bindE (computeProcessingTime env len m)
          (\<lambda>processing_time. bindE (computeQueueDelay (ne_queue env) t processing_time (m_ejection_port_queue_model m))
          (\<lambda>(delay, q). Inr (delay, m\<lparr>m_ejection_port_queue_model := q\<rparr>))))"

text \<open>The latency of a hop, with the part of it that was spent in the queue of the link.\<close>

definition computeLatency ::
  "net_env \<Rightarrow> OutputDirection \<Rightarrow> SubsecondTime \<Rightarrow> UInt32 \<Rightarrow> core_id_t \<Rightarrow> NetworkModelEMeshHopByHop \<Rightarrow>
    (SubsecondTime \<times> SubsecondTime \<times> NetworkModelEMeshHopByHop) res" where
  "computeLatency env direction t len requester m =
     bindE (assertE (\<not> m_fake_node m) (LogError ''Cannot computeLatency on a fake network node''))
     (\<lambda>_. bindE (assertE (real_direction direction) (LogError ''Invalid Direction(%u)''))
     (\<lambda>_. if \<not> m_enabled m \<or> requester \<ge> application_cores env then Inr (0, 0, m)
        else bindE (computeProcessingTime env len m)
          (\<lambda>processing_time. bindE (if m_queue_model_enabled m
             then bindE (computeQueueDelay (ne_queue env) t processing_time (m_queue_models m direction))
               (\<lambda>(delay, q). Inr (delay, m\<lparr>m_queue_models := (m_queue_models m)(direction := q)\<rparr>))
             else Inr (0, m))
          (\<lambda>(delay, m). Inr (cl_getLatency (ne_periods env) (m_hop_latency m) + delay, delay, m)))))"

section \<open>Routing\<close>

text \<open>A hop, with the delay in the queue that the caller may add to the packet.\<close>

definition addHop ::
  "net_env \<Rightarrow> OutputDirection \<Rightarrow> core_id_t \<Rightarrow> core_id_t \<Rightarrow> SubsecondTime \<Rightarrow> UInt32 \<Rightarrow> core_id_t \<Rightarrow> NetworkModelEMeshHopByHop \<Rightarrow>
    (Hop \<times> SubsecondTime \<times> NetworkModelEMeshHopByHop) res" where
  "addHop env direction final nxt t len requester m =
     (if \<not> real_direction direction then Inr (\<lparr>final_dest = final, next_dest = nxt, hop_time = t\<rparr>, 0, m)
      else bindE (computeLatency env direction t len requester m)
        (\<lambda>(latency, delay, m). Inr (\<lparr>final_dest = final, next_dest = nxt, hop_time = t + latency\<rparr>, delay, m)))"

fun addHops ::
  "net_env \<Rightarrow> (OutputDirection \<times> core_id_t \<times> core_id_t) list \<Rightarrow> SubsecondTime \<Rightarrow> UInt32 \<Rightarrow> core_id_t \<Rightarrow> NetworkModelEMeshHopByHop \<Rightarrow>
    (Hop list \<times> NetworkModelEMeshHopByHop) res" where
  "addHops env [] t len requester m = Inr ([], m)"
| "addHops env ((direction, final, nxt) # ds) t len requester m =
     bindE (addHop env direction final nxt t len requester m)
     (\<lambda>(h, _, m). bindE (addHops env ds t len requester m) (\<lambda>(hs, m). Inr (h # hs, m)))"

text \<open>The branches of the broadcast tree at a node.\<close>

definition tree_hops :: "core_id_t \<Rightarrow> NetworkModelEMeshHopByHop \<Rightarrow> (OutputDirection \<times> core_id_t \<times> core_id_t) list" where
  "tree_hops src m =
     (let (sx, sy) = computePosition src m; (cx, cy) = computePosition (hb_core_id m) m in
      (if cy \<ge> sy then [(UP, BROADCAST, computeCoreId cx (cy + 1) m)] else []) @
      (if cy \<le> sy then [(DOWN, BROADCAST, computeCoreId cx (cy - 1) m)] else []) @
      (if cy = sy
       then (if cx \<ge> sx then [(RIGHT, BROADCAST, computeCoreId (cx + 1) cy m)] else []) @
            (if cx \<le> sx then [(LEFT, BROADCAST, computeCoreId (cx - 1) cy m)] else []) @
            (if cx = sx then [(SELF, hb_core_id m, hb_core_id m)] else [])
       else []))"

fun unicast_hops ::
  "net_env \<Rightarrow> core_id_t list \<Rightarrow> SubsecondTime \<Rightarrow> UInt32 \<Rightarrow> core_id_t \<Rightarrow> NetworkModelEMeshHopByHop \<Rightarrow> (Hop list \<times> NetworkModelEMeshHopByHop) res" where
  "unicast_hops env [] t len requester m = Inr ([], m)"
| "unicast_hops env (i # is) t len requester m =
     bindE (computeInjectionPortQueueDelay env i t len m)
     (\<lambda>(delay, m). let (direction, nxt) = getNextDest env i m in
        bindE (addHop env direction i nxt (t + delay) len requester m)
        (\<lambda>(h, _, m). bindE (unicast_hops env is t len requester m) (\<lambda>(hs, m). Inr (h # hs, m))))"

definition count_sent :: "net_env \<Rightarrow> NetPacket \<Rightarrow> NetworkModelEMeshHopByHop \<Rightarrow> NetworkModelEMeshHopByHop" where
  "count_sent env p m =
     (if sender p = hb_core_id m
      then m\<lparr>m_total_packets_sent := m_total_packets_sent m + 1, m_total_bytes_sent := m_total_bytes_sent m + ucast (net_getModeledLength env p)\<rparr>
      else m)"

definition route_broadcast :: "net_env \<Rightarrow> NetPacket \<Rightarrow> core_id_t \<Rightarrow> NetworkModelEMeshHopByHop \<Rightarrow> (Hop list \<times> NetworkModelEMeshHopByHop) res" where
  "route_broadcast env p requester m =
     (let len = net_getModeledLength env p in
      if m_fake_node m then addHops env (map (\<lambda>i. (DESTINATION, i, i)) (all_cores env)) (pkt_time p) len requester m
      else if m_broadcast_tree_enabled m
      then bindE (if sender p = hb_core_id m then computeInjectionPortQueueDelay env (receiver p) (pkt_time p) len m else Inr (0, m))
        (\<lambda>(delay, m). addHops env (tree_hops (sender p) m) (pkt_time p + delay) len requester m)
      else bindE (assertE (sender p = hb_core_id m) (LogError ''BROADCAST message to be sent, Tree not enabled''))
        (\<lambda>_. unicast_hops env (all_cores env) (pkt_time p) len requester m))"

definition route_unicast :: "net_env \<Rightarrow> NetPacket \<Rightarrow> core_id_t \<Rightarrow> NetworkModelEMeshHopByHop \<Rightarrow> (NetPacket \<times> Hop list \<times> NetworkModelEMeshHopByHop) res" where
  "route_unicast env p requester m =
     (let len = net_getModeledLength env p in
      bindE (if sender p = hb_core_id m then computeInjectionPortQueueDelay env (receiver p) (pkt_time p) len m else Inr (0, m))
      (\<lambda>(inject, m). let (direction, nxt) = getNextDest env (receiver p) m in
         bindE (addHop env direction (receiver p) nxt (pkt_time p + inject) len requester m)
         (\<lambda>(h, delay, m). Inr (p\<lparr>queue_delay := queue_delay p + inject + delay\<rparr>, [h], m))))"

definition hb_routePacket :: "net_env \<Rightarrow> NetPacket \<Rightarrow> NetworkModelEMeshHopByHop \<Rightarrow> (NetPacket \<times> Hop list \<times> NetworkModelEMeshHopByHop) res" where
  "hb_routePacket env p m =
     bindE (pkt_requester env p)
     (\<lambda>requester. let m = count_sent env p m in
        if receiver p = BROADCAST then bindE (route_broadcast env p requester m) (\<lambda>(hs, m). Inr (p, hs, m))
        else if m_fake_node m
        then bindE (addHop env DESTINATION (receiver p) (receiver p) (pkt_time p) (net_getModeledLength env p) requester m) (\<lambda>(h, _, m). Inr (p, [h], m))
        else route_unicast env p requester m)"

definition hb_processReceivedPacket :: "net_env \<Rightarrow> NetPacket \<Rightarrow> NetworkModelEMeshHopByHop \<Rightarrow> (NetPacket \<times> NetworkModelEMeshHopByHop) res" where
  "hb_processReceivedPacket env p m =
     (let len = net_getModeledLength env p in
      bindE (pkt_requester env p)
      (\<lambda>requester. if \<not> m_enabled m \<or> requester \<ge> application_cores env \<or> hb_core_id m \<ge> application_cores env then Inr (p, m)
         else
           let latency = pkt_time p - start_time p;
               contention = latency - of_int (computeDistance (sender p) (hb_core_id m) m) * cl_getLatency (ne_periods env) (m_hop_latency m)
           in bindE (if sender p \<noteq> hb_core_id m \<and> \<not> m_fake_node m
                then bindE (computeProcessingTime env len m)
                  (\<lambda>processing_time. bindE (computeEjectionPortQueueDelay env (pkt_time p) len m)
                  (\<lambda>(delay, m). Inr (latency + (delay + processing_time), contention + delay,
                     p\<lparr>pkt_time := pkt_time p + (delay + processing_time), queue_delay := queue_delay p + delay\<rparr>, m)))
                else Inr (latency, contention, p, m))
              (\<lambda>(latency, contention, p, m). Inr (p, m\<lparr>m_total_packets_received := m_total_packets_received m + 1,
                 m_total_bytes_received := m_total_bytes_received m + ucast len,
                 m_total_packet_latency := m_total_packet_latency m + latency,
                 m_total_contention_delay := m_total_contention_delay m + contention\<rparr>))))"

section \<open>Memory controllers\<close>

text \<open>The cores along the edge of the mesh, in clockwise order from the first.\<close>

definition perimeter :: "int \<Rightarrow> int \<Rightarrow> int \<Rightarrow> int list" where
  "perimeter dimensions w h =
     [0..w - 1] @
     (if dimensions > 1 \<and> h > 1
      then map (\<lambda>i. i * w + w - 1) [1..h - 2] @ map (\<lambda>i. (h - 1) * w + i) (rev [0..w - 1]) @ map (\<lambda>i. i * w) (rev [1..h - 2])
      else [])"

definition mesh_computeCoreCountConstraints :: "int \<Rightarrow> int \<Rightarrow> int \<Rightarrow> (int \<times> int) option option \<Rightarrow> int \<Rightarrow> (bool \<times> int) res" where
  "mesh_computeCoreCountConstraints application concentration dimensions sz core_count =
     bindE (computeMeshDimensions application concentration dimensions sz)
     (\<lambda>(w, h). bindE (assertE (core_count \<le> w * h \<and> core_count > (w - 1) * h \<and> core_count > w * (h - 1)) (AssertError ''core_count <= mesh_width * mesh_height''))
     (\<lambda>_. Inr (True, h * w)))"

definition mesh_computeMemoryControllerPositions ::
  "int \<Rightarrow> int \<Rightarrow> int \<Rightarrow> (int \<times> int) option option \<Rightarrow> int \<Rightarrow> (bool \<times> core_id_t list) res" where
  "mesh_computeMemoryControllerPositions application concentration dimensions sz num_memory_controllers =
     bindE (computeMeshDimensions application concentration dimensions sz)
     (\<lambda>(w, h).
        let ps = perimeter dimensions w h; n = int (length ps) in
        bindE (assertE (dimensions > 1 \<and> h > 1 \<longrightarrow> n = 2 * (w + h - 2)) (AssertError ''core_id_list_along_perimeter.size()''))
        (\<lambda>_. bindE (assertE (0 \<le> num_memory_controllers \<and> num_memory_controllers \<le> n) (LogError ''num cores along perimeter(%u), num memory controllers(%i)''))
        (\<lambda>_. bindE (assertE (num_memory_controllers \<noteq> 0) DivByZero)
        (\<lambda>_. let spacing = n sdiv num_memory_controllers in
           Inr (True, map (\<lambda>i. concentration * ps ! nat ((i * spacing + w sdiv 2) smod n)) [0..num_memory_controllers - 1])))))"

end
