(* ===== verification/LS_Net_Send.thy ===== *)
theory LS_Net_Send
  imports LS_Mesh
begin

text \<open>
  \<^verbatim>\<open>network.cc\<close>: the models behind one interface, and how the network of a core sends, forwards, receives and hands out packets. The
  transport below is a queue of packets per core. A callback is called with the packet; here the calls are listed in order.
\<close>

section \<open>The models behind one interface\<close>

datatype NetworkModel =
    ModelMagic NetworkModelMagic
  | ModelHopCounter NetworkModelEMeshHopCounter
  | ModelHopByHop NetworkModelEMeshHopByHop
  | ModelBus NetworkModelBus

datatype network_type = NETWORK_MAGIC | NETWORK_EMESH_HOP_COUNTER | NETWORK_EMESH_HOP_BY_HOP | NETWORK_BUS

definition parseNetworkType :: "string \<Rightarrow> network_type option" where
  "parseNetworkType str =
     (if str = ''magic'' then Some NETWORK_MAGIC
      else if str = ''emesh_hop_counter'' then Some NETWORK_EMESH_HOP_COUNTER
      else if str = ''emesh_hop_by_hop'' then Some NETWORK_EMESH_HOP_BY_HOP
      else if str = ''bus'' then Some NETWORK_BUS
      else None)"

definition computeCoreCountConstraints :: "int \<Rightarrow> int \<Rightarrow> int \<Rightarrow> (int \<times> int) option option \<Rightarrow> network_type option \<Rightarrow> int \<Rightarrow> (bool \<times> int) res" where
  "computeCoreCountConstraints application concentration dimensions sz ty core_count =
     (case ty of
        None \<Rightarrow> Inl (LogError ''Unrecognized network type(%u)'')
      | Some NETWORK_EMESH_HOP_BY_HOP \<Rightarrow> mesh_computeCoreCountConstraints application concentration dimensions sz core_count
      | Some _ \<Rightarrow> Inr (False, core_count))"

definition spaced_positions :: "int \<Rightarrow> int \<Rightarrow> core_id_t list res" where
  "spaced_positions num_memory_controllers core_count =
     bindE (assertE (num_memory_controllers \<noteq> 0) DivByZero)
     (\<lambda>_. let ps = map (\<lambda>i. i * (core_count sdiv num_memory_controllers)) [0..num_memory_controllers - 1] in
        bindE (assertE (\<forall>p \<in> set ps. p < core_count) (AssertError ''(i*spacing_between_memory_controllers) < core_count'')) (\<lambda>_. Inr ps))"

definition computeMemoryControllerPositions ::
  "int \<Rightarrow> int \<Rightarrow> int \<Rightarrow> (int \<times> int) option option \<Rightarrow> network_type option \<Rightarrow> int \<Rightarrow> int \<Rightarrow> (bool \<times> core_id_t list) res" where
  "computeMemoryControllerPositions application concentration dimensions sz ty num_memory_controllers core_count =
     (case ty of
        None \<Rightarrow> Inl (LogError ''Unrecognized network type(%u)'')
      | Some NETWORK_EMESH_HOP_BY_HOP \<Rightarrow> mesh_computeMemoryControllerPositions application concentration dimensions sz num_memory_controllers
      | Some _ \<Rightarrow> bindE (spaced_positions num_memory_controllers core_count) (\<lambda>ps. Inr (False, ps)))"

fun set_enabled :: "bool \<Rightarrow> NetworkModel \<Rightarrow> NetworkModel" where
  "set_enabled b (ModelMagic m) = ModelMagic (m\<lparr>mg_enabled := b\<rparr>)"
| "set_enabled b (ModelHopCounter m) = ModelHopCounter (m\<lparr>hc_enabled := b\<rparr>)"
| "set_enabled b (ModelHopByHop m) = ModelHopByHop (m\<lparr>m_enabled := b\<rparr>)"
| "set_enabled b (ModelBus m) = ModelBus (m\<lparr>bus_enabled := b\<rparr>)"

section \<open>The networks of all cores\<close>

record NetNode =
  nn_models :: "EStaticNetwork \<Rightarrow> NetworkModel"
  nn_matrix :: "EStaticNetwork \<Rightarrow> TrafficMatrix"
  nn_callbacks :: "PacketType \<Rightarrow> bool"
  nn_queue :: "NetPacket list"

record NetSystem =
  net_nodes :: "core_id_t \<Rightarrow> NetNode"
  net_bus :: "EStaticNetwork \<Rightarrow> NetworkModelBusGlobal"
  net_transport :: "core_id_t \<Rightarrow> NetPacket list"
  net_called :: "(core_id_t \<times> NetPacket) list"

definition change_node :: "core_id_t \<Rightarrow> (NetNode \<Rightarrow> NetNode) \<Rightarrow> NetSystem \<Rightarrow> NetSystem" where
  "change_node c f s = s\<lparr>net_nodes := (net_nodes s)(c := f (net_nodes s c))\<rparr>"

definition put_model :: "core_id_t \<Rightarrow> EStaticNetwork \<Rightarrow> NetworkModel \<Rightarrow> NetSystem \<Rightarrow> NetSystem" where
  "put_model c net m = change_node c (\<lambda>n. n\<lparr>nn_models := (nn_models n)(net := m)\<rparr>)"

definition registerCallback :: "core_id_t \<Rightarrow> PacketType \<Rightarrow> bool \<Rightarrow> NetSystem \<Rightarrow> NetSystem" where
  "registerCallback c ty b = change_node c (\<lambda>n. n\<lparr>nn_callbacks := (nn_callbacks n)(ty := b)\<rparr>)"

definition enableModels :: "core_id_t \<Rightarrow> bool \<Rightarrow> NetSystem \<Rightarrow> NetSystem" where
  "enableModels c b = change_node c (\<lambda>n. n\<lparr>nn_models := (\<lambda>net. set_enabled b (nn_models n net))\<rparr>)"

definition routePacket :: "net_env \<Rightarrow> core_id_t \<Rightarrow> NetPacket \<Rightarrow> NetSystem \<Rightarrow> (NetPacket \<times> Hop list \<times> NetSystem) res" where
  "routePacket env c p s =
     (let net = g_type_to_static_network_map (pkt_type p) in
      case nn_models (net_nodes s c) net of
        ModelMagic m \<Rightarrow> Inr (p, magic_routePacket env p m, s)
      | ModelHopCounter m \<Rightarrow> bindE (hc_routePacket env p m) (\<lambda>hs. Inr (p, hs, s))
      | ModelHopByHop m \<Rightarrow> bindE (hb_routePacket env p m) (\<lambda>(p, hs, m). Inr (p, hs, put_model c net (ModelHopByHop m) s))
      | ModelBus m \<Rightarrow> bindE (bus_routePacket env p m (net_bus s net)) (\<lambda>(p, hs, b). Inr (p, hs, s\<lparr>net_bus := (net_bus s)(net := b)\<rparr>)))"

definition processReceivedPacket :: "net_env \<Rightarrow> core_id_t \<Rightarrow> NetPacket \<Rightarrow> NetSystem \<Rightarrow> (NetPacket \<times> NetSystem) res" where
  "processReceivedPacket env c p s =
     (let net = g_type_to_static_network_map (pkt_type p) in
      case nn_models (net_nodes s c) net of
        ModelMagic m \<Rightarrow> bindE (magic_processReceivedPacket env p m) (\<lambda>m. Inr (p, put_model c net (ModelMagic m) s))
      | ModelHopCounter m \<Rightarrow> bindE (hc_processReceivedPacket env p m) (\<lambda>m. Inr (p, put_model c net (ModelHopCounter m) s))
      | ModelHopByHop m \<Rightarrow> bindE (hb_processReceivedPacket env p m) (\<lambda>(p, m). Inr (p, put_model c net (ModelHopByHop m) s))
      | ModelBus m \<Rightarrow> Inr (p, s))"

definition count_packet :: "net_env \<Rightarrow> core_id_t \<Rightarrow> NetPacket \<Rightarrow> NetSystem \<Rightarrow> NetSystem res" where
  "count_packet env c p s =
     (let net = g_type_to_static_network_map (pkt_type p) in
      bindE (countPacket env p (nn_matrix (net_nodes s c) net))
      (\<lambda>m. Inr (change_node c (\<lambda>n. n\<lparr>nn_matrix := (nn_matrix n)(net := m)\<rparr>) s)))"

section \<open>Sending\<close>

text \<open>
  The loop that asks the models on the way for the next hop until the packet is there; it may not end, and is \<open>None\<close> then. The packet is
  changed on the way.
\<close>

partial_function (option) follow_hops :: "net_env \<Rightarrow> NetPacket \<Rightarrow> Hop \<Rightarrow> NetSystem \<Rightarrow> (NetPacket \<times> Hop \<times> NetSystem) res option" where
  "follow_hops env p h s =
     (if next_dest h = final_dest h then Some (Inr (p, h, s))
      else if \<not> (0 \<le> next_dest h \<and> next_dest h < total_cores env) then Some (Inl (LogError ''Invalid core id''))
      else
        case routePacket env (next_dest h) (p\<lparr>pkt_time := hop_time h, receiver := final_dest h\<rparr>) s of
          Inl e \<Rightarrow> Some (Inl e)
        | Inr (p, hs, s) \<Rightarrow>
            (case hs of [h] \<Rightarrow> follow_hops env p h s | _ \<Rightarrow> Some (Inl (AssertError ''localHopVec.size() == 1''))))"

definition deliver :: "core_id_t \<Rightarrow> SubsecondTime \<Rightarrow> NetPacket \<Rightarrow> Hop \<Rightarrow> NetSystem \<Rightarrow> NetSystem" where
  "deliver c t buffer h s =
     (let b = buffer\<lparr>start_time := (if c = sender buffer then t else start_time buffer), pkt_time := hop_time h, receiver := final_dest h\<rparr> in
      s\<lparr>net_transport := (net_transport s)(next_dest h := net_transport s (next_dest h) @ [b])\<rparr>)"

fun send_hops ::
  "net_env \<Rightarrow> core_id_t \<Rightarrow> SubsecondTime \<Rightarrow> NetPacket \<Rightarrow> Hop list \<Rightarrow> NetPacket \<Rightarrow> NetSystem \<Rightarrow> (NetPacket \<times> NetSystem) res option" where
  "send_hops env c t buffer [] p s = Some (Inr (p, s))"
| "send_hops env c t buffer (h # hs) p s =
     (case (if final_dest h \<noteq> BROADCAST then follow_hops env p h s else Some (Inr (p, h, s))) of
        None \<Rightarrow> None
      | Some (Inl e) \<Rightarrow> Some (Inl e)
      | Some (Inr (p, h, s)) \<Rightarrow> send_hops env c t buffer hs p (deliver c t buffer h s))"

definition netSend :: "net_env \<Rightarrow> core_id_t \<Rightarrow> NetPacket \<Rightarrow> NetSystem \<Rightarrow> (NetPacket \<times> NetSystem) res option" where
  "netSend env c p s =
     (case bindE (count_packet env c p s) (\<lambda>s. bindE (routePacket env c p s)
          (\<lambda>r. bindE (assertE (bufferSize env p \<ge> packet_size env) (AssertError ''size >= sizeof(NetPacket)'')) (\<lambda>_. Inr r))) of
        Inl e \<Rightarrow> Some (Inl e)
      | Inr (p, hs, s) \<Rightarrow> send_hops env c (pkt_time p) p hs p s)"

definition netSend_to :: "net_env \<Rightarrow> core_id_t \<Rightarrow> SubsecondTime \<Rightarrow> core_id_t \<Rightarrow> PacketType \<Rightarrow> UInt32 \<Rightarrow> core_id_t \<Rightarrow> UInt32 \<Rightarrow> NetSystem \<Rightarrow> (NetPacket \<times> NetSystem) res option" where
  "netSend_to env c now dest ty len requester modeled s =
     netSend env c \<lparr>start_time = 0, pkt_time = now, queue_delay = 0, pkt_type = ty, sender = c, receiver = dest, pkt_length = len,
       data_requester = requester, data_length = modeled\<rparr> s"

definition netBroadcast :: "net_env \<Rightarrow> core_id_t \<Rightarrow> SubsecondTime \<Rightarrow> PacketType \<Rightarrow> UInt32 \<Rightarrow> core_id_t \<Rightarrow> UInt32 \<Rightarrow> NetSystem \<Rightarrow> (NetPacket \<times> NetSystem) res option" where
  "netBroadcast env c now ty len requester modeled s = netSend_to env c now BROADCAST ty len requester modeled s"

section \<open>Receiving\<close>

text \<open>A packet has arrived: it is given to the callback of its type, or kept until it is asked for.\<close>

definition accept :: "net_env \<Rightarrow> core_id_t \<Rightarrow> NetPacket \<Rightarrow> NetSystem \<Rightarrow> NetSystem res" where
  "accept env c p s =
     bindE (processReceivedPacket env c p s)
     (\<lambda>(p, s). if nn_callbacks (net_nodes s c) (pkt_type p)
        then Inr (s\<lparr>net_called := net_called s @ [(c, p)]\<rparr>)
        else Inr (change_node c (\<lambda>n. n\<lparr>nn_queue := nn_queue n @ [p]\<rparr>) s))"

text \<open>
  One turn of the loop over the packets of the transport; \<open>forwardPacket\<close> is \<open>netSend\<close>. The loop goes on while the transport has
  packets; its argument bounds how many are taken.
\<close>

definition pull_packet :: "net_env \<Rightarrow> core_id_t \<Rightarrow> NetPacket \<Rightarrow> NetSystem \<Rightarrow> NetSystem res option" where
  "pull_packet env c p s =
     (if \<not> (0 \<le> sender p \<and> sender p < total_cores env) then Some (Inl (AssertError ''0 <= packet.sender && packet.sender < _numMod''))
      else if receiver p = c then Some (accept env c p s)
      else case netSend env c p s of
          None \<Rightarrow> None
        | Some (Inl e) \<Rightarrow> Some (Inl e)
        | Some (Inr (p, s)) \<Rightarrow> if receiver p \<noteq> BROADCAST then Some (Inr s) else Some (accept env c p s))"

fun netPullFromTransport :: "net_env \<Rightarrow> core_id_t \<Rightarrow> nat \<Rightarrow> NetSystem \<Rightarrow> NetSystem res option" where
  "netPullFromTransport env c 0 s = Some (Inr s)"
| "netPullFromTransport env c (Suc n) s =
     (case net_transport s c of
        [] \<Rightarrow> Some (Inr s)
      | p # ps \<Rightarrow>
          (case pull_packet env c p (s\<lparr>net_transport := (net_transport s)(c := ps)\<rparr>) of
             None \<Rightarrow> None | Some (Inl e) \<Rightarrow> Some (Inl e) | Some (Inr s) \<Rightarrow> netPullFromTransport env c n s))"

record NetMatch =
  nm_senders :: "core_id_t list"
  nm_types :: "PacketType list"

definition packet_matches :: "net_env \<Rightarrow> NetMatch \<Rightarrow> NetPacket \<Rightarrow> bool" where
  "packet_matches env k p \<longleftrightarrow>
     (if nm_senders k = [] then 0 \<le> sender p \<and> sender p < total_cores env else sender p \<in> set (nm_senders k)) \<and>
     (nm_types k = [] \<or> pkt_type p \<in> set (nm_types k))"

text \<open>The position of the earliest packet that matches; of several the first.\<close>

fun find_earliest :: "net_env \<Rightarrow> NetMatch \<Rightarrow> nat \<Rightarrow> NetPacket list \<Rightarrow> (nat \<times> NetPacket) option \<Rightarrow> (nat \<times> NetPacket) option" where
  "find_earliest env k i [] best = best"
| "find_earliest env k i (p # ps) best =
     find_earliest env k (Suc i) ps
       (if packet_matches env k p \<and> (case best of None \<Rightarrow> True | Some (_, b) \<Rightarrow> pkt_time b > pkt_time p) then Some (i, p) else best)"

definition recv_penalty :: "net_env \<Rightarrow> core_id_t \<Rightarrow> SubsecondTime \<Rightarrow> NetPacket \<Rightarrow> SubsecondTime option res" where
  "recv_penalty env c now p =
     (if pkt_time p > now
      then if c < application_cores env
        then if pkt_time p - now < 100 * NS 1 then Inr None else Inl (LogError ''RecvInstruction(%s) being queued'')
        else Inr (Some (pkt_time p - now))
      else Inr None)"

text \<open>
  One search of the queue: the packet, the pseudo-instruction that is queued for the time it is late, and the state; \<open>None\<close> when no packet
  matches.
\<close>

definition recv_match :: "net_env \<Rightarrow> core_id_t \<Rightarrow> SubsecondTime \<Rightarrow> NetMatch \<Rightarrow> NetSystem \<Rightarrow> (NetPacket \<times> SubsecondTime option \<times> NetSystem) res option" where
  "recv_match env c now k s =
     (case find_earliest env k 0 (nn_queue (net_nodes s c)) None of
        None \<Rightarrow> None
      | Some (i, p) \<Rightarrow> Some (
          bindE (assertE (0 \<le> sender p \<and> sender p < total_cores env \<and> (receiver p = c \<or> receiver p = BROADCAST)) (AssertError ''itr->receiver == _core->getId()''))
          (\<lambda>_. let s = change_node c (\<lambda>n. n\<lparr>nn_queue := take i (nn_queue n) @ drop (Suc i) (nn_queue n)\<rparr>) s in
             bindE (recv_penalty env c now p) (\<lambda>penalty. Inr (p, penalty, s)))))"

text \<open>The packet that says that there is none: a new one whose length is the largest number.\<close>

definition mk_NetPacket :: NetPacket where
  "mk_NetPacket = \<lparr>start_time = 0, pkt_time = 0, queue_delay = 0, pkt_type = INVALID_PACKET_TYPE, sender = INVALID_CORE_ID,
     receiver = INVALID_CORE_ID, pkt_length = 0, data_requester = INVALID_CORE_ID, data_length = 0\<rparr>"

definition no_match_packet :: NetPacket where
  "no_match_packet = mk_NetPacket\<lparr>pkt_length := -1\<rparr>"

text \<open>
  The loop: when no packet matches it sleeps until a packet arrives or the time-out is over, and with a time-out it looks once more and then
  gives up. \<open>wakes\<close> are the states it finds when it is woken; \<open>None\<close> means that it still sleeps after the last of them.
\<close>

fun recv_loop ::
  "net_env \<Rightarrow> core_id_t \<Rightarrow> SubsecondTime \<Rightarrow> NetMatch \<Rightarrow> UInt64 \<Rightarrow> bool \<Rightarrow> NetSystem list \<Rightarrow> NetSystem \<Rightarrow>
     (NetPacket \<times> SubsecondTime option \<times> NetSystem) res option" where
  "recv_loop env c now k timeout_ns retry wakes s =
     (case recv_match env c now k s of
        Some r \<Rightarrow> Some r
      | None \<Rightarrow>
          if retry
          then (case wakes of [] \<Rightarrow> None | s # wakes \<Rightarrow> recv_loop env c now k timeout_ns (timeout_ns = 0) wakes s)
          else Some (Inr (no_match_packet, None, s)))"

declare recv_loop.simps [simp del]

definition netRecv ::
  "net_env \<Rightarrow> core_id_t \<Rightarrow> SubsecondTime \<Rightarrow> NetMatch \<Rightarrow> UInt64 \<Rightarrow> NetSystem list \<Rightarrow> NetSystem \<Rightarrow>
     (NetPacket \<times> SubsecondTime option \<times> NetSystem) res option" where
  "netRecv env c now k timeout_ns wakes s = recv_loop env c now k timeout_ns True wakes s"

definition netRecv_src_type where
  "netRecv_src_type env c now src ty = netRecv env c now \<lparr>nm_senders = [src], nm_types = [ty]\<rparr>"

definition netRecvFrom where
  "netRecvFrom env c now src = netRecv env c now \<lparr>nm_senders = [src], nm_types = []\<rparr>"

definition netRecvType where
  "netRecvType env c now ty = netRecv env c now \<lparr>nm_senders = [], nm_types = [ty]\<rparr>"

end
