(* ===== verification/LS_Route.thy ===== *)
theory LS_Route
  imports LS_Net_Send
begin

text \<open>
  Dimension-order routing reaches every core, in as many hops as the distance; what a broadcast tree does at the edge of the mesh; where
  the memory controllers are; and which packet a core receives.
\<close>

section \<open>Division of numbers that are not negative\<close>

lemma sdiv_nonneg: "0 \<le> a \<Longrightarrow> 0 < b \<Longrightarrow> a sdiv b = a div b" for a b :: int
  by (cases "a = 0") (simp_all add: signed_divide_int_def sgn_if)

lemma smod_nonneg: "0 \<le> a \<Longrightarrow> 0 < b \<Longrightarrow> a smod b = a mod b" for a b :: int
  by (cases "a = 0") (simp_all add: signed_modulo_int_def sgn_if)

lemma div_less: "0 < b \<Longrightarrow> a < q * b \<Longrightarrow> a div b < q" for a b q :: int
proof (rule ccontr)
  assume b: "0 < b" and less: "a < q * b" and "\<not> a div b < q"
  then have "q * b \<le> (a div b) * b" by (intro mult_right_mono) simp_all
  also have "\<dots> \<le> a" using b pos_mod_sign [OF b, of a] by (simp flip: minus_mod_eq_div_mult)
  finally show False using less by simp
qed

section \<open>One dimension\<close>

text \<open>The hops from \<open>s\<close> to \<open>d\<close> on a line or a ring of \<open>w\<close> nodes, and a step on the way.\<close>

definition goes_around :: "bool \<Rightarrow> int \<Rightarrow> int \<Rightarrow> int \<Rightarrow> bool" where
  "goes_around wrap w s d \<longleftrightarrow> wrap \<and> \<bar>s - d\<bar> > (w + 1) div 2"

definition line_hops :: "bool \<Rightarrow> int \<Rightarrow> int \<Rightarrow> int \<Rightarrow> int" where
  "line_hops wrap w s d = (if goes_around wrap w s d then w - \<bar>s - d\<bar> else \<bar>s - d\<bar>)"

lemma line_hops_nonneg: "0 \<le> s \<Longrightarrow> s < w \<Longrightarrow> 0 \<le> d \<Longrightarrow> d < w \<Longrightarrow> 0 \<le> line_hops wrap w s d"
  by (auto simp: line_hops_def)

lemma line_hops_zero: "0 \<le> s \<Longrightarrow> s < w \<Longrightarrow> 0 \<le> d \<Longrightarrow> d < w \<Longrightarrow> line_hops wrap w s d = 0 \<longleftrightarrow> s = d"
  by (auto simp: line_hops_def goes_around_def)

lemma step_left:
  assumes "0 \<le> s" "s < w" "0 \<le> d" "d < w" and left: "(s > d) \<noteq> goes_around wrap w s d"
  shows "line_hops wrap w ((s - 1 + w) mod w) d = line_hops wrap w s d - 1"
proof (cases "s = 0")
  case True
  then have "(s - 1 + w) mod w = w - 1" using assms by (simp add: zmod_minus1)
  moreover have "goes_around wrap w s d" using True left assms by auto
  ultimately show ?thesis using True assms by (auto simp: line_hops_def goes_around_def)
next
  case False
  then have "(s - 1 + w) mod w = s - 1" using assms by simp
  then show ?thesis using assms False by (auto simp: line_hops_def goes_around_def)
qed

lemma step_right:
  assumes "0 \<le> s" "s < w" "0 \<le> d" "d < w" and right: "\<not> ((s > d) \<noteq> goes_around wrap w s d)" and "s \<noteq> d"
  shows "line_hops wrap w ((s + 1 + w) mod w) d = line_hops wrap w s d - 1"
proof (cases "s = w - 1")
  case True
  then have "(s + 1 + w) mod w = 0" by simp
  moreover have "goes_around wrap w s d" using True right assms by auto
  ultimately show ?thesis using True assms by (auto simp: line_hops_def goes_around_def)
next
  case False
  then have "(s + 1 + w) mod w = s + 1" using assms by simp
  then show ?thesis using assms False by (auto simp: line_hops_def goes_around_def)
qed

section \<open>Positions in the mesh\<close>

definition mesh_ok :: "net_env \<Rightarrow> NetworkModelEMeshHopByHop \<Rightarrow> bool" where
  "mesh_ok env g \<longleftrightarrow> 0 < m_concentration g \<and> 0 < m_mesh_width g \<and> 0 < m_mesh_height g \<and>
     application_cores env = m_concentration g * m_mesh_height g * m_mesh_width g \<and> application_cores env \<le> total_cores env"

definition app_core :: "net_env \<Rightarrow> core_id_t \<Rightarrow> bool" where
  "app_core env c \<longleftrightarrow> 0 \<le> c \<and> c < application_cores env"

lemma position_eq:
  assumes "mesh_ok env g" and "app_core env c"
  shows "computePosition c g = ((c div m_concentration g) mod m_mesh_width g, (c div m_concentration g) div m_mesh_width g)"
proof -
  have "0 \<le> c div m_concentration g" using assms by (simp add: mesh_ok_def app_core_def pos_imp_zdiv_nonneg_iff)
  then show ?thesis using assms by (simp add: computePosition_def mesh_ok_def app_core_def sdiv_nonneg smod_nonneg)
qed

lemma position_range:
  assumes ok: "mesh_ok env g" and c: "app_core env c"
  shows "0 \<le> fst (computePosition c g)" "fst (computePosition c g) < m_mesh_width g"
    "0 \<le> snd (computePosition c g)" "snd (computePosition c g) < m_mesh_height g"
proof -
  let ?k = "m_concentration g" and ?w = "m_mesh_width g" and ?h = "m_mesh_height g" and ?n = "c div m_concentration g"
  note p = position_eq [OF ok c]
  have pos: "0 < ?k" "0 < ?w" "0 \<le> ?n" using assms by (auto simp: mesh_ok_def app_core_def pos_imp_zdiv_nonneg_iff)
  have "c < (?h * ?w) * ?k" using assms by (simp add: mesh_ok_def app_core_def algebra_simps)
  then have "?n < ?h * ?w" by (rule div_less [OF pos(1)])
  then have "?n div ?w < ?h" by (rule div_less [OF pos(2)])
  then show "0 \<le> fst (computePosition c g)" "fst (computePosition c g) < m_mesh_width g"
    "0 \<le> snd (computePosition c g)" "snd (computePosition c g) < m_mesh_height g"
    unfolding p using pos by (simp_all add: pos_imp_zdiv_nonneg_iff)
qed

text \<open>The node at a position next to the mesh is the one at the other end.\<close>

lemma core_at:
  assumes ok: "mesh_ok env g" and "- 1 \<le> x" "- 1 \<le> y"
  shows "app_core env (computeCoreId x y g)" and "computeCoreId x y g smod m_concentration g = 0"
    and "computePosition (computeCoreId x y g) g = ((x + m_mesh_width g) mod m_mesh_width g, (y + m_mesh_height g) mod m_mesh_height g)"
proof -
  let ?k = "m_concentration g" and ?w = "m_mesh_width g" and ?h = "m_mesh_height g"
  let ?x = "(x + ?w) mod ?w" and ?y = "(y + ?h) mod ?h"
  have pos: "0 < ?k" "0 < ?w" "0 < ?h" using ok by (auto simp: mesh_ok_def)
  have id: "computeCoreId x y g = (?y * ?w + ?x) * ?k"
    using assms pos by (simp add: computeCoreId_def Let_def smod_nonneg)
  have r: "0 \<le> ?x" "?x < ?w" "0 \<le> ?y" "?y < ?h" using pos by simp_all
  then have n0: "0 \<le> ?y * ?w + ?x" using pos by simp
  have "?y * ?w + ?x < (?y + 1) * ?w" using r by (simp add: algebra_simps)
  also have "\<dots> \<le> ?h * ?w" using r(4) pos(2) by (intro mult_right_mono) linarith+
  finally have "?y * ?w + ?x < ?h * ?w" .
  then have "(?y * ?w + ?x) * ?k < (?h * ?w) * ?k" using pos by simp
  then show app: "app_core env (computeCoreId x y g)" unfolding id app_core_def using n0 pos ok by (simp add: mesh_ok_def algebra_simps)
  show "computeCoreId x y g smod ?k = 0" using app pos unfolding id app_core_def by (simp add: smod_nonneg)
  show "computePosition (computeCoreId x y g) g = (?x, ?y)"
    unfolding position_eq [OF ok app] unfolding id using pos r by simp
qed

definition route_hops :: "NetworkModelEMeshHopByHop \<Rightarrow> core_id_t \<Rightarrow> core_id_t \<Rightarrow> int" where
  "route_hops g c d =
     (let (sx, sy) = computePosition c g; (dx, dy) = computePosition d g in
      line_hops (m_wrap_around g) (m_mesh_width g) sx dx + line_hops (m_wrap_around g) (m_mesh_height g) sy dy)"

lemma route_hops_nonneg: "mesh_ok env g \<Longrightarrow> app_core env c \<Longrightarrow> app_core env d \<Longrightarrow> 0 \<le> route_hops g c d"
  using position_range [of env g c] position_range [of env g d]
  by (auto simp: route_hops_def split_beta intro!: add_nonneg_nonneg line_hops_nonneg)

lemma same_node_iff:
  assumes ok: "mesh_ok env g" and "app_core env c" "app_core env d"
  shows "c div m_concentration g = d div m_concentration g \<longleftrightarrow> computePosition c g = computePosition d g"
  unfolding position_eq [OF ok assms(2)] position_eq [OF ok assms(3)] by (metis div_mult_mod_eq prod.inject)

lemma route_hops_zero:
  assumes ok: "mesh_ok env g" and "app_core env c" "app_core env d"
  shows "route_hops g c d = 0 \<longleftrightarrow> c div m_concentration g = d div m_concentration g"
proof -
  note c = position_range [OF ok assms(2)] and d = position_range [OF ok assms(3)]
  have "0 \<le> line_hops (m_wrap_around g) (m_mesh_width g) (fst (computePosition c g)) (fst (computePosition d g))"
    "0 \<le> line_hops (m_wrap_around g) (m_mesh_height g) (snd (computePosition c g)) (snd (computePosition d g))"
    using c d by (simp_all add: line_hops_nonneg)
  then show ?thesis unfolding same_node_iff [OF assms] route_hops_def split_beta Let_def
    using line_hops_zero c d by (simp add: add_nonneg_eq_0_iff prod_eq_iff)
qed

text \<open>
  What the nodes of one mesh have in common, and a node of it. The shape, the width of the links and the switches come from the configuration;
  the clock domain, the state of the queues and whether the model is enabled are those of the node. A stop is a node of the network: the first
  core of each group of \<open>m_concentration\<close> application cores.
\<close>

definition is_core :: "net_env \<Rightarrow> core_id_t \<Rightarrow> bool" where
  "is_core env c \<longleftrightarrow> 0 \<le> c \<and> c < total_cores env"

definition stop :: "net_env \<Rightarrow> NetworkModelEMeshHopByHop \<Rightarrow> core_id_t \<Rightarrow> bool" where
  "stop env g c \<longleftrightarrow> app_core env c \<and> c smod m_concentration g = 0"

definition mesh_node :: "net_env \<Rightarrow> NetworkModelEMeshHopByHop \<Rightarrow> core_id_t \<Rightarrow> NetworkModelEMeshHopByHop \<Rightarrow> bool" where
  "mesh_node env g c m \<longleftrightarrow> m_mesh_width m = m_mesh_width g \<and> m_mesh_height m = m_mesh_height g \<and> m_concentration m = m_concentration g \<and>
     m_wrap_around m = m_wrap_around g \<and> m_bw_in_bits_per_cycle (m_link_bandwidth m) = m_bw_in_bits_per_cycle (m_link_bandwidth g) \<and>
     m_broadcast_tree_enabled m = m_broadcast_tree_enabled g \<and> m_queue_model_enabled m = m_queue_model_enabled g \<and>
     hb_core_id m = c \<and> (m_fake_node m \<longleftrightarrow> \<not> stop env g c)"

text \<open>The constructor builds a node of the mesh, whatever the clock domain of the core is.\<close>

lemma mk_mesh_node:
  assumes "mk_NetworkModelEMeshHopByHop qcfg ty env domain bw lat conc dims wrap sz queues tree fresh c = Inr m"
    and "is_core env c" and "computeMeshDimensions (application_cores env) conc dims sz = Inr (w, h)"
    and "m_mesh_width g = w" "m_mesh_height g = h" "m_concentration g = conc" "m_wrap_around g = wrap"
    and "m_bw_in_bits_per_cycle (m_link_bandwidth g) = bw" "m_queue_model_enabled g = queues" "m_broadcast_tree_enabled g = tree"
  shows "mesh_node env g c (m\<lparr>m_enabled := b\<rparr>)"
proof -
  have "application_cores env = conc * h * w" using assms(3) by (auto simp: computeMeshDimensions_def bindE_Inr_iff)
  then have "c \<ge> conc * w * h \<longleftrightarrow> \<not> app_core env c" using assms(2) by (auto simp: app_core_def is_core_def algebra_simps)
  then show ?thesis using assms by (auto simp: mk_NetworkModelEMeshHopByHop_def mesh_node_def stop_def bindE_Inr_iff Let_def split: if_splits)
qed

text \<open>The dimensions that the constructor computes are those of a mesh when there is at least one application core.\<close>

lemma mesh_ok_dimensions:
  assumes "computeMeshDimensions (application_cores env) (m_concentration g) dims None = Inr (m_mesh_width g, m_mesh_height g)"
    and "0 < application_cores env" "0 < m_concentration g" "application_cores env \<le> total_cores env"
  shows "mesh_ok env g"
proof -
  let ?n = "application_cores env" and ?k = "m_concentration g" and ?w = "m_mesh_width g" and ?h = "m_mesh_height g"
  have n: "?n = ?k * ?h * ?w" using assms(1) by (auto simp: computeMeshDimensions_def bindE_Inr_iff)
  have "?w = ?n sdiv ?k \<or> ?w = isqrt (?n sdiv ?k)"
    using assms(1) by (auto simp: computeMeshDimensions_def mesh_shape_def bindE_Inr_iff Let_def split: if_splits)
  moreover have "0 \<le> isqrt (?n sdiv ?k)" by (simp add: isqrt_def)
  ultimately have "0 \<le> ?w" using assms(2,3) pos_imp_zdiv_nonneg_iff [of ?k ?n] by (auto simp: sdiv_nonneg)
  moreover have "?w \<noteq> 0" "?h \<noteq> 0" using n assms(2) by auto
  moreover have "0 < ?h * ?w" using n assms(2,3) by (simp add: mult.assoc zero_less_mult_iff)
  ultimately show ?thesis using n assms by (auto simp: mesh_ok_def zero_less_mult_iff)
qed

section \<open>The way of a packet\<close>

lemma same_geometry:
  assumes "mesh_node env g c m"
  shows "computePosition k m = computePosition k g" "computeCoreId x y m = computeCoreId x y g"
  using assms by (simp_all add: mesh_node_def computePosition_def computeCoreId_def)

lemma next_dest_same:
  assumes ok: "mesh_ok env g" and node: "mesh_node env g c m" and "app_core env c" "app_core env d" and "c div m_concentration g = d div m_concentration g"
  shows "getNextDest env d m = (DESTINATION, d)"
  using assms by (simp add: getNextDest_def mesh_node_def mesh_ok_def app_core_def sdiv_nonneg)

lemma next_dest_step:
  assumes ok: "mesh_ok env g" and node: "mesh_node env g c m" and st: "stop env g c" and d: "app_core env d"
    and far: "c div m_concentration g \<noteq> d div m_concentration g"
  obtains direction n where "getNextDest env d m = (direction, n)" and "real_direction direction" and "stop env g n"
    and "route_hops g n d = route_hops g c d - 1"
proof -
  have c: "app_core env c" using st by (simp add: stop_def)
  obtain sx sy where s: "computePosition c g = (sx, sy)" by fastforce
  obtain dx dy where p: "computePosition d g = (dx, dy)" by fastforce
  let ?wrap = "m_wrap_around g" and ?w = "m_mesh_width g" and ?h = "m_mesh_height g"
  have rs: "0 \<le> sx" "sx < ?w" "0 \<le> sy" "sy < ?h" using position_range [OF ok c] s by simp_all
  have rd: "0 \<le> dx" "dx < ?w" "0 \<le> dy" "dy < ?h" using position_range [OF ok d] p by simp_all
  have pos: "0 < m_concentration g" "0 < ?w" "0 < ?h" using ok by (simp_all add: mesh_ok_def)
  have half: "(?w + 1) sdiv 2 = (?w + 1) div 2" "(?h + 1) sdiv 2 = (?h + 1) div 2" using pos by (simp_all add: sdiv_nonneg)
  have hb: "hb_core_id m = c" "m_wrap_around m = ?wrap" "m_mesh_width m = ?w" "m_mesh_height m = ?h" using node by (simp_all add: mesh_node_def)
  have no: "(application_cores env \<le> d) = False" "(c sdiv m_concentration m = d sdiv m_concentration m) = False" "m_fake_node m = False"
    using node far st d pos by (simp_all add: mesh_node_def stop_def app_core_def sdiv_nonneg)
  have nd: "getNextDest env d m =
      (if (sx > dx) \<noteq> goes_around ?wrap ?w sx dx then (LEFT, computeCoreId (sx - 1) sy g)
       else if sx \<noteq> dx then (RIGHT, computeCoreId (sx + 1) sy g)
       else if (sy > dy) \<noteq> goes_around ?wrap ?h sy dy then (DOWN, computeCoreId sx (sy - 1) g)
       else if sy \<noteq> dy then (UP, computeCoreId sx (sy + 1) g)
       else (SELF, c))"
    by (simp only: getNextDest_def no if_False hb same_geometry [OF node] s p half goes_around_def prod.case Let_def)
  have other: "sx \<noteq> dx \<or> sy \<noteq> dy" using far same_node_iff [OF ok c d] s p by auto
  have keep: "(sx + ?w) mod ?w = sx" "(sy + ?h) mod ?h = sy" using rs by simp_all
  have hops: "route_hops g c d = line_hops ?wrap ?w sx dx + line_hops ?wrap ?h sy dy" by (simp add: route_hops_def s p)
  have at: "route_hops g (computeCoreId x y g) d = line_hops ?wrap ?w ((x + ?w) mod ?w) dx + line_hops ?wrap ?h ((y + ?h) mod ?h) dy"
    if "- 1 \<le> x" "- 1 \<le> y" for x y using core_at(3) [OF ok that] by (simp add: route_hops_def p)
  consider (left) "(sx > dx) \<noteq> goes_around ?wrap ?w sx dx" | (right) "\<not> ((sx > dx) \<noteq> goes_around ?wrap ?w sx dx)" "sx \<noteq> dx"
    | (down) "sx = dx" "(sy > dy) \<noteq> goes_around ?wrap ?h sy dy" "\<not> ((sx > dx) \<noteq> goes_around ?wrap ?w sx dx)"
    | (up) "sx = dx" "\<not> ((sy > dy) \<noteq> goes_around ?wrap ?h sy dy)" "sy \<noteq> dy" "\<not> ((sx > dx) \<noteq> goes_around ?wrap ?w sx dx)"
    using other by blast
  then show thesis
  proof cases
    case left
    have "route_hops g (computeCoreId (sx - 1) sy g) d = route_hops g c d - 1"
      using at [of "sx - 1" sy] rs step_left [OF rs(1,2) rd(1,2) left] keep hops by simp
    then show thesis using that [of LEFT] nd left core_at [OF ok, of "sx - 1" sy] rs by (simp add: stop_def)
  next
    case right
    have "route_hops g (computeCoreId (sx + 1) sy g) d = route_hops g c d - 1"
      using at [of "sx + 1" sy] rs step_right [OF rs(1,2) rd(1,2) right] keep hops by simp
    then show thesis using that [of RIGHT] nd right core_at [OF ok, of "sx + 1" sy] rs by (simp add: stop_def)
  next
    case down
    have "route_hops g (computeCoreId sx (sy - 1) g) d = route_hops g c d - 1"
      using at [of sx "sy - 1"] rs step_left [OF rs(3,4) rd(3,4) down(2)] keep hops by simp
    then show thesis using that [of DOWN] nd down core_at [OF ok, of sx "sy - 1"] rs by (simp add: stop_def)
  next
    case up
    have "route_hops g (computeCoreId sx (sy + 1) g) d = route_hops g c d - 1"
      using at [of sx "sy + 1"] rs step_right [OF rs(3,4) rd(3,4) up(2,3)] keep hops by simp
    then show thesis using that [of UP] nd up core_at [OF ok, of sx "sy + 1"] rs by (simp add: stop_def)
  qed
qed

text \<open>
  The number of hops from a core to another, the next stop, and the stops that a packet leaves in its first \<open>n\<close> hops. A core that is not a stop
  sends straight to the receiver, and so does every core to one that runs no application.
\<close>

definition way :: "net_env \<Rightarrow> NetworkModelEMeshHopByHop \<Rightarrow> core_id_t \<Rightarrow> core_id_t \<Rightarrow> nat" where
  "way env g c d = (if stop env g c \<and> app_core env d then nat (route_hops g c d) else 0)"

definition next_stop :: "net_env \<Rightarrow> NetworkModelEMeshHopByHop \<Rightarrow> core_id_t \<Rightarrow> core_id_t \<Rightarrow> core_id_t" where
  "next_stop env g c d = snd (getNextDest env d (g\<lparr>hb_core_id := c, m_fake_node := False\<rparr>))"

fun route_nodes :: "net_env \<Rightarrow> NetworkModelEMeshHopByHop \<Rightarrow> nat \<Rightarrow> core_id_t \<Rightarrow> core_id_t \<Rightarrow> core_id_t list" where
  "route_nodes env g 0 c d = []"
| "route_nodes env g (Suc n) c d = c # route_nodes env g n (next_stop env g c d) d"

lemma next_dest_geometry:
  assumes "mesh_node env g c m" and "stop env g c"
  shows "getNextDest env d m = getNextDest env d (g\<lparr>hb_core_id := c, m_fake_node := False\<rparr>)"
proof -
  let ?g = "g\<lparr>hb_core_id := c, m_fake_node := False\<rparr>"
  have f: "m_mesh_width m = m_mesh_width ?g" "m_mesh_height m = m_mesh_height ?g" "m_concentration m = m_concentration ?g"
    "m_wrap_around m = m_wrap_around ?g" "hb_core_id m = hb_core_id ?g" "m_fake_node m = m_fake_node ?g"
    using assms by (simp_all add: mesh_node_def)
  show ?thesis by (simp only: getNextDest_def computePosition_def computeCoreId_def f)
qed

lemma next_dest_way:
  assumes ok: "mesh_ok env g" and node: "mesh_node env g c m" and st: "stop env g c" and d: "is_core env d"
  shows "if way env g c d = 0 then getNextDest env d m = (DESTINATION, d)
    else \<exists>direction. getNextDest env d m = (direction, next_stop env g c d) \<and> real_direction direction \<and> stop env g (next_stop env g c d) \<and>
      Suc (way env g (next_stop env g c d) d) = way env g c d"
proof (cases "app_core env d")
  case False
  then have "application_cores env \<le> d" using d by (simp add: app_core_def is_core_def)
  then show ?thesis using False by (simp add: way_def getNextDest_def)
next
  case app: True
  have c: "app_core env c" using st by (simp add: stop_def)
  have way: "way env g c d = nat (route_hops g c d)" "0 \<le> route_hops g c d"
    using st app route_hops_nonneg [OF ok c app] by (simp_all add: way_def)
  show ?thesis
  proof (cases "c div m_concentration g = d div m_concentration g")
    case True
    then show ?thesis using next_dest_same [OF ok node c app True] route_hops_zero [OF ok c app] way by simp
  next
    case False
    obtain direction n where n: "getNextDest env d m = (direction, n)" "real_direction direction" "stop env g n"
      "route_hops g n d = route_hops g c d - 1" using next_dest_step [OF ok node st app False] by blast
    have next_eq: "next_stop env g c d = n" using n(1) next_dest_geometry [OF node st, of d] by (simp add: next_stop_def)
    have "way env g n d = nat (route_hops g c d - 1)" using n(3,4) app by (simp add: way_def)
    moreover have "route_hops g c d \<noteq> 0" using False route_hops_zero [OF ok c app] by simp
    ultimately have "Suc (way env g n d) = way env g c d" "way env g c d \<noteq> 0" using way by simp_all
    then show ?thesis using n next_eq by simp
  qed
qed

section \<open>A packet on its way\<close>

text \<open>What a hop costs at a node: the latency of a hop in the clock domain of the node, or nothing while the model is not enabled or for a
  requester that runs no application.\<close>

definition model_cost :: "net_env \<Rightarrow> core_id_t \<Rightarrow> NetworkModelEMeshHopByHop \<Rightarrow> SubsecondTime" where
  "model_cost env requester m =
     (if m_enabled m \<and> requester < application_cores env then cl_getLatency (ne_periods env) (m_hop_latency m) else 0)"

definition node_cost :: "net_env \<Rightarrow> EStaticNetwork \<Rightarrow> core_id_t \<Rightarrow> NetSystem \<Rightarrow> core_id_t \<Rightarrow> SubsecondTime" where
  "node_cost env net requester s c =
     (case nn_models (net_nodes s c) net of ModelHopByHop m \<Rightarrow> model_cost env requester m | _ \<Rightarrow> 0)"

text \<open>A traffic matrix has one entry more than there are cores.\<close>

definition matrix_ok :: "net_env \<Rightarrow> TrafficMatrix \<Rightarrow> bool" where
  "matrix_ok env t \<longleftrightarrow> (m_collect_traffic_matrix t \<longrightarrow>
     length (m_matrix_packets t) = length (m_matrix_bytes t) \<and> total_cores env < int (length (m_matrix_bytes t)))"

text \<open>The network of a packet type in which all cores have a node of one mesh.\<close>

definition mesh_system :: "net_env \<Rightarrow> EStaticNetwork \<Rightarrow> NetworkModelEMeshHopByHop \<Rightarrow> NetSystem \<Rightarrow> bool" where
  "mesh_system env net g s \<longleftrightarrow> mesh_ok env g \<and> m_bw_in_bits_per_cycle (m_link_bandwidth g) \<noteq> 0 \<and>
     (\<forall>c. is_core env c \<longrightarrow> matrix_ok env (nn_matrix (net_nodes s c) net) \<and>
       (\<exists>m. nn_models (net_nodes s c) net = ModelHopByHop m \<and> mesh_node env g c m))"

text \<open>What routing keeps of the network, and of a node.\<close>

definition keeps :: "net_env \<Rightarrow> EStaticNetwork \<Rightarrow> NetworkModelEMeshHopByHop \<Rightarrow> NetSystem \<Rightarrow> NetSystem \<Rightarrow> bool" where
  "keeps env net g s s' \<longleftrightarrow> mesh_system env net g s' \<and> (\<forall>r. node_cost env net r s' = node_cost env net r s) \<and> net_transport s' = net_transport s"

definition keeps_node :: "net_env \<Rightarrow> NetworkModelEMeshHopByHop \<Rightarrow> core_id_t \<Rightarrow> NetworkModelEMeshHopByHop \<Rightarrow> NetworkModelEMeshHopByHop \<Rightarrow> bool" where
  "keeps_node env g c m m' \<longleftrightarrow> mesh_node env g c m' \<and> m_enabled m' = m_enabled m \<and> m_hop_latency m' = m_hop_latency m"

definition queue_failed :: "net_env \<Rightarrow> NetworkModelEMeshHopByHop \<Rightarrow> sim_error \<Rightarrow> bool" where
  "queue_failed env g e \<longleftrightarrow> m_queue_model_enabled g \<and> (\<exists>t d q. computeQueueDelay (ne_queue env) t d q = Inl e)"

lemma keeps_put:
  assumes sys: "mesh_system env net g s" and "nn_models (net_nodes s c) net = ModelHopByHop m" and node: "keeps_node env g c m m'"
  shows "keeps env net g s (put_model c net (ModelHopByHop m') s)"
proof -
  let ?s = "put_model c net (ModelHopByHop m') s"
  have "node_cost env net r ?s x = node_cost env net r s x" for r x
    using assms by (simp add: node_cost_def model_cost_def keeps_node_def put_model_def change_node_def)
  moreover have "mesh_system env net g ?s" using sys node unfolding mesh_system_def keeps_node_def by (auto simp: put_model_def change_node_def)
  ultimately show ?thesis by (auto simp: keeps_def put_model_def change_node_def)
qed

lemma countPacket_ok:
  assumes ok: "matrix_ok env t" and r: "receiver p = BROADCAST \<or> is_core env (receiver p)" and tot: "0 \<le> total_cores env"
  shows "\<exists>t'. countPacket env p t = Inr t' \<and> matrix_ok env t'"
proof (cases "m_collect_traffic_matrix t")
  case False
  then show ?thesis using ok by (simp add: countPacket_def)
next
  case True
  define dst where "dst = (if receiver p = BROADCAST then int (length (m_matrix_bytes t)) - 1 else receiver p)"
  have len: "length (m_matrix_packets t) = length (m_matrix_bytes t)" "total_cores env < int (length (m_matrix_bytes t))"
    using ok True by (simp_all add: matrix_ok_def)
  then have "0 \<le> dst" "dst < int (length (m_matrix_bytes t))" using r tot by (auto simp: dst_def is_core_def)
  then show ?thesis using True len unfolding countPacket_def dst_def [symmetric] by (simp add: matrix_ok_def Let_def)
qed

lemma keeps_count:
  assumes sys: "mesh_system env net g s" and "is_core env c" and r: "receiver p = BROADCAST \<or> is_core env (receiver p)"
    and net: "net = g_type_to_static_network_map (pkt_type p)"
  obtains s' where "count_packet env c p s = Inr s'" "keeps env net g s s'"
proof -
  let ?t = "nn_matrix (net_nodes s c) net"
  have ok: "matrix_ok env ?t" using assms(1,2) by (simp add: mesh_system_def)
  have tot: "0 \<le> total_cores env" using assms(2) by (simp add: is_core_def)
  obtain t where t: "countPacket env p ?t = Inr t" "matrix_ok env t"
    using countPacket_ok [OF ok r tot] by blast
  let ?s = "change_node c (\<lambda>n. n\<lparr>nn_matrix := (nn_matrix n)(net := t)\<rparr>) s"
  have count: "count_packet env c p s = Inr ?s" using t(1) net by (simp add: count_packet_def Let_def)
  have "node_cost env net r ?s x = node_cost env net r s x" for r x by (simp add: node_cost_def change_node_def)
  moreover have "mesh_system env net g ?s" using sys t(2) unfolding mesh_system_def by (auto simp: change_node_def)
  ultimately have "keeps env net g s ?s" by (auto simp: keeps_def change_node_def)
  then show thesis using count that by blast
qed

subsection \<open>One node\<close>

lemma count_sent_node [simp]: "mesh_node env g c (count_sent env p m) = mesh_node env g c m" "model_cost env r (count_sent env p m) = model_cost env r m"
  by (simp_all add: mesh_node_def count_sent_def model_cost_def)

lemma processing_time:
  assumes "mesh_node env g c m" and "stop env g c" and "m_bw_in_bits_per_cycle (m_link_bandwidth g) \<noteq> 0"
  obtains t where "computeProcessingTime env len m = Inr t"
  using assms by (simp add: computeProcessingTime_def mesh_node_def bpc_getRoundedLatency_def time_div_def Let_def)

lemma injection_delay:
  assumes "mesh_node env g c m" and "stop env g c" and "m_bw_in_bits_per_cycle (m_link_bandwidth g) \<noteq> 0"
  shows "case computeInjectionPortQueueDelay env d t len m of
      Inl e \<Rightarrow> queue_failed env g e
    | Inr (delay, m') \<Rightarrow> keeps_node env g c m m' \<and> (\<not> m_queue_model_enabled g \<longrightarrow> delay = 0)"
proof -
  obtain pt where pt: "computeProcessingTime env len m = Inr pt" by (rule processing_time [OF assms])
  show ?thesis using assms pt
    by (auto simp: computeInjectionPortQueueDelay_def mesh_node_def keeps_node_def queue_failed_def bindE_def split: sum.splits)
qed

lemma hop_latency:
  assumes "mesh_node env g c m" and "stop env g c" and "m_bw_in_bits_per_cycle (m_link_bandwidth g) \<noteq> 0" and "real_direction direction"
  shows "case computeLatency env direction t len requester m of
      Inl e \<Rightarrow> queue_failed env g e
    | Inr (latency, delay, m') \<Rightarrow> latency = model_cost env requester m + delay \<and> keeps_node env g c m m' \<and> (\<not> m_queue_model_enabled g \<longrightarrow> delay = 0)"
proof (cases "m_enabled m \<and> requester < application_cores env")
  case False
  then show ?thesis using assms by (auto simp: computeLatency_def mesh_node_def keeps_node_def model_cost_def)
next
  case True
  obtain pt where pt: "computeProcessingTime env len m = Inr pt" by (rule processing_time [OF assms(1-3)])
  show ?thesis
  proof (cases "m_queue_model_enabled g")
    case False
    then show ?thesis using assms True pt by (simp add: computeLatency_def mesh_node_def keeps_node_def model_cost_def)
  next
    case queues: True
    show ?thesis
    proof (cases "computeQueueDelay (ne_queue env) t pt (m_queue_models m direction)")
      case (Inl e)
      then have "computeLatency env direction t len requester m = Inl e" using assms True pt queues by (simp add: computeLatency_def mesh_node_def)
      moreover have "queue_failed env g e" using Inl queues unfolding queue_failed_def by blast
      ultimately show ?thesis by simp
    next
      case (Inr dq)
      then show ?thesis using assms True pt queues
        by (cases dq) (simp add: computeLatency_def mesh_node_def keeps_node_def model_cost_def)
    qed
  qed
qed

lemma addHop_node:
  assumes "mesh_node env g c m" and "stop env g c" and "m_bw_in_bits_per_cycle (m_link_bandwidth g) \<noteq> 0"
  shows "case addHop env direction final n t len requester m of
      Inl e \<Rightarrow> queue_failed env g e
    | Inr (h, delay, m') \<Rightarrow> h = \<lparr>final_dest = final, next_dest = n,
          hop_time = t + (if real_direction direction then model_cost env requester m else 0) + delay\<rparr> \<and>
        keeps_node env g c m m' \<and> (\<not> m_queue_model_enabled g \<longrightarrow> delay = 0)"
proof (cases "real_direction direction")
  case False
  then show ?thesis using assms(1) by (simp add: addHop_def keeps_node_def)
next
  case True
  show ?thesis
  proof (cases "computeLatency env direction t len requester m")
    case (Inl e)
    then show ?thesis using hop_latency [OF assms True, where t = t and len = len and requester = requester] True unfolding addHop_def by (auto simp: bindE_def)
  next
    case (Inr r)
    obtain l delay m' where r: "r = (l, delay, m')" by (cases r)
    then show ?thesis using hop_latency [OF assms True, where t = t and len = len and requester = requester] True Inr by (simp add: addHop_def)
  qed
qed

text \<open>A stop sends a packet on, or to the core it is for; the delays in queues are added to the packet.\<close>

lemma route_unicast_node:
  assumes node: "mesh_node env g c m" and st: "stop env g c" and bw: "m_bw_in_bits_per_cycle (m_link_bandwidth g) \<noteq> 0"
    and dest: "getNextDest env (receiver p) m = (direction, n)"
  shows "case route_unicast env p requester m of
      Inl e \<Rightarrow> queue_failed env g e
    | Inr (p', hs, m') \<Rightarrow> hs = [\<lparr>final_dest = receiver p, next_dest = n,
          hop_time = pkt_time p + (if real_direction direction then model_cost env requester m else 0) + (queue_delay p' - queue_delay p)\<rparr>] \<and>
        p' = p\<lparr>queue_delay := queue_delay p'\<rparr> \<and> keeps_node env g c m m' \<and> (\<not> m_queue_model_enabled g \<longrightarrow> queue_delay p' = queue_delay p)"
proof -
  let ?len = "net_getModeledLength env p"
  let ?inject = "if sender p = hb_core_id m then computeInjectionPortQueueDelay env (receiver p) (pkt_time p) ?len m else Inr (0, m)"
  have inj: "case ?inject of Inl e \<Rightarrow> queue_failed env g e
    | Inr (delay, m') \<Rightarrow> keeps_node env g c m m' \<and> (\<not> m_queue_model_enabled g \<longrightarrow> delay = 0)"
    using injection_delay [OF node st bw, of "receiver p" "pkt_time p" ?len] node by (simp add: keeps_node_def)
  show ?thesis
  proof (cases ?inject)
    case (Inl e)
    then have "route_unicast env p requester m = Inl e" unfolding route_unicast_def Let_def by (simp add: bindE_def)
    then show ?thesis using inj Inl by simp
  next
    case (Inr r)
    obtain inject m1 where r: "r = (inject, m1)" by fastforce
    have k1: "keeps_node env g c m m1" "\<not> m_queue_model_enabled g \<longrightarrow> inject = 0" using inj Inr r by auto
    then have node1: "mesh_node env g c m1" and cost1: "model_cost env requester m1 = model_cost env requester m"
      by (simp_all add: keeps_node_def model_cost_def)
    have dest1: "getNextDest env (receiver p) m1 = (direction, n)"
      using dest next_dest_geometry [OF node st] next_dest_geometry [OF node1 st] by simp
    have run: "route_unicast env p requester m =
        bindE (addHop env direction (receiver p) n (pkt_time p + inject) ?len requester m1)
          (\<lambda>(h, delay, m). Inr (p\<lparr>queue_delay := queue_delay p + inject + delay\<rparr>, [h], m))"
      unfolding route_unicast_def Let_def Inr r using dest1 by simp
    note hop = addHop_node [OF node1 st bw, where direction = direction and final = "receiver p" and n = n and t = "pkt_time p + inject" and len = ?len
        and requester = requester]
    show ?thesis
    proof (cases "addHop env direction (receiver p) n (pkt_time p + inject) ?len requester m1")
      case (Inl e)
      then show ?thesis using hop run by simp
    next
      case (Inr x)
      obtain h delay m2 where x: "x = (h, delay, m2)" by (cases x)
      then have h: "h = \<lparr>final_dest = receiver p, next_dest = n,
          hop_time = pkt_time p + inject + (if real_direction direction then model_cost env requester m else 0) + delay\<rparr>"
        "keeps_node env g c m1 m2" "\<not> m_queue_model_enabled g \<longrightarrow> delay = 0" using hop Inr cost1 by simp_all
      then show ?thesis using run Inr x k1 by (simp add: keeps_node_def algebra_simps)
    qed
  qed
qed

subsection \<open>The network\<close>

lemma pkt_requester_on_way: "pkt_requester env (p\<lparr>pkt_time := t, receiver := d\<rparr>) = pkt_requester env p"
  "pkt_requester env (p\<lparr>queue_delay := q\<rparr>) = pkt_requester env p"
  by (simp_all add: pkt_requester_def cong: if_cong)

lemma core_not_broadcast: "is_core env c \<Longrightarrow> c \<noteq> BROADCAST"
  by (auto simp: is_core_def BROADCAST_def)

lemma app_is_core: "mesh_ok env g \<Longrightarrow> app_core env c \<Longrightarrow> is_core env c"
  by (simp add: mesh_ok_def app_core_def is_core_def)

lemma route_step:
  assumes sys: "mesh_system env net g s" and net: "net = g_type_to_static_network_map (pkt_type p)" and c: "is_core env c"
    and d: "is_core env (receiver p)" and req: "pkt_requester env p = Inr requester"
  shows "case routePacket env c p s of
      Inl e \<Rightarrow> queue_failed env g e
    | Inr (p', hs, s') \<Rightarrow>
        hs = [\<lparr>final_dest = receiver p, next_dest = (if way env g c (receiver p) = 0 then receiver p else next_stop env g c (receiver p)),
          hop_time = pkt_time p + (if way env g c (receiver p) = 0 then 0 else node_cost env net requester s c) + (queue_delay p' - queue_delay p)\<rparr>] \<and>
        p' = p\<lparr>queue_delay := queue_delay p'\<rparr> \<and> keeps env net g s s' \<and> (\<not> m_queue_model_enabled g \<longrightarrow> queue_delay p' = queue_delay p)"
proof -
  let ?d = "receiver p"
  obtain m where m: "nn_models (net_nodes s c) net = ModelHopByHop m" and node: "mesh_node env g c m"
    using sys c unfolding mesh_system_def by blast
  have ok: "mesh_ok env g" and bw: "m_bw_in_bits_per_cycle (m_link_bandwidth g) \<noteq> 0" using sys by (simp_all add: mesh_system_def)
  let ?m = "count_sent env p m"
  have node': "mesh_node env g c ?m" using node by simp
  have cost: "node_cost env net requester s c = model_cost env requester m" using m by (simp add: node_cost_def)
  have km: "keeps_node env g c m m'" if "keeps_node env g c ?m m'" for m' using that by (simp add: keeps_node_def count_sent_def)
  have route: "routePacket env c p s = bindE (hb_routePacket env p m) (\<lambda>(p, hs, m). Inr (p, hs, put_model c net (ModelHopByHop m) s))"
    using m by (simp add: routePacket_def net Let_def)
  show ?thesis
  proof (cases "stop env g c")
    case False
    then have fake: "m_fake_node ?m" using node' by (simp add: mesh_node_def)
    have "routePacket env c p s = Inr (p, [\<lparr>final_dest = ?d, next_dest = ?d, hop_time = pkt_time p\<rparr>], put_model c net (ModelHopByHop ?m) s)"
      unfolding route using req fake core_not_broadcast [OF d] by (simp add: hb_routePacket_def addHop_def Let_def)
    moreover have "keeps env net g s (put_model c net (ModelHopByHop ?m) s)"
      by (rule keeps_put [OF sys m]) (use node in \<open>simp add: keeps_node_def count_sent_def mesh_node_def\<close>)
    ultimately show ?thesis using False by (simp add: way_def)
  next
    case st: True
    then have "\<not> m_fake_node ?m" using node' by (simp add: mesh_node_def)
    then have hb: "hb_routePacket env p m = route_unicast env p requester ?m"
      using req core_not_broadcast [OF d] by (simp add: hb_routePacket_def Let_def)
    obtain direction n where dest: "getNextDest env ?d ?m = (direction, n)" by fastforce
    have n: "n = (if way env g c ?d = 0 then ?d else next_stop env g c ?d)" "real_direction direction \<longleftrightarrow> way env g c ?d \<noteq> 0"
      using next_dest_way [OF ok node' st d] dest by (auto split: if_splits)
    note step = route_unicast_node [OF node' st bw dest, of requester]
    show ?thesis
    proof (cases "route_unicast env p requester ?m")
      case (Inl e)
      then show ?thesis using step route hb by simp
    next
      case (Inr r)
      obtain p' hs m' where r: "r = (p', hs, m')" by (cases r)
      have "keeps env net g s (put_model c net (ModelHopByHop m') s)"
        by (rule keeps_put [OF sys m km]) (use step Inr r in simp)
      then show ?thesis using step route hb Inr r n cost by (auto split: if_splits)
    qed
  qed
qed

lemma follow_hops_arrives:
  assumes "mesh_system env net g s" and "net = g_type_to_static_network_map (pkt_type p)" and "is_core env (final_dest h)"
    and "next_dest h = final_dest h \<or> stop env g (next_dest h)" and "pkt_requester env p = Inr requester"
    and "(if next_dest h = final_dest h then 0 else way env g (next_dest h) (final_dest h)) = k"
  shows "\<exists>r. follow_hops env p h s = Some r \<and> (case r of
      Inl e \<Rightarrow> queue_failed env g e
    | Inr (p', h', s') \<Rightarrow> h' = \<lparr>final_dest = final_dest h, next_dest = final_dest h, hop_time = hop_time h +
          sum_list (map (node_cost env net requester s) (route_nodes env g k (next_dest h) (final_dest h))) + (queue_delay p' - queue_delay p)\<rparr> \<and>
        keeps env net g s s' \<and> (\<not> m_queue_model_enabled g \<longrightarrow> queue_delay p' = queue_delay p))"
  using assms
proof (induction k arbitrary: p h s rule: less_induct)
  case (less k)
  let ?n = "next_dest h" and ?d = "final_dest h"
  let ?p = "p\<lparr>pkt_time := hop_time h, receiver := ?d\<rparr>"
  show ?case
  proof (cases "?n = ?d")
    case True
    then show ?thesis using less.prems by (subst follow_hops.simps) (simp add: keeps_def)
  next
    case False
    have st: "stop env g ?n" using less.prems(4) False by auto
    have ok: "mesh_ok env g" using less.prems(1) by (simp add: mesh_system_def)
    have n: "is_core env ?n" using st app_is_core [OF ok] by (simp add: stop_def)
    have k: "k = way env g ?n ?d" using less.prems(6) False by simp
    have req: "pkt_requester env ?p = Inr requester" using less.prems(5) by (simp add: pkt_requester_on_way)
    have net': "net = g_type_to_static_network_map (pkt_type ?p)" and d': "is_core env (receiver ?p)" using less.prems(2,3) by simp_all
    note step = route_step [OF less.prems(1) net' n d' req]
    show ?thesis
    proof (cases "routePacket env ?n ?p s")
      case (Inl e)
      then show ?thesis using step False n by (subst follow_hops.simps) (simp add: is_core_def)
    next
      case (Inr r)
      obtain p1 hs s1 where r: "r = (p1, hs, s1)" by (cases r)
      define h1 where "h1 = \<lparr>final_dest = ?d, next_dest = (if k = 0 then ?d else next_stop env g ?n ?d),
          hop_time = hop_time h + (if k = 0 then 0 else node_cost env net requester s ?n) + (queue_delay p1 - queue_delay p)\<rparr>"
      have hs: "hs = [h1]" and p1: "p1 = ?p\<lparr>queue_delay := queue_delay p1\<rparr>" and s1: "keeps env net g s s1"
        and q1: "\<not> m_queue_model_enabled g \<longrightarrow> queue_delay p1 = queue_delay p" using step Inr r k by (simp_all add: h1_def)
      have unfold: "follow_hops env p h s = follow_hops env p1 h1 s1"
        using False n Inr r hs by (subst follow_hops.simps) (simp add: is_core_def)
      show ?thesis
      proof (cases "k = 0")
        case True
        then show ?thesis unfolding unfold using s1 q1 by (subst follow_hops.simps) (simp add: h1_def)
      next
        case far: False
        let ?m = "next_stop env g ?n ?d" and ?k = "k - 1"
        obtain m0 where node: "mesh_node env g ?n m0" using less.prems(1) n unfolding mesh_system_def by blast
        have nxt: "stop env g ?m" "Suc (way env g ?m ?d) = k"
          using next_dest_way [OF ok node st less.prems(3)] far k by (auto split: if_splits)
        have self: "way env g ?d ?d = 0"
          using route_hops_zero [OF ok, of ?d ?d] by (auto simp: way_def)
        have k1: "(if next_dest h1 = final_dest h1 then 0 else way env g (next_dest h1) (final_dest h1)) = ?k"
          using nxt(2) far self by (auto simp: h1_def)
        have sys1: "mesh_system env net g s1" and cost1: "node_cost env net requester s1 = node_cost env net requester s"
          using s1 by (simp_all add: keeps_def)
        have req1: "pkt_requester env p1 = Inr requester" using req p1 pkt_requester_on_way(2) by metis
        have net1: "net = g_type_to_static_network_map (pkt_type p1)" using less.prems(2) p1
          by (metis NetPacket.select_convs(4) NetPacket.surjective NetPacket.update_convs(2,3,6))
        have "\<exists>r. follow_hops env p1 h1 s1 = Some r \<and> (case r of Inl e \<Rightarrow> queue_failed env g e
            | Inr (p', h', s') \<Rightarrow> h' = \<lparr>final_dest = final_dest h1, next_dest = final_dest h1, hop_time = hop_time h1 +
                sum_list (map (node_cost env net requester s1) (route_nodes env g ?k (next_dest h1) (final_dest h1))) + (queue_delay p' - queue_delay p1)\<rparr> \<and>
              keeps env net g s1 s' \<and> (\<not> m_queue_model_enabled g \<longrightarrow> queue_delay p' = queue_delay p1))"
          by (rule less.IH [OF _ sys1 net1 _ _ req1 k1]) (use far nxt less.prems(3) in \<open>simp_all add: h1_def\<close>)
        then obtain r' where r': "follow_hops env p1 h1 s1 = Some r'" "case r' of Inl e \<Rightarrow> queue_failed env g e
            | Inr (p', h', s') \<Rightarrow> h' = \<lparr>final_dest = final_dest h1, next_dest = final_dest h1, hop_time = hop_time h1 +
                sum_list (map (node_cost env net requester s1) (route_nodes env g ?k (next_dest h1) (final_dest h1))) + (queue_delay p' - queue_delay p1)\<rparr> \<and>
              keeps env net g s1 s' \<and> (\<not> m_queue_model_enabled g \<longrightarrow> queue_delay p' = queue_delay p1)" by blast
        have nodes: "route_nodes env g k ?n ?d = ?n # route_nodes env g ?k ?m ?d" using far by (cases k) simp_all
        show ?thesis
        proof (cases r')
          case (Inl e)
          then show ?thesis unfolding unfold using r' by simp
        next
          case (Inr x)
          obtain p' h' s' where x: "x = (p', h', s')" by (cases x)
          have "keeps env net g s s'" using r'(2) s1 Inr x by (simp add: keeps_def)
          then show ?thesis unfolding unfold using r' Inr x far q1 nodes cost1 by (simp add: h1_def algebra_simps)
        qed
      qed
    qed
  qed
qed

text \<open>
  C31. In a mesh of any width, height and concentration, with or without links around its edges, with or without queue models and traffic matrix,
  a packet that a core sends to a core arrives, unless a queue model reports an error: the loop over the hops ends, and exactly one packet is put
  into the transport of the receiver. It arrives after the cost of a hop at each stop of the dimension-order route (the hop latency in the clock
  domain of the stop, or nothing while the model of the stop is disabled or for a requester that runs no application) and the delays in queues
  that have been added to the packet; these are zero without queue models. The route is empty when the sender is not a stop of the network or the
  receiver runs no application; otherwise, and without links around the edges, it has as many hops as \<^verbatim>\<open>computeDistance\<close> returns.
\<close>

theorem mesh_delivers:
  assumes sys: "mesh_system env (g_type_to_static_network_map (pkt_type p)) g s" and c: "is_core env c" and d: "is_core env (receiver p)"
    and src: "sender p = c" "pkt_requester env p = Inr requester" "bufferSize env p \<ge> packet_size env"
  shows "(case netSend env c p s of
      None \<Rightarrow> False
    | Some (Inl e) \<Rightarrow> m_queue_model_enabled g \<and> (\<exists>t d q. computeQueueDelay (ne_queue env) t d q = Inl e)
    | Some (Inr (p', s')) \<Rightarrow> \<exists>qd.
        net_transport s' = (net_transport s)(receiver p := net_transport s (receiver p) @
          [p\<lparr>start_time := pkt_time p, queue_delay := qd,
             pkt_time := pkt_time p +
               sum_list (map (node_cost env (g_type_to_static_network_map (pkt_type p)) requester s)
                 (route_nodes env g (way env g c (receiver p)) c (receiver p))) + (queue_delay p' - queue_delay p)\<rparr>]) \<and>
        (\<not> m_queue_model_enabled g \<longrightarrow> qd = queue_delay p \<and> queue_delay p' = queue_delay p)) \<and>
    (stop env g c \<and> app_core env (receiver p) \<and> \<not> m_wrap_around g \<longrightarrow> int (way env g c (receiver p)) = computeDistance c (receiver p) g)"
proof
  let ?net = "g_type_to_static_network_map (pkt_type p)" and ?d = "receiver p"
  let ?cost = "node_cost env ?net requester s" and ?k = "way env g c ?d"
  have ok: "mesh_ok env g" using sys by (simp add: mesh_system_def)
  obtain s0 where count: "count_packet env c p s = Inr s0" and k0: "keeps env ?net g s s0" using keeps_count [OF sys c _ refl] d by blast
  have sys0: "mesh_system env ?net g s0" and cost0: "node_cost env ?net requester s0 = ?cost" and tr0: "net_transport s0 = net_transport s"
    using k0 by (simp_all add: keeps_def)
  note step = route_step [OF sys0 refl c d src(2), unfolded cost0]
  show "case netSend env c p s of
      None \<Rightarrow> False
    | Some (Inl e) \<Rightarrow> m_queue_model_enabled g \<and> (\<exists>t d q. computeQueueDelay (ne_queue env) t d q = Inl e)
    | Some (Inr (p', s')) \<Rightarrow> \<exists>qd.
        net_transport s' = (net_transport s)(?d := net_transport s ?d @
          [p\<lparr>start_time := pkt_time p, queue_delay := qd,
             pkt_time := pkt_time p + sum_list (map ?cost (route_nodes env g ?k c ?d)) + (queue_delay p' - queue_delay p)\<rparr>]) \<and>
        (\<not> m_queue_model_enabled g \<longrightarrow> qd = queue_delay p \<and> queue_delay p' = queue_delay p)"
  proof (cases "routePacket env c p s0")
    case (Inl e)
    then show ?thesis using step count by (simp add: netSend_def queue_failed_def)
  next
    case (Inr r)
    obtain p1 hs s1 where r: "r = (p1, hs, s1)" by (cases r)
    define h where "h = \<lparr>final_dest = ?d, next_dest = (if ?k = 0 then ?d else next_stop env g c ?d),
        hop_time = pkt_time p + (if ?k = 0 then 0 else ?cost c) + (queue_delay p1 - queue_delay p)\<rparr>"
    have hs: "hs = [h]" and p1: "p1 = p\<lparr>queue_delay := queue_delay p1\<rparr>" and k1: "keeps env ?net g s0 s1"
      and q1: "\<not> m_queue_model_enabled g \<longrightarrow> queue_delay p1 = queue_delay p" using step Inr r by (simp_all add: h_def)
    have same: "pkt_time p1 = pkt_time p" "pkt_type p1 = pkt_type p" "sender p1 = c" using p1 src(1)
      by (metis NetPacket.select_convs(2,4,5) NetPacket.surjective NetPacket.update_convs(3))+
    have sys1: "mesh_system env ?net g s1" and cost1: "node_cost env ?net requester s1 = ?cost" and tr1: "net_transport s1 = net_transport s"
      using k1 cost0 tr0 by (simp_all add: keeps_def)
    have nxt: "next_dest h = final_dest h \<or> stop env g (next_dest h)"
      "(if next_dest h = final_dest h then 0 else way env g (next_dest h) (final_dest h)) = ?k - 1"
    proof -
      have self: "way env g ?d ?d = 0" using route_hops_zero [OF ok, of ?d ?d] by (auto simp: way_def)
      have "stop env g (next_stop env g c ?d) \<and> Suc (way env g (next_stop env g c ?d) ?d) = ?k" if far: "?k \<noteq> 0"
      proof -
        have st: "stop env g c" using far by (auto simp: way_def split: if_splits)
        obtain m where "mesh_node env g c m" using sys c unfolding mesh_system_def by blast
        then show ?thesis using next_dest_way [OF ok _ st d] far by (auto split: if_splits)
      qed
      then show "next_dest h = final_dest h \<or> stop env g (next_dest h)"
        "(if next_dest h = final_dest h then 0 else way env g (next_dest h) (final_dest h)) = ?k - 1"
        using self by (auto simp: h_def)
    qed
    have req1: "pkt_requester env p1 = Inr requester" using src(2) p1 pkt_requester_on_way(2) by metis
    have net1: "?net = g_type_to_static_network_map (pkt_type p1)" using same(2) by simp
    have d': "is_core env (final_dest h)" using d by (simp add: h_def)
    obtain x where f: "follow_hops env p1 h s1 = Some x" and x: "case x of Inl e \<Rightarrow> queue_failed env g e
      | Inr (p', h', s') \<Rightarrow> h' = \<lparr>final_dest = final_dest h, next_dest = final_dest h, hop_time = hop_time h +
          sum_list (map ?cost (route_nodes env g (?k - 1) (next_dest h) (final_dest h))) + (queue_delay p' - queue_delay p1)\<rparr> \<and>
        keeps env ?net g s1 s' \<and> (\<not> m_queue_model_enabled g \<longrightarrow> queue_delay p' = queue_delay p1)"
      using follow_hops_arrives [OF sys1 net1 d' nxt(1) req1 nxt(2)] unfolding cost1 by blast
    have send: "netSend env c p s = send_hops env c (pkt_time p) p1 [h] p1 s1"
      using count Inr r hs src(3) same(1) by (simp add: netSend_def)
    have bc: "final_dest h \<noteq> BROADCAST" by (rule core_not_broadcast [OF d'])
    show ?thesis
    proof (cases x)
      case (Inl e)
      then show ?thesis using send f x bc by (simp add: queue_failed_def)
    next
      case (Inr y)
      obtain p' h' s' where y: "y = (p', h', s')" by (cases y)
      have path: "hop_time h + sum_list (map ?cost (route_nodes env g (?k - 1) (next_dest h) (final_dest h))) + (queue_delay p' - queue_delay p1) =
          pkt_time p + sum_list (map ?cost (route_nodes env g ?k c ?d)) + (queue_delay p' - queue_delay p)"
        by (cases ?k) (simp_all add: h_def algebra_simps)
      let ?b = "p\<lparr>start_time := pkt_time p, queue_delay := queue_delay p1,
          pkt_time := pkt_time p + sum_list (map ?cost (route_nodes env g ?k c ?d)) + (queue_delay p' - queue_delay p)\<rparr>"
      have h': "h' = \<lparr>final_dest = ?d, next_dest = ?d, hop_time = pkt_time ?b\<rparr>" and tr': "net_transport s' = net_transport s"
        and q': "\<not> m_queue_model_enabled g \<longrightarrow> queue_delay p' = queue_delay p"
        using x Inr y path tr1 q1 by (simp_all add: keeps_def) (simp add: h_def)
      have "p1\<lparr>start_time := pkt_time p, pkt_time := pkt_time ?b, receiver := ?d\<rparr> = ?b"
        by (subst p1) simp
      then have "net_transport (deliver c (pkt_time p) p1 h' s') = (net_transport s)(?d := net_transport s ?d @ [?b])"
        using same(3) tr' by (simp add: deliver_def h' Let_def)
      moreover have "netSend env c p s = Some (Inr (p', deliver c (pkt_time p) p1 h' s'))" using send f Inr y bc by simp
      ultimately show ?thesis using q1 q' by auto
    qed
  qed
  show "stop env g c \<and> app_core env ?d \<and> \<not> m_wrap_around g \<longrightarrow> int ?k = computeDistance c ?d g"
    using route_hops_nonneg [OF ok, of c ?d]
    by (auto simp: way_def stop_def route_hops_def computeDistance_def line_hops_def goes_around_def split: prod.splits)
qed

section \<open>Receiving\<close>

text \<open>What is known after a part of the queue has been looked at.\<close>

fun earliest_in :: "net_env \<Rightarrow> NetMatch \<Rightarrow> NetPacket list \<Rightarrow> (nat \<times> NetPacket) option \<Rightarrow> bool" where
  "earliest_in env k ps None = (\<forall>q \<in> set ps. \<not> packet_matches env k q)"
| "earliest_in env k ps (Some (j, b)) = (j < length ps \<and> ps ! j = b \<and> packet_matches env k b \<and>
     (\<forall>q \<in> set ps. packet_matches env k q \<longrightarrow> pkt_time b \<le> pkt_time q) \<and> (\<forall>q \<in> set (take j ps). packet_matches env k q \<longrightarrow> pkt_time b < pkt_time q))"

lemma earliest_in_snoc:
  assumes "earliest_in env k ps best"
  shows "earliest_in env k (ps @ [p])
    (if packet_matches env k p \<and> (case best of None \<Rightarrow> True | Some (_, b) \<Rightarrow> pkt_time b > pkt_time p) then Some (length ps, p) else best)"
proof (cases best)
  case None
  then show ?thesis using assms by auto
next
  case (Some jb)
  obtain j b where b: "jb = (j, b)" by fastforce
  then show ?thesis using assms Some by (auto simp: nth_append not_less)
qed

lemma find_earliest_in: "earliest_in env k pre best \<Longrightarrow> earliest_in env k (pre @ ps) (find_earliest env k (length pre) ps best)"
proof (induction ps arbitrary: pre best)
  case (Cons p ps)
  show ?case using Cons.IH [OF earliest_in_snoc [OF Cons.prems, of p]] by simp
qed simp

lemma recv_match_none: "recv_match env c now k s = None \<longleftrightarrow> (\<forall>q \<in> set (nn_queue (net_nodes s c)). \<not> packet_matches env k q)"
proof (cases "find_earliest env k 0 (nn_queue (net_nodes s c)) None")
  case None
  then show ?thesis using find_earliest_in [of env k "[]" None "nn_queue (net_nodes s c)"] by (simp add: recv_match_def)
next
  case (Some jb)
  obtain j b where jb: "jb = (j, b)" by fastforce
  have "earliest_in env k (nn_queue (net_nodes s c)) (Some (j, b))"
    using find_earliest_in [of env k "[]" None "nn_queue (net_nodes s c)"] Some jb by simp
  then show ?thesis using Some jb nth_mem by (fastforce simp: recv_match_def)
qed

text \<open>The packet is the earliest that matches, and it is taken out of the queue.\<close>

definition takes_earliest :: "net_env \<Rightarrow> core_id_t \<Rightarrow> NetMatch \<Rightarrow> NetSystem \<Rightarrow> NetPacket \<Rightarrow> NetSystem \<Rightarrow> bool" where
  "takes_earliest env c k s p s' \<longleftrightarrow>
     (\<exists>xs ys. nn_queue (net_nodes s c) = xs @ p # ys \<and> nn_queue (net_nodes s' c) = xs @ ys \<and> packet_matches env k p \<and>
       (\<forall>q \<in> set xs. packet_matches env k q \<longrightarrow> pkt_time p < pkt_time q) \<and> (\<forall>q \<in> set ys. packet_matches env k q \<longrightarrow> pkt_time p \<le> pkt_time q))"

lemma recv_match_earliest:
  assumes "recv_match env c now k s = Some (Inr (p, penalty, s'))"
  shows "takes_earliest env c k s p s'"
proof (cases "find_earliest env k 0 (nn_queue (net_nodes s c)) None")
  case None
  then show ?thesis using assms by (simp add: recv_match_def)
next
  case (Some jb)
  let ?q = "nn_queue (net_nodes s c)"
  obtain j b where jb: "jb = (j, b)" by fastforce
  have e: "earliest_in env k ?q (Some (j, b))" using find_earliest_in [of env k "[]" None ?q] Some jb by simp
  then have j: "j < length ?q" "?q ! j = b" by simp_all
  have split: "?q = take j ?q @ b # drop (Suc j) ?q" using id_take_nth_drop [OF j(1)] j(2) by simp
  have s': "p = b" "nn_queue (net_nodes s' c) = take j ?q @ drop (Suc j) ?q"
    using assms Some jb by (auto simp: recv_match_def bindE_Inr_iff change_node_def Let_def)
  have later: "\<forall>q \<in> set (drop (Suc j) ?q). packet_matches env k q \<longrightarrow> pkt_time b \<le> pkt_time q" using e by (auto dest: in_set_dropD)
  show ?thesis unfolding takes_earliest_def
    by (rule exI [of _ "take j ?q"], rule exI [of _ "drop (Suc j) ?q"]) (use s' e split later in simp)
qed

text \<open>The loop takes the packet in the first of the states it sees in which one matches, or gives up.\<close>

lemma recv_loop_result:
  assumes "recv_loop env c now k timeout_ns retry wakes s = Some (Inr (p, penalty, s'))"
  shows "(\<exists>us u vs. s # wakes = us @ u # vs \<and> (\<forall>v \<in> set us. recv_match env c now k v = None) \<and> recv_match env c now k u = Some (Inr (p, penalty, s')) \<and>
      (\<not> retry \<longrightarrow> us = []) \<and> (timeout_ns \<noteq> 0 \<longrightarrow> length us \<le> 1)) \<or>
    p = no_match_packet \<and> recv_match env c now k s = None \<and> (if retry then timeout_ns \<noteq> 0 \<and>
      (\<exists>u vs. wakes = u # vs \<and> s' = u \<and> recv_match env c now k u = None) else s' = s)"
  using assms
proof (induction env c now k timeout_ns retry wakes s rule: recv_loop.induct)
  case (1 env c now k timeout_ns retry wakes s)
  show ?case
  proof (cases "recv_match env c now k s")
    case (Some r)
    then have "recv_match env c now k s = Some (Inr (p, penalty, s'))" using 1(2) by (simp add: recv_loop.simps)
    then show ?thesis by (intro disjI1 exI [of _ "[]"] exI [of _ s] exI [of _ wakes]) simp
  next
    case none: None
    show ?thesis
    proof (cases retry)
      case False
      then show ?thesis using 1(2) none by (simp add: recv_loop.simps)
    next
      case True
      then obtain u vs where w: "wakes = u # vs" using 1(2) none by (cases wakes) (simp_all add: recv_loop.simps)
      have run: "recv_loop env c now k timeout_ns (timeout_ns = 0) vs u = Some (Inr (p, penalty, s'))"
        using 1(2) none True w by (subst (asm) recv_loop.simps) simp
      from 1(1) [OF none True w run] show ?thesis
      proof (elim disjE exE conjE)
        fix us u' vs'
        assume "u # vs = us @ u' # vs'" "\<forall>v \<in> set us. recv_match env c now k v = None" "recv_match env c now k u' = Some (Inr (p, penalty, s'))"
          "timeout_ns \<noteq> 0 \<longrightarrow> us = []"
        then show ?thesis using none True w by (intro disjI1 exI [of _ "s # us"] exI [of _ u'] exI [of _ vs']) simp
      qed (use none True w in \<open>auto split: if_splits\<close>)
    qed
  qed
qed

text \<open>
  C32. A core that receives gets the earliest of the packets that match, the first of them when several have the same time; the other packets
  stay in the queue in their order. It goes to sleep exactly when no packet matches, and takes its packet from the first state it wakes up in where
  one matches; with a time-out it looks a second time only, and then returns the packet that says that there is none.
\<close>

theorem netRecv_earliest:
  "(netRecv env c now k timeout_ns [] s = None \<longleftrightarrow> (\<forall>q \<in> set (nn_queue (net_nodes s c)). \<not> packet_matches env k q)) \<and>
   (\<forall>wakes p penalty s'. netRecv env c now k timeout_ns wakes s = Some (Inr (p, penalty, s')) \<longrightarrow>
     (\<exists>us u vs xs ys. s # wakes = us @ u # vs \<and> (timeout_ns \<noteq> 0 \<longrightarrow> length us \<le> 1) \<and>
       (\<forall>v \<in> set us. \<forall>q \<in> set (nn_queue (net_nodes v c)). \<not> packet_matches env k q) \<and>
       nn_queue (net_nodes u c) = xs @ p # ys \<and> nn_queue (net_nodes s' c) = xs @ ys \<and> packet_matches env k p \<and>
       (\<forall>q \<in> set xs. packet_matches env k q \<longrightarrow> pkt_time p < pkt_time q) \<and> (\<forall>q \<in> set ys. packet_matches env k q \<longrightarrow> pkt_time p \<le> pkt_time q)) \<or>
     timeout_ns \<noteq> 0 \<and> p = no_match_packet \<and> wakes \<noteq> [] \<and> s' = hd wakes \<and>
       (\<forall>v \<in> {s, hd wakes}. \<forall>q \<in> set (nn_queue (net_nodes v c)). \<not> packet_matches env k q))"
proof (intro conjI allI impI)
  show "netRecv env c now k timeout_ns [] s = None \<longleftrightarrow> (\<forall>q \<in> set (nn_queue (net_nodes s c)). \<not> packet_matches env k q)"
    unfolding recv_match_none [where now = now, symmetric] by (simp add: netRecv_def recv_loop.simps split: option.splits)
next
  fix wakes p penalty s'
  assume "netRecv env c now k timeout_ns wakes s = Some (Inr (p, penalty, s'))"
  from recv_loop_result [OF this [unfolded netRecv_def]]
  show "(\<exists>us u vs xs ys. s # wakes = us @ u # vs \<and> (timeout_ns \<noteq> 0 \<longrightarrow> length us \<le> 1) \<and>
       (\<forall>v \<in> set us. \<forall>q \<in> set (nn_queue (net_nodes v c)). \<not> packet_matches env k q) \<and>
       nn_queue (net_nodes u c) = xs @ p # ys \<and> nn_queue (net_nodes s' c) = xs @ ys \<and> packet_matches env k p \<and>
       (\<forall>q \<in> set xs. packet_matches env k q \<longrightarrow> pkt_time p < pkt_time q) \<and> (\<forall>q \<in> set ys. packet_matches env k q \<longrightarrow> pkt_time p \<le> pkt_time q)) \<or>
     timeout_ns \<noteq> 0 \<and> p = no_match_packet \<and> wakes \<noteq> [] \<and> s' = hd wakes \<and>
       (\<forall>v \<in> {s, hd wakes}. \<forall>q \<in> set (nn_queue (net_nodes v c)). \<not> packet_matches env k q)"
  proof (elim disjE exE conjE)
    fix us u vs
    assume "s # wakes = us @ u # vs" "\<forall>v \<in> set us. recv_match env c now k v = None" "recv_match env c now k u = Some (Inr (p, penalty, s'))"
      "timeout_ns \<noteq> 0 \<longrightarrow> length us \<le> 1"
    then show ?thesis using recv_match_earliest [of env c now k u p penalty s'] unfolding recv_match_none takes_earliest_def by blast
  qed (auto simp: recv_match_none split: if_splits)
qed

section \<open>Memory controllers\<close>

lemma mult_add_inj:
  fixes w :: int
  assumes "y * w + x = y' * w + x'" and "0 \<le> x" "x < w" "0 \<le> x'" "x' < w"
  shows "y = y' \<and> x = x'"
proof -
  have at: "(b * w + a) div w = b" if "0 \<le> a" "a < w" for a b using that by simp
  have "y = y'" using at [of x y] at [of x' y'] assms by simp
  then show ?thesis using assms(1) by simp
qed

definition edge :: "int \<Rightarrow> int \<Rightarrow> (int \<times> int) list" where
  "edge w h = map (Pair 0) [0..w - 1] @ map (\<lambda>i. (i, w - 1)) [1..h - 2] @ map (Pair (h - 1)) (rev [0..w - 1]) @ map (\<lambda>i. (i, 0)) (rev [1..h - 2])"

lemma perimeter_edge: "dims > 1 \<and> h > 1 \<Longrightarrow> perimeter dims w h = map (\<lambda>(y, x). y * w + x) (edge w h)"
  by (simp add: perimeter_def edge_def comp_def map_idI algebra_simps)

lemma edge_distinct: "1 < w \<Longrightarrow> 1 < h \<Longrightarrow> distinct (edge w h)"
  by (auto simp: edge_def distinct_map inj_on_def)

lemma edge_range: "(y, x) \<in> set (edge w h) \<Longrightarrow> 1 < w \<Longrightarrow> 1 < h \<Longrightarrow> 0 \<le> y \<and> y < h \<and> 0 \<le> x \<and> x < w"
  by (auto simp: edge_def)

lemma perimeter_distinct:
  assumes "1 < w \<or> \<not> (dims > 1 \<and> h > 1)" and "0 < h"
  shows "distinct (perimeter dims w h)" and "\<forall>p \<in> set (perimeter dims w h). 0 \<le> p \<and> p < h * w"
proof -
  have both: "distinct (perimeter dims w h) \<and> (\<forall>p \<in> set (perimeter dims w h). 0 \<le> p \<and> p < h * w)"
  proof (cases "dims > 1 \<and> h > 1")
    case True
    then have wh: "1 < w" "1 < h" using assms by auto
    have "inj_on (\<lambda>(y, x). y * w + x) (set (edge w h))"
    proof (rule inj_onI)
      fix p q assume pq: "p \<in> set (edge w h)" "q \<in> set (edge w h)" and eq: "(case p of (y, x) \<Rightarrow> y * w + x) = (case q of (y, x) \<Rightarrow> y * w + x)"
      obtain y x y' x' where p: "p = (y, x)" and q: "q = (y', x')" by (metis prod.exhaust)
      have "y * w + x = y' * w + x'" using eq p q by simp
      then have "y = y' \<and> x = x'" by (rule mult_add_inj) (use edge_range [OF _ wh] pq p q in auto)
      then show "p = q" using p q by simp
    qed
    moreover have "0 \<le> y * w + x \<and> y * w + x < h * w" if "(y, x) \<in> set (edge w h)" for y x
    proof -
      have r: "0 \<le> y" "y < h" "0 \<le> x" "x < w" using edge_range [OF that wh] by auto
      then have "y * w + x < (y + 1) * w" by (simp add: algebra_simps)
      also have "\<dots> \<le> h * w" using r by (intro mult_right_mono) linarith+
      finally show ?thesis using r by simp
    qed
    ultimately show ?thesis using edge_distinct [OF wh] by (auto simp: perimeter_edge [OF True] distinct_map)
  next
    case False
    have "p < h * w" if "0 \<le> p" "p < w" for p :: int
    proof -
      have "1 * w \<le> h * w" using assms(2) that by (intro mult_right_mono) linarith+
      then show ?thesis using that by linarith
    qed
    moreover have "perimeter dims w h = [0..w - 1]" using False by (auto simp: perimeter_def)
    ultimately show ?thesis by auto
  qed
  then show "distinct (perimeter dims w h)" and "\<forall>p \<in> set (perimeter dims w h). 0 \<le> p \<and> p < h * w" by simp_all
qed

lemma spaced_inj:
  fixes n :: int
  assumes "0 < k" "0 < n" and "k \<le> n"
  shows "inj_on (\<lambda>i. (i * (n div k) + b) mod n) {0..k - 1}"
proof (rule inj_onI)
  fix i j assume ij: "i \<in> {0..k - 1}" "j \<in> {0..k - 1}" and eq: "(i * (n div k) + b) mod n = (j * (n div k) + b) mod n"
  let ?s = "n div k"
  have s: "0 < ?s" using assms by (simp add: pos_imp_zdiv_pos_iff)
  have kn: "k * ?s \<le> n" using assms(1) pos_mod_sign [of k n] by (simp flip: minus_mod_eq_mult_div)
  have bound: "0 \<le> x * ?s \<and> x * ?s < n" if "x \<in> {0..k - 1}" for x
  proof -
    have "x * ?s < k * ?s" using that s by (intro mult_strict_right_mono) auto
    moreover have "0 \<le> x * ?s" using that s by simp
    ultimately show ?thesis using kn by linarith
  qed
  have "n dvd (i * ?s + b) - (j * ?s + b)" using eq by (simp add: mod_eq_dvd_iff)
  then have d: "n dvd i * ?s - j * ?s" by simp
  have "\<bar>i * ?s - j * ?s\<bar> < n" using bound [OF ij(1)] bound [OF ij(2)] by linarith
  then have "i * ?s - j * ?s = 0" using d assms(2) dvd_imp_le_int [of "i * ?s - j * ?s" n] by force
  then show "i = j" using s by simp
qed

text \<open>
  C33. In a mesh that is at least two nodes wide, and in a line, the memory controllers are attached to different nodes, and all of
  these are nodes of the network.
\<close>

theorem memory_controllers_distinct:
  assumes run: "mesh_computeMemoryControllerPositions application concentration dims sz num = Inr (b, cs)"
    and dims: "computeMeshDimensions application concentration dims sz = Inr (w, h)" and "0 < concentration" "0 < h" "0 < num"
    and wide: "1 < w \<or> \<not> (dims > 1 \<and> h > 1)"
  shows "distinct cs \<and> int (length cs) = num \<and> (\<forall>c \<in> set cs. 0 \<le> c \<and> c < application \<and> c smod concentration = 0)"
proof -
  let ?ps = "perimeter dims w h"
  let ?n = "int (length ?ps)"
  let ?f = "\<lambda>i. (i * (?n div num) + w sdiv 2) mod ?n"
  have n: "num \<le> ?n" "cs = map (\<lambda>i. concentration * ?ps ! nat ((i * (?n sdiv num) + w sdiv 2) smod ?n)) [0..num - 1]"
    using run dims by (auto simp: mesh_computeMemoryControllerPositions_def bindE_Inr_iff Let_def)
  have pos: "0 < ?n" using n(1) assms(5) by linarith
  have "?ps \<noteq> []" using pos by auto
  then have "0 \<le> w" by (cases "w < 0") (use wide in \<open>auto simp: perimeter_def\<close>)
  then have idx: "(i * (?n sdiv num) + w sdiv 2) smod ?n = ?f i" if "i \<in> {0..num - 1}" for i
    using that pos assms(5) by (simp add: sdiv_nonneg smod_nonneg pos_imp_zdiv_nonneg_iff)
  have cs: "cs = map (\<lambda>i. concentration * ?ps ! nat (?f i)) [0..num - 1]" unfolding n(2) using idx by (intro map_cong) auto
  have lt: "nat (?f i) < length ?ps" for i using pos_mod_bound [OF pos, of "i * (?n div num) + w sdiv 2"] pos_mod_sign [OF pos, of "i * (?n div num) + w sdiv 2"] by linarith
  note per = perimeter_distinct [OF wide assms(4)]
  have inj: "inj_on (\<lambda>i. concentration * ?ps ! nat (?f i)) (set [0..num - 1])"
  proof (rule inj_onI)
    fix i j assume ij: "i \<in> set [0..num - 1]" "j \<in> set [0..num - 1]" and "concentration * ?ps ! nat (?f i) = concentration * ?ps ! nat (?f j)"
    then have "?ps ! nat (?f i) = ?ps ! nat (?f j)" using assms(3) by simp
    then have "nat (?f i) = nat (?f j)" using nth_eq_iff_index_eq [OF per(1) lt lt] by simp
    then have "?f i = ?f j" using pos_mod_sign [OF pos] by (metis nat_0_le)
    then show "i = j" using spaced_inj [OF assms(5) pos n(1), of "w sdiv 2"] ij unfolding inj_on_def by auto
  qed
  have app: "application = concentration * h * w" using dims by (auto simp: computeMeshDimensions_def bindE_Inr_iff)
  have "0 \<le> c \<and> c < application \<and> c smod concentration = 0" if "c \<in> set cs" for c
  proof -
    have "c \<in> (\<lambda>i. concentration * ?ps ! nat (?f i)) ` set [0..num - 1]" using that unfolding cs by (simp only: set_map)
    then obtain i where c: "c = concentration * ?ps ! nat (?f i)" by (rule imageE)
    have p: "0 \<le> ?ps ! nat (?f i)" "?ps ! nat (?f i) < h * w" using per(2) nth_mem [OF lt [of i]] by auto
    then have "concentration * ?ps ! nat (?f i) < concentration * (h * w)" using assms(3) by simp
    then show ?thesis using c p app assms(3) by (simp add: smod_nonneg mult.assoc)
  qed
  moreover have "int (length cs) = num" using assms(5) by (simp only: cs length_map length_upto)
  moreover have "distinct cs" unfolding cs distinct_map using inj by simp
  ultimately show ?thesis by blast
qed

end
