(* ===== verification/LS_Broadcast.thy ===== *)
theory LS_Broadcast
  imports LS_Route
begin

text \<open>
  Broadcasts in a mesh with the broadcast tree: what a stop forwards, what the receivers pull from their transports, and that the packets are
  never used up.
\<close>

section \<open>What a stop forwards\<close>

lemma stop_at:
  assumes "mesh_ok env g" and "- 1 \<le> x" "- 1 \<le> y"
  shows "stop env g (computeCoreId x y g)"
  using core_at(1,2) [OF assms] by (simp add: stop_def)

text \<open>A branch of the tree ends at a stop, and goes on there unless it is the one to the core itself; there is a branch that goes on.\<close>

lemma tree_hops_branches:
  assumes ok: "mesh_ok env g" and node: "mesh_node env g c m" and st: "stop env g c"
  shows "\<forall>(direction, final, n)\<in>set (tree_hops src m). stop env g n \<and> (final = BROADCAST \<or> final = c \<and> n = c)"
    and "\<exists>(direction, final, n)\<in>set (tree_hops src m). final = BROADCAST"
proof -
  obtain cx cy where p: "computePosition c g = (cx, cy)" by fastforce
  have "0 \<le> cx" "0 \<le> cy" using position_range [OF ok, of c] st p by (simp_all add: stop_def)
  then have at: "stop env g (computeCoreId cx (cy + 1) g)" "stop env g (computeCoreId cx (cy - 1) g)"
    "stop env g (computeCoreId (cx + 1) cy g)" "stop env g (computeCoreId (cx - 1) cy g)" by (simp_all add: stop_at [OF ok])
  obtain sx sy where s: "computePosition src g = (sx, sy)" by fastforce
  have hb: "hb_core_id m = c" using node by (simp add: mesh_node_def)
  have tree: "tree_hops src m =
      (if cy \<ge> sy then [(UP, BROADCAST, computeCoreId cx (cy + 1) g)] else []) @
      (if cy \<le> sy then [(DOWN, BROADCAST, computeCoreId cx (cy - 1) g)] else []) @
      (if cy = sy
       then (if cx \<ge> sx then [(RIGHT, BROADCAST, computeCoreId (cx + 1) cy g)] else []) @
            (if cx \<le> sx then [(LEFT, BROADCAST, computeCoreId (cx - 1) cy g)] else []) @ (if cx = sx then [(SELF, c, c)] else [])
       else [])"
    by (simp only: tree_hops_def same_geometry [OF node] hb p s prod.case Let_def)
  show "\<forall>(direction, final, n)\<in>set (tree_hops src m). stop env g n \<and> (final = BROADCAST \<or> final = c \<and> n = c)"
    using at st unfolding tree by (auto split: if_splits)
  show "\<exists>(direction, final, n)\<in>set (tree_hops src m). final = BROADCAST"
    unfolding tree by (cases "cy \<ge> sy") auto
qed

lemma addHops_node:
  assumes st: "stop env g c" and bw: "m_bw_in_bits_per_cycle (m_link_bandwidth g) \<noteq> 0" and "mesh_node env g c m"
  shows "case addHops env ds t len requester m of
      Inl e \<Rightarrow> queue_failed env g e
    | Inr (hs, m') \<Rightarrow> map (\<lambda>h. (final_dest h, next_dest h)) hs = map snd ds \<and> keeps_node env g c m m'"
  using assms(3)
proof (induction ds arbitrary: m)
  case Nil
  then show ?case by (simp add: keeps_node_def)
next
  case (Cons d ds)
  obtain direction final n where d: "d = (direction, final, n)" by (cases d)
  note hop = addHop_node [OF Cons.prems st bw, where direction = direction and final = final and n = n and t = t and len = len and requester = requester]
  show ?case
  proof (cases "addHop env direction final n t len requester m")
    case (Inl e)
    then show ?thesis using hop by (simp add: d)
  next
    case (Inr x)
    obtain h delay m1 where x: "x = (h, delay, m1)" by (cases x)
    have h: "final_dest h = final" "next_dest h = n" "keeps_node env g c m m1" using hop Inr x by simp_all
    then have node1: "mesh_node env g c m1" by (simp add: keeps_node_def)
    show ?thesis
    proof (cases "addHops env ds t len requester m1")
      case (Inl e)
      then show ?thesis using Cons.IH [OF node1] Inr x by (simp add: d)
    next
      case (Inr y)
      obtain hs m2 where y: "y = (hs, m2)" by fastforce
      then show ?thesis using Cons.IH [OF node1] \<open>addHop env direction final n t len requester m = Inr x\<close> x h Inr
        by (simp add: d keeps_node_def)
    qed
  qed
qed

text \<open>The hops of a broadcast at a stop.\<close>

definition tree_branches :: "net_env \<Rightarrow> NetworkModelEMeshHopByHop \<Rightarrow> core_id_t \<Rightarrow> Hop list \<Rightarrow> bool" where
  "tree_branches env g c hs \<longleftrightarrow> (\<forall>h\<in>set hs. stop env g (next_dest h) \<and> (final_dest h = BROADCAST \<or> final_dest h = c \<and> next_dest h = c)) \<and>
     (\<exists>h\<in>set hs. final_dest h = BROADCAST)"

lemma route_broadcast_node:
  assumes ok: "mesh_ok env g" and node: "mesh_node env g c m" and st: "stop env g c" and bw: "m_bw_in_bits_per_cycle (m_link_bandwidth g) \<noteq> 0"
    and tree: "m_broadcast_tree_enabled g"
  shows "case route_broadcast env p requester m of
      Inl e \<Rightarrow> queue_failed env g e
    | Inr (hs, m') \<Rightarrow> tree_branches env g c hs \<and> keeps_node env g c m m'"
proof -
  let ?len = "net_getModeledLength env p"
  let ?inject = "if sender p = hb_core_id m then computeInjectionPortQueueDelay env (receiver p) (pkt_time p) ?len m else Inr (0, m)"
  have inj: "case ?inject of Inl e \<Rightarrow> queue_failed env g e | Inr (delay, m') \<Rightarrow> keeps_node env g c m m'"
    using injection_delay [OF node st bw, of "receiver p" "pkt_time p" ?len] node by (auto simp: keeps_node_def split: sum.splits)
  have run: "route_broadcast env p requester m = bindE ?inject (\<lambda>(delay, m). addHops env (tree_hops (sender p) m) (pkt_time p + delay) ?len requester m)"
    using node st tree by (simp add: route_broadcast_def mesh_node_def Let_def)
  show ?thesis
  proof (cases ?inject)
    case (Inl e)
    then have "route_broadcast env p requester m = Inl e" unfolding run by (simp add: bindE_def)
    then show ?thesis using inj Inl by simp
  next
    case (Inr r)
    obtain delay m1 where r: "r = (delay, m1)" by fastforce
    have k1: "keeps_node env g c m m1" using inj Inr r by simp
    then have node1: "mesh_node env g c m1" by (simp add: keeps_node_def)
    let ?ds = "tree_hops (sender p) m1"
    have run1: "route_broadcast env p requester m = addHops env ?ds (pkt_time p + delay) ?len requester m1" unfolding run Inr r by simp
    note add = addHops_node [OF st bw node1, where ds = ?ds and t = "pkt_time p + delay" and len = ?len and requester = requester]
    show ?thesis
    proof (cases "addHops env ?ds (pkt_time p + delay) ?len requester m1")
      case (Inl e)
      then show ?thesis using run1 add by simp
    next
      case (Inr x)
      obtain hs m2 where x: "x = (hs, m2)" by fastforce
      have eq: "map (\<lambda>h. (final_dest h, next_dest h)) hs = map snd ?ds" and k2: "keeps_node env g c m1 m2" using add Inr x by simp_all
      have "set (map (\<lambda>h. (final_dest h, next_dest h)) hs) = snd ` set ?ds" unfolding eq by simp
      then have same: "(\<lambda>h. (final_dest h, next_dest h)) ` set hs = snd ` set ?ds" by simp
      have "\<forall>(f, n)\<in>(\<lambda>h. (final_dest h, next_dest h)) ` set hs. stop env g n \<and> (f = BROADCAST \<or> f = c \<and> n = c)"
        "\<exists>(f, n)\<in>(\<lambda>h. (final_dest h, next_dest h)) ` set hs. f = BROADCAST"
        unfolding same using tree_hops_branches [OF ok node1 st, of "sender p"] by force+
      then have "tree_branches env g c hs" by (auto simp: tree_branches_def)
      then show ?thesis using run1 Inr x k1 k2 by (simp add: keeps_node_def)
    qed
  qed
qed

lemma route_broadcast_step:
  assumes sys: "mesh_system env net g s" and net: "net = g_type_to_static_network_map (pkt_type p)" and st: "stop env g c"
    and tree: "m_broadcast_tree_enabled g" and p: "receiver p = BROADCAST" "pkt_requester env p = Inr requester"
  shows "case routePacket env c p s of
      Inl e \<Rightarrow> queue_failed env g e
    | Inr (p', hs, s') \<Rightarrow> p' = p \<and> tree_branches env g c hs \<and> keeps env net g s s'"
proof -
  have ok: "mesh_ok env g" and bw: "m_bw_in_bits_per_cycle (m_link_bandwidth g) \<noteq> 0" using sys by (simp_all add: mesh_system_def)
  have c: "is_core env c" using st app_is_core [OF ok] by (simp add: stop_def)
  obtain m where m: "nn_models (net_nodes s c) net = ModelHopByHop m" and node: "mesh_node env g c m"
    using sys c unfolding mesh_system_def by blast
  let ?m = "count_sent env p m"
  have node': "mesh_node env g c ?m" using node by simp
  have route: "routePacket env c p s = bindE (route_broadcast env p requester ?m) (\<lambda>(hs, m). Inr (p, hs, put_model c net (ModelHopByHop m) s))"
    using m p by (simp add: routePacket_def net Let_def hb_routePacket_def bindE_def split: sum.splits)
  note step = route_broadcast_node [OF ok node' st bw tree, of p requester]
  show ?thesis
  proof (cases "route_broadcast env p requester ?m")
    case (Inl e)
    then show ?thesis using step route by simp
  next
    case (Inr r)
    obtain hs m' where r: "r = (hs, m')" by fastforce
    have "keeps_node env g c m m'" using step Inr r by (simp add: keeps_node_def count_sent_def)
    then have "keeps env net g s (put_model c net (ModelHopByHop m') s)" by (rule keeps_put [OF sys m])
    then show ?thesis using step route Inr r by simp
  qed
qed

section \<open>Sending a broadcast\<close>

text \<open>The packet that is put into the transport for a hop.\<close>

definition sent_copy :: "core_id_t \<Rightarrow> SubsecondTime \<Rightarrow> NetPacket \<Rightarrow> Hop \<Rightarrow> NetPacket" where
  "sent_copy c t b h = b\<lparr>start_time := (if c = sender b then t else start_time b), pkt_time := hop_time h, receiver := final_dest h\<rparr>"

lemma mesh_system_transport [simp]: "mesh_system env net g (s\<lparr>net_transport := x\<rparr>) = mesh_system env net g s"
  by (simp add: mesh_system_def)

lemma deliver_eq: "deliver c t b h s =
    s\<lparr>net_transport := (net_transport s)(next_dest h := net_transport s (next_dest h) @ [sent_copy c t b h])\<rparr>"
  by (simp add: deliver_def sent_copy_def Let_def)

lemma fold_deliver:
  "mesh_system env net g (fold (deliver c t b) hs s) = mesh_system env net g s"
  "q \<in> set (net_transport (fold (deliver c t b) hs s) x) \<longleftrightarrow>
     q \<in> set (net_transport s x) \<or> (\<exists>h\<in>set hs. next_dest h = x \<and> q = sent_copy c t b h)"
  by (induction hs arbitrary: s) (auto simp: deliver_eq)

lemma send_hops_tree:
  assumes "tree_branches env g c hs0" and "set hs \<subseteq> set hs0"
  shows "send_hops env c t b hs p s = Some (Inr (p, fold (deliver c t b) hs s))"
  using assms(2)
proof (induction hs arbitrary: s)
  case (Cons h hs)
  then have h: "final_dest h = BROADCAST \<or> final_dest h = c \<and> next_dest h = c" using assms(1) by (auto simp: tree_branches_def)
  have "(if final_dest h \<noteq> BROADCAST then follow_hops env p h s else Some (Inr (p, h, s))) = Some (Inr (p, h, s))"
    using h by (cases "final_dest h = BROADCAST") (simp_all add: follow_hops.simps)
  then show ?case using Cons by (simp only: send_hops.simps) simp
qed simp

lemma netSend_tree:
  assumes sys: "mesh_system env net g s" and net: "net = g_type_to_static_network_map (pkt_type p)" and st: "stop env g c"
    and tree: "m_broadcast_tree_enabled g" and p: "receiver p = BROADCAST" "pkt_requester env p = Inr requester" "bufferSize env p \<ge> packet_size env"
  shows "case netSend env c p s of
      None \<Rightarrow> False
    | Some (Inl e) \<Rightarrow> queue_failed env g e
    | Some (Inr (p', s')) \<Rightarrow> p' = p \<and> mesh_system env net g s' \<and> (\<exists>hs t. tree_branches env g c hs \<and>
        (\<forall>x q. q \<in> set (net_transport s' x) \<longleftrightarrow> q \<in> set (net_transport s x) \<or> (\<exists>h\<in>set hs. next_dest h = x \<and> q = sent_copy c t p h)))"
proof -
  have c: "is_core env c" using st sys app_is_core [of env g c] by (simp add: stop_def mesh_system_def)
  obtain s0 where count: "count_packet env c p s = Inr s0" and k0: "keeps env net g s s0" using keeps_count [OF sys c _ net] p(1) by blast
  have sys0: "mesh_system env net g s0" and tr0: "net_transport s0 = net_transport s" using k0 by (simp_all add: keeps_def)
  note step = route_broadcast_step [OF sys0 net st tree p(1,2)]
  show ?thesis
  proof (cases "routePacket env c p s0")
    case (Inl e)
    then show ?thesis using step count by (simp add: netSend_def)
  next
    case (Inr r)
    obtain p1 hs s1 where r: "r = (p1, hs, s1)" by (cases r)
    have s1: "p1 = p" "tree_branches env g c hs" "mesh_system env net g s1" "net_transport s1 = net_transport s"
      using step Inr r tr0 by (auto simp: keeps_def)
    have "netSend env c p s = Some (Inr (p, fold (deliver c (pkt_time p) p) hs s1))"
      using count Inr r s1(1) p(3) send_hops_tree [OF s1(2) order_refl] by (simp add: netSend_def)
    then show ?thesis using s1 by (auto simp: fold_deliver)
  qed
qed

section \<open>Receiving\<close>

lemma ejection_delay:
  assumes "mesh_node env g c m" and "stop env g c" and "m_bw_in_bits_per_cycle (m_link_bandwidth g) \<noteq> 0"
  shows "case computeEjectionPortQueueDelay env t len m of Inl e \<Rightarrow> queue_failed env g e | Inr (delay, m') \<Rightarrow> keeps_node env g c m m'"
proof -
  obtain pt where pt: "computeProcessingTime env len m = Inr pt" by (rule processing_time [OF assms])
  show ?thesis using assms pt
    by (auto simp: computeEjectionPortQueueDelay_def mesh_node_def keeps_node_def queue_failed_def bindE_def split: sum.splits)
qed

lemma hb_process_node:
  assumes node: "mesh_node env g c m" and st: "stop env g c" and bw: "m_bw_in_bits_per_cycle (m_link_bandwidth g) \<noteq> 0"
    and req: "pkt_requester env p = Inr requester"
  shows "case hb_processReceivedPacket env p m of Inl e \<Rightarrow> queue_failed env g e | Inr (p', m') \<Rightarrow> keeps_node env g c m m'"
proof (cases "\<not> m_enabled m \<or> requester \<ge> application_cores env \<or> hb_core_id m \<ge> application_cores env")
  case True
  then have "hb_processReceivedPacket env p m = Inr (p, m)" using req by (simp add: hb_processReceivedPacket_def Let_def)
  then show ?thesis using node by (simp add: keeps_node_def)
next
  case on: False
  let ?len = "net_getModeledLength env p"
  obtain pt where pt: "computeProcessingTime env ?len m = Inr pt" by (rule processing_time [OF node st bw])
  note ej = ejection_delay [OF node st bw, of "pkt_time p" ?len]
  show ?thesis
  proof (cases "computeEjectionPortQueueDelay env (pkt_time p) ?len m")
    case (Inl e)
    then show ?thesis using on req pt ej node by (auto simp: hb_processReceivedPacket_def Let_def keeps_node_def mesh_node_def)
  next
    case (Inr r)
    obtain delay m' where "r = (delay, m')" by fastforce
    then show ?thesis using on req pt ej Inr node by (auto simp: hb_processReceivedPacket_def Let_def keeps_node_def mesh_node_def)
  qed
qed

lemma accept_node:
  assumes sys: "mesh_system env net g s" and net: "net = g_type_to_static_network_map (pkt_type p)" and st: "stop env g c"
    and req: "pkt_requester env p = Inr requester"
  shows "case accept env c p s of
      Inl e \<Rightarrow> queue_failed env g e
    | Inr s' \<Rightarrow> mesh_system env net g s' \<and> net_transport s' = net_transport s"
proof -
  have ok: "mesh_ok env g" and bw: "m_bw_in_bits_per_cycle (m_link_bandwidth g) \<noteq> 0" using sys by (simp_all add: mesh_system_def)
  have c: "is_core env c" using st app_is_core [OF ok] by (simp add: stop_def)
  obtain m where m: "nn_models (net_nodes s c) net = ModelHopByHop m" and node: "mesh_node env g c m"
    using sys c unfolding mesh_system_def by blast
  have run: "processReceivedPacket env c p s = bindE (hb_processReceivedPacket env p m) (\<lambda>(p, m). Inr (p, put_model c net (ModelHopByHop m) s))"
    using m by (simp add: processReceivedPacket_def net Let_def)
  note step = hb_process_node [OF node st bw req]
  show ?thesis
  proof (cases "hb_processReceivedPacket env p m")
    case (Inl e)
    then show ?thesis using step run by (simp add: accept_def)
  next
    case (Inr r)
    obtain p' m' where r: "r = (p', m')" by fastforce
    have "keeps env net g s (put_model c net (ModelHopByHop m') s)" by (rule keeps_put [OF sys m]) (use step Inr r in simp)
    then have k: "mesh_system env net g (put_model c net (ModelHopByHop m') s)" "net_transport (put_model c net (ModelHopByHop m') s) = net_transport s"
      by (simp_all add: keeps_def)
    have called: "mesh_system env net g (u\<lparr>net_called := x\<rparr>) = mesh_system env net g u" for u x by (simp add: mesh_system_def)
    have queued: "mesh_system env net g (change_node c (\<lambda>n. n\<lparr>nn_queue := f n\<rparr>) u) = mesh_system env net g u" for u f
    proof -
      have "nn_models (net_nodes (change_node c (\<lambda>n. n\<lparr>nn_queue := f n\<rparr>) u) x) = nn_models (net_nodes u x)"
        "nn_matrix (net_nodes (change_node c (\<lambda>n. n\<lparr>nn_queue := f n\<rparr>) u) x) = nn_matrix (net_nodes u x)" for x
        by (simp_all add: change_node_def)
      then show ?thesis by (simp add: mesh_system_def)
    qed
    show ?thesis using run Inr r k by (simp add: accept_def called queued) (simp add: change_node_def)
  qed
qed

section \<open>The packets of a broadcast\<close>

text \<open>One turn of the loop of \<^verbatim>\<open>netPullFromTransport\<close> at some core.\<close>

inductive pull_step :: "net_env \<Rightarrow> NetSystem \<Rightarrow> NetSystem \<Rightarrow> bool" for env where
  Pull: "net_transport s c = q # qs \<Longrightarrow> pull_packet env c q (s\<lparr>net_transport := (net_transport s)(c := qs)\<rparr>) = Some (Inr s') \<Longrightarrow> pull_step env s s'"

lemma netPullFromTransport_steps:
  "netPullFromTransport env c n s = Some (Inr s') \<Longrightarrow> (pull_step env)\<^sup>*\<^sup>* s s'"
proof (induction n arbitrary: s)
  case (Suc n)
  show ?case
  proof (cases "net_transport s c")
    case Nil
    then show ?thesis using Suc.prems by simp
  next
    case (Cons q qs)
    then obtain s1 where s1: "pull_packet env c q (s\<lparr>net_transport := (net_transport s)(c := qs)\<rparr>) = Some (Inr s1)"
      "netPullFromTransport env c n s1 = Some (Inr s')" using Suc.prems by (auto split: option.splits sum.splits)
    then show ?thesis using Suc.IH [OF s1(2)] pull_step.Pull [OF Cons s1(1)] by (meson converse_rtranclp_into_rtranclp)
  qed
qed simp

text \<open>A copy of a packet on its way, and a state in which only copies of one broadcast are on their way and one of them is to be forwarded.\<close>

definition copy_of :: "NetPacket \<Rightarrow> NetPacket \<Rightarrow> bool" where
  "copy_of p q \<longleftrightarrow> pkt_type q = pkt_type p \<and> sender q = sender p \<and> pkt_length q = pkt_length p \<and>
     data_requester q = data_requester p \<and> data_length q = data_length p"

lemma copy_simps:
  assumes "copy_of p q"
  shows "pkt_requester env q = pkt_requester env p" "bufferSize env q = bufferSize env p" "copy_of p (sent_copy c t q h)"
  using assms by (simp_all add: copy_of_def pkt_requester_def bufferSize_def sent_copy_def)

definition spreading :: "net_env \<Rightarrow> EStaticNetwork \<Rightarrow> NetworkModelEMeshHopByHop \<Rightarrow> NetPacket \<Rightarrow> NetSystem \<Rightarrow> bool" where
  "spreading env net g p s \<longleftrightarrow> mesh_system env net g s \<and>
     (\<forall>c. \<forall>q\<in>set (net_transport s c). stop env g c \<and> copy_of p q \<and> (receiver q = BROADCAST \<or> receiver q = c)) \<and>
     (\<exists>c. \<exists>q\<in>set (net_transport s c). receiver q = BROADCAST)"

text \<open>Taking a packet out of a transport that only holds copies.\<close>

definition copies :: "net_env \<Rightarrow> NetworkModelEMeshHopByHop \<Rightarrow> NetPacket \<Rightarrow> NetSystem \<Rightarrow> bool" where
  "copies env g p s \<longleftrightarrow> (\<forall>c. \<forall>q\<in>set (net_transport s c). stop env g c \<and> copy_of p q \<and> (receiver q = BROADCAST \<or> receiver q = c))"

lemma copies_take: "copies env g p s \<Longrightarrow> net_transport s c = q # qs \<Longrightarrow> copies env g p (s\<lparr>net_transport := (net_transport s)(c := qs)\<rparr>)"
  by (auto simp: copies_def) (metis list.set_intros(2))+

lemma tree_spreads:
  assumes sys: "mesh_system env net g s'" and old: "copies env g p s" and q: "copy_of p q" and br: "tree_branches env g c hs"
    and tr: "\<forall>x r. r \<in> set (net_transport s' x) \<longleftrightarrow> r \<in> set (net_transport s x) \<or> (\<exists>h\<in>set hs. next_dest h = x \<and> r = sent_copy c t q h)"
  shows "spreading env net g p s'"
  unfolding spreading_def
proof (intro conjI allI ballI)
  fix x r assume "r \<in> set (net_transport s' x)"
  then consider "r \<in> set (net_transport s x)" | h where "h \<in> set hs" "next_dest h = x" "r = sent_copy c t q h" using tr by blast
  then have "stop env g x \<and> copy_of p r \<and> (receiver r = BROADCAST \<or> receiver r = x)"
  proof cases
    case 1
    then show ?thesis using old by (simp add: copies_def)
  next
    case 2
    then show ?thesis using br copy_simps(3) [OF q, of c t h] by (auto simp: tree_branches_def sent_copy_def)
  qed
  then show "stop env g x" "copy_of p r" "receiver r = BROADCAST \<or> receiver r = x" by simp_all
next
  obtain h where "h \<in> set hs" "final_dest h = BROADCAST" using br by (auto simp: tree_branches_def)
  then have "sent_copy c t q h \<in> set (net_transport s' (next_dest h))" "receiver (sent_copy c t q h) = BROADCAST"
    using tr by (auto simp: sent_copy_def)
  then show "\<exists>c. \<exists>q\<in>set (net_transport s' c). receiver q = BROADCAST" by blast
qed (rule sys)

lemma spreading_accept:
  assumes "spreading env net g p s" and "net = g_type_to_static_network_map (pkt_type q)" and "stop env g c" and "pkt_requester env q = Inr requester"
  shows "case accept env c q s of Inl e \<Rightarrow> queue_failed env g e | Inr s' \<Rightarrow> spreading env net g p s'"
proof (cases "accept env c q s")
  case (Inl e)
  then show ?thesis using accept_node [OF _ assms(2-4), where s = s] assms(1) by (simp add: spreading_def)
next
  case (Inr s')
  then have "mesh_system env net g s'" "net_transport s' = net_transport s"
    using accept_node [OF _ assms(2-4), where s = s] assms(1) by (simp_all add: spreading_def)
  then show ?thesis using assms(1) Inr by (simp add: spreading_def)
qed

lemma spreading_pull:
  assumes spread: "spreading env net g p s" and net: "net = g_type_to_static_network_map (pkt_type p)" and tree: "m_broadcast_tree_enabled g"
    and p: "is_core env (sender p)" "pkt_requester env p = Inr requester" "bufferSize env p \<ge> packet_size env"
    and head: "net_transport s c = q # qs"
  shows "case pull_packet env c q (s\<lparr>net_transport := (net_transport s)(c := qs)\<rparr>) of
      None \<Rightarrow> False | Some (Inl e) \<Rightarrow> queue_failed env g e | Some (Inr s') \<Rightarrow> spreading env net g p s'"
proof -
  let ?s = "s\<lparr>net_transport := (net_transport s)(c := qs)\<rparr>"
  have sys: "mesh_system env net g s" and cop: "copies env g p s" using spread by (simp_all add: spreading_def copies_def)
  have "q \<in> set (net_transport s c)" using head by simp
  then have st: "stop env g c" and q: "copy_of p q" and rq: "receiver q = BROADCAST \<or> receiver q = c" using cop unfolding copies_def by auto
  have netq: "net = g_type_to_static_network_map (pkt_type q)" and sq: "0 \<le> sender q \<and> sender q < total_cores env"
    using q net p(1) by (simp_all add: copy_of_def is_core_def)
  have req: "pkt_requester env q = Inr requester" and buf: "bufferSize env q \<ge> packet_size env" using copy_simps(1,2) [OF q] p by simp_all
  have sys1: "mesh_system env net g ?s" and cop1: "copies env g p ?s" using sys copies_take [OF cop head] by simp_all
  have c: "c \<noteq> BROADCAST" using st by (auto simp: stop_def app_core_def BROADCAST_def)
  show ?thesis
  proof (cases "receiver q = c")
    case True
    obtain c0 q0 where q0: "q0 \<in> set (net_transport s c0)" "receiver q0 = BROADCAST" using spread by (auto simp: spreading_def)
    then have "q0 \<in> set (net_transport ?s c0)" using head True c by (cases "c0 = c") auto
    then have spread1: "spreading env net g p ?s" using sys1 cop1 q0(2) unfolding spreading_def copies_def by blast
    have "pull_packet env c q ?s = Some (accept env c q ?s)" using sq True by (simp add: pull_packet_def)
    then show ?thesis using spreading_accept [OF spread1 netq st req] by simp
  next
    case False
    then have rb: "receiver q = BROADCAST" using rq by simp
    note send = netSend_tree [OF sys1 netq st tree rb req buf]
    show ?thesis
    proof (cases "netSend env c q ?s")
      case None
      then show ?thesis using send by simp
    next
      case (Some r)
      show ?thesis
      proof (cases r)
        case (Inl e)
        then show ?thesis using send Some sq False by (simp add: pull_packet_def)
      next
        case (Inr x)
        obtain q' s1 where x: "x = (q', s1)" by fastforce
        obtain hs t where s1: "q' = q" "mesh_system env net g s1" "tree_branches env g c hs"
          "\<forall>x r. r \<in> set (net_transport s1 x) \<longleftrightarrow> r \<in> set (net_transport ?s x) \<or> (\<exists>h\<in>set hs. next_dest h = x \<and> r = sent_copy c t q h)"
          using send Some Inr x by auto
        have spread1: "spreading env net g p s1" by (rule tree_spreads [OF s1(2) cop1 q s1(3,4)])
        have "pull_packet env c q ?s = Some (accept env c q s1)" using sq False Some Inr x s1(1) rb by (simp add: pull_packet_def)
        then show ?thesis using spreading_accept [OF spread1 netq st req] by simp
      qed
    qed
  qed
qed

text \<open>
  C34. With the broadcast tree enabled a broadcast never ends: \<^verbatim>\<open>computeCoreId\<close> wraps around, \<^verbatim>\<open>routePacket\<close> does not look for the edge of
  the mesh, and every stop that pulls the packet from its transport forwards it up or down its column. Let a stop of the network (the first core of
  its group; the broadcast of another core goes straight to all cores and ends) broadcast when no packet is under way. Then the
  call returns, and after every sequence of turns of the loop of \<^verbatim>\<open>netPullFromTransport\<close> at the cores, in whatever order, there is still a
  packet in a transport that is to be broadcast, and the next turn succeeds at every core that has a packet. With queue models the call
  or a turn may end with an error that a queue model reports.
\<close>

theorem broadcast_tree_never_ends:
  assumes sys: "mesh_system env (g_type_to_static_network_map ty) g s" and tree: "m_broadcast_tree_enabled g" and src: "stop env g c"
    and none: "\<forall>x. net_transport s x = []" and req: "ty = SHARED_MEM_1 \<longrightarrow> is_core env requester" and size: "packet_size env \<le> packet_size env + len"
  shows "case netBroadcast env c now ty len requester modeled s of
      None \<Rightarrow> False
    | Some (Inl e) \<Rightarrow> queue_failed env g e
    | Some (Inr (p, s0)) \<Rightarrow> (\<forall>s1. (pull_step env)\<^sup>*\<^sup>* s0 s1 \<longrightarrow>
        (\<exists>x. \<exists>q\<in>set (net_transport s1 x). receiver q = BROADCAST) \<and>
        (\<forall>x q qs. net_transport s1 x = q # qs \<longrightarrow>
           (case pull_packet env x q (s1\<lparr>net_transport := (net_transport s1)(x := qs)\<rparr>) of
              None \<Rightarrow> False | Some (Inl e) \<Rightarrow> queue_failed env g e | Some (Inr s2) \<Rightarrow> True)))"
proof -
  let ?net = "g_type_to_static_network_map ty"
  define p where "p = \<lparr>start_time = 0, pkt_time = now, queue_delay = 0, pkt_type = ty, sender = c, receiver = BROADCAST, pkt_length = len,
       data_requester = requester, data_length = modeled\<rparr>"
  have c: "is_core env c" using src sys app_is_core [of env g c] by (simp add: stop_def mesh_system_def)
  have net: "?net = g_type_to_static_network_map (pkt_type p)" and rb: "receiver p = BROADCAST" and sp: "is_core env (sender p)"
    and buf: "packet_size env \<le> bufferSize env p" using c size by (simp_all add: p_def bufferSize_def)
  obtain r where req: "pkt_requester env p = Inr r" using req c by (auto simp: pkt_requester_def p_def is_core_def)
  have send: "netBroadcast env c now ty len requester modeled s = netSend env c p s"
    by (simp add: netBroadcast_def netSend_to_def p_def)
  have step: "spreading env ?net g p s2" if "pull_step env s1 s2" "spreading env ?net g p s1" for s1 s2
    using that(1)
  proof cases
    case (Pull x q qs)
    then show ?thesis using spreading_pull [OF that(2) net tree sp req buf Pull(1)] by simp
  qed
  have reach: "spreading env ?net g p s1" if "(pull_step env)\<^sup>*\<^sup>* s0 s1" "spreading env ?net g p s0" for s0 s1
    using that by (induction rule: rtranclp_induct) (use step in blast)+
  have now: "(\<exists>x. \<exists>q\<in>set (net_transport s1 x). receiver q = BROADCAST) \<and>
      (\<forall>x q qs. net_transport s1 x = q # qs \<longrightarrow>
         (case pull_packet env x q (s1\<lparr>net_transport := (net_transport s1)(x := qs)\<rparr>) of
            None \<Rightarrow> False | Some (Inl e) \<Rightarrow> queue_failed env g e | Some (Inr s2) \<Rightarrow> True))" if "spreading env ?net g p s1" for s1
  proof (intro conjI allI impI)
    show "\<exists>x. \<exists>q\<in>set (net_transport s1 x). receiver q = BROADCAST" using that by (simp add: spreading_def)
    fix x q qs assume "net_transport s1 x = q # qs"
    from spreading_pull [OF that net tree sp req buf this]
    show "case pull_packet env x q (s1\<lparr>net_transport := (net_transport s1)(x := qs)\<rparr>) of
        None \<Rightarrow> False | Some (Inl e) \<Rightarrow> queue_failed env g e | Some (Inr s2) \<Rightarrow> True"
      by (auto split: option.splits sum.splits)
  qed
  have start: "spreading env ?net g p s0" if "mesh_system env ?net g s0" "tree_branches env g c hs"
    "\<forall>x q. q \<in> set (net_transport s0 x) \<longleftrightarrow> q \<in> set (net_transport s x) \<or> (\<exists>h\<in>set hs. next_dest h = x \<and> q = sent_copy c t p h)" for s0 hs t
    by (rule tree_spreads [OF that(1) _ _ that(2,3)]) (use none in \<open>simp_all add: copies_def copy_of_def\<close>)
  note first = netSend_tree [OF sys net src tree rb req buf]
  show ?thesis
  proof (cases "netSend env c p s")
    case None
    then show ?thesis using first by simp
  next
    case (Some r)
    show ?thesis
    proof (cases r)
      case (Inl e)
      then show ?thesis using first Some send by simp
    next
      case (Inr x)
      obtain p' s0 where x: "x = (p', s0)" by fastforce
      have "spreading env ?net g p s0" using first Some Inr x start by auto
      then show ?thesis using reach now Some Inr x send by simp
    qed
  qed
qed

end
