(* ===== verification/LS_Route_Ex.thy ===== *)
theory LS_Route_Ex
  imports LS_Broadcast
begin

text \<open>
  Small meshes: the theorems on routing applied to them, a ring in which the route is longer than the distance, and a mesh one node wide
  in which two memory controllers share a node.
\<close>

definition sample_env :: net_env where
  "sample_env = \<lparr>ne_periods = (\<lambda>d. if d < 2 then 10 else 20), ne_queue = \<lparr>qe_root = (\<lambda>_ _. 0), qe_estimate = (\<lambda>_ _ _ _. 0), qe_global_time = 0\<rparr>,
     total_cores = 6, application_cores = 6, core_id_length = 1, packet_size = 48\<rparr>"

definition sample_mesh :: NetworkModelEMeshHopByHop where
  "sample_mesh = (let q = WindowedMG1 (mk_QueueModelWindowedMG1 0) in
     \<lparr>m_mesh_width = 3, m_mesh_height = 2, m_queue_models = (\<lambda>_. q), m_injection_port_queue_model = q, m_ejection_port_queue_model = q,
      m_enabled = True, m_total_bytes_sent = 0, m_total_packets_sent = 0, m_total_bytes_received = 0, m_total_packets_received = 0,
      m_total_contention_delay = 0, m_total_packet_latency = 0, m_fake_node = False, hb_core_id = 0, m_concentration = 1, m_dimensions = 2,
      m_wrap_around = False, m_link_bandwidth = \<lparr>bpc_period = 0, m_bw_in_bits_per_cycle = 64\<rparr>,
      m_hop_latency = \<lparr>cl_period = 0, m_fixed_cycle_latency = 2\<rparr>, m_broadcast_tree_enabled = True, m_queue_model_enabled = False\<rparr>)"

text \<open>Each core has a clock domain of its own.\<close>

definition sample_node :: "core_id_t \<Rightarrow> NetworkModelEMeshHopByHop" where
  "sample_node c = sample_mesh\<lparr>hb_core_id := c, m_fake_node := \<not> stop sample_env sample_mesh c,
     m_link_bandwidth := \<lparr>bpc_period = nat c, m_bw_in_bits_per_cycle = 64\<rparr>, m_hop_latency := \<lparr>cl_period = nat c, m_fixed_cycle_latency = 2\<rparr>\<rparr>"

definition sample_packet :: NetPacket where
  "sample_packet = \<lparr>start_time = 0, pkt_time = 100, queue_delay = 0, pkt_type = SHARED_MEM_1, sender = 0, receiver = 5, pkt_length = 16,
     data_requester = 0, data_length = 8\<rparr>"

definition sample_net :: NetSystem where
  "sample_net =
    \<lparr>net_nodes = (\<lambda>c. \<lparr>nn_models = (\<lambda>_. ModelHopByHop (sample_node c)), nn_matrix = (\<lambda>_. mk_TrafficMatrix True 6),
       nn_callbacks = (\<lambda>_. False), nn_queue = [sample_packet, sample_packet\<lparr>pkt_time := 50\<rparr>, sample_packet\<lparr>pkt_time := 50, queue_delay := 7\<rparr>]\<rparr>),
     net_bus = (\<lambda>_. \<lparr>bus_bandwidth = \<lparr>m_bw_in_bits_per_us = 1\<rparr>, bus_queue_model = WindowedMG1 (mk_QueueModelWindowedMG1 0), bus_num_packets = 0,
       bus_num_packets_delayed = 0, bus_num_bytes = 0, bus_time_used = 0, bus_total_delay = 0\<rparr>),
     net_transport = (\<lambda>_. []), net_called = []\<rparr>"

lemma sample_mesh_ok: "mesh_ok sample_env sample_mesh"
  by (simp add: mesh_ok_def sample_mesh_def sample_env_def Let_def)

lemma smod_one [simp]: "c smod 1 = 0" for c :: int
  by (simp add: signed_modulo_int_def)

lemma sample_net_ok: "mesh_system sample_env net sample_mesh sample_net"
proof -
  have "mesh_node sample_env sample_mesh c (sample_node c)" for c
    by (simp add: mesh_node_def sample_node_def sample_mesh_def Let_def)
  moreover have "m_bw_in_bits_per_cycle (m_link_bandwidth sample_mesh) \<noteq> 0" by (simp add: sample_mesh_def Let_def)
  moreover have "matrix_ok sample_env (mk_TrafficMatrix True 6)" by (simp add: matrix_ok_def mk_TrafficMatrix_def sample_env_def)
  ultimately show ?thesis using sample_mesh_ok by (simp add: mesh_system_def sample_net_def)
qed

lemma sample_no_queues: "\<not> m_queue_model_enabled sample_mesh"
  by (simp add: sample_mesh_def Let_def)

text \<open>From one corner of the mesh to the other: three hops of two cycles, two of them in a fast clock domain.\<close>

theorem mesh_delivers_witness:
  "\<exists>p' s'. netSend sample_env 0 sample_packet sample_net = Some (Inr (p', s')) \<and>
     net_transport s' 5 = [sample_packet\<lparr>start_time := 100, pkt_time := 180\<rparr>]"
proof -
  have c: "is_core sample_env 0" "is_core sample_env (receiver sample_packet)"
    by (simp_all add: is_core_def sample_env_def sample_packet_def)
  have p: "sender sample_packet = 0" "pkt_requester sample_env sample_packet = Inr 0"
    "bufferSize sample_env sample_packet \<ge> packet_size sample_env"
    by (simp_all add: sample_packet_def pkt_requester_def sample_env_def bufferSize_def)
  have cost: "sum_list (map (node_cost sample_env STATIC_NETWORK_MEMORY_1 0 sample_net)
      (route_nodes sample_env sample_mesh (way sample_env sample_mesh 0 5) 0 5)) = 80" by code_simp
  have r: "receiver sample_packet = 5" "pkt_time sample_packet = 100" "g_type_to_static_network_map (pkt_type sample_packet) = STATIC_NETWORK_MEMORY_1"
    "net_transport sample_net 5 = []" "queue_delay sample_packet = 0" by (simp_all add: sample_packet_def sample_net_def)
  have keep: "sample_packet\<lparr>start_time := a, queue_delay := 0, pkt_time := b\<rparr> = sample_packet\<lparr>start_time := a, pkt_time := b\<rparr>" for a b
    by (simp add: sample_packet_def)
  show ?thesis
    using conjunct1 [OF mesh_delivers [OF sample_net_ok c p]] sample_no_queues unfolding r cost
    by (cases "netSend sample_env 0 sample_packet sample_net") (auto simp: r keep split: sum.splits)
qed

text \<open>The broadcast of a core in the second row is still under way after any number of turns.\<close>

theorem broadcast_tree_never_ends_witness:
  "\<exists>p s0. netBroadcast sample_env 4 100 SHARED_MEM_1 16 4 8 sample_net = Some (Inr (p, s0)) \<and>
     (\<forall>s1. (pull_step sample_env)\<^sup>*\<^sup>* s0 s1 \<longrightarrow> (\<exists>x. net_transport s1 x \<noteq> []))"
proof -
  have tree: "m_broadcast_tree_enabled sample_mesh" by (simp add: sample_mesh_def Let_def)
  have st: "stop sample_env sample_mesh 4" by (simp add: stop_def app_core_def sample_env_def sample_mesh_def Let_def)
  have empty: "\<forall>x. net_transport sample_net x = []" by (simp add: sample_net_def)
  have req: "SHARED_MEM_1 = SHARED_MEM_1 \<longrightarrow> is_core sample_env 4" by (simp add: is_core_def sample_env_def)
  have size: "packet_size sample_env \<le> packet_size sample_env + 16" by (simp add: sample_env_def)
  have no: "queue_failed sample_env sample_mesh e = False" for e using sample_no_queues by (simp add: queue_failed_def)
  note run = broadcast_tree_never_ends [OF sample_net_ok tree st empty req size, of 100 8, unfolded no]
  show ?thesis
  proof (cases "netBroadcast sample_env 4 100 SHARED_MEM_1 16 4 8 sample_net")
    case None
    then show ?thesis using run by simp
  next
    case (Some r)
    then obtain p s0 where r: "r = Inr (p, s0)" using run by (cases r) auto
    then have "\<forall>s1. (pull_step sample_env)\<^sup>*\<^sup>* s0 s1 \<longrightarrow> (\<exists>x. \<exists>q\<in>set (net_transport s1 x). receiver q = BROADCAST)" using run Some by simp
    then have "\<forall>s1. (pull_step sample_env)\<^sup>*\<^sup>* s0 s1 \<longrightarrow> (\<exists>x. net_transport s1 x \<noteq> [])"
      by (metis empty_iff list.set(1))
    then show ?thesis using Some r by (intro exI [of _ p] exI [of _ s0]) simp
  qed
qed

theorem netRecv_earliest_witness:
  "\<exists>s' xs ys. netRecv sample_env 5 60 \<lparr>nm_senders = [0], nm_types = []\<rparr> 0 [] sample_net = Some (Inr (sample_packet\<lparr>pkt_time := 50\<rparr>, None, s')) \<and>
     nn_queue (net_nodes sample_net 5) = xs @ sample_packet\<lparr>pkt_time := 50\<rparr> # ys \<and> nn_queue (net_nodes s' 5) = xs @ ys"
proof -
  let ?k = "\<lparr>nm_senders = [0], nm_types = []\<rparr>"
  obtain s' where s': "netRecv sample_env 5 60 ?k 0 [] sample_net = Some (Inr (sample_packet\<lparr>pkt_time := 50\<rparr>, None, s'))"
    by (simp add: netRecv_def recv_loop.simps recv_match_def sample_net_def sample_packet_def packet_matches_def recv_penalty_def sample_env_def)
  obtain us u vs xs ys where u: "[sample_net] = us @ u # vs" "nn_queue (net_nodes u 5) = xs @ sample_packet\<lparr>pkt_time := 50\<rparr> # ys"
    "nn_queue (net_nodes s' 5) = xs @ ys"
    using netRecv_earliest [THEN conjunct2, rule_format, OF s']
  proof (elim disjE exE conjE, goal_cases)
    case (1 us u vs xs ys)
    from 1(1) [OF 1(2,5,6)] show ?case .
  qed simp
  have "u = sample_net" using u(1) by (cases us) auto
  then show ?thesis using s' u by blast
qed

theorem memory_controllers_distinct_witness:
  "mesh_computeMemoryControllerPositions 16 1 2 None 4 = Inr (True, [2, 11, 13, 4]) \<and> distinct [2, 11, 13, 4 :: core_id_t]"
proof
  show run: "mesh_computeMemoryControllerPositions 16 1 2 None 4 = Inr (True, [2, 11, 13, 4])" by code_simp
  have dims: "computeMeshDimensions 16 1 2 None = Inr (4, 4)" by code_simp
  show "distinct [2, 11, 13, 4 :: core_id_t]" using memory_controllers_distinct [OF run dims] by simp
qed

text \<open>In a ring of five nodes the route from node 0 to node 3 has three hops, although their distance is two.\<close>

lemma ring_takes_longer_way:
  "route_hops (sample_mesh\<lparr>m_mesh_width := 5, m_mesh_height := 1, m_wrap_around := True\<rparr>) 0 3 = 3"
  "computeDistance 0 3 (sample_mesh\<lparr>m_mesh_width := 5, m_mesh_height := 1, m_wrap_around := True\<rparr>) = 2"
  by code_simp+

text \<open>In a mesh one node wide and four nodes high, two of three memory controllers are on node 2.\<close>

lemma narrow_mesh_shares_node: "mesh_computeMemoryControllerPositions 4 1 2 (Some (Some (1, 4))) 3 = Inr (True, [0, 2, 2])"
  by code_simp

end
