(* ===== verification/Spec2Isabelle.thy ===== *)
theory Spec2Isabelle
  imports LS_Utils LS_Cache_Base LS_Cache_Block LS_Replacement LS_LRU LS_Policies LS_Cache_Set LS_Cache LS_Directory
    LS_Req_Queue LS_Directory_Cache LS_Nuca LS_Directory_Cntlr LS_Coherence LS_Dir_Progress
    LS_Time LS_Threads LS_Sync_Server LS_Sync LS_Futex LS_Skew_Barrier LS_Moving_Average LS_Contention LS_Queue_Model
    LS_Cache_Cntlr LS_Hierarchy LS_Flush LS_Flush_Data LS_Mem_Op LS_Waiters LS_Fill
    LS_Scheduler LS_Sched_Inv LS_Sched_Steps LS_Sched_Reach LS_Sched_Place LS_Containers LS_Branch LS_Branch_Run LS_Branch_Loop
    LS_Micro_Op LS_Rob LS_Rob_Inv LS_Rob_Reach LS_Rob_Ports LS_Network LS_Mesh LS_Net_Send LS_Route LS_Broadcast LS_Route_Ex
begin

text \<open>
  LifeSim, a multi-core simulator derived from Sniper: the memory subsystem, the threads, their synchronisation and their scheduling, the
  models of time and contention, and the out-of-order core model.

  \<^bold>\<open>The program.\<close> The simulator executes a workload on modelled cores. Its own core logic is the memory hierarchy
  under \<^verbatim>\<open>src/common/core/memory_subsystem\<close>: private caches per core, a directory that keeps them coherent, a NUCA cache
  beside every directory, and the mapping of addresses to home nodes. A cache is an array of sets; a set holds the ways
  and calls a replacement policy to choose a victim. The home directory of a line receives requests and replies of the
  private caches as messages, keeps an entry per line with its state and sharers, queues requests per address, and sends
  messages to caches and to DRAM. Under \<^verbatim>\<open>src/common/system\<close>, a thread manager keeps the state of the simulated threads,
  servers give them mutexes, condition variables, barriers and futexes, and a barrier over the cores keeps their clocks
  together; under \<^verbatim>\<open>src/common/scheduler\<close>, a scheduler gives threads to cores. Under \<^verbatim>\<open>src/common/performance_model\<close>, the contention and queue models say how long a request waits for a shared
  resource, branch predictors say which branches cost a penalty, and the reorder-buffer timer says how long a stream of micro-operations takes. Under \<^verbatim>\<open>src/common/network\<close>, networks carry the messages between cores. Time is a 64-bit count of femtoseconds.

  \<^bold>\<open>Conventions.\<close> A C++ class is a record and a method is a function from the record to the updated record. Integers are
  words of the width the code gives them. \<^verbatim>\<open>LOG_ASSERT_ERROR\<close>, \<^verbatim>\<open>assert\<close>, \<^verbatim>\<open>LOG_PRINT_ERROR\<close> and accesses out of the
  range of an array are values of the error type of \<^verbatim>\<open>LS_Prelude\<close>, on the left of a sum; what a constructor leaves
  uninitialised is an argument, so that the theorems hold for every such value. The directory takes the times that the DRAM
  and network models compute as arguments. A result of floating-point arithmetic is an argument. A simulated thread whose
  host thread blocks is marked as waiting, and a call that blocks has no result until another call wakes the thread. Log output and registration of statistics have no counterpart; the statistics
  themselves are part of the state. Locks are not modelled: the operations on one set or one directory run one after
  another.

  \<^bold>\<open>The theories, in the order of their dependencies.\<close>

  \<^item> \<^verbatim>\<open>LS_Prelude\<close>: types, errors, the error monad and shared lemmas on lists and words.
  \<^item> \<^verbatim>\<open>LS_Utils\<close>: \<^verbatim>\<open>misc/utils.cc\<close>, \<^verbatim>\<open>modulo_num.cc\<close>, \<^verbatim>\<open>rng.h\<close>, \<^verbatim>\<open>random.h\<close>. The logarithms and the bit count are shown equal
    to their specification, the modular counters to be inverse to each other.
  \<^item> \<^verbatim>\<open>LS_Cache_Base\<close>: \<^verbatim>\<open>address_home_lookup.cc\<close> and \<^verbatim>\<open>cache_base.cc\<close>. Addresses are interleaved over home nodes without
    collisions, and splitting an address into tag, set and offset is undone by \<^verbatim>\<open>tagToAddress\<close>.
  \<^item> \<^verbatim>\<open>LS_Cache_Block\<close>: \<^verbatim>\<open>cache_block_info.cc\<close> and the block kinds of level-2 and shared caches; usage bits.
  \<^item> \<^verbatim>\<open>LS_Replacement\<close>, \<^verbatim>\<open>LS_LRU\<close>, \<^verbatim>\<open>LS_Policies\<close>: the files \<^verbatim>\<open>cache_set_*.cc\<close>. LRU refines a recency list; each policy
    returns the victim it promises; SRRIP and round robin terminate; three closed theorems show where a policy departs
    from what it means to do.
  \<^item> \<^verbatim>\<open>LS_Cache_Set\<close>: \<^verbatim>\<open>cache_set.cc\<close>. The locale \<^verbatim>\<open>replacement_policy\<close> is the contract between a set and its policy
    (the victim is a way of the set, the policy keeps its invariant), \<^verbatim>\<open>invalid_first_policy\<close> extends it with the promise
    that invalid ways are filled first; both are interpreted on the dispatch over all policies of the code. Inside them the
    operations of a set are shown to refine a map from tags to blocks.
  \<^item> \<^verbatim>\<open>LS_Cache\<close>: \<^verbatim>\<open>cache.cc\<close> and \<^verbatim>\<open>fault_injection\<close>. The cache of all sets refines a map from lines to blocks.
  \<^item> \<^verbatim>\<open>LS_Directory\<close>: \<^verbatim>\<open>directory.cc\<close> and the directory entries. The locale \<^verbatim>\<open>sharer_tracker\<close> states an entry as a finite
    set of sharers and is interpreted on the bit vectors of the code.
  \<^item> \<^verbatim>\<open>LS_Req_Queue\<close>: \<^verbatim>\<open>req_queue_list_template.h\<close>, a queue per address; the locale \<^verbatim>\<open>request_queues\<close> is its contract.
  \<^item> \<^verbatim>\<open>LS_Directory_Cache\<close>: \<^verbatim>\<open>dram_directory_cache.cc\<close>. An entry is found by its location, in the table or on the list of
    entries under replacement; properties of all entries are kept by every operation.
  \<^item> \<^verbatim>\<open>LS_Nuca\<close>: \<^verbatim>\<open>nuca_cache.cc\<close>, read and write.
  \<^item> \<^verbatim>\<open>LS_Directory_Cntlr\<close>: \<^verbatim>\<open>dram_directory_cntlr.cc\<close>, \<^verbatim>\<open>shmem_msg.h\<close>, \<^verbatim>\<open>shmem_req.cc\<close>: every handler of the home
    directory under the protocols MSI, MESI and MESIF. Messages that are sent are appended to an outbox.
  \<^item> \<^verbatim>\<open>LS_Coherence\<close>: an inductive step relation over the handlers and the invariant that makes a writer the only holder
    of a line, for every sequence of messages.
  \<^item> \<^verbatim>\<open>LS_Dir_Progress\<close>: the mutual recursion of the handlers ends.
  \<^item> \<^verbatim>\<open>LS_Cache_Cntlr\<close>: \<^verbatim>\<open>cache_cntlr.cc\<close>: the blocks of a level, the changes that reach the levels below and above, and the
    messages of the directory. Controllers and masters are numbers into maps, because they point to each other.
  \<^item> \<^verbatim>\<open>LS_Hierarchy\<close>: what a change of a line keeps in the whole hierarchy. The locale \<^verbatim>\<open>update_relation\<close> lifts a relation from
    one block to \<^verbatim>\<open>updateCacheBlock\<close>; it is interpreted on four relations.
  \<^item> \<^verbatim>\<open>LS_Flush\<close>: invalidations return and reach every cache; \<^verbatim>\<open>LS_Flush_Data\<close>: write-backs carry the bytes of modified copies up the hierarchy, and
    a request to flush a line is answered with the newest copy. The hierarchies are those of coherent write-back caches in which a line that is
    modified in a cache is modified in the next level (\<^verbatim>\<open>hierarchy\<close>, \<^verbatim>\<open>dirty_inclusive\<close>, \<^verbatim>\<open>cache_tree\<close>).
  \<^item> \<^verbatim>\<open>LS_Mem_Op\<close>: the other half of \<^verbatim>\<open>cache_cntlr.cc\<close>: the accesses of the core, the requests of one level to the next, the
    misses in progress, and the replies that wake the cores which wait. An operation that waits for the network thread is kept
    as a record of its local variables; a reply runs the rest of it.
  \<^item> \<^verbatim>\<open>LS_Waiters\<close>: the locale \<^verbatim>\<open>step_relation\<close> proves of every operation of the controllers what its elementary changes keep; with it,
    a reply serves the cores in order. \<^verbatim>\<open>LS_Fill\<close>: a first-level cache that gets a line from the next level takes over its state, so
    that there can be a second writable copy; \<^verbatim>\<open>sibling_reads_stale_data\<close> is a run in which a core then reads old data.
  \<^item> \<^verbatim>\<open>LS_Time\<close>: \<^verbatim>\<open>subsecond_time.h\<close>; cycles and time are inverse to each other as far as 64 bits reach.
  \<^item> \<^verbatim>\<open>LS_Threads\<close>: \<^verbatim>\<open>thread_manager.cc\<close> and \<^verbatim>\<open>thread.cc\<close>: threads are created, started, stalled, resumed, moved and joined.
  \<^item> \<^verbatim>\<open>LS_Scheduler\<close>: the files of \<^verbatim>\<open>common/scheduler\<close> in the three builds the repository makes, and the handlers of
    \<^verbatim>\<open>thread_manager.cc\<close> with the scheduler behind their hooks; \<^verbatim>\<open>LS_Sched_Inv\<close>: the tables of the scheduler and of the thread
    manager agree while threads are moved, and rescheduling returns; \<^verbatim>\<open>LS_Sched_Steps\<close>: every event keeps this, the locale
    \<^verbatim>\<open>initial_affinity\<close> states what a scheduler promises when it places a new thread; \<^verbatim>\<open>LS_Sched_Reach\<close>: the locale is interpreted on
    the pinned, mapped and roaming schedulers, and the agreement holds after every sequence of events; \<^verbatim>\<open>LS_Sched_Place\<close>: the order
    of the cores, affinity masks and new mappings.
  \<^item> \<^verbatim>\<open>LS_Sync_Server\<close>, \<^verbatim>\<open>LS_Sync\<close>: \<^verbatim>\<open>sync_server.cc\<close>. An inductive step relation over the calls of running threads: no waiter
    is lost, every waiter of a mutex gets it, a barrier releases its threads together.
  \<^item> \<^verbatim>\<open>LS_Futex\<close>: \<^verbatim>\<open>syscall_server.cc\<close>: futexes and sleeping threads; waiters are woken in order.
  \<^item> \<^verbatim>\<open>LS_Skew_Barrier\<close>: \<^verbatim>\<open>barrier_sync_server.cc\<close>. The loop that releases the barrier is a partial function; it is shown to
    return, and to let go those cores and only those that are behind the new barrier time, for periodic handlers that call the operations of the
    barrier (\<^verbatim>\<open>uses_interface\<close>).
  \<^item> \<^verbatim>\<open>LS_Moving_Average\<close>: \<^verbatim>\<open>moving_average.h\<close>; the ring buffer refines the list of the last samples.
  \<^item> \<^verbatim>\<open>LS_Contention\<close>: \<^verbatim>\<open>contention_model.cc\<close>; the unit that is chosen is the right one, and no more requests are in service
    at a time than there are units, besides those that the model answers without a unit.
  \<^item> \<^verbatim>\<open>LS_Queue_Model\<close>: \<^verbatim>\<open>queue_model*.cc\<close>. The locale \<^verbatim>\<open>exclusive_server\<close> states that a request which the model books is served in time that is
    still free; it is interpreted on the basic model and on the history list, with and without its analytical model.
  \<^item> \<^verbatim>\<open>LS_Containers\<close>: \<^verbatim>\<open>circular_queue.h\<close> and \<^verbatim>\<open>bit_vector.cc\<close>; the ring refines a bounded first-in first-out queue, the words of the
    bit vector refine a set of numbers.
  \<^item> \<^verbatim>\<open>LS_Branch\<close>: the files of \<^verbatim>\<open>branch_predictors\<close>; \<^verbatim>\<open>LS_Branch_Run\<close>: a predictor keeps the sizes of its tables, so it never fails, and
    counts every branch; \<^verbatim>\<open>LS_Branch_Loop\<close>: what the loop predictor learns.
  \<^item> \<^verbatim>\<open>LS_Micro_Op\<close>: \<^verbatim>\<open>micro_op.cc\<close>, \<^verbatim>\<open>dynamic_micro_op.cc\<close>, the dependency tables and the core model of the Nehalem; \<^verbatim>\<open>LS_Rob\<close>:
    \<^verbatim>\<open>rob_timer.cc\<close> and \<^verbatim>\<open>rob_contention_nehalem.cc\<close>; \<^verbatim>\<open>LS_Rob_Inv\<close>: the invariant of the reorder buffer and that entering, dispatching and
    issuing keep it; \<^verbatim>\<open>LS_Rob_Reach\<close>: commit and a whole cycle, and every sequence of calls; \<^verbatim>\<open>LS_Rob_Ports\<close>: what the ports let through.
  \<^item> \<^verbatim>\<open>LS_Network\<close>, \<^verbatim>\<open>LS_Mesh\<close>: the network models, \<^verbatim>\<open>network_model*.cc\<close>; \<^verbatim>\<open>LS_Net_Send\<close>: \<^verbatim>\<open>network.cc\<close>; \<^verbatim>\<open>LS_Route\<close>: dimension-order
    routing brings a packet one hop nearer at every node, so that sending ends and the packet arrives, with the cost of every stop in its own clock
    domain; the memory controllers are on different nodes; a core receives the earliest packet that matches, or gives up after its time-out;
    \<^verbatim>\<open>LS_Broadcast\<close>: a broadcast over the tree does not end, whatever the cores do next; \<^verbatim>\<open>LS_Route_Ex\<close>: small meshes.

  \<^bold>\<open>Bounds.\<close> \<^verbatim>\<open>processNextReqFromL2Cache\<close> and the methods that serve a request call each other. The model passes the
  recursive call as an argument and bounds its depth by the length of the queue of the address plus one
  (\<^verbatim>\<open>request_bound\<close>); \<^verbatim>\<open>LS_Dir_Progress\<close> shows that the bound is never reached. The searches of the policies are
  bounded loops in the code, with the same bounds here. The recursion of the round-robin and of the random policy may not
  end in the code; they are partial functions with value \<^verbatim>\<open>None\<close> for that, as is the release of the clock-skew barrier.
  The product of the geometric mean runs over the ring buffer once; its fuel is the length of the buffer plus one.

  \<^verbatim>\<open>reschedule\<close> is called again by the thread manager when it wakes a thread; each inner call fills a free core, and the number of cores plus
  one is enough fuel (\<^verbatim>\<open>reschedule_returns\<close>). The search of the pinned scheduler for a core is a partial function.

  \<^verbatim>\<open>updateCacheBlock\<close> and \<^verbatim>\<open>writeCacheBlock\<close> call the controllers of the previous and of the next level; their fuel is the number
  of levels (\<^verbatim>\<open>height\<close>), and \<^verbatim>\<open>LS_Flush\<close> shows that it is enough. The loop over the cores that wait has the length of their queue as
  fuel (\<^verbatim>\<open>serve_waiters_fuel\<close>), and the loop that shortens the table of misses has its length (\<^verbatim>\<open>cleanup_keeps_latest\<close>).

  The loop of the reorder buffer over the cycles (\<^verbatim>\<open>rob_cycles\<close>) is a partial function: it ends with the first cycle that takes no time,
  which is one that cannot dispatch (\<^verbatim>\<open>rob_execute_stops\<close>, \<^verbatim>\<open>rob_execute_time\<close>). The loop of dispatch has the free room of the window as
  its bound. The loop of \<^verbatim>\<open>netSend\<close> over the hops (\<^verbatim>\<open>follow_hops\<close>) is a partial function, shown to end in a mesh (\<^verbatim>\<open>mesh_delivers\<close>); the
  loop over the packets of a transport is bounded by the number of packets taken.

  \<^bold>\<open>Not modelled.\<close> The memory manager, which builds the hierarchy; prefetchers and auxiliary tag directories; the DRAM controllers, the breakdown of latencies for the statistics and the reliability unit, which compute with floating-point numbers or only report; the interval, one-IPC and SMT core models; the transport below the networks; system calls other than futexes and sleeping; configuration parsing; the front ends, the scripting bindings
  and HotSpot.
\<close>

end
